(* ===== verification/Prelude.thy ===== *)
theory Prelude
  imports Main "HOL-Library.Word"
begin

text \<open>
  What every component of the simulator model shares: the widths of the C++ integers, the
  faults that stop the simulator, the sequencing of fallible operations, linked paths through
  cells numbered by natural numbers, and small facts on lists that the component proofs use.
\<close>

section \<open>Machine integers\<close>

type_synonym u8 = "8 word"
type_synonym u16 = "16 word"
type_synonym u32 = "32 word"
type_synonym u64 = "64 word"

lemma unat_ucast_u64 [simp]: "unat (ucast (x :: u32) :: u64) = unat x"
  by (transfer, simp add: take_bit_int_eq_self)

lemma unat_ucast_u8_u32 [simp]: "unat (ucast (x :: u8) :: u32) = unat x"
  by (transfer, simp add: take_bit_int_eq_self)

lemma ucast_u8_u32_0 [simp]: "(ucast (x :: u8) :: u32) = 0 \<longleftrightarrow> x = 0"
  by (simp add: word_unat_eq_iff)

lemma unat_plus_1: "unat (x :: 'a::len word) + 1 < 2 ^ LENGTH('a) \<Longrightarrow> unat (x + 1) = unat x + 1"
  by (simp add: unat_word_ariths)

lemma unat_pred: "0 < unat (x :: 'a::len word) \<Longrightarrow> unat (x - 1) = unat x - 1"
  by (metis neq0_conv unat_eq_zero unat_minus_one)

section \<open>Faults\<close>

text \<open>
  \<open>Sanity\<close> is a failed \<open>SANITY_ASSERT\<close> (the macro prints and then loops writing through a wild
  pointer), \<open>Exit\<close> a call of \<open>exit\<close>, \<open>Null_Deref\<close> and \<open>Out_Of_Bounds\<close> an access that C++ leaves
  undefined, \<open>Diverges\<close> a loop that the model's bound shows not to stop.
\<close>

datatype fault = Sanity | Exit | Null_Deref | Out_Of_Bounds | Diverges

type_synonym 'a res = "fault + 'a"

definition rbind :: "'a res \<Rightarrow> ('a \<Rightarrow> 'b res) \<Rightarrow> 'b res" where
  "rbind m f = (case m of Inl e \<Rightarrow> Inl e | Inr x \<Rightarrow> f x)"

lemma rbind_simps [simp]:
  "rbind (Inl e) f = Inl e"
  "rbind (Inr x) f = f x"
  by (simp_all add: rbind_def)

lemma rbind_Inr_iff: "rbind m f = Inr y \<longleftrightarrow> (\<exists>x. m = Inr x \<and> f x = Inr y)"
  by (cases m) simp_all

definition is_ok :: "'a res \<Rightarrow> bool" where
  "is_ok m = (case m of Inl _ \<Rightarrow> False | Inr _ \<Rightarrow> True)"

lemma is_ok_simps [simp]: "is_ok (Inl e) = False" "is_ok (Inr x) = True"
  by (simp_all add: is_ok_def)

lemma is_ok_iff: "is_ok m \<longleftrightarrow> (\<exists>x. m = Inr x)"
  by (cases m) simp_all

text \<open>A loop over a list whose body may fail.\<close>

primrec rfold :: "('a \<Rightarrow> 's \<Rightarrow> 's res) \<Rightarrow> 'a list \<Rightarrow> 's \<Rightarrow> 's res" where
  "rfold f [] s = Inr s"
| "rfold f (x # xs) s = rbind (f x s) (rfold f xs)"

lemma rfold_append: "rfold f (xs @ ys) s = rbind (rfold f xs s) (rfold f ys)"
proof (induction xs arbitrary: s)
  case (Cons x xs)
  then show ?case by (cases "f x s") simp_all
qed simp

lemma rfold_invariant:
  assumes "\<And>x s. x \<in> set xs \<Longrightarrow> P s \<Longrightarrow> \<exists>t. f x s = Inr t \<and> P t" and "P s"
  shows "\<exists>t. rfold f xs s = Inr t \<and> P t"
  using assms
proof (induction xs arbitrary: s)
  case (Cons x xs)
  then obtain t where "f x s = Inr t" "P t" by (meson list.set_intros(1))
  with Cons.IH[of t] Cons.prems(1) show ?case by simp
qed simp

section \<open>Hint collections\<close>

named_theorems ring_simps \<open>ring buffer arithmetic\<close>
named_theorems inv_intros \<open>preservation of component invariants\<close>

section \<open>Linked paths\<close>

text \<open>
  Cells are numbered; \<open>f p\<close> is the number that cell \<open>p\<close> links to. \<open>path f p ps q\<close> says that
  following the links from \<open>p\<close> visits exactly \<open>ps\<close> and arrives at \<open>q\<close>.
\<close>

primrec path :: "('p \<Rightarrow> 'p) \<Rightarrow> 'p \<Rightarrow> 'p list \<Rightarrow> 'p \<Rightarrow> bool" where
  "path f p [] q \<longleftrightarrow> p = q"
| "path f p (r # rs) q \<longleftrightarrow> p = r \<and> path f (f r) rs q"

lemma path_append [simp]:
  "path f p (xs @ ys) q \<longleftrightarrow> (\<exists>r. path f p xs r \<and> path f r ys q)"
  by (induction xs arbitrary: p) auto

lemma path_cong_on:
  "(\<And>r. r \<in> set rs \<Longrightarrow> f r = g r) \<Longrightarrow> path f p rs q = path g p rs q"
  by (induction rs arbitrary: p) auto

lemma path_upd_other [simp]: "u \<notin> set rs \<Longrightarrow> path (f(u := v)) p rs q = path f p rs q"
  by (rule path_cong_on) auto

lemma path_end_unique: "path f p rs q \<Longrightarrow> path f p rs q' \<Longrightarrow> q = q'"
  by (induction rs arbitrary: p) auto

lemma path_start: "path f p rs q \<Longrightarrow> p = (if rs = [] then q else hd rs)"
  by (cases rs) auto

text \<open>Following the links for at most a given number of cells.\<close>

primrec follow :: "('p \<Rightarrow> 'p) \<Rightarrow> 'p \<Rightarrow> nat \<Rightarrow> 'p \<Rightarrow> 'p list" where
  "follow f stop 0 p = []"
| "follow f stop (Suc k) p = (if p = stop then [] else p # follow f stop k (f p))"

lemma follow_path:
  "path f p rs stop \<Longrightarrow> stop \<notin> set rs \<Longrightarrow> length rs \<le> k \<Longrightarrow> follow f stop k p = rs"
proof (induction rs arbitrary: p k)
  case Nil
  then show ?case by (cases k) auto
next
  case (Cons r rs)
  then show ?case by (cases k) auto
qed

section \<open>Lists\<close>

lemma filter_neq_mid:
  "distinct (xs @ x # ys) \<Longrightarrow> filter (\<lambda>y. y \<noteq> x) (xs @ x # ys) = xs @ ys"
  by (induction xs) (auto simp: filter_id_conv)

lemma length_filter_split:
  "length (filter P xs) + length (filter (\<lambda>x. \<not> P x) xs) = length xs"
  by (rule sum_length_filter_compl)

end
