(* ===== verification/Static_List.thy ===== *)
theory Static_List
  imports Prelude
begin

text \<open>
  The array-backed doubly linked list of \<open>src/src/data/double_linked_static.h\<close>: every queue of
  the simulator (reservation stations, reorder buffer, instruction supply, branch tables) is one.
  The elements live in an array allocated once; the used ones are chained by \<open>prev\<close>/\<open>next\<close>, the
  free ones by \<open>next_empty\<close>. An element pointer of the C++ is the element's position here, which
  is what its fields \<open>pos\<close> and \<open>owner\<close> record. The callback \<open>discard\<close> is \<open>NULL\<close> for every list
  of the simulator and is left out.

  The theory gives the operations as the code has them, the representation invariant \<open>dl_rep\<close>
  that ties the three chains together, and the refinement of each operation to lists of
  (position, data) pairs. \<open>Static_List_Spec\<close> states the resulting contract as a locale.
\<close>

section \<open>State\<close>

definition LIST_END :: nat where
  "LIST_END = 0xFFFFFFFF"

record 'a dl_el =
  el_data :: "'a option"
  el_prev :: nat
  el_next :: nat
  el_next_empty :: nat

record 'a dlist =
  dl_slots :: "'a dl_el list"
  dl_n_elements :: nat
  dl_capacity :: nat
  dl_begin :: nat
  dl_end :: nat
  dl_empty :: nat

abbreviation slot_at :: "'a dlist \<Rightarrow> nat \<Rightarrow> 'a dl_el" where
  "slot_at l p \<equiv> dl_slots l ! p"

definition upd_slot :: "nat \<Rightarrow> ('a dl_el \<Rightarrow> 'a dl_el) \<Rightarrow> 'a dlist \<Rightarrow> 'a dlist" where
  "upd_slot p f l = l\<lparr>dl_slots := (dl_slots l)[p := f (dl_slots l ! p)]\<rparr>"

section \<open>Operations\<close>

definition get_empty :: "'a dlist \<Rightarrow> nat" where
  "get_empty l = dl_capacity l - dl_n_elements l"

definition get_by_pos :: "'a dlist \<Rightarrow> nat \<Rightarrow> nat option" where
  "get_by_pos l n = (if n < dl_capacity l then Some n else None)"

definition get_first :: "'a dlist \<Rightarrow> nat option" where
  "get_first l = (if dl_n_elements l \<noteq> 0 then Some (dl_begin l) else None)"

definition get_last :: "'a dlist \<Rightarrow> nat option" where
  "get_last l = (if dl_n_elements l \<noteq> 0 then Some (dl_end l) else None)"

definition get_data :: "'a dlist \<Rightarrow> nat \<Rightarrow> 'a option" where
  "get_data l p = el_data (slot_at l p)"

definition get_next :: "'a dlist \<Rightarrow> nat \<Rightarrow> nat option" where
  "get_next l p = get_by_pos l (el_next (slot_at l p))"

definition get_prev :: "'a dlist \<Rightarrow> nat \<Rightarrow> nat option" where
  "get_prev l p = get_by_pos l (el_prev (slot_at l p))"

text \<open>The chain of free slots over the whole array, as \<open>set_list_size\<close> and \<open>del\<close> write it.\<close>

definition chain_all_empty :: "nat \<Rightarrow> 'a dl_el list \<Rightarrow> 'a dl_el list" where
  "chain_all_empty n sl =
     (map (\<lambda>i. (sl ! i)\<lparr>el_next_empty := i + 1\<rparr>) [0..<n])
       [n - 1 := (sl ! (n - 1))\<lparr>el_next_empty := LIST_END\<rparr>]"

text \<open>
  \<open>junk\<close> is the content of the freshly allocated array, which C++ leaves uninitialised.
\<close>

definition set_list_size :: "'a dl_el list \<Rightarrow> nat \<Rightarrow> 'a dlist res" where
  "set_list_size junk n =
     (if n = 0 then Inl Exit
      else Inr \<lparr>dl_slots = chain_all_empty n junk, dl_n_elements = 0, dl_capacity = n,
                dl_begin = LIST_END, dl_end = LIST_END, dl_empty = 0\<rparr>)"

text \<open>
  The constructor, which leaves \<open>empty\<close> (\<open>e\<close> here) uninitialised, and \<open>destroy\<close>, which leaves it
  as it was: a list is used only after \<open>set_list_size\<close>.
\<close>

definition dl_created :: "nat \<Rightarrow> 'a dlist" where
  "dl_created e = \<lparr>dl_slots = [], dl_n_elements = 0, dl_capacity = 0,
                  dl_begin = LIST_END, dl_end = LIST_END, dl_empty = e\<rparr>"

definition destroy :: "'a dlist \<Rightarrow> 'a dlist" where
  "destroy l = l\<lparr>dl_slots := [], dl_n_elements := 0, dl_capacity := 0,
                 dl_begin := LIST_END, dl_end := LIST_END\<rparr>"

definition add_end :: "'a \<Rightarrow> 'a dlist \<Rightarrow> 'a dlist \<times> nat option" where
  "add_end x l =
     (if dl_empty l = LIST_END then (l, None)
      else if dl_n_elements l = 0 then
        (let l1 = upd_slot 0 (\<lambda>e. e\<lparr>el_data := Some x, el_prev := LIST_END, el_next := LIST_END\<rparr>)
                    (l\<lparr>dl_begin := 0, dl_end := 0\<rparr>);
             l2 = l1\<lparr>dl_empty := el_next_empty (slot_at l1 0)\<rparr>
         in (l2\<lparr>dl_n_elements := dl_n_elements l2 + 1\<rparr>, Some 0))
      else
        (let i = dl_empty l;
             l1 = upd_slot i (\<lambda>e. e\<lparr>el_data := Some x, el_prev := dl_end l, el_next := LIST_END\<rparr>) l;
             l2 = upd_slot (dl_end l) (\<lambda>e. e\<lparr>el_next := i\<rparr>) l1;
             l3 = l2\<lparr>dl_end := i, dl_empty := el_next_empty (slot_at l2 i)\<rparr>
         in (l3\<lparr>dl_n_elements := dl_n_elements l3 + 1\<rparr>, Some i)))"

definition add_beginning_ptr :: "'a option \<Rightarrow> 'a dlist \<Rightarrow> 'a dlist \<times> nat option" where
  "add_beginning_ptr x l =
     (if dl_empty l = LIST_END then (l, None)
      else if dl_n_elements l = 0 then
        (let l1 = upd_slot 0 (\<lambda>e. e\<lparr>el_data := x, el_prev := LIST_END, el_next := LIST_END\<rparr>)
                    (l\<lparr>dl_begin := 0, dl_end := 0\<rparr>);
             l2 = l1\<lparr>dl_empty := el_next_empty (slot_at l1 0)\<rparr>
         in (l2\<lparr>dl_n_elements := dl_n_elements l2 + 1\<rparr>, Some 0))
      else
        (let i = dl_empty l;
             l1 = upd_slot i (\<lambda>e. e\<lparr>el_data := x, el_prev := LIST_END, el_next := dl_begin l\<rparr>) l;
             l2 = upd_slot (dl_begin l) (\<lambda>e. e\<lparr>el_prev := i\<rparr>) l1;
             l3 = l2\<lparr>dl_begin := i, dl_empty := el_next_empty (slot_at l2 i)\<rparr>
         in (l3\<lparr>dl_n_elements := dl_n_elements l3 + 1\<rparr>, Some i)))"

abbreviation add_beginning :: "'a \<Rightarrow> 'a dlist \<Rightarrow> 'a dlist \<times> nat option" where
  "add_beginning x \<equiv> add_beginning_ptr (Some x)"

text \<open>
  \<open>del\<close> of an element pointer: unlink (four cases), return the slot to the free chain (or, for
  the last element, rebuild the whole free chain), clear the data. The links \<open>el_next\<close> and
  \<open>el_prev\<close> of the deleted slot are left as they are.
\<close>

definition del_unlink :: "nat \<Rightarrow> 'a dlist \<Rightarrow> 'a dlist \<times> nat" where
  "del_unlink p l =
     (if p = dl_begin l then
        (if p = dl_end l then
           (l\<lparr>dl_begin := LIST_END, dl_end := LIST_END, dl_empty := 0,
              dl_slots := chain_all_empty (dl_capacity l) (dl_slots l)\<rparr>, LIST_END)
         else
           (let i = dl_begin l;
                l1 = l\<lparr>dl_begin := el_next (slot_at l i)\<rparr>
            in (upd_slot (dl_begin l1) (\<lambda>e. e\<lparr>el_prev := LIST_END\<rparr>) l1, i)))
      else if p = dl_end l then
        (let i = dl_end l;
             l1 = l\<lparr>dl_end := el_prev (slot_at l i)\<rparr>
         in (upd_slot (dl_end l1) (\<lambda>e. e\<lparr>el_next := LIST_END\<rparr>) l1, i))
      else
        (let prev = el_prev (slot_at l p);
             next = el_next (slot_at l p);
             l1 = upd_slot prev (\<lambda>e. e\<lparr>el_next := next\<rparr>) l
         in (upd_slot next (\<lambda>e. e\<lparr>el_prev := prev\<rparr>) l1, p)))"

definition del :: "nat \<Rightarrow> 'a dlist \<Rightarrow> 'a dlist" where
  "del p l =
     (case del_unlink p l of (l1, i) \<Rightarrow>
        let l2 = (if i \<noteq> LIST_END
                  then (upd_slot i (\<lambda>e. e\<lparr>el_next_empty := dl_empty l1\<rparr>) l1)\<lparr>dl_empty := i\<rparr>
                  else l1);
            l3 = upd_slot p (\<lambda>e. e\<lparr>el_data := None\<rparr>) l2
        in l3\<lparr>dl_n_elements := dl_n_elements l3 - 1\<rparr>)"

definition del_first :: "'a dlist \<Rightarrow> 'a dlist" where
  "del_first l = del (dl_begin l) l"

definition del_last :: "'a dlist \<Rightarrow> 'a dlist" where
  "del_last l = del (dl_end l) l"

definition move_to_init :: "nat \<Rightarrow> 'a dlist \<Rightarrow> 'a dlist \<times> nat option" where
  "move_to_init p l = (let data = get_data l p in add_beginning_ptr data (del p l))"

text \<open>
  The two searches walk \<open>next\<close> from \<open>begin\<close> to the end marker; the walk is bounded by the
  capacity, which \<open>dl_rep\<close> shows to be enough. A used slot always has data (also \<open>dl_rep\<close>), so
  the case of a slot without data is never reached from a well-formed list.
\<close>

fun search_from :: "('a \<Rightarrow> bool) \<Rightarrow> 'a dlist \<Rightarrow> nat \<Rightarrow> nat \<Rightarrow> nat option" where
  "search_from P l 0 i = None"
| "search_from P l (Suc k) i =
     (if i = LIST_END then None
      else (case get_data l i of
              None \<Rightarrow> search_from P l k (el_next (slot_at l i))
            | Some d \<Rightarrow> if P d then Some i else search_from P l k (el_next (slot_at l i))))"

definition search_el :: "'a \<Rightarrow> 'a dlist \<Rightarrow> nat option" where
  "search_el x l = search_from (\<lambda>d. d = x) l (dl_capacity l) (dl_begin l)"

definition search_key :: "('a \<Rightarrow> 'k) \<Rightarrow> ('k \<Rightarrow> 'k \<Rightarrow> int) \<Rightarrow> 'k \<Rightarrow> 'a dlist \<Rightarrow> nat option" where
  "search_key getkey compare_keys key l =
     search_from (\<lambda>d. compare_keys key (getkey d) = 0) l (dl_capacity l) (dl_begin l)"

definition del_el :: "'a \<Rightarrow> 'a dlist \<Rightarrow> 'a dlist \<times> bool" where
  "del_el x l = (case search_el x l of None \<Rightarrow> (l, False) | Some p \<Rightarrow> (del p l, True))"

definition del_key :: "('a \<Rightarrow> 'k) \<Rightarrow> ('k \<Rightarrow> 'k \<Rightarrow> int) \<Rightarrow> 'k \<Rightarrow> 'a dlist \<Rightarrow> 'a dlist \<times> bool" where
  "del_key getkey compare_keys key l =
     (case search_key getkey compare_keys key l of None \<Rightarrow> (l, False) | Some p \<Rightarrow> (del p l, True))"

section \<open>Abstraction\<close>

definition positions :: "'a dlist \<Rightarrow> nat list" where
  "positions l = follow (\<lambda>p. el_next (slot_at l p)) LIST_END (dl_capacity l) (dl_begin l)"

definition entries :: "'a dlist \<Rightarrow> (nat \<times> 'a) list" where
  "entries l = map (\<lambda>p. (p, the (get_data l p))) (positions l)"

definition elems :: "'a dlist \<Rightarrow> 'a list" where
  "elems l = map snd (entries l)"

section \<open>Representation invariant\<close>

definition nxt :: "'a dlist \<Rightarrow> nat \<Rightarrow> nat" where "nxt l p = el_next (slot_at l p)"
definition prv :: "'a dlist \<Rightarrow> nat \<Rightarrow> nat" where "prv l p = el_prev (slot_at l p)"
definition nxe :: "'a dlist \<Rightarrow> nat \<Rightarrow> nat" where "nxe l p = el_next_empty (slot_at l p)"

text \<open>
  \<open>dl_rep l ps fs\<close>: the used positions, in list order, are \<open>ps\<close>, the free chain is \<open>fs\<close>; together
  they are the whole array, without repetition; \<open>prev\<close> is the mirror of \<open>next\<close>; an empty list has
  the free chain \<open>0, 1, \<dots>\<close> (\<open>add_end\<close> and \<open>add_beginning\<close> rely on it: they use slot 0 then).
\<close>

definition dl_rep :: "'a dlist \<Rightarrow> nat list \<Rightarrow> nat list \<Rightarrow> bool" where
  "dl_rep l ps fs \<longleftrightarrow>
     length (dl_slots l) = dl_capacity l \<and> 0 < dl_capacity l \<and> dl_capacity l \<le> LIST_END \<and>
     distinct (ps @ fs) \<and> set ps \<union> set fs = {..<dl_capacity l} \<and>
     path (nxt l) (dl_begin l) ps LIST_END \<and>
     path (prv l) (dl_end l) (rev ps) LIST_END \<and>
     path (nxe l) (dl_empty l) fs LIST_END \<and>
     dl_n_elements l = length ps \<and>
     (\<forall>p \<in> set ps. get_data l p \<noteq> None) \<and>
     (ps = [] \<longrightarrow> fs = [0..<dl_capacity l])"

definition dl_inv :: "'a dlist \<Rightarrow> bool" where
  "dl_inv l \<longleftrightarrow> (\<exists>ps fs. dl_rep l ps fs)"

lemma link_upd [simp]:
  assumes "p < length (dl_slots l)"
  shows "nxt (upd_slot p f l) = (nxt l)(p := el_next (f (slot_at l p)))"
    and "prv (upd_slot p f l) = (prv l)(p := el_prev (f (slot_at l p)))"
    and "nxe (upd_slot p f l) = (nxe l)(p := el_next_empty (f (slot_at l p)))"
    and "get_data (upd_slot p f l) = (get_data l)(p := el_data (f (slot_at l p)))"
  using assms by (auto simp: nxt_def prv_def nxe_def get_data_def upd_slot_def fun_eq_iff nth_list_update)

lemma link_frame [simp]:
  "nxt (l\<lparr>dl_begin := b\<rparr>) = nxt l" "prv (l\<lparr>dl_begin := b\<rparr>) = prv l"
  "nxe (l\<lparr>dl_begin := b\<rparr>) = nxe l" "get_data (l\<lparr>dl_begin := b\<rparr>) = get_data l"
  "nxt (l\<lparr>dl_end := b\<rparr>) = nxt l" "prv (l\<lparr>dl_end := b\<rparr>) = prv l"
  "nxe (l\<lparr>dl_end := b\<rparr>) = nxe l" "get_data (l\<lparr>dl_end := b\<rparr>) = get_data l"
  "nxt (l\<lparr>dl_empty := b\<rparr>) = nxt l" "prv (l\<lparr>dl_empty := b\<rparr>) = prv l"
  "nxe (l\<lparr>dl_empty := b\<rparr>) = nxe l" "get_data (l\<lparr>dl_empty := b\<rparr>) = get_data l"
  "nxt (l\<lparr>dl_n_elements := n\<rparr>) = nxt l" "prv (l\<lparr>dl_n_elements := n\<rparr>) = prv l"
  "nxe (l\<lparr>dl_n_elements := n\<rparr>) = nxe l" "get_data (l\<lparr>dl_n_elements := n\<rparr>) = get_data l"
  by (simp_all add: nxt_def prv_def nxe_def get_data_def fun_eq_iff)

lemma upd_slot_fields [simp]:
  "length (dl_slots (upd_slot p f l)) = length (dl_slots l)"
  "dl_capacity (upd_slot p f l) = dl_capacity l"
  "dl_n_elements (upd_slot p f l) = dl_n_elements l"
  "dl_begin (upd_slot p f l) = dl_begin l"
  "dl_end (upd_slot p f l) = dl_end l"
  "dl_empty (upd_slot p f l) = dl_empty l"
  by (simp_all add: upd_slot_def)

lemma slot_fold [simp]:
  "el_next (slot_at l p) = nxt l p" "el_prev (slot_at l p) = prv l p"
  "el_next_empty (slot_at l p) = nxe l p" "el_data (slot_at l p) = get_data l p"
  by (simp_all add: nxt_def prv_def nxe_def get_data_def)

section \<open>The operations on the representation\<close>

lemma path_upt:
  assumes "\<And>i. i < n \<Longrightarrow> f i = (if i = n - 1 then stop else i + 1)" and "k < n"
  shows "path f k [k..<n] stop"
  using assms(2)
proof (induction "n - k" arbitrary: k)
  case 0
  then show ?case by simp
next
  case (Suc d)
  then have upt: "[k..<n] = k # [Suc k..<n]" by (simp add: upt_rec)
  show ?case
  proof (cases "Suc k < n")
    case True
    then have "path f (Suc k) [Suc k..<n] stop" using Suc by (intro Suc.hyps) auto
    with True assms(1)[of k] show ?thesis by (simp add: upt)
  next
    case False
    with Suc.prems have "n = Suc k" by simp
    with assms(1)[of k] show ?thesis by simp
  qed
qed

lemma chain_all_empty_nth:
  assumes "i < n"
  shows "chain_all_empty n sl ! i = (sl ! i)\<lparr>el_next_empty := (if i = n - 1 then LIST_END else i + 1)\<rparr>"
  using assms by (auto simp: chain_all_empty_def nth_list_update)

lemma chain_all_empty_length [simp]: "length (chain_all_empty n sl) = n"
  by (simp add: chain_all_empty_def)

lemma chain_all_empty_links:
  assumes "dl_slots l = chain_all_empty n sl" and "0 < n"
  shows "path (nxe l) 0 [0..<n] LIST_END"
  using assms by (intro path_upt) (simp_all add: nxe_def chain_all_empty_nth)

lemma set_list_size_rep:
  assumes "0 < n" and "n \<le> LIST_END"
  shows "\<exists>l. set_list_size junk n = Inr l \<and> dl_rep l [] [0..<n] \<and> dl_capacity l = n"
  using assms chain_all_empty_links[of _ n junk] by (auto simp: set_list_size_def dl_rep_def)

lemma dl_rep_free: "dl_rep l ps fs \<Longrightarrow> length fs = dl_capacity l - length ps"
proof -
  assume r: "dl_rep l ps fs"
  then have "card (set (ps @ fs)) = dl_capacity l" and "distinct (ps @ fs)"
    by (simp_all add: dl_rep_def)
  then have "length (ps @ fs) = dl_capacity l" by (metis distinct_card)
  then show ?thesis by simp
qed

lemma dl_rep_bound:
  assumes "dl_rep l ps fs" and "p \<in> set ps \<union> set fs"
  shows "p < length (dl_slots l)" and "p < dl_capacity l" and "p \<noteq> LIST_END"
  using assms by (auto simp: dl_rep_def)

lemma dl_rep_empty_iff: "dl_rep l ps fs \<Longrightarrow> dl_empty l = LIST_END \<longleftrightarrow> fs = []"
  using dl_rep_bound[of l ps fs "hd fs"] by (cases fs) (auto simp: dl_rep_def)

lemma fun_upd_self [simp]: "a \<noteq> b \<Longrightarrow> f(a := x, b := f b) = f(a := x)"
  by (simp add: fun_eq_iff)

lemma add_end_rep:
  assumes r: "dl_rep l ps (f # fs)"
  shows "\<exists>l'. add_end x l = (l', Some f) \<and> dl_rep l' (ps @ [f]) fs
           \<and> get_data l' = (get_data l)(f \<mapsto> x) \<and> dl_capacity l' = dl_capacity l"
proof (cases ps rule: rev_cases)
  case Nil
  have "[0..<dl_capacity l] = f # fs" and "0 < length (dl_slots l)"
    using r Nil by (simp_all only: dl_rep_def)
  then have "f = 0" "0 < length (dl_slots l)" "fs = [1..<dl_capacity l]"
    by (simp_all only: upt_eq_Cons_conv One_nat_def add_0 plus_nat.add_0)
  moreover have z: "dl_n_elements l = 0" "dl_empty l \<noteq> LIST_END"
    using r Nil dl_rep_empty_iff[OF r] by (simp_all add: dl_rep_def)
  moreover obtain l' where l': "add_end x l = (l', Some 0)"
    and nx: "nxt l' = (nxt l)(0 := LIST_END)"
    and pv: "prv l' = (prv l)(0 := LIST_END)"
    and ne: "nxe l' = nxe l"
    and dt: "get_data l' = (get_data l)(0 \<mapsto> x)"
    and fl: "dl_begin l' = 0" "dl_end l' = 0" "dl_empty l' = nxe l 0"
      "dl_capacity l' = dl_capacity l" "dl_n_elements l' = Suc 0"
      "length (dl_slots l') = length (dl_slots l)"
    using z \<open>0 < length (dl_slots l)\<close> by (simp add: add_end_def Let_def)
  ultimately have "dl_rep l' (ps @ [f]) fs"
    using r Nil by (simp add: dl_rep_def fl ne dt nx pv)
  with l' dt fl \<open>f = 0\<close> show ?thesis by blast
next
  case (snoc qs e)
  note b = dl_rep_bound[OF r]
  have d: "f \<noteq> e" "f \<notin> set qs" "e \<notin> set qs" "f \<notin> set fs" "e \<notin> set fs"
    "dl_end l = e" "dl_empty l = f"
    using r snoc by (auto simp: dl_rep_def)
  have n: "dl_n_elements l \<noteq> 0" "dl_empty l \<noteq> LIST_END"
    using r snoc b[of f] d by (auto simp: dl_rep_def)
  obtain l' where l': "add_end x l = (l', Some f)"
    and nx: "nxt l' = (nxt l)(f := LIST_END, e := f)"
    and pv: "prv l' = (prv l)(f := e)"
    and ne: "nxe l' = nxe l"
    and dt: "get_data l' = (get_data l)(f \<mapsto> x)"
    and fl: "dl_begin l' = dl_begin l" "dl_end l' = f" "dl_empty l' = nxe l f"
      "dl_capacity l' = dl_capacity l" "dl_n_elements l' = Suc (dl_n_elements l)"
      "length (dl_slots l') = length (dl_slots l)"
    using n d b[of f] b[of e] snoc by (auto simp: add_end_def Let_def)
  have "path (nxt l') (dl_begin l') (ps @ [f]) LIST_END"
    using r d snoc by (simp add: nx fl dl_rep_def)
  moreover have "path (prv l') (dl_end l') (rev (ps @ [f])) LIST_END"
    using r d snoc by (simp add: pv fl dl_rep_def)
  ultimately have "dl_rep l' (ps @ [f]) fs"
    using r d by (auto simp: dl_rep_def fl ne dt)
  with l' dt fl show ?thesis by blast
qed


lemma add_beginning_rep:
  assumes r: "dl_rep l ps (f # fs)"
  shows "\<exists>l'. add_beginning x l = (l', Some f) \<and> dl_rep l' (f # ps) fs
           \<and> get_data l' = (get_data l)(f \<mapsto> x) \<and> dl_capacity l' = dl_capacity l"
proof (cases ps)
  case Nil
  then have "dl_n_elements l = 0" using r by (simp add: dl_rep_def)
  then have "add_beginning x l = add_end x l"
    by (simp add: add_end_def add_beginning_ptr_def)
  with add_end_rep[OF r, of x] Nil show ?thesis by simp
next
  case (Cons e qs)
  note b = dl_rep_bound[OF r]
  have d: "f \<noteq> e" "f \<notin> set qs" "e \<notin> set qs" "f \<notin> set fs" "e \<notin> set fs"
    "dl_begin l = e" "dl_empty l = f"
    using r Cons by (auto simp: dl_rep_def)
  have n: "dl_n_elements l \<noteq> 0" "dl_empty l \<noteq> LIST_END"
    using r Cons b[of f] d by (auto simp: dl_rep_def)
  obtain l' where l': "add_beginning x l = (l', Some f)"
    and nx: "nxt l' = (nxt l)(f := e)"
    and pv: "prv l' = (prv l)(f := LIST_END, e := f)"
    and ne: "nxe l' = nxe l"
    and dt: "get_data l' = (get_data l)(f \<mapsto> x)"
    and fl: "dl_begin l' = f" "dl_end l' = dl_end l" "dl_empty l' = nxe l f"
      "dl_capacity l' = dl_capacity l" "dl_n_elements l' = Suc (dl_n_elements l)"
      "length (dl_slots l') = length (dl_slots l)"
    using n d b[of f] b[of e] Cons by (auto simp: add_beginning_ptr_def Let_def)
  have "path (nxt l') (dl_begin l') (f # ps) LIST_END"
    using r d Cons by (simp add: nx fl dl_rep_def)
  moreover have "path (prv l') (dl_end l') (rev (f # ps)) LIST_END"
    using r d Cons by (simp add: pv fl dl_rep_def)
  ultimately have "dl_rep l' (f # ps) fs"
    using r d by (auto simp: dl_rep_def fl ne dt)
  with l' dt fl show ?thesis by blast
qed

lemma dl_rep_neighbours:
  assumes r: "dl_rep l (as @ p # bs) fs"
  shows "dl_begin l = hd (as @ [p])" and "dl_end l = last (p # bs)"
    and "nxt l p = (if bs = [] then LIST_END else hd bs)"
    and "prv l p = (if as = [] then LIST_END else last as)"
proof -
  have "path (nxt l) (dl_begin l) as p" "path (nxt l) (nxt l p) bs LIST_END"
    "path (prv l) (dl_end l) (rev bs) p" "path (prv l) (prv l p) (rev as) LIST_END"
    using r by (auto simp: dl_rep_def)
  from this[THEN path_start] show "dl_begin l = hd (as @ [p])" and "dl_end l = last (p # bs)"
    and "nxt l p = (if bs = [] then LIST_END else hd bs)"
    and "prv l p = (if as = [] then LIST_END else last as)"
    by (simp_all add: hd_append hd_rev split: if_splits)
qed

lemma chain_all_slots [simp]:
  "p < n \<Longrightarrow> nxt (l\<lparr>dl_slots := chain_all_empty n sl\<rparr>) p = el_next (sl ! p)"
  "p < n \<Longrightarrow> nxe (l\<lparr>dl_slots := chain_all_empty n sl\<rparr>) p = (if p = n - 1 then LIST_END else p + 1)"
  by (simp_all add: nxt_def nxe_def chain_all_empty_nth del: slot_fold)

lemma del_single_links:
  assumes "dl_begin l = p" "dl_end l = p" "p < dl_capacity l" "length (dl_slots l) = dl_capacity l"
  shows "nxt (del p l) p = nxt l p" "dl_begin (del p l) = LIST_END" "dl_end (del p l) = LIST_END"
    "dl_empty (del p l) = 0" "dl_capacity (del p l) = dl_capacity l"
    "dl_n_elements (del p l) = dl_n_elements l - 1" "length (dl_slots (del p l)) = dl_capacity l"
    "\<And>i. i < dl_capacity l \<Longrightarrow> nxe (del p l) i = (if i = dl_capacity l - 1 then LIST_END else i + 1)"
  using assms by (simp_all add: del_def del_unlink_def chain_all_empty_nth)

lemma del_links:
  assumes r: "dl_rep l (as @ p # bs) fs" and ne: "as \<noteq> [] \<or> bs \<noteq> []"
  shows "nxt (del p l) = (if bs = [] then (nxt l)(last as := LIST_END)
                          else if as = [] then nxt l else (nxt l)(last as := hd bs))" (is ?nx)
    and "prv (del p l) = (if as = [] then (prv l)(hd bs := LIST_END)
                          else if bs = [] then prv l else (prv l)(hd bs := last as))" (is ?pv)
    and "nxe (del p l) = (nxe l)(p := dl_empty l)" (is ?ne)
    and "get_data (del p l) = (get_data l)(p := None)" (is ?dt)
    and "dl_begin (del p l) = hd (as @ bs)" (is ?bg) and "dl_end (del p l) = last (as @ bs)" (is ?en)
    and "dl_empty (del p l) = p" (is ?em) and "dl_capacity (del p l) = dl_capacity l" (is ?ca)
    and "dl_n_elements (del p l) = dl_n_elements l - 1" (is ?nn)
    and "length (dl_slots (del p l)) = length (dl_slots l)" (is ?ln)
proof -
  have "as \<noteq> [] \<Longrightarrow> last as \<in> set as" "bs \<noteq> [] \<Longrightarrow> hd bs \<in> set bs" by simp_all
  moreover have "distinct (as @ p # bs)" "p < length (dl_slots l)" "p \<noteq> LIST_END"
    using r dl_rep_bound[OF r, of p] by (auto simp: dl_rep_def)
  moreover have "as \<noteq> [] \<Longrightarrow> last as < length (dl_slots l)" "bs \<noteq> [] \<Longrightarrow> hd bs < length (dl_slots l)"
    using dl_rep_bound[OF r, of "last as"] dl_rep_bound[OF r, of "hd bs"] by auto
  moreover have "as \<noteq> [] \<Longrightarrow> hd as \<in> set as" "bs \<noteq> [] \<Longrightarrow> last bs \<in> set bs" by simp_all
  ultimately have "?nx \<and> ?pv \<and> ?ne \<and> ?dt \<and> ?bg \<and> ?en \<and> ?em \<and> ?ca \<and> ?nn \<and> ?ln"
    using ne dl_rep_neighbours[OF r]
    by (cases "as = []"; cases "bs = []") (auto simp: del_def del_unlink_def Let_def fun_upd_idem_iff)
  then show ?nx ?pv ?ne ?dt ?bg ?en ?em ?ca ?nn ?ln by blast+
qed


definition free_after_del :: "nat \<Rightarrow> nat list \<Rightarrow> nat \<Rightarrow> nat list \<Rightarrow> nat list" where
  "free_after_del cap rest p fs = (if rest = [] then [0..<cap] else p # fs)"

lemma del_data:
  assumes r: "dl_rep l (as @ p # bs) fs" and q: "q < dl_capacity l"
  shows "get_data (del p l) q = (if q = p then None else get_data l q)"
proof (cases "as @ bs = []")
  case True
  then have "dl_begin l = p" "dl_end l = p" "p < length (dl_slots l)" "length (dl_slots l) = dl_capacity l"
    using dl_rep_neighbours[OF r] dl_rep_bound[OF r, of p] r by (auto simp: dl_rep_def)
  with q show ?thesis
    by (simp add: del_def del_unlink_def)
       (simp add: get_data_def chain_all_empty_nth del: slot_fold)
qed (use del_links[OF r] in auto)

lemma del_keeps_next:
  assumes r: "dl_rep l (as @ p # bs) fs"
  shows "nxt (del p l) p = nxt l p" and "dl_capacity (del p l) = dl_capacity l"
proof -
  have "nxt (del p l) p = nxt l p \<and> dl_capacity (del p l) = dl_capacity l"
  proof (cases "as @ bs = []")
    case True
    then show ?thesis
      using dl_rep_neighbours[OF r] dl_rep_bound[OF r, of p] r
      by (simp add: del_single_links dl_rep_def)
  next
    case False
    moreover have "as \<noteq> [] \<Longrightarrow> last as \<in> set as" "p \<notin> set as"
      using r by (auto simp: dl_rep_def)
    ultimately show ?thesis using del_links[OF r] by auto
  qed
  then show "nxt (del p l) p = nxt l p" and "dl_capacity (del p l) = dl_capacity l" by auto
qed

lemma path_skip:
  assumes "distinct (as @ p # bs)" "as \<noteq> []" "path f a (as @ p # bs) z"
  shows "path (f(last as := f p)) a (as @ bs) z"
proof -
  obtain cs c where as: "as = cs @ [c]" using assms(2) by (cases as rule: rev_cases) auto
  then show ?thesis using assms by (auto simp: as)
qed

lemma del_rep:
  assumes r: "dl_rep l (as @ p # bs) fs"
  shows "dl_rep (del p l) (as @ bs) (free_after_del (dl_capacity l) (as @ bs) p fs)"
proof (cases "as @ bs = []")
  case True
  then have "dl_begin l = p" "dl_end l = p" "p < dl_capacity l" "length (dl_slots l) = dl_capacity l"
    using dl_rep_neighbours[OF r] dl_rep_bound[OF r, of p] r by (auto simp: dl_rep_def)
  note d = del_single_links[OF this]
  have "path (nxe (del p l)) 0 [0..<dl_capacity l] LIST_END"
    using \<open>p < dl_capacity l\<close> by (intro path_upt d) auto
  moreover have "0 < dl_capacity l" "dl_capacity l \<le> LIST_END" "dl_n_elements l = 1"
    using r True by (simp_all add: dl_rep_def)
  ultimately show ?thesis
    using True by (simp add: dl_rep_def free_after_del_def d atLeast0LessThan)
next
  case False
  then have ne: "as \<noteq> [] \<or> bs \<noteq> []" by simp
  note d = del_links[OF r ne] and nb = dl_rep_neighbours[OF r]
  have dist: "distinct (as @ p # bs)" "p \<notin> set fs"
    and nx: "path (nxt l) (dl_begin l) (as @ p # bs) LIST_END"
    and pv: "path (prv l) (dl_end l) (rev bs @ p # rev as) LIST_END"
    using r by (auto simp: dl_rep_def)
  have "path (nxt (del p l)) (dl_begin (del p l)) (as @ bs) LIST_END"
  proof (cases "as = []")
    case True
    then show ?thesis using nx d(1) d(5) False nb(3) by simp
  next
    case as: False
    with path_skip[OF dist(1) as nx] nb(1,3) d(1) d(5) show ?thesis
      by (cases "bs = []") (auto simp: hd_append)
  qed
  moreover have "path (prv (del p l)) (dl_end (del p l)) (rev (as @ bs)) LIST_END"
  proof (cases "bs = []")
    case True
    then show ?thesis using pv d(2) d(6) False nb(4) by simp
  next
    case bs: False
    have "path ((prv l)(last (rev bs) := prv l p)) (dl_end l) (rev bs @ rev as) LIST_END"
      using dist(1) bs pv by (intro path_skip) auto
    with nb(2,4) d(2) d(6) bs show ?thesis
      by (cases "as = []") (auto simp: last_rev)
  qed
  moreover have "\<forall>q \<in> set (as @ bs). get_data (del p l) q \<noteq> None"
    using dist(1) r by (auto simp: d(4) dl_rep_def)
  moreover have "path (nxe (del p l)) (dl_empty (del p l)) (p # fs) LIST_END"
    using d(3,7) False dist(2) r by (auto simp: dl_rep_def)
  ultimately show ?thesis
    using r False d by (auto simp: dl_rep_def free_after_del_def)
qed


section \<open>The operations on the entries\<close>

lemma positions_rep: "dl_rep l ps fs \<Longrightarrow> positions l = ps"
proof -
  assume r: "dl_rep l ps fs"
  have "LIST_END \<notin> set ps" using dl_rep_bound(3)[OF r, of LIST_END] by blast
  moreover have "path (nxt l) (dl_begin l) ps LIST_END" using r by (simp add: dl_rep_def)
  moreover have "length ps \<le> dl_capacity l"
  proof -
    have "set ps \<subseteq> {..<dl_capacity l}" "distinct ps" using r by (auto simp: dl_rep_def)
    then have "card (set ps) \<le> card {..<dl_capacity l}" by (intro card_mono) auto
    with \<open>distinct ps\<close> show ?thesis by (simp add: distinct_card)
  qed
  ultimately show ?thesis
    by (simp add: positions_def follow_path)
qed

lemma entries_rep: "dl_rep l ps fs \<Longrightarrow> entries l = map (\<lambda>p. (p, the (get_data l p))) ps"
  by (simp add: entries_def positions_rep)

lemma dl_invE:
  assumes "dl_inv l"
  obtains ps fs where "dl_rep l ps fs" "positions l = ps" "map fst (entries l) = ps"
    "length (entries l) = length ps" "length fs = dl_capacity l - length ps"
    "dl_n_elements l = length ps" "length ps \<le> dl_capacity l"
proof -
  obtain ps fs where r: "dl_rep l ps fs" using assms by (auto simp: dl_inv_def)
  have "card (set (ps @ fs)) = dl_capacity l" "distinct (ps @ fs)"
    using r by (simp_all add: dl_rep_def)
  then have "length (ps @ fs) = dl_capacity l" by (metis distinct_card)
  then have "length ps \<le> dl_capacity l" by simp
  moreover have "dl_n_elements l = length ps" using r by (simp add: dl_rep_def)
  ultimately show ?thesis
    by (intro that[OF r]) (simp_all add: positions_rep[OF r] entries_rep[OF r] dl_rep_free[OF r] o_def)
qed

lemma entries_distinct: "dl_inv l \<Longrightarrow> distinct (map fst (entries l))"
  by (erule dl_invE) (simp add: dl_rep_def)

lemma entries_length: "dl_inv l \<Longrightarrow> dl_n_elements l = length (entries l)"
  by (erule dl_invE) simp

lemma entries_capacity: "dl_inv l \<Longrightarrow> length (entries l) \<le> dl_capacity l"
  by (erule dl_invE) simp

lemma capacity_pos: "dl_inv l \<Longrightarrow> 0 < dl_capacity l"
  by (auto simp: dl_inv_def dl_rep_def)

lemma entries_data:
  assumes "dl_inv l" "(p, x) \<in> set (entries l)"
  shows "get_data l p = Some x"
proof -
  obtain ps fs where r: "dl_rep l ps fs" using assms by (auto simp: dl_inv_def)
  with assms(2) have "p \<in> set ps" "x = the (get_data l p)" by (auto simp: entries_rep)
  with r show ?thesis by (auto simp: dl_rep_def)
qed

lemma entries_pos_bound:
  "dl_inv l \<Longrightarrow> p \<in> fst ` set (entries l) \<Longrightarrow> p < dl_capacity l"
  by (erule dl_invE) (auto simp: entries_rep dest: dl_rep_bound)

lemma set_list_size_entries:
  assumes "0 < n" "n \<le> LIST_END"
  obtains l where "set_list_size junk n = Inr l" "dl_inv l" "entries l = []" "dl_capacity l = n"
proof -
  obtain l where l: "set_list_size junk n = Inr l" "dl_rep l [] [0..<n]" "dl_capacity l = n"
    using set_list_size_rep[OF assms, of junk] by blast
  moreover from l(2) have "dl_inv l" "entries l = []" by (auto simp: dl_inv_def entries_rep)
  ultimately show thesis using that by blast
qed

lemma add_end_entries:
  assumes inv: "dl_inv l" and room: "length (entries l) < dl_capacity l"
  obtains l' p where "add_end x l = (l', Some p)" "dl_inv l'" "entries l' = entries l @ [(p, x)]"
    "dl_capacity l' = dl_capacity l"
proof -
  obtain ps fs where r: "dl_rep l ps fs" and len: "length ps < dl_capacity l"
    using inv room by (auto elim: dl_invE)
  then obtain f fs' where fs: "fs = f # fs'" using dl_rep_free[OF r] by (cases fs) auto
  obtain l' where l': "add_end x l = (l', Some f)" "dl_rep l' (ps @ [f]) fs'"
    "get_data l' = (get_data l)(f \<mapsto> x)" "dl_capacity l' = dl_capacity l"
    using add_end_rep[OF r[unfolded fs], of x] by blast
  have "f \<notin> set ps" using r fs by (auto simp: dl_rep_def)
  then have "entries l' = entries l @ [(f, x)]"
    using r l' by (auto simp: entries_rep)
  with l' show ?thesis by (intro that[of l' f]) (auto simp: dl_inv_def)
qed

lemma add_beginning_entries:
  assumes inv: "dl_inv l" and room: "length (entries l) < dl_capacity l"
  obtains l' p where "add_beginning x l = (l', Some p)" "dl_inv l'" "entries l' = (p, x) # entries l"
    "dl_capacity l' = dl_capacity l"
proof -
  obtain ps fs where r: "dl_rep l ps fs" and len: "length ps < dl_capacity l"
    using inv room by (auto elim: dl_invE)
  then obtain f fs' where fs: "fs = f # fs'" using dl_rep_free[OF r] by (cases fs) auto
  obtain l' where l': "add_beginning x l = (l', Some f)" "dl_rep l' (f # ps) fs'"
    "get_data l' = (get_data l)(f \<mapsto> x)" "dl_capacity l' = dl_capacity l"
    using add_beginning_rep[OF r[unfolded fs], of x] by blast
  have "f \<notin> set ps" using r fs by (auto simp: dl_rep_def)
  then have "entries l' = (f, x) # entries l"
    using r l' by (auto simp: entries_rep)
  with l' show ?thesis by (intro that[of l' f]) (auto simp: dl_inv_def)
qed

lemma add_full:
  assumes inv: "dl_inv l" and full: "length (entries l) = dl_capacity l"
  shows "add_end x l = (l, None)" and "add_beginning x l = (l, None)"
proof -
  obtain ps fs where r: "dl_rep l ps fs" and "fs = []"
    using inv full by (auto elim: dl_invE)
  with dl_rep_empty_iff[OF r] show "add_end x l = (l, None)" and "add_beginning x l = (l, None)"
    by (simp_all add: add_end_def add_beginning_ptr_def)
qed

lemma del_entries:
  assumes inv: "dl_inv l" and p: "p \<in> fst ` set (entries l)"
  shows "dl_inv (del p l)" and "entries (del p l) = filter (\<lambda>e. fst e \<noteq> p) (entries l)"
    and "dl_capacity (del p l) = dl_capacity l" and "get_next (del p l) p = get_next l p"
proof -
  obtain ps fs where r: "dl_rep l ps fs" using inv by (auto simp: dl_inv_def)
  with p obtain as bs where ps: "ps = as @ p # bs"
    by (auto simp: entries_rep dest!: split_list)
  note r' = r[unfolded ps] and d = del_rep[OF r[unfolded ps]]
  from d show "dl_inv (del p l)" by (auto simp: dl_inv_def)
  have "p \<notin> set (as @ bs)" "set (as @ bs) \<subseteq> {..<dl_capacity l}" "distinct (as @ p # bs)"
    using r' by (auto simp: dl_rep_def)
  moreover from this have "map (\<lambda>q. (q, the (get_data (del p l) q))) (as @ bs)
      = map (\<lambda>q. (q, the (get_data l q))) (as @ bs)"
    using del_data[OF r'] by (intro map_cong) auto
  moreover have "filter (\<lambda>q. q \<noteq> p) (as @ p # bs) = as @ bs"
    using calculation(3) by (rule filter_neq_mid)
  ultimately show "entries (del p l) = filter (\<lambda>e. fst e \<noteq> p) (entries l)"
    unfolding entries_rep[OF d] entries_rep[OF r'] filter_map by (simp only: o_def fst_conv)
  show "dl_capacity (del p l) = dl_capacity l" and "get_next (del p l) p = get_next l p"
    using del_keeps_next[OF r'] by (simp_all add: get_next_def get_by_pos_def)
qed

lemma first_entries:
  assumes "dl_inv l"
  shows "get_first l = (if entries l = [] then None else Some (fst (hd (entries l))))"
proof -
  obtain ps fs where r: "dl_rep l ps fs" using assms by (auto simp: dl_inv_def)
  then have "path (nxt l) (dl_begin l) ps LIST_END" "dl_n_elements l = length ps"
    by (simp_all add: dl_rep_def)
  then show ?thesis by (cases ps) (auto simp: get_first_def entries_rep[OF r])
qed

lemma last_entries:
  assumes "dl_inv l"
  shows "get_last l = (if entries l = [] then None else Some (fst (last (entries l))))"
proof -
  obtain ps fs where r: "dl_rep l ps fs" using assms by (auto simp: dl_inv_def)
  then have "path (prv l) (dl_end l) (rev ps) LIST_END" "dl_n_elements l = length ps"
    by (simp_all add: dl_rep_def)
  then show ?thesis by (cases ps rule: rev_cases) (auto simp: get_last_def entries_rep[OF r])
qed

lemma next_entries:
  assumes "dl_inv l" "entries l = es @ (p, x) # es'"
  shows "get_next l p = (if es' = [] then None else Some (fst (hd es')))"
proof -
  obtain ps fs where r: "dl_rep l ps fs" using assms by (auto simp: dl_inv_def)
  have "map fst (entries l) = ps" using r by (simp add: entries_rep o_def)
  with assms(2) have ps: "ps = map fst es @ p # map fst es'" by simp
  note nb = dl_rep_neighbours(3)[OF r[unfolded ps]]
  show ?thesis
  proof (cases es')
    case Nil
    then show ?thesis using nb r by (simp add: get_next_def get_by_pos_def dl_rep_def)
  next
    case (Cons e es'')
    then have "fst e < dl_capacity l" using dl_rep_bound(2)[OF r, of "fst e"] ps by simp
    with Cons nb show ?thesis by (simp add: get_next_def get_by_pos_def)
  qed
qed


text \<open>A list just sized, over an array that was all zeros: the starting point of every queue.\<close>

definition blank_slot :: "'a dl_el" where
  "blank_slot = \<lparr>el_data = None, el_prev = 0, el_next = 0, el_next_empty = 0\<rparr>"

definition new_list :: "nat \<Rightarrow> 'a dlist" where
  "new_list n = \<lparr>dl_slots = chain_all_empty n (replicate n blank_slot), dl_n_elements = 0,
     dl_capacity = n, dl_begin = LIST_END, dl_end = LIST_END, dl_empty = 0\<rparr>"

lemma set_list_size_new: "0 < n \<Longrightarrow> set_list_size (replicate n blank_slot) n = Inr (new_list n)"
  by (simp add: set_list_size_def new_list_def)

lemma new_list_inv:
  assumes "0 < n" "n \<le> LIST_END"
  shows "dl_inv (new_list n :: 'a dlist)" and "entries (new_list n :: 'a dlist) = []"
    and "dl_capacity (new_list n :: 'a dlist) = n"
proof -
  obtain l :: "'a dlist" where "set_list_size (replicate n blank_slot) n = Inr l" "dl_inv l" "entries l = []"
    "dl_capacity l = n"
    using set_list_size_entries[OF assms] by metis
  with set_list_size_new[OF assms(1), where ?'a = 'a]
  show "dl_inv (new_list n :: 'a dlist)" "entries (new_list n :: 'a dlist) = []"
    "dl_capacity (new_list n :: 'a dlist) = n" by auto
qed

end
