(* ===== verification/Static_List_Spec.thy ===== *)
theory Static_List_Spec
  imports Static_List
begin

text \<open>
  The contract of the array-backed list that its clients rely on, as two locales, and the loop
  \<open>for (el = list.get_first(); el != NULL; el = next)\<close> that every client runs over it, with the
  current element possibly deleted inside the body. The loop is proved, from the contract alone,
  to visit the elements that were in the list when it started, each once, in order; the
  interpretations discharge the contract for the model of \<open>double_linked_static.h\<close>.
\<close>

section \<open>The loop over a list\<close>

text \<open>
  What a loop body decides about its element: leave it in the list or delete it, and go on or
  leave the loop (\<open>break\<close>, \<open>return\<close>). The body reads the element's position and data and threads
  the client's state; a fault in the body ends the loop.
\<close>

datatype act = Keep | Remove | Stop | Remove_Stop

definition act_removes :: "act \<Rightarrow> bool" where
  "act_removes a = (a = Remove \<or> a = Remove_Stop)"

definition act_stops :: "act \<Rightarrow> bool" where
  "act_stops a = (a = Stop \<or> a = Remove_Stop)"

lemma act_simps [simp]:
  "act_removes Keep = False" "act_removes Remove = True"
  "act_removes Stop = False" "act_removes Remove_Stop = True"
  "act_stops Keep = False" "act_stops Remove = False"
  "act_stops Stop = True" "act_stops Remove_Stop = True"
  by (simp_all add: act_removes_def act_stops_def)

text \<open>The list's part of the state is read by \<open>nx\<close> and \<open>dt\<close> and changed by \<open>rm\<close>.\<close>

fun iter_after ::
  "('l \<Rightarrow> nat \<Rightarrow> nat option) \<Rightarrow> ('l \<Rightarrow> nat \<Rightarrow> 'a option) \<Rightarrow> (nat \<Rightarrow> 'l \<Rightarrow> 'l) \<Rightarrow>
   (nat \<Rightarrow> 'a \<Rightarrow> 's \<Rightarrow> ('s \<times> act) res) \<Rightarrow> nat \<Rightarrow> nat option \<Rightarrow> 'l \<Rightarrow> 's \<Rightarrow> ('l \<times> 's) res" where
  "iter_after nx dt rm body k None l s = Inr (l, s)"
| "iter_after nx dt rm body 0 (Some p) l s = Inl Diverges"
| "iter_after nx dt rm body (Suc k) (Some p) l s =
     (case dt l p of
        None \<Rightarrow> Inl Null_Deref
      | Some x \<Rightarrow> rbind (body p x s) (\<lambda>(s', a).
          let l' = (if act_removes a then rm p l else l)
          in if act_stops a then Inr (l', s') else iter_after nx dt rm body k (nx l' p) l' s'))"

text \<open>The same loop when the successor is read before the body runs.\<close>

fun iter_before ::
  "('l \<Rightarrow> nat \<Rightarrow> nat option) \<Rightarrow> ('l \<Rightarrow> nat \<Rightarrow> 'a option) \<Rightarrow> (nat \<Rightarrow> 'l \<Rightarrow> 'l) \<Rightarrow>
   (nat \<Rightarrow> 'a \<Rightarrow> 's \<Rightarrow> ('s \<times> act) res) \<Rightarrow> nat \<Rightarrow> nat option \<Rightarrow> 'l \<Rightarrow> 's \<Rightarrow> ('l \<times> 's) res" where
  "iter_before nx dt rm body k None l s = Inr (l, s)"
| "iter_before nx dt rm body 0 (Some p) l s = Inl Diverges"
| "iter_before nx dt rm body (Suc k) (Some p) l s =
     (case dt l p of
        None \<Rightarrow> Inl Null_Deref
      | Some x \<Rightarrow>
          let next = nx l p
          in rbind (body p x s) (\<lambda>(s', a).
            let l' = (if act_removes a then rm p l else l)
            in if act_stops a then Inr (l', s') else iter_before nx dt rm body k next l' s'))"

text \<open>What the loop means: one pass over the entries.\<close>

fun fold_entries ::
  "(nat \<Rightarrow> 'a \<Rightarrow> 's \<Rightarrow> ('s \<times> act) res) \<Rightarrow> (nat \<times> 'a) list \<Rightarrow> 's \<Rightarrow> ((nat \<times> 'a) list \<times> 's) res" where
  "fold_entries body [] s = Inr ([], s)"
| "fold_entries body ((p, x) # es) s = rbind (body p x s) (\<lambda>(s', a).
     let ks = (if act_removes a then [] else [(p, x)])
     in if act_stops a then Inr (ks @ es, s')
        else rbind (fold_entries body es s') (\<lambda>(r, t). Inr (ks @ r, t)))"

definition entry_start :: "(nat \<times> 'a) list \<Rightarrow> nat option" where
  "entry_start es = (if es = [] then None else Some (fst (hd es)))"

section \<open>Contract\<close>

locale list_loop =
  fixes inv :: "'l \<Rightarrow> bool"
    and ents :: "'l \<Rightarrow> (nat \<times> 'a) list"
    and cap :: "'l \<Rightarrow> nat"
    and first :: "'l \<Rightarrow> nat option"
    and nx :: "'l \<Rightarrow> nat \<Rightarrow> nat option"
    and dt :: "'l \<Rightarrow> nat \<Rightarrow> 'a option"
    and rm :: "nat \<Rightarrow> 'l \<Rightarrow> 'l"
  assumes first_law: "inv l \<Longrightarrow> first l = (if ents l = [] then None else Some (fst (hd (ents l))))"
    and nx_law: "inv l \<Longrightarrow> ents l = es @ (p, x) # es'
                   \<Longrightarrow> nx l p = (if es' = [] then None else Some (fst (hd es')))"
    and dt_law: "inv l \<Longrightarrow> (p, x) \<in> set (ents l) \<Longrightarrow> dt l p = Some x"
    and distinct_law: "inv l \<Longrightarrow> distinct (map fst (ents l))"
    and cap_law: "inv l \<Longrightarrow> length (ents l) \<le> cap l"
    and rm_inv: "inv l \<Longrightarrow> p \<in> fst ` set (ents l) \<Longrightarrow> inv (rm p l)"
    and rm_ents: "inv l \<Longrightarrow> p \<in> fst ` set (ents l)
                   \<Longrightarrow> ents (rm p l) = filter (\<lambda>e. fst e \<noteq> p) (ents l)"
    and rm_cap: "inv l \<Longrightarrow> p \<in> fst ` set (ents l) \<Longrightarrow> cap (rm p l) = cap l"
    and rm_nx: "inv l \<Longrightarrow> p \<in> fst ` set (ents l) \<Longrightarrow> nx (rm p l) p = nx l p"

begin

lemma rm_split:
  assumes "inv l" "ents l = es @ (p, x) # es'"
  shows "inv (rm p l)" "ents (rm p l) = es @ es'" "cap (rm p l) = cap l" "nx (rm p l) p = nx l p"
proof -
  have p: "p \<in> fst ` set (ents l)" using assms(2) by force
  with assms rm_inv rm_cap rm_nx
  show "inv (rm p l)" "cap (rm p l) = cap l" "nx (rm p l) p = nx l p" by blast+
  have "distinct (map fst (es @ (p, x) # es'))" using distinct_law[OF assms(1)] assms(2) by simp
  then have "filter (\<lambda>e. fst e \<noteq> p) es = es" "filter (\<lambda>e. fst e \<noteq> p) es' = es'"
    by (force simp: filter_id_conv)+
  with rm_ents[OF assms(1) p] assms(2) show "ents (rm p l) = es @ es'" by simp
qed

lemma first_start: "inv l \<Longrightarrow> first l = entry_start (ents l)"
  by (simp add: first_law entry_start_def)

lemma loops_agree:
  assumes "inv l" "ents l = pre @ es"
  shows "iter_before nx dt rm body k (entry_start es) l s
           = iter_after nx dt rm body k (entry_start es) l s"
  using assms
proof (induction es arbitrary: pre k l s)
  case Nil
  then show ?case by (simp add: entry_start_def)
next
  case (Cons e es)
  obtain p x where e: "e = (p, x)" by force
  note en = Cons.prems(2)[unfolded e] and inv = Cons.prems(1)
  have nx: "nx l p = entry_start es" using nx_law[OF inv en] by (simp add: entry_start_def)
  have "ents l = (pre @ [(p, x)]) @ es" using en by simp
  note keep = Cons.IH[OF inv this]
  note r = rm_split[OF inv en]
  note drop = Cons.IH[OF r(1,2)]
  have dt: "dt l p = Some x" using dt_law[OF inv] en by simp
  show ?case
  proof (cases k)
    case 0
    then show ?thesis by (simp add: e entry_start_def)
  next
    case (Suc j)
    then show ?thesis
      using nx r(4) keep drop dt
      by (simp add: e entry_start_def[of "(p, x) # es"] rbind_def Let_def split: sum.split)
  qed
qed

lemma loop_fold:
  assumes "inv l" "ents l = pre @ es" "length es \<le> k"
  shows "case fold_entries body es s of
           Inl f \<Rightarrow> iter_after nx dt rm body k (entry_start es) l s = Inl f
         | Inr (ks, s') \<Rightarrow> \<exists>l'. iter_after nx dt rm body k (entry_start es) l s = Inr (l', s')
                              \<and> inv l' \<and> ents l' = pre @ ks \<and> cap l' = cap l"
  using assms
proof (induction es arbitrary: pre k l s)
  case Nil
  then show ?case by (simp add: entry_start_def)
next
  case (Cons e es)
  obtain p x where e: "e = (p, x)" by force
  obtain j where k: "k = Suc j" "length es \<le> j" using Cons.prems(3) by (cases k) auto
  note en = Cons.prems(2)[unfolded e] and inv = Cons.prems(1)
  have nx: "nx l p = entry_start es" using nx_law[OF inv en] by (simp add: entry_start_def)
  have dt: "dt l p = Some x" using dt_law[OF inv] en by simp
  note r = rm_split[OF inv en]
  have en1: "ents l = (pre @ [(p, x)]) @ es" using en by simp
  show ?case
  proof (cases "body p x s")
    case (Inl f)
    then show ?thesis using dt k by (simp add: e entry_start_def)
  next
    case (Inr sa)
    obtain s' a where sa: "sa = (s', a)" by force
    show ?thesis
    proof (cases "act_removes a")
      case True
      then show ?thesis
        using Cons.IH[OF r(1,2) k(2), of s'] dt k nx r Inr sa
        by (cases "fold_entries body es s'") (auto simp: e Let_def entry_start_def[of "(p, x) # es"])
    next
      case False
      then show ?thesis
        using Cons.IH[OF inv en1 k(2), of s'] dt k nx en inv Inr sa
        by (cases "fold_entries body es s'") (auto simp: e Let_def entry_start_def[of "(p, x) # es"])
    qed
  qed
qed

lemma loop_all:
  assumes "inv l" "cap l \<le> k"
  shows "case fold_entries body (ents l) s of
           Inl f \<Rightarrow> iter_after nx dt rm body k (first l) l s = Inl f
         | Inr (ks, s') \<Rightarrow> \<exists>l'. iter_after nx dt rm body k (first l) l s = Inr (l', s')
                              \<and> inv l' \<and> ents l' = ks \<and> cap l' = cap l"
  using loop_fold[OF assms(1), of "[]" "ents l" k body s] cap_law[OF assms(1)] assms(2)
  by (auto simp: first_start[OF assms(1)] split: sum.splits)

lemma loop_all_Inr:
  assumes "inv l" "cap l \<le> k" "fold_entries body (ents l) s = Inr (ks, s')"
  obtains l' where "iter_after nx dt rm body k (first l) l s = Inr (l', s')"
    "inv l'" "ents l' = ks" "cap l' = cap l"
  using loop_all[OF assms(1,2), of body s] assms(3) by auto

lemma loop_before:
  assumes "inv l"
  shows "iter_before nx dt rm body k (first l) l s = iter_after nx dt rm body k (first l) l s"
  using loops_agree[OF assms, of "[]" "ents l"] by (simp add: first_start[OF assms])

end

text \<open>A list to which elements are added at either end, up to a capacity.\<close>

locale list_store = list_loop inv ents cap first nx dt rm
  for inv :: "'l \<Rightarrow> bool" and ents :: "'l \<Rightarrow> (nat \<times> 'a) list" and cap first nx dt rm +
  fixes push_back :: "'a \<Rightarrow> 'l \<Rightarrow> 'l \<times> nat option"
    and push_front :: "'a \<Rightarrow> 'l \<Rightarrow> 'l \<times> nat option"
  assumes push_back_law: "inv l \<Longrightarrow> length (ents l) < cap l \<Longrightarrow>
      \<exists>l' p. push_back x l = (l', Some p) \<and> inv l' \<and> ents l' = ents l @ [(p, x)] \<and> cap l' = cap l"
    and push_front_law: "inv l \<Longrightarrow> length (ents l) < cap l \<Longrightarrow>
      \<exists>l' p. push_front x l = (l', Some p) \<and> inv l' \<and> ents l' = (p, x) # ents l \<and> cap l' = cap l"
    and push_full: "inv l \<Longrightarrow> length (ents l) = cap l \<Longrightarrow>
      push_back x l = (l, None) \<and> push_front x l = (l, None)"
begin

lemma push_back_cases:
  assumes "inv l"
  obtains (added) l' p where "push_back x l = (l', Some p)" "inv l'" "ents l' = ents l @ [(p, x)]"
      "cap l' = cap l" "length (ents l) < cap l"
    | (full) "push_back x l = (l, None)" "length (ents l) = cap l"
proof (cases "length (ents l) < cap l")
  case True
  with push_back_law[OF assms True, of x] added show ?thesis by blast
next
  case False
  with cap_law[OF assms] push_full[OF assms] full show ?thesis by fastforce
qed

text \<open>Deleting makes room: an element taken out can always be put back at the front.\<close>

lemma rm_then_front:
  assumes inv: "inv l" and en: "ents l = es @ (p, x) # es'"
  shows "\<exists>l' q. push_front y (rm p l) = (l', Some q) \<and> inv l'
                \<and> ents l' = (q, y) # es @ es' \<and> cap l' = cap l"
proof -
  note r = rm_split[OF inv en]
  have "length (ents (rm p l)) < cap (rm p l)"
    using r(2,3) cap_law[OF inv] en by simp
  from push_front_law[OF r(1) this, of y] r show ?thesis by auto
qed

end

section \<open>The contract holds of the model\<close>

interpretation dl: list_store dl_inv entries dl_capacity get_first get_next get_data del add_end add_beginning
proof unfold_locales
  fix l :: "'a dlist" and x :: 'a
  assume "dl_inv l" "length (entries l) < dl_capacity l"
  then show "\<exists>l' p. add_end x l = (l', Some p) \<and> dl_inv l' \<and> entries l' = entries l @ [(p, x)]
               \<and> dl_capacity l' = dl_capacity l"
    and "\<exists>l' p. add_beginning x l = (l', Some p) \<and> dl_inv l' \<and> entries l' = (p, x) # entries l
               \<and> dl_capacity l' = dl_capacity l"
    by (blast elim: add_end_entries[of l x] add_beginning_entries[of l x])+
qed (simp_all add: first_entries next_entries entries_data entries_distinct entries_capacity
       del_entries add_full)


section \<open>Searching and moving\<close>

lemma search_from_path:
  assumes "path (nxt l) i ps LIST_END" "LIST_END \<notin> set ps" "\<forall>p \<in> set ps. get_data l p \<noteq> None"
    "length ps \<le> k"
  shows "search_from P l k i = find (\<lambda>p. P (the (get_data l p))) ps"
  using assms
proof (induction ps arbitrary: i k)
  case Nil
  then show ?case by (cases k) auto
next
  case (Cons p ps)
  then show ?case by (cases k) auto
qed

lemma find_map_fst:
  "find (\<lambda>p. P (the (get_data l p))) (map fst es)
     = map_option fst (find (\<lambda>e. P (the (get_data l (fst e)))) es)"
  by (induction es) auto

lemma search_from_entries:
  assumes "dl_inv l"
  shows "search_from P l (dl_capacity l) (dl_begin l) = map_option fst (find (\<lambda>(p, x). P x) (entries l))"
proof -
  obtain ps fs where r: "dl_rep l ps fs" and ps: "map fst (entries l) = ps" and len: "length ps \<le> dl_capacity l"
    using assms by (rule dl_invE)
  have "search_from P l (dl_capacity l) (dl_begin l) = find (\<lambda>p. P (the (get_data l p))) ps"
  proof (rule search_from_path)
    show "path (nxt l) (dl_begin l) ps LIST_END" "\<forall>p \<in> set ps. get_data l p \<noteq> None"
      using r by (simp_all add: dl_rep_def)
    show "LIST_END \<notin> set ps" using dl_rep_bound(3)[OF r, of LIST_END] by blast
  qed (use len in simp)
  also have "\<dots> = map_option fst (find (\<lambda>e. P (the (get_data l (fst e)))) (entries l))"
    by (simp add: find_map_fst flip: ps)
  also have "find (\<lambda>e. P (the (get_data l (fst e)))) (entries l) = find (\<lambda>(p, x). P x) (entries l)"
    using entries_data[OF assms] by (intro find_cong) auto
  finally show ?thesis .
qed

lemma add_beginning_slot:
  assumes "add_beginning x l = (l', Some q)"
  shows "q = (if dl_n_elements l = 0 then 0 else dl_empty l)"
  using assms by (simp add: add_beginning_ptr_def Let_def split: if_splits)

section \<open>Two loops the clients share\<close>

text \<open>A loop that deletes the elements satisfying \<open>P\<close>, adding each to the end of another list.\<close>

definition move_body :: "('a \<Rightarrow> bool) \<Rightarrow> nat \<Rightarrow> 'a \<Rightarrow> 'a dlist \<Rightarrow> ('a dlist \<times> act) res" where
  "move_body P p x su = (if P x then Inr (fst (add_end x su), Remove) else Inr (su, Keep))"

lemma fold_move:
  assumes "dl_inv su" "length (entries su) + length (filter (P \<circ> snd) es) \<le> dl_capacity su"
  shows "\<exists>su'. fold_entries (move_body P) es su = Inr (filter (Not \<circ> P \<circ> snd) es, su')
           \<and> dl_inv su' \<and> dl_capacity su' = dl_capacity su
           \<and> elems su' = elems su @ map snd (filter (P \<circ> snd) es)"
  using assms
proof (induction es arbitrary: su)
  case Nil
  then show ?case by simp
next
  case (Cons e es)
  obtain p x where e: "e = (p, x)" by force
  show ?case
  proof (cases "P x")
    case True
    obtain s1 q where s1: "add_end x su = (s1, Some q)" "dl_inv s1" "entries s1 = entries su @ [(q, x)]"
      "dl_capacity s1 = dl_capacity su"
      using add_end_entries[OF Cons.prems(1), of x] Cons.prems(2) True e by auto
    have "elems s1 = elems su @ [x]" using s1(3) by (simp add: elems_def)
    with Cons.IH[OF s1(2)] s1 Cons.prems(2) True e show ?thesis by (auto simp: move_body_def Let_def)
  next
    case False
    with Cons.IH[OF Cons.prems(1)] Cons.prems(2) e show ?thesis by (auto simp: move_body_def Let_def)
  qed
qed

text \<open>A loop that stops at the first element satisfying \<open>P\<close> and remembers its position.\<close>

definition find_body :: "('a \<Rightarrow> bool) \<Rightarrow> nat \<Rightarrow> 'a \<Rightarrow> nat option \<Rightarrow> (nat option \<times> act) res" where
  "find_body P p x r = (if P x then Inr (Some p, Stop) else Inr (r, Keep))"

lemma fold_find:
  "fold_entries (find_body P) es r =
     Inr (es, case find (P \<circ> snd) es of None \<Rightarrow> r | Some e \<Rightarrow> Some (fst e))"
  by (induction es) (auto simp: find_body_def Let_def)

text \<open>Running either loop over a whole list.\<close>

abbreviation dl_loop ::
  "(nat \<Rightarrow> 'a \<Rightarrow> 's \<Rightarrow> ('s \<times> act) res) \<Rightarrow> 'a dlist \<Rightarrow> 's \<Rightarrow> ('a dlist \<times> 's) res" where
  "dl_loop body l s \<equiv> iter_after get_next get_data del body (dl_capacity l) (get_first l) l s"

abbreviation dl_loop_before ::
  "(nat \<Rightarrow> 'a \<Rightarrow> 's \<Rightarrow> ('s \<times> act) res) \<Rightarrow> 'a dlist \<Rightarrow> 's \<Rightarrow> ('a dlist \<times> 's) res" where
  "dl_loop_before body l s \<equiv> iter_before get_next get_data del body (dl_capacity l) (get_first l) l s"

lemma iter_keep_list:
  assumes keep: "\<And>p x s s' a. body p x s = Inr (s', a) \<Longrightarrow> \<not> act_removes a"
    and "iter_after nx dt rm body k q l s = Inr (l', s')"
  shows "l' = l"
  using assms(2)
proof (induction k arbitrary: q l s)
  case 0
  then show ?case by (cases q) auto
next
  case (Suc k)
  show ?case
  proof (cases q)
    case (Some p)
    with Suc.prems obtain x where x: "dt l p = Some x" by (auto split: option.splits)
    with Suc.prems Some obtain s1 a where b: "body p x s = Inr (s1, a)"
      by (cases "body p x s") auto
    with Suc.prems Some x keep[OF b]
    have "(if act_stops a then Inr (l, s1) else iter_after nx dt rm body k (nx l p) l s1) = Inr (l', s')"
      by simp
    then show ?thesis using Suc.IH by (auto split: if_splits)
  qed (use Suc.prems in simp)
qed

lemma find_loop:
  assumes "dl_inv l"
  shows "dl_loop (find_body P) l r =
     Inr (l, case find (P \<circ> snd) (entries l) of None \<Rightarrow> r | Some e \<Rightarrow> Some (fst e))"
proof -
  obtain l' where l': "dl_loop (find_body P) l r =
      Inr (l', case find (P \<circ> snd) (entries l) of None \<Rightarrow> r | Some e \<Rightarrow> Some (fst e))"
    using dl.loop_all_Inr[OF assms order_refl fold_find] by metis
  have "l' = l"
    by (rule iter_keep_list[OF _ l']) (auto simp: find_body_def split: if_splits)
  with l' show ?thesis by simp
qed

lemma move_loop:
  assumes "dl_inv l" "dl_inv su" "length (entries su) + length (entries l) \<le> dl_capacity su"
  obtains l' su' where "dl_loop (move_body P) l su = Inr (l', su')" "dl_inv l'" "dl_inv su'"
    "entries l' = filter (Not \<circ> P \<circ> snd) (entries l)"
    "elems su' = elems su @ filter P (elems l)"
    "dl_capacity l' = dl_capacity l" "dl_capacity su' = dl_capacity su"
proof -
  have "length (entries su) + length (filter (P \<circ> snd) (entries l)) \<le> dl_capacity su"
    using assms(3) length_filter_le[of "P \<circ> snd" "entries l"] by linarith
  from fold_move[OF assms(2) this]
  obtain su' where f: "fold_entries (move_body P) (entries l) su
      = Inr (filter (Not \<circ> P \<circ> snd) (entries l), su')"
    and s: "dl_inv su'" "dl_capacity su' = dl_capacity su"
      "elems su' = elems su @ map snd (filter (P \<circ> snd) (entries l))"
    by blast
  moreover have "map snd (filter (P \<circ> snd) (entries l)) = filter P (elems l)"
    by (simp add: elems_def filter_map)
  moreover obtain l' where "dl_loop (move_body P) l su = Inr (l', su')"
    "dl_inv l'" "entries l' = filter (Not \<circ> P \<circ> snd) (entries l)" "dl_capacity l' = dl_capacity l"
    by (rule dl.loop_all_Inr[OF assms(1) order_refl f])
  ultimately show thesis using that by simp
qed

section \<open>The ends of a list\<close>

lemma first_split:
  assumes "dl_inv l" "entries l = (p, x) # es"
  shows "get_first l = Some p" "get_data l p = Some x" "dl_inv (del_first l)"
    "entries (del_first l) = es" "dl_capacity (del_first l) = dl_capacity l"
proof -
  show f: "get_first l = Some p" using first_entries[OF assms(1)] assms(2) by simp
  then have "del_first l = del p l" by (simp add: get_first_def del_first_def split: if_splits)
  then show "dl_inv (del_first l)" "entries (del_first l) = es" "dl_capacity (del_first l) = dl_capacity l"
    using dl.rm_split[OF assms(1), of "[]" p x es] assms(2) by simp_all
  show "get_data l p = Some x" using entries_data[OF assms(1)] assms(2) by simp
qed

lemma last_split:
  assumes "dl_inv l" "entries l = es @ [(p, x)]"
  shows "get_last l = Some p" "get_data l p = Some x" "dl_inv (del_last l)" "del_last l = del p l"
    "entries (del_last l) = es" "dl_capacity (del_last l) = dl_capacity l"
proof -
  show f: "get_last l = Some p" using last_entries[OF assms(1)] assms(2) by simp
  then show d: "del_last l = del p l" by (simp add: get_last_def del_last_def split: if_splits)
  then show "dl_inv (del_last l)" "entries (del_last l) = es" "dl_capacity (del_last l) = dl_capacity l"
    using dl.rm_split[OF assms(1), of es p x "[]"] assms(2) by simp_all
  show "get_data l p = Some x" using entries_data[OF assms(1)] assms(2) by simp
qed

text \<open>The slot in which an element added at the front after a deletion lands.\<close>

lemma slot_after_del:
  assumes inv: "dl_inv l" and en: "entries l = es @ (p, x) # es'"
  shows "\<exists>l'. add_beginning y (del p l) = (l', Some (if es @ es' = [] then 0 else p)) \<and> dl_inv l'
           \<and> entries l' = (if es @ es' = [] then 0 else p, y) # es @ es' \<and> dl_capacity l' = dl_capacity l"
proof -
  obtain l' q where l': "add_beginning y (del p l) = (l', Some q)" "dl_inv l'"
    "entries l' = (q, y) # es @ es'" "dl_capacity l' = dl_capacity l"
    using dl.rm_then_front[OF inv en] by blast
  note sp = dl.rm_split[OF inv en]
  have n: "dl_n_elements (del p l) = length (es @ es')"
    using entries_length[OF sp(1)] sp(2) by simp
  have "q = (if es @ es' = [] then 0 else p)"
  proof (cases "es @ es' = []")
    case True
    then show ?thesis using add_beginning_slot[OF l'(1)] n by simp
  next
    case False
    obtain ps fs where r: "dl_rep l ps fs" "map fst (entries l) = ps" using inv by (rule dl_invE)
    then have r: "dl_rep l (map fst es @ p # map fst es') fs" by (simp add: en)
    have "dl_empty (del p l) = p" using del_links(7)[OF r] False by simp
    with add_beginning_slot[OF l'(1)] n False show ?thesis by (cases es) auto
  qed
  with l' show ?thesis by auto
qed

lemma move_to_init_rep:
  assumes inv: "dl_inv l" and en: "entries l = es @ (p, x) # es'"
  shows "\<exists>l'. move_to_init p l = (l', Some (if es @ es' = [] then 0 else p)) \<and> dl_inv l'
           \<and> entries l' = (if es @ es' = [] then 0 else p, x) # es @ es' \<and> dl_capacity l' = dl_capacity l"
proof -
  have "get_data l p = Some x" using entries_data[OF inv] en by simp
  with slot_after_del[OF assms, of x] show ?thesis by (simp add: move_to_init_def)
qed

section \<open>Properties\<close>

text \<open>C27: adding to a well-formed list puts the element at the chosen end, in a slot of the array
  that was free, and leaves every other element and its slot alone; it fails, changing nothing,
  exactly when the list is at its capacity.\<close>

theorem add_refines:
  assumes "dl_inv l"
  shows "(\<forall>l' p. add_end x l = (l', Some p) \<longrightarrow>
            dl_inv l' \<and> entries l' = entries l @ [(p, x)] \<and> p \<notin> fst ` set (entries l)
            \<and> p < dl_capacity l \<and> dl_capacity l' = dl_capacity l)
       \<and> (\<forall>l' p. add_beginning x l = (l', Some p) \<longrightarrow>
            dl_inv l' \<and> entries l' = (p, x) # entries l \<and> p \<notin> fst ` set (entries l)
            \<and> p < dl_capacity l \<and> dl_capacity l' = dl_capacity l)
       \<and> (\<forall>f \<in> {add_end, add_beginning}.
            (snd (f x l) = None \<longleftrightarrow> get_empty l = 0) \<and> (snd (f x l) = None \<longrightarrow> fst (f x l) = l))"
proof -
  have fresh: "p \<notin> fst ` set (entries l) \<and> p < dl_capacity l"
    if "dl_inv l'" "dl_capacity l' = dl_capacity l"
      "entries l' = entries l @ [(p, x)] \<or> entries l' = (p, x) # entries l" for l' p
    using entries_distinct[OF that(1)] entries_pos_bound[OF that(1), of p] that(2,3) by force
  have room: "get_empty l = 0 \<longleftrightarrow> length (entries l) = dl_capacity l"
    using entries_length[OF assms] entries_capacity[OF assms] by (auto simp: get_empty_def)
  show ?thesis
  proof (cases "length (entries l) < dl_capacity l")
    case True
    obtain l1 p1 where b: "add_end x l = (l1, Some p1)" "dl_inv l1"
      "entries l1 = entries l @ [(p1, x)]" "dl_capacity l1 = dl_capacity l"
      by (rule add_end_entries[OF assms True])
    obtain l2 p2 where f: "add_beginning x l = (l2, Some p2)" "dl_inv l2"
      "entries l2 = (p2, x) # entries l" "dl_capacity l2 = dl_capacity l"
      by (rule add_beginning_entries[OF assms True])
    have "get_empty l \<noteq> 0" using room True by simp
    with b f fresh[of l1 p1] fresh[of l2 p2] show ?thesis by simp
  next
    case False
    with entries_capacity[OF assms] add_full[OF assms] room show ?thesis by auto
  qed
qed

lemmas list_eval = add_end_def add_beginning_ptr_def new_list_def chain_all_empty_def upd_slot_def
  blank_slot_def Let_def LIST_END_def entries_def positions_def get_data_def numeral_2_eq_2 numeral_3_eq_3

lemma demo_list:
  "dl_inv (new_list 3 :: nat dlist)" "entries (new_list 3 :: nat dlist) = []"
  by (simp_all add: new_list_inv LIST_END_def)

lemma add_refines_witness:
  "entries (fst (add_end (7::nat) (new_list 3))) = [(0, 7)]"
proof -
  have "snd (add_end (7::nat) (new_list 3)) = Some 0"
    by (simp add: list_eval del: slot_fold)
  then have "add_end (7::nat) (new_list 3) = (fst (add_end 7 (new_list 3)), Some 0)" by (metis prod.collapse)
  with add_refines[OF demo_list(1), of 7] demo_list(2) show ?thesis by simp
qed

text \<open>Three elements in the list, for the evaluations below.\<close>

definition demo3 :: "nat dlist" where
  "demo3 = fst (add_end 9 (fst (add_end 8 (fst (add_end 7 (new_list 3))))))"

lemma demo3_facts: "dl_inv demo3" "entries demo3 = [(0, 7), (1, 8), (2, 9)]"
proof -
  show e: "entries demo3 = [(0, 7), (1, 8), (2, 9)]"
    by (simp add: demo3_def list_eval del: slot_fold)
  have step: "dl_inv (fst (add_end x l))" if "dl_inv l" for x and l :: "nat dlist"
    by (rule dl.push_back_cases[OF that, of x]) (simp_all add: that)
  show "dl_inv demo3" unfolding demo3_def by (intro step demo_list)
qed

text \<open>C28: deleting an element takes exactly that element out of a well-formed list; the others keep
  their slots and their order, and the deleted slot can be filled again: an element added next at
  the front lands in the deleted slot, unless the list became empty, when it lands in slot 0.\<close>

theorem del_refines:
  assumes "dl_inv l" and "p \<in> fst ` set (entries l)"
  shows "dl_inv (del p l) \<and> entries (del p l) = filter (\<lambda>e. fst e \<noteq> p) (entries l)
       \<and> get_data (del p l) p = None
       \<and> snd (add_beginning x (del p l)) = Some (if length (entries l) = 1 then 0 else p)"
proof -
  obtain es y es' where en: "entries l = es @ (p, y) # es'"
    using assms(2) by (force dest: split_list)
  obtain ps fs where r: "dl_rep l ps fs" "map fst (entries l) = ps" using assms(1) by (rule dl_invE)
  then have r': "dl_rep l (map fst es @ p # map fst es') fs" by (simp add: en)
  have "p < dl_capacity l" using entries_pos_bound[OF assms] .
  then have "get_data (del p l) p = None" using del_data[OF r'] by simp
  moreover have "snd (add_beginning x (del p l)) = Some (if length (entries l) = 1 then 0 else p)"
    using slot_after_del[OF assms(1) en, of x] en by (cases "es @ es' = []") auto
  ultimately show ?thesis using del_entries[OF assms] by blast
qed

lemma del_refines_witness:
  "entries (del 1 demo3) = [(0, 7), (2, 9)] \<and> snd (add_beginning 5 (del 1 demo3)) = Some 1"
  using del_refines[OF demo3_facts(1), of 1 5] demo3_facts(2) by simp

text \<open>\<open>move_to_init\<close> of an element never fails: the element becomes the first one, the others keep
  their order. The element stays in its slot, so pointers to it stay good, except when it is alone
  in the list: then it moves to slot 0.\<close>

lemma move_to_init_refines:
  assumes "dl_inv l" and "entries l = es @ (p, x) # es'"
  shows "\<exists>l'. move_to_init p l = (l', Some (if es @ es' = [] then 0 else p)) \<and> dl_inv l'
           \<and> entries l' = (if es @ es' = [] then 0 else p, x) # es @ es'
           \<and> dl_capacity l' = dl_capacity l"
  by (rule move_to_init_rep[OF assms])

lemma move_to_init_refines_witness:
  "\<exists>l'. move_to_init 1 demo3 = (l', Some 1) \<and> entries l' = [(1, 8), (0, 7), (2, 9)]"
  using move_to_init_refines[OF demo3_facts(1), of "[(0, 7)]" 1 8 "[(2, 9)]"] demo3_facts(2) by auto

text \<open>the two searches return the first element, in list order, with the wanted data or key,
  and \<open>NULL\<close> exactly when there is none; deleting by data or by key deletes that element only.\<close>

lemma search_refines:
  assumes "dl_inv l"
  shows "search_el x l = map_option fst (find (\<lambda>(p, d). d = x) (entries l))
       \<and> search_key getkey cmp key l = map_option fst (find (\<lambda>(p, d). cmp key (getkey d) = 0) (entries l))
       \<and> (case del_key getkey cmp key l of (l', found) \<Rightarrow>
            dl_inv l' \<and> found = (\<exists>d \<in> snd ` set (entries l). cmp key (getkey d) = 0)
            \<and> entries l' = (case find (\<lambda>(p, d). cmp key (getkey d) = 0) (entries l) of
                  None \<Rightarrow> entries l | Some e \<Rightarrow> filter (\<lambda>e'. fst e' \<noteq> fst e) (entries l)))"
proof -
  note s = search_from_entries[OF assms]
  have k: "search_key getkey cmp key l = map_option fst (find (\<lambda>(p, d). cmp key (getkey d) = 0) (entries l))"
    by (simp add: search_key_def s)
  moreover have "case del_key getkey cmp key l of (l', found) \<Rightarrow>
            dl_inv l' \<and> found = (\<exists>d \<in> snd ` set (entries l). cmp key (getkey d) = 0)
            \<and> entries l' = (case find (\<lambda>(p, d). cmp key (getkey d) = 0) (entries l) of
                  None \<Rightarrow> entries l | Some e \<Rightarrow> filter (\<lambda>e'. fst e' \<noteq> fst e) (entries l))"
  proof (cases "find (\<lambda>(p, d). cmp key (getkey d) = 0) (entries l)")
    case None
    then have "\<forall>e \<in> set (entries l). cmp key (getkey (snd e)) \<noteq> 0"
      by (auto simp: find_None_iff)
    with None assms show ?thesis by (auto simp: del_key_def k)
  next
    case (Some e)
    then have "e \<in> set (entries l)" "cmp key (getkey (snd e)) = 0"
      by (metis find_Some_iff nth_mem, metis (mono_tags, lifting) case_prod_unfold find_Some_iff)
    moreover from this have "fst e \<in> fst ` set (entries l)" by blast
    ultimately show ?thesis
      using Some del_entries[OF assms, of "fst e"] by (auto simp: del_key_def k)
  qed
  ultimately show ?thesis by (simp add: search_el_def s)
qed

lemma search_refines_witness:
  "search_el 8 demo3 = Some 1 \<and> entries (fst (del_key (\<lambda>d. d) (\<lambda>a b. int a - int b) 8 demo3)) = [(0, 7), (2, 9)]"
  using search_refines[OF demo3_facts(1), of 8 "\<lambda>d. d" "\<lambda>a b. int a - int b" 8] demo3_facts(2)
  by (auto split: prod.splits)

end
