(* ===== verification/Branch_Pred.thy ===== *)
theory Branch_Pred
  imports Static_List_Spec "HOL-Library.Multiset"
begin

text \<open>
  The branch predictors of \<open>src/src/cpu/branch_pred.cpp\<close>. Both table predictors keep a pool of
  entries, a list of the used ones in order of last use, a list of the spare ones, and a hash
  array of list elements as a shortcut for the search. A pointer to an entry is its index in the
  pool, a pointer to a list element is its position in the list, a processor pointer is a number.

  The two table predictors share constructor, search and flush text; they differ in the count that
  the history table keeps and consults.
\<close>

unbundle bit_operations_syntax

section \<open>State\<close>

record branch_el =
  br_mem_addr :: u64
  br_target_addr :: u64
  br_taken :: bool
  br_is_call :: bool
  br_is_ret :: bool

record branch_response =
  rsp_is_branch :: bool
  rsp_take :: bool
  rsp_target :: u64

record bp_el =
  be_inst_addr :: u64
  be_target :: u64
  be_proc :: nat
  be_count :: int

record bpred =
  bp_list :: "nat dlist"
  bp_supplier :: "nat dlist"
  bp_els :: "bp_el list"
  bp_hash :: "nat option list"
  bp_pt :: u32
  bp_mask :: u64
  hash_hit :: u64
  hash_miss :: u64

section \<open>Operations\<close>

text \<open>No prediction.\<close>

definition none_add_entry :: "branch_el \<Rightarrow> nat \<Rightarrow> unit \<Rightarrow> unit" where
  "none_add_entry br c b = b"

definition none_check :: "u64 \<Rightarrow> branch_response \<Rightarrow> nat \<Rightarrow> branch_response" where
  "none_check vaddr r c = r\<lparr>rsp_is_branch := False\<rparr>"

definition none_flush :: "nat \<Rightarrow> unit \<Rightarrow> unit" where
  "none_flush c b = b"

text \<open>
  The table size is rounded up to a power of two and doubled. A 32-bit \<open>pt\<close> reaches any power of
  two within 32 steps; a size above \<open>2^31\<close> is never reached and the loop does not end.
\<close>

fun grow_pt :: "nat \<Rightarrow> u32 \<Rightarrow> u32 \<Rightarrow> u32 res" where
  "grow_pt 0 sz pt = (if pt < sz then Inl Diverges else Inr pt)"
| "grow_pt (Suc k) sz pt = (if pt < sz then grow_pt k sz (push_bit 1 pt) else Inr pt)"

fun add_all :: "nat list \<Rightarrow> nat dlist \<Rightarrow> nat dlist" where
  "add_all [] l = l"
| "add_all (x # xs) l = add_all xs (fst (add_end x l))"

definition bpred_new :: "bp_el list \<Rightarrow> u32 \<Rightarrow> bpred res" where
  "bpred_new junk sz =
     rbind (grow_pt 33 sz 1) (\<lambda>pt0.
       let pt = push_bit 1 pt0; n = unat sz in
       rbind (set_list_size (replicate n blank_slot) n) (\<lambda>l.
       rbind (set_list_size (replicate n blank_slot) n) (\<lambda>s.
         Inr \<lparr>bp_list = l, bp_supplier = add_all [0..<n] s, bp_els = junk,
              bp_hash = replicate (unat pt) None, bp_pt = pt, bp_mask = ucast (pt - 1),
              hash_hit = 0, hash_miss = 0\<rparr>)))"

definition bp_slot :: "u64 \<Rightarrow> bpred \<Rightarrow> nat" where
  "bp_slot addr b = unat (addr AND bp_mask b)"

definition bp_match :: "bpred \<Rightarrow> u64 \<Rightarrow> nat \<Rightarrow> nat \<Rightarrow> bool" where
  "bp_match b addr c i \<longleftrightarrow> be_proc (bp_els b ! i) = c \<and> be_inst_addr (bp_els b ! i) = addr"

definition bp_search_list :: "u64 \<Rightarrow> nat \<Rightarrow> bpred \<Rightarrow> (bpred \<times> nat option) res" where
  "bp_search_list addr c b =
     rbind (dl_loop (find_body (bp_match b addr c)) (bp_list b) None) (\<lambda>(l, r).
       Inr (if r = None then b else b\<lparr>hash_miss := hash_miss b + 1\<rparr>, r))"

definition bp_search :: "u64 \<Rightarrow> nat \<Rightarrow> bpred \<Rightarrow> (bpred \<times> nat option) res" where
  "bp_search addr c b =
     (case bp_hash b ! bp_slot addr b of
        None \<Rightarrow> bp_search_list addr c b
      | Some p \<Rightarrow>
          (case get_data (bp_list b) p of
             None \<Rightarrow> Inl Null_Deref
           | Some h \<Rightarrow>
               if bp_match b addr c h then Inr (b\<lparr>hash_hit := hash_hit b + 1\<rparr>, Some p)
               else bp_search_list addr c b))"

text \<open>
  The common start of \<open>add_entry\<close>: the entry to write, moved or put at the front of the list, the
  list element that holds it, and whether the branch was in the table.
\<close>

definition bp_take_spare :: "bpred \<Rightarrow> (bpred \<times> nat) res" where
  "bp_take_spare b =
     (if dl_n_elements (bp_supplier b) > 0 then
        (case get_first (bp_supplier b) of
           None \<Rightarrow> Inl Null_Deref
         | Some p \<Rightarrow>
             (case get_data (bp_supplier b) p of
                None \<Rightarrow> Inl Null_Deref
              | Some i \<Rightarrow> Inr (b\<lparr>bp_supplier := del_first (bp_supplier b)\<rparr>, i)))
      else
        (case get_last (bp_list b) of
           None \<Rightarrow> Inl Null_Deref
         | Some p \<Rightarrow>
             (case get_data (bp_list b) p of
                None \<Rightarrow> Inl Null_Deref
              | Some i \<Rightarrow> Inr (b\<lparr>bp_list := del_last (bp_list b)\<rparr>, i))))"

definition bp_front :: "u64 \<Rightarrow> nat \<Rightarrow> bpred \<Rightarrow> (bpred \<times> nat option \<times> nat \<times> bool) res" where
  "bp_front addr c b =
     rbind (bp_search addr c b) (\<lambda>(b1, r).
       case r of
         Some p \<Rightarrow>
           (case move_to_init p (bp_list b1) of
              (l, None) \<Rightarrow> Inl Null_Deref
            | (l, Some q) \<Rightarrow>
                (case get_data l q of
                   None \<Rightarrow> Inl Null_Deref
                 | Some i \<Rightarrow> Inr (b1\<lparr>bp_list := l\<rparr>, Some q, i, True)))
       | None \<Rightarrow>
           rbind (bp_take_spare b1) (\<lambda>(b2, i).
             case add_beginning i (bp_list b2) of
               (l, el) \<Rightarrow> Inr (b2\<lparr>bp_list := l\<rparr>, el, i, False)))"

definition bp_write :: "branch_el \<Rightarrow> nat \<Rightarrow> nat option \<Rightarrow> nat \<Rightarrow> bpred \<Rightarrow> bpred" where
  "bp_write br c el i b =
     b\<lparr>bp_els := (bp_els b)[i := (bp_els b ! i)\<lparr>be_inst_addr := br_mem_addr br,
                                  be_target := br_target_addr br, be_proc := c\<rparr>],
       bp_hash := (bp_hash b)[bp_slot (br_mem_addr br) b := el]\<rparr>"

definition all_add_entry :: "branch_el \<Rightarrow> nat \<Rightarrow> bpred \<Rightarrow> bpred res" where
  "all_add_entry br c b =
     rbind (bp_front (br_mem_addr br) c b) (\<lambda>(b1, el, i, found). Inr (bp_write br c el i b1))"

definition bump_count :: "bool \<Rightarrow> int \<Rightarrow> int" where
  "bump_count taken n =
     (let m = (if taken then n + 1 else n - 1)
      in if m > 1 then 1 else if m < - 1 then - 1 else m)"

definition new_count :: "bool \<Rightarrow> int" where
  "new_count taken = (if taken then 0 else - 1)"

definition hist_add_entry :: "branch_el \<Rightarrow> nat \<Rightarrow> bpred \<Rightarrow> bpred res" where
  "hist_add_entry br c b =
     rbind (bp_front (br_mem_addr br) c b) (\<lambda>(b1, el, i, found).
       let e = bp_els b1 ! i;
           n = (if found then bump_count (br_taken br) (be_count e) else new_count (br_taken br))
       in Inr (bp_write br c el i (b1\<lparr>bp_els := (bp_els b1)[i := e\<lparr>be_count := n\<rparr>]\<rparr>)))"

definition bp_answer ::
  "(bp_el \<Rightarrow> bool) \<Rightarrow> u64 \<Rightarrow> branch_response \<Rightarrow> nat \<Rightarrow> bpred \<Rightarrow> (bpred \<times> branch_response) res" where
  "bp_answer tk vaddr r c b =
     rbind (bp_search vaddr c b) (\<lambda>(b1, el).
       case el of
         None \<Rightarrow> Inr (b1, r\<lparr>rsp_is_branch := False\<rparr>)
       | Some p \<Rightarrow>
           (case get_data (bp_list b1) p of
              None \<Rightarrow> Inl Null_Deref
            | Some i \<Rightarrow> Inr (b1, r\<lparr>rsp_is_branch := True, rsp_take := tk (bp_els b1 ! i),
                                   rsp_target := be_target (bp_els b1 ! i)\<rparr>)))"

definition all_check :: "u64 \<Rightarrow> branch_response \<Rightarrow> nat \<Rightarrow> bpred \<Rightarrow> (bpred \<times> branch_response) res" where
  "all_check = bp_answer (\<lambda>_. True)"

definition hist_check :: "u64 \<Rightarrow> branch_response \<Rightarrow> nat \<Rightarrow> bpred \<Rightarrow> (bpred \<times> branch_response) res" where
  "hist_check = bp_answer (\<lambda>e. be_count e \<ge> 0)"

definition bp_flush :: "nat \<Rightarrow> bpred \<Rightarrow> bpred res" where
  "bp_flush c b =
     rbind (dl_loop (move_body (\<lambda>i. be_proc (bp_els b ! i) = c)) (bp_list b) (bp_supplier b)) (\<lambda>(l, s).
       Inr (b\<lparr>bp_hash := replicate (unat (bp_pt b)) None, bp_list := l, bp_supplier := s\<rparr>))"

section \<open>The table a predictor stands for\<close>

text \<open>The branches known, most recently used first: key, then target and count.\<close>

type_synonym bp_key = "u64 \<times> nat"

definition bp_row :: "bpred \<Rightarrow> nat \<Rightarrow> bp_key \<times> u64 \<times> int" where
  "bp_row b i = (let e = bp_els b ! i
     in ((be_inst_addr e, be_proc e), be_target e, be_count e))"

definition bp_table :: "bpred \<Rightarrow> (bp_key \<times> u64 \<times> int) list" where
  "bp_table b = map (bp_row b) (elems (bp_list b))"

definition bp_size :: "bpred \<Rightarrow> nat" where
  "bp_size b = length (bp_els b)"

section \<open>Invariant\<close>

text \<open>
  The two lists share the pool out between them; no branch is in the table twice; every hash slot
  that is set points to an element in use. When a single element is in use the set slots point to
  position 0, since \<open>move_to_init\<close> would move the element there.
\<close>

definition bp_pool :: "bpred \<Rightarrow> bool" where
  "bp_pool b \<longleftrightarrow> dl_inv (bp_list b) \<and> dl_inv (bp_supplier b)
     \<and> dl_capacity (bp_list b) = bp_size b \<and> dl_capacity (bp_supplier b) = bp_size b
     \<and> mset (elems (bp_list b) @ elems (bp_supplier b)) = mset [0..<bp_size b]"

definition hashes_ok :: "nat option list \<Rightarrow> (nat \<times> nat) list \<Rightarrow> bool" where
  "hashes_ok hs es \<longleftrightarrow> (\<forall>p. Some p \<in> set hs \<longrightarrow> p \<in> fst ` set es \<and> (length es = 1 \<longrightarrow> p = 0))"

definition bp_hash_ok :: "bpred \<Rightarrow> bool" where
  "bp_hash_ok b = hashes_ok (bp_hash b) (entries (bp_list b))"

definition bp_geometry :: "bpred \<Rightarrow> bool" where
  "bp_geometry b \<longleftrightarrow> length (bp_hash b) = unat (bp_pt b) \<and> bp_pt b \<noteq> 0 \<and> bp_mask b = ucast (bp_pt b - 1)"

definition bp_inv :: "bpred \<Rightarrow> bool" where
  "bp_inv b \<longleftrightarrow> bp_pool b \<and> bp_geometry b \<and> bp_hash_ok b \<and> distinct (map fst (bp_table b))"


section \<open>Search\<close>

lemma bp_slot_bound:
  assumes "bp_geometry b"
  shows "bp_slot addr b < length (bp_hash b)"
proof -
  have "unat (addr AND bp_mask b) \<le> unat (bp_mask b)"
    by (simp add: word_and_le1 flip: word_le_nat_alt)
  also have "unat (bp_mask b) = unat (bp_pt b - 1)"
    using assms by (simp add: bp_geometry_def)
  also have "\<dots> < unat (bp_pt b)"
    using assms by (simp add: bp_geometry_def unat_minus_one unat_gt_0)
  finally show ?thesis using assms by (simp add: bp_slot_def bp_geometry_def)
qed

lemma find_unique:
  assumes "e \<in> set es" "P e" "\<And>e'. e' \<in> set es \<Longrightarrow> P e' \<Longrightarrow> e' = e"
  shows "find P es = Some e"
proof -
  obtain e' where e': "find P es = Some e'"
    using assms(1,2) by (metis find_None_iff not_None_eq)
  then have "e' \<in> set es" "P e'" by (metis find_Some_iff nth_mem)+
  with e' assms(3) show ?thesis by simp
qed

lemma bp_match_row: "bp_match b addr c i \<longleftrightarrow> fst (bp_row b i) = (addr, c)"
  by (auto simp: bp_match_def bp_row_def Let_def)

lemma bp_match_unique:
  assumes "distinct (map fst (bp_table b))" "e \<in> set (entries (bp_list b))" "e' \<in> set (entries (bp_list b))"
    "bp_match b addr c (snd e)" "bp_match b addr c (snd e')"
  shows "e' = e"
proof -
  have "distinct (map (\<lambda>e. fst (bp_row b (snd e))) (entries (bp_list b)))"
    using assms(1) by (simp add: bp_table_def elems_def o_def)
  then have "inj_on (\<lambda>e. fst (bp_row b (snd e))) (set (entries (bp_list b)))"
    by (simp add: distinct_map)
  with assms(2-) show ?thesis by (auto simp: bp_match_row inj_on_def)
qed

definition bp_lookup :: "u64 \<Rightarrow> nat \<Rightarrow> bpred \<Rightarrow> (nat \<times> nat) option" where
  "bp_lookup addr c b = find (bp_match b addr c \<circ> snd) (entries (bp_list b))"

lemma bp_search_list_ok:
  assumes "dl_inv (bp_list b)"
  shows "bp_search_list addr c b = Inr (if bp_lookup addr c b = None then b
            else b\<lparr>hash_miss := hash_miss b + 1\<rparr>, map_option fst (bp_lookup addr c b))"
  using find_loop[OF assms, of "bp_match b addr c" None]
  by (auto simp: bp_search_list_def bp_lookup_def split: option.splits)

lemma bp_search_cases:
  assumes "bp_inv b"
  obtains h m where "bp_search addr c b
      = Inr (b\<lparr>hash_hit := h, hash_miss := m\<rparr>, map_option fst (bp_lookup addr c b))"
proof -
  have l: "dl_inv (bp_list b)" and hs: "bp_hash_ok b" and u: "distinct (map fst (bp_table b))"
    using assms by (simp_all add: bp_inv_def bp_pool_def)
  have list: "\<exists>h m. bp_search_list addr c b
      = Inr (b\<lparr>hash_hit := h, hash_miss := m\<rparr>, map_option fst (bp_lookup addr c b))"
    unfolding bp_search_list_ok[OF l]
    by (rule exI[of _ "hash_hit b"], rule exI[of _ "if bp_lookup addr c b = None then hash_miss b
          else hash_miss b + 1"]) simp
  have slot: "bp_slot addr b < length (bp_hash b)"
    using assms by (simp add: bp_inv_def bp_slot_bound)
  show thesis
  proof (cases "bp_hash b ! bp_slot addr b")
    case None
    with list that show thesis by (auto simp: bp_search_def)
  next
    case (Some p)
    then have "Some p \<in> set (bp_hash b)" using slot by (metis nth_mem)
    then have "p \<in> fst ` set (entries (bp_list b))" using hs by (auto simp: bp_hash_ok_def hashes_ok_def)
    then obtain i where e: "(p, i) \<in> set (entries (bp_list b))" by auto
    then have d: "get_data (bp_list b) p = Some i" by (rule entries_data[OF l])
    show thesis
    proof (cases "bp_match b addr c i")
      case True
      have "bp_lookup addr c b = Some (p, i)"
        unfolding bp_lookup_def
      proof (rule find_unique[OF e])
        show "(bp_match b addr c \<circ> snd) (p, i)" using True by simp
        show "e' = (p, i)" if "e' \<in> set (entries (bp_list b))" "(bp_match b addr c \<circ> snd) e'" for e'
          by (rule bp_match_unique[OF u e that(1), of addr c]) (use that True in simp_all)
      qed
      with Some d True that[of "hash_miss b" "hash_hit b + 1"] show thesis
        by (simp add: bp_search_def)
    next
      case False
      with Some d list that show thesis by (auto simp: bp_search_def)
    qed
  qed
qed

lemma bp_search_ok:
  assumes "bp_inv b"
  shows "\<exists>h m. bp_search addr c b
      = Inr (b\<lparr>hash_hit := h, hash_miss := m\<rparr>, map_option fst (bp_lookup addr c b))"
  by (rule bp_search_cases[OF assms, of addr c]) blast

lemma bp_lookup_Some:
  assumes "bp_lookup addr c b = Some (p, i)"
  shows "(p, i) \<in> set (entries (bp_list b))" and "bp_match b addr c i"
proof -
  from assms show "(p, i) \<in> set (entries (bp_list b))"
    unfolding bp_lookup_def by (metis find_Some_iff nth_mem)
  from assms show "bp_match b addr c i"
    unfolding bp_lookup_def by (metis comp_apply find_Some_iff snd_conv)
qed

lemma bp_lookup_table:
  "map_of (bp_table b) (addr, c) = map_option (snd \<circ> bp_row b \<circ> snd) (bp_lookup addr c b)"
proof -
  have "map_of (map (bp_row b \<circ> snd) es) (addr, c)
          = map_option (snd \<circ> bp_row b \<circ> snd) (find (bp_match b addr c \<circ> snd) es)" for es
  proof (induction es)
    case (Cons e es)
    obtain k v where "bp_row b (snd e) = (k, v)" by (meson surj_pair)
    with Cons show ?case by (simp add: bp_match_row)
  qed simp
  then show ?thesis by (simp add: bp_table_def elems_def bp_lookup_def)
qed


section \<open>Adding a branch\<close>

lemma bp_pool_facts:
  assumes "bp_pool b"
  shows "length (entries (bp_list b)) + length (entries (bp_supplier b)) = bp_size b"
    and "i \<in> set (elems (bp_list b)) \<Longrightarrow> i < bp_size b" and "i \<in> set (elems (bp_supplier b)) \<Longrightarrow> i < bp_size b"
    and "distinct (elems (bp_list b) @ elems (bp_supplier b))"
proof -
  have m: "mset (elems (bp_list b) @ elems (bp_supplier b)) = mset [0..<bp_size b]"
    using assms by (simp add: bp_pool_def)
  show "distinct (elems (bp_list b) @ elems (bp_supplier b))"
    using m by (metis distinct_upt mset_eq_imp_distinct_iff)
  have "set (elems (bp_list b) @ elems (bp_supplier b)) = {..<bp_size b}"
    using m by (metis atLeast_upt mset_eq_setD)
  then show "i \<in> set (elems (bp_list b)) \<Longrightarrow> i < bp_size b" "i \<in> set (elems (bp_supplier b)) \<Longrightarrow> i < bp_size b"
    by auto
  have "length (elems (bp_list b) @ elems (bp_supplier b)) = bp_size b"
    using m by (metis length_upt mset_eq_length diff_zero)
  then show "length (entries (bp_list b)) + length (entries (bp_supplier b)) = bp_size b"
    by (simp add: elems_def)
qed

text \<open>
  The outcome of \<open>bp_front\<close>: entry \<open>i\<close> is at the front, in element \<open>q\<close>; behind it are the
  entries \<open>rest\<close> that stay.
\<close>

definition front_done :: "bpred \<Rightarrow> (nat \<times> nat) list \<Rightarrow> bpred \<Rightarrow> nat \<Rightarrow> nat \<Rightarrow> bool" where
  "front_done b rest b1 q i \<longleftrightarrow>
     bp_pool b1 \<and> bp_els b1 = bp_els b \<and> bp_hash b1 = bp_hash b \<and> bp_pt b1 = bp_pt b
     \<and> bp_mask b1 = bp_mask b \<and> entries (bp_list b1) = (q, i) # rest
     \<and> hashes_ok (bp_hash b1) (entries (bp_list b1)) \<and> (rest = [] \<longrightarrow> q = 0)"

lemma front_found:
  assumes inv: "bp_inv b" and f: "bp_lookup addr c b = Some (p, i)"
  obtains b1 q es es' where "bp_front addr c b = Inr (b1, Some q, i, True)"
    "entries (bp_list b) = es @ (p, i) # es'" "front_done b (es @ es') b1 q i"
proof -
  obtain es es' where en: "entries (bp_list b) = es @ (p, i) # es'"
    using bp_lookup_Some(1)[OF f] by (metis split_list)
  have l: "dl_inv (bp_list b)" using inv by (simp add: bp_inv_def bp_pool_def)
  define q where "q = (if es @ es' = [] then 0 else p)"
  obtain l' where l': "move_to_init p (bp_list b) = (l', Some q)" "dl_inv l'"
    "entries l' = (q, i) # es @ es'" "dl_capacity l' = dl_capacity (bp_list b)"
    using move_to_init_rep[OF l en] by (auto simp: q_def)
  obtain h m where s: "bp_search addr c b = Inr (b\<lparr>hash_hit := h, hash_miss := m\<rparr>, Some p)"
    using bp_search_ok[OF inv, of addr c] f by auto
  let ?b1 = "b\<lparr>hash_hit := h, hash_miss := m, bp_list := l'\<rparr>"
  have "get_data l' q = Some i" using entries_data[OF l'(2)] l'(3) by simp
  then have "bp_front addr c b = Inr (?b1, Some q, i, True)"
    by (simp add: bp_front_def s l'(1))
  moreover have "front_done b (es @ es') ?b1 q i"
  proof -
    have "hashes_ok (bp_hash b) ((q, i) # es @ es')"
      using inv by (auto simp: bp_inv_def bp_hash_ok_def hashes_ok_def en q_def)
    moreover have "mset (elems l') = mset (elems (bp_list b))" by (simp add: elems_def l' en)
    ultimately show ?thesis
      using inv l' by (simp add: front_done_def bp_inv_def bp_pool_def bp_size_def q_def)
  qed
  ultimately show thesis using en that by blast
qed

lemma front_new_spare:
  assumes inv: "bp_inv b" and f: "bp_lookup addr c b = None" and sp: "entries (bp_supplier b) = (r, i) # ss"
  shows "\<exists>b1 q. bp_front addr c b = Inr (b1, Some q, i, False) \<and> front_done b (entries (bp_list b)) b1 q i"
proof -
  have pool: "bp_pool b" using inv by (simp add: bp_inv_def)
  then have l: "dl_inv (bp_list b)" "dl_inv (bp_supplier b)" and cap: "dl_capacity (bp_list b) = bp_size b"
    by (simp_all add: bp_pool_def)
  note d = first_split[OF l(2) sp]
  have "length (entries (bp_list b)) < dl_capacity (bp_list b)"
    using bp_pool_facts(1)[OF pool] sp cap by simp
  then obtain l' q where l': "add_beginning i (bp_list b) = (l', Some q)" "dl_inv l'"
    "entries l' = (q, i) # entries (bp_list b)" "dl_capacity l' = dl_capacity (bp_list b)"
    by (rule add_beginning_entries[OF l(1)])
  obtain h m where s: "bp_search addr c b = Inr (b\<lparr>hash_hit := h, hash_miss := m\<rparr>, None)"
    using bp_search_ok[OF inv, of addr c] f by auto
  let ?b1 = "b\<lparr>hash_hit := h, hash_miss := m, bp_supplier := del_first (bp_supplier b), bp_list := l'\<rparr>"
  have "dl_n_elements (bp_supplier b) > 0" using entries_length[OF l(2)] sp by simp
  then have "bp_front addr c b = Inr (?b1, Some q, i, False)"
    by (simp add: bp_front_def s bp_take_spare_def d l'(1))
  moreover have "front_done b (entries (bp_list b)) ?b1 q i"
  proof -
    have "q = 0" if "entries (bp_list b) = []"
      using add_beginning_slot[OF l'(1)] entries_length[OF l(1)] that by simp
    moreover from this have "hashes_ok (bp_hash b) ((q, i) # entries (bp_list b))"
      using inv by (auto simp: bp_inv_def bp_hash_ok_def hashes_ok_def)
    moreover have "mset (elems l' @ elems (del_first (bp_supplier b)))
        = mset (elems (bp_list b) @ elems (bp_supplier b))"
      by (simp add: elems_def l' d sp)
    ultimately show ?thesis
      using pool l' d by (simp add: front_done_def bp_pool_def bp_size_def)
  qed
  ultimately show ?thesis by blast
qed

lemma front_new_evict:
  assumes inv: "bp_inv b" and f: "bp_lookup addr c b = None" and sp: "entries (bp_supplier b) = []"
  shows "\<exists>b1 q i. bp_front addr c b = Inr (b1, Some q, i, False)
           \<and> snd (last (entries (bp_list b))) = i \<and> entries (bp_list b) \<noteq> []
           \<and> front_done b (butlast (entries (bp_list b))) b1 q i"
proof -
  have pool: "bp_pool b" using inv by (simp add: bp_inv_def)
  then have l: "dl_inv (bp_list b)" "dl_inv (bp_supplier b)" and cap: "dl_capacity (bp_list b) = bp_size b"
    by (simp_all add: bp_pool_def)
  have "entries (bp_list b) \<noteq> []"
    using bp_pool_facts(1)[OF pool] sp capacity_pos[OF l(1)] cap by auto
  then obtain es p i where en: "entries (bp_list b) = es @ [(p, i)]"
    by (metis append_butlast_last_id surj_pair)
  note d = last_split[OF l(1) en]
  define q where "q = (if es = [] then 0 else p)"
  obtain l' where l': "add_beginning i (del_last (bp_list b)) = (l', Some q)" "dl_inv l'"
    "entries l' = (q, i) # es" "dl_capacity l' = dl_capacity (bp_list b)"
    using slot_after_del[OF l(1), of es p i "[]" i] en d(4) by (auto simp: q_def)
  obtain h m where s: "bp_search addr c b = Inr (b\<lparr>hash_hit := h, hash_miss := m\<rparr>, None)"
    using bp_search_ok[OF inv, of addr c] f by auto
  let ?b1 = "b\<lparr>hash_hit := h, hash_miss := m, bp_list := l'\<rparr>"
  have "dl_n_elements (bp_supplier b) = 0" using entries_length[OF l(2)] sp by simp
  then have "bp_front addr c b = Inr (?b1, Some q, i, False)"
    by (simp add: bp_front_def s bp_take_spare_def d(1,2) l'(1))
  moreover have "front_done b es ?b1 q i"
  proof -
    have "hashes_ok (bp_hash b) ((q, i) # es)"
      using inv by (auto simp: bp_inv_def bp_hash_ok_def hashes_ok_def en q_def)
    moreover have "mset (elems l') = mset (elems (bp_list b))" by (simp add: elems_def l' en)
    ultimately show ?thesis
      using pool l' by (simp add: front_done_def bp_pool_def bp_size_def q_def)
  qed
  ultimately show ?thesis using en by auto
qed


text \<open>All three cases together, in terms of the table.\<close>

definition bp_others :: "bp_key \<Rightarrow> bpred \<Rightarrow> (bp_key \<times> u64 \<times> int) list" where
  "bp_others k b = take (bp_size b - 1) (filter (\<lambda>r. fst r \<noteq> k) (bp_table b))"

lemma bp_lookup_None:
  "bp_lookup addr c b = None \<longleftrightarrow> (\<forall>i \<in> set (elems (bp_list b)). \<not> bp_match b addr c i)"
  by (auto simp: bp_lookup_def find_None_iff elems_def)

lemma others_new:
  assumes "bp_lookup addr c b = None"
  shows "bp_others (addr, c) b = take (bp_size b - 1) (bp_table b)"
proof -
  have "filter (\<lambda>r. fst r \<noteq> (addr, c)) (bp_table b) = bp_table b"
    using assms by (auto simp: bp_lookup_None bp_match_row bp_table_def filter_id_conv)
  then show ?thesis by (simp add: bp_others_def)
qed

lemma others_found:
  assumes inv: "bp_inv b" and f: "bp_lookup addr c b = Some (p, i)"
    and en: "entries (bp_list b) = es @ (p, i) # es'"
  shows "bp_others (addr, c) b = map (bp_row b) (map snd (es @ es'))"
proof -
  have t: "bp_table b = map (bp_row b \<circ> snd) es @ bp_row b i # map (bp_row b \<circ> snd) es'"
    by (simp add: bp_table_def elems_def en)
  have k: "fst (bp_row b i) = (addr, c)" using bp_lookup_Some(2)[OF f] by (simp add: bp_match_row)
  have "distinct (map fst (bp_table b))" using inv by (simp add: bp_inv_def)
  then have "fst (bp_row b i) \<notin> fst ` set (map (bp_row b \<circ> snd) es)"
    "fst (bp_row b i) \<notin> fst ` set (map (bp_row b \<circ> snd) es')"
    by (simp_all add: t image_comp)
  moreover have "filter (\<lambda>r. fst r \<noteq> x) xs = xs" if "x \<notin> fst ` set xs"
    for x and xs :: "(bp_key \<times> u64 \<times> int) list"
    using that by (force simp: filter_id_conv)
  ultimately have "filter (\<lambda>r. fst r \<noteq> (addr, c)) (bp_table b) = map (bp_row b \<circ> snd) (es @ es')"
    by (simp add: t k)
  moreover have "length (es @ es') \<le> bp_size b - 1"
    using bp_pool_facts(1)[of b] inv by (simp add: bp_inv_def en)
  ultimately show ?thesis by (simp add: bp_others_def)
qed

lemma bp_front_ok:
  assumes inv: "bp_inv b"
  obtains b1 q i rest where
    "bp_front addr c b = Inr (b1, Some q, i, bp_lookup addr c b \<noteq> None)"
    "front_done b rest b1 q i" "map (bp_row b) (map snd rest) = bp_others (addr, c) b"
    "\<And>p j. bp_lookup addr c b = Some (p, j) \<Longrightarrow> j = i"
proof (cases "bp_lookup addr c b")
  case (Some pi)
  obtain p i where pi: "pi = (p, i)" by force
  obtain b1 q es es' where "bp_front addr c b = Inr (b1, Some q, i, True)"
    "entries (bp_list b) = es @ (p, i) # es'" "front_done b (es @ es') b1 q i"
    by (rule front_found[OF inv Some[unfolded pi]])
  with others_found[OF inv Some[unfolded pi]] Some pi that show thesis by simp
next
  case None
  have pool: "bp_pool b" using inv by (simp add: bp_inv_def)
  have n: "length (bp_table b) = length (entries (bp_list b))" by (simp add: bp_table_def elems_def)
  show thesis
  proof (cases "entries (bp_supplier b)")
    case Nil
    obtain b1 q i where b1: "bp_front addr c b = Inr (b1, Some q, i, False)" "entries (bp_list b) \<noteq> []"
      "front_done b (butlast (entries (bp_list b))) b1 q i"
      using front_new_evict[OF inv None Nil] by blast
    have "bp_size b - 1 = length (bp_table b) - 1" using bp_pool_facts(1)[OF pool] Nil n by simp
    then have "bp_others (addr, c) b = butlast (bp_table b)"
      by (simp add: others_new[OF None] butlast_conv_take)
    then have "map (bp_row b) (map snd (butlast (entries (bp_list b)))) = bp_others (addr, c) b"
      by (simp add: bp_table_def elems_def map_butlast)
    with b1 None that show thesis by simp
  next
    case (Cons e ss)
    obtain r i where e: "e = (r, i)" by force
    obtain b1 q where b1: "bp_front addr c b = Inr (b1, Some q, i, False)"
      "front_done b (entries (bp_list b)) b1 q i"
      using front_new_spare[OF inv None Cons[unfolded e]] by blast
    have "length (bp_table b) \<le> bp_size b - 1" using bp_pool_facts(1)[OF pool] Cons n by simp
    then have "map (bp_row b) (map snd (entries (bp_list b))) = bp_others (addr, c) b"
      by (simp add: others_new[OF None] bp_table_def elems_def)
    with b1 None that show thesis by simp
  qed
qed

text \<open>Writing the entry that \<open>bp_front\<close> brought to the front.\<close>

definition set_entry :: "(bp_el \<Rightarrow> bp_el) \<Rightarrow> nat \<Rightarrow> bpred \<Rightarrow> bpred" where
  "set_entry f i b = b\<lparr>bp_els := (bp_els b)[i := f (bp_els b ! i)]\<rparr>"

lemma write_done:
  assumes inv: "bp_inv b" and fd: "front_done b rest b1 q i"
    and rest: "map (bp_row b) (map snd rest) = bp_others (br_mem_addr br, c) b"
  shows "bp_inv (bp_write br c (Some q) i (set_entry (\<lambda>e. e\<lparr>be_count := n\<rparr>) i b1))"
    and "bp_table (bp_write br c (Some q) i (set_entry (\<lambda>e. e\<lparr>be_count := n\<rparr>) i b1))
           = ((br_mem_addr br, c), br_target_addr br, n) # bp_others (br_mem_addr br, c) b"
    and "bp_size (bp_write br c (Some q) i (set_entry (\<lambda>e. e\<lparr>be_count := n\<rparr>) i b1)) = bp_size b"
proof -
  let ?w = "bp_write br c (Some q) i (set_entry (\<lambda>e. e\<lparr>be_count := n\<rparr>) i b1)"
  have fields: "bp_list ?w = bp_list b1" "bp_supplier ?w = bp_supplier b1" "bp_pt ?w = bp_pt b1"
    "bp_mask ?w = bp_mask b1" "bp_hash ?w = (bp_hash b1)[bp_slot (br_mem_addr br) b1 := Some q]"
    by (simp_all add: bp_write_def set_entry_def bp_slot_def)
  have pool: "bp_pool b1" and els: "bp_els b1 = bp_els b" and en: "entries (bp_list b1) = (q, i) # rest"
    and hs0: "hashes_ok (bp_hash b1) (entries (bp_list b1))" and q: "rest = [] \<longrightarrow> q = 0"
    using fd unfolding front_done_def by blast+
  note hs = hs0[unfolded en]
  have "i \<in> set (elems (bp_list b1))" by (simp add: elems_def en)
  then have i: "i < length (bp_els b1)" using bp_pool_facts(2)[OF pool] by (simp add: bp_size_def)
  show size: "bp_size ?w = bp_size b" by (simp add: bp_size_def bp_write_def set_entry_def els)
  have "i \<notin> set (map snd rest)" using bp_pool_facts(4)[OF pool] by (simp add: elems_def en)
  moreover have "bp_row ?w j = bp_row b j" if "j \<noteq> i" for j
    using that by (simp add: bp_row_def bp_write_def set_entry_def els)
  ultimately have "map (bp_row ?w) (map snd rest) = map (bp_row b) (map snd rest)"
    by (intro map_cong refl) metis
  then have "map (bp_row ?w) (map snd rest) = bp_others (br_mem_addr br, c) b" using rest by metis
  moreover have "bp_row ?w i = ((br_mem_addr br, c), br_target_addr br, n)"
    using i by (simp add: bp_row_def bp_write_def set_entry_def)
  ultimately show table: "bp_table ?w = ((br_mem_addr br, c), br_target_addr br, n)
      # bp_others (br_mem_addr br, c) b"
    by (simp add: bp_table_def fields elems_def en)
  have "bp_pool ?w"
    using pool size by (simp add: bp_pool_def fields) (simp add: bp_size_def els)
  moreover have "bp_geometry ?w"
    using inv fd by (simp add: bp_inv_def bp_geometry_def fields front_done_def)
  moreover have "bp_hash_ok ?w"
    using hs q set_update_subset_insert[of "bp_hash b1" "bp_slot (br_mem_addr br) b1" "Some q"]
    by (auto simp: bp_hash_ok_def hashes_ok_def fields en)
  moreover have "distinct (map fst (bp_table ?w))"
  proof -
    have "distinct (map fst (bp_table b))" using inv by (simp add: bp_inv_def)
    then have "distinct (map fst (filter (\<lambda>r. fst r \<noteq> (br_mem_addr br, c)) (bp_table b)))"
      by (rule distinct_map_filter)
    then have "distinct (map fst (bp_others (br_mem_addr br, c) b))"
      by (simp add: bp_others_def flip: take_map)
    moreover have "(br_mem_addr br, c) \<notin> fst ` set (bp_others (br_mem_addr br, c) b)"
      by (auto simp: bp_others_def dest: in_set_takeD)
    ultimately show ?thesis by (simp add: table)
  qed
  ultimately show "bp_inv ?w" by (simp add: bp_inv_def)
qed


section \<open>Construction\<close>

lemma grow_pt_power:
  assumes "sz \<le> 2 ^ m" "j \<le> m" "m < 32" "m - j \<le> k"
  shows "\<exists>i. grow_pt k sz (2 ^ j) = Inr (2 ^ i) \<and> sz \<le> 2 ^ i \<and> i \<le> m"
  using assms
proof (induction k arbitrary: j)
  case 0
  then show ?case by (intro exI[of _ m]) (auto simp: not_less)
next
  case (Suc k)
  show ?case
  proof (cases "(2::u32) ^ j < sz")
    case True
    then have "j \<noteq> m" using Suc.prems(1) by auto
    then have "\<exists>i. grow_pt k sz (2 ^ Suc j) = Inr (2 ^ i) \<and> sz \<le> 2 ^ i \<and> i \<le> m"
      using Suc.prems by (intro Suc.IH) auto
    moreover have "push_bit 1 ((2::u32) ^ j) = 2 ^ Suc j" by (simp add: push_bit_eq_mult)
    ultimately show ?thesis using True by (simp add: mult.commute)
  next
    case False
    then show ?thesis using Suc.prems by (intro exI[of _ j]) auto
  qed
qed

lemma add_all_elems:
  assumes "dl_inv l" "length (entries l) + length xs \<le> dl_capacity l"
  shows "dl_inv (add_all xs l) \<and> elems (add_all xs l) = elems l @ xs
       \<and> dl_capacity (add_all xs l) = dl_capacity l"
  using assms
proof (induction xs arbitrary: l)
  case Nil
  then show ?case by simp
next
  case (Cons x xs)
  obtain l' p where l': "add_end x l = (l', Some p)" "dl_inv l'" "entries l' = entries l @ [(p, x)]"
    "dl_capacity l' = dl_capacity l"
    using add_end_entries[OF Cons.prems(1), of x] Cons.prems(2) by auto
  then show ?case using Cons.IH[OF l'(2)] Cons.prems(2) by (simp add: elems_def)
qed

lemma bpred_new_inv:
  assumes "0 < sz" "sz \<le> 2 ^ 30" "length junk = unat sz"
  obtains b where "bpred_new junk sz = Inr b" "bp_inv b" "bp_table b = []" "bp_size b = unat sz"
proof -
  obtain i where i: "grow_pt 33 sz 1 = Inr (2 ^ i)" "i \<le> 30"
    using grow_pt_power[of sz 30 0 33] assms(2) by auto
  let ?pt = "(2::u32) ^ Suc i" and ?n = "unat sz"
  have pt: "push_bit 1 ((2::u32) ^ i) = ?pt" by (simp add: push_bit_eq_mult)
  have "?pt \<noteq> 0" using i(2) by (simp del: power_Suc)
  moreover have "0 < ?n" using assms(1) by (simp add: unat_gt_0)
  moreover have "?n \<le> LIST_END"
    using assms(2) unat_mono[of sz "2^30"] by (simp add: LIST_END_def word_le_nat_alt)
  moreover note new_list_inv[OF calculation(2,3), where ?'a = nat]
  moreover from this have "elems (new_list ?n :: nat dlist) = []" by (simp add: elems_def)
  moreover note add_all_elems[OF calculation(4), of "[0..<?n]"]
  ultimately have l: "dl_inv (new_list ?n :: nat dlist)" "elems (new_list ?n :: nat dlist) = []"
    "entries (new_list ?n :: nat dlist) = []" "dl_capacity (new_list ?n :: nat dlist) = ?n"
    and s: "dl_inv (add_all [0..<?n] (new_list ?n))" "elems (add_all [0..<?n] (new_list ?n)) = [0..<?n]"
      "dl_capacity (add_all [0..<?n] (new_list ?n)) = ?n"
    and p: "?pt \<noteq> 0" and n: "0 < ?n"
    by simp_all
  let ?b = "\<lparr>bp_list = new_list ?n, bp_supplier = add_all [0..<?n] (new_list ?n), bp_els = junk,
      bp_hash = replicate (unat ?pt) None, bp_pt = ?pt, bp_mask = ucast (?pt - 1), hash_hit = 0, hash_miss = 0\<rparr>"
  have "bpred_new junk sz = Inr ?b"
    using i(1) set_list_size_new[OF n, where ?'a = nat] by (simp add: bpred_new_def Let_def mult.commute)
  moreover have "bp_inv ?b"
    using l s p assms(3)
    by (simp add: bp_inv_def bp_pool_def bp_geometry_def bp_hash_ok_def hashes_ok_def bp_size_def
        bp_table_def del: power_Suc)
  moreover have "bp_table ?b = []" "bp_size ?b = ?n" using l assms(3) by (simp_all add: bp_table_def bp_size_def)
  ultimately show thesis by (rule that)
qed


section \<open>The handlers on the table\<close>

lemma set_entry_record: "b\<lparr>bp_els := (bp_els b)[i := (bp_els b ! i)\<lparr>be_count := n\<rparr>]\<rparr>
    = set_entry (\<lambda>e. e\<lparr>be_count := n\<rparr>) i b"
  by (simp add: set_entry_def)

lemma set_entry_same: "set_entry (\<lambda>e. e\<lparr>be_count := be_count (bp_els b ! i)\<rparr>) i b = b"
  by (simp add: set_entry_def)

lemma hist_add_ok:
  assumes inv: "bp_inv b"
  obtains b' where "hist_add_entry br c b = Inr b'" "bp_inv b'" "bp_size b' = bp_size b"
    "bp_table b' = ((br_mem_addr br, c), br_target_addr br,
        case map_of (bp_table b) (br_mem_addr br, c) of
          None \<Rightarrow> new_count (br_taken br)
        | Some (t, n) \<Rightarrow> bump_count (br_taken br) n) # bp_others (br_mem_addr br, c) b"
proof -
  obtain b1 q i rest where f: "bp_front (br_mem_addr br) c b
      = Inr (b1, Some q, i, bp_lookup (br_mem_addr br) c b \<noteq> None)"
    and d: "front_done b rest b1 q i" and r: "map (bp_row b) (map snd rest) = bp_others (br_mem_addr br, c) b"
    and m: "\<And>p j. bp_lookup (br_mem_addr br) c b = Some (p, j) \<Longrightarrow> j = i"
    by (rule bp_front_ok[OF inv, of "br_mem_addr br" c]) blast
  let ?n = "if bp_lookup (br_mem_addr br) c b \<noteq> None then bump_count (br_taken br) (be_count (bp_els b1 ! i))
    else new_count (br_taken br)"
  let ?w = "bp_write br c (Some q) i (set_entry (\<lambda>e. e\<lparr>be_count := ?n\<rparr>) i b1)"
  have "hist_add_entry br c b = Inr ?w"
    by (simp add: hist_add_entry_def f Let_def set_entry_record del: not_None_eq)
  moreover have "?n = (case map_of (bp_table b) (br_mem_addr br, c) of
          None \<Rightarrow> new_count (br_taken br) | Some (t, n) \<Rightarrow> bump_count (br_taken br) n)"
    using m d by (auto simp: bp_lookup_table bp_row_def Let_def front_done_def split: option.split)
  ultimately show thesis using write_done[OF inv d r, of ?n] that[of ?w] by simp
qed


lemma all_add_ok:
  assumes inv: "bp_inv b"
  obtains b' n where "all_add_entry br c b = Inr b'" "bp_inv b'" "bp_size b' = bp_size b"
    "bp_table b' = ((br_mem_addr br, c), br_target_addr br, n) # bp_others (br_mem_addr br, c) b"
proof -
  obtain b1 q i rest where f: "bp_front (br_mem_addr br) c b
      = Inr (b1, Some q, i, bp_lookup (br_mem_addr br) c b \<noteq> None)"
    and d: "front_done b rest b1 q i" and r: "map (bp_row b) (map snd rest) = bp_others (br_mem_addr br, c) b"
    by (rule bp_front_ok[OF inv, of "br_mem_addr br" c]) blast
  have "all_add_entry br c b = Inr (bp_write br c (Some q) i b1)" by (simp add: all_add_entry_def f)
  with write_done[OF inv d r, of "be_count (bp_els b1 ! i)"] that show thesis
    by (simp add: set_entry_same)
qed

lemma bp_answer_ok:
  assumes inv: "bp_inv b"
  obtains b' where "bp_answer tk v r c b = Inr (b', case bp_lookup v c b of
      None \<Rightarrow> r\<lparr>rsp_is_branch := False\<rparr>
    | Some (p, i) \<Rightarrow> r\<lparr>rsp_is_branch := True, rsp_take := tk (bp_els b ! i), rsp_target := be_target (bp_els b ! i)\<rparr>)"
    "bp_inv b'" "bp_table b' = bp_table b" "bp_size b' = bp_size b"
proof -
  obtain h m where s: "bp_search v c b = Inr (b\<lparr>hash_hit := h, hash_miss := m\<rparr>, map_option fst (bp_lookup v c b))"
    using bp_search_ok[OF inv] by blast
  let ?b = "b\<lparr>hash_hit := h, hash_miss := m\<rparr>"
  have same: "bp_inv ?b" "bp_table ?b = bp_table b" "bp_size ?b = bp_size b"
    using inv by (simp_all add: bp_inv_def bp_pool_def bp_geometry_def bp_hash_ok_def bp_size_def
        bp_table_def bp_row_def[abs_def])
  have "get_data (bp_list b) p = Some i" if "bp_lookup v c b = Some (p, i)" for p i
    using entries_data[of "bp_list b"] bp_lookup_Some(1)[OF that] inv by (simp add: bp_inv_def bp_pool_def)
  then show thesis
    by (intro that[OF _ same]) (auto simp: bp_answer_def s split: option.split)
qed

lemma mset_split_filter: "mset (filter (Not \<circ> P) xs) + mset (filter P xs) = mset xs"
  by (induction xs) auto

lemma bp_flush_ok:
  assumes inv: "bp_inv b"
  obtains b' where "bp_flush c b = Inr b'" "bp_inv b'" "bp_size b' = bp_size b"
    "bp_table b' = filter (\<lambda>r. snd (fst r) \<noteq> c) (bp_table b)"
proof -
  have pool: "bp_pool b" using inv by (simp add: bp_inv_def)
  let ?P = "\<lambda>i. be_proc (bp_els b ! i) = c"
  obtain l s where ls: "dl_loop (move_body ?P) (bp_list b) (bp_supplier b) = Inr (l, s)" "dl_inv l" "dl_inv s"
    "entries l = filter (Not \<circ> ?P \<circ> snd) (entries (bp_list b))"
    "elems s = elems (bp_supplier b) @ filter ?P (elems (bp_list b))"
    "dl_capacity l = dl_capacity (bp_list b)" "dl_capacity s = dl_capacity (bp_supplier b)"
    by (rule move_loop[of "bp_list b" "bp_supplier b" ?P])
      (use pool bp_pool_facts(1)[OF pool] in \<open>simp_all add: bp_pool_def\<close>)
  let ?b = "b\<lparr>bp_hash := replicate (unat (bp_pt b)) None, bp_list := l, bp_supplier := s\<rparr>"
  have el: "elems l = filter (Not \<circ> ?P) (elems (bp_list b))"
    by (simp add: elems_def ls(4) filter_map o_assoc)
  have "mset (elems l @ elems s) = mset (elems (bp_list b) @ elems (bp_supplier b))"
    unfolding el ls(5) mset_append mset_split_filter[of ?P "elems (bp_list b)", symmetric]
    by (simp only: ac_simps)
  then have "bp_pool ?b" using pool ls(2,3,6,7) by (simp add: bp_pool_def bp_size_def)
  moreover have table: "bp_table ?b = filter (\<lambda>r. snd (fst r) \<noteq> c) (bp_table b)"
    by (simp add: bp_table_def el filter_map o_def bp_row_def[abs_def] Let_def)
  moreover have "distinct (map fst (bp_table ?b))"
    using inv unfolding table by (intro distinct_map_filter) (simp add: bp_inv_def)
  ultimately have "bp_inv ?b"
    using inv by (auto simp: bp_inv_def bp_geometry_def bp_hash_ok_def hashes_ok_def)
  with that table show thesis by (simp add: bp_flush_def ls(1) bp_size_def)
qed


lemma hist_check_ok:
  assumes "bp_inv b"
  obtains b' where "hist_check v r c b = Inr (b', case map_of (bp_table b) (v, c) of
             None \<Rightarrow> r\<lparr>rsp_is_branch := False\<rparr>
           | Some (t, n) \<Rightarrow> r\<lparr>rsp_is_branch := True, rsp_take := n \<ge> 0, rsp_target := t\<rparr>)"
    "bp_inv b'" "bp_table b' = bp_table b" "bp_size b' = bp_size b"
proof -
  obtain b' where "hist_check v r c b = Inr (b', case bp_lookup v c b of
      None \<Rightarrow> r\<lparr>rsp_is_branch := False\<rparr>
    | Some (p, i) \<Rightarrow> r\<lparr>rsp_is_branch := True, rsp_take := be_count (bp_els b ! i) \<ge> 0,
        rsp_target := be_target (bp_els b ! i)\<rparr>)" "bp_inv b'" "bp_table b' = bp_table b"
      "bp_size b' = bp_size b"
    unfolding hist_check_def by (rule bp_answer_ok[OF assms])
  moreover have "map_of (bp_table b) (v, c) = (case bp_lookup v c b of None \<Rightarrow> None
      | Some (p, i) \<Rightarrow> Some (be_target (bp_els b ! i), be_count (bp_els b ! i)))"
    by (auto simp: bp_lookup_table bp_row_def Let_def split: option.split)
  ultimately show thesis by (intro that[of b']) (auto split: option.split)
qed

section \<open>Sequences of operations\<close>

text \<open>What a client can do to the history predictor.\<close>

datatype bp_op = Add branch_el nat | Check u64 nat | Flush nat

fun bp_step :: "bp_op \<Rightarrow> bpred \<Rightarrow> bpred res" where
  "bp_step (Add br c) b = hist_add_entry br c b"
| "bp_step (Check v c) b = rbind (hist_check v \<lparr>rsp_is_branch = False, rsp_take = False, rsp_target = 0\<rparr> c b)
     (\<lambda>(b', r). Inr b')"
| "bp_step (Flush c) b = bp_flush c b"

fun bp_run :: "bp_op list \<Rightarrow> bpred \<Rightarrow> bpred res" where
  "bp_run [] b = Inr b"
| "bp_run (x # xs) b = rbind (bp_step x b) (bp_run xs)"

definition counts_ok :: "bpred \<Rightarrow> bool" where
  "counts_ok b \<longleftrightarrow> (\<forall>(k, t, n) \<in> set (bp_table b). - 1 \<le> n \<and> n \<le> 1)"

lemma bump_range: "- 1 \<le> bump_count t n \<and> bump_count t n \<le> 1"
  by (simp add: bump_count_def Let_def)

lemma bp_step_ok:
  assumes inv: "bp_inv b" and cnt: "counts_ok b"
  obtains b' where "bp_step x b = Inr b'" "bp_inv b'" "counts_ok b'" "bp_size b' = bp_size b"
proof (cases x)
  case (Add br c)
  obtain b' where b': "hist_add_entry br c b = Inr b'" "bp_inv b'" "bp_size b' = bp_size b"
    "bp_table b' = ((br_mem_addr br, c), br_target_addr br,
        case map_of (bp_table b) (br_mem_addr br, c) of
          None \<Rightarrow> new_count (br_taken br)
        | Some (t, n) \<Rightarrow> bump_count (br_taken br) n) # bp_others (br_mem_addr br, c) b"
    by (rule hist_add_ok[OF inv])
  have "counts_ok b'"
    using cnt bump_range
    by (auto simp: counts_ok_def b' bp_others_def new_count_def dest!: in_set_takeD split: option.split)
  with b' Add that show thesis by simp
next
  case (Check v c)
  show thesis
    by (rule hist_check_ok[OF inv, of v "\<lparr>rsp_is_branch = False, rsp_take = False, rsp_target = 0\<rparr>" c])
      (use Check cnt that in \<open>auto simp: counts_ok_def\<close>)
next
  case (Flush c)
  show thesis
    by (rule bp_flush_ok[OF inv, of c]) (use Flush cnt that in \<open>auto simp: counts_ok_def\<close>)
qed

lemma bp_run_ok:
  assumes "bp_inv b" "counts_ok b"
  shows "\<exists>b'. bp_run xs b = Inr b' \<and> bp_inv b' \<and> counts_ok b' \<and> bp_size b' = bp_size b"
  using assms
proof (induction xs arbitrary: b)
  case (Cons x xs)
  obtain b' where "bp_step x b = Inr b'" "bp_inv b'" "counts_ok b'" "bp_size b' = bp_size b"
    by (rule bp_step_ok[OF Cons.prems])
  with Cons.IH[of b'] show ?case by simp
qed simp

lemma add_taken:
  assumes "bp_inv b" "counts_ok b"
  obtains b' n where "hist_add_entry br c b = Inr b'" "bp_inv b'" "counts_ok b'"
    "map_of (bp_table b') (br_mem_addr br, c) = Some (br_target_addr br, n)"
    "n = (case map_of (bp_table b) (br_mem_addr br, c) of
        None \<Rightarrow> new_count (br_taken br) | Some (t, m) \<Rightarrow> bump_count (br_taken br) m)"
proof -
  obtain b' where b': "hist_add_entry br c b = Inr b'" "bp_inv b'"
    "bp_table b' = ((br_mem_addr br, c), br_target_addr br,
        case map_of (bp_table b) (br_mem_addr br, c) of
          None \<Rightarrow> new_count (br_taken br)
        | Some (t, n) \<Rightarrow> bump_count (br_taken br) n) # bp_others (br_mem_addr br, c) b"
    by (rule hist_add_ok[OF assms(1)])
  moreover have "counts_ok b'"
    using bp_step_ok[OF assms, of "Add br c"] b'(1) by (metis bp_step.simps(1) sum.inject(2))
  ultimately show thesis using that by simp
qed

section \<open>A concrete predictor\<close>

definition demo_pool :: "bp_el list" where
  "demo_pool = replicate 2 \<lparr>be_inst_addr = 0, be_target = 0, be_proc = 0, be_count = 0\<rparr>"

definition demo_branch :: branch_el where
  "demo_branch = \<lparr>br_mem_addr = 16, br_target_addr = 32, br_taken = True, br_is_call = False, br_is_ret = False\<rparr>"

definition demo_bp0 :: bpred where
  "demo_bp0 = (case bpred_new demo_pool 2 of Inr b \<Rightarrow> b | Inl _ \<Rightarrow> undefined)"

definition demo_bp :: bpred where
  "demo_bp = (case hist_add_entry demo_branch 0 demo_bp0 of Inr b \<Rightarrow> b | Inl _ \<Rightarrow> undefined)"

lemma demo_bp0_facts: "bp_inv demo_bp0" "bp_table demo_bp0 = []" "bp_size demo_bp0 = 2"
proof -
  have "0 < (2::u32)" "(2::u32) \<le> 2 ^ 30" "length demo_pool = unat (2::u32)"
    by (simp_all add: demo_pool_def word_le_nat_alt)
  then obtain b where "bpred_new demo_pool 2 = Inr b" "bp_inv b" "bp_table b = []" "bp_size b = unat (2::u32)"
    by (rule bpred_new_inv)
  then show "bp_inv demo_bp0" "bp_table demo_bp0 = []" "bp_size demo_bp0 = 2"
    by (simp_all add: demo_bp0_def)
qed

lemma demo_bp_facts: "bp_inv demo_bp" "bp_table demo_bp = [((16, 0), (32, 0))]" "counts_ok demo_bp"
proof -
  have "bp_inv demo_bp \<and> bp_table demo_bp = [((16, 0), (32, 0))]"
    by (rule hist_add_ok[OF demo_bp0_facts(1), of demo_branch 0])
      (simp add: demo_bp_def demo_bp0_facts demo_branch_def bp_others_def new_count_def)
  then show "bp_inv demo_bp" "bp_table demo_bp = [((16, 0), (32, 0))]" "counts_ok demo_bp"
    by (simp_all add: counts_ok_def)
qed

section \<open>Properties\<close>

text \<open>C24: \<open>check\<close> of both table predictors answers from the table of known branches: it says branch
  exactly when the address is known for this processor, with the recorded target, whatever the
  hash array holds; the history predictor takes the branch when the count is not negative. It
  never follows a stale hash pointer and changes only the hit and miss statistics.\<close>

theorem check_is_lookup:
  assumes "bp_inv b"
  shows "\<exists>b1 b2. hist_check v r c b = Inr (b1, case map_of (bp_table b) (v, c) of
             None \<Rightarrow> r\<lparr>rsp_is_branch := False\<rparr>
           | Some (t, n) \<Rightarrow> r\<lparr>rsp_is_branch := True, rsp_take := n \<ge> 0, rsp_target := t\<rparr>)
       \<and> all_check v r c b = Inr (b2, case map_of (bp_table b) (v, c) of
             None \<Rightarrow> r\<lparr>rsp_is_branch := False\<rparr>
           | Some (t, n) \<Rightarrow> r\<lparr>rsp_is_branch := True, rsp_take := True, rsp_target := t\<rparr>)
       \<and> bp_inv b1 \<and> bp_inv b2 \<and> bp_table b1 = bp_table b \<and> bp_table b2 = bp_table b"
proof -
  have look: "map_of (bp_table b) (v, c) = (case bp_lookup v c b of None \<Rightarrow> None
      | Some (p, i) \<Rightarrow> Some (be_target (bp_els b ! i), be_count (bp_els b ! i)))"
    by (auto simp: bp_lookup_table bp_row_def Let_def split: option.split)
  obtain b1 where "hist_check v r c b = Inr (b1, case map_of (bp_table b) (v, c) of
      None \<Rightarrow> r\<lparr>rsp_is_branch := False\<rparr>
    | Some (t, n) \<Rightarrow> r\<lparr>rsp_is_branch := True, rsp_take := n \<ge> 0, rsp_target := t\<rparr>)"
    "bp_inv b1" "bp_table b1 = bp_table b"
    by (rule hist_check_ok[OF assms])
  moreover obtain b2 where "all_check v r c b = Inr (b2, case bp_lookup v c b of
      None \<Rightarrow> r\<lparr>rsp_is_branch := False\<rparr>
    | Some (p, i) \<Rightarrow> r\<lparr>rsp_is_branch := True, rsp_take := True,
        rsp_target := be_target (bp_els b ! i)\<rparr>)" "bp_inv b2" "bp_table b2 = bp_table b"
    unfolding all_check_def by (rule bp_answer_ok[OF assms])
  ultimately show ?thesis
    by (intro exI[of _ b1] exI[of _ b2]) (auto simp: look split: option.split)
qed

lemma check_is_lookup_witness:
  "\<forall>r. \<exists>b1. hist_check 16 r 0 demo_bp = Inr (b1, r\<lparr>rsp_is_branch := True, rsp_take := True, rsp_target := 32\<rparr>)"
  using check_is_lookup[OF demo_bp_facts(1), of 16 _ 0] by (force simp: demo_bp_facts)

text \<open>C25: recording a branch puts it, with the new target, at the head of the table; the others keep
  their order, and the least recently used one is dropped only when the table is full and the
  branch is new. The history predictor starts a new branch at 0 or -1 and moves a known one by one
  step between -1 and 1.\<close>

theorem add_entry_is_lru_update:
  assumes "bp_inv b"
  shows "(\<exists>b'. hist_add_entry br c b = Inr b' \<and> bp_inv b' \<and> bp_size b' = bp_size b
          \<and> bp_table b' = ((br_mem_addr br, c), br_target_addr br, case map_of (bp_table b) (br_mem_addr br, c) of
                None \<Rightarrow> new_count (br_taken br) | Some (t, n) \<Rightarrow> bump_count (br_taken br) n)
              # take (bp_size b - 1) (filter (\<lambda>r. fst r \<noteq> (br_mem_addr br, c)) (bp_table b)))
       \<and> (\<exists>b' n. all_add_entry br c b = Inr b' \<and> bp_inv b' \<and> bp_size b' = bp_size b
          \<and> bp_table b' = ((br_mem_addr br, c), br_target_addr br, n)
              # take (bp_size b - 1) (filter (\<lambda>r. fst r \<noteq> (br_mem_addr br, c)) (bp_table b)))"
proof -
  let ?k = "(br_mem_addr br, c)"
  obtain b1 where "hist_add_entry br c b = Inr b1" "bp_inv b1" "bp_size b1 = bp_size b"
    "bp_table b1 = (?k, br_target_addr br, case map_of (bp_table b) ?k of
        None \<Rightarrow> new_count (br_taken br) | Some (t, n) \<Rightarrow> bump_count (br_taken br) n) # bp_others ?k b"
    by (rule hist_add_ok[OF assms])
  moreover obtain b2 n where "all_add_entry br c b = Inr b2" "bp_inv b2" "bp_size b2 = bp_size b"
    "bp_table b2 = (?k, br_target_addr br, n) # bp_others ?k b"
    by (rule all_add_ok[OF assms])
  ultimately show ?thesis unfolding bp_others_def by blast
qed

lemma add_entry_is_lru_update_witness:
  "\<exists>b'. hist_add_entry demo_branch 0 demo_bp0 = Inr b' \<and> bp_table b' = [((16, 0), (32, 0))]"
  using add_entry_is_lru_update[OF demo_bp0_facts(1), of demo_branch 0]
  by (auto simp: demo_bp0_facts demo_branch_def new_count_def)

text \<open>flushing a processor forgets exactly that processor's branches, keeps the order of the
  others, and clears every hash pointer.\<close>

lemma flush_forgets_processor:
  assumes "bp_inv b"
  shows "\<exists>b'. bp_flush c b = Inr b' \<and> bp_inv b' \<and> bp_size b' = bp_size b
            \<and> bp_table b' = filter (\<lambda>r. snd (fst r) \<noteq> c) (bp_table b)"
  by (rule bp_flush_ok[OF assms, of c]) blast

lemma flush_forgets_processor_witness:
  "\<exists>b'. bp_flush 0 demo_bp = Inr b' \<and> bp_table b' = []"
  using flush_forgets_processor[OF demo_bp_facts(1), of 0] by (auto simp: demo_bp_facts)

text \<open>C23: from the constructor on, for any table size from 1 to \<open>2^30\<close>, every sequence of recordings,
  checks and flushes runs without following a stale pointer; the table never holds a branch twice
  nor more branches than its size, and every count stays between -1 and 1.\<close>

theorem history_predictor_safe:
  assumes "0 < sz" "sz \<le> 2 ^ 30" "length junk = unat sz"
  shows "\<exists>b b'. bpred_new junk sz = Inr b \<and> bp_run xs b = Inr b' \<and> distinct (map fst (bp_table b'))
           \<and> length (bp_table b') \<le> unat sz \<and> counts_ok b'"
proof -
  obtain b where b: "bpred_new junk sz = Inr b" "bp_inv b" "bp_table b = []" "bp_size b = unat sz"
    by (rule bpred_new_inv[OF assms])
  then obtain b' where b': "bp_run xs b = Inr b'" "bp_inv b'" "counts_ok b'" "bp_size b' = bp_size b"
    using bp_run_ok[of b xs] by (auto simp: counts_ok_def)
  have "length (bp_table b') \<le> bp_size b'"
    using bp_pool_facts(1)[of b'] b'(2) by (simp add: bp_inv_def bp_table_def elems_def)
  with b b' show ?thesis by (auto simp: bp_inv_def)
qed

lemma history_predictor_safe_witness:
  "\<exists>b b'. bpred_new demo_pool 2 = Inr b \<and> bp_run [Add demo_branch 0, Check 16 0, Flush 0] b = Inr b'
     \<and> length (bp_table b') \<le> 2"
proof -
  have "0 < (2::u32)" "(2::u32) \<le> 2 ^ 30" "length demo_pool = unat (2::u32)"
    by (simp_all add: demo_pool_def word_le_nat_alt)
  from history_predictor_safe[OF this, of "[Add demo_branch 0, Check 16 0, Flush 0]"]
  show ?thesis by force
qed

text \<open>hysteresis. After a branch was recorded as taken twice in a row it is predicted taken, with
  the target recorded last, and one recording as not taken right after that does not change the
  predicted direction.\<close>

lemma hist_two_taken:
  assumes "bp_inv b" and "counts_ok b" and "br_taken br1" and "br_taken br2"
    and "br_mem_addr br1 = v" and "br_mem_addr br2 = v" and "br_mem_addr br3 = v"
  shows "\<exists>b2 b3 b4 b5. bp_run [Add br1 c, Add br2 c] b = Inr b2
       \<and> hist_check v r c b2 = Inr (b3, r\<lparr>rsp_is_branch := True, rsp_take := True, rsp_target := br_target_addr br2\<rparr>)
       \<and> bp_run [Add br3 c] b2 = Inr b4
       \<and> hist_check v r c b4 = Inr (b5, r\<lparr>rsp_is_branch := True, rsp_take := True, rsp_target := br_target_addr br3\<rparr>)"
proof -
  obtain b1 n1 where b1: "hist_add_entry br1 c b = Inr b1" "bp_inv b1" "counts_ok b1"
    "map_of (bp_table b1) (v, c) = Some (br_target_addr br1, n1)" and n1: "n1 \<ge> 0"
  proof (rule add_taken[OF assms(1,2), of br1 c])
    fix b' n
    assume a: "hist_add_entry br1 c b = Inr b'" "bp_inv b'" "counts_ok b'"
      "map_of (bp_table b') (br_mem_addr br1, c) = Some (br_target_addr br1, n)"
      "n = (case map_of (bp_table b) (br_mem_addr br1, c) of
        None \<Rightarrow> new_count (br_taken br1) | Some (t, m) \<Rightarrow> bump_count (br_taken br1) m)"
    have "m \<ge> - 1" if "map_of (bp_table b) (v, c) = Some (t, m)" for t m
      using assms(2) map_of_SomeD[OF that] by (auto simp: counts_ok_def)
    then have "n \<ge> 0"
      using a(5) assms(3,5) by (auto simp: new_count_def bump_count_def Let_def split: option.splits)
    with a assms(5) that show thesis by simp
  qed
  obtain b2 where b2: "hist_add_entry br2 c b1 = Inr b2" "bp_inv b2" "counts_ok b2"
    "map_of (bp_table b2) (v, c) = Some (br_target_addr br2, 1)"
    by (rule add_taken[OF b1(2,3), of br2 c])
      (use that b1(4) n1 assms(4,6) in \<open>auto simp: bump_count_def Let_def split: if_splits\<close>)
  obtain b4 n4 where b4: "hist_add_entry br3 c b2 = Inr b4" "bp_inv b4"
    "map_of (bp_table b4) (v, c) = Some (br_target_addr br3, n4)" "n4 \<ge> 0"
    by (rule add_taken[OF b2(2,3), of br3 c])
      (use that b2(4) assms(7) in \<open>auto simp: bump_count_def Let_def split: if_splits\<close>)
  show ?thesis
    by (rule hist_check_ok[OF b2(2), of v r c], rule hist_check_ok[OF b4(2), of v r c])
      (use b1 b2 b4 in \<open>auto\<close>)
qed

lemma hist_two_taken_witness:
  "\<forall>r. \<exists>b2 b3. bp_run [Add demo_branch 0, Add demo_branch 0] demo_bp = Inr b2
     \<and> hist_check 16 r 0 b2 = Inr (b3, r\<lparr>rsp_is_branch := True, rsp_take := True, rsp_target := 32\<rparr>)"
proof -
  have d: "br_taken demo_branch" "br_mem_addr demo_branch = 16" "br_target_addr demo_branch = 32"
    by (simp_all add: demo_branch_def)
  show ?thesis
    using hist_two_taken[OF demo_bp_facts(1,3) d(1,1) d(2,2,2), of 0] by (simp only: d) blast
qed

end
