(* ===== verification/Cache.thy ===== *)
theory Cache
  imports Prelude
begin

text \<open>
  The cache timing model of \<open>src/src/cpu/cache.cpp\<close>: set-associative caches (tags and times only,
  no data) and the two-level structure over them. A cache line is the list of its slots; the
  fields \<open>first\<close>, \<open>last\<close> and \<open>next\<close> of the C++ structures are written by the constructor and read
  nowhere, and are left out. The system cycle, which \<open>main.cpp\<close> keeps, is the argument \<open>cyc\<close>.
\<close>

unbundle bit_operations_syntax

section \<open>State\<close>

record slot =
  cs_ready :: u64
  cs_tag :: u32
  cs_busy :: bool
  cs_last :: u64
  cs_dirty :: bool

record cache =
  c_id :: nat
  c_latency :: u32
  c_block_bits :: nat
  c_block_size :: u32
  c_set_size :: nat
  c_index_size :: nat
  c_mask_offset :: u32
  c_mask_index :: u32
  c_mask_tag :: u32
  c_tb :: "slot list list"
  c_hits :: u64
  c_misses :: u64
  c_copy_back :: u64

record cache_response =
  r_hit :: bool
  r_blocks :: u32
  r_latency :: u32

section \<open>Construction and address fields\<close>

definition mask_bits :: "nat \<Rightarrow> nat \<Rightarrow> u32" where
  "mask_bits lo hi = fold (\<lambda>i m. m OR push_bit i 1) [lo..<hi] 0"

text \<open>
  \<open>junk i j\<close> is the content of slot \<open>j\<close> of line \<open>i\<close> as \<open>malloc\<close> returned it: only the state and the
  ready cycle are set. The shifts are those of 32-bit integers.
\<close>

definition cache_new :: "(nat \<Rightarrow> nat \<Rightarrow> slot) \<Rightarrow> nat \<Rightarrow> nat \<Rightarrow> nat \<Rightarrow> u32 \<Rightarrow> nat \<Rightarrow> cache" where
  "cache_new junk block_bits set_sz index_bits latency cid =
     \<lparr>c_id = cid, c_latency = latency, c_block_bits = block_bits,
      c_block_size = push_bit block_bits 1, c_set_size = set_sz, c_index_size = 2 ^ index_bits,
      c_mask_offset = mask_bits 0 block_bits,
      c_mask_index = mask_bits block_bits (block_bits + index_bits),
      c_mask_tag = NOT (mask_bits 0 block_bits OR mask_bits block_bits (block_bits + index_bits)),
      c_tb = map (\<lambda>i. map (\<lambda>j. (junk i j)\<lparr>cs_busy := False, cs_ready := 0\<rparr>) [0..<set_sz])
               [0..<2 ^ index_bits],
      c_hits = 0, c_misses = 0, c_copy_back = 0\<rparr>"

definition get_index :: "cache \<Rightarrow> u32 \<Rightarrow> nat" where
  "get_index c a = unat (drop_bit (c_block_bits c) (a AND c_mask_index c))"

definition get_tag :: "cache \<Rightarrow> u32 \<Rightarrow> u32" where
  "get_tag c a = a AND c_mask_tag c"

definition get_offset :: "cache \<Rightarrow> u32 \<Rightarrow> u32" where
  "get_offset c a = a AND c_mask_offset c"

definition get_block_addr :: "cache \<Rightarrow> u32 \<Rightarrow> u32" where
  "get_block_addr c a = a AND NOT (c_mask_offset c)"

section \<open>The loop over the blocks of an access\<close>

text \<open>
  \<open>while (address <= last_address) { \<dots>; address += block_size - offset; offset = 0; }\<close>. An access is
  at most 255 bytes, so 256 rounds are enough unless the addresses wrap around.
\<close>

fun over_blocks ::
  "nat \<Rightarrow> u32 \<Rightarrow> u32 \<Rightarrow> u32 \<Rightarrow> u32 \<Rightarrow> (u32 \<Rightarrow> 's \<Rightarrow> 's res) \<Rightarrow> 's \<Rightarrow> 's res" where
  "over_blocks 0 bs addr la off f s = (if addr \<le> la then Inl Diverges else Inr s)"
| "over_blocks (Suc k) bs addr la off f s =
     (if addr \<le> la then rbind (f addr s) (over_blocks k bs (addr + (bs - off)) la 0 f) else Inr s)"

definition max_blocks :: nat where
  "max_blocks = 256"

definition last_addr :: "u32 \<Rightarrow> u8 \<Rightarrow> u32" where
  "last_addr addr len = addr + ucast len - 1"

section \<open>Access\<close>

text \<open>The position of the first slot satisfying \<open>P\<close>.\<close>

fun find_slot :: "(slot \<Rightarrow> bool) \<Rightarrow> slot list \<Rightarrow> nat option" where
  "find_slot P [] = None"
| "find_slot P (x # xs) = (if P x then Some 0 else map_option Suc (find_slot P xs))"

definition slot_hit :: "u32 \<Rightarrow> slot \<Rightarrow> bool" where
  "slot_hit tag s \<longleftrightarrow> cs_busy s \<and> cs_tag s = tag"

definition set_slot :: "nat \<Rightarrow> nat \<Rightarrow> (slot \<Rightarrow> slot) \<Rightarrow> cache \<Rightarrow> cache" where
  "set_slot i j f c = c\<lparr>c_tb := (c_tb c)[i := (c_tb c ! i)[j := f (c_tb c ! i ! j)]]\<rparr>"

definition touch :: "u64 \<Rightarrow> bool \<Rightarrow> slot \<Rightarrow> slot" where
  "touch cyc write s = s\<lparr>cs_last := cyc, cs_dirty := (cs_dirty s \<or> write)\<rparr>"

definition access_block ::
  "u64 \<Rightarrow> bool \<Rightarrow> u32 \<Rightarrow> cache \<times> cache_response \<times> bool \<Rightarrow> (cache \<times> cache_response \<times> bool) res" where
  "access_block cyc write addr = (\<lambda>(c, r, fake).
     let i = get_index c addr
     in if i \<ge> length (c_tb c) then Inl Out_Of_Bounds
        else case find_slot (slot_hit (get_tag c addr)) (c_tb c ! i) of
               None \<Rightarrow> Inr (c, r\<lparr>r_hit := False, r_blocks := r_blocks r + 1\<rparr>, fake)
             | Some j \<Rightarrow>
                 let ready = cs_ready (c_tb c ! i ! j);
                     late = cyc < ready;
                     lat = (if late then c_latency c + ucast (ready - cyc) else c_latency c)
                 in Inr (set_slot i j (touch cyc write) c,
                         r\<lparr>r_latency := lat, r_blocks := r_blocks r + 1\<rparr>, fake \<or> late))"

definition cache_access :: "u64 \<Rightarrow> u32 \<Rightarrow> u8 \<Rightarrow> bool \<Rightarrow> cache \<Rightarrow> (cache \<times> cache_response) res" where
  "cache_access cyc addr len write c =
     rbind (over_blocks max_blocks (c_block_size c) addr (last_addr addr len) (get_offset c addr)
              (access_block cyc write)
              (c, \<lparr>r_hit = True, r_blocks = 0, r_latency = 0\<rparr>, False))
       (\<lambda>(c', r, fake).
          Inr (if r_hit r \<and> \<not> fake then c'\<lparr>c_hits := c_hits c' + 1\<rparr>
               else c'\<lparr>c_misses := c_misses c' + 1\<rparr>, r))"

section \<open>Insertion\<close>

definition slot_free :: "u32 \<Rightarrow> slot \<Rightarrow> bool" where
  "slot_free tag s \<longleftrightarrow> \<not> cs_busy s \<or> cs_tag s = tag"

text \<open>The least recently used slot: the first one with the smallest \<open>last_access\<close>.\<close>

fun lru_from :: "slot list \<Rightarrow> nat \<Rightarrow> nat \<Rightarrow> nat \<Rightarrow> nat" where
  "lru_from line i 0 best = best"
| "lru_from line i (Suc k) best =
     lru_from line (i + 1) k (if cs_last (line ! i) < cs_last (line ! best) then i else best)"

definition lru_victim :: "slot list \<Rightarrow> nat" where
  "lru_victim line = lru_from line 1 (length line - 1) 0"

definition fill_slot :: "u64 \<Rightarrow> u32 \<Rightarrow> u32 \<Rightarrow> u32 \<Rightarrow> u32 \<Rightarrow> slot \<Rightarrow> slot" where
  "fill_slot cyc tag block_latency time latency s =
     s\<lparr>cs_tag := tag, cs_busy := True, cs_last := cyc, cs_dirty := False,
       cs_ready := ucast block_latency + (cyc + ucast time) + ucast latency\<rparr>"

text \<open>
  \<open>insert\<close> may write a dirty victim back to the next level; \<open>wb\<close> is \<open>copy_back\<close>, on a state \<open>'e\<close>
  that holds the next level. It is called with the block address of the address being inserted,
  the block size and the time until the victim is ready, and returns the latency it adds.
\<close>

type_synonym 'e wb = "u32 \<Rightarrow> u32 \<Rightarrow> u32 \<Rightarrow> 'e \<Rightarrow> ('e \<times> u32) res"

definition insert_block ::
  "u64 \<Rightarrow> u32 \<Rightarrow> 'e wb \<Rightarrow> u32 \<Rightarrow> cache \<times> u32 \<times> 'e \<Rightarrow> (cache \<times> u32 \<times> 'e) res" where
  "insert_block cyc time wb addr = (\<lambda>(c, latency, e).
     let i = get_index c addr; tag = get_tag c addr
     in if i \<ge> length (c_tb c) \<or> c_tb c ! i = [] then Inl Out_Of_Bounds
        else case find_slot (slot_free tag) (c_tb c ! i) of
               Some j \<Rightarrow> Inr (set_slot i j (fill_slot cyc tag 0 time latency) c, latency, e)
             | None \<Rightarrow>
                 let j = lru_victim (c_tb c ! i); v = c_tb c ! i ! j;
                     bl = (if cyc < cs_ready v then ucast (cs_ready v - cyc) else 0)
                 in if cs_dirty v
                    then rbind (wb (get_block_addr c addr) (c_block_size c) bl e) (\<lambda>(e', l).
                           let latency' = latency + l
                           in Inr (set_slot i j (fill_slot cyc tag bl time latency')
                                     (c\<lparr>c_copy_back := c_copy_back c + 1\<rparr>), latency', e'))
                    else Inr (set_slot i j (fill_slot cyc tag bl time latency) c, latency, e))"

definition cache_insert ::
  "'e wb \<Rightarrow> u64 \<Rightarrow> u32 \<Rightarrow> u8 \<Rightarrow> u32 \<Rightarrow> cache \<Rightarrow> 'e \<Rightarrow> (cache \<times> 'e \<times> u32) res" where
  "cache_insert wb cyc addr len time c e =
     rbind (over_blocks max_blocks (c_block_size c) addr (last_addr addr len) (get_offset c addr)
              (insert_block cyc time wb) (c, 0, e))
       (\<lambda>(c', latency, e'). Inr (c', e', latency + c_latency c'))"

section \<open>The two-level structure\<close>

record cache_struct =
  cs_l1 :: "cache list"
  cs_l2 :: cache
  cs_penalty :: u32
  cs_lat_sum :: u64
  cs_lat_n :: u64

text \<open>\<open>copy_back\<close>: the second level has no link and pays the memory penalty; the first level inserts
  into the second, whose length argument is 8 bits wide.\<close>

definition copy_back_l2 :: "u32 \<Rightarrow> unit wb" where
  "copy_back_l2 penalty addr len time e = Inr (e, penalty)"

definition insert_l2 :: "u32 \<Rightarrow> u64 \<Rightarrow> u32 \<Rightarrow> u8 \<Rightarrow> u32 \<Rightarrow> cache \<Rightarrow> (cache \<times> u32) res" where
  "insert_l2 penalty cyc addr len time c =
     rbind (cache_insert (copy_back_l2 penalty) cyc addr len time c ()) (\<lambda>(c', _, l). Inr (c', l))"

definition copy_back_l1 :: "u32 \<Rightarrow> u64 \<Rightarrow> cache wb" where
  "copy_back_l1 penalty cyc addr len time l2 = insert_l2 penalty cyc addr (ucast len) time l2"

definition struct_miss ::
  "u64 \<Rightarrow> u32 \<Rightarrow> u8 \<Rightarrow> bool \<Rightarrow> u32 \<Rightarrow> cache \<Rightarrow> cache \<Rightarrow> (cache \<times> cache \<times> u32) res" where
  "struct_miss cyc addr len write penalty l1 l2 =
     rbind (cache_access cyc addr len write l2) (\<lambda>(m, r2).
       if r_hit r2 then
         let latency = c_latency l1 + r_latency r2
         in rbind (cache_insert (copy_back_l1 penalty cyc) cyc addr len latency l1 m)
              (\<lambda>(l1', m', _). Inr (l1', m', latency))
       else
         let latency = c_latency l1 + c_latency m + penalty
         in rbind (cache_insert (copy_back_l1 penalty cyc) cyc addr len latency l1 m)
              (\<lambda>(l1', m', _).
            rbind (insert_l2 penalty cyc addr len latency m') (\<lambda>(m'', _).
              Inr (l1', m'', latency))))"

definition struct_done :: "u32 \<Rightarrow> cache_struct \<Rightarrow> (cache_struct \<times> u32) res" where
  "struct_done latency s =
     (if latency > 500 then Inl Exit
      else Inr (s\<lparr>cs_lat_sum := cs_lat_sum s + ucast latency, cs_lat_n := cs_lat_n s + 1\<rparr>, latency))"

text \<open>
  Caches 0 and 1 are the first level, for instructions and data; cache 2 is the second level,
  whose link is \<open>NULL\<close>.
\<close>

definition struct_access ::
  "u64 \<Rightarrow> nat \<Rightarrow> u32 \<Rightarrow> u8 \<Rightarrow> bool \<Rightarrow> cache_struct \<Rightarrow> (cache_struct \<times> u32) res" where
  "struct_access cyc k addr len write s =
     (if k < length (cs_l1 s) then
        rbind (cache_access cyc addr len write (cs_l1 s ! k)) (\<lambda>(l1, r).
          if r_hit r then struct_done (r_latency r) (s\<lparr>cs_l1 := (cs_l1 s)[k := l1]\<rparr>)
          else rbind (struct_miss cyc addr len write (cs_penalty s) l1 (cs_l2 s)) (\<lambda>(l1', m, latency).
            struct_done latency (s\<lparr>cs_l1 := (cs_l1 s)[k := l1'], cs_l2 := m\<rparr>)))
      else if k = length (cs_l1 s) then
        rbind (cache_access cyc addr len write (cs_l2 s)) (\<lambda>(m, r).
          if r_hit r then struct_done (r_latency r) (s\<lparr>cs_l2 := m\<rparr>) else Inl Null_Deref)
      else Inl Out_Of_Bounds)"


section \<open>Address fields\<close>

lemma bit_mask_bits: "bit (mask_bits lo hi) n \<longleftrightarrow> lo \<le> n \<and> n < hi \<and> n < 32"
proof (induction hi)
  case 0
  then show ?case by (simp add: mask_bits_def)
next
  case (Suc hi)
  show ?case
  proof (cases "lo \<le> hi")
    case True
    then have "mask_bits lo (Suc hi) = mask_bits lo hi OR push_bit hi 1"
      by (simp add: mask_bits_def)
    with Suc True show ?thesis
      by (auto simp: bit_or_iff bit_push_bit_iff bit_1_iff bit_exp_iff less_Suc_eq)
  next
    case False
    then show ?thesis by (simp add: mask_bits_def)
  qed
qed

definition geom :: "nat \<Rightarrow> cache \<Rightarrow> bool" where
  "geom ib c \<longleftrightarrow> (let bb = c_block_bits c in bb < 32 \<and> bb + ib \<le> 32
     \<and> c_block_size c = push_bit bb 1 \<and> c_index_size c = 2 ^ ib
     \<and> c_mask_offset c = mask_bits 0 bb \<and> c_mask_index c = mask_bits bb (bb + ib)
     \<and> c_mask_tag c = NOT (mask_bits 0 bb OR mask_bits bb (bb + ib)))"

lemma bit_index_word:
  assumes "geom ib c"
  shows "bit (drop_bit (c_block_bits c) (a AND c_mask_index c)) n \<longleftrightarrow> n < ib \<and> bit a (c_block_bits c + n)"
  using assms bit_imp_le_length[of a "c_block_bits c + n"]
  by (auto simp: geom_def Let_def bit_drop_bit_eq bit_and_iff bit_mask_bits)

lemma index_bound:
  assumes "geom ib c"
  shows "get_index c a < 2 ^ ib"
proof -
  have "take_bit ib (drop_bit (c_block_bits c) (a AND c_mask_index c))
      = drop_bit (c_block_bits c) (a AND c_mask_index c)"
    by (rule bit_word_eqI) (simp only: bit_take_bit_iff bit_index_word[OF assms], blast)
  then have "unat (drop_bit (c_block_bits c) (a AND c_mask_index c))
      = take_bit ib (unat (drop_bit (c_block_bits c) (a AND c_mask_index c)))"
    by (metis unsigned_take_bit_eq)
  also have "\<dots> < 2 ^ ib" by simp
  finally show ?thesis by (simp add: get_index_def)
qed

lemma word_bits_iff: "(x :: u32) = y \<longleftrightarrow> (\<forall>n. bit x n = bit y n)"
  by (metis bit_word_eqI)

lemma same_block_iff:
  assumes g: "geom ib c"
  shows "get_index c a = get_index c b \<and> get_tag c a = get_tag c b \<longleftrightarrow> get_block_addr c a = get_block_addr c b"
proof -
  let ?bb = "c_block_bits c"
  have idx: "get_index c a = get_index c b \<longleftrightarrow> (\<forall>n. ?bb \<le> n \<and> n < ?bb + ib \<longrightarrow> bit a n = bit b n)"
  proof -
    have "get_index c a = get_index c b \<longleftrightarrow>
        drop_bit ?bb (a AND c_mask_index c) = drop_bit ?bb (b AND c_mask_index c)"
      by (simp only: get_index_def word_unat_eq_iff)
    also have "\<dots> \<longleftrightarrow> (\<forall>n. bit (drop_bit ?bb (a AND c_mask_index c)) n
        = bit (drop_bit ?bb (b AND c_mask_index c)) n)"
      by (metis bit_word_eqI)
    also have "\<dots> \<longleftrightarrow> (\<forall>n. (n < ib \<and> bit a (?bb + n)) = (n < ib \<and> bit b (?bb + n)))"
      by (simp only: bit_index_word[OF g])
    also have "\<dots> \<longleftrightarrow> (\<forall>n. ?bb \<le> n \<and> n < ?bb + ib \<longrightarrow> bit a n = bit b n)"
      by (metis le_add1 le_add_diff_inverse nat_add_left_cancel_less)
    finally show ?thesis .
  qed
  have tag: "get_tag c a = get_tag c b \<longleftrightarrow> (\<forall>n. ?bb + ib \<le> n \<longrightarrow> bit a n = bit b n)"
  proof -
    have t: "bit (get_tag c x) n \<longleftrightarrow> ?bb + ib \<le> n \<and> bit x n" for x n
      using g bit_imp_le_length[of x n]
      by (auto simp: geom_def Let_def get_tag_def bit_and_iff bit_not_iff bit_or_iff bit_mask_bits)
    show ?thesis unfolding word_bits_iff t by blast
  qed
  have blk: "get_block_addr c a = get_block_addr c b \<longleftrightarrow> (\<forall>n. ?bb \<le> n \<longrightarrow> bit a n = bit b n)"
  proof -
    have t: "bit (get_block_addr c x) n \<longleftrightarrow> ?bb \<le> n \<and> bit x n" for x n
      using g bit_imp_le_length[of x n]
      by (auto simp: geom_def Let_def get_block_addr_def bit_and_iff bit_not_iff bit_mask_bits)
    show ?thesis unfolding word_bits_iff t by blast
  qed
  show ?thesis unfolding idx tag blk by (metis le_trans linorder_not_le le_add1)
qed

lemma mask_offset_eq:
  assumes "geom ib c"
  shows "c_mask_offset c = mask (c_block_bits c)"
  by (rule bit_word_eqI) (use assms in \<open>simp add: geom_def Let_def bit_mask_bits bit_mask_iff\<close>)

lemma offset_mod:
  assumes "geom ib c"
  shows "unat (get_offset c a) = unat a mod 2 ^ c_block_bits c"
proof -
  have "get_offset c a = take_bit (c_block_bits c) a"
    by (simp add: get_offset_def mask_offset_eq[OF assms] take_bit_eq_mask)
  then have "unat (get_offset c a) = take_bit (c_block_bits c) (unat a)"
    by (simp only: unsigned_take_bit_eq)
  then show ?thesis by (simp add: take_bit_eq_mod)
qed

lemma block_size_unat:
  assumes "geom ib c"
  shows "unat (c_block_size c) = 2 ^ c_block_bits c"
proof -
  have "c_block_bits c < 32" using assms by (simp add: geom_def Let_def)
  then have "(2::nat) ^ c_block_bits c < 2 ^ 32" by (intro power_strict_increasing) simp_all
  moreover have "c_block_size c = push_bit (c_block_bits c) 1"
    using assms by (simp add: geom_def Let_def)
  ultimately show ?thesis
    by (simp only: unsigned_push_bit_eq) (simp add: take_bit_eq_mod push_bit_eq_mult)
qed

lemma block_div:
  assumes "geom ib c"
  shows "get_block_addr c a = get_block_addr c b \<longleftrightarrow> unat a div 2 ^ c_block_bits c = unat b div 2 ^ c_block_bits c"
proof -
  have "unat a div 2 ^ c_block_bits c = unat (drop_bit (c_block_bits c) a)" for a :: u32
    using unsigned_less[of a, where ?'a = nat]
    by (simp only: unsigned_drop_bit_eq) (simp add: drop_bit_eq_div take_bit_nat_eq_self)
  moreover have "get_block_addr c a = push_bit (c_block_bits c) (drop_bit (c_block_bits c) a)" for a
    by (rule bit_word_eqI) (auto simp: get_block_addr_def mask_offset_eq[OF assms] bit_and_iff
        bit_not_iff bit_mask_iff bit_push_bit_iff bit_drop_bit_eq)
  moreover have "drop_bit (c_block_bits c) (get_block_addr c a) = drop_bit (c_block_bits c) a" for a
    by (rule bit_word_eqI) (auto simp: get_block_addr_def mask_offset_eq[OF assms] bit_and_iff
        bit_not_iff bit_mask_iff bit_drop_bit_eq dest: bit_imp_le_length)
  ultimately show ?thesis by (metis word_unat_eq_iff)
qed


section \<open>The loop over blocks\<close>

lemma over_blocks_total:
  assumes step: "\<And>a s. I s \<Longrightarrow> \<exists>s'. f a s = Inr s' \<and> I s'"
    and "I s" "unat la + unat bs < 2 ^ 32" "off < bs" "unat la + 1 - unat addr \<le> k"
  shows "\<exists>s'. over_blocks k bs addr la off f s = Inr s' \<and> I s'"
  using assms(2-)
proof (induction k arbitrary: addr off s)
  case 0
  then show ?case by (simp add: word_le_nat_alt)
next
  case (Suc k)
  show ?case
  proof (cases "addr \<le> la")
    case True
    obtain s1 where s1: "f addr s = Inr s1" "I s1" using step[OF Suc.prems(1)] by blast
    have "unat (bs - off) = unat bs - unat off"
      using Suc.prems(3) by (simp add: unat_sub word_less_nat_alt less_imp_le word_le_nat_alt)
    moreover have "unat addr + (unat bs - unat off) < 2 ^ 32"
      using True Suc.prems(2) by (simp add: word_le_nat_alt)
    ultimately have "unat (addr + (bs - off)) = unat addr + (unat bs - unat off)"
      by (simp add: unat_word_ariths)
    moreover have "0 < bs" using Suc.prems(3) by (simp add: word_less_nat_alt)
    moreover have "unat off < unat bs" using Suc.prems(3) by (simp add: word_less_nat_alt)
    ultimately show ?thesis
      using Suc.IH[OF s1(2) Suc.prems(2), of 0 "addr + (bs - off)"] Suc.prems(4) s1(1) True by simp
  qed (use Suc.prems in simp)
qed

lemma over_blocks_one:
  assumes "addr \<le> la" "la < addr + (bs - off)"
  shows "over_blocks max_blocks bs addr la off f s = f addr s"
proof -
  have "\<not> addr + (bs - off) \<le> la" using assms(2) by simp
  then have "over_blocks (Suc (Suc j)) bs addr la off f s = f addr s" for j
    using assms(1) by (cases "f addr s") (simp_all del: not_le)
  from this[of 254] show ?thesis by (simp add: max_blocks_def numeral_eq_Suc)
qed

text \<open>A range inside one block is visited in one round.\<close>

definition one_block :: "cache \<Rightarrow> u32 \<Rightarrow> u8 \<Rightarrow> bool" where
  "one_block c addr len \<longleftrightarrow> addr \<le> last_addr addr len
     \<and> get_block_addr c (last_addr addr len) = get_block_addr c addr
     \<and> unat (last_addr addr len) + unat (c_block_size c) < 2 ^ 32"

lemma one_block_loop:
  assumes g: "geom ib c" and o: "one_block c addr len"
  shows "over_blocks max_blocks (c_block_size c) addr (last_addr addr len) (get_offset c addr) f s = f addr s"
proof (rule over_blocks_one)
  let ?la = "last_addr addr len" and ?n = "2 ^ c_block_bits c :: nat"
  show le: "addr \<le> ?la" using o by (simp add: one_block_def)
  have off: "unat (get_offset c addr) = unat addr mod ?n" by (rule offset_mod[OF g])
  have bs: "unat (c_block_size c) = ?n" by (rule block_size_unat[OF g])
  have "unat (get_offset c addr) < ?n" by (simp add: off)
  then have "unat (c_block_size c - get_offset c addr) = ?n - unat addr mod ?n"
    by (simp add: unat_sub word_le_nat_alt bs off less_imp_le)
  moreover have "unat addr + ?n < 2 ^ 32"
    using o le by (auto simp: one_block_def bs word_le_nat_alt)
  then have "unat addr + (?n - unat addr mod ?n) < 2 ^ 32"
    by (rule le_less_trans[rotated]) simp
  ultimately have "unat (addr + (c_block_size c - get_offset c addr)) = unat addr + (?n - unat addr mod ?n)"
    by (simp add: unat_word_ariths)
  moreover have "unat addr div ?n = unat ?la div ?n"
    using o by (simp add: one_block_def flip: block_div[OF g])
  then have "unat ?la < unat addr + (?n - unat addr mod ?n)"
  proof -
    assume d: "unat addr div ?n = unat ?la div ?n"
    have "unat ?la = unat ?la div ?n * ?n + unat ?la mod ?n" by (simp only: div_mult_mod_eq)
    moreover have "unat addr = unat ?la div ?n * ?n + unat addr mod ?n"
      unfolding d[symmetric] by (simp only: div_mult_mod_eq)
    moreover have "unat ?la mod ?n < ?n" "unat addr mod ?n < ?n" by simp_all
    ultimately show ?thesis by linarith
  qed
  ultimately show "?la < addr + (c_block_size c - get_offset c addr)" by (simp add: word_less_nat_alt)
qed

text \<open>When the last byte lies in the topmost block of the 32-bit space, the next block address wraps
  to 0 and the loop starts over: it never ends, whatever the bound.\<close>

lemma over_blocks_wraps:
  assumes top: "\<And>a. a mod 2 ^ b = 0 \<Longrightarrow> a < 2 ^ 32 \<Longrightarrow> a \<le> unat la" and b: "b < 32" "bs = push_bit b 1"
    and step: "\<And>a s. I s \<Longrightarrow> \<exists>s'. f a s = Inr s' \<and> I s'"
    and "I s" "addr \<le> la" "unat off = unat addr mod 2 ^ b"
  shows "over_blocks k bs addr la off f s = Inl Diverges"
  using assms(5,6,7)
proof (induction k arbitrary: addr off s)
  case 0
  then show ?case by simp
next
  case (Suc k)
  obtain s' where s': "f addr s = Inr s'" "I s'" using step[OF Suc.prems(1)] by blast
  moreover
  have n: "(2::nat) ^ b < 2 ^ 32" using b(1) by (intro power_strict_increasing) simp_all
  have bs: "unat bs = 2 ^ b"
    using n unfolding b(2) by (simp only: unsigned_push_bit_eq) (simp add: take_bit_eq_mod push_bit_eq_mult)
  have "unat (bs - off) = 2 ^ b - unat addr mod 2 ^ b"
    using Suc.prems(3) by (simp add: unat_sub word_le_nat_alt bs less_imp_le)
  then have "unat (addr + (bs - off)) = (unat addr + (2 ^ b - unat addr mod 2 ^ b)) mod 2 ^ 32"
    by (simp add: unat_word_ariths)
  moreover have "(unat addr + (2 ^ b - unat addr mod 2 ^ b)) mod 2 ^ b = 0"
  proof -
    have "unat addr + (2 ^ b - unat addr mod 2 ^ b) = (unat addr div 2 ^ b) * 2 ^ b + 2 ^ b"
      using div_mult_mod_eq[of "unat addr" "2 ^ b"] mod_less_divisor[of "2 ^ b" "unat addr"]
      by (simp add: less_imp_le)
    then show ?thesis by simp
  qed
  moreover have "(2::nat) ^ b dvd 2 ^ 32" using b(1) by (metis less_imp_le le_imp_power_dvd)
  ultimately have m: "unat (addr + (bs - off)) mod 2 ^ b = 0" by (simp add: mod_mod_cancel)
  then have "addr + (bs - off) \<le> la"
    using top unsigned_less[of "addr + (bs - off)", where ?'a = nat] by (simp add: word_le_nat_alt)
  with Suc.IH[of s' "addr + (bs - off)" 0] m Suc.prems(2) s' show ?case by simp
qed


section \<open>Invariant\<close>

text \<open>
  In each line the slots in use come first and hold different tags: \<open>insert\<close> fills the first free
  slot, and a slot once in use stays so.
\<close>

definition line_ok :: "slot list \<Rightarrow> bool" where
  "line_ok line \<longleftrightarrow>
     (\<forall>j < length line. \<forall>j' < j. cs_busy (line ! j) \<longrightarrow> cs_busy (line ! j'))
     \<and> (\<forall>j < length line. \<forall>j' < j. cs_busy (line ! j) \<longrightarrow> cs_tag (line ! j) \<noteq> cs_tag (line ! j'))"

definition cache_inv :: "nat \<Rightarrow> cache \<Rightarrow> bool" where
  "cache_inv ib c \<longleftrightarrow> geom ib c \<and> length (c_tb c) = 2 ^ ib \<and> 0 < c_set_size c
     \<and> (\<forall>line \<in> set (c_tb c). length line = c_set_size c \<and> line_ok line)"

lemma find_slot_Some:
  "find_slot P xs = Some j \<Longrightarrow> j < length xs \<and> P (xs ! j) \<and> (\<forall>i < j. \<not> P (xs ! i))"
proof (induction xs arbitrary: j)
  case (Cons x xs)
  show ?case
  proof (cases "P x")
    case False
    then obtain j' where j': "find_slot P xs = Some j'" "j = Suc j'" using Cons.prems by auto
    with Cons.IH[OF j'(1)] False show ?thesis by (auto simp: less_Suc_eq_0_disj)
  qed (use Cons.prems in auto)
qed simp

lemma find_slot_None: "find_slot P xs = None \<longleftrightarrow> (\<forall>x \<in> set xs. \<not> P x)"
  by (induction xs) auto

lemma find_slot_first:
  assumes "j < length xs" "P (xs ! j)" "\<And>i. i < j \<Longrightarrow> \<not> P (xs ! i)"
  shows "find_slot P xs = Some j"
proof (cases "find_slot P xs")
  case None
  then show ?thesis using assms(1,2) by (auto simp: find_slot_None)
next
  case (Some k)
  from find_slot_Some[OF this] assms have "k = j" by (metis linorder_neqE_nat)
  with Some show ?thesis by simp
qed

lemma lru_from_range:
  assumes "best < n" "i + k \<le> n"
  shows "lru_from line i k best < n"
  using assms by (induction k arbitrary: i best) auto

lemma lru_from_least:
  assumes "\<And>j. j < i \<Longrightarrow> cs_last (line ! best) \<le> cs_last (line ! j)" "best < i"
    "\<And>j. j < best \<Longrightarrow> cs_last (line ! best) < cs_last (line ! j)"
  shows "(\<forall>j < i + k. cs_last (line ! lru_from line i k best) \<le> cs_last (line ! j))
       \<and> (\<forall>j < lru_from line i k best. cs_last (line ! lru_from line i k best) < cs_last (line ! j))"
  using assms
proof (induction k arbitrary: i best)
  case 0
  then show ?case by auto
next
  case (Suc k)
  show ?case
  proof (cases "cs_last (line ! i) < cs_last (line ! best)")
    case True
    have "cs_last (line ! i) < cs_last (line ! j)" if "j < i" for j
      using True Suc.prems(1)[OF that] by simp
    then show ?thesis
      using Suc.IH[of "i + 1" i] True by (force simp: less_Suc_eq)
  next
    case False
    then show ?thesis
      using Suc.IH[of "i + 1" best] Suc.prems by (force simp: less_Suc_eq)
  qed
qed

lemma lru_victim_range: "line \<noteq> [] \<Longrightarrow> lru_victim line < length line"
  unfolding lru_victim_def by (rule lru_from_range) auto

lemma lru_victim_least:
  assumes "line \<noteq> []"
  shows "\<forall>j < length line. cs_last (line ! lru_victim line) \<le> cs_last (line ! j)"
    and "\<forall>j < lru_victim line. cs_last (line ! lru_victim line) < cs_last (line ! j)"
  using lru_from_least[of 1 line 0 "length line - 1"] assms by (auto simp: lru_victim_def)

lemma set_slot_fields [simp]:
  "c_latency (set_slot i j f c) = c_latency c" "c_block_bits (set_slot i j f c) = c_block_bits c"
  "c_block_size (set_slot i j f c) = c_block_size c" "c_set_size (set_slot i j f c) = c_set_size c"
  "get_index (set_slot i j f c) = get_index c" "get_tag (set_slot i j f c) = get_tag c"
  "get_offset (set_slot i j f c) = get_offset c" "get_block_addr (set_slot i j f c) = get_block_addr c"
  "length (c_tb (set_slot i j f c)) = length (c_tb c)" "geom ib (set_slot i j f c) = geom ib c"
  by (simp_all add: set_slot_def get_index_def get_tag_def get_offset_def get_block_addr_def fun_eq_iff geom_def)

lemma stat_fields [simp]:
  "cache_inv ib (c\<lparr>c_hits := n\<rparr>) = cache_inv ib c" "cache_inv ib (c\<lparr>c_misses := n\<rparr>) = cache_inv ib c"
  "cache_inv ib (c\<lparr>c_copy_back := n\<rparr>) = cache_inv ib c"
  "get_index (c\<lparr>c_hits := n\<rparr>) = get_index c" "get_index (c\<lparr>c_misses := n\<rparr>) = get_index c"
  "get_index (c\<lparr>c_copy_back := n\<rparr>) = get_index c"
  "get_tag (c\<lparr>c_hits := n\<rparr>) = get_tag c" "get_tag (c\<lparr>c_misses := n\<rparr>) = get_tag c"
  "get_tag (c\<lparr>c_copy_back := n\<rparr>) = get_tag c"
  "get_block_addr (c\<lparr>c_hits := n\<rparr>) = get_block_addr c" "get_block_addr (c\<lparr>c_misses := n\<rparr>) = get_block_addr c"
  "get_block_addr (c\<lparr>c_copy_back := n\<rparr>) = get_block_addr c"
  by (simp_all add: cache_inv_def geom_def get_index_def get_tag_def get_block_addr_def fun_eq_iff)

text \<open>What no operation changes.\<close>

definition shape :: "cache \<Rightarrow> nat \<times> u32 \<times> nat \<times> u32 \<times> nat \<times> u32 \<times> u32 \<times> u32" where
  "shape c = (c_id c, c_latency c, c_block_bits c, c_block_size c, c_set_size c,
              c_mask_offset c, c_mask_index c, c_mask_tag c)"

lemma shape_simps [simp]:
  "shape (set_slot i j f c) = shape c" "shape (c\<lparr>c_hits := n\<rparr>) = shape c"
  "shape (c\<lparr>c_misses := n\<rparr>) = shape c" "shape (c\<lparr>c_copy_back := n\<rparr>) = shape c"
  by (simp_all add: shape_def set_slot_def)

lemma shapeD:
  assumes "shape c' = shape c"
  shows "c_latency c' = c_latency c" "c_block_size c' = c_block_size c" "c_block_bits c' = c_block_bits c"
    "get_index c' = get_index c" "get_tag c' = get_tag c" "get_offset c' = get_offset c"
    "get_block_addr c' = get_block_addr c"
  using assms by (simp_all add: shape_def get_index_def get_tag_def get_offset_def get_block_addr_def fun_eq_iff)

lemma set_slot_inv:
  assumes "cache_inv ib c" "i < length (c_tb c)" "line_ok ((c_tb c ! i)[j := f (c_tb c ! i ! j)])"
  shows "cache_inv ib (set_slot i j f c)"
proof -
  have "c_tb c ! i \<in> set (c_tb c)" using assms(2) by simp
  then have "length (c_tb c ! i) = c_set_size c" using assms(1) by (simp add: cache_inv_def)
  moreover have "set (c_tb (set_slot i j f c)) \<subseteq> insert ((c_tb c ! i)[j := f (c_tb c ! i ! j)]) (set (c_tb c))"
    by (simp add: set_slot_def set_update_subset_insert)
  ultimately show ?thesis using assms(1,3) by (auto simp: cache_inv_def)
qed

lemma nth_update_field: "g (f (xs ! j)) = g (xs ! j) \<Longrightarrow> g (xs[j := f (xs ! j)] ! k) = g (xs ! k)"
  by (cases "k = j"; cases "j < length xs") (simp_all add: list_update_beyond)

lemma touch_fields [simp]: "cs_busy (touch cyc w x) = cs_busy x" "cs_tag (touch cyc w x) = cs_tag x"
  by (simp_all add: touch_def)

lemma touch_ok: "line_ok line \<Longrightarrow> line_ok (line[j := touch cyc w (line ! j)])"
  by (simp add: line_ok_def nth_update_field[of cs_busy "touch cyc w"] nth_update_field[of cs_tag "touch cyc w"])

lemma fill_ok:
  assumes ok: "line_ok line" and j: "j < length line"
    and before: "\<And>i. i < j \<Longrightarrow> cs_busy (line ! i)"
    and fresh: "\<And>i. i < length line \<Longrightarrow> i \<noteq> j \<Longrightarrow> cs_busy (line ! i) \<Longrightarrow> cs_tag (line ! i) \<noteq> tag"
  shows "line_ok (line[j := fill_slot cyc tag bl t l (line ! j)])"
proof -
  let ?x = "fill_slot cyc tag bl t l (line ! j)"
  have upd: "line[j := ?x] ! k = (if k = j then ?x else line ! k)" for k using j by simp
  have x: "cs_busy ?x" "cs_tag ?x = tag" by (simp_all add: fill_slot_def)
  have busy: "cs_busy (line[j := ?x] ! b)" and tag: "cs_tag (line[j := ?x] ! a) \<noteq> cs_tag (line[j := ?x] ! b)"
    if "a < length line" "b < a" "cs_busy (line[j := ?x] ! a)" for a b
  proof -
    show b: "cs_busy (line[j := ?x] ! b)"
      using that ok before x by (auto simp: upd line_ok_def split: if_splits)
    show "cs_tag (line[j := ?x] ! a) \<noteq> cs_tag (line[j := ?x] ! b)"
    proof (cases "a = j \<or> b = j")
      case True
      then show ?thesis using that b x fresh[of a] fresh[of b] by (auto simp: upd split: if_splits)
    next
      case False
      then show ?thesis using that ok by (auto simp: upd line_ok_def)
    qed
  qed
  then show ?thesis by (simp add: line_ok_def)
qed

lemma the_line:
  assumes "cache_inv ib c"
  shows "get_index c a < length (c_tb c)" "length (c_tb c ! get_index c a) = c_set_size c"
    "line_ok (c_tb c ! get_index c a)" "c_tb c ! get_index c a \<noteq> []"
proof -
  show i: "get_index c a < length (c_tb c)"
    using assms index_bound by (simp add: cache_inv_def)
  then have "c_tb c ! get_index c a \<in> set (c_tb c)" by simp
  with assms show "length (c_tb c ! get_index c a) = c_set_size c"
    "line_ok (c_tb c ! get_index c a)" "c_tb c ! get_index c a \<noteq> []"
    by (auto simp: cache_inv_def)
qed

lemma access_block_ok:
  assumes "cache_inv ib c"
  shows "\<exists>c' r' fake'. access_block cyc w addr (c, r, fake) = Inr (c', r', fake') \<and> cache_inv ib c'
           \<and> shape c' = shape c"
proof (cases "find_slot (slot_hit (get_tag c addr)) (c_tb c ! get_index c addr)")
  case None
  then show ?thesis using assms the_line(1)[OF assms, of addr] by (simp add: access_block_def Let_def)
next
  case (Some j)
  then show ?thesis
    using the_line(1,3)[OF assms, of addr] set_slot_inv[OF assms] touch_ok
    by (simp add: access_block_def Let_def)
qed

text \<open>A write-back that works for the victim of an insertion at \<open>addr\<close>.\<close>

definition wb_fine :: "('e \<Rightarrow> bool) \<Rightarrow> 'e wb \<Rightarrow> cache \<Rightarrow> u32 \<Rightarrow> bool" where
  "wb_fine I wb c addr \<longleftrightarrow>
     (\<forall>t e. I e \<longrightarrow> (\<exists>e' l. wb (get_block_addr c addr) (c_block_size c) t e = Inr (e', l) \<and> I e'))"

text \<open>Block \<open>addr\<close> is in the cache.\<close>

definition holds :: "cache \<Rightarrow> u32 \<Rightarrow> bool" where
  "holds c addr \<longleftrightarrow> (\<exists>s \<in> set (c_tb c ! get_index c addr). slot_hit (get_tag c addr) s)"

lemma insert_fill:
  assumes inv: "cache_inv ib c" and j: "j < length (c_tb c ! get_index c addr)"
    and before: "\<And>i. i < j \<Longrightarrow> cs_busy (c_tb c ! get_index c addr ! i)"
    and fresh: "\<And>i. i < length (c_tb c ! get_index c addr) \<Longrightarrow> i \<noteq> j
        \<Longrightarrow> cs_busy (c_tb c ! get_index c addr ! i) \<Longrightarrow> cs_tag (c_tb c ! get_index c addr ! i) \<noteq> get_tag c addr"
  shows "cache_inv ib (set_slot (get_index c addr) j (fill_slot cyc (get_tag c addr) bl t l) c)"
    and "holds (set_slot (get_index c addr) j (fill_slot cyc (get_tag c addr) bl t l) c) addr"
proof -
  let ?i = "get_index c addr" and ?f = "fill_slot cyc (get_tag c addr) bl t l"
  note ln = the_line[OF inv, of addr]
  have "line_ok ((c_tb c ! ?i)[j := ?f (c_tb c ! ?i ! j)])"
    by (rule fill_ok[OF ln(3) j before fresh])
  then show "cache_inv ib (set_slot ?i j ?f c)" by (rule set_slot_inv[OF inv ln(1)])
  have "?f (c_tb c ! ?i ! j) \<in> set ((c_tb c ! ?i)[j := ?f (c_tb c ! ?i ! j)])"
    using j by (simp add: set_update_memI)
  moreover have "slot_hit (get_tag c addr) (?f (c_tb c ! ?i ! j))"
    by (simp add: slot_hit_def fill_slot_def)
  moreover have "c_tb (set_slot ?i j ?f c) ! ?i = (c_tb c ! ?i)[j := ?f (c_tb c ! ?i ! j)]"
    using ln(1) by (simp add: set_slot_def)
  ultimately show "holds (set_slot ?i j ?f c) addr"
    unfolding holds_def by (simp only: set_slot_fields) blast
qed

lemma insert_block_ok:
  assumes inv: "cache_inv ib c" and wb: "wb_fine I wb c addr" and e: "I e"
  shows "\<exists>c' l' e'. insert_block cyc t wb addr (c, l, e) = Inr (c', l', e') \<and> cache_inv ib c' \<and> I e'
           \<and> holds c' addr \<and> shape c' = shape c"
proof -
  let ?i = "get_index c addr" and ?tag = "get_tag c addr"
  let ?line = "c_tb c ! ?i"
  note ln = the_line[OF inv, of addr]
  show ?thesis
  proof (cases "find_slot (slot_free ?tag) ?line")
    case (Some j)
    note j = find_slot_Some[OF Some]
    have busy: "cs_busy (?line ! i)" if "i < j" for i using j that by (auto simp: slot_free_def)
    have fresh: "cs_tag (?line ! i) \<noteq> ?tag" if "i < length ?line" "i \<noteq> j" "cs_busy (?line ! i)" for i
    proof (cases "i < j")
      case True
      then show ?thesis using j by (auto simp: slot_free_def)
    next
      case False
      then have "j < i" using that(2) by simp
      then have "cs_busy (?line ! j)" "cs_tag (?line ! i) \<noteq> cs_tag (?line ! j)"
        using ln(3) that(1,3) by (auto simp: line_ok_def)
      then show ?thesis using j by (auto simp: slot_free_def)
    qed
    show ?thesis
      using insert_fill[OF inv, of j addr cyc 0 t l] j busy fresh ln(1,4) Some e
      by (simp add: insert_block_def Let_def)
  next
    case None
    define j where "j = lru_victim ?line"
    have j: "j < length ?line" using lru_victim_range[OF ln(4)] by (simp add: j_def)
    have all: "cs_busy (?line ! i) \<and> cs_tag (?line ! i) \<noteq> ?tag" if "i < length ?line" for i
      using None that by (auto simp: find_slot_None slot_free_def)
    have fill: "cache_inv ib (set_slot ?i j (fill_slot cyc ?tag bl t l') c)"
      "holds (set_slot ?i j (fill_slot cyc ?tag bl t l') c) addr" for bl l'
      using insert_fill[OF inv j] all j by simp_all
    have cb: "set_slot a b f (c\<lparr>c_copy_back := n\<rparr>) = (set_slot a b f c)\<lparr>c_copy_back := n\<rparr>" for a b f n
      by (simp add: set_slot_def)
    have hc: "holds (c'\<lparr>c_copy_back := n\<rparr>) addr = holds c' addr" for c' n by (simp add: holds_def)
    show ?thesis
    proof (cases "cs_dirty (?line ! j)")
      case False
      then show ?thesis using None fill ln(1,4) e by (simp add: insert_block_def Let_def j_def)
    next
      case True
      let ?bl = "if cyc < cs_ready (?line ! j) then ucast (cs_ready (?line ! j) - cyc) else 0"
      obtain e' l1 where "wb (get_block_addr c addr) (c_block_size c) ?bl e = Inr (e', l1)" "I e'"
        using wb e unfolding wb_fine_def by blast
      then show ?thesis using None fill ln(1,4) e True
        by (simp add: insert_block_def Let_def cb hc flip: j_def)
    qed
  qed
qed


section \<open>Whole operations\<close>

definition in_space :: "cache \<Rightarrow> u32 \<Rightarrow> u8 \<Rightarrow> bool" where
  "in_space c addr len \<longleftrightarrow> unat (last_addr addr len) + unat (c_block_size c) < 2 ^ 32"

lemma unat_add_le: "unat (a + b :: u32) \<le> unat a + unat b"
  by (simp add: unat_word_ariths)

lemma block_size_pos: "geom ib c \<Longrightarrow> 0 < unat (c_block_size c)"
  by (simp add: block_size_unat)

lemma range_length:
  assumes "geom ib c" "in_space c addr len"
  shows "unat (last_addr addr len) + 1 - unat addr \<le> max_blocks"
proof (cases "len = 0")
  case True
  have "addr \<noteq> 0"
  proof
    assume "addr = 0"
    then have "last_addr addr len = - 1" using True by (simp add: last_addr_def)
    then have "unat (last_addr addr len) = 2 ^ 32 - 1" by (simp add: unsigned_minus_1_eq_mask mask_eq_exp_minus_1)
    with assms block_size_pos[OF assms(1)] show False by (simp add: in_space_def)
  qed
  then show ?thesis using True by (simp add: last_addr_def unat_minus_one max_blocks_def)
next
  case False
  have l: "unat (ucast len :: u32) < 256"
    using unsigned_less[of len, where ?'a = nat] by (transfer, simp add: take_bit_int_eq_self)
  have "last_addr addr len = addr + (ucast len - 1)" by (simp add: last_addr_def)
  then have "unat (last_addr addr len) \<le> unat addr + unat (ucast len - 1 :: u32)"
    by (simp only: unat_add_le)
  moreover have "unat (ucast len - 1 :: u32) < 256"
  proof -
    have "(ucast len :: u32) \<noteq> 0" using False by simp
    then show ?thesis using l by (simp add: unat_minus_one)
  qed
  ultimately show ?thesis by (simp add: max_blocks_def)
qed

lemma offset_less: "geom ib c \<Longrightarrow> get_offset c addr < c_block_size c"
  by (simp add: word_less_nat_alt offset_mod block_size_unat)

lemma over_blocks_space:
  assumes "geom ib c" "in_space c addr len" "\<And>a s. I s \<Longrightarrow> \<exists>s'. f a s = Inr s' \<and> I s'" "I s"
  shows "\<exists>s'. over_blocks max_blocks (c_block_size c) addr (last_addr addr len) (get_offset c addr) f s
           = Inr s' \<and> I s'"
  using assms(2) offset_less[OF assms(1)] range_length[OF assms(1,2)]
  by (intro over_blocks_total[OF assms(3,4)]) (simp_all add: in_space_def)

lemma cache_access_ok:
  assumes inv: "cache_inv ib c" and sp: "in_space c addr len"
  obtains c' r where "cache_access cyc addr len w c = Inr (c', r)" "cache_inv ib c'" "shape c' = shape c"
proof -
  have g: "geom ib c" using inv by (simp add: cache_inv_def)
  let ?I = "\<lambda>(c', r :: cache_response, fake :: bool). cache_inv ib c' \<and> shape c' = shape c"
  have "\<exists>s'. over_blocks max_blocks (c_block_size c) addr (last_addr addr len) (get_offset c addr)
      (access_block cyc w) (c, \<lparr>r_hit = True, r_blocks = 0, r_latency = 0\<rparr>, False) = Inr s' \<and> ?I s'"
  proof (rule over_blocks_space[OF g sp])
    fix a s assume "?I s"
    then show "\<exists>s'. access_block cyc w a s = Inr s' \<and> ?I s'"
      using access_block_ok[of ib "fst s" cyc w a "fst (snd s)" "snd (snd s)"] by (cases s) auto
  qed (use inv in simp)
  then obtain c' r fake where "over_blocks max_blocks (c_block_size c) addr (last_addr addr len) (get_offset c addr)
      (access_block cyc w) (c, \<lparr>r_hit = True, r_blocks = 0, r_latency = 0\<rparr>, False) = Inr (c', r, fake)"
    "cache_inv ib c'" "shape c' = shape c" by auto
  then show thesis
    using that by (cases "r_hit r \<and> \<not> fake") (auto simp: cache_access_def)
qed

lemma insert_l2_ok:
  assumes inv: "cache_inv ib c" and sp: "in_space c addr len"
  obtains c' l where "insert_l2 pen cyc addr len t c = Inr (c', l)" "cache_inv ib c'" "shape c' = shape c"
proof -
  have g: "geom ib c" using inv by (simp add: cache_inv_def)
  let ?I = "\<lambda>(c', l :: u32, e :: unit). cache_inv ib c' \<and> shape c' = shape c"
  have "\<exists>s'. over_blocks max_blocks (c_block_size c) addr (last_addr addr len) (get_offset c addr)
      (insert_block cyc t (copy_back_l2 pen)) (c, 0, ()) = Inr s' \<and> ?I s'"
  proof (rule over_blocks_space[OF g sp])
    fix a s assume s: "?I s"
    have "wb_fine (\<lambda>_. True) (copy_back_l2 pen) (fst s) a"
      by (simp add: wb_fine_def copy_back_l2_def)
    from insert_block_ok[OF _ this, of ib cyc t "fst (snd s)"] s
    show "\<exists>s'. insert_block cyc t (copy_back_l2 pen) a s = Inr s' \<and> ?I s'"
      by (cases s) auto
  qed (use inv in simp)
  then obtain c' l where "over_blocks max_blocks (c_block_size c) addr (last_addr addr len) (get_offset c addr)
      (insert_block cyc t (copy_back_l2 pen)) (c, 0, ()) = Inr (c', l, ())"
    "cache_inv ib c'" "shape c' = shape c" by auto
  then show thesis using that by (simp add: insert_l2_def cache_insert_def)
qed

text \<open>Insertion of a range inside one block.\<close>

lemma cache_insert_ok:
  assumes inv: "cache_inv ib c" and o: "one_block c addr len" and wb: "wb_fine I wb c addr" and e: "I e"
  obtains c' e' l where "cache_insert wb cyc addr len t c e = Inr (c', e', l)" "cache_inv ib c'" "I e'"
    "holds c' addr" "shape c' = shape c"
proof -
  have g: "geom ib c" using inv by (simp add: cache_inv_def)
  obtain c' l e' where "insert_block cyc t wb addr (c, 0, e) = Inr (c', l, e')" "cache_inv ib c'" "I e'"
    "holds c' addr" "shape c' = shape c"
    using insert_block_ok[OF inv wb e] by blast
  then show thesis using that by (simp add: cache_insert_def one_block_loop[OF g o])
qed

text \<open>Access to a range inside one block.\<close>

lemma cache_access_one:
  assumes inv: "cache_inv ib c" and o: "one_block c addr len"
  obtains c' r where "cache_access cyc addr len w c = Inr (c', r)" "r_hit r \<longleftrightarrow> holds c addr" "r_blocks r = 1"
    "cache_inv ib c'" "shape c' = shape c" "holds c addr \<Longrightarrow> holds c' addr"
proof -
  have g: "geom ib c" using inv by (simp add: cache_inv_def)
  note ln = the_line[OF inv, of addr]
  let ?i = "get_index c addr" and ?P = "slot_hit (get_tag c addr)"
  obtain c' r' fake where b: "access_block cyc w addr (c, \<lparr>r_hit = True, r_blocks = 0, r_latency = 0\<rparr>, False)
      = Inr (c', r', fake)" "cache_inv ib c'" "shape c' = shape c"
    using access_block_ok[OF inv] by blast
  have h: "r_hit r' \<longleftrightarrow> holds c addr" and n: "r_blocks r' = 1"
    using b(1) ln(1) find_slot_None[of ?P "c_tb c ! ?i"]
    by (auto simp: access_block_def Let_def holds_def split: option.splits)
  have k: "holds c' addr" if "holds c addr"
  proof -
    have "find_slot ?P (c_tb c ! ?i) \<noteq> None"
      unfolding find_slot_None using that by (simp add: holds_def)
    then obtain j where j: "find_slot ?P (c_tb c ! ?i) = Some j" by blast
    then have c': "c' = set_slot ?i j (touch cyc w) c" using b(1) ln(1)
      by (simp add: access_block_def Let_def)
    have "c_tb c' ! ?i = (c_tb c ! ?i)[j := touch cyc w (c_tb c ! ?i ! j)]"
      using ln(1) by (simp add: c' set_slot_def)
    moreover have "touch cyc w (c_tb c ! ?i ! j) \<in> set ((c_tb c ! ?i)[j := touch cyc w (c_tb c ! ?i ! j)])"
      using find_slot_Some[OF j] by (simp add: set_update_memI)
    moreover have "?P (touch cyc w (c_tb c ! ?i ! j))"
      using find_slot_Some[OF j] by (simp add: slot_hit_def)
    ultimately show ?thesis unfolding holds_def shapeD(4,5)[OF b(3)] by (simp only:) blast
  qed
  show thesis
  proof (cases "r_hit r' \<and> \<not> fake")
    case True
    then show thesis using b h n k that[of "c'\<lparr>c_hits := c_hits c' + 1\<rparr>" r']
      by (simp add: cache_access_def one_block_loop[OF g o] holds_def)
  next
    case False
    then show thesis using b h n k that[of "c'\<lparr>c_misses := c_misses c' + 1\<rparr>" r']
      by (auto simp: cache_access_def one_block_loop[OF g o] holds_def)
  qed
qed


section \<open>The two levels\<close>

definition struct_inv :: "nat \<Rightarrow> nat \<Rightarrow> cache_struct \<Rightarrow> bool" where
  "struct_inv ib ib2 s \<longleftrightarrow> (\<forall>c \<in> set (cs_l1 s). cache_inv ib c) \<and> cache_inv ib2 (cs_l2 s)"

text \<open>
  Addresses far enough from the top of the 32-bit space, and first-level blocks of less than 256
  bytes (the length passed to \<open>copy_back\<close>'s insertion has 8 bits).
\<close>

definition clear_of_top :: "cache \<Rightarrow> cache \<Rightarrow> u32 \<Rightarrow> bool" where
  "clear_of_top c1 c2 addr \<longleftrightarrow>
     unat addr + 256 + unat (c_block_size c1) + unat (c_block_size c2) < 2 ^ 32 \<and> c_block_bits c1 < 8"

lemma last_addr_le:
  assumes "len \<noteq> 0"
  shows "unat (last_addr addr len) < unat addr + 256"
proof -
  have l: "unat (ucast len :: u32) < 256"
    using unsigned_less[of len, where ?'a = nat] by (transfer, simp add: take_bit_int_eq_self)
  have "(ucast len :: u32) \<noteq> 0" using assms by simp
  then have "unat (ucast len - 1 :: u32) < 256" using l by (simp add: unat_minus_one)
  moreover have "last_addr addr len = addr + (ucast len - 1)" by (simp add: last_addr_def)
  ultimately show ?thesis using unat_add_le[of addr "ucast len - 1"] by simp
qed

lemma clear_in_space:
  assumes "clear_of_top c1 c2 addr" "len \<noteq> 0"
  shows "in_space c1 addr len" "in_space c2 addr len"
  using assms last_addr_le[of len addr] by (auto simp: clear_of_top_def in_space_def)

lemma block_addr_le: "unat (get_block_addr c a) \<le> unat a"
  by (simp add: get_block_addr_def word_and_le2 flip: word_le_nat_alt)

lemma one_block_shape:
  assumes "shape c' = shape c"
  shows "one_block c' addr len = one_block c addr len" "in_space c' addr len = in_space c addr len"
    "clear_of_top c' c2 addr = clear_of_top c c2 addr" "clear_of_top c2 c' addr = clear_of_top c2 c addr"
  by (simp_all add: one_block_def in_space_def clear_of_top_def shapeD[OF assms])

lemma wb_l1_fine:
  assumes g: "geom ib c1" and clear: "clear_of_top c1 c2 addr"
  shows "wb_fine (\<lambda>c. cache_inv ib2 c \<and> shape c = shape c2) (copy_back_l1 pen cyc) c1 addr"
  unfolding wb_fine_def
proof (intro allI impI)
  fix t l2
  assume l2: "cache_inv ib2 l2 \<and> shape l2 = shape c2"
  let ?n = "ucast (c_block_size c1) :: u8"
  have bits: "c_block_bits c1 < 8" using clear by (simp add: clear_of_top_def)
  have "c_block_size c1 = push_bit (c_block_bits c1) 1" using g by (simp add: geom_def Let_def)
  then have "bit ?n (c_block_bits c1)"
    using bits by (simp add: bit_ucast_iff bit_push_bit_iff bit_1_iff bit_exp_iff)
  then have "?n \<noteq> 0" by auto
  moreover have "clear_of_top c1 c2 (get_block_addr c1 addr)"
    using clear block_addr_le[of c1 addr] by (auto simp: clear_of_top_def)
  ultimately have "in_space l2 (get_block_addr c1 addr) ?n"
    using clear_in_space(2) l2 one_block_shape(2) by blast
  then obtain c' l where "insert_l2 pen cyc (get_block_addr c1 addr) ?n t l2 = Inr (c', l)"
    "cache_inv ib2 c'" "shape c' = shape l2"
    using l2 by (meson insert_l2_ok)
  then show "\<exists>e' l. copy_back_l1 pen cyc (get_block_addr c1 addr) (c_block_size c1) t l2 = Inr (e', l)
      \<and> cache_inv ib2 e' \<and> shape e' = shape c2"
    using l2 by (simp add: copy_back_l1_def)
qed

lemma struct_miss_ok:
  assumes i1: "cache_inv ib l1" and i2: "cache_inv ib2 l2" and o: "one_block l1 addr len"
    and clear: "clear_of_top l1 l2 addr" and len: "len \<noteq> 0"
  obtains l1' l2' lat where "struct_miss cyc addr len w pen l1 l2 = Inr (l1', l2', lat)"
    "cache_inv ib l1'" "cache_inv ib2 l2'" "shape l1' = shape l1" "shape l2' = shape l2" "holds l1' addr"
proof -
  have g: "geom ib l1" using i1 by (simp add: cache_inv_def)
  obtain m r2 where m: "cache_access cyc addr len w l2 = Inr (m, r2)" "cache_inv ib2 m" "shape m = shape l2"
    by (rule cache_access_ok[OF i2 clear_in_space(2)[OF clear len]])
  let ?I = "\<lambda>c. cache_inv ib2 c \<and> shape c = shape l2"
  note fine = wb_l1_fine[OF g clear, of ib2 pen cyc]
  show thesis
  proof (cases "r_hit r2")
    case True
    obtain l1' m' l where "cache_insert (copy_back_l1 pen cyc) cyc addr len (c_latency l1 + r_latency r2) l1 m
        = Inr (l1', m', l)" "cache_inv ib l1'" "?I m'" "holds l1' addr" "shape l1' = shape l1"
      by (rule cache_insert_ok[OF i1 o fine, of m]) (use m in auto)
    then show thesis using that m True by (simp add: struct_miss_def Let_def)
  next
    case False
    let ?lat = "c_latency l1 + c_latency m + pen"
    obtain l1' m' l where ins: "cache_insert (copy_back_l1 pen cyc) cyc addr len ?lat l1 m
        = Inr (l1', m', l)" "cache_inv ib l1'" "?I m'" "holds l1' addr" "shape l1' = shape l1"
      by (rule cache_insert_ok[OF i1 o fine, of m]) (use m in auto)
    have "in_space m' addr len"
      using clear_in_space(2)[OF clear len] one_block_shape(2) ins(3) by blast
    then obtain m'' l' where "insert_l2 pen cyc addr len ?lat m' = Inr (m'', l')" "cache_inv ib2 m''"
      "shape m'' = shape m'"
      using ins(3) by (meson insert_l2_ok)
    then show thesis using that m ins False by (simp add: struct_miss_def Let_def)
  qed
qed


lemma struct_access_ok:
  assumes inv: "struct_inv ib ib2 s" and k: "k < length (cs_l1 s)" and o: "one_block (cs_l1 s ! k) addr len"
    and clear: "clear_of_top (cs_l1 s ! k) (cs_l2 s) addr" and len: "len \<noteq> 0"
  shows "\<exists>l1 l2 lat. struct_access cyc k addr len w s
             = struct_done lat (s\<lparr>cs_l1 := (cs_l1 s)[k := l1], cs_l2 := l2\<rparr>)
           \<and> cache_inv ib l1 \<and> cache_inv ib2 l2 \<and> holds l1 addr
           \<and> shape l1 = shape (cs_l1 s ! k) \<and> shape l2 = shape (cs_l2 s)"
proof -
  have i1: "cache_inv ib (cs_l1 s ! k)" and i2: "cache_inv ib2 (cs_l2 s)"
    using inv k by (simp_all add: struct_inv_def)
  obtain c' r where a: "cache_access cyc addr len w (cs_l1 s ! k) = Inr (c', r)"
    "r_hit r \<longleftrightarrow> holds (cs_l1 s ! k) addr" "cache_inv ib c'" "shape c' = shape (cs_l1 s ! k)"
    "holds (cs_l1 s ! k) addr \<Longrightarrow> holds c' addr"
    by (rule cache_access_one[OF i1 o, of cyc w]) (blast intro: that)
  show ?thesis
  proof (cases "r_hit r")
    case True
    then have "struct_access cyc k addr len w s = struct_done (r_latency r) (s\<lparr>cs_l1 := (cs_l1 s)[k := c'], cs_l2 := cs_l2 s\<rparr>)"
      using k a(1) by (simp add: struct_access_def)
    with True a i2 show ?thesis by blast
  next
    case False
    have o': "one_block c' addr len" "clear_of_top c' (cs_l2 s) addr"
      using o clear one_block_shape[OF a(4)] by simp_all
    obtain l1' l2' lat where "struct_miss cyc addr len w (cs_penalty s) c' (cs_l2 s) = Inr (l1', l2', lat)"
      "cache_inv ib l1'" "cache_inv ib2 l2'" "shape l1' = shape c'" "shape l2' = shape (cs_l2 s)" "holds l1' addr"
      by (rule struct_miss_ok[OF a(3) i2 o' len])
    moreover from this have "struct_access cyc k addr len w s
        = struct_done lat (s\<lparr>cs_l1 := (cs_l1 s)[k := l1'], cs_l2 := l2'\<rparr>)"
      using k a(1) False by (simp add: struct_access_def)
    ultimately show ?thesis using a(4) by metis
  qed
qed

lemma holds_same:
  assumes "holds c a" "get_index c b = get_index c a" "get_tag c b = get_tag c a"
  shows "holds c b"
  using assms by (simp add: holds_def)

lemma holds_lost:
  assumes i: "get_index c a < length (c_tb c)" and h: "holds c b"
    and n: "\<not> holds (set_slot (get_index c a) j f c) b"
  shows "get_index c b = get_index c a \<and> get_tag c b = cs_tag (c_tb c ! get_index c a ! j)
       \<and> cs_busy (c_tb c ! get_index c a ! j)"
proof -
  let ?i = "get_index c a"
  obtain m where m: "m < length (c_tb c ! get_index c b)" "slot_hit (get_tag c b) (c_tb c ! get_index c b ! m)"
    using h by (auto simp: holds_def in_set_conv_nth)
  have tb: "c_tb (set_slot ?i j f c) ! x = (if x = ?i then (c_tb c ! ?i)[j := f (c_tb c ! ?i ! j)] else c_tb c ! x)" for x
    using i by (simp add: set_slot_def)
  have "get_index c b = ?i"
  proof (rule ccontr)
    assume "get_index c b \<noteq> ?i"
    then have "holds (set_slot ?i j f c) b" using h by (simp add: holds_def tb)
    with n show False ..
  qed
  moreover have "m = j"
  proof (rule ccontr)
    assume "m \<noteq> j"
    then have "(c_tb c ! ?i)[j := f (c_tb c ! ?i ! j)] ! m = c_tb c ! ?i ! m" by simp
    then have "slot_hit (get_tag c b) ((c_tb (set_slot ?i j f c) ! get_index c b) ! m)"
      "m < length (c_tb (set_slot ?i j f c) ! get_index c b)"
      using m \<open>get_index c b = ?i\<close> by (simp_all add: tb)
    then have "holds (set_slot ?i j f c) b" unfolding holds_def by (simp only: set_slot_fields) (metis nth_mem)
    with n show False ..
  qed
  ultimately show ?thesis using m(2) by (simp add: slot_hit_def)
qed

lemma insert_block_effect:
  assumes inv: "cache_inv ib c" and ins: "insert_block cyc t wb a (c, l, e) = Inr (c', l', e')"
  shows "\<exists>j < length (c_tb c ! get_index c a). holds c' a
       \<and> (find_slot (slot_free (get_tag c a)) (c_tb c ! get_index c a) = Some j
          \<or> find_slot (slot_free (get_tag c a)) (c_tb c ! get_index c a) = None
             \<and> j = lru_victim (c_tb c ! get_index c a))
       \<and> (\<forall>b. holds c b \<longrightarrow> \<not> holds c' b \<longrightarrow> get_index c b = get_index c a
             \<and> get_tag c b = cs_tag (c_tb c ! get_index c a ! j) \<and> cs_busy (c_tb c ! get_index c a ! j)
             \<and> get_tag c b \<noteq> get_tag c a)"
proof -
  let ?i = "get_index c a" and ?tag = "get_tag c a"
  let ?line = "c_tb c ! ?i"
  note ln = the_line[OF inv, of a]
  have "\<exists>j bl lat n. j < length ?line \<and> c' = (set_slot ?i j (fill_slot cyc ?tag bl t lat) c)\<lparr>c_copy_back := n\<rparr>
      \<and> (find_slot (slot_free ?tag) ?line = Some j \<or> find_slot (slot_free ?tag) ?line = None \<and> j = lru_victim ?line)"
  proof (cases "find_slot (slot_free ?tag) ?line")
    case (Some j)
    then have "c' = (set_slot ?i j (fill_slot cyc ?tag 0 t l) c)\<lparr>c_copy_back := c_copy_back c\<rparr>"
      using ins ln by (auto simp: insert_block_def Let_def set_slot_def)
    with Some find_slot_Some[OF Some] show ?thesis by blast
  next
    case None
    have "\<exists>bl lat n. c' = (set_slot ?i (lru_victim ?line) (fill_slot cyc ?tag bl t lat) c)\<lparr>c_copy_back := n\<rparr>"
    proof (cases "cs_dirty (?line ! lru_victim ?line)")
      case True
      let ?bl = "if cyc < cs_ready (?line ! lru_victim ?line)
        then ucast (cs_ready (?line ! lru_victim ?line) - cyc) else 0"
      obtain x where "wb (get_block_addr c a) (c_block_size c) ?bl e = Inr x"
        and c': "c' = set_slot ?i (lru_victim ?line) (fill_slot cyc ?tag ?bl t (l + snd x))
            (c\<lparr>c_copy_back := c_copy_back c + 1\<rparr>)"
        using ins ln None True
        by (cases "wb (get_block_addr c a) (c_block_size c) ?bl e") (auto simp: insert_block_def Let_def)
      have "c' = (set_slot ?i (lru_victim ?line) (fill_slot cyc ?tag ?bl t (l + snd x)) c)
          \<lparr>c_copy_back := c_copy_back c + 1\<rparr>" by (simp add: c' set_slot_def)
      then show ?thesis by blast
    next
      case False
      then have "c' = (set_slot ?i (lru_victim ?line) (fill_slot cyc ?tag
          (if cyc < cs_ready (?line ! lru_victim ?line) then ucast (cs_ready (?line ! lru_victim ?line) - cyc) else 0)
          t l) c)\<lparr>c_copy_back := c_copy_back c\<rparr>"
        using ins ln None by (auto simp: insert_block_def Let_def set_slot_def)
      then show ?thesis by blast
    qed
    with None lru_victim_range[OF ln(4)] show ?thesis by blast
  qed
  then obtain j bl lat n where j: "j < length ?line"
    and c': "c' = (set_slot ?i j (fill_slot cyc ?tag bl t lat) c)\<lparr>c_copy_back := n\<rparr>"
    and how: "find_slot (slot_free ?tag) ?line = Some j \<or> find_slot (slot_free ?tag) ?line = None \<and> j = lru_victim ?line"
    by blast
  let ?s = "set_slot ?i j (fill_slot cyc ?tag bl t lat) c"
  have hs: "holds c' b = holds ?s b" for b by (simp add: c' holds_def)
  have "fill_slot cyc ?tag bl t lat (?line ! j) \<in> set (?line[j := fill_slot cyc ?tag bl t lat (?line ! j)])"
    using j by (simp add: set_update_memI)
  moreover have "slot_hit ?tag (fill_slot cyc ?tag bl t lat (?line ! j))"
    by (simp add: slot_hit_def fill_slot_def)
  moreover have "c_tb ?s ! ?i = ?line[j := fill_slot cyc ?tag bl t lat (?line ! j)]"
    using ln(1) by (simp add: set_slot_def)
  ultimately have ha: "holds ?s a" unfolding holds_def by (simp only: set_slot_fields) blast
  have "get_tag c b \<noteq> ?tag" if "\<not> holds ?s b" "get_index c b = ?i" for b
    using holds_same[OF ha, of b] that by auto
  with holds_lost[OF ln(1), of _ j "fill_slot cyc ?tag bl t lat"] have
    "\<forall>b. holds c b \<longrightarrow> \<not> holds ?s b \<longrightarrow> get_index c b = ?i
             \<and> get_tag c b = cs_tag (?line ! j) \<and> cs_busy (?line ! j) \<and> get_tag c b \<noteq> ?tag" by blast
  with j how ha show ?thesis unfolding hs by blast
qed

lemma cache_new_ok:
  assumes "bb + ib \<le> 32" "bb < 32" "0 < n"
  shows "cache_inv ib (cache_new junk bb n ib lat cid)"
    and "c_block_bits (cache_new junk bb n ib lat cid) = bb"
  using assms by (auto simp: cache_inv_def geom_def cache_new_def Let_def line_ok_def)

section \<open>A concrete cache\<close>

definition demo_slot :: slot where
  "demo_slot = \<lparr>cs_ready = 0, cs_tag = 0, cs_busy = False, cs_last = 0, cs_dirty = False\<rparr>"

definition demo_cache :: cache where
  "demo_cache = cache_new (\<lambda>_ _. demo_slot) 4 2 3 1 0"

lemma demo_cache_inv: "cache_inv 3 demo_cache" "c_block_bits demo_cache = 4"
  using cache_new_ok[of 4 3 2 "\<lambda>_ _. demo_slot" 1 0] by (simp_all add: demo_cache_def)

section \<open>Properties\<close>

text \<open>the offset, index and tag masks that the constructor builds bit by bit split an address:
  the index always selects an existing line, and two addresses have the same index and tag exactly
  when they lie in the same block.\<close>

lemma address_split:
  assumes "bb + ib \<le> 32" and "bb < 32" and "0 < n" and "c = cache_new junk bb n ib lat cid"
  shows "get_index c a < length (c_tb c)
       \<and> (get_index c a = get_index c b \<and> get_tag c a = get_tag c b \<longleftrightarrow> unat a div 2 ^ bb = unat b div 2 ^ bb)
       \<and> unat (get_offset c a) = unat a mod 2 ^ bb"
proof -
  have inv: "cache_inv ib c" and bits: "c_block_bits c = bb"
    using cache_new_ok[OF assms(1-3)] by (simp_all add: assms(4))
  then have g: "geom ib c" by (simp add: cache_inv_def)
  show ?thesis
    using the_line(1)[OF inv] same_block_iff[OF g] block_div[OF g] offset_mod[OF g] bits by simp
qed

lemma address_split_witness: "unat (get_offset demo_cache 0x1235) = 5 \<and> get_index demo_cache 0x1235 < 8"
  using address_split[OF _ _ _ demo_cache_def, of "0x1235" "0x1235"]
  by (simp add: demo_cache_def cache_new_def)

text \<open>C33: inserting a block loses no other block while the set has a free slot or holds the block
  already; otherwise the one block lost is the least recently used of the set. Afterwards the block
  is in the cache.\<close>

theorem insert_displaces_lru:
  assumes "cache_inv ib c" and "insert_block cyc t wb a (c, l, e) = Inr (c', l', e')"
    and "line = c_tb c ! get_index c a"
  shows "holds c' a
       \<and> ((\<exists>s \<in> set line. \<not> cs_busy s) \<or> holds c a \<longrightarrow> (\<forall>b. holds c b \<longrightarrow> holds c' b))
       \<and> (\<forall>b. holds c b \<and> \<not> holds c' b \<longrightarrow>
            get_index c b = get_index c a \<and> get_tag c b = cs_tag (line ! lru_victim line)
            \<and> (\<forall>s \<in> set line. cs_last (line ! lru_victim line) \<le> cs_last s))"
proof (intro conjI impI allI)
  note eff = insert_block_effect[OF assms(1,2), folded assms(3)]
  obtain j where J: "j < length line \<and> holds c' a
       \<and> (find_slot (slot_free (get_tag c a)) line = Some j
          \<or> find_slot (slot_free (get_tag c a)) line = None \<and> j = lru_victim line)
       \<and> (\<forall>b. holds c b \<longrightarrow> \<not> holds c' b \<longrightarrow> get_index c b = get_index c a
             \<and> get_tag c b = cs_tag (line ! j) \<and> cs_busy (line ! j) \<and> get_tag c b \<noteq> get_tag c a)"
    using eff by (elim exE) (rule that)
  then have j: "j < length line" "holds c' a"
    "find_slot (slot_free (get_tag c a)) line = Some j \<or>
       find_slot (slot_free (get_tag c a)) line = None \<and> j = lru_victim line"
    by simp_all
  have lost: "get_index c b = get_index c a \<and> get_tag c b = cs_tag (line ! j) \<and> cs_busy (line ! j)
         \<and> get_tag c b \<noteq> get_tag c a" if "holds c b" "\<not> holds c' b" for b
    using J[THEN conjunct2, THEN conjunct2, THEN conjunct2] that by iprover
  show "holds c' a" by (rule j(2))
  have some: "\<not> (find_slot (slot_free (get_tag c a)) line = Some j)" if "holds c b" "\<not> holds c' b" for b
    using lost[OF that] find_slot_Some[of "slot_free (get_tag c a)" line j] by (auto simp: slot_free_def)
  have none: "find_slot (slot_free (get_tag c a)) line \<noteq> None"
    if "(\<exists>s \<in> set line. \<not> cs_busy s) \<or> holds c a"
    using that by (auto simp: find_slot_None slot_free_def holds_def slot_hit_def assms(3))
  fix b
  show "holds c' b" if "(\<exists>s \<in> set line. \<not> cs_busy s) \<or> holds c a" "holds c b"
    using none[OF that(1)] some[OF that(2)] j(3) by (meson)
  assume b: "holds c b \<and> \<not> holds c' b"
  then have v: "j = lru_victim line" using some[of b] j(3) by meson
  show "get_index c b = get_index c a" "get_tag c b = cs_tag (line ! lru_victim line)"
    using lost b v by blast+
  have "line \<noteq> []" using j(1) by auto
  then show "\<forall>s \<in> set line. cs_last (line ! lru_victim line) \<le> cs_last s"
    using lru_victim_least(1)[of line] by (metis in_set_conv_nth)
qed

lemma insert_displaces_lru_witness:
  "\<exists>c' l' e'. insert_block 7 1 (copy_back_l2 9) 0x40 (demo_cache, 0, ()) = Inr (c', l', e') \<and> holds c' 0x40"
proof -
  have "wb_fine (\<lambda>_. True) (copy_back_l2 9) demo_cache 0x40" by (simp add: wb_fine_def copy_back_l2_def)
  then obtain c' l' e' where "insert_block 7 1 (copy_back_l2 9) 0x40 (demo_cache, 0, ()) = Inr (c', l', e')"
    using insert_block_ok[OF demo_cache_inv(1), of "\<lambda>_. True" "copy_back_l2 9" "0x40" "()"] by blast
  with insert_displaces_lru[OF demo_cache_inv(1) this refl] show ?thesis by blast
qed


definition demo_struct :: cache_struct where
  "demo_struct = \<lparr>cs_l1 = [demo_cache, demo_cache], cs_l2 = demo_cache, cs_penalty = 100, cs_lat_sum = 0, cs_lat_n = 0\<rparr>"


text \<open>C37: an access whose last byte lies in the topmost block of the 32-bit space never ends: the
  next block address wraps to 0, which is again not above \<open>last_address\<close>.\<close>

theorem top_of_memory_never_ends:
  assumes inv: "cache_inv ib c" and "addr \<le> last_addr addr len"
    and top: "unat (last_addr addr len) div 2 ^ c_block_bits c = 2 ^ (32 - c_block_bits c) - 1"
  shows "over_blocks k (c_block_size c) addr (last_addr addr len) (get_offset c addr) (access_block cyc w)
           (c, r, fake) = Inl Diverges"
proof -
  have g: "geom ib c" using inv by (simp add: cache_inv_def)
  let ?b = "c_block_bits c"
  have b: "?b < 32" using g by (simp add: geom_def Let_def)
  show ?thesis
  proof (rule over_blocks_wraps[where I = "\<lambda>(c', r, fake). cache_inv ib c'" and b = ?b])
    fix a :: nat
    assume a: "a mod 2 ^ ?b = 0" "a < 2 ^ 32"
    have "(2::nat) ^ 32 = 2 ^ (32 - ?b) * 2 ^ ?b" using b by (simp flip: power_add)
    then have "a div 2 ^ ?b < 2 ^ (32 - ?b)" using a(2) by (simp add: less_mult_imp_div_less)
    then have "a div 2 ^ ?b \<le> unat (last_addr addr len) div 2 ^ ?b" using top by simp
    then have "a div 2 ^ ?b * 2 ^ ?b \<le> unat (last_addr addr len) div 2 ^ ?b * 2 ^ ?b" by simp
    also have "\<dots> \<le> unat (last_addr addr len)" by (rule div_times_less_eq_dividend)
    finally show "a \<le> unat (last_addr addr len)" using a(1) by (metis add.right_neutral div_mult_mod_eq)
  next
    show "\<exists>s'. access_block cyc w a s = Inr s' \<and> (case s' of (c', r, fake) \<Rightarrow> cache_inv ib c')"
      if "case s of (c', r, fake) \<Rightarrow> cache_inv ib c'" for a s
      using that access_block_ok[of ib "fst s" cyc w a "fst (snd s)" "snd (snd s)"] by (cases s) auto
    show "c_block_size c = push_bit ?b 1" using g by (simp add: geom_def Let_def)
  qed (use b inv assms(2) offset_mod[OF g] in simp_all)
qed

lemma top_of_memory_never_ends_witness:
  "over_blocks 300 (c_block_size demo_cache) 0xFFFFFFF0 (last_addr 0xFFFFFFF0 4) (get_offset demo_cache 0xFFFFFFF0)
     (access_block 0 False) (demo_cache, \<lparr>r_hit = True, r_blocks = 0, r_latency = 0\<rparr>, False) = Inl Diverges"
  by (rule top_of_memory_never_ends[OF demo_cache_inv(1)]) (simp_all add: last_addr_def demo_cache_inv(2))

end
