(* ===== verification/Instruction.thy ===== *)
theory Instruction
  imports Static_List_Spec
begin

text \<open>
  The decoded instructions of the pipeline, \<open>rs_instruction_t\<close> in \<open>src/src/cpu/cpu.h\<close> and
  \<open>rs_instruction.cpp\<close>, and the dependency graph that they form. An instruction object is an entry of
  a pool, a pointer to it the entry's number; \<open>NULL\<close> is \<open>None\<close>. The arrays \<open>dep_in\<close> and \<open>dep_out\<close>
  with their index arrays and counters are lists of pairs: the \<open>i\<close>th pair of \<open>dep_in\<close> holds the
  producer and the position in its \<open>dep_out\<close> that points back, and the other way round.

  The dependency vectors of a processor, which say for each part of the register file which
  instruction will produce it, are a map from slots (processor, vector, offset).
\<close>

section \<open>State\<close>

datatype status = Decoding | Wait_Dep | Dep_Ready | Executing | Ready

datatype pipeline_state = Valid | Invalid | Valid_Can_Flush

datatype microcode_state = First | Middle | Last

datatype queue_id = Rs_Queue | Ls_Queue | Io_Queue

type_synonym reg_slot = "nat \<times> nat \<times> nat"

definition T_NONE :: nat where "T_NONE = 0"
definition T_INT_ARITH :: nat where "T_INT_ARITH = 1"
definition T_INT_LOGIC :: nat where "T_INT_LOGIC = 2"
definition T_INT_MUL :: nat where "T_INT_MUL = 3"
definition T_INT_DIV :: nat where "T_INT_DIV = 4"
definition T_MOV :: nat where "T_MOV = 5"
definition T_LOAD :: nat where "T_LOAD = 6"
definition T_STORE :: nat where "T_STORE = 7"
definition T_BRANCH :: nat where "T_BRANCH = 8"
definition T_IO_IN :: nat where "T_IO_IN = 12"
definition T_IO_OUT :: nat where "T_IO_OUT = 13"

lemmas type_numbers = T_NONE_def T_INT_ARITH_def T_INT_LOGIC_def T_INT_MUL_def T_INT_DIV_def T_MOV_def
  T_LOAD_def T_STORE_def T_BRANCH_def T_IO_IN_def T_IO_OUT_def

definition MAX_DEP_IN :: nat where "MAX_DEP_IN = 10"
definition MAX_DEP_OUT :: nat where "MAX_DEP_OUT = 10"

record uop =
  u_cpu :: nat
  u_id :: u64
  u_dep_in :: "(nat option \<times> nat) list"
  u_resolved :: nat
  u_dep_out :: "(nat option \<times> nat) list"
  u_dep_out_max :: nat
  u_out_regs :: "reg_slot list"
  u_type :: nat
  u_status :: status
  u_cycles :: u32
  u_is_branch :: bool
  u_branch_taken :: bool
  u_foresight :: bool
  u_branch_target :: u64
  u_branch_type :: nat
  u_exception :: bool
  u_exception_code :: u64
  u_is_trap :: bool
  u_trap_code :: u16
  u_vaddr :: u64
  u_length :: u8
  u_mem_result :: nat
  u_mem_addr :: u64
  u_mem_length :: u8
  u_is_halt :: bool
  u_must_flush :: bool
  u_queue :: "queue_id option"
  u_queue_el :: "nat option"
  u_rb_el :: "nat option"
  u_pipeline :: pipeline_state
  u_microcode :: microcode_state
  u_first :: nat
  u_last :: nat

type_synonym pool = "nat \<Rightarrow> uop"
type_synonym regs = "reg_slot \<Rightarrow> nat option"

definition set_status :: "status \<Rightarrow> nat \<Rightarrow> pool \<Rightarrow> pool" where
  "set_status st p h = h(p := (h p)\<lparr>u_status := st\<rparr>)"

definition all_resolved :: "uop \<Rightarrow> bool" where
  "all_resolved u \<longleftrightarrow> u_resolved u = length (u_dep_in u)"

section \<open>Operations\<close>

text \<open>\<open>reset\<close>; the fields that it does not mention keep what the last use of the object left in them.\<close>

definition reset :: "nat \<Rightarrow> u64 \<Rightarrow> uop \<Rightarrow> uop" where
  "reset c i u = u\<lparr>u_cpu := c, u_id := i, u_is_branch := False, u_is_trap := False, u_out_regs := [],
     u_dep_out := [], u_dep_in := [], u_resolved := 0, u_cycles := 0, u_status := Decoding,
     u_exception := False, u_foresight := True, u_type := 0, u_mem_result := 0, u_is_halt := False,
     u_must_flush := False, u_queue := None, u_queue_el := None, u_rb_el := None\<rparr>"

definition create_dep :: "nat \<Rightarrow> nat \<Rightarrow> pool \<Rightarrow> pool res" where
  "create_dep dest src h =
     (if length (u_dep_in (h dest)) < MAX_DEP_IN then
        if length (u_dep_out (h src)) < u_dep_out_max (h src) then
          let j = length (u_dep_out (h src));
              k = length (u_dep_in (h dest));
              h1 = h(dest := (h dest)\<lparr>u_dep_in := u_dep_in (h dest) @ [(Some src, j)]\<rparr>)
          in Inr (h1(src := (h1 src)\<lparr>u_dep_out := u_dep_out (h1 src) @ [(Some dest, k)]\<rparr>))
        else Inl Sanity
      else Inl Sanity)"

text \<open>The macros \<open>GET_DEP\<close> (followed by \<open>CREATE_DEP\<close> when the slot is in use) and \<open>SET_DEP\<close>.\<close>

definition add_out_regs :: "reg_slot \<Rightarrow> uop \<Rightarrow> uop res" where
  "add_out_regs r u = (if length (u_out_regs u) < MAX_DEP_OUT
     then Inr (u\<lparr>u_out_regs := u_out_regs u @ [r]\<rparr>) else Inl Sanity)"

definition set_dep :: "reg_slot \<Rightarrow> nat \<Rightarrow> pool \<Rightarrow> regs \<Rightarrow> (pool \<times> regs) res" where
  "set_dep r p h g = rbind (add_out_regs r (h p)) (\<lambda>u. Inr (h(p := u), g(r \<mapsto> p)))"

text \<open>
  One round of the first loop of \<open>write_back\<close>: the \<open>i\<close>th consumer of \<open>p\<close> has one dependency less.
\<close>

definition resolve_edge :: "nat \<Rightarrow> nat \<Rightarrow> pool \<Rightarrow> pool" where
  "resolve_edge p i h = (case u_dep_out (h p) ! i of
     (None, _) \<Rightarrow> h
   | (Some d, k) \<Rightarrow>
       let h1 = h(d := (h d)\<lparr>u_dep_in := (u_dep_in (h d))[k := (None, snd (u_dep_in (h d) ! k))],
                               u_resolved := u_resolved (h d) + 1\<rparr>);
           h2 = (if u_resolved (h1 d) \<ge> length (u_dep_in (h1 d)) then set_status Dep_Ready d h1 else h1)
       in h2(p := (h2 p)\<lparr>u_dep_out := (u_dep_out (h2 p))[i := (None, k)]\<rparr>))"

definition free_regs :: "nat \<Rightarrow> reg_slot list \<Rightarrow> regs \<Rightarrow> regs" where
  "free_regs p rs g = fold (\<lambda>r g. if g r = Some p then g(r := None) else g) rs g"

definition uop_write_back :: "nat \<Rightarrow> pool \<Rightarrow> regs \<Rightarrow> pool \<times> regs" where
  "uop_write_back p h g =
     (let h1 = set_status Ready p h;
          h2 = fold (resolve_edge p) [0..<length (u_dep_out (h1 p))] h1
      in (h2, free_regs p (u_out_regs (h2 p)) g))"

text \<open>One round of the loop of \<open>flush_on_write_back\<close>: the \<open>i\<close>th producer of \<open>q\<close> forgets \<open>q\<close>.\<close>

definition unhook_edge :: "nat \<Rightarrow> nat \<Rightarrow> pool \<Rightarrow> pool" where
  "unhook_edge q i h = (case u_dep_in (h q) ! i of
     (None, _) \<Rightarrow> h
   | (Some s, j) \<Rightarrow>
       let h1 = h(s := (h s)\<lparr>u_dep_out := (u_dep_out (h s))[j := (None, snd (u_dep_out (h s) ! j))]\<rparr>)
       in h1(q := (h1 q)\<lparr>u_dep_in := (u_dep_in (h1 q))[i := (None, j)]\<rparr>))"

definition uop_unhook :: "nat \<Rightarrow> pool \<Rightarrow> pool" where
  "uop_unhook q h = fold (unhook_edge q) [0..<length (u_dep_in (h q))] h"

section \<open>The dependency graph\<close>

text \<open>
  An edge is recorded twice, at its consumer and at its producer, each end holding the position of
  the other. \<open>linked\<close> says that the two records agree, \<open>counted\<close> that the counter of resolved
  dependencies counts the cleared records of the consumer.
\<close>

definition in_edge :: "pool \<Rightarrow> nat \<Rightarrow> nat \<Rightarrow> nat \<Rightarrow> nat \<Rightarrow> bool" where
  "in_edge h d k s j \<longleftrightarrow> k < length (u_dep_in (h d)) \<and> u_dep_in (h d) ! k = (Some s, j)"

definition out_edge :: "pool \<Rightarrow> nat \<Rightarrow> nat \<Rightarrow> nat \<Rightarrow> nat \<Rightarrow> bool" where
  "out_edge h s j d k \<longleftrightarrow> j < length (u_dep_out (h s)) \<and> u_dep_out (h s) ! j = (Some d, k)"

definition linked :: "pool \<Rightarrow> bool" where
  "linked h \<longleftrightarrow> (\<forall>d k s j. in_edge h d k s j = out_edge h s j d k) \<and> (\<forall>d k j. \<not> in_edge h d k d j)"

lemma linked_sym: "linked h \<Longrightarrow> in_edge h d k s j = out_edge h s j d k"
  by (simp add: linked_def)

lemma linked_irrefl: "linked h \<Longrightarrow> \<not> in_edge h d k d j"
  unfolding linked_def by blast

lemma linkedI:
  "(\<And>d k s j. in_edge h d k s j = out_edge h s j d k) \<Longrightarrow> (\<And>d k j. \<not> in_edge h d k d j) \<Longrightarrow> linked h"
  unfolding linked_def by blast

definition waits_for :: "pool \<Rightarrow> nat \<Rightarrow> nat \<Rightarrow> nat" where
  "waits_for h d p = length (filter (\<lambda>e. fst e = Some p) (u_dep_in (h d)))"

definition open_deps :: "uop \<Rightarrow> nat" where
  "open_deps u = length (filter (\<lambda>e. fst e \<noteq> None) (u_dep_in u))"

definition counted :: "uop \<Rightarrow> bool" where
  "counted u \<longleftrightarrow> u_resolved u + open_deps u = length (u_dep_in u)"

lemma counted_resolved: "counted u \<Longrightarrow> all_resolved u \<longleftrightarrow> open_deps u = 0"
  by (auto simp: counted_def all_resolved_def)

lemma in_edge_unique: "in_edge h d k s j \<Longrightarrow> in_edge h d k s' j' \<Longrightarrow> s = s' \<and> j = j'"
  by (auto simp: in_edge_def)

lemma out_edge_unique: "out_edge h s j d k \<Longrightarrow> out_edge h s j d' k' \<Longrightarrow> d = d' \<and> k = k'"
  by (auto simp: out_edge_def)

text \<open>Changing the one element that satisfies a condition.\<close>

lemma map_unique_update:
  assumes "k < length xs" "P (xs ! k)" "\<And>k'. k' < length xs \<Longrightarrow> P (xs ! k') \<Longrightarrow> k' = k"
  shows "map (\<lambda>x. if P x then f x else x) xs = xs[k := f (xs ! k)]"
proof (rule nth_equalityI)
  fix i assume i: "i < length (map (\<lambda>x. if P x then f x else x) xs)"
  show "map (\<lambda>x. if P x then f x else x) xs ! i = xs[k := f (xs ! k)] ! i"
  proof (cases "i = k")
    case True
    then show ?thesis using assms(1,2) by simp
  next
    case False
    then have "\<not> P (xs ! i)" using assms(3) i by auto
    then show ?thesis using False i by simp
  qed
qed simp

lemma filter_length_map_clear:
  "length (filter (\<lambda>e. fst e \<noteq> None) (map (\<lambda>e. if fst e = Some p then (None, snd e) else e) xs))
     + length (filter (\<lambda>e. fst e = Some p) xs) = length (filter (\<lambda>e. fst e \<noteq> None) xs)"
  by (induction xs) auto

section \<open>What write-back does to the graph\<close>

text \<open>The pool after \<open>n\<close> rounds of the loop, in closed form.\<close>

definition done_edge :: "nat \<Rightarrow> nat \<Rightarrow> nat option \<times> nat \<Rightarrow> bool" where
  "done_edge p n e \<longleftrightarrow> fst e = Some p \<and> snd e < n"

definition resolved_upto :: "nat \<Rightarrow> nat \<Rightarrow> uop \<Rightarrow> uop" where
  "resolved_upto p n u =
     (let m = length (filter (done_edge p n) (u_dep_in u))
      in u\<lparr>u_dep_in := map (\<lambda>e. if done_edge p n e then (None, snd e) else e) (u_dep_in u),
           u_resolved := u_resolved u + m,
           u_status := if 0 < m \<and> length (u_dep_in u) \<le> u_resolved u + m then Dep_Ready else u_status u\<rparr>)"

definition cleared_upto :: "nat \<Rightarrow> nat \<Rightarrow> pool \<Rightarrow> pool" where
  "cleared_upto p n h = (\<lambda>d. if d = p
     then (h p)\<lparr>u_dep_out := map (\<lambda>e. (None, snd e)) (take n (u_dep_out (h p))) @ drop n (u_dep_out (h p))\<rparr>
     else resolved_upto p n (h d))"

lemma filter_one:
  assumes "k < length xs" "P (xs ! k)" "\<And>k'. k' < length xs \<Longrightarrow> P (xs ! k') \<Longrightarrow> k' = k"
  shows "filter P xs = [xs ! k]"
proof -
  have xs: "xs = take k xs @ xs ! k # drop (Suc k) xs" using assms(1) by (simp add: id_take_nth_drop)
  have other: "\<not> P (xs ! i)" if "i < length xs" "i \<noteq> k" for i
    using that assms(3) by blast
  have "\<not> P x" if "x \<in> set (take k xs)" for x
    using that other assms(1) by (auto simp: in_set_conv_nth)
  moreover have "\<not> P x" if x: "x \<in> set (drop (Suc k) xs)" for x
  proof -
    obtain i where "i < length (drop (Suc k) xs)" "x = drop (Suc k) xs ! i"
      using x by (metis in_set_conv_nth)
    then show ?thesis using other[of "Suc k + i"] by simp
  qed
  ultimately have "filter P (take k xs) = []" "filter P (drop (Suc k) xs) = []"
    by (auto simp: filter_empty_conv)
  then show ?thesis using assms(2) by (subst xs) simp
qed

lemma done_edge_Suc: "done_edge p (Suc n) e \<longleftrightarrow> done_edge p n e \<or> fst e = Some p \<and> snd e = n"
  by (auto simp: done_edge_def)

lemma filter_disj_length:
  "(\<And>x. x \<in> set xs \<Longrightarrow> \<not> (P x \<and> Q x)) \<Longrightarrow>
   length (filter (\<lambda>x. P x \<or> Q x) xs) = length (filter P xs) + length (filter Q xs)"
  by (induction xs) auto

text \<open>One more round, at the consumer \<open>d\<close> whose position \<open>k\<close> points back.\<close>

lemma resolved_upto_step:
  assumes k: "k < length (u_dep_in u)" "u_dep_in u ! k = (Some p, n)"
    and unique: "\<And>k'. k' < length (u_dep_in u) \<Longrightarrow> u_dep_in u ! k' = (Some p, n) \<Longrightarrow> k' = k"
  shows "resolved_upto p (Suc n) u =
     (let v = resolved_upto p n u;
          w = v\<lparr>u_dep_in := (u_dep_in v)[k := (None, snd (u_dep_in v ! k))], u_resolved := u_resolved v + 1\<rparr>
      in if u_resolved w \<ge> length (u_dep_in w) then w\<lparr>u_status := Dep_Ready\<rparr> else w)"
proof -
  let ?Q = "\<lambda>e. fst e = Some p \<and> snd e = n"
  let ?c = "\<lambda>e. if done_edge p n e then (None, snd e) else e"
  have "filter ?Q (u_dep_in u) = [u_dep_in u ! k]"
  proof (rule filter_one[OF k(1)])
    fix k' assume "k' < length (u_dep_in u)" "?Q (u_dep_in u ! k')"
    then show "k' = k" by (intro unique) (simp_all add: prod_eq_iff)
  qed (simp add: k(2))
  then have "length (filter ?Q (u_dep_in u)) = 1" by simp
  moreover have "length (filter (done_edge p (Suc n)) (u_dep_in u))
      = length (filter (done_edge p n) (u_dep_in u)) + length (filter ?Q (u_dep_in u))"
    unfolding done_edge_Suc by (intro filter_disj_length) (auto simp: done_edge_def)
  ultimately have m: "length (filter (done_edge p (Suc n)) (u_dep_in u))
      = length (filter (done_edge p n) (u_dep_in u)) + 1" by simp
  have "map (\<lambda>e. if ?Q e then (None, snd e) else e) (map ?c (u_dep_in u))
      = (map ?c (u_dep_in u))[k := (None, snd (map ?c (u_dep_in u) ! k))]"
  proof (rule map_unique_update)
    fix k' assume "k' < length (map ?c (u_dep_in u))" "?Q (map ?c (u_dep_in u) ! k')"
    then have "k' < length (u_dep_in u)" "u_dep_in u ! k' = (Some p, n)"
      by (auto simp: prod_eq_iff split: if_splits)
    then show "k' = k" by (rule unique)
  qed (use k in \<open>auto simp: done_edge_def\<close>)
  moreover have "map (\<lambda>e. if ?Q e then (None, snd e) else e) (map ?c (u_dep_in u))
      = map (\<lambda>e. if done_edge p (Suc n) e then (None, snd e) else e) (u_dep_in u)"
    by (auto simp: done_edge_def)
  ultimately have d: "map (\<lambda>e. if done_edge p (Suc n) e then (None, snd e) else e) (u_dep_in u)
      = (map ?c (u_dep_in u))[k := (None, snd (map ?c (u_dep_in u) ! k))]" by simp
  show ?thesis unfolding resolved_upto_def Let_def m d by simp
qed

lemma resolved_upto_none:
  assumes "\<And>k. k < length (u_dep_in u) \<Longrightarrow> u_dep_in u ! k \<noteq> (Some p, n)"
  shows "resolved_upto p (Suc n) u = resolved_upto p n u"
proof -
  have "done_edge p (Suc n) e = done_edge p n e" if "e \<in> set (u_dep_in u)" for e
  proof -
    obtain k where "k < length (u_dep_in u)" "e = u_dep_in u ! k" using \<open>e \<in> set _\<close> by (metis in_set_conv_nth)
    then have "\<not> (fst e = Some p \<and> snd e = n)" using assms[of k] by (metis prod.collapse)
    then show ?thesis by (simp only: done_edge_Suc) blast
  qed
  then have "filter (done_edge p (Suc n)) (u_dep_in u) = filter (done_edge p n) (u_dep_in u)"
    "map (\<lambda>e. if done_edge p (Suc n) e then (None, snd e) else e) (u_dep_in u)
     = map (\<lambda>e. if done_edge p n e then (None, snd e) else e) (u_dep_in u)"
    by (auto intro: filter_cong)
  then show ?thesis by (simp only: resolved_upto_def)
qed

lemma take_drop_clear:
  assumes "n < length xs"
  shows "map f (take (Suc n) xs) @ drop (Suc n) xs = (map f (take n xs) @ drop n xs)[n := f (xs ! n)]"
  using assms by (simp add: take_Suc_conv_app_nth list_update_append upd_conv_take_nth_drop Cons_nth_drop_Suc[symmetric])

lemma u_dep_out_update_same: "u\<lparr>u_dep_out := u_dep_out u\<rparr> = u"
  by simp

lemma u_dep_in_update_same: "u\<lparr>u_dep_in := u_dep_in u\<rparr> = u"
  by simp

lemma cleared_step:
  assumes l: "linked h" and n: "n < length (u_dep_out (h p))"
  shows "resolve_edge p n (cleared_upto p n h) = cleared_upto p (Suc n) h"
proof -
  let ?c = "cleared_upto p n h"
  obtain x k where e: "u_dep_out (h p) ! n = (x, k)" by force
  have at: "u_dep_out (?c p) ! n = (x, k)"
    using n e by (simp add: cleared_upto_def nth_append)
  have p': "cleared_upto p (Suc n) h p = (?c p)\<lparr>u_dep_out := (u_dep_out (?c p))[n := (None, k)]\<rparr>"
    using n e by (simp add: cleared_upto_def take_drop_clear)
  have none: "cleared_upto p (Suc n) h d = ?c d" if "d \<noteq> p" "x \<noteq> Some d" for d
  proof -
    have "\<not> in_edge h d k' p n" for k'
      using l that(2) n e by (auto simp: linked_def out_edge_def)
    then show ?thesis using that(1) by (auto simp: cleared_upto_def in_edge_def intro: resolved_upto_none)
  qed
  show ?thesis
  proof (cases x)
    case None
    have "cleared_upto p (Suc n) h p = ?c p"
      using p' at n None by (metis list_update_id u_dep_out_update_same)
    then have "cleared_upto p (Suc n) h q = ?c q" for q using none[of q] None by (cases "q = p") simp_all
    then have "cleared_upto p (Suc n) h = ?c" by (rule ext)
    then show ?thesis by (simp add: resolve_edge_def at None)
  next
    case (Some d)
    have out: "out_edge h p n d k" using e n Some by (simp add: out_edge_def)
    then have in_d: "in_edge h d k p n" using l by (simp add: linked_def)
    then have dp: "d \<noteq> p" using l by (auto simp: linked_def)
    have uniq: "k' = k" if "k' < length (u_dep_in (h d))" "u_dep_in (h d) ! k' = (Some p, n)" for k'
    proof -
      have "in_edge h d k' p n" using that by (simp add: in_edge_def)
      then have "out_edge h p n d k'" by (simp add: linked_sym[OF l])
      then show ?thesis using out_edge_unique out by blast
    qed
    have d': "cleared_upto p (Suc n) h d =
      (let w = (?c d)\<lparr>u_dep_in := (u_dep_in (?c d))[k := (None, snd (u_dep_in (?c d) ! k))], u_resolved := u_resolved (?c d) + 1\<rparr>
       in if u_resolved w \<ge> length (u_dep_in w) then w\<lparr>u_status := Dep_Ready\<rparr> else w)"
      using resolved_upto_step[OF _ _ uniq] in_d dp by (simp add: cleared_upto_def in_edge_def Let_def)
    show ?thesis
    proof (rule ext)
      fix q
      consider "q = p" | "q = d" | "q \<noteq> p" "q \<noteq> d" by blast
      then show "resolve_edge p n ?c q = cleared_upto p (Suc n) h q"
        by cases (use dp p' d' none[of q] in \<open>simp_all add: resolve_edge_def at Some set_status_def Let_def\<close>)
    qed
  qed
qed

lemma fold_resolve:
  "linked h \<Longrightarrow> n \<le> length (u_dep_out (h p)) \<Longrightarrow> fold (resolve_edge p) [0..<n] h = cleared_upto p n h"
proof (induction n)
  case 0
  have "resolved_upto p 0 u = u" for u
  proof -
    have "\<not> done_edge p 0 e" for e by (simp add: done_edge_def)
    then show ?thesis by (simp add: resolved_upto_def)
  qed
  then show ?case by (simp add: cleared_upto_def fun_eq_iff)
next
  case (Suc n)
  then show ?case by (simp add: cleared_step)
qed

text \<open>The whole loop: every record of \<open>p\<close> as a producer is cleared and counted.\<close>

definition released :: "nat \<Rightarrow> uop \<Rightarrow> uop" where
  "released p u =
     (let m = length (filter (\<lambda>e. fst e = Some p) (u_dep_in u))
      in u\<lparr>u_dep_in := map (\<lambda>e. if fst e = Some p then (None, snd e) else e) (u_dep_in u),
           u_resolved := u_resolved u + m,
           u_status := if 0 < m \<and> length (u_dep_in u) \<le> u_resolved u + m then Dep_Ready else u_status u\<rparr>)"

definition finished :: "uop \<Rightarrow> uop" where
  "finished u = u\<lparr>u_dep_out := map (\<lambda>e. (None, snd e)) (u_dep_out u), u_status := Ready\<rparr>"

lemma linked_status [simp]: "linked (set_status st p h) = linked h"
proof -
  have "u_dep_in (set_status st p h d) = u_dep_in (h d)" "u_dep_out (set_status st p h d) = u_dep_out (h d)" for d
    by (simp_all add: set_status_def)
  then show ?thesis by (simp add: linked_def in_edge_def out_edge_def)
qed

lemma write_back_value:
  assumes "linked h"
  shows "uop_write_back p h g = ((\<lambda>d. if d = p then finished (h p) else released p (h d)), free_regs p (u_out_regs (h p)) g)"
proof -
  let ?h = "set_status Ready p h"
  let ?n = "length (u_dep_out (?h p))"
  have f: "fold (resolve_edge p) [0..<?n] ?h = cleared_upto p ?n ?h"
    using assms by (intro fold_resolve) simp_all
  have v: "cleared_upto p ?n ?h d = (if d = p then finished (h p) else released p (h d))" for d
  proof (cases "d = p")
    case False
    have "done_edge p ?n e = (fst e = Some p)" if "e \<in> set (u_dep_in (?h d))" for e
    proof (cases "fst e = Some p")
      case True
      obtain k where k: "k < length (u_dep_in (?h d))" "u_dep_in (?h d) ! k = e"
        using \<open>e \<in> set _\<close> by (metis in_set_conv_nth)
      have "u_dep_in (?h d) ! k = (Some p, snd e)" using True k(2) by (simp add: prod_eq_iff)
      with k(1) have "in_edge ?h d k p (snd e)" by (simp add: in_edge_def)
      moreover have "linked ?h" using assms by simp
      ultimately have "out_edge ?h p (snd e) d k" unfolding linked_def by blast
      then show ?thesis using True by (simp add: done_edge_def out_edge_def)
    qed (simp add: done_edge_def)
    then have "filter (done_edge p ?n) (u_dep_in (?h d)) = filter (\<lambda>e. fst e = Some p) (u_dep_in (?h d))"
      "map (\<lambda>e. if done_edge p ?n e then (None, snd e) else e) (u_dep_in (?h d))
       = map (\<lambda>e. if fst e = Some p then (None, snd e) else e) (u_dep_in (?h d))"
      by (auto intro: filter_cong)
    then have "resolved_upto p ?n (?h d) = released p (?h d)" by (simp only: resolved_upto_def released_def)
    then show ?thesis using False by (simp add: cleared_upto_def set_status_def)
  qed (simp add: cleared_upto_def set_status_def finished_def)
  have "fold (resolve_edge p) [0..<?n] ?h = (\<lambda>d. if d = p then finished (h p) else released p (h d))"
    unfolding f by (rule ext) (rule v)
  then show ?thesis unfolding uop_write_back_def Let_def by (simp add: finished_def)
qed

lemma free_regs_value:
  "free_regs p rs g r = (if g r = Some p \<and> r \<in> set rs then None else g r)"
proof (induction rs arbitrary: g)
  case (Cons r' rs)
  have "free_regs p (r' # rs) g = free_regs p rs (if g r' = Some p then g(r' := None) else g)"
    by (simp add: free_regs_def)
  then show ?case by (auto simp: Cons)
qed (simp add: free_regs_def)

text \<open>The four ways in which edges change, and that the two records stay in agreement.\<close>

lemma in_edge_map:
  assumes "u_dep_in (h' d) = map (\<lambda>e. if P (fst e) then (None, snd e) else e) (u_dep_in (h d))"
  shows "in_edge h' d k s j \<longleftrightarrow> in_edge h d k s j \<and> \<not> P (Some s)"
  using assms by (cases "u_dep_in (h d) ! k") (auto simp: in_edge_def split: if_splits)

lemma out_edge_map:
  assumes "u_dep_out (h' s) = map (\<lambda>e. if P (fst e) then (None, snd e) else e) (u_dep_out (h s))"
  shows "out_edge h' s j d k \<longleftrightarrow> out_edge h s j d k \<and> \<not> P (Some d)"
  using assms by (cases "u_dep_out (h s) ! j") (auto simp: out_edge_def split: if_splits)

lemma cut_producer:
  assumes "linked h"
    and "\<And>d. d \<noteq> p \<Longrightarrow> u_dep_in (h' d) = map (\<lambda>e. if fst e = Some p then (None, snd e) else e) (u_dep_in (h d))"
    and "u_dep_in (h' p) = u_dep_in (h p)"
    and "u_dep_out (h' p) = map (\<lambda>e. (None, snd e)) (u_dep_out (h p))"
    and "\<And>s. s \<noteq> p \<Longrightarrow> u_dep_out (h' s) = u_dep_out (h s)"
  shows "linked h'" and "in_edge h' d k s j \<longleftrightarrow> in_edge h d k s j \<and> s \<noteq> p"
proof -
  have i: "in_edge h' d k s j \<longleftrightarrow> in_edge h d k s j \<and> s \<noteq> p" for d k s j
  proof (cases "d = p")
    case True
    have "\<not> in_edge h p k p j" by (rule linked_irrefl[OF assms(1)])
    then show ?thesis using True assms(3) by (auto simp: in_edge_def)
  next
    case False
    then show ?thesis using in_edge_map[of h' d "\<lambda>x. x = Some p" h] assms(2) by auto
  qed
  have o: "out_edge h' s j d k \<longleftrightarrow> out_edge h s j d k \<and> s \<noteq> p" for d k s j
    using assms(4,5) by (cases "s = p") (auto simp: out_edge_def)
  show "linked h'"
    by (rule linkedI) (simp_all only: i o linked_sym[OF assms(1)], simp add: linked_irrefl[OF assms(1)] flip: linked_sym[OF assms(1)])
  show "in_edge h' d k s j \<longleftrightarrow> in_edge h d k s j \<and> s \<noteq> p" by (rule i)
qed

lemma cut_consumer:
  assumes "linked h"
    and "\<And>s. s \<noteq> q \<Longrightarrow> u_dep_out (h' s) = map (\<lambda>e. if fst e = Some q then (None, snd e) else e) (u_dep_out (h s))"
    and "u_dep_out (h' q) = u_dep_out (h q)"
    and "u_dep_in (h' q) = map (\<lambda>e. (None, snd e)) (u_dep_in (h q))"
    and "\<And>d. d \<noteq> q \<Longrightarrow> u_dep_in (h' d) = u_dep_in (h d)"
  shows "linked h'" and "in_edge h' d k s j \<longleftrightarrow> in_edge h d k s j \<and> d \<noteq> q"
proof -
  have i: "in_edge h' d k s j \<longleftrightarrow> in_edge h d k s j \<and> d \<noteq> q" for d k s j
    using assms(4,5) by (cases "d = q") (auto simp: in_edge_def)
  have o: "out_edge h' s j d k \<longleftrightarrow> out_edge h s j d k \<and> d \<noteq> q" for d k s j
  proof (cases "s = q")
    case True
    have "\<not> out_edge h q j q k" using linked_irrefl[OF assms(1)] by (simp flip: linked_sym[OF assms(1)])
    then show ?thesis using True assms(3) by (auto simp: out_edge_def)
  next
    case False
    then show ?thesis using out_edge_map[of h' s "\<lambda>x. x = Some q" h] assms(2) by auto
  qed
  show "linked h'"
    by (rule linkedI) (simp_all only: i o linked_sym[OF assms(1)], simp add: linked_irrefl[OF assms(1)] flip: linked_sym[OF assms(1)])
  show "in_edge h' d k s j \<longleftrightarrow> in_edge h d k s j \<and> d \<noteq> q" by (rule i)
qed

section \<open>What the flush of a consumer does\<close>

definition unhooked_upto :: "nat \<Rightarrow> nat \<Rightarrow> pool \<Rightarrow> pool" where
  "unhooked_upto q n h = (\<lambda>s. if s = q
     then (h q)\<lparr>u_dep_in := map (\<lambda>e. (None, snd e)) (take n (u_dep_in (h q))) @ drop n (u_dep_in (h q))\<rparr>
     else (h s)\<lparr>u_dep_out := map (\<lambda>e. if done_edge q n e then (None, snd e) else e) (u_dep_out (h s))\<rparr>)"

lemma done_map_none:
  assumes "\<And>j. j < length xs \<Longrightarrow> xs ! j \<noteq> (Some q, n)"
  shows "map (\<lambda>e. if done_edge q (Suc n) e then (None, snd e) else e) xs
       = map (\<lambda>e. if done_edge q n e then (None, snd e) else e) xs"
proof (rule map_cong[OF refl])
  fix e assume "e \<in> set xs"
  then obtain j where "j < length xs" "e = xs ! j" by (metis in_set_conv_nth)
  then have "\<not> (fst e = Some q \<and> snd e = n)" using assms[of j] by (metis prod.collapse)
  then have "done_edge q (Suc n) e = done_edge q n e" unfolding done_edge_Suc by blast
  then show "(if done_edge q (Suc n) e then (None, snd e) else e) = (if done_edge q n e then (None, snd e) else e)"
    by (simp only:)
qed

lemma done_map_step:
  assumes "j < length xs" "xs ! j = (Some q, n)"
    and "\<And>j'. j' < length xs \<Longrightarrow> xs ! j' = (Some q, n) \<Longrightarrow> j' = j"
  shows "map (\<lambda>e. if done_edge q (Suc n) e then (None, snd e) else e) xs
       = (map (\<lambda>e. if done_edge q n e then (None, snd e) else e) xs)[j := (None, n)]"
proof -
  let ?c = "\<lambda>e. if done_edge q n e then (None, snd e) else e"
  have "map (\<lambda>e. if fst e = Some q \<and> snd e = n then (None, snd e) else e) (map ?c xs)
      = (map ?c xs)[j := (None, snd (map ?c xs ! j))]"
  proof (rule map_unique_update)
    fix k' assume "k' < length (map ?c xs)" "fst (map ?c xs ! k') = Some q \<and> snd (map ?c xs ! k') = n"
    then have "k' < length xs" "xs ! k' = (Some q, n)" by (auto simp: prod_eq_iff split: if_splits)
    then show "k' = j" by (rule assms(3))
  qed (use assms(1,2) in \<open>auto simp: done_edge_def\<close>)
  moreover have "map (\<lambda>e. if fst e = Some q \<and> snd e = n then (None, snd e) else e) (map ?c xs)
      = map (\<lambda>e. if done_edge q (Suc n) e then (None, snd e) else e) xs"
    by (auto simp: done_edge_def)
  ultimately show ?thesis using assms(1,2) by (simp add: done_edge_def)
qed

lemma unhook_step:
  assumes l: "linked h" and n: "n < length (u_dep_in (h q))"
  shows "unhook_edge q n (unhooked_upto q n h) = unhooked_upto q (Suc n) h"
proof -
  let ?c = "unhooked_upto q n h"
  obtain x j where e: "u_dep_in (h q) ! n = (x, j)" by force
  have at: "u_dep_in (?c q) ! n = (x, j)" using n e by (simp add: unhooked_upto_def nth_append)
  have q': "unhooked_upto q (Suc n) h q = (?c q)\<lparr>u_dep_in := (u_dep_in (?c q))[n := (None, j)]\<rparr>"
    using n e by (simp add: unhooked_upto_def take_drop_clear)
  have none: "unhooked_upto q (Suc n) h s = ?c s" if "s \<noteq> q" "x \<noteq> Some s" for s
  proof -
    have "\<not> out_edge h s j' q n" for j'
    proof
      assume "out_edge h s j' q n"
      then have "in_edge h q n s j'" using l unfolding linked_def by blast
      then show False using that(2) e by (simp add: in_edge_def)
    qed
    then have "map (\<lambda>e. if done_edge q (Suc n) e then (None, snd e) else e) (u_dep_out (h s))
       = map (\<lambda>e. if done_edge q n e then (None, snd e) else e) (u_dep_out (h s))"
      by (intro done_map_none) (auto simp: out_edge_def)
    then show ?thesis using that(1) by (simp only: unhooked_upto_def if_False)
  qed
  show ?thesis
  proof (cases x)
    case None
    have "unhooked_upto q (Suc n) h q = ?c q" using q' at n None by (metis list_update_id u_dep_in_update_same)
    then have "unhooked_upto q (Suc n) h s = ?c s" for s using none[of s] None by (cases "s = q") simp_all
    then have "unhooked_upto q (Suc n) h = ?c" by (rule ext)
    then show ?thesis by (simp add: unhook_edge_def at None)
  next
    case (Some s)
    have i: "in_edge h q n s j" using e n Some by (simp add: in_edge_def)
    then have o: "out_edge h s j q n" and sq: "s \<noteq> q"
      using linked_sym[OF l] linked_irrefl[OF l] by blast+
    have uniq: "j' = j" if "j' < length (u_dep_out (h s))" "u_dep_out (h s) ! j' = (Some q, n)" for j'
    proof -
      have "out_edge h s j' q n" using that by (simp add: out_edge_def)
      then have "in_edge h q n s j'" by (simp add: linked_sym[OF l])
      then show ?thesis using in_edge_unique i by blast
    qed
    have s': "unhooked_upto q (Suc n) h s = (?c s)\<lparr>u_dep_out := (u_dep_out (?c s))[j := (None, n)]\<rparr>"
      using done_map_step[OF _ _ uniq] o sq by (simp add: unhooked_upto_def out_edge_def)
    have sn: "snd (u_dep_out (?c s) ! j) = n"
      using o sq by (simp add: unhooked_upto_def out_edge_def done_edge_def)
    show ?thesis
    proof (rule ext)
      fix r
      consider "r = q" | "r = s" | "r \<noteq> q" "r \<noteq> s" by blast
      then show "unhook_edge q n ?c r = unhooked_upto q (Suc n) h r"
        by cases (use sq q' s' sn none[of r] in \<open>simp_all add: unhook_edge_def at Some Let_def\<close>)
    qed
  qed
qed

lemma fold_unhook:
  "linked h \<Longrightarrow> n \<le> length (u_dep_in (h q)) \<Longrightarrow> fold (unhook_edge q) [0..<n] h = unhooked_upto q n h"
proof (induction n)
  case 0
  have "\<not> done_edge q 0 e" for e by (simp add: done_edge_def)
  then show ?case by (simp add: unhooked_upto_def fun_eq_iff)
next
  case (Suc n)
  then show ?case by (simp add: unhook_step)
qed

lemma unhook_value:
  assumes "linked h"
  shows "uop_unhook q h = (\<lambda>s. if s = q
    then (h q)\<lparr>u_dep_in := map (\<lambda>e. (None, snd e)) (u_dep_in (h q))\<rparr>
    else (h s)\<lparr>u_dep_out := map (\<lambda>e. if fst e = Some q then (None, snd e) else e) (u_dep_out (h s))\<rparr>)"
proof -
  let ?n = "length (u_dep_in (h q))"
  have "done_edge q ?n e = (fst e = Some q)" if "e \<in> set (u_dep_out (h s))" for s e
  proof (cases "fst e = Some q")
    case True
    obtain j where j: "j < length (u_dep_out (h s))" "u_dep_out (h s) ! j = e"
      using \<open>e \<in> set _\<close> by (metis in_set_conv_nth)
    have "u_dep_out (h s) ! j = (Some q, snd e)" using True j(2) by (simp add: prod_eq_iff)
    with j(1) have "out_edge h s j q (snd e)" by (simp add: out_edge_def)
    then have "in_edge h q (snd e) s j" using assms unfolding linked_def by blast
    then show ?thesis using True by (simp add: done_edge_def in_edge_def)
  qed (simp add: done_edge_def)
  then have "map (\<lambda>e. if done_edge q ?n e then (None, snd e) else e) (u_dep_out (h s))
      = map (\<lambda>e. if fst e = Some q then (None, snd e) else e) (u_dep_out (h s))" for s
    by (intro map_cong) simp_all
  then show ?thesis
    by (simp add: uop_unhook_def fold_unhook[OF assms] unhooked_upto_def fun_eq_iff)
qed

section \<open>Properties\<close>

lemma create_dep_edges:
  assumes "linked h" "dest \<noteq> src" "create_dep dest src h = Inr h'"
  shows "linked h'"
    and "in_edge h' d k s j \<longleftrightarrow> in_edge h d k s j
        \<or> d = dest \<and> s = src \<and> k = length (u_dep_in (h dest)) \<and> j = length (u_dep_out (h src))"
    and "u_dep_in (h' d) = u_dep_in (h d) @ (if d = dest then [(Some src, length (u_dep_out (h src)))] else [])"
    and "u_resolved (h' d) = u_resolved (h d)" "u_status (h' d) = u_status (h d)"
proof -
  have ins: "u_dep_in (h' d) = u_dep_in (h d) @ (if d = dest then [(Some src, length (u_dep_out (h src)))] else [])"
    and outs: "u_dep_out (h' d) = u_dep_out (h d) @ (if d = src then [(Some dest, length (u_dep_in (h dest)))] else [])"
    and rest: "u_resolved (h' d) = u_resolved (h d)" "u_status (h' d) = u_status (h d)" for d
    using assms(2,3) by (auto simp: create_dep_def Let_def split: if_splits)
  have i: "in_edge h' d k s j \<longleftrightarrow> in_edge h d k s j
        \<or> d = dest \<and> s = src \<and> k = length (u_dep_in (h dest)) \<and> j = length (u_dep_out (h src))" for d k s j
    by (auto simp: in_edge_def ins nth_append)
  have "out_edge h' s j d k \<longleftrightarrow> out_edge h s j d k
        \<or> d = dest \<and> s = src \<and> k = length (u_dep_in (h dest)) \<and> j = length (u_dep_out (h src))" for d k s j
    by (auto simp: out_edge_def outs nth_append)
  note o = this
  show "linked h'"
    using linked_irrefl[OF assms(1)] assms(2) by (intro linkedI) (simp only: i o linked_sym[OF assms(1)], simp add: i)
  show "in_edge h' d k s j \<longleftrightarrow> in_edge h d k s j
        \<or> d = dest \<and> s = src \<and> k = length (u_dep_in (h dest)) \<and> j = length (u_dep_out (h src))"
    "u_dep_in (h' d) = u_dep_in (h d) @ (if d = dest then [(Some src, length (u_dep_out (h src)))] else [])"
    "u_resolved (h' d) = u_resolved (h d)" "u_status (h' d) = u_status (h d)"
    by (rule i ins rest)+
qed


text \<open>C17: Write-back of an instruction releases exactly the instructions that wait for it: in each of them
  every dependency on it is cleared and counted as resolved, and the ones that then wait for nothing
  more become ready to issue; no other status changes. The registers that still name it as their
  producer are set free, and the graph keeps its two records in agreement.\<close>

theorem write_back_releases:
  assumes "linked h" "counted (h d)" "d \<noteq> p"
  shows "case uop_write_back p h g of (h', g') \<Rightarrow>
      linked h' \<and> u_status (h' p) = Ready \<and> counted (h' d) \<and> waits_for h' d p = 0
      \<and> (\<forall>q. q \<noteq> p \<longrightarrow> waits_for h' d q = waits_for h d q)
      \<and> open_deps (h' d) + waits_for h d p = open_deps (h d)
      \<and> u_status (h' d) = (if 0 < waits_for h d p \<and> open_deps (h' d) = 0 then Dep_Ready else u_status (h d))
      \<and> (\<forall>r. g' r = (if g r = Some p \<and> r \<in> set (u_out_regs (h p)) then None else g r))"
proof -
  define h' where "h' = (\<lambda>d. if d = p then finished (h p) else released p (h d))"
  have l: "linked h'"
    by (rule cut_producer(1)[OF assms(1), of p]) (simp_all add: h'_def finished_def released_def Let_def)
  have d: "h' d = released p (h d)" using assms(3) by (simp add: h'_def)
  have op: "open_deps (h' d) + waits_for h d p = open_deps (h d)"
    using filter_length_map_clear[of p "u_dep_in (h d)"]
    by (simp add: d released_def Let_def open_deps_def waits_for_def)
  have w0: "waits_for h' d q = (if q = p then 0 else waits_for h d q)" for q
  proof -
    have "length (filter (\<lambda>e. fst e = Some q) (map (\<lambda>e. if fst e = Some p then (None, snd e) else e) xs))
        = (if q = p then 0 else length (filter (\<lambda>e. fst e = Some q) xs))" for xs :: "(nat option \<times> nat) list"
      by (induction xs) (auto simp: filter_empty_conv)
    then show ?thesis by (simp add: d waits_for_def released_def Let_def)
  qed
  have c: "counted (h' d)" using assms(2) op
    by (simp add: counted_def d released_def Let_def waits_for_def)
  have "u_status (h' d) = (if 0 < waits_for h d p \<and> length (u_dep_in (h d)) \<le> u_resolved (h d) + waits_for h d p
      then Dep_Ready else u_status (h d))"
    by (simp add: d released_def Let_def waits_for_def)
  moreover have "length (u_dep_in (h d)) \<le> u_resolved (h d) + waits_for h d p \<longleftrightarrow> open_deps (h' d) = 0"
    using assms(2) op unfolding counted_def by linarith
  ultimately have "u_status (h' d) = (if 0 < waits_for h d p \<and> open_deps (h' d) = 0 then Dep_Ready else u_status (h d))"
    by simp
  with l c op w0 show ?thesis
    by (simp add: write_back_value[OF assms(1)] h'_def[symmetric] free_regs_value) (simp add: h'_def finished_def)
qed

text \<open>C18: The flush of an instruction on write-back takes it out of the graph: no producer refers to it any
  more, so that its object can be used again, and every other instruction waits for what it waited for.\<close>

theorem unhook_forgets:
  assumes "linked h"
  shows "linked (uop_unhook q h) \<and> (\<forall>s j k. \<not> out_edge (uop_unhook q h) s j q k)
      \<and> (\<forall>d. d \<noteq> q \<longrightarrow> u_dep_in (uop_unhook q h d) = u_dep_in (h d) \<and> u_resolved (uop_unhook q h d) = u_resolved (h d))"
proof -
  note v = unhook_value[OF assms, of q]
  have l: "linked (uop_unhook q h)" and i: "in_edge (uop_unhook q h) d k s j \<longleftrightarrow> in_edge h d k s j \<and> d \<noteq> q" for d k s j
    using cut_consumer[OF assms, of q "uop_unhook q h"] by (simp_all add: v)
  then have "\<not> out_edge (uop_unhook q h) s j q k" for s j k unfolding linked_def by blast
  then show ?thesis using l by (simp add: v)
qed

section \<open>Concrete instances\<close>

definition blank_uop :: uop where
  "blank_uop = \<lparr>u_cpu = 0, u_id = 0, u_dep_in = [], u_resolved = 0, u_dep_out = [], u_dep_out_max = 40,
     u_out_regs = [], u_type = 0, u_status = Decoding, u_cycles = 0, u_is_branch = False, u_branch_taken = False,
     u_foresight = True, u_branch_target = 0, u_branch_type = 0, u_exception = False, u_exception_code = 0,
     u_is_trap = False, u_trap_code = 0, u_vaddr = 0, u_length = 0, u_mem_result = 0, u_mem_addr = 0,
     u_mem_length = 0, u_is_halt = False, u_must_flush = False, u_queue = None, u_queue_el = None,
     u_rb_el = None, u_pipeline = Valid, u_microcode = First, u_first = 0, u_last = 0\<rparr>"

definition demo_pool :: pool where
  "demo_pool = (\<lambda>_. blank_uop)"

text \<open>Instruction 1 waits for instruction 0.\<close>

definition demo_dep :: pool where
  "demo_dep = demo_pool(1 := blank_uop\<lparr>u_dep_in := [(Some 0, 0)]\<rparr>, 0 := blank_uop\<lparr>u_dep_out := [(Some 1, 0)], u_out_regs := [(0, 0, 3)]\<rparr>)"

lemma demo_pool_linked: "linked demo_pool"
  by (simp add: linked_def in_edge_def out_edge_def demo_pool_def blank_uop_def)

lemma demo_dep_linked: "linked demo_dep"
proof (rule linkedI)
  fix d k s j
  have "in_edge demo_dep d k s j \<longleftrightarrow> d = 1 \<and> k = 0 \<and> s = 0 \<and> j = 0"
    by (auto simp: in_edge_def demo_dep_def demo_pool_def blank_uop_def)
  moreover have "out_edge demo_dep s j d k \<longleftrightarrow> d = 1 \<and> k = 0 \<and> s = 0 \<and> j = 0"
    by (auto simp: out_edge_def demo_dep_def demo_pool_def blank_uop_def)
  ultimately show "in_edge demo_dep d k s j = out_edge demo_dep s j d k" by simp
next
  fix d k j
  show "\<not> in_edge demo_dep d k d j"
    by (auto simp: in_edge_def demo_dep_def demo_pool_def blank_uop_def)
qed


lemma write_back_releases_witness:
  "case uop_write_back 0 demo_dep [(0, 0, 3) \<mapsto> 0] of (h', g') \<Rightarrow>
     u_status (h' 0) = Ready \<and> u_status (h' 1) = Dep_Ready \<and> g' (0, 0, 3) = None"
proof -
  have "counted (demo_dep 1)" "waits_for demo_dep 1 0 = 1" "open_deps (demo_dep 1) = 1"
    "u_out_regs (demo_dep 0) = [(0, 0, 3)]"
    by (simp_all add: counted_def open_deps_def waits_for_def demo_dep_def blank_uop_def)
  then show ?thesis
    using write_back_releases[OF demo_dep_linked, of 1 0 "[(0, 0, 3) \<mapsto> 0]"] by (auto split: prod.splits)
qed

lemma unhook_forgets_witness: "\<forall>s j k. \<not> out_edge (uop_unhook 1 demo_dep) s j 1 k"
  using unhook_forgets[OF demo_dep_linked, of 1] by blast

end
