(* ===== verification/Func_Units.thy ===== *)
theory Func_Units
  imports Instruction "HOL-Library.Multiset"
begin

text \<open>
  The functional units, \<open>functional_units_t\<close> in \<open>src/src/cpu/func_units.cpp\<close>: their construction from
  the configured numbers with the quick-access table per instruction type, the issue of an instruction
  to an idle unit, one cycle of execution, and the two flushes. The numbers of the configuration are
  arguments; the occupancy statistics are left out.
\<close>

unbundle bit_operations_syntax

section \<open>State and construction\<close>

record func_unit =
  fu_inst :: "nat option"
  fu_type :: u32
  fu_cycles :: u32

record func_units =
  fs_units :: "func_unit list"
  fs_access :: "nat list list"
  fs_n_ls :: nat

definition type_mask :: "nat \<Rightarrow> u32" where
  "type_mask t = push_bit t 1"

definition unit_of :: "u32 \<Rightarrow> func_unit" where
  "unit_of m = \<lparr>fu_inst = None, fu_type = m, fu_cycles = 0\<rparr>"

record unit_counts =
  n_int_gen :: nat
  n_int_alu :: nat
  n_int_mul :: nat
  n_int_div :: nat
  n_branch :: nat
  n_transfer :: nat
  n_loadstore :: nat

definition all_units :: "unit_counts \<Rightarrow> func_unit list" where
  "all_units c =
     replicate (n_int_alu c) (unit_of (type_mask T_INT_ARITH OR type_mask T_INT_LOGIC))
     @ replicate (n_int_mul c) (unit_of (type_mask T_INT_MUL))
     @ replicate (n_int_div c) (unit_of (type_mask T_INT_DIV))
     @ replicate (n_int_gen c) (unit_of (type_mask T_INT_ARITH OR type_mask T_INT_LOGIC
                                         OR type_mask T_INT_MUL OR type_mask T_INT_DIV))
     @ replicate (n_branch c) (unit_of (type_mask T_BRANCH))
     @ replicate (n_transfer c) (unit_of (type_mask T_MOV))
     @ replicate (n_loadstore c) (unit_of (type_mask T_LOAD OR type_mask T_STORE))
     @ [unit_of (type_mask T_IO_IN OR type_mask T_IO_OUT)]"

text \<open>The units of each of the 32 types, in order.\<close>

definition can_run :: "nat \<Rightarrow> func_unit \<Rightarrow> bool" where
  "can_run t u \<longleftrightarrow> fu_type u AND type_mask t \<noteq> 0"

definition access_table :: "func_unit list \<Rightarrow> nat list list" where
  "access_table us = map (\<lambda>t. filter (\<lambda>j. can_run t (us ! j)) [0..<length us]) [0..<32]"

definition func_units_new :: "unit_counts \<Rightarrow> func_units" where
  "func_units_new c = \<lparr>fs_units = all_units c, fs_access = access_table (all_units c), fs_n_ls = n_loadstore c\<rparr>"

section \<open>Operations\<close>

fun issue_to :: "nat \<Rightarrow> nat list \<Rightarrow> func_unit list \<Rightarrow> func_unit list \<times> bool" where
  "issue_to p [] us = (us, False)"
| "issue_to p (j # js) us =
     (if fu_inst (us ! j) = None
      then (us[j := (us ! j)\<lparr>fu_inst := Some p, fu_cycles := 0\<rparr>], True)
      else issue_to p js us)"

definition issue :: "pool \<Rightarrow> nat \<Rightarrow> func_units \<Rightarrow> (func_units \<times> bool) res" where
  "issue h p f =
     (if u_type (h p) < length (fs_access f) then
        case issue_to p (fs_access f ! u_type (h p)) (fs_units f) of (us, ok) \<Rightarrow> Inr (f\<lparr>fs_units := us\<rparr>, ok)
      else Inl Out_Of_Bounds)"

text \<open>
  One cycle of a unit. The comparison reads the count before it is incremented, so an instruction
  spends one cycle more than its latency in the unit: the write-back stage.
\<close>

definition exec_unit :: "pool \<Rightarrow> func_unit \<Rightarrow> func_unit \<times> nat list" where
  "exec_unit h u = (case fu_inst u of
     None \<Rightarrow> (u, [])
   | Some p \<Rightarrow>
       if fu_cycles u \<ge> u_cycles (h p)
       then (u\<lparr>fu_cycles := fu_cycles u + 1, fu_inst := None\<rparr>, [p])
       else (u\<lparr>fu_cycles := fu_cycles u + 1\<rparr>, []))"

definition exec :: "pool \<Rightarrow> func_units \<Rightarrow> func_units \<times> nat list" where
  "exec h f = (f\<lparr>fs_units := map (fst \<circ> exec_unit h) (fs_units f)\<rparr>, concat (map (snd \<circ> exec_unit h) (fs_units f)))"

text \<open>The response for one of the processors that share the units: its finished instructions.\<close>

definition response :: "pool \<Rightarrow> nat list \<Rightarrow> nat \<Rightarrow> nat list" where
  "response h done vid = filter (\<lambda>p. u_cpu (h p) = vid) done"

definition drop_from_units :: "(nat \<Rightarrow> bool) \<Rightarrow> func_units \<Rightarrow> func_units" where
  "drop_from_units P f = f\<lparr>fs_units := map (\<lambda>u. case fu_inst u of
      None \<Rightarrow> u | Some p \<Rightarrow> if P p then u\<lparr>fu_inst := None\<rparr> else u) (fs_units f)\<rparr>"

definition fu_flush :: "pool \<Rightarrow> nat \<Rightarrow> func_units \<Rightarrow> func_units" where
  "fu_flush h c = drop_from_units (\<lambda>p. u_cpu (h p) = c)"

definition fu_flush_on_wb :: "pool \<Rightarrow> nat \<Rightarrow> func_units \<Rightarrow> func_units" where
  "fu_flush_on_wb h s = drop_from_units (\<lambda>p. u_cpu (h p) = u_cpu (h s) \<and> u_id (h p) > u_id (h s))"

definition running :: "func_units \<Rightarrow> nat list" where
  "running f = concat (map (\<lambda>u. case fu_inst u of None \<Rightarrow> [] | Some p \<Rightarrow> [p]) (fs_units f))"

section \<open>Issue\<close>

text \<open>
  The reference: the scan over all units that the quick-access table replaces (the code keeps it as a
  comment in \<open>issue\<close>).
\<close>

definition first_idle :: "nat \<Rightarrow> func_unit list \<Rightarrow> nat option" where
  "first_idle t us = List.find (\<lambda>j. fu_inst (us ! j) = None \<and> can_run t (us ! j)) [0..<length us]"

lemma issue_to_find:
  "issue_to p js us = (case List.find (\<lambda>j. fu_inst (us ! j) = None) js of
     None \<Rightarrow> (us, False) | Some j \<Rightarrow> (us[j := (us ! j)\<lparr>fu_inst := Some p, fu_cycles := 0\<rparr>], True))"
  by (induction js) auto

lemma find_filter: "List.find P (filter Q xs) = List.find (\<lambda>x. P x \<and> Q x) xs"
  by (induction xs) auto

text \<open>The state of the units keeps their types, so the table stays right.\<close>

definition fu_inv :: "func_units \<Rightarrow> bool" where
  "fu_inv f \<longleftrightarrow> fs_access f = access_table (fs_units f)"

lemma access_table_cong:
  assumes "length us' = length us" "\<And>j. j < length us \<Longrightarrow> fu_type (us' ! j) = fu_type (us ! j)"
  shows "access_table us' = access_table us"
  unfolding access_table_def using assms by (auto simp: can_run_def intro!: filter_cong)

lemma fu_type_update:
  "fu_type (us[i := (us ! i)\<lparr>fu_inst := x, fu_cycles := y\<rparr>] ! j) = fu_type (us ! j)"
  by (cases "i = j"; cases "i < length us") (simp_all add: list_update_beyond)

lemma fu_inv_ops:
  "fu_inv (func_units_new c)"
  "fu_inv f \<Longrightarrow> fu_inv (fst (exec h f))"
  "fu_inv f \<Longrightarrow> fu_inv (drop_from_units P f)"
  "fu_inv f \<Longrightarrow> issue h p f = Inr (f', ok) \<Longrightarrow> fu_inv f'"
proof -
  show "fu_inv (func_units_new c)" by (simp add: fu_inv_def func_units_new_def)
  show "fu_inv f \<Longrightarrow> fu_inv (fst (exec h f))"
    unfolding fu_inv_def exec_def
    by (simp, rule sym, rule access_table_cong) (auto simp: exec_unit_def split: option.split)
  show "fu_inv f \<Longrightarrow> fu_inv (drop_from_units P f)"
    unfolding fu_inv_def drop_from_units_def
    by (simp, rule sym, rule access_table_cong) (auto split: option.split)
  show "fu_inv f \<Longrightarrow> issue h p f = Inr (f', ok) \<Longrightarrow> fu_inv f'"
    unfolding fu_inv_def issue_def issue_to_find
    by (auto split: if_splits option.splits intro!: access_table_cong[symmetric] simp: fu_type_update)
qed

lemma issue_value:
  assumes "fu_inv f" "u_type (h p) < 32"
  shows "issue h p f = Inr (case first_idle (u_type (h p)) (fs_units f) of
     None \<Rightarrow> (f, False)
   | Some j \<Rightarrow> (f\<lparr>fs_units := (fs_units f)[j := (fs_units f ! j)\<lparr>fu_inst := Some p, fu_cycles := 0\<rparr>]\<rparr>, True))"
proof -
  have "length (fs_access f) = 32" using assms(1) by (simp add: fu_inv_def access_table_def)
  moreover have "fs_access f ! u_type (h p)
      = filter (\<lambda>j. can_run (u_type (h p)) (fs_units f ! j)) [0..<length (fs_units f)]"
    using assms by (simp add: fu_inv_def access_table_def)
  ultimately show ?thesis
    using assms(2) by (simp add: issue_def issue_to_find find_filter first_idle_def split: option.split)
qed

text \<open>C36: Issuing through the quick-access table does what the scan over all units would: the instruction goes
  to the first idle unit that can run its type, that unit starts counting from zero, no other unit
  changes, and issue fails exactly when every such unit is busy.\<close>

theorem issue_is_first_idle:
  assumes "fu_inv f" "u_type (h p) < 32"
  shows "issue h p f = Inr (case first_idle (u_type (h p)) (fs_units f) of
     None \<Rightarrow> (f, False)
   | Some j \<Rightarrow> (f\<lparr>fs_units := (fs_units f)[j := (fs_units f ! j)\<lparr>fu_inst := Some p, fu_cycles := 0\<rparr>]\<rparr>, True))"
  using assms by (rule issue_value)

section \<open>Execution\<close>

lemma first_idle_Some:
  assumes "first_idle t us = Some j"
  shows "j < length us" "fu_inst (us ! j) = None" "can_run t (us ! j)"
  using assms by (auto simp: first_idle_def find_Some_iff)

definition exec_run :: "nat \<Rightarrow> pool \<Rightarrow> func_units \<Rightarrow> func_units" where
  "exec_run n h f = ((fst \<circ> exec h) ^^ n) f"

lemma exec_run_Suc: "exec_run (Suc n) h f = fst (exec h (exec_run n h f))"
  by (simp add: exec_run_def)

lemma exec_run_length [simp]: "length (fs_units (exec_run n h f)) = length (fs_units f)"
  by (induction n) (simp_all add: exec_run_def exec_def)

lemma exec_unit_at: "j < length (fs_units f) \<Longrightarrow> fs_units (fst (exec h f)) ! j = fst (exec_unit h (fs_units f ! j))"
  by (simp add: exec_def)

lemma unit_counts_up:
  assumes "j < length (fs_units f)" "fu_inst (fs_units f ! j) = Some p" "fu_cycles (fs_units f ! j) = 0"
    "k \<le> unat (u_cycles (h p))"
  shows "fu_inst (fs_units (exec_run k h f) ! j) = Some p
       \<and> unat (fu_cycles (fs_units (exec_run k h f) ! j)) = k"
  using assms(4)
proof (induction k)
  case 0
  then show ?case using assms(2,3) by (simp add: exec_run_def)
next
  case (Suc k)
  let ?u = "fs_units (exec_run k h f) ! j"
  have u: "fu_inst ?u = Some p" "unat (fu_cycles ?u) = k" using Suc by simp_all
  have "unat (u_cycles (h p)) < 2 ^ LENGTH(32)" by (rule unsigned_less)
  then have "unat (fu_cycles ?u + 1) = Suc k" using Suc.prems u(2) by (simp add: unat_plus_1)
  moreover have "\<not> fu_cycles ?u \<ge> u_cycles (h p)" using Suc.prems u(2) by (simp add: word_le_nat_alt)
  ultimately show ?case using u assms(1) by (simp add: exec_run_Suc exec_unit_at exec_unit_def)
qed

lemma exec_done_cons:
  "mset (concat (map (\<lambda>u. case fu_inst u of None \<Rightarrow> [] | Some p \<Rightarrow> [p]) (map (fst \<circ> exec_unit h) us)))
     + mset (concat (map (snd \<circ> exec_unit h) us))
   = mset (concat (map (\<lambda>u. case fu_inst u of None \<Rightarrow> [] | Some p \<Rightarrow> [p]) us))"
  by (induction us) (auto simp: exec_unit_def split: option.split)

lemma exec_conserves: "mset (running (fst (exec h f))) + mset (snd (exec h f)) = mset (running f)"
  using exec_done_cons[of h "fs_units f"] by (simp add: running_def exec_def)

lemma running_drop: "running (drop_from_units P f) = filter (\<lambda>p. \<not> P p) (running f)"
proof -
  have "concat (map (\<lambda>u. case fu_inst u of None \<Rightarrow> [] | Some p \<Rightarrow> [p]) (map (\<lambda>u. case fu_inst u of
      None \<Rightarrow> u | Some p \<Rightarrow> if P p then u\<lparr>fu_inst := None\<rparr> else u) us))
    = filter (\<lambda>p. \<not> P p) (concat (map (\<lambda>u. case fu_inst u of None \<Rightarrow> [] | Some p \<Rightarrow> [p]) us))" for us
    by (induction us) (auto split: option.split)
  then show ?thesis by (simp add: running_def drop_from_units_def)
qed

lemma running_at: "j < length (fs_units f) \<Longrightarrow> fu_inst (fs_units f ! j) = Some p \<Longrightarrow> p \<in> set (running f)"
  by (auto simp: running_def in_set_conv_nth intro!: bexI[of _ "fs_units f ! j"] split: option.split)

lemma exec_done_at:
  "j < length (fs_units f) \<Longrightarrow> fu_inst (fs_units f ! j) = Some p \<Longrightarrow> fu_cycles (fs_units f ! j) \<ge> u_cycles (h p)
   \<Longrightarrow> p \<in> set (snd (exec h f))"
  by (auto simp: exec_def exec_unit_def intro!: bexI[of _ "fs_units f ! j"])

lemma exec_distinct:
  assumes "distinct (running f)"
  shows "distinct (running (fst (exec h f)))" "set (running (fst (exec h f))) \<inter> set (snd (exec h f)) = {}"
proof -
  have "mset (running (fst (exec h f)) @ snd (exec h f)) = mset (running f)"
    using exec_conserves[of h f] by simp
  then have "distinct (running (fst (exec h f)) @ snd (exec h f))"
    using assms mset_eq_imp_distinct_iff by metis
  then show "distinct (running (fst (exec h f)))" "set (running (fst (exec h f))) \<inter> set (snd (exec h f)) = {}"
    by simp_all
qed

lemma exec_run_distinct: "distinct (running f) \<Longrightarrow> distinct (running (exec_run n h f))"
  by (induction n) (simp_all add: exec_run_Suc exec_distinct(1), simp add: exec_run_def)

text \<open>An instruction of latency \<open>c\<close> that has just been issued to a unit stays in it for \<open>c\<close> cycles without
  being reported, is reported as finished in the next one, and leaves the unit idle then: \<open>c + 1\<close>
  cycles in all, the last one standing for the write-back stage.\<close>

lemma unit_latency:
  assumes "distinct (running f)" "j < length (fs_units f)" "fu_inst (fs_units f ! j) = Some p"
    "fu_cycles (fs_units f ! j) = 0"
  shows "(\<forall>k < unat (u_cycles (h p)). p \<notin> set (snd (exec h (exec_run k h f))))
       \<and> p \<in> set (snd (exec h (exec_run (unat (u_cycles (h p))) h f)))
       \<and> fu_inst (fs_units (exec_run (unat (u_cycles (h p)) + 1) h f) ! j) = None"
proof -
  let ?c = "unat (u_cycles (h p))"
  note up = unit_counts_up[where h = h, OF assms(2-4)]
  have "p \<notin> set (snd (exec h (exec_run k h f)))" if "k < ?c" for k
  proof -
    have "fu_inst (fs_units (exec_run (Suc k) h f) ! j) = Some p" using up[of "Suc k"] that by simp
    then have "p \<in> set (running (fst (exec h (exec_run k h f))))"
      using running_at[of j "exec_run (Suc k) h f"] assms(2) by (simp add: exec_run_Suc exec_def)
    then show ?thesis using exec_distinct(2)[OF exec_run_distinct[OF assms(1)]] by blast
  qed
  moreover have at: "fu_inst (fs_units (exec_run ?c h f) ! j) = Some p"
    "fu_cycles (fs_units (exec_run ?c h f) ! j) \<ge> u_cycles (h p)"
    using up[of ?c] by (simp_all add: word_le_nat_alt)
  moreover have "p \<in> set (snd (exec h (exec_run ?c h f)))"
    using at assms(2) by (intro exec_done_at) simp_all
  moreover have "fu_inst (fs_units (exec_run (?c + 1) h f) ! j) = None"
    using at assms(2) by (simp add: exec_run_Suc exec_unit_at exec_unit_def)
  ultimately show ?thesis by blast
qed

text \<open>No instruction is lost or duplicated by the units: a cycle of execution splits the instructions in
  the units into those still there and those reported, a flush removes exactly those of its processor,
  and a flush on write-back exactly the younger ones of its processor.\<close>

lemma units_conserve:
  "mset (running (fst (exec h f))) + mset (snd (exec h f)) = mset (running f)
   \<and> running (fu_flush h c f) = filter (\<lambda>p. u_cpu (h p) \<noteq> c) (running f)
   \<and> running (fu_flush_on_wb h s f)
       = filter (\<lambda>p. \<not> (u_cpu (h p) = u_cpu (h s) \<and> u_id (h s) < u_id (h p))) (running f)"
  by (simp add: exec_conserves fu_flush_def fu_flush_on_wb_def running_drop)

section \<open>Concrete instances\<close>

text \<open>One adder of each kind; the instruction is an addition of latency 2.\<close>

definition demo_units :: func_units where
  "demo_units = func_units_new \<lparr>n_int_gen = 1, n_int_alu = 1, n_int_mul = 0, n_int_div = 0, n_branch = 1,
     n_transfer = 1, n_loadstore = 1\<rparr>"

definition demo_add :: pool where
  "demo_add = (\<lambda>_. blank_uop\<lparr>u_type := T_INT_ARITH, u_cycles := 2\<rparr>)"

definition demo_busy :: func_units where
  "demo_busy = demo_units\<lparr>fs_units := (fs_units demo_units)[0 := (fs_units demo_units ! 0)\<lparr>fu_inst := Some 5, fu_cycles := 0\<rparr>]\<rparr>"

lemmas unit_masks = type_mask_def type_numbers can_run_def unit_of_def

lemma demo_first_idle: "first_idle T_INT_ARITH (fs_units demo_units) = Some 0"
  by (simp add: first_idle_def demo_units_def func_units_new_def all_units_def unit_masks upt_rec)

lemma issue_is_first_idle_witness: "issue demo_add 5 demo_units = Inr (demo_busy, True)"
  using issue_is_first_idle[of demo_units demo_add 5] demo_first_idle
  by (simp add: demo_units_def fu_inv_ops demo_add_def T_INT_ARITH_def demo_busy_def)

lemma unit_latency_witness:
  "5 \<notin> set (snd (exec demo_add (exec_run 1 demo_add demo_busy)))
   \<and> 5 \<in> set (snd (exec demo_add (exec_run 2 demo_add demo_busy)))"
proof -
  have "distinct (running demo_busy)" "0 < length (fs_units demo_busy)" "fu_inst (fs_units demo_busy ! 0) = Some 5"
    "fu_cycles (fs_units demo_busy ! 0) = 0"
    by (simp_all add: running_def demo_busy_def demo_units_def func_units_new_def all_units_def unit_of_def)
  from unit_latency[OF this, of demo_add] show ?thesis by (simp add: demo_add_def)
qed

end
