(* ===== verification/Rs_Policy.thy ===== *)
theory Rs_Policy
  imports Func_Units
begin

text \<open>
  The reservation stations, \<open>src/src/cpu/rs_policy.cpp\<close>: the queue of arithmetic instructions
  (\<open>rs_policy_just_one_t\<close>), the queue of port instructions (\<open>rs_policy_io_queue_t\<close>) and the load/store
  queue (\<open>rs_policy_ls_queue_simple_t\<close>). The three share their list and differ in \<open>supply\<close>, which offers
  the waiting instructions to the functional units. The flag of the last two, one per processor, is
  \<open>must_issue\<close> or \<open>write_ready\<close>. The virtual calls of the class hierarchy are a case distinction on the
  kind of the queue. The occupancy statistics are left out.
\<close>

section \<open>State\<close>

record rs_queue =
  rq_kind :: queue_id
  rq_list :: "nat dlist"
  rq_flag :: "nat \<Rightarrow> bool"

definition queue_new :: "queue_id \<Rightarrow> nat dl_el list \<Rightarrow> nat \<Rightarrow> rs_queue res" where
  "queue_new kind junk n = rbind (set_list_size junk n) (\<lambda>l. Inr \<lparr>rq_kind = kind, rq_list = l, rq_flag = (\<lambda>_. False)\<rparr>)"

section \<open>Operations\<close>

definition queue_add :: "nat \<Rightarrow> pool \<Rightarrow> rs_queue \<Rightarrow> pool \<times> rs_queue \<times> bool" where
  "queue_add p h q =
     (if get_empty (rq_list q) > 0 then
        let h1 = set_status (if all_resolved (h p) then Dep_Ready else Wait_Dep) p h
        in case add_end p (rq_list q) of (l, el) \<Rightarrow>
             (h1(p := (h1 p)\<lparr>u_queue_el := el\<rparr>), q\<lparr>rq_list := l\<rparr>, el \<noteq> None)
      else (h, q, False))"

definition queue_del :: "nat \<Rightarrow> pool \<Rightarrow> rs_queue \<Rightarrow> rs_queue res" where
  "queue_del p h q = (case u_queue_el (h p) of
     None \<Rightarrow> Inl Null_Deref | Some e \<Rightarrow> Inr (q\<lparr>rq_list := del e (rq_list q)\<rparr>))"

text \<open>The body of the loop in each \<open>supply\<close>: issue the instruction \<open>p\<close> if the policy lets it.\<close>

definition try_issue :: "nat \<Rightarrow> pool \<times> func_units \<Rightarrow> ((pool \<times> func_units) \<times> bool) res" where
  "try_issue p = (\<lambda>(h, f). rbind (issue h p f) (\<lambda>(f', ok).
     Inr ((if ok then set_status Executing p h else h, f'), ok)))"

definition plain_body :: "nat \<Rightarrow> nat \<Rightarrow> pool \<times> func_units \<Rightarrow> ((pool \<times> func_units) \<times> act) res" where
  "plain_body el p s =
     (if u_status (fst s p) = Dep_Ready then rbind (try_issue p s) (\<lambda>(s', ok). Inr (s', Keep)) else Inr (s, Keep))"

definition io_body ::
  "nat \<Rightarrow> nat \<Rightarrow> (nat \<Rightarrow> bool) \<times> pool \<times> func_units \<Rightarrow> (((nat \<Rightarrow> bool) \<times> pool \<times> func_units) \<times> act) res" where
  "io_body el p = (\<lambda>(fl, s).
     let vid = u_cpu (fst s p)
     in if fl vid then rbind (try_issue p s) (\<lambda>(s', ok). Inr ((if ok then fl(vid := False) else fl, s'), Stop))
        else Inr ((fl, s), Keep))"

definition ls_body ::
  "nat \<Rightarrow> nat \<Rightarrow> (nat \<Rightarrow> bool) \<times> pool \<times> func_units \<Rightarrow> (((nat \<Rightarrow> bool) \<times> pool \<times> func_units) \<times> act) res" where
  "ls_body el p = (\<lambda>(fl, s).
     let vid = u_cpu (fst s p)
     in if u_type (fst s p) = T_STORE \<and> \<not> fl vid then Inr ((fl, s), Keep)
        else if u_status (fst s p) = Dep_Ready then
          rbind (try_issue p s) (\<lambda>(s', ok). if ok then Inr ((fl(vid := False), s'), Keep) else Inr ((fl, s'), Stop))
        else Inr ((fl, s), Keep))"

definition rs_supply :: "pool \<Rightarrow> func_units \<Rightarrow> rs_queue \<Rightarrow> (pool \<times> func_units \<times> rs_queue) res" where
  "rs_supply h f q = (case rq_kind q of
     Rs_Queue \<Rightarrow> rbind (dl_loop plain_body (rq_list q) (h, f)) (\<lambda>(l, (h', f')). Inr (h', f', q\<lparr>rq_list := l\<rparr>))
   | Io_Queue \<Rightarrow> rbind (dl_loop io_body (rq_list q) (rq_flag q, h, f)) (\<lambda>(l, (fl, h', f')).
        Inr (h', f', q\<lparr>rq_list := l, rq_flag := fl\<rparr>))
   | Ls_Queue \<Rightarrow> rbind (dl_loop ls_body (rq_list q) (rq_flag q, h, f)) (\<lambda>(l, (fl, h', f')).
        Inr (h', f', q\<lparr>rq_list := l, rq_flag := fl\<rparr>)))"

definition queue_arrived :: "nat \<Rightarrow> pool \<Rightarrow> rs_queue \<Rightarrow> rs_queue" where
  "queue_arrived p h q = (case rq_kind q of
     Rs_Queue \<Rightarrow> q
   | Io_Queue \<Rightarrow> q\<lparr>rq_flag := (rq_flag q)(u_cpu (h p) := True)\<rparr>
   | Ls_Queue \<Rightarrow> if u_type (h p) = T_STORE then q\<lparr>rq_flag := (rq_flag q)(u_cpu (h p) := True)\<rparr> else q)"

text \<open>The loop of both flushes: read the successor, then delete the element if it is concerned.\<close>

definition drop_body :: "('a \<Rightarrow> bool) \<Rightarrow> nat \<Rightarrow> 'a \<Rightarrow> unit \<Rightarrow> (unit \<times> act) res" where
  "drop_body P el x u = Inr (u, if P x then Remove else Keep)"

definition queue_drop :: "(nat \<Rightarrow> bool) \<Rightarrow> rs_queue \<Rightarrow> rs_queue res" where
  "queue_drop P q = rbind (dl_loop_before (drop_body P) (rq_list q) ()) (\<lambda>(l, u). Inr (q\<lparr>rq_list := l\<rparr>))"

definition queue_flush :: "pool \<Rightarrow> nat \<Rightarrow> rs_queue \<Rightarrow> rs_queue res" where
  "queue_flush h c q = queue_drop (\<lambda>p. u_cpu (h p) = c)
     (if rq_kind q = Rs_Queue then q else q\<lparr>rq_flag := (rq_flag q)(c := False)\<rparr>)"

definition queue_flush_on_wb :: "pool \<Rightarrow> nat \<Rightarrow> rs_queue \<Rightarrow> rs_queue res" where
  "queue_flush_on_wb h s = queue_drop (\<lambda>p. u_cpu (h p) = u_cpu (h s) \<and> u_id (h p) > u_id (h s))"

lemma set_status_frame [simp]:
  "u_cpu (set_status st p h q) = u_cpu (h q)" "u_type (set_status st p h q) = u_type (h q)"
  "u_id (set_status st p h q) = u_id (h q)" "u_queue_el (set_status st p h q) = u_queue_el (h q)"
  "u_rb_el (set_status st p h q) = u_rb_el (h q)" "u_dep_in (set_status st p h q) = u_dep_in (h q)"
  "u_resolved (set_status st p h q) = u_resolved (h q)" "u_queue (set_status st p h q) = u_queue (h q)"
  "u_status (set_status st p h q) = (if q = p then st else u_status (h q))"
  by (simp_all add: set_status_def)

section \<open>Loops that keep the list\<close>

lemma fold_entries_invariant:
  assumes "\<And>p x s. (p, x) \<in> set es \<Longrightarrow> I s \<Longrightarrow> \<exists>s' a. body p x s = Inr (s', a) \<and> I s'" and "I s"
  shows "\<exists>ks t. fold_entries body es s = Inr (ks, t) \<and> I t"
  using assms
proof (induction es arbitrary: s)
  case (Cons e es)
  obtain p x where e: "e = (p, x)" by force
  obtain s' a where b: "body p x s = Inr (s', a)" "I s'" using Cons.prems e by (meson list.set_intros(1))
  moreover obtain ks t where "fold_entries body es s' = Inr (ks, t)" "I t"
    using Cons.IH[OF _ b(2)] Cons.prems(1) by (meson list.set_intros(2))
  ultimately show ?case by (auto simp: e Let_def)
qed simp

lemma keep_loop:
  assumes "dl_inv l" "\<And>p x s s' a. body p x s = Inr (s', a) \<Longrightarrow> \<not> act_removes a"
    and "fold_entries body (entries l) s = Inr (ks, t)"
  shows "dl_loop body l s = Inr (l, t)"
proof -
  obtain l' where l': "dl_loop body l s = Inr (l', t)"
    by (rule dl.loop_all_Inr[OF assms(1) order_refl assms(3)])
  moreover have "l' = l" by (rule iter_keep_list[OF assms(2) l'])
  ultimately show ?thesis by simp
qed

lemma bodies_keep:
  "plain_body el p s = Inr (s', a) \<Longrightarrow> \<not> act_removes a"
  "io_body el p t = Inr (t', a) \<Longrightarrow> \<not> act_removes a"
  "ls_body el p t = Inr (t', a) \<Longrightarrow> \<not> act_removes a"
  by (auto simp: plain_body_def io_body_def ls_body_def Let_def rbind_Inr_iff split: if_splits prod.splits)

lemma keep_loops:
  assumes "dl_inv l"
  shows "fold_entries plain_body (entries l) s = Inr (ks, t) \<Longrightarrow> dl_loop plain_body l s = Inr (l, t)"
    and "fold_entries io_body (entries l) s' = Inr (ks, t') \<Longrightarrow> dl_loop io_body l s' = Inr (l, t')"
    and "fold_entries ls_body (entries l) s' = Inr (ks, t') \<Longrightarrow> dl_loop ls_body l s' = Inr (l, t')"
  by (rule keep_loop[OF assms]; (rule bodies_keep)?; assumption)+

lemma drop_loop:
  assumes "dl_inv l"
  obtains l' where "dl_loop_before (drop_body P) l () = Inr (l', ())" "dl_inv l'"
    "entries l' = filter (\<lambda>(p, x). \<not> P x) (entries l)" "dl_capacity l' = dl_capacity l"
proof -
  have f: "fold_entries (drop_body P) es () = Inr (filter (\<lambda>(p, x). \<not> P x) es, ())" for es
    by (induction es) (auto simp: drop_body_def Let_def)
  show thesis
    using dl.loop_all_Inr[OF assms order_refl f] that by (metis dl.loop_before[OF assms])
qed

section \<open>One issue\<close>

text \<open>What a pass of issues over some instructions may change.\<close>

definition issued :: "nat set \<Rightarrow> pool \<Rightarrow> func_units \<Rightarrow> pool \<Rightarrow> func_units \<Rightarrow> bool" where
  "issued ps h f h' f' \<longleftrightarrow>
     fu_inv f'
     \<and> (\<forall>p. h' p = h p \<or> p \<in> ps \<and> h' p = (h p)\<lparr>u_status := Executing\<rparr> \<and> p \<in> set (running f'))
     \<and> set (running f) \<subseteq> set (running f')
     \<and> (\<forall>t. first_idle t (fs_units f) = None \<longrightarrow> first_idle t (fs_units f') = None)"

lemma issued_refl: "fu_inv f \<Longrightarrow> issued ps h f h f"
  by (simp add: issued_def)

lemma issued_trans:
  assumes "issued ps h f h1 f1" "issued ps h1 f1 h2 f2"
  shows "issued ps h f h2 f2"
proof -
  have "h2 p = h p \<or> p \<in> ps \<and> h2 p = (h p)\<lparr>u_status := Executing\<rparr> \<and> p \<in> set (running f2)" for p
  proof -
    have 1: "h1 p = h p \<or> p \<in> ps \<and> h1 p = (h p)\<lparr>u_status := Executing\<rparr> \<and> p \<in> set (running f1)"
      and 2: "h2 p = h1 p \<or> p \<in> ps \<and> h2 p = (h1 p)\<lparr>u_status := Executing\<rparr> \<and> p \<in> set (running f2)"
      and "set (running f1) \<subseteq> set (running f2)"
      using assms by (simp_all add: issued_def)
    then show ?thesis by auto
  qed
  then show ?thesis using assms unfolding issued_def by blast
qed

lemma issued_mono: "issued ps h f h' f' \<Longrightarrow> ps \<subseteq> ps' \<Longrightarrow> issued ps' h f h' f'"
  unfolding issued_def by blast

lemma issued_frame:
  assumes "issued ps h f h' f'"
  shows "u_cpu (h' p) = u_cpu (h p)" "u_type (h' p) = u_type (h p)" "u_id (h' p) = u_id (h p)"
    "u_queue_el (h' p) = u_queue_el (h p)" "u_rb_el (h' p) = u_rb_el (h p)"
    "u_dep_in (h' p) = u_dep_in (h p)" "u_resolved (h' p) = u_resolved (h p)"
proof -
  have "h' p = h p \<or> h' p = (h p)\<lparr>u_status := Executing\<rparr>" using assms by (auto simp: issued_def)
  then show "u_cpu (h' p) = u_cpu (h p)" "u_type (h' p) = u_type (h p)" "u_id (h' p) = u_id (h p)"
    "u_queue_el (h' p) = u_queue_el (h p)" "u_rb_el (h' p) = u_rb_el (h p)"
    "u_dep_in (h' p) = u_dep_in (h p)" "u_resolved (h' p) = u_resolved (h p)"
    by auto
qed

lemma issued_ready:
  assumes "issued ps h f h' f'" "u_status (h' p) = Dep_Ready"
  shows "u_status (h p) = Dep_Ready"
proof -
  have "h' p = h p \<or> h' p = (h p)\<lparr>u_status := Executing\<rparr>" using assms by (auto simp: issued_def)
  then show ?thesis using assms(2) by auto
qed

lemma running_issue:
  assumes "j < length us" "fu_inst (us ! j) = None"
  shows "set (running (f\<lparr>fs_units := us[j := (us ! j)\<lparr>fu_inst := Some p, fu_cycles := 0\<rparr>]\<rparr>))
       = insert p (set (running (f\<lparr>fs_units := us\<rparr>)))"
proof -
  let ?r = "\<lambda>u. case fu_inst u of None \<Rightarrow> [] | Some p \<Rightarrow> [p]"
  obtain xs u ys where us: "us = xs @ u # ys" "length xs = j"
    using assms(1) by (metis id_take_nth_drop length_take min.absorb4)
  have "us[j := v] = xs @ v # ys" for v using us by (auto simp: list_update_append)
  moreover have "fu_inst u = None" using us assms(2) by (auto simp: nth_append)
  ultimately show ?thesis using us by (simp add: running_def)
qed

lemma first_idle_busy:
  assumes "first_idle t us = None" "fu_inst v \<noteq> None"
  shows "first_idle t (us[j := v]) = None"
proof -
  have "\<not> (fu_inst (us[j := v] ! i) = None \<and> can_run t (us[j := v] ! i))" if "i < length us" for i
    using assms that by (cases "i = j") (auto simp: first_idle_def find_None_iff)
  then show ?thesis by (auto simp: first_idle_def find_None_iff)
qed

lemma try_issue_cases:
  assumes "fu_inv f" "u_type (h p) < 32"
  obtains (ok) f' where "try_issue p (h, f) = Inr ((set_status Executing p h, f'), True)"
      "issued {p} h f (set_status Executing p h) f'" "first_idle (u_type (h p)) (fs_units f) \<noteq> None"
    | (busy) "try_issue p (h, f) = Inr ((h, f), False)" "first_idle (u_type (h p)) (fs_units f) = None"
proof (cases "first_idle (u_type (h p)) (fs_units f)")
  case None
  then show ?thesis using busy by (simp add: try_issue_def issue_value[of f h p] assms)
next
  case (Some j)
  let ?f = "f\<lparr>fs_units := (fs_units f)[j := (fs_units f ! j)\<lparr>fu_inst := Some p, fu_cycles := 0\<rparr>]\<rparr>"
  have i: "issue h p f = Inr (?f, True)" by (simp add: issue_value[of f h p] assms Some)
  note j = first_idle_Some[OF Some]
  have "set (running ?f) = insert p (set (running f))"
    using running_issue[OF j(1,2), where f = f and p = p] by simp
  moreover have "fu_inv ?f" using fu_inv_ops(4)[OF assms(1) i] .
  moreover have "first_idle t (fs_units f) = None \<Longrightarrow> first_idle t (fs_units ?f) = None" for t
    by (simp add: first_idle_busy)
  ultimately have "issued {p} h f (set_status Executing p h) ?f"
    by (auto simp: issued_def set_status_def)
  then show ?thesis using ok i Some by (simp add: try_issue_def)
qed

section \<open>The queue of arithmetic instructions\<close>

lemma plain_fold:
  assumes "fu_inv f" "\<forall>e \<in> set es. u_type (h (snd e)) < 32"
  shows "\<exists>h' f'. fold_entries plain_body es (h, f) = Inr (es, (h', f'))
    \<and> issued {p \<in> snd ` set es. u_status (h p) = Dep_Ready} h f h' f'
    \<and> (\<forall>e \<in> set es. u_status (h' (snd e)) = Dep_Ready \<longrightarrow> first_idle (u_type (h (snd e))) (fs_units f') = None)"
  using assms
proof (induction es arbitrary: h f)
  case Nil
  then show ?case by (simp add: issued_refl)
next
  case (Cons e es)
  obtain el p where e: "e = (el, p)" by force
  let ?ps = "{p \<in> snd ` set (e # es). u_status (h p) = Dep_Ready}"
  obtain h1 f1 where b: "plain_body el p (h, f) = Inr ((h1, f1), Keep)" and i1: "issued ?ps h f h1 f1"
    and idle: "u_status (h1 p) = Dep_Ready \<longrightarrow> first_idle (u_type (h p)) (fs_units f1) = None"
  proof (cases "u_status (h p) = Dep_Ready")
    case True
    from Cons.prems e have "u_type (h p) < 32" by simp
    with Cons.prems(1) show ?thesis
    proof (cases rule: try_issue_cases[of f h p])
      case (ok f')
      have "issued ?ps h f (set_status Executing p h) f'" using ok(2) True e by (elim issued_mono) auto
      then show ?thesis using that[of "set_status Executing p h" f'] ok True
        by (simp add: plain_body_def set_status_def)
    next
      case busy
      then show ?thesis using that[of h f] True Cons.prems(1) by (simp add: plain_body_def issued_refl)
    qed
  next
    case False
    then show ?thesis using that[of h f] Cons.prems(1) by (simp add: plain_body_def issued_refl)
  qed
  have inv1: "fu_inv f1" using i1 by (simp add: issued_def)
  have ty: "\<forall>e \<in> set es. u_type (h1 (snd e)) < 32" using Cons.prems(2) by (simp add: issued_frame[OF i1])
  obtain h2 f2 where r: "fold_entries plain_body es (h1, f1) = Inr (es, (h2, f2))"
    and i2: "issued {p \<in> snd ` set es. u_status (h1 p) = Dep_Ready} h1 f1 h2 f2"
    and idle2: "\<forall>e \<in> set es. u_status (h2 (snd e)) = Dep_Ready \<longrightarrow> first_idle (u_type (h1 (snd e))) (fs_units f2) = None"
    using Cons.IH[OF inv1 ty] by blast
  have "issued ?ps h1 f1 h2 f2" using issued_ready[OF i1] by (intro issued_mono[OF i2]) auto
  then have i: "issued ?ps h f h2 f2" by (rule issued_trans[OF i1])
  have "u_status (h2 p) = Dep_Ready \<Longrightarrow> first_idle (u_type (h p)) (fs_units f2) = None"
  proof -
    assume "u_status (h2 p) = Dep_Ready"
    then have "u_status (h1 p) = Dep_Ready" by (rule issued_ready[OF i2])
    then show ?thesis using idle i2 by (simp add: issued_def)
  qed
  then show ?case using b r i idle2 by (auto simp: e Let_def issued_frame[OF i1])
qed

section \<open>The load/store queue\<close>

definition ls_may :: "(nat \<Rightarrow> bool) \<Rightarrow> pool \<Rightarrow> nat \<Rightarrow> bool" where
  "ls_may fl h p \<longleftrightarrow> u_status (h p) = Dep_Ready \<and> (u_type (h p) = T_STORE \<longrightarrow> fl (u_cpu (h p)))"

definition ls_outcome ::
  "nat set \<Rightarrow> (nat \<Rightarrow> bool) \<Rightarrow> pool \<Rightarrow> func_units \<Rightarrow> (nat \<Rightarrow> bool) \<Rightarrow> pool \<Rightarrow> func_units \<Rightarrow> bool" where
  "ls_outcome ps fl h f fl' h' f' \<longleftrightarrow>
     issued {p \<in> ps. ls_may fl h p} h f h' f' \<and> (\<forall>c. fl' c \<longrightarrow> fl c)
     \<and> (\<forall>p. h' p \<noteq> h p \<longrightarrow> \<not> fl' (u_cpu (h p)))
     \<and> (\<forall>p p'. h' p \<noteq> h p \<longrightarrow> h' p' \<noteq> h p' \<longrightarrow> u_type (h p) = T_STORE \<longrightarrow> u_type (h p') = T_STORE
          \<longrightarrow> u_cpu (h p) = u_cpu (h p') \<longrightarrow> p = p')"

lemma ls_outcome_refl: "fu_inv f \<Longrightarrow> ls_outcome ps fl h f fl h f"
  by (simp add: ls_outcome_def issued_refl)

lemma ls_outcome_step:
  assumes ps: "p \<in> ps" and may: "ls_may fl h p" and i: "issued {p} h f (set_status Executing p h) f1"
    and r: "ls_outcome ps (fl(u_cpu (h p) := False)) (set_status Executing p h) f1 fl2 h2 f2"
  shows "ls_outcome ps fl h f fl2 h2 f2"
proof -
  let ?h1 = "set_status Executing p h"
  have i2: "issued {q \<in> ps. ls_may (fl(u_cpu (h p) := False)) ?h1 q} ?h1 f1 h2 f2" using r by (simp add: ls_outcome_def)
  have fr: "u_cpu (?h1 q) = u_cpu (h q)" "u_type (?h1 q) = u_type (h q)" for q by (simp_all add: set_status_def)
  have may1: "q \<noteq> p" "ls_may fl h q" "u_type (h q) = T_STORE \<longrightarrow> u_cpu (h q) \<noteq> u_cpu (h p)"
    if "ls_may (fl(u_cpu (h p) := False)) ?h1 q" for q
    using that by (auto simp: ls_may_def set_status_def split: if_splits)
  have ch: "h2 q \<noteq> ?h1 q \<Longrightarrow> ls_may (fl(u_cpu (h p) := False)) ?h1 q" for q
    using i2 unfolding issued_def by blast
  have "issued {q \<in> ps. ls_may fl h q} h f h2 f2"
  proof (rule issued_trans)
    show "issued {q \<in> ps. ls_may fl h q} h f ?h1 f1" using ps may by (intro issued_mono[OF i]) simp
    show "issued {q \<in> ps. ls_may fl h q} ?h1 f1 h2 f2" using may1(2) by (intro issued_mono[OF i2]) blast
  qed
  moreover have "fl2 c \<Longrightarrow> fl c" for c using r unfolding ls_outcome_def by (metis fun_upd_apply)
  moreover have "\<not> fl2 (u_cpu (h q))" if "h2 q \<noteq> h q" for q
  proof (cases "h2 q = ?h1 q")
    case True
    then have "q = p" using that by (auto simp: set_status_def split: if_splits)
    then show ?thesis using r unfolding ls_outcome_def by (metis fun_upd_same)
  next
    case False
    then have "\<not> fl2 (u_cpu (?h1 q))" using r unfolding ls_outcome_def by blast
    then show ?thesis by (simp add: fr)
  qed
  moreover have "q = q'" if "h2 q \<noteq> h q" "h2 q' \<noteq> h q'" "u_type (h q) = T_STORE" "u_type (h q') = T_STORE"
      "u_cpu (h q) = u_cpu (h q')" for q q'
  proof -
    have pq: "x = p \<or> h2 x \<noteq> ?h1 x" if "h2 x \<noteq> h x" for x using that by (auto simp: set_status_def)
    have np: "u_cpu (h x) \<noteq> u_cpu (h p)" if "h2 x \<noteq> ?h1 x" "u_type (h x) = T_STORE" for x
      using may1(3)[OF ch[OF that(1)]] that(2) by blast
    from pq[OF that(1)] pq[OF that(2)] consider "q = p" "q' = p" | "h2 q \<noteq> ?h1 q" "q' = p"
      | "q = p" "h2 q' \<noteq> ?h1 q'" | "h2 q \<noteq> ?h1 q" "h2 q' \<noteq> ?h1 q'" by blast
    then show ?thesis
    proof cases
      case 4
      then show ?thesis using r that(3-5) unfolding ls_outcome_def by (metis fr)
    qed (use np[of q] np[of q'] that(3-5) in auto)
  qed
  ultimately show ?thesis unfolding ls_outcome_def by blast
qed

lemma ls_fold:
  assumes "fu_inv f" "\<forall>e \<in> set es. u_type (h (snd e)) < 32"
  shows "\<exists>fl' h' f'. fold_entries ls_body es (fl, (h, f)) = Inr (es, (fl', (h', f')))
    \<and> ls_outcome (snd ` set es) fl h f fl' h' f'"
  using assms
proof (induction es arbitrary: fl h f)
  case Nil
  then show ?case by (simp add: ls_outcome_refl)
next
  case (Cons e es)
  obtain el p where e: "e = (el, p)" by force
  have more: "ls_outcome (snd ` set es) fl' h' f' fl2 h2 f2 \<Longrightarrow> ls_outcome (snd ` set (e # es)) fl' h' f' fl2 h2 f2"
    for fl' h' f' fl2 h2 f2
    unfolding ls_outcome_def by (auto elim: issued_mono)
  show ?case
  proof (cases "ls_may fl h p")
    case False
    then have "ls_body el p (fl, (h, f)) = Inr ((fl, (h, f)), Keep)"
      by (auto simp: ls_may_def ls_body_def Let_def)
    moreover obtain fl' h' f' where "fold_entries ls_body es (fl, (h, f)) = Inr (es, (fl', (h', f')))"
      "ls_outcome (snd ` set es) fl h f fl' h' f'" using Cons.IH[of f h fl] Cons.prems by auto
    ultimately show ?thesis using more by (auto simp: e Let_def)
  next
    case True
    then have st: "u_status (h p) = Dep_Ready" "\<not> (u_type (h p) = T_STORE \<and> \<not> fl (u_cpu (h p)))"
      by (auto simp: ls_may_def)
    have "u_type (h p) < 32" using Cons.prems e by simp
    with Cons.prems(1) show ?thesis
    proof (cases rule: try_issue_cases[of f h p])
      case (ok f1)
      let ?h1 = "set_status Executing p h"
      have "fu_inv f1" using ok(2) by (simp add: issued_def)
      moreover have "\<forall>e \<in> set es. u_type (?h1 (snd e)) < 32" using Cons.prems(2) by simp
      ultimately obtain fl2 h2 f2 where r:
        "fold_entries ls_body es (fl(u_cpu (h p) := False), (?h1, f1)) = Inr (es, (fl2, (h2, f2)))"
        "ls_outcome (snd ` set es) (fl(u_cpu (h p) := False)) ?h1 f1 fl2 h2 f2"
        using Cons.IH by blast
      have "ls_outcome (snd ` set (e # es)) fl h f fl2 h2 f2"
        by (rule ls_outcome_step[OF _ True ok(2) more[OF r(2)]]) (simp add: e)
      moreover have "ls_body el p (fl, (h, f)) = Inr ((fl(u_cpu (h p) := False), (?h1, f1)), Keep)"
        using ok(1) st by (auto simp: ls_body_def Let_def)
      ultimately show ?thesis using r(1) by (auto simp: e Let_def)
    next
      case busy
      then have "ls_body el p (fl, (h, f)) = Inr ((fl, (h, f)), Stop)"
        using st by (auto simp: ls_body_def Let_def)
      then show ?thesis using Cons.prems(1) by (auto simp: e Let_def ls_outcome_refl)
    qed
  qed
qed

section \<open>The queue\<close>

text \<open>Every element holds a different instruction, which knows its element.\<close>

definition queue_inv :: "pool \<Rightarrow> rs_queue \<Rightarrow> bool" where
  "queue_inv h q \<longleftrightarrow> dl_inv (rq_list q) \<and> distinct (elems (rq_list q))
     \<and> (\<forall>(e, p) \<in> set (entries (rq_list q)). u_queue_el (h p) = Some e)"

abbreviation queued :: "rs_queue \<Rightarrow> nat list" where
  "queued q \<equiv> elems (rq_list q)"

lemma queued_entry: "p \<in> set (queued q) \<longleftrightarrow> (\<exists>e. (e, p) \<in> set (entries (rq_list q)))"
  by (force simp: elems_def)

lemma get_empty_pos: "dl_inv l \<Longrightarrow> 0 < get_empty l \<longleftrightarrow> length (elems l) < dl_capacity l"
  by (simp add: get_empty_def entries_length elems_def)

lemma queue_add_value:
  assumes "queue_inv h q" "p \<notin> set (queued q)"
  shows "case queue_add p h q of (h', q', ok) \<Rightarrow>
     ok = (length (queued q) < dl_capacity (rq_list q)) \<and> queue_inv h' q'
     \<and> queued q' = (if ok then queued q @ [p] else queued q)
     \<and> dl_capacity (rq_list q') = dl_capacity (rq_list q) \<and> rq_kind q' = rq_kind q \<and> rq_flag q' = rq_flag q
     \<and> (\<exists>el. h' = (if ok then h(p := (h p)\<lparr>u_status := if all_resolved (h p) then Dep_Ready else Wait_Dep,
                                              u_queue_el := Some el\<rparr>) else h))"
proof -
  have inv: "dl_inv (rq_list q)" using assms(1) by (simp add: queue_inv_def)
  from inv show ?thesis
  proof (cases rule: dl.push_back_cases[of "rq_list q" p])
    case (added l' el)
    have other: "x \<noteq> p" if "(e, x) \<in> set (entries (rq_list q))" for e x
      using that assms(2) by (auto simp: queued_entry)
    have "0 < get_empty (rq_list q)" "length (queued q) < dl_capacity (rq_list q)"
      using added(5) by (simp_all add: get_empty_pos[OF inv] elems_def)
    with added other assms show ?thesis
      by (auto simp: queue_add_def Let_def queue_inv_def elems_def set_status_def)
  next
    case full
    then have "\<not> 0 < get_empty (rq_list q)" "\<not> length (queued q) < dl_capacity (rq_list q)"
      by (simp_all add: get_empty_pos[OF inv] elems_def)
    then show ?thesis using assms by (simp add: queue_add_def)
  qed
qed

lemma queue_drop_value:
  assumes "queue_inv h q"
  shows "\<exists>q'. queue_drop P q = Inr q' \<and> queue_inv h q' \<and> queued q' = filter (\<lambda>p. \<not> P p) (queued q)
     \<and> dl_capacity (rq_list q') = dl_capacity (rq_list q) \<and> rq_kind q' = rq_kind q \<and> rq_flag q' = rq_flag q"
proof -
  have inv: "dl_inv (rq_list q)" using assms by (simp add: queue_inv_def)
  obtain l' where l': "dl_loop_before (drop_body P) (rq_list q) () = Inr (l', ())" "dl_inv l'"
    "entries l' = filter (\<lambda>(e, x). \<not> P x) (entries (rq_list q))" "dl_capacity l' = dl_capacity (rq_list q)"
    by (rule drop_loop[OF inv])
  have "elems l' = filter (\<lambda>p. \<not> P p) (queued q)"
    by (simp add: elems_def l'(3) filter_map comp_def case_prod_unfold)
  then show ?thesis using l' assms by (auto simp: queue_drop_def queue_inv_def)
qed

lemma queue_del_value:
  assumes "queue_inv h q" "p \<in> set (queued q)"
  shows "\<exists>q'. queue_del p h q = Inr q' \<and> queue_inv h q' \<and> queued q' = remove1 p (queued q)
     \<and> dl_capacity (rq_list q') = dl_capacity (rq_list q) \<and> rq_kind q' = rq_kind q \<and> rq_flag q' = rq_flag q"
proof -
  obtain e where e: "(e, p) \<in> set (entries (rq_list q))" using assms(2) by (auto simp: queued_entry)
  then obtain es es' where en: "entries (rq_list q) = es @ (e, p) # es'" by (meson split_list)
  have inv: "dl_inv (rq_list q)" and el: "u_queue_el (h p) = Some e" and ds: "distinct (queued q)"
    using assms(1) e by (auto simp: queue_inv_def)
  note r = dl.rm_split[OF inv en]
  have "p \<notin> set (map snd es)" using ds by (simp add: elems_def en)
  then have "elems (del e (rq_list q)) = remove1 p (queued q)"
    by (simp add: elems_def en r(2) remove1_append)
  then show ?thesis using assms(1) r en ds
    by (auto simp: queue_del_def el queue_inv_def distinct_remove1)
qed

section \<open>Properties\<close>

text \<open>What \<open>supply\<close> needs of its arguments.\<close>

definition supply_pre :: "pool \<Rightarrow> func_units \<Rightarrow> rs_queue \<Rightarrow> bool" where
  "supply_pre h f q \<longleftrightarrow> queue_inv h q \<and> fu_inv f \<and> (\<forall>p \<in> set (queued q). u_type (h p) < 32)"

lemma supply_pre_entries:
  "supply_pre h f q \<Longrightarrow> dl_inv (rq_list q) \<and> fu_inv f \<and> (\<forall>e \<in> set (entries (rq_list q)). u_type (h (snd e)) < 32)"
  by (auto simp: supply_pre_def queue_inv_def elems_def)

lemma queued_image: "snd ` set (entries l) = set (elems l)"
  by (simp add: elems_def)

lemma queue_inv_flag [simp]: "queue_inv h (q\<lparr>rq_flag := fl\<rparr>) = queue_inv h q"
  by (simp add: queue_inv_def)

lemma queue_inv_issued: "queue_inv h q \<Longrightarrow> issued ps h f h' f' \<Longrightarrow> queue_inv h' q"
  by (simp add: queue_inv_def issued_frame)

lemma plain_supply_value:
  assumes "supply_pre h f q" "rq_kind q = Rs_Queue"
  shows "\<exists>h' f'. rs_supply h f q = Inr (h', f', q)
    \<and> issued {p \<in> set (queued q). u_status (h p) = Dep_Ready} h f h' f'
    \<and> (\<forall>p \<in> set (queued q). u_status (h' p) = Dep_Ready \<longrightarrow> first_idle (u_type (h p)) (fs_units f') = None)"
proof -
  note pre = supply_pre_entries[OF assms(1)]
  obtain h' f' where r: "fold_entries plain_body (entries (rq_list q)) (h, f) = Inr (entries (rq_list q), (h', f'))"
    "issued {p \<in> snd ` set (entries (rq_list q)). u_status (h p) = Dep_Ready} h f h' f'"
    "\<forall>e \<in> set (entries (rq_list q)). u_status (h' (snd e)) = Dep_Ready \<longrightarrow> first_idle (u_type (h (snd e))) (fs_units f') = None"
    using plain_fold[of f "entries (rq_list q)" h] pre by blast
  have "dl_loop plain_body (rq_list q) (h, f) = Inr (rq_list q, (h', f'))"
    using keep_loops(1)[OF _ r(1)] pre by blast
  then have "rs_supply h f q = Inr (h', f', q)" by (simp add: rs_supply_def assms(2))
  moreover have "\<forall>p \<in> set (queued q). u_status (h' p) = Dep_Ready \<longrightarrow> first_idle (u_type (h p)) (fs_units f') = None"
    using r(3) by (auto simp: elems_def)
  ultimately show ?thesis using r(2) unfolding queued_image by blast
qed

lemma ls_supply_value:
  assumes "supply_pre h f q" "rq_kind q = Ls_Queue"
  shows "\<exists>h' f' fl'. rs_supply h f q = Inr (h', f', q\<lparr>rq_flag := fl'\<rparr>)
    \<and> ls_outcome (set (queued q)) (rq_flag q) h f fl' h' f'"
proof -
  note pre = supply_pre_entries[OF assms(1)]
  obtain fl' h' f' where r: "fold_entries ls_body (entries (rq_list q)) (rq_flag q, (h, f))
      = Inr (entries (rq_list q), (fl', (h', f')))"
    "ls_outcome (snd ` set (entries (rq_list q))) (rq_flag q) h f fl' h' f'"
    using ls_fold[of f "entries (rq_list q)" h "rq_flag q"] pre by blast
  have "dl_loop ls_body (rq_list q) (rq_flag q, (h, f)) = Inr (rq_list q, (fl', (h', f')))"
    using keep_loops(3)[OF _ r(1)] pre by blast
  then show ?thesis using r(2) by (auto simp: rs_supply_def assms(2) queued_image)
qed

text \<open>C31: The reservation station of arithmetic instructions is greedy: in each cycle it issues only waiting
  instructions whose dependencies are resolved, each of them is then in a functional unit, and one that
  is still ready afterwards had no idle unit for its type left.\<close>

theorem plain_supply_greedy:
  assumes "supply_pre h f q" "rq_kind q = Rs_Queue"
  shows "\<exists>h' f'. rs_supply h f q = Inr (h', f', q) \<and> fu_inv f' \<and> queue_inv h' q
    \<and> (\<forall>p. h' p \<noteq> h p \<longrightarrow> p \<in> set (queued q) \<and> u_status (h p) = Dep_Ready
          \<and> h' p = (h p)\<lparr>u_status := Executing\<rparr> \<and> p \<in> set (running f'))
    \<and> (\<forall>p \<in> set (queued q). u_status (h' p) = Dep_Ready \<longrightarrow> first_idle (u_type (h p)) (fs_units f') = None)"
proof -
  obtain h' f' where r: "rs_supply h f q = Inr (h', f', q)"
    "issued {p \<in> set (queued q). u_status (h p) = Dep_Ready} h f h' f'"
    "\<forall>p \<in> set (queued q). u_status (h' p) = Dep_Ready \<longrightarrow> first_idle (u_type (h p)) (fs_units f') = None"
    using plain_supply_value[OF assms] by blast
  have "queue_inv h' q" using queue_inv_issued[OF _ r(2)] assms(1) by (simp add: supply_pre_def)
  moreover have "fu_inv f'" using r(2) by (simp add: issued_def)
  moreover have "\<forall>p. h' p \<noteq> h p \<longrightarrow> p \<in> set (queued q) \<and> u_status (h p) = Dep_Ready
          \<and> h' p = (h p)\<lparr>u_status := Executing\<rparr> \<and> p \<in> set (running f')"
    using r(2) unfolding issued_def by blast
  ultimately show ?thesis using r(1,3) by blast
qed


section \<open>Loads and older stores\<close>

lemma ls_skip_stores:
  assumes "\<forall>e \<in> set es. u_type (h (snd e)) = T_STORE \<and> \<not> fl (u_cpu (h (snd e)))"
  shows "fold_entries ls_body (es @ es') (fl, (h, f))
       = rbind (fold_entries ls_body es' (fl, (h, f))) (\<lambda>(ks, t). Inr (es @ ks, t))"
  using assms
proof (induction es)
  case Nil
  then show ?case by (simp add: rbind_def split: sum.split)
next
  case (Cons e es)
  obtain el p where e: "e = (el, p)" by force
  have "ls_body el p (fl, (h, f)) = Inr ((fl, (h, f)), Keep)"
    using Cons.prems e by (simp add: ls_body_def Let_def)
  then show ?case using Cons by (cases "fold_entries ls_body es' (fl, (h, f))") (auto simp: e Let_def)
qed

text \<open>A load does not wait for the stores before it: a ready load whose only older neighbours in the queue
  are stores that have not arrived at commit is issued over them as soon as a unit is idle, although the
  comment at the loop says that it stops at the first such store.\<close>

lemma loads_overtake_stores:
  assumes "supply_pre h f q" "rq_kind q = Ls_Queue" "entries (rq_list q) = older @ (el, p) # younger"
    "\<forall>e \<in> set older. u_type (h (snd e)) = T_STORE \<and> \<not> rq_flag q (u_cpu (h (snd e)))"
    "u_type (h p) = T_LOAD" "u_status (h p) = Dep_Ready" "first_idle T_LOAD (fs_units f) \<noteq> None"
  shows "\<exists>h' f' q'. rs_supply h f q = Inr (h', f', q') \<and> u_status (h' p) = Executing"
proof -
  note pre = supply_pre_entries[OF assms(1)]
  have "u_type (h p) < 32" by (simp add: assms(5) T_LOAD_def)
  then obtain f1 where t: "try_issue p (h, f) = Inr ((set_status Executing p h, f1), True)"
    "issued {p} h f (set_status Executing p h) f1"
    using pre assms(5,7) by (auto elim: try_issue_cases[of f h p])
  let ?h1 = "set_status Executing p h" and ?fl1 = "(rq_flag q)(u_cpu (h p) := False)"
  have b: "ls_body el p (rq_flag q, (h, f)) = Inr ((?fl1, (?h1, f1)), Keep)"
    using t(1) assms(5,6) by (simp add: ls_body_def Let_def T_LOAD_def T_STORE_def)
  have "fu_inv f1" "\<forall>e \<in> set younger. u_type (?h1 (snd e)) < 32"
    using t(2) pre assms(3) by (simp_all add: issued_def)
  then obtain fl2 h2 f2 where r: "fold_entries ls_body younger (?fl1, (?h1, f1)) = Inr (younger, (fl2, (h2, f2)))"
    "ls_outcome (snd ` set younger) ?fl1 ?h1 f1 fl2 h2 f2" using ls_fold by blast
  have "fold_entries ls_body (entries (rq_list q)) (rq_flag q, (h, f)) = Inr (entries (rq_list q), (fl2, (h2, f2)))"
    using ls_skip_stores[OF assms(4), of "(el, p) # younger" f] r(1) b by (simp add: assms(3) Let_def)
  then have "dl_loop ls_body (rq_list q) (rq_flag q, (h, f)) = Inr (rq_list q, (fl2, (h2, f2)))"
    using keep_loops(3) pre by blast
  then have "rs_supply h f q = Inr (h2, f2, q\<lparr>rq_flag := fl2\<rparr>)" by (simp add: rs_supply_def assms(2))
  moreover have "u_status (h2 p) = Executing"
  proof -
    have "h2 p = ?h1 p \<or> h2 p = (?h1 p)\<lparr>u_status := Executing\<rparr>" using r(2) by (auto simp: ls_outcome_def issued_def)
    then show ?thesis by (auto simp: set_status_def)
  qed
  ultimately show ?thesis by blast
qed

section \<open>The port queue\<close>

lemma io_fold:
  "fold_entries io_body es (fl, (h, f)) = (case List.find (\<lambda>e. fl (u_cpu (h (snd e)))) es of
     None \<Rightarrow> Inr (es, (fl, (h, f)))
   | Some e \<Rightarrow> rbind (try_issue (snd e) (h, f)) (\<lambda>(s', ok).
        Inr (es, (if ok then fl(u_cpu (h (snd e)) := False) else fl, s'))))"
proof (induction es)
  case (Cons e es)
  obtain el p where e: "e = (el, p)" by force
  show ?case
  proof (cases "fl (u_cpu (h p))")
    case True
    then show ?thesis by (cases "try_issue p (h, f)") (auto simp: e io_body_def Let_def)
  next
    case False
    then show ?thesis using Cons
      by (cases "List.find (\<lambda>e. fl (u_cpu (h (snd e)))) es"; cases "try_issue (snd (the (List.find (\<lambda>e. fl (u_cpu (h (snd e)))) es))) (h, f)")
        (auto simp: e io_body_def Let_def)
  qed
qed simp

lemma io_supply_value:
  assumes "supply_pre h f q" "rq_kind q = Io_Queue"
  shows "rs_supply h f q = (case List.find (\<lambda>p. rq_flag q (u_cpu (h p))) (queued q) of
     None \<Rightarrow> Inr (h, f, q)
   | Some p \<Rightarrow> if first_idle (u_type (h p)) (fs_units f) = None then Inr (h, f, q)
       else rbind (try_issue p (h, f)) (\<lambda>((h', f'), ok).
          Inr (h', f', q\<lparr>rq_flag := (rq_flag q)(u_cpu (h p) := False)\<rparr>)))"
proof -
  note pre = supply_pre_entries[OF assms(1)]
  have fd: "List.find (\<lambda>p. rq_flag q (u_cpu (h p))) (queued q)
      = map_option snd (List.find (\<lambda>e. rq_flag q (u_cpu (h (snd e)))) (entries (rq_list q)))"
  proof -
    have "List.find P (map snd es) = map_option snd (List.find (\<lambda>e. P (snd e)) es)" for P :: "nat \<Rightarrow> bool" and es :: "(nat \<times> nat) list"
      by (induction es) auto
    then show ?thesis by (simp add: elems_def)
  qed
  show ?thesis
  proof (cases "List.find (\<lambda>e. rq_flag q (u_cpu (h (snd e)))) (entries (rq_list q))")
    case None
    then have "dl_loop io_body (rq_list q) (rq_flag q, (h, f)) = Inr (rq_list q, (rq_flag q, (h, f)))"
      using keep_loops(2)[of "rq_list q" "(rq_flag q, (h, f))"] pre io_fold[of "entries (rq_list q)" "rq_flag q" h f] by simp
    then show ?thesis using None by (simp add: rs_supply_def assms(2) fd)
  next
    case (Some e)
    then have "e \<in> set (entries (rq_list q))" by (auto simp: find_Some_iff)
    then have t: "u_type (h (snd e)) < 32" using pre by blast
    have "fu_inv f" using pre by blast
    from this t show ?thesis
    proof (cases rule: try_issue_cases[of f h "snd e"])
      case (ok f')
      then have "dl_loop io_body (rq_list q) (rq_flag q, (h, f))
          = Inr (rq_list q, ((rq_flag q)(u_cpu (h (snd e)) := False), (set_status Executing (snd e) h, f')))"
        using keep_loops(2)[of "rq_list q" "(rq_flag q, (h, f))"] pre io_fold[of "entries (rq_list q)" "rq_flag q" h f] Some by simp
      then show ?thesis using Some ok by (auto simp add: rs_supply_def assms(2) fd)
    next
      case busy
      then have "dl_loop io_body (rq_list q) (rq_flag q, (h, f)) = Inr (rq_list q, (rq_flag q, (h, f)))"
        using keep_loops(2)[of "rq_list q" "(rq_flag q, (h, f))"] pre io_fold[of "entries (rq_list q)" "rq_flag q" h f] Some by simp
      then show ?thesis using Some busy by (simp add: rs_supply_def assms(2) fd)
    qed
  qed
qed

text \<open>C40: A reservation station holds its instructions in dispatch order, whatever their slots: adding puts an
  instruction at the end, ready or waiting according to its dependencies, and fails exactly when the
  station is full; deleting takes that instruction out; a flush takes out exactly the instructions of
  the processor and clears its flag.\<close>

theorem queue_refines:
  assumes "queue_inv h q" "p \<notin> set (queued q)" "r \<in> set (queued q)"
  shows "(case queue_add p h q of (h', q', ok) \<Rightarrow>
            ok = (length (queued q) < dl_capacity (rq_list q)) \<and> queue_inv h' q'
            \<and> queued q' = (if ok then queued q @ [p] else queued q)
            \<and> (if ok then u_status (h' p) = (if all_resolved (h p) then Dep_Ready else Wait_Dep) else h' = h))
       \<and> (\<exists>q'. queue_del r h q = Inr q' \<and> queue_inv h q' \<and> queued q' = remove1 r (queued q))
       \<and> (\<exists>q'. queue_flush h c q = Inr q' \<and> queue_inv h q' \<and> queued q' = filter (\<lambda>x. u_cpu (h x) \<noteq> c) (queued q)
            \<and> (rq_kind q \<noteq> Rs_Queue \<longrightarrow> \<not> rq_flag q' c))"
proof -
  have "queue_inv h (if rq_kind q = Rs_Queue then q else q\<lparr>rq_flag := (rq_flag q)(c := False)\<rparr>)"
    using assms(1) by simp
  from queue_drop_value[OF this, of "\<lambda>p. u_cpu (h p) = c"]
  have "\<exists>q'. queue_flush h c q = Inr q' \<and> queue_inv h q' \<and> queued q' = filter (\<lambda>x. u_cpu (h x) \<noteq> c) (queued q)
            \<and> (rq_kind q \<noteq> Rs_Queue \<longrightarrow> \<not> rq_flag q' c)"
    by (auto simp: queue_flush_def)
  moreover have "\<exists>q'. queue_del r h q = Inr q' \<and> queue_inv h q' \<and> queued q' = remove1 r (queued q)"
    using queue_del_value[OF assms(1,3)] by blast
  ultimately show ?thesis using queue_add_value[OF assms(1,2)] by (auto split: prod.splits)
qed

section \<open>Concrete instances\<close>

text \<open>A store and a younger load, both ready, in a load/store queue of two.\<close>

definition demo_two :: "nat dlist" where
  "demo_two = fst (add_end 1 (fst (add_end 0 (new_list 3))))"

lemma demo_two_facts: "dl_inv demo_two" "entries demo_two = [(0, 0), (1, 1)]" "elems demo_two = [0, 1]"
proof -
  show e: "entries demo_two = [(0, 0), (1, 1)]"
    by (simp add: demo_two_def list_eval del: slot_fold)
  then show "elems demo_two = [0, 1]" by (simp add: elems_def)
  have step: "dl_inv (fst (add_end x l))" if "dl_inv l" for x and l :: "nat dlist"
    by (rule dl.push_back_cases[OF that, of x]) (simp_all add: that)
  show "dl_inv demo_two" unfolding demo_two_def by (intro step demo_list)
qed

definition demo_ls :: rs_queue where
  "demo_ls = \<lparr>rq_kind = Ls_Queue, rq_list = demo_two, rq_flag = (\<lambda>_. False)\<rparr>"

definition demo_mem :: pool where
  "demo_mem = (\<lambda>_. blank_uop)(0 := blank_uop\<lparr>u_type := T_STORE, u_status := Dep_Ready, u_queue_el := Some 0\<rparr>,
     1 := blank_uop\<lparr>u_type := T_LOAD, u_status := Dep_Ready, u_queue_el := Some 1\<rparr>)"

lemma demo_ls_inv: "queue_inv demo_mem demo_ls"
  by (simp add: queue_inv_def demo_ls_def demo_two_facts demo_mem_def)

lemma demo_ls_pre: "supply_pre demo_mem demo_units (demo_ls\<lparr>rq_kind := k, rq_flag := fl\<rparr>)"
  using demo_ls_inv by (simp add: supply_pre_def queue_inv_def demo_ls_def demo_two_facts demo_mem_def demo_units_def
      fu_inv_ops T_LOAD_def T_STORE_def)

lemma demo_ls_idle: "first_idle T_LOAD (fs_units demo_units) \<noteq> None"
  by (simp add: first_idle_def demo_units_def func_units_new_def all_units_def unit_masks upt_rec)

lemma plain_supply_greedy_witness:
  "\<exists>h' f'. rs_supply demo_mem demo_units (demo_ls\<lparr>rq_kind := Rs_Queue\<rparr>) = Inr (h', f', demo_ls\<lparr>rq_kind := Rs_Queue\<rparr>)
     \<and> fu_inv f' \<and> queue_inv h' (demo_ls\<lparr>rq_kind := Rs_Queue\<rparr>)"
proof -
  have "demo_ls\<lparr>rq_kind := Rs_Queue, rq_flag := \<lambda>_. False\<rparr> = demo_ls\<lparr>rq_kind := Rs_Queue\<rparr>" by (simp add: demo_ls_def)
  then have pre: "supply_pre demo_mem demo_units (demo_ls\<lparr>rq_kind := Rs_Queue\<rparr>)"
    using demo_ls_pre[where k = Rs_Queue and fl = "\<lambda>_. False"] by simp
  have "rq_kind (demo_ls\<lparr>rq_kind := Rs_Queue\<rparr>) = Rs_Queue" by simp
  from plain_supply_greedy[OF pre this] show ?thesis by blast
qed

lemma demo_ls_supply: "supply_pre demo_mem demo_units demo_ls" "rq_kind demo_ls = Ls_Queue"
proof -
  have "demo_ls\<lparr>rq_kind := Ls_Queue, rq_flag := \<lambda>_. False\<rparr> = demo_ls" by (simp add: demo_ls_def)
  then show "supply_pre demo_mem demo_units demo_ls"
    using demo_ls_pre[where k = Ls_Queue and fl = "\<lambda>_. False"] by simp
qed (simp add: demo_ls_def)


lemma loads_overtake_stores_witness:
  "\<exists>h' f' q'. rs_supply demo_mem demo_units demo_ls = Inr (h', f', q') \<and> u_status (h' 1) = Executing"
proof (rule loads_overtake_stores[OF demo_ls_supply, of "[(0, 0)]" 1 1 "[]"])
  show "entries (rq_list demo_ls) = [(0, 0)] @ (1, 1) # []" by (simp add: demo_ls_def demo_two_facts)
qed (use demo_ls_idle in \<open>simp_all add: demo_ls_def demo_mem_def\<close>)

lemma queue_refines_witness:
  "case queue_add 5 demo_mem demo_ls of (h', q', ok) \<Rightarrow> ok \<and> queued q' = [0, 1, 5]"
proof -
  have "dl_capacity demo_two = 3" by (simp add: demo_two_def list_eval)
  then show ?thesis
    using queue_refines[OF demo_ls_inv, of 5 0 0] by (auto simp: demo_ls_def demo_two_facts split: prod.splits)
qed

end
