(* ===== verification/Memory.thy ===== *)
theory Memory
  imports Prelude
begin

text \<open>
  The simulated main memory, class \<open>memory_t\<close> of \<open>src/src/io/io.h\<close> and \<open>src/src/io/memory.cpp\<close>:
  little-endian reads and writes with their sanity checks, and the protocol by which a processor
  that locks the memory excludes the ordinary accesses of the others, as a step relation over the
  threads that use it.
\<close>

unbundle bit_operations_syntax

section \<open>Bytes\<close>

record mem =
  m_vector :: "u8 list"
  m_size :: u32

definition mem_new :: "u32 \<Rightarrow> mem" where
  "mem_new sz = \<lparr>m_vector = replicate (unat sz) 0, m_size = sz\<rparr>"

definition mem_inv :: "mem \<Rightarrow> bool" where
  "mem_inv m \<longleftrightarrow> length (m_vector m) = unat (m_size m)"

text \<open>The little-endian bytes of a value, and back.\<close>

definition le_bytes :: "nat \<Rightarrow> 'a::len word \<Rightarrow> u8 list" where
  "le_bytes n v = map (\<lambda>i. ucast (drop_bit (8 * i) v)) [0..<n]"

fun le_value :: "u8 list \<Rightarrow> 'a::len word" where
  "le_value [] = 0"
| "le_value (b # bs) = ucast b + push_bit 8 (le_value bs)"

text \<open>
  An access of \<open>n\<close> bytes at an address: the check compares the 32-bit sum with the size, so it can
  wrap; the bytes must then be inside the vector.
\<close>

definition raw_read :: "nat \<Rightarrow> u32 \<Rightarrow> mem \<Rightarrow> u8 list res" where
  "raw_read n addr m =
     (if unat addr + n \<le> length (m_vector m) then Inr (take n (drop (unat addr) (m_vector m)))
      else Inl Out_Of_Bounds)"

definition raw_write :: "u8 list \<Rightarrow> u32 \<Rightarrow> mem \<Rightarrow> mem res" where
  "raw_write bs addr m =
     (if unat addr + length bs \<le> length (m_vector m)
      then Inr (m\<lparr>m_vector := take (unat addr) (m_vector m) @ bs @ drop (unat addr + length bs) (m_vector m)\<rparr>)
      else Inl Out_Of_Bounds)"

definition read1 :: "u32 \<Rightarrow> mem \<Rightarrow> u8 res" where
  "read1 addr m = (if addr \<ge> m_size m then Inl Sanity else rbind (raw_read 1 addr m) (\<lambda>b. Inr (le_value b)))"

definition write1 :: "u32 \<Rightarrow> u8 \<Rightarrow> mem \<Rightarrow> mem res" where
  "write1 addr v m = (if addr \<ge> m_size m then Inl Sanity else raw_write (le_bytes 1 v) addr m)"

definition read2 :: "u32 \<Rightarrow> mem \<Rightarrow> u16 res" where
  "read2 addr m = (if addr + 2 \<ge> m_size m then Inl Sanity else rbind (raw_read 2 addr m) (\<lambda>b. Inr (le_value b)))"

definition write2 :: "u32 \<Rightarrow> u16 \<Rightarrow> mem \<Rightarrow> mem res" where
  "write2 addr v m = (if addr + 2 \<ge> m_size m then Inl Sanity else raw_write (le_bytes 2 v) addr m)"

definition read4 :: "u32 \<Rightarrow> mem \<Rightarrow> u32 res" where
  "read4 addr m = (if addr + 4 \<ge> m_size m then Inl Sanity else rbind (raw_read 4 addr m) (\<lambda>b. Inr (le_value b)))"

definition write4 :: "u32 \<Rightarrow> u32 \<Rightarrow> mem \<Rightarrow> mem res" where
  "write4 addr v m = (if addr + 4 \<ge> m_size m then Inl Sanity else raw_write (le_bytes 4 v) addr m)"

definition read8 :: "u32 \<Rightarrow> mem \<Rightarrow> u64 res" where
  "read8 addr m = (if addr + 8 \<ge> m_size m then Inl Sanity else rbind (raw_read 8 addr m) (\<lambda>b. Inr (le_value b)))"

definition write8 :: "u32 \<Rightarrow> u64 \<Rightarrow> mem \<Rightarrow> mem res" where
  "write8 addr v m = (if addr + 8 \<ge> m_size m then Inl Sanity else raw_write (le_bytes 8 v) addr m)"

text \<open>\<open>read\<close> and \<open>write\<close> of a block are unchecked \<open>memcpy\<close> calls.\<close>

definition read_n :: "nat \<Rightarrow> u32 \<Rightarrow> mem \<Rightarrow> u8 list res" where
  "read_n n addr m = raw_read n addr m"

definition write_n :: "u8 list \<Rightarrow> u32 \<Rightarrow> mem \<Rightarrow> mem res" where
  "write_n bs addr m = raw_write bs addr m"

section \<open>Lemmas on bytes\<close>

lemma le_bytes_length [simp]: "length (le_bytes n v) = n"
  by (simp add: le_bytes_def)

lemma le_bytes_Suc: "le_bytes (Suc n) v = ucast v # le_bytes n (drop_bit 8 v)"
proof -
  have "[0..<Suc n] = 0 # map Suc [0..<n]" by (simp add: upt_conv_Cons map_Suc_upt del: upt_Suc)
  then show ?thesis by (simp add: le_bytes_def add.commute del: upt_Suc)
qed

lemma ucast_byte_add:
  "(ucast (ucast v :: u8) :: 'a::len word) + push_bit 8 w = take_bit 8 v + push_bit 8 (w :: 'a word)"
proof -
  have "(ucast (ucast v :: u8) :: 'a word) = take_bit 8 v"
    by (rule bit_word_eqI) (auto simp: bit_ucast_iff bit_take_bit_iff)
  then show ?thesis by simp
qed

lemma le_value_bytes: "le_value (le_bytes n v) = (take_bit (8 * n) v :: 'a::len word)"
proof (induction n arbitrary: v)
  case 0
  then show ?case by (simp add: le_bytes_def)
next
  case (Suc n)
  have "le_value (le_bytes (Suc n) v) = take_bit 8 v + push_bit 8 (take_bit (8 * n) (drop_bit 8 v))"
    by (simp add: le_bytes_Suc Suc ucast_byte_add)
  also have "\<dots> = take_bit 8 v OR push_bit 8 (take_bit (8 * n) (drop_bit 8 v))"
    by (rule disjunctive_add) (auto simp: bit_take_bit_iff bit_push_bit_iff)
  also have "\<dots> = take_bit (8 * Suc n) v"
    by (rule bit_word_eqI) (auto simp: bit_or_iff bit_take_bit_iff bit_push_bit_iff bit_drop_bit_eq)
  finally show ?case .
qed

lemma raw_write_read:
  assumes "raw_write bs addr m = Inr m'"
  shows "raw_read (length bs) addr m' = Inr bs"
  using assms by (auto simp: raw_write_def raw_read_def split: if_splits)

lemma raw_write_other:
  assumes "raw_write bs addr m = Inr m'" "unat a + n \<le> unat addr \<or> unat addr + length bs \<le> unat a"
  shows "raw_read n a m' = raw_read n a m"
proof -
  have b: "unat addr + length bs \<le> length (m_vector m)"
    and m': "m_vector m' = take (unat addr) (m_vector m) @ bs @ drop (unat addr + length bs) (m_vector m)"
    using assms(1) by (auto simp: raw_write_def split: if_splits)
  have len: "length (m_vector m') = length (m_vector m)" using b by (simp add: m')
  have "take n (drop (unat a) (m_vector m')) = take n (drop (unat a) (m_vector m))"
    if "unat a + n \<le> length (m_vector m)"
  proof (rule nth_equalityI)
    show "length (take n (drop (unat a) (m_vector m'))) = length (take n (drop (unat a) (m_vector m)))"
      by (simp add: len)
    fix i assume "i < length (take n (drop (unat a) (m_vector m')))"
    then have i: "i < n" "unat a + i < length (m_vector m)" using that by (simp_all add: len)
    have "m_vector m' ! (unat a + i) = m_vector m ! (unat a + i)"
      using assms(2) i b unfolding m' by (auto simp: nth_append)
    then show "take n (drop (unat a) (m_vector m')) ! i = take n (drop (unat a) (m_vector m)) ! i"
      using i len by simp
  qed
  then show ?thesis by (simp add: raw_read_def len)
qed

lemma raw_write_inv: "mem_inv m \<Longrightarrow> raw_write bs addr m = Inr m' \<Longrightarrow> mem_inv m' \<and> m_size m' = m_size m"
  by (auto simp: raw_write_def mem_inv_def split: if_splits)

section \<open>The lock\<close>

text \<open>
  Each thread is at a point of one of the four operations: outside, asleep in the condition wait of
  \<open>lock\<close> or \<open>check_lock\<close>, woken there and about to test its condition again, holding the lock, or
  inside an ordinary access. A step is one critical section of the mutex: the code between taking
  the mutex (or returning from the wait, which takes it again) and releasing it (or waiting).
\<close>

datatype pc = Outside | Lock_Asleep | Lock_Woken | Holding | Free_Asleep | Free_Woken | Running

record mem_lock =
  is_locked :: bool
  lockfree_running :: nat
  lockfree_pending :: nat
  lock_pending :: nat
  threads :: "pc list"

definition at_pc :: "pc \<Rightarrow> mem_lock \<Rightarrow> nat" where
  "at_pc p s = length (filter (\<lambda>q. q = p) (threads s))"

definition goto :: "nat \<Rightarrow> pc \<Rightarrow> mem_lock \<Rightarrow> mem_lock" where
  "goto i p s = s\<lparr>threads := (threads s)[i := p]\<rparr>"

text \<open>The test of the loop in \<open>lock\<close>: wait, or take the lock and leave.\<close>

definition lock_test :: "nat \<Rightarrow> mem_lock \<Rightarrow> mem_lock" where
  "lock_test i s =
     (if is_locked s \<or> lockfree_running s > 0
      then goto i Lock_Asleep (s\<lparr>lock_pending := lock_pending s + 1\<rparr>)
      else goto i Holding (s\<lparr>is_locked := True\<rparr>))"

definition lock_wakes :: "nat \<Rightarrow> mem_lock \<Rightarrow> mem_lock" where
  "lock_wakes i s = lock_test i (s\<lparr>lock_pending := lock_pending s - 1\<rparr>)"

text \<open>
  \<open>pthread_cond_signal\<close> wakes one of the sleeping threads, if there is one: \<open>j\<close> is the one the host
  chooses.
\<close>

definition signal_lock :: "nat \<Rightarrow> mem_lock \<Rightarrow> mem_lock" where
  "signal_lock j s = (if Lock_Asleep \<in> set (threads s) then goto j Lock_Woken s else s)"

definition broadcast_free :: "mem_lock \<Rightarrow> mem_lock" where
  "broadcast_free s = s\<lparr>threads := map (\<lambda>p. if p = Free_Asleep then Free_Woken else p) (threads s)\<rparr>"

definition unlock :: "nat \<Rightarrow> nat \<Rightarrow> mem_lock \<Rightarrow> mem_lock" where
  "unlock i j s =
     (let s1 = goto i Outside (s\<lparr>is_locked := False\<rparr>)
      in if lock_pending s1 > 0 then signal_lock j s1
         else if lockfree_pending s1 > 0 then broadcast_free s1 else s1)"

definition check_test :: "nat \<Rightarrow> mem_lock \<Rightarrow> mem_lock" where
  "check_test i s =
     (if is_locked s
      then goto i Free_Asleep (s\<lparr>lockfree_pending := lockfree_pending s + 1\<rparr>)
      else goto i Running (s\<lparr>lockfree_running := lockfree_running s + 1\<rparr>))"

definition check_wakes :: "nat \<Rightarrow> mem_lock \<Rightarrow> mem_lock" where
  "check_wakes i s = check_test i (s\<lparr>lockfree_pending := lockfree_pending s - 1\<rparr>)"

definition check_unlock :: "nat \<Rightarrow> nat \<Rightarrow> mem_lock \<Rightarrow> mem_lock" where
  "check_unlock i j s =
     (let s1 = goto i Outside (s\<lparr>lockfree_running := lockfree_running s - 1\<rparr>)
      in if lock_pending s1 > 0 \<and> lockfree_running s1 = 0 then signal_lock j s1 else s1)"

text \<open>Any thread may run next; a condition wait may also return without a signal.\<close>

inductive lock_step :: "mem_lock \<Rightarrow> mem_lock \<Rightarrow> bool" where
  lock: "i < length (threads s) \<Longrightarrow> threads s ! i = Outside \<Longrightarrow> lock_step s (lock_test i s)"
| lock_again: "i < length (threads s) \<Longrightarrow> threads s ! i = Lock_Woken \<Longrightarrow> lock_step s (lock_wakes i s)"
| unlock: "i < length (threads s) \<Longrightarrow> threads s ! i = Holding
    \<Longrightarrow> (Lock_Asleep \<in> set (threads s) \<Longrightarrow> j < length (threads s) \<and> threads s ! j = Lock_Asleep)
    \<Longrightarrow> lock_step s (unlock i j s)"
| check: "i < length (threads s) \<Longrightarrow> threads s ! i = Outside \<Longrightarrow> lock_step s (check_test i s)"
| check_again: "i < length (threads s) \<Longrightarrow> threads s ! i = Free_Woken \<Longrightarrow> lock_step s (check_wakes i s)"
| check_unlock: "i < length (threads s) \<Longrightarrow> threads s ! i = Running
    \<Longrightarrow> (Lock_Asleep \<in> set (threads s) \<Longrightarrow> j < length (threads s) \<and> threads s ! j = Lock_Asleep)
    \<Longrightarrow> lock_step s (check_unlock i j s)"
| spurious_lock: "i < length (threads s) \<Longrightarrow> threads s ! i = Lock_Asleep \<Longrightarrow> lock_step s (goto i Lock_Woken s)"
| spurious_free: "i < length (threads s) \<Longrightarrow> threads s ! i = Free_Asleep \<Longrightarrow> lock_step s (goto i Free_Woken s)"

inductive_cases lock_stepE: "lock_step s t"

definition lock_init :: "nat \<Rightarrow> mem_lock" where
  "lock_init n = \<lparr>is_locked = False, lockfree_running = 0, lockfree_pending = 0, lock_pending = 0,
                  threads = replicate n Outside\<rparr>"

inductive lock_reach :: "nat \<Rightarrow> mem_lock \<Rightarrow> bool" for n where
  init: "lock_reach n (lock_init n)"
| step: "lock_reach n s \<Longrightarrow> lock_step s t \<Longrightarrow> lock_reach n t"


section \<open>The lock invariant\<close>

text \<open>
  The counters count the threads at the points they stand for, the flag is set exactly while one
  thread holds the lock, and then no ordinary access runs. The last two conjuncts say that no wake-up
  is lost: a thread sleeps only while another one is bound to wake it later.
\<close>

definition lock_inv :: "mem_lock \<Rightarrow> bool" where
  "lock_inv s \<longleftrightarrow>
     lockfree_running s = at_pc Running s
     \<and> at_pc Holding s = (if is_locked s then 1 else 0)
     \<and> (is_locked s \<longrightarrow> at_pc Running s = 0)
     \<and> lock_pending s = at_pc Lock_Asleep s + at_pc Lock_Woken s
     \<and> lockfree_pending s = at_pc Free_Asleep s + at_pc Free_Woken s
     \<and> (at_pc Lock_Asleep s > 0 \<longrightarrow> is_locked s \<or> at_pc Running s > 0 \<or> at_pc Lock_Woken s > 0)
     \<and> (at_pc Free_Asleep s > 0 \<longrightarrow> is_locked s \<or> at_pc Lock_Woken s > 0 \<or> at_pc Lock_Asleep s > 0)"

lemma filter_update:
  "i < length xs \<Longrightarrow> length (filter (\<lambda>q. q = p) (xs[i := r])) + of_bool (xs ! i = p)
     = length (filter (\<lambda>q. q = p) xs) + of_bool (r = p)"
proof (induction xs arbitrary: i)
  case (Cons x xs)
  then show ?case by (cases i) auto
qed simp

lemma at_pc_goto:
  assumes "i < length (threads s)"
  shows "at_pc p (goto i r s) = at_pc p s + of_bool (r = p) - of_bool (threads s ! i = p)"
  using filter_update[OF assms, of p r] by (simp add: at_pc_def goto_def)

lemma at_pc_pos: "0 < at_pc p s \<longleftrightarrow> p \<in> set (threads s)"
  unfolding at_pc_def by (metis (full_types) filter_False filter_empty_conv length_greater_0_conv)

lemma at_pc_here: "i < length (threads s) \<Longrightarrow> 0 < at_pc (threads s ! i) s"
  by (simp add: at_pc_pos)

lemma at_pc_frame [simp]:
  "at_pc p (s\<lparr>is_locked := b\<rparr>) = at_pc p s" "at_pc p (s\<lparr>lockfree_running := n\<rparr>) = at_pc p s"
  "at_pc p (s\<lparr>lockfree_pending := n\<rparr>) = at_pc p s" "at_pc p (s\<lparr>lock_pending := n\<rparr>) = at_pc p s"
  by (simp_all add: at_pc_def)

lemma goto_fields [simp]:
  "is_locked (goto i p s) = is_locked s" "lockfree_running (goto i p s) = lockfree_running s"
  "lockfree_pending (goto i p s) = lockfree_pending s" "lock_pending (goto i p s) = lock_pending s"
  "length (threads (goto i p s)) = length (threads s)"
  by (simp_all add: goto_def)

lemma lock_test_inv:
  assumes i: "i < length (threads s)" and src: "threads s ! i \<in> {Outside, Lock_Woken}"
    and inv: "lock_inv (s\<lparr>lock_pending := lock_pending s + of_bool (threads s ! i = Lock_Woken)\<rparr>)"
  shows "lock_inv (lock_test i s)"
  using inv src at_pc_here[OF i] unfolding lock_inv_def lock_test_def
  by (cases "is_locked s \<or> lockfree_running s > 0"; cases "threads s ! i = Lock_Woken")
    (simp_all add: at_pc_goto i, linarith+)

lemma check_test_inv:
  assumes i: "i < length (threads s)" and src: "threads s ! i \<in> {Outside, Free_Woken}"
    and inv: "lock_inv (s\<lparr>lockfree_pending := lockfree_pending s + of_bool (threads s ! i = Free_Woken)\<rparr>)"
  shows "lock_inv (check_test i s)"
  using inv src at_pc_here[OF i] unfolding lock_inv_def check_test_def
  by (cases "is_locked s"; cases "threads s ! i = Free_Woken") (simp_all add: at_pc_goto i, linarith+)

lemma at_pc_signal:
  assumes "Lock_Asleep \<in> set (threads s) \<Longrightarrow> j < length (threads s) \<and> threads s ! j = Lock_Asleep"
  shows "at_pc p (signal_lock j s) = (if at_pc Lock_Asleep s > 0
     then at_pc p s + of_bool (p = Lock_Woken) - of_bool (p = Lock_Asleep) else at_pc p s)"
  using assms at_pc_goto[of j s p Lock_Woken] by (auto simp: signal_lock_def at_pc_pos)

lemma signal_fields [simp]:
  "is_locked (signal_lock j s) = is_locked s" "lockfree_running (signal_lock j s) = lockfree_running s"
  "lockfree_pending (signal_lock j s) = lockfree_pending s" "lock_pending (signal_lock j s) = lock_pending s"
  by (simp_all add: signal_lock_def)

lemma at_pc_broadcast:
  "at_pc p (broadcast_free s) = (if p = Free_Asleep then 0
     else if p = Free_Woken then at_pc Free_Woken s + at_pc Free_Asleep s else at_pc p s)"
proof -
  have "length (filter (\<lambda>q. q = p) (map (\<lambda>p. if p = Free_Asleep then Free_Woken else p) xs))
      = (if p = Free_Asleep then 0 else if p = Free_Woken
         then length (filter (\<lambda>q. q = Free_Woken) xs) + length (filter (\<lambda>q. q = Free_Asleep) xs)
         else length (filter (\<lambda>q. q = p) xs))" for xs
    by (cases p; induction xs) (auto simp: filter_empty_conv)
  then show ?thesis by (simp add: at_pc_def broadcast_free_def)
qed

lemma sleeper_after_goto:
  assumes "i < length (threads s)" "threads s ! i \<noteq> Lock_Asleep" "p \<noteq> Lock_Asleep"
    "Lock_Asleep \<in> set (threads s) \<Longrightarrow> j < length (threads s) \<and> threads s ! j = Lock_Asleep"
  shows "Lock_Asleep \<in> set (threads (goto i p s))
    \<Longrightarrow> j < length (threads (goto i p s)) \<and> threads (goto i p s) ! j = Lock_Asleep"
proof -
  assume "Lock_Asleep \<in> set (threads (goto i p s))"
  then have "Lock_Asleep \<in> set (threads s)"
    using set_update_subset_insert[of "threads s" i p] assms(3) by (auto simp: goto_def)
  with assms show "j < length (threads (goto i p s)) \<and> threads (goto i p s) ! j = Lock_Asleep"
    by (auto simp: goto_def nth_list_update)
qed

lemma unlock_inv:
  assumes i: "i < length (threads s)" "threads s ! i = Holding" and inv: "lock_inv s"
    and j: "Lock_Asleep \<in> set (threads s) \<Longrightarrow> j < length (threads s) \<and> threads s ! j = Lock_Asleep"
  shows "lock_inv (unlock i j s)"
proof -
  define s1 where "s1 = goto i Outside (s\<lparr>is_locked := False\<rparr>)"
  have sig: "at_pc p (signal_lock j s1) = (if at_pc Lock_Asleep s1 > 0
     then at_pc p s1 + of_bool (p = Lock_Woken) - of_bool (p = Lock_Asleep) else at_pc p s1)" for p
    unfolding s1_def using i j by (intro at_pc_signal sleeper_after_goto) auto
  have a: "at_pc p s1 = at_pc p s + of_bool (Outside = p) - of_bool (Holding = p)" for p
    using at_pc_goto[of i "s\<lparr>is_locked := False\<rparr>" p Outside] i by (simp add: s1_def)
  have f: "\<not> is_locked s1" "lockfree_running s1 = lockfree_running s" "lockfree_pending s1 = lockfree_pending s" "lock_pending s1 = lock_pending s"
    by (simp_all add: s1_def)
  have b: "is_locked (broadcast_free s1) = is_locked s1" "lockfree_running (broadcast_free s1) = lockfree_running s1"
    "lockfree_pending (broadcast_free s1) = lockfree_pending s1" "lock_pending (broadcast_free s1) = lock_pending s1"
    by (simp_all add: broadcast_free_def)
  show ?thesis
    using inv at_pc_here[OF i(1)] i(2) unfolding lock_inv_def unlock_def Let_def s1_def[symmetric]
    by (auto simp: sig a f b at_pc_broadcast)
qed

lemma check_unlock_inv:
  assumes i: "i < length (threads s)" "threads s ! i = Running" and inv: "lock_inv s"
    and j: "Lock_Asleep \<in> set (threads s) \<Longrightarrow> j < length (threads s) \<and> threads s ! j = Lock_Asleep"
  shows "lock_inv (check_unlock i j s)"
proof -
  define s1 where "s1 = goto i Outside (s\<lparr>lockfree_running := lockfree_running s - 1\<rparr>)"
  have sig: "at_pc p (signal_lock j s1) = (if at_pc Lock_Asleep s1 > 0
     then at_pc p s1 + of_bool (p = Lock_Woken) - of_bool (p = Lock_Asleep) else at_pc p s1)" for p
    unfolding s1_def using i j by (intro at_pc_signal sleeper_after_goto) auto
  have a: "at_pc p s1 = at_pc p s + of_bool (Outside = p) - of_bool (Running = p)" for p
    using at_pc_goto[of i "s\<lparr>lockfree_running := lockfree_running s - 1\<rparr>" p Outside] i by (simp add: s1_def)
  have f: "is_locked s1 = is_locked s" "lockfree_running s1 = lockfree_running s - 1" "lockfree_pending s1 = lockfree_pending s" "lock_pending s1 = lock_pending s"
    by (simp_all add: s1_def)
  have b: "is_locked (broadcast_free s1) = is_locked s1" "lockfree_running (broadcast_free s1) = lockfree_running s1"
    "lockfree_pending (broadcast_free s1) = lockfree_pending s1" "lock_pending (broadcast_free s1) = lock_pending s1"
    by (simp_all add: broadcast_free_def)
  show ?thesis
    using inv at_pc_here[OF i(1)] i(2) unfolding lock_inv_def check_unlock_def Let_def s1_def[symmetric]
    by (auto simp: sig a f b at_pc_broadcast)
qed

lemma lock_step_inv:
  assumes "lock_step s t" "lock_inv s"
  shows "lock_inv t"
  using assms
proof (cases rule: lock_step.cases)
  case (lock i)
  then show ?thesis using assms(2) lock_test_inv[of i s] by simp
next
  case (lock_again i)
  then have "lock_pending s > 0" using assms(2) at_pc_here[of i s] by (simp add: lock_inv_def)
  with lock_again assms(2) lock_test_inv[of i "s\<lparr>lock_pending := lock_pending s - 1\<rparr>"]
  show ?thesis by (simp add: lock_wakes_def)
next
  case (check i)
  then show ?thesis using assms(2) check_test_inv[of i s] by simp
next
  case (check_again i)
  then have "lockfree_pending s > 0" using assms(2) at_pc_here[of i s] by (simp add: lock_inv_def)
  with check_again assms(2) check_test_inv[of i "s\<lparr>lockfree_pending := lockfree_pending s - 1\<rparr>"]
  show ?thesis by (simp add: check_wakes_def)
next
  case (unlock i j)
  then show ?thesis using assms(2) unlock_inv by blast
next
  case (check_unlock i j)
  then show ?thesis using assms(2) check_unlock_inv by blast
next
  case (spurious_lock i)
  then show ?thesis using assms(2) at_pc_here[of i s] by (auto simp: lock_inv_def at_pc_goto)
next
  case (spurious_free i)
  then show ?thesis using assms(2) at_pc_here[of i s] by (auto simp: lock_inv_def at_pc_goto)
qed

lemma lock_reach_inv: "lock_reach n s \<Longrightarrow> lock_inv s \<and> length (threads s) = n"
proof (induction rule: lock_reach.induct)
  case init
  have "at_pc p (lock_init n) = (if p = Outside then n else 0)" for p
    by (auto simp: at_pc_def lock_init_def filter_replicate)
  then show ?case by (simp add: lock_inv_def lock_init_def[of n])
next
  case (step s t)
  have "length (threads t) = length (threads s)"
    using step(2) by (cases rule: lock_step.cases)
      (auto simp: lock_test_def lock_wakes_def check_test_def check_wakes_def unlock_def check_unlock_def
        signal_lock_def broadcast_free_def Let_def)
  with step lock_step_inv show ?case by auto
qed


section \<open>Properties\<close>

lemma checked_write:
  assumes "mem_inv m" "raw_write (le_bytes n (v :: 'a::len word)) addr m = Inr m'" "8 * n = LENGTH('a)"
  shows "rbind (raw_read n addr m') (\<lambda>b. Inr (le_value b)) = (Inr v :: 'a word res)"
    and "mem_inv m'" and "m_size m' = m_size m"
  using raw_write_read[OF assms(2)] raw_write_inv[OF assms(1,2)] assms(3)
  by (simp_all add: le_value_bytes)

text \<open>a value written with any of the four widths is read back unchanged with the same width, the
  memory keeps its size, and bytes outside the written range keep their values.\<close>

lemma write_then_read:
  assumes "mem_inv m"
  shows "(\<forall>m'. write1 addr v1 m = Inr m' \<longrightarrow> read1 addr m' = Inr v1 \<and> mem_inv m')
       \<and> (\<forall>m'. write2 addr v2 m = Inr m' \<longrightarrow> read2 addr m' = Inr v2 \<and> mem_inv m')
       \<and> (\<forall>m'. write4 addr v4 m = Inr m' \<longrightarrow> read4 addr m' = Inr v4 \<and> mem_inv m')
       \<and> (\<forall>m'. write8 addr v8 m = Inr m' \<longrightarrow> read8 addr m' = Inr v8 \<and> mem_inv m')
       \<and> (\<forall>m' a. write8 addr v8 m = Inr m' \<longrightarrow> unat a < unat addr \<or> unat addr + 8 \<le> unat a
            \<longrightarrow> read1 a m' = read1 a m)"
proof -
  have "read1 a m' = read1 a m"
    if "write8 addr v8 m = Inr m'" "unat a < unat addr \<or> unat addr + 8 \<le> unat a" for m' a
  proof -
    have "raw_write (le_bytes 8 v8) addr m = Inr m'" using that(1) by (simp add: write8_def split: if_splits)
    with raw_write_other[OF this, of a 1] raw_write_inv[OF assms this] that(2)
    show ?thesis by (auto simp: read1_def Suc_le_eq)
  qed
  moreover have "read1 addr m' = Inr v1 \<and> mem_inv m'" if "write1 addr v1 m = Inr m'" for m'
    using that checked_write[OF assms, of 1 v1] by (auto simp: write1_def read1_def split: if_splits)
  moreover have "read2 addr m' = Inr v2 \<and> mem_inv m'" if "write2 addr v2 m = Inr m'" for m'
    using that checked_write[OF assms, of 2 v2] by (auto simp: write2_def read2_def split: if_splits)
  moreover have "read4 addr m' = Inr v4 \<and> mem_inv m'" if "write4 addr v4 m = Inr m'" for m'
    using that checked_write[OF assms, of 4 v4] by (auto simp: write4_def read4_def split: if_splits)
  moreover have "read8 addr m' = Inr v8 \<and> mem_inv m'" if "write8 addr v8 m = Inr m'" for m'
    using that checked_write[OF assms, of 8 v8] by (auto simp: write8_def read8_def split: if_splits)
  ultimately show ?thesis by blast
qed

lemma mem_new_inv: "mem_inv (mem_new n)"
  by (simp add: mem_inv_def mem_new_def)

lemma write_then_read_witness:
  "rbind (write4 8 0xDEADBEEF (mem_new 64)) (read4 8) = Inr 0xDEADBEEF"
proof -
  obtain m' where "write4 8 0xDEADBEEF (mem_new 64) = Inr m'"
    by (simp add: write4_def raw_write_def mem_new_def)
  with write_then_read[OF mem_new_inv, of 8 0 64 0 "0xDEADBEEF" 0] show ?thesis by simp
qed

text \<open>the checks of the 2-, 4- and 8-byte accesses accept exactly the accesses that end before the
  last byte: the access that ends with the last byte is refused although it is in range, and an
  address whose end wraps around 32 bits passes the check and leaves the vector.\<close>

lemma access_check_range:
  assumes "mem_inv m"
  shows "(unat addr + 4 < 2 ^ 32 \<longrightarrow> (read4 addr m = Inl Sanity \<longleftrightarrow> unat (m_size m) \<le> unat addr + 4)
            \<and> (is_ok (read4 addr m) \<longleftrightarrow> unat addr + 4 < unat (m_size m)))
       \<and> (unat addr + 8 < 2 ^ 32 \<longrightarrow> (is_ok (write8 addr v m) \<longleftrightarrow> unat addr + 8 < unat (m_size m)))
       \<and> (2 ^ 32 \<le> unat addr + 4 \<and> unat addr + 4 - 2 ^ 32 < unat (m_size m) \<longrightarrow> read4 addr m = Inl Out_Of_Bounds)"
proof -
  have sum: "unat (addr + 4) = (unat addr + 4) mod 2 ^ 32" "unat (addr + 8) = (unat addr + 8) mod 2 ^ 32"
    by (simp_all add: unat_word_ariths)
  have a: "unat addr < 2 ^ 32" "unat (m_size m) < 2 ^ 32"
    using unsigned_less[of addr, where ?'a = nat] unsigned_less[of "m_size m", where ?'a = nat] by simp_all
  have len: "length (m_vector m) = unat (m_size m)" using assms by (simp add: mem_inv_def)
  have "read4 addr m = Inl Out_Of_Bounds" if "2 ^ 32 \<le> unat addr + 4" "unat addr + 4 - 2 ^ 32 < unat (m_size m)"
  proof -
    have "(unat addr + 4) mod 2 ^ 32 = unat addr + 4 - 2 ^ 32"
      using that(1) a(1) by (simp add: le_mod_geq)
    then show ?thesis using that a by (simp add: read4_def raw_read_def word_le_nat_alt sum len)
  qed
  moreover have "(read4 addr m = Inl Sanity \<longleftrightarrow> unat (m_size m) \<le> unat addr + 4)
      \<and> (is_ok (read4 addr m) \<longleftrightarrow> unat addr + 4 < unat (m_size m))" if "unat addr + 4 < 2 ^ 32"
    using that by (simp add: read4_def raw_read_def word_le_nat_alt sum len)
  moreover have "is_ok (write8 addr v m) \<longleftrightarrow> unat addr + 8 < unat (m_size m)" if "unat addr + 8 < 2 ^ 32"
    using that by (simp add: write8_def raw_write_def word_le_nat_alt sum len)
  ultimately show ?thesis by blast
qed

lemma access_check_range_witness:
  "read4 60 (mem_new 64) = Inl Sanity \<and> is_ok (read4 59 (mem_new 64)) \<and> read4 0xFFFFFFFF (mem_new 64) = Inl Out_Of_Bounds"
  using access_check_range[OF mem_new_inv, of 60 64 0] access_check_range[OF mem_new_inv, of 59 64 0]
    access_check_range[OF mem_new_inv, of "0xFFFFFFFF" 64 0]
  by (simp add: mem_new_def)

text \<open>C20: mutual exclusion. In every reachable state of any number of threads, at most one holds the
  memory lock, and while one does no ordinary access is running; the flag and the counters tell
  exactly that.\<close>

theorem lock_excludes:
  assumes "lock_reach n s" and "i < n" and "k < n" and "threads s ! i = Holding"
  shows "threads s ! k \<noteq> Running \<and> (threads s ! k = Holding \<longrightarrow> k = i)
       \<and> is_locked s \<and> lockfree_running s = 0"
proof -
  have inv: "lock_inv s" "length (threads s) = n" using lock_reach_inv[OF assms(1)] by auto
  then have "0 < at_pc Holding s" using at_pc_here[of i s] assms(2,4) by simp
  then have one: "at_pc Holding s = 1" "is_locked s" "at_pc Running s = 0" "lockfree_running s = 0"
    using inv(1) by (auto simp: lock_inv_def split: if_splits)
  have "threads s ! k \<noteq> Running" using at_pc_here[of k s] inv(2) assms(3) one(3) by auto
  moreover have "k = i" if "threads s ! k = Holding"
  proof (rule ccontr)
    assume "k \<noteq> i"
    then have "at_pc Holding (goto k Outside s) = 0" "0 < at_pc Holding (goto k Outside s)"
      using at_pc_goto[of k s Holding Outside] at_pc_here[of i "goto k Outside s"] inv(2) assms that one(1)
      by (auto simp: goto_def)
    then show False by simp
  qed
  ultimately show ?thesis using one by blast
qed

lemma lock_excludes_witness:
  "\<exists>s. lock_reach 2 s \<and> threads s ! 0 = Holding \<and> threads s ! 1 = Free_Asleep \<and> is_locked s"
proof -
  let ?a = "lock_test 0 (lock_init 2)"
  let ?b = "check_test 1 ?a"
  have "lock_reach 2 ?a"
    by (rule lock_reach.step[OF lock_reach.init], rule lock_step.lock) (simp_all add: lock_init_def)
  moreover have "lock_step ?a ?b"
    by (rule lock_step.check) (simp_all add: lock_init_def lock_test_def goto_def)
  ultimately have r: "lock_reach 2 ?b" by (rule lock_reach.step)
  moreover have "threads ?b ! 0 = Holding" "threads ?b ! 1 = Free_Asleep"
    by (simp_all add: lock_init_def lock_test_def check_test_def goto_def)
  ultimately show ?thesis using lock_excludes[OF r, of 0 1] by auto
qed

text \<open>C19: no wake-up is lost. In every reachable state in which a thread sleeps in \<open>lock\<close> or
  \<open>check_lock\<close>, some thread is awake inside the protocol (it holds the lock, runs an ordinary
  access, or has been woken and is about to test its condition), so the protocol never deadlocks.\<close>

theorem no_lost_wakeup:
  assumes "lock_reach n s" and "i < n" and "threads s ! i \<in> {Lock_Asleep, Free_Asleep}"
  shows "\<exists>k < n. threads s ! k \<in> {Holding, Running, Lock_Woken}"
proof -
  have inv: "lock_inv s" "length (threads s) = n" using lock_reach_inv[OF assms(1)] by auto
  then have "0 < at_pc Lock_Asleep s \<or> 0 < at_pc Free_Asleep s"
    using at_pc_here[of i s] assms(2,3) by auto
  then have "0 < at_pc Holding s \<or> 0 < at_pc Running s \<or> 0 < at_pc Lock_Woken s"
    using inv(1) by (auto simp: lock_inv_def)
  then have "\<exists>p \<in> {Holding, Running, Lock_Woken}. p \<in> set (threads s)" by (auto simp: at_pc_pos)
  then show ?thesis using inv(2) by (metis in_set_conv_nth)
qed

lemma no_lost_wakeup_witness:
  "\<exists>s. lock_reach 2 s \<and> threads s ! 1 = Free_Asleep \<and> (\<exists>k < 2. threads s ! k \<in> {Holding, Running, Lock_Woken})"
proof -
  let ?a = "lock_test 0 (lock_init 2)"
  let ?b = "check_test 1 ?a"
  have "lock_reach 2 ?a"
    by (rule lock_reach.step[OF lock_reach.init], rule lock_step.lock) (simp_all add: lock_init_def)
  moreover have "lock_step ?a ?b"
    by (rule lock_step.check) (simp_all add: lock_init_def lock_test_def goto_def)
  ultimately have r: "lock_reach 2 ?b" by (rule lock_reach.step)
  moreover have "threads ?b ! 1 = Free_Asleep"
    by (simp add: lock_init_def lock_test_def check_test_def goto_def)
  ultimately show ?thesis using no_lost_wakeup[OF r, of 1] by auto
qed

end
