(* ===== verification/X86_Mmu.thy ===== *)
theory X86_Mmu
  imports Memory
begin

text \<open>
  The virtual memory of the x86-64 processor, \<open>src/src/cpu/x86_64/x86_64.cpp\<close>: the page-table walk with
  its two translation caches (\<open>get_physical_memory_address\<close>), the checks before an access
  (\<open>mem_check_exc_*\<close>) and the accesses of the instruction set (\<open>bochs_mem_*\<close>), which may cross a page
  boundary. With one physical processor, which is what \<open>load_general_config\<close> sets, the memory lock is
  never taken and an access of the physical memory is an access of \<open>memory_t\<close>.

  An exception leaves the executing instruction by a \<open>longjmp\<close>: an access returns the exception code
  (\<open>Inl\<close>) or a result (\<open>Inr\<close>). What the simulator itself does not survive is a fault, as in every
  other component. The hit counters are left out.
\<close>

section \<open>State\<close>

record vm_data =
  vd_vaddr :: u64
  vd_paddr :: u32
  vd_present :: bool
  vd_read :: bool
  vd_write :: bool
  vd_execute :: bool
  vd_page :: u64
  vd_page_el_addr :: u32

record vm_data2 =
  v2_first :: vm_data
  v2_second :: vm_data
  v2_cross :: bool
  v2_vaddr :: u64
  v2_last :: u64
  v2_rcheck :: bool
  v2_wcheck :: bool
  v2_length :: u8

record tlb_el =
  te_el :: vm_data
  te_vaddr :: u64
  te_busy :: bool

datatype tlb_id = Data_Tlb | Inst_Tlb

record xcpu =
  x_mem :: mem
  x_msr :: "nat \<Rightarrow> u64"
  x_gpr :: "nat \<Rightarrow> u64"
  x_rip :: u64
  x_eflags :: u32
  x_cpl :: "2 word"
  x_int_enabled :: bool
  x_tlb :: "tlb_id \<Rightarrow> nat \<Rightarrow> tlb_el"
  x_translate :: vm_data2

definition CPL_KERNEL :: "2 word" where "CPL_KERNEL = 0"
definition CPL_USER :: "2 word" where "CPL_USER = 3"

definition MSR_KERNEL_STACK_PTR :: nat where "MSR_KERNEL_STACK_PTR = 3"
definition MSR_VIRTUAL_MEMORY_CFG :: nat where "MSR_VIRTUAL_MEMORY_CFG = 5"
definition MSR_PAGE_FAULT_ADDR :: nat where "MSR_PAGE_FAULT_ADDR = 6"
definition MSR_INTERRUPT_VECTOR_ADDR :: nat where "MSR_INTERRUPT_VECTOR_ADDR = 7"
definition MSR_SYSCALL_HANDLER_ADDR :: nat where "MSR_SYSCALL_HANDLER_ADDR = 8"

definition GP_EXCEPTION :: u64 where "GP_EXCEPTION = 13"
definition PF_EXCEPTION :: u64 where "PF_EXCEPTION = 14"

text \<open>The fields of a page-table entry and of the configuration register, which are bit fields in the code.\<close>

definition pg_p :: "u64 \<Rightarrow> bool" where "pg_p d = bit d 0"
definition pg_rw :: "u64 \<Rightarrow> bool" where "pg_rw d = bit d 1"
definition pg_nx :: "u64 \<Rightarrow> bool" where "pg_nx d = bit d 63"
definition pg_addr :: "u64 \<Rightarrow> u64" where "pg_addr d = take_bit 40 (drop_bit 12 d)"

definition vm_base :: "xcpu \<Rightarrow> u32" where
  "vm_base s = ucast (push_bit 12 (take_bit 40 (x_msr s MSR_VIRTUAL_MEMORY_CFG)))"

definition vm_enabled :: "xcpu \<Rightarrow> bool" where
  "vm_enabled s \<longleftrightarrow> x_cpl s = CPL_USER \<and> bit (x_msr s MSR_VIRTUAL_MEMORY_CFG) 40"

definition page_of :: "u64 \<Rightarrow> u64" where "page_of v = v AND 0xFFFFFFFFFFFFF000"

definition page_number :: "u64 \<Rightarrow> u64" where "page_number v = drop_bit 12 v"

definition tlb_index :: "u64 \<Rightarrow> nat" where "tlb_index v = unat (page_number v AND 0x1FFF)"

section \<open>Translation\<close>

text \<open>
  One level of the walk reads the entry that nine bits of the address select. The walk stops at the
  first entry that is not present; it yields that entry, or the entry of the page, with its address.
\<close>

definition level_entry :: "u64 \<Rightarrow> nat \<Rightarrow> u32 \<Rightarrow> mem \<Rightarrow> (u32 \<times> u64) res" where
  "level_entry v sh base m =
     (let addr = base + ucast (push_bit 3 (drop_bit sh v AND 0x1FF))
      in rbind (read8 addr m) (\<lambda>d. Inr (addr, d)))"

definition table_base :: "u64 \<Rightarrow> u32" where "table_base d = ucast (push_bit 12 (pg_addr d))"

definition walk :: "u64 \<Rightarrow> u32 \<Rightarrow> mem \<Rightarrow> (bool \<times> u32 \<times> u64) res" where
  "walk v base m =
     rbind (level_entry v 39 base m) (\<lambda>(a1, l1). if \<not> pg_p l1 then Inr (False, a1, l1) else
     rbind (level_entry v 30 (table_base l1) m) (\<lambda>(a2, l2). if \<not> pg_p l2 then Inr (False, a2, l2) else
     rbind (level_entry v 21 (table_base l2) m) (\<lambda>(a3, l3). if \<not> pg_p l3 then Inr (False, a3, l3) else
     rbind (level_entry v 12 (table_base l3) m) (\<lambda>(a4, l4). Inr (pg_p l4, a4, l4)))))"

definition frame_addr :: "u64 \<Rightarrow> u64 \<Rightarrow> u32" where
  "frame_addr l v = ucast (push_bit 12 (pg_addr l) + (v AND 0xFFF))"

definition set_tlb :: "tlb_id \<Rightarrow> nat \<Rightarrow> tlb_el \<Rightarrow> xcpu \<Rightarrow> xcpu" where
  "set_tlb w i e s = s\<lparr>x_tlb := (x_tlb s)(w := (x_tlb s w)(i := e))\<rparr>"

definition found :: "u32 \<Rightarrow> u64 \<Rightarrow> vm_data \<Rightarrow> vm_data" where
  "found a l r = r\<lparr>vd_page_el_addr := a, vd_paddr := frame_addr l (vd_vaddr r), vd_present := True,
     vd_read := True, vd_write := pg_rw l, vd_execute := \<not> pg_nx l, vd_page := l\<rparr>"

definition missing :: "u64 \<Rightarrow> vm_data \<Rightarrow> vm_data" where
  "missing l r = r\<lparr>vd_present := False, vd_read := True, vd_write := pg_rw l, vd_execute := \<not> pg_nx l\<rparr>"

definition untranslated :: "vm_data \<Rightarrow> vm_data" where
  "untranslated r = r\<lparr>vd_paddr := ucast (vd_vaddr r), vd_present := True, vd_read := True,
     vd_write := True, vd_execute := True\<rparr>"

text \<open>\<open>get_physical_memory_address\<close>: the translation cache first, then the walk, which fills it.\<close>

definition get_physical :: "tlb_id \<Rightarrow> vm_data \<Rightarrow> xcpu \<Rightarrow> (vm_data \<times> xcpu) res" where
  "get_physical w r s =
     (if vm_enabled s then
        let v = vd_vaddr r; i = tlb_index v; e = x_tlb s w i
        in if te_busy e \<and> te_vaddr e = page_number v then
             Inr (found (vd_page_el_addr (te_el e)) (vd_page (te_el e)) r, s)
           else
             let s1 = set_tlb w i (e\<lparr>te_busy := False\<rparr>) s
             in rbind (walk v (vm_base s) (x_mem s)) (\<lambda>(ok, a, l).
                  if ok then
                    let r' = found a l r
                    in Inr (r', set_tlb w i \<lparr>te_el = r', te_vaddr = page_number v, te_busy = True\<rparr> s1)
                  else Inr (missing l r, s1))
      else Inr (untranslated r, s))"

definition flush_tlbs :: "xcpu \<Rightarrow> xcpu" where
  "flush_tlbs s = s\<lparr>x_tlb := (\<lambda>w i. (x_tlb s w i)\<lparr>te_busy := False\<rparr>)\<rparr>"

text \<open>
  \<open>memory_read_inst_byte\<close>: the physical address of a byte to fetch, or the exception. The local
  variable \<open>vm\<close> is not initialised; \<open>junk\<close> is what it holds.
\<close>

definition memory_read_inst_byte :: "vm_data \<Rightarrow> u64 \<Rightarrow> xcpu \<Rightarrow> ((u64 + u32) \<times> xcpu) res" where
  "memory_read_inst_byte junk v s =
     rbind (get_physical Inst_Tlb (junk\<lparr>vd_vaddr := v\<rparr>) s) (\<lambda>(vm, s').
       if \<not> vd_present vm then Inr (Inl (PF_EXCEPTION OR page_of v), s')
       else if \<not> vd_execute vm then Inr (Inl (GP_EXCEPTION OR page_of v), s')
       else Inr (Inr (vd_paddr vm), s'))"

section \<open>Checks\<close>

text \<open>
  The common part of the three checks: translate the first page, and the last one if the access
  crosses a boundary. \<open>clear\<close> resets the flags that the check owns.
\<close>

definition check_pages :: "(vm_data2 \<Rightarrow> vm_data2) \<Rightarrow> u64 \<Rightarrow> u8 \<Rightarrow> xcpu \<Rightarrow> xcpu res" where
  "check_pages clear v len s =
     (let t1 = (clear (x_translate s))\<lparr>v2_vaddr := v, v2_length := len\<rparr>
      in rbind (get_physical Data_Tlb ((v2_first t1)\<lparr>vd_vaddr := v\<rparr>) s) (\<lambda>(p1, s1).
         let t2 = t1\<lparr>v2_first := p1\<rparr>; last_addr = v + ucast len - 1
         in if \<not> vm_enabled s1 \<or> page_of v = page_of last_addr then
              Inr (s1\<lparr>x_translate := t2\<lparr>v2_cross := False\<rparr>\<rparr>)
            else rbind (get_physical Data_Tlb ((v2_second t2)\<lparr>vd_vaddr := page_of last_addr\<rparr>) s1) (\<lambda>(p2, s2).
              Inr (s2\<lparr>x_translate := t2\<lparr>v2_last := last_addr, v2_second := p2, v2_cross := True\<rparr>\<rparr>))))"

definition fault_code :: "u64 \<Rightarrow> vm_data \<Rightarrow> u64" where
  "fault_code c p = c OR page_of (vd_vaddr p)"

definition mem_check_exc_read :: "u64 \<Rightarrow> u8 \<Rightarrow> xcpu \<Rightarrow> (u64 option \<times> xcpu) res" where
  "mem_check_exc_read v len s =
     rbind (check_pages (\<lambda>t. t\<lparr>v2_rcheck := False\<rparr>) v len s) (\<lambda>s'.
       let t = x_translate s'
       in if \<not> vd_present (v2_first t) then Inr (Some (fault_code PF_EXCEPTION (v2_first t)), s')
          else if v2_cross t \<and> \<not> vd_present (v2_second t) then Inr (Some (fault_code PF_EXCEPTION (v2_second t)), s')
          else Inr (None, s'\<lparr>x_translate := t\<lparr>v2_rcheck := True\<rparr>\<rparr>))"

definition write_fault :: "vm_data2 \<Rightarrow> u64 option" where
  "write_fault t =
     (if \<not> vd_present (v2_first t) then Some (fault_code PF_EXCEPTION (v2_first t))
      else if \<not> vd_write (v2_first t) then Some (fault_code GP_EXCEPTION (v2_first t))
      else if v2_cross t then
        if \<not> vd_present (v2_second t) then Some (fault_code PF_EXCEPTION (v2_second t))
        else if \<not> vd_write (v2_second t) then Some (fault_code GP_EXCEPTION (v2_second t))
        else None
      else None)"

definition mem_check_exc_write :: "u64 \<Rightarrow> u8 \<Rightarrow> xcpu \<Rightarrow> (u64 option \<times> xcpu) res" where
  "mem_check_exc_write v len s =
     rbind (check_pages (\<lambda>t. t\<lparr>v2_wcheck := False\<rparr>) v len s) (\<lambda>s'.
       let t = x_translate s'
       in case write_fault t of Some e \<Rightarrow> Inr (Some e, s')
          | None \<Rightarrow> Inr (None, s'\<lparr>x_translate := t\<lparr>v2_wcheck := True\<rparr>\<rparr>))"

definition mem_check_exc_read_write :: "u64 \<Rightarrow> u8 \<Rightarrow> xcpu \<Rightarrow> (u64 option \<times> xcpu) res" where
  "mem_check_exc_read_write v len s =
     rbind (check_pages (\<lambda>t. t\<lparr>v2_wcheck := False, v2_rcheck := False\<rparr>) v len s) (\<lambda>s'.
       let t = x_translate s'
       in case write_fault t of Some e \<Rightarrow> Inr (Some e, s')
          | None \<Rightarrow> Inr (None, s'\<lparr>x_translate := t\<lparr>v2_wcheck := True, v2_rcheck := True\<rparr>\<rparr>))"

section \<open>Accesses\<close>

text \<open>
  The bytes of an access that crosses a boundary: the first \<open>len\<close> from the end of the first page, the
  others from the start of the second.
\<close>

definition split_len :: "vm_data2 \<Rightarrow> nat" where
  "split_len t = unat (ucast (vd_vaddr (v2_second t) - v2_vaddr t) :: u8)"

abbreviation paddr1 :: "vm_data2 \<Rightarrow> u32" where "paddr1 t \<equiv> vd_paddr (v2_first t)"
abbreviation paddr2 :: "vm_data2 \<Rightarrow> u32" where "paddr2 t \<equiv> vd_paddr (v2_second t)"

definition split_load :: "nat \<Rightarrow> vm_data2 \<Rightarrow> mem \<Rightarrow> u8 list res" where
  "split_load n t m =
     rbind (read_n (split_len t) (paddr1 t) m) (\<lambda>b1.
     rbind (read_n (n - split_len t) (paddr2 t) m) (\<lambda>b2. Inr (b1 @ b2)))"

definition split_store :: "u8 list \<Rightarrow> vm_data2 \<Rightarrow> mem \<Rightarrow> mem res" where
  "split_store bs t m =
     rbind (write_n (List.take (split_len t) bs) (paddr1 t) m) (\<lambda>m1.
       write_n (List.drop (split_len t) bs) (paddr2 t) m1)"

definition load1 :: "vm_data2 \<Rightarrow> mem \<Rightarrow> u8 res" where "load1 t m = read1 (paddr1 t) m"

definition load2 :: "vm_data2 \<Rightarrow> mem \<Rightarrow> u16 res" where
  "load2 t m = (if \<not> v2_cross t then read2 (paddr1 t) m
     else rbind (read1 (paddr1 t) m) (\<lambda>a. rbind (read1 (paddr2 t) m) (\<lambda>b. Inr (ucast a OR push_bit 8 (ucast b)))))"

definition load4 :: "vm_data2 \<Rightarrow> mem \<Rightarrow> u32 res" where
  "load4 t m = (if \<not> v2_cross t then read4 (paddr1 t) m else rbind (split_load 4 t m) (\<lambda>bs. Inr (le_value bs)))"

definition load8 :: "vm_data2 \<Rightarrow> mem \<Rightarrow> u64 res" where
  "load8 t m = (if \<not> v2_cross t then read8 (paddr1 t) m else rbind (split_load 8 t m) (\<lambda>bs. Inr (le_value bs)))"

definition load16 :: "vm_data2 \<Rightarrow> mem \<Rightarrow> u8 list res" where
  "load16 t m = (if \<not> v2_cross t then read_n 16 (paddr1 t) m else split_load 16 t m)"

definition store1 :: "u8 \<Rightarrow> vm_data2 \<Rightarrow> mem \<Rightarrow> mem res" where "store1 d t m = write1 (paddr1 t) d m"

definition store2 :: "u16 \<Rightarrow> vm_data2 \<Rightarrow> mem \<Rightarrow> mem res" where
  "store2 d t m = (if \<not> v2_cross t then write2 (paddr1 t) d m
     else rbind (write1 (paddr1 t) (ucast (d AND 0xFF)) m) (\<lambda>m1. write1 (paddr2 t) (ucast (drop_bit 8 d)) m1))"

definition store4 :: "u32 \<Rightarrow> vm_data2 \<Rightarrow> mem \<Rightarrow> mem res" where
  "store4 d t m = (if \<not> v2_cross t then write4 (paddr1 t) d m else split_store (le_bytes 4 d) t m)"

definition store8 :: "u64 \<Rightarrow> vm_data2 \<Rightarrow> mem \<Rightarrow> mem res" where
  "store8 d t m = (if \<not> v2_cross t then write8 (paddr1 t) d m else split_store (le_bytes 8 d) t m)"

definition store16 :: "u8 list \<Rightarrow> vm_data2 \<Rightarrow> mem \<Rightarrow> mem res" where
  "store16 d t m = (if \<not> v2_cross t then write_n d (paddr1 t) m else split_store d t m)"

text \<open>Every access: the check, the exception if it finds one, and the transfer.\<close>

definition checked_load ::
  "(xcpu \<Rightarrow> (u64 option \<times> xcpu) res) \<Rightarrow> (vm_data2 \<Rightarrow> mem \<Rightarrow> 'a res) \<Rightarrow> xcpu \<Rightarrow> ((u64 + 'a) \<times> xcpu) res" where
  "checked_load chk ld s = rbind (chk s) (\<lambda>(exc, s1). case exc of
     Some e \<Rightarrow> Inr (Inl e, s1)
   | None \<Rightarrow> rbind (ld (x_translate s1) (x_mem s1)) (\<lambda>d. Inr (Inr d, s1)))"

definition checked_store ::
  "(xcpu \<Rightarrow> (u64 option \<times> xcpu) res) \<Rightarrow> (vm_data2 \<Rightarrow> mem \<Rightarrow> mem res) \<Rightarrow> xcpu \<Rightarrow> ((u64 + unit) \<times> xcpu) res" where
  "checked_store chk st s = rbind (chk s) (\<lambda>(exc, s1). case exc of
     Some e \<Rightarrow> Inr (Inl e, s1)
   | None \<Rightarrow> rbind (st (x_translate s1) (x_mem s1)) (\<lambda>m. Inr (Inr (), s1\<lparr>x_mem := m\<rparr>)))"

definition mem_read_1 :: "u64 \<Rightarrow> xcpu \<Rightarrow> ((u64 + u8) \<times> xcpu) res" where
  "mem_read_1 v = checked_load (mem_check_exc_read v 1) load1"
definition mem_read_2 :: "u64 \<Rightarrow> xcpu \<Rightarrow> ((u64 + u16) \<times> xcpu) res" where
  "mem_read_2 v = checked_load (mem_check_exc_read v 2) load2"
definition mem_read_4 :: "u64 \<Rightarrow> xcpu \<Rightarrow> ((u64 + u32) \<times> xcpu) res" where
  "mem_read_4 v = checked_load (mem_check_exc_read v 4) load4"
definition mem_read_8 :: "u64 \<Rightarrow> xcpu \<Rightarrow> ((u64 + u64) \<times> xcpu) res" where
  "mem_read_8 v = checked_load (mem_check_exc_read v 8) load8"
definition mem_read_xmm :: "u64 \<Rightarrow> xcpu \<Rightarrow> ((u64 + u8 list) \<times> xcpu) res" where
  "mem_read_xmm v = checked_load (mem_check_exc_read v 16) load16"
definition mem_read_xmm_aligned :: "u64 \<Rightarrow> xcpu \<Rightarrow> ((u64 + u8 list) \<times> xcpu) res" where
  "mem_read_xmm_aligned v s = (if v AND 15 \<noteq> 0 then Inr (Inl GP_EXCEPTION, s) else mem_read_xmm v s)"

definition mem_write_1 :: "u64 \<Rightarrow> u8 \<Rightarrow> xcpu \<Rightarrow> ((u64 + unit) \<times> xcpu) res" where
  "mem_write_1 v d = checked_store (mem_check_exc_write v 1) (store1 d)"
definition mem_write_2 :: "u64 \<Rightarrow> u16 \<Rightarrow> xcpu \<Rightarrow> ((u64 + unit) \<times> xcpu) res" where
  "mem_write_2 v d = checked_store (mem_check_exc_write v 2) (store2 d)"
definition mem_write_4 :: "u64 \<Rightarrow> u32 \<Rightarrow> xcpu \<Rightarrow> ((u64 + unit) \<times> xcpu) res" where
  "mem_write_4 v d = checked_store (mem_check_exc_write v 4) (store4 d)"
definition mem_write_8 :: "u64 \<Rightarrow> u64 \<Rightarrow> xcpu \<Rightarrow> ((u64 + unit) \<times> xcpu) res" where
  "mem_write_8 v d = checked_store (mem_check_exc_write v 8) (store8 d)"
definition mem_write_xmm :: "u64 \<Rightarrow> u8 list \<Rightarrow> xcpu \<Rightarrow> ((u64 + unit) \<times> xcpu) res" where
  "mem_write_xmm v d = checked_store (mem_check_exc_write v 16) (store16 d)"
definition mem_write_xmm_aligned :: "u64 \<Rightarrow> u8 list \<Rightarrow> xcpu \<Rightarrow> ((u64 + unit) \<times> xcpu) res" where
  "mem_write_xmm_aligned v d s = (if v AND 15 \<noteq> 0 then Inr (Inl GP_EXCEPTION, s) else mem_write_xmm v d s)"

text \<open>Read-modify-write: the read checks for both, the write uses the translation that it left.\<close>

definition mem_rmw_read_1 :: "u64 \<Rightarrow> xcpu \<Rightarrow> ((u64 + u8) \<times> xcpu) res" where
  "mem_rmw_read_1 v = checked_load (mem_check_exc_read_write v 1) load1"
definition mem_rmw_read_2 :: "u64 \<Rightarrow> xcpu \<Rightarrow> ((u64 + u16) \<times> xcpu) res" where
  "mem_rmw_read_2 v = checked_load (mem_check_exc_read_write v 2) load2"
definition mem_rmw_read_4 :: "u64 \<Rightarrow> xcpu \<Rightarrow> ((u64 + u32) \<times> xcpu) res" where
  "mem_rmw_read_4 v = checked_load (mem_check_exc_read_write v 4) load4"
definition mem_rmw_read_8 :: "u64 \<Rightarrow> xcpu \<Rightarrow> ((u64 + u64) \<times> xcpu) res" where
  "mem_rmw_read_8 v = checked_load (mem_check_exc_read_write v 8) load8"

definition rmw_store :: "(vm_data2 \<Rightarrow> mem \<Rightarrow> mem res) \<Rightarrow> xcpu \<Rightarrow> xcpu res" where
  "rmw_store st s = rbind (st (x_translate s) (x_mem s)) (\<lambda>m. Inr (s\<lparr>x_mem := m\<rparr>))"

definition mem_rmw_write_1 :: "u8 \<Rightarrow> xcpu \<Rightarrow> xcpu res" where "mem_rmw_write_1 d = rmw_store (store1 d)"
definition mem_rmw_write_2 :: "u16 \<Rightarrow> xcpu \<Rightarrow> xcpu res" where "mem_rmw_write_2 d = rmw_store (store2 d)"
definition mem_rmw_write_4 :: "u32 \<Rightarrow> xcpu \<Rightarrow> xcpu res" where "mem_rmw_write_4 d = rmw_store (store4 d)"
definition mem_rmw_write_8 :: "u64 \<Rightarrow> xcpu \<Rightarrow> xcpu res" where "mem_rmw_write_8 d = rmw_store (store8 d)"

section \<open>The translation caches\<close>

lemma drop_bit_page_number:
  "12 \<le> sh \<Longrightarrow> page_number v = page_number v' \<Longrightarrow> drop_bit sh v = drop_bit sh v'"
proof -
  assume "12 \<le> sh" "page_number v = page_number v'"
  then have "drop_bit (sh - 12) (drop_bit 12 v) = drop_bit (sh - 12) (drop_bit 12 v')" by (simp add: page_number_def)
  then show ?thesis using \<open>12 \<le> sh\<close> by simp
qed

lemma level_entry_cong:
  "12 \<le> sh \<Longrightarrow> page_number v = page_number v' \<Longrightarrow> level_entry v sh = level_entry v' sh"
  by (intro ext) (simp add: level_entry_def drop_bit_page_number[of sh v v'])

lemma walk_cong:
  assumes "page_number v = page_number v'"
  shows "walk v base m = walk v' base m"
proof -
  have "level_entry v sh = level_entry v' sh" if "sh \<in> {39, 30, 21, 12}" for sh
    using that level_entry_cong[OF _ assms, of sh] by auto
  then have "level_entry v 39 = level_entry v' 39" "level_entry v 30 = level_entry v' 30"
    "level_entry v 21 = level_entry v' 21" "level_entry v 12 = level_entry v' 12" by simp_all
  note eqs = this
  show ?thesis unfolding walk_def eqs ..
qed

text \<open>
  The reference: a translation that always walks. \<open>tlb_coherent\<close> says that every busy entry of a
  translation cache holds what the walk of its page would yield now.
\<close>

definition translation :: "vm_data \<Rightarrow> xcpu \<Rightarrow> vm_data res" where
  "translation r s =
     (if vm_enabled s then rbind (walk (vd_vaddr r) (vm_base s) (x_mem s)) (\<lambda>(ok, a, l).
        Inr (if ok then found a l r else missing l r))
      else Inr (untranslated r))"

definition tlb_coherent :: "xcpu \<Rightarrow> bool" where
  "tlb_coherent s \<longleftrightarrow> (\<forall>w i v. te_busy (x_tlb s w i) \<longrightarrow> page_number v = te_vaddr (x_tlb s w i)
     \<longrightarrow> walk v (vm_base s) (x_mem s)
         = Inr (True, vd_page_el_addr (te_el (x_tlb s w i)), vd_page (te_el (x_tlb s w i))))"

definition tlb_free :: "xcpu \<Rightarrow> bool" where
  "tlb_free s \<longleftrightarrow> (\<forall>w i. \<not> te_busy (x_tlb s w i))"

definition only_tlb :: "xcpu \<Rightarrow> xcpu \<Rightarrow> bool" where
  "only_tlb s s' \<longleftrightarrow> (\<exists>T. s' = s\<lparr>x_tlb := T\<rparr>)"

lemma tlb_index_less: "tlb_index v < 8192"
proof -
  have "page_number v AND 0x1FFF \<le> 0x1FFF" by (rule word_and_le1)
  then show ?thesis unfolding tlb_index_def by (simp add: word_le_nat_alt)
qed

lemma only_tlbD:
  assumes "only_tlb s s'"
  shows "x_mem s' = x_mem s" "x_msr s' = x_msr s" "x_gpr s' = x_gpr s" "x_rip s' = x_rip s"
    "x_eflags s' = x_eflags s" "x_cpl s' = x_cpl s" "x_int_enabled s' = x_int_enabled s"
    "x_translate s' = x_translate s" "vm_base s' = vm_base s" "vm_enabled s' = vm_enabled s"
  using assms by (auto simp: only_tlb_def vm_base_def vm_enabled_def)

lemma only_tlb_set: "only_tlb s s' \<Longrightarrow> only_tlb s (set_tlb w i e s')"
  by (auto simp: only_tlb_def set_tlb_def)

lemma only_tlb_refl [simp]: "only_tlb s s"
  unfolding only_tlb_def by (rule exI[of _ "x_tlb s"]) simp

lemma only_tlb_trans: "only_tlb s s' \<Longrightarrow> only_tlb s' s'' \<Longrightarrow> only_tlb s s''"
  by (auto simp: only_tlb_def)

lemma translation_only_tlb: "only_tlb s s' \<Longrightarrow> translation r s' = translation r s"
  by (simp add: translation_def only_tlbD)

lemma set_tlb_simps [simp]:
  "x_mem (set_tlb w i e s) = x_mem s" "vm_base (set_tlb w i e s) = vm_base s"
  "vm_enabled (set_tlb w i e s) = vm_enabled s"
  "x_tlb (set_tlb w i e s) w' i' = (if w' = w \<and> i' = i then e else x_tlb s w' i')"
  by (simp_all add: set_tlb_def vm_base_def vm_enabled_def)

lemma tlb_coherent_set:
  assumes "tlb_coherent s" and "te_busy e \<Longrightarrow> (\<And>v. page_number v = te_vaddr e \<Longrightarrow>
      walk v (vm_base s) (x_mem s) = Inr (True, vd_page_el_addr (te_el e), vd_page (te_el e)))"
  shows "tlb_coherent (set_tlb w i e s)"
  using assms unfolding tlb_coherent_def by auto

lemma found_simps [simp]:
  "vd_present (found a l r)" "vd_page_el_addr (found a l r) = a" "vd_page (found a l r) = l"
  "vd_vaddr (found a l r) = vd_vaddr r" "vd_write (found a l r) = pg_rw l" "vd_execute (found a l r) = (\<not> pg_nx l)"
  "vd_paddr (found a l r) = frame_addr l (vd_vaddr r)"
  by (simp_all add: found_def)

lemma missing_simps [simp]:
  "\<not> vd_present (missing l r)" "vd_vaddr (missing l r) = vd_vaddr r"
  by (simp_all add: missing_def)

lemma untranslated_simps [simp]:
  "vd_present (untranslated r)" "vd_vaddr (untranslated r) = vd_vaddr r" "vd_write (untranslated r)"
  "vd_execute (untranslated r)" "vd_paddr (untranslated r) = ucast (vd_vaddr r)"
  by (simp_all add: untranslated_def)

lemma get_physical_translation:
  assumes "tlb_coherent s"
  obtains s' where "get_physical w r s = rbind (translation r s) (\<lambda>r'. Inr (r', s'))" "tlb_coherent s'" "only_tlb s s'"
proof (cases "vm_enabled s")
  case False
  then show ?thesis using that[of s] assms by (simp add: get_physical_def translation_def)
next
  case True
  let ?v = "vd_vaddr r" let ?i = "tlb_index ?v" let ?e = "x_tlb s w ?i"
  show ?thesis
  proof (cases "te_busy ?e \<and> te_vaddr ?e = page_number ?v")
    case hit: True
    then have "walk ?v (vm_base s) (x_mem s) = Inr (True, vd_page_el_addr (te_el ?e), vd_page (te_el ?e))"
      using assms unfolding tlb_coherent_def by (metis (no_types))
    then show ?thesis using that[of s] assms hit True by (simp add: get_physical_def translation_def Let_def)
  next
    case miss: False
    let ?s1 = "set_tlb w ?i (?e\<lparr>te_busy := False\<rparr>) s"
    have c1: "tlb_coherent ?s1" by (rule tlb_coherent_set[OF assms]) simp
    have o1: "only_tlb s ?s1" by (simp add: only_tlb_set)
    show ?thesis
    proof (cases "walk ?v (vm_base s) (x_mem s)")
      case (Inl e)
      then show ?thesis using that[of s] assms True miss by (simp add: get_physical_def translation_def Let_def)
    next
      case (Inr x)
      obtain ok a l where x: "x = (ok, a, l)" by (cases x)
      show ?thesis
      proof (cases ok)
        case False
        then show ?thesis using that[of ?s1] c1 o1 Inr x True miss by (simp add: get_physical_def translation_def Let_def)
      next
        case ok: True
        let ?e2 = "\<lparr>te_el = found a l r, te_vaddr = page_number ?v, te_busy = True\<rparr>"
        have "tlb_coherent (set_tlb w ?i ?e2 ?s1)"
        proof (rule tlb_coherent_set[OF c1])
          fix v' assume "page_number v' = te_vaddr ?e2"
          then have "walk v' (vm_base s) (x_mem s) = walk ?v (vm_base s) (x_mem s)" by (intro walk_cong) simp
          then show "walk v' (vm_base ?s1) (x_mem ?s1) = Inr (True, vd_page_el_addr (te_el ?e2), vd_page (te_el ?e2))"
            using Inr x ok by simp
        qed
        moreover have "only_tlb s (set_tlb w ?i ?e2 ?s1)" using o1 by (rule only_tlb_set)
        ultimately show ?thesis using that[of "set_tlb w ?i ?e2 ?s1"] Inr x ok True miss
          by (simp add: get_physical_def translation_def Let_def)
      qed
    qed
  qed
qed

lemma tlb_free_coherent: "tlb_free s \<Longrightarrow> tlb_coherent s"
  by (simp add: tlb_free_def tlb_coherent_def)

lemma flush_tlbs_free [simp]: "tlb_free (flush_tlbs s)"
  by (simp add: tlb_free_def flush_tlbs_def)

text \<open>C4: With coherent translation caches the cached translation is the walk: it gives the same physical
  address, presence and rights as a translation without caches, it fails exactly when that fails, and it
  leaves the caches coherent and everything else unchanged. It looks at an entry inside the table, and a
  flush makes the caches coherent.\<close>

theorem translate_is_walk:
  assumes "tlb_coherent s"
  shows "(\<exists>s'. get_physical w r s = rbind (translation r s) (\<lambda>r'. Inr (r', s')) \<and> tlb_coherent s' \<and> only_tlb s s')
       \<and> tlb_index (vd_vaddr r) < 8192 \<and> tlb_coherent (flush_tlbs s')"
  using get_physical_translation[OF assms] tlb_index_less tlb_free_coherent[OF flush_tlbs_free] by blast

section \<open>Rights\<close>

text \<open>
  The rights of an access, said without caches and without the state that the check leaves: the
  exception of one page, and of an access, which is the first page's exception if it has one.
\<close>

definition page_fault :: "bool \<Rightarrow> u64 \<Rightarrow> xcpu \<Rightarrow> u64 option res" where
  "page_fault wr v s = rbind (translation ((v2_first (x_translate s))\<lparr>vd_vaddr := v\<rparr>) s) (\<lambda>p.
     Inr (if \<not> vd_present p then Some (PF_EXCEPTION OR page_of v)
          else if wr \<and> \<not> vd_write p then Some (GP_EXCEPTION OR page_of v) else None))"

definition last_byte :: "u64 \<Rightarrow> u8 \<Rightarrow> u64" where "last_byte v len = v + ucast len - 1"

definition access_fault :: "bool \<Rightarrow> u64 \<Rightarrow> u8 \<Rightarrow> xcpu \<Rightarrow> u64 option res" where
  "access_fault wr v len s = rbind (page_fault wr v s) (\<lambda>f1.
     if \<not> vm_enabled s \<or> page_of v = page_of (last_byte v len) then Inr f1
     else rbind (page_fault wr (page_of (last_byte v len)) s) (\<lambda>f2. Inr (if f1 = None then f2 else f1)))"

lemma translation_rights:
  "translation (r\<lparr>vd_vaddr := v\<rparr>) s = Inr p \<Longrightarrow> \<exists>p'. translation (r'\<lparr>vd_vaddr := v\<rparr>) s = Inr p'
     \<and> vd_present p' = vd_present p \<and> vd_write p' = vd_write p \<and> vd_vaddr p' = v \<and> vd_vaddr p = v
     \<and> (vd_present p \<longrightarrow> vd_paddr p' = vd_paddr p)"
  by (cases "walk v (vm_base s) (x_mem s)")
    (auto simp: translation_def missing_def split: if_splits)

lemma translation_Inl:
  "translation (r\<lparr>vd_vaddr := v\<rparr>) s = Inl e \<Longrightarrow> translation (r'\<lparr>vd_vaddr := v\<rparr>) s = Inl e"
  by (cases "walk v (vm_base s) (x_mem s)") (auto simp: translation_def split: if_splits)

lemma page_fault_of:
  "translation (r\<lparr>vd_vaddr := v\<rparr>) s = Inr p \<Longrightarrow> page_fault wr v s =
     Inr (if \<not> vd_present p then Some (PF_EXCEPTION OR page_of v)
          else if wr \<and> \<not> vd_write p then Some (GP_EXCEPTION OR page_of v) else None)"
  using translation_rights[where r = r and v = v and s = s and p = p and r' = "v2_first (x_translate s)"] by (auto simp: page_fault_def)

lemma page_of_idem [simp]: "page_of (page_of v) = page_of v"
  by (simp add: page_of_def and.assoc)

definition pages_of :: "vm_data2 \<Rightarrow> vm_data list" where
  "pages_of t = v2_first t # (if v2_cross t then [v2_second t] else [])"

text \<open>The check translates the pages of the access; the state it leaves differs in the caches and \<open>x_translate\<close>.\<close>

definition mmu_only :: "xcpu \<Rightarrow> xcpu \<Rightarrow> bool" where
  "mmu_only s s' \<longleftrightarrow> (\<exists>T t. s' = s\<lparr>x_tlb := T, x_translate := t\<rparr>)"

lemma mmu_onlyD:
  assumes "mmu_only s s'"
  shows "x_mem s' = x_mem s" "x_msr s' = x_msr s" "x_gpr s' = x_gpr s" "x_rip s' = x_rip s"
    "x_eflags s' = x_eflags s" "x_cpl s' = x_cpl s" "x_int_enabled s' = x_int_enabled s"
    "vm_base s' = vm_base s" "vm_enabled s' = vm_enabled s"
  using assms by (auto simp: mmu_only_def vm_base_def vm_enabled_def)

lemma mmu_only_upd: "only_tlb s s' \<Longrightarrow> mmu_only s (s'\<lparr>x_translate := t\<rparr>)"
  by (auto simp: mmu_only_def only_tlb_def)

lemma mmu_only_upd2: "mmu_only s s' \<Longrightarrow> mmu_only s (s'\<lparr>x_translate := t\<rparr>)"
  by (fastforce simp: mmu_only_def)

lemma tlb_coherent_translate [simp]: "tlb_coherent (s\<lparr>x_translate := t\<rparr>) = tlb_coherent s"
  by (simp add: tlb_coherent_def vm_base_def)

lemma check_pages_value:
  assumes "tlb_coherent s" and clear: "\<And>t. v2_first (clear t) = v2_first t"
  obtains (fault) e where "check_pages clear v len s = Inl e" "\<And>wr. access_fault wr v len s = Inl e"
  | (ok) s' where "check_pages clear v len s = Inr s'" "tlb_coherent s'" "mmu_only s s'"
      "\<And>wr. page_fault wr v s = Inr (if \<not> vd_present (v2_first (x_translate s')) then Some (PF_EXCEPTION OR page_of v)
          else if wr \<and> \<not> vd_write (v2_first (x_translate s')) then Some (GP_EXCEPTION OR page_of v) else None)"
      "vd_vaddr (v2_first (x_translate s')) = v"
      "v2_cross (x_translate s') \<longleftrightarrow> \<not> (\<not> vm_enabled s \<or> page_of v = page_of (last_byte v len))"
      "v2_cross (x_translate s') \<Longrightarrow> vd_vaddr (v2_second (x_translate s')) = page_of (last_byte v len)"
      "\<And>wr. v2_cross (x_translate s') \<Longrightarrow> page_fault wr (page_of (last_byte v len)) s =
         Inr (if \<not> vd_present (v2_second (x_translate s')) then Some (PF_EXCEPTION OR page_of (last_byte v len))
          else if wr \<and> \<not> vd_write (v2_second (x_translate s')) then Some (GP_EXCEPTION OR page_of (last_byte v len)) else None)"
proof -
  let ?t1 = "(clear (x_translate s))\<lparr>v2_vaddr := v, v2_length := len\<rparr>"
  let ?lb = "page_of (last_byte v len)"
  obtain s1 where g1: "get_physical Data_Tlb ((v2_first ?t1)\<lparr>vd_vaddr := v\<rparr>) s
      = rbind (translation ((v2_first ?t1)\<lparr>vd_vaddr := v\<rparr>) s) (\<lambda>r'. Inr (r', s1))"
    and c1: "tlb_coherent s1" and o1: "only_tlb s s1"
    using get_physical_translation[OF assms(1)] by blast
  show thesis
  proof (cases "translation ((v2_first ?t1)\<lparr>vd_vaddr := v\<rparr>) s")
    case (Inl e)
    moreover have "page_fault wr v s = Inl e" for wr
      using translation_Inl[OF Inl] by (simp add: page_fault_def)
    ultimately show thesis using g1 fault by (simp add: check_pages_def access_fault_def Let_def)
  next
    case (Inr p1)
    note f1 = page_fault_of[OF Inr]
    have v1: "vd_vaddr p1 = v" using translation_rights[OF Inr] by blast
    show thesis
    proof (cases "\<not> vm_enabled s \<or> page_of v = ?lb")
      case True
      let ?s' = "s1\<lparr>x_translate := ?t1\<lparr>v2_first := p1, v2_cross := False\<rparr>\<rparr>"
      have "check_pages clear v len s = Inr ?s'"
        using g1 Inr True only_tlbD(10)[OF o1] by (simp add: check_pages_def Let_def last_byte_def)
      then show thesis using ok[of ?s'] c1 mmu_only_upd[OF o1] f1 v1 True by simp
    next
      case False
      let ?r2 = "(v2_second (?t1\<lparr>v2_first := p1\<rparr>))\<lparr>vd_vaddr := ?lb\<rparr>"
      obtain s2 where g2: "get_physical Data_Tlb ?r2 s1 = rbind (translation ?r2 s1) (\<lambda>r'. Inr (r', s2))"
        and c2: "tlb_coherent s2" and o2: "only_tlb s1 s2"
        using get_physical_translation[OF c1] by blast
      have tr: "translation ?r2 s1 = translation ?r2 s" by (rule translation_only_tlb[OF o1])
      have chk: "check_pages clear v len s = rbind (translation ?r2 s) (\<lambda>p2. Inr (s2\<lparr>x_translate :=
          ?t1\<lparr>v2_first := p1, v2_last := last_byte v len, v2_second := p2, v2_cross := True\<rparr>\<rparr>))"
        using g1 Inr False g2 tr only_tlbD(10)[OF o1]
        by (cases "translation ?r2 s") (simp_all add: check_pages_def Let_def last_byte_def)
      show thesis
      proof (cases "translation ?r2 s")
        case (Inl e)
        moreover have "page_fault wr ?lb s = Inl e" for wr
          using translation_Inl[OF Inl] by (simp add: page_fault_def)
        ultimately show thesis using fault chk f1 False by (simp add: access_fault_def)
      next
        case (Inr p2)
        let ?s' = "s2\<lparr>x_translate := ?t1\<lparr>v2_first := p1, v2_last := last_byte v len, v2_second := p2, v2_cross := True\<rparr>\<rparr>"
        have "vd_vaddr p2 = ?lb" using translation_rights[OF Inr] by blast
        then show thesis
          using ok[of ?s'] chk Inr c2 mmu_only_upd[OF only_tlb_trans[OF o1 o2]] f1 v1 False page_fault_of[OF Inr] by simp
      qed
    qed
  qed
qed

lemma mmu_only_refl [simp]: "mmu_only s s"
  unfolding mmu_only_def by (intro exI[of _ "x_tlb s"] exI[of _ "x_translate s"]) simp

lemma read_check:
  assumes "tlb_coherent s"
  shows "\<exists>s'. mem_check_exc_read v len s = rbind (access_fault False v len s) (\<lambda>e. Inr (e, s')) \<and> tlb_coherent s' \<and> mmu_only s s'"
proof (cases rule: check_pages_value[OF assms, of "\<lambda>t. t\<lparr>v2_rcheck := False\<rparr>" v len])
  case 1
  then show ?case by simp
next
  case (2 e)
  then show ?thesis using assms by (auto simp: mem_check_exc_read_def intro!: exI[of _ s])
next
  case (3 s')
  let ?t = "x_translate s'"
  have "access_fault False v len s = Inr (if \<not> vd_present (v2_first ?t) then Some (fault_code PF_EXCEPTION (v2_first ?t))
      else if v2_cross ?t \<and> \<not> vd_present (v2_second ?t) then Some (fault_code PF_EXCEPTION (v2_second ?t)) else None)"
    using 3(4-8) by (cases "v2_cross ?t") (auto simp: access_fault_def fault_code_def)
  then show ?thesis using 3(1-3) mmu_only_upd2[OF 3(3)]
    by (auto simp: mem_check_exc_read_def Let_def)
qed

lemma write_check:
  assumes "tlb_coherent s" and clear: "\<And>t. v2_first (clear t) = v2_first t"
  shows "\<exists>s'. rbind (check_pages clear v len s) (\<lambda>s'. let t = x_translate s' in case write_fault t of
           Some e \<Rightarrow> Inr (Some e, s') | None \<Rightarrow> Inr (None, s'\<lparr>x_translate := done t\<rparr>))
         = rbind (access_fault True v len s) (\<lambda>e. Inr (e, s')) \<and> tlb_coherent s' \<and> mmu_only s s'"
proof (cases rule: check_pages_value[OF assms, of v len])
  case (1 e)
  then show ?thesis using assms(1) by (auto intro!: exI[of _ s])
next
  case (2 s')
  let ?t = "x_translate s'"
  have "access_fault True v len s = Inr (write_fault ?t)"
    using 2(4-8) by (cases "v2_cross ?t") (auto simp: access_fault_def fault_code_def write_fault_def)
  then show ?thesis using 2(1-3) mmu_only_upd2[OF 2(3)]
    by (auto simp: Let_def split: option.split)
qed

text \<open>C35: The exceptions of a memory access are those of its rights: a read faults on the first of its
  pages that is not present, a write (and a read-modify-write) on the first that is not present or not
  writable, with the exception code that carries the page; a check changes nothing but the translation
  caches, which stay coherent, and the record of the translation.\<close>

theorem access_checks_rights:
  assumes "tlb_coherent s"
  shows "(\<exists>s'. mem_check_exc_read v len s = rbind (access_fault False v len s) (\<lambda>e. Inr (e, s')) \<and> tlb_coherent s' \<and> mmu_only s s')
       \<and> (\<exists>s'. mem_check_exc_write v len s = rbind (access_fault True v len s) (\<lambda>e. Inr (e, s')) \<and> tlb_coherent s' \<and> mmu_only s s')
       \<and> (\<exists>s'. mem_check_exc_read_write v len s = rbind (access_fault True v len s) (\<lambda>e. Inr (e, s')) \<and> tlb_coherent s' \<and> mmu_only s s')"
proof (intro conjI)
  show "\<exists>s'. mem_check_exc_write v len s = rbind (access_fault True v len s) (\<lambda>e. Inr (e, s')) \<and> tlb_coherent s' \<and> mmu_only s s'"
    unfolding mem_check_exc_write_def by (rule write_check[OF assms]) simp
  show "\<exists>s'. mem_check_exc_read_write v len s = rbind (access_fault True v len s) (\<lambda>e. Inr (e, s')) \<and> tlb_coherent s' \<and> mmu_only s s'"
    unfolding mem_check_exc_read_write_def by (rule write_check[OF assms]) simp
qed (rule read_check[OF assms])

end
