(* ===== verification/X86_Access.thy ===== *)
theory X86_Access
  imports X86_Mmu
begin

text \<open>
  What the accesses of the x86-64 processor do with the bytes: an access that crosses a page boundary is
  split at the boundary, and a value written is read back unchanged, whatever the two pages map to.
\<close>

section \<open>Addresses\<close>

lemma unat_and_mask:
  fixes v :: u64
  shows "unat (v AND 0xFFF) = unat v mod 4096"
proof -
  have "v AND 0xFFF = take_bit 12 v" by (simp add: take_bit_eq_mask mask_eq_exp_minus_1)
  then show ?thesis by (simp add: take_bit_eq_mod unat_mod)
qed

lemma unat_page_number: "unat (page_number v) = unat v div 4096"
  by (simp add: page_number_def drop_bit_eq_div unat_div)

lemma tlb_index_unat: "tlb_index v = unat v div 4096 mod 8192"
proof -
  have "page_number v AND 0x1FFF = take_bit 13 (page_number v)" by (simp add: take_bit_eq_mask mask_eq_exp_minus_1)
  then show ?thesis by (simp add: tlb_index_def take_bit_eq_mod unat_mod unat_page_number)
qed

lemma page_of_split: "page_of v + (v AND 0xFFF) = v"
proof -
  have m: "(0xFFFFFFFFFFFFF000 :: u64) = NOT 0xFFF" by simp
  have "page_of v + (v AND 0xFFF) = page_of v OR (v AND 0xFFF)"
    unfolding page_of_def m by (rule disjunctive_add) (auto simp: bit_simps)
  also have "\<dots> = v" unfolding page_of_def m by (rule bit_word_eqI) (auto simp: bit_simps)
  finally show ?thesis .
qed

lemma unat_page_of: "unat (page_of v) = unat v div 4096 * 4096"
proof -
  have "page_of v = v - (v AND 0xFFF)" using page_of_split[of v] by (metis add_diff_cancel_right')
  moreover have "v AND 0xFFF \<le> v" by (rule word_and_le2)
  ultimately have "unat (page_of v) = unat v - unat v mod 4096" by (simp add: unat_sub unat_and_mask)
  also have "\<dots> = unat v div 4096 * 4096" by (rule minus_mod_eq_div_mult)
  finally show ?thesis .
qed

lemma page_of_mod: "unat (page_of v) mod 4096 = 0"
  by (simp add: unat_page_of)

lemma frame_addr_mod: "unat (frame_addr l v) mod 4096 = unat v mod 4096"
proof -
  have "unat (frame_addr l v) = unat (push_bit 12 (pg_addr l) + (v AND 0xFFF)) mod 2 ^ 32"
    by (simp add: frame_addr_def unsigned_ucast_eq take_bit_eq_mod)
  then have "unat (frame_addr l v) mod 4096 = unat (push_bit 12 (pg_addr l) + (v AND 0xFFF)) mod 4096"
    by (simp add: mod_mod_cancel)
  also have "\<dots> = (unat (push_bit 12 (pg_addr l)) + unat (v AND 0xFFF)) mod 4096"
    by (simp add: unat_word_ariths mod_mod_cancel)
  also have "\<dots> = unat v mod 4096"
  proof -
    have "unat (push_bit 12 (pg_addr l)) mod 4096 = 0"
      by (simp add: push_bit_eq_mult unat_word_ariths mod_mod_cancel)
    then show ?thesis by (simp add: unat_and_mask mod_add_eq[symmetric] del: mod_add_eq)
  qed
  finally show ?thesis .
qed

text \<open>An access of at most 16 bytes touches one page or two neighbours.\<close>

lemma unat_last_byte:
  assumes "0 < len" "len \<le> 16"
  shows "unat (last_byte v len) = (unat v + (unat len - 1)) mod 2 ^ 64"
proof -
  have "last_byte v len = v + (ucast len - 1)" by (simp add: last_byte_def)
  moreover have "unat (ucast len - 1 :: u64) = unat len - 1"
  proof -
    have "unat (ucast len :: u64) = unat len" using unsigned_less[of len, where ?'a = nat] by (simp add: unsigned_ucast_eq take_bit_eq_mod)
    moreover have "0 < unat len" using assms(1) by (simp add: unat_gt_0)
    ultimately show ?thesis by (metis unat_pred)
  qed
  ultimately show ?thesis by (simp add: unat_word_ariths)
qed

lemma mod_mult_div: "0 < (m :: nat) \<Longrightarrow> x mod (m * n) div m = x div m mod n"
  by (simp add: mod_mult2_eq)

lemma crossing:
  assumes "0 < len" "len \<le> 16" "page_of v \<noteq> page_of (last_byte v len)"
  shows "tlb_index (page_of (last_byte v len)) \<noteq> tlb_index v"
    and "4096 < unat v mod 4096 + unat len"
    and "unat (page_of (last_byte v len) - v) = 4096 - unat v mod 4096"
proof -
  let ?a = "unat v" and ?k = "unat len - 1" and ?L = "unat (last_byte v len)"
  have len: "0 < unat len" "unat len \<le> 16" using assms(1,2) by (simp_all add: unat_gt_0 word_le_nat_alt)
  have L: "?L = (?a + ?k) mod 2 ^ 64" by (rule unat_last_byte[OF assms(1,2)])
  have a: "?a < 2 ^ 64" using unsigned_less[of v, where ?'a = nat] by simp
  define q r where "q = ?a div 4096" and "r = ?a mod 4096"
  have qr: "?a = 4096 * q + r" "r < 4096" by (simp_all add: q_def r_def)
  have q: "q < 2 ^ 52" using a by (simp add: q_def div_less_iff_less_mult)
  have far: "4096 \<le> r + ?k"
  proof (rule ccontr)
    assume near: "\<not> ?thesis"
    then have "?a + ?k < 2 ^ 64" using qr q by simp
    moreover have "(?a + ?k) div 4096 = q" using near qr by simp
    ultimately have "unat (page_of (last_byte v len)) = unat (page_of v)" using L by (simp add: unat_page_of q_def)
    then show False using assms(3) by (metis word_unat_eq_iff)
  qed
  then show "4096 < unat v mod 4096 + unat len" using len(1) by (simp add: r_def)
  have d: "(?a + ?k) div 4096 = ?a div 4096 + 1"
  proof -
    have "?a + ?k = 4096 * (q + 1) + (r + ?k - 4096)" "r + ?k - 4096 < 4096" using far qr len(2) by simp_all
    then show ?thesis unfolding q_def[symmetric] by (metis add_0_right div_less div_mult_self4 mult.commute zero_neq_numeral add.commute)
  qed
  have Ld: "?L div 4096 = (?a div 4096 + 1) mod 2 ^ 52"
  proof -
    have "(?a + ?k) mod (4096 * 2 ^ 52) div 4096 = (?a + ?k) div 4096 mod 2 ^ 52"
      by (rule mod_mult_div) simp
    then show ?thesis unfolding L d[symmetric] by simp
  qed
  have "tlb_index (page_of (last_byte v len)) = (?a div 4096 + 1) mod 8192"
    using Ld by (simp add: tlb_index_unat unat_page_of mod_mod_cancel)
  then show "tlb_index (page_of (last_byte v len)) \<noteq> tlb_index v"
    by (simp add: tlb_index_unat mod_Suc)
  have "unat (page_of (last_byte v len)) = ((?a div 4096 + 1) * 4096) mod 2 ^ 64"
    using Ld mult_mod_left[of "?a div 4096 + 1" "2 ^ 52" 4096] by (simp add: unat_page_of)
  also have "(?a div 4096 + 1) * 4096 = ?a + (4096 - ?a mod 4096)" using qr unfolding q_def[symmetric] r_def[symmetric] by simp
  finally have p: "unat (page_of (last_byte v len)) = (?a + (4096 - ?a mod 4096)) mod 2 ^ 64" .
  define e where "e = 4096 - ?a mod 4096"
  have "e \<le> 4096" unfolding e_def by simp
  then have u: "unat (of_nat e :: u64) = e" by (simp add: unat_of_nat)
  have "page_of (last_byte v len) = v + of_nat e"
    using p unfolding e_def[symmetric] by (simp add: word_unat_eq_iff unat_word_ariths u)
  then show "unat (page_of (last_byte v len) - v) = 4096 - unat v mod 4096"
    using u by (simp add: e_def)
qed

section \<open>Two pieces\<close>

text \<open>
  The two pieces of a crossing access do not overlap: the first ends at a page boundary, the second
  starts at one, whatever frames the two pages are in.
\<close>

definition apart :: "vm_data2 \<Rightarrow> nat \<Rightarrow> bool" where
  "apart t n \<longleftrightarrow> split_len t \<le> n \<and> (unat (paddr1 t) + split_len t \<le> unat (paddr2 t)
     \<or> unat (paddr2 t) + (n - split_len t) \<le> unat (paddr1 t))"

lemma split_store_load:
  assumes "apart t (length bs)" "split_store bs t m = Inr m'"
  shows "split_load (length bs) t m' = Inr bs"
proof -
  let ?k = "split_len t"
  have k: "?k \<le> length bs" using assms(1) by (simp add: apart_def)
  obtain m1 where w1: "raw_write (take ?k bs) (paddr1 t) m = Inr m1"
    and w2: "raw_write (drop ?k bs) (paddr2 t) m1 = Inr m'"
    using assms(2) by (auto simp: split_store_def write_n_def rbind_Inr_iff)
  have "raw_read ?k (paddr1 t) m' = raw_read ?k (paddr1 t) m1"
    by (rule raw_write_other[OF w2]) (use assms(1) in \<open>auto simp: apart_def\<close>)
  then have "raw_read ?k (paddr1 t) m' = Inr (take ?k bs)" using raw_write_read[OF w1] k by simp
  moreover have "raw_read (length bs - ?k) (paddr2 t) m' = Inr (drop ?k bs)" using raw_write_read[OF w2] by simp
  ultimately show ?thesis by (simp add: split_load_def read_n_def)
qed

text \<open>What a value stored through a translation reads as, for the five widths.\<close>

lemma store_load_2:
  assumes "mem_inv m" "v2_cross t \<Longrightarrow> paddr1 t \<noteq> paddr2 t" "store2 d t m = Inr m'"
  shows "load2 t m' = Inr d"
proof (cases "v2_cross t")
  case False
  then show ?thesis using assms(3) checked_write[OF assms(1), of 2 d]
    by (auto simp: store2_def load2_def write2_def read2_def split: if_splits)
next
  case True
  obtain m1 where w: "write1 (paddr1 t) (ucast (d AND 0xFF)) m = Inr m1" "write1 (paddr2 t) (ucast (drop_bit 8 d)) m1 = Inr m'"
    using assms(3) True by (auto simp: store2_def rbind_Inr_iff)
  let ?lo = "ucast (d AND 0xFF) :: u8" and ?hi = "ucast (drop_bit 8 d) :: u8"
  have r1: "raw_write (le_bytes 1 ?lo) (paddr1 t) m = Inr m1" "\<not> m_size m \<le> paddr1 t"
    and r2: "raw_write (le_bytes 1 ?hi) (paddr2 t) m1 = Inr m'" "\<not> m_size m1 \<le> paddr2 t"
    using w by (auto simp: write1_def split: if_splits)
  note c1 = checked_write[OF assms(1) r1(1), simplified] and c2 = checked_write[OF raw_write_inv[OF assms(1) r1(1), THEN conjunct1] r2(1), simplified]
  have "raw_read 1 (paddr1 t) m' = raw_read 1 (paddr1 t) m1"
    by (rule raw_write_other[OF r2(1)]) (use assms(2) True in \<open>auto simp: word_unat_eq_iff\<close>)
  then have "read1 (paddr1 t) m' = Inr ?lo" "read1 (paddr2 t) m' = Inr ?hi"
    using c1 c2 r1(2) r2(2) by (simp_all add: read1_def)
  moreover have "ucast ?lo OR push_bit 8 (ucast ?hi) = d"
  proof -
    have "d AND 0xFF = take_bit 8 d" by (simp add: take_bit_eq_mask mask_eq_exp_minus_1)
    moreover have "ucast (ucast (take_bit 8 d) :: u8) OR push_bit 8 (ucast ?hi) = d"
      by (rule bit_word_eqI) (auto simp: bit_simps)
    ultimately show ?thesis by simp
  qed
  ultimately show ?thesis using True by (simp add: load2_def)
qed

lemma take_bit_full: "take_bit 32 (w :: u32) = w" "take_bit 64 (v :: u64) = v"
  using take_bit_length_eq[of w] take_bit_length_eq[of v] by simp_all

lemma store_load_4:
  assumes "mem_inv m" "v2_cross t \<Longrightarrow> apart t 4" "store4 d t m = Inr m'"
  shows "load4 t m' = Inr d"
  using assms checked_write[OF assms(1), of 4 d] split_store_load[of t "le_bytes 4 d" m m']
  by (cases "v2_cross t") (auto simp: store4_def load4_def write4_def read4_def le_value_bytes take_bit_full split: if_splits)

lemma store_load_8:
  assumes "mem_inv m" "v2_cross t \<Longrightarrow> apart t 8" "store8 d t m = Inr m'"
  shows "load8 t m' = Inr d"
  using assms checked_write[OF assms(1), of 8 d] split_store_load[of t "le_bytes 8 d" m m']
  by (cases "v2_cross t") (auto simp: store8_def load8_def write8_def read8_def le_value_bytes take_bit_full split: if_splits)

lemma store_load_16:
  assumes "length bs = 16" "v2_cross t \<Longrightarrow> apart t 16" "store16 bs t m = Inr m'"
  shows "load16 t m' = Inr bs"
  using assms split_store_load[of t bs m m'] raw_write_read[of bs "paddr1 t" m m']
  by (cases "v2_cross t") (auto simp: store16_def load16_def write_n_def read_n_def)

section \<open>A checked access and the next one\<close>

lemma get_physical_cases:
  assumes "get_physical w r s = Inr (p, s')" "vd_present p"
  obtains (off) "\<not> vm_enabled s" "p = untranslated r" "s' = s"
  | (on) a l where "vm_enabled s" "p = found a l r" "te_busy (x_tlb s' w (tlb_index (vd_vaddr r)))"
      "te_vaddr (x_tlb s' w (tlb_index (vd_vaddr r))) = page_number (vd_vaddr r)"
      "vd_page (te_el (x_tlb s' w (tlb_index (vd_vaddr r)))) = l"
  using assms by (auto simp: get_physical_def Let_def rbind_Inr_iff split: if_splits)

lemma vm_enabled_upd [simp]:
  "vm_enabled (s\<lparr>x_translate := t\<rparr>) = vm_enabled s" "vm_enabled (s\<lparr>x_mem := m\<rparr>) = vm_enabled s"
  by (simp_all add: vm_enabled_def)

lemma get_physical_only: "get_physical w r s = Inr (p, s') \<Longrightarrow> only_tlb s s'"
  by (auto simp: get_physical_def Let_def rbind_Inr_iff intro!: only_tlb_set split: if_splits)

lemma check_pages_only:
  assumes "check_pages clear v len s = Inr s'"
  shows "mmu_only s s'"
  using assms by (auto simp: check_pages_def Let_def rbind_Inr_iff split: if_splits
      dest!: get_physical_only intro!: mmu_only_upd intro: only_tlb_trans)

lemma get_physical_found:
  assumes "get_physical w r s = Inr (p, s')" "vd_present p" "vm_enabled s"
  shows "\<exists>a l. p = found a l r"
  using assms(1,2) by (cases rule: get_physical_cases) (use assms(3) in blast)+

lemma get_physical_frame:
  assumes "get_physical w r s = Inr (p, s')"
  shows "vm_enabled s' = vm_enabled s" "x_mem s' = x_mem s" "vd_vaddr p = vd_vaddr r"
    "i \<noteq> tlb_index (vd_vaddr r) \<Longrightarrow> x_tlb s' w i = x_tlb s w i"
  using assms by (auto simp: get_physical_def Let_def rbind_Inr_iff split: if_splits)

lemma get_physical_again:
  assumes "get_physical w r s = Inr (p, s')" "vd_present p" "vd_vaddr r2 = vd_vaddr r"
    "vm_enabled s2 = vm_enabled s" "x_tlb s2 w (tlb_index (vd_vaddr r)) = x_tlb s' w (tlb_index (vd_vaddr r))"
  obtains p2 where "get_physical w r2 s2 = Inr (p2, s2)" "vd_present p2" "vd_paddr p2 = vd_paddr p" "vd_vaddr p2 = vd_vaddr p"
  using assms(1,2)
proof (cases rule: get_physical_cases)
  case off
  then show thesis using that[of "untranslated r2"] assms(3,4) by (simp add: get_physical_def)
next
  case (on a l)
  then have "get_physical w r2 s2 = Inr (found (vd_page_el_addr (te_el (x_tlb s2 w (tlb_index (vd_vaddr r))))) l r2, s2)"
    using assms(3-5) by (simp add: get_physical_def Let_def)
  then show thesis using that on assms(3) by simp
qed

text \<open>The part of the translation record that a transfer uses.\<close>

definition same_pages :: "vm_data2 \<Rightarrow> vm_data2 \<Rightarrow> bool" where
  "same_pages t t2 \<longleftrightarrow> paddr1 t2 = paddr1 t \<and> v2_cross t2 = v2_cross t
     \<and> (v2_cross t \<longrightarrow> paddr2 t2 = paddr2 t \<and> split_len t2 = split_len t)"

lemma same_pages_load:
  assumes "same_pages t t2"
  shows "load1 t2 m = load1 t m" "load2 t2 m = load2 t m" "load4 t2 m = load4 t m" "load8 t2 m = load8 t m"
    "load16 t2 m = load16 t m"
  using assms by (cases "v2_cross t"; simp add: same_pages_def load1_def load2_def load4_def load8_def load16_def split_load_def)+

definition all_present :: "vm_data2 \<Rightarrow> bool" where
  "all_present t \<longleftrightarrow> vd_present (v2_first t) \<and> (v2_cross t \<longrightarrow> vd_present (v2_second t))"

lemma apart_pages:
  assumes len: "0 < len" "len \<le> 16" and cross: "page_of v \<noteq> page_of (last_byte v len)"
    and "unat (paddr1 t) mod 4096 = unat v mod 4096" "unat (paddr2 t) mod 4096 = 0"
    and "vd_vaddr (v2_second t) = page_of (last_byte v len)" "v2_vaddr t = v"
  shows "apart t (unat len)" "paddr1 t \<noteq> paddr2 t"
proof -
  let ?r = "unat v mod 4096"
  note c = crossing[OF len cross]
  have n: "unat len \<le> 16" using len(2) by (simp add: word_le_nat_alt)
  have k: "split_len t = 4096 - ?r"
  proof -
    have "split_len t = unat (page_of (last_byte v len) - v) mod 256"
      by (simp add: split_len_def assms(6,7) unsigned_ucast_eq take_bit_eq_mod)
    then show ?thesis unfolding c(3) using c(2) n by simp
  qed
  obtain f1 where p1: "unat (paddr1 t) = 4096 * f1 + ?r" using assms(4) by (metis mult_div_mod_eq)
  obtain f2 where p2: "unat (paddr2 t) = 4096 * f2" using assms(5) by (metis mult_div_mod_eq add_0_right)
  have r: "?r < 4096" by simp
  show "apart t (unat len)"
  proof (cases "f1 < f2")
    case True
    then show ?thesis using p1 p2 k r c(2) n by (simp add: apart_def)
  next
    case False
    then have "4096 * f2 \<le> 4096 * f1" by simp
    moreover have "unat len - (4096 - ?r) \<le> ?r" "4096 - ?r \<le> unat len" using c(2) n by arith+
    ultimately show ?thesis unfolding apart_def k p1 p2 by linarith
  qed
  show "paddr1 t \<noteq> paddr2 t" using assms(4,5) c(2) n by auto
qed

lemma check_pages_again:
  assumes "check_pages clear v len s = Inr s'" "all_present (x_translate s')" "0 < len" "len \<le> 16"
    and s2: "vm_enabled s2 = vm_enabled s" "x_tlb s2 = x_tlb s'"
    and clear: "\<And>t. v2_first (clear t) = v2_first t" "\<And>t. v2_first (clear2 t) = v2_first t"
  obtains t2 where "check_pages clear2 v len s2 = Inr (s2\<lparr>x_translate := t2\<rparr>)" "same_pages (x_translate s') t2" "all_present t2"
    "v2_cross (x_translate s') \<Longrightarrow> apart (x_translate s') (unat len) \<and> paddr1 (x_translate s') \<noteq> paddr2 (x_translate s')"
proof -
  let ?t = "x_translate s'" and ?t1 = "(clear (x_translate s))\<lparr>v2_vaddr := v, v2_length := len\<rparr>"
  let ?u1 = "(clear2 (x_translate s2))\<lparr>v2_vaddr := v, v2_length := len\<rparr>"
  let ?lb = "page_of (last_byte v len)" and ?single = "\<not> vm_enabled s \<or> page_of v = page_of (last_byte v len)"
  obtain p1 s1 where g1: "get_physical Data_Tlb ((v2_first ?t1)\<lparr>vd_vaddr := v\<rparr>) s = Inr (p1, s1)"
    using assms(1) by (auto simp: check_pages_def Let_def rbind_Inr_iff)
  have e1: "vm_enabled s1 = vm_enabled s" using get_physical_frame(1)[OF g1] .
  show thesis
  proof (cases ?single)
    case True
    then have s': "s' = s1\<lparr>x_translate := ?t1\<lparr>v2_first := p1, v2_cross := False\<rparr>\<rparr>"
      using assms(1) g1 e1 by (simp add: check_pages_def Let_def last_byte_def)
    obtain q1 where q1: "get_physical Data_Tlb ((v2_first ?u1)\<lparr>vd_vaddr := v\<rparr>) s2 = Inr (q1, s2)"
      "vd_present q1" "vd_paddr q1 = vd_paddr p1"
      by (rule get_physical_again[OF g1, where ?r2.0 = "(v2_first ?u1)\<lparr>vd_vaddr := v\<rparr>" and ?s2.0 = s2])
        (use assms(2) s2 s' in \<open>simp_all add: all_present_def\<close>)
    have "check_pages clear2 v len s2 = Inr (s2\<lparr>x_translate := ?u1\<lparr>v2_first := q1, v2_cross := False\<rparr>\<rparr>)"
      using q1(1) True s2(1) by (simp add: check_pages_def Let_def last_byte_def)
    then show thesis by (rule that) (use q1 s' in \<open>simp_all add: same_pages_def all_present_def\<close>)
  next
    case False
    let ?r2 = "(v2_second (?t1\<lparr>v2_first := p1\<rparr>))\<lparr>vd_vaddr := ?lb\<rparr>"
    have cr: "page_of v \<noteq> page_of (last_byte v len)" using False by blast
    obtain p2 s3 where g2: "get_physical Data_Tlb ?r2 s1 = Inr (p2, s3)"
      and s': "s' = s3\<lparr>x_translate := ?t1\<lparr>v2_first := p1, v2_last := last_byte v len, v2_second := p2, v2_cross := True\<rparr>\<rparr>"
      using assms(1) g1 e1 False by (auto simp: check_pages_def Let_def last_byte_def rbind_Inr_iff)
    have pr: "vd_present p1" "vd_present p2" using assms(2) s' by (simp_all add: all_present_def)
    have keep: "x_tlb s2 Data_Tlb (tlb_index v) = x_tlb s1 Data_Tlb (tlb_index v)"
      using get_physical_frame(4)[OF g2, of "tlb_index v"] crossing(1)[OF assms(3,4) cr] s2(2) s' by simp
    obtain q1 where q1: "get_physical Data_Tlb ((v2_first ?u1)\<lparr>vd_vaddr := v\<rparr>) s2 = Inr (q1, s2)"
      "vd_present q1" "vd_paddr q1 = vd_paddr p1" "vd_vaddr q1 = vd_vaddr p1"
      by (rule get_physical_again[OF g1 pr(1), where ?r2.0 = "(v2_first ?u1)\<lparr>vd_vaddr := v\<rparr>" and ?s2.0 = s2])
        (use keep s2 in simp_all)
    let ?u2 = "(v2_second (?u1\<lparr>v2_first := q1\<rparr>))\<lparr>vd_vaddr := ?lb\<rparr>"
    obtain q2 where q2: "get_physical Data_Tlb ?u2 s2 = Inr (q2, s2)"
      "vd_present q2" "vd_paddr q2 = vd_paddr p2" "vd_vaddr q2 = vd_vaddr p2"
      by (rule get_physical_again[OF g2 pr(2), where ?r2.0 = ?u2 and ?s2.0 = s2]) (use s2 s' e1 in simp_all)
    let ?v2 = "?u1\<lparr>v2_first := q1, v2_last := last_byte v len, v2_second := q2, v2_cross := True\<rparr>"
    have "check_pages clear2 v len s2 = Inr (s2\<lparr>x_translate := ?v2\<rparr>)"
      using q1(1) q2(1) False s2(1) by (simp add: check_pages_def Let_def last_byte_def)
    moreover have "same_pages ?t ?v2" using q1 q2 s' by (simp add: same_pages_def split_len_def)
    moreover have "all_present ?v2" using q1 q2 by (simp add: all_present_def)
    moreover have "apart ?t (unat len) \<and> paddr1 ?t \<noteq> paddr2 ?t"
    proof -
      have on: "vm_enabled s" using False by blast
      obtain a l where p1: "p1 = found a l ((v2_first ?t1)\<lparr>vd_vaddr := v\<rparr>)"
        using get_physical_found[OF g1 pr(1) on] by blast
      obtain a' l' where p2: "p2 = found a' l' ?r2"
        using get_physical_found[OF g2 pr(2)] on e1 by blast
      have m: "unat (paddr1 ?t) mod 4096 = unat v mod 4096" "unat (paddr2 ?t) mod 4096 = 0"
        using s' p1 p2 by (simp_all add: frame_addr_mod page_of_mod)
      have g: "vd_vaddr (v2_second ?t) = ?lb" "v2_vaddr ?t = v" using s' p2 by simp_all
      show ?thesis using apart_pages[OF assms(3,4) cr m g] by (rule conjI)
    qed
    ultimately show thesis using that by blast
  qed
qed

text \<open>
  A store that passed the check of a write or of a read-modify-write: the next read of the same bytes
  passes its check and uses the same translation.
\<close>

lemma write_fault_None: "write_fault t = None \<Longrightarrow> all_present t"
  by (auto simp: write_fault_def all_present_def split: if_splits)

lemma read_after_check:
  assumes chk: "rbind (check_pages clear v len s) (\<lambda>s'. let t = x_translate s' in case write_fault t of
        Some e \<Rightarrow> Inr (Some e, s') | None \<Rightarrow> Inr (None, s'\<lparr>x_translate := done t\<rparr>)) = Inr (None, s1)"
    and "0 < len" "len \<le> 16" "\<And>t. v2_first (clear t) = v2_first t" "\<And>t. same_pages t (done t)"
  shows "\<exists>s2 t. mem_check_exc_read v len (s1\<lparr>x_mem := m\<rparr>) = Inr (None, s2) \<and> x_mem s2 = m
    \<and> same_pages t (x_translate s2) \<and> same_pages t (x_translate s1)
    \<and> (v2_cross t \<longrightarrow> apart t (unat len) \<and> paddr1 t \<noteq> paddr2 t)"
proof -
  obtain s' where c: "check_pages clear v len s = Inr s'" and w: "write_fault (x_translate s') = None"
    and s1: "s1 = s'\<lparr>x_translate := done (x_translate s')\<rparr>"
    using chk by (auto simp: rbind_Inr_iff Let_def split: option.splits)
  note o = mmu_onlyD[OF check_pages_only[OF c]]
  have p: "all_present (x_translate s')" by (rule write_fault_None[OF w])
  let ?s1 = "s1\<lparr>x_mem := m\<rparr>"
  obtain t2 where t2: "check_pages (\<lambda>t. t\<lparr>v2_rcheck := False\<rparr>) v len ?s1 = Inr (?s1\<lparr>x_translate := t2\<rparr>)"
    "same_pages (x_translate s') t2" "all_present t2"
    "v2_cross (x_translate s') \<Longrightarrow> apart (x_translate s') (unat len) \<and> paddr1 (x_translate s') \<noteq> paddr2 (x_translate s')"
    by (rule check_pages_again[OF c p assms(2,3), where ?s2.0 = ?s1 and ?clear2.0 = "\<lambda>t. t\<lparr>v2_rcheck := False\<rparr>"])
      (use s1 o assms(4) in simp_all)
  let ?s2 = "?s1\<lparr>x_translate := t2\<lparr>v2_rcheck := True\<rparr>\<rparr>"
  have "mem_check_exc_read v len ?s1 = Inr (None, ?s2)"
    using t2(1,3) by (simp add: mem_check_exc_read_def all_present_def Let_def)
  moreover have "same_pages (x_translate s') (x_translate ?s2)" using t2(2) by (simp add: same_pages_def split_len_def)
  moreover have "same_pages (x_translate s') (x_translate s1)" using assms(5) s1 by simp
  ultimately show ?thesis using t2(4) by (intro exI[of _ ?s2] exI[of _ "x_translate s'"]) simp
qed

lemma same_pages_store:
  assumes "same_pages t t2"
  shows "store1 d t2 m = store1 d t m" "store2 d2 t2 m = store2 d2 t m" "store4 d4 t2 m = store4 d4 t m"
    "store8 d8 t2 m = store8 d8 t m" "store16 bs t2 m = store16 bs t m"
  using assms by (cases "v2_cross t"; simp add: same_pages_def store1_def store2_def store4_def store8_def store16_def split_store_def)+

lemma same_pages_flags: "same_pages t (t\<lparr>v2_wcheck := b\<rparr>)" "same_pages t (t\<lparr>v2_wcheck := b, v2_rcheck := c\<rparr>)"
  by (simp_all add: same_pages_def split_len_def)

text \<open>A store and a load of the same width that agree on a translation agree on the value.\<close>

lemma write_then_load:
  assumes chk: "chk = mem_check_exc_write v len \<or> chk = mem_check_exc_read_write v len"
    and st: "checked_store chk st s = Inr (Inr (), s1)" and len: "0 < len" "len \<le> 16"
    and trans: "\<And>t t2 m. same_pages t t2 \<Longrightarrow> st t2 m = st t m \<and> ld t2 m = ld t m"
    and rt: "\<And>t m m'. m = x_mem s \<Longrightarrow> (v2_cross t \<Longrightarrow> apart t (unat len) \<and> paddr1 t \<noteq> paddr2 t) \<Longrightarrow> st t m = Inr m' \<Longrightarrow> ld t m' = Inr d"
  shows "\<exists>s2. checked_load (mem_check_exc_read v len) ld s1 = Inr (Inr d, s2)"
proof -
  obtain s' m where c: "chk s = Inr (None, s')" and w: "st (x_translate s') (x_mem s') = Inr m" and s1: "s1 = s'\<lparr>x_mem := m\<rparr>"
    using st by (auto simp: checked_store_def rbind_Inr_iff split: option.splits)
  have mem: "x_mem s' = x_mem s"
    using chk c by (auto simp: mem_check_exc_write_def mem_check_exc_read_write_def rbind_Inr_iff Let_def mmu_onlyD(1)[OF check_pages_only] split: option.splits)
  from chk have "\<exists>s2 t. mem_check_exc_read v len (s'\<lparr>x_mem := m\<rparr>) = Inr (None, s2) \<and> x_mem s2 = m
    \<and> same_pages t (x_translate s2) \<and> same_pages t (x_translate s')
    \<and> (v2_cross t \<longrightarrow> apart t (unat len) \<and> paddr1 t \<noteq> paddr2 t)"
  proof
    assume "chk = mem_check_exc_write v len"
    then have "mem_check_exc_write v len s = Inr (None, s')" using c by simp
    then show ?thesis unfolding mem_check_exc_write_def
      by (rule read_after_check[OF _ len]) (simp_all add: same_pages_flags)
  next
    assume "chk = mem_check_exc_read_write v len"
    then have "mem_check_exc_read_write v len s = Inr (None, s')" using c by simp
    then show ?thesis unfolding mem_check_exc_read_write_def
      by (rule read_after_check[OF _ len]) (simp_all add: same_pages_flags)
  qed
  then obtain s2 t where r: "mem_check_exc_read v len s1 = Inr (None, s2)" "x_mem s2 = m"
    "same_pages t (x_translate s2)" "same_pages t (x_translate s')" "v2_cross t \<Longrightarrow> apart t (unat len) \<and> paddr1 t \<noteq> paddr2 t"
    using s1 by blast
  have "st t (x_mem s') = Inr m" using trans[OF r(4)] w by simp
  then have "ld t m = Inr d" using rt[OF mem] r(5) by blast
  then have "ld (x_translate s2) (x_mem s2) = Inr d" using trans[OF r(3)] r(2) by simp
  then show ?thesis using r(1) by (simp add: checked_load_def)
qed

lemma store_load_1:
  assumes "mem_inv m" "store1 d t m = Inr m'"
  shows "load1 t m' = Inr d"
  using assms(2) checked_write[OF assms(1), of 1 d]
  by (auto simp: store1_def load1_def write1_def read1_def split: if_splits)

text \<open>The read of a read-modify-write leaves the translation with which its write stores.\<close>

lemma rmw_is_store:
  assumes "checked_load (mem_check_exc_read_write v len) ld s = Inr (Inr x, s1)" "rmw_store st s1 = Inr s2"
  shows "checked_store (mem_check_exc_read_write v len) st s = Inr (Inr (), s2)"
  using assms by (auto simp: checked_load_def checked_store_def rmw_store_def rbind_Inr_iff split: option.splits)

text \<open>C26: What the processor writes it reads back, through the same virtual address and with the same width,
  for every width, also when the access crosses a page boundary and whatever frames the pages are mapped
  to, and even when the write hit the page tables; a read-modify-write likewise.\<close>

theorem written_is_read:
  assumes "mem_inv (x_mem s)" "length bs = 16"
  shows "(\<forall>s1. mem_write_1 v d1 s = Inr (Inr (), s1) \<longrightarrow> (\<exists>s2. mem_read_1 v s1 = Inr (Inr d1, s2)))
       \<and> (\<forall>s1. mem_write_2 v d2 s = Inr (Inr (), s1) \<longrightarrow> (\<exists>s2. mem_read_2 v s1 = Inr (Inr d2, s2)))
       \<and> (\<forall>s1. mem_write_4 v d4 s = Inr (Inr (), s1) \<longrightarrow> (\<exists>s2. mem_read_4 v s1 = Inr (Inr d4, s2)))
       \<and> (\<forall>s1. mem_write_8 v d8 s = Inr (Inr (), s1) \<longrightarrow> (\<exists>s2. mem_read_8 v s1 = Inr (Inr d8, s2)))
       \<and> (\<forall>s1. mem_write_xmm v bs s = Inr (Inr (), s1) \<longrightarrow> (\<exists>s2. mem_read_xmm v s1 = Inr (Inr bs, s2)))
       \<and> (\<forall>x s1 s2. mem_rmw_read_8 v s = Inr (Inr x, s1) \<longrightarrow> mem_rmw_write_8 d8 s1 = Inr s2
            \<longrightarrow> (\<exists>s3. mem_read_8 v s2 = Inr (Inr d8, s3)))"
proof (intro conjI allI impI)
  note w = mem_write_1_def mem_write_2_def mem_write_4_def mem_write_8_def mem_write_xmm_def
  note r = mem_read_1_def mem_read_2_def mem_read_4_def mem_read_8_def mem_read_xmm_def
  note t = same_pages_store same_pages_load
  show "\<exists>s2. mem_read_1 v s1 = Inr (Inr d1, s2)" if "mem_write_1 v d1 s = Inr (Inr (), s1)" for s1
    unfolding r by (rule write_then_load[OF disjI1[OF refl] that[unfolded w]]) (use store_load_1[OF assms(1)] in \<open>simp_all add: t\<close>)
  show "\<exists>s2. mem_read_2 v s1 = Inr (Inr d2, s2)" if "mem_write_2 v d2 s = Inr (Inr (), s1)" for s1
    unfolding r by (rule write_then_load[OF disjI1[OF refl] that[unfolded w]]) (use store_load_2[OF assms(1)] in \<open>auto simp: t\<close>)
  show "\<exists>s2. mem_read_4 v s1 = Inr (Inr d4, s2)" if "mem_write_4 v d4 s = Inr (Inr (), s1)" for s1
    unfolding r by (rule write_then_load[OF disjI1[OF refl] that[unfolded w]]) (use store_load_4[OF assms(1)] in \<open>auto simp: t\<close>)
  show "\<exists>s2. mem_read_8 v s1 = Inr (Inr d8, s2)" if "mem_write_8 v d8 s = Inr (Inr (), s1)" for s1
    unfolding r by (rule write_then_load[OF disjI1[OF refl] that[unfolded w]]) (use store_load_8[OF assms(1)] in \<open>auto simp: t\<close>)
  show "\<exists>s2. mem_read_xmm v s1 = Inr (Inr bs, s2)" if "mem_write_xmm v bs s = Inr (Inr (), s1)" for s1
    unfolding r by (rule write_then_load[OF disjI1[OF refl] that[unfolded w]]) (use store_load_16[OF assms(2)] in \<open>auto simp: t\<close>)
  show "\<exists>s3. mem_read_8 v s2 = Inr (Inr d8, s3)"
    if "mem_rmw_read_8 v s = Inr (Inr x, s1)" "mem_rmw_write_8 d8 s1 = Inr s2" for x s1 s2
    unfolding r by (rule write_then_load[OF disjI2[OF refl] rmw_is_store[OF that[unfolded mem_rmw_read_8_def mem_rmw_write_8_def]]])
      (use store_load_8[OF assms(1)] in \<open>auto simp: t\<close>)
qed

section \<open>Concrete instances\<close>

text \<open>
  A user-mode processor with a page table in its first frame that maps the first page to that frame:
  the entry at address 0 serves for all four levels.
\<close>

definition demo_mem :: mem where
  "demo_mem = \<lparr>m_vector = 3 # replicate 63 0, m_size = 64\<rparr>"

definition blank_vm :: vm_data where
  "blank_vm = \<lparr>vd_vaddr = 0, vd_paddr = 0, vd_present = False, vd_read = False, vd_write = False, vd_execute = False,
     vd_page = 0, vd_page_el_addr = 0\<rparr>"

definition demo_cpu :: xcpu where
  "demo_cpu = \<lparr>x_mem = demo_mem, x_msr = (\<lambda>_. 0)(MSR_VIRTUAL_MEMORY_CFG := 0x10000000000, MSR_KERNEL_STACK_PTR := 56),
     x_gpr = (\<lambda>_. 0), x_rip = 0, x_eflags = 2, x_cpl = CPL_USER, x_int_enabled = True,
     x_tlb = (\<lambda>_ _. \<lparr>te_el = blank_vm, te_vaddr = 0, te_busy = False\<rparr>),
     x_translate = \<lparr>v2_first = blank_vm, v2_second = blank_vm, v2_cross = False, v2_vaddr = 0, v2_last = 0,
       v2_rcheck = False, v2_wcheck = False, v2_length = 0\<rparr>\<rparr>"

lemma demo_mem_inv: "mem_inv demo_mem"
  by (simp add: mem_inv_def demo_mem_def)

lemma demo_coherent: "tlb_coherent demo_cpu"
  by (rule tlb_free_coherent) (simp add: tlb_free_def demo_cpu_def)

lemma demo_read: "read8 0 demo_mem = Inr 3"
proof -
  have "replicate 7 (0 :: u8) = [0, 0, 0, 0, 0, 0, 0]" by (simp add: numeral_eq_Suc)
  then have "raw_read 8 0 demo_mem = Inr [3, 0, 0, 0, 0, 0, 0, 0]" by (simp add: raw_read_def demo_mem_def)
  then show ?thesis by (simp add: read8_def) (simp add: demo_mem_def)
qed

lemma demo_walk: "walk 16 0 demo_mem = Inr (True, 0, 3)"
  by (simp add: walk_def level_entry_def demo_read pg_p_def table_base_def pg_addr_def)

lemma demo_on: "vm_enabled demo_cpu" "vm_base demo_cpu = 0"
  by (simp_all add: vm_enabled_def vm_base_def demo_cpu_def MSR_VIRTUAL_MEMORY_CFG_def MSR_KERNEL_STACK_PTR_def)

lemma demo_translation: "translation (r\<lparr>vd_vaddr := 16\<rparr>) demo_cpu = Inr (found 0 3 (r\<lparr>vd_vaddr := 16\<rparr>))"
  using demo_walk by (simp add: translation_def demo_on) (simp add: demo_cpu_def)

lemma translate_is_walk_witness:
  "\<exists>p s'. get_physical Data_Tlb (blank_vm\<lparr>vd_vaddr := 16\<rparr>) demo_cpu = Inr (p, s') \<and> vd_present p \<and> vd_paddr p = 16"
proof -
  obtain s' where "get_physical Data_Tlb (blank_vm\<lparr>vd_vaddr := 16\<rparr>) demo_cpu
      = rbind (translation (blank_vm\<lparr>vd_vaddr := 16\<rparr>) demo_cpu) (\<lambda>r'. Inr (r', s'))"
    using translate_is_walk[OF demo_coherent] by blast
  then show ?thesis by (simp add: demo_translation frame_addr_def pg_addr_def)
qed

lemma demo_access: "access_fault w 16 8 demo_cpu = Inr None"
  by (simp add: access_fault_def page_fault_def demo_translation last_byte_def page_of_def pg_rw_def)

lemma access_checks_rights_witness: "\<exists>s'. mem_check_exc_read 16 8 demo_cpu = Inr (None, s') \<and> tlb_coherent s'"
  using access_checks_rights[OF demo_coherent, of 16 8] by (auto simp: demo_access)

lemma demo_write: "\<exists>s1. mem_write_8 16 7 demo_cpu = Inr (Inr (), s1)"
proof -
  obtain s' where g: "get_physical Data_Tlb (blank_vm\<lparr>vd_vaddr := 16\<rparr>) demo_cpu = Inr (found 0 3 (blank_vm\<lparr>vd_vaddr := 16\<rparr>), s')"
    "only_tlb demo_cpu s'"
    using get_physical_translation[OF demo_coherent, of Data_Tlb "blank_vm\<lparr>vd_vaddr := 16\<rparr>"] demo_translation by auto
  have b: "v2_first (x_translate demo_cpu) = blank_vm" by (simp add: demo_cpu_def)
  obtain t where "check_pages (\<lambda>t. t\<lparr>v2_wcheck := False\<rparr>) 16 8 demo_cpu = Inr (s'\<lparr>x_translate := t\<rparr>)"
    "v2_first t = found 0 3 (blank_vm\<lparr>vd_vaddr := 16\<rparr>)" "\<not> v2_cross t"
    using g by (simp add: check_pages_def b page_of_def)
  moreover have "x_mem s' = demo_mem" using only_tlbD(1)[OF g(2)] by (simp add: demo_cpu_def)
  moreover have "frame_addr 3 16 = 16" by (simp add: frame_addr_def pg_addr_def)
  moreover have "\<exists>m. write8 16 7 demo_mem = Inr m" by (simp add: write8_def raw_write_def) (simp add: demo_mem_def)
  ultimately show ?thesis
    by (auto simp: mem_write_8_def checked_store_def mem_check_exc_write_def write_fault_def pg_rw_def store8_def)
qed

lemma written_is_read_witness:
  "\<exists>s1 s2. mem_write_8 16 7 demo_cpu = Inr (Inr (), s1) \<and> mem_read_8 16 s1 = Inr (Inr 7, s2)"
proof -
  have "mem_inv (x_mem demo_cpu)" using demo_mem_inv by (simp add: demo_cpu_def)
  moreover have "length (replicate 16 (0 :: u8)) = 16" by simp
  ultimately have "\<forall>s1. mem_write_8 16 7 demo_cpu = Inr (Inr (), s1) \<longrightarrow> (\<exists>s2. mem_read_8 16 s1 = Inr (Inr 7, s2))"
    using written_is_read by blast
  with demo_write show ?thesis by blast
qed

end
