(* ===== verification/X86_System.thy ===== *)
theory X86_System
  imports X86_Access
begin

text \<open>
  The entries into the kernel and the way back, \<open>src/src/cpu/x86_64/x86_64.cpp\<close>: the initial state, the
  model-specific registers, exceptions, traps (software interrupts and system calls), external
  interrupts, the execution of one instruction with its exception path (\<open>bochs_exec\<close>), and the return
  \<open>IRET64\<close> of \<open>bochs/cpu/ctrl_xfer64.cpp\<close>, which this project rewrote for its own kernel frame. The
  semantics of an instruction is the parameter \<open>exe\<close> of \<open>bochs_exec\<close>: it is code of the Bochs emulator.
\<close>

section \<open>Registers\<close>

definition RAX :: nat where "RAX = 0"
definition RCX :: nat where "RCX = 1"
definition RSP :: nat where "RSP = 4"
definition R11 :: nat where "R11 = 11"

definition read_msr :: "u32 \<Rightarrow> xcpu \<Rightarrow> u64" where
  "read_msr code s = (if code < 16 then x_msr s (unat code) else 0)"

definition write_msr :: "u32 \<Rightarrow> u64 \<Rightarrow> xcpu \<Rightarrow> xcpu" where
  "write_msr code v s = (if code < 16 then s\<lparr>x_msr := (x_msr s)(unat code := v)\<rparr> else s)"

definition set_gpr :: "nat \<Rightarrow> u64 \<Rightarrow> xcpu \<Rightarrow> xcpu" where
  "set_gpr r v s = s\<lparr>x_gpr := (x_gpr s)(r := v)\<rparr>"

text \<open>\<open>initialize_arch\<close>: what it does not set keeps the indeterminate content of the new object.\<close>

definition initialize_arch :: "u64 \<Rightarrow> u64 \<Rightarrow> u64 \<Rightarrow> u64 \<Rightarrow> xcpu \<Rightarrow> xcpu" where
  "initialize_arch phy virt cpu boot_size s =
     (let s1 = write_msr 4 (ucast (m_size (x_mem s))) (write_msr 2 cpu (write_msr 1 virt (write_msr 0 phy s)));
          s2 = set_gpr RAX boot_size (s1\<lparr>x_gpr := (\<lambda>r. if r < 16 then 0 else x_gpr s1 r)\<rparr>);
          s3 = s2\<lparr>x_eflags := 0, x_cpl := CPL_KERNEL, x_int_enabled := False,
                  x_msr := (x_msr s2)(MSR_VIRTUAL_MEMORY_CFG := unset_bit 40 (x_msr s2 MSR_VIRTUAL_MEMORY_CFG))\<rparr>
      in flush_tlbs s3)"

section \<open>Into the kernel\<close>

definition get_idt_el :: "u8 \<Rightarrow> xcpu \<Rightarrow> u64 res" where
  "get_idt_el c s = read8 (ucast (x_msr s MSR_INTERRUPT_VECTOR_ADDR) + push_bit 3 (ucast c)) (x_mem s)"

definition handler_addr :: "u64 \<Rightarrow> u64" where "handler_addr d = push_bit 2 (take_bit 62 d)"
definition permit_software :: "u64 \<Rightarrow> bool" where "permit_software d = bit d 62"

definition push_qword :: "u64 \<Rightarrow> xcpu \<Rightarrow> xcpu res" where
  "push_qword v s = (let s1 = set_gpr RSP (x_gpr s RSP - 8) s
     in rbind (write8 (ucast (x_gpr s1 RSP)) v (x_mem s1)) (\<lambda>m. Inr (s1\<lparr>x_mem := m\<rparr>)))"

definition go_to_kernel_mode :: "u64 \<Rightarrow> xcpu \<Rightarrow> xcpu res" where
  "go_to_kernel_mode start_pc s =
     (let temp_rsp = x_gpr s RSP;
          s1 = set_gpr RSP (x_msr s MSR_KERNEL_STACK_PTR) (s\<lparr>x_cpl := CPL_KERNEL\<rparr>)
      in rbind (push_qword (ucast (x_eflags s1)) s1) (\<lambda>s2.
         rbind (push_qword temp_rsp s2) (\<lambda>s3.
         rbind (push_qword (x_rip s3) s3) (\<lambda>s4. Inr (s4\<lparr>x_rip := start_pc\<rparr>)))))"

definition interruptible :: "xcpu \<Rightarrow> bool" where
  "interruptible s \<longleftrightarrow> x_cpl s = CPL_USER \<and> x_int_enabled s"

definition process_exception :: "u64 \<Rightarrow> xcpu \<Rightarrow> xcpu res" where
  "process_exception c s =
     (let code = ucast (c AND 0x1F) :: u8
      in if interruptible s then
           let s1 = flush_tlbs s
           in rbind (get_idt_el code s1) (\<lambda>d.
                let s2 = if ucast code = GP_EXCEPTION \<or> ucast code = PF_EXCEPTION
                         then s1\<lparr>x_msr := (x_msr s1)(MSR_PAGE_FAULT_ADDR := page_of c)\<rparr> else s1
                in go_to_kernel_mode (handler_addr d) s2)
         else Inl Sanity)"

definition enter_syscall :: "xcpu \<Rightarrow> xcpu res" where
  "enter_syscall s =
     (let temp_rsp = x_gpr s RSP;
          s1 = set_gpr RSP (x_msr s MSR_KERNEL_STACK_PTR) (s\<lparr>x_cpl := CPL_KERNEL\<rparr>);
          s2 = set_gpr R11 (ucast (x_eflags s1)) (set_gpr RCX (x_rip s1) s1)
      in rbind (push_qword temp_rsp s2) (\<lambda>s3. Inr (s3\<lparr>x_rip := x_msr s3 MSR_SYSCALL_HANDLER_ADDR\<rparr>)))"

definition process_trap :: "u16 \<Rightarrow> u64 \<Rightarrow> u8 \<Rightarrow> xcpu \<Rightarrow> xcpu res" where
  "process_trap c inst_addr len s =
     (let s0 = s\<lparr>x_rip := inst_addr + ucast len\<rparr>
      in if interruptible s0 then
           let s1 = flush_tlbs s0
           in if c < 256 then
                rbind (get_idt_el (ucast c) s1) (\<lambda>d.
                rbind (if \<not> permit_software d then get_idt_el (ucast GP_EXCEPTION) s1 else Inr d) (\<lambda>d'.
                  go_to_kernel_mode (handler_addr d') s1))
              else if c = 0xFFFF then enter_syscall s1
              else Inr s1
         else Inr s0)"

definition process_external_interruption :: "u8 \<Rightarrow> xcpu \<Rightarrow> (bool \<times> xcpu) res" where
  "process_external_interruption c s =
     (if interruptible s then
        let s1 = flush_tlbs s
        in rbind (get_idt_el (c + 32) s1) (\<lambda>d. rbind (go_to_kernel_mode (handler_addr d) s1) (\<lambda>s2. Inr (True, s2)))
      else Inr (False, s))"

definition process_instruction_that_flushes_pipeline :: "xcpu \<Rightarrow> xcpu" where
  "process_instruction_that_flushes_pipeline s = flush_tlbs s"

section \<open>Instructions\<close>

text \<open>
  \<open>bochs_exec\<close> with the instruction's semantics as a parameter: it returns its flags or leaves by an
  exception, and tells the stack pointer saved by \<open>RSP_SPECULATIVE\<close> if that was in force.
\<close>

definition bochs_exec ::
  "(xcpu \<Rightarrow> ((u64 + 'f) \<times> u64 option \<times> xcpu) res) \<Rightarrow> u8 \<Rightarrow> xcpu \<Rightarrow> ((u64 + 'f) \<times> xcpu) res" where
  "bochs_exec exe ilen s =
     (let prev_rip = x_rip s
      in rbind (exe (s\<lparr>x_rip := prev_rip + ucast ilen\<rparr>)) (\<lambda>(r, spec, s1). case r of
           Inr fl \<Rightarrow> Inr (Inr fl, s1)
         | Inl e \<Rightarrow> let s2 = s1\<lparr>x_rip := prev_rip\<rparr>
                    in Inr (Inl e, case spec of None \<Rightarrow> s2 | Some prev_rsp \<Rightarrow> set_gpr RSP prev_rsp s2)))"

definition abind :: "((u64 + 'a) \<times> xcpu) res \<Rightarrow> ('a \<Rightarrow> xcpu \<Rightarrow> ((u64 + 'b) \<times> xcpu) res) \<Rightarrow> ((u64 + 'b) \<times> xcpu) res" where
  "abind m f = rbind m (\<lambda>(r, s). case r of Inl e \<Rightarrow> Inr (Inl e, s) | Inr x \<Rightarrow> f x s)"

definition iret64 :: "xcpu \<Rightarrow> ((u64 + unit) \<times> xcpu) res" where
  "iret64 s =
     (if x_cpl s \<noteq> CPL_KERNEL then Inr (Inl GP_EXCEPTION, s)
      else let addr = x_msr s MSR_KERNEL_STACK_PTR
           in abind (mem_read_8 (addr - 8) s) (\<lambda>rflags s1.
              abind (mem_read_8 (addr - 8 - 8) s1) (\<lambda>rsp s2.
              abind (mem_read_8 (addr - 8 - 8 - 8) s2) (\<lambda>rip s3.
                Inr (Inr (), (set_gpr RSP rsp s3)\<lparr>x_rip := rip, x_eflags := ucast rflags, x_cpl := CPL_USER\<rparr>)))))"

text \<open>\<open>WRMSR\<close>, of \<open>bochs/cpu/msr.cpp\<close>: only the kernel may execute it.\<close>

definition wrmsr :: "xcpu \<Rightarrow> ((u64 + unit) \<times> xcpu) res" where
  "wrmsr s = (if x_cpl s \<noteq> CPL_KERNEL then Inr (Inl GP_EXCEPTION, s)
     else Inr (Inr (), write_msr (ucast (x_gpr s RCX))
       (ucast (ucast (x_gpr s RAX) :: u32) OR push_bit 32 (ucast (ucast (x_gpr s 2) :: u32))) s))"

section \<open>The kernel frame\<close>

lemma write8_read8:
  assumes "mem_inv m" "write8 a v m = Inr m'"
  shows "read8 a m' = Inr v" "mem_inv m'" "unat a + 8 \<le> length (m_vector m)" "length (m_vector m') = length (m_vector m)"
    "m_size m' = m_size m"
proof -
  have w: "raw_write (le_bytes 8 v) a m = Inr m'" and a: "\<not> m_size m \<le> a + 8"
    using assms(2) by (auto simp: write8_def split: if_splits)
  note c = checked_write[OF assms(1) w, simplified]
  show "read8 a m' = Inr v" "mem_inv m'" "m_size m' = m_size m" using c a by (simp_all add: read8_def)
  show "unat a + 8 \<le> length (m_vector m)" "length (m_vector m') = length (m_vector m)"
    using w by (auto simp: raw_write_def split: if_splits)
qed

lemma write8_read8_other:
  assumes "mem_inv m" "write8 a v m = Inr m'" "unat b + 8 \<le> unat a \<or> unat a + 8 \<le> unat b"
  shows "read8 b m' = read8 b m"
proof -
  have "raw_write (le_bytes 8 v) a m = Inr m'" using assms(2) by (auto simp: write8_def split: if_splits)
  from raw_write_other[OF this, of b 8] show ?thesis
    using assms(3) write8_read8(5)[OF assms(1,2)] by (simp add: read8_def)
qed

text \<open>Two stack slots below one another do not overlap when the memory has both.\<close>

lemma slots_apart:
  assumes "unat (a :: u32) + 8 \<le> n" "unat (a - 8) + 8 \<le> n" "n < 2 ^ 32"
  shows "unat (a - 8) + 8 = unat a"
proof -
  have "8 \<le> unat a"
  proof (rule ccontr)
    assume "\<not> 8 \<le> unat a"
    then have "\<not> (8 :: u32) \<le> a" by (simp add: word_le_nat_alt)
    have "unat (a - 8) = 2 ^ 32 - 8 + unat a"
      using \<open>\<not> 8 \<le> unat a\<close> by (simp add: unat_sub_if')
    then show False using assms(2,3) by simp
  qed
  then show ?thesis by (simp add: unat_sub word_le_nat_alt)
qed

lemma ucast_diff: "(ucast (x - y :: u64) :: u32) = ucast x - ucast y"
proof (transfer)
  fix x y :: int
  have "(x mod 2 ^ 64 - y mod 2 ^ 64) mod 2 ^ 32 = (x mod 2 ^ 64 mod 2 ^ 32 - y mod 2 ^ 64 mod 2 ^ 32) mod 2 ^ 32"
    by (simp only: mod_diff_eq)
  also have "\<dots> = (x - y) mod 2 ^ 32" by (simp add: mod_mod_cancel mod_diff_eq)
  finally have "(x mod 2 ^ 64 - y mod 2 ^ 64) mod 2 ^ 32 = (x - y) mod 2 ^ 32" .
  then show "take_bit LENGTH(32) (take_bit LENGTH(64) (x - y)) = take_bit LENGTH(32) (take_bit LENGTH(64) x - take_bit LENGTH(64) y)"
    by (simp add: take_bit_eq_mod mod_mod_cancel)
qed

lemma ucast_back: "(ucast (ucast (x :: u32) :: u64) :: u32) = x"
  by transfer simp

lemma kernel_read:
  assumes "x_cpl s = CPL_KERNEL"
  shows "\<exists>t. mem_read_8 v s = rbind (read8 (ucast v) (x_mem s)) (\<lambda>d. Inr (Inr d, s\<lparr>x_translate := t\<rparr>))"
proof -
  have "\<not> vm_enabled s" using assms by (simp add: vm_enabled_def CPL_KERNEL_def CPL_USER_def)
  then show ?thesis
    by (auto simp: mem_read_8_def checked_load_def mem_check_exc_read_def check_pages_def get_physical_def load8_def Let_def)
qed

lemma push_qword_Inr:
  assumes "push_qword v s = Inr s'"
  obtains m where "write8 (ucast (x_gpr s RSP) - 8) v (x_mem s) = Inr m"
    "s' = s\<lparr>x_gpr := (x_gpr s)(RSP := x_gpr s RSP - 8), x_mem := m\<rparr>"
  using assms by (auto simp: push_qword_def set_gpr_def Let_def rbind_Inr_iff ucast_diff)

text \<open>The state at the kernel's entry: the frame of three words is on the kernel stack.\<close>

definition kernel_frame :: "xcpu \<Rightarrow> xcpu \<Rightarrow> bool" where
  "kernel_frame s s1 \<longleftrightarrow> (\<exists>m. s1 = s\<lparr>x_cpl := CPL_KERNEL, x_mem := m, x_rip := x_rip s1,
      x_gpr := (x_gpr s)(RSP := x_msr s MSR_KERNEL_STACK_PTR - 24)\<rparr>)
     \<and> mem_inv (x_mem s1)
     \<and> read8 (ucast (x_msr s MSR_KERNEL_STACK_PTR - 8)) (x_mem s1) = Inr (ucast (x_eflags s))
     \<and> read8 (ucast (x_msr s MSR_KERNEL_STACK_PTR - 16)) (x_mem s1) = Inr (x_gpr s RSP)
     \<and> read8 (ucast (x_msr s MSR_KERNEL_STACK_PTR - 24)) (x_mem s1) = Inr (x_rip s)"

lemma go_to_kernel_frame:
  assumes "mem_inv (x_mem s)" "go_to_kernel_mode pc s = Inr s1"
  shows "kernel_frame s s1" "x_rip s1 = pc"
proof -
  let ?K = "x_msr s MSR_KERNEL_STACK_PTR" let ?k = "ucast ?K :: u32"
  obtain m1 m2 m3 where w1: "write8 (?k - 8) (ucast (x_eflags s)) (x_mem s) = Inr m1"
    and w2: "write8 (?k - 16) (x_gpr s RSP) m1 = Inr m2"
    and w3: "write8 (?k - 24) (x_rip s) m2 = Inr m3"
    and s1: "s1 = s\<lparr>x_cpl := CPL_KERNEL, x_gpr := (x_gpr s)(RSP := ?K - 24), x_mem := m3, x_rip := pc\<rparr>"
    using assms(2)
    by (auto simp: go_to_kernel_mode_def set_gpr_def rbind_Inr_iff ucast_diff elim!: push_qword_Inr)
  note r1 = write8_read8[OF assms(1) w1] and r2 = write8_read8[OF write8_read8(2)[OF assms(1) w1] w2]
  note r3 = write8_read8[OF r2(2) w3]
  have n: "length (m_vector (x_mem s)) < 2 ^ 32"
    using assms(1) unsigned_less[of "m_size (x_mem s)", where ?'a = nat] by (simp add: mem_inv_def)
  have a12: "unat (?k - 16) + 8 = unat (?k - 8)" using slots_apart[of "?k - 8", OF _ _ n] r1 r2 by simp
  have a23: "unat (?k - 24) + 8 = unat (?k - 16)" using slots_apart[of "?k - 16", OF _ _ n] r1 r2 r3 by simp
  have "read8 (?k - 8) m3 = Inr (ucast (x_eflags s))"
    using write8_read8_other[OF r2(2) w3, of "?k - 8"] write8_read8_other[OF r1(2) w2, of "?k - 8"] r1(1) a12 a23 by simp
  moreover have "read8 (?k - 16) m3 = Inr (x_gpr s RSP)"
    using write8_read8_other[OF r2(2) w3, of "?k - 16"] r2(1) a23 by simp
  ultimately show "kernel_frame s s1" "x_rip s1 = pc"
    using r3(1,2) by (auto simp: kernel_frame_def s1 ucast_diff intro!: exI[of _ m3])
qed

lemma iret_restores:
  assumes "kernel_frame s s1"
  obtains t where "iret64 s1 = Inr (Inr (), s1\<lparr>x_gpr := x_gpr s, x_rip := x_rip s, x_eflags := x_eflags s,
      x_cpl := CPL_USER, x_translate := t\<rparr>)"
proof -
  let ?K = "x_msr s MSR_KERNEL_STACK_PTR"
  obtain m where s1: "s1 = s\<lparr>x_cpl := CPL_KERNEL, x_mem := m, x_rip := x_rip s1, x_gpr := (x_gpr s)(RSP := ?K - 24)\<rparr>"
    using assms by (auto simp: kernel_frame_def)
  have k: "x_cpl s1 = CPL_KERNEL" "x_msr s1 = x_msr s" "(x_gpr s1)(RSP := x_gpr s RSP) = x_gpr s"
    by (subst s1, simp)+
  obtain t1 where t1: "mem_read_8 (?K - 8) s1 = Inr (Inr (ucast (x_eflags s)), s1\<lparr>x_translate := t1\<rparr>)"
    using kernel_read[OF k(1), of "?K - 8"] assms by (auto simp: kernel_frame_def)
  obtain t2 where t2: "mem_read_8 (?K - 16) (s1\<lparr>x_translate := t1\<rparr>) = Inr (Inr (x_gpr s RSP), s1\<lparr>x_translate := t2\<rparr>)"
    using kernel_read[of "s1\<lparr>x_translate := t1\<rparr>" "?K - 16"] k(1) assms by (auto simp: kernel_frame_def)
  obtain t3 where t3: "mem_read_8 (?K - 24) (s1\<lparr>x_translate := t2\<rparr>) = Inr (Inr (x_rip s), s1\<lparr>x_translate := t3\<rparr>)"
    using kernel_read[of "s1\<lparr>x_translate := t2\<rparr>" "?K - 24"] k(1) assms by (auto simp: kernel_frame_def)
  show thesis
    by (rule that[of t3]) (use t1 t2 t3 k in \<open>simp add: iret64_def abind_def set_gpr_def ucast_back\<close>)
qed

text \<open>An exception and an interrupt build the frame of the interrupted program; a software interrupt too,
  with the program counter after the instruction.\<close>

lemma flush_tlbs_fields [simp]:
  "x_mem (flush_tlbs s) = x_mem s" "x_gpr (flush_tlbs s) = x_gpr s" "x_rip (flush_tlbs s) = x_rip s"
  "x_eflags (flush_tlbs s) = x_eflags s" "x_cpl (flush_tlbs s) = x_cpl s" "x_msr (flush_tlbs s) = x_msr s"
  "x_int_enabled (flush_tlbs s) = x_int_enabled s"
  by (simp_all add: flush_tlbs_def)

definition suspended :: "xcpu \<Rightarrow> u64 \<Rightarrow> xcpu \<Rightarrow> bool" where
  "suspended s rip s1 \<longleftrightarrow> interruptible s \<and> x_cpl s1 = CPL_KERNEL \<and> tlb_free s1
     \<and> (\<exists>s2. iret64 s1 = Inr (Inr (), s2) \<and> x_rip s2 = rip \<and> x_gpr s2 = x_gpr s \<and> x_eflags s2 = x_eflags s
            \<and> x_cpl s2 = x_cpl s \<and> x_int_enabled s2 = x_int_enabled s \<and> tlb_free s2)"

lemma suspended_frame:
  assumes "interruptible s" "kernel_frame s0 s1" "tlb_free s0"
    "x_gpr s0 = x_gpr s" "x_eflags s0 = x_eflags s" "x_int_enabled s0 = x_int_enabled s"
  shows "suspended s (x_rip s0) s1"
proof -
  obtain t where t: "iret64 s1 = Inr (Inr (), s1\<lparr>x_gpr := x_gpr s0, x_rip := x_rip s0, x_eflags := x_eflags s0,
      x_cpl := CPL_USER, x_translate := t\<rparr>)"
    by (rule iret_restores[OF assms(2)])
  obtain m r g where s1: "s1 = s0\<lparr>x_cpl := CPL_KERNEL, x_mem := m, x_rip := r, x_gpr := g\<rparr>"
    using assms(2) unfolding kernel_frame_def by blast
  show ?thesis using assms(1,3-6) t by (simp add: suspended_def s1 tlb_free_def interruptible_def)
qed

lemma interrupt_suspends:
  assumes "mem_inv (x_mem s)" "process_external_interruption c s = Inr (True, s1)"
  shows "suspended s (x_rip s) s1"
proof -
  have i: "interruptible s" using assms(2) by (auto simp: process_external_interruption_def split: if_splits)
  obtain pc where "go_to_kernel_mode pc (flush_tlbs s) = Inr s1"
    using assms(2) i by (auto simp: process_external_interruption_def Let_def rbind_Inr_iff)
  then have "kernel_frame (flush_tlbs s) s1" using go_to_kernel_frame(1)[of "flush_tlbs s"] assms(1) by simp
  from suspended_frame[OF i this] show ?thesis by simp
qed

lemma fault_code_split:
  assumes "c = GP_EXCEPTION OR page_of v \<or> c = PF_EXCEPTION OR page_of v"
  shows "page_of c = page_of v" "c AND 0x1F = GP_EXCEPTION \<or> c AND 0x1F = PF_EXCEPTION"
proof -
  have p: "page_of v AND 0x1F = 0" by (simp add: page_of_def and.assoc)
  have d: "(x OR page_of v) AND m = (x AND m) OR (page_of v AND m)" for x m by (simp add: bit.conj_disj_distrib2)
  show "c AND 0x1F = GP_EXCEPTION \<or> c AND 0x1F = PF_EXCEPTION"
    using assms by (auto simp: d p GP_EXCEPTION_def PF_EXCEPTION_def)
  have "page_of v AND 0xFFFFFFFFFFFFF000 = page_of v" using page_of_idem[of v] by (simp only: page_of_def)
  then show "page_of c = page_of v"
    using assms by (auto simp: page_of_def[of c] d GP_EXCEPTION_def PF_EXCEPTION_def)
qed

lemma exception_suspends:
  assumes "mem_inv (x_mem s)" "process_exception c s = Inr s1"
  shows "suspended s (x_rip s) s1"
    and "c = GP_EXCEPTION OR page_of v \<or> c = PF_EXCEPTION OR page_of v \<Longrightarrow> x_msr s1 MSR_PAGE_FAULT_ADDR = page_of v"
proof -
  have i: "interruptible s" using assms(2) by (auto simp: process_exception_def Let_def split: if_splits)
  let ?code = "ucast (c AND 0x1F) :: u8"
  define s0 where "s0 = (if ucast ?code = GP_EXCEPTION \<or> ucast ?code = PF_EXCEPTION
     then (flush_tlbs s)\<lparr>x_msr := (x_msr s)(MSR_PAGE_FAULT_ADDR := page_of c)\<rparr> else flush_tlbs s)"
  obtain pc where g: "go_to_kernel_mode pc s0 = Inr s1"
    using assms(2) i by (auto simp: process_exception_def s0_def Let_def rbind_Inr_iff split: if_splits)
  have f: "x_mem s0 = x_mem s" "x_gpr s0 = x_gpr s" "x_eflags s0 = x_eflags s" "x_int_enabled s0 = x_int_enabled s"
    "x_rip s0 = x_rip s" "tlb_free s0"
    using flush_tlbs_free[of s] by (simp_all add: s0_def tlb_free_def)
  have k: "kernel_frame s0 s1" using go_to_kernel_frame(1)[OF _ g] assms(1) f(1) by simp
  from suspended_frame[OF i k f(6,2,3,4)] show "suspended s (x_rip s) s1" by (simp add: f(5))
  assume c: "c = GP_EXCEPTION OR page_of v \<or> c = PF_EXCEPTION OR page_of v"
  have "ucast ?code = GP_EXCEPTION \<or> ucast ?code = PF_EXCEPTION"
    using fault_code_split(2)[OF c] by (auto simp: GP_EXCEPTION_def PF_EXCEPTION_def)
  then have "x_msr s0 MSR_PAGE_FAULT_ADDR = page_of v" using fault_code_split(1)[OF c] by (simp add: s0_def)
  moreover have "x_msr s1 = x_msr s0" using k by (auto simp: kernel_frame_def) (metis xcpu.select_convs(2) xcpu.update_convs(1,3,4,6) xcpu.surjective)
  ultimately show "x_msr s1 MSR_PAGE_FAULT_ADDR = page_of v" by simp
qed

lemma trap_suspends:
  assumes "mem_inv (x_mem s)" "process_trap c addr len s = Inr s1" "interruptible s" "c < 256"
  shows "suspended s (addr + ucast len) s1"
proof -
  let ?s0 = "flush_tlbs (s\<lparr>x_rip := addr + ucast len\<rparr>)"
  obtain pc where g: "go_to_kernel_mode pc ?s0 = Inr s1"
    using assms(2-4) by (auto simp: process_trap_def interruptible_def Let_def rbind_Inr_iff)
  have "kernel_frame ?s0 s1" using go_to_kernel_frame(1)[OF _ g] assms(1) by simp
  from suspended_frame[OF assms(3) this] show ?thesis by simp
qed

text \<open>C5: An interrupt, an exception or a software interrupt suspends the user program transparently: the
  processor is in kernel mode with empty translation caches, the page of a fault is in its register, and
  \<open>IRET\<close> from there restores every general register, the flags, the privilege level and the program
  counter, which is that of the interrupted or faulting instruction and, for a software interrupt, of the
  next one.\<close>

theorem kernel_entry_transparent:
  assumes "mem_inv (x_mem s)"
  shows "(\<forall>s1. process_external_interruption c s = Inr (True, s1) \<longrightarrow> suspended s (x_rip s) s1)
       \<and> (\<forall>s1. process_exception e s = Inr s1 \<longrightarrow> suspended s (x_rip s) s1)
       \<and> (\<forall>s1 v. process_exception (fault_code PF_EXCEPTION (p\<lparr>vd_vaddr := v\<rparr>)) s = Inr s1
            \<longrightarrow> x_msr s1 MSR_PAGE_FAULT_ADDR = page_of v)
       \<and> (\<forall>s1. process_trap t addr len s = Inr s1 \<longrightarrow> interruptible s \<longrightarrow> t < 256
            \<longrightarrow> suspended s (addr + ucast len) s1)"
  using interrupt_suspends[OF assms] exception_suspends[OF assms] trap_suspends[OF assms]
  by (auto simp: fault_code_def)

section \<open>The caches never go stale\<close>

text \<open>
  The steps of a processor that concern translation: fetches, loads and stores in either mode, \<open>WRMSR\<close>,
  \<open>IRET\<close>, the entries into the kernel and the flush. The kernel may rewrite the page tables; a user
  store must leave them alone, which is what a kernel that maps no page table writable guarantees.
\<close>

definition tables_kept :: "xcpu \<Rightarrow> xcpu \<Rightarrow> bool" where
  "tables_kept s s' \<longleftrightarrow> (\<forall>v. walk v (vm_base s) (x_mem s') = walk v (vm_base s) (x_mem s))"

inductive mmu_step :: "xcpu \<Rightarrow> xcpu \<Rightarrow> bool" where
  fetch: "memory_read_inst_byte junk v s = Inr (r, s') \<Longrightarrow> mmu_step s s'"
| load: "mem_read_8 v s = Inr (r, s') \<Longrightarrow> mmu_step s s'"
| kernel_store: "x_cpl s = CPL_KERNEL \<Longrightarrow> mem_write_8 v d s = Inr (r, s') \<Longrightarrow> mmu_step s s'"
| user_store: "x_cpl s = CPL_USER \<Longrightarrow> mem_write_8 v d s = Inr (r, s') \<Longrightarrow> tables_kept s s' \<Longrightarrow> mmu_step s s'"
| wrmsr: "wrmsr s = Inr (r, s') \<Longrightarrow> mmu_step s s'"
| iret: "iret64 s = Inr (r, s') \<Longrightarrow> mmu_step s s'"
| exn: "process_exception c s = Inr s' \<Longrightarrow> mmu_step s s'"
| trap: "process_trap t a len s = Inr s' \<Longrightarrow> mmu_step s s'"
| interrupt: "process_external_interruption i s = Inr (b, s') \<Longrightarrow> mmu_step s s'"
| flush: "mmu_step s (process_instruction_that_flushes_pipeline s)"

inductive mmu_reach :: "xcpu \<Rightarrow> bool" where
  start: "mmu_reach (initialize_arch phy virt cpu boot junk)"
| step: "mmu_reach s \<Longrightarrow> mmu_step s s' \<Longrightarrow> mmu_reach s'"

text \<open>In kernel mode the caches are empty, in user mode coherent.\<close>

definition tlb_inv :: "xcpu \<Rightarrow> bool" where
  "tlb_inv s \<longleftrightarrow> (if x_cpl s = CPL_KERNEL then tlb_free s else tlb_coherent s)"

lemma tlb_inv_coherent: "tlb_inv s \<Longrightarrow> tlb_coherent s"
  by (auto simp: tlb_inv_def tlb_free_coherent split: if_splits)

lemma get_physical_inv:
  assumes "tlb_inv s" "get_physical w r s = Inr (p, s')"
  shows "tlb_inv s'"
proof (cases "vm_enabled s")
  case False
  then show ?thesis using assms by (simp add: get_physical_def)
next
  case True
  obtain s2 where "get_physical w r s = rbind (translation r s) (\<lambda>r'. Inr (r', s2))" "tlb_coherent s2"
    using get_physical_translation[OF tlb_inv_coherent[OF assms(1)]] by blast
  then have "tlb_coherent s'" using assms(2) by (cases "translation r s") auto
  moreover have "x_cpl s' \<noteq> CPL_KERNEL"
    using True only_tlbD(6)[OF get_physical_only[OF assms(2)]] by (simp add: vm_enabled_def CPL_KERNEL_def CPL_USER_def)
  ultimately show ?thesis by (simp add: tlb_inv_def)
qed

lemma tlb_inv_frame [simp]:
  "tlb_inv (s\<lparr>x_translate := t\<rparr>) = tlb_inv s" "tlb_inv (s\<lparr>x_gpr := g\<rparr>) = tlb_inv s"
  "tlb_inv (s\<lparr>x_rip := r\<rparr>) = tlb_inv s" "tlb_inv (s\<lparr>x_eflags := e\<rparr>) = tlb_inv s"
  by (simp_all add: tlb_inv_def tlb_free_def tlb_coherent_def vm_base_def)

lemma check_pages_inv: "tlb_inv s \<Longrightarrow> check_pages clear v len s = Inr s' \<Longrightarrow> tlb_inv s'"
  by (auto simp: check_pages_def Let_def rbind_Inr_iff split: if_splits) (meson get_physical_inv)+

lemma check_inv:
  "tlb_inv s \<Longrightarrow> mem_check_exc_read v len s = Inr (e, s') \<Longrightarrow> tlb_inv s' \<and> mmu_only s s'"
  "tlb_inv s \<Longrightarrow> mem_check_exc_write v len s = Inr (e, s') \<Longrightarrow> tlb_inv s' \<and> mmu_only s s'"
  by (auto simp: mem_check_exc_read_def mem_check_exc_write_def Let_def rbind_Inr_iff
      dest: check_pages_inv check_pages_only mmu_only_upd2 split: if_splits option.splits)

lemma read_inv: "tlb_inv s \<Longrightarrow> mem_read_8 v s = Inr (r, s') \<Longrightarrow> tlb_inv s' \<and> mmu_only s s'"
  by (auto simp: mem_read_8_def checked_load_def rbind_Inr_iff dest: check_inv split: option.splits)

lemma write_inv:
  assumes "tlb_inv s" "mem_write_8 v d s = Inr (r, s')"
    "x_cpl s = CPL_KERNEL \<or> tables_kept s s'"
  shows "tlb_inv s'"
proof -
  obtain e s1 where c: "mem_check_exc_write v 8 s = Inr (e, s1)" "s' = s1\<lparr>x_mem := x_mem s'\<rparr>"
    using assms(2) by (auto simp: mem_write_8_def checked_store_def rbind_Inr_iff split: option.splits)
  note i = check_inv(2)[OF assms(1) c(1)]
  have o: "x_cpl s1 = x_cpl s" "vm_base s1 = vm_base s" "x_mem s1 = x_mem s" using i by (simp_all add: mmu_onlyD)
  have b: "vm_base s' = vm_base s" "x_cpl s' = x_cpl s" "x_tlb s' = x_tlb s1"
    using o by (subst c(2), simp add: vm_base_def)+
  show ?thesis
  proof (cases "x_cpl s = CPL_KERNEL")
    case True
    then show ?thesis using i b o by (simp add: tlb_inv_def tlb_free_def)
  next
    case False
    then have "tables_kept s s'" using assms(3) by blast
    then show ?thesis using False i b o by (simp add: tlb_inv_def tlb_coherent_def tables_kept_def)
  qed
qed

lemma abind_Inr:
  "abind m f = Inr (r, s') \<longleftrightarrow> (\<exists>e. m = Inr (Inl e, s') \<and> r = Inl e) \<or> (\<exists>x s1. m = Inr (Inr x, s1) \<and> f x s1 = Inr (r, s'))"
proof (cases m)
  case (Inr x)
  then show ?thesis by (cases x; cases "fst x") (auto simp: abind_def)
qed (simp add: abind_def)

lemma kernel_entry_free: "go_to_kernel_mode pc s = Inr s' \<Longrightarrow> tlb_free s \<Longrightarrow> tlb_inv s'"
  by (auto simp: go_to_kernel_mode_def push_qword_def set_gpr_def Let_def rbind_Inr_iff tlb_inv_def tlb_free_def)

lemma syscall_free: "enter_syscall s = Inr s' \<Longrightarrow> tlb_free s \<Longrightarrow> tlb_inv s'"
  by (auto simp: enter_syscall_def push_qword_def set_gpr_def Let_def rbind_Inr_iff tlb_inv_def tlb_free_def)

lemma tlb_free_inv: "tlb_free s \<Longrightarrow> tlb_inv s"
  by (simp add: tlb_inv_def tlb_free_coherent)

lemma kernel_read_free:
  assumes "mem_read_8 v s = Inr (r, s')" "tlb_free s" "x_cpl s = CPL_KERNEL"
  shows "tlb_free s' \<and> x_cpl s' = CPL_KERNEL"
proof -
  have "tlb_inv s" using assms(2) by (rule tlb_free_inv)
  then have "tlb_inv s'" "x_cpl s' = CPL_KERNEL" using read_inv assms(1,3) mmu_onlyD(6) by metis+
  then show ?thesis by (simp add: tlb_inv_def)
qed

lemma tlb_free_frame [simp]:
  "tlb_free (s\<lparr>x_gpr := g\<rparr>) = tlb_free s" "tlb_free (s\<lparr>x_rip := r\<rparr>) = tlb_free s"
  "tlb_free (s\<lparr>x_eflags := e\<rparr>) = tlb_free s" "tlb_free (s\<lparr>x_cpl := c\<rparr>) = tlb_free s"
  by (simp_all add: tlb_free_def)

lemma mmu_step_inv:
  assumes "mmu_step s s'" "tlb_inv s"
  shows "tlb_inv s'"
  using assms
proof (induction rule: mmu_step.induct)
  case (fetch junk v s r s')
  then show ?case by (auto simp: memory_read_inst_byte_def rbind_Inr_iff dest: get_physical_inv split: if_splits)
next
  case (load v s r s')
  then show ?case using read_inv by blast
next
  case (kernel_store s v d r s')
  then show ?case using write_inv by blast
next
  case (user_store s v d r s')
  then show ?case using write_inv by blast
next
  case (wrmsr s r s')
  then show ?case by (auto simp: wrmsr_def write_msr_def tlb_inv_def tlb_free_def split: if_splits)
next
  case (iret s r s')
  show ?case
  proof (cases "x_cpl s = CPL_KERNEL")
    case False
    then show ?thesis using iret by (simp add: iret64_def)
  next
    case True
    then have "tlb_free s" using iret(2) by (simp add: tlb_inv_def)
    with iret(1) True have "tlb_free s'"
      by (auto simp: iret64_def abind_Inr set_gpr_def Let_def dest!: kernel_read_free)
    then show ?thesis by (rule tlb_free_inv)
  qed
next
  case (exn c s s')
  then obtain pc s0 where "go_to_kernel_mode pc s0 = Inr s'" "x_tlb s0 = x_tlb (flush_tlbs s)"
    by (auto simp: process_exception_def Let_def rbind_Inr_iff split: if_splits)
  moreover have "tlb_free (flush_tlbs s)" by simp
  ultimately show ?case using kernel_entry_free[of pc s0 s'] by (simp add: tlb_free_def)
next
  case (trap t a len s s')
  have f: "tlb_free (flush_tlbs (s\<lparr>x_rip := a + ucast len\<rparr>))" by simp
  with trap show ?case
    by (auto simp: process_trap_def Let_def rbind_Inr_iff intro: kernel_entry_free syscall_free tlb_free_inv split: if_splits)
next
  case (interrupt i s b s')
  have f: "tlb_free (flush_tlbs s)" by simp
  with interrupt show ?case
    by (auto simp: process_external_interruption_def Let_def rbind_Inr_iff intro: kernel_entry_free split: if_splits)
next
  case (flush s)
  then show ?case by (simp add: process_instruction_that_flushes_pipeline_def tlb_free_inv)
qed

lemma mmu_reach_inv: "mmu_reach s \<Longrightarrow> tlb_inv s"
proof (induction rule: mmu_reach.induct)
  case (start phy virt cpu boot junk)
  show ?case unfolding initialize_arch_def Let_def by (rule tlb_free_inv) simp
next
  case (step s s')
  then show ?case using mmu_step_inv by blast
qed


section \<open>Concrete instances\<close>

lemma write8_small:
  assumes "m_size m = 64" "mem_inv m" "a \<in> {32, 40, 48}"
  shows "\<exists>m'. write8 a v m = Inr m' \<and> m_size m' = 64 \<and> mem_inv m'"
proof -
  have "\<not> m_size m \<le> a + 8" "unat a + 8 \<le> length (m_vector m)"
    using assms by (auto simp: mem_inv_def)
  then obtain m' where "write8 a v m = Inr m'" by (auto simp: write8_def raw_write_def)
  then show ?thesis using write8_read8(2,5)[OF assms(2)] assms(1) by auto
qed

text \<open>Interrupt 224 of the small processor finds its handler at entry 0; the kernel stack ends at address 56.\<close>

lemma demo_interrupt: "\<exists>s1. process_external_interruption 224 demo_cpu = Inr (True, s1)"
proof -
  let ?s = "flush_tlbs demo_cpu"
  have f: "x_mem ?s = demo_mem" "x_msr ?s MSR_KERNEL_STACK_PTR = 56" "x_msr ?s MSR_INTERRUPT_VECTOR_ADDR = 0"
    by (simp_all add: demo_cpu_def MSR_KERNEL_STACK_PTR_def MSR_VIRTUAL_MEMORY_CFG_def MSR_INTERRUPT_VECTOR_ADDR_def)
  have z: "(256 :: u8) = 0" by simp
  have "get_idt_el 0 ?s = Inr 3" using demo_read f by (simp add: get_idt_el_def)
  then have "get_idt_el 256 ?s = Inr 3" unfolding z .
  moreover have "\<exists>s1. go_to_kernel_mode (handler_addr 3) ?s = Inr s1"
  proof -
    have m0: "m_size demo_mem = 64" by (simp add: demo_mem_def)
    obtain m1 where m1: "write8 48 (ucast (x_eflags ?s)) demo_mem = Inr m1" "m_size m1 = 64" "mem_inv m1"
      using write8_small[OF m0 demo_mem_inv] by blast
    obtain m2 where m2: "write8 40 (x_gpr ?s RSP) m1 = Inr m2" "m_size m2 = 64" "mem_inv m2"
      using write8_small[OF m1(2,3)] by blast
    obtain m3 where m3: "write8 32 (x_rip ?s) m2 = Inr m3"
      using write8_small[OF m2(2,3)] by blast
    show ?thesis using m1(1) m2(1) m3 f
      by (simp add: go_to_kernel_mode_def push_qword_def set_gpr_def Let_def)
  qed
  moreover have "interruptible demo_cpu" by (simp add: interruptible_def demo_cpu_def)
  ultimately show ?thesis by (auto simp: process_external_interruption_def Let_def)
qed

lemma kernel_entry_transparent_witness:
  "\<exists>s1. process_external_interruption 224 demo_cpu = Inr (True, s1) \<and> suspended demo_cpu (x_rip demo_cpu) s1"
proof -
  have "mem_inv (x_mem demo_cpu)" using demo_mem_inv by (simp add: demo_cpu_def)
  then have "\<forall>s1. process_external_interruption 224 demo_cpu = Inr (True, s1) \<longrightarrow> suspended demo_cpu (x_rip demo_cpu) s1"
    using kernel_entry_transparent by blast
  with demo_interrupt show ?thesis by blast
qed


end
