(* ===== verification/Fetch_Buffer.thy ===== *)
theory Fetch_Buffer
  imports Branch_Pred Cache X86_Access
begin

text \<open>
  The front end: the three branch predictors behind their common interface (\<open>branch_pred_t\<close> in
  \<open>src/src/cpu/cpu.h\<close>) and the fetch buffer of \<open>src/src/cpu/fetch_buffer.cpp\<close>. The arrays of
  \<open>fetch_buffer_t\<close> that are indexed by the virtual processor are records, one lane per processor;
  \<open>size\<close> and \<open>width\<close> are arguments of the operations. A lane is a ring buffer of fetched bytes: each
  byte remembers the address it was fetched from, its physical address, and the address that the
  front end went on with.

  The statistics counters are left out.
\<close>

section \<open>Predictors\<close>

datatype predictor = No_Predictor | Two_Level_All bpred | Two_Level_History bpred

definition pred_add :: "branch_el \<Rightarrow> nat \<Rightarrow> predictor \<Rightarrow> predictor res" where
  "pred_add br c p = (case p of
     No_Predictor \<Rightarrow> Inr No_Predictor
   | Two_Level_All b \<Rightarrow> rbind (all_add_entry br c b) (\<lambda>b'. Inr (Two_Level_All b'))
   | Two_Level_History b \<Rightarrow> rbind (hist_add_entry br c b) (\<lambda>b'. Inr (Two_Level_History b')))"

definition pred_check :: "u64 \<Rightarrow> branch_response \<Rightarrow> nat \<Rightarrow> predictor \<Rightarrow> (predictor \<times> branch_response) res" where
  "pred_check v r c p = (case p of
     No_Predictor \<Rightarrow> Inr (No_Predictor, none_check v r c)
   | Two_Level_All b \<Rightarrow> rbind (all_check v r c b) (\<lambda>(b', r'). Inr (Two_Level_All b', r'))
   | Two_Level_History b \<Rightarrow> rbind (hist_check v r c b) (\<lambda>(b', r'). Inr (Two_Level_History b', r')))"

definition pred_flush :: "nat \<Rightarrow> predictor \<Rightarrow> predictor res" where
  "pred_flush c p = (case p of
     No_Predictor \<Rightarrow> Inr No_Predictor
   | Two_Level_All b \<Rightarrow> rbind (bp_flush c b) (\<lambda>b'. Inr (Two_Level_All b'))
   | Two_Level_History b \<Rightarrow> rbind (bp_flush c b) (\<lambda>b'. Inr (Two_Level_History b')))"

section \<open>The buffer\<close>

record fetch_el =
  fe_vaddr :: u64
  fe_is_branch :: bool
  fe_data :: u8
  fe_next :: u64
  fe_is_exc :: bool
  fe_exc :: u64
  fe_paddr :: u32

record lane =
  fb_buf :: "fetch_el list"
  fb_read :: u32
  fb_write :: u32
  fb_avail :: u32
  fb_before :: u32
  fb_last_branch :: u32
  fb_disabled :: bool
  fb_wait :: u32

text \<open>The constructor's part for one processor; the buffer is \<open>malloc\<close>ed, so its content is arbitrary.\<close>

definition lane_new :: "fetch_el list \<Rightarrow> u32 \<Rightarrow> lane" where
  "lane_new junk n = \<lparr>fb_buf = take (unat n) junk, fb_read = 0, fb_write = 0, fb_avail = n, fb_before = n,
     fb_last_branch = 0, fb_disabled = False, fb_wait = 0\<rparr>"

text \<open>\<open>flush\<close>: the lane, and the speculative program counter, which restarts at the architectural one.\<close>

definition fb_flush :: "u32 \<Rightarrow> xcpu \<Rightarrow> lane \<Rightarrow> lane \<times> u64" where
  "fb_flush n cpu l =
     (l\<lparr>fb_avail := n, fb_read := 0, fb_write := 0, fb_disabled := False, fb_wait := 0,
        fb_last_branch := 0, fb_before := n\<rparr>, x_rip cpu)"

definition before_decoder :: "lane \<Rightarrow> lane" where
  "before_decoder l = l\<lparr>fb_before := fb_avail l\<rparr>"

text \<open>\<open>after_decoder\<close>: what it adds to the statistics.\<close>

definition after_decoder :: "lane \<Rightarrow> u32" where
  "after_decoder l = fb_avail l - fb_before l"

definition bytes_in_buffer :: "u32 \<Rightarrow> lane \<Rightarrow> u32" where
  "bytes_in_buffer n l = n - fb_avail l"

definition has_bytes :: "u32 \<Rightarrow> u32 \<Rightarrow> lane \<Rightarrow> bool" where
  "has_bytes n k l \<longleftrightarrow> n - fb_avail l \<ge> k"

definition get_byte :: "u32 \<Rightarrow> lane \<Rightarrow> (lane \<times> fetch_el) res" where
  "get_byte n l =
     (if unat (fb_read l) < length (fb_buf l)
      then Inr (l\<lparr>fb_read := (fb_read l + 1) mod n, fb_avail := fb_avail l + 1\<rparr>,
                fb_buf l ! unat (fb_read l))
      else Inl Out_Of_Bounds)"

text \<open>
  \<open>skip_bytes\<close>, in its two overloads: the element, or only the address that followed it. Skipping
  nothing reads the element before \<open>read_pos\<close>.
\<close>

definition skip_bytes_el :: "u32 \<Rightarrow> u32 \<Rightarrow> lane \<Rightarrow> (lane \<times> fetch_el \<times> u32) res" where
  "skip_bytes_el n k l =
     (let have = n - fb_avail l;
          skipped = (if k < have then k else have);
          lst = (fb_read l + skipped - 1) mod n
      in if unat lst < length (fb_buf l)
         then Inr (l\<lparr>fb_read := (fb_read l + skipped) mod n, fb_avail := fb_avail l + skipped\<rparr>,
                   fb_buf l ! unat lst, skipped)
         else Inl Out_Of_Bounds)"

definition skip_bytes :: "u32 \<Rightarrow> u32 \<Rightarrow> lane \<Rightarrow> (lane \<times> u64 \<times> u32) res" where
  "skip_bytes n k l =
     (let have = n - fb_avail l;
          skipped = (if k < have then k else have);
          lst = (fb_read l + skipped - 1) mod n
      in if unat lst < length (fb_buf l)
         then Inr (l\<lparr>fb_read := (fb_read l + skipped) mod n, fb_avail := fb_avail l + skipped\<rparr>,
                   fe_next (fb_buf l ! unat lst), skipped)
         else Inl Out_Of_Bounds)"

section \<open>Fetching\<close>

text \<open>
  The state that a fetch of one processor works on: its lane, its speculative program counter, its
  address translation, and the cache and the predictor that it shares with other processors.
\<close>

record fetch_st =
  fs_lane :: lane
  fs_pc :: u64
  fs_cpu :: xcpu
  fs_cache :: cache_struct
  fs_pred :: predictor

definition charge :: "u32 \<Rightarrow> lane \<Rightarrow> lane" where
  "charge penalty l =
     (if penalty > 1 \<and> penalty > fb_wait l then l\<lparr>fb_wait := penalty - 1\<rparr> else l)"

text \<open>
  One round of the fetch loop; the result says whether the loop is left. The physical address of a byte
  that faults is 0, and the instruction cache is accessed there all the same. \<open>junk\<close> and \<open>jr\<close> are the
  contents of the uninitialised local variables \<open>vm\<close> and \<open>br\<close>.
\<close>

definition put_byte :: "u32 \<Rightarrow> (fetch_el \<Rightarrow> fetch_el) \<Rightarrow> u64 \<Rightarrow> lane \<Rightarrow> lane" where
  "put_byte n f pc l =
     l\<lparr>fb_buf := (fb_buf l)[unat (fb_write l) := f ((fb_buf l ! unat (fb_write l))\<lparr>fe_vaddr := pc\<rparr>)],
       fb_avail := fb_avail l - 1, fb_write := (fb_write l + 1) mod n, fb_last_branch := fb_last_branch l + 1\<rparr>"

definition fetch_byte ::
  "vm_data \<Rightarrow> branch_response \<Rightarrow> u64 \<Rightarrow> u32 \<Rightarrow> nat \<Rightarrow> fetch_st \<Rightarrow> (fetch_st \<times> bool) res" where
  "fetch_byte junk jr cyc n vid s =
     (if unat (fb_write (fs_lane s)) < length (fb_buf (fs_lane s)) then
        rbind (memory_read_inst_byte junk (fs_pc s) (fs_cpu s)) (\<lambda>(r, cpu).
        rbind (struct_access cyc 0 (case r of Inl _ \<Rightarrow> 0 | Inr a \<Rightarrow> a) 1 False (fs_cache s)) (\<lambda>(cs, penalty).
          let pc = fs_pc s; l = charge penalty (fs_lane s); s1 = s\<lparr>fs_cpu := cpu, fs_cache := cs\<rparr>
          in case r of
            Inl e \<Rightarrow>
              Inr (s1\<lparr>fs_lane := (put_byte n (\<lambda>b. b\<lparr>fe_is_exc := True, fe_exc := e\<rparr>) pc l)\<lparr>fb_disabled := True\<rparr>\<rparr>, True)
          | Inr a \<Rightarrow>
              rbind (pred_check pc jr vid (fs_pred s)) (\<lambda>(p, br).
                if rsp_is_branch br \<and> rsp_take br then
                  Inr (s1\<lparr>fs_lane := (put_byte n (\<lambda>b. b\<lparr>fe_is_exc := False, fe_paddr := a, fe_is_branch := True,
                            fe_next := rsp_target br\<rparr>) pc l)\<lparr>fb_last_branch := 0\<rparr>,
                          fs_pc := rsp_target br, fs_pred := p\<rparr>, True)
                else
                  Inr (s1\<lparr>fs_lane := put_byte n (\<lambda>b. b\<lparr>fe_is_exc := False, fe_paddr := a, fe_is_branch := False,
                            fe_next := pc + 1\<rparr>) pc l,
                          fs_pc := pc + 1, fs_pred := p\<rparr>, False))))
      else Inl Out_Of_Bounds)"

fun fetch_loop ::
  "vm_data \<Rightarrow> branch_response \<Rightarrow> u64 \<Rightarrow> u32 \<Rightarrow> nat \<Rightarrow> nat \<Rightarrow> fetch_st \<Rightarrow> fetch_st res" where
  "fetch_loop junk jr cyc n vid 0 s = Inr s"
| "fetch_loop junk jr cyc n vid (Suc k) s =
     rbind (fetch_byte junk jr cyc n vid s) (\<lambda>(s', stop).
       if stop then Inr s' else fetch_loop junk jr cyc n vid k s')"

definition fetch ::
  "vm_data \<Rightarrow> branch_response \<Rightarrow> u64 \<Rightarrow> u32 \<Rightarrow> u32 \<Rightarrow> nat \<Rightarrow> fetch_st \<Rightarrow> fetch_st res" where
  "fetch junk jr cyc n width vid s =
     (let l = fs_lane s; k = (if fb_avail l > width then width else fb_avail l)
      in if fb_disabled l then Inr s
         else if fb_wait l \<noteq> 0 then Inr (s\<lparr>fs_lane := l\<lparr>fb_wait := fb_wait l - 1\<rparr>\<rparr>)
         else fetch_loop junk jr cyc n vid (unat k) s)"

section \<open>The queue a lane stands for\<close>

definition queued :: "u32 \<Rightarrow> lane \<Rightarrow> fetch_el list" where
  "queued n l = map (\<lambda>i. fb_buf l ! ((unat (fb_read l) + i) mod unat n)) [0..<unat (n - fb_avail l)]"

definition lane_ok :: "u32 \<Rightarrow> lane \<Rightarrow> bool" where
  "lane_ok n l \<longleftrightarrow> 0 < unat n \<and> unat n \<le> 2 ^ 31 \<and> length (fb_buf l) = unat n \<and> unat (fb_read l) < unat n
     \<and> fb_avail l \<le> n \<and> unat (fb_write l) = (unat (fb_read l) + unat (n - fb_avail l)) mod unat n"

lemma unat_mod_add:
  fixes a b n :: u32
  assumes "unat n \<le> 2 ^ 31" "unat a < unat n" "unat b \<le> unat n" "0 < unat n"
  shows "unat ((a + b) mod n) = (unat a + unat b) mod unat n"
proof -
  have "unat (a + b) = unat a + unat b"
    using assms by (subst unat_word_ariths(1)) (simp add: mod_less)
  then show ?thesis by (simp add: unat_mod_distrib)
qed

lemma used_unat: "fb_avail l \<le> n \<Longrightarrow> unat (n - fb_avail l) = unat n - unat (fb_avail l)"
  by (rule unat_sub)

lemma length_queued [simp]: "length (queued n l) = unat (n - fb_avail l)"
  by (simp add: queued_def)

lemma queued_nth: "i < unat (n - fb_avail l) \<Longrightarrow> queued n l ! i = fb_buf l ! ((unat (fb_read l) + i) mod unat n)"
  by (simp add: queued_def)

lemma lane_okD [ring_simps]:
  assumes "lane_ok n l"
  shows "0 < unat n" "unat n \<le> 2 ^ 31" "length (fb_buf l) = unat n" "unat (fb_read l) < unat n"
    "fb_avail l \<le> n" "unat (fb_write l) = (unat (fb_read l) + length (queued n l)) mod unat n"
    "unat (fb_write l) < unat n" "length (queued n l) = unat n - unat (fb_avail l)" "unat (fb_avail l) \<le> unat n"
  using assms by (auto simp: lane_ok_def used_unat word_le_nat_alt)

text \<open>Dropping the first elements.\<close>

lemma drop_queue:
  assumes ok: "lane_ok n l" and k: "unat k \<le> length (queued n l)"
    and l': "l' = l\<lparr>fb_read := (fb_read l + k) mod n, fb_avail := fb_avail l + k\<rparr>"
  shows "lane_ok n l'" "queued n l' = drop (unat k) (queued n l)"
proof -
  note d = lane_okD[OF ok]
  have r: "unat ((fb_read l + k) mod n) = (unat (fb_read l) + unat k) mod unat n"
    by (rule unat_mod_add) (use d k in auto)
  have a: "unat (fb_avail l + k) = unat (fb_avail l) + unat k"
    using d k by (subst unat_word_ariths(1)) (simp add: mod_less)
  have le: "fb_avail l + k \<le> n" using a d k by (simp add: word_le_nat_alt)
  have u: "unat (n - (fb_avail l + k)) = unat n - unat (fb_avail l) - unat k"
    using a unat_sub[OF le] by simp
  have len: "unat (n - fb_avail l) = unat n - unat (fb_avail l)" using d by (simp add: used_unat)
  show "queued n l' = drop (unat k) (queued n l)"
    by (rule nth_equalityI) (simp_all add: l' u len queued_def r mod_add_left_eq add.assoc)
  have "(unat (fb_read l) + unat (n - fb_avail l)) mod unat n
      = ((unat (fb_read l) + unat k) mod unat n + (unat n - unat (fb_avail l) - unat k)) mod unat n"
  proof -
    have "unat n - unat (fb_avail l) = unat k + (unat n - unat (fb_avail l) - unat k)" using k len by simp
    then show ?thesis using len by (simp only: mod_add_left_eq add.assoc)
  qed
  then show "lane_ok n l'" using ok d by (simp add: l' lane_ok_def r le u)
qed

lemma get_byte_ok:
  assumes ok: "lane_ok n l" and q: "queued n l = e # es"
  obtains l' where "get_byte n l = Inr (l', e)" "lane_ok n l'" "queued n l' = es"
    "fb_disabled l' = fb_disabled l" "fb_wait l' = fb_wait l"
proof -
  note d = lane_okD[OF ok]
  let ?l = "l\<lparr>fb_read := (fb_read l + 1) mod n, fb_avail := fb_avail l + 1\<rparr>"
  have "unat (1 :: u32) \<le> length (queued n l)" using q by simp
  note dq = drop_queue[OF ok this, where l' = ?l, OF refl]
  have "e = fb_buf l ! unat (fb_read l)" using queued_nth[of 0 n l] d q by (simp del: length_queued add: length_queued[symmetric])
  then have "get_byte n l = Inr (?l, e)" using d by (simp add: get_byte_def)
  with dq q show thesis using that[of ?l] by simp
qed

lemma skip_bytes_ok:
  assumes ok: "lane_ok n l" and k: "0 < k" and ne: "queued n l \<noteq> []"
  obtains l' m where "skip_bytes n k l = Inr (l', fe_next (queued n l ! (unat m - 1)), m)"
    "skip_bytes_el n k l = Inr (l', queued n l ! (unat m - 1), m)"
    "unat m = min (unat k) (length (queued n l))" "lane_ok n l'" "queued n l' = drop (unat m) (queued n l)"
    "fb_disabled l' = fb_disabled l" "fb_wait l' = fb_wait l"
proof -
  note d = lane_okD[OF ok]
  let ?have = "n - fb_avail l"
  define m where "m = (if k < ?have then k else ?have)"
  let ?l = "l\<lparr>fb_read := (fb_read l + m) mod n, fb_avail := fb_avail l + m\<rparr>"
  have m: "unat m = min (unat k) (length (queued n l))"
    by (simp add: m_def word_less_nat_alt min_def)
  moreover have "0 < unat k" using k by (simp add: word_less_nat_alt)
  moreover have "0 < length (queued n l)" using ne unfolding length_greater_0_conv .
  ultimately have m0: "0 < unat m" "unat m \<le> length (queued n l)" by simp_all
  have m1: "unat (m - 1) = unat m - 1" using m0(1) by (rule unat_pred)
  have "unat ((fb_read l + (m - 1)) mod n) = (unat (fb_read l) + (unat m - 1)) mod unat n"
    using unat_mod_add[of n "fb_read l" "m - 1"] d m0 m1 by simp
  then have i: "unat ((fb_read l + m - 1) mod n) = (unat (fb_read l) + (unat m - 1)) mod unat n"
    by (simp add: add_diff_eq)
  have e: "fb_buf l ! unat ((fb_read l + m - 1) mod n) = queued n l ! (unat m - 1)"
    using m0 by (subst queued_nth) (simp_all add: i)
  have b: "unat ((fb_read l + m - 1) mod n) < length (fb_buf l)" using d by (simp add: i)
  have "skip_bytes n k l = Inr (?l, fe_next (queued n l ! (unat m - 1)), m)"
    "skip_bytes_el n k l = Inr (?l, queued n l ! (unat m - 1), m)"
    using b e by (simp_all add: skip_bytes_def skip_bytes_el_def m_def Let_def)
  with m that[of ?l m] drop_queue[OF ok m0(2) refl] show thesis by simp
qed

text \<open>Adding an element.\<close>

lemma charge_simps [simp]:
  "fb_buf (charge p l) = fb_buf l" "fb_read (charge p l) = fb_read l" "fb_write (charge p l) = fb_write l"
  "fb_avail (charge p l) = fb_avail l" "fb_disabled (charge p l) = fb_disabled l"
  "queued n (charge p l) = queued n l" "lane_ok n (charge p l) = lane_ok n l"
  by (simp_all add: charge_def queued_def lane_ok_def)

lemma lane_flags [simp]:
  "queued n (l\<lparr>fb_disabled := b\<rparr>) = queued n l" "lane_ok n (l\<lparr>fb_disabled := b\<rparr>) = lane_ok n l"
  "queued n (l\<lparr>fb_last_branch := x\<rparr>) = queued n l" "lane_ok n (l\<lparr>fb_last_branch := x\<rparr>) = lane_ok n l"
  "queued n (l\<lparr>fb_wait := x\<rparr>) = queued n l" "lane_ok n (l\<lparr>fb_wait := x\<rparr>) = lane_ok n l"
  by (simp_all add: queued_def lane_ok_def)

lemma put_byte_ok:
  assumes ok: "lane_ok n l" and a: "0 < fb_avail l"
  shows "lane_ok n (put_byte n f pc l)"
    "queued n (put_byte n f pc l) = queued n l @ [f ((fb_buf l ! unat (fb_write l))\<lparr>fe_vaddr := pc\<rparr>)]"
    "fb_avail (put_byte n f pc l) = fb_avail l - 1" "fb_wait (put_byte n f pc l) = fb_wait l"
    "fb_disabled (put_byte n f pc l) = fb_disabled l"
proof -
  note d = lane_okD[OF ok]
  have a0: "0 < unat (fb_avail l)" using a by (simp add: word_less_nat_alt)
  have av: "unat (fb_avail l - 1) = unat (fb_avail l) - 1" using a0 by (rule unat_pred)
  have le: "fb_avail l - 1 \<le> n" using av d by (simp add: word_le_nat_alt)
  have u: "unat (n - (fb_avail l - 1)) = Suc (length (queued n l))"
    using av unat_sub[OF le] a0 d by simp
  have w: "unat ((fb_write l + 1) mod n) = (unat (fb_write l) + 1) mod unat n"
    using unat_mod_add[of n "fb_write l" 1] d by simp
  let ?l = "put_byte n f pc l" and ?e = "f ((fb_buf l ! unat (fb_write l))\<lparr>fe_vaddr := pc\<rparr>)"
  show "lane_ok n ?l"
    using d ok u by (simp add: lane_ok_def put_byte_def le w mod_Suc_eq del: length_queued add: length_queued[symmetric])
  show "queued n ?l = queued n l @ [?e]"
  proof (rule nth_equalityI)
    show "length (queued n ?l) = length (queued n l @ [?e])" using u by (simp add: put_byte_def)
    fix i assume "i < length (queued n ?l)"
    then have i: "i \<le> length (queued n l)" using u by (simp add: put_byte_def)
    show "queued n ?l ! i = (queued n l @ [?e]) ! i"
    proof (cases "i < length (queued n l)")
      case True
      have "(unat (fb_read l) + i) mod unat n \<noteq> (unat (fb_read l) + length (queued n l)) mod unat n"
      proof
        assume "(unat (fb_read l) + i) mod unat n = (unat (fb_read l) + length (queued n l)) mod unat n"
        then have "unat n dvd (unat (fb_read l) + length (queued n l)) - (unat (fb_read l) + i)"
          by (metis mod_eq_dvd_iff_nat True add_le_mono1 add.commute less_imp_le)
        then have "unat n dvd length (queued n l) - i" by simp
        moreover have "length (queued n l) - i < unat n" using d a0 by simp
        moreover have "0 < length (queued n l) - i" using True by simp
        ultimately show False by (metis nat_dvd_not_less)
      qed
      then have "(unat (fb_read l) + i) mod unat n \<noteq> unat (fb_write l)" using d(6) by simp
      with True show ?thesis
        using u by (simp add: nth_append put_byte_def queued_def)
    next
      case False
      then have "i = length (queued n l)" using i by simp
      then show ?thesis
        using u d by (simp add: nth_append put_byte_def queued_def)
    qed
  qed
qed (simp_all add: put_byte_def)

section \<open>The predictor interface\<close>

text \<open>
  What the front end and the commit stage rely on: a predictor in a good state answers, learns and
  flushes without a fault and stays good.
\<close>

locale branch_oracle =
  fixes add :: "branch_el \<Rightarrow> nat \<Rightarrow> 'p \<Rightarrow> 'p res"
    and check :: "u64 \<Rightarrow> branch_response \<Rightarrow> nat \<Rightarrow> 'p \<Rightarrow> ('p \<times> branch_response) res"
    and flush :: "nat \<Rightarrow> 'p \<Rightarrow> 'p res"
    and good :: "'p \<Rightarrow> bool"
  assumes add_good: "good p \<Longrightarrow> \<exists>p'. add br c p = Inr p' \<and> good p'"
    and check_good: "good p \<Longrightarrow> \<exists>p' r'. check v r c p = Inr (p', r') \<and> good p'"
    and flush_good: "good p \<Longrightarrow> \<exists>p'. flush c p = Inr p' \<and> good p'"
begin

lemma checkE:
  assumes "good p"
  obtains p' r' where "check v r c p = Inr (p', r')" "good p'"
  using check_good[OF assms] by blast

lemma learn_all: "good p \<Longrightarrow> \<exists>p'. rfold (\<lambda>(br, c). add br c) brs p = Inr p' \<and> good p'"
  by (rule rfold_invariant) (auto dest: add_good)

end

definition pred_good :: "predictor \<Rightarrow> bool" where
  "pred_good p = (case p of No_Predictor \<Rightarrow> True | Two_Level_All b \<Rightarrow> bp_inv b | Two_Level_History b \<Rightarrow> bp_inv b)"

lemma all_check_ok: "bp_inv b \<Longrightarrow> \<exists>b' r'. all_check v r c b = Inr (b', r') \<and> bp_inv b'"
  unfolding all_check_def by (erule bp_answer_ok[of b "\<lambda>_. True" v r c]) blast

interpretation bp: branch_oracle pred_add pred_check pred_flush pred_good
proof
  fix p br c assume "pred_good p"
  then show "\<exists>p'. pred_add br c p = Inr p' \<and> pred_good p'"
    by (cases p) (auto simp: pred_add_def pred_good_def elim: all_add_ok[of _ br c] hist_add_ok[of _ br c])
next
  fix p v r c assume "pred_good p"
  then show "\<exists>p' r'. pred_check v r c p = Inr (p', r') \<and> pred_good p'"
    by (cases p) (auto simp: pred_check_def pred_good_def elim: hist_check_ok[of _ v r c] dest: all_check_ok[of _ v r c])
next
  fix p c assume "pred_good p"
  then show "\<exists>p'. pred_flush c p = Inr p' \<and> pred_good p'"
    by (cases p) (auto simp: pred_flush_def pred_good_def elim: bp_flush_ok[of _ c])
qed

section \<open>The predicted path\<close>

text \<open>
  \<open>stream a es pc\<close>: the bytes \<open>es\<close> were fetched one after the other starting at \<open>a\<close>, each from the
  address that the one before it predicted, and fetching goes on at \<open>pc\<close>; a byte that faulted is the
  last one, and fetching would repeat it.
\<close>

fun stream :: "u64 \<Rightarrow> fetch_el list \<Rightarrow> u64 \<Rightarrow> bool" where
  "stream a [] pc \<longleftrightarrow> a = pc"
| "stream a (e # es) pc \<longleftrightarrow> fe_vaddr e = a \<and>
     (if fe_is_exc e then es = [] \<and> pc = a else stream (fe_next e) es pc)"

definition faulted :: "fetch_el list \<Rightarrow> bool" where
  "faulted es \<longleftrightarrow> list_ex fe_is_exc es"

lemma stream_append:
  "\<not> faulted es \<Longrightarrow> stream a (es @ fs) pc \<longleftrightarrow> (\<exists>m. stream a es m \<and> stream m fs pc)"
  by (induction es arbitrary: a) (auto simp: faulted_def)

lemma stream_drop:
  "stream a es pc \<Longrightarrow> 0 < m \<Longrightarrow> m \<le> length es \<Longrightarrow> \<not> faulted (take m es) \<Longrightarrow> stream (fe_next (es ! (m - 1))) (drop m es) pc"
proof (induction m arbitrary: a es)
  case (Suc m)
  then obtain e fs where es: "es = e # fs" by (cases es) auto
  then have s: "stream (fe_next e) fs pc" and n: "\<not> faulted (take m fs)" using Suc.prems by (auto simp: faulted_def)
  show ?case
  proof (cases "m = 0")
    case False
    with Suc.IH[OF s] Suc.prems n es show ?thesis by (simp add: nth_Cons')
  qed (use s es in simp)
qed simp

definition fetch_target :: "vm_data \<Rightarrow> u64 \<Rightarrow> xcpu \<Rightarrow> (u64 + u32) res" where
  "fetch_target junk v s = rbind (translation (junk\<lparr>vd_vaddr := v\<rparr>) s) (\<lambda>vm.
     Inr (if \<not> vd_present vm then Inl (PF_EXCEPTION OR page_of v)
          else if \<not> vd_execute vm then Inl (GP_EXCEPTION OR page_of v) else Inr (vd_paddr vm)))"

lemma memory_read_inst_byte_target:
  assumes "tlb_coherent s"
  obtains s' where "memory_read_inst_byte junk v s = rbind (fetch_target junk v s) (\<lambda>r. Inr (r, s'))"
    "tlb_coherent s'" "only_tlb s s'"
proof -
  obtain s' where s': "get_physical Inst_Tlb (junk\<lparr>vd_vaddr := v\<rparr>) s
      = rbind (translation (junk\<lparr>vd_vaddr := v\<rparr>) s) (\<lambda>r'. Inr (r', s'))" "tlb_coherent s'" "only_tlb s s'"
    by (rule get_physical_translation[OF assms])
  have "memory_read_inst_byte junk v s = rbind (fetch_target junk v s) (\<lambda>r. Inr (r, s'))"
    by (cases "translation (junk\<lparr>vd_vaddr := v\<rparr>) s") (simp_all add: memory_read_inst_byte_def fetch_target_def s'(1))
  with s' that show thesis by blast
qed

text \<open>
  The world around a fetch: well-formed caches and predictor, coherent address translation, page
  tables inside the memory, and no instruction byte near the top of the 32-bit space, where the cache
  model does not end.
\<close>

definition fetch_addr :: "(u64 + u32) \<Rightarrow> u32" where
  "fetch_addr r = (case r of Inl _ \<Rightarrow> 0 | Inr a \<Rightarrow> a)"

definition fetchable :: "nat \<Rightarrow> nat \<Rightarrow> vm_data \<Rightarrow> fetch_st \<Rightarrow> bool" where
  "fetchable ib ib2 junk s \<longleftrightarrow> struct_inv ib ib2 (fs_cache s) \<and> cs_l1 (fs_cache s) \<noteq> [] \<and> pred_good (fs_pred s)
     \<and> tlb_coherent (fs_cpu s)
     \<and> (\<forall>v. \<exists>r. fetch_target junk v (fs_cpu s) = Inr r
            \<and> clear_of_top (cs_l1 (fs_cache s) ! 0) (cs_l2 (fs_cache s)) (fetch_addr r))"

definition path_ok :: "u32 \<Rightarrow> u64 \<Rightarrow> fetch_st \<Rightarrow> bool" where
  "path_ok n a s \<longleftrightarrow> lane_ok n (fs_lane s) \<and> stream a (queued n (fs_lane s)) (fs_pc s)
     \<and> (faulted (queued n (fs_lane s)) \<longleftrightarrow> fb_disabled (fs_lane s))"

text \<open>What a new byte says: where it is, and what the predictor made of it.\<close>

definition byte_ok :: "vm_data \<Rightarrow> xcpu \<Rightarrow> fetch_el \<Rightarrow> bool" where
  "byte_ok junk cpu e \<longleftrightarrow>
     (if fe_is_exc e then fetch_target junk (fe_vaddr e) cpu = Inr (Inl (fe_exc e))
      else fetch_target junk (fe_vaddr e) cpu = Inr (Inr (fe_paddr e))
         \<and> (fe_is_branch e \<or> fe_next e = fe_vaddr e + 1))"

lemma fetch_target_only_tlb: "only_tlb s s' \<Longrightarrow> fetch_target junk v s' = fetch_target junk v s"
  by (simp add: fetch_target_def translation_only_tlb)

lemma one_block_1: "clear_of_top c c' a \<Longrightarrow> one_block c a 1"
  by (simp add: one_block_def last_addr_def clear_of_top_def)

lemma fetch_cache_access:
  assumes "fetchable ib ib2 junk s" and "fetch_target junk v (fs_cpu s) = Inr r"
  obtains (slow) "struct_access cyc 0 (fetch_addr r) 1 False (fs_cache s) = Inl Exit"
    | (fine) cs lat where "struct_access cyc 0 (fetch_addr r) 1 False (fs_cache s) = Inr (cs, lat)"
        "struct_inv ib ib2 cs" "cs_l1 cs \<noteq> []"
        "\<And>a. clear_of_top (cs_l1 cs ! 0) (cs_l2 cs) a = clear_of_top (cs_l1 (fs_cache s) ! 0) (cs_l2 (fs_cache s)) a"
proof -
  let ?c = "fs_cache s"
  have c: "struct_inv ib ib2 ?c" "0 < length (cs_l1 ?c)" "clear_of_top (cs_l1 ?c ! 0) (cs_l2 ?c) (fetch_addr r)"
    using assms unfolding fetchable_def by (blast, simp, metis sum.inject(2))
  obtain l1 l2 lat where a: "struct_access cyc 0 (fetch_addr r) 1 False ?c
      = struct_done lat (?c\<lparr>cs_l1 := (cs_l1 ?c)[0 := l1], cs_l2 := l2\<rparr>)" "cache_inv ib l1" "cache_inv ib2 l2"
      "shape l1 = shape (cs_l1 ?c ! 0)" "shape l2 = shape (cs_l2 ?c)"
    using struct_access_ok[OF c(1,2) one_block_1[OF c(3)] c(3), of cyc False] by auto
  show thesis
  proof (cases "lat > 500")
    case True
    then show thesis using slow a(1) by (simp add: struct_done_def)
  next
    case False
    let ?cs = "?c\<lparr>cs_l1 := (cs_l1 ?c)[0 := l1], cs_l2 := l2,
      cs_lat_sum := cs_lat_sum ?c + ucast lat, cs_lat_n := cs_lat_n ?c + 1\<rparr>"
    have "struct_access cyc 0 (fetch_addr r) 1 False ?c = Inr (?cs, lat)"
      using False by (simp add: a(1) struct_done_def)
    moreover have "struct_inv ib ib2 ?cs"
      using c(1) a(2,3) set_update_subset_insert[of "cs_l1 ?c" 0 l1] by (auto simp: struct_inv_def)
    moreover have "cs_l1 ?cs \<noteq> []" using c(2) by auto
    moreover have "clear_of_top (cs_l1 ?cs ! 0) (cs_l2 ?cs) x = clear_of_top (cs_l1 ?c ! 0) (cs_l2 ?c) x" for x
      using c(2) one_block_shape(3)[OF a(4), of l2 x] one_block_shape(4)[OF a(5), of "cs_l1 ?c ! 0" x] by simp
    ultimately show thesis using fine[of ?cs lat] by blast
  qed
qed

lemma fetchable_step:
  assumes "fetchable ib ib2 junk s" "only_tlb (fs_cpu s) cpu" "tlb_coherent cpu" "struct_inv ib ib2 cs" "cs_l1 cs \<noteq> []"
    "\<And>a. clear_of_top (cs_l1 cs ! 0) (cs_l2 cs) a = clear_of_top (cs_l1 (fs_cache s) ! 0) (cs_l2 (fs_cache s)) a"
    "pred_good p" "fs_cpu s' = cpu" "fs_cache s' = cs" "fs_pred s' = p"
  shows "fetchable ib ib2 junk s'"
  using assms(1,3-10) unfolding fetchable_def by (simp add: fetch_target_only_tlb[OF assms(2)])

lemma fetch_byte_ok:
  assumes p: "path_ok n a s" and f: "fetchable ib ib2 junk s" and e: "\<not> fb_disabled (fs_lane s)" and av: "0 < fb_avail (fs_lane s)"
  shows "fetch_byte junk jr cyc n vid s = Inl Exit
    \<or> (\<exists>s' stop x. fetch_byte junk jr cyc n vid s = Inr (s', stop) \<and> path_ok n a s' \<and> fetchable ib ib2 junk s'
        \<and> queued n (fs_lane s') = queued n (fs_lane s) @ [x] \<and> byte_ok junk (fs_cpu s) x
        \<and> fb_avail (fs_lane s') = fb_avail (fs_lane s) - 1 \<and> (\<not> stop \<longrightarrow> \<not> fb_disabled (fs_lane s'))
        \<and> only_tlb (fs_cpu s) (fs_cpu s'))"
proof -
  let ?l = "fs_lane s" let ?pc = "fs_pc s"
  have ok: "lane_ok n ?l" and st: "stream a (queued n ?l) ?pc" and nf: "\<not> faulted (queued n ?l)"
    using p e by (simp_all add: path_ok_def)
  have w: "unat (fb_write ?l) < length (fb_buf ?l)" using lane_okD[OF ok] by simp
  obtain r where r: "fetch_target junk ?pc (fs_cpu s) = Inr r" using f unfolding fetchable_def by blast
  obtain cpu where cpu: "memory_read_inst_byte junk ?pc (fs_cpu s) = Inr (r, cpu)" "tlb_coherent cpu" "only_tlb (fs_cpu s) cpu"
    using memory_read_inst_byte_target[of "fs_cpu s" junk ?pc] f r by (auto simp: fetchable_def)
  obtain pr br where pr: "pred_check ?pc jr vid (fs_pred s) = Inr (pr, br)" "pred_good pr"
    using f bp.checkE[of "fs_pred s" ?pc jr vid] unfolding fetchable_def by blast
  show ?thesis
  proof (cases rule: fetch_cache_access[OF f r, of cyc])
    case 1
    then show ?thesis using w cpu(1) by (simp add: fetch_byte_def fetch_addr_def)
  next
    case (2 cs lat)
    note put = put_byte_ok[of n "charge lat ?l", unfolded charge_simps, OF ok av]
    note step = fetchable_step[OF f cpu(3,2) 2(2-4)]
    have app: "stream a (queued n ?l @ [x]) q" if "stream ?pc [x] q" for x q
      using that st nf by (auto simp: stream_append)
    have flt: "faulted (queued n ?l @ [x]) = fe_is_exc x" for x
      using nf by (simp add: faulted_def)
    show ?thesis
    proof (cases r)
      case (Inl exc)
      let ?f = "\<lambda>b :: fetch_el. b\<lparr>fe_is_exc := True, fe_exc := exc\<rparr>"
      let ?s = "s\<lparr>fs_cpu := cpu, fs_cache := cs, fs_lane := (put_byte n ?f ?pc (charge lat ?l))\<lparr>fb_disabled := True\<rparr>\<rparr>"
      let ?x = "?f ((fb_buf ?l ! unat (fb_write ?l))\<lparr>fe_vaddr := ?pc\<rparr>)"
      have s': "fetch_byte junk jr cyc n vid s = Inr (?s, True)"
        using w cpu(1) 2(1) Inl by (simp add: fetch_byte_def fetch_addr_def)
      have f': "fetchable ib ib2 junk ?s" by (rule step[where p = "fs_pred s"]) (use f in \<open>simp_all add: fetchable_def\<close>)
      have q: "queued n (fs_lane ?s) = queued n ?l @ [?x]" using put(2) by simp
      have "path_ok n a ?s" unfolding path_ok_def q flt using put(1) app[of ?x ?pc] by simp
      moreover have "byte_ok junk (fs_cpu s) ?x" using r Inl by (simp add: byte_ok_def)
      ultimately show ?thesis unfolding s' using f' q put(3) cpu(3)
        by (intro disjI2 exI[of _ ?s] exI[of _ True] exI[of _ ?x]) simp
    next
      case (Inr pa)
      define t where "t \<longleftrightarrow> rsp_is_branch br \<and> rsp_take br"
      let ?f = "\<lambda>b :: fetch_el. b\<lparr>fe_is_exc := False, fe_paddr := pa, fe_is_branch := t,
          fe_next := if t then rsp_target br else ?pc + 1\<rparr>"
      let ?l' = "put_byte n ?f ?pc (charge lat ?l)"
      let ?s = "s\<lparr>fs_cpu := cpu, fs_cache := cs, fs_lane := if t then ?l'\<lparr>fb_last_branch := 0\<rparr> else ?l',
          fs_pc := if t then rsp_target br else ?pc + 1, fs_pred := pr\<rparr>"
      let ?x = "?f ((fb_buf ?l ! unat (fb_write ?l))\<lparr>fe_vaddr := ?pc\<rparr>)"
      have s': "fetch_byte junk jr cyc n vid s = Inr (?s, t)"
        using w cpu(1) 2(1) pr(1) Inr
        by (cases t) (simp_all add: fetch_byte_def fetch_addr_def Let_def t_def[symmetric])
      have f': "fetchable ib ib2 junk ?s" by (rule step[OF pr(2)]) simp_all
      have q: "queued n (fs_lane ?s) = queued n ?l @ [?x]" using put(2)[of ?f ?pc] by (cases t) simp_all
      have nd: "\<not> fb_disabled (fs_lane ?s)" using put(5)[of ?f ?pc] e by (cases t) simp_all
      have "path_ok n a ?s" unfolding path_ok_def q flt
        using put(1)[of ?f ?pc] nd app[of ?x "if t then rsp_target br else ?pc + 1"] by (cases t) simp_all
      moreover have "byte_ok junk (fs_cpu s) ?x" using r Inr by (simp add: byte_ok_def)
      moreover have "fb_avail (fs_lane ?s) = fb_avail ?l - 1" using put(3)[of ?f ?pc] by (cases t) simp_all
      moreover have "t \<or> \<not> fb_disabled (fs_lane ?s)" using nd by simp
      moreover have "only_tlb (fs_cpu s) (fs_cpu ?s)" using cpu(3) by simp
      ultimately show ?thesis using s' f' q by blast
    qed
  qed
qed

lemma fetch_loop_ok:
  assumes "path_ok n a s" "fetchable ib ib2 junk s" "\<not> fb_disabled (fs_lane s)" "k \<le> unat (fb_avail (fs_lane s))"
  shows "fetch_loop junk jr cyc n vid k s = Inl Exit
    \<or> (\<exists>s' es. fetch_loop junk jr cyc n vid k s = Inr s' \<and> path_ok n a s' \<and> fetchable ib ib2 junk s'
        \<and> queued n (fs_lane s') = queued n (fs_lane s) @ es \<and> length es \<le> k \<and> (0 < k \<longrightarrow> es \<noteq> [])
        \<and> (\<forall>x \<in> set es. byte_ok junk (fs_cpu s) x) \<and> only_tlb (fs_cpu s) (fs_cpu s'))"
  using assms
proof (induction k arbitrary: s)
  case 0
  then show ?case by (intro disjI2 exI[of _ s] exI[of _ "[]"]) simp
next
  case (Suc k)
  have av: "0 < fb_avail (fs_lane s)" using Suc.prems(4) by (simp add: word_less_nat_alt)
  show ?case
  proof (cases "fetch_byte junk jr cyc n vid s = Inl Exit")
    case False
    then obtain s1 stop x where b: "fetch_byte junk jr cyc n vid s = Inr (s1, stop)" "path_ok n a s1" "fetchable ib ib2 junk s1"
      "queued n (fs_lane s1) = queued n (fs_lane s) @ [x]" "byte_ok junk (fs_cpu s) x"
      "fb_avail (fs_lane s1) = fb_avail (fs_lane s) - 1" "\<not> stop \<Longrightarrow> \<not> fb_disabled (fs_lane s1)"
      "only_tlb (fs_cpu s) (fs_cpu s1)"
      using fetch_byte_ok[OF Suc.prems(1-3) av, of jr cyc vid] by blast
    show ?thesis
    proof (cases stop)
      case True
      then show ?thesis using b by (intro disjI2 exI[of _ s1] exI[of _ "[x]"]) simp
    next
      case False
      have "k \<le> unat (fb_avail (fs_lane s1))"
        using Suc.prems(4) av by (simp add: b(6) unat_pred word_less_nat_alt)
      note IH = Suc.IH[OF b(2,3) b(7)[OF False] this]
      have eq: "byte_ok junk (fs_cpu s1) y = byte_ok junk (fs_cpu s) y" for y
        by (simp add: byte_ok_def fetch_target_only_tlb[OF b(8)])
      show ?thesis
      proof (cases "fetch_loop junk jr cyc n vid k s1 = Inl Exit")
        case True
        then show ?thesis using b(1) False by simp
      next
        case ok: False
        then obtain s' es where l: "fetch_loop junk jr cyc n vid k s1 = Inr s'" "path_ok n a s'" "fetchable ib ib2 junk s'"
          "queued n (fs_lane s') = queued n (fs_lane s1) @ es" "length es \<le> k"
          "\<forall>x \<in> set es. byte_ok junk (fs_cpu s) x" "only_tlb (fs_cpu s1) (fs_cpu s')"
          using IH unfolding eq by blast
        then show ?thesis using b(1,4,5) False only_tlb_trans[OF b(8)]
          by (intro disjI2 exI[of _ s'] exI[of _ "x # es"]) simp
      qed
    qed
  qed simp
qed

text \<open>C15: Fetching follows the predicted path. In a well-formed front end a fetch either stops the
  simulator because a cache access was too slow, or it appends at most \<open>width\<close> bytes to the queue
  without losing one: none while fetching is disabled by a fault or waits for the cache, at least one when
  there is room; the queue stays one unbroken path from the address that the decoder expects to the
  speculative program counter; every byte carries the physical address that the page tables give, or the
  exception, and a byte that is not a predicted branch leads to the next address.\<close>

theorem fetch_extends_path:
  assumes p: "path_ok n a s" and f: "fetchable ib ib2 junk s"
  shows "fetch junk jr cyc n width vid s = Inl Exit
    \<or> (\<exists>s' es. fetch junk jr cyc n width vid s = Inr s' \<and> path_ok n a s' \<and> fetchable ib ib2 junk s'
        \<and> queued n (fs_lane s') = queued n (fs_lane s) @ es
        \<and> length es \<le> min (unat width) (unat (fb_avail (fs_lane s)))
        \<and> (es = [] \<longleftrightarrow> fb_disabled (fs_lane s) \<or> fb_wait (fs_lane s) \<noteq> 0 \<or> width = 0 \<or> fb_avail (fs_lane s) = 0)
        \<and> (\<forall>x \<in> set es. byte_ok junk (fs_cpu s) x) \<and> only_tlb (fs_cpu s) (fs_cpu s'))"
proof -
  let ?l = "fs_lane s"
  let ?k = "if fb_avail ?l > width then width else fb_avail ?l"
  have k: "unat ?k = min (unat width) (unat (fb_avail ?l))"
    by (simp add: word_less_nat_alt min_def)
  consider "fb_disabled ?l" | "\<not> fb_disabled ?l" "fb_wait ?l \<noteq> 0" | "\<not> fb_disabled ?l" "fb_wait ?l = 0" by blast
  then show ?thesis
  proof cases
    case 1
    then have "fetch junk jr cyc n width vid s = Inr s" by (simp add: fetch_def Let_def)
    then show ?thesis using p f 1 by (intro disjI2 exI[of _ s] exI[of _ "[]"]) simp
  next
    case 2
    then show ?thesis using p f
      by (intro disjI2 exI[of _ "s\<lparr>fs_lane := ?l\<lparr>fb_wait := fb_wait ?l - 1\<rparr>\<rparr>"] exI[of _ "[]"])
        (simp add: fetch_def Let_def path_ok_def fetchable_def)
  next
    case 3
    define q where "q = unat ?k"
    have eq: "fetch junk jr cyc n width vid s = fetch_loop junk jr cyc n vid q s"
      using 3 by (simp add: fetch_def Let_def q_def)
    have k: "q = min (unat width) (unat (fb_avail ?l))" unfolding q_def by (rule k)
    then have "q \<le> unat (fb_avail ?l)" by simp
    note L = fetch_loop_ok[OF p f 3(1) this, of jr cyc vid]
    have z: "q = 0 \<longleftrightarrow> width = 0 \<or> fb_avail ?l = 0" unfolding k by (auto simp: min_def unat_eq_0)
    show ?thesis
    proof (cases "fetch_loop junk jr cyc n vid q s = Inl Exit")
      case False
      then obtain s' es where l: "fetch_loop junk jr cyc n vid q s = Inr s'" "path_ok n a s'" "fetchable ib ib2 junk s'"
        "queued n (fs_lane s') = queued n ?l @ es" "length es \<le> q" "0 < q \<longrightarrow> es \<noteq> []"
        "\<forall>x \<in> set es. byte_ok junk (fs_cpu s) x" "only_tlb (fs_cpu s) (fs_cpu s')"
        using L False by blast
      have "es = [] \<longleftrightarrow> q = 0" using l(5,6) by (cases q) simp_all
      then have "es = [] \<longleftrightarrow> fb_disabled ?l \<or> fb_wait ?l \<noteq> 0 \<or> width = 0 \<or> fb_avail ?l = 0" using 3 z by blast
      moreover have "length es \<le> min (unat width) (unat (fb_avail ?l))" using l(5) unfolding k .
      ultimately show ?thesis unfolding eq using l(1-4,7,8)
        by (intro disjI2 exI[of _ s'] exI[of _ es] conjI) assumption+
    next
      case True
      then show ?thesis unfolding eq by (rule disjI1)
    qed
  qed
qed

lemma faulted_split: "faulted es \<longleftrightarrow> faulted (take m es) \<or> faulted (drop m es)"
  unfolding faulted_def by (metis append_take_drop_id list_ex_append)

lemma faulted_Cons [simp]: "faulted (e # es) \<longleftrightarrow> fe_is_exc e \<or> faulted es"
  by (simp add: faulted_def)

lemma flush_queue:
  assumes "0 < unat n" "unat n \<le> 2 ^ 31" "length (fb_buf l) = unat n"
  shows "lane_ok n (fst (fb_flush n cpu l))" "queued n (fst (fb_flush n cpu l)) = []"
    "\<not> fb_disabled (fst (fb_flush n cpu l))" "snd (fb_flush n cpu l) = x_rip cpu"
  using assms by (simp_all add: fb_flush_def lane_ok_def queued_def word_less_nat_alt)

text \<open>C16: The decoder reads the predicted path in order. \<open>get_byte\<close> takes the oldest byte, which was
  fetched from the address the decoder expects; \<open>skip_bytes\<close> takes the oldest bytes up to the number
  asked for and reports the address that follows the last of them; after either, what is left in the
  queue is again an unbroken path, now from that following address, unless a taken byte had faulted.
  A flush empties the queue and restarts the path at the program counter.\<close>

theorem decoder_reads_path:
  assumes p: "path_ok n a s" and q: "queued n (fs_lane s) = e # es" and k: "0 < k"
  shows "(\<exists>l'. get_byte n (fs_lane s) = Inr (l', e) \<and> fe_vaddr e = a \<and> queued n l' = es
            \<and> (fe_is_exc e \<or> path_ok n (fe_next e) (s\<lparr>fs_lane := l'\<rparr>)))
       \<and> (\<exists>l' b m. skip_bytes n k (fs_lane s) = Inr (l', b, m)
            \<and> unat m = min (unat k) (length (e # es)) \<and> queued n l' = drop (unat m) (e # es)
            \<and> (faulted (take (unat m) (e # es)) \<or> path_ok n b (s\<lparr>fs_lane := l'\<rparr>)))
       \<and> path_ok n (x_rip cpu) (s\<lparr>fs_lane := fst (fb_flush n cpu (fs_lane s)), fs_pc := snd (fb_flush n cpu (fs_lane s))\<rparr>)"
proof (intro conjI)
  let ?l = "fs_lane s"
  have ok: "lane_ok n ?l" and st: "stream a (e # es) (fs_pc s)" and fd: "faulted (e # es) \<longleftrightarrow> fb_disabled ?l"
    using p q by (simp_all add: path_ok_def)
  obtain l' where g: "get_byte n ?l = Inr (l', e)" "lane_ok n l'" "queued n l' = es"
    "fb_disabled l' = fb_disabled ?l" "fb_wait l' = fb_wait ?l"
    by (rule get_byte_ok[OF ok q])
  have "fe_is_exc e \<or> path_ok n (fe_next e) (s\<lparr>fs_lane := l'\<rparr>)"
    using g st fd by (cases "fe_is_exc e") (simp_all add: path_ok_def)
  then show "\<exists>l'. get_byte n ?l = Inr (l', e) \<and> fe_vaddr e = a \<and> queued n l' = es
      \<and> (fe_is_exc e \<or> path_ok n (fe_next e) (s\<lparr>fs_lane := l'\<rparr>))"
    using g st by auto
  have "queued n ?l \<noteq> []" using q by simp
  then obtain l2 m where m: "skip_bytes n k ?l = Inr (l2, fe_next (queued n ?l ! (unat m - 1)), m)"
    "unat m = min (unat k) (length (queued n ?l))" "lane_ok n l2" "queued n l2 = drop (unat m) (queued n ?l)"
    "fb_disabled l2 = fb_disabled ?l"
    by (rule skip_bytes_ok[OF ok k])
  have m0: "0 < unat m" "unat m \<le> length (e # es)" using m(2) q k by (simp_all add: word_less_nat_alt del: length_queued)
  have "faulted (take (unat m) (e # es)) \<or> path_ok n (fe_next ((e # es) ! (unat m - 1))) (s\<lparr>fs_lane := l2\<rparr>)"
  proof (rule disjCI)
    assume "\<not> path_ok n (fe_next ((e # es) ! (unat m - 1))) (s\<lparr>fs_lane := l2\<rparr>)"
    moreover have "path_ok n (fe_next ((e # es) ! (unat m - 1))) (s\<lparr>fs_lane := l2\<rparr>)"
      if nf: "\<not> faulted (take (unat m) (e # es))"
      using stream_drop[OF st m0 nf] m(3,4,5) q fd nf faulted_split[of "e # es" "unat m"] by (simp add: path_ok_def)
    ultimately show "faulted (take (unat m) (e # es))" by blast
  qed
  with m q show "\<exists>l' b m. skip_bytes n k ?l = Inr (l', b, m)
      \<and> unat m = min (unat k) (length (e # es)) \<and> queued n l' = drop (unat m) (e # es)
      \<and> (faulted (take (unat m) (e # es)) \<or> path_ok n b (s\<lparr>fs_lane := l'\<rparr>))"
    by (intro exI[of _ l2] exI[of _ "fe_next ((e # es) ! (unat m - 1))"] exI[of _ m]) (simp del: length_queued)
  show "path_ok n (x_rip cpu) (s\<lparr>fs_lane := fst (fb_flush n cpu ?l), fs_pc := snd (fb_flush n cpu ?l)\<rparr>)"
    using flush_queue[of n ?l cpu] lane_okD[OF ok] by (simp add: path_ok_def faulted_def)
qed

section \<open>A concrete front end\<close>

text \<open>
  A memory whose first frame is a page table that maps the first page to that frame and nothing else, a
  buffer of four bytes, and a predictor that knows one branch.
\<close>

definition page_mem :: mem where
  "page_mem = \<lparr>m_vector = 3 # replicate 4103 0, m_size = 4104\<rparr>"

definition page_cpu :: xcpu where
  "page_cpu = demo_cpu\<lparr>x_mem := page_mem\<rparr>"

definition blank_byte :: fetch_el where
  "blank_byte = \<lparr>fe_vaddr = 0, fe_is_branch = False, fe_data = 0, fe_next = 0, fe_is_exc = False, fe_exc = 0, fe_paddr = 0\<rparr>"

definition demo_fetch :: fetch_st where
  "demo_fetch = \<lparr>fs_lane = lane_new (replicate 4 blank_byte) 4, fs_pc = 16, fs_cpu = page_cpu,
     fs_cache = demo_struct, fs_pred = Two_Level_History demo_bp\<rparr>"

lemma level_offset: "unat (ucast (push_bit 3 (drop_bit sh v AND 0x1FF)) :: u32) = 8 * unat (drop_bit sh (v :: u64) AND 0x1FF)"
  "unat (drop_bit sh (v :: u64) AND 0x1FF) < 512"
proof -
  let ?i = "drop_bit sh v AND 0x1FF"
  have "?i \<le> 0x1FF" by (rule word_and_le1)
  then show i: "unat ?i < 512" by (simp add: word_le_nat_alt)
  then have "unat (push_bit 3 ?i) = 8 * unat ?i"
    by (simp add: push_bit_eq_mult unat_word_ariths)
  moreover have "unat (ucast (push_bit 3 ?i) :: u32) = unat (push_bit 3 ?i) mod 2 ^ 32"
    by (simp add: unsigned_ucast_eq unsigned_take_bit_eq take_bit_eq_mod)
  ultimately show "unat (ucast (push_bit 3 ?i) :: u32) = 8 * unat ?i" using i by simp
qed

lemma page_level:
  "level_entry v sh 0 page_mem = Inr (ucast (push_bit 3 (drop_bit sh v AND 0x1FF)), if drop_bit sh v AND 0x1FF = 0 then 3 else 0)"
proof -
  let ?i = "drop_bit sh v AND 0x1FF" let ?a = "ucast (push_bit 3 ?i) :: u32"
  have a: "unat ?a = 8 * unat ?i" "unat ?i < 512" by (rule level_offset)+
  have r: "replicate 7 (0 :: u8) = [0, 0, 0, 0, 0, 0, 0]" "replicate 8 (0 :: u8) = [0, 0, 0, 0, 0, 0, 0, 0]"
    by (simp_all add: numeral_eq_Suc)
  have "unat (?a + 8) = unat ?a + 8" using a by (subst unat_word_ariths(1)) simp
  then have "\<not> ?a + 8 \<ge> 4104" using a by (simp add: word_le_nat_alt)
  moreover have "drop (8 * unat ?i) (3 # replicate 4103 (0 :: u8)) = (if ?i = 0 then 3 # replicate 4103 0 else replicate (4104 - 8 * unat ?i) 0)"
  proof (cases "?i = 0")
    case False
    then obtain j where j: "8 * unat ?i = Suc j" by (metis mult_is_0 not0_implies_Suc numeral_eq_Suc old.nat.distinct(1) unat_eq_0)
    with False show ?thesis by simp
  qed simp
  moreover have "take 8 (3 # replicate 4103 (0 :: u8)) = [3, 0, 0, 0, 0, 0, 0, 0]" by (simp add: r)
  moreover have "min 8 (4104 - 8 * unat ?i) = 8" using a(2) by simp
  then have "take 8 (replicate (4104 - 8 * unat ?i) (0 :: u8)) = [0, 0, 0, 0, 0, 0, 0, 0]"
    by (simp add: take_replicate r)
  ultimately have "read8 ?a page_mem = Inr (if ?i = 0 then 3 else 0)"
    using a by (simp add: read8_def raw_read_def page_mem_def)
  then show ?thesis by (simp add: level_entry_def)
qed

lemma page_walk: "\<exists>r a l. walk v 0 page_mem = Inr (r, a, l) \<and> (r \<longrightarrow> l = 3)"
proof -
  have t: "table_base 3 = 0" by (simp add: table_base_def pg_addr_def)
  have "Ex Not" by (rule exI[of _ False]) simp
  then show ?thesis by (simp add: walk_def page_level pg_p_def t)
qed

lemma page_on: "vm_enabled page_cpu" "vm_base page_cpu = 0" "x_mem page_cpu = page_mem"
  using demo_on by (simp_all add: vm_enabled_def vm_base_def page_cpu_def)

lemma page_coherent: "tlb_coherent page_cpu"
  by (rule tlb_free_coherent) (simp add: tlb_free_def page_cpu_def demo_cpu_def)

lemma page_target: "\<exists>r. fetch_target junk v page_cpu = Inr r \<and> unat (fetch_addr r) < 4096"
proof -
  obtain ok a l where w: "walk v 0 page_mem = Inr (ok, a, l)" "ok \<longrightarrow> l = 3" using page_walk[of v] by blast
  have "unat (frame_addr 3 v) < 4096"
  proof -
    have "v AND 0xFFF \<le> 0xFFF" by (rule word_and_le1)
    then have "unat (v AND 0xFFF) < 4096" by (simp add: word_le_nat_alt)
    moreover have "unat (ucast (v AND 0xFFF) :: u32) = unat (v AND 0xFFF) mod 2 ^ 32"
      by (simp add: unsigned_ucast_eq unsigned_take_bit_eq take_bit_eq_mod)
    ultimately show ?thesis by (simp add: frame_addr_def pg_addr_def)
  qed
  then show ?thesis using w by (auto simp: fetch_target_def translation_def page_on fetch_addr_def)
qed

lemma demo_fetchable: "fetchable 3 3 junk demo_fetch"
proof -
  have g: "geom 3 demo_cache" using demo_cache_inv(1) by (simp add: cache_inv_def)
  have b: "c_block_size demo_cache = 16" by (simp add: demo_cache_def cache_new_def)
  have "clear_of_top demo_cache demo_cache (fetch_addr r)" if "unat (fetch_addr r) < 4096" for r
    using that by (simp add: clear_of_top_def b demo_cache_inv(2))
  moreover have "struct_inv 3 3 demo_struct" by (simp add: struct_inv_def demo_struct_def demo_cache_inv)
  ultimately show ?thesis using page_target[of junk] page_coherent demo_bp_facts(1)
    by (auto simp: fetchable_def demo_fetch_def pred_good_def) (fastforce simp: demo_struct_def)+
qed

lemma demo_path: "path_ok 4 16 demo_fetch"
  by (simp add: path_ok_def demo_fetch_def lane_ok_def lane_new_def queued_def faulted_def word_less_nat_alt)

lemma fetch_extends_path_witness:
  "fetch blank_vm \<lparr>rsp_is_branch = False, rsp_take = False, rsp_target = 0\<rparr> 0 4 2 0 demo_fetch = Inl Exit
   \<or> (\<exists>s' es. fetch blank_vm \<lparr>rsp_is_branch = False, rsp_take = False, rsp_target = 0\<rparr> 0 4 2 0 demo_fetch = Inr s'
        \<and> path_ok 4 16 s' \<and> queued 4 (fs_lane s') = es \<and> es \<noteq> [] \<and> length es \<le> 2)"
proof -
  have "queued 4 (fs_lane demo_fetch) = []" "fb_avail (fs_lane demo_fetch) = 4"
    "\<not> fb_disabled (fs_lane demo_fetch)" "fb_wait (fs_lane demo_fetch) = 0"
    by (simp_all add: demo_fetch_def lane_new_def queued_def)
  with fetch_extends_path[OF demo_path demo_fetchable, of blank_vm _ 0 2 0] show ?thesis by fastforce
qed

definition demo_byte :: fetch_el where
  "demo_byte = blank_byte\<lparr>fe_vaddr := 16, fe_next := 17, fe_paddr := 16\<rparr>"

definition demo_fetched :: fetch_st where
  "demo_fetched = demo_fetch\<lparr>fs_lane := put_byte 4 (\<lambda>_. demo_byte) 16 (fs_lane demo_fetch), fs_pc := 17\<rparr>"

lemma demo_fetched_facts: "queued 4 (fs_lane demo_fetched) = [demo_byte]" "path_ok 4 16 demo_fetched"
proof -
  have "lane_ok 4 (fs_lane demo_fetch)" "queued 4 (fs_lane demo_fetch) = []" "0 < fb_avail (fs_lane demo_fetch)"
    "\<not> fb_disabled (fs_lane demo_fetch)"
    using demo_path by (simp_all add: path_ok_def demo_fetch_def lane_new_def queued_def)
  from put_byte_ok[OF this(1,3), of "\<lambda>_. demo_byte" 16] this show "queued 4 (fs_lane demo_fetched) = [demo_byte]"
    "path_ok 4 16 demo_fetched"
    by (simp_all add: demo_fetched_def path_ok_def demo_byte_def blank_byte_def faulted_def)
qed

lemma decoder_reads_path_witness:
  "\<exists>l'. get_byte 4 (fs_lane demo_fetched) = Inr (l', demo_byte) \<and> queued 4 l' = []
      \<and> path_ok 4 17 (demo_fetched\<lparr>fs_lane := l'\<rparr>)"
  using decoder_reads_path[OF demo_fetched_facts(2,1), of 3 page_cpu] by (auto simp: demo_byte_def blank_byte_def)

end
