(* ===== verification/X86_Decode.thy ===== *)
theory X86_Decode
  imports Prelude
begin

text \<open>
  The byte automaton of the x86-64 decoder, \<open>src/src/cpu/x86_64/x86_64_decoder.cpp\<close>. The decoder collects
  an instruction byte by byte: prefixes, opcode, ModRM, SIB, displacement, immediate. When the fetch
  buffer runs empty it returns, and goes on in a later cycle at the function that \<open>SET_HANDLER\<close> stored.
  Every function of the automaton consumes at most one byte per round and is entered by
  \<open>SET_HANDLER(f) this->f()\<close>; the model of a function maps the byte and the state to the next function and
  state, and \<open>Decoder\<close> drives them.

  The tables of the Bochs decoder (\<open>BxOpcodeHasModrm64\<close>, \<open>BxOpcodeInfo64R\<close>, \<open>BxOpcodeInfo64M\<close>) are
  parameters: an entry is its attribute word, with the array it links to unless \<open>AnotherArray\<close> is \<open>NULL\<close>. The three-byte escape is compiled
  only for \<open>BX_SUPPORT_SSE\<close> above 2 and this project sets 2, so \<open>has_b3\<close> is always 0.
\<close>

unbundle bit_operations_syntax

section \<open>Tables\<close>

datatype op_info = Op_Plain (op_attr: u32) | Op_Group (op_attr: u32) (op_another: "nat \<Rightarrow> op_info")

record tables =
  tb_has_modrm :: "nat \<Rightarrow> bool"
  tb_reg :: "nat \<Rightarrow> op_info"
  tb_mem :: "nat \<Rightarrow> op_info"

definition IMMEDIATE :: u32 where "IMMEDIATE = 0x000F"
definition GROUP_X :: u32 where "GROUP_X = 0x00F0"
definition GROUP_N :: u32 where "GROUP_N = 0x0010"
definition PREFIX_SSE :: u32 where "PREFIX_SSE = 0x0020"
definition PREFIX_SSE66 :: u32 where "PREFIX_SSE66 = 0x0030"
definition FP_ESCAPE :: u32 where "FP_ESCAPE = 0x0040"
definition RM_GROUP :: u32 where "RM_GROUP = 0x0050"
definition OSIZE_GRP :: u32 where "OSIZE_GRP = 0x0070"

section \<open>State\<close>

record xst =
  xs_opcode_bytes :: nat
  xs_first_opcode :: u8
  xs_second_opcode :: u8
  xs_addr_size :: nat
  xs_mem_operand :: bool
  xs_opcode :: nat
  xs_offset :: nat
  xs_attr :: u32
  xs_rex :: u8
  xs_sse :: nat
  xs_has_modrm :: bool
  xs_modrm :: u8
  xs_disp_bytes :: nat
  xs_has_sib :: bool
  xs_sib :: u8
  xs_disp_got :: nat
  xs_im_got :: nat
  xs_im_bytes :: nat
  xs_prefixes :: nat
  xs_has_base :: bool
  xs_base :: u8
  xs_has_index :: bool
  xs_index :: u8
  xs_busy :: bool
  xs_vaddr :: u64
  xs_length :: u8
  xs_inst :: "u8 list"

datatype cur = C_Decode | C_Second | C_Modrm | C_Sib | C_Disp | C_Im | C_Done

text \<open>What \<open>x86_64_decode\<close> sets when it starts an instruction that is not in the instruction cache.\<close>

definition xst_start :: "u64 \<Rightarrow> xst \<Rightarrow> xst" where
  "xst_start v st = st\<lparr>xs_busy := False, xs_vaddr := v, xs_opcode_bytes := 0, xs_addr_size := 64, xs_sse := 0,
     xs_offset := 512, xs_rex := 0, xs_has_modrm := False, xs_disp_bytes := 0, xs_has_sib := False,
     xs_disp_got := 0, xs_im_got := 0, xs_im_bytes := 0, xs_prefixes := 0, xs_mem_operand := False,
     xs_has_base := False, xs_has_index := False\<rparr>"

section \<open>The functions\<close>

text \<open>\<open>x86_64_get_im\<close>.\<close>

definition imm_size :: "nat \<Rightarrow> u32 \<Rightarrow> nat" where
  "imm_size addr_size attr =
     (let m = attr AND IMMEDIATE
      in if m \<in> {2, 3, 11} then 1 else if m = 4 then 2 else if m = 9 then 4 else if m = 12 then 8
         else if m = 6 then 3 else if m = 10 then (if addr_size = 64 then 8 else 4) else 0)"

definition get_im :: "xst \<Rightarrow> cur \<times> xst" where
  "get_im st =
     (let n = imm_size (xs_addr_size st) (xs_attr st);
          st1 = (if n = 0 then st else st\<lparr>xs_im_bytes := n\<rparr>)
      in (if xs_im_bytes st1 \<noteq> 0 then C_Im else C_Done, st1))"

text \<open>
  The loop of \<open>x86_64_modrm_done\<close> over opcode groups. A group that the \<open>switch\<close> does not know leaves the
  table entry unchanged, its attributes are added again, and the loop never ends.
\<close>

text \<open>\<open>into\<close> follows the link of the table entry, \<open>None\<close> if there is none.\<close>

definition group_step ::
  "(nat \<Rightarrow> u32 \<Rightarrow> u32 res) \<Rightarrow> nat \<Rightarrow> nat \<Rightarrow> nat \<Rightarrow> nat \<Rightarrow> nat \<Rightarrow> u32 \<Rightarrow> u32 res" where
  "group_step into nnn rm fp osz sse attr =
     (let g = attr AND GROUP_X; attr1 = attr AND NOT GROUP_X
      in if g = 0 then Inr attr
         else if g = GROUP_N then into nnn attr1
         else if g = RM_GROUP then into rm attr1
         else if g = OSIZE_GRP then into osz attr1
         else if g = PREFIX_SSE then (if sse \<noteq> 0 then into (sse - 1) attr1 else Inr attr1)
         else if g = PREFIX_SSE66 then Inr attr1
         else if g = FP_ESCAPE then into fp attr1
         else Inl Diverges)"

primrec resolve_group :: "op_info \<Rightarrow> nat \<Rightarrow> nat \<Rightarrow> nat \<Rightarrow> nat \<Rightarrow> nat \<Rightarrow> u32 \<Rightarrow> u32 res" where
  "resolve_group (Op_Plain a) nnn rm fp osz sse attr = group_step (\<lambda>i x. Inl Null_Deref) nnn rm fp osz sse attr"
| "resolve_group (Op_Group a f) nnn rm fp osz sse attr =
     group_step (\<lambda>i x. resolve_group (f i) nnn rm fp osz sse (x OR op_attr (f i))) nnn rm fp osz sse attr"

definition modrm_mod :: "u8 \<Rightarrow> u8" where "modrm_mod m = m AND 0xC0"
definition modrm_nnn :: "u8 \<Rightarrow> nat" where "modrm_nnn m = unat (drop_bit 3 m AND 7)"
definition modrm_rm :: "u8 \<Rightarrow> nat" where "modrm_rm m = unat (m AND 7)"

definition modrm_done :: "tables \<Rightarrow> xst \<Rightarrow> (cur \<times> xst) res" where
  "modrm_done t st =
     (let m = xs_modrm st; i = xs_opcode st + xs_offset st;
          reg = (modrm_mod m = 0xC0);
          info = (if reg then tb_reg t i else tb_mem t i);
          st1 = (if reg then st else st\<lparr>xs_mem_operand := True\<rparr>)
      in rbind (resolve_group info (modrm_nnn m) (modrm_rm m) (unat (m AND 0x3F)) (xs_offset st div 256) (xs_sse st)
                  (op_attr info))
           (\<lambda>attr. Inr (get_im (st1\<lparr>xs_attr := attr\<rparr>))))"

definition rex_b :: "u8 \<Rightarrow> u8" where "rex_b r = push_bit 3 (r AND 1)"
definition rex_x :: "u8 \<Rightarrow> u8" where "rex_x r = push_bit 2 (r AND 2)"

definition effective_mod :: "xst \<Rightarrow> u8" where
  "effective_mod st = (if xs_opcode st \<in> {0x120, 0x121, 0x122, 0x123} then 0xC0 else modrm_mod (xs_modrm st))"

definition modrm_state :: "xst \<Rightarrow> xst" where
  "modrm_state st =
     (let md = effective_mod st; rm = xs_modrm st AND 7
      in if md = 0 then (if rm = 5 then st\<lparr>xs_disp_bytes := 4\<rparr> else st)
         else st\<lparr>xs_has_base := True, xs_base := rm OR rex_b (xs_rex st), xs_disp_bytes := if md = 0x40 then 1 else 4\<rparr>)"

definition after_get_modrm :: "tables \<Rightarrow> xst \<Rightarrow> (cur \<times> xst) res" where
  "after_get_modrm t st =
     (if effective_mod st = 0xC0 then modrm_done t st
      else if xs_modrm st AND 7 \<noteq> 4 then
        (let st1 = modrm_state st in if xs_disp_bytes st1 \<noteq> 0 then Inr (C_Disp, st1) else modrm_done t st1)
      else Inr (C_Sib, st\<lparr>xs_has_sib := True\<rparr>))"

definition get_modrm :: "tables \<Rightarrow> u8 \<Rightarrow> xst \<Rightarrow> (cur \<times> xst) res" where
  "get_modrm t b st = after_get_modrm t (st\<lparr>xs_modrm := b\<rparr>)"

definition sib_state :: "u8 \<Rightarrow> xst \<Rightarrow> xst" where
  "sib_state b st =
     (let md = modrm_mod (xs_modrm st); base = b AND 7; index = drop_bit 3 b AND 7;
          st1 = st\<lparr>xs_sib := b\<rparr>;
          st2 = (if index \<noteq> 4 then st1\<lparr>xs_has_index := True, xs_index := index OR rex_x (xs_rex st)\<rparr> else st1)
      in if md = 0 then
           (if base = 5 then st2\<lparr>xs_disp_bytes := 4\<rparr>
            else st2\<lparr>xs_has_base := True, xs_base := base OR rex_b (xs_rex st)\<rparr>)
         else st2\<lparr>xs_disp_bytes := if md = 0x40 then 1 else 4\<rparr>)"

definition get_sib :: "tables \<Rightarrow> u8 \<Rightarrow> xst \<Rightarrow> (cur \<times> xst) res" where
  "get_sib t b st =
     (let st1 = sib_state b st
      in if xs_disp_bytes st1 \<noteq> 0 then Inr (C_Disp, st1) else modrm_done t st1)"

definition get_disp :: "tables \<Rightarrow> xst \<Rightarrow> (cur \<times> xst) res" where
  "get_disp t st =
     (let st1 = st\<lparr>xs_disp_got := xs_disp_got st + 1\<rparr>
      in if xs_disp_got st1 < xs_disp_bytes st1 then Inr (C_Disp, st1) else modrm_done t st1)"

definition get_im_byte :: "xst \<Rightarrow> cur \<times> xst" where
  "get_im_byte st =
     (let st1 = st\<lparr>xs_im_got := xs_im_got st + 1\<rparr>
      in (if xs_im_got st1 < xs_im_bytes st1 then C_Im else C_Done, st1))"

definition after_get_opcodes :: "tables \<Rightarrow> xst \<Rightarrow> cur \<times> xst" where
  "after_get_opcodes t st =
     (let st1 = (if xs_rex st AND 8 \<noteq> 0 then st\<lparr>xs_offset := 1024\<rparr> else st);
          st2 = st1\<lparr>xs_attr := op_attr (tb_reg t (xs_opcode st1 + xs_offset st1))\<rparr>
      in if tb_has_modrm t (xs_opcode st2) then (C_Modrm, st2\<lparr>xs_has_modrm := True\<rparr>) else get_im st2)"

definition get_second_opcode :: "tables \<Rightarrow> u8 \<Rightarrow> xst \<Rightarrow> cur \<times> xst" where
  "get_second_opcode t b st =
     after_get_opcodes t (st\<lparr>xs_second_opcode := b, xs_opcode := 0x100 + unat b\<rparr>)"

text \<open>
  The \<open>switch\<close> of \<open>x86_64_decode\<close>. \<open>strict\<close> says that the processor is in kernel mode and executes: then a
  segment override \<open>FS\<close> or \<open>GS\<close> stops the simulator.
\<close>

definition is_prefix :: "u8 \<Rightarrow> bool" where
  "is_prefix b \<longleftrightarrow> 0x40 \<le> b \<and> b \<le> 0x4F \<or> b \<in> {0xF2, 0xF3, 0x67, 0x2E, 0x26, 0x36, 0x3E, 0xF0, 0x66, 0x64, 0x65}"

definition prefix_state :: "u8 \<Rightarrow> xst \<Rightarrow> xst" where
  "prefix_state b st =
     (let st1 = st\<lparr>xs_prefixes := xs_prefixes st + 1, xs_rex := 0\<rparr>
      in if 0x40 \<le> b \<and> b \<le> 0x4F then st\<lparr>xs_prefixes := xs_prefixes st + 1, xs_rex := b\<rparr>
         else if b \<in> {0xF2, 0xF3} then st1\<lparr>xs_sse := unat (b AND 0xF)\<rparr>
         else if b = 0x67 then st1\<lparr>xs_addr_size := 32\<rparr>
         else if b = 0x66 then st1\<lparr>xs_offset := 0, xs_sse := if xs_sse st = 0 then 1 else xs_sse st\<rparr>
         else st1)"

definition decode_byte :: "tables \<Rightarrow> bool \<Rightarrow> u8 \<Rightarrow> xst \<Rightarrow> (cur \<times> xst) res" where
  "decode_byte t strict b st =
     (if is_prefix b then (if b \<in> {0x64, 0x65} \<and> strict then Inl Exit else Inr (C_Decode, prefix_state b st))
      else if b = 0x0F then Inr (C_Second, st\<lparr>xs_opcode_bytes := 2, xs_first_opcode := 0x0F\<rparr>)
      else Inr (after_get_opcodes t (st\<lparr>xs_opcode_bytes := 1, xs_first_opcode := b, xs_opcode := unat b\<rparr>)))"

definition x86_byte :: "tables \<Rightarrow> bool \<Rightarrow> cur \<Rightarrow> u8 \<Rightarrow> xst \<Rightarrow> (cur \<times> xst) res" where
  "x86_byte t strict c b st = (case c of
     C_Decode \<Rightarrow> decode_byte t strict b st
   | C_Second \<Rightarrow> Inr (get_second_opcode t b st)
   | C_Modrm \<Rightarrow> get_modrm t b st
   | C_Sib \<Rightarrow> get_sib t b st
   | C_Disp \<Rightarrow> get_disp t st
   | C_Im \<Rightarrow> Inr (get_im_byte st)
   | C_Done \<Rightarrow> Inr (C_Done, st))"

text \<open>Consuming bytes until the instruction is complete or the bytes run out.\<close>

fun scan :: "tables \<Rightarrow> bool \<Rightarrow> cur \<Rightarrow> xst \<Rightarrow> u8 list \<Rightarrow> (cur \<times> xst \<times> u8 list) res" where
  "scan t k c st [] = Inr (c, st, [])"
| "scan t k c st (b # bs) =
     (if c = C_Done then Inr (c, st, b # bs)
      else rbind (x86_byte t k c b st) (\<lambda>(c', st'). scan t k c' st' bs))"

section \<open>Counting\<close>

text \<open>The parts that the assertion of \<open>x86_64_after_get_inst\<close> adds up, and how many of them are collected.\<close>

definition parts :: "xst \<Rightarrow> nat" where
  "parts st = xs_prefixes st + xs_opcode_bytes st + of_bool (xs_has_modrm st) + of_bool (xs_has_sib st)
     + xs_disp_bytes st + xs_im_bytes st"

definition collected :: "cur \<Rightarrow> xst \<Rightarrow> nat" where
  "collected c st = (case c of
     C_Decode \<Rightarrow> xs_prefixes st
   | C_Second \<Rightarrow> xs_prefixes st + 1
   | C_Modrm \<Rightarrow> xs_prefixes st + xs_opcode_bytes st
   | C_Sib \<Rightarrow> xs_prefixes st + xs_opcode_bytes st + 1
   | C_Disp \<Rightarrow> xs_prefixes st + xs_opcode_bytes st + 1 + of_bool (xs_has_sib st) + xs_disp_got st
   | C_Im \<Rightarrow> xs_prefixes st + xs_opcode_bytes st + of_bool (xs_has_modrm st) + of_bool (xs_has_sib st)
       + xs_disp_bytes st + xs_im_got st
   | C_Done \<Rightarrow> parts st)"

text \<open>The state fits the function that is to go on.\<close>

definition fits :: "cur \<Rightarrow> xst \<Rightarrow> bool" where
  "fits c st \<longleftrightarrow>
     (c \<in> {C_Decode, C_Second} \<longrightarrow> \<not> xs_has_modrm st)
   \<and> (c \<in> {C_Second} \<longrightarrow> xs_opcode_bytes st = 2)
   \<and> (c \<in> {C_Decode, C_Second, C_Modrm} \<longrightarrow> \<not> xs_has_sib st \<and> xs_disp_bytes st = 0)
   \<and> (c \<in> {C_Modrm, C_Sib, C_Disp} \<longrightarrow> xs_has_modrm st)
   \<and> (c = C_Sib \<longrightarrow> xs_has_sib st \<and> xs_disp_bytes st = 0)
   \<and> (c \<noteq> C_Disp \<and> c \<noteq> C_Im \<and> c \<noteq> C_Done \<longrightarrow> xs_disp_got st = 0)
   \<and> (c = C_Disp \<longrightarrow> xs_disp_got st < xs_disp_bytes st)
   \<and> (c \<noteq> C_Im \<and> c \<noteq> C_Done \<longrightarrow> xs_im_bytes st = 0 \<and> xs_im_got st = 0)
   \<and> (c = C_Im \<longrightarrow> xs_im_got st < xs_im_bytes st)"

lemma fits_start [simp]: "fits C_Decode (xst_start v st)" "collected C_Decode (xst_start v st) = 0"
  by (simp_all add: fits_def collected_def xst_start_def)

text \<open>
  The functions that need no byte of their own, one after the other: each leaves the collected bytes
  what they were.
\<close>

definition advances :: "nat \<Rightarrow> cur \<times> xst \<Rightarrow> bool" where
  "advances n = (\<lambda>(c, st). fits c st \<and> collected c st = n)"

lemma get_im_advances:
  assumes "xs_im_bytes st = 0" "xs_im_got st = 0" "n = xs_prefixes st + xs_opcode_bytes st + of_bool (xs_has_modrm st)
      + of_bool (xs_has_sib st) + xs_disp_bytes st"
  shows "advances n (get_im st)"
  using assms by (simp add: advances_def get_im_def Let_def fits_def collected_def parts_def)

lemma modrm_done_advances:
  assumes "xs_im_bytes st = 0" "xs_im_got st = 0" "n = xs_prefixes st + xs_opcode_bytes st + of_bool (xs_has_modrm st)
      + of_bool (xs_has_sib st) + xs_disp_bytes st" and "modrm_done t st = Inr r"
  shows "advances n r"
proof -
  obtain st1 where "r = get_im st1" "xs_im_bytes st1 = 0" "xs_im_got st1 = 0" "xs_prefixes st1 = xs_prefixes st"
    "xs_opcode_bytes st1 = xs_opcode_bytes st" "xs_has_modrm st1 = xs_has_modrm st" "xs_has_sib st1 = xs_has_sib st"
    "xs_disp_bytes st1 = xs_disp_bytes st"
    using assms by (auto simp: modrm_done_def Let_def rbind_Inr_iff)
  then show ?thesis using assms(3) get_im_advances[of st1 n] by simp
qed

lemma modrm_state_frame [simp]:
  "xs_has_modrm (modrm_state st) = xs_has_modrm st" "xs_has_sib (modrm_state st) = xs_has_sib st"
  "xs_disp_got (modrm_state st) = xs_disp_got st" "xs_im_bytes (modrm_state st) = xs_im_bytes st"
  "xs_im_got (modrm_state st) = xs_im_got st" "xs_prefixes (modrm_state st) = xs_prefixes st"
  "xs_opcode_bytes (modrm_state st) = xs_opcode_bytes st" "xs_modrm (modrm_state st) = xs_modrm st"
  "xs_opcode (modrm_state st) = xs_opcode st" "xs_offset (modrm_state st) = xs_offset st"
  "xs_sse (modrm_state st) = xs_sse st" "xs_addr_size (modrm_state st) = xs_addr_size st"
  by (simp_all add: modrm_state_def Let_def)

lemma after_get_modrm_advances:
  assumes "fits C_Modrm st" "after_get_modrm t st = Inr r"
  shows "advances (xs_prefixes st + xs_opcode_bytes st + 1) r"
proof -
  have f: "xs_has_modrm st" "\<not> xs_has_sib st" "xs_disp_bytes st = 0" "xs_disp_got st = 0" "xs_im_bytes st = 0" "xs_im_got st = 0"
    using assms(1) by (simp_all add: fits_def)
  consider "effective_mod st = 0xC0" | "effective_mod st \<noteq> 0xC0" "xs_modrm st AND 7 \<noteq> 4"
    | "effective_mod st \<noteq> 0xC0" "xs_modrm st AND 7 = 4" by blast
  then show ?thesis
  proof cases
    case 1
    then have "modrm_done t st = Inr r" using assms(2) by (simp add: after_get_modrm_def)
    then show ?thesis by (rule modrm_done_advances[rotated 3]) (use f in simp_all)
  next
    case 2
    show ?thesis
    proof (cases "xs_disp_bytes (modrm_state st) = 0")
      case True
      then have "modrm_done t (modrm_state st) = Inr r" using 2 assms(2) by (simp add: after_get_modrm_def)
      then show ?thesis by (rule modrm_done_advances[rotated 3]) (use f True in simp_all)
    next
      case False
      then have "r = (C_Disp, modrm_state st)" using 2 assms(2) by (simp add: after_get_modrm_def)
      then show ?thesis using f False by (simp add: advances_def fits_def collected_def)
    qed
  next
    case 3
    then have "r = (C_Sib, st\<lparr>xs_has_sib := True\<rparr>)" using assms(2) by (simp add: after_get_modrm_def)
    then show ?thesis using f by (simp add: advances_def fits_def collected_def)
  qed
qed

lemma sib_state_frame [simp]:
  "xs_has_modrm (sib_state b st) = xs_has_modrm st" "xs_has_sib (sib_state b st) = xs_has_sib st"
  "xs_disp_got (sib_state b st) = xs_disp_got st" "xs_im_bytes (sib_state b st) = xs_im_bytes st"
  "xs_im_got (sib_state b st) = xs_im_got st" "xs_prefixes (sib_state b st) = xs_prefixes st"
  "xs_opcode_bytes (sib_state b st) = xs_opcode_bytes st" "xs_modrm (sib_state b st) = xs_modrm st"
  "xs_opcode (sib_state b st) = xs_opcode st" "xs_offset (sib_state b st) = xs_offset st"
  "xs_sse (sib_state b st) = xs_sse st" "xs_addr_size (sib_state b st) = xs_addr_size st"
  by (simp_all add: sib_state_def Let_def)

lemma get_sib_advances:
  assumes "fits C_Sib st" "get_sib t b st = Inr r"
  shows "advances (xs_prefixes st + xs_opcode_bytes st + 2) r"
proof -
  have f: "xs_has_modrm st" "xs_has_sib st" "xs_disp_got st = 0" "xs_im_bytes st = 0" "xs_im_got st = 0"
    using assms(1) by (simp_all add: fits_def)
  show ?thesis
  proof (cases "xs_disp_bytes (sib_state b st) = 0")
    case True
    then have "modrm_done t (sib_state b st) = Inr r" using assms(2) by (simp add: get_sib_def)
    then show ?thesis by (rule modrm_done_advances[rotated 3]) (use f True in simp_all)
  next
    case False
    then have "r = (C_Disp, sib_state b st)" using assms(2) by (simp add: get_sib_def)
    then show ?thesis using f False by (simp add: advances_def fits_def collected_def)
  qed
qed

lemma get_disp_advances:
  assumes "fits C_Disp st" "get_disp t st = Inr r"
  shows "advances (collected C_Disp st + 1) r"
proof -
  let ?st = "st\<lparr>xs_disp_got := xs_disp_got st + 1\<rparr>"
  have f: "xs_has_modrm st" "xs_disp_got st < xs_disp_bytes st" "xs_im_bytes st = 0" "xs_im_got st = 0"
    using assms(1) by (simp_all add: fits_def)
  show ?thesis
  proof (cases "xs_disp_got st + 1 < xs_disp_bytes st")
    case True
    then have "r = (C_Disp, ?st)" using assms(2) by (simp add: get_disp_def)
    then show ?thesis using f True by (simp add: advances_def fits_def collected_def)
  next
    case False
    then have "xs_disp_bytes st = xs_disp_got st + 1" using f(2) by simp
    moreover have "modrm_done t ?st = Inr r" using assms(2) False by (simp add: get_disp_def)
    ultimately show ?thesis by (intro modrm_done_advances[of ?st]) (use f in \<open>simp_all add: collected_def\<close>)
  qed
qed

lemma after_get_opcodes_advances:
  assumes "\<not> xs_has_modrm st" "\<not> xs_has_sib st" "xs_disp_bytes st = 0" "xs_disp_got st = 0" "xs_im_bytes st = 0" "xs_im_got st = 0"
  shows "advances (xs_prefixes st + xs_opcode_bytes st) (after_get_opcodes t st)"
  using assms get_im_advances
  by (auto simp: after_get_opcodes_def Let_def get_im_advances) (auto simp: advances_def fits_def collected_def)

lemma prefix_state_frame [simp]:
  "xs_prefixes (prefix_state b st) = xs_prefixes st + 1" "xs_opcode_bytes (prefix_state b st) = xs_opcode_bytes st"
  "xs_has_modrm (prefix_state b st) = xs_has_modrm st" "xs_has_sib (prefix_state b st) = xs_has_sib st"
  "xs_disp_bytes (prefix_state b st) = xs_disp_bytes st" "xs_disp_got (prefix_state b st) = xs_disp_got st"
  "xs_im_bytes (prefix_state b st) = xs_im_bytes st" "xs_im_got (prefix_state b st) = xs_im_got st"
  "xs_mem_operand (prefix_state b st) = xs_mem_operand st" "xs_vaddr (prefix_state b st) = xs_vaddr st"
  by (simp_all add: prefix_state_def Let_def)

lemma decode_byte_advances:
  assumes "fits C_Decode st" "decode_byte t k b st = Inr r"
  shows "advances (xs_prefixes st + 1) r"
proof -
  have f: "\<not> xs_has_modrm st" "\<not> xs_has_sib st" "xs_disp_bytes st = 0" "xs_disp_got st = 0" "xs_im_bytes st = 0" "xs_im_got st = 0"
    using assms(1) by (simp_all add: fits_def)
  let ?o = "st\<lparr>xs_opcode_bytes := 1, xs_first_opcode := b, xs_opcode := unat b\<rparr>"
  have "advances (xs_prefixes st + 1) (after_get_opcodes t ?o)"
    using after_get_opcodes_advances[of ?o t] f by simp
  moreover have "advances (xs_prefixes st + 1) (C_Second, st\<lparr>xs_opcode_bytes := 2, xs_first_opcode := 15\<rparr>)"
    using f by (simp add: advances_def fits_def collected_def)
  moreover have "advances (xs_prefixes st + 1) (C_Decode, prefix_state b st)"
    using f by (simp add: advances_def fits_def collected_def)
  ultimately show ?thesis using assms(2) by (auto simp: decode_byte_def split: if_splits)
qed

lemma x86_byte_advances:
  assumes "fits c st" "c \<noteq> C_Done" "x86_byte t k c b st = Inr (c', st')"
  shows "fits c' st' \<and> collected c' st' = collected c st + 1"
proof -
  have "advances (collected c st + 1) (c', st')"
  proof (cases c)
    case C_Decode
    then show ?thesis using assms decode_byte_advances[of st t k b] by (simp add: x86_byte_def collected_def)
  next
    case C_Second
    let ?st = "st\<lparr>xs_second_opcode := b, xs_opcode := 0x100 + unat b\<rparr>"
    have "advances (xs_prefixes st + 2) (after_get_opcodes t ?st)"
      using after_get_opcodes_advances[of ?st t] assms(1) C_Second by (simp add: fits_def)
    then show ?thesis using assms C_Second by (simp add: x86_byte_def get_second_opcode_def collected_def)
  next
    case C_Modrm
    have "fits C_Modrm (st\<lparr>xs_modrm := b\<rparr>)" using assms(1) C_Modrm by (simp add: fits_def)
    then show ?thesis using assms(3) C_Modrm after_get_modrm_advances[of "st\<lparr>xs_modrm := b\<rparr>" t]
      by (simp add: x86_byte_def get_modrm_def collected_def)
  next
    case C_Sib
    then show ?thesis using assms get_sib_advances[of st t b] by (simp add: x86_byte_def collected_def)
  next
    case C_Disp
    then show ?thesis using assms get_disp_advances[of st t] by (simp add: x86_byte_def)
  next
    case C_Im
    then show ?thesis using assms
      by (auto simp: x86_byte_def get_im_byte_def Let_def advances_def fits_def collected_def parts_def split: if_splits)
  qed (use assms(2) in simp)
  then show ?thesis by (simp add: advances_def)
qed

lemma scan_counts:
  assumes "fits c st" "scan t k c st bs = Inr (c', st', rest)"
  shows "\<exists>ds. bs = ds @ rest \<and> fits c' st' \<and> collected c' st' = collected c st + length ds \<and> (c' \<noteq> C_Done \<longrightarrow> rest = [])"
  using assms
proof (induction bs arbitrary: c st)
  case (Cons b bs)
  show ?case
  proof (cases "c = C_Done")
    case True
    then show ?thesis using Cons.prems by auto
  next
    case False
    then obtain c1 st1 where s: "x86_byte t k c b st = Inr (c1, st1)" "scan t k c1 st1 bs = Inr (c', st', rest)"
      using Cons.prems(2) by (auto simp: rbind_Inr_iff)
    note a = x86_byte_advances[OF Cons.prems(1) False s(1)]
    obtain ds where "bs = ds @ rest" "fits c' st'" "collected c' st' = collected c1 st1 + length ds" "c' \<noteq> C_Done \<longrightarrow> rest = []"
      using Cons.IH[OF _ s(2)] a by blast
    then show ?thesis using a by (intro exI[of _ "b # ds"]) simp
  qed
qed simp

lemma scan_append: "scan t k c st (bs @ bs') = rbind (scan t k c st bs) (\<lambda>(c', st', rest).
    if c' = C_Done then Inr (c', st', rest @ bs') else scan t k c' st' bs')"
proof (induction bs arbitrary: c st)
  case Nil
  show ?case by (cases bs') auto
next
  case (Cons b bs)
  show ?case
    by (cases "x86_byte t k c b st") (auto simp: Cons.IH)
qed

section \<open>The instruction format\<close>

text \<open>
  The reference: the layout of an instruction, said at once. The last prefix decides about \<open>REX\<close>; the
  operand size prefix, the address size prefix and the repeat prefixes count wherever they stand.
\<close>

record instr =
  in_prefixes :: "u8 list"
  in_opcode :: "u8 list"
  in_modrm :: "u8 list"
  in_sib :: "u8 list"
  in_disp :: "u8 list"
  in_imm :: "u8 list"

definition flatten :: "instr \<Rightarrow> u8 list" where
  "flatten i = in_prefixes i @ in_opcode i @ in_modrm i @ in_sib i @ in_disp i @ in_imm i"

definition is_rex :: "u8 \<Rightarrow> bool" where "is_rex b \<longleftrightarrow> 0x40 \<le> b \<and> b \<le> 0x4F"

definition ref_rex :: "u8 list \<Rightarrow> u8" where
  "ref_rex ps = (if ps \<noteq> [] \<and> is_rex (last ps) then last ps else 0)"

definition ref_sse :: "u8 list \<Rightarrow> nat" where
  "ref_sse ps = (let rs = filter (\<lambda>b. b \<in> {0xF2, 0xF3}) ps
     in if rs \<noteq> [] then unat (last rs AND 0xF) else if 0x66 \<in> set ps then 1 else 0)"

definition ref_offset :: "u8 list \<Rightarrow> nat" where
  "ref_offset ps = (if ref_rex ps AND 8 \<noteq> 0 then 1024 else if 0x66 \<in> set ps then 0 else 512)"

definition ref_addr :: "u8 list \<Rightarrow> nat" where "ref_addr ps = (if 0x67 \<in> set ps then 32 else 64)"

fun opcode_of :: "u8 list \<Rightarrow> nat option" where
  "opcode_of [b] = (if is_prefix b \<or> b = 0x0F then None else Some (unat b))"
| "opcode_of [e, b] = (if e = 0x0F then Some (0x100 + unat b) else None)"
| "opcode_of _ = None"

definition ref_mod :: "nat \<Rightarrow> u8 \<Rightarrow> u8" where
  "ref_mod op m = (if op \<in> {0x120, 0x121, 0x122, 0x123} then 0xC0 else m AND 0xC0)"

definition ref_sib :: "nat \<Rightarrow> u8 \<Rightarrow> nat" where
  "ref_sib op m = of_bool (ref_mod op m \<noteq> 0xC0 \<and> m AND 7 = 4)"

definition ref_disp :: "nat \<Rightarrow> u8 \<Rightarrow> u8 list \<Rightarrow> nat" where
  "ref_disp op m sib =
     (let md = ref_mod op m; lo = (case sib of [] \<Rightarrow> m AND 7 | s # _ \<Rightarrow> s AND 7)
      in if md = 0xC0 then 0 else if md = 0 then (if lo = 5 then 4 else 0) else if md = 0x40 then 1 else 4)"

definition ref_attr :: "tables \<Rightarrow> nat \<Rightarrow> u8 list \<Rightarrow> u8 list \<Rightarrow> u32 res" where
  "ref_attr t op ps modrm = (case modrm of
     [] \<Rightarrow> Inr (op_attr (tb_reg t (op + ref_offset ps)))
   | m # _ \<Rightarrow> let info = (if m AND 0xC0 = 0xC0 then tb_reg t (op + ref_offset ps) else tb_mem t (op + ref_offset ps))
       in resolve_group info (unat (drop_bit 3 m AND 7)) (unat (m AND 7)) (unat (m AND 0x3F)) (ref_offset ps div 256)
            (ref_sse ps) (op_attr info))"

definition tail_ok :: "tables \<Rightarrow> u8 list \<Rightarrow> nat \<Rightarrow> instr \<Rightarrow> bool" where
  "tail_ok t ps op i \<longleftrightarrow>
     length (in_modrm i) = of_bool (tb_has_modrm t op)
   \<and> (case in_modrm i of [] \<Rightarrow> in_sib i = [] \<and> in_disp i = []
      | m # _ \<Rightarrow> length (in_sib i) = ref_sib op m \<and> length (in_disp i) = ref_disp op m (in_sib i))
   \<and> (case ref_attr t op ps (in_modrm i) of Inl _ \<Rightarrow> False | Inr a \<Rightarrow> length (in_imm i) = imm_size (ref_addr ps) a)"

definition instr_ok :: "tables \<Rightarrow> bool \<Rightarrow> instr \<Rightarrow> bool" where
  "instr_ok t strict i \<longleftrightarrow>
     list_all (\<lambda>b. is_prefix b \<and> \<not> (strict \<and> b \<in> {0x64, 0x65})) (in_prefixes i)
   \<and> (case opcode_of (in_opcode i) of None \<Rightarrow> False | Some op \<Rightarrow> tail_ok t (in_prefixes i) op i)"

text \<open>What the collected state says of the instruction.\<close>

definition describes :: "instr \<Rightarrow> xst \<Rightarrow> bool" where
  "describes i st \<longleftrightarrow> xs_prefixes st = length (in_prefixes i) \<and> opcode_of (in_opcode i) = Some (xs_opcode st)
     \<and> xs_opcode_bytes st = length (in_opcode i) \<and> xs_rex st = ref_rex (in_prefixes i)
     \<and> xs_offset st = ref_offset (in_prefixes i) \<and> xs_addr_size st = ref_addr (in_prefixes i)
     \<and> xs_sse st = ref_sse (in_prefixes i) \<and> (xs_has_modrm st \<longleftrightarrow> in_modrm i \<noteq> [])
     \<and> (xs_has_sib st \<longleftrightarrow> in_sib i \<noteq> []) \<and> xs_disp_bytes st = length (in_disp i) \<and> xs_im_bytes st = length (in_imm i)
     \<and> (xs_mem_operand st \<longleftrightarrow> in_modrm i \<noteq> [] \<and> hd (in_modrm i) AND 0xC0 \<noteq> 0xC0)"

section \<open>The automaton against the format\<close>

text \<open>From a function result on, the automaton completes the instruction at \<open>rest\<close> with state \<open>st'\<close>.\<close>

definition completes :: "tables \<Rightarrow> bool \<Rightarrow> (cur \<times> xst) res \<Rightarrow> u8 list \<Rightarrow> xst \<Rightarrow> u8 list \<Rightarrow> bool" where
  "completes t k r bs st' rest \<longleftrightarrow> rbind r (\<lambda>(c, st). scan t k c st bs) = Inr (C_Done, st', rest)"

lemma completes_done: "completes t k (Inr (C_Done, st)) bs st' rest \<longleftrightarrow> st' = st \<and> rest = bs"
  by (cases bs) (auto simp: completes_def)

lemma completes_byte:
  "c \<noteq> C_Done \<Longrightarrow> completes t k (Inr (c, st)) bs st' rest \<longleftrightarrow>
     (\<exists>b bs'. bs = b # bs' \<and> completes t k (x86_byte t k c b st) bs' st' rest)"
  by (cases bs) (auto simp: completes_def)

lemma completes_im:
  assumes "xs_im_got st < xs_im_bytes st"
  shows "completes t k (Inr (C_Im, st)) bs st' rest \<longleftrightarrow>
    (\<exists>im. bs = im @ rest \<and> length im = xs_im_bytes st - xs_im_got st \<and> st' = st\<lparr>xs_im_got := xs_im_bytes st\<rparr>)"
  using assms
proof (induction "xs_im_bytes st - xs_im_got st" arbitrary: st bs)
  case (Suc n)
  let ?st = "st\<lparr>xs_im_got := xs_im_got st + 1\<rparr>"
  have *: "(\<exists>im. bs = im @ rest \<and> length im = Suc n \<and> Q) \<longleftrightarrow> (\<exists>b bs'. bs = b # bs' \<and> (\<exists>im. bs' = im @ rest \<and> length im = n \<and> Q))" for Q
    by (auto simp: length_Suc_conv)
  have b: "x86_byte t k C_Im b st = Inr (if n = 0 then C_Done else C_Im, ?st)" for b
    using Suc.hyps(2) by (auto simp: x86_byte_def get_im_byte_def)
  show ?case
  proof (cases "n = 0")
    case True
    then have "xs_im_bytes st = xs_im_got st + 1" using Suc.hyps(2) by simp
    then show ?thesis using True by (auto simp: completes_byte b completes_done length_Suc_conv Suc.hyps(2)[symmetric])
  next
    case False
    then have "completes t k (Inr (C_Im, ?st)) bs' st' rest \<longleftrightarrow>
        (\<exists>im. bs' = im @ rest \<and> length im = n \<and> st' = st\<lparr>xs_im_got := xs_im_bytes st\<rparr>)" for bs'
      using Suc.hyps(1)[of ?st bs'] Suc.hyps(2) by auto
    then show ?thesis using False by (simp add: completes_byte b Suc.hyps(2)[symmetric] *)
  qed
qed simp

lemma completes_get_im:
  assumes "xs_im_bytes st = 0" "xs_im_got st = 0"
  shows "completes t k (Inr (get_im st)) bs st' rest \<longleftrightarrow> (\<exists>im. bs = im @ rest \<and> length im = imm_size (xs_addr_size st) (xs_attr st)
     \<and> st' = st\<lparr>xs_im_bytes := length im, xs_im_got := length im\<rparr>)"
proof (cases "imm_size (xs_addr_size st) (xs_attr st) = 0")
  case True
  have "st\<lparr>xs_im_bytes := 0, xs_im_got := 0\<rparr> = st" using assms by (cases st) simp
  with True show ?thesis using assms by (auto simp: get_im_def completes_done)
next
  case False
  define n where "n = imm_size (xs_addr_size st) (xs_attr st)"
  let ?st = "st\<lparr>xs_im_bytes := n\<rparr>"
  have g: "get_im st = (C_Im, ?st)" using False by (simp add: get_im_def n_def)
  have "completes t k (Inr (C_Im, ?st)) bs st' rest \<longleftrightarrow> (\<exists>im. bs = im @ rest \<and> length im = n \<and> st' = ?st\<lparr>xs_im_got := n\<rparr>)"
    using completes_im[of ?st t k bs st' rest] False assms(2) by (simp add: n_def)
  also have "\<dots> \<longleftrightarrow> (\<exists>im. bs = im @ rest \<and> length im = n \<and> st' = st\<lparr>xs_im_bytes := length im, xs_im_got := length im\<rparr>)"
    by (intro iff_exI conj_cong refl) simp
  finally show ?thesis unfolding g n_def .
qed

definition mem_state :: "xst \<Rightarrow> xst" where
  "mem_state st = (if modrm_mod (xs_modrm st) = 0xC0 then st else st\<lparr>xs_mem_operand := True\<rparr>)"

definition attr_of :: "tables \<Rightarrow> xst \<Rightarrow> u32 res" where
  "attr_of t st = (let m = xs_modrm st; i = xs_opcode st + xs_offset st;
      info = (if modrm_mod m = 0xC0 then tb_reg t i else tb_mem t i)
    in resolve_group info (modrm_nnn m) (modrm_rm m) (unat (m AND 0x3F)) (xs_offset st div 256) (xs_sse st) (op_attr info))"

lemma completes_modrm_done:
  assumes "xs_im_bytes st = 0" "xs_im_got st = 0"
  shows "completes t k (modrm_done t st) bs st' rest \<longleftrightarrow> (\<exists>a im. attr_of t st = Inr a \<and> bs = im @ rest
     \<and> length im = imm_size (xs_addr_size st) a
     \<and> st' = (mem_state st)\<lparr>xs_attr := a, xs_im_bytes := length im, xs_im_got := length im\<rparr>)"
proof (cases "attr_of t st")
  case (Inl e)
  then show ?thesis by (simp add: completes_def modrm_done_def attr_of_def Let_def)
next
  case (Inr a)
  then have "modrm_done t st = Inr (get_im ((mem_state st)\<lparr>xs_attr := a\<rparr>))"
    by (simp add: modrm_done_def attr_of_def Let_def mem_state_def)
  then show ?thesis using assms Inr by (simp add: completes_get_im mem_state_def)
qed

lemma attr_of_disp [simp]: "attr_of t (st\<lparr>xs_disp_got := n\<rparr>) = attr_of t st"
  by (simp add: attr_of_def)

lemma split_Suc:
  "(\<exists>ds bs'. bs = ds @ bs' \<and> length ds = Suc n \<and> Q bs') \<longleftrightarrow> (\<exists>b bs1. bs = b # bs1 \<and> (\<exists>ds bs'. bs1 = ds @ bs' \<and> length ds = n \<and> Q bs'))"
proof
  assume "\<exists>ds bs'. bs = ds @ bs' \<and> length ds = Suc n \<and> Q bs'"
  then obtain ds bs' where "bs = ds @ bs'" "length ds = Suc n" "Q bs'" by blast
  then show "\<exists>b bs1. bs = b # bs1 \<and> (\<exists>ds bs'. bs1 = ds @ bs' \<and> length ds = n \<and> Q bs')"
    by (cases ds) auto
next
  assume "\<exists>b bs1. bs = b # bs1 \<and> (\<exists>ds bs'. bs1 = ds @ bs' \<and> length ds = n \<and> Q bs')"
  then obtain b ds bs' where "bs = b # ds @ bs'" "length ds = n" "Q bs'" by blast
  then show "\<exists>ds bs'. bs = ds @ bs' \<and> length ds = Suc n \<and> Q bs'"
    by (intro exI[of _ "b # ds"] exI[of _ bs']) simp
qed

lemma completes_disp:
  assumes "xs_disp_got st < xs_disp_bytes st"
  shows "completes t k (Inr (C_Disp, st)) bs st' rest \<longleftrightarrow> (\<exists>ds bs'. bs = ds @ bs' \<and> length ds = xs_disp_bytes st - xs_disp_got st
     \<and> completes t k (modrm_done t (st\<lparr>xs_disp_got := xs_disp_bytes st\<rparr>)) bs' st' rest)"
  using assms
proof (induction "xs_disp_bytes st - xs_disp_got st" arbitrary: st bs)
  case (Suc n)
  let ?st = "st\<lparr>xs_disp_got := xs_disp_got st + 1\<rparr>"
  have b: "x86_byte t k C_Disp b st = (if n = 0 then modrm_done t ?st else Inr (C_Disp, ?st))" for b
    using Suc.hyps(2) by (auto simp: x86_byte_def get_disp_def Let_def)
  show ?case
  proof (cases "n = 0")
    case True
    then have "xs_disp_bytes st = xs_disp_got st + 1" using Suc.hyps(2) by simp
    then show ?thesis using True by (simp add: completes_byte b Suc.hyps(2)[symmetric] split_Suc)
  next
    case False
    then have e: "n = xs_disp_bytes ?st - xs_disp_got ?st" "xs_disp_got ?st < xs_disp_bytes ?st" using Suc.hyps(2) by simp_all
    have "completes t k (Inr (C_Disp, ?st)) bs1 st' rest \<longleftrightarrow>
        (\<exists>ds bs'. bs1 = ds @ bs' \<and> length ds = n \<and> completes t k (modrm_done t (st\<lparr>xs_disp_got := xs_disp_bytes st\<rparr>)) bs' st' rest)" for bs1
      using Suc.hyps(1)[OF e, of bs1] unfolding e(1)[symmetric] by simp
    then show ?thesis using False by (simp add: completes_byte b Suc.hyps(2)[symmetric] split_Suc)
  qed
qed simp

text \<open>Displacement, group resolution and immediate together.\<close>

definition final_state :: "xst \<Rightarrow> u32 \<Rightarrow> nat \<Rightarrow> xst" where
  "final_state st a n = (mem_state st)\<lparr>xs_disp_got := xs_disp_bytes st, xs_attr := a, xs_im_bytes := n, xs_im_got := n\<rparr>"

lemma completes_disp_im:
  assumes "xs_disp_got st = 0" "xs_im_bytes st = 0" "xs_im_got st = 0"
  shows "completes t k (if xs_disp_bytes st \<noteq> 0 then Inr (C_Disp, st) else modrm_done t st) bs st' rest \<longleftrightarrow>
    (\<exists>ds a im. bs = ds @ im @ rest \<and> length ds = xs_disp_bytes st \<and> attr_of t st = Inr a
       \<and> length im = imm_size (xs_addr_size st) a \<and> st' = final_state st a (length im))"
proof (cases "xs_disp_bytes st = 0")
  case True
  have "final_state st a n = (mem_state st)\<lparr>xs_attr := a, xs_im_bytes := n, xs_im_got := n\<rparr>" for a n
    using True assms(1) by (cases st) (simp add: final_state_def mem_state_def)
  then show ?thesis using True assms by (simp add: completes_modrm_done) blast
next
  case False
  let ?st = "st\<lparr>xs_disp_got := xs_disp_bytes st\<rparr>"
  have f: "(mem_state ?st)\<lparr>xs_attr := a, xs_im_bytes := n, xs_im_got := n\<rparr> = final_state st a n" for a n
    by (simp add: final_state_def mem_state_def)
  have "completes t k (Inr (C_Disp, st)) bs st' rest \<longleftrightarrow> (\<exists>ds bs'. bs = ds @ bs' \<and> length ds = xs_disp_bytes st
     \<and> completes t k (modrm_done t ?st) bs' st' rest)"
    using completes_disp[of st t k bs st' rest] False assms(1) by simp
  also have "\<dots> \<longleftrightarrow> (\<exists>ds bs'. bs = ds @ bs' \<and> length ds = xs_disp_bytes st
     \<and> (\<exists>a im. attr_of t st = Inr a \<and> bs' = im @ rest \<and> length im = imm_size (xs_addr_size st) a
          \<and> st' = final_state st a (length im)))"
    using completes_modrm_done[of ?st t k _ st' rest] assms(2,3) by (simp add: f)
  finally show ?thesis using False by (simp only: if_True not_False_eq_True simp_thms) blast
qed

text \<open>ModRM, SIB and what follows.\<close>

definition mr_state :: "u8 \<Rightarrow> u8 list \<Rightarrow> xst \<Rightarrow> xst" where
  "mr_state m sb st =
     (let s1 = st\<lparr>xs_modrm := m\<rparr>
      in if effective_mod s1 = 0xC0 then s1
         else case sb of [] \<Rightarrow> modrm_state s1 | b # _ \<Rightarrow> sib_state b (s1\<lparr>xs_has_sib := True\<rparr>))"

definition clean :: "xst \<Rightarrow> bool" where
  "clean st \<longleftrightarrow> \<not> xs_has_sib st \<and> xs_disp_bytes st = 0 \<and> xs_disp_got st = 0 \<and> xs_im_bytes st = 0 \<and> xs_im_got st = 0"

lemma effective_ref: "effective_mod st = ref_mod (xs_opcode st) (xs_modrm st)"
  by (simp add: effective_mod_def ref_mod_def modrm_mod_def)

lemma effective_raw: "effective_mod st \<noteq> 0xC0 \<Longrightarrow> modrm_mod (xs_modrm st) = effective_mod st"
  by (auto simp: effective_mod_def split: if_splits)

lemma mr_state_frame [simp]:
  "xs_disp_got (mr_state m sb st) = xs_disp_got st" "xs_im_bytes (mr_state m sb st) = xs_im_bytes st"
  "xs_im_got (mr_state m sb st) = xs_im_got st" "xs_addr_size (mr_state m sb st) = xs_addr_size st"
  "xs_has_modrm (mr_state m sb st) = xs_has_modrm st" "xs_prefixes (mr_state m sb st) = xs_prefixes st"
  "xs_opcode_bytes (mr_state m sb st) = xs_opcode_bytes st" "xs_opcode (mr_state m sb st) = xs_opcode st"
  "xs_offset (mr_state m sb st) = xs_offset st" "xs_sse (mr_state m sb st) = xs_sse st"
  "xs_modrm (mr_state m sb st) = m"
  by (simp_all add: mr_state_def Let_def split: list.split)

lemma state_more [simp]:
  "xs_rex (sib_state b st) = xs_rex st" "xs_mem_operand (sib_state b st) = xs_mem_operand st"
  "xs_rex (modrm_state st) = xs_rex st" "xs_mem_operand (modrm_state st) = xs_mem_operand st"
  "xs_rex (mr_state m sb st) = xs_rex st" "xs_mem_operand (mr_state m sb st) = xs_mem_operand st"
  by (simp_all add: sib_state_def modrm_state_def mr_state_def Let_def split: list.split)

lemma attr_of_mr [simp]: "attr_of t (mr_state m sb st) = attr_of t (st\<lparr>xs_modrm := m\<rparr>)"
  by (simp add: attr_of_def)

lemma sib_disp:
  assumes "clean st" "ref_mod (xs_opcode st) m \<noteq> 0xC0"
  shows "xs_disp_bytes (sib_state b (st\<lparr>xs_modrm := m, xs_has_sib := True\<rparr>)) = ref_disp (xs_opcode st) m [b]"
  using assms effective_raw[of "st\<lparr>xs_modrm := m\<rparr>"]
  by (simp add: sib_state_def ref_disp_def clean_def effective_ref Let_def)

lemma modrm_disp:
  assumes "clean st" "ref_mod (xs_opcode st) m \<noteq> 0xC0"
  shows "xs_disp_bytes (modrm_state (st\<lparr>xs_modrm := m\<rparr>)) = ref_disp (xs_opcode st) m []"
  using assms by (simp add: modrm_state_def ref_disp_def clean_def effective_ref Let_def)

lemma completes_modrm:
  assumes c: "clean st"
  shows "completes t k (Inr (C_Modrm, st)) bs st' rest \<longleftrightarrow>
    (\<exists>m sb ds a im. bs = m # sb @ ds @ im @ rest \<and> length sb = ref_sib (xs_opcode st) m
       \<and> length ds = ref_disp (xs_opcode st) m sb \<and> attr_of t (st\<lparr>xs_modrm := m\<rparr>) = Inr a
       \<and> length im = imm_size (xs_addr_size st) a \<and> st' = final_state (mr_state m sb st) a (length im))"
    (is "_ \<longleftrightarrow> (\<exists>m sb ds a im. ?P m sb ds a im bs)")
proof -
  have z: "xs_disp_got st = 0" "xs_im_bytes st = 0" "xs_im_got st = 0" "xs_disp_bytes st = 0" using c by (simp_all add: clean_def)
  have "completes t k (after_get_modrm t (st\<lparr>xs_modrm := m\<rparr>)) bs' st' rest \<longleftrightarrow> (\<exists>sb ds a im. ?P m sb ds a im (m # bs'))" for m bs'
  proof -
    let ?st = "st\<lparr>xs_modrm := m\<rparr>" let ?md = "ref_mod (xs_opcode st) m"
    consider "?md = 0xC0" | "?md \<noteq> 0xC0" "m AND 7 \<noteq> 4" | "?md \<noteq> 0xC0" "m AND 7 = 4" by blast
    then show ?thesis
    proof cases
      case 1
      then have s: "mr_state m sb st = ?st" for sb by (simp add: mr_state_def effective_ref)
      have d: "ref_disp (xs_opcode st) m sb = 0" for sb using 1 by (simp add: ref_disp_def Let_def)
      have "after_get_modrm t ?st = (if xs_disp_bytes ?st \<noteq> 0 then Inr (C_Disp, ?st) else modrm_done t ?st)"
        using 1 z by (simp add: after_get_modrm_def effective_ref)
      then show ?thesis using completes_disp_im[of ?st t k bs' st' rest] z 1 by (simp add: s d ref_sib_def)
    next
      case 2
      then have s: "mr_state m [] st = modrm_state ?st" by (simp add: mr_state_def effective_ref)
      have "after_get_modrm t ?st = (if xs_disp_bytes (modrm_state ?st) \<noteq> 0 then Inr (C_Disp, modrm_state ?st)
          else modrm_done t (modrm_state ?st))"
        using 2 by (simp add: after_get_modrm_def effective_ref)
      moreover have "attr_of t (modrm_state ?st) = attr_of t ?st" by (simp add: attr_of_def)
      ultimately show ?thesis
        using completes_disp_im[of "modrm_state ?st" t k bs' st' rest] z 2 modrm_disp[OF c 2(1)] by (simp add: s ref_sib_def)
    next
      case 3
      have s: "mr_state m [b] st = sib_state b (?st\<lparr>xs_has_sib := True\<rparr>)" for b
        using 3 by (simp add: mr_state_def effective_ref)
      have l: "length sb = ref_sib (xs_opcode st) m \<longleftrightarrow> (\<exists>b. sb = [b])" for sb :: "u8 list"
        using 3 by (auto simp: ref_sib_def length_Suc_conv)
      have a: "attr_of t (sib_state b (?st\<lparr>xs_has_sib := True\<rparr>)) = attr_of t ?st" for b by (simp add: attr_of_def)
      have "after_get_modrm t ?st = Inr (C_Sib, ?st\<lparr>xs_has_sib := True\<rparr>)"
        using 3 by (simp add: after_get_modrm_def effective_ref)
      moreover have "completes t k (get_sib t b (?st\<lparr>xs_has_sib := True\<rparr>)) bs1 st' rest \<longleftrightarrow>
          (\<exists>ds a im. bs1 = ds @ im @ rest \<and> length ds = ref_disp (xs_opcode st) m [b] \<and> attr_of t ?st = Inr a
             \<and> length im = imm_size (xs_addr_size st) a \<and> st' = final_state (mr_state m [b] st) a (length im))" for b bs1
        using completes_disp_im[of "sib_state b (?st\<lparr>xs_has_sib := True\<rparr>)" t k bs1 st' rest] z sib_disp[OF c 3(1), of b]
        by (simp add: get_sib_def Let_def s a)
      ultimately have "completes t k (after_get_modrm t ?st) bs' st' rest \<longleftrightarrow> (\<exists>b bs1. bs' = b # bs1 \<and>
          (\<exists>ds a im. bs1 = ds @ im @ rest \<and> length ds = ref_disp (xs_opcode st) m [b] \<and> attr_of t ?st = Inr a
             \<and> length im = imm_size (xs_addr_size st) a \<and> st' = final_state (mr_state m [b] st) a (length im)))"
        by (simp add: completes_byte x86_byte_def)
      also have "\<dots> \<longleftrightarrow> (\<exists>sb ds a im. ?P m sb ds a im (m # bs'))"
      proof
        assume "\<exists>b bs1. bs' = b # bs1 \<and> (\<exists>ds a im. bs1 = ds @ im @ rest \<and> length ds = ref_disp (xs_opcode st) m [b]
            \<and> attr_of t ?st = Inr a \<and> length im = imm_size (xs_addr_size st) a \<and> st' = final_state (mr_state m [b] st) a (length im))"
        then obtain b ds a im where "bs' = b # ds @ im @ rest" "length ds = ref_disp (xs_opcode st) m [b]"
          "attr_of t ?st = Inr a" "length im = imm_size (xs_addr_size st) a" "st' = final_state (mr_state m [b] st) a (length im)"
          by blast
        moreover have "length [b] = ref_sib (xs_opcode st) m" using l by blast
        ultimately have "?P m [b] ds a im (m # bs')" by simp
        then show "\<exists>sb ds a im. ?P m sb ds a im (m # bs')" by blast
      next
        assume "\<exists>sb ds a im. ?P m sb ds a im (m # bs')"
        then obtain sb ds a im where p: "?P m sb ds a im (m # bs')" by blast
        then obtain b where b: "sb = [b]" using l by blast
        have "bs' = b # ds @ im @ rest" using p by (simp add: b)
        with p show "\<exists>b bs1. bs' = b # bs1 \<and> (\<exists>ds a im. bs1 = ds @ im @ rest \<and> length ds = ref_disp (xs_opcode st) m [b]
            \<and> attr_of t ?st = Inr a \<and> length im = imm_size (xs_addr_size st) a \<and> st' = final_state (mr_state m [b] st) a (length im))"
          unfolding b by blast
      qed
      finally show ?thesis .
    qed
  qed
  then show ?thesis by (simp add: completes_byte x86_byte_def get_modrm_def) blast
qed

text \<open>Everything after the prefixes and the opcode.\<close>

definition tail_fits :: "tables \<Rightarrow> xst \<Rightarrow> instr \<Rightarrow> u32 \<Rightarrow> bool" where
  "tail_fits t s i a \<longleftrightarrow>
     length (in_modrm i) = of_bool (tb_has_modrm t (xs_opcode s))
   \<and> (case in_modrm i of
        [] \<Rightarrow> in_sib i = [] \<and> in_disp i = [] \<and> a = xs_attr s
      | m # _ \<Rightarrow> length (in_sib i) = ref_sib (xs_opcode s) m \<and> length (in_disp i) = ref_disp (xs_opcode s) m (in_sib i)
          \<and> attr_of t (s\<lparr>xs_modrm := m\<rparr>) = Inr a)
   \<and> length (in_imm i) = imm_size (xs_addr_size s) a"

definition tail_state :: "xst \<Rightarrow> instr \<Rightarrow> u32 \<Rightarrow> xst" where
  "tail_state s i a = (case in_modrm i of
     [] \<Rightarrow> s\<lparr>xs_im_bytes := length (in_imm i), xs_im_got := length (in_imm i)\<rparr>
   | m # _ \<Rightarrow> final_state (mr_state m (in_sib i) s) a (length (in_imm i)))"

definition tail_bytes :: "instr \<Rightarrow> u8 list" where
  "tail_bytes i = in_modrm i @ in_sib i @ in_disp i @ in_imm i"

lemma completes_tail:
  assumes c: "clean s"
  shows "completes t k (Inr (if tb_has_modrm t (xs_opcode s) then (C_Modrm, s) else get_im s)) bs st' rest \<longleftrightarrow>
    (\<exists>i a. in_prefixes i = ps \<and> in_opcode i = opc \<and> bs = tail_bytes i @ rest \<and> tail_fits t s i a \<and> st' = tail_state s i a)"
proof (cases "tb_has_modrm t (xs_opcode s)")
  case True
  show ?thesis
  proof
    assume "completes t k (Inr (if tb_has_modrm t (xs_opcode s) then (C_Modrm, s) else get_im s)) bs st' rest"
    then obtain m sb ds a im where m: "bs = m # sb @ ds @ im @ rest" "length sb = ref_sib (xs_opcode s) m"
      "length ds = ref_disp (xs_opcode s) m sb" "attr_of t (s\<lparr>xs_modrm := m\<rparr>) = Inr a"
      "length im = imm_size (xs_addr_size s) a" "st' = final_state (mr_state m sb s) a (length im)"
      using True completes_modrm[OF c] by auto
    let ?i = "\<lparr>in_prefixes = ps, in_opcode = opc, in_modrm = [m], in_sib = sb, in_disp = ds, in_imm = im\<rparr>"
    have "bs = tail_bytes ?i @ rest" "tail_fits t s ?i a" "st' = tail_state s ?i a"
      using m True by (simp_all add: tail_bytes_def tail_fits_def tail_state_def)
    then show "\<exists>i a. in_prefixes i = ps \<and> in_opcode i = opc \<and> bs = tail_bytes i @ rest \<and> tail_fits t s i a \<and> st' = tail_state s i a"
      by (intro exI[of _ ?i] exI[of _ a]) simp
  next
    assume "\<exists>i a. in_prefixes i = ps \<and> in_opcode i = opc \<and> bs = tail_bytes i @ rest \<and> tail_fits t s i a \<and> st' = tail_state s i a"
    then obtain i a where i: "bs = tail_bytes i @ rest" "tail_fits t s i a" "st' = tail_state s i a" by blast
    then obtain m where "in_modrm i = [m]" using True by (auto simp: tail_fits_def length_Suc_conv)
    then have "bs = m # in_sib i @ in_disp i @ in_imm i @ rest \<and> length (in_sib i) = ref_sib (xs_opcode s) m
       \<and> length (in_disp i) = ref_disp (xs_opcode s) m (in_sib i) \<and> attr_of t (s\<lparr>xs_modrm := m\<rparr>) = Inr a
       \<and> length (in_imm i) = imm_size (xs_addr_size s) a \<and> st' = final_state (mr_state m (in_sib i) s) a (length (in_imm i))"
      using i by (simp add: tail_bytes_def tail_fits_def tail_state_def)
    then have "completes t k (Inr (C_Modrm, s)) bs st' rest" unfolding completes_modrm[OF c] by blast
    then show "completes t k (Inr (if tb_has_modrm t (xs_opcode s) then (C_Modrm, s) else get_im s)) bs st' rest"
      using True by simp
  qed
next
  case False
  have g: "completes t k (Inr (get_im s)) bs st' rest \<longleftrightarrow> (\<exists>im. bs = im @ rest \<and> length im = imm_size (xs_addr_size s) (xs_attr s)
     \<and> st' = s\<lparr>xs_im_bytes := length im, xs_im_got := length im\<rparr>)"
    by (rule completes_get_im) (use c in \<open>simp_all add: clean_def\<close>)
  show ?thesis
  proof
    assume "completes t k (Inr (if tb_has_modrm t (xs_opcode s) then (C_Modrm, s) else get_im s)) bs st' rest"
    then obtain im where im: "bs = im @ rest" "length im = imm_size (xs_addr_size s) (xs_attr s)"
      "st' = s\<lparr>xs_im_bytes := length im, xs_im_got := length im\<rparr>" using False g by auto
    let ?i = "\<lparr>in_prefixes = ps, in_opcode = opc, in_modrm = [], in_sib = [], in_disp = [], in_imm = im\<rparr>"
    have "bs = tail_bytes ?i @ rest" "tail_fits t s ?i (xs_attr s)" "st' = tail_state s ?i (xs_attr s)"
      using im False by (simp_all add: tail_bytes_def tail_fits_def tail_state_def)
    then show "\<exists>i a. in_prefixes i = ps \<and> in_opcode i = opc \<and> bs = tail_bytes i @ rest \<and> tail_fits t s i a \<and> st' = tail_state s i a"
      by (intro exI[of _ ?i] exI[of _ "xs_attr s"]) simp
  next
    assume "\<exists>i a. in_prefixes i = ps \<and> in_opcode i = opc \<and> bs = tail_bytes i @ rest \<and> tail_fits t s i a \<and> st' = tail_state s i a"
    then obtain i a where i: "bs = tail_bytes i @ rest" "tail_fits t s i a" "st' = tail_state s i a" by blast
    then have "in_modrm i = []" using False by (simp add: tail_fits_def)
    then have "bs = in_imm i @ rest \<and> length (in_imm i) = imm_size (xs_addr_size s) (xs_attr s)
       \<and> st' = s\<lparr>xs_im_bytes := length (in_imm i), xs_im_got := length (in_imm i)\<rparr>"
      using i by (simp add: tail_bytes_def tail_fits_def tail_state_def)
    then have "completes t k (Inr (get_im s)) bs st' rest" unfolding g by blast
    then show "completes t k (Inr (if tb_has_modrm t (xs_opcode s) then (C_Modrm, s) else get_im s)) bs st' rest"
      using False by simp
  qed
qed

text \<open>The opcode, and the prefixes before it.\<close>

definition opc_state :: "tables \<Rightarrow> u8 list \<Rightarrow> xst \<Rightarrow> xst" where
  "opc_state t opc st =
     (let s1 = (case opc of
          [] \<Rightarrow> st
        | [b] \<Rightarrow> st\<lparr>xs_opcode_bytes := 1, xs_first_opcode := b, xs_opcode := unat b\<rparr>
        | e # b # _ \<Rightarrow> st\<lparr>xs_opcode_bytes := 2, xs_first_opcode := 0x0F, xs_second_opcode := b, xs_opcode := 0x100 + unat b\<rparr>);
          s2 = (if xs_rex s1 AND 8 \<noteq> 0 then s1\<lparr>xs_offset := 1024\<rparr> else s1);
          s3 = s2\<lparr>xs_attr := op_attr (tb_reg t (xs_opcode s2 + xs_offset s2))\<rparr>
      in if tb_has_modrm t (xs_opcode s3) then s3\<lparr>xs_has_modrm := True\<rparr> else s3)"

definition tail_start :: "tables \<Rightarrow> xst \<Rightarrow> (cur \<times> xst) res" where
  "tail_start t s = Inr (if tb_has_modrm t (xs_opcode s) then (C_Modrm, s) else get_im s)"

lemma after_get_opcodes_tail:
  "Inr (after_get_opcodes t (st\<lparr>xs_opcode_bytes := 1, xs_first_opcode := b, xs_opcode := unat b\<rparr>)) = tail_start t (opc_state t [b] st)"
  "Inr (get_second_opcode t b (st\<lparr>xs_opcode_bytes := 2, xs_first_opcode := 0x0F\<rparr>)) = tail_start t (opc_state t [0x0F, b] st)"
  by (simp_all add: tail_start_def opc_state_def after_get_opcodes_def get_second_opcode_def Let_def)

definition may_prefix :: "bool \<Rightarrow> u8 \<Rightarrow> bool" where
  "may_prefix k b \<longleftrightarrow> is_prefix b \<and> \<not> (k \<and> b \<in> {0x64, 0x65})"

lemma not_prefix_0F [simp]: "\<not> is_prefix 0x0F"
  by (simp add: is_prefix_def)

lemma opcode_of_Some: "opcode_of opc \<noteq> None \<longleftrightarrow> (\<exists>b. opc = [b] \<and> \<not> is_prefix b \<and> b \<noteq> 0x0F) \<or> (\<exists>b. opc = [0x0F, b])"
  by (cases opc rule: opcode_of.cases) auto

lemma completes_decode:
  "completes t k (Inr (C_Decode, st)) bs st' rest \<longleftrightarrow>
     (\<exists>b bs'. bs = b # bs' \<and> may_prefix k b \<and> completes t k (Inr (C_Decode, prefix_state b st)) bs' st' rest)
   \<or> (\<exists>opc bs'. bs = opc @ bs' \<and> opcode_of opc \<noteq> None \<and> completes t k (tail_start t (opc_state t opc st)) bs' st' rest)"
proof (cases bs)
  case Nil
  then show ?thesis by (auto simp: completes_byte)
next
  case (Cons b bs1)
  have step: "completes t k (Inr (C_Decode, st)) bs st' rest \<longleftrightarrow> completes t k (decode_byte t k b st) bs1 st' rest"
    by (simp add: completes_byte Cons x86_byte_def)
  consider "is_prefix b" | "\<not> is_prefix b" "b \<noteq> 0x0F" | "b = 0x0F" by blast
  then show ?thesis
  proof cases
    case 1
    have "completes t k (decode_byte t k b st) bs1 st' rest \<longleftrightarrow> may_prefix k b \<and> completes t k (Inr (C_Decode, prefix_state b st)) bs1 st' rest"
      using 1 by (auto simp: decode_byte_def may_prefix_def completes_def)
    moreover have "opcode_of opc = None" if "b # bs1 = opc @ bs'" for opc bs'
      using that 1 by (cases opc rule: opcode_of.cases) auto
    ultimately show ?thesis unfolding step using Cons by auto
  next
    case 2
    have v: "completes t k (decode_byte t k b st) bs1 st' rest \<longleftrightarrow> completes t k (tail_start t (opc_state t [b] st)) bs1 st' rest"
      using 2 after_get_opcodes_tail(1)[where t = t and st = st and b = b] by (simp add: decode_byte_def)
    have e: "b # bs1 = opc @ bs' \<and> opcode_of opc \<noteq> None \<longleftrightarrow> opc = [b] \<and> bs' = bs1" for opc bs'
      using 2 unfolding opcode_of_Some by auto
    have "(\<exists>opc bs'. b # bs1 = opc @ bs' \<and> opcode_of opc \<noteq> None \<and> completes t k (tail_start t (opc_state t opc st)) bs' st' rest)
        \<longleftrightarrow> completes t k (tail_start t (opc_state t [b] st)) bs1 st' rest"
      unfolding conj_assoc[symmetric] e by simp
    moreover have "\<not> may_prefix k b" using 2 by (simp add: may_prefix_def)
    ultimately show ?thesis unfolding step v unfolding Cons by auto
  next
    case 3
    have second: "x86_byte t k C_Second c (st\<lparr>xs_opcode_bytes := 2, xs_first_opcode := 0x0F\<rparr>) = tail_start t (opc_state t [0x0F, c] st)" for c
      by (simp add: x86_byte_def after_get_opcodes_tail)
    have v: "completes t k (decode_byte t k b st) bs1 st' rest \<longleftrightarrow>
        (\<exists>c bs'. bs1 = c # bs' \<and> completes t k (tail_start t (opc_state t [0x0F, c] st)) bs' st' rest)"
      using 3 by (simp add: decode_byte_def completes_byte second)
    have e: "b # bs1 = opc @ bs' \<and> opcode_of opc \<noteq> None \<longleftrightarrow> (\<exists>c. opc = [0x0F, c] \<and> bs1 = c # bs')" for opc bs'
      using 3 unfolding opcode_of_Some by auto
    have "(\<exists>opc bs'. b # bs1 = opc @ bs' \<and> opcode_of opc \<noteq> None \<and> completes t k (tail_start t (opc_state t opc st)) bs' st' rest)
        \<longleftrightarrow> (\<exists>c bs'. bs1 = c # bs' \<and> completes t k (tail_start t (opc_state t [0x0F, c] st)) bs' st' rest)"
      unfolding conj_assoc[symmetric] e by auto
    moreover have "\<not> may_prefix k b" using 3 by (simp add: may_prefix_def)
    ultimately show ?thesis unfolding step v unfolding Cons by auto
  qed
qed

lemma opc_state_clean:
  assumes "clean st" shows "clean (opc_state t opc st)"
  using assms by (simp add: clean_def opc_state_def Let_def split: list.split)

lemma prefix_state_clean: "clean st \<Longrightarrow> clean (prefix_state b st)"
  by (simp add: clean_def)

lemma completes_instr:
  assumes "clean st"
  shows "completes t k (Inr (C_Decode, st)) bs st' rest \<longleftrightarrow>
    (\<exists>qs i a. in_prefixes i = ps @ qs \<and> list_all (may_prefix k) qs \<and> opcode_of (in_opcode i) \<noteq> None
       \<and> bs = qs @ in_opcode i @ tail_bytes i @ rest
       \<and> tail_fits t (opc_state t (in_opcode i) (fold prefix_state qs st)) i a
       \<and> st' = tail_state (opc_state t (in_opcode i) (fold prefix_state qs st)) i a)"
    (is "_ \<longleftrightarrow> (\<exists>qs i a. ?Q ps st bs qs i a)")
  using assms
proof (induction bs arbitrary: st ps)
  case Nil
  have "\<not> completes t k (Inr (C_Decode, st)) [] st' rest" by (simp add: completes_def)
  moreover have "\<not> ?Q ps st [] qs i a" for qs i a by (auto simp: opcode_of_Some)
  ultimately show ?case by blast
next
  case (Cons b bs)
  have tail: "completes t k (tail_start t (opc_state t opc st)) bs' st' rest \<longleftrightarrow>
      (\<exists>i a. in_prefixes i = ps \<and> in_opcode i = opc \<and> bs' = tail_bytes i @ rest
        \<and> tail_fits t (opc_state t opc st) i a \<and> st' = tail_state (opc_state t opc st) i a)" for opc bs'
    unfolding tail_start_def by (rule completes_tail[OF opc_state_clean[OF Cons.prems]])
  show ?case
  proof
    assume "completes t k (Inr (C_Decode, st)) (b # bs) st' rest"
    then consider "may_prefix k b" "completes t k (Inr (C_Decode, prefix_state b st)) bs st' rest"
      | opc bs' where "b # bs = opc @ bs'" "opcode_of opc \<noteq> None" "completes t k (tail_start t (opc_state t opc st)) bs' st' rest"
      unfolding completes_decode[of t k st "b # bs"] by blast
    then show "\<exists>qs i a. ?Q ps st (b # bs) qs i a"
    proof cases
      case 1
      then obtain qs i a where "?Q (ps @ [b]) (prefix_state b st) bs qs i a"
        using Cons.IH[OF prefix_state_clean[OF Cons.prems]] by blast
      then have "?Q ps st (b # bs) (b # qs) i a" using 1(1) by simp
      then show ?thesis by blast
    next
      case 2
      then obtain i a where "in_prefixes i = ps" "in_opcode i = opc" "bs' = tail_bytes i @ rest"
        "tail_fits t (opc_state t opc st) i a" "st' = tail_state (opc_state t opc st) i a"
        unfolding tail by blast
      then have "?Q ps st (b # bs) [] i a" using 2 by simp
      then show ?thesis by blast
    qed
  next
    assume "\<exists>qs i a. ?Q ps st (b # bs) qs i a"
    then obtain qs i a where q: "?Q ps st (b # bs) qs i a" by blast
    show "completes t k (Inr (C_Decode, st)) (b # bs) st' rest"
    proof (cases qs)
      case Nil
      then have "completes t k (tail_start t (opc_state t (in_opcode i) st)) (tail_bytes i @ rest) st' rest"
        unfolding tail using q by (intro exI[of _ i] exI[of _ a]) simp
      then show ?thesis unfolding completes_decode[of t k st "b # bs"] using q Nil by (intro disjI2) auto
    next
      case (Cons c qs')
      then have p: "?Q (ps @ [b]) (prefix_state b st) bs qs' i a" and m: "may_prefix k b" using q by simp_all
      have "\<exists>qs i a. ?Q (ps @ [b]) (prefix_state b st) bs qs i a"
        by (rule exI[of _ qs'], rule exI[of _ i], rule exI[of _ a], rule p)
      then have "completes t k (Inr (C_Decode, prefix_state b st)) bs st' rest"
        by (rule iffD2[OF Cons.IH[OF prefix_state_clean[OF Cons.prems]]])
      then show ?thesis unfolding completes_decode[of t k st "b # bs"] using m by blast
    qed
  qed
qed

text \<open>What the prefixes leave in the state.\<close>

lemma ref_sse_snoc: "ref_sse (ps @ [b]) = (if b \<in> {0xF2, 0xF3} then unat (b AND 0xF)
    else if b = 0x66 \<and> ref_sse ps = 0 then 1 else ref_sse ps)"
proof -
  have n: "unat (x AND 0xF) \<noteq> 0" if "x \<in> {0xF2, 0xF3 :: u8}" for x using that by auto
  have "last (filter (\<lambda>b. b \<in> {0xF2, 0xF3}) ps) \<in> {0xF2, 0xF3}" if "filter (\<lambda>b. b \<in> {0xF2, 0xF3}) ps \<noteq> []"
    using last_in_set[OF that] by auto
  from n[OF this] show ?thesis by (auto simp: ref_sse_def Let_def)
qed

lemma prefix_fold:
  assumes "list_all is_prefix ps"
  shows "xs_rex (fold prefix_state ps (xst_start v st)) = ref_rex ps"
    "xs_sse (fold prefix_state ps (xst_start v st)) = ref_sse ps"
    "xs_addr_size (fold prefix_state ps (xst_start v st)) = ref_addr ps"
    "xs_offset (fold prefix_state ps (xst_start v st)) = (if 0x66 \<in> set ps then 0 else 512)"
    "xs_prefixes (fold prefix_state ps (xst_start v st)) = length ps"
    "\<not> xs_mem_operand (fold prefix_state ps (xst_start v st))" "\<not> xs_has_modrm (fold prefix_state ps (xst_start v st))"
    "clean (fold prefix_state ps (xst_start v st))"
proof -
  let ?P = "\<lambda>ps s. xs_rex s = ref_rex ps \<and> xs_sse s = ref_sse ps \<and> xs_addr_size s = ref_addr ps
    \<and> xs_offset s = (if 0x66 \<in> set ps then 0 else 512) \<and> xs_prefixes s = length ps \<and> \<not> xs_mem_operand s \<and> \<not> xs_has_modrm s \<and> clean s"
  have "?P ps (fold prefix_state ps (xst_start v st))" using assms
  proof (induction ps rule: rev_induct)
    case Nil
    then show ?case by (simp add: xst_start_def ref_rex_def ref_sse_def ref_addr_def clean_def)
  next
    case (snoc b ps)
    let ?s = "fold prefix_state ps (xst_start v st)"
    have IH: "?P ps ?s" and b: "is_prefix b" using snoc by simp_all
    have "xs_rex (prefix_state b ?s) = ref_rex (ps @ [b])"
      by (simp add: prefix_state_def ref_rex_def is_rex_def Let_def)
    moreover have "xs_sse (prefix_state b ?s) = ref_sse (ps @ [b])"
      using IH by (auto simp: prefix_state_def ref_sse_snoc Let_def)
    moreover have "xs_addr_size (prefix_state b ?s) = ref_addr (ps @ [b])"
      using IH by (auto simp: prefix_state_def ref_addr_def Let_def)
    moreover have "xs_offset (prefix_state b ?s) = (if 0x66 \<in> set (ps @ [b]) then 0 else 512)"
      using IH by (auto simp: prefix_state_def Let_def)
    ultimately show ?case using IH by (simp add: prefix_state_clean)
  qed
  then show "xs_rex (fold prefix_state ps (xst_start v st)) = ref_rex ps"
    "xs_sse (fold prefix_state ps (xst_start v st)) = ref_sse ps"
    "xs_addr_size (fold prefix_state ps (xst_start v st)) = ref_addr ps"
    "xs_offset (fold prefix_state ps (xst_start v st)) = (if 0x66 \<in> set ps then 0 else 512)"
    "xs_prefixes (fold prefix_state ps (xst_start v st)) = length ps"
    "\<not> xs_mem_operand (fold prefix_state ps (xst_start v st))" "\<not> xs_has_modrm (fold prefix_state ps (xst_start v st))"
    "clean (fold prefix_state ps (xst_start v st))" by simp_all
qed

lemma opc_state_simps:
  assumes "opcode_of opc = Some op"
  shows "xs_opcode (opc_state t opc s) = op" "xs_opcode_bytes (opc_state t opc s) = length opc"
    "xs_offset (opc_state t opc s) = (if xs_rex s AND 8 \<noteq> 0 then 1024 else xs_offset s)"
    "xs_sse (opc_state t opc s) = xs_sse s" "xs_addr_size (opc_state t opc s) = xs_addr_size s"
    "xs_rex (opc_state t opc s) = xs_rex s" "xs_prefixes (opc_state t opc s) = xs_prefixes s"
    "xs_has_modrm (opc_state t opc s) \<longleftrightarrow> tb_has_modrm t op \<or> xs_has_modrm s"
    "xs_mem_operand (opc_state t opc s) = xs_mem_operand s" "xs_has_sib (opc_state t opc s) = xs_has_sib s"
    "xs_disp_bytes (opc_state t opc s) = xs_disp_bytes s"
    "xs_attr (opc_state t opc s) = op_attr (tb_reg t (op + (if xs_rex s AND 8 \<noteq> 0 then 1024 else xs_offset s)))"
proof -
  have "opcode_of opc \<noteq> None" using assms by simp
  then consider b where "opc = [b]" "op = unat b" | b where "opc = [0x0F, b]" "op = 0x100 + unat b"
    using assms unfolding opcode_of_Some by force
  then show "xs_opcode (opc_state t opc s) = op" "xs_opcode_bytes (opc_state t opc s) = length opc"
    "xs_offset (opc_state t opc s) = (if xs_rex s AND 8 \<noteq> 0 then 1024 else xs_offset s)"
    "xs_sse (opc_state t opc s) = xs_sse s" "xs_addr_size (opc_state t opc s) = xs_addr_size s"
    "xs_rex (opc_state t opc s) = xs_rex s" "xs_prefixes (opc_state t opc s) = xs_prefixes s"
    "xs_has_modrm (opc_state t opc s) \<longleftrightarrow> tb_has_modrm t op \<or> xs_has_modrm s"
    "xs_mem_operand (opc_state t opc s) = xs_mem_operand s" "xs_has_sib (opc_state t opc s) = xs_has_sib s"
    "xs_disp_bytes (opc_state t opc s) = xs_disp_bytes s"
    "xs_attr (opc_state t opc s) = op_attr (tb_reg t (op + (if xs_rex s AND 8 \<noteq> 0 then 1024 else xs_offset s)))"
    by (cases; simp add: opc_state_def Let_def)+
qed

lemma tail_fits_ok:
  assumes "list_all is_prefix ps" "opcode_of opc = Some op" and s: "s = opc_state t opc (fold prefix_state ps (xst_start v st))"
  shows "(\<exists>a. tail_fits t s i a) \<longleftrightarrow> tail_ok t ps op i"
proof -
  note p = prefix_fold[OF assms(1), of v st] and o = opc_state_simps[OF assms(2), of t "fold prefix_state ps (xst_start v st)"]
  have off: "xs_offset s = ref_offset ps" by (simp add: s o p ref_offset_def)
  have f: "xs_opcode s = op" "xs_sse s = ref_sse ps" "xs_addr_size s = ref_addr ps" by (simp_all add: s o p)
  have "xs_attr s = op_attr (tb_reg t (op + ref_offset ps))" by (simp add: s o p ref_offset_def)
  moreover have "attr_of t (s\<lparr>xs_modrm := m\<rparr>) = ref_attr t op ps [m]" for m
    by (simp add: attr_of_def ref_attr_def f off modrm_mod_def modrm_nnn_def modrm_rm_def Let_def)
  moreover have "ref_attr t op ps (m # ms) = ref_attr t op ps [m]" for m ms by (simp add: ref_attr_def)
  ultimately show ?thesis
    by (auto simp: tail_fits_def tail_ok_def f ref_attr_def[of t op ps "[]"] split: list.splits sum.splits)
qed

lemma tail_describes:
  assumes "list_all is_prefix (in_prefixes i)" "opcode_of (in_opcode i) = Some op"
    and s: "s = opc_state t (in_opcode i) (fold prefix_state (in_prefixes i) (xst_start v st))" and t: "tail_fits t s i a"
  shows "describes i (tail_state s i a)"
proof -
  note p = prefix_fold[OF assms(1), of v st]
  note o = opc_state_simps[OF assms(2), of t "fold prefix_state (in_prefixes i) (xst_start v st)"]
  have c: "clean s" unfolding s by (rule opc_state_clean[OF p(8)])
  have f: "xs_opcode s = op" "xs_opcode_bytes s = length (in_opcode i)" "xs_rex s = ref_rex (in_prefixes i)"
    "xs_offset s = ref_offset (in_prefixes i)" "xs_sse s = ref_sse (in_prefixes i)" "xs_addr_size s = ref_addr (in_prefixes i)"
    "xs_prefixes s = length (in_prefixes i)" "\<not> xs_mem_operand s" "xs_has_modrm s \<longleftrightarrow> tb_has_modrm t op"
    by (simp_all add: s o p ref_offset_def)
  show ?thesis
  proof (cases "in_modrm i")
    case Nil
    then have "\<not> tb_has_modrm t op" "in_sib i = []" "in_disp i = []" using t f by (simp_all add: tail_fits_def)
    then show ?thesis using Nil f c assms(2) by (simp add: describes_def tail_state_def clean_def)
  next
    case (Cons m ms)
    then have m: "tb_has_modrm t op" "length (in_sib i) = ref_sib op m" "length (in_disp i) = ref_disp op m (in_sib i)"
      using t f by (cases "tb_has_modrm t op"; simp add: tail_fits_def)+
    let ?r = "mr_state m (in_sib i) s"
    have sib: "xs_has_sib ?r \<longleftrightarrow> in_sib i \<noteq> []" "xs_disp_bytes ?r = length (in_disp i)"
    proof -
      consider "ref_mod op m = 0xC0" | "ref_mod op m \<noteq> 0xC0" "in_sib i = []" | b where "ref_mod op m \<noteq> 0xC0" "in_sib i = [b]"
      proof (cases "ref_mod op m \<noteq> 0xC0 \<and> m AND 7 = 4")
        case True
        then have "length (in_sib i) = Suc 0" using m(2) by (simp add: ref_sib_def)
        then obtain b where "in_sib i = [b]" by (cases "in_sib i") auto
        then show ?thesis using True that(3) by blast
      next
        case False
        then have "length (in_sib i) = 0" using m(2) unfolding ref_sib_def by (simp only: of_bool_def if_False)
        then have "in_sib i = []" by simp
        then show ?thesis using that(1,2) by blast
      qed
      then have "(xs_has_sib ?r \<longleftrightarrow> in_sib i \<noteq> []) \<and> xs_disp_bytes ?r = length (in_disp i)"
      proof cases
        case 1
        then show ?thesis using m(2,3) c f by (simp add: mr_state_def effective_ref ref_sib_def ref_disp_def clean_def Let_def)
      next
        case 2
        then show ?thesis using m(3) c f modrm_disp[OF c, of m] by (simp add: mr_state_def effective_ref clean_def)
      next
        case (3 b)
        then show ?thesis using m(3) c f sib_disp[OF c, of m b] by (simp add: mr_state_def effective_ref)
      qed
      then show "xs_has_sib ?r \<longleftrightarrow> in_sib i \<noteq> []" "xs_disp_bytes ?r = length (in_disp i)" by blast+
    qed
    have "tail_state s i a = final_state ?r a (length (in_imm i))" using Cons by (simp add: tail_state_def)
    then show ?thesis using f m sib Cons assms(2)
      by (simp add: describes_def final_state_def mem_state_def modrm_mod_def)
  qed
qed

text \<open>C12: The byte automaton decodes the instruction format. Whatever the tables, a scan of a byte string
  completes an instruction and leaves \<open>rest\<close> exactly when the string is an instruction of the format
  followed by \<open>rest\<close>; the collected state then describes that instruction (prefixes, operand and address
  size, opcode, ModRM, SIB, number of displacement and immediate bytes, memory operand), and its parts add
  up to the number of bytes taken, which is what the assertion of \<open>x86_64_after_get_inst\<close> demands. It does
  not matter how the bytes are split over the cycles.\<close>

theorem decode_accepts_format:
  "((\<exists>st'. scan t k C_Decode (xst_start v st) bs = Inr (C_Done, st', rest)) \<longleftrightarrow> (\<exists>i. instr_ok t k i \<and> bs = flatten i @ rest))
   \<and> (scan t k C_Decode (xst_start v st) bs = Inr (C_Done, st', rest) \<longrightarrow>
        (\<exists>i. instr_ok t k i \<and> bs = flatten i @ rest \<and> describes i st' \<and> parts st' = length (flatten i)))
   \<and> scan t k C_Decode (xst_start v st) (ds @ ds') = rbind (scan t k C_Decode (xst_start v st) ds) (\<lambda>(c, s, r).
        if c = C_Done then Inr (c, s, r @ ds') else scan t k c s ds')"
proof (intro conjI impI iffI)
  have clean: "clean (xst_start v st)" using prefix_fold(8)[of "[]" v st] by simp
  have iff: "scan t k C_Decode (xst_start v st) bs = Inr (C_Done, st', rest) \<longleftrightarrow>
      (\<exists>i a. list_all (may_prefix k) (in_prefixes i) \<and> opcode_of (in_opcode i) \<noteq> None \<and> bs = flatten i @ rest
        \<and> tail_fits t (opc_state t (in_opcode i) (fold prefix_state (in_prefixes i) (xst_start v st))) i a
        \<and> st' = tail_state (opc_state t (in_opcode i) (fold prefix_state (in_prefixes i) (xst_start v st))) i a)" for st'
    using completes_instr[OF clean, of t k bs st' rest "[]"] by (auto simp: completes_def flatten_def tail_bytes_def)
  have ok: "instr_ok t k i \<longleftrightarrow> list_all (may_prefix k) (in_prefixes i) \<and> opcode_of (in_opcode i) \<noteq> None
      \<and> (\<exists>a. tail_fits t (opc_state t (in_opcode i) (fold prefix_state (in_prefixes i) (xst_start v st))) i a)" for i
  proof (cases "list_all (may_prefix k) (in_prefixes i)")
    case True
    then have p: "list_all is_prefix (in_prefixes i)" by (auto simp: list_all_iff may_prefix_def)
    show ?thesis using True tail_fits_ok[OF p _ refl, of "in_opcode i" _ t v st i]
      by (cases "opcode_of (in_opcode i)") (auto simp: instr_ok_def may_prefix_def[abs_def])
  qed (auto simp: instr_ok_def may_prefix_def[abs_def])
  have some: "\<exists>i. instr_ok t k i \<and> bs = flatten i @ rest \<and> describes i st' \<and> parts st' = length (flatten i)"
    if sc: "scan t k C_Decode (xst_start v st) bs = Inr (C_Done, st', rest)" for st'
  proof -
    obtain i a where i: "list_all (may_prefix k) (in_prefixes i)" "opcode_of (in_opcode i) \<noteq> None" "bs = flatten i @ rest"
      "tail_fits t (opc_state t (in_opcode i) (fold prefix_state (in_prefixes i) (xst_start v st))) i a"
      "st' = tail_state (opc_state t (in_opcode i) (fold prefix_state (in_prefixes i) (xst_start v st))) i a"
      using sc unfolding iff by blast
    obtain op where op: "opcode_of (in_opcode i) = Some op" using i(2) by blast
    have p: "list_all is_prefix (in_prefixes i)" using i(1) by (auto simp: list_all_iff may_prefix_def)
    have "parts st' = length (flatten i)"
      using scan_counts[OF fits_start(1) sc] i(3) by (auto simp: collected_def xst_start_def)
    moreover have "describes i st'" unfolding i(5) by (rule tail_describes[OF p op refl i(4)])
    ultimately show ?thesis using ok[of i] i(1-4) by blast
  qed
  show "\<exists>i. instr_ok t k i \<and> bs = flatten i @ rest"
    if "\<exists>st'. scan t k C_Decode (xst_start v st) bs = Inr (C_Done, st', rest)" using that some by blast
  show "\<exists>st'. scan t k C_Decode (xst_start v st) bs = Inr (C_Done, st', rest)"
    if "\<exists>i. instr_ok t k i \<and> bs = flatten i @ rest" using that unfolding iff ok by blast
  show "\<exists>i. instr_ok t k i \<and> bs = flatten i @ rest \<and> describes i st' \<and> parts st' = length (flatten i)"
    if "scan t k C_Decode (xst_start v st) bs = Inr (C_Done, st', rest)" by (rule some[OF that])
qed (rule scan_append)

section \<open>A concrete instruction\<close>

text \<open>\<open>mov rax, [rsp+8]\<close>, \<open>48 8B 44 24 08\<close>, with tables in which only opcode \<open>8B\<close> has a ModRM byte.\<close>

definition demo_tables :: tables where
  "demo_tables = \<lparr>tb_has_modrm = (\<lambda>op. op = 0x8B), tb_reg = (\<lambda>_. Op_Plain 0), tb_mem = (\<lambda>_. Op_Plain 0)\<rparr>"

definition demo_instr :: instr where
  "demo_instr = \<lparr>in_prefixes = [0x48], in_opcode = [0x8B], in_modrm = [0x44], in_sib = [0x24], in_disp = [8], in_imm = []\<rparr>"

lemma demo_instr_ok: "instr_ok demo_tables True demo_instr" "flatten demo_instr = [0x48, 0x8B, 0x44, 0x24, 8]"
  by (simp_all add: instr_ok_def demo_instr_def flatten_def is_prefix_def tail_ok_def demo_tables_def ref_sib_def ref_mod_def
      ref_disp_def ref_attr_def Let_def group_step_def imm_size_def GROUP_X_def IMMEDIATE_def)

lemma decode_accepts_format_witness:
  "\<forall>st. \<exists>st'. scan demo_tables True C_Decode (xst_start 16 st) [0x48, 0x8B, 0x44, 0x24, 8, 0x90] = Inr (C_Done, st', [0x90])
      \<and> parts st' = 5"
proof
  fix st
  let ?bs = "[0x48, 0x8B, 0x44, 0x24, 8, 0x90 :: u8]"
  have "?bs = flatten demo_instr @ [0x90]" by (simp add: demo_instr_ok)
  then have "\<exists>i. instr_ok demo_tables True i \<and> ?bs = flatten i @ [0x90]" using demo_instr_ok(1) by blast
  then obtain st' where st': "scan demo_tables True C_Decode (xst_start 16 st) ?bs = Inr (C_Done, st', [0x90])"
    using decode_accepts_format[of demo_tables True 16 st ?bs "[0x90]"] by blast
  then obtain i where "?bs = flatten i @ [0x90]" "parts st' = length (flatten i)"
    using decode_accepts_format[of demo_tables True 16 st ?bs "[0x90]" st'] by blast
  then have "parts st' = 5" using arg_cong[of ?bs "flatten i @ [0x90]" length] by simp
  with st' show "\<exists>st'. scan demo_tables True C_Decode (xst_start 16 st) ?bs = Inr (C_Done, st', [0x90]) \<and> parts st' = 5" by blast
qed

end
