(* ===== verification/Pipeline.thy ===== *)
theory Pipeline
  imports Fetch_Buffer X86_System X86_Decode Rs_Policy
begin

text \<open>
  The back end of a processor: the reorder buffer (\<open>src/src/cpu/reorder_buffer.cpp\<close>) and the operations of
  \<open>processor_t\<close> in \<open>src/src/cpu/cpu.cpp\<close> that move instructions through the pipeline: dispatch, write-back,
  commit and the two flushes. \<open>load_general_config\<close> of \<open>main.cpp\<close> fixes one physical processor with one
  virtual processor, so the loops over the virtual processors are one round for processor 0, and the
  shared components belong to it.

  The state \<open>core\<close> is everything those operations reach: the objects, the dependency vectors, the three
  reservation stations, the functional units, the two lists of the reorder buffer, the decoder, the
  front end with the architectural state, and the bookkeeping of branches. The statistics counters and
  the debug output are left out.
\<close>

section \<open>State\<close>

text \<open>
  The decoder. \<open>handler\<close> is the member function that goes on with the instruction; the functions of the
  byte automaton of \<open>X86_Decode\<close> are \<open>H_Byte\<close>. \<open>dc_buffered\<close> is an array of
  \<open>CPU_DECODER_MAX_ALLOCATED_INST\<close> objects, \<open>dc_opcodes\<close> the used part of the opcode buffer. The last five
  fields are the part that \<open>x86_64_class_decoder.h\<close> adds; \<open>dc_index\<close> is the entry in use of the cache of decoded
  instructions, \<open>inst_cache_tb\<close>, which is \<open>k_icache\<close> of the processor.
\<close>

definition MAX_ALLOCATED :: nat where "MAX_ALLOCATED = 7"
definition MAX_OPCODE_BYTES :: nat where "MAX_OPCODE_BYTES = 15"

datatype handler = H_Byte cur | H_Get_Bytes | H_Alocate | H_After_Allocate | H_Fetch_Exception | H_Dispatch

record decoder =
  dc_inst_id :: u64
  dc_mis :: bool
  dc_buffered :: "nat list"
  dc_allocated :: nat
  dc_required :: nat
  dc_dispatched :: nat
  dc_busy :: bool
  dc_bytes :: u32
  dc_handler :: handler
  dc_saved :: handler
  dc_opcodes :: "u8 list"
  dc_addr :: u64
  dc_length :: u8
  dc_next :: u64
  dc_is_branch :: bool
  dc_taken :: bool
  dc_foresight :: bool
  dc_target :: u64
  dc_branch_type :: nat
  dc_automatic :: bool
  dc_exception :: bool
  dc_exception_code :: u64
  dc_buffer_exception :: u64
  dc_is_trap :: bool
  dc_trap_code :: u16
  dc_stop :: bool
  dc_is_halt :: bool
  dc_must_flush :: bool
  dc_unexpected :: bool
  dc_has_branch :: bool
  dc_first_byte :: bool
  dc_to_get :: u32
  dc_got :: u32
  dc_index :: nat

record cfg =
  cf_cycles :: "nat \<Rightarrow> u32"
  cf_detect_on_wb :: bool
  cf_max_bytes :: u32
  cf_fetch_size :: u32
  cf_fetch_width :: u32

record core =
  k_pool :: pool
  k_regs :: regs
  k_rs :: rs_queue
  k_ls :: rs_queue
  k_io :: rs_queue
  k_units :: func_units
  k_supply :: "nat dlist"
  k_rob :: "nat dlist"
  k_dec :: decoder
  k_icache :: "nat \<Rightarrow> xst"
  k_front :: fetch_st
  k_branches :: "nat \<Rightarrow> u32"
  k_flusher :: "nat option"
  k_running :: bool

abbreviation u_of :: "core \<Rightarrow> nat \<Rightarrow> uop" where
  "u_of k p \<equiv> k_pool k p"

text \<open>The objects that the decoder holds and has not dispatched yet, oldest first.\<close>

definition held :: "decoder \<Rightarrow> nat list" where
  "held d = drop (dc_dispatched d) (take (dc_allocated d) (dc_buffered d))"

definition upd :: "nat \<Rightarrow> (uop \<Rightarrow> uop) \<Rightarrow> core \<Rightarrow> core" where
  "upd p f k = k\<lparr>k_pool := (k_pool k)(p := f (k_pool k p))\<rparr>"

section \<open>The supply of objects and the reorder buffer\<close>

definition get_inst_from_supply :: "core \<Rightarrow> (core \<times> nat option) res" where
  "get_inst_from_supply k =
     (if dl_n_elements (k_supply k) > 0 then
        case get_first (k_supply k) of None \<Rightarrow> Inl Null_Deref
        | Some el \<Rightarrow> (case get_data (k_supply k) el of
            None \<Rightarrow> Inl Null_Deref
          | Some p \<Rightarrow> Inr (k\<lparr>k_supply := del_first (k_supply k)\<rparr>, Some p))
      else Inr (k, None))"

definition give_back :: "nat list \<Rightarrow> core \<Rightarrow> core" where
  "give_back ps k = k\<lparr>k_supply := fold (\<lambda>p l. fst (add_end p l)) ps (k_supply k)\<rparr>"

definition rob_add :: "nat \<Rightarrow> core \<Rightarrow> core" where
  "rob_add p k = (case add_end p (k_rob k) of (l, el) \<Rightarrow> upd p (\<lambda>u. u\<lparr>u_rb_el := el\<rparr>) (k\<lparr>k_rob := l\<rparr>))"

section \<open>Dispatch\<close>

text \<open>Which of the three stations a type goes to.\<close>

definition is_mem :: "nat \<Rightarrow> bool" where
  "is_mem t \<longleftrightarrow> type_mask t AND (type_mask T_LOAD OR type_mask T_STORE) \<noteq> 0"

definition is_io :: "nat \<Rightarrow> bool" where
  "is_io t \<longleftrightarrow> type_mask t AND (type_mask T_IO_IN OR type_mask T_IO_OUT) \<noteq> 0"

definition station :: "nat \<Rightarrow> queue_id option" where
  "station t = (if is_mem t then Some Ls_Queue else if is_io t then Some Io_Queue
     else if t \<noteq> T_NONE then Some Rs_Queue else None)"

primrec k_queue :: "queue_id \<Rightarrow> core \<Rightarrow> rs_queue" where
  "k_queue Rs_Queue k = k_rs k"
| "k_queue Ls_Queue k = k_ls k"
| "k_queue Io_Queue k = k_io k"

primrec put_queue :: "queue_id \<Rightarrow> rs_queue \<Rightarrow> core \<Rightarrow> core" where
  "put_queue Rs_Queue q k = k\<lparr>k_rs := q\<rparr>"
| "put_queue Ls_Queue q k = k\<lparr>k_ls := q\<rparr>"
| "put_queue Io_Queue q k = k\<lparr>k_io := q\<rparr>"

text \<open>The counting of branches at the head of \<open>dispatch\<close>; it happens before the station has accepted the instruction.\<close>

definition note_branch :: "nat \<Rightarrow> core \<Rightarrow> core" where
  "note_branch p k =
     (if k_flusher k = None
      then k\<lparr>k_branches := (k_branches k)(u_type (u_of k p) := k_branches k (u_type (u_of k p)) + 1),
             k_flusher := if u_pipeline (u_of k p) = Valid_Can_Flush then Some p else None\<rparr>
      else k)"

definition enqueue :: "nat \<Rightarrow> core \<Rightarrow> core \<times> bool" where
  "enqueue p k = (case station (u_type (u_of k p)) of
     None \<Rightarrow> (k\<lparr>k_pool := set_status Ready p (k_pool k)\<rparr>, True)
   | Some q \<Rightarrow> (case queue_add p (k_pool k) (k_queue q k) of (h, r, ok) \<Rightarrow>
       (put_queue q r (k\<lparr>k_pool := h\<rparr>), ok)))"

text \<open>The time to execute: what is set already, the configured cycles, and the access of the data cache.\<close>

definition memory_time :: "u64 \<Rightarrow> nat \<Rightarrow> core \<Rightarrow> core res" where
  "memory_time cyc p k =
     (if u_mem_result (u_of k p) \<noteq> 0 then
        rbind (struct_access cyc 1 (ucast (u_mem_addr (u_of k p))) (u_mem_length (u_of k p))
                 (type_mask (u_type (u_of k p)) AND type_mask T_LOAD = 0) (fs_cache (k_front k)))
          (\<lambda>(cs, n). Inr (upd p (\<lambda>u. u\<lparr>u_cycles := u_cycles u + n\<rparr>)
                            (k\<lparr>k_front := (k_front k)\<lparr>fs_cache := cs\<rparr>\<rparr>)))
      else Inr k)"

definition dispatch :: "cfg \<Rightarrow> u64 \<Rightarrow> nat \<Rightarrow> core \<Rightarrow> (core \<times> bool) res" where
  "dispatch c cyc p k =
     (case enqueue p (note_branch p k) of (k1, ok) \<Rightarrow>
        if ok then
          rbind (memory_time cyc p (upd p (\<lambda>u. u\<lparr>u_cycles := u_cycles u + cf_cycles c (u_type u)\<rparr>) k1)) (\<lambda>k2.
            Inr (rob_add p (upd p (\<lambda>u. u\<lparr>u_queue := station (u_type u)\<rparr>) k2), True))
        else Inr (k1, False))"

section \<open>Flushes\<close>

definition dec_flush :: "decoder \<Rightarrow> decoder" where
  "dec_flush d = d\<lparr>dc_mis := False, dc_allocated := 0, dc_required := 0, dc_dispatched := 0, dc_busy := False\<rparr>"

text \<open>\<open>get_buffered_rs\<close> lists the undispatched objects from the youngest to the oldest.\<close>

definition get_buffered_rs :: "decoder \<Rightarrow> nat list" where
  "get_buffered_rs d = rev (held d)"

definition flush_stations :: "(rs_queue \<Rightarrow> rs_queue res) \<Rightarrow> core \<Rightarrow> core res" where
  "flush_stations f k =
     rbind (f (k_rs k)) (\<lambda>rs. rbind (f (k_ls k)) (\<lambda>ls. rbind (f (k_io k)) (\<lambda>io.
       Inr (k\<lparr>k_rs := rs, k_ls := ls, k_io := io\<rparr>))))"

definition flush_fetch :: "cfg \<Rightarrow> core \<Rightarrow> core" where
  "flush_fetch c k = (case fb_flush (cf_fetch_size c) (fs_cpu (k_front k)) (fs_lane (k_front k)) of (l, pc) \<Rightarrow>
     k\<lparr>k_front := (k_front k)\<lparr>fs_lane := l, fs_pc := pc\<rparr>\<rparr>)"

definition forget_branches :: "core \<Rightarrow> core" where
  "forget_branches k = k\<lparr>k_branches := (k_branches k)(T_BRANCH := 0), k_flusher := None\<rparr>"

definition flush_pipeline_simple :: "cfg \<Rightarrow> core \<Rightarrow> (core \<times> nat list) res" where
  "flush_pipeline_simple c k =
     rbind (flush_stations (queue_flush (k_pool k) 0) k) (\<lambda>k1.
       let k2 = k1\<lparr>k_units := fu_flush (k_pool k1) 0 (k_units k1)\<rparr>;
           ps = get_buffered_rs (k_dec k2);
           k3 = flush_fetch c (k2\<lparr>k_dec := dec_flush (k_dec k2)\<rparr>)
       in Inr (forget_branches (k3\<lparr>k_regs := (\<lambda>_. None)\<rparr>), ps))"

definition flush_pipeline_on_wb :: "cfg \<Rightarrow> nat \<Rightarrow> core \<Rightarrow> (core \<times> nat list) res" where
  "flush_pipeline_on_wb c s k =
     rbind (flush_stations (queue_flush_on_wb (k_pool k) s) k) (\<lambda>k1.
       let k2 = k1\<lparr>k_units := fu_flush_on_wb (k_pool k1) s (k_units k1)\<rparr>;
           out = (u_status (u_of k2 s) \<noteq> Decoding);
           ps = (if out then get_buffered_rs (k_dec k2) else []);
           k3 = flush_fetch c (if out then k2\<lparr>k_dec := dec_flush (k_dec k2)\<rparr> else k2);
           k4 = k3\<lparr>k_regs := (\<lambda>r. case k_regs k3 r of None \<Rightarrow> None
                      | Some p \<Rightarrow> if u_id (u_of k3 p) > u_id (u_of k3 s) then None else Some p)\<rparr>
       in Inr (upd s (\<lambda>u. u\<lparr>u_foresight := True\<rparr>) (forget_branches k4), ps))"

definition flush_pipeline_others :: "core \<Rightarrow> core res" where
  "flush_pipeline_others k = rbind (pred_flush 0 (fs_pred (k_front k))) (\<lambda>p. Inr (k\<lparr>k_front := (k_front k)\<lparr>fs_pred := p\<rparr>\<rparr>))"

text \<open>\<open>reorder_buffer_t::flush\<close>.\<close>

definition rob_flush :: "cfg \<Rightarrow> core \<Rightarrow> core res" where
  "rob_flush c k =
     rbind (flush_pipeline_simple c k) (\<lambda>(k1, ps).
       let k2 = give_back ps k1
       in rbind (dl_loop_before (move_body (\<lambda>p. u_cpu (u_of k2 p) = 0)) (k_rob k2) (k_supply k2)) (\<lambda>(l, su).
            Inr (k2\<lparr>k_rob := l, k_supply := su\<rparr>)))"

text \<open>\<open>reorder_buffer_t::flush_on_write_back\<close>: everything behind the element of \<open>s\<close>.\<close>

definition undo_body :: "nat \<Rightarrow> nat \<Rightarrow> pool \<times> nat dlist \<Rightarrow> ((pool \<times> nat dlist) \<times> act) res" where
  "undo_body el p = (\<lambda>(h, su).
     if u_cpu (h p) = 0 then Inr ((uop_unhook p h, fst (add_end p su)), Remove) else Inr ((h, su), Keep))"

definition rob_flush_on_wb :: "cfg \<Rightarrow> nat \<Rightarrow> core \<Rightarrow> core res" where
  "rob_flush_on_wb c s k =
     rbind (flush_pipeline_on_wb c s k) (\<lambda>(k1, ps).
       let k2 = give_back ps k1
       in case u_rb_el (u_of k2 s) of
            None \<Rightarrow> Inr k2
          | Some el \<Rightarrow>
              rbind (iter_before get_next get_data del undo_body (dl_capacity (k_rob k2)) (get_next (k_rob k2) el)
                       (k_rob k2) (k_pool k2, k_supply k2)) (\<lambda>(l, (h, su)).
                Inr (k2\<lparr>k_rob := l, k_pool := h, k_supply := su\<rparr>)))"

section \<open>Write-back\<close>

definition branch_of :: "uop \<Rightarrow> branch_el" where
  "branch_of u = \<lparr>br_mem_addr = u_vaddr u + ucast (u_length u) - 1, br_target_addr = u_branch_target u,
     br_taken = u_branch_taken u, br_is_call = False, br_is_ret = False\<rparr>"

definition warn_branch_predictor :: "branch_el \<Rightarrow> core \<Rightarrow> core res" where
  "warn_branch_predictor b k =
     rbind (pred_add b 0 (fs_pred (k_front k))) (\<lambda>p. Inr (k\<lparr>k_front := (k_front k)\<lparr>fs_pred := p\<rparr>\<rparr>))"

definition leave_station :: "nat \<Rightarrow> core \<Rightarrow> core res" where
  "leave_station p k = (case u_queue (u_of k p) of
     None \<Rightarrow> Inl Null_Deref
   | Some q \<Rightarrow> rbind (queue_del p (k_pool k) (k_queue q k)) (\<lambda>r. Inr (put_queue q r k)))"

definition release :: "nat \<Rightarrow> core \<Rightarrow> core" where
  "release p k = (case uop_write_back p (k_pool k) (k_regs k) of (h, g) \<Rightarrow> k\<lparr>k_pool := h, k_regs := g\<rparr>)"

definition account_branch :: "cfg \<Rightarrow> nat \<Rightarrow> core \<Rightarrow> core res" where
  "account_branch c p k =
     (if u_pipeline (u_of k p) \<noteq> Invalid then
        let t = u_type (u_of k p);
            k1 = k\<lparr>k_branches := (k_branches k)(t := k_branches k t - 1)\<rparr>
        in if u_is_branch (u_of k1 p) \<and> cf_detect_on_wb c then warn_branch_predictor (branch_of (u_of k1 p)) k1 else Inr k1
      else Inr k)"

definition write_back_one :: "cfg \<Rightarrow> nat \<Rightarrow> core \<Rightarrow> core res" where
  "write_back_one c p k = rbind (leave_station p (release p k)) (account_branch c p)"

definition write_back :: "cfg \<Rightarrow> nat list \<Rightarrow> core \<Rightarrow> core res" where
  "write_back c ps k =
     rbind (rfold (write_back_one c) ps k) (\<lambda>k1.
       case k_flusher k1 of
         Some f \<Rightarrow> if cf_detect_on_wb c \<and> k_branches k1 T_BRANCH = 0
           then rob_flush_on_wb c (u_last (u_of k1 f)) k1 else Inr k1
       | None \<Rightarrow> Inr k1)"

section \<open>Commit\<close>

definition arrived_to_commit :: "nat \<Rightarrow> core \<Rightarrow> core" where
  "arrived_to_commit p k = (case u_queue (u_of k p) of
     None \<Rightarrow> k | Some q \<Rightarrow> put_queue q (queue_arrived p (k_pool k) (k_queue q k)) k)"

definition put_cpu :: "xcpu \<Rightarrow> core \<Rightarrow> core" where
  "put_cpu x k = k\<lparr>k_front := (k_front k)\<lparr>fs_cpu := x\<rparr>\<rparr>"

text \<open>\<open>x86_64_flush_inst_cache\<close>, the part of \<open>flush_internal_caches\<close> that belongs to the decoder.\<close>

definition flush_inst_cache :: "core \<Rightarrow> core" where
  "flush_inst_cache k = k\<lparr>k_icache := (\<lambda>i. (k_icache k i)\<lparr>xs_busy := False\<rparr>)\<rparr>"

text \<open>What the commit of one ready instruction does to the processor, and whether the pipeline is flushed.\<close>

definition commit_effect :: "nat \<Rightarrow> core \<Rightarrow> (core \<times> bool) res" where
  "commit_effect p k =
     (let u = u_of k p; x = fs_cpu (k_front k);
          flushed = (\<lambda>b x'. rbind (flush_pipeline_others (put_cpu x' (if b then flush_inst_cache k else k))) (\<lambda>k'. Inr (k', True)))
      in if u_exception u then rbind (process_exception (u_exception_code u) x) (flushed True)
         else if u_is_trap u then rbind (process_trap (u_trap_code u) (u_vaddr u) (u_length u) x) (flushed (interruptible x))
         else if u_is_halt u then Inr (k\<lparr>k_running := False\<rparr>, True)
         else if u_must_flush u then flushed True (process_instruction_that_flushes_pipeline x)
         else if u_is_branch u then rbind (warn_branch_predictor (branch_of u) k) (\<lambda>k'. Inr (k', False))
         else Inr (k, False))"

definition commit_body :: "nat \<Rightarrow> nat \<Rightarrow> core \<times> bool \<Rightarrow> ((core \<times> bool) \<times> act) res" where
  "commit_body el p = (\<lambda>(k, m).
     if u_status (u_of k p) = Ready then
       rbind (commit_effect p k) (\<lambda>(k1, f).
         if f \<or> \<not> u_foresight (u_of k1 p) then Inr ((k1, True), Stop)
         else Inr ((k1\<lparr>k_supply := fst (add_end p (k_supply k1))\<rparr>, m), Remove))
     else Inr ((if u_status (u_of k p) = Dep_Ready then arrived_to_commit p k else k, m), Stop))"

text \<open>The sanity check stops the simulator when the oldest instruction waits for a result.\<close>

definition head_waits :: "core \<Rightarrow> bool" where
  "head_waits k = (case get_first (k_rob k) of
     None \<Rightarrow> False
   | Some el \<Rightarrow> (case get_data (k_rob k) el of None \<Rightarrow> False | Some p \<Rightarrow> u_status (u_of k p) = Wait_Dep))"

definition commit :: "cfg \<Rightarrow> core \<Rightarrow> core res" where
  "commit c k =
     (if head_waits k then Inl Exit
      else rbind (dl_loop_before commit_body (k_rob k) (k, False)) (\<lambda>(l, (k1, must)).
        let k2 = k1\<lparr>k_rob := l\<rparr> in if must then rob_flush c k2 else Inr k2))"

end
