(* ===== verification/Microcode.thy ===== *)
theory Microcode
  imports Pipeline
begin

text \<open>
  The microcode of the x86-64 instructions: which micro-operations an instruction becomes, and which
  dependencies, memory accesses and branch results are recorded for them. \<open>src/src/cpu/x86_64/dep.h\<close> is the
  table; it is included once for the numbers and types of the micro-operations and once more for each operand size for
  the handlers, whose bodies are the macros of \<open>dep2.h\<close> (register operands), \<open>dep3.h\<close> (memory operands),
  \<open>dep4.h\<close> and \<open>dep5.h\<close> (branches), written with the macros of \<open>decoder_utils.h\<close>. A handler is modelled
  as the list of its actions: its \<open>_HEAD\<close>, the part for the operand size, and its \<open>_TAIL\<close>.
\<close>

unbundle bit_operations_syntax

section \<open>Operands and actions\<close>

datatype osize = B16 | B32 | B64

text \<open>
  What the handlers read of the decoded instruction and of the processor: \<open>nnn()\<close>, \<open>rm()\<close>, \<open>opcodeReg()\<close> and
  \<open>Id()\<close> of Bochs' instruction, the opcode bytes, the prefix, the registers of the memory operand, the
  address that Bochs resolves, the stack pointer and the address of the next instruction.
\<close>

record operands =
  op_g :: u8
  op_e :: u8
  op_reg :: u8
  op_first :: u8
  op_second :: u8
  op_rex :: u8
  op_base :: "u8 option"
  op_index :: "u8 option"
  op_addr :: u64
  op_rsp :: u64
  op_next :: u64
  op_id :: u32

datatype micro =
    M_Check nat "reg_slot list"
  | M_Set nat "reg_slot list"
  | M_Link nat nat
  | M_Load nat u64 u8
  | M_Store nat u64 u8
  | M_Branch u64 nat

type_synonym handler_fun = "operands \<Rightarrow> osize \<Rightarrow> micro list"
type_synonym dep_entry = "handler_fun \<times> nat list"

definition VECTOR_LOW :: nat where "VECTOR_LOW = 0"
definition VECTOR_HIGH :: nat where "VECTOR_HIGH = 1"
definition VECTOR_REST :: nat where "VECTOR_REST = 2"
definition VECTOR_RFLAGS :: nat where "VECTOR_RFLAGS = 3"
definition VECTOR_MSR :: nat where "VECTOR_MSR = 4"

lemmas vectors = VECTOR_LOW_def VECTOR_HIGH_def VECTOR_REST_def VECTOR_RFLAGS_def VECTOR_MSR_def

definition FLAG_CF :: nat where "FLAG_CF = 0"
definition FLAG_PF :: nat where "FLAG_PF = 2"
definition FLAG_AF :: nat where "FLAG_AF = 4"
definition FLAG_ZF :: nat where "FLAG_ZF = 6"
definition FLAG_SF :: nat where "FLAG_SF = 7"
definition FLAG_OF :: nat where "FLAG_OF = 11"

lemmas flag_numbers = FLAG_CF_def FLAG_PF_def FLAG_AF_def FLAG_ZF_def FLAG_SF_def FLAG_OF_def

definition BRANCH_CONDITIONAL :: nat where "BRANCH_CONDITIONAL = 0"
definition BRANCH_UNCONDITIONAL :: nat where "BRANCH_UNCONDITIONAL = 1"

text \<open>The sizes of the dependency vectors.\<close>

definition slot_exists :: "reg_slot \<Rightarrow> bool" where
  "slot_exists r = (case r of (c, v, i) \<Rightarrow>
     c = 0 \<and> (v < VECTOR_RFLAGS \<and> i < 16 \<or> v = VECTOR_RFLAGS \<and> i < 32 \<or> v = VECTOR_MSR \<and> i < 16))"

definition gpr :: "nat \<Rightarrow> u8 \<Rightarrow> reg_slot" where
  "gpr v c = (0, v, unat c)"

definition flag :: "nat \<Rightarrow> reg_slot" where
  "flag f = (0, VECTOR_RFLAGS, f)"

text \<open>The parts of a register that the macros for its widths look at; the one for 32 bits is that for 64.\<close>

definition slots64 :: "u8 \<Rightarrow> reg_slot list" where
  "slots64 c = [gpr VECTOR_LOW c, gpr VECTOR_HIGH c, gpr VECTOR_REST c]"

definition slots16 :: "u8 \<Rightarrow> reg_slot list" where
  "slots16 c = [gpr VECTOR_LOW c, gpr VECTOR_HIGH c]"

definition slots8 :: "u8 \<Rightarrow> u8 \<Rightarrow> reg_slot list" where
  "slots8 rex c = (if rex AND 0xF0 = 0x40 \<or> c AND 0x04 = 0 then [gpr VECTOR_LOW c] else [gpr VECTOR_HIGH (c AND 0x03)])"

definition cond_slots :: "u8 \<Rightarrow> reg_slot list" where
  "cond_slots c =
     (if c \<le> 0x01 then [flag FLAG_OF]
      else if c \<le> 0x03 then [flag FLAG_CF]
      else if c \<le> 0x05 then [flag FLAG_ZF]
      else if c \<le> 0x07 then [flag FLAG_CF, flag FLAG_ZF]
      else if c \<le> 0x09 then [flag FLAG_SF]
      else if c \<le> 0x0B then [flag FLAG_PF]
      else if c \<le> 0x0D then [flag FLAG_SF, flag FLAG_OF]
      else if c \<le> 0x0F then [flag FLAG_SF, flag FLAG_OF, flag FLAG_ZF]
      else [])"

definition mem_slots :: "operands \<Rightarrow> reg_slot list" where
  "mem_slots i = (case op_base i of None \<Rightarrow> [] | Some b \<Rightarrow> slots64 b)
     @ (case op_index i of None \<Rightarrow> [] | Some x \<Rightarrow> slots64 x)"

text \<open>The six lines that nearly every arithmetic handler ends with.\<close>

definition set_flags :: "nat \<Rightarrow> micro list" where
  "set_flags n = map (\<lambda>f. M_Set n [flag f]) [FLAG_CF, FLAG_PF, FLAG_AF, FLAG_ZF, FLAG_SF, FLAG_OF]"

section \<open>Running the actions\<close>

definition get_rs :: "nat \<Rightarrow> core \<Rightarrow> nat res" where
  "get_rs n k = (if n < MAX_ALLOCATED then Inr (dc_buffered (k_dec k) ! n) else Inl Out_Of_Bounds)"

definition link_dep :: "nat \<Rightarrow> nat \<Rightarrow> core \<Rightarrow> core res" where
  "link_dep d s k = rbind (create_dep d s (k_pool k)) (\<lambda>h. Inr (k\<lparr>k_pool := h\<rparr>))"

definition check_slot :: "nat \<Rightarrow> reg_slot \<Rightarrow> core \<Rightarrow> core res" where
  "check_slot n r k =
     (if slot_exists r then
        case k_regs k r of None \<Rightarrow> Inr k | Some s \<Rightarrow> rbind (get_rs n k) (\<lambda>d. link_dep d s k)
      else Inl Out_Of_Bounds)"

definition set_slot :: "nat \<Rightarrow> reg_slot \<Rightarrow> core \<Rightarrow> core res" where
  "set_slot n r k =
     (if slot_exists r then
        rbind (get_rs n k) (\<lambda>p. rbind (set_dep r p (k_pool k) (k_regs k)) (\<lambda>(h, g). Inr (k\<lparr>k_pool := h, k_regs := g\<rparr>)))
      else Inl Out_Of_Bounds)"

text \<open>
  The address is translated for every instruction, and the translation cache remembers it; the result is
  used only while the decoder is on the right path. \<open>junk\<close> is the uninitialised local variable, whose
  physical address is used when the page is not present.
\<close>

definition note_access :: "vm_data \<Rightarrow> nat \<Rightarrow> nat \<Rightarrow> u64 \<Rightarrow> u8 \<Rightarrow> core \<Rightarrow> core res" where
  "note_access junk t n v len k =
     rbind (get_physical Data_Tlb (junk\<lparr>vd_vaddr := v\<rparr>) (fs_cpu (k_front k))) (\<lambda>(vm, x).
       let k1 = put_cpu x k
       in if \<not> dc_mis (k_dec k1) then
            rbind (get_rs n k1) (\<lambda>p. Inr (upd p (\<lambda>u. u\<lparr>u_mem_result := t, u_mem_addr := ucast (vd_paddr vm), u_mem_length := len\<rparr>) k1))
          else Inr k1)"

definition set_branch_result :: "u64 \<Rightarrow> nat \<Rightarrow> core \<Rightarrow> core" where
  "set_branch_result target t k = k\<lparr>k_dec := (k_dec k)\<lparr>dc_automatic := True, dc_is_branch := True, dc_taken := False,
     dc_target := target, dc_branch_type := t\<rparr>\<rparr>"

primrec run_micro :: "vm_data \<Rightarrow> micro \<Rightarrow> core \<Rightarrow> core res" where
  "run_micro junk (M_Check n rs) k = rfold (check_slot n) rs k"
| "run_micro junk (M_Set n rs) k = rfold (set_slot n) rs k"
| "run_micro junk (M_Link d s) k = rbind (get_rs d k) (\<lambda>p. rbind (get_rs s k) (\<lambda>q. link_dep p q k))"
| "run_micro junk (M_Load n v len) k = note_access junk T_LOAD n v len k"
| "run_micro junk (M_Store n v len) k = note_access junk T_STORE n v len k"
| "run_micro junk (M_Branch target t) k = Inr (set_branch_result target t k)"

section \<open>The handlers\<close>

text \<open>Every instruction that the table does not know: nothing is recorded.\<close>

definition invalid :: handler_fun where
  "invalid i z = []"

definition X8664_DEC_ADD_EB_GB_REG :: handler_fun where
  "X8664_DEC_ADD_EB_GB_REG i z = (let reg_src = op_g i; reg_dst = op_e i
    in [M_Check 0 (slots8 (op_rex i) reg_src), M_Check 0 (slots8 (op_rex i) reg_dst), M_Set 0 (slots8 (op_rex i) reg_dst)] @ set_flags 0)"

definition X8664_DEC_ADD_EV_GV_REG :: handler_fun where
  "X8664_DEC_ADD_EV_GV_REG i z = (let reg_src = op_g i; reg_dst = op_e i
    in (case z of B16 \<Rightarrow> [M_Check 0 (slots16 reg_src), M_Check 0 (slots16 reg_dst), M_Set 0 (slots16 reg_dst)]
        | B32 \<Rightarrow> [M_Check 0 (slots64 reg_src), M_Check 0 (slots64 reg_dst), M_Set 0 (slots64 reg_dst)]
        | B64 \<Rightarrow> [M_Check 0 (slots64 reg_src), M_Check 0 (slots64 reg_dst), M_Set 0 (slots64 reg_dst)]) @ set_flags 0)"

definition X8664_DEC_ADD_GB_EB_REG :: handler_fun where
  "X8664_DEC_ADD_GB_EB_REG i z = (let reg_src = op_e i; reg_dst = op_g i
    in [M_Check 0 (slots8 (op_rex i) reg_src), M_Check 0 (slots8 (op_rex i) reg_dst), M_Set 0 (slots8 (op_rex i) reg_dst)] @ set_flags 0)"

definition X8664_DEC_ADD_GV_EV_REG :: handler_fun where
  "X8664_DEC_ADD_GV_EV_REG i z = (let reg_src = op_e i; reg_dst = op_g i
    in (case z of B16 \<Rightarrow> [M_Check 0 (slots16 reg_src), M_Check 0 (slots16 reg_dst), M_Set 0 (slots16 reg_dst)]
        | B32 \<Rightarrow> [M_Check 0 (slots64 reg_src), M_Check 0 (slots64 reg_dst), M_Set 0 (slots64 reg_dst)]
        | B64 \<Rightarrow> [M_Check 0 (slots64 reg_src), M_Check 0 (slots64 reg_dst), M_Set 0 (slots64 reg_dst)]) @ set_flags 0)"

definition X8664_DEC_ADD_AL_IB :: handler_fun where
  "X8664_DEC_ADD_AL_IB i z = [M_Check 0 (slots8 (op_rex i) 0), M_Set 0 (slots8 (op_rex i) 0)] @ set_flags 0"

definition X8664_DEC_ADD_RAX_IZ :: handler_fun where
  "X8664_DEC_ADD_RAX_IZ i z = (case z of B16 \<Rightarrow> [M_Check 0 (slots16 0), M_Set 0 (slots16 0)]
      | B32 \<Rightarrow> [M_Check 0 (slots64 0), M_Set 0 (slots64 0)]
      | B64 \<Rightarrow> [M_Check 0 (slots64 0), M_Set 0 (slots64 0)]) @ set_flags 0"

definition X8664_DEC_ADC_EB_GB_REG :: handler_fun where
  "X8664_DEC_ADC_EB_GB_REG i z = (let reg_src = op_g i; reg_dst = op_e i
    in [M_Check 0 (slots8 (op_rex i) reg_src), M_Check 0 (slots8 (op_rex i) reg_dst), M_Check 0 [flag FLAG_CF], M_Set 0 (slots8 (op_rex i) 0)] @ set_flags 0)"

definition X8664_DEC_ADC_EV_GV_REG :: handler_fun where
  "X8664_DEC_ADC_EV_GV_REG i z = (let reg_src = op_g i; reg_dst = op_e i
    in [M_Check 0 [flag FLAG_CF]] @ (case z of B16 \<Rightarrow> [M_Check 0 (slots16 reg_src), M_Check 0 (slots16 reg_dst), M_Set 0 (slots16 reg_dst)]
        | B32 \<Rightarrow> [M_Check 0 (slots64 reg_src), M_Check 0 (slots64 reg_dst), M_Set 0 (slots64 reg_dst)]
        | B64 \<Rightarrow> [M_Check 0 (slots64 reg_src), M_Check 0 (slots64 reg_dst), M_Set 0 (slots64 reg_dst)]) @ set_flags 0)"

definition X8664_DEC_ADC_GB_EB_REG :: handler_fun where
  "X8664_DEC_ADC_GB_EB_REG i z = (let reg_src = op_e i; reg_dst = op_g i
    in [M_Check 0 (slots8 (op_rex i) reg_src), M_Check 0 (slots8 (op_rex i) reg_dst), M_Check 0 [flag FLAG_CF], M_Set 0 (slots8 (op_rex i) reg_dst)] @ set_flags 0)"

definition X8664_DEC_ADC_GV_EV_REG :: handler_fun where
  "X8664_DEC_ADC_GV_EV_REG i z = (let reg_src = op_e i; reg_dst = op_g i
    in [M_Check 0 [flag FLAG_CF]] @ (case z of B16 \<Rightarrow> [M_Check 0 (slots16 reg_src), M_Check 0 (slots16 reg_dst), M_Set 0 (slots16 reg_dst)]
        | B32 \<Rightarrow> [M_Check 0 (slots64 reg_src), M_Check 0 (slots64 reg_dst), M_Set 0 (slots64 reg_dst)]
        | B64 \<Rightarrow> [M_Check 0 (slots64 reg_src), M_Check 0 (slots64 reg_dst), M_Set 0 (slots64 reg_dst)]) @ set_flags 0)"

definition X8664_DEC_ADC_AL_IB :: handler_fun where
  "X8664_DEC_ADC_AL_IB i z = [M_Check 0 (slots8 (op_rex i) 0), M_Check 0 [flag FLAG_CF], M_Set 0 (slots8 (op_rex i) 0)] @ set_flags 0"

definition X8664_DEC_ADC_RAX_IZ :: handler_fun where
  "X8664_DEC_ADC_RAX_IZ i z = [M_Check 0 [flag FLAG_CF]] @ (case z of B16 \<Rightarrow> [M_Check 0 (slots16 0), M_Set 0 (slots16 0)]
      | B32 \<Rightarrow> [M_Check 0 (slots64 0), M_Set 0 (slots64 0)]
      | B64 \<Rightarrow> [M_Check 0 (slots64 0), M_Set 0 (slots64 0)]) @ set_flags 0"

definition X8664_DEC_CMP_EB_GB_REG :: handler_fun where
  "X8664_DEC_CMP_EB_GB_REG i z = (let reg_src = op_g i; reg_dst = op_e i
    in [M_Check 0 (slots8 (op_rex i) reg_src), M_Check 0 (slots8 (op_rex i) reg_dst)] @ set_flags 0)"

definition X8664_DEC_CMP_EV_GV_REG :: handler_fun where
  "X8664_DEC_CMP_EV_GV_REG i z = (let reg_src = op_g i; reg_dst = op_e i
    in (case z of B16 \<Rightarrow> [M_Check 0 (slots16 reg_src), M_Check 0 (slots16 reg_dst)]
        | B32 \<Rightarrow> [M_Check 0 (slots64 reg_src), M_Check 0 (slots64 reg_dst)]
        | B64 \<Rightarrow> [M_Check 0 (slots64 reg_src), M_Check 0 (slots64 reg_dst)]) @ set_flags 0)"

definition X8664_DEC_CMP_GB_EB_REG :: handler_fun where
  "X8664_DEC_CMP_GB_EB_REG i z = (let reg_src = op_e i; reg_dst = op_g i
    in [M_Check 0 (slots8 (op_rex i) reg_src), M_Check 0 (slots8 (op_rex i) reg_dst)] @ set_flags 0)"

definition X8664_DEC_CMP_GV_EV_REG :: handler_fun where
  "X8664_DEC_CMP_GV_EV_REG i z = (let reg_src = op_e i; reg_dst = op_g i
    in (case z of B16 \<Rightarrow> [M_Check 0 (slots16 reg_src), M_Check 0 (slots16 reg_dst)]
        | B32 \<Rightarrow> [M_Check 0 (slots64 reg_src), M_Check 0 (slots64 reg_dst)]
        | B64 \<Rightarrow> [M_Check 0 (slots64 reg_src), M_Check 0 (slots64 reg_dst)]) @ set_flags 0)"

definition X8664_DEC_CMP_AL_IB :: handler_fun where
  "X8664_DEC_CMP_AL_IB i z = [M_Check 0 (slots8 (op_rex i) 0)] @ set_flags 0"

definition X8664_DEC_CMP_RAX_IZ :: handler_fun where
  "X8664_DEC_CMP_RAX_IZ i z = (case z of B16 \<Rightarrow> [M_Check 0 (slots16 0)]
      | B32 \<Rightarrow> [M_Check 0 (slots64 0)]
      | B64 \<Rightarrow> [M_Check 0 (slots64 0)]) @ set_flags 0"

definition X8664_DEC_PUSH_GPR :: handler_fun where
  "X8664_DEC_PUSH_GPR i z = (let reg_src = op_first i AND 7; vaddr = op_rsp i
    in [M_Link 1 0, M_Check 0 (slots64 4)] @ (case z of B16 \<Rightarrow> let vaddr = vaddr - 2 in [M_Check 1 (slots16 reg_src), M_Store 1 vaddr 2]
        | B32 \<Rightarrow> let vaddr = vaddr - 8 in [M_Check 1 (slots64 reg_src), M_Store 1 vaddr 8]
        | B64 \<Rightarrow> let vaddr = vaddr - 8 in [M_Check 1 (slots64 reg_src), M_Store 1 vaddr 8]) @ [M_Set 0 (slots64 4)])"

definition X8664_DEC_POP_GPR :: handler_fun where
  "X8664_DEC_POP_GPR i z = (let reg_dst = op_first i AND 7; vaddr = op_rsp i
    in [M_Link 1 0, M_Check 0 (slots64 4)] @ (case z of B16 \<Rightarrow> [M_Load 1 vaddr 2, M_Set 1 (slots16 reg_dst)]
        | B32 \<Rightarrow> [M_Load 1 vaddr 8, M_Set 1 (slots64 reg_dst)]
        | B64 \<Rightarrow> [M_Load 1 vaddr 8, M_Set 1 (slots64 reg_dst)]) @ [M_Set 0 (slots64 4)])"

definition X8664_JUMP_COND_SHORT :: handler_fun where
  "X8664_JUMP_COND_SHORT i z = [M_Check 0 (cond_slots (op_first i AND 0x0F))] @ [M_Branch (op_next i + scast (op_id i)) BRANCH_CONDITIONAL]"

definition X8664_GROUP_1_8BITS_REG :: handler_fun where
  "X8664_GROUP_1_8BITS_REG i z = (let reg_dst = op_e i
    in [M_Check 0 (slots8 (op_rex i) reg_dst), M_Set 0 (slots8 (op_rex i) reg_dst)] @ set_flags 0)"

definition X8664_GROUP_1_ZBITS_REG :: handler_fun where
  "X8664_GROUP_1_ZBITS_REG i z = (let reg_dst = op_e i
    in (case z of B16 \<Rightarrow> [M_Check 0 (slots16 reg_dst), M_Set 0 (slots16 reg_dst)]
        | B32 \<Rightarrow> [M_Check 0 (slots64 reg_dst), M_Set 0 (slots64 reg_dst)]
        | B64 \<Rightarrow> [M_Check 0 (slots64 reg_dst), M_Set 0 (slots64 reg_dst)]) @ set_flags 0)"

definition X8664_MOV_EB_GB_REG :: handler_fun where
  "X8664_MOV_EB_GB_REG i z = (let reg_src = op_g i; reg_dst = op_e i
    in [M_Check 0 (slots8 (op_rex i) reg_src), M_Set 0 (slots8 (op_rex i) reg_dst)])"

definition X8664_MOV_EV_GV_REG :: handler_fun where
  "X8664_MOV_EV_GV_REG i z = (let reg_src = op_g i; reg_dst = op_e i
    in (case z of B16 \<Rightarrow> [M_Check 0 (slots16 reg_src), M_Set 0 (slots16 reg_dst)]
        | B32 \<Rightarrow> [M_Check 0 (slots64 reg_src), M_Set 0 (slots64 reg_dst)]
        | B64 \<Rightarrow> [M_Check 0 (slots64 reg_src), M_Set 0 (slots64 reg_dst)]))"

definition X8664_MOV_GB_EB_REG :: handler_fun where
  "X8664_MOV_GB_EB_REG i z = (let reg_src = op_e i; reg_dst = op_g i
    in [M_Check 0 (slots8 (op_rex i) reg_src), M_Set 0 (slots8 (op_rex i) reg_dst)])"

definition X8664_MOV_GV_EV_REG :: handler_fun where
  "X8664_MOV_GV_EV_REG i z = (let reg_src = op_e i; reg_dst = op_g i
    in (case z of B16 \<Rightarrow> [M_Check 0 (slots16 reg_src), M_Set 0 (slots16 reg_dst)]
        | B32 \<Rightarrow> [M_Check 0 (slots64 reg_src), M_Set 0 (slots64 reg_dst)]
        | B64 \<Rightarrow> [M_Check 0 (slots64 reg_src), M_Set 0 (slots64 reg_dst)]))"

definition X8664_B0_TO_B7 :: handler_fun where
  "X8664_B0_TO_B7 i z = (let reg_dst = op_reg i
    in [M_Set 0 (slots8 (op_rex i) reg_dst)])"

definition X8664_B8_TO_BF :: handler_fun where
  "X8664_B8_TO_BF i z = (let reg_dst = op_reg i
    in (case z of B16 \<Rightarrow> [M_Set 0 (slots16 reg_dst)]
        | B32 \<Rightarrow> [M_Set 0 (slots64 reg_dst)]
        | B64 \<Rightarrow> [M_Set 0 (slots64 reg_dst)]))"

definition X8664_GROUP_2_CL_8BITS_REG :: handler_fun where
  "X8664_GROUP_2_CL_8BITS_REG i z = (let reg_dst = op_e i
    in [M_Check 0 (slots8 (op_rex i) reg_dst), M_Check 0 (slots8 (op_rex i) 1), M_Set 0 (slots8 (op_rex i) reg_dst)] @ set_flags 0)"

definition X8664_GROUP_2_CL_ZBITS_REG :: handler_fun where
  "X8664_GROUP_2_CL_ZBITS_REG i z = (let reg_dst = op_e i
    in [M_Check 0 (slots8 (op_rex i) 1)] @ (case z of B16 \<Rightarrow> [M_Check 0 (slots16 reg_dst), M_Set 0 (slots16 reg_dst)]
        | B32 \<Rightarrow> [M_Check 0 (slots64 reg_dst), M_Set 0 (slots64 reg_dst)]
        | B64 \<Rightarrow> [M_Check 0 (slots64 reg_dst), M_Set 0 (slots64 reg_dst)]) @ set_flags 0)"

definition X8664_CALL :: handler_fun where
  "X8664_CALL i z = [M_Branch (op_next i + scast (op_id i)) BRANCH_UNCONDITIONAL]"

definition X8664_JUMP_UNCOND :: handler_fun where
  "X8664_JUMP_UNCOND i z = [M_Branch (op_next i + scast (op_id i)) BRANCH_UNCONDITIONAL]"

definition X8664_JUMP_COND_LONG :: handler_fun where
  "X8664_JUMP_COND_LONG i z = [M_Check 0 (cond_slots (op_second i AND 0x0F))] @ [M_Branch (op_next i + scast (op_id i)) BRANCH_CONDITIONAL]"

definition X8664_DEC_ADD_EB_GB_MEM :: handler_fun where
  "X8664_DEC_ADD_EB_GB_MEM i z = (let reg_src = op_g i; vaddr = op_addr i
    in [M_Link 1 0, M_Link 3 0, M_Link 2 1, M_Link 3 2, M_Check 0 (mem_slots i), M_Check 2 (slots8 (op_rex i) reg_src), M_Load 1 vaddr 1, M_Store 3 vaddr 1] @ set_flags 2)"

definition X8664_DEC_ADD_EV_GV_MEM :: handler_fun where
  "X8664_DEC_ADD_EV_GV_MEM i z = (let reg_src = op_g i; vaddr = op_addr i
    in [M_Link 1 0, M_Link 3 0, M_Link 2 1, M_Link 3 2, M_Check 0 (mem_slots i)] @ (case z of B16 \<Rightarrow> [M_Check 2 (slots16 reg_src), M_Load 1 vaddr 2, M_Store 3 vaddr 2]
        | B32 \<Rightarrow> [M_Check 2 (slots64 reg_src), M_Load 1 vaddr 4, M_Store 3 vaddr 4]
        | B64 \<Rightarrow> [M_Check 2 (slots64 reg_src), M_Load 1 vaddr 8, M_Store 3 vaddr 8]) @ set_flags 2)"

definition X8664_DEC_ADD_GB_EB_MEM :: handler_fun where
  "X8664_DEC_ADD_GB_EB_MEM i z = (let reg_dst = op_g i; vaddr = op_addr i
    in [M_Link 1 0, M_Link 2 1, M_Check 0 (mem_slots i), M_Check 2 (slots8 (op_rex i) reg_dst), M_Set 2 (slots8 (op_rex i) reg_dst), M_Load 1 vaddr 1] @ set_flags 2)"

definition X8664_DEC_ADD_GV_EV_MEM :: handler_fun where
  "X8664_DEC_ADD_GV_EV_MEM i z = (let reg_dst = op_g i; vaddr = op_addr i
    in [M_Link 1 0, M_Link 2 1, M_Check 0 (mem_slots i)] @ (case z of B16 \<Rightarrow> [M_Check 2 (slots16 reg_dst), M_Set 2 (slots16 reg_dst), M_Load 1 vaddr 2]
        | B32 \<Rightarrow> [M_Check 2 (slots64 reg_dst), M_Set 2 (slots64 reg_dst), M_Load 1 vaddr 4]
        | B64 \<Rightarrow> [M_Check 2 (slots64 reg_dst), M_Set 2 (slots64 reg_dst), M_Load 1 vaddr 8]) @ set_flags 2)"

definition X8664_DEC_ADC_EB_GB_MEM :: handler_fun where
  "X8664_DEC_ADC_EB_GB_MEM i z = (let reg_src = op_g i; vaddr = op_addr i
    in [M_Link 1 0, M_Link 3 0, M_Link 2 1, M_Link 3 2, M_Check 0 (mem_slots i), M_Check 2 (slots8 (op_rex i) reg_src), M_Check 2 [flag FLAG_CF], M_Load 1 vaddr 1, M_Store 3 vaddr 1] @ set_flags 2)"

definition X8664_DEC_ADC_EV_GV_MEM :: handler_fun where
  "X8664_DEC_ADC_EV_GV_MEM i z = (let reg_src = op_g i; vaddr = op_addr i
    in [M_Link 1 0, M_Link 3 0, M_Link 2 1, M_Link 3 2, M_Check 0 (mem_slots i), M_Check 2 [flag FLAG_CF]] @ (case z of B16 \<Rightarrow> [M_Check 2 (slots16 reg_src), M_Load 1 vaddr 2, M_Store 3 vaddr 2]
        | B32 \<Rightarrow> [M_Check 2 (slots64 reg_src), M_Load 1 vaddr 4, M_Store 3 vaddr 4]
        | B64 \<Rightarrow> [M_Check 2 (slots64 reg_src), M_Load 1 vaddr 8, M_Store 3 vaddr 8]) @ set_flags 2)"

definition X8664_DEC_ADC_GB_EB_MEM :: handler_fun where
  "X8664_DEC_ADC_GB_EB_MEM i z = (let reg_dst = op_g i; vaddr = op_addr i
    in [M_Link 1 0, M_Link 2 1, M_Check 0 (mem_slots i), M_Check 2 [flag FLAG_CF], M_Check 2 (slots8 (op_rex i) reg_dst), M_Set 2 (slots8 (op_rex i) reg_dst), M_Load 1 vaddr 1] @ set_flags 2)"

definition X8664_DEC_ADC_GV_EV_MEM :: handler_fun where
  "X8664_DEC_ADC_GV_EV_MEM i z = (let reg_dst = op_g i; vaddr = op_addr i
    in [M_Link 1 0, M_Link 2 1, M_Check 0 (mem_slots i), M_Check 2 [flag FLAG_CF]] @ (case z of B16 \<Rightarrow> [M_Check 2 (slots16 reg_dst), M_Set 2 (slots16 reg_dst), M_Load 1 vaddr 2]
        | B32 \<Rightarrow> [M_Check 2 (slots64 reg_dst), M_Set 2 (slots64 reg_dst), M_Load 1 vaddr 4]
        | B64 \<Rightarrow> [M_Check 2 (slots64 reg_dst), M_Set 2 (slots64 reg_dst), M_Load 1 vaddr 8]) @ set_flags 2)"

definition X8664_DEC_CMP_EB_GB_MEM :: handler_fun where
  "X8664_DEC_CMP_EB_GB_MEM i z = (let reg_src = op_g i; vaddr = op_addr i
    in [M_Link 1 0, M_Link 2 1, M_Check 0 (mem_slots i), M_Check 2 (slots8 (op_rex i) reg_src), M_Load 1 vaddr 1] @ set_flags 2)"

definition X8664_DEC_CMP_EV_GV_MEM :: handler_fun where
  "X8664_DEC_CMP_EV_GV_MEM i z = (let reg_src = op_g i; vaddr = op_addr i
    in [M_Link 1 0, M_Link 2 1, M_Check 0 (mem_slots i)] @ (case z of B16 \<Rightarrow> [M_Check 2 (slots16 reg_src), M_Load 1 vaddr 2]
        | B32 \<Rightarrow> [M_Check 2 (slots64 reg_src), M_Load 1 vaddr 4]
        | B64 \<Rightarrow> [M_Check 2 (slots64 reg_src), M_Load 1 vaddr 8]) @ set_flags 2)"

definition X8664_DEC_CMP_GB_EB_MEM :: handler_fun where
  "X8664_DEC_CMP_GB_EB_MEM i z = (let reg_dst = op_g i; vaddr = op_addr i
    in [M_Link 1 0, M_Link 2 1, M_Check 0 (mem_slots i), M_Check 2 (slots8 (op_rex i) reg_dst), M_Load 1 vaddr 1] @ set_flags 2)"

definition X8664_DEC_CMP_GV_EV_MEM :: handler_fun where
  "X8664_DEC_CMP_GV_EV_MEM i z = (let reg_dst = op_g i; vaddr = op_addr i
    in [M_Link 1 0, M_Link 2 1, M_Check 0 (mem_slots i)] @ (case z of B16 \<Rightarrow> [M_Check 2 (slots16 reg_dst), M_Load 1 vaddr 2]
        | B32 \<Rightarrow> [M_Check 2 (slots64 reg_dst), M_Load 1 vaddr 4]
        | B64 \<Rightarrow> [M_Check 2 (slots64 reg_dst), M_Load 1 vaddr 8]) @ set_flags 2)"

definition X8664_GROUP_1_8BITS_MEM :: handler_fun where
  "X8664_GROUP_1_8BITS_MEM i z = (let vaddr = op_addr i
    in [M_Link 1 0, M_Link 3 0, M_Link 2 1, M_Link 3 2, M_Check 0 (mem_slots i), M_Load 1 vaddr 1, M_Store 3 vaddr 1] @ set_flags 2)"

definition X8664_GROUP_1_ZBITS_MEM :: handler_fun where
  "X8664_GROUP_1_ZBITS_MEM i z = (let vaddr = op_addr i
    in [M_Link 1 0, M_Link 3 0, M_Link 2 1, M_Link 3 2, M_Check 0 (mem_slots i)] @ (case z of B16 \<Rightarrow> [M_Load 1 vaddr 2, M_Store 3 vaddr 2]
        | B32 \<Rightarrow> [M_Load 1 vaddr 4, M_Store 3 vaddr 4]
        | B64 \<Rightarrow> [M_Load 1 vaddr 8, M_Store 3 vaddr 8]) @ set_flags 2)"

definition X8664_MOV_EB_GB_MEM :: handler_fun where
  "X8664_MOV_EB_GB_MEM i z = (let reg_src = op_g i; vaddr = op_addr i
    in [M_Link 1 0, M_Check 0 (mem_slots i), M_Check 1 (slots8 (op_rex i) reg_src), M_Store 1 vaddr 1])"

definition X8664_MOV_EV_GV_MEM :: handler_fun where
  "X8664_MOV_EV_GV_MEM i z = (let reg_src = op_g i; vaddr = op_addr i
    in [M_Link 1 0, M_Check 0 (mem_slots i)] @ (case z of B16 \<Rightarrow> [M_Check 1 (slots16 reg_src), M_Store 1 vaddr 2]
        | B32 \<Rightarrow> [M_Check 1 (slots64 reg_src), M_Store 1 vaddr 4]
        | B64 \<Rightarrow> [M_Check 1 (slots64 reg_src), M_Store 1 vaddr 8]))"

definition X8664_MOV_GB_EB_MEM :: handler_fun where
  "X8664_MOV_GB_EB_MEM i z = (let reg_dst = op_g i; vaddr = op_addr i
    in [M_Link 1 0, M_Check 0 (mem_slots i), M_Set 1 (slots8 (op_rex i) reg_dst), M_Load 1 vaddr 1])"

definition X8664_MOV_GV_EV_MEM :: handler_fun where
  "X8664_MOV_GV_EV_MEM i z = (let reg_dst = op_g i; vaddr = op_addr i
    in [M_Link 1 0, M_Check 0 (mem_slots i)] @ (case z of B16 \<Rightarrow> [M_Set 1 (slots16 reg_dst), M_Load 1 vaddr 2]
        | B32 \<Rightarrow> [M_Set 1 (slots64 reg_dst), M_Load 1 vaddr 4]
        | B64 \<Rightarrow> [M_Set 1 (slots64 reg_dst), M_Load 1 vaddr 8]))"

definition X8664_GROUP_2_CL_8BITS_MEM :: handler_fun where
  "X8664_GROUP_2_CL_8BITS_MEM i z = (let vaddr = op_addr i
    in [M_Link 1 0, M_Link 3 0, M_Link 2 1, M_Link 3 2, M_Check 0 (mem_slots i), M_Check 2 (slots8 (op_rex i) 1), M_Load 1 vaddr 1, M_Store 3 vaddr 1] @ set_flags 2)"

definition X8664_GROUP_2_CL_ZBITS_MEM :: handler_fun where
  "X8664_GROUP_2_CL_ZBITS_MEM i z = (let vaddr = op_addr i
    in [M_Link 1 0, M_Link 3 0, M_Link 2 1, M_Link 3 2, M_Check 2 (slots8 (op_rex i) 1), M_Check 0 (mem_slots i)] @ (case z of B16 \<Rightarrow> [M_Load 1 vaddr 2, M_Store 3 vaddr 2]
        | B32 \<Rightarrow> [M_Load 1 vaddr 4, M_Store 3 vaddr 4]
        | B64 \<Rightarrow> [M_Load 1 vaddr 8, M_Store 3 vaddr 8]) @ set_flags 2)"

section \<open>The table\<close>

text \<open>512 entries for register operands and 512 for memory operands, in the order of \<open>dep.h\<close>.\<close>

definition dep_reg_0 :: "dep_entry list" where
  "dep_reg_0 =
    [(X8664_DEC_ADD_EB_GB_REG, [T_INT_ARITH]), (X8664_DEC_ADD_EV_GV_REG, [T_INT_ARITH]), (X8664_DEC_ADD_GB_EB_REG, [T_INT_ARITH]),
      (X8664_DEC_ADD_GV_EV_REG, [T_INT_ARITH]), (X8664_DEC_ADD_AL_IB, [T_INT_ARITH]), (X8664_DEC_ADD_RAX_IZ, [T_INT_ARITH]),
      (invalid, [T_NONE]), (invalid, [T_NONE]), (X8664_DEC_ADD_EB_GB_REG, [T_INT_LOGIC]), (X8664_DEC_ADD_EV_GV_REG, [T_INT_LOGIC]),
      (X8664_DEC_ADD_GB_EB_REG, [T_INT_LOGIC]), (X8664_DEC_ADD_GV_EV_REG, [T_INT_LOGIC]), (X8664_DEC_ADD_AL_IB, [T_INT_LOGIC]),
      (X8664_DEC_ADD_RAX_IZ, [T_INT_LOGIC]), (invalid, [T_NONE]), (invalid, [T_NONE]), (X8664_DEC_ADC_EB_GB_REG, [T_INT_ARITH]),
      (X8664_DEC_ADC_EV_GV_REG, [T_INT_ARITH]), (X8664_DEC_ADC_GB_EB_REG, [T_INT_ARITH]), (X8664_DEC_ADC_GV_EV_REG, [T_INT_ARITH]),
      (X8664_DEC_ADC_AL_IB, [T_INT_ARITH]), (X8664_DEC_ADC_RAX_IZ, [T_INT_ARITH]), (invalid, [T_NONE]),
      (invalid, [T_NONE]), (X8664_DEC_ADC_EB_GB_REG, [T_INT_ARITH]), (X8664_DEC_ADC_EV_GV_REG, [T_INT_ARITH]),
      (X8664_DEC_ADC_GB_EB_REG, [T_INT_ARITH]), (X8664_DEC_ADC_GV_EV_REG, [T_INT_ARITH]), (X8664_DEC_ADC_AL_IB, [T_INT_ARITH]),
      (X8664_DEC_ADC_RAX_IZ, [T_INT_ARITH]), (invalid, [T_NONE]), (invalid, [T_NONE]), (X8664_DEC_ADD_EB_GB_REG, [T_INT_LOGIC]),
      (X8664_DEC_ADD_EV_GV_REG, [T_INT_LOGIC]), (X8664_DEC_ADD_GB_EB_REG, [T_INT_LOGIC]), (X8664_DEC_ADD_GV_EV_REG, [T_INT_LOGIC]),
      (X8664_DEC_ADD_AL_IB, [T_INT_LOGIC]), (X8664_DEC_ADD_RAX_IZ, [T_INT_LOGIC]), (invalid, [T_NONE]),
      (invalid, [T_NONE]), (X8664_DEC_ADD_EB_GB_REG, [T_INT_ARITH]), (X8664_DEC_ADD_EV_GV_REG, [T_INT_ARITH]),
      (X8664_DEC_ADD_GB_EB_REG, [T_INT_ARITH]), (X8664_DEC_ADD_GV_EV_REG, [T_INT_ARITH]), (X8664_DEC_ADD_AL_IB, [T_INT_ARITH]),
      (X8664_DEC_ADD_RAX_IZ, [T_INT_ARITH]), (invalid, [T_NONE]), (invalid, [T_NONE]), (X8664_DEC_ADD_EB_GB_REG, [T_INT_LOGIC]),
      (X8664_DEC_ADD_EV_GV_REG, [T_INT_LOGIC]), (X8664_DEC_ADD_GB_EB_REG, [T_INT_LOGIC]), (X8664_DEC_ADD_GV_EV_REG, [T_INT_LOGIC]),
      (X8664_DEC_ADD_AL_IB, [T_INT_LOGIC]), (X8664_DEC_ADD_RAX_IZ, [T_INT_LOGIC]), (invalid, [T_NONE]),
      (invalid, [T_NONE]), (X8664_DEC_CMP_EB_GB_REG, [T_INT_ARITH]), (X8664_DEC_CMP_EV_GV_REG, [T_INT_ARITH]),
      (X8664_DEC_CMP_GB_EB_REG, [T_INT_ARITH]), (X8664_DEC_CMP_GV_EV_REG, [T_INT_ARITH]), (X8664_DEC_CMP_AL_IB, [T_INT_ARITH]),
      (X8664_DEC_CMP_RAX_IZ, [T_INT_ARITH])]
    @ replicate 18 (invalid, [T_NONE])
    @ replicate 8 (X8664_DEC_PUSH_GPR, [T_INT_ARITH, T_STORE])
    @ replicate 8 (X8664_DEC_POP_GPR, [T_INT_ARITH, T_LOAD])
    @ replicate 3 (invalid, [T_NONE])
    @ [(invalid, [T_MOV])]
    @ replicate 4 (invalid, [T_NONE])
    @ [(invalid, [T_INT_ARITH, T_STORE]), (invalid, [T_INT_MUL]), (invalid, [T_INT_ARITH, T_STORE]),
      (invalid, [T_INT_MUL])]
    @ replicate 4 (invalid, [T_NONE])
    @ replicate 16 (X8664_JUMP_COND_SHORT, [T_BRANCH])"

definition dep_reg_1 :: "dep_entry list" where
  "dep_reg_1 =
    [(X8664_GROUP_1_8BITS_REG, [T_INT_ARITH]), (X8664_GROUP_1_ZBITS_REG, [T_INT_ARITH]), (invalid, [T_NONE]),
      (X8664_GROUP_1_ZBITS_REG, [T_INT_ARITH]), (X8664_DEC_ADD_EB_GB_REG, [T_INT_LOGIC]), (X8664_DEC_ADD_EV_GV_REG, [T_INT_LOGIC]),
      (invalid, [T_NONE]), (invalid, [T_NONE]), (X8664_MOV_EB_GB_REG, [T_MOV]), (X8664_MOV_EV_GV_REG, [T_MOV]),
      (X8664_MOV_GB_EB_REG, [T_MOV]), (X8664_MOV_GV_EV_REG, [T_MOV])]
    @ replicate 36 (invalid, [T_NONE])
    @ replicate 8 (X8664_B0_TO_B7, [T_MOV])
    @ replicate 8 (X8664_B8_TO_BF, [T_MOV])
    @ [(X8664_GROUP_1_8BITS_REG, [T_INT_LOGIC]), (X8664_GROUP_1_ZBITS_REG, [T_INT_LOGIC]), (invalid, [T_BRANCH]),
      (invalid, [T_BRANCH])]
    @ replicate 12 (invalid, [T_NONE])
    @ [(X8664_GROUP_1_8BITS_REG, [T_INT_LOGIC]), (X8664_GROUP_1_ZBITS_REG, [T_INT_LOGIC]), (X8664_GROUP_2_CL_8BITS_REG, [T_INT_LOGIC]),
      (X8664_GROUP_2_CL_ZBITS_REG, [T_INT_LOGIC])]
    @ replicate 20 (invalid, [T_NONE])
    @ [(X8664_CALL, [T_BRANCH]), (X8664_JUMP_UNCOND, [T_BRANCH]), (invalid, [T_NONE]), (X8664_JUMP_UNCOND, [T_BRANCH])]
    @ replicate 20 (invalid, [T_NONE])"

definition dep_reg_2 :: "dep_entry list" where
  "dep_reg_2 =
    replicate 128 (invalid, [T_NONE])"

definition dep_reg_3 :: "dep_entry list" where
  "dep_reg_3 =
    replicate 16 (X8664_JUMP_COND_LONG, [T_BRANCH])
    @ replicate 112 (invalid, [T_NONE])"

definition dep_mem_0 :: "dep_entry list" where
  "dep_mem_0 =
    [(X8664_DEC_ADD_EB_GB_MEM, [T_INT_ARITH, T_LOAD, T_INT_ARITH, T_STORE]), (X8664_DEC_ADD_EV_GV_MEM, [T_INT_ARITH, T_LOAD, T_INT_ARITH, T_STORE]),
      (X8664_DEC_ADD_GB_EB_MEM, [T_INT_ARITH, T_LOAD, T_INT_ARITH]), (X8664_DEC_ADD_GV_EV_MEM, [T_INT_ARITH, T_LOAD, T_INT_ARITH]),
      (X8664_DEC_ADD_AL_IB, [T_INT_ARITH]), (X8664_DEC_ADD_RAX_IZ, [T_INT_ARITH]), (invalid, [T_NONE]),
      (invalid, [T_NONE]), (X8664_DEC_ADD_EB_GB_MEM, [T_INT_ARITH, T_LOAD, T_INT_LOGIC, T_STORE]),
      (X8664_DEC_ADD_EV_GV_MEM, [T_INT_ARITH, T_LOAD, T_INT_LOGIC, T_STORE]), (X8664_DEC_ADD_GB_EB_MEM, [T_INT_ARITH, T_LOAD, T_INT_LOGIC]),
      (X8664_DEC_ADD_GV_EV_MEM, [T_INT_ARITH, T_LOAD, T_INT_LOGIC]), (X8664_DEC_ADD_AL_IB, [T_INT_LOGIC]),
      (X8664_DEC_ADD_RAX_IZ, [T_INT_LOGIC]), (invalid, [T_NONE]), (invalid, [T_NONE]), (X8664_DEC_ADC_EB_GB_MEM, [T_INT_ARITH, T_LOAD, T_INT_ARITH, T_STORE]),
      (X8664_DEC_ADC_EV_GV_MEM, [T_INT_ARITH, T_LOAD, T_INT_ARITH, T_STORE]), (X8664_DEC_ADC_GB_EB_MEM, [T_INT_ARITH, T_LOAD, T_INT_ARITH]),
      (X8664_DEC_ADC_GV_EV_MEM, [T_INT_ARITH, T_LOAD, T_INT_ARITH]), (X8664_DEC_ADC_AL_IB, [T_INT_ARITH]),
      (X8664_DEC_ADC_RAX_IZ, [T_INT_ARITH]), (invalid, [T_NONE]), (invalid, [T_NONE]), (X8664_DEC_ADC_EB_GB_MEM, [T_INT_ARITH, T_LOAD, T_INT_ARITH, T_STORE]),
      (X8664_DEC_ADC_EV_GV_MEM, [T_INT_ARITH, T_LOAD, T_INT_ARITH, T_STORE]), (X8664_DEC_ADC_GB_EB_MEM, [T_INT_ARITH, T_LOAD, T_INT_ARITH]),
      (X8664_DEC_ADC_GV_EV_MEM, [T_INT_ARITH, T_LOAD, T_INT_ARITH]), (X8664_DEC_ADC_AL_IB, [T_INT_ARITH]),
      (X8664_DEC_ADC_RAX_IZ, [T_INT_ARITH]), (invalid, [T_NONE]), (invalid, [T_NONE]), (X8664_DEC_ADD_EB_GB_MEM, [T_INT_ARITH, T_LOAD, T_INT_LOGIC, T_STORE]),
      (X8664_DEC_ADD_EV_GV_MEM, [T_INT_ARITH, T_LOAD, T_INT_LOGIC, T_STORE]), (X8664_DEC_ADD_GB_EB_MEM, [T_INT_ARITH, T_LOAD, T_INT_LOGIC]),
      (X8664_DEC_ADD_GV_EV_MEM, [T_INT_ARITH, T_LOAD, T_INT_LOGIC]), (X8664_DEC_ADD_AL_IB, [T_INT_LOGIC]),
      (X8664_DEC_ADD_RAX_IZ, [T_INT_LOGIC]), (invalid, [T_NONE]), (invalid, [T_NONE]), (X8664_DEC_ADD_EB_GB_MEM, [T_INT_ARITH, T_LOAD, T_INT_ARITH, T_STORE]),
      (X8664_DEC_ADD_EV_GV_MEM, [T_INT_ARITH, T_LOAD, T_INT_ARITH, T_STORE]), (X8664_DEC_ADD_GB_EB_MEM, [T_INT_ARITH, T_LOAD, T_INT_ARITH]),
      (X8664_DEC_ADD_GV_EV_MEM, [T_INT_ARITH, T_LOAD, T_INT_ARITH]), (X8664_DEC_ADD_AL_IB, [T_INT_ARITH]),
      (X8664_DEC_ADD_RAX_IZ, [T_INT_ARITH]), (invalid, [T_NONE]), (invalid, [T_NONE]), (X8664_DEC_ADD_EB_GB_MEM, [T_INT_ARITH, T_LOAD, T_INT_LOGIC, T_STORE]),
      (X8664_DEC_ADD_EV_GV_MEM, [T_INT_ARITH, T_LOAD, T_INT_LOGIC, T_STORE]), (X8664_DEC_ADD_GB_EB_MEM, [T_INT_ARITH, T_LOAD, T_INT_LOGIC]),
      (X8664_DEC_ADD_GV_EV_MEM, [T_INT_ARITH, T_LOAD, T_INT_LOGIC]), (X8664_DEC_ADD_AL_IB, [T_INT_LOGIC]),
      (X8664_DEC_ADD_RAX_IZ, [T_INT_LOGIC]), (invalid, [T_NONE]), (invalid, [T_NONE]), (X8664_DEC_CMP_EB_GB_MEM, [T_INT_ARITH, T_LOAD, T_INT_ARITH]),
      (X8664_DEC_CMP_EV_GV_MEM, [T_INT_ARITH, T_LOAD, T_INT_ARITH]), (X8664_DEC_CMP_GB_EB_MEM, [T_INT_ARITH, T_LOAD, T_INT_ARITH]),
      (X8664_DEC_CMP_GV_EV_MEM, [T_INT_ARITH, T_LOAD, T_INT_ARITH]), (X8664_DEC_CMP_AL_IB, [T_INT_ARITH]),
      (X8664_DEC_CMP_RAX_IZ, [T_INT_ARITH])]
    @ replicate 18 (invalid, [T_NONE])
    @ replicate 8 (X8664_DEC_PUSH_GPR, [T_INT_ARITH, T_STORE])
    @ replicate 8 (X8664_DEC_POP_GPR, [T_INT_ARITH, T_LOAD])
    @ replicate 3 (invalid, [T_NONE])
    @ [(invalid, [T_MOV])]
    @ replicate 4 (invalid, [T_NONE])
    @ [(invalid, [T_INT_ARITH, T_STORE]), (invalid, [T_INT_MUL]), (invalid, [T_INT_ARITH, T_STORE]),
      (invalid, [T_INT_MUL])]
    @ replicate 4 (invalid, [T_NONE])
    @ replicate 16 (X8664_JUMP_COND_SHORT, [T_BRANCH])"

definition dep_mem_1 :: "dep_entry list" where
  "dep_mem_1 =
    [(X8664_GROUP_1_8BITS_MEM, [T_INT_ARITH, T_LOAD, T_INT_ARITH, T_STORE]), (X8664_GROUP_1_ZBITS_MEM, [T_INT_ARITH, T_LOAD, T_INT_ARITH, T_STORE]),
      (invalid, [T_NONE]), (X8664_GROUP_1_ZBITS_MEM, [T_INT_ARITH, T_LOAD, T_INT_ARITH, T_STORE]),
      (X8664_DEC_ADD_EB_GB_MEM, [T_INT_ARITH, T_LOAD, T_INT_LOGIC, T_STORE]), (X8664_DEC_ADD_EV_GV_MEM, [T_INT_ARITH, T_LOAD, T_INT_LOGIC, T_STORE]),
      (invalid, [T_NONE]), (invalid, [T_NONE]), (X8664_MOV_EB_GB_MEM, [T_INT_ARITH, T_STORE]), (X8664_MOV_EV_GV_MEM, [T_INT_ARITH, T_STORE]),
      (X8664_MOV_GB_EB_MEM, [T_INT_ARITH, T_LOAD]), (X8664_MOV_GV_EV_MEM, [T_INT_ARITH, T_LOAD])]
    @ replicate 36 (invalid, [T_NONE])
    @ replicate 8 (X8664_B0_TO_B7, [T_MOV])
    @ replicate 8 (X8664_B8_TO_BF, [T_MOV])
    @ [(X8664_GROUP_1_8BITS_MEM, [T_INT_ARITH, T_LOAD, T_INT_LOGIC, T_STORE]), (X8664_GROUP_1_ZBITS_MEM, [T_INT_ARITH, T_LOAD, T_INT_LOGIC, T_STORE]),
      (invalid, [T_BRANCH]), (invalid, [T_BRANCH])]
    @ replicate 12 (invalid, [T_NONE])
    @ [(X8664_GROUP_1_8BITS_MEM, [T_INT_ARITH, T_LOAD, T_INT_LOGIC, T_STORE]), (X8664_GROUP_1_ZBITS_MEM, [T_INT_ARITH, T_LOAD, T_INT_LOGIC, T_STORE]),
      (X8664_GROUP_2_CL_8BITS_MEM, [T_INT_ARITH, T_LOAD, T_INT_LOGIC, T_STORE]), (X8664_GROUP_2_CL_ZBITS_MEM, [T_INT_ARITH, T_LOAD, T_INT_LOGIC, T_STORE])]
    @ replicate 20 (invalid, [T_NONE])
    @ [(X8664_CALL, [T_BRANCH]), (X8664_JUMP_UNCOND, [T_BRANCH]), (invalid, [T_NONE]), (X8664_JUMP_UNCOND, [T_BRANCH])]
    @ replicate 20 (invalid, [T_NONE])"

definition dep_mem_2 :: "dep_entry list" where
  "dep_mem_2 =
    replicate 128 (invalid, [T_NONE])"

definition dep_mem_3 :: "dep_entry list" where
  "dep_mem_3 =
    replicate 16 (X8664_JUMP_COND_LONG, [T_BRANCH])
    @ replicate 112 (invalid, [T_NONE])"

definition dep_table :: "dep_entry list" where
  "dep_table = dep_reg_0 @ dep_reg_1 @ dep_reg_2 @ dep_reg_3 @ dep_mem_0 @ dep_mem_1 @ dep_mem_2 @ dep_mem_3"

lemmas dep_tables = dep_reg_0_def dep_reg_1_def dep_reg_2_def dep_reg_3_def dep_mem_0_def dep_mem_1_def dep_mem_2_def dep_mem_3_def

section \<open>What the table guarantees\<close>

definition operands_ok :: "operands \<Rightarrow> bool" where
  "operands_ok i \<longleftrightarrow> op_g i < 16 \<and> op_e i < 16 \<and> op_reg i < 16
     \<and> (case op_base i of None \<Rightarrow> True | Some b \<Rightarrow> b < 16) \<and> (case op_index i of None \<Rightarrow> True | Some x \<Rightarrow> x < 16)"

text \<open>The micro-operations that an action names, the parts of registers it names, and the types it needs.\<close>

primrec micro_uops :: "micro \<Rightarrow> nat list" where
  "micro_uops (M_Check n rs) = [n]"
| "micro_uops (M_Set n rs) = [n]"
| "micro_uops (M_Link d s) = [d, s]"
| "micro_uops (M_Load n v len) = [n]"
| "micro_uops (M_Store n v len) = [n]"
| "micro_uops (M_Branch t k) = []"

primrec micro_slots :: "micro \<Rightarrow> reg_slot list" where
  "micro_slots (M_Check n rs) = rs"
| "micro_slots (M_Set n rs) = rs"
| "micro_slots (M_Link d s) = []"
| "micro_slots (M_Load n v len) = []"
| "micro_slots (M_Store n v len) = []"
| "micro_slots (M_Branch t k) = []"

primrec micro_typed :: "nat list \<Rightarrow> micro \<Rightarrow> bool" where
  "micro_typed ts (M_Check n rs) = True"
| "micro_typed ts (M_Set n rs) = True"
| "micro_typed ts (M_Link d s) = (s < d)"
| "micro_typed ts (M_Load n v len) = (ts ! n = T_LOAD)"
| "micro_typed ts (M_Store n v len) = (ts ! n = T_STORE)"
| "micro_typed ts (M_Branch t k) = True"

text \<open>
  No micro-operation reads a part of a register after a micro-operation of the same instruction that is not
  older has been recorded as a producer: \<open>m\<close> is one more than the largest number recorded so far.
\<close>

primrec ordered :: "nat \<Rightarrow> micro list \<Rightarrow> bool" where
  "ordered m [] = True"
| "ordered m (a # ms) = (case a of
     M_Check n rs \<Rightarrow> m \<le> n \<and> ordered m ms
   | M_Set n rs \<Rightarrow> ordered (max m (Suc n)) ms
   | _ \<Rightarrow> ordered m ms)"

primrec in_count :: "nat \<Rightarrow> micro list \<Rightarrow> nat" where
  "in_count n [] = 0"
| "in_count n (a # ms) = (case a of M_Check d rs \<Rightarrow> if d = n then length rs else 0
     | M_Link d s \<Rightarrow> if d = n then 1 else 0 | _ \<Rightarrow> 0) + in_count n ms"

primrec out_count :: "nat \<Rightarrow> micro list \<Rightarrow> nat" where
  "out_count n [] = 0"
| "out_count n (a # ms) = (case a of M_Set d rs \<Rightarrow> if d = n then length rs else 0 | _ \<Rightarrow> 0) + out_count n ms"

definition micro_ok :: "nat list \<Rightarrow> micro list \<Rightarrow> bool" where
  "micro_ok ts ms \<longleftrightarrow>
     list_all (\<lambda>a. list_all (\<lambda>n. n < length ts \<and> ts ! n \<noteq> T_NONE) (micro_uops a) \<and> list_all slot_exists (micro_slots a) \<and> micro_typed ts a) ms
     \<and> ordered 0 ms
     \<and> list_all (\<lambda>n. in_count n ms \<le> MAX_DEP_IN \<and> out_count n ms \<le> MAX_DEP_OUT) [0..<length ts]"

definition entry_ok :: "operands \<Rightarrow> osize \<Rightarrow> dep_entry \<Rightarrow> bool" where
  "entry_ok i z e = (case e of (h, ts) \<Rightarrow> ts \<noteq> [] \<and> length ts \<le> MAX_ALLOCATED
     \<and> list_all (\<lambda>t. t < 32) ts \<and> micro_ok ts (h i z))"

lemma counts_append [simp]:
  "in_count n (xs @ ys) = in_count n xs + in_count n ys" "out_count n (xs @ ys) = out_count n xs + out_count n ys"
  by (induction xs) (simp_all split: micro.split)

lemma slots8_length [simp]: "length (slots8 x c) = 1"
  by (simp add: slots8_def)

lemma mem_slots_length: "length (mem_slots i) \<le> 6"
  by (simp add: mem_slots_def slots64_def split: option.split)

lemma cond_slots_length: "length (cond_slots c) \<le> 3"
  by (simp add: cond_slots_def)

lemma code_small: "(c :: u8) < 16 \<Longrightarrow> unat c < 16"
  by (simp add: word_less_nat_alt)

lemma masked_small [simp]: "unat ((c :: u8) AND 3) < 16" "unat ((c :: u8) AND 7) < 16"
proof -
  have "c AND 3 \<le> 3" "c AND 7 \<le> 7" by (rule word_and_le1)+
  then have "unat (c AND 3) \<le> 3" "unat (c AND 7) \<le> 7" by (simp_all add: word_le_nat_alt)
  then show "unat (c AND 3) < 16" "unat (c AND 7) < 16" by simp_all
qed

lemma slots_exist:
  "c < 16 \<Longrightarrow> list_all slot_exists (slots64 c)" "c < 16 \<Longrightarrow> list_all slot_exists (slots16 c)"
  "c < 16 \<Longrightarrow> list_all slot_exists (slots8 x c)" "operands_ok i \<Longrightarrow> list_all slot_exists (mem_slots i)"
  "list_all slot_exists (cond_slots c)" "list_all slot_exists (slots64 (c AND 7))" "list_all slot_exists (slots16 (c AND 7))"
  by (auto simp: slots64_def slots16_def slots8_def mem_slots_def cond_slots_def slot_exists_def gpr_def flag_def vectors
      flag_numbers operands_ok_def code_small split: option.splits)

lemmas handlers = X8664_DEC_ADD_EB_GB_REG_def X8664_DEC_ADD_EV_GV_REG_def X8664_DEC_ADD_GB_EB_REG_def X8664_DEC_ADD_GV_EV_REG_def
  X8664_DEC_ADD_AL_IB_def X8664_DEC_ADD_RAX_IZ_def invalid_def X8664_DEC_ADC_EB_GB_REG_def
  X8664_DEC_ADC_EV_GV_REG_def X8664_DEC_ADC_GB_EB_REG_def X8664_DEC_ADC_GV_EV_REG_def X8664_DEC_ADC_AL_IB_def
  X8664_DEC_ADC_RAX_IZ_def X8664_DEC_CMP_EB_GB_REG_def X8664_DEC_CMP_EV_GV_REG_def X8664_DEC_CMP_GB_EB_REG_def
  X8664_DEC_CMP_GV_EV_REG_def X8664_DEC_CMP_AL_IB_def X8664_DEC_CMP_RAX_IZ_def X8664_DEC_PUSH_GPR_def
  X8664_DEC_POP_GPR_def X8664_JUMP_COND_SHORT_def X8664_GROUP_1_8BITS_REG_def X8664_GROUP_1_ZBITS_REG_def
  X8664_MOV_EB_GB_REG_def X8664_MOV_EV_GV_REG_def X8664_MOV_GB_EB_REG_def X8664_MOV_GV_EV_REG_def
  X8664_B0_TO_B7_def X8664_B8_TO_BF_def X8664_GROUP_2_CL_8BITS_REG_def X8664_GROUP_2_CL_ZBITS_REG_def
  X8664_CALL_def X8664_JUMP_UNCOND_def X8664_JUMP_COND_LONG_def X8664_DEC_ADD_EB_GB_MEM_def
  X8664_DEC_ADD_EV_GV_MEM_def X8664_DEC_ADD_GB_EB_MEM_def X8664_DEC_ADD_GV_EV_MEM_def X8664_DEC_ADC_EB_GB_MEM_def
  X8664_DEC_ADC_EV_GV_MEM_def X8664_DEC_ADC_GB_EB_MEM_def X8664_DEC_ADC_GV_EV_MEM_def X8664_DEC_CMP_EB_GB_MEM_def
  X8664_DEC_CMP_EV_GV_MEM_def X8664_DEC_CMP_GB_EB_MEM_def X8664_DEC_CMP_GV_EV_MEM_def X8664_GROUP_1_8BITS_MEM_def
  X8664_GROUP_1_ZBITS_MEM_def X8664_MOV_EB_GB_MEM_def X8664_MOV_EV_GV_MEM_def X8664_MOV_GB_EB_MEM_def
  X8664_MOV_GV_EV_MEM_def X8664_GROUP_2_CL_8BITS_MEM_def X8664_GROUP_2_CL_ZBITS_MEM_def

lemma slots_length [simp]: "length (slots64 c) = 3" "length (slots16 c) = 2"
  by (simp_all add: slots64_def slots16_def)

lemma up_to: "[0..<Suc 0] = [0]" "[0..<Suc (Suc 0)] = [0, 1]" "[0..<Suc (Suc (Suc 0))] = [0, 1, 2]"
    "[0..<Suc (Suc (Suc (Suc 0)))] = [0, 1, 2, 3]"
  by (simp_all add: upt_rec)

lemma operands_small:
  assumes "operands_ok i"
  shows "unat (op_g i) < 16" "unat (op_e i) < 16" "unat (op_reg i) < 16" "list_all slot_exists (mem_slots i)"
  using assms slots_exist(4)[OF assms] by (simp_all add: operands_ok_def code_small)

lemma slots_exist_nat:
  "unat c < 16 \<Longrightarrow> list_all slot_exists (slots64 c)" "unat c < 16 \<Longrightarrow> list_all slot_exists (slots16 c)"
  "unat c < 16 \<Longrightarrow> list_all slot_exists (slots8 x c)" "list_all slot_exists (cond_slots d)" "slot_exists (flag FLAG_CF)"
  "slot_exists (flag FLAG_PF)" "slot_exists (flag FLAG_AF)" "slot_exists (flag FLAG_ZF)" "slot_exists (flag FLAG_SF)" "slot_exists (flag FLAG_OF)"
  "list_all slot_exists (slots64 0)" "list_all slot_exists (slots64 4)" "list_all slot_exists (slots16 0)"
  "list_all slot_exists (slots8 x 0)" "list_all slot_exists (slots8 x 1)"
  by (simp_all add: slots64_def slots16_def slots8_def cond_slots_def slot_exists_def gpr_def flag_def vectors flag_numbers)

lemmas entry_rules = entry_ok_def micro_ok_def set_flags_def up_to MAX_ALLOCATED_def MAX_DEP_IN_def MAX_DEP_OUT_def
  slots_exist_nat type_numbers Let_def numeral_2_eq_2 numeral_3_eq_3

lemma mem_entries_ok:
  assumes "operands_ok i"
  shows "entry_ok i z (X8664_DEC_ADD_EB_GB_MEM, [T_INT_ARITH, T_LOAD, T_INT_ARITH, T_STORE])"
    "entry_ok i z (X8664_DEC_ADD_EV_GV_MEM, [T_INT_ARITH, T_LOAD, T_INT_ARITH, T_STORE])"
    "entry_ok i z (X8664_DEC_ADD_GB_EB_MEM, [T_INT_ARITH, T_LOAD, T_INT_ARITH])"
    "entry_ok i z (X8664_DEC_ADD_GV_EV_MEM, [T_INT_ARITH, T_LOAD, T_INT_ARITH])"
    "entry_ok i z (X8664_DEC_ADD_EB_GB_MEM, [T_INT_ARITH, T_LOAD, T_INT_LOGIC, T_STORE])"
    "entry_ok i z (X8664_DEC_ADD_EV_GV_MEM, [T_INT_ARITH, T_LOAD, T_INT_LOGIC, T_STORE])"
    "entry_ok i z (X8664_DEC_ADD_GB_EB_MEM, [T_INT_ARITH, T_LOAD, T_INT_LOGIC])"
    "entry_ok i z (X8664_DEC_ADD_GV_EV_MEM, [T_INT_ARITH, T_LOAD, T_INT_LOGIC])"
    "entry_ok i z (X8664_DEC_ADC_EB_GB_MEM, [T_INT_ARITH, T_LOAD, T_INT_ARITH, T_STORE])"
    "entry_ok i z (X8664_DEC_ADC_EV_GV_MEM, [T_INT_ARITH, T_LOAD, T_INT_ARITH, T_STORE])"
    "entry_ok i z (X8664_DEC_ADC_GB_EB_MEM, [T_INT_ARITH, T_LOAD, T_INT_ARITH])"
    "entry_ok i z (X8664_DEC_ADC_GV_EV_MEM, [T_INT_ARITH, T_LOAD, T_INT_ARITH])"
    "entry_ok i z (X8664_DEC_CMP_EB_GB_MEM, [T_INT_ARITH, T_LOAD, T_INT_ARITH])"
    "entry_ok i z (X8664_DEC_CMP_EV_GV_MEM, [T_INT_ARITH, T_LOAD, T_INT_ARITH])"
    "entry_ok i z (X8664_DEC_CMP_GB_EB_MEM, [T_INT_ARITH, T_LOAD, T_INT_ARITH])"
    "entry_ok i z (X8664_DEC_CMP_GV_EV_MEM, [T_INT_ARITH, T_LOAD, T_INT_ARITH])"
    "entry_ok i z (X8664_GROUP_1_8BITS_MEM, [T_INT_ARITH, T_LOAD, T_INT_ARITH, T_STORE])"
    "entry_ok i z (X8664_GROUP_1_ZBITS_MEM, [T_INT_ARITH, T_LOAD, T_INT_ARITH, T_STORE])"
    "entry_ok i z (X8664_MOV_EB_GB_MEM, [T_INT_ARITH, T_STORE])"
    "entry_ok i z (X8664_MOV_EV_GV_MEM, [T_INT_ARITH, T_STORE])"
    "entry_ok i z (X8664_MOV_GB_EB_MEM, [T_INT_ARITH, T_LOAD])"
    "entry_ok i z (X8664_MOV_GV_EV_MEM, [T_INT_ARITH, T_LOAD])"
    "entry_ok i z (X8664_GROUP_1_8BITS_MEM, [T_INT_ARITH, T_LOAD, T_INT_LOGIC, T_STORE])"
    "entry_ok i z (X8664_GROUP_1_ZBITS_MEM, [T_INT_ARITH, T_LOAD, T_INT_LOGIC, T_STORE])"
    "entry_ok i z (X8664_GROUP_2_CL_8BITS_MEM, [T_INT_ARITH, T_LOAD, T_INT_LOGIC, T_STORE])"
    "entry_ok i z (X8664_GROUP_2_CL_ZBITS_MEM, [T_INT_ARITH, T_LOAD, T_INT_LOGIC, T_STORE])"
  by (cases z; simp add: entry_rules handlers operands_small[OF assms] mem_slots_length[of i, THEN le_trans]
      cond_slots_length[THEN le_trans])+

lemma reg_entries_ok:
  assumes "operands_ok i"
  shows "entry_ok i z (X8664_DEC_ADD_EB_GB_REG, [T_INT_ARITH])"
    "entry_ok i z (X8664_DEC_ADD_EV_GV_REG, [T_INT_ARITH])"
    "entry_ok i z (X8664_DEC_ADD_GB_EB_REG, [T_INT_ARITH])"
    "entry_ok i z (X8664_DEC_ADD_GV_EV_REG, [T_INT_ARITH])"
    "entry_ok i z (X8664_DEC_ADD_EB_GB_REG, [T_INT_LOGIC])"
    "entry_ok i z (X8664_DEC_ADD_EV_GV_REG, [T_INT_LOGIC])"
    "entry_ok i z (X8664_DEC_ADD_GB_EB_REG, [T_INT_LOGIC])"
    "entry_ok i z (X8664_DEC_ADD_GV_EV_REG, [T_INT_LOGIC])"
    "entry_ok i z (X8664_DEC_ADC_EB_GB_REG, [T_INT_ARITH])"
    "entry_ok i z (X8664_DEC_ADC_EV_GV_REG, [T_INT_ARITH])"
    "entry_ok i z (X8664_DEC_ADC_GB_EB_REG, [T_INT_ARITH])"
    "entry_ok i z (X8664_DEC_ADC_GV_EV_REG, [T_INT_ARITH])"
    "entry_ok i z (X8664_DEC_CMP_EB_GB_REG, [T_INT_ARITH])"
    "entry_ok i z (X8664_DEC_CMP_EV_GV_REG, [T_INT_ARITH])"
    "entry_ok i z (X8664_DEC_CMP_GB_EB_REG, [T_INT_ARITH])"
    "entry_ok i z (X8664_DEC_CMP_GV_EV_REG, [T_INT_ARITH])"
    "entry_ok i z (X8664_GROUP_1_8BITS_REG, [T_INT_ARITH])"
    "entry_ok i z (X8664_GROUP_1_ZBITS_REG, [T_INT_ARITH])"
    "entry_ok i z (X8664_MOV_EB_GB_REG, [T_MOV])"
    "entry_ok i z (X8664_MOV_EV_GV_REG, [T_MOV])"
    "entry_ok i z (X8664_MOV_GB_EB_REG, [T_MOV])"
    "entry_ok i z (X8664_MOV_GV_EV_REG, [T_MOV])"
    "entry_ok i z (X8664_GROUP_1_8BITS_REG, [T_INT_LOGIC])"
    "entry_ok i z (X8664_GROUP_1_ZBITS_REG, [T_INT_LOGIC])"
    "entry_ok i z (X8664_GROUP_2_CL_8BITS_REG, [T_INT_LOGIC])"
    "entry_ok i z (X8664_GROUP_2_CL_ZBITS_REG, [T_INT_LOGIC])"
  by (cases z; simp add: entry_rules handlers operands_small[OF assms] mem_slots_length[of i, THEN le_trans]
      cond_slots_length[THEN le_trans])+

lemma other_entries_ok:
  assumes "operands_ok i"
  shows "entry_ok i z (X8664_DEC_ADD_AL_IB, [T_INT_ARITH])"
    "entry_ok i z (X8664_DEC_ADD_RAX_IZ, [T_INT_ARITH])"
    "entry_ok i z (invalid, [T_NONE])"
    "entry_ok i z (X8664_DEC_ADD_AL_IB, [T_INT_LOGIC])"
    "entry_ok i z (X8664_DEC_ADD_RAX_IZ, [T_INT_LOGIC])"
    "entry_ok i z (X8664_DEC_ADC_AL_IB, [T_INT_ARITH])"
    "entry_ok i z (X8664_DEC_ADC_RAX_IZ, [T_INT_ARITH])"
    "entry_ok i z (X8664_DEC_CMP_AL_IB, [T_INT_ARITH])"
    "entry_ok i z (X8664_DEC_CMP_RAX_IZ, [T_INT_ARITH])"
    "entry_ok i z (X8664_DEC_PUSH_GPR, [T_INT_ARITH, T_STORE])"
    "entry_ok i z (X8664_DEC_POP_GPR, [T_INT_ARITH, T_LOAD])"
    "entry_ok i z (invalid, [T_MOV])"
    "entry_ok i z (invalid, [T_INT_ARITH, T_STORE])"
    "entry_ok i z (invalid, [T_INT_MUL])"
    "entry_ok i z (X8664_JUMP_COND_SHORT, [T_BRANCH])"
    "entry_ok i z (X8664_B0_TO_B7, [T_MOV])"
    "entry_ok i z (X8664_B8_TO_BF, [T_MOV])"
    "entry_ok i z (invalid, [T_BRANCH])"
    "entry_ok i z (X8664_CALL, [T_BRANCH])"
    "entry_ok i z (X8664_JUMP_UNCOND, [T_BRANCH])"
    "entry_ok i z (X8664_JUMP_COND_LONG, [T_BRANCH])"
  by (cases z; simp add: entry_rules handlers operands_small[OF assms] mem_slots_length[of i, THEN le_trans]
      cond_slots_length[THEN le_trans])+

lemma list_all_replicate: "list_all P (replicate n x) \<longleftrightarrow> n = 0 \<or> P x"
  by (induction n) auto

lemma table_ok: "operands_ok i \<Longrightarrow> list_all (entry_ok i z) dep_table"
  by (simp add: dep_table_def dep_tables list_all_replicate mem_entries_ok reg_entries_ok other_entries_ok)

lemma table_length: "length dep_table = 1024"
  by (simp add: dep_table_def dep_tables)

text \<open>C13: The microcode table is well formed: for every opcode with register or memory operands, at every
  operand size and for all register operands, the instruction has between one and
  \<open>CPU_DECODER_MAX_ALLOCATED_INST\<close> micro-operations; its handler only names those, and none that needs no unit; it
  only looks at parts of registers that the dependency vectors have; a link goes from an older to a younger
  micro-operation, and none reads what the same or a younger one produces, so no instruction waits for
  itself; memory accesses belong to loads and stores; and the arrays of dependencies and of produced registers
  are never exceeded.\<close>

theorem microcode_well_formed:
  assumes "operands_ok i" "(h, ts) \<in> set dep_table"
  shows "0 < length ts \<and> length ts \<le> MAX_ALLOCATED \<and> (\<forall>t \<in> set ts. t < 32)
     \<and> (\<forall>a \<in> set (h i z). (\<forall>n \<in> set (micro_uops a). n < length ts \<and> ts ! n \<noteq> T_NONE)
          \<and> (\<forall>r \<in> set (micro_slots a). slot_exists r) \<and> micro_typed ts a)
     \<and> ordered 0 (h i z)
     \<and> (\<forall>n < length ts. in_count n (h i z) \<le> MAX_DEP_IN \<and> out_count n (h i z) \<le> MAX_DEP_OUT)"
proof -
  have "entry_ok i z (h, ts)" using table_ok[OF assms(1), of z] assms(2) by (simp add: list_all_iff)
  then show ?thesis by (simp add: entry_ok_def micro_ok_def list_all_iff)
qed

definition demo_operands :: operands where
  "demo_operands = \<lparr>op_g = 3, op_e = 0, op_reg = 0, op_first = 0x01, op_second = 0, op_rex = 0x48, op_base = None, op_index = None,
     op_addr = 0, op_rsp = 0x8000, op_next = 0x103, op_id = 0\<rparr>"

lemma microcode_well_formed_witness:
  "ordered 0 (X8664_DEC_ADD_EV_GV_REG demo_operands B64) \<and> in_count 0 (X8664_DEC_ADD_EV_GV_REG demo_operands B64) = 6
     \<and> out_count 0 (X8664_DEC_ADD_EV_GV_REG demo_operands B64) = 9"
proof -
  have "operands_ok demo_operands" by (simp add: operands_ok_def demo_operands_def)
  moreover have "(X8664_DEC_ADD_EV_GV_REG, [T_INT_ARITH]) \<in> set dep_table" by (simp add: dep_table_def dep_reg_0_def)
  ultimately have "ordered 0 (X8664_DEC_ADD_EV_GV_REG demo_operands B64)" using microcode_well_formed by blast
  then show ?thesis by (simp add: X8664_DEC_ADD_EV_GV_REG_def set_flags_def demo_operands_def)
qed

end
