(* ===== verification/Pipeline_Inv.thy ===== *)
theory Pipeline_Inv
  imports Pipeline
begin

text \<open>
  What the back end of \<open>Pipeline\<close> guarantees. Every instruction object is in exactly one place: in the
  supply, in the reorder buffer, or held by the decoder. Commit retires in order. A flush empties the
  pipeline. The oldest instruction never waits for a result, so the dead-lock exit of \<open>commit\<close> is
  unreachable.
\<close>

section \<open>Places\<close>

definition places :: "core \<Rightarrow> nat list" where
  "places k = elems (k_supply k) @ elems (k_rob k) @ held (k_dec k)"

definition lists_ok :: "nat \<Rightarrow> core \<Rightarrow> bool" where
  "lists_ok n k \<longleftrightarrow> dl_inv (k_supply k) \<and> dl_inv (k_rob k) \<and> dl_capacity (k_supply k) = n \<and> dl_capacity (k_rob k) = n
     \<and> distinct (places k) \<and> set (places k) = {..<n}"

text \<open>An instruction waits in the station that its object names, and the station knows its slot.\<close>

definition station_ok :: "core \<Rightarrow> queue_id \<Rightarrow> bool" where
  "station_ok k q \<longleftrightarrow> queue_inv (k_pool k) (k_queue q k) \<and> rq_kind (k_queue q k) = q
     \<and> (\<forall>p \<in> set (elems (rq_list (k_queue q k))). u_queue (u_of k p) = Some q \<and> p \<in> set (elems (k_rob k))
          \<and> u_status (u_of k p) \<noteq> Ready)"

abbreviation in_station :: "core \<Rightarrow> nat \<Rightarrow> bool" where
  "in_station k p \<equiv> \<exists>q. p \<in> set (elems (rq_list (k_queue q k)))"

definition rob_ok :: "core \<Rightarrow> bool" where
  "rob_ok k \<longleftrightarrow> (\<forall>(el, p) \<in> set (entries (k_rob k)). u_rb_el (u_of k p) = Some el)
     \<and> (\<forall>p \<in> set (elems (k_rob k)) \<union> set (held (k_dec k)). u_cpu (u_of k p) = 0)
     \<and> (\<forall>p \<in> set (elems (k_rob k)). u_type (u_of k p) < 32)"

definition units_ok :: "core \<Rightarrow> bool" where
  "units_ok k \<longleftrightarrow> fu_inv (k_units k) \<and> distinct (running (k_units k))
     \<and> (\<forall>p \<in> set (running (k_units k)). in_station k p \<and> u_status (u_of k p) = Executing)"

definition decoder_ok :: "decoder \<Rightarrow> bool" where
  "decoder_ok d \<longleftrightarrow> length (dc_buffered d) = MAX_ALLOCATED \<and> dc_dispatched d \<le> dc_allocated d \<and> dc_allocated d \<le> MAX_ALLOCATED"

definition core_inv :: "nat \<Rightarrow> core \<Rightarrow> bool" where
  "core_inv n k \<longleftrightarrow> lists_ok n k \<and> (\<forall>q. station_ok k q) \<and> rob_ok k \<and> units_ok k \<and> decoder_ok (k_dec k)"

lemma core_invD:
  assumes "core_inv n k"
  shows "lists_ok n k" "station_ok k q" "rob_ok k" "units_ok k" "decoder_ok (k_dec k)"
    "dl_inv (k_supply k)" "dl_inv (k_rob k)" "dl_capacity (k_supply k) = n" "dl_capacity (k_rob k) = n"
    "distinct (places k)" "set (places k) = {..<n}" "queue_inv (k_pool k) (k_queue q k)" "fu_inv (k_units k)"
    "rq_kind (k_queue q k) = q"
  using assms by (auto simp: core_inv_def lists_ok_def station_ok_def units_ok_def)

lemma all_queues: "(\<forall>q. P q) \<longleftrightarrow> P Rs_Queue \<and> P Ls_Queue \<and> P Io_Queue"
  by (metis queue_id.exhaust)

lemma ex_queue: "(\<exists>q. P q) \<longleftrightarrow> P Rs_Queue \<or> P Ls_Queue \<or> P Io_Queue"
  by (metis queue_id.exhaust)

lemma put_queue_simps [simp]:
  "k_queue q (put_queue q' r k) = (if q = q' then r else k_queue q k)"
  "k_pool (put_queue q r k) = k_pool k" "k_regs (put_queue q r k) = k_regs k" "k_units (put_queue q r k) = k_units k"
  "k_supply (put_queue q r k) = k_supply k" "k_rob (put_queue q r k) = k_rob k" "k_dec (put_queue q r k) = k_dec k"
  "k_front (put_queue q r k) = k_front k" "k_branches (put_queue q r k) = k_branches k"
  "k_flusher (put_queue q r k) = k_flusher k" "k_running (put_queue q r k) = k_running k"
  "k_icache (put_queue q r k) = k_icache k"
  by (cases q; cases q'; simp)+

lemma upd_simps [simp]:
  "k_pool (upd p f k) = (k_pool k)(p := f (k_pool k p))" "k_regs (upd p f k) = k_regs k" "k_units (upd p f k) = k_units k"
  "k_supply (upd p f k) = k_supply k" "k_rob (upd p f k) = k_rob k" "k_dec (upd p f k) = k_dec k"
  "k_front (upd p f k) = k_front k" "k_branches (upd p f k) = k_branches k" "k_flusher (upd p f k) = k_flusher k"
  "k_running (upd p f k) = k_running k" "k_queue q (upd p f k) = k_queue q k" "k_icache (upd p f k) = k_icache k"
  by (cases q; simp add: upd_def)+

lemma k_queue_frame [simp]:
  "k_queue q (k\<lparr>k_pool := h\<rparr>) = k_queue q k" "k_queue q (k\<lparr>k_regs := g\<rparr>) = k_queue q k"
  "k_queue q (k\<lparr>k_units := f\<rparr>) = k_queue q k" "k_queue q (k\<lparr>k_supply := l\<rparr>) = k_queue q k"
  "k_queue q (k\<lparr>k_rob := l\<rparr>) = k_queue q k" "k_queue q (k\<lparr>k_dec := d\<rparr>) = k_queue q k"
  "k_queue q (k\<lparr>k_front := x\<rparr>) = k_queue q k" "k_queue q (k\<lparr>k_branches := b\<rparr>) = k_queue q k"
  "k_queue q (k\<lparr>k_flusher := w\<rparr>) = k_queue q k" "k_queue q (k\<lparr>k_running := r\<rparr>) = k_queue q k"
  "k_queue q (k\<lparr>k_icache := i\<rparr>) = k_queue q k"
  by (cases q; simp)+

lemma flush_inst_cache_frame [simp]:
  "k_pool (flush_inst_cache k) = k_pool k" "k_regs (flush_inst_cache k) = k_regs k" "k_units (flush_inst_cache k) = k_units k"
  "k_supply (flush_inst_cache k) = k_supply k" "k_rob (flush_inst_cache k) = k_rob k" "k_dec (flush_inst_cache k) = k_dec k"
  "k_front (flush_inst_cache k) = k_front k" "k_queue q (flush_inst_cache k) = k_queue q k" "k_io (flush_inst_cache k) = k_io k"
  by (simp_all add: flush_inst_cache_def)

lemma places_count: "lists_ok n k \<Longrightarrow> length (elems (k_supply k)) + length (elems (k_rob k)) + length (held (k_dec k)) = n"
proof -
  assume "lists_ok n k"
  then have "length (places k) = card {..<n}" by (metis lists_ok_def distinct_card)
  then show ?thesis by (simp add: places_def)
qed

lemma elems_length: "dl_inv l \<Longrightarrow> length (elems l) = length (entries l)"
  by (simp add: elems_def)

lemma push_end:
  assumes "dl_inv l" "length (elems l) < dl_capacity l"
  obtains el where "add_end p l = (fst (add_end p l), Some el)" "dl_inv (fst (add_end p l))"
    "entries (fst (add_end p l)) = entries l @ [(el, p)]" "elems (fst (add_end p l)) = elems l @ [p]"
    "dl_capacity (fst (add_end p l)) = dl_capacity l"
proof -
  have "length (entries l) < dl_capacity l" using assms by (simp add: elems_def)
  then obtain l' el where "add_end p l = (l', Some el)" "dl_inv l'" "entries l' = entries l @ [(el, p)]"
    "dl_capacity l' = dl_capacity l" by (rule add_end_entries[OF assms(1)])
  then show thesis using that[of el] by (simp add: elems_def)
qed

lemma push_all:
  assumes "dl_inv l" "length (elems l) + length ps \<le> dl_capacity l"
  shows "dl_inv (fold (\<lambda>p l. fst (add_end p l)) ps l) \<and> elems (fold (\<lambda>p l. fst (add_end p l)) ps l) = elems l @ ps
    \<and> dl_capacity (fold (\<lambda>p l. fst (add_end p l)) ps l) = dl_capacity l"
  using assms
proof (induction ps arbitrary: l)
  case (Cons p ps)
  then have "length (elems l) < dl_capacity l" by simp
  then obtain el where "dl_inv (fst (add_end p l))" "elems (fst (add_end p l)) = elems l @ [p]"
    "dl_capacity (fst (add_end p l)) = dl_capacity l" using push_end[OF Cons.prems(1)] by metis
  with Cons.IH[of "fst (add_end p l)"] Cons.prems(2) show ?case by simp
qed simp

section \<open>The supply\<close>

lemma supply_value:
  assumes "lists_ok n k"
  shows "case elems (k_supply k) of
      [] \<Rightarrow> get_inst_from_supply k = Inr (k, None)
    | p # ps \<Rightarrow> \<exists>l. get_inst_from_supply k = Inr (k\<lparr>k_supply := l\<rparr>, Some p) \<and> dl_inv l \<and> elems l = ps \<and> dl_capacity l = n"
proof -
  have inv: "dl_inv (k_supply k)" using assms by (simp add: lists_ok_def)
  have len: "dl_n_elements (k_supply k) = length (elems (k_supply k))" by (simp add: entries_length[OF inv] elems_def)
  show ?thesis
  proof (cases "entries (k_supply k)")
    case Nil
    then show ?thesis using len by (simp add: elems_def get_inst_from_supply_def)
  next
    case (Cons e es)
    obtain el p where e: "e = (el, p)" by force
    note f = first_split[OF inv Cons[unfolded e]]
    have c: "dl_capacity (k_supply k) = n" using assms by (simp add: lists_ok_def)
    have el: "elems (k_supply k) = p # map snd es" by (simp add: elems_def Cons e)
    have "get_inst_from_supply k = Inr (k\<lparr>k_supply := del_first (k_supply k)\<rparr>, Some p)"
      using len f by (simp add: get_inst_from_supply_def el)
    moreover have "elems (del_first (k_supply k)) = map snd es" by (simp add: elems_def f(4))
    ultimately show ?thesis using f c by (auto simp: el)
  qed
qed

section \<open>Flush\<close>

lemma station_flush:
  assumes "core_inv n k" "\<And>r. queue_inv h r \<Longrightarrow> \<exists>r'. f r = Inr r' \<and> queue_inv h r' \<and> elems (rq_list r') = filter P (elems (rq_list r))
      \<and> rq_kind r' = rq_kind r \<and> R (rq_kind r) (rq_flag r')" "h = k_pool k"
  obtains k' where "flush_stations f k = Inr k'"
    "\<And>q. queue_inv h (k_queue q k')" "\<And>q. elems (rq_list (k_queue q k')) = filter P (elems (rq_list (k_queue q k)))"
    "\<And>q. rq_kind (k_queue q k') = q" "\<And>q. R q (rq_flag (k_queue q k'))"
    "k' = k\<lparr>k_rs := k_rs k', k_ls := k_ls k', k_io := k_io k'\<rparr>"
proof -
  have q: "queue_inv h (k_queue q k)" for q using core_invD(12)[OF assms(1)] assms(3) by simp
  obtain rs where rs: "f (k_rs k) = Inr rs" "queue_inv h rs" "elems (rq_list rs) = filter P (elems (rq_list (k_rs k)))" "rq_kind rs = rq_kind (k_rs k)" "R (rq_kind (k_rs k)) (rq_flag rs)"
    using assms(2)[of "k_rs k"] q[of Rs_Queue] by auto
  obtain ls where ls: "f (k_ls k) = Inr ls" "queue_inv h ls" "elems (rq_list ls) = filter P (elems (rq_list (k_ls k)))" "rq_kind ls = rq_kind (k_ls k)" "R (rq_kind (k_ls k)) (rq_flag ls)"
    using assms(2)[of "k_ls k"] q[of Ls_Queue] by auto
  obtain io where io: "f (k_io k) = Inr io" "queue_inv h io" "elems (rq_list io) = filter P (elems (rq_list (k_io k)))" "rq_kind io = rq_kind (k_io k)" "R (rq_kind (k_io k)) (rq_flag io)"
    using assms(2)[of "k_io k"] q[of Io_Queue] by auto
  let ?k = "k\<lparr>k_rs := rs, k_ls := ls, k_io := io\<rparr>"
  have kd: "rq_kind (k_queue q k) = q" for q by (rule core_invD(14)[OF assms(1)])
  have all: "queue_inv h (k_queue q ?k) \<and> elems (rq_list (k_queue q ?k)) = filter P (elems (rq_list (k_queue q k))) \<and> rq_kind (k_queue q ?k) = q
      \<and> R q (rq_flag (k_queue q ?k))" for q
    using rs ls io kd[of q] by (cases q) simp_all
  show thesis
    by (rule that[of ?k]) (use rs ls io all in \<open>simp_all add: flush_stations_def\<close>)
qed

lemma queue_flush_list:
  assumes "queue_inv h r"
  shows "\<exists>r'. queue_flush h c r = Inr r' \<and> queue_inv h r' \<and> elems (rq_list r') = filter (\<lambda>p. u_cpu (h p) \<noteq> c) (elems (rq_list r))
      \<and> rq_kind r' = rq_kind r \<and> (rq_kind r \<noteq> Rs_Queue \<longrightarrow> \<not> rq_flag r' c)"
  using queue_drop_value[of h "if rq_kind r = Rs_Queue then r else r\<lparr>rq_flag := (rq_flag r)(c := False)\<rparr>" "\<lambda>p. u_cpu (h p) = c"] assms
  by (auto simp: queue_flush_def queue_inv_def)

lemma live_cpu:
  assumes "core_inv n k" "p \<in> set (elems (k_rob k)) \<union> set (held (k_dec k))"
  shows "u_cpu (u_of k p) = 0"
  using core_invD(3)[OF assms(1)] assms(2) by (auto simp: rob_ok_def)

lemma rob_cpu: "core_inv n k \<Longrightarrow> p \<in> set (elems (k_rob k)) \<Longrightarrow> u_cpu (u_of k p) = 0"
  by (rule live_cpu) simp_all

lemma station_rob: "core_inv n k \<Longrightarrow> p \<in> set (elems (rq_list (k_queue q k))) \<Longrightarrow> p \<in> set (elems (k_rob k))"
  using core_invD(2)[of n k q] by (auto simp: station_ok_def)

lemma running_rob: "core_inv n k \<Longrightarrow> p \<in> set (running (k_units k)) \<Longrightarrow> p \<in> set (elems (k_rob k))"
  using core_invD(4)[of n k] station_rob[of n k p] unfolding units_ok_def by blast

definition flushed_front :: "cfg \<Rightarrow> fetch_st \<Rightarrow> fetch_st" where
  "flushed_front c f = (case fb_flush (cf_fetch_size c) (fs_cpu f) (fs_lane f) of (l, pc) \<Rightarrow> f\<lparr>fs_lane := l, fs_pc := pc\<rparr>)"

lemma flush_fetch_value: "flush_fetch c k = k\<lparr>k_front := flushed_front c (k_front k)\<rparr>"
  by (simp add: flush_fetch_def flushed_front_def split: prod.split)

lemma dec_flush_held [simp]: "held (dec_flush d) = []" "decoder_ok d \<Longrightarrow> decoder_ok (dec_flush d)"
  by (simp_all add: held_def dec_flush_def decoder_ok_def)

lemma simple_value:
  assumes "core_inv n k"
  obtains k' where "flush_pipeline_simple c k = Inr (k', rev (held (k_dec k)))"
    "\<And>q. queue_inv (k_pool k) (k_queue q k')" "\<And>q. elems (rq_list (k_queue q k')) = []" "\<And>q. rq_kind (k_queue q k') = q"
    "\<And>q. q \<noteq> Rs_Queue \<longrightarrow> \<not> rq_flag (k_queue q k') 0" "k_units k' = fu_flush (k_pool k) 0 (k_units k)" "k_dec k' = dec_flush (k_dec k)" "k_regs k' = (\<lambda>_. None)"
    "k_pool k' = k_pool k" "k_supply k' = k_supply k" "k_rob k' = k_rob k" "k_front k' = flushed_front c (k_front k)"
    "k_flusher k' = None" "k_branches k' = (k_branches k)(T_BRANCH := 0)" "k_running k' = k_running k"
proof -
  obtain k1 where k1: "flush_stations (queue_flush (k_pool k) 0) k = Inr k1"
    "\<And>q. queue_inv (k_pool k) (k_queue q k1)"
    "\<And>q. elems (rq_list (k_queue q k1)) = filter (\<lambda>p. u_cpu (u_of k p) \<noteq> 0) (elems (rq_list (k_queue q k)))"
    "\<And>q. rq_kind (k_queue q k1) = q" "\<And>q. q \<noteq> Rs_Queue \<longrightarrow> \<not> rq_flag (k_queue q k1) 0"
    "k1 = k\<lparr>k_rs := k_rs k1, k_ls := k_ls k1, k_io := k_io k1\<rparr>"
    by (rule station_flush[where R = "\<lambda>q fl. q \<noteq> Rs_Queue \<longrightarrow> \<not> fl 0", OF assms queue_flush_list refl]) blast+
  have "filter (\<lambda>p. u_cpu (u_of k p) \<noteq> 0) (elems (rq_list (k_queue q k))) = []" for q
    using live_cpu[OF assms] station_rob[OF assms] by (auto simp: filter_empty_conv)
  note e = k1(3)[unfolded this]
  have f: "k_pool k1 = k_pool k" "k_units k1 = k_units k" "k_dec k1 = k_dec k" "k_supply k1 = k_supply k" "k_rob k1 = k_rob k"
    "k_front k1 = k_front k" "k_branches k1 = k_branches k" "k_running k1 = k_running k"
    by (subst k1(6), simp)+
  let ?k = "forget_branches ((k1\<lparr>k_units := fu_flush (k_pool k) 0 (k_units k), k_dec := dec_flush (k_dec k),
    k_front := flushed_front c (k_front k)\<rparr>)\<lparr>k_regs := (\<lambda>_. None)\<rparr>)"
  have "flush_pipeline_simple c k = Inr (?k, rev (held (k_dec k)))"
    by (simp add: flush_pipeline_simple_def k1(1) Let_def flush_fetch_value get_buffered_rs_def f)
  moreover have "k_queue q ?k = k_queue q k1" for q by (simp add: forget_branches_def)
  ultimately show thesis
    by (intro that[of ?k]) (use k1(2,4,5) e f in \<open>simp_all add: forget_branches_def\<close>)
qed

lemma queue_inv_empty: "elems (rq_list r) = [] \<Longrightarrow> dl_inv (rq_list r) \<Longrightarrow> queue_inv h r"
  by (simp add: queue_inv_def elems_def)

lemma rob_flush_value:
  assumes "core_inv n k"
  obtains k' where "rob_flush c k = Inr k'" "core_inv n k'" "elems (k_rob k') = []" "held (k_dec k') = []"
    "elems (k_supply k') = elems (k_supply k) @ rev (held (k_dec k)) @ elems (k_rob k)"
    "\<And>q. elems (rq_list (k_queue q k')) = []" "running (k_units k') = []" "k_regs k' = (\<lambda>_. None)"
    "k_pool k' = k_pool k" "k_dec k' = dec_flush (k_dec k)" "k_front k' = flushed_front c (k_front k)"
    "k_flusher k' = None" "k_branches k' = (k_branches k)(T_BRANCH := 0)" "k_running k' = k_running k"
    "\<And>q. q \<noteq> Rs_Queue \<longrightarrow> \<not> rq_flag (k_queue q k') 0"
proof -
  note inv = core_invD[OF assms]
  obtain k1 where k1: "flush_pipeline_simple c k = Inr (k1, rev (held (k_dec k)))"
    "\<And>q. queue_inv (k_pool k) (k_queue q k1)" "\<And>q. elems (rq_list (k_queue q k1)) = []" "\<And>q. rq_kind (k_queue q k1) = q"
    "\<And>q. q \<noteq> Rs_Queue \<longrightarrow> \<not> rq_flag (k_queue q k1) 0" "k_units k1 = fu_flush (k_pool k) 0 (k_units k)" "k_dec k1 = dec_flush (k_dec k)" "k_regs k1 = (\<lambda>_. None)"
    "k_pool k1 = k_pool k" "k_supply k1 = k_supply k" "k_rob k1 = k_rob k" "k_front k1 = flushed_front c (k_front k)"
    "k_flusher k1 = None" "k_branches k1 = (k_branches k)(T_BRANCH := 0)" "k_running k1 = k_running k"
    by (rule simple_value[OF assms, where c = c]) blast
  have cnt: "length (elems (k_supply k)) + length (elems (k_rob k)) + length (held (k_dec k)) = n"
    by (rule places_count[OF inv(1)])
  let ?su = "fold (\<lambda>p l. fst (add_end p l)) (rev (held (k_dec k))) (k_supply k)"
  have su: "dl_inv ?su" "elems ?su = elems (k_supply k) @ rev (held (k_dec k))" "dl_capacity ?su = n"
    using push_all[OF inv(6), of "rev (held (k_dec k))"] cnt inv(8) by simp_all
  have room: "length (entries ?su) + length (entries (k_rob k)) \<le> dl_capacity ?su"
    using su cnt elems_length[OF su(1)] elems_length[OF inv(7)] by simp
  obtain l su' where m: "dl_loop (move_body (\<lambda>p. u_cpu (u_of k p) = 0)) (k_rob k) ?su = Inr (l, su')" "dl_inv l" "dl_inv su'"
    "entries l = filter (Not \<circ> (\<lambda>p. u_cpu (u_of k p) = 0) \<circ> snd) (entries (k_rob k))"
    "elems su' = elems ?su @ filter (\<lambda>p. u_cpu (u_of k p) = 0) (elems (k_rob k))"
    "dl_capacity l = dl_capacity (k_rob k)" "dl_capacity su' = dl_capacity ?su"
    by (rule move_loop[OF inv(7) su(1) room])
  have all0: "\<forall>p \<in> set (elems (k_rob k)). u_cpu (u_of k p) = 0" using live_cpu[OF assms] by blast
  then have "filter (\<lambda>p. u_cpu (u_of k p) = 0) (elems (k_rob k)) = elems (k_rob k)" by simp
  moreover have "entries l = []" unfolding m(4) filter_empty_conv using all0 by (auto simp: elems_def)
  ultimately have l: "elems l = []" "elems su' = elems (k_supply k) @ rev (held (k_dec k)) @ elems (k_rob k)"
    using m(5) su(2) by (simp_all add: elems_def[of l])
  let ?k = "(give_back (rev (held (k_dec k))) k1)\<lparr>k_rob := l, k_supply := su'\<rparr>"
  have "dl_loop_before (move_body (\<lambda>p. u_cpu (u_of k p) = 0)) (k_rob k) ?su = Inr (l, su')"
    using m(1) by (simp only: dl.loop_before[OF inv(7)])
  then have val: "rob_flush c k = Inr ?k"
    by (simp add: rob_flush_def k1(1,9-11) give_back_def Let_def)
  have q: "k_queue q ?k = k_queue q k1" for q by (simp add: give_back_def)
  have "running (k_units k1) = []"
    unfolding k1(6) fu_flush_def running_drop filter_empty_conv by (simp add: rob_cpu[OF assms running_rob[OF assms]])
  moreover have "fu_inv (k_units k1)" using inv(13) by (simp add: k1(6) fu_flush_def fu_inv_ops)
  ultimately have u: "running (k_units ?k) = []" "fu_inv (k_units ?k)" by (simp_all add: give_back_def)
  have "distinct (elems su')" "set (elems su') = {..<n}"
    using inv(10,11) l(2) by (auto simp: places_def)
  moreover have "held (k_dec ?k) = []" by (simp add: give_back_def k1(7))
  ultimately have lists: "lists_ok n ?k"
    using m(2,3,6,7) su(3) inv(9) l(1) by (simp add: lists_ok_def places_def)
  have "entries l = []" using l(1) by (simp add: elems_def)
  then have rob: "rob_ok ?k" using l(1) by (simp add: rob_ok_def give_back_def k1(7))
  have st: "station_ok ?k q" for q
    unfolding station_ok_def q using k1(2-4)[of q] by (simp add: give_back_def k1(9))
  have "core_inv n ?k"
    using lists st rob u inv(5) by (simp add: core_inv_def units_ok_def give_back_def k1(7))
  then show thesis
    by (rule that[OF val]) (use l u(1) k1 in \<open>simp_all add: give_back_def\<close>)
qed

section \<open>Commit\<close>

text \<open>The reference: commit over a plain list of instructions. It returns those that stay.\<close>

definition takes_back :: "nat \<Rightarrow> core \<Rightarrow> core" where
  "takes_back p k = k\<lparr>k_supply := fst (add_end p (k_supply k))\<rparr>"

fun commit_spec :: "nat list \<Rightarrow> core \<Rightarrow> (core \<times> nat list \<times> bool) res" where
  "commit_spec [] k = Inr (k, [], False)"
| "commit_spec (p # ps) k =
     (if u_status (u_of k p) = Ready then
        rbind (commit_effect p k) (\<lambda>(k1, f).
          if f \<or> \<not> u_foresight (u_of k1 p) then Inr (k1, p # ps, True) else commit_spec ps (takes_back p k1))
      else Inr (if u_status (u_of k p) = Dep_Ready then arrived_to_commit p k else k, p # ps, False))"

definition retires :: "uop \<Rightarrow> bool" where
  "retires u \<longleftrightarrow> u_status u = Ready \<and> \<not> u_exception u \<and> \<not> u_is_trap u \<and> \<not> u_is_halt u \<and> \<not> u_must_flush u \<and> u_foresight u"

text \<open>What commit may change besides the lists: the architectural state and the flags of the stations.\<close>

definition same_back :: "core \<Rightarrow> core \<Rightarrow> bool" where
  "same_back k k' \<longleftrightarrow> k_pool k' = k_pool k \<and> k_regs k' = k_regs k \<and> k_units k' = k_units k \<and> k_rob k' = k_rob k
     \<and> k_dec k' = k_dec k \<and> (\<forall>q. rq_list (k_queue q k') = rq_list (k_queue q k) \<and> rq_kind (k_queue q k') = rq_kind (k_queue q k))"

lemma same_back_refl: "same_back k k"
  by (simp add: same_back_def)

lemma same_back_trans: "same_back k k1 \<Longrightarrow> same_back k1 k2 \<Longrightarrow> same_back k k2"
  by (simp add: same_back_def)

lemma commit_effect_frame:
  assumes "commit_effect p k = Inr (k', f)"
  shows "same_back k k'" "k_supply k' = k_supply k"
    "f \<longleftrightarrow> u_exception (u_of k p) \<or> u_is_trap (u_of k p) \<or> u_is_halt (u_of k p) \<or> u_must_flush (u_of k p)"
  using assms
  by (auto simp: commit_effect_def Let_def rbind_Inr_iff flush_pipeline_others_def warn_branch_predictor_def put_cpu_def
      same_back_def split: if_splits)

lemma arrived_frame: "same_back k (arrived_to_commit p k)" "k_supply (arrived_to_commit p k) = k_supply k"
  by (simp_all add: arrived_to_commit_def same_back_def queue_arrived_def split: option.split queue_id.split)

lemma takes_back_frame: "same_back k (takes_back p k)"
  by (simp add: same_back_def takes_back_def)

lemma commit_spec_value:
  assumes "commit_spec ps k = Inr (k', rest, m)" "dl_inv (k_supply k)"
    "length (elems (k_supply k)) + length ps \<le> dl_capacity (k_supply k)"
  shows "\<exists>ds. ps = ds @ rest \<and> (\<forall>p \<in> set ds. retires (u_of k p)) \<and> same_back k k' \<and> dl_inv (k_supply k')
    \<and> dl_capacity (k_supply k') = dl_capacity (k_supply k) \<and> elems (k_supply k') = elems (k_supply k) @ ds
    \<and> (m \<longleftrightarrow> rest \<noteq> [] \<and> u_status (u_of k (hd rest)) = Ready) \<and> (m \<longrightarrow> \<not> retires (u_of k (hd rest)))"
  using assms
proof (induction ps arbitrary: k)
  case Nil
  then show ?case by (simp add: same_back_refl)
next
  case (Cons p ps)
  show ?case
  proof (cases "u_status (u_of k p) = Ready")
    case False
    then show ?thesis using Cons.prems arrived_frame by (intro exI[of _ "[]"]) (auto simp: same_back_refl)
  next
    case True
    obtain k1 f where e: "commit_effect p k = Inr (k1, f)" using Cons.prems True by (auto simp: rbind_Inr_iff)
    note fr = commit_effect_frame[OF e]
    have h: "u_of k1 p = u_of k p" using fr(1) by (simp add: same_back_def)
    show ?thesis
    proof (cases "f \<or> \<not> u_foresight (u_of k p)")
      case stop: True
      then have "k' = k1" "rest = p # ps" "m" using Cons.prems(1) True e h by auto
      moreover have "\<not> retires (u_of k p)" using stop fr(3) by (auto simp: retires_def)
      ultimately show ?thesis using Cons.prems(2) fr True by (intro exI[of _ "[]"]) simp
    next
      case go: False
      let ?k = "takes_back p k1"
      have "length (elems (k_supply k1)) < dl_capacity (k_supply k1)" using Cons.prems(3) by (simp add: fr(2))
      then obtain el where su: "dl_inv (k_supply ?k)" "elems (k_supply ?k) = elems (k_supply k) @ [p]"
        "dl_capacity (k_supply ?k) = dl_capacity (k_supply k)"
        using push_end[of "k_supply k1" p] Cons.prems(2) fr(2) by (metis takes_back_def core.select_convs(7) core.update_convs(7) core.surjective)
      have "commit_spec ps ?k = Inr (k', rest, m)" using Cons.prems(1) True e h go by auto
      moreover have "length (elems (k_supply ?k)) + length ps \<le> dl_capacity (k_supply ?k)"
        using Cons.prems(3) su by simp
      moreover have b: "same_back k ?k" using same_back_trans[OF fr(1) takes_back_frame] .
      moreover have "u_of ?k = u_of k" using b by (simp add: same_back_def)
      moreover have "retires (u_of k p)" using go fr(3) True by (simp add: retires_def)
      ultimately show ?thesis
        using Cons.IH[of ?k] su same_back_trans[OF b] by (fastforce intro: exI[of _ "p # _"])
    qed
  qed
qed

lemma commit_fold:
  "fold_entries commit_body es (k, False) = rbind (commit_spec (map snd es) k) (\<lambda>(k', rest, m).
      Inr (drop (length es - length rest) es, (k', m)))"
proof (induction es arbitrary: k)
  case (Cons e es)
  obtain el p where e: "e = (el, p)" by force
  have len: "commit_spec ps k = Inr (k', rest, m) \<Longrightarrow> length rest \<le> length ps" for ps k k' rest m
    by (induction ps arbitrary: k) (auto simp: rbind_Inr_iff split: if_splits, force)
  show ?case
  proof (cases "u_status (u_of k p) = Ready")
    case True
    show ?thesis
    proof (cases "commit_effect p k")
      case (Inr r)
      obtain k1 f where r: "r = (k1, f)" by force
      show ?thesis
      proof (cases "f \<or> \<not> u_foresight (u_of k1 p)")
        case False
        have "commit_body el p (k, False) = Inr ((takes_back p k1, False), Remove)"
          using True Inr r False by (simp add: commit_body_def takes_back_def)
        then show ?thesis using True Inr r False len[of "map snd es"]
          by (cases "commit_spec (map snd es) (takes_back p k1)") (force simp: e Cons Let_def Suc_diff_le)+
      qed (use True Inr r in \<open>auto simp: e commit_body_def Let_def\<close>)
    qed (simp add: e commit_body_def True)
  qed (auto simp: e commit_body_def Let_def)
qed simp

lemma queue_inv_pool:
  assumes "queue_inv h q" "\<And>p. p \<in> set (elems (rq_list q)) \<Longrightarrow> u_queue_el (h' p) = u_queue_el (h p)" "rq_list q' = rq_list q"
  shows "queue_inv h' q'"
  using assms by (force simp: queue_inv_def queued_entry)

lemma retired_inv:
  assumes inv: "core_inv n k" and b: "same_back k k'"
    and su: "dl_inv (k_supply k')" "dl_capacity (k_supply k') = n" "elems (k_supply k') = elems (k_supply k) @ ds"
    and l: "dl_inv l" "dl_capacity l = n" "set (entries l) \<subseteq> set (entries (k_rob k))" "elems l = rest"
    and ds: "elems (k_rob k) = ds @ rest" "\<forall>p \<in> set ds. u_status (u_of k p) = Ready"
  shows "core_inv n (k'\<lparr>k_rob := l\<rparr>)"
proof -
  note i = core_invD[OF inv]
  have f: "k_pool k' = k_pool k" "k_units k' = k_units k" "k_dec k' = k_dec k"
    "rq_list (k_queue q k') = rq_list (k_queue q k)" "rq_kind (k_queue q k') = rq_kind (k_queue q k)" for q
    using b by (simp_all add: same_back_def)
  have "lists_ok n (k'\<lparr>k_rob := l\<rparr>)"
    using i(10,11) su l by (auto simp: lists_ok_def places_def f(3) ds(1))
  moreover have "station_ok (k'\<lparr>k_rob := l\<rparr>) q" for q
  proof -
    have "queue_inv (k_pool k) (k_queue q k')" by (rule queue_inv_pool[OF i(12)[of q]]) (simp_all add: f)
    moreover have "p \<in> set rest" if "p \<in> set (elems (rq_list (k_queue q k)))" for p
      using i(2)[of q] that ds by (auto simp: station_ok_def)
    ultimately show ?thesis using i(2)[of q] by (simp add: station_ok_def f l(4))
  qed
  moreover have "rob_ok (k'\<lparr>k_rob := l\<rparr>)"
    using i(3) l(3,4) ds(1) by (auto simp: rob_ok_def f)
  moreover have "units_ok (k'\<lparr>k_rob := l\<rparr>)" using i(4) by (simp add: units_ok_def f)
  ultimately show ?thesis using i(5) by (simp add: core_inv_def f(3))
qed

lemma head_waits_value:
  assumes "dl_inv (k_rob k)"
  shows "head_waits k \<longleftrightarrow> (\<exists>p ps. elems (k_rob k) = p # ps \<and> u_status (u_of k p) = Wait_Dep)"
proof (cases "entries (k_rob k)")
  case Nil
  then show ?thesis using first_entries[OF assms] by (simp add: head_waits_def elems_def)
next
  case (Cons e es)
  obtain el p where e: "e = (el, p)" by force
  show ?thesis using first_split(1,2)[OF assms Cons[unfolded e]] by (simp add: head_waits_def elems_def Cons e)
qed

lemma commit_value:
  assumes inv: "core_inv n k"
  shows "is_ok (commit c k) \<longleftrightarrow> \<not> head_waits k \<and> is_ok (commit_spec (elems (k_rob k)) k)"
    and "commit_spec (elems (k_rob k)) k = Inr (k1, rest, m) \<Longrightarrow> \<not> head_waits k \<Longrightarrow>
      \<exists>l. dl_inv l \<and> elems l = rest \<and> core_inv n (k1\<lparr>k_rob := l\<rparr>)
        \<and> commit c k = (if m then rob_flush c (k1\<lparr>k_rob := l\<rparr>) else Inr (k1\<lparr>k_rob := l\<rparr>))"
proof -
  note i = core_invD[OF inv]
  have room: "length (elems (k_supply k)) + length (elems (k_rob k)) \<le> dl_capacity (k_supply k)"
    using places_count[OF i(1)] i(8) by simp
  have el: "map snd (entries (k_rob k)) = elems (k_rob k)" by (simp add: elems_def)
  have cval: "\<exists>l. dl_inv l \<and> elems l = rest \<and> core_inv n (k1\<lparr>k_rob := l\<rparr>)
        \<and> commit c k = (if m then rob_flush c (k1\<lparr>k_rob := l\<rparr>) else Inr (k1\<lparr>k_rob := l\<rparr>))"
    if sp: "commit_spec (elems (k_rob k)) k = Inr (k1, rest, m)" and hd: "\<not> head_waits k" for k1 rest m
  proof -
    obtain ds where ds: "elems (k_rob k) = ds @ rest" "\<forall>p \<in> set ds. retires (u_of k p)" "same_back k k1"
      "dl_inv (k_supply k1)" "dl_capacity (k_supply k1) = n" "elems (k_supply k1) = elems (k_supply k) @ ds"
      using commit_spec_value[OF sp i(6) room] i(8) by metis
    let ?es = "drop (length (entries (k_rob k)) - length rest) (entries (k_rob k))"
    have "fold_entries commit_body (entries (k_rob k)) (k, False) = Inr (?es, (k1, m))"
      by (simp add: commit_fold el sp)
    then obtain l where l: "dl_loop commit_body (k_rob k) (k, False) = Inr (l, (k1, m))" "dl_inv l" "entries l = ?es"
      "dl_capacity l = dl_capacity (k_rob k)"
      by (rule dl.loop_all_Inr[OF i(7) order_refl])
    have "elems l = drop (length (elems (k_rob k)) - length rest) (elems (k_rob k))"
      by (simp add: elems_def l(3) drop_map)
    then have e: "elems l = rest" using ds(1) by simp
    have "core_inv n (k1\<lparr>k_rob := l\<rparr>)"
      by (rule retired_inv[OF inv ds(3-6) l(2) _ _ e ds(1)])
        (use l(3,4) i(9) ds(2) in \<open>auto simp: retires_def dest: in_set_dropD\<close>)
    moreover have "commit c k = (if m then rob_flush c (k1\<lparr>k_rob := l\<rparr>) else Inr (k1\<lparr>k_rob := l\<rparr>))"
      using hd l(1) by (simp add: commit_def dl.loop_before[OF i(7)] Let_def)
    ultimately show ?thesis using l(2) e by blast
  qed
  then show "commit_spec (elems (k_rob k)) k = Inr (k1, rest, m) \<Longrightarrow> \<not> head_waits k \<Longrightarrow>
      \<exists>l. dl_inv l \<and> elems l = rest \<and> core_inv n (k1\<lparr>k_rob := l\<rparr>)
        \<and> commit c k = (if m then rob_flush c (k1\<lparr>k_rob := l\<rparr>) else Inr (k1\<lparr>k_rob := l\<rparr>))" .
  show "is_ok (commit c k) \<longleftrightarrow> \<not> head_waits k \<and> is_ok (commit_spec (elems (k_rob k)) k)"
  proof (cases "head_waits k \<or> \<not> is_ok (commit_spec (elems (k_rob k)) k)")
    case True
    have "fold_entries commit_body (entries (k_rob k)) (k, False) = Inl x" if "commit_spec (elems (k_rob k)) k = Inl x" for x
      using that by (simp add: commit_fold el)
    then have "dl_loop commit_body (k_rob k) (k, False) = Inl x" if "commit_spec (elems (k_rob k)) k = Inl x" for x
      using dl.loop_all[OF i(7) order_refl, of commit_body "(k, False)"] that by simp
    then show ?thesis using True
      by (cases "commit_spec (elems (k_rob k)) k") (auto simp: commit_def dl.loop_before[OF i(7)])
  next
    case False
    then obtain k1 rest m where sp: "commit_spec (elems (k_rob k)) k = Inr (k1, rest, m)"
      by (auto simp: is_ok_iff)
    obtain l where l: "core_inv n (k1\<lparr>k_rob := l\<rparr>)"
      "commit c k = (if m then rob_flush c (k1\<lparr>k_rob := l\<rparr>) else Inr (k1\<lparr>k_rob := l\<rparr>))"
      using cval[OF sp] False by blast
    obtain k' where "rob_flush c (k1\<lparr>k_rob := l\<rparr>) = Inr k'" by (rule rob_flush_value[OF l(1), where c = c]) blast
    then show ?thesis using l False by simp
  qed
qed

section \<open>Dispatch\<close>

definition advance :: "core \<Rightarrow> core" where
  "advance k = k\<lparr>k_dec := (k_dec k)\<lparr>dc_dispatched := dc_dispatched (k_dec k) + 1\<rparr>\<rparr>"

text \<open>Dispatch touches only the fields of an object that place and time it.\<close>

definition placed :: "uop \<Rightarrow> uop \<Rightarrow> bool" where
  "placed u u' \<longleftrightarrow> u' = u\<lparr>u_status := u_status u', u_cycles := u_cycles u', u_queue := u_queue u',
     u_queue_el := u_queue_el u', u_rb_el := u_rb_el u'\<rparr>"

lemma placedD:
  assumes "placed u u'"
  shows "u_cpu u' = u_cpu u" "u_type u' = u_type u" "u_dep_in u' = u_dep_in u" "u_dep_out u' = u_dep_out u"
    "u_resolved u' = u_resolved u" "u_out_regs u' = u_out_regs u" "u_id u' = u_id u" "u_pipeline u' = u_pipeline u"
    "u_foresight u' = u_foresight u"
proof -
  note u = assms[unfolded placed_def]
  show "u_cpu u' = u_cpu u" by (rule arg_cong[OF u, of u_cpu, simplified])
  show "u_type u' = u_type u" by (rule arg_cong[OF u, of u_type, simplified])
  show "u_dep_in u' = u_dep_in u" by (rule arg_cong[OF u, of u_dep_in, simplified])
  show "u_dep_out u' = u_dep_out u" by (rule arg_cong[OF u, of u_dep_out, simplified])
  show "u_resolved u' = u_resolved u" by (rule arg_cong[OF u, of u_resolved, simplified])
  show "u_out_regs u' = u_out_regs u" by (rule arg_cong[OF u, of u_out_regs, simplified])
  show "u_id u' = u_id u" by (rule arg_cong[OF u, of u_id, simplified])
  show "u_pipeline u' = u_pipeline u" by (rule arg_cong[OF u, of u_pipeline, simplified])
  show "u_foresight u' = u_foresight u" by (rule arg_cong[OF u, of u_foresight, simplified])
qed

lemma note_branch_frame [simp]:
  "k_pool (note_branch p k) = k_pool k" "k_regs (note_branch p k) = k_regs k" "k_units (note_branch p k) = k_units k"
  "k_supply (note_branch p k) = k_supply k" "k_rob (note_branch p k) = k_rob k" "k_dec (note_branch p k) = k_dec k"
  "k_front (note_branch p k) = k_front k" "k_running (note_branch p k) = k_running k" "k_queue q (note_branch p k) = k_queue q k"
  by (cases q; simp add: note_branch_def)+

lemma held_advance:
  assumes "held d = p # ps"
  shows "held (d\<lparr>dc_dispatched := dc_dispatched d + 1\<rparr>) = ps" "dc_dispatched d < dc_allocated d"
    "p = dc_buffered d ! dc_dispatched d"
proof -
  have l: "dc_dispatched d < length (take (dc_allocated d) (dc_buffered d))"
    using assms by (metis drop_eq_Nil held_def list.discI not_le_imp_less)
  then have "drop (dc_dispatched d) (take (dc_allocated d) (dc_buffered d))
      = dc_buffered d ! dc_dispatched d # drop (Suc (dc_dispatched d)) (take (dc_allocated d) (dc_buffered d))"
    by (simp flip: Cons_nth_drop_Suc)
  then show "held (d\<lparr>dc_dispatched := dc_dispatched d + 1\<rparr>) = ps" "p = dc_buffered d ! dc_dispatched d"
    using assms by (simp_all add: held_def)
  show "dc_dispatched d < dc_allocated d" using l by simp
qed

text \<open>The two halves: into the station, and into the reorder buffer.\<close>

lemma enqueue_value:
  assumes inv: "core_inv n k" and h: "held (k_dec k) = p # ps" "u_type (u_of k p) < 32"
  defines "full \<equiv> (case station (u_type (u_of k p)) of None \<Rightarrow> False
     | Some q \<Rightarrow> length (elems (rq_list (k_queue q k))) = dl_capacity (rq_list (k_queue q k)))"
  obtains (full) "full" "enqueue p k = (k, False)"
    | (added) k1 where "\<not> full" "enqueue p k = (k1, True)"
      "placed (u_of k p) (u_of k1 p)" "\<And>r. r \<noteq> p \<Longrightarrow> u_of k1 r = u_of k r"
      "u_status (u_of k1 p) = (if station (u_type (u_of k p)) = None then Ready
          else if all_resolved (u_of k p) then Dep_Ready else Wait_Dep)"
      "\<And>q. queue_inv (k_pool k1) (k_queue q k1)" "\<And>q. rq_kind (k_queue q k1) = q"
      "\<And>q. elems (rq_list (k_queue q k1)) = elems (rq_list (k_queue q k)) @ (if station (u_type (u_of k p)) = Some q then [p] else [])"
      "k_regs k1 = k_regs k" "k_units k1 = k_units k" "k_supply k1 = k_supply k" "k_rob k1 = k_rob k" "k_dec k1 = k_dec k"
      "k_front k1 = k_front k" "k_running k1 = k_running k" "\<And>q. rq_flag (k_queue q k1) = rq_flag (k_queue q k)"
proof -
  note i = core_invD[OF inv]
  have pnew: "p \<notin> set (elems (rq_list (k_queue q k)))" for q
    using i(2)[of q] i(10) h(1) by (auto simp: station_ok_def places_def)
  show thesis
  proof (cases "station (u_type (u_of k p))")
    case None
    let ?k = "k\<lparr>k_pool := set_status Ready p (k_pool k)\<rparr>"
    show thesis
    proof (rule added[of ?k])
      show "queue_inv (k_pool ?k) (k_queue q ?k)" for q by (rule queue_inv_pool[OF i(12)[of q]]) simp_all
      show "rq_kind (k_queue q ?k) = q" for q using i(14)[of q] by simp
      show "placed (u_of k p) (u_of ?k p)" by (simp add: placed_def set_status_def)
      show "enqueue p k = (?k, True)" by (simp add: enqueue_def None)
    qed (simp_all add: None full_def set_status_def)
  next
    case (Some q)
    obtain h' r ok where a: "queue_add p (k_pool k) (k_queue q k) = (h', r, ok)" by (metis prod.exhaust)
    note v = queue_add_value[OF i(12)[of q] pnew[of q], unfolded a prod.case]
    show thesis
    proof (cases ok)
      case False
      then have nf: "\<not> length (elems (rq_list (k_queue q k))) < dl_capacity (rq_list (k_queue q k))" using v by blast
      have dq: "dl_inv (rq_list (k_queue q k))" using i(12)[of q] by (simp add: queue_inv_def)
      have "\<not> 0 < get_empty (rq_list (k_queue q k))" using nf by (simp only: get_empty_pos[OF dq] not_False_eq_True)
      then have "queue_add p (k_pool k) (k_queue q k) = (k_pool k, k_queue q k, False)" by (simp add: queue_add_def)
      then have "h' = k_pool k" "r = k_queue q k" using a by simp_all
      moreover have "put_queue q (k_queue q k) k = k" by (cases q) simp_all
      moreover have "length (elems (rq_list (k_queue q k))) \<le> dl_capacity (rq_list (k_queue q k))"
        using entries_capacity[OF dq] by (simp add: elems_def)
      ultimately show thesis using False nf by (intro full) (simp_all add: full_def Some enqueue_def a)
    next
      case True
      obtain el where h': "h' = (k_pool k)(p := (u_of k p)\<lparr>u_status := if all_resolved (u_of k p) then Dep_Ready else Wait_Dep,
          u_queue_el := Some el\<rparr>)" using v True by auto
      let ?k = "put_queue q r (k\<lparr>k_pool := h'\<rparr>)"
      show thesis
      proof (rule added[of ?k])
        show "queue_inv (k_pool ?k) (k_queue q' ?k)" for q'
        proof (cases "q' = q")
          case False
          show ?thesis by (rule queue_inv_pool[OF i(12)[of q']]) (use False pnew[of q'] h' in auto)
        qed (use v in simp)
        show "rq_kind (k_queue q' ?k) = q'" for q' using v i(14)[of q] i(14)[of q'] by simp
        show "elems (rq_list (k_queue q' ?k)) = elems (rq_list (k_queue q' k)) @ (if station (u_type (u_of k p)) = Some q' then [p] else [])" for q'
          using v True by (simp add: Some)
        show "enqueue p k = (?k, True)" using True by (simp add: enqueue_def Some a)
        show "placed (u_of k p) (u_of ?k p)" by (simp add: placed_def h')
        show "\<not> full" using v True by (simp add: full_def Some)
        show "rq_flag (k_queue q' ?k) = rq_flag (k_queue q' k)" for q' using v by simp
      qed (simp_all add: h' Some)
    qed
  qed
qed

lemma core_inv_note [simp]: "core_inv n (note_branch p k) = core_inv n k"
  by (simp add: core_inv_def lists_ok_def places_def station_ok_def rob_ok_def units_ok_def)

lemma placed_trans: "placed u v \<Longrightarrow> placed v w \<Longrightarrow> placed u w"
proof -
  assume "placed u v" "placed v w"
  then obtain v1 v2 v3 v4 v5 w1 w2 w3 w4 w5 where
    "v = u\<lparr>u_status := v1, u_cycles := v2, u_queue := v3, u_queue_el := v4, u_rb_el := v5\<rparr>"
    "w = v\<lparr>u_status := w1, u_cycles := w2, u_queue := w3, u_queue_el := w4, u_rb_el := w5\<rparr>"
    unfolding placed_def by blast
  then show "placed u w" by (simp add: placed_def)
qed

text \<open>The time and the reorder buffer: what happens once the station has accepted the instruction.\<close>

definition finish_dispatch :: "cfg \<Rightarrow> u64 \<Rightarrow> nat \<Rightarrow> core \<Rightarrow> core res" where
  "finish_dispatch c cyc p k1 =
     rbind (memory_time cyc p (upd p (\<lambda>u. u\<lparr>u_cycles := u_cycles u + cf_cycles c (u_type u)\<rparr>) k1)) (\<lambda>k2.
       Inr (rob_add p (upd p (\<lambda>u. u\<lparr>u_queue := station (u_type u)\<rparr>) k2)))"

lemma dispatch_alt:
  "dispatch c cyc p k = (case enqueue p (note_branch p k) of (k1, ok) \<Rightarrow>
     if ok then rbind (finish_dispatch c cyc p k1) (\<lambda>k2. Inr (k2, True)) else Inr (k1, False))"
proof (cases "enqueue p (note_branch p k)")
  case (Pair k1 ok)
  then show ?thesis
    by (cases "memory_time cyc p (upd p (\<lambda>u. u\<lparr>u_cycles := u_cycles u + cf_cycles c (u_type u)\<rparr>) k1)")
      (simp_all add: dispatch_def finish_dispatch_def)
qed

lemma finish_value:
  assumes "finish_dispatch c cyc p k1 = Inr k2" "dl_inv (k_rob k1)" "length (elems (k_rob k1)) < dl_capacity (k_rob k1)"
  obtains el where "placed (u_of k1 p) (u_of k2 p)" "\<And>r. r \<noteq> p \<Longrightarrow> u_of k2 r = u_of k1 r"
    "u_rb_el (u_of k2 p) = Some el" "u_queue (u_of k2 p) = station (u_type (u_of k1 p))"
    "u_status (u_of k2 p) = u_status (u_of k1 p)" "u_queue_el (u_of k2 p) = u_queue_el (u_of k1 p)"
    "dl_inv (k_rob k2)" "entries (k_rob k2) = entries (k_rob k1) @ [(el, p)]" "elems (k_rob k2) = elems (k_rob k1) @ [p]"
    "dl_capacity (k_rob k2) = dl_capacity (k_rob k1)"
    "k_regs k2 = k_regs k1" "k_units k2 = k_units k1" "k_supply k2 = k_supply k1" "k_dec k2 = k_dec k1"
    "k_running k2 = k_running k1" "\<And>q. k_queue q k2 = k_queue q k1"
proof -
  obtain el where el: "add_end p (k_rob k1) = (fst (add_end p (k_rob k1)), Some el)" "dl_inv (fst (add_end p (k_rob k1)))"
    "entries (fst (add_end p (k_rob k1))) = entries (k_rob k1) @ [(el, p)]"
    "elems (fst (add_end p (k_rob k1))) = elems (k_rob k1) @ [p]"
    "dl_capacity (fst (add_end p (k_rob k1))) = dl_capacity (k_rob k1)"
    by (rule push_end[OF assms(2,3)])
  let ?k = "upd p (\<lambda>u. u\<lparr>u_cycles := u_cycles u + cf_cycles c (u_type u)\<rparr>) k1"
  obtain k where m: "memory_time cyc p ?k = Inr k" and k2: "k2 = rob_add p (upd p (\<lambda>u. u\<lparr>u_queue := station (u_type u)\<rparr>) k)"
    using assms(1) by (auto simp: finish_dispatch_def rbind_Inr_iff)
  have k: "placed (u_of ?k p) (u_of k p)" "u_status (u_of k p) = u_status (u_of ?k p)" "u_queue_el (u_of k p) = u_queue_el (u_of ?k p)"
    "\<And>r. r \<noteq> p \<Longrightarrow> u_of k r = u_of ?k r" "k_rob k = k_rob ?k" "k_regs k = k_regs ?k" "k_units k = k_units ?k"
    "k_supply k = k_supply ?k" "k_dec k = k_dec ?k" "k_running k = k_running ?k" "\<And>q. k_queue q k = k_queue q ?k"
    using m by (auto simp: memory_time_def rbind_Inr_iff placed_def split: if_splits)
  have "placed (u_of k1 p) (u_of ?k p)" by (simp add: placed_def)
  then have p1: "placed (u_of k1 p) (u_of k p)" using placed_trans k(1) by blast
  have k2': "k2 = upd p (\<lambda>u. u\<lparr>u_rb_el := Some el\<rparr>) ((upd p (\<lambda>u. u\<lparr>u_queue := station (u_type u)\<rparr>) k)\<lparr>k_rob := fst (add_end p (k_rob k1))\<rparr>)"
  proof -
    have "add_end p (k_rob (upd p (\<lambda>u. u\<lparr>u_queue := station (u_type u)\<rparr>) k)) = (fst (add_end p (k_rob k1)), Some el)"
      using el(1) k(5) by simp
    then show ?thesis by (simp only: k2 rob_add_def prod.case)
  qed
  have "placed (u_of k p) (u_of k2 p)" by (simp add: k2' placed_def)
  then have "placed (u_of k1 p) (u_of k2 p)" using placed_trans p1 by blast
  moreover have "u_type (u_of k p) = u_type (u_of k1 p)" by (rule placedD(2)[OF p1])
  ultimately show thesis
    by (intro that[of el]) (use el k in \<open>simp_all add: k2'\<close>)
qed

lemma live_distinct:
  assumes "core_inv n k"
  shows "distinct (elems (k_rob k) @ held (k_dec k))"
  using core_invD(10)[OF assms] by (simp add: places_def)

lemma dispatch_value:
  assumes inv: "core_inv n k" and h: "held (k_dec k) = p # ps" "u_type (u_of k p) < 32"
  defines "full \<equiv> (case station (u_type (u_of k p)) of None \<Rightarrow> False
     | Some q \<Rightarrow> length (elems (rq_list (k_queue q k))) = dl_capacity (rq_list (k_queue q k)))"
  obtains (full) "full" "dispatch c cyc p k = Inr (note_branch p k, False)"
    | (fault) k1 e where "enqueue p (note_branch p k) = (k1, True)" "finish_dispatch c cyc p k1 = Inl e" "dispatch c cyc p k = Inl e"
    | (added) k' where "\<not> full" "dispatch c cyc p k = Inr (k', True)" "core_inv n (advance k')"
      "elems (k_rob k') = elems (k_rob k) @ [p]" "held (k_dec (advance k')) = ps"
      "placed (u_of k p) (u_of k' p)" "\<And>r. r \<noteq> p \<Longrightarrow> u_of k' r = u_of k r"
      "u_status (u_of k' p) = (if station (u_type (u_of k p)) = None then Ready
          else if all_resolved (u_of k p) then Dep_Ready else Wait_Dep)"
      "\<And>q. elems (rq_list (k_queue q k')) = elems (rq_list (k_queue q k)) @ (if station (u_type (u_of k p)) = Some q then [p] else [])"
      "k_regs k' = k_regs k" "k_units k' = k_units k" "k_supply k' = k_supply k" "k_dec k' = k_dec k" "k_running k' = k_running k"
      "\<And>q. rq_flag (k_queue q k') = rq_flag (k_queue q k)"
proof -
  let ?k = "note_branch p k"
  have inv': "core_inv n ?k" using inv by simp
  note i = core_invD[OF inv']
  have h': "held (k_dec ?k) = p # ps" "u_type (u_of ?k p) < 32" using h by simp_all
  have room: "length (elems (k_rob k)) < n" using places_count[OF i(1)] h(1) by simp
  show thesis
  proof (cases rule: enqueue_value[OF inv' h', case_names f a])
    case f
    then show thesis by (intro full) (simp_all add: full_def dispatch_alt split: option.splits)
  next
    case (a k1)
    show thesis
    proof (cases "finish_dispatch c cyc p k1")
      case (Inl e)
      then show thesis by (intro fault[of k1 e]) (simp_all add: dispatch_alt a(2))
    next
      case (Inr k2)
      have "dl_inv (k_rob k1)" "length (elems (k_rob k1)) < dl_capacity (k_rob k1)" using i(7,9) room a(12) by simp_all
      then obtain el where f: "placed (u_of k1 p) (u_of k2 p)" "\<And>r. r \<noteq> p \<Longrightarrow> u_of k2 r = u_of k1 r"
        "u_rb_el (u_of k2 p) = Some el" "u_queue (u_of k2 p) = station (u_type (u_of k1 p))"
        "u_status (u_of k2 p) = u_status (u_of k1 p)" "u_queue_el (u_of k2 p) = u_queue_el (u_of k1 p)"
        "dl_inv (k_rob k2)" "entries (k_rob k2) = entries (k_rob k1) @ [(el, p)]" "elems (k_rob k2) = elems (k_rob k1) @ [p]"
        "dl_capacity (k_rob k2) = dl_capacity (k_rob k1)"
        "k_regs k2 = k_regs k1" "k_units k2 = k_units k1" "k_supply k2 = k_supply k1" "k_dec k2 = k_dec k1"
        "k_running k2 = k_running k1" "\<And>q. k_queue q k2 = k_queue q k1"
        by (rule finish_value[OF Inr]) blast
      have oth: "u_of k2 r = u_of k r" if "r \<noteq> p" for r using f(2) a(4) that by simp
      have pl: "placed (u_of k p) (u_of k2 p)" using placed_trans a(3) f(1) by fastforce
      note pd = placedD[OF pl]
      have ty: "u_type (u_of k1 p) = u_type (u_of k p)" using placedD(2)[OF a(3)] by simp
      have qs: "elems (rq_list (k_queue q k2)) = elems (rq_list (k_queue q k)) @ (if station (u_type (u_of k p)) = Some q then [p] else [])" for q
        using a(8)[of q] f(16)[of q] by simp
      have pnew: "p \<notin> set (elems (k_rob k))" using live_distinct[OF inv] h(1) by simp
      have st: "u_status (u_of k2 p) \<noteq> Ready" if "station (u_type (u_of k p)) \<noteq> None" using a(5) f(5) that by simp
      have hd: "held (k_dec (advance k2)) = ps" using held_advance(1)[OF h(1)] f(14) a(13) by (simp add: advance_def)
      have "core_inv n (advance k2)" unfolding core_inv_def
      proof (intro conjI allI)
        show "lists_ok n (advance k2)"
          using i(1) hd f(7,9,10,13) a(11,12) h(1)
          by (auto simp: lists_ok_def places_def advance_def)
        show "station_ok (advance k2) q" for q
        proof -
          have "queue_inv (k_pool k2) (k_queue q k2)"
          proof (rule queue_inv_pool[OF a(6)[of q]])
            show "u_queue_el (u_of k2 r) = u_queue_el (u_of k1 r)" for r using f(2,6) by (cases "r = p") simp_all
          qed (simp add: f(16))
          moreover have "u_queue (u_of k2 r) = Some q \<and> r \<in> set (elems (k_rob k2)) \<and> u_status (u_of k2 r) \<noteq> Ready"
            if r: "r \<in> set (elems (rq_list (k_queue q k2)))" for r
          proof (cases "r = p")
            case True
            have "r \<notin> set (elems (rq_list (k_queue q k)))" using station_rob[OF inv] pnew True by blast
            then have "station (u_type (u_of k p)) = Some q" using r qs by (auto split: if_splits)
            then show ?thesis using True f(4,9) st ty by simp
          next
            case False
            then have "r \<in> set (elems (rq_list (k_queue q k)))" using r qs by (auto split: if_splits)
            then show ?thesis using i(2)[of q] oth[OF False] f(9) a(12) by (simp add: station_ok_def)
          qed
          ultimately show ?thesis using a(7)[of q] f(16)[of q] by (simp add: station_ok_def advance_def)
        qed
        show "rob_ok (advance k2)"
        proof -
          have "u_rb_el (u_of k2 r) = Some e" if "(e, r) \<in> set (entries (k_rob k2))" for e r
          proof (cases "(e, r) = (el, p)")
            case False
            then have er: "(e, r) \<in> set (entries (k_rob k))" using that f(8) a(12) by auto
            then have "r \<noteq> p" using pnew by (force simp: elems_def)
            then show ?thesis using i(3) er oth by (auto simp: rob_ok_def)
          qed (use f(3) in simp)
          moreover have "u_cpu (u_of k2 r) = 0" if "r \<in> set (elems (k_rob k2)) \<union> set ps" for r
          proof -
            have "r \<in> set (elems (k_rob k)) \<union> set (held (k_dec k))" using that f(9) a(12) h(1) by auto
            then have "u_cpu (u_of k r) = 0" by (rule live_cpu[OF inv])
            then show ?thesis using oth pd(1) by (cases "r = p") simp_all
          qed
          moreover have "u_type (u_of k2 r) < 32" if "r \<in> set (elems (k_rob k2))" for r
          proof (cases "r = p")
            case False
            then show ?thesis using that f(9) a(12) i(3) oth by (simp add: rob_ok_def)
          qed (use h(2) pd(2) in simp)
          ultimately show ?thesis unfolding rob_ok_def hd by (auto simp: advance_def)
        qed
        show "units_ok (advance k2)"
        proof -
          have "k_units k2 = k_units k" using f(12) a(10) by simp
          moreover have "r \<noteq> p" if "r \<in> set (running (k_units k))" for r using running_rob[OF inv that] pnew by blast
          ultimately show ?thesis using i(4) oth qs unfolding units_ok_def advance_def by auto
        qed
        show "decoder_ok (k_dec (advance k2))"
          using i(5) held_advance(2)[OF h(1)] f(14) a(13) by (simp add: decoder_ok_def advance_def)
      qed
      moreover have "dispatch c cyc p k = Inr (k2, True)" by (simp add: dispatch_alt a(2) Inr)
      ultimately show thesis
        by (intro added[of k2]) (use a f pl oth qs hd in \<open>simp_all add: full_def split: option.splits\<close>)
    qed
  qed
qed

end
