(* ===== verification/Pipeline_Deps.thy ===== *)
theory Pipeline_Deps
  imports Pipeline_Inv
begin

text \<open>
  The dependency graph of the instructions in flight. The records of an instruction object that is back
  in the supply are stale, so the graph of \<open>Instruction\<close> is cut down to the live objects. An instruction
  in flight waits only for older ones whose result is still to come; the oldest one therefore waits for
  nothing, and the dead-lock exit of \<open>commit\<close> cannot be taken.
\<close>

section \<open>The live part of the graph\<close>

definition live_part :: "nat set \<Rightarrow> pool \<Rightarrow> pool" where
  "live_part L h = (\<lambda>p. if p \<in> L then h p else (h p)\<lparr>u_dep_in := [], u_dep_out := []\<rparr>)"

lemma cut_in [simp]: "p \<in> L \<Longrightarrow> live_part L h p = h p"
  by (simp add: live_part_def)

lemma cut_edges:
  "in_edge (live_part L h) d k s j \<longleftrightarrow> d \<in> L \<and> in_edge h d k s j"
  "out_edge (live_part L h) s j d k \<longleftrightarrow> s \<in> L \<and> out_edge h s j d k"
  by (simp_all add: in_edge_def out_edge_def live_part_def)

lemma linked_cut:
  assumes "linked (live_part L h)"
  shows "d \<in> L \<Longrightarrow> in_edge h d k s j \<Longrightarrow> s \<in> L \<and> out_edge h s j d k"
    and "s \<in> L \<Longrightarrow> out_edge h s j d k \<Longrightarrow> d \<in> L \<and> in_edge h d k s j"
  using linked_sym[OF assms, of d k s j] by (auto simp: cut_edges)

text \<open>Every producer in a list of records is live.\<close>

definition targets_in :: "nat set \<Rightarrow> (nat option \<times> nat) list \<Rightarrow> bool" where
  "targets_in L es \<longleftrightarrow> (\<forall>d i. (Some d, i) \<in> set es \<longrightarrow> d \<in> L)"

lemma targets_live: "linked (live_part L h) \<Longrightarrow> p \<in> L \<Longrightarrow> targets_in L (u_dep_out (h p))"
  using linked_cut(2)[of L h p] by (fastforce simp: targets_in_def out_edge_def in_set_conv_nth)

lemma targets_clear: "targets_in L es \<Longrightarrow> targets_in L (es[i := (None, k)])"
  by (auto simp: targets_in_def dest: set_update_subset_insert[THEN subsetD])

lemma cut_upd: "p \<in> L \<Longrightarrow> (live_part L h)(p := u) = live_part L (h(p := u))"
  by (auto simp: live_part_def)

lemma set_status_cut: "p \<in> L \<Longrightarrow> set_status s p (live_part L h) = live_part L (set_status s p h)"
  by (simp add: set_status_def cut_upd)

lemma resolve_cut:
  assumes "p \<in> L" "targets_in L (u_dep_out (h p))" "i < length (u_dep_out (h p))" "\<And>k. (Some p, k) \<notin> set (u_dep_out (h p))"
  shows "resolve_edge p i (live_part L h) = live_part L (resolve_edge p i h)"
    and "targets_in L (u_dep_out (resolve_edge p i h p))" "length (u_dep_out (resolve_edge p i h p)) = length (u_dep_out (h p))"
    "\<And>k. (Some p, k) \<notin> set (u_dep_out (resolve_edge p i h p))"
proof -
  obtain x k where e: "u_dep_out (h p) ! i = (x, k)" by force
  have eL: "u_dep_out (live_part L h p) ! i = (x, k)" using assms(1) e by simp
  have m: "(x, k) \<in> set (u_dep_out (h p))" using e assms(3) by (metis nth_mem)
  show "resolve_edge p i (live_part L h) = live_part L (resolve_edge p i h)"
  proof (cases x)
    case None
    then show ?thesis by (simp add: resolve_edge_def e eL)
  next
    case (Some d)
    then have d: "d \<in> L" using assms(2) m by (auto simp: targets_in_def)
    show ?thesis using assms(1) d Some
      by (simp add: resolve_edge_def e eL Let_def cut_upd set_status_cut)
  qed
  have o: "u_dep_out (resolve_edge p i h p) = (u_dep_out (h p))[i := (None, k)]"
  proof (cases x)
    case None
    then show ?thesis using e list_update_id[of "u_dep_out (h p)" i] by (simp add: resolve_edge_def)
  next
    case (Some d)
    then have "d \<noteq> p" using m assms(4) by blast
    then show ?thesis using Some by (simp add: resolve_edge_def e Let_def set_status_def)
  qed
  show "targets_in L (u_dep_out (resolve_edge p i h p))" "length (u_dep_out (resolve_edge p i h p)) = length (u_dep_out (h p))"
    using targets_clear[OF assms(2)] by (simp_all add: o)
  show "(Some p, k) \<notin> set (u_dep_out (resolve_edge p i h p))" for k
    using assms(4) set_update_subset_insert[of "u_dep_out (h p)" i] by (auto simp: o)
qed

lemma fold_resolve_cut:
  assumes "p \<in> L" "targets_in L (u_dep_out (h p))" "\<And>k. (Some p, k) \<notin> set (u_dep_out (h p))"
    "\<forall>i \<in> set is'. i < length (u_dep_out (h p))"
  shows "fold (resolve_edge p) is' (live_part L h) = live_part L (fold (resolve_edge p) is' h)"
  using assms
proof (induction is' arbitrary: h)
  case (Cons i js)
  have i: "i < length (u_dep_out (h p))" using Cons.prems(4) by simp
  note r = resolve_cut[where i = i and h = h and p = p and L = L, OF Cons.prems(1) Cons.prems(2) i Cons.prems(3)]
  have "fold (resolve_edge p) js (live_part L (resolve_edge p i h)) = live_part L (fold (resolve_edge p) js (resolve_edge p i h))"
    by (rule Cons.IH) (use Cons.prems r in auto)
  then show ?case by (simp add: r(1))
qed simp

text \<open>Write-back on the live part is what \<open>Instruction\<close> shows of the whole graph.\<close>

lemma live_write_back:
  assumes "linked (live_part L h)" "p \<in> L"
  obtains h' where "uop_write_back p h g = (h', free_regs p (u_out_regs (h p)) g)"
    "live_part L h' = (\<lambda>d. if d = p then finished (h p) else released p (live_part L h d))" "linked (live_part L h')"
    "\<And>d k s j. in_edge (live_part L h') d k s j \<longleftrightarrow> in_edge (live_part L h) d k s j \<and> s \<noteq> p"
proof -
  let ?h = "set_status Ready p h"
  let ?is = "[0..<length (u_dep_out (?h p))]"
  have self: "(Some p, k) \<notin> set (u_dep_out (h p))" for k
  proof
    assume "(Some p, k) \<in> set (u_dep_out (h p))"
    then obtain j where "out_edge (live_part L h) p j p k" using assms(2) by (auto simp: out_edge_def in_set_conv_nth)
    then have "in_edge (live_part L h) p k p j" by (simp add: linked_sym[OF assms(1)])
    then show False using linked_irrefl[OF assms(1)] by blast
  qed
  have out: "u_dep_out (?h p) = u_dep_out (h p)" by (simp add: set_status_def)
  have f: "fold (resolve_edge p) ?is (live_part L ?h) = live_part L (fold (resolve_edge p) ?is ?h)"
    by (rule fold_resolve_cut[OF assms(2)]) (use targets_live[OF assms] self out in auto)
  define h' where "h' = fold (resolve_edge p) ?is ?h"
  have "uop_write_back p (live_part L h) g = (live_part L h', free_regs p (u_out_regs (live_part L h' p)) g)"
    using assms(2) f by (simp add: uop_write_back_def Let_def h'_def set_status_cut out)
  moreover have "live_part L h p = h p" using assms(2) by simp
  ultimately
  have v: "live_part L h' = (\<lambda>d. if d = p then finished (h p) else released p (live_part L h d))" using write_back_value[OF assms(1), of p g] by (simp only: prod.inject)
  have "u_out_regs (h' p) = u_out_regs (h p)"
    using fun_cong[OF v, of p] assms(2) by (simp add: finished_def)
  then have "uop_write_back p h g = (h', free_regs p (u_out_regs (h p)) g)"
    by (simp add: uop_write_back_def Let_def h'_def)
  moreover have "linked (live_part L h')" "in_edge (live_part L h') d k s j \<longleftrightarrow> in_edge (live_part L h) d k s j \<and> s \<noteq> p" for d k s j
    using cut_producer[OF assms(1), of p "live_part L h'"] assms(2) by (simp_all add: v finished_def released_def Let_def)
  ultimately show thesis using that v by blast
qed

section \<open>Order\<close>

definition before :: "'a list \<Rightarrow> 'a \<Rightarrow> 'a \<Rightarrow> bool" where
  "before xs a b \<longleftrightarrow> (\<exists>us vs. xs = us @ a # vs \<and> b \<in> set vs)"

lemma before_mem: "before xs a b \<Longrightarrow> a \<in> set xs \<and> b \<in> set xs"
  by (auto simp: before_def)

lemma before_append: "before xs a b \<Longrightarrow> before (xs @ ys) a b"
  by (force simp: before_def)

lemma before_last: "a \<in> set xs \<Longrightarrow> before (xs @ [b]) a b"
  by (auto simp: before_def dest!: split_list) (metis append_Cons append_assoc in_set_conv_decomp)

lemma before_suffix:
  assumes "before (ds @ rest) a b" "a \<notin> set ds"
  shows "before rest a b"
proof -
  obtain us vs where u: "ds @ rest = us @ a # vs" "b \<in> set vs" using assms(1) by (auto simp: before_def)
  have "length ds \<le> length us"
  proof (rule ccontr)
    assume "\<not> length ds \<le> length us"
    then have "a = ds ! length us" using u(1) by (metis nth_append nth_append_length not_le)
    then show False using assms(2) \<open>\<not> length ds \<le> length us\<close> by simp
  qed
  then obtain ws where "us = ds @ ws" using u(1) by (metis append_eq_append_conv_if append_take_drop_id)
  then have "rest = ws @ a # vs" using u(1) by simp
  then show ?thesis using u(2) by (auto simp: before_def)
qed

lemma before_not_head: "distinct (x # xs) \<Longrightarrow> \<not> before (x # xs) a x"
proof
  assume d: "distinct (x # xs)" and "before (x # xs) a x"
  then obtain us vs where "x # xs = us @ a # vs" "x \<in> set vs" by (auto simp: before_def)
  then show False using d by (cases us) auto
qed

section \<open>The invariant\<close>

definition live :: "core \<Rightarrow> nat list" where
  "live k = elems (k_rob k) @ held (k_dec k)"

text \<open>The result of \<open>s\<close> is still to come: it is held by the decoder or waits in a station.\<close>

definition pending :: "core \<Rightarrow> nat \<Rightarrow> bool" where
  "pending k s \<longleftrightarrow> s \<in> set (held (k_dec k)) \<or> in_station k s"

definition edges_ok :: "core \<Rightarrow> bool" where
  "edges_ok k \<longleftrightarrow> linked (live_part (set (live k)) (k_pool k))
     \<and> (\<forall>d \<in> set (live k). counted (u_of k d)
          \<and> (\<forall>i s j. in_edge (k_pool k) d i s j \<longrightarrow> pending k s \<and> before (live k) s d))"

definition waits_ok :: "core \<Rightarrow> bool" where
  "waits_ok k \<longleftrightarrow> (\<forall>d \<in> set (elems (k_rob k)). (u_status (u_of k d) = Wait_Dep \<longleftrightarrow> 0 < open_deps (u_of k d))
     \<and> (u_status (u_of k d) \<noteq> Ready \<longrightarrow> in_station k d))"

definition regs_ok :: "core \<Rightarrow> bool" where
  "regs_ok k \<longleftrightarrow> (\<forall>r s. k_regs k r = Some s \<longrightarrow> pending k s \<and> r \<in> set (u_out_regs (u_of k s)))"

text \<open>
  The port queue keeps the order of the reorder buffer, and its flag stands for its first instruction being
  the oldest of all and ready: only then is it issued, whatever its status.
\<close>

definition port_ok :: "core \<Rightarrow> bool" where
  "port_ok k \<longleftrightarrow> elems (rq_list (k_io k)) = filter (\<lambda>p. p \<in> set (elems (rq_list (k_io k)))) (elems (k_rob k))
     \<and> (rq_flag (k_io k) 0 \<longrightarrow> (\<exists>p ps qs. elems (k_rob k) = p # ps \<and> elems (rq_list (k_io k)) = p # qs
          \<and> u_status (u_of k p) = Dep_Ready))"

definition pipe_inv :: "nat \<Rightarrow> core \<Rightarrow> bool" where
  "pipe_inv n k \<longleftrightarrow> core_inv n k \<and> edges_ok k \<and> waits_ok k \<and> regs_ok k \<and> port_ok k"

lemma pipe_invD:
  assumes "pipe_inv n k"
  shows "core_inv n k" "edges_ok k" "waits_ok k" "regs_ok k" "port_ok k"
  using assms by (simp_all add: pipe_inv_def)

lemma open_edge:
  assumes "0 < open_deps (h d)"
  obtains i s j where "in_edge h d i s j"
proof -
  obtain e where e: "e \<in> set (u_dep_in (h d))" "fst e \<noteq> None"
    using assms by (auto simp: open_deps_def filter_empty_conv)
  obtain i where i: "i < length (u_dep_in (h d))" "u_dep_in (h d) ! i = e"
    using e(1) by (auto simp: in_set_conv_nth)
  obtain s j where "e = (Some s, j)" using e(2) by (cases e) auto
  then show thesis using i that by (simp add: in_edge_def)
qed

lemma edge_open: "in_edge h d i s j \<Longrightarrow> 0 < open_deps (h d)"
  by (force simp: open_deps_def in_edge_def filter_empty_conv in_set_conv_nth)

text \<open>The oldest instruction waits for nothing.\<close>

lemma head_free:
  assumes "pipe_inv n k" "elems (k_rob k) = p # ps"
  shows "open_deps (u_of k p) = 0" "u_status (u_of k p) \<noteq> Wait_Dep"
proof -
  note i = pipe_invD[OF assms(1)]
  show o: "open_deps (u_of k p) = 0"
  proof (rule ccontr)
    assume "open_deps (u_of k p) \<noteq> 0"
    then obtain a s j where "in_edge (k_pool k) p a s j" using open_edge[of "k_pool k" p] by auto
    moreover have "p \<in> set (live k)" using assms(2) by (simp add: live_def)
    ultimately have "before (live k) s p" using i(2) unfolding edges_ok_def by blast
    moreover have "distinct (live k)" unfolding live_def by (rule live_distinct[OF i(1)])
    ultimately show False using before_not_head[of p "ps @ held (k_dec k)"] assms(2) by (simp add: live_def)
  qed
  show "u_status (u_of k p) \<noteq> Wait_Dep" using i(3) o assms(2) by (simp add: waits_ok_def)
qed

lemma no_dead_lock: "pipe_inv n k \<Longrightarrow> \<not> head_waits k"
  using head_free(2) core_invD(7)[OF pipe_invD(1)] by (metis head_waits_value)

section \<open>Commit and flush keep it\<close>

lemma linked_shrink:
  assumes "linked (live_part L h)" "L' \<subseteq> L" "\<And>d i s j. d \<in> L \<Longrightarrow> in_edge h d i s j \<Longrightarrow> d \<in> L' \<longleftrightarrow> s \<in> L'"
  shows "linked (live_part L' h)"
proof (rule linkedI)
  fix d i s j
  show "in_edge (live_part L' h) d i s j = out_edge (live_part L' h) s j d i"
  proof
    assume "in_edge (live_part L' h) d i s j"
    then have d: "d \<in> L'" "in_edge h d i s j" by (simp_all add: cut_edges)
    then have "s \<in> L \<and> out_edge h s j d i" using linked_cut(1)[OF assms(1)] assms(2) by blast
    then show "out_edge (live_part L' h) s j d i" using d assms(2,3) by (auto simp: cut_edges)
  next
    assume "out_edge (live_part L' h) s j d i"
    then have s: "s \<in> L'" "out_edge h s j d i" by (simp_all add: cut_edges)
    then have "d \<in> L \<and> in_edge h d i s j" using linked_cut(2)[OF assms(1)] assms(2) by blast
    then show "in_edge (live_part L' h) d i s j" using s assms(3) by (auto simp: cut_edges)
  qed
next
  show "\<not> in_edge (live_part L' h) d i d j" for d i j
    using linked_irrefl[OF assms(1), of d i j] assms(2) by (auto simp: cut_edges)
qed

lemma linked_none: "linked (live_part {} h)"
  by (rule linkedI) (simp_all add: cut_edges)

lemma flush_pipe_inv:
  assumes "pipe_inv n k"
  obtains k' where "rob_flush c k = Inr k'" "pipe_inv n k'"
proof -
  obtain k' where k': "rob_flush c k = Inr k'" "core_inv n k'" "elems (k_rob k') = []" "held (k_dec k') = []"
    "\<And>q. elems (rq_list (k_queue q k')) = []" "k_regs k' = (\<lambda>_. None)" "\<And>q. q \<noteq> Rs_Queue \<longrightarrow> \<not> rq_flag (k_queue q k') 0"
    by (rule rob_flush_value[OF pipe_invD(1)[OF assms], where c = c]) blast
  then have "pipe_inv n k'"
    using k'(7)[of Io_Queue] k'(5)[of Io_Queue]
    by (simp add: pipe_inv_def edges_ok_def waits_ok_def regs_ok_def port_ok_def live_def linked_none)
  with k'(1) show thesis by (rule that)
qed

lemma commit_effect_queue: "commit_effect p k = Inr (k', f) \<Longrightarrow> k_queue q k' = k_queue q k"
  by (auto simp: commit_effect_def Let_def rbind_Inr_iff flush_pipeline_others_def warn_branch_predictor_def put_cpu_def
      split: if_splits)

lemma put_other [simp]: "q \<noteq> Io_Queue \<Longrightarrow> k_io (put_queue q r k) = k_io k"
  by (cases q) simp_all

lemma commit_spec_flag:
  assumes "commit_spec ps k = Inr (k', rest, m)" "rq_flag (k_io k') 0"
  shows "rq_flag (k_io k) 0 \<or> (\<exists>p rs. rest = p # rs \<and> u_status (u_of k p) = Dep_Ready \<and> u_queue (u_of k p) = Some Io_Queue)"
  using assms
proof (induction ps arbitrary: k)
  case (Cons p ps)
  show ?case
  proof (cases "u_status (u_of k p) = Ready")
    case False
    then show ?thesis using Cons.prems
      by (auto simp: arrived_to_commit_def queue_arrived_def split: if_splits option.splits queue_id.splits)
  next
    case True
    obtain k1 f where e: "commit_effect p k = Inr (k1, f)" using Cons.prems True by (auto simp: rbind_Inr_iff)
    have q: "k_io k1 = k_io k" using commit_effect_queue[OF e, of Io_Queue] by simp
    have h: "k_pool k1 = k_pool k" using commit_effect_frame(1)[OF e] by (simp add: same_back_def)
    show ?thesis
    proof (cases "f \<or> \<not> u_foresight (u_of k p)")
      case True
      then show ?thesis using Cons.prems e \<open>u_status (u_of k p) = Ready\<close> q h by auto
    next
      case go: False
      have "commit_spec ps (takes_back p k1) = Inr (k', rest, m)" using Cons.prems(1) True e h go by simp
      then show ?thesis using Cons.IH[of "takes_back p k1"] Cons.prems(2) q h by (simp add: takes_back_def)
    qed
  qed
qed simp

lemma filter_tail: "filter (\<lambda>p. p \<in> set ys) (ds @ rest) = ys \<Longrightarrow> set ds \<inter> set ys = {} \<Longrightarrow> filter (\<lambda>p. p \<in> set ys) rest = ys"
  by (metis append.left_neutral disjoint_iff filter_append filter_False)

lemma retired_pipe_inv:
  assumes inv: "pipe_inv n k" and sp: "commit_spec (elems (k_rob k)) k = Inr (k1, rest, m)"
    and l: "elems l = rest" "core_inv n (k1\<lparr>k_rob := l\<rparr>)"
  shows "pipe_inv n (k1\<lparr>k_rob := l\<rparr>)"
proof -
  note i = pipe_invD[OF inv] and c = core_invD[OF pipe_invD(1)[OF inv]]
  have room: "length (elems (k_supply k)) + length (elems (k_rob k)) \<le> dl_capacity (k_supply k)"
    using places_count[OF c(1)] c(8) by simp
  obtain ds where ds: "elems (k_rob k) = ds @ rest" "\<forall>p \<in> set ds. retires (u_of k p)" "same_back k k1"
    using commit_spec_value[OF sp c(6) room] by metis
  let ?k = "k1\<lparr>k_rob := l\<rparr>"
  have f: "k_pool k1 = k_pool k" "k_regs k1 = k_regs k" "k_dec k1 = k_dec k" "rq_list (k_queue q k1) = rq_list (k_queue q k)" for q
    using ds(3) by (simp_all add: same_back_def)
  have io: "rq_list (k_io k1) = rq_list (k_io k)" using f(4)[of Io_Queue] by simp
  have lv: "live k = ds @ live ?k" by (simp add: live_def l(1) ds(1) f(3))
  have dist: "distinct (live k)" unfolding live_def by (rule live_distinct[OF i(1)])
  have fin: "\<not> in_station k p" if "p \<in> set ds" for p
    using ds(2) that core_invD(2)[OF i(1)] by (fastforce simp: retires_def station_ok_def)
  have pend: "pending ?k s = pending k s" for s by (simp add: pending_def f)
  have gone: "\<not> pending k s" if "s \<in> set ds" for s
    using fin[OF that] that dist by (auto simp: pending_def live_def ds(1))
  have edge: "s \<in> set (live ?k) \<and> d \<in> set (live ?k) \<and> before (live ?k) s d"
    if d: "d \<in> set (live k)" "in_edge (k_pool k) d a s j" for d a s j
  proof -
    have b: "before (live k) s d" "pending k s" using i(2) d unfolding edges_ok_def by blast+
    then have "before (live ?k) s d" using gone before_suffix[of ds "live ?k"] by (metis lv)
    then show ?thesis using before_mem by fast
  qed
  have "edges_ok ?k" unfolding edges_ok_def
  proof (intro conjI ballI allI impI)
    show "linked (live_part (set (live ?k)) (k_pool ?k))"
    proof (simp add: f, rule linked_shrink)
      show "linked (live_part (set (live k)) (k_pool k))" using i(2) by (simp add: edges_ok_def)
      show "d \<in> set (live ?k) \<longleftrightarrow> s \<in> set (live ?k)" if "d \<in> set (live k)" "in_edge (k_pool k) d a s j" for d a s j
        using edge[OF that] by blast
    qed (simp add: lv)
    fix d assume "d \<in> set (live ?k)"
    then have d: "d \<in> set (live k)" by (simp add: lv)
    then show "counted (u_of ?k d)" using i(2) by (simp add: edges_ok_def f)
    show "pending ?k s" if "in_edge (k_pool ?k) d a s j" for a s j
      using i(2) d that unfolding edges_ok_def pend by (simp add: f) blast
    show "before (live ?k) s d" if "in_edge (k_pool ?k) d a s j" for a s j using edge[OF d] that by (simp add: f)
  qed
  moreover have "waits_ok ?k" using i(3) by (simp add: waits_ok_def f l(1) ds(1))
  moreover have "regs_ok ?k" using i(4) by (simp add: regs_ok_def pend f)
  moreover have "port_ok ?k"
  proof -
    let ?q = "elems (rq_list (k_io k))"
    have "set ds \<inter> set ?q = {}" using fin by (fastforce intro: exI[of _ Io_Queue])
    then have order: "filter (\<lambda>p. p \<in> set ?q) rest = ?q"
      using i(5) filter_tail[of ?q ds rest] by (simp add: port_ok_def ds(1))
    have "\<exists>p ps qs. rest = p # ps \<and> ?q = p # qs \<and> u_status (u_of k p) = Dep_Ready" if fl: "rq_flag (k_io k1) 0"
      using commit_spec_flag[OF sp fl]
    proof
      assume "rq_flag (k_io k) 0"
      then obtain p ps qs where p: "elems (k_rob k) = p # ps" "?q = p # qs" "u_status (u_of k p) = Dep_Ready"
        using i(5) by (auto simp: port_ok_def)
      then have "ds = []" using ds(1,2) by (cases ds) (auto simp: retires_def)
      then show ?thesis using p ds(1) by simp
    next
      assume "\<exists>p rs. rest = p # rs \<and> u_status (u_of k p) = Dep_Ready \<and> u_queue (u_of k p) = Some Io_Queue"
      then obtain p rs where p: "rest = p # rs" "u_status (u_of k p) = Dep_Ready" "u_queue (u_of k p) = Some Io_Queue" by blast
      then have "in_station k p" using i(3) ds(1) by (simp add: waits_ok_def)
      then obtain q where q: "p \<in> set (elems (rq_list (k_queue q k)))" by blast
      then have "q = Io_Queue" using p(3) c(2)[of q] by (auto simp: station_ok_def)
      then have "p \<in> set ?q" using q by simp
      then have "?q = p # filter (\<lambda>p. p \<in> set ?q) rs" using order p(1) by simp
      then show ?thesis using p by blast
    qed
    then show ?thesis using order by (simp add: port_ok_def l(1) io f)
  qed
  ultimately show ?thesis using l(2) by (simp add: pipe_inv_def)
qed

lemma commit_pipe_inv:
  assumes "pipe_inv n k" "commit c k = Inr k'"
  shows "pipe_inv n k'"
proof -
  note i = pipe_invD(1)[OF assms(1)]
  obtain k1 rest m where sp: "commit_spec (elems (k_rob k)) k = Inr (k1, rest, m)" and hd: "\<not> head_waits k"
    using commit_value(1)[OF i, of c] assms(2) by (auto simp: is_ok_iff)
  obtain l where l: "elems l = rest" "core_inv n (k1\<lparr>k_rob := l\<rparr>)"
    "commit c k = (if m then rob_flush c (k1\<lparr>k_rob := l\<rparr>) else Inr (k1\<lparr>k_rob := l\<rparr>))"
    using commit_value(2)[OF i sp hd] by blast
  have p: "pipe_inv n (k1\<lparr>k_rob := l\<rparr>)" by (rule retired_pipe_inv[OF assms(1) sp l(1,2)])
  obtain k2 where "rob_flush c (k1\<lparr>k_rob := l\<rparr>) = Inr k2" "pipe_inv n k2" by (rule flush_pipe_inv[OF p, where c = c])
  then show ?thesis using p l(3) assms(2) by (cases m) simp_all
qed

section \<open>Dispatch keeps it\<close>

definition same_deps :: "pool \<Rightarrow> pool \<Rightarrow> bool" where
  "same_deps h h' \<longleftrightarrow> (\<forall>p. u_dep_in (h' p) = u_dep_in (h p) \<and> u_dep_out (h' p) = u_dep_out (h p)
     \<and> u_resolved (h' p) = u_resolved (h p) \<and> u_out_regs (h' p) = u_out_regs (h p))"

lemma same_deps_facts:
  assumes "same_deps h h'"
  shows "in_edge h' d i s j = in_edge h d i s j" "out_edge h' s j d i = out_edge h s j d i" "counted (h' p) = counted (h p)"
    "open_deps (h' p) = open_deps (h p)" "linked (live_part L h') = linked (live_part L h)" "u_out_regs (h' p) = u_out_regs (h p)"
    "all_resolved (h' p) = all_resolved (h p)"
proof -
  show e: "in_edge h' d i s j = in_edge h d i s j" "out_edge h' s j d i = out_edge h s j d i" for d i s j
    using assms by (simp_all add: same_deps_def in_edge_def out_edge_def)
  show "linked (live_part L h') = linked (live_part L h)" by (simp add: linked_def cut_edges e)
  show "counted (h' p) = counted (h p)" "open_deps (h' p) = open_deps (h p)" "u_out_regs (h' p) = u_out_regs (h p)"
    "all_resolved (h' p) = all_resolved (h p)"
    using assms by (simp_all add: same_deps_def counted_def open_deps_def all_resolved_def)
qed

text \<open>Something that takes no part in the graph: the only kind of instruction that needs no station.\<close>

definition uninvolved :: "uop \<Rightarrow> bool" where
  "uninvolved u \<longleftrightarrow> u_dep_in u = [] \<and> u_dep_out u = [] \<and> u_out_regs u = []"

lemma pipe_inv_note [simp]: "pipe_inv n (note_branch p k) = pipe_inv n k"
proof -
  have "k_io (note_branch p k) = k_io k" by (simp add: note_branch_def)
  then show ?thesis by (simp add: pipe_inv_def edges_ok_def waits_ok_def regs_ok_def port_ok_def live_def pending_def)
qed

lemma edges_okD:
  assumes "edges_ok k" "d \<in> set (live k)"
  shows "counted (u_of k d)" "in_edge (k_pool k) d i s j \<Longrightarrow> pending k s" "in_edge (k_pool k) d i s j \<Longrightarrow> before (live k) s d"
    "linked (live_part (set (live k)) (k_pool k))"
  using assms unfolding edges_ok_def by blast+

lemma pending_live: "core_inv n k \<Longrightarrow> pending k s \<Longrightarrow> s \<in> set (live k)"
  using station_rob[of n k s] by (auto simp: pending_def live_def)

lemma dispatch_pipe_inv:
  assumes inv: "pipe_inv n k" and h: "held (k_dec k) = p # ps" "u_type (u_of k p) < 32"
    and un: "station (u_type (u_of k p)) = None \<Longrightarrow> uninvolved (u_of k p)"
    and d: "dispatch c cyc p k = Inr (k', ok)"
  shows "pipe_inv n (if ok then advance k' else k')"
proof (cases rule: dispatch_value[OF pipe_invD(1)[OF inv] h, where c = c and cyc = cyc, case_names f e a])
  case f
  then show ?thesis using d inv by simp
next
  case (e k1 x)
  then show ?thesis using d by simp
next
  case (a k2)
  note i = pipe_invD[OF inv]
  let ?k = "advance k2"
  let ?st = "station (u_type (u_of k p))"
  have fr: "k_pool ?k = k_pool k2" "k_rob ?k = k_rob k2" "k_regs ?k = k_regs k" "k_queue q ?k = k_queue q k2" for q
    using a(10) by (simp_all add: advance_def)
  have sd: "same_deps (k_pool k) (k_pool ?k)"
    unfolding same_deps_def fr
  proof (rule allI)
    fix r show "u_dep_in (u_of k2 r) = u_dep_in (u_of k r) \<and> u_dep_out (u_of k2 r) = u_dep_out (u_of k r)
        \<and> u_resolved (u_of k2 r) = u_resolved (u_of k r) \<and> u_out_regs (u_of k2 r) = u_out_regs (u_of k r)"
      using placedD[OF a(6)] a(7)[of r] by (cases "r = p") simp_all
  qed
  note sf = same_deps_facts[OF sd]
  have lv: "live ?k = live k" by (simp add: live_def fr a(4,5) h(1))
  have st: "in_station ?k s \<longleftrightarrow> in_station k s \<or> s = p \<and> ?st \<noteq> None" for s
    using a(9) by (auto simp: fr split: if_splits)
  have pnst: "\<not> in_station k p" using live_distinct[OF i(1)] station_rob[OF i(1)] h(1) by auto
  have pend: "pending ?k s \<longleftrightarrow> pending k s \<and> (s = p \<longrightarrow> ?st \<noteq> None)" for s
  proof -
    have "p \<notin> set ps" using live_distinct[OF i(1)] h(1) by simp
    then show ?thesis unfolding pending_def st a(5) h(1) using pnst by (cases "s = p") simp_all
  qed
  have pl: "p \<in> set (live k)" by (simp add: live_def h(1))
  have noedge: "s \<noteq> p" if "?st = None" "d \<in> set (live k)" "in_edge (k_pool k) d x s j" for d x s j
    using linked_cut(1)[OF edges_okD(4)[OF i(2) pl] that(2,3)] un[OF that(1)] by (auto simp: uninvolved_def out_edge_def)
  have "edges_ok ?k"
    unfolding edges_ok_def lv sf pend
    using i(2) noedge unfolding edges_ok_def by blast
  moreover have "waits_ok ?k" unfolding waits_ok_def
  proof (rule ballI)
    fix r assume r: "r \<in> set (elems (k_rob ?k))"
    show "(u_status (u_of ?k r) = Wait_Dep \<longleftrightarrow> 0 < open_deps (u_of ?k r)) \<and> (u_status (u_of ?k r) \<noteq> Ready \<longrightarrow> in_station ?k r)"
    proof (cases "r = p")
      case True
      have "all_resolved (u_of k p) \<longleftrightarrow> open_deps (u_of k p) = 0" by (rule counted_resolved[OF edges_okD(1)[OF i(2) pl]])
      moreover have "?st = None \<Longrightarrow> open_deps (u_of k p) = 0" using un by (simp add: uninvolved_def open_deps_def)
      moreover have "?st \<noteq> None \<Longrightarrow> in_station k2 p" using st[of p] unfolding fr by blast
      ultimately show ?thesis using True a(8) sf(4)[of p] unfolding fr by (cases "?st = None") simp_all
    next
      case False
      then have "r \<in> set (elems (k_rob k))" using r a(4) by (simp add: fr)
      then show ?thesis using i(3) a(7)[OF False] sf(4)[of r] unfolding st by (simp add: waits_ok_def fr)
    qed
  qed
  moreover have "regs_ok ?k"
  proof -
    have "s \<noteq> p" if "?st = None" "k_regs k r = Some s" for r s
    proof -
      have "r \<in> set (u_out_regs (u_of k s))" using i(4) that(2) unfolding regs_ok_def by blast
      then show ?thesis using un[OF that(1)] by (auto simp: uninvolved_def)
    qed
    then show ?thesis using i(4) unfolding regs_ok_def pend fr(3) sf(6) by blast
  qed
  moreover have "port_ok ?k"
  proof -
    let ?q = "elems (rq_list (k_io k))"
    have q: "elems (rq_list (k_io ?k)) = ?q @ (if ?st = Some Io_Queue then [p] else [])"
      using a(9)[of Io_Queue] by (simp add: advance_def)
    have pn: "p \<notin> set (elems (k_rob k))" using live_distinct[OF i(1)] h(1) by simp
    have pq: "p \<notin> set ?q" using pnst by (metis k_queue.simps(3))
    have o: "filter (\<lambda>r. r \<in> set ?q) (elems (k_rob k)) = ?q" using i(5) by (simp add: port_ok_def)
    have "filter (\<lambda>r. r \<in> set ?q \<or> r = p) (elems (k_rob k)) = filter (\<lambda>r. r \<in> set ?q) (elems (k_rob k))"
      by (rule filter_cong) (use pn in auto)
    then have "filter (\<lambda>r. r \<in> set (elems (rq_list (k_io ?k)))) (elems (k_rob ?k)) = elems (rq_list (k_io ?k))"
      using pq o by (simp add: q fr(2) a(4) disj_commute)
    moreover have "rq_flag (k_io ?k) = rq_flag (k_io k)" using a(15)[of Io_Queue] by (simp add: advance_def)
    moreover have "\<exists>r rs qs. elems (k_rob ?k) = r # rs \<and> elems (rq_list (k_io ?k)) = r # qs \<and> u_status (u_of ?k r) = Dep_Ready"
      if f: "rq_flag (k_io k) 0"
    proof -
      obtain r rs qs where r: "elems (k_rob k) = r # rs" "?q = r # qs" "u_status (u_of k r) = Dep_Ready"
        using i(5) f by (auto simp: port_ok_def)
      then have "r \<noteq> p" using pn by auto
      then show ?thesis using r a(7)[of r] by (simp add: q fr a(4))
    qed
    ultimately show ?thesis by (simp add: port_ok_def)
  qed
  ultimately have "pipe_inv n ?k" using a(3) by (simp add: pipe_inv_def)
  then show ?thesis using d a(2) by simp
qed

end
