(* ===== verification/Pipeline_Steps.thy ===== *)
theory Pipeline_Steps
  imports Pipeline_Deps
begin

text \<open>
  The other operations on the back end keep its invariant: issue from the stations to the units,
  execution and write-back, and the decoder's work on the instructions that it holds, which takes objects
  from the supply, describes them and records their dependencies. Together with \<open>Pipeline_Deps\<close> this makes the
  invariant hold in every state that the pipeline reaches.
\<close>

section \<open>Issue\<close>

definition issue_ok :: "core \<Rightarrow> nat set \<Rightarrow> pool \<Rightarrow> func_units \<Rightarrow> bool" where
  "issue_ok k S h f \<longleftrightarrow> fu_inv f \<and> distinct (running f)
     \<and> (\<forall>p \<in> set (running f). u_status (h p) = Executing \<and> (p \<in> set (running (k_units k)) \<or> p \<in> S))
     \<and> (\<forall>p. h p = u_of k p \<or> p \<in> S \<and> u_status (u_of k p) = Dep_Ready \<and> h p = (u_of k p)\<lparr>u_status := Executing\<rparr>)"

lemma running_issue_mset:
  assumes "j < length us" "fu_inst (us ! j) = None"
  shows "mset (running (f\<lparr>fs_units := us[j := (us ! j)\<lparr>fu_inst := Some p, fu_cycles := 0\<rparr>]\<rparr>))
       = add_mset p (mset (running (f\<lparr>fs_units := us\<rparr>)))"
proof -
  obtain xs u ys where us: "us = xs @ u # ys" "length xs = j"
    using assms(1) by (metis id_take_nth_drop length_take min.absorb4)
  have "us[j := v] = xs @ v # ys" for v using us by (auto simp: list_update_append)
  moreover have "fu_inst u = None" using us assms(2) by (auto simp: nth_append)
  ultimately show ?thesis using us by (simp add: running_def)
qed

lemma issue_okD:
  assumes "issue_ok k S h f"
  shows "u_cpu (h p) = u_cpu (u_of k p)" "u_type (h p) = u_type (u_of k p)"
    "u_queue_el (h p) = u_queue_el (u_of k p)" "u_rb_el (h p) = u_rb_el (u_of k p)" "u_queue (h p) = u_queue (u_of k p)"
    "u_status (h p) = Dep_Ready \<Longrightarrow> h p = u_of k p" "p \<notin> S \<Longrightarrow> h p = u_of k p" "same_deps (k_pool k) h"
    "u_status (h p) = u_status (u_of k p) \<or> u_status (u_of k p) = Dep_Ready \<and> u_status (h p) = Executing"
proof -
  have e: "h p = u_of k p \<or> p \<in> S \<and> u_status (u_of k p) = Dep_Ready \<and> h p = (u_of k p)\<lparr>u_status := Executing\<rparr>" for p
    using assms unfolding issue_ok_def by blast
  show "u_cpu (h p) = u_cpu (u_of k p)" "u_type (h p) = u_type (u_of k p)"
    "u_queue_el (h p) = u_queue_el (u_of k p)" "u_rb_el (h p) = u_rb_el (u_of k p)" "u_queue (h p) = u_queue (u_of k p)"
    "u_status (h p) = Dep_Ready \<Longrightarrow> h p = u_of k p" "p \<notin> S \<Longrightarrow> h p = u_of k p"
    "u_status (h p) = u_status (u_of k p) \<or> u_status (u_of k p) = Dep_Ready \<and> u_status (h p) = Executing"
    using e[of p] by auto
  show "same_deps (k_pool k) h"
    unfolding same_deps_def
  proof
    fix p show "u_dep_in (h p) = u_dep_in (u_of k p) \<and> u_dep_out (h p) = u_dep_out (u_of k p)
      \<and> u_resolved (h p) = u_resolved (u_of k p) \<and> u_out_regs (h p) = u_out_regs (u_of k p)"
      using e[of p] by auto
  qed
qed

lemma issue_step:
  assumes ok: "issue_ok k S h f" and p: "p \<in> S" "u_status (h p) = Dep_Ready" "u_type (h p) < 32"
  obtains f' b where "try_issue p (h, f) = Inr ((if b then set_status Executing p h else h, f'), b)"
    "issue_ok k S (if b then set_status Executing p h else h) f'"
proof (cases "first_idle (u_type (h p)) (fs_units f)")
  case None
  then show ?thesis using that[of False f] ok p(3) by (simp add: try_issue_def issue_value[of f h p] issue_ok_def)
next
  case (Some j)
  let ?f = "f\<lparr>fs_units := (fs_units f)[j := (fs_units f ! j)\<lparr>fu_inst := Some p, fu_cycles := 0\<rparr>]\<rparr>"
  have fi: "fu_inv f" using ok by (simp add: issue_ok_def)
  have i: "issue h p f = Inr (?f, True)" by (simp add: issue_value[of f h p] fi p(3) Some)
  note j = first_idle_Some[OF Some]
  have m: "mset (running ?f) = mset (p # running f)" using running_issue_mset[OF j(1,2), where f = f and p = p] by simp
  have np: "p \<notin> set (running f)" using ok p(2) by (auto simp: issue_ok_def)
  have "distinct (running ?f)" using ok np mset_eq_imp_distinct_iff[OF m] by (simp add: issue_ok_def)
  moreover have "set (running ?f) = insert p (set (running f))" using arg_cong[OF m, of set_mset] by simp
  moreover have "fu_inv ?f" using fu_inv_ops(4)[OF fi i] .
  moreover have "h p = u_of k p" using issue_okD(6)[OF ok p(2)] .
  ultimately have "issue_ok k S (set_status Executing p h) ?f"
    using ok p(1,2) unfolding issue_ok_def by (auto simp: set_status_def)
  then show ?thesis using that[of True ?f] i by (simp add: try_issue_def)
qed

text \<open>A pass over a station either tries the instructions that are ready, or, in the port queue, the one the flag stands for.\<close>

lemma supply_issues:
  assumes ok: "issue_ok k S (k_pool k) (k_units k)" and pre: "supply_pre (k_pool k) (k_units k) r" "set (Rs_Policy.queued r) \<subseteq> S"
    and io: "rq_kind r = Io_Queue \<Longrightarrow> \<forall>p \<in> set (Rs_Policy.queued r). u_cpu (u_of k p) = 0
        \<and> (rq_flag r 0 \<longrightarrow> u_status (u_of k (hd (Rs_Policy.queued r))) = Dep_Ready)"
  obtains h f fl where "rs_supply (k_pool k) (k_units k) r = Inr (h, f, r\<lparr>rq_flag := fl\<rparr>)" "issue_ok k S h f"
    "rq_kind r = Io_Queue \<Longrightarrow> fl = rq_flag r \<and> h = k_pool k \<or> \<not> fl 0"
proof -
  note pr = supply_pre_entries[OF pre(1)]
  have S: "x \<in> S" "u_type (u_of k x) < 32" if "(e, x) \<in> set (entries (rq_list r))" for e x
    using that pr pre(2) by (force simp: elems_def)+
  show thesis
  proof (cases "rq_kind r")
    case Rs_Queue
    have "\<exists>s' a. plain_body e x s = Inr (s', a) \<and> (case s' of (h, f) \<Rightarrow> issue_ok k S h f)"
      if m: "(e, x) \<in> set (entries (rq_list r))" "case s of (h, f) \<Rightarrow> issue_ok k S h f" for e x s
    proof -
      obtain h f where s: "s = (h, f)" "issue_ok k S h f" using m(2) by (cases s) simp
      show ?thesis
      proof (cases "u_status (h x) = Dep_Ready")
        case True
        obtain f' b where "try_issue x (h, f) = Inr ((if b then set_status Executing x h else h, f'), b)"
          "issue_ok k S (if b then set_status Executing x h else h) f'"
          by (rule issue_step[OF s(2) S(1)[OF m(1)] True]) (use issue_okD(2)[OF s(2)] S(2)[OF m(1)] in simp_all)
        then show ?thesis using True by (simp add: plain_body_def s(1))
      qed (simp add: plain_body_def s)
    qed
    then obtain ks t where t: "fold_entries plain_body (entries (rq_list r)) (k_pool k, k_units k) = Inr (ks, t)"
      "case t of (h, f) \<Rightarrow> issue_ok k S h f"
      using fold_entries_invariant[of "entries (rq_list r)" "\<lambda>(h, f). issue_ok k S h f" plain_body "(k_pool k, k_units k)"] ok
      by fastforce
    obtain h f where "t = (h, f)" by force
    then have "rs_supply (k_pool k) (k_units k) r = Inr (h, f, r\<lparr>rq_flag := rq_flag r\<rparr>)" "issue_ok k S h f"
      using keep_loops(1)[OF _ t(1)] pr t(2) by (simp_all add: rs_supply_def Rs_Queue)
    then show thesis by (rule that) (simp add: Rs_Queue)
  next
    case Ls_Queue
    have "\<exists>s' a. ls_body e x s = Inr (s', a) \<and> (case s' of (fl, h, f) \<Rightarrow> issue_ok k S h f)"
      if m: "(e, x) \<in> set (entries (rq_list r))" "case s of (fl, h, f) \<Rightarrow> issue_ok k S h f" for e x s
    proof -
      obtain fl h f where s: "s = (fl, h, f)" "issue_ok k S h f" using m(2) by (cases s) simp
      show ?thesis
      proof (cases "u_status (h x) = Dep_Ready")
        case True
        obtain f' b where "try_issue x (h, f) = Inr ((if b then set_status Executing x h else h, f'), b)"
          "issue_ok k S (if b then set_status Executing x h else h) f'"
          by (rule issue_step[OF s(2) S(1)[OF m(1)] True]) (use issue_okD(2)[OF s(2)] S(2)[OF m(1)] in simp_all)
        then show ?thesis using True s(2) by (cases b) (simp_all add: ls_body_def s(1) Let_def)
      qed (simp add: ls_body_def s Let_def)
    qed
    then obtain ks t where t: "fold_entries ls_body (entries (rq_list r)) (rq_flag r, k_pool k, k_units k) = Inr (ks, t)"
      "case t of (fl, h, f) \<Rightarrow> issue_ok k S h f"
      using fold_entries_invariant[of "entries (rq_list r)" "\<lambda>(fl, h, f). issue_ok k S h f" ls_body "(rq_flag r, k_pool k, k_units k)"] ok
      by fastforce
    obtain fl h f where "t = (fl, h, f)" by (cases t) force
    then have "rs_supply (k_pool k) (k_units k) r = Inr (h, f, r\<lparr>rq_flag := fl\<rparr>)" "issue_ok k S h f"
      using keep_loops(3)[OF _ t(1)] pr t(2) by (simp_all add: rs_supply_def Ls_Queue)
    then show thesis by (rule that) (simp add: Ls_Queue)
  next
    case Io_Queue
    note v = io_supply_value[OF pre(1) Io_Queue]
    show thesis
    proof (cases "rq_flag r 0 \<and> Rs_Policy.queued r \<noteq> []")
      case False
      then have "List.find (\<lambda>p. rq_flag r (u_cpu (u_of k p))) (Rs_Policy.queued r) = None"
        using io[OF Io_Queue] by (auto simp: find_None_iff)
      then have "rs_supply (k_pool k) (k_units k) r = Inr (k_pool k, k_units k, r\<lparr>rq_flag := rq_flag r\<rparr>)" using v by simp
      then show thesis by (rule that) (simp_all add: ok)
    next
      case True
      then obtain p ps where p: "Rs_Policy.queued r = p # ps" by (cases "Rs_Policy.queued r") simp_all
      have c: "u_cpu (u_of k p) = 0" "u_status (u_of k p) = Dep_Ready" using io[OF Io_Queue] True p by simp_all
      have x: "p \<in> S" "u_type (u_of k p) < 32" using pre p by (simp_all add: supply_pre_def)
      have fd: "List.find (\<lambda>p. rq_flag r (u_cpu (u_of k p))) (Rs_Policy.queued r) = Some p" using True c p by simp
      obtain f' b where b: "try_issue p (k_pool k, k_units k) = Inr ((if b then set_status Executing p (k_pool k) else k_pool k, f'), b)"
          "issue_ok k S (if b then set_status Executing p (k_pool k) else k_pool k) f'"
        by (rule issue_step[OF ok x(1) c(2) x(2)])
      show thesis
      proof (cases "first_idle (u_type (u_of k p)) (fs_units (k_units k)) = None")
        case True
        then have "rs_supply (k_pool k) (k_units k) r = Inr (k_pool k, k_units k, r\<lparr>rq_flag := rq_flag r\<rparr>)" using v fd by simp
        then show thesis by (rule that) (simp_all add: ok)
      next
        case False
        then have "rs_supply (k_pool k) (k_units k) r = Inr (if b then set_status Executing p (k_pool k) else k_pool k, f',
            r\<lparr>rq_flag := (rq_flag r)(0 := False)\<rparr>)"
          using v fd b(1) c(1) by (auto simp: False)
        then show thesis by (rule that) (use b(2) in simp_all)
      qed
    qed
  qed
qed

definition issue_from :: "queue_id \<Rightarrow> core \<Rightarrow> core res" where
  "issue_from q k = rbind (rs_supply (k_pool k) (k_units k) (k_queue q k)) (\<lambda>(h, f, r).
     Inr (put_queue q r (k\<lparr>k_pool := h, k_units := f\<rparr>)))"

lemma issued_core_inv:
  assumes inv: "core_inv n k" and ok: "issue_ok k (set (elems (rq_list (k_queue q k)))) h f"
  shows "core_inv n (put_queue q (k_queue q k\<lparr>rq_flag := fl\<rparr>) (k\<lparr>k_pool := h, k_units := f\<rparr>))" (is "core_inv n ?k")
proof -
  note i = core_invD[OF inv] and d = issue_okD[OF ok]
  have l: "rq_list (k_queue r ?k) = rq_list (k_queue r k)" "rq_kind (k_queue r ?k) = rq_kind (k_queue r k)" for r by simp_all
  have "station_ok ?k r" for r
  proof -
    have "queue_inv h (k_queue r k)" by (rule queue_inv_pool[OF i(12)[of r]]) (simp_all add: d(3))
    then have "queue_inv (k_pool ?k) (k_queue r ?k)" by (cases "r = q") simp_all
    moreover have "u_status (h p) \<noteq> Ready" if "p \<in> set (elems (rq_list (k_queue r k)))" for p
      using i(2)[of r] that d(9)[of p] by (auto simp: station_ok_def)
    ultimately show ?thesis using i(2)[of r] unfolding station_ok_def l by (simp add: d(5))
  qed
  moreover have "units_ok ?k"
    unfolding units_ok_def
  proof (intro conjI ballI)
    fix p assume p: "p \<in> set (running (k_units ?k))"
    then have "p \<in> set (running (k_units k)) \<or> p \<in> set (elems (rq_list (k_queue q k)))" using ok by (auto simp: issue_ok_def)
    then have "in_station k p" using i(4) by (auto simp: units_ok_def)
    then show "in_station ?k p" unfolding l .
    show "u_status (u_of ?k p) = Executing" using p ok by (simp add: issue_ok_def)
  qed (use ok in \<open>simp_all add: issue_ok_def\<close>)
  moreover have "lists_ok n ?k" using i(1) by (simp add: lists_ok_def places_def)
  moreover have "rob_ok ?k" using i(3) by (simp add: rob_ok_def d)
  moreover have "decoder_ok (k_dec ?k)" using i(5) by simp
  ultimately show ?thesis by (simp add: core_inv_def)
qed

lemma issued_pipe_inv:
  assumes inv: "pipe_inv n k" and ok: "issue_ok k (set (elems (rq_list (k_queue q k)))) h f"
    and fl: "q = Io_Queue \<Longrightarrow> fl = rq_flag (k_io k) \<and> h = k_pool k \<or> \<not> fl 0"
  shows "pipe_inv n (put_queue q (k_queue q k\<lparr>rq_flag := fl\<rparr>) (k\<lparr>k_pool := h, k_units := f\<rparr>))" (is "pipe_inv n ?k")
proof -
  note i = pipe_invD[OF inv] and d = issue_okD[OF ok]
  note c = core_invD[OF i(1)]
  note sf = same_deps_facts[OF d(8)]
  have l: "rq_list (k_queue r ?k) = rq_list (k_queue r k)" for r by simp
  have fr: "k_pool ?k = h" "k_rob ?k = k_rob k" "k_regs ?k = k_regs k" "k_dec ?k = k_dec k" by simp_all
  have lv: "live ?k = live k" by (simp add: live_def)
  have pend: "pending ?k s = pending k s" for s unfolding pending_def l fr ..
  have "edges_ok ?k" using i(2) unfolding edges_ok_def lv pend fr sf .
  moreover have "waits_ok ?k" unfolding waits_ok_def l
  proof
    fix p assume "p \<in> set (elems (k_rob ?k))"
    then have "(u_status (u_of k p) = Wait_Dep \<longleftrightarrow> 0 < open_deps (u_of k p)) \<and> (u_status (u_of k p) \<noteq> Ready \<longrightarrow> in_station k p)"
      using i(3) by (simp add: waits_ok_def)
    then show "(u_status (u_of ?k p) = Wait_Dep \<longleftrightarrow> 0 < open_deps (u_of ?k p)) \<and> (u_status (u_of ?k p) \<noteq> Ready \<longrightarrow> in_station k p)"
      unfolding fr sf(4) using d(9)[of p] by auto
  qed
  moreover have "regs_ok ?k" using i(4) unfolding regs_ok_def pend fr sf .
  moreover have "port_ok ?k"
  proof -
    have io: "rq_list (k_io ?k) = rq_list (k_io k)" by (cases q) simp_all
    have "\<exists>p ps qs. elems (k_rob k) = p # ps \<and> elems (rq_list (k_io k)) = p # qs \<and> u_status (h p) = Dep_Ready"
      if f: "rq_flag (k_io ?k) 0"
    proof -
      have fo: "rq_flag (k_io k) 0" "q = Io_Queue \<Longrightarrow> h = k_pool k" using f fl by (cases q; auto)+
      obtain p ps qs where p: "elems (k_rob k) = p # ps" "elems (rq_list (k_io k)) = p # qs" "u_status (u_of k p) = Dep_Ready"
        using i(5) fo(1) by (auto simp: port_ok_def)
      have "h p = u_of k p"
      proof (cases "q = Io_Queue")
        case False
        have "u_queue (u_of k p) = Some Io_Queue" using c(2)[of Io_Queue] p(2) by (simp add: station_ok_def)
        then have "p \<notin> set (elems (rq_list (k_queue q k)))" using c(2)[of q] False by (auto simp: station_ok_def)
        then show ?thesis by (rule d(7))
      qed (simp add: fo(2))
      then show ?thesis using p by simp
    qed
    then show ?thesis using i(5) unfolding port_ok_def io fr by blast
  qed
  ultimately show ?thesis using issued_core_inv[OF i(1) ok, of fl] by (simp add: pipe_inv_def)
qed

lemma issue_pipe_inv:
  assumes inv: "pipe_inv n k"
  obtains k' where "issue_from q k = Inr k'" "pipe_inv n k'" "k_dec k' = k_dec k" "k_icache k' = k_icache k" "k_front k' = k_front k"
    "\<And>x. x \<in> set (held (k_dec k)) \<Longrightarrow> u_of k' x = u_of k x"
proof -
  note i = pipe_invD[OF inv]
  note c = core_invD[OF i(1)]
  let ?r = "k_queue q k"
  have rob: "p \<in> set (elems (k_rob k))" if "p \<in> set (Rs_Policy.queued ?r)" for p by (rule station_rob[OF i(1) that])
  have ok: "issue_ok k (set (Rs_Policy.queued ?r)) (k_pool k) (k_units k)"
    using c(4) by (simp add: issue_ok_def units_ok_def)
  have pre: "supply_pre (k_pool k) (k_units k) ?r"
    using c(12)[of q] c(13) c(3) rob by (simp add: supply_pre_def rob_ok_def)
  have io: "\<forall>p \<in> set (Rs_Policy.queued ?r). u_cpu (u_of k p) = 0 \<and> (rq_flag ?r 0 \<longrightarrow> u_status (u_of k (hd (Rs_Policy.queued ?r))) = Dep_Ready)"
    if "rq_kind ?r = Io_Queue"
  proof -
    have "q = Io_Queue" using that c(14) by simp
    then show ?thesis using i(5) rob_cpu[OF i(1) rob] by (auto simp: port_ok_def)
  qed
  obtain h f fl where v: "rs_supply (k_pool k) (k_units k) ?r = Inr (h, f, ?r\<lparr>rq_flag := fl\<rparr>)" "issue_ok k (set (Rs_Policy.queued ?r)) h f"
    "rq_kind ?r = Io_Queue \<Longrightarrow> fl = rq_flag ?r \<and> h = k_pool k \<or> \<not> fl 0"
    by (rule supply_issues[OF ok pre subset_refl io]) blast+
  have "pipe_inv n (put_queue q (?r\<lparr>rq_flag := fl\<rparr>) (k\<lparr>k_pool := h, k_units := f\<rparr>))"
    by (rule issued_pipe_inv[OF inv v(2)]) (use v(3) c(14)[of q] in simp)
  moreover have "issue_from q k = Inr (put_queue q (?r\<lparr>rq_flag := fl\<rparr>) (k\<lparr>k_pool := h, k_units := f\<rparr>))"
    by (simp add: issue_from_def v(1))
  moreover have "h x = u_of k x" if x: "x \<in> set (held (k_dec k))" for x
  proof -
    have "x \<notin> set (elems (k_rob k))" using live_distinct[OF i(1)] x by auto
    then have "x \<notin> set (Rs_Policy.queued ?r)" using rob by blast
    then show ?thesis by (rule issue_okD(7)[OF v(2)])
  qed
  ultimately show thesis by (intro that[rotated]) simp_all
qed

section \<open>Execution and write-back\<close>

text \<open>The instructions that \<open>f_units->exec\<close> returns for the processor leave their units.\<close>

definition exec_core :: "core \<Rightarrow> core \<times> nat list" where
  "exec_core k = (case exec (k_pool k) (k_units k) of (f, ps) \<Rightarrow> (k\<lparr>k_units := f\<rparr>, response (k_pool k) ps 0))"

definition finishing :: "core \<Rightarrow> nat list \<Rightarrow> bool" where
  "finishing k ps \<longleftrightarrow> distinct ps \<and> (\<forall>p \<in> set ps. in_station k p \<and> u_status (u_of k p) = Executing \<and> p \<notin> set (running (k_units k)))"

lemma units_pipe_inv:
  assumes "pipe_inv n k" "fu_inv f" "distinct (running f)" "set (running f) \<subseteq> set (running (k_units k))"
  shows "pipe_inv n (k\<lparr>k_units := f\<rparr>)"
proof -
  note i = pipe_invD[OF assms(1)]
  have "core_inv n (k\<lparr>k_units := f\<rparr>)"
    using i(1) assms(2-4) by (auto simp: core_inv_def lists_ok_def places_def station_ok_def rob_ok_def units_ok_def)
  then show ?thesis
    using i(2-5) by (simp add: pipe_inv_def edges_ok_def waits_ok_def regs_ok_def port_ok_def live_def pending_def)
qed

lemma exec_pipe_inv:
  assumes inv: "pipe_inv n k" and e: "exec_core k = (k', ps)"
  shows "pipe_inv n k'" "finishing k' ps"
proof -
  note i = pipe_invD[OF inv]
  note c = core_invD[OF i(1)]
  obtain f qs where x: "exec (k_pool k) (k_units k) = (f, qs)" by force
  have k': "k' = k\<lparr>k_units := f\<rparr>" "ps = filter (\<lambda>p. u_cpu (u_of k p) = 0) qs" using e by (simp_all add: exec_core_def x response_def)
  have m: "mset (running f @ qs) = mset (running (k_units k))" using exec_conserves[of "k_pool k" "k_units k"] x by simp
  have dr: "distinct (running (k_units k))" using c(4) by (simp add: units_ok_def)
  have d: "distinct (running f @ qs)" using mset_eq_imp_distinct_iff[OF m] dr by blast
  have s: "set (running f) \<union> set qs = set (running (k_units k))" using mset_eq_setD[OF m] by simp
  have fi: "fu_inv f" using fu_inv_ops(2)[OF c(13), of "k_pool k"] x by simp
  show "pipe_inv n k'" unfolding k' by (rule units_pipe_inv[OF inv fi]) (use d s in auto)
  show "finishing k' ps" unfolding finishing_def
  proof (intro conjI ballI)
    show "distinct ps" using d k'(2) by simp
    fix p assume "p \<in> set ps"
    then have p: "p \<in> set qs" "p \<in> set (running (k_units k))" using k'(2) s by auto
    then have "in_station k p \<and> u_status (u_of k p) = Executing" using c(4) unfolding units_ok_def by blast
    then show "in_station k' p" "u_status (u_of k' p) = Executing" by (simp_all add: k'(1))
    show "p \<notin> set (running (k_units k'))" using p(1) d by (auto simp: k'(1))
  qed
qed

lemma released_facts:
  assumes "counted u"
  shows "counted (released p u)" "open_deps (released p u) \<le> open_deps u"
    "u_status (released p u) = (if open_deps (released p u) = 0 \<and> 0 < open_deps u then Dep_Ready else u_status u)"
proof -
  let ?m = "length (filter (\<lambda>e. fst e = Some p) (u_dep_in u))"
  have o: "open_deps (released p u) + ?m = open_deps u"
    using filter_length_map_clear[of p "u_dep_in u"] by (simp add: open_deps_def released_def Let_def)
  then show "counted (released p u)" "open_deps (released p u) \<le> open_deps u"
    using assms by (simp_all add: counted_def released_def Let_def)
  show "u_status (released p u) = (if open_deps (released p u) = 0 \<and> 0 < open_deps u then Dep_Ready else u_status u)"
    using o assms by (auto simp: counted_def released_def Let_def)
qed

lemma released_frame [simp]:
  "u_cpu (released p u) = u_cpu u" "u_type (released p u) = u_type u" "u_queue_el (released p u) = u_queue_el u"
  "u_rb_el (released p u) = u_rb_el u" "u_queue (released p u) = u_queue u" "u_out_regs (released p u) = u_out_regs u"
  "u_dep_out (released p u) = u_dep_out u"
  by (simp_all add: released_def Let_def)

lemma finished_frame [simp]:
  "u_cpu (finished u) = u_cpu u" "u_type (finished u) = u_type u" "u_queue_el (finished u) = u_queue_el u"
  "u_rb_el (finished u) = u_rb_el u" "u_queue (finished u) = u_queue u" "u_out_regs (finished u) = u_out_regs u"
  "u_dep_in (finished u) = u_dep_in u" "u_status (finished u) = Ready" "counted (finished u) = counted u"
  "open_deps (finished u) = open_deps u"
  by (simp_all add: finished_def counted_def open_deps_def)

text \<open>Write-back of one instruction, up to the accounting of branches.\<close>

lemma release_value:
  assumes inv: "pipe_inv n k" and p: "in_station k p" "u_status (u_of k p) = Executing"
  obtains k' q where "leave_station p (release p k) = Inr k'"
    "\<And>d. d \<in> set (live k) \<Longrightarrow> u_of k' d = (if d = p then finished (u_of k p) else released p (u_of k d))"
    "linked (live_part (set (live k)) (k_pool k'))"
    "\<And>d i s j. d \<in> set (live k) \<Longrightarrow> in_edge (k_pool k') d i s j \<longleftrightarrow> in_edge (k_pool k) d i s j \<and> s \<noteq> p"
    "k_regs k' = (\<lambda>r. if k_regs k r = Some p then None else k_regs k r)"
    "\<And>r. queue_inv (k_pool k') (k_queue r k')" "\<And>r. rq_kind (k_queue r k') = r" "\<And>r. rq_flag (k_queue r k') = rq_flag (k_queue r k)"
    "\<And>r. elems (rq_list (k_queue r k')) = filter (\<lambda>x. x \<noteq> p) (elems (rq_list (k_queue r k)))"
    "k_units k' = k_units k" "k_supply k' = k_supply k" "k_rob k' = k_rob k" "k_dec k' = k_dec k"
proof -
  note i = pipe_invD[OF inv]
  note c = core_invD[OF i(1)]
  obtain q where q: "p \<in> set (elems (rq_list (k_queue q k)))" using p(1) by blast
  have pq: "u_queue (u_of k p) = Some q" using c(2)[of q] q by (simp add: station_ok_def)
  have pl: "p \<in> set (live k)" using station_rob[OF i(1) q] by (simp add: live_def)
  let ?L = "set (live k)"
  have lk: "linked (live_part ?L (k_pool k))" using i(2) by (simp add: edges_ok_def)
  obtain h where h: "uop_write_back p (k_pool k) (k_regs k) = (h, free_regs p (u_out_regs (u_of k p)) (k_regs k))"
    "live_part ?L h = (\<lambda>d. if d = p then finished (u_of k p) else released p (live_part ?L (k_pool k) d))"
    "linked (live_part ?L h)"
    "\<And>d a s j. in_edge (live_part ?L h) d a s j \<longleftrightarrow> in_edge (live_part ?L (k_pool k)) d a s j \<and> s \<noteq> p"
    by (rule live_write_back[OF lk pl, where g = "k_regs k"]) blast
  have hd: "h d = (if d = p then finished (u_of k p) else released p (u_of k d))" if "d \<in> ?L" for d
    using fun_cong[OF h(2), of d] that by simp
  have he: "in_edge h d a s j \<longleftrightarrow> in_edge (k_pool k) d a s j \<and> s \<noteq> p" if "d \<in> ?L" for d a s j
    using h(4)[of d a s j] that by (simp add: cut_edges)
  have regs: "free_regs p (u_out_regs (u_of k p)) (k_regs k) = (\<lambda>r. if k_regs k r = Some p then None else k_regs k r)"
  proof
    fix r
    have "k_regs k r = Some p \<Longrightarrow> r \<in> set (u_out_regs (u_of k p))" using i(4) unfolding regs_ok_def by blast
    then show "free_regs p (u_out_regs (u_of k p)) (k_regs k) r = (if k_regs k r = Some p then None else k_regs k r)"
      by (auto simp: free_regs_value)
  qed
  have el: "u_queue_el (h x) = u_queue_el (u_of k x)" if "x \<in> set (elems (rq_list (k_queue r k)))" for x r
    using hd[of x] station_rob[OF i(1) that] by (simp add: live_def)
  have qi: "queue_inv h (k_queue r k)" for r by (rule queue_inv_pool[OF c(12)[of r] el]) simp_all
  let ?k1 = "release p k"
  have k1: "?k1 = k\<lparr>k_pool := h, k_regs := (\<lambda>r. if k_regs k r = Some p then None else k_regs k r)\<rparr>"
    by (simp add: release_def h(1) regs)
  obtain r where r: "queue_del p h (k_queue q k) = Inr r" "queue_inv h r"
    "elems (rq_list r) = remove1 p (elems (rq_list (k_queue q k)))" "rq_kind r = rq_kind (k_queue q k)" "rq_flag r = rq_flag (k_queue q k)"
    using queue_del_value[OF qi q] by blast
  have ls: "leave_station p ?k1 = Inr (put_queue q r ?k1)"
    using hd[OF pl] r(1) by (simp add: leave_station_def k1 pq)
  have qs: "elems (rq_list (k_queue r' (put_queue q r ?k1))) = filter (\<lambda>x. x \<noteq> p) (elems (rq_list (k_queue r' k)))" for r'
  proof (cases "r' = q")
    case True
    have "distinct (elems (rq_list (k_queue q k)))" using c(12)[of q] by (simp add: queue_inv_def)
    then show ?thesis using True r(3) by (simp add: distinct_remove1_removeAll removeAll_filter_not_eq) (rule filter_cong, auto)
  next
    case False
    have "p \<notin> set (elems (rq_list (k_queue r' k)))" using c(2)[of r'] pq False by (auto simp: station_ok_def)
    then have "filter (\<lambda>x. x \<noteq> p) (elems (rq_list (k_queue r' k))) = elems (rq_list (k_queue r' k))" by (auto intro: filter_True)
    then show ?thesis using False by (simp add: k1)
  qed
  show thesis
  proof (rule that[OF ls _ _ _ _ _ _ _ qs])
    show "queue_inv (k_pool (put_queue q r ?k1)) (k_queue r' (put_queue q r ?k1))"
      "rq_kind (k_queue r' (put_queue q r ?k1)) = r'" "rq_flag (k_queue r' (put_queue q r ?k1)) = rq_flag (k_queue r' k)" for r'
      using r(2,4,5) qi c(14)[of r'] by (cases "r' = q"; simp add: k1)+
  qed (use hd he h(3) in \<open>simp_all add: k1\<close>)
qed

lemma account_branch_back:
  assumes "account_branch c p k = Inr k'"
  shows "k_pool k' = k_pool k" "k_regs k' = k_regs k" "k_units k' = k_units k" "k_supply k' = k_supply k" "k_rob k' = k_rob k"
    "k_dec k' = k_dec k" "k_queue q k' = k_queue q k"
  using assms by (auto simp: account_branch_def Let_def warn_branch_predictor_def rbind_Inr_iff split: if_splits)

lemma pipe_inv_cong:
  assumes "k_pool k' = k_pool k" "k_regs k' = k_regs k" "k_units k' = k_units k" "k_supply k' = k_supply k" "k_rob k' = k_rob k"
    "k_dec k' = k_dec k" "\<And>q. k_queue q k' = k_queue q k"
  shows "pipe_inv n k' = pipe_inv n k"
proof -
  have "k_io k' = k_io k" using assms(7)[of Io_Queue] by simp
  then show ?thesis
    by (simp add: pipe_inv_def core_inv_def lists_ok_def places_def station_ok_def rob_ok_def units_ok_def edges_ok_def waits_ok_def
        regs_ok_def port_ok_def live_def pending_def assms)
qed

lemma written_core_inv:
  assumes inv: "pipe_inv n k" and p: "in_station k p" "u_status (u_of k p) = Executing" "p \<notin> set (running (k_units k))"
    and v: "\<And>d. d \<in> set (live k) \<Longrightarrow> u_of k' d = (if d = p then finished (u_of k p) else released p (u_of k d))"
    "\<And>r. queue_inv (k_pool k') (k_queue r k')" "\<And>r. rq_kind (k_queue r k') = r"
    "\<And>r. elems (rq_list (k_queue r k')) = filter (\<lambda>x. x \<noteq> p) (elems (rq_list (k_queue r k)))"
    "k_units k' = k_units k" "k_supply k' = k_supply k" "k_rob k' = k_rob k" "k_dec k' = k_dec k"
  shows "core_inv n k'"
proof -
  note i = pipe_invD[OF inv]
  note c = core_invD[OF i(1)]
  have cnt: "counted (u_of k d)" if "d \<in> set (live k)" for d using edges_okD(1)[OF i(2) that] .
  have rl: "x \<in> set (elems (k_rob k)) \<Longrightarrow> x \<in> set (live k)" for x by (simp add: live_def)
  have st: "x \<noteq> p \<Longrightarrow> x \<in> set (live k) \<Longrightarrow> u_status (u_of k' x) = u_status (u_of k x) \<or> u_status (u_of k' x) = Dep_Ready" for x
    using v(1)[of x] released_facts(3)[OF cnt, of x p] by auto
  have rb: "u_queue (u_of k' x) = u_queue (u_of k x)" "u_cpu (u_of k' x) = u_cpu (u_of k x)" "u_type (u_of k' x) = u_type (u_of k x)"
      "u_rb_el (u_of k' x) = u_rb_el (u_of k x)" if "x \<in> set (live k)" for x
    using v(1)[OF that] by simp_all
  have "station_ok k' r" for r unfolding station_ok_def v(4)
  proof (intro conjI ballI)
    fix x assume x: "x \<in> set (filter (\<lambda>x. x \<noteq> p) (elems (rq_list (k_queue r k))))"
    then have xr: "x \<in> set (elems (k_rob k))" using station_rob[OF i(1), of x r] by simp
    have s: "u_queue (u_of k x) = Some r" "u_status (u_of k x) \<noteq> Ready" using c(2)[of r] x by (simp_all add: station_ok_def)
    show "u_queue (u_of k' x) = Some r" using rb(1)[OF rl[OF xr]] s(1) by simp
    show "x \<in> set (elems (k_rob k'))" using xr v(7) by simp
    show "u_status (u_of k' x) \<noteq> Ready" using st[of x] rl[OF xr] s(2) x by auto
  qed (use v(2,3) in simp_all)
  moreover have "units_ok k'"
    unfolding units_ok_def v(5)
  proof (intro conjI ballI)
    fix x assume x: "x \<in> set (running (k_units k))"
    then have xi: "in_station k x" "u_status (u_of k x) = Executing" "x \<noteq> p" using c(4) p(3) by (auto simp: units_ok_def)
    then show "in_station k' x" unfolding v(4) by auto
    have xr: "x \<in> set (elems (k_rob k))" by (rule running_rob[OF i(1) x])
    then have "open_deps (u_of k x) = 0" using i(3) xi(2) by (auto simp: waits_ok_def)
    then show "u_status (u_of k' x) = Executing" using v(1)[OF rl[OF xr]] xi(2,3) released_facts(3)[OF cnt[OF rl[OF xr]]] by simp
  qed (use c(4) in \<open>simp_all add: units_ok_def\<close>)
  moreover have "rob_ok k'"
  proof -
    have e: "(a, x) \<in> set (entries (k_rob k)) \<Longrightarrow> x \<in> set (live k)" for a x by (force simp: live_def elems_def)
    have h: "x \<in> set (held (k_dec k)) \<Longrightarrow> x \<in> set (live k)" for x by (simp add: live_def)
    show ?thesis using c(3) unfolding rob_ok_def v(7,8) by (auto simp: rb(4)[OF e] rb(2)[OF rl] rb(2)[OF h] rb(3)[OF rl])
  qed
  moreover have "lists_ok n k'" using c(1) v(6-8) by (simp add: lists_ok_def places_def)
  ultimately show ?thesis using c(5) v(8) by (simp add: core_inv_def)
qed

lemma written_pipe_inv:
  assumes inv: "pipe_inv n k" and fin: "finishing k (p # ps)" and w: "write_back_one c p k = Inr k'"
  shows "pipe_inv n k'" "finishing k' ps"
proof -
  note i = pipe_invD[OF inv]
  note ci = core_invD[OF i(1)]
  have p: "in_station k p" "u_status (u_of k p) = Executing" "p \<notin> set (running (k_units k))" "p \<notin> set ps" "distinct ps"
    using fin by (simp_all add: finishing_def)
  obtain k1 where k1: "leave_station p (release p k) = Inr k1"
    and v: "\<And>d. d \<in> set (live k) \<Longrightarrow> u_of k1 d = (if d = p then finished (u_of k p) else released p (u_of k d))"
    "linked (live_part (set (live k)) (k_pool k1))"
    "\<And>d i s j. d \<in> set (live k) \<Longrightarrow> in_edge (k_pool k1) d i s j \<longleftrightarrow> in_edge (k_pool k) d i s j \<and> s \<noteq> p"
    "k_regs k1 = (\<lambda>r. if k_regs k r = Some p then None else k_regs k r)"
    "\<And>r. queue_inv (k_pool k1) (k_queue r k1)" "\<And>r. rq_kind (k_queue r k1) = r" "\<And>r. rq_flag (k_queue r k1) = rq_flag (k_queue r k)"
    "\<And>r. elems (rq_list (k_queue r k1)) = filter (\<lambda>x. x \<noteq> p) (elems (rq_list (k_queue r k)))"
    "k_units k1 = k_units k" "k_supply k1 = k_supply k" "k_rob k1 = k_rob k" "k_dec k1 = k_dec k"
    by (rule release_value[OF inv p(1,2)]) blast
  have ab: "account_branch c p k1 = Inr k'" using w k1 by (simp add: write_back_one_def)
  note bk = account_branch_back[OF ab]
  have core: "core_inv n k1" by (rule written_core_inv[OF inv p(1-3) v(1,5,6,8-12)])
  have lv: "live k1 = live k" by (simp add: live_def v(11,12))
  have plive: "p \<in> set (live k)" using p(1) station_rob[OF i(1)] by (auto simp: live_def)
  have rl: "x \<in> set (elems (k_rob k)) \<Longrightarrow> x \<in> set (live k)" for x by (simp add: live_def)
  have prob: "p \<in> set (elems (k_rob k))" using p(1) station_rob[OF i(1)] by auto
  have ph: "p \<notin> set (held (k_dec k))" using live_distinct[OF i(1)] prob by auto
  have st: "in_station k1 s \<longleftrightarrow> in_station k s \<and> s \<noteq> p" for s by (auto simp: v(8))
  have pend: "pending k1 s \<longleftrightarrow> pending k s \<and> s \<noteq> p" for s using ph unfolding pending_def st v(12) by blast
  have cnt: "counted (u_of k d)" if "d \<in> set (live k)" for d using edges_okD(1)[OF i(2) that] .
  have po: "open_deps (u_of k p) = 0" using i(3) prob p(2) by (auto simp: waits_ok_def)
  have "edges_ok k1" unfolding edges_ok_def lv
  proof (intro conjI ballI allI impI)
    show "linked (live_part (set (live k)) (k_pool k1))" by (rule v(2))
    fix d assume d: "d \<in> set (live k)"
    show "counted (u_of k1 d)" using v(1)[OF d] cnt[OF d] released_facts(1)[OF cnt[OF d]] by (auto split: if_splits)
    fix a s j assume e: "in_edge (k_pool k1) d a s j"
    then have e': "in_edge (k_pool k) d a s j" "s \<noteq> p" using v(3)[OF d] by simp_all
    show "pending k1 s" using pend edges_okD(2)[OF i(2) d e'(1)] e'(2) by blast
    show "before (live k) s d" by (rule edges_okD(3)[OF i(2) d e'(1)])
  qed
  moreover have "waits_ok k1" unfolding waits_ok_def v(11)
  proof
    fix d assume dr: "d \<in> set (elems (k_rob k))"
    have w: "u_status (u_of k d) = Wait_Dep \<longleftrightarrow> 0 < open_deps (u_of k d)" "u_status (u_of k d) \<noteq> Ready \<longrightarrow> in_station k d"
      using i(3) dr unfolding waits_ok_def by blast+
    show "(u_status (u_of k1 d) = Wait_Dep \<longleftrightarrow> 0 < open_deps (u_of k1 d)) \<and> (u_status (u_of k1 d) \<noteq> Ready \<longrightarrow> in_station k1 d)"
    proof (cases "d = p")
      case True
      then show ?thesis using v(1)[OF plive] po by simp
    next
      case False
      have u: "u_of k1 d = released p (u_of k d)" using v(1)[OF rl[OF dr]] False by simp
      note r = released_facts[OF cnt[OF rl[OF dr]], of p]
      have "u_status (u_of k d) = Ready \<Longrightarrow> open_deps (u_of k d) = 0" using w(1) by (cases "open_deps (u_of k d) = 0") simp_all
      then show ?thesis unfolding u st using w r False by auto
    qed
  qed
  moreover have "regs_ok k1"
  proof -
    have "pending k1 s \<and> r \<in> set (u_out_regs (u_of k1 s))" if "k_regs k1 r = Some s" for r s
    proof -
      have s: "k_regs k r = Some s" "s \<noteq> p" using that by (auto simp: v(4) split: if_splits)
      then have "pending k s" "r \<in> set (u_out_regs (u_of k s))" using i(4) unfolding regs_ok_def by blast+
      moreover have "s \<in> set (live k)" by (rule pending_live[OF i(1) \<open>pending k s\<close>])
      ultimately show ?thesis using s(2) v(1)[of s] by (simp add: pend)
    qed
    then show ?thesis unfolding regs_ok_def by blast
  qed
  moreover have "port_ok k1"
  proof -
    let ?q = "elems (rq_list (k_io k))"
    have q: "elems (rq_list (k_io k1)) = filter (\<lambda>x. x \<noteq> p) ?q" using v(8)[of Io_Queue] by simp
    have "filter (\<lambda>x. x \<in> set (filter (\<lambda>x. x \<noteq> p) ?q)) (elems (k_rob k)) = filter (\<lambda>x. x \<noteq> p) (filter (\<lambda>x. x \<in> set ?q) (elems (k_rob k)))"
      by (simp add: conj_commute)
    also have "\<dots> = filter (\<lambda>x. x \<noteq> p) ?q" using i(5) by (simp add: port_ok_def)
    finally have "elems (rq_list (k_io k1)) = filter (\<lambda>x. x \<in> set (elems (rq_list (k_io k1)))) (elems (k_rob k1))" by (simp only: q v(11))
    moreover have "\<exists>x xs qs. elems (k_rob k1) = x # xs \<and> elems (rq_list (k_io k1)) = x # qs \<and> u_status (u_of k1 x) = Dep_Ready"
      if f: "rq_flag (k_io k1) 0"
    proof -
      have "rq_flag (k_io k) 0" using f v(7)[of Io_Queue] by simp
      then obtain x xs qs where x: "elems (k_rob k) = x # xs" "?q = x # qs" "u_status (u_of k x) = Dep_Ready"
        using i(5) by (auto simp: port_ok_def)
      have xp: "x \<noteq> p" using x(3) p(2) by auto
      have xl: "x \<in> set (live k)" using x(1) by (simp add: live_def)
      have "u_status (u_of k1 x) = Dep_Ready" using v(1)[OF xl] xp x(3) released_facts(3)[OF cnt[OF xl], of p] by simp
      then show ?thesis using x xp by (simp add: q v(11))
    qed
    ultimately show ?thesis unfolding port_ok_def by blast
  qed
  ultimately have "pipe_inv n k1" using core by (simp add: pipe_inv_def)
  then show "pipe_inv n k'" using pipe_inv_cong[OF bk] by blast
  show "finishing k' ps" unfolding finishing_def bk
  proof (intro conjI ballI)
    fix x assume x: "x \<in> set ps"
    have xs: "in_station k x" "u_status (u_of k x) = Executing" "x \<notin> set (running (k_units k))" "x \<noteq> p"
      using x fin by (auto simp: finishing_def)
    have xr: "x \<in> set (elems (k_rob k))" using xs(1) station_rob[OF i(1)] by auto
    show "in_station k1 x" using xs st by blast
    have "open_deps (u_of k x) = 0" using i(3) xr xs(2) by (auto simp: waits_ok_def)
    then show "u_status (u_of k1 x) = Executing" using v(1)[OF rl[OF xr]] xs(2,4) released_facts(3)[OF cnt[OF rl[OF xr]]] by simp
    show "x \<notin> set (running (k_units k1))" using xs(3) by (simp add: v(9))
  qed (rule p(5))
qed

section \<open>The decoder's work\<close>

text \<open>A change of an instruction that the decoder holds, which leaves the records of the graph alone.\<close>

definition keeps_records :: "(uop \<Rightarrow> uop) \<Rightarrow> bool" where
  "keeps_records f \<longleftrightarrow> (\<forall>u. u_cpu (f u) = u_cpu u \<and> u_dep_in (f u) = u_dep_in u \<and> u_dep_out (f u) = u_dep_out u
     \<and> u_resolved (f u) = u_resolved u \<and> u_out_regs (f u) = u_out_regs u)"

lemma held_place:
  assumes "core_inv n k" "p \<in> set (held (k_dec k))"
  shows "p \<notin> set (elems (k_rob k))" "\<not> in_station k p" "p \<notin> set (running (k_units k))" "p \<in> set (live k)"
proof -
  show r: "p \<notin> set (elems (k_rob k))" using live_distinct[OF assms(1)] assms(2) by auto
  show "\<not> in_station k p" using station_rob[OF assms(1)] r by blast
  show "p \<notin> set (running (k_units k))" using running_rob[OF assms(1)] r by blast
  show "p \<in> set (live k)" using assms(2) by (simp add: live_def)
qed

text \<open>What a change of the objects that the decoder holds must respect for the lists and stations.\<close>

lemma held_core_inv:
  assumes inv: "core_inv n k" and f: "\<And>x. x \<in> set (elems (k_rob k)) \<Longrightarrow> u_queue (h x) = u_queue (u_of k x) \<and> u_status (h x) = u_status (u_of k x)
      \<and> u_queue_el (h x) = u_queue_el (u_of k x) \<and> u_rb_el (h x) = u_rb_el (u_of k x) \<and> u_type (h x) = u_type (u_of k x)"
    and cpu: "\<And>x. x \<in> set (live k) \<Longrightarrow> u_cpu (h x) = u_cpu (u_of k x)"
  shows "core_inv n (k\<lparr>k_pool := h, k_regs := g\<rparr>)"
proof -
  note i = core_invD[OF inv]
  let ?k = "k\<lparr>k_pool := h, k_regs := g\<rparr>"
  have q: "k_queue q ?k = k_queue q k" for q by (cases q) simp_all
  have "station_ok ?k q" for q
  proof -
    have "queue_inv h (k_queue q k)" by (rule queue_inv_pool[OF i(12)[of q]]) (use f station_rob[OF inv] in simp_all)
    then show ?thesis using i(2)[of q] f station_rob[OF inv] unfolding station_ok_def q by simp
  qed
  moreover have "rob_ok ?k"
  proof -
    have e: "(a, x) \<in> set (entries (k_rob k)) \<Longrightarrow> x \<in> set (elems (k_rob k))" for a x by (force simp: elems_def)
    have c: "x \<in> set (elems (k_rob k)) \<union> set (held (k_dec k)) \<Longrightarrow> u_cpu (h x) = u_cpu (u_of k x)" for x using cpu by (auto simp: live_def)
    show ?thesis unfolding rob_ok_def
    proof (intro conjI)
      show "\<forall>(el, p) \<in> set (entries (k_rob ?k)). u_rb_el (u_of ?k p) = Some el" using i(3) f[OF e] by (auto simp: rob_ok_def)
      show "\<forall>p \<in> set (elems (k_rob ?k)) \<union> set (held (k_dec ?k)). u_cpu (u_of ?k p) = 0" using i(3) c by (simp add: rob_ok_def)
      show "\<forall>p \<in> set (elems (k_rob ?k)). u_type (u_of ?k p) < 32" using i(3) f by (simp add: rob_ok_def)
    qed
  qed
  moreover have "units_ok ?k" using i(4) f running_rob[OF inv] unfolding units_ok_def q by simp
  moreover have "lists_ok n ?k" using i(1) by (simp add: lists_ok_def places_def)
  ultimately show ?thesis using i(5) by (simp add: core_inv_def)
qed

lemma describe_pipe_inv:
  assumes inv: "pipe_inv n k" and p: "p \<in> set (held (k_dec k))" and f: "keeps_records f"
  shows "pipe_inv n (upd p f k)"
proof -
  note i = pipe_invD[OF inv]
  note hp = held_place[OF i(1) p]
  have k: "upd p f k = k\<lparr>k_pool := (k_pool k)(p := f (u_of k p)), k_regs := k_regs k\<rparr>" by (simp add: upd_def)
  have sd: "same_deps (k_pool k) (k_pool (upd p f k))" using f by (simp add: same_deps_def keeps_records_def)
  note sf = same_deps_facts[OF sd]
  have rp: "x \<in> set (elems (k_rob k)) \<Longrightarrow> x \<noteq> p" for x using hp(1) by auto
  have core: "core_inv n (upd p f k)" unfolding k
    by (rule held_core_inv[OF i(1)]) (use rp f in \<open>auto simp: keeps_records_def\<close>)
  have lv: "live (upd p f k) = live k" by (simp add: live_def)
  have pend: "pending (upd p f k) s = pending k s" for s by (simp add: pending_def)
  have "edges_ok (upd p f k)" using i(2) unfolding edges_ok_def lv pend sf .
  moreover have "waits_ok (upd p f k)" using i(3) rp sf(4) unfolding waits_ok_def by simp
  moreover have "regs_ok (upd p f k)" using i(4) unfolding regs_ok_def pend sf by simp
  moreover have "port_ok (upd p f k)"
  proof -
    have "k_io (upd p f k) = k_io k" by (simp add: upd_def)
    moreover have "u_status (u_of (upd p f k) x) = u_status (u_of k x)" if "elems (k_rob k) = x # xs" for x xs using rp[of x] that by simp
    ultimately show ?thesis using i(5) unfolding port_ok_def by auto
  qed
  ultimately show ?thesis using core by (simp add: pipe_inv_def)
qed

lemma before_irrefl: "distinct xs \<Longrightarrow> \<not> before xs a a"
  by (auto simp: before_def)

lemma create_dep_cut:
  assumes "d \<in> L" "s \<in> L" "create_dep d s h = Inr h'"
  shows "create_dep d s (live_part L h) = Inr (live_part L h')"
proof -
  have h': "h' = (let h1 = h(d := (h d)\<lparr>u_dep_in := u_dep_in (h d) @ [(Some s, length (u_dep_out (h s)))]\<rparr>)
      in h1(s := (h1 s)\<lparr>u_dep_out := u_dep_out (h1 s) @ [(Some d, length (u_dep_in (h d)))]\<rparr>))"
    and ok: "length (u_dep_in (h d)) < MAX_DEP_IN" "length (u_dep_out (h s)) < u_dep_out_max (h s)"
    using assms(3) by (simp_all add: create_dep_def Let_def split: if_splits)
  show ?thesis using assms(1,2) ok by (simp add: create_dep_def h' Let_def cut_upd)
qed

lemma create_dep_frame:
  assumes "create_dep d s h = Inr h'"
  shows "u_cpu (h' x) = u_cpu (h x)" "u_type (h' x) = u_type (h x)" "u_queue (h' x) = u_queue (h x)"
    "u_status (h' x) = u_status (h x)" "u_queue_el (h' x) = u_queue_el (h x)" "u_rb_el (h' x) = u_rb_el (h x)"
    "u_out_regs (h' x) = u_out_regs (h x)" "u_resolved (h' x) = u_resolved (h x)"
    "x \<noteq> d \<Longrightarrow> u_dep_in (h' x) = u_dep_in (h x)"
  using assms by (auto simp: create_dep_def Let_def split: if_splits)

lemma link_pipe_inv:
  assumes inv: "pipe_inv n k" and d: "d \<in> set (held (k_dec k))" and s: "pending k s" "before (live k) s d"
    and c: "create_dep d s (k_pool k) = Inr h"
  shows "pipe_inv n (k\<lparr>k_pool := h\<rparr>)"
proof -
  note i = pipe_invD[OF inv]
  note hp = held_place[OF i(1) d]
  let ?L = "set (live k)"
  let ?k = "k\<lparr>k_pool := h\<rparr>"
  have dist: "distinct (live k)" unfolding live_def by (rule live_distinct[OF i(1)])
  have ds: "d \<noteq> s" using s(2) before_irrefl[OF dist] by blast
  have sL: "s \<in> ?L" using before_mem[OF s(2)] by blast
  note fr = create_dep_frame[OF c]
  have lk: "linked (live_part ?L (k_pool k))" using i(2) by (simp add: edges_ok_def)
  note e = create_dep_edges[OF lk ds create_dep_cut[OF hp(4) sL c]]
  have ed: "in_edge h x a b j \<longleftrightarrow> in_edge (k_pool k) x a b j \<or> x = d \<and> b = s \<and> a = length (u_dep_in (u_of k d)) \<and> j = length (u_dep_out (u_of k s))"
    if "x \<in> ?L" for x a b j
    using e(2)[of x a b j] that hp(4) sL by (simp add: cut_edges)
  have cnt: "counted (h x)" if "x \<in> ?L" for x
    using edges_okD(1)[OF i(2) that] e(3)[of x] that hp(4) sL fr(8)[of x]
    by (auto simp: counted_def open_deps_def split: if_splits)
  have core: "core_inv n ?k" using held_core_inv[OF i(1), of h "k_regs k"] fr by simp
  have lv: "live ?k = live k" by (simp add: live_def)
  have pend: "pending ?k x = pending k x" for x by (simp add: pending_def)
  have rp: "x \<in> set (elems (k_rob k)) \<Longrightarrow> x \<noteq> d" for x using hp(1) by auto
  have "edges_ok ?k" unfolding edges_ok_def lv pend
  proof (intro conjI ballI allI impI)
    show "linked (live_part ?L (k_pool ?k))" using e(1) by simp
    fix x assume x: "x \<in> ?L"
    show "counted (u_of ?k x)" using cnt[OF x] by simp
    fix a b j assume "in_edge (k_pool ?k) x a b j"
    then have "in_edge (k_pool k) x a b j \<or> x = d \<and> b = s" using ed[OF x] by auto
    then show "pending k b" "before (live k) b x" using edges_okD(2,3)[OF i(2) x] s by blast+
  qed
  moreover have "waits_ok ?k"
    using i(3) rp fr(4,9) unfolding waits_ok_def by (simp add: open_deps_def)
  moreover have "regs_ok ?k" using i(4) unfolding regs_ok_def pend by (simp add: fr(7))
  moreover have "port_ok ?k" using i(5) by (simp add: port_ok_def fr(4))
  ultimately show ?thesis using core by (simp add: pipe_inv_def)
qed

lemma set_dep_pipe_inv:
  assumes inv: "pipe_inv n k" and p: "p \<in> set (held (k_dec k))" and c: "set_dep r p (k_pool k) (k_regs k) = Inr (h, g)"
  shows "pipe_inv n (k\<lparr>k_pool := h, k_regs := g\<rparr>)"
proof -
  note i = pipe_invD[OF inv]
  let ?u = "(u_of k p)\<lparr>u_out_regs := u_out_regs (u_of k p) @ [r]\<rparr>"
  let ?k = "k\<lparr>k_pool := h, k_regs := g\<rparr>"
  have h: "h = (k_pool k)(p := ?u)" "g = (k_regs k)(r \<mapsto> p)"
    using c by (auto simp: set_dep_def add_out_regs_def rbind_Inr_iff split: if_splits)
  have fr: "u_dep_in (h x) = u_dep_in (u_of k x)" "u_dep_out (h x) = u_dep_out (u_of k x)" "u_resolved (h x) = u_resolved (u_of k x)"
    "u_status (h x) = u_status (u_of k x)" for x by (simp_all add: h(1))
  have e: "in_edge h x a b j = in_edge (k_pool k) x a b j" "out_edge h b j x a = out_edge (k_pool k) b j x a" for x a b j
    by (simp_all add: in_edge_def out_edge_def fr)
  have l: "linked (live_part L h) = linked (live_part L (k_pool k))" for L by (simp add: linked_def cut_edges e)
  have oc: "counted (h x) = counted (u_of k x)" "open_deps (h x) = open_deps (u_of k x)" for x by (simp_all add: counted_def open_deps_def fr)
  have core: "core_inv n ?k" by (rule held_core_inv[OF i(1)]) (simp_all add: h(1))
  have q: "k_queue q ?k = k_queue q k" for q by (cases q) simp_all
  have lv: "live ?k = live k" by (simp add: live_def)
  have pend: "pending ?k x = pending k x" for x unfolding pending_def q by simp
  have pd: "k_pool ?k = h" "k_rob ?k = k_rob k" by simp_all
  have "edges_ok ?k" using i(2) unfolding edges_ok_def lv pend pd l e oc .
  moreover have "waits_ok ?k" using i(3) unfolding waits_ok_def q pd oc fr .
  moreover have "regs_ok ?k" unfolding regs_ok_def pend
  proof (intro allI impI)
    fix x s assume g: "k_regs ?k x = Some s"
    show "pending k s \<and> x \<in> set (u_out_regs (u_of ?k s))"
    proof (cases "x = r")
      case True
      then show ?thesis using g p by (simp add: h pending_def)
    next
      case False
      then have "k_regs k x = Some s" using g by (simp add: h(2))
      then have "pending k s" "x \<in> set (u_out_regs (u_of k s))" using i(4) unfolding regs_ok_def by blast+
      then show ?thesis by (auto simp: h(1))
    qed
  qed
  moreover have "port_ok ?k" using i(5) by (simp add: port_ok_def fr(4))
  ultimately show ?thesis using core by (simp add: pipe_inv_def)
qed

end
