(* ===== verification/Decoder.thy ===== *)
theory Decoder
  imports Microcode Pipeline_Steps
begin

text \<open>
  The driver of the decoder: \<open>src/src/cpu/decoder.cpp\<close>, the macros of \<open>src/src/cpu/decoder_cpp.h\<close>, the functions
  of \<open>src/src/cpu/x86_64/x86_64_decoder.cpp\<close> around the byte automaton of \<open>X86_Decode\<close>, and the decode stage
  \<open>processor_t::cycle\<close> of \<open>src/src/cpu/cpu.cpp\<close>. An instruction is collected byte by byte (or skipped, if the
  cache of decoded instructions knows it), objects are allocated for its micro-operations, the microcode records their
  dependencies, the instruction is executed unless the decoder is on a wrong path, and the micro-operations are
  dispatched. Whenever something is missing, the decoder stops for this cycle and goes on at the stored handler in a
  later one.

  What belongs to the Bochs emulator is a parameter: its decoding tables, its instruction decoder
  \<open>fetchDecode64\<close>, the resolution of a memory operand and the execution of an instruction. An object of
  \<open>bxInstruction_c\<close> is represented by the bytes it was decoded from.
\<close>

section \<open>The emulator and the configuration\<close>

record inst_fields =
  if_nnn :: u8
  if_rm :: u8
  if_reg :: u8
  if_id :: u32

record exec_status =
  es_trap :: "u16 option"
  es_halt :: bool
  es_must_flush :: bool

record bochs =
  bo_tables :: tables
  bo_length :: "u8 list \<Rightarrow> nat"
  bo_fields :: "u8 list \<Rightarrow> inst_fields"
  bo_resolve :: "u8 list \<Rightarrow> xcpu \<Rightarrow> u64"
  bo_execute :: "u8 list \<Rightarrow> xcpu \<Rightarrow> ((u64 + exec_status) \<times> u64 option \<times> xcpu) res"

text \<open>The configuration, the emulator, the cycle counter, and the content of the uninitialised local \<open>vm\<close>.\<close>

record env =
  en_cfg :: cfg
  en_bochs :: bochs
  en_cycle :: u64
  en_junk :: vm_data

definition on_dec :: "(decoder \<Rightarrow> decoder) \<Rightarrow> core \<Rightarrow> core" where
  "on_dec f k = k\<lparr>k_dec := f (k_dec k)\<rparr>"

definition set_handler :: "handler \<Rightarrow> core \<Rightarrow> core" where
  "set_handler h = on_dec (\<lambda>d. d\<lparr>dc_handler := h\<rparr>)"

definition stop_decoding :: "core \<Rightarrow> core" where
  "stop_decoding = on_dec (\<lambda>d. d\<lparr>dc_stop := True\<rparr>)"

text \<open>\<open>this->state\<close>.\<close>

definition cur_xst :: "core \<Rightarrow> xst" where
  "cur_xst k = k_icache k (dc_index (k_dec k))"

definition set_xst :: "xst \<Rightarrow> core \<Rightarrow> core" where
  "set_xst st k = k\<lparr>k_icache := (k_icache k)(dc_index (k_dec k) := st)\<rparr>"

section \<open>Dispatch\<close>

primrec dispatch_loop :: "env \<Rightarrow> nat \<Rightarrow> core \<Rightarrow> core res" where
  "dispatch_loop e 0 k = Inr (on_dec (\<lambda>d. d\<lparr>dc_busy := False\<rparr>) k)"
| "dispatch_loop e (Suc m) k =
     rbind (get_rs (dc_dispatched (k_dec k)) k) (\<lambda>p.
     rbind (dispatch (en_cfg e) (en_cycle e) p k) (\<lambda>(k1, ok).
       if ok then dispatch_loop e m (advance (upd p (\<lambda>u. u\<lparr>u_vaddr := dc_addr (k_dec k1), u_length := dc_length (k_dec k1)\<rparr>) k1))
       else Inr (stop_decoding k1)))"

definition dec_dispatch :: "env \<Rightarrow> core \<Rightarrow> core res" where
  "dec_dispatch e k = dispatch_loop e (dc_required (k_dec k) - dc_dispatched (k_dec k)) k"

section \<open>The end of an instruction\<close>

text \<open>
  The macro \<open>INSTRUCTION_END\<close>. Execution is disabled until the next flush when the instruction does something
  unexpected or the fetch went on at another address than the processor.
\<close>

definition end_path :: "u64 \<Rightarrow> decoder \<Rightarrow> decoder \<times> pipeline_state" where
  "end_path rip d =
     (let d1 = d\<lparr>dc_foresight := (dc_next d = rip)\<rparr>
      in if \<not> dc_mis d1 then
           if dc_unexpected d1 then (d1\<lparr>dc_mis := True\<rparr>, Valid)
           else if \<not> dc_foresight d1 then (d1\<lparr>dc_mis := True\<rparr>, if dc_has_branch d1 then Valid_Can_Flush else Valid)
           else (d1, Valid)
         else (d1, Invalid))"

definition mark_uop :: "pipeline_state \<Rightarrow> nat \<Rightarrow> nat \<Rightarrow> uop \<Rightarrow> uop" where
  "mark_uop s p0 pn u = u\<lparr>u_foresight := True, u_pipeline := s, u_microcode := Middle, u_first := p0, u_last := pn\<rparr>"

definition mark_branch :: "decoder \<Rightarrow> uop \<Rightarrow> uop" where
  "mark_branch d u = u\<lparr>u_is_branch := True, u_branch_taken := dc_taken d, u_branch_target := dc_target d,
     u_branch_type := dc_branch_type d\<rparr>"

definition mark_last :: "decoder \<Rightarrow> uop \<Rightarrow> uop" where
  "mark_last d u = u\<lparr>u_foresight := dc_foresight d\<rparr>"

definition mark_first :: "decoder \<Rightarrow> uop \<Rightarrow> uop" where
  "mark_first d u =
     (let u1 = (if dc_exception d then u\<lparr>u_exception := True, u_exception_code := dc_exception_code d\<rparr> else u);
          u2 = (if dc_is_trap d then u1\<lparr>u_is_trap := True, u_trap_code := dc_trap_code d\<rparr> else u1);
          u3 = (if dc_is_halt d then u2\<lparr>u_is_halt := True\<rparr> else u2)
      in if dc_must_flush d then u3\<lparr>u_must_flush := True\<rparr> else u3)"

definition end_branch :: "u64 \<Rightarrow> decoder \<Rightarrow> decoder" where
  "end_branch rip d = (if dc_is_branch d \<and> dc_automatic d then d\<lparr>dc_taken := (rip = dc_target d)\<rparr> else d)"

definition end_marks :: "u64 \<Rightarrow> core \<Rightarrow> core" where
  "end_marks rip k =
     (case end_path rip (k_dec k) of (d1, s) \<Rightarrow>
       let us = take (dc_required d1) (dc_buffered d1); d2 = end_branch rip d1;
           k1 = fold (\<lambda>p. upd p (mark_uop s (hd us) (last us))) us (k\<lparr>k_dec := d2\<rparr>);
           k2 = (if dc_is_branch d2 then fold (\<lambda>p. upd p (mark_branch d2)) us k1 else k1)
       in if us = [] then k2
          else upd (hd us) (\<lambda>u. (mark_first d2 u)\<lparr>u_microcode := First\<rparr>)
                 (upd (last us) (\<lambda>u. (mark_last d2 u)\<lparr>u_microcode := Last\<rparr>) k2))"

definition instruction_end :: "env \<Rightarrow> core \<Rightarrow> core res" where
  "instruction_end e k =
     (if dc_required (k_dec k) \<le> MAX_ALLOCATED
      then dec_dispatch e (set_handler H_Dispatch (end_marks (x_rip (fs_cpu (k_front k))) k))
      else Inl Out_Of_Bounds)"

definition set_exception :: "u64 \<Rightarrow> core \<Rightarrow> core" where
  "set_exception code = on_dec (\<lambda>d. d\<lparr>dc_exception := True, dc_exception_code := code, dc_unexpected := True\<rparr>)"

definition fetch_buffer_exception :: "env \<Rightarrow> core \<Rightarrow> core res" where
  "fetch_buffer_exception e k = instruction_end e (set_exception (dc_buffer_exception (k_dec k)) k)"
section \<open>Carrying an instruction out\<close>

text \<open>\<open>x86_64_after_allocate_rs\<close>: the types of the micro-operations, their dependencies, and the execution.\<close>

definition entry_of :: "xst \<Rightarrow> dep_entry res" where
  "entry_of st =
     (let i = (if xs_mem_operand st then 512 else 0) + xs_opcode st
      in if i < length dep_table then Inr (dep_table ! i) else Inl Out_Of_Bounds)"

definition osize_of :: "xst \<Rightarrow> osize" where
  "osize_of st = (if xs_offset st = 0 then B16 else if xs_offset st = 512 then B32 else B64)"

definition operands_of :: "bochs \<Rightarrow> core \<Rightarrow> operands" where
  "operands_of b k =
     (let st = cur_xst k; x = fs_cpu (k_front k); f = bo_fields b (xs_inst st); d = k_dec k
      in \<lparr>op_g = if_nnn f, op_e = if_rm f, op_reg = if_reg f, op_first = xs_first_opcode st,
          op_second = xs_second_opcode st, op_rex = xs_rex st,
          op_base = if xs_has_base st then Some (xs_base st) else None,
          op_index = if xs_has_index st then Some (xs_index st) else None,
          op_addr = bo_resolve b (xs_inst st) x, op_rsp = x_gpr x RSP, op_next = dc_addr d + ucast (dc_length d),
          op_id = if_id f\<rparr>)"

definition set_type :: "nat \<times> nat \<Rightarrow> core \<Rightarrow> core res" where
  "set_type = (\<lambda>(i, t) k. rbind (get_rs i k) (\<lambda>p.
     Inr (on_dec (\<lambda>d. d\<lparr>dc_has_branch := dc_has_branch d \<or> t = T_BRANCH\<rparr>) (upd p (\<lambda>u. u\<lparr>u_type := t\<rparr>) k))))"

definition note_status :: "exec_status \<Rightarrow> decoder \<Rightarrow> decoder" where
  "note_status s d =
     (let d1 = (case es_trap s of None \<Rightarrow> d | Some c \<Rightarrow> d\<lparr>dc_is_trap := True, dc_trap_code := c, dc_unexpected := True\<rparr>);
          d2 = (if es_halt s then d1\<lparr>dc_is_halt := True, dc_unexpected := True\<rparr> else d1)
      in if es_must_flush s then d2\<lparr>dc_must_flush := True, dc_unexpected := True\<rparr> else d2)"

definition execute :: "bochs \<Rightarrow> core \<Rightarrow> core res" where
  "execute b k =
     (let bytes = xs_inst (cur_xst k)
      in rbind (bochs_exec (bo_execute b bytes) (of_nat (bo_length b bytes)) (fs_cpu (k_front k))) (\<lambda>(r, x).
           Inr (case r of
             Inl code \<Rightarrow> set_exception code (put_cpu x k)
           | Inr s \<Rightarrow> on_dec (note_status s) (put_cpu x k))))"

definition record_microcode :: "env \<Rightarrow> dep_entry \<Rightarrow> core \<Rightarrow> core res" where
  "record_microcode e en k = (case en of (h, ts) \<Rightarrow>
     rbind (rfold set_type (enumerate 0 ts) k) (\<lambda>k1.
       rfold (run_micro (en_junk e)) (h (operands_of (en_bochs e) k1) (osize_of (cur_xst k1))) k1))"

definition after_allocate_rs :: "env \<Rightarrow> core \<Rightarrow> core res" where
  "after_allocate_rs e k =
     rbind (entry_of (cur_xst k)) (\<lambda>en.
     rbind (record_microcode e en k) (\<lambda>k1.
     rbind (if dc_mis (k_dec k1) then Inr k1 else execute (en_bochs e) k1) (instruction_end e)))"

section \<open>Allocation\<close>

text \<open>One object from the supply, if there is one.\<close>

definition take_one :: "core \<Rightarrow> (core \<times> bool) res" where
  "take_one k =
     rbind (get_inst_from_supply k) (\<lambda>(k1, r). case r of
       None \<Rightarrow> Inr (k1, False)
     | Some p \<Rightarrow>
         let d = k_dec k1
         in if dc_allocated d < MAX_ALLOCATED then
              Inr (on_dec (\<lambda>d. d\<lparr>dc_inst_id := dc_inst_id d + 1, dc_buffered := (dc_buffered d)[dc_allocated d := p],
                                 dc_allocated := dc_allocated d + 1\<rparr>)
                     (upd p (reset 0 (dc_inst_id d)) k1), True)
            else Inl Out_Of_Bounds)"

text \<open>
  The handler that goes on after an allocation; \<open>alocate_inst\<close> is called with these two only, after
  \<open>SET_HANDLER\<close> of one of them.
\<close>

definition exec_saved :: "env \<Rightarrow> core \<Rightarrow> core res" where
  "exec_saved e k = (case dc_handler (k_dec k) of
     H_After_Allocate \<Rightarrow> after_allocate_rs e k
   | H_Fetch_Exception \<Rightarrow> fetch_buffer_exception e k
   | _ \<Rightarrow> Inl Null_Deref)"

primrec alocate_loop :: "env \<Rightarrow> nat \<Rightarrow> core \<Rightarrow> core res" where
  "alocate_loop e 0 k = exec_saved e (set_handler (dc_saved (k_dec k)) k)"
| "alocate_loop e (Suc m) k = rbind (take_one k) (\<lambda>(k1, ok). if ok then alocate_loop e m k1 else Inr (stop_decoding k1))"

text \<open>\<open>alocate_inst_\<close>.\<close>

definition alocate_more :: "env \<Rightarrow> core \<Rightarrow> core res" where
  "alocate_more e k = alocate_loop e (dc_required (k_dec k) - dc_allocated (k_dec k)) k"

definition alocate_inst :: "env \<Rightarrow> nat \<Rightarrow> core \<Rightarrow> core res" where
  "alocate_inst e n k =
     alocate_more e (on_dec (\<lambda>d. d\<lparr>dc_required := n, dc_saved := dc_handler d, dc_handler := H_Alocate\<rparr>) k)"

text \<open>\<open>x86_64_after_get_inst\<close>: all bytes are there.\<close>

definition after_get_inst :: "env \<Rightarrow> core \<Rightarrow> core res" where
  "after_get_inst e k =
     (let bytes = dc_opcodes (k_dec k); st = cur_xst k; n = length bytes
      in if parts st \<noteq> n then Inl Sanity
         else if bo_length (en_bochs e) bytes \<noteq> n then Inl Sanity
         else
           let st1 = st\<lparr>xs_length := of_nat n, xs_inst := bytes, xs_busy := True\<rparr>;
               k1 = set_xst st1 (on_dec (\<lambda>d. d\<lparr>dc_length := of_nat n\<rparr>) k)
           in rbind (entry_of st1) (\<lambda>(h, ts). alocate_inst e (length ts) (set_handler H_After_Allocate k1)))"

section \<open>Bytes from the fetch buffer\<close>

text \<open>
  \<open>GET_BYTE_FROM_FETCH_BUFFER\<close>. Without a byte, or with the budget of the cycle used up, the function that uses
  the macro returns (\<open>None\<close>). A byte whose fetch faulted becomes an instruction of its own with the
  exception; the macro then does not return, and its user goes on with the content of the buffer element.
\<close>

definition get_byte_from_buffer :: "env \<Rightarrow> core \<Rightarrow> (core \<times> fetch_el option) res" where
  "get_byte_from_buffer e k =
     (let c = en_cfg e; l = fs_lane (k_front k)
      in if dc_bytes (k_dec k) < cf_max_bytes c \<and> has_bytes (cf_fetch_size c) 1 l then
           rbind (get_byte (cf_fetch_size c) l) (\<lambda>(l1, b).
             let k1 = k\<lparr>k_front := (k_front k)\<lparr>fs_lane := l1\<rparr>\<rparr>
             in if \<not> fe_is_exc b then
                  rbind (read1 (fe_paddr b) (x_mem (fs_cpu (k_front k1)))) (\<lambda>v.
                    Inr (on_dec (\<lambda>d. d\<lparr>dc_next := fe_next b, dc_bytes := dc_bytes d + 1\<rparr>) k1, Some (b\<lparr>fe_data := v\<rparr>)))
                else
                  rbind (alocate_inst e 1 (set_handler H_Fetch_Exception (on_dec (\<lambda>d. d\<lparr>dc_buffer_exception := fe_exc b\<rparr>) k1)))
                    (\<lambda>k2. Inr (k2, Some b)))
         else Inr (stop_decoding k, None))"

definition add_opcode_byte :: "u8 \<Rightarrow> core \<Rightarrow> core res" where
  "add_opcode_byte v k =
     (if length (dc_opcodes (k_dec k)) < MAX_OPCODE_BYTES
      then Inr (on_dec (\<lambda>d. d\<lparr>dc_opcodes := dc_opcodes d @ [v]\<rparr>) k) else Inl Out_Of_Bounds)"

text \<open>
  \<open>x86_64_get_bytes\<close> after \<open>SKIP_BYTES_FROM_FETCH_BUFFER\<close>: the rest of an instruction that is known. The macro
  returns unless it could skip everything, so the loop runs once.
\<close>

definition get_bytes :: "env \<Rightarrow> core \<Rightarrow> core res" where
  "get_bytes e k =
     (let d = k_dec k; finish = (\<lambda>k1.
          if dc_got (k_dec k1) \<noteq> dc_to_get (k_dec k1) then Inl Sanity
          else rbind (entry_of (cur_xst k1)) (\<lambda>(h, ts).
                 alocate_inst e (length ts) (set_handler H_After_Allocate
                   (on_dec (\<lambda>d. d\<lparr>dc_length := xs_length (cur_xst k1)\<rparr>) k1))))
      in if dc_got d < dc_to_get d then
           let skip = ucast (ucast (dc_to_get d - dc_got d) :: u8) :: u32; rest = cf_max_bytes (en_cfg e) - dc_bytes d;
               n = (if skip < rest then skip else rest)
           in rbind (skip_bytes (cf_fetch_size (en_cfg e)) n (fs_lane (k_front k))) (\<lambda>(l, nxt, r).
                let k1 = on_dec (\<lambda>d. d\<lparr>dc_next := nxt, dc_got := dc_got d + r\<rparr>) (k\<lparr>k_front := (k_front k)\<lparr>fs_lane := l\<rparr>\<rparr>)
                in if r < skip then Inr (stop_decoding k1) else finish k1)
         else finish k)"

definition icache_index :: "u64 \<Rightarrow> nat" where
  "icache_index v = unat (take_bit 14 v)"

text \<open>What \<open>x86_64_decode\<close> does with the first byte: the state is looked up in the cache, or started.\<close>

definition first_byte :: "fetch_el \<Rightarrow> core \<Rightarrow> core \<times> bool" where
  "first_byte b k =
     (let k1 = on_dec (\<lambda>d. d\<lparr>dc_first_byte := False, dc_addr := fe_vaddr b, dc_index := icache_index (fe_vaddr b)\<rparr>) k;
          st = cur_xst k1
      in if xs_busy st \<and> xs_vaddr st = fe_vaddr b then
           (set_handler H_Get_Bytes (on_dec (\<lambda>d. d\<lparr>dc_to_get := ucast (xs_length st), dc_got := 1\<rparr>) k1), True)
         else (set_xst (xst_start (fe_vaddr b) st) k1, False))"

text \<open>
  The functions of the byte automaton, one byte at a time. A loop over bytes of the same kind leaves the
  handler as it is, every other step stores the next function.
\<close>

definition byte_step :: "env \<Rightarrow> cur \<Rightarrow> u8 \<Rightarrow> core \<Rightarrow> (core \<times> cur) res" where
  "byte_step e c v k =
     (let strict = (x_cpl (fs_cpu (k_front k)) = CPL_KERNEL \<and> \<not> dc_mis (k_dec k))
      in rbind (x86_byte (bo_tables (en_bochs e)) strict c v (cur_xst k)) (\<lambda>(c', st).
           Inr ((if c' = c then id else set_handler (H_Byte c')) (set_xst st k), c')))"

text \<open>A loop without a bound of its own has fuel; \<open>None\<close> says that it ran out.\<close>

definition fbind :: "'a res \<Rightarrow> ('a \<Rightarrow> 'b res option) \<Rightarrow> 'b res option" where
  "fbind r f = (case r of Inl x \<Rightarrow> Some (Inl x) | Inr x \<Rightarrow> f x)"

definition or_diverges :: "'a res option \<Rightarrow> 'a res" where
  "or_diverges r = (case r of None \<Rightarrow> Inl Diverges | Some x \<Rightarrow> x)"

primrec run_bytes :: "env \<Rightarrow> nat \<Rightarrow> cur \<Rightarrow> core \<Rightarrow> core res option" where
  "run_bytes e 0 c k = None"
| "run_bytes e (Suc m) c k =
     fbind (get_byte_from_buffer e k) (\<lambda>(k1, r). case r of
       None \<Rightarrow> Some (Inr k1)
     | Some b \<Rightarrow>
         fbind (add_opcode_byte (fe_data b) k1) (\<lambda>k2.
           case (if c = C_Decode \<and> dc_first_byte (k_dec k2) then first_byte b k2 else (k2, False)) of
             (k3, True) \<Rightarrow> Some (get_bytes e k3)
           | (k3, False) \<Rightarrow> fbind (byte_step e c (fe_data b) k3) (\<lambda>(k4, c').
               if c' = C_Done then Some (after_get_inst e k4) else run_bytes e m c' k4)))"

text \<open>Every round takes a byte from the fetch buffer, so one more than it holds is enough.\<close>

definition bytes_left :: "env \<Rightarrow> core \<Rightarrow> nat" where
  "bytes_left e k = unat (bytes_in_buffer (cf_fetch_size (en_cfg e)) (fs_lane (k_front k)))"

definition enter_bytes :: "env \<Rightarrow> cur \<Rightarrow> core \<Rightarrow> core res" where
  "enter_bytes e c k = or_diverges (run_bytes e (Suc (bytes_left e k)) c k)"

section \<open>The decode stage\<close>

definition start_instruction :: "decoder \<Rightarrow> decoder" where
  "start_instruction d = d\<lparr>dc_busy := True, dc_foresight := False, dc_allocated := 0, dc_required := 0, dc_dispatched := 0,
     dc_opcodes := [], dc_exception := False, dc_is_trap := False, dc_is_branch := False, dc_is_halt := False,
     dc_must_flush := False, dc_unexpected := False, dc_has_branch := False, dc_automatic := False,
     dc_first_byte := True, dc_addr := 0, dc_length := 0, dc_handler := H_Byte C_Decode\<rparr>"

definition exec_handler :: "env \<Rightarrow> core \<Rightarrow> core res" where
  "exec_handler e k = (case dc_handler (k_dec k) of
     H_Byte c \<Rightarrow> (if c = C_Done then after_get_inst e k else enter_bytes e c k)
   | H_Get_Bytes \<Rightarrow> get_bytes e k
   | H_Alocate \<Rightarrow> alocate_more e k
   | H_After_Allocate \<Rightarrow> after_allocate_rs e k
   | H_Fetch_Exception \<Rightarrow> fetch_buffer_exception e k
   | H_Dispatch \<Rightarrow> dec_dispatch e k)"

definition decode :: "env \<Rightarrow> core \<Rightarrow> core res" where
  "decode e k = (if \<not> dc_busy (k_dec k) then enter_bytes e C_Decode (on_dec start_instruction k) else exec_handler e k)"

text \<open>\<open>pipeline_before_decode_inst\<close>; in kernel mode it restarts the timer, which the result says.\<close>

definition before_decode :: "core \<Rightarrow> core" where
  "before_decode k = (let x = fs_cpu (k_front k)
     in put_cpu (x\<lparr>x_translate := (x_translate x)\<lparr>v2_rcheck := False, v2_wcheck := False\<rparr>\<rparr>) k)"

definition in_kernel :: "core \<Rightarrow> bool" where
  "in_kernel k \<longleftrightarrow> x_cpl (fs_cpu (k_front k)) = CPL_KERNEL"

primrec decode_loop :: "env \<Rightarrow> nat \<Rightarrow> core \<times> bool \<Rightarrow> (core \<times> bool) res option" where
  "decode_loop e 0 s = None"
| "decode_loop e (Suc m) s = (case s of (k, t) \<Rightarrow>
     if dc_stop (k_dec k) then Some (Inr (k, t))
     else fbind (decode e (before_decode k)) (\<lambda>k1. decode_loop e m (k1, t \<or> in_kernel k)))"

text \<open>
  The decode stage of a cycle. A call of \<open>decode\<close> that does not stop the decoder finishes an instruction;
  it takes a byte, unless the instruction was begun in an earlier cycle, so three more than the bytes in the buffer
  are enough.
\<close>

definition decode_stage :: "env \<Rightarrow> core \<Rightarrow> (core \<times> bool) res" where
  "decode_stage e k = or_diverges (decode_loop e (bytes_left e k + 3) (on_dec (\<lambda>d. d\<lparr>dc_bytes := 0, dc_stop := False\<rparr>) k, False))"

end
