(* ===== verification/Decoder_Work.thy ===== *)
theory Decoder_Work
  imports Decoder
begin

text \<open>
  The work of the decoder on one instruction keeps the invariant of the pipeline: what it allocates is fresh, and
  what it records while it runs the microcode points to older instructions whose result is still to come.
\<close>

section \<open>What the invariant sees of the decoder\<close>

lemma pipe_inv_frame:
  assumes "k_pool k' = k_pool k" "k_regs k' = k_regs k" "k_units k' = k_units k" "k_supply k' = k_supply k" "k_rob k' = k_rob k"
    "held (k_dec k') = held (k_dec k)" "decoder_ok (k_dec k') = decoder_ok (k_dec k)" "\<And>q. k_queue q k' = k_queue q k"
  shows "pipe_inv n k' = pipe_inv n k"
proof -
  have "k_io k' = k_io k" using assms(8)[of Io_Queue] by simp
  then show ?thesis
    by (simp add: pipe_inv_def core_inv_def lists_ok_def places_def station_ok_def rob_ok_def units_ok_def edges_ok_def waits_ok_def
        regs_ok_def port_ok_def live_def pending_def assms)
qed

lemma on_dec_simps [simp]:
  "k_pool (on_dec f k) = k_pool k" "k_regs (on_dec f k) = k_regs k" "k_units (on_dec f k) = k_units k"
  "k_supply (on_dec f k) = k_supply k" "k_rob (on_dec f k) = k_rob k" "k_dec (on_dec f k) = f (k_dec k)"
  "k_front (on_dec f k) = k_front k" "k_branches (on_dec f k) = k_branches k" "k_flusher (on_dec f k) = k_flusher k"
  "k_running (on_dec f k) = k_running k" "k_queue q (on_dec f k) = k_queue q k" "k_icache (on_dec f k) = k_icache k"
  by (cases q; simp add: on_dec_def)+

lemma set_xst_simps [simp]:
  "k_pool (set_xst st k) = k_pool k" "k_regs (set_xst st k) = k_regs k" "k_units (set_xst st k) = k_units k"
  "k_supply (set_xst st k) = k_supply k" "k_rob (set_xst st k) = k_rob k" "k_dec (set_xst st k) = k_dec k"
  "k_front (set_xst st k) = k_front k" "k_queue q (set_xst st k) = k_queue q k" "cur_xst (set_xst st k) = st"
  "k_icache (set_xst st k) = (k_icache k)(dc_index (k_dec k) := st)"
  by (cases q; simp add: set_xst_def cur_xst_def)+

lemma put_cpu_simps [simp]:
  "k_pool (put_cpu x k) = k_pool k" "k_regs (put_cpu x k) = k_regs k" "k_units (put_cpu x k) = k_units k"
  "k_supply (put_cpu x k) = k_supply k" "k_rob (put_cpu x k) = k_rob k" "k_dec (put_cpu x k) = k_dec k"
  "k_icache (put_cpu x k) = k_icache k" "k_queue q (put_cpu x k) = k_queue q k"
  "fs_lane (k_front (put_cpu x k)) = fs_lane (k_front k)" "fs_cpu (k_front (put_cpu x k)) = x"
  by (cases q; simp add: put_cpu_def)+

lemma put_cpu_inv [simp]: "pipe_inv n (put_cpu x k) = pipe_inv n k"
  by (rule pipe_inv_frame) simp_all

section \<open>Allocation\<close>

definition fresh :: "uop \<Rightarrow> bool" where
  "fresh u \<longleftrightarrow> uninvolved u \<and> u_type u = 0"

lemma reset_fresh: "fresh (reset c i u)"
  by (simp add: fresh_def uninvolved_def reset_def)

lemma held_take:
  fixes i p
  assumes "decoder_ok d" "dc_allocated d < MAX_ALLOCATED"
  defines "d' \<equiv> d\<lparr>dc_inst_id := i, dc_buffered := (dc_buffered d)[dc_allocated d := p], dc_allocated := dc_allocated d + 1\<rparr>"
  shows "held d' = held d @ [p]" "decoder_ok d'"
proof -
  have l: "length (dc_buffered d) = MAX_ALLOCATED" "dc_dispatched d \<le> dc_allocated d" using assms(1) by (simp_all add: decoder_ok_def)
  have "take (Suc (dc_allocated d)) ((dc_buffered d)[dc_allocated d := p]) = take (dc_allocated d) (dc_buffered d) @ [p]"
    using l assms(2) by (simp add: take_Suc_conv_app_nth)
  then show "held d' = held d @ [p]" using l assms(2) by (simp add: held_def d'_def)
  show "decoder_ok d'" using l assms(2) by (simp add: decoder_ok_def d'_def)
qed

lemma take_one_value:
  assumes inv: "pipe_inv n k" and room: "dc_allocated (k_dec k) < MAX_ALLOCATED"
  obtains (empty) "elems (k_supply k) = []" "take_one k = Inr (k, False)"
  | (got) p k' where "take_one k = Inr (k', True)" "p \<notin> set (live k)" "held (k_dec k') = held (k_dec k) @ [p]"
      "k_pool k' = (k_pool k)(p := reset 0 (dc_inst_id (k_dec k)) (u_of k p))" "k_rob k' = k_rob k" "k_regs k' = k_regs k"
      "k_units k' = k_units k" "\<And>q. k_queue q k' = k_queue q k" "elems (k_supply k) = p # elems (k_supply k')"
      "decoder_ok (k_dec k')" "lists_ok n k'" "k_front k' = k_front k" "k_icache k' = k_icache k"
      "k_dec k' = (k_dec k)\<lparr>dc_inst_id := dc_inst_id (k_dec k) + 1, dc_buffered := (dc_buffered (k_dec k))[dc_allocated (k_dec k) := p],
         dc_allocated := dc_allocated (k_dec k) + 1\<rparr>"
proof (cases "elems (k_supply k)")
  case Nil
  then show thesis using supply_value[OF core_invD(1)[OF pipe_invD(1)[OF inv]]] empty by (simp add: take_one_def)
next
  case (Cons p ps)
  note i = core_invD[OF pipe_invD(1)[OF inv]]
  obtain l where l: "get_inst_from_supply k = Inr (k\<lparr>k_supply := l\<rparr>, Some p)" "dl_inv l" "elems l = ps" "dl_capacity l = n"
    using supply_value[OF i(1)] Cons by auto
  define f where "f d = d\<lparr>dc_inst_id := dc_inst_id d + 1, dc_buffered := (dc_buffered d)[dc_allocated d := p], dc_allocated := dc_allocated d + 1\<rparr>" for d :: decoder
  define k' where "k' = on_dec f (upd p (reset 0 (dc_inst_id (k_dec k))) (k\<lparr>k_supply := l\<rparr>))"
  have t: "take_one k = Inr (k', True)" using l(1) room by (simp add: take_one_def k'_def f_def[abs_def] Let_def)
  have h: "held (k_dec k') = held (k_dec k) @ [p]" "decoder_ok (k_dec k')"
    using held_take[OF i(5) room] by (simp_all add: k'_def f_def)
  have pl: "places k = p # ps @ elems (k_rob k) @ held (k_dec k)" using Cons by (simp add: places_def)
  have "lists_ok n k'" using i(10,11) l(2-4) h(1) i(7,9) pl by (auto simp: lists_ok_def places_def k'_def)
  moreover have "p \<notin> set (live k)" using i(10) pl by (simp add: live_def)
  ultimately show thesis by (intro got[OF t]) (use h l(3) Cons in \<open>simp_all add: k'_def f_def\<close>)
qed

lemma take_pipe_inv:
  assumes inv: "pipe_inv n k" and room: "dc_allocated (k_dec k) < MAX_ALLOCATED" and t: "take_one k = Inr (k', True)"
  obtains p where "pipe_inv n k'" "held (k_dec k') = held (k_dec k) @ [p]" "fresh (u_of k' p)"
    "\<And>x. x \<in> set (live k) \<Longrightarrow> u_of k' x = u_of k x" "k_front k' = k_front k" "k_icache k' = k_icache k" "k_regs k' = k_regs k"
    "k_dec k' = (k_dec k)\<lparr>dc_inst_id := dc_inst_id (k_dec k) + 1, dc_buffered := (dc_buffered (k_dec k))[dc_allocated (k_dec k) := p],
         dc_allocated := dc_allocated (k_dec k) + 1\<rparr>"
proof (cases rule: take_one_value[OF inv room, case_names e g])
  case e
  then show thesis using t by simp
next
  case (g p k1)
  have k1: "k1 = k'" using g(1) t by simp
  note g = g[unfolded k1]
  note i = pipe_invD[OF inv]
  let ?r = "reset 0 (dc_inst_id (k_dec k)) (u_of k p)"
  have other: "x \<in> set (live k) \<Longrightarrow> u_of k' x = u_of k x" for x using g(2) by (auto simp: g(4))
  have lv: "live k' = live k @ [p]" by (simp add: live_def g(3,5))
  have rob: "x \<in> set (elems (k_rob k)) \<Longrightarrow> u_of k' x = u_of k x" for x using other by (simp add: live_def)
  have st: "x \<in> set (elems (rq_list (k_queue q k))) \<Longrightarrow> u_of k' x = u_of k x" for x q
    using rob station_rob[OF i(1)] by blast
  have rn: "x \<in> set (running (k_units k)) \<Longrightarrow> u_of k' x = u_of k x" for x using rob running_rob[OF i(1)] by blast
  have pend: "pending k s \<Longrightarrow> pending k' s" for s by (auto simp: pending_def g(3,8))
  have core: "core_inv n k'" unfolding core_inv_def
  proof (intro conjI allI)
    show "lists_ok n k'" "decoder_ok (k_dec k')" by (rule g(11), rule g(10))
    show "station_ok k' q" for q
    proof -
      have "queue_inv (k_pool k') (k_queue q k)"
        by (rule queue_inv_pool[OF core_invD(12)[OF i(1), of q]]) (use st in simp_all)
      then show ?thesis using core_invD(2)[OF i(1), of q] st by (simp add: station_ok_def g(5,8))
    qed
    show "rob_ok k'"
    proof -
      have en: "(a, x) \<in> set (entries (k_rob k)) \<Longrightarrow> u_of k' x = u_of k x" for a x using rob by (force simp: elems_def)
      have cp: "u_cpu (u_of k' p) = 0" by (simp add: g(4) reset_def)
      have hl: "x \<in> set (held (k_dec k)) \<Longrightarrow> u_of k' x = u_of k x" for x using other by (simp add: live_def)
      have r: "rob_ok k" by (rule core_invD(3)[OF i(1)])
      show ?thesis unfolding rob_ok_def g(3,5)
      proof (intro conjI)
        show "\<forall>(el, x) \<in> set (entries (k_rob k)). u_rb_el (u_of k' x) = Some el" using r en by (fastforce simp: rob_ok_def)
        show "\<forall>x \<in> set (elems (k_rob k)) \<union> set (held (k_dec k) @ [p]). u_cpu (u_of k' x) = 0"
          using r rob hl cp by (auto simp: rob_ok_def)
        show "\<forall>x \<in> set (elems (k_rob k)). u_type (u_of k' x) < 32" using r rob by (simp add: rob_ok_def)
      qed
    qed
    show "units_ok k'" using core_invD(4)[OF i(1)] rn unfolding units_ok_def g(7,8) by simp
  qed
  have new: "\<not> in_edge (k_pool k') p a s j" "\<not> out_edge (k_pool k') p j d a" for a s j d
    by (simp_all add: g(4) reset_def in_edge_def out_edge_def)
  have same: "x \<in> set (live k) \<Longrightarrow> in_edge (k_pool k') x a s j = in_edge (k_pool k) x a s j"
    "x \<in> set (live k) \<Longrightarrow> out_edge (k_pool k') x j d a = out_edge (k_pool k) x j d a" for x a s j d
    using other by (simp_all add: in_edge_def out_edge_def)
  have lk: "linked (live_part (set (live k)) (k_pool k))" using i(2) by (simp add: edges_ok_def)
  have eq: "in_edge (live_part (set (live k')) (k_pool k')) x a s j = in_edge (live_part (set (live k)) (k_pool k)) x a s j"
    "out_edge (live_part (set (live k')) (k_pool k')) x j d a = out_edge (live_part (set (live k)) (k_pool k)) x j d a" for x a s j d
    using new same[of x] g(2) by (auto simp: cut_edges lv)
  have "edges_ok k'" unfolding edges_ok_def
  proof (intro conjI ballI allI impI)
    show "linked (live_part (set (live k')) (k_pool k'))" using lk unfolding linked_def eq .
    fix x assume x: "x \<in> set (live k')"
    show "counted (u_of k' x)"
    proof (cases "x = p")
      case True
      then show ?thesis by (simp add: g(4) reset_def counted_def open_deps_def)
    next
      case False
      then have "x \<in> set (live k)" using x by (simp add: lv)
      then show ?thesis using edges_okD(1)[OF i(2)] other by simp
    qed
    fix a s j assume e: "in_edge (k_pool k') x a s j"
    then have xk: "x \<in> set (live k)" using new x by (auto simp: lv)
    then have "in_edge (k_pool k) x a s j" using e same(1) by simp
    then have s: "pending k s" "before (live k) s x" using edges_okD(2,3)[OF i(2) xk] by blast+
    show "pending k' s" by (rule pend[OF s(1)])
    show "before (live k') s x" unfolding lv by (rule before_append[OF s(2)])
  qed
  moreover have "waits_ok k'" using i(3) rob unfolding waits_ok_def g(5,8) by (simp add: open_deps_def)
  moreover have "regs_ok k'" unfolding regs_ok_def
  proof (intro allI impI)
    fix r s assume "k_regs k' r = Some s"
    then have s: "pending k s" "r \<in> set (u_out_regs (u_of k s))" using i(4) unfolding regs_ok_def g(6) by blast+
    then show "pending k' s \<and> r \<in> set (u_out_regs (u_of k' s))" using pend other pending_live[OF i(1)] by simp
  qed
  moreover have "port_ok k'"
  proof -
    have "k_io k' = k_io k" using g(8)[of Io_Queue] by simp
    moreover have "u_of k' x = u_of k x" if "elems (k_rob k) = x # xs" for x xs using rob that by simp
    ultimately show ?thesis using i(5) unfolding port_ok_def g(5) by auto
  qed
  ultimately have "pipe_inv n k'" using core by (simp add: pipe_inv_def)
  then show thesis
    by (rule that[OF _ g(3) _ other g(12,13,6,14)]) (simp_all add: g(4) reset_fresh)
qed
section \<open>Running the microcode\<close>

text \<open>What the work on one instruction leaves alone: the plan of the decoder, the collected bytes and the fetch buffer.\<close>

definition keeps_plan :: "core \<Rightarrow> core \<Rightarrow> bool" where
  "keeps_plan k k' \<longleftrightarrow> k_icache k' = k_icache k \<and> fs_lane (k_front k') = fs_lane (k_front k)
     \<and> dc_buffered (k_dec k') = dc_buffered (k_dec k) \<and> dc_allocated (k_dec k') = dc_allocated (k_dec k)
     \<and> dc_required (k_dec k') = dc_required (k_dec k) \<and> dc_dispatched (k_dec k') = dc_dispatched (k_dec k)
     \<and> dc_busy (k_dec k') = dc_busy (k_dec k) \<and> dc_index (k_dec k') = dc_index (k_dec k) \<and> dc_stop (k_dec k') = dc_stop (k_dec k)
     \<and> dc_first_byte (k_dec k') = dc_first_byte (k_dec k) \<and> dc_bytes (k_dec k') = dc_bytes (k_dec k)"

lemma keeps_plan_refl: "keeps_plan k k"
  by (simp add: keeps_plan_def)

lemma keeps_plan_trans: "keeps_plan k k1 \<Longrightarrow> keeps_plan k1 k2 \<Longrightarrow> keeps_plan k k2"
  by (simp add: keeps_plan_def)

lemma keeps_plan_held: "keeps_plan k k' \<Longrightarrow> held (k_dec k') = held (k_dec k)"
  by (simp add: keeps_plan_def held_def)

text \<open>
  All objects of the instruction are allocated and none is dispatched; the types are those of the table, those
  that need no unit take no part in the graph, and only the first \<open>m\<close> objects are recorded as producers.
\<close>

definition micro_state :: "nat \<Rightarrow> nat list \<Rightarrow> nat \<Rightarrow> core \<Rightarrow> bool" where
  "micro_state n ts m k \<longleftrightarrow> pipe_inv n k \<and> dc_dispatched (k_dec k) = 0 \<and> dc_allocated (k_dec k) = length ts
     \<and> (\<forall>i < length ts. u_type (u_of k (held (k_dec k) ! i)) = ts ! i
          \<and> (ts ! i = T_NONE \<longrightarrow> uninvolved (u_of k (held (k_dec k) ! i))))
     \<and> (\<forall>r s. k_regs k r = Some s \<longrightarrow> s \<in> set (held (k_dec k)) \<longrightarrow> (\<exists>j < m. j < length ts \<and> s = held (k_dec k) ! j))"

lemma micro_stateD:
  assumes "micro_state n ts m k"
  shows "pipe_inv n k" "length (held (k_dec k)) = length ts" "length ts \<le> MAX_ALLOCATED"
    "i < length ts \<Longrightarrow> get_rs i k = Inr (held (k_dec k) ! i)" "i < length ts \<Longrightarrow> u_type (u_of k (held (k_dec k) ! i)) = ts ! i"
    "i < length ts \<Longrightarrow> ts ! i = T_NONE \<Longrightarrow> uninvolved (u_of k (held (k_dec k) ! i))"
    "k_regs k r = Some s \<Longrightarrow> s \<in> set (held (k_dec k)) \<Longrightarrow> \<exists>j < m. j < length ts \<and> s = held (k_dec k) ! j"
    "i < length ts \<Longrightarrow> held (k_dec k) ! i \<in> set (held (k_dec k))" "distinct (held (k_dec k))"
proof -
  note a = assms[unfolded micro_state_def]
  show p: "pipe_inv n k" using a by blast
  have ok: "decoder_ok (k_dec k)" by (rule core_invD(5)[OF pipe_invD(1)[OF p]])
  show l: "length ts \<le> MAX_ALLOCATED" using a ok by (simp add: decoder_ok_def)
  have h: "held (k_dec k) = take (length ts) (dc_buffered (k_dec k))" using a by (simp add: held_def)
  show hl: "length (held (k_dec k)) = length ts" using ok l by (simp add: h decoder_ok_def)
  show "i < length ts \<Longrightarrow> get_rs i k = Inr (held (k_dec k) ! i)" using l by (simp add: get_rs_def h)
  show "i < length ts \<Longrightarrow> u_type (u_of k (held (k_dec k) ! i)) = ts ! i"
    "i < length ts \<Longrightarrow> ts ! i = T_NONE \<Longrightarrow> uninvolved (u_of k (held (k_dec k) ! i))"
    "k_regs k r = Some s \<Longrightarrow> s \<in> set (held (k_dec k)) \<Longrightarrow> \<exists>j < m. j < length ts \<and> s = held (k_dec k) ! j"
    using a by blast+
  show "i < length ts \<Longrightarrow> held (k_dec k) ! i \<in> set (held (k_dec k))" using hl by simp
  show "distinct (held (k_dec k))" using live_distinct[OF pipe_invD(1)[OF p]] by simp
qed

lemma before_nth:
  assumes "i < j" "j < length xs"
  shows "before (ys @ xs) (xs ! i) (xs ! j)"
proof -
  have "xs = take i xs @ xs ! i # drop (Suc i) xs" using assms by (simp add: id_take_nth_drop)
  moreover have "xs ! j \<in> set (drop (Suc i) xs)"
  proof -
    have "drop (Suc i) xs ! (j - Suc i) = xs ! j" "j - Suc i < length (drop (Suc i) xs)" using assms by simp_all
    then show ?thesis by (metis nth_mem)
  qed
  ultimately show ?thesis unfolding before_def by (metis append.assoc)
qed

lemma before_parts: "a \<in> set xs \<Longrightarrow> b \<in> set ys \<Longrightarrow> before (xs @ ys) a b"
  unfolding before_def using split_list[of a xs] by fastforce

text \<open>A change of the graph that leaves types and the uninvolved alone.\<close>

lemma micro_stateI:
  assumes S: "micro_state n ts m k" and p: "pipe_inv n k'" and kp: "keeps_plan k k'"
    and t: "\<And>x. x \<in> set (held (k_dec k)) \<Longrightarrow> u_type (u_of k' x) = u_type (u_of k x)"
    and u: "\<And>x. x \<in> set (held (k_dec k)) \<Longrightarrow> u_type (u_of k x) = T_NONE \<Longrightarrow> uninvolved (u_of k x) \<Longrightarrow> uninvolved (u_of k' x)"
    and r: "\<And>r s. k_regs k' r = Some s \<Longrightarrow> k_regs k r = Some s \<or> (\<exists>j < m'. j < length ts \<and> s = held (k_dec k) ! j)"
    and m: "m \<le> m'"
  shows "micro_state n ts m' k'"
proof -
  note h = keeps_plan_held[OF kp]
  note d = micro_stateD[OF S]
  show ?thesis unfolding micro_state_def h
  proof (intro conjI allI impI)
    show "pipe_inv n k'" by (rule p)
    show "dc_dispatched (k_dec k') = 0" "dc_allocated (k_dec k') = length ts"
      using S kp by (simp_all add: micro_state_def keeps_plan_def)
    fix i assume i: "i < length ts"
    show "u_type (u_of k' (held (k_dec k) ! i)) = ts ! i" using t[OF d(8)[OF i]] d(5)[OF i] by simp
    assume "ts ! i = T_NONE"
    then show "uninvolved (u_of k' (held (k_dec k) ! i))" using u[OF d(8)[OF i]] d(5,6)[OF i] by simp
  next
    fix q s assume "k_regs k' q = Some s" and s: "s \<in> set (held (k_dec k))"
    then consider "k_regs k q = Some s" | "\<exists>j < m'. j < length ts \<and> s = held (k_dec k) ! j" using r by blast
    then show "\<exists>j < m'. j < length ts \<and> s = held (k_dec k) ! j"
    proof cases
      case 1
      then obtain j where "j < m" "j < length ts" "s = held (k_dec k) ! j" using d(7)[OF 1 s] by blast
      then show ?thesis using m by (intro exI[of _ j]) simp
    qed blast
  qed
qed

lemma create_dep_uninvolved:
  assumes "create_dep d s h = Inr h'" "x \<noteq> d" "x \<noteq> s"
  shows "h' x = h x"
  using assms by (auto simp: create_dep_def Let_def split: if_splits)

lemma link_step:
  assumes S: "micro_state n ts m k" and i: "i < length ts" "ts ! i \<noteq> T_NONE"
    and s: "pending k s" "s \<in> set (elems (k_rob k)) \<or> (\<exists>j < i. s = held (k_dec k) ! j)"
      "s \<in> set (held (k_dec k)) \<Longrightarrow> u_type (u_of k s) = T_NONE \<Longrightarrow> \<not> uninvolved (u_of k s)"
    and l: "link_dep (held (k_dec k) ! i) s k = Inr k'"
  shows "micro_state n ts m k'" "keeps_plan k k'" "k_regs k' = k_regs k"
proof -
  note d = micro_stateD[OF S]
  let ?d = "held (k_dec k) ! i"
  obtain h where c: "create_dep ?d s (k_pool k) = Inr h" and k': "k' = k\<lparr>k_pool := h\<rparr>"
    using l by (auto simp: link_dep_def rbind_Inr_iff)
  have b: "before (live k) s ?d" unfolding live_def
    using s(2) before_parts[OF _ d(8)[OF i(1)]] before_nth[of _ i "held (k_dec k)"] i(1) d(2) by auto
  show kp: "keeps_plan k k'" by (simp add: k' keeps_plan_def)
  show "k_regs k' = k_regs k" by (simp add: k')
  have p: "pipe_inv n k'" unfolding k' by (rule link_pipe_inv[OF d(1) d(8)[OF i(1)] s(1) b c])
  show "micro_state n ts m k'"
  proof (rule micro_stateI[OF S p kp _ _ _ order_refl])
    show "u_type (u_of k' x) = u_type (u_of k x)" for x using create_dep_frame(2)[OF c] by (simp add: k')
    show "uninvolved (u_of k' x)" if x: "x \<in> set (held (k_dec k))" "u_type (u_of k x) = T_NONE" "uninvolved (u_of k x)" for x
    proof -
      have "x \<noteq> ?d" using x(2) d(5)[OF i(1)] i(2) by auto
      moreover have "x \<noteq> s" using s(3) x by auto
      ultimately show ?thesis using create_dep_uninvolved[OF c] x(3) by (simp add: k')
    qed
  qed (simp add: k')
qed

lemma check_step:
  assumes S: "micro_state n ts m k" and i: "i < length ts" "ts ! i \<noteq> T_NONE" "m \<le> i" and c: "check_slot i r k = Inr k'"
  shows "micro_state n ts m k' \<and> keeps_plan k k'"
proof (cases "k_regs k r")
  case None
  then show ?thesis using c S keeps_plan_refl by (auto simp: check_slot_def split: if_splits)
next
  case (Some s)
  note d = micro_stateD[OF S]
  have l: "link_dep (held (k_dec k) ! i) s k = Inr k'" using c Some d(4)[OF i(1)] by (simp add: check_slot_def split: if_splits)
  have g: "pending k s" "r \<in> set (u_out_regs (u_of k s))" using pipe_invD(4)[OF d(1)] Some unfolding regs_ok_def by blast+
  have "s \<in> set (elems (k_rob k)) \<or> (\<exists>j < i. s = held (k_dec k) ! j)"
  proof (cases "s \<in> set (held (k_dec k))")
    case True
    then obtain j where "j < m" "s = held (k_dec k) ! j" using d(7)[OF Some True] by blast
    then show ?thesis using i(3) by (intro disjI2 exI[of _ j]) simp
  next
    case False
    then show ?thesis using pending_live[OF pipe_invD(1)[OF d(1)] g(1)] by (simp add: live_def)
  qed
  moreover have "\<not> uninvolved (u_of k s)" using g(2) by (auto simp: uninvolved_def)
  ultimately show ?thesis using link_step(1,2)[OF S i(1,2) g(1) _ _ l] by blast
qed

lemma set_step:
  assumes S: "micro_state n ts m k" and i: "i < length ts" "ts ! i \<noteq> T_NONE" and c: "set_slot i r k = Inr k'"
  shows "micro_state n ts (max m (Suc i)) k' \<and> keeps_plan k k'"
proof -
  note d = micro_stateD[OF S]
  let ?p = "held (k_dec k) ! i"
  obtain h g where s: "set_dep r ?p (k_pool k) (k_regs k) = Inr (h, g)" and k': "k' = k\<lparr>k_pool := h, k_regs := g\<rparr>"
    using c d(4)[OF i(1)] by (auto simp: set_slot_def rbind_Inr_iff split: if_splits)
  have hg: "h = (k_pool k)(?p := (u_of k ?p)\<lparr>u_out_regs := u_out_regs (u_of k ?p) @ [r]\<rparr>)" "g = (k_regs k)(r \<mapsto> ?p)"
    using s by (auto simp: set_dep_def add_out_regs_def rbind_Inr_iff split: if_splits)
  have kp: "keeps_plan k k'" by (simp add: k' keeps_plan_def)
  have p: "pipe_inv n k'" unfolding k' by (rule set_dep_pipe_inv[OF d(1) d(8)[OF i(1)] s])
  have "micro_state n ts (max m (Suc i)) k'"
  proof (rule micro_stateI[OF S p kp])
    show "u_type (u_of k' x) = u_type (u_of k x)" for x by (simp add: k' hg)
    show "uninvolved (u_of k' x)" if x: "u_type (u_of k x) = T_NONE" "uninvolved (u_of k x)" for x
    proof -
      have "x \<noteq> ?p" using x(1) d(5)[OF i(1)] i(2) by auto
      then show ?thesis using x(2) by (simp add: k' hg)
    qed
    show "k_regs k q = Some x \<or> (\<exists>j < max m (Suc i). j < length ts \<and> x = held (k_dec k) ! j)" if "k_regs k' q = Some x" for q x
      using that i(1) by (auto simp: k' hg split: if_splits intro!: exI[of _ i])
  qed simp
  then show ?thesis using kp by blast
qed
lemma checks_run:
  assumes "micro_state n ts m k" "i < length ts" "ts ! i \<noteq> T_NONE" "m \<le> i" "rfold (check_slot i) rs k = Inr k'"
  shows "micro_state n ts m k' \<and> keeps_plan k k'"
  using assms
proof (induction rs arbitrary: k)
  case Nil
  then show ?case using keeps_plan_refl by simp
next
  case (Cons r rs)
  obtain k1 where k1: "check_slot i r k = Inr k1" "rfold (check_slot i) rs k1 = Inr k'" using Cons.prems(5) by (auto simp: rbind_Inr_iff)
  have s: "micro_state n ts m k1 \<and> keeps_plan k k1" by (rule check_step[OF Cons.prems(1-4) k1(1)])
  show ?case using Cons.IH[OF conjunct1[OF s] Cons.prems(2-4) k1(2)] s keeps_plan_trans by blast
qed

lemma sets_run:
  assumes "micro_state n ts m k" "i < length ts" "ts ! i \<noteq> T_NONE" "rfold (set_slot i) rs k = Inr k'"
  shows "micro_state n ts (max m (Suc i)) k' \<and> keeps_plan k k'"
  using assms
proof (induction rs arbitrary: k m)
  case Nil
  have "micro_state n ts (max m (Suc i)) k"
    using micro_stateI[OF Nil.prems(1) micro_stateD(1)[OF Nil.prems(1)] keeps_plan_refl, of "max m (Suc i)"] by simp
  then show ?case using Nil.prems(4) keeps_plan_refl by simp
next
  case (Cons r rs)
  obtain k1 where k1: "set_slot i r k = Inr k1" "rfold (set_slot i) rs k1 = Inr k'" using Cons.prems(4) by (auto simp: rbind_Inr_iff)
  have s: "micro_state n ts (max m (Suc i)) k1 \<and> keeps_plan k k1" by (rule set_step[OF Cons.prems(1-3) k1(1)])
  have "micro_state n ts (max (max m (Suc i)) (Suc i)) k' \<and> keeps_plan k1 k'"
    by (rule Cons.IH[OF conjunct1[OF s] Cons.prems(2,3) k1(2)])
  moreover have "max (max m (Suc i)) (Suc i) = max m (Suc i)" by simp
  ultimately show ?case using s keeps_plan_trans by metis
qed

lemma access_step:
  assumes S: "micro_state n ts m k" and i: "i < length ts" and c: "note_access junk t i v len k = Inr k'"
  shows "micro_state n ts m k' \<and> keeps_plan k k'"
proof -
  note d = micro_stateD[OF S]
  let ?p = "held (k_dec k) ! i"
  let ?f = "\<lambda>a u. u\<lparr>u_mem_result := t, u_mem_addr := a, u_mem_length := len\<rparr>"
  obtain x a where "k' = put_cpu x k \<or> k' = upd ?p (?f a) (put_cpu x k)"
  proof -
    obtain vm x where g: "get_physical Data_Tlb (junk\<lparr>vd_vaddr := v\<rparr>) (fs_cpu (k_front k)) = Inr (vm, x)"
      using c by (auto simp: note_access_def rbind_Inr_iff)
    have "get_rs i (put_cpu x k) = get_rs i k" by (simp add: get_rs_def)
    then have "k' = put_cpu x k \<or> k' = upd ?p (?f (ucast (vd_paddr vm))) (put_cpu x k)"
      using c d(4)[OF i] by (simp add: note_access_def g Let_def split: if_splits)
    then show thesis by (rule that)
  qed
  then show ?thesis
  proof
    assume k': "k' = put_cpu x k"
    have kp: "keeps_plan k k'" by (simp add: k' keeps_plan_def)
    have "micro_state n ts m k'"
      by (rule micro_stateI[OF S _ kp _ _ _ order_refl]) (use d(1) in \<open>simp_all add: k'\<close>)
    then show ?thesis using kp by blast
  next
    assume k': "k' = upd ?p (?f a) (put_cpu x k)"
    have kp: "keeps_plan k k'" by (simp add: k' keeps_plan_def)
    have h: "?p \<in> set (held (k_dec (put_cpu x k)))" using d(8)[OF i] by simp
    have p: "pipe_inv n k'" unfolding k'
      by (rule describe_pipe_inv[OF _ h]) (use d(1) in \<open>simp_all add: keeps_records_def\<close>)
    have "micro_state n ts m k'"
      by (rule micro_stateI[OF S p kp _ _ _ order_refl]) (auto simp: k' uninvolved_def)
    then show ?thesis using kp by blast
  qed
qed

text \<open>One action.\<close>

definition action_ok :: "nat list \<Rightarrow> micro \<Rightarrow> bool" where
  "action_ok ts a \<longleftrightarrow> (\<forall>n \<in> set (micro_uops a). n < length ts \<and> ts ! n \<noteq> T_NONE) \<and> micro_typed ts a"

lemma action_step:
  assumes S: "micro_state n ts m k" and a: "action_ok ts a" "ordered m (a # ms)" and r: "run_micro junk a k = Inr k'"
  obtains m' where "micro_state n ts m' k'" "ordered m' ms" "keeps_plan k k'"
proof (cases a)
  case (M_Check i rs)
  then show thesis using that[of m] checks_run[OF S, of i rs k'] a r by (simp add: action_ok_def)
next
  case (M_Set i rs)
  then show thesis using that[of "max m (Suc i)"] sets_run[OF S, of i rs k'] a r by (simp add: action_ok_def)
next
  case (M_Link d s)
  note dd = micro_stateD[OF S]
  have i: "d < length ts" "ts ! d \<noteq> T_NONE" "s < length ts" "ts ! s \<noteq> T_NONE" "s < d"
    using a by (simp_all add: M_Link action_ok_def)
  have l: "link_dep (held (k_dec k) ! d) (held (k_dec k) ! s) k = Inr k'" using r dd(4) i by (simp add: M_Link)
  have pd: "pending k (held (k_dec k) ! s)" using dd(8)[OF i(3)] by (simp add: pending_def)
  have "u_type (u_of k (held (k_dec k) ! s)) \<noteq> T_NONE" using dd(5)[OF i(3)] i(4) by simp
  then have "micro_state n ts m k'" "keeps_plan k k'" using link_step(1,2)[OF S i(1,2) pd _ _ l] i(5) by blast+
  then show thesis using that[of m] a(2) by (simp add: M_Link)
next
  case (M_Load i v len)
  then show thesis using that[of m] access_step[OF S, of i junk T_LOAD v len k'] a r by (simp add: action_ok_def)
next
  case (M_Store i v len)
  then show thesis using that[of m] access_step[OF S, of i junk T_STORE v len k'] a r by (simp add: action_ok_def)
next
  case (M_Branch v t)
  then have k': "k' = set_branch_result v t k" using r by simp
  have kp: "keeps_plan k k'" by (simp add: k' set_branch_result_def keeps_plan_def)
  have "pipe_inv n k'" using micro_stateD(1)[OF S]
    by (subst pipe_inv_frame[of k' k]) (simp_all add: k' set_branch_result_def held_def decoder_ok_def)
  then have "micro_state n ts m k'"
    by (rule micro_stateI[OF S _ kp _ _ _ order_refl]) (simp_all add: k' set_branch_result_def)
  then show thesis using that[of m] kp a(2) by (simp add: M_Branch)
qed

lemma actions_run:
  assumes "micro_state n ts m k" "\<forall>a \<in> set ms. action_ok ts a" "ordered m ms" "rfold (run_micro junk) ms k = Inr k'"
  shows "\<exists>m'. micro_state n ts m' k' \<and> keeps_plan k k'"
  using assms
proof (induction ms arbitrary: m k)
  case Nil
  then show ?case using keeps_plan_refl by auto
next
  case (Cons a ms)
  obtain k1 where k1: "run_micro junk a k = Inr k1" "rfold (run_micro junk) ms k1 = Inr k'"
    using Cons.prems(4) by (auto simp: rbind_Inr_iff)
  have a: "action_ok ts a" using Cons.prems(2) by simp
  obtain m1 where m1: "micro_state n ts m1 k1" "ordered m1 ms" "keeps_plan k k1"
    by (rule action_step[OF Cons.prems(1) a Cons.prems(3) k1(1)])
  have "\<exists>m'. micro_state n ts m' k' \<and> keeps_plan k1 k'" using Cons.IH[OF m1(1) _ m1(2) k1(2)] Cons.prems(2) by simp
  then show ?case using keeps_plan_trans[OF m1(3)] by blast
qed
text \<open>The types come first; the objects are fresh.\<close>

definition typed_upto :: "nat \<Rightarrow> nat list \<Rightarrow> nat \<Rightarrow> core \<Rightarrow> bool" where
  "typed_upto n ts j k \<longleftrightarrow> pipe_inv n k \<and> dc_dispatched (k_dec k) = 0 \<and> dc_allocated (k_dec k) = length ts
     \<and> (\<forall>i < length ts. uninvolved (u_of k (held (k_dec k) ! i)) \<and> (i < j \<longrightarrow> u_type (u_of k (held (k_dec k) ! i)) = ts ! i))"

lemma typed_done:
  assumes "typed_upto n ts (length ts) k"
  shows "micro_state n ts 0 k"
proof -
  note a = assms[unfolded typed_upto_def]
  have p: "pipe_inv n k" using a by blast
  have "length (held (k_dec k)) = length ts"
    using a core_invD(5)[OF pipe_invD(1)[OF p]] by (simp add: held_def decoder_ok_def)
  then have "uninvolved (u_of k s)" if "s \<in> set (held (k_dec k))" for s using that a by (metis in_set_conv_nth)
  then have "s \<notin> set (held (k_dec k))" if "k_regs k r = Some s" for r s
    using pipe_invD(4)[OF p] that unfolding regs_ok_def by (metis empty_iff empty_set uninvolved_def)
  then show ?thesis using a by (auto simp: micro_state_def)
qed

lemma type_step:
  assumes T: "typed_upto n ts j k" and j: "j < length ts" and c: "set_type (j, ts ! j) k = Inr k'"
  shows "typed_upto n ts (Suc j) k' \<and> keeps_plan k k'"
proof -
  note a = T[unfolded typed_upto_def]
  have p: "pipe_inv n k" using a by blast
  have ok: "decoder_ok (k_dec k)" by (rule core_invD(5)[OF pipe_invD(1)[OF p]])
  let ?h = "held (k_dec k)"
  have h: "?h = take (length ts) (dc_buffered (k_dec k))" "length ?h = length ts" "length ts \<le> MAX_ALLOCATED"
    using a ok by (simp_all add: held_def decoder_ok_def)
  have dist: "distinct ?h" using live_distinct[OF pipe_invD(1)[OF p]] by simp
  have g: "get_rs j k = Inr (?h ! j)" using h j by (simp add: get_rs_def)
  let ?k = "upd (?h ! j) (\<lambda>u. u\<lparr>u_type := ts ! j\<rparr>) k"
  have k': "k' = on_dec (\<lambda>d. d\<lparr>dc_has_branch := dc_has_branch d \<or> ts ! j = T_BRANCH\<rparr>) ?k" using c g by (simp add: set_type_def)
  have kp: "keeps_plan k k'" by (simp add: k' keeps_plan_def)
  have "?h ! j \<in> set ?h" using h(2) j by (metis nth_mem)
  then have "pipe_inv n ?k" by (rule describe_pipe_inv[OF p]) (simp add: keeps_records_def)
  moreover have "pipe_inv n k' = pipe_inv n ?k" unfolding k' by (rule pipe_inv_frame) (simp_all add: held_def decoder_ok_def)
  moreover have "uninvolved (u_of k' (?h ! i))" if "i < length ts" for i
    using a that j by (cases "?h ! i = ?h ! j") (auto simp: k' uninvolved_def)
  moreover have "u_type (u_of k' (?h ! i)) = ts ! i" if "i < Suc j" for i
  proof (cases "i = j")
    case False
    then have "?h ! i \<noteq> ?h ! j" using dist that j h(2) by (simp add: nth_eq_iff_index_eq)
    then show ?thesis using a that False j by (simp add: k')
  qed (simp add: k')
  ultimately have "typed_upto n ts (Suc j) k'" using a kp keeps_plan_held[OF kp] unfolding typed_upto_def by (simp add: keeps_plan_def)
  then show ?thesis using kp by blast
qed

lemma types_run:
  assumes "typed_upto n (xs @ ys) (length xs) k" "rfold set_type (enumerate (length xs) ys) k = Inr k'"
  shows "typed_upto n (xs @ ys) (length (xs @ ys)) k' \<and> keeps_plan k k'"
  using assms
proof (induction ys arbitrary: xs k)
  case Nil
  then show ?case using keeps_plan_refl by simp
next
  case (Cons t ys)
  obtain k1 where k1: "set_type (length xs, t) k = Inr k1" "rfold set_type (enumerate (Suc (length xs)) ys) k1 = Inr k'"
    using Cons.prems(2) by (auto simp: rbind_Inr_iff)
  have s: "typed_upto n (xs @ t # ys) (Suc (length xs)) k1 \<and> keeps_plan k k1"
    by (rule type_step[OF Cons.prems(1)]) (use k1(1) in simp_all)
  have "typed_upto n ((xs @ [t]) @ ys) (length ((xs @ [t]) @ ys)) k' \<and> keeps_plan k1 k'"
    by (rule Cons.IH) (use s k1(2) in simp_all)
  then show ?case using s keeps_plan_trans by auto
qed

text \<open>What the decoder holds can be dispatched.\<close>

definition held_ok :: "core \<Rightarrow> bool" where
  "held_ok k \<longleftrightarrow> (\<forall>p \<in> set (held (k_dec k)). u_type (u_of k p) < 32
     \<and> (station (u_type (u_of k p)) = None \<longrightarrow> uninvolved (u_of k p)))"

lemma station_None: "t < 32 \<Longrightarrow> station t = None \<longleftrightarrow> t = T_NONE"
proof -
  have "station T_NONE = None"
    by (simp add: station_def is_mem_def is_io_def type_mask_def T_NONE_def T_LOAD_def T_STORE_def T_IO_IN_def T_IO_OUT_def)
  then show ?thesis by (auto simp: station_def split: if_splits)
qed

definition all_fresh :: "core \<Rightarrow> bool" where
  "all_fresh k \<longleftrightarrow> (\<forall>p \<in> set (held (k_dec k)). fresh (u_of k p))"

lemma record_pipe_inv:
  assumes inv: "pipe_inv n k" and d: "dc_dispatched (k_dec k) = 0" "dc_allocated (k_dec k) = length ts"
    and f: "all_fresh k" and en: "\<And>i z. operands_ok i \<Longrightarrow> entry_ok i z (h, ts)"
    and o: "\<And>k1. keeps_plan k k1 \<Longrightarrow> operands_ok (operands_of (en_bochs e) k1)"
    and r: "record_microcode e (h, ts) k = Inr k'"
  shows "pipe_inv n k'" "keeps_plan k k'" "held_ok k'"
proof -
  obtain k1 where k1: "rfold set_type (enumerate 0 ts) k = Inr k1"
    "rfold (run_micro (en_junk e)) (h (operands_of (en_bochs e) k1) (osize_of (cur_xst k1))) k1 = Inr k'"
    using r by (auto simp: record_microcode_def rbind_Inr_iff)
  have ok: "decoder_ok (k_dec k)" by (rule core_invD(5)[OF pipe_invD(1)[OF inv]])
  have hl: "length (held (k_dec k)) = length ts" using d ok by (simp add: held_def decoder_ok_def)
  have "uninvolved (u_of k (held (k_dec k) ! i))" if "i < length ts" for i
    using f that hl by (metis all_fresh_def fresh_def nth_mem)
  then have "typed_upto n ts 0 k" using inv d by (simp add: typed_upto_def)
  then have t: "typed_upto n ts (length ts) k1 \<and> keeps_plan k k1" using types_run[of n "[]" ts k k1] k1(1) by simp
  note m = typed_done[OF conjunct1[OF t]]
  let ?i = "operands_of (en_bochs e) k1" and ?z = "osize_of (cur_xst k1)"
  have eo: "entry_ok ?i ?z (h, ts)" by (rule en[OF o]) (use t in blast)
  then have acts: "\<forall>a \<in> set (h ?i ?z). action_ok ts a" "ordered 0 (h ?i ?z)"
    by (auto simp: entry_ok_def micro_ok_def list_all_iff action_ok_def)
  obtain m' where m': "micro_state n ts m' k'" "keeps_plan k1 k'" using actions_run[OF m acts k1(2)] by blast
  note dd = micro_stateD[OF m'(1)]
  show "pipe_inv n k'" by (rule dd(1))
  show "keeps_plan k k'" using t m'(2) keeps_plan_trans by blast
  show "held_ok k'" unfolding held_ok_def
  proof
    fix p assume "p \<in> set (held (k_dec k'))"
    then obtain i where i: "i < length ts" "p = held (k_dec k') ! i" using dd(2) by (metis in_set_conv_nth)
    have t32: "ts ! i < 32" using eo i(1) by (simp add: entry_ok_def list_all_iff)
    then show "u_type (u_of k' p) < 32 \<and> (station (u_type (u_of k' p)) = None \<longrightarrow> uninvolved (u_of k' p))"
      using dd(5,6)[OF i(1)] station_None[OF t32] unfolding i(2) by simp
  qed
qed

end
