(* ===== verification/Decoder_Inv.thy ===== *)
theory Decoder_Inv
  imports Decoder_Work
begin

text \<open>
  The invariant of the decoder at the points where the end of a cycle can interrupt it, and its preservation by every
  function of the decoder and by the decode stage, for a fetch buffer without faulting bytes.
\<close>

section \<open>The invariant of the decoder\<close>

definition bases_ok :: "xst \<Rightarrow> bool" where
  "bases_ok st \<longleftrightarrow> (xs_has_base st \<longrightarrow> xs_base st < 16) \<and> (xs_has_index st \<longrightarrow> xs_index st < 16)"

definition icache_ok :: "core \<Rightarrow> bool" where
  "icache_ok k \<longleftrightarrow> (\<forall>i. xs_busy (k_icache k i) \<longrightarrow> bases_ok (k_icache k i))"

text \<open>What holds at each point where the decoder can be interrupted by the end of a cycle.\<close>

definition stage_ok :: "core \<Rightarrow> bool" where
  "stage_ok k \<longleftrightarrow> (let d = k_dec k in
     if \<not> dc_busy d then held d = []
     else case dc_handler d of
       H_Byte c \<Rightarrow> c \<noteq> C_Done \<and> dc_allocated d = 0 \<and> dc_dispatched d = 0 \<and> (if dc_first_byte d then c = C_Decode else bases_ok (cur_xst k))
     | H_Get_Bytes \<Rightarrow> dc_allocated d = 0 \<and> dc_dispatched d = 0 \<and> bases_ok (cur_xst k)
     | H_Alocate \<Rightarrow> dc_saved d = H_After_Allocate \<and> dc_dispatched d = 0 \<and> dc_allocated d \<le> dc_required d \<and> bases_ok (cur_xst k)
         \<and> (\<exists>h ts. entry_of (cur_xst k) = Inr (h, ts) \<and> dc_required d = length ts) \<and> all_fresh k
     | H_Dispatch \<Rightarrow> held_ok k \<and> dc_allocated d = dc_required d
     | _ \<Rightarrow> False)"

definition dec_inv :: "nat \<Rightarrow> core \<Rightarrow> bool" where
  "dec_inv n k \<longleftrightarrow> pipe_inv n k \<and> icache_ok k \<and> stage_ok k"

section \<open>Dispatching\<close>

lemma dispatch_frame:
  assumes "dispatch c cyc p k = Inr (k', ok)"
  shows "k_icache k' = k_icache k" "fs_lane (k_front k') = fs_lane (k_front k)" "k_dec k' = k_dec k"
proof -
  have n: "k_icache (note_branch p k) = k_icache k" "fs_lane (k_front (note_branch p k)) = fs_lane (k_front k)"
    by (simp_all add: note_branch_def)
  have q: "k_icache (fst (enqueue p k)) = k_icache k \<and> fs_lane (k_front (fst (enqueue p k))) = fs_lane (k_front k)
      \<and> k_dec (fst (enqueue p k)) = k_dec k" for k
    by (simp add: enqueue_def split: option.split prod.split)
  have m: "k_icache k2 = k_icache k1 \<and> fs_lane (k_front k2) = fs_lane (k_front k1) \<and> k_dec k2 = k_dec k1"
    if "memory_time cyc p k1 = Inr k2" for k1 k2
    using that by (auto simp: memory_time_def rbind_Inr_iff split: if_splits prod.splits)
  have r: "k_icache (rob_add p k1) = k_icache k1 \<and> fs_lane (k_front (rob_add p k1)) = fs_lane (k_front k1) \<and> k_dec (rob_add p k1) = k_dec k1" for k1
    by (simp add: rob_add_def split: prod.split)
  have "k_icache k' = k_icache k \<and> fs_lane (k_front k') = fs_lane (k_front k) \<and> k_dec k' = k_dec k"
    using assms q[of "note_branch p k"] n m r
    by (cases "enqueue p (note_branch p k)") (auto simp: dispatch_def rbind_Inr_iff split: if_splits)
  then show "k_icache k' = k_icache k" "fs_lane (k_front k') = fs_lane (k_front k)" "k_dec k' = k_dec k" by blast+
qed

text \<open>The invariant does not see the address and the length of an instruction.\<close>

lemma address_pipe_inv:
  assumes inv: "pipe_inv n (advance k)"
  shows "pipe_inv n (advance (upd p (\<lambda>u. u\<lparr>u_vaddr := a, u_length := l\<rparr>) k))"
proof -
  note i = pipe_invD[OF inv]
  define h where "h = (k_pool k)(p := (u_of k p)\<lparr>u_vaddr := a, u_length := l\<rparr>)"
  let ?k = "advance k\<lparr>k_pool := h\<rparr>"
  have eq: "advance (upd p (\<lambda>u. u\<lparr>u_vaddr := a, u_length := l\<rparr>) k) = ?k" by (simp add: advance_def upd_def h_def)
  have ak: "k_pool (advance k) = k_pool k" by (simp add: advance_def)
  have f: "u_queue (h x) = u_queue (u_of k x)" "u_status (h x) = u_status (u_of k x)" "u_queue_el (h x) = u_queue_el (u_of k x)"
    "u_rb_el (h x) = u_rb_el (u_of k x)" "u_type (h x) = u_type (u_of k x)" "u_cpu (h x) = u_cpu (u_of k x)" for x
    by (simp_all add: h_def)
  have "core_inv n (advance k\<lparr>k_pool := h, k_regs := k_regs (advance k)\<rparr>)"
    by (rule held_core_inv[OF i(1)]) (simp_all add: f ak)
  then have core: "core_inv n ?k" by simp
  have sd: "same_deps (k_pool (advance k)) (k_pool ?k)" by (simp add: same_deps_def ak h_def)
  note sf = same_deps_facts[OF sd]
  have lv: "live ?k = live (advance k)" by (simp add: live_def)
  have pend: "pending ?k s = pending (advance k) s" for s by (simp add: pending_def)
  have st: "u_status (u_of ?k x) = u_status (u_of (advance k) x)" for x by (simp add: f ak)
  have fs: "k_regs ?k = k_regs (advance k)" "k_rob ?k = k_rob (advance k)" "k_io ?k = k_io (advance k)" "k_queue q ?k = k_queue q (advance k)" for q
    by simp_all
  have "edges_ok ?k" using i(2) unfolding edges_ok_def lv pend sf .
  moreover have "waits_ok ?k" using i(3) unfolding waits_ok_def st sf(4) fs .
  moreover have "regs_ok ?k" using i(4) unfolding regs_ok_def pend sf(6) fs .
  moreover have "port_ok ?k" using i(5) unfolding port_ok_def st fs .
  ultimately show ?thesis using core by (simp add: pipe_inv_def eq)
qed

text \<open>What is left after the dispatch of an instruction began.\<close>

definition dispatched :: "nat \<Rightarrow> core \<Rightarrow> core \<Rightarrow> bool" where
  "dispatched n k k' \<longleftrightarrow> dec_inv n k' \<and> (dc_busy (k_dec k') \<longrightarrow> dc_stop (k_dec k'))
     \<and> fs_lane (k_front k') = fs_lane (k_front k) \<and> dc_bytes (k_dec k') = dc_bytes (k_dec k)"

lemma icache_ok_cong: "k_icache k' = k_icache k \<Longrightarrow> icache_ok k' = icache_ok k"
  by (simp add: icache_ok_def)

lemma dispatch_loop_inv:
  assumes "pipe_inv n k" "icache_ok k" "held_ok k" "dc_busy (k_dec k)" "dc_handler (k_dec k) = H_Dispatch"
    "dc_allocated (k_dec k) = dc_required (k_dec k)" "m = dc_required (k_dec k) - dc_dispatched (k_dec k)"
    "dispatch_loop e m k = Inr k'"
  shows "dispatched n k k'"
  using assms
proof (induction m arbitrary: k)
  case 0
  let ?k = "on_dec (\<lambda>d. d\<lparr>dc_busy := False\<rparr>) k"
  have k': "k' = ?k" using 0 by simp
  have "pipe_inv n ?k = pipe_inv n k" by (rule pipe_inv_frame) (simp_all add: held_def decoder_ok_def)
  then have "pipe_inv n k'" using 0 k' by simp
  moreover have "icache_ok k'" using 0(2) by (simp add: icache_ok_def k')
  moreover have "held (k_dec k') = []"
    using 0(6,7) by (simp add: k' held_def)
  ultimately show ?case by (simp add: dispatched_def dec_inv_def stage_ok_def k')
next
  case (Suc m)
  note i = pipe_invD[OF Suc.prems(1)]
  have ok: "decoder_ok (k_dec k)" by (rule core_invD(5)[OF i(1)])
  define p where "p = dc_buffered (k_dec k) ! dc_dispatched (k_dec k)"
  have lt: "dc_dispatched (k_dec k) < dc_allocated (k_dec k)" using Suc.prems(6,7) by simp
  have hd: "held (k_dec k) = p # tl (held (k_dec k))"
    using lt ok by (simp add: held_def p_def decoder_ok_def flip: Cons_nth_drop_Suc)
  have g: "get_rs (dc_dispatched (k_dec k)) k = Inr p" using lt ok by (simp add: get_rs_def p_def decoder_ok_def)
  obtain k1 b where d: "dispatch (en_cfg e) (en_cycle e) p k = Inr (k1, b)"
    using Suc.prems(8) g by (auto simp: rbind_Inr_iff)
  note fr = dispatch_frame[OF d]
  have pt: "u_type (u_of k p) < 32" and pu: "station (u_type (u_of k p)) = None \<Longrightarrow> uninvolved (u_of k p)"
    using Suc.prems(3) hd unfolding held_ok_def by (metis list.set_intros(1))+
  have inv1: "pipe_inv n (if b then advance k1 else k1)" by (rule dispatch_pipe_inv[OF Suc.prems(1) hd pt pu d])
  have other: "u_of k1 x = u_of k x" if "x \<noteq> p" for x
  proof (cases rule: dispatch_value[OF i(1) hd pt, where c = "en_cfg e" and cyc = "en_cycle e", case_names f e a])
    case f
    then show ?thesis using d by simp
  next
    case (e ka x)
    then show ?thesis using d by simp
  next
    case (a ka)
    then show ?thesis using d that by simp
  qed
  show ?case
  proof (cases b)
    case False
    have k': "k' = stop_decoding k1" using Suc.prems(8) g d False by simp
    have same: "k1 = note_branch p k"
    proof (cases rule: dispatch_value[OF i(1) hd pt, where c = "en_cfg e" and cyc = "en_cycle e", case_names f e a])
      case f
      then show ?thesis using d by simp
    next
      case (e ka x)
      then show ?thesis using d by simp
    next
      case (a ka)
      then show ?thesis using d False by simp
    qed
    have "pipe_inv n k' = pipe_inv n k1" unfolding k' stop_decoding_def by (rule pipe_inv_frame) (simp_all add: held_def decoder_ok_def)
    moreover have "held_ok k' = held_ok k" by (simp add: k' held_ok_def stop_decoding_def held_def same)
    ultimately show ?thesis using Suc.prems inv1 False fr
      by (simp add: dispatched_def dec_inv_def stage_ok_def k' stop_decoding_def icache_ok_def)
  next
    case True
    define k2 where "k2 = advance (upd p (\<lambda>u. u\<lparr>u_vaddr := dc_addr (k_dec k1), u_length := dc_length (k_dec k1)\<rparr>) k1)"
    have run: "dispatch_loop e m k2 = Inr k'" using Suc.prems(8) g d True by (simp add: k2_def)
    have dk: "k_dec k2 = (k_dec k)\<lparr>dc_dispatched := dc_dispatched (k_dec k) + 1\<rparr>" by (simp add: k2_def advance_def fr)
    have h2: "held (k_dec k2) = tl (held (k_dec k))" using held_advance(1)[OF hd] by (simp add: dk)
    let ?f = "\<lambda>u. u\<lparr>u_vaddr := dc_addr (k_dec k1), u_length := dc_length (k_dec k1)\<rparr>"
    have inv2: "pipe_inv n k2"
    proof -
      have a: "pipe_inv n (advance k1)" using inv1 True by simp
      show ?thesis unfolding k2_def by (rule address_pipe_inv[OF a])
    qed
    have ho: "held_ok k2" unfolding held_ok_def h2
    proof
      fix x assume x: "x \<in> set (tl (held (k_dec k)))"
      have "distinct (held (k_dec k))" using live_distinct[OF i(1)] by simp
      then have "x \<noteq> p" using x hd by (metis distinct.simps(2))
      then have "u_of k2 x = u_of k x" using other by (simp add: k2_def advance_def)
      moreover have "x \<in> set (held (k_dec k))" using x hd by (metis list.set_intros(2))
      ultimately show "u_type (u_of k2 x) < 32 \<and> (station (u_type (u_of k2 x)) = None \<longrightarrow> uninvolved (u_of k2 x))"
        using Suc.prems(3) by (simp add: held_ok_def)
    qed
    have "dispatched n k2 k'"
      by (rule Suc.IH[OF inv2 _ ho _ _ _ _ run]) (use Suc.prems fr in \<open>simp_all add: dk k2_def advance_def icache_ok_def\<close>)
    then show ?thesis using fr by (simp add: dispatched_def k2_def advance_def)
  qed
qed
section \<open>The end of an instruction\<close>

definition describes :: "(uop \<Rightarrow> uop) \<Rightarrow> bool" where
  "describes f \<longleftrightarrow> keeps_records f \<and> (\<forall>u. u_type (f u) = u_type u)"

text \<open>The same core but for the description of what the decoder holds.\<close>

definition redescribed :: "nat \<Rightarrow> core \<Rightarrow> core \<Rightarrow> bool" where
  "redescribed n k k' \<longleftrightarrow> k_dec k' = k_dec k \<and> k_icache k' = k_icache k \<and> k_front k' = k_front k
     \<and> (pipe_inv n k \<longrightarrow> pipe_inv n k') \<and> (held_ok k \<longrightarrow> held_ok k')"

lemma redescribed_refl: "redescribed n k k"
  by (simp add: redescribed_def)

lemma redescribed_trans: "redescribed n k k1 \<Longrightarrow> redescribed n k1 k2 \<Longrightarrow> redescribed n k k2"
  by (simp add: redescribed_def)

lemma redescribed_upd:
  assumes "p \<in> set (held (k_dec k))" "describes f"
  shows "redescribed n k (upd p f k)"
  using assms describe_pipe_inv[of n k p f]
  by (auto simp: redescribed_def describes_def held_ok_def keeps_records_def uninvolved_def)

lemma redescribed_fold:
  assumes "set us \<subseteq> set (held (k_dec k))" "describes f"
  shows "redescribed n k (fold (\<lambda>p. upd p f) us k)"
  using assms(1)
proof (induction us arbitrary: k)
  case Nil
  then show ?case by (simp add: redescribed_refl)
next
  case (Cons p us)
  have "redescribed n k (upd p f k)" by (rule redescribed_upd[OF _ assms(2)]) (use Cons.prems in simp)
  moreover have "redescribed n (upd p f k) (fold (\<lambda>p. upd p f) us (upd p f k))" by (rule Cons.IH) (use Cons.prems in simp)
  ultimately show ?case using redescribed_trans by simp
qed

lemma marks_describe:
  "describes (mark_uop s a b)" "describes (mark_branch d)" "describes (\<lambda>u. (mark_last d u)\<lparr>u_microcode := Last\<rparr>)"
  "describes (\<lambda>u. (mark_first d u)\<lparr>u_microcode := First\<rparr>)"
  by (simp_all add: describes_def keeps_records_def mark_uop_def mark_branch_def mark_last_def mark_first_def Let_def)

lemma end_path_frame:
  assumes "end_path rip d = (d', s)"
  shows "dc_buffered d' = dc_buffered d" "dc_allocated d' = dc_allocated d" "dc_required d' = dc_required d"
    "dc_dispatched d' = dc_dispatched d" "dc_busy d' = dc_busy d" "dc_stop d' = dc_stop d" "dc_bytes d' = dc_bytes d"
  using assms by (auto simp: end_path_def Let_def split: if_splits)

lemma end_branch_frame [simp]:
  "dc_buffered (end_branch rip d) = dc_buffered d" "dc_allocated (end_branch rip d) = dc_allocated d"
  "dc_required (end_branch rip d) = dc_required d" "dc_dispatched (end_branch rip d) = dc_dispatched d"
  "dc_busy (end_branch rip d) = dc_busy d" "dc_stop (end_branch rip d) = dc_stop d" "dc_bytes (end_branch rip d) = dc_bytes d"
  by (simp_all add: end_branch_def)

lemma end_marks_inv:
  assumes "pipe_inv n k" "held_ok k" "dc_allocated (k_dec k) = dc_required (k_dec k)" "dc_dispatched (k_dec k) = 0"
  shows "pipe_inv n (end_marks rip k)" "held_ok (end_marks rip k)" "k_icache (end_marks rip k) = k_icache k"
    "k_front (end_marks rip k) = k_front k" "dc_allocated (k_dec (end_marks rip k)) = dc_allocated (k_dec k)"
    "dc_required (k_dec (end_marks rip k)) = dc_required (k_dec k)" "dc_dispatched (k_dec (end_marks rip k)) = dc_dispatched (k_dec k)"
    "dc_busy (k_dec (end_marks rip k)) = dc_busy (k_dec k)" "dc_bytes (k_dec (end_marks rip k)) = dc_bytes (k_dec k)"
proof -
  obtain d1 s where p: "end_path rip (k_dec k) = (d1, s)" by force
  note ep = end_path_frame[OF p]
  define us where "us = take (dc_required d1) (dc_buffered d1)"
  define d2 where "d2 = end_branch rip d1"
  define k0 where "k0 = k\<lparr>k_dec := d2\<rparr>"
  have h0: "held (k_dec k0) = held (k_dec k)" "us = held (k_dec k)"
    using assms(3,4) ep by (simp_all add: k0_def d2_def held_def us_def)
  have p0: "pipe_inv n k0" using assms(1)
    by (subst pipe_inv_frame[of k0 k]) (use h0 ep in \<open>simp_all add: k0_def d2_def decoder_ok_def\<close>)
  have o0: "held_ok k0" using assms(2) h0(1) by (simp add: held_ok_def k0_def)
  define k1 where "k1 = fold (\<lambda>p. upd p (mark_uop s (hd us) (last us))) us k0"
  define k2 where "k2 = (if dc_is_branch d2 then fold (\<lambda>p. upd p (mark_branch d2)) us k1 else k1)"
  have r1: "redescribed n k0 k1" unfolding k1_def by (rule redescribed_fold[OF _ marks_describe(1)]) (simp add: h0)
  then have h1: "held (k_dec k1) = us" using h0 by (simp add: redescribed_def)
  have r2: "redescribed n k1 k2" unfolding k2_def
    using redescribed_fold[of us k1 "mark_branch d2" n] marks_describe(2) redescribed_refl h1 by simp
  then have h2: "held (k_dec k2) = us" using h1 by (simp add: redescribed_def)
  have e: "end_marks rip k = (if us = [] then k2 else upd (hd us) (\<lambda>u. (mark_first d2 u)\<lparr>u_microcode := First\<rparr>)
        (upd (last us) (\<lambda>u. (mark_last d2 u)\<lparr>u_microcode := Last\<rparr>) k2))"
    by (simp add: end_marks_def p Let_def us_def d2_def k0_def k1_def k2_def)
  have r3: "redescribed n k2 (end_marks rip k)"
  proof (cases "us = []")
    case True
    then show ?thesis by (simp add: e redescribed_refl)
  next
    case False
    let ?k3 = "upd (last us) (\<lambda>u. (mark_last d2 u)\<lparr>u_microcode := Last\<rparr>) k2"
    have a: "redescribed n k2 ?k3" by (rule redescribed_upd[OF _ marks_describe(3)]) (use False h2 in simp)
    then have "redescribed n ?k3 (upd (hd us) (\<lambda>u. (mark_first d2 u)\<lparr>u_microcode := First\<rparr>) ?k3)"
      by (intro redescribed_upd[OF _ marks_describe(4)]) (use False h2 in simp)
    then show ?thesis using a redescribed_trans False by (simp add: e)
  qed
  have r: "redescribed n k0 (end_marks rip k)" using r1 r2 r3 redescribed_trans by blast
  show "pipe_inv n (end_marks rip k)" "held_ok (end_marks rip k)" using r p0 o0 by (simp_all add: redescribed_def)
  show "k_icache (end_marks rip k) = k_icache k" "k_front (end_marks rip k) = k_front k"
    "dc_allocated (k_dec (end_marks rip k)) = dc_allocated (k_dec k)"
    "dc_required (k_dec (end_marks rip k)) = dc_required (k_dec k)" "dc_dispatched (k_dec (end_marks rip k)) = dc_dispatched (k_dec k)"
    "dc_busy (k_dec (end_marks rip k)) = dc_busy (k_dec k)" "dc_bytes (k_dec (end_marks rip k)) = dc_bytes (k_dec k)"
    using r ep by (simp_all add: redescribed_def k0_def d2_def)
qed

lemma dec_change_inv:
  assumes "held (f (k_dec k)) = held (k_dec k)" "decoder_ok (f (k_dec k)) = decoder_ok (k_dec k)"
  shows "pipe_inv n (on_dec f k) = pipe_inv n k" "held_ok (on_dec f k) = held_ok k" "icache_ok (on_dec f k) = icache_ok k"
    "all_fresh (on_dec f k) = all_fresh k"
proof -
  show "pipe_inv n (on_dec f k) = pipe_inv n k" by (rule pipe_inv_frame) (use assms in simp_all)
qed (use assms in \<open>simp_all add: held_ok_def icache_ok_def all_fresh_def\<close>)

lemma handler_change [simp]:
  "pipe_inv n (set_handler h k) = pipe_inv n k" "held_ok (set_handler h k) = held_ok k" "icache_ok (set_handler h k) = icache_ok k"
  "k_dec (set_handler h k) = (k_dec k)\<lparr>dc_handler := h\<rparr>" "k_front (set_handler h k) = k_front k" "k_icache (set_handler h k) = k_icache k"
  "k_pool (set_handler h k) = k_pool k"
proof -
  let ?f = "\<lambda>d. d\<lparr>dc_handler := h\<rparr>"
  have "held (?f (k_dec k)) = held (k_dec k)" "decoder_ok (?f (k_dec k)) = decoder_ok (k_dec k)" by (simp_all add: held_def decoder_ok_def)
  then show "pipe_inv n (set_handler h k) = pipe_inv n k" "held_ok (set_handler h k) = held_ok k" "icache_ok (set_handler h k) = icache_ok k"
    using dec_change_inv[of ?f k] by (simp_all add: set_handler_def)
qed (simp_all add: set_handler_def)

lemma instruction_end_inv:
  assumes "pipe_inv n k" "icache_ok k" "held_ok k" "dc_busy (k_dec k)" "dc_dispatched (k_dec k) = 0"
    "dc_allocated (k_dec k) = dc_required (k_dec k)" "instruction_end e k = Inr k'"
  shows "dispatched n k k'"
proof -
  let ?rip = "x_rip (fs_cpu (k_front k))"
  note m = end_marks_inv[OF assms(1,3,6,5), of ?rip]
  let ?k = "set_handler H_Dispatch (end_marks ?rip k)"
  have r: "dispatch_loop e (dc_required (k_dec ?k) - dc_dispatched (k_dec ?k)) ?k = Inr k'"
    using assms(7) by (simp add: instruction_end_def dec_dispatch_def split: if_splits)
  have "dispatched n ?k k'"
    by (rule dispatch_loop_inv[OF _ _ _ _ _ _ refl r]) (use m assms in \<open>simp_all add: icache_ok_def\<close>)
  then show ?thesis using m by (simp add: dispatched_def)
qed

text \<open>Executing the instruction changes the architectural state and the flags of the decoder.\<close>

lemma note_status_frame [simp]:
  "dc_buffered (note_status s d) = dc_buffered d" "dc_allocated (note_status s d) = dc_allocated d"
  "dc_required (note_status s d) = dc_required d" "dc_dispatched (note_status s d) = dc_dispatched d"
  "dc_busy (note_status s d) = dc_busy d" "dc_stop (note_status s d) = dc_stop d" "dc_bytes (note_status s d) = dc_bytes d"
  "dc_index (note_status s d) = dc_index d" "dc_first_byte (note_status s d) = dc_first_byte d"
  by (simp_all add: note_status_def Let_def split: option.split)

lemma execute_frame:
  assumes "execute b k = Inr k'"
  shows "keeps_plan k k'" "pipe_inv n k' = pipe_inv n k" "held_ok k' = held_ok k" "icache_ok k' = icache_ok k"
proof -
  obtain f x where k': "k' = on_dec f (put_cpu x k)"
    and f: "(\<exists>s. f = note_status s) \<or> (\<exists>c. f = (\<lambda>d. d\<lparr>dc_exception := True, dc_exception_code := c, dc_unexpected := True\<rparr>))"
  proof -
    let ?b = "xs_inst (cur_xst k)"
    obtain r x where r: "k' = (case r of Inl code \<Rightarrow> set_exception code (put_cpu x k) | Inr s \<Rightarrow> on_dec (note_status s) (put_cpu x k))"
      using assms by (auto simp: execute_def Let_def rbind_Inr_iff)
    show thesis
    proof (cases r)
      case (Inl c)
      show thesis by (rule that[of "\<lambda>d. d\<lparr>dc_exception := True, dc_exception_code := c, dc_unexpected := True\<rparr>" x])
          (use r Inl in \<open>auto simp: set_exception_def\<close>)
    next
      case (Inr s)
      show thesis by (rule that[of "note_status s" x]) (use r Inr in auto)
    qed
  qed
  have h: "held (f d) = held d" "decoder_ok (f d) = decoder_ok d" for d using f by (auto simp: held_def decoder_ok_def)
  show "keeps_plan k k'" using f by (auto simp: k' keeps_plan_def)
  show "pipe_inv n k' = pipe_inv n k" "held_ok k' = held_ok k" "icache_ok k' = icache_ok k"
    unfolding k' using dec_change_inv[of f "put_cpu x k"] h by (simp_all add: held_ok_def icache_ok_def)
qed
section \<open>Carrying out and allocating\<close>

text \<open>The emulator names registers by their numbers.\<close>

definition fields_ok :: "bochs \<Rightarrow> bool" where
  "fields_ok b \<longleftrightarrow> (\<forall>bs. if_nnn (bo_fields b bs) < 16 \<and> if_rm (bo_fields b bs) < 16 \<and> if_reg (bo_fields b bs) < 16)"

lemma keeps_plan_xst: "keeps_plan k k' \<Longrightarrow> cur_xst k' = cur_xst k"
  by (simp add: keeps_plan_def cur_xst_def)

lemma operands_of_ok: "fields_ok b \<Longrightarrow> bases_ok (cur_xst k) \<Longrightarrow> operands_ok (operands_of b k)"
  by (simp add: operands_ok_def operands_of_def fields_ok_def bases_ok_def Let_def split: option.split)

lemma entry_of_ok: "entry_of st = Inr en \<Longrightarrow> operands_ok i \<Longrightarrow> entry_ok i z en"
  using table_ok[of i z] by (auto simp: entry_of_def Let_def list_all_iff split: if_splits)

lemma entry_of_length: "entry_of st = Inr (h, ts) \<Longrightarrow> length ts \<le> MAX_ALLOCATED"
  using entry_of_ok[of st "(h, ts)" demo_operands B64] by (simp add: operands_ok_def demo_operands_def entry_ok_def)

lemma after_allocate_inv:
  assumes "pipe_inv n k" "icache_ok k" "fields_ok (en_bochs e)" "bases_ok (cur_xst k)" "all_fresh k" "dc_busy (k_dec k)"
    "dc_dispatched (k_dec k) = 0" "dc_allocated (k_dec k) = dc_required (k_dec k)" "entry_of (cur_xst k) = Inr (h, ts)"
    "dc_required (k_dec k) = length ts" "after_allocate_rs e k = Inr k'"
  shows "dispatched n k k'"
proof -
  obtain k1 k2 where k1: "record_microcode e (h, ts) k = Inr k1" and k2: "(if dc_mis (k_dec k1) then Inr k1 else execute (en_bochs e) k1) = Inr k2"
    and r: "instruction_end e k2 = Inr k'"
    using assms(9,11) by (auto simp: after_allocate_rs_def rbind_Inr_iff)
  have "operands_ok (operands_of (en_bochs e) x)" if "keeps_plan k x" for x
    by (rule operands_of_ok[OF assms(3)]) (use keeps_plan_xst[OF that] assms(4) in simp)
  then have p1: "pipe_inv n k1" "keeps_plan k k1" "held_ok k1"
    using record_pipe_inv[OF assms(1,7) _ assms(5) entry_of_ok[OF assms(9)] _ k1] assms(8,10) by simp_all
  have i1: "icache_ok k1" using p1(2) assms(2) by (simp add: keeps_plan_def icache_ok_def)
  have p2: "pipe_inv n k2 \<and> keeps_plan k1 k2 \<and> held_ok k2 \<and> icache_ok k2"
    using k2 p1 i1 execute_frame[of "en_bochs e" k1 k2] keeps_plan_refl by (auto split: if_splits)
  have kp: "keeps_plan k k2" using p1(2) p2 keeps_plan_trans by blast
  have "dispatched n k2 k'"
    by (rule instruction_end_inv[OF _ _ _ _ _ _ r]) (use p2 kp assms in \<open>simp_all add: keeps_plan_def\<close>)
  then show ?thesis using kp by (simp add: dispatched_def keeps_plan_def)
qed

lemma alocate_loop_inv:
  assumes "pipe_inv n k" "icache_ok k" "fields_ok (en_bochs e)" "bases_ok (cur_xst k)" "all_fresh k" "dc_busy (k_dec k)"
    "dc_handler (k_dec k) = H_Alocate" "dc_saved (k_dec k) = H_After_Allocate" "dc_dispatched (k_dec k) = 0"
    "entry_of (cur_xst k) = Inr (h, ts)" "dc_required (k_dec k) = length ts" "dc_allocated (k_dec k) + m = length ts"
    "alocate_loop e m k = Inr k'"
  shows "dispatched n k k'"
  using assms
proof (induction m arbitrary: k)
  case 0
  let ?k = "set_handler H_After_Allocate k"
  have r: "after_allocate_rs e ?k = Inr k'" using 0 by (simp add: exec_saved_def)
  have x: "cur_xst ?k = cur_xst k" by (simp add: cur_xst_def)
  have f: "all_fresh ?k = all_fresh k" by (simp add: all_fresh_def held_def)
  have "dispatched n ?k k'"
    by (rule after_allocate_inv[OF _ _ 0(3) _ _ _ _ _ _ _ r]) (use 0 x f in simp_all)
  then show ?case by (simp add: dispatched_def)
next
  case (Suc m)
  have room: "dc_allocated (k_dec k) < MAX_ALLOCATED" using Suc.prems(12) entry_of_length[OF Suc.prems(10)] by simp
  obtain k1 b where t: "take_one k = Inr (k1, b)" using Suc.prems(13) by (auto simp: rbind_Inr_iff)
  show ?case
  proof (cases b)
    case False
    have "k1 = k" by (cases rule: take_one_value[OF Suc.prems(1) room]) (use t False in auto)
    then have k': "k' = stop_decoding k" using Suc.prems(13) t False by simp
    let ?f = "\<lambda>d. d\<lparr>dc_stop := True\<rparr>"
    have "held (?f (k_dec k)) = held (k_dec k)" "decoder_ok (?f (k_dec k)) = decoder_ok (k_dec k)" by (simp_all add: held_def decoder_ok_def)
    note c = dec_change_inv[of ?f k, OF this]
    have "cur_xst k' = cur_xst k" by (simp add: k' stop_decoding_def cur_xst_def)
    then show ?thesis using Suc.prems c
      by (simp add: dispatched_def dec_inv_def stage_ok_def k' stop_decoding_def Let_def)
  next
    case True
    have t1: "take_one k = Inr (k1, True)" using t True by simp
    obtain p where g: "pipe_inv n k1" "held (k_dec k1) = held (k_dec k) @ [p]" "fresh (u_of k1 p)"
      "\<And>x. x \<in> set (live k) \<Longrightarrow> u_of k1 x = u_of k x" "k_front k1 = k_front k" "k_icache k1 = k_icache k" "k_regs k1 = k_regs k"
      "k_dec k1 = (k_dec k)\<lparr>dc_inst_id := dc_inst_id (k_dec k) + 1, dc_buffered := (dc_buffered (k_dec k))[dc_allocated (k_dec k) := p],
         dc_allocated := dc_allocated (k_dec k) + 1\<rparr>"
      by (rule take_pipe_inv[OF Suc.prems(1) room t1]) blast
    have r: "alocate_loop e m k1 = Inr k'" using Suc.prems(13) t True by simp
    have x: "cur_xst k1 = cur_xst k" by (simp add: cur_xst_def g(6,8))
    have f: "all_fresh k1" using Suc.prems(5) g(2-4) by (auto simp: all_fresh_def live_def)
    have i: "icache_ok k1" using Suc.prems(2) g(6) by (simp add: icache_ok_def)
    have "dispatched n k1 k'"
      by (rule Suc.IH[OF g(1) i Suc.prems(3) _ f _ _ _ _ _ _ _ r]) (use Suc.prems x g(8) in simp_all)
    then show ?thesis by (simp add: dispatched_def g(5,8))
  qed
qed

text \<open>Allocation for an instruction whose bytes are all there.\<close>

lemma alocate_inst_inv:
  assumes "pipe_inv n k" "icache_ok k" "fields_ok (en_bochs e)" "bases_ok (cur_xst k)" "dc_busy (k_dec k)"
    "dc_handler (k_dec k) = H_After_Allocate" "dc_dispatched (k_dec k) = 0" "dc_allocated (k_dec k) = 0"
    "entry_of (cur_xst k) = Inr (h, ts)" "alocate_inst e (length ts) k = Inr k'"
  shows "dispatched n k k'"
proof -
  let ?f = "\<lambda>d. d\<lparr>dc_required := length ts, dc_saved := dc_handler d, dc_handler := H_Alocate\<rparr>"
  let ?k = "on_dec ?f k"
  have "held (?f (k_dec k)) = held (k_dec k)" "decoder_ok (?f (k_dec k)) = decoder_ok (k_dec k)" by (simp_all add: held_def decoder_ok_def)
  note c = dec_change_inv[of ?f k, OF this]
  have h: "held (k_dec ?k) = []" using assms(7,8) by (simp add: held_def)
  have x: "cur_xst ?k = cur_xst k" by (simp add: cur_xst_def)
  have r: "alocate_loop e (length ts) ?k = Inr k'" using assms(8,10) by (simp add: alocate_inst_def alocate_more_def)
  have "dispatched n ?k k'"
    by (rule alocate_loop_inv[OF _ _ assms(3) _ _ _ _ _ _ _ _ _ r]) (use assms c x h in \<open>simp_all add: all_fresh_def\<close>)
  then show ?thesis by (simp add: dispatched_def)
qed

lemma after_get_inst_inv:
  assumes "pipe_inv n k" "icache_ok k" "fields_ok (en_bochs e)" "bases_ok (cur_xst k)" "dc_busy (k_dec k)"
    "dc_dispatched (k_dec k) = 0" "dc_allocated (k_dec k) = 0" "after_get_inst e k = Inr k'"
  shows "dispatched n k k'"
proof -
  let ?n = "length (dc_opcodes (k_dec k))"
  let ?st = "(cur_xst k)\<lparr>xs_length := of_nat ?n, xs_inst := dc_opcodes (k_dec k), xs_busy := True\<rparr>"
  let ?f = "\<lambda>d. d\<lparr>dc_length := of_nat ?n\<rparr>"
  let ?k1 = "set_xst ?st (on_dec ?f k)"
  obtain h ts where en: "entry_of ?st = Inr (h, ts)" and r: "alocate_inst e (length ts) (set_handler H_After_Allocate ?k1) = Inr k'"
    using assms(8) by (auto simp: after_get_inst_def Let_def rbind_Inr_iff split: if_splits)
  have b: "bases_ok ?st" using assms(4) by (simp add: bases_ok_def)
  have hd: "held (?f (k_dec k)) = held (k_dec k)" "decoder_ok (?f (k_dec k)) = decoder_ok (k_dec k)" by (simp_all add: held_def decoder_ok_def)
  have "pipe_inv n ?k1 = pipe_inv n k" by (rule pipe_inv_frame) (simp_all add: hd)
  moreover have "icache_ok ?k1" using assms(2) b by (simp add: icache_ok_def)
  moreover have "cur_xst (set_handler H_After_Allocate ?k1) = ?st" by (simp add: cur_xst_def)
  ultimately have "dispatched n (set_handler H_After_Allocate ?k1) k'"
    by (intro alocate_inst_inv[OF _ _ assms(3) _ _ _ _ _ _ r]) (use assms en b in simp_all)
  then show ?thesis by (simp add: dispatched_def)
qed
section \<open>Collecting bytes\<close>

text \<open>No byte in the fetch buffer faulted when it was fetched.\<close>

definition calm :: "env \<Rightarrow> core \<Rightarrow> bool" where
  "calm e k \<longleftrightarrow> lane_ok (cf_fetch_size (en_cfg e)) (fs_lane (k_front k))
     \<and> (\<forall>b \<in> set (Fetch_Buffer.queued (cf_fetch_size (en_cfg e)) (fs_lane (k_front k))). \<not> fe_is_exc b)"

lemma calm_cong: "fs_lane (k_front k') = fs_lane (k_front k) \<Longrightarrow> calm e k' = calm e k"
  by (simp add: calm_def)

definition progressed :: "nat \<Rightarrow> env \<Rightarrow> core \<Rightarrow> bool" where
  "progressed n e k \<longleftrightarrow> dec_inv n k \<and> (dc_busy (k_dec k) \<longrightarrow> dc_stop (k_dec k)) \<and> calm e k"

lemma dispatched_progressed: "dispatched n k k' \<Longrightarrow> calm e k \<Longrightarrow> progressed n e k'"
  using calm_cong[of k' k e] by (simp add: dispatched_def progressed_def)

lemma bases_upd [simp]:
  "bases_ok (st\<lparr>xs_attr := a\<rparr>) = bases_ok st" "bases_ok (st\<lparr>xs_mem_operand := m\<rparr>) = bases_ok st"
  by (simp_all add: bases_ok_def)

lemma get_im_bases [simp]: "bases_ok (snd (get_im st)) = bases_ok st"
proof -
  have "snd (get_im st) = st \<or> (\<exists>m. snd (get_im st) = st\<lparr>xs_im_bytes := m\<rparr>)" by (auto simp: get_im_def Let_def)
  then show ?thesis by (auto simp: bases_ok_def)
qed

lemma modrm_done_bases: "modrm_done t st = Inr (c, st') \<Longrightarrow> bases_ok st \<Longrightarrow> bases_ok st'"
proof -
  assume m: "modrm_done t st = Inr (c, st')" and b: "bases_ok st"
  obtain a where "get_im ((if modrm_mod (xs_modrm st) = 0xC0 then st else st\<lparr>xs_mem_operand := True\<rparr>)\<lparr>xs_attr := a\<rparr>) = (c, st')"
    using m by (auto simp: modrm_done_def Let_def rbind_Inr_iff split: if_splits)
  then have "st' = snd (get_im ((if modrm_mod (xs_modrm st) = 0xC0 then st else st\<lparr>xs_mem_operand := True\<rparr>)\<lparr>xs_attr := a\<rparr>))" by simp
  moreover have "bases_ok (if modrm_mod (xs_modrm st) = 0xC0 then st else st\<lparr>xs_mem_operand := True\<rparr>)" using b by simp
  ultimately show "bases_ok st'" by (simp only: get_im_bases bases_upd)
qed

lemma and_or_small: "(a AND 7) OR push_bit 3 (r AND 1) < (16 :: u8)" "(a AND 7) OR push_bit 2 (r AND 2) < (16 :: u8)"
proof -
  have m: "x < 16" if "x AND 0xF = x" for x :: u8
  proof -
    have "x AND 0xF \<le> 0xF" by (rule word_and_le1)
    then show ?thesis using that by (simp add: word_le_nat_alt word_less_nat_alt)
  qed
  have "((a AND 7) OR push_bit 3 (r AND 1)) AND 0xF = (a AND 7) OR push_bit 3 (r AND 1)"
    by (rule bit_word_eqI) (auto simp: bit_simps numeral_eq_Suc less_Suc_eq bit_1_iff)
  then show "(a AND 7) OR push_bit 3 (r AND 1) < 16" by (rule m)
  have "((a AND 7) OR push_bit 2 (r AND 2)) AND 0xF = (a AND 7) OR push_bit 2 (r AND 2)"
    by (rule bit_word_eqI) (auto simp: bit_simps numeral_eq_Suc less_Suc_eq)
  then show "(a AND 7) OR push_bit 2 (r AND 2) < 16" by (rule m)
qed

lemma rex_small: "(a AND 7) OR rex_b r < 16" "(a AND 7) OR rex_x r < 16"
  using and_or_small by (simp_all add: rex_b_def rex_x_def)

lemma modrm_state_bases: "bases_ok st \<Longrightarrow> bases_ok (modrm_state st)"
  using rex_small by (simp add: modrm_state_def Let_def bases_ok_def)

lemma sib_state_bases: "bases_ok st \<Longrightarrow> bases_ok (sib_state b st)"
  using rex_small by (simp add: sib_state_def Let_def bases_ok_def)

lemma x86_byte_bases:
  assumes "x86_byte t s c b st = Inr (c', st')" "bases_ok st"
  shows "bases_ok st'"
proof -
  have ag: "bases_ok (snd (after_get_opcodes t x)) = bases_ok x" for x
  proof -
    have "bases_ok (snd (get_im (y\<lparr>xs_attr := a\<rparr>))) = bases_ok y" for y a unfolding get_im_bases by (simp add: bases_ok_def)
    then show ?thesis by (simp add: after_get_opcodes_def Let_def bases_ok_def)
  qed
  show ?thesis
  proof (cases c)
    case C_Decode
    have "bases_ok (prefix_state b st)" using assms(2) by (simp add: prefix_state_def Let_def bases_ok_def)
    moreover have "bases_ok (snd (after_get_opcodes t (st\<lparr>xs_opcode_bytes := 1, xs_first_opcode := b, xs_opcode := unat b\<rparr>)))"
      unfolding ag using assms(2) by (simp add: bases_ok_def)
    moreover have "bases_ok (st\<lparr>xs_opcode_bytes := 2, xs_first_opcode := 0x0F\<rparr>)" using assms(2) by (simp add: bases_ok_def)
    ultimately show ?thesis using assms(1) by (auto simp: C_Decode x86_byte_def decode_byte_def split: if_splits)
  next
    case C_Second
    have "bases_ok (snd (after_get_opcodes t (st\<lparr>xs_second_opcode := b, xs_opcode := 0x100 + unat b\<rparr>)))"
      unfolding ag using assms(2) by (simp add: bases_ok_def)
    then show ?thesis using assms(1) by (simp add: C_Second x86_byte_def get_second_opcode_def)
  next
    case C_Modrm
    have b: "bases_ok (st\<lparr>xs_modrm := b\<rparr>)" using assms(2) by (simp add: bases_ok_def)
    then have "bases_ok ((st\<lparr>xs_modrm := b\<rparr>)\<lparr>xs_has_sib := True\<rparr>)" by (simp add: bases_ok_def)
    then show ?thesis using assms(1) b modrm_state_bases[OF b] modrm_done_bases
      by (auto simp: C_Modrm x86_byte_def get_modrm_def after_get_modrm_def Let_def split: if_splits)
  next
    case C_Sib
    then show ?thesis using assms(1) sib_state_bases[OF assms(2), of b] modrm_done_bases
      by (auto simp: x86_byte_def get_sib_def Let_def split: if_splits)
  next
    case C_Disp
    have "bases_ok (st\<lparr>xs_disp_got := xs_disp_got st + 1\<rparr>)" using assms(2) by (simp add: bases_ok_def)
    then show ?thesis using assms(1) modrm_done_bases by (auto simp: C_Disp x86_byte_def get_disp_def Let_def split: if_splits)
  next
    case C_Im
    then show ?thesis using assms by (auto simp: x86_byte_def get_im_byte_def Let_def bases_ok_def)
  next
    case C_Done
    then show ?thesis using assms by (simp add: x86_byte_def)
  qed
qed

lemma xst_start_bases: "bases_ok (xst_start v st)"
  by (simp add: xst_start_def bases_ok_def)
lemma front_change [simp]:
  "k_pool (k\<lparr>k_front := x\<rparr>) = k_pool k" "held_ok (k\<lparr>k_front := x\<rparr>) = held_ok k" "icache_ok (k\<lparr>k_front := x\<rparr>) = icache_ok k"
  "pipe_inv n (k\<lparr>k_front := x\<rparr>) = pipe_inv n k" "cur_xst (k\<lparr>k_front := x\<rparr>) = cur_xst k"
proof -
  show "pipe_inv n (k\<lparr>k_front := x\<rparr>) = pipe_inv n k" by (rule pipe_inv_frame) simp_all
qed (simp_all add: held_ok_def icache_ok_def cur_xst_def)

text \<open>Taking a byte that did not fault.\<close>

lemma get_byte_calm:
  assumes c: "calm e k" and g: "get_byte_from_buffer e k = Inr (k1, r)"
  shows "case r of None \<Rightarrow> k1 = stop_decoding k
     | Some b \<Rightarrow> calm e k1 \<and> (\<exists>l na. k1 = on_dec (\<lambda>d. d\<lparr>dc_next := na, dc_bytes := dc_bytes d + 1\<rparr>) (k\<lparr>k_front := (k_front k)\<lparr>fs_lane := l\<rparr>\<rparr>))"
proof -
  let ?n = "cf_fetch_size (en_cfg e)" and ?l = "fs_lane (k_front k)"
  show ?thesis
  proof (cases "dc_bytes (k_dec k) < cf_max_bytes (en_cfg e) \<and> has_bytes ?n 1 ?l")
    case False
    then show ?thesis using g by (auto simp: get_byte_from_buffer_def Let_def)
  next
    case True
    have ok: "lane_ok ?n ?l" and nf: "\<forall>b \<in> set (Fetch_Buffer.queued ?n ?l). \<not> fe_is_exc b" using c by (simp_all add: calm_def)
    have "unat (1 :: u32) \<le> unat (?n - fb_avail ?l)" using True unfolding has_bytes_def word_le_nat_alt by blast
    then have "0 < length (Fetch_Buffer.queued ?n ?l)" by simp
    then obtain b bs where q: "Fetch_Buffer.queued ?n ?l = b # bs" by (cases "Fetch_Buffer.queued ?n ?l") simp_all
    obtain l' where l': "get_byte ?n ?l = Inr (l', b)" "lane_ok ?n l'" "Fetch_Buffer.queued ?n l' = bs"
      by (rule get_byte_ok[OF ok q]) blast
    have nb: "\<not> fe_is_exc b" using nf q by simp
    obtain v where v: "read1 (fe_paddr b) (x_mem (fs_cpu (k_front k))) = Inr v"
      "k1 = on_dec (\<lambda>d. d\<lparr>dc_next := fe_next b, dc_bytes := dc_bytes d + 1\<rparr>) (k\<lparr>k_front := (k_front k)\<lparr>fs_lane := l'\<rparr>\<rparr>)"
      "r = Some (b\<lparr>fe_data := v\<rparr>)"
      using g True l'(1) nb by (auto simp: get_byte_from_buffer_def Let_def rbind_Inr_iff)
    have "calm e k1" using l'(2,3) nf q by (simp add: calm_def v(2))
    then show ?thesis using v by auto
  qed
qed

lemma skip_calm:
  assumes c: "calm e k" and s: "skip_bytes (cf_fetch_size (en_cfg e)) m (fs_lane (k_front k)) = Inr (l, na, r)"
  shows "calm e (k\<lparr>k_front := (k_front k)\<lparr>fs_lane := l\<rparr>\<rparr>)"
proof -
  let ?n = "cf_fetch_size (en_cfg e)" and ?l = "fs_lane (k_front k)"
  have ok: "lane_ok ?n ?l" using c by (simp add: calm_def)
  have l: "l = ?l\<lparr>fb_read := (fb_read ?l + r) mod ?n, fb_avail := fb_avail ?l + r\<rparr>" and "r \<le> ?n - fb_avail ?l"
    using s by (auto simp: skip_bytes_def Let_def split: if_splits)
  then have "unat r \<le> length (Fetch_Buffer.queued ?n ?l)" by (simp add: word_le_nat_alt)
  note q = drop_queue[OF ok this l]
  show ?thesis using c q set_drop_subset[of "unat r" "Fetch_Buffer.queued ?n ?l"] by (auto simp: calm_def)
qed

text \<open>The decoder goes on with a byte or skips the rest of an instruction.\<close>

definition collecting :: "nat \<Rightarrow> core \<Rightarrow> bool" where
  "collecting n k \<longleftrightarrow> pipe_inv n k \<and> icache_ok k \<and> dc_busy (k_dec k) \<and> dc_dispatched (k_dec k) = 0 \<and> dc_allocated (k_dec k) = 0"

lemma collecting_dec:
  assumes "\<And>d. held (f d) = held d" "\<And>d. decoder_ok (f d) = decoder_ok d" "\<And>d. dc_busy (f d) = dc_busy d"
    "\<And>d. dc_dispatched (f d) = dc_dispatched d" "\<And>d. dc_allocated (f d) = dc_allocated d"
  shows "collecting n (on_dec f k) = collecting n k"
  using assms dec_change_inv[of f k] by (simp add: collecting_def)

lemma collecting_front [simp]: "collecting n (k\<lparr>k_front := x\<rparr>) = collecting n k"
  by (simp add: collecting_def)

lemma collecting_xst:
  assumes "collecting n k" "xs_busy st \<longrightarrow> bases_ok st"
  shows "collecting n (set_xst st k)"
proof -
  have "pipe_inv n (set_xst st k) = pipe_inv n k" by (rule pipe_inv_frame) simp_all
  then show ?thesis using assms by (simp add: collecting_def icache_ok_def)
qed

lemma collecting_handler [simp]: "collecting n (set_handler h k) = collecting n k"
  by (simp add: collecting_def)

lemma get_bytes_inv:
  assumes "collecting n k" "dc_handler (k_dec k) = H_Get_Bytes" "bases_ok (cur_xst k)" "fields_ok (en_bochs e)" "calm e k"
    "get_bytes e k = Inr k'"
  shows "progressed n e k'"
proof -
  have fin: "progressed n e k'"
    if c: "collecting n k1" "bases_ok (cur_xst k1)" "calm e k1"
      and r: "rbind (entry_of (cur_xst k1)) (\<lambda>(h, ts). alocate_inst e (length ts) (set_handler H_After_Allocate
                   (on_dec (\<lambda>d. d\<lparr>dc_length := xs_length (cur_xst k1)\<rparr>) k1))) = Inr k'" for k1
  proof -
    let ?k = "set_handler H_After_Allocate (on_dec (\<lambda>d. d\<lparr>dc_length := xs_length (cur_xst k1)\<rparr>) k1)"
    obtain h ts where en: "entry_of (cur_xst k1) = Inr (h, ts)" and a: "alocate_inst e (length ts) ?k = Inr k'"
      using r by (auto simp: rbind_Inr_iff)
    have k: "collecting n ?k" using c(1) by (simp add: collecting_dec held_def decoder_ok_def)
    have x: "cur_xst ?k = cur_xst k1" by (simp add: cur_xst_def)
    have "dispatched n ?k k'"
      by (rule alocate_inst_inv[OF _ _ assms(4) _ _ _ _ _ _ a]) (use k en c(2) x in \<open>simp_all add: collecting_def\<close>)
    moreover have "calm e ?k" using c(3) by (simp add: calm_def)
    ultimately show ?thesis by (rule dispatched_progressed)
  qed
  let ?d = "k_dec k"
  show ?thesis
  proof (cases "dc_got ?d < dc_to_get ?d")
    case False
    then show ?thesis using assms fin[of k] by (auto simp: get_bytes_def Let_def split: if_splits)
  next
    case True
    let ?skip = "ucast (ucast (dc_to_get ?d - dc_got ?d) :: u8) :: u32"
    let ?rest = "cf_max_bytes (en_cfg e) - dc_bytes ?d"
    let ?m = "if ?skip < ?rest then ?skip else ?rest"
    obtain l na r where s: "skip_bytes (cf_fetch_size (en_cfg e)) ?m (fs_lane (k_front k)) = Inr (l, na, r)"
      using True assms(6) by (auto simp: get_bytes_def Let_def rbind_Inr_iff)
    let ?f = "\<lambda>d. d\<lparr>dc_next := na, dc_got := dc_got d + r\<rparr>"
    let ?k1 = "on_dec ?f (k\<lparr>k_front := (k_front k)\<lparr>fs_lane := l\<rparr>\<rparr>)"
    have c1: "collecting n ?k1" using assms(1) by (simp add: collecting_dec held_def decoder_ok_def)
    have m1: "calm e ?k1" using skip_calm[OF assms(5) s] by (simp add: calm_def)
    have x1: "cur_xst ?k1 = cur_xst k" by (simp add: cur_xst_def)
    show ?thesis
    proof (cases "r < ?skip")
      case True
      then have k': "k' = stop_decoding ?k1" using s assms(6) \<open>dc_got ?d < dc_to_get ?d\<close> by (simp add: get_bytes_def Let_def)
      have c2: "collecting n k'" using c1 by (simp add: k' stop_decoding_def collecting_dec held_def decoder_ok_def)
      have "cur_xst k' = cur_xst k" by (simp add: k' stop_decoding_def cur_xst_def)
      then have "stage_ok k'" using assms(1-3) by (simp add: stage_ok_def k' stop_decoding_def Let_def collecting_def)
      moreover have "calm e k'" using m1 by (simp add: calm_def k' stop_decoding_def)
      ultimately show ?thesis using c2 by (simp add: progressed_def dec_inv_def collecting_def) (simp add: k' stop_decoding_def)
    next
      case False
      show ?thesis
        by (rule fin[OF c1 _ m1]) (use s assms(3,6) x1 False \<open>dc_got ?d < dc_to_get ?d\<close> in \<open>auto simp: get_bytes_def Let_def split: if_splits\<close>)
    qed
  qed
qed
definition reading :: "nat \<Rightarrow> cur \<Rightarrow> core \<Rightarrow> bool" where
  "reading n c k \<longleftrightarrow> collecting n k \<and> dc_handler (k_dec k) = H_Byte c \<and> c \<noteq> C_Done
     \<and> (if dc_first_byte (k_dec k) then c = C_Decode else bases_ok (cur_xst k))"

lemma first_byte_inv:
  assumes "collecting n k" "first_byte b k = (k', hit)" "dc_handler (k_dec k) = H_Byte c"
  shows "collecting n k' \<and> bases_ok (cur_xst k') \<and> \<not> dc_first_byte (k_dec k') \<and> fs_lane (k_front k') = fs_lane (k_front k)
    \<and> dc_handler (k_dec k') = (if hit then H_Get_Bytes else H_Byte c)"
proof -
  let ?f = "\<lambda>d. d\<lparr>dc_first_byte := False, dc_addr := fe_vaddr b, dc_index := icache_index (fe_vaddr b)\<rparr>"
  let ?k1 = "on_dec ?f k"
  have c1: "collecting n ?k1" using assms(1) by (simp add: collecting_dec held_def decoder_ok_def)
  show ?thesis
  proof (cases "xs_busy (cur_xst ?k1) \<and> xs_vaddr (cur_xst ?k1) = fe_vaddr b")
    case True
    let ?g = "\<lambda>d. d\<lparr>dc_to_get := ucast (xs_length (cur_xst ?k1)), dc_got := 1\<rparr>"
    have k': "k' = set_handler H_Get_Bytes (on_dec ?g ?k1)" "hit" using assms(2) True by (simp_all add: first_byte_def Let_def)
    have "collecting n k'" using c1 by (simp add: k'(1) collecting_dec held_def decoder_ok_def)
    moreover have x: "cur_xst k' = cur_xst ?k1" by (simp add: k'(1) cur_xst_def)
    moreover have "bases_ok (cur_xst ?k1)" using assms(1) True by (simp add: collecting_def icache_ok_def cur_xst_def)
    ultimately show ?thesis using k' by simp
  next
    case False
    let ?st = "xst_start (fe_vaddr b) (cur_xst ?k1)"
    have k': "k' = set_xst ?st ?k1" "\<not> hit" using assms(2) False by (auto simp: first_byte_def Let_def)
    have "collecting n k'" unfolding k'(1) by (rule collecting_xst[OF c1]) (simp add: xst_start_bases)
    then show ?thesis using k' assms(3) xst_start_bases by simp
  qed
qed

lemma run_bytes_inv:
  assumes "reading n c k" "fields_ok (en_bochs e)" "calm e k" "run_bytes e m c k = Some (Inr k')"
  shows "progressed n e k'"
  using assms
proof (induction m arbitrary: c k)
  case (Suc m)
  note rd = Suc.prems(1)[unfolded reading_def]
  obtain k1 r where g: "get_byte_from_buffer e k = Inr (k1, r)"
    using Suc.prems(4) by (cases "get_byte_from_buffer e k") (auto simp: fbind_def)
  note gc = get_byte_calm[OF Suc.prems(3) g]
  show ?case
  proof (cases r)
    case None
    then have k': "k' = stop_decoding k" using Suc.prems(4) g gc by (simp add: fbind_def)
    have "collecting n k'" using rd by (simp add: k' stop_decoding_def collecting_dec held_def decoder_ok_def)
    moreover have "cur_xst k' = cur_xst k" by (simp add: k' stop_decoding_def cur_xst_def)
    then have "stage_ok k'" using rd by (simp add: stage_ok_def k' stop_decoding_def Let_def collecting_def)
    moreover have "calm e k'" using Suc.prems(3) by (simp add: calm_def k' stop_decoding_def)
    ultimately show ?thesis by (simp add: progressed_def dec_inv_def collecting_def) (simp add: k' stop_decoding_def)
  next
    case (Some b)
    obtain l na where k1: "calm e k1" "k1 = on_dec (\<lambda>d. d\<lparr>dc_next := na, dc_bytes := dc_bytes d + 1\<rparr>) (k\<lparr>k_front := (k_front k)\<lparr>fs_lane := l\<rparr>\<rparr>)"
      using gc Some by auto
    obtain k2 where a: "add_opcode_byte (fe_data b) k1 = Inr k2"
      using Suc.prems(4) g Some by (cases "add_opcode_byte (fe_data b) k1") (auto simp: fbind_def)
    have k2: "k2 = on_dec (\<lambda>d. d\<lparr>dc_opcodes := dc_opcodes d @ [fe_data b]\<rparr>) k1" using a by (simp add: add_opcode_byte_def split: if_splits)
    have c2: "collecting n k2" using rd by (simp add: k2 k1(2) collecting_dec held_def decoder_ok_def)
    have m2: "calm e k2" using k1(1) by (simp add: calm_def k2)
    have x2: "cur_xst k2 = cur_xst k" "dc_first_byte (k_dec k2) = dc_first_byte (k_dec k)" "dc_handler (k_dec k2) = H_Byte c"
      using rd by (simp_all add: k2 k1(2) cur_xst_def)
    obtain k3 hit where k3: "(if c = C_Decode \<and> dc_first_byte (k_dec k2) then first_byte b k2 else (k2, False)) = (k3, hit)" by force
    have i3: "collecting n k3 \<and> bases_ok (cur_xst k3) \<and> \<not> dc_first_byte (k_dec k3) \<and> calm e k3
        \<and> dc_handler (k_dec k3) = (if hit then H_Get_Bytes else H_Byte c)"
    proof (cases "c = C_Decode \<and> dc_first_byte (k_dec k2)")
      case True
      then have f: "first_byte b k2 = (k3, hit)" using k3 by simp
      show ?thesis using first_byte_inv[OF c2 f x2(3)] calm_cong[of k3 k2 e] m2 by simp
    next
      case False
      then have "k3 = k2" "\<not> hit" using k3 by (auto split: if_splits)
      then show ?thesis using False c2 m2 x2 rd by (auto split: if_splits)
    qed
    show ?thesis
    proof (cases hit)
      case True
      then have gb: "get_bytes e k3 = Inr k'" using Suc.prems(4) g Some a k3 by (simp add: fbind_def)
      show ?thesis by (rule get_bytes_inv[OF _ _ _ Suc.prems(2) _ gb]) (use i3 True in simp_all)
    next
      case False
      have run: "fbind (byte_step e c (fe_data b) k3) (\<lambda>(k4, c'). if c' = C_Done then Some (after_get_inst e k4) else run_bytes e m c' k4) = Some (Inr k')"
        using Suc.prems(4) g Some a k3 False by (simp add: fbind_def)
      then obtain k4 c' where s: "byte_step e c (fe_data b) k3 = Inr (k4, c')"
        by (cases "byte_step e c (fe_data b) k3") (auto simp: fbind_def)
      obtain strict st where st: "x86_byte (bo_tables (en_bochs e)) strict c (fe_data b) (cur_xst k3) = Inr (c', st)"
        "k4 = (if c' = c then id else set_handler (H_Byte c')) (set_xst st k3)"
        using s by (auto simp: byte_step_def Let_def rbind_Inr_iff)
      have b4: "bases_ok st" by (rule x86_byte_bases[OF st(1)]) (use i3 in blast)
      have c4: "collecting n k4" using collecting_xst[of n k3 st] i3 b4 by (simp add: st(2))
      have k4: "cur_xst k4 = st" "dc_handler (k_dec k4) = H_Byte c'" "\<not> dc_first_byte (k_dec k4)" "calm e k4"
        using i3 False by (simp_all add: st(2) cur_xst_def calm_def)
      show ?thesis
      proof (cases "c' = C_Done")
        case True
        then have a: "after_get_inst e k4 = Inr k'" using run s by (simp add: fbind_def)
        have "dispatched n k4 k'"
          by (rule after_get_inst_inv[OF _ _ Suc.prems(2) _ _ _ _ a]) (use c4 k4 b4 in \<open>simp_all add: collecting_def\<close>)
        then show ?thesis using k4(4) by (rule dispatched_progressed)
      next
        case False
        then have "run_bytes e m c' k4 = Some (Inr k')" using run s by (simp add: fbind_def)
        moreover have "reading n c' k4" using c4 k4 b4 False by (simp add: reading_def)
        ultimately show ?thesis using Suc.IH Suc.prems(2) k4(4) by blast
      qed
    qed
  qed
qed simp

lemma enter_bytes_inv:
  assumes "reading n c k" "fields_ok (en_bochs e)" "calm e k" "enter_bytes e c k = Inr k'"
  shows "progressed n e k'"
proof -
  have "run_bytes e (Suc (bytes_left e k)) c k = Some (Inr k')"
    using assms(4) by (auto simp: enter_bytes_def or_diverges_def split: option.splits)
  then show ?thesis by (rule run_bytes_inv[OF assms(1-3)])
qed

section \<open>The decode stage\<close>

lemma decode_inv:
  assumes "dec_inv n k" "fields_ok (en_bochs e)" "calm e k" "decode e k = Inr k'"
  shows "progressed n e k'"
proof (cases "dc_busy (k_dec k)")
  case False
  let ?k = "on_dec start_instruction k"
  have d: "decoder_ok (k_dec k)" "held (k_dec k) = []" "pipe_inv n k" "icache_ok k"
    using assms(1) False core_invD(5)[OF pipe_invD(1)] by (auto simp: dec_inv_def stage_ok_def Let_def)
  have e: "held (start_instruction (k_dec k)) = held (k_dec k)" "decoder_ok (start_instruction (k_dec k)) = decoder_ok (k_dec k)"
    using d by (simp_all add: held_def start_instruction_def decoder_ok_def)
  note c = dec_change_inv[of start_instruction k, OF e]
  have "reading n C_Decode ?k" using c d by (simp add: reading_def collecting_def) (simp add: start_instruction_def)
  moreover have "calm e ?k" using assms(3) by (simp add: calm_def)
  ultimately show ?thesis using enter_bytes_inv[of n C_Decode ?k e k'] assms(2,4) False by (simp add: decode_def)
next
  case True
  have p: "pipe_inv n k" "icache_ok k" "stage_ok k" using assms(1) by (simp_all add: dec_inv_def)
  note s = p(3)[unfolded stage_ok_def Let_def]
  have r: "exec_handler e k = Inr k'" using assms(4) True by (simp add: decode_def)
  show ?thesis
  proof (cases "dc_handler (k_dec k)")
    case (H_Byte c)
    then have "reading n c k" using s True p by (simp add: reading_def collecting_def)
    moreover have "enter_bytes e c k = Inr k'" using r H_Byte s True by (simp add: exec_handler_def split: if_splits)
    ultimately show ?thesis using enter_bytes_inv assms(2,3) by blast
  next
    case H_Get_Bytes
    have "get_bytes e k = Inr k'" using r H_Get_Bytes by (simp add: exec_handler_def)
    then show ?thesis
      by (rule get_bytes_inv[OF _ H_Get_Bytes _ assms(2,3), rotated 2]) (use s True p H_Get_Bytes in \<open>simp_all add: collecting_def\<close>)
  next
    case H_Alocate
    obtain h ts where en: "entry_of (cur_xst k) = Inr (h, ts)" "dc_required (k_dec k) = length ts" using s True H_Alocate by auto
    have r': "alocate_loop e (length ts - dc_allocated (k_dec k)) k = Inr k'" using r H_Alocate en by (simp add: exec_handler_def alocate_more_def)
    have "dispatched n k k'"
      by (rule alocate_loop_inv[OF p(1,2) assms(2) _ _ True H_Alocate _ _ en _ r']) (use s True H_Alocate en in simp_all)
    then show ?thesis using assms(3) by (rule dispatched_progressed)
  next
    case H_Dispatch
    have r': "dispatch_loop e (dc_required (k_dec k) - dc_dispatched (k_dec k)) k = Inr k'" using r H_Dispatch by (simp add: exec_handler_def dec_dispatch_def)
    have "dispatched n k k'"
      by (rule dispatch_loop_inv[OF p(1,2) _ True H_Dispatch _ refl r']) (use s True H_Dispatch in simp_all)
    then show ?thesis using assms(3) by (rule dispatched_progressed)
  qed (use s True in simp_all)
qed

lemma stage_ok_cong:
  assumes "dc_busy (k_dec k') = dc_busy (k_dec k)" "dc_handler (k_dec k') = dc_handler (k_dec k)" "dc_saved (k_dec k') = dc_saved (k_dec k)"
    "dc_allocated (k_dec k') = dc_allocated (k_dec k)" "dc_dispatched (k_dec k') = dc_dispatched (k_dec k)"
    "dc_required (k_dec k') = dc_required (k_dec k)" "dc_first_byte (k_dec k') = dc_first_byte (k_dec k)"
    "held (k_dec k') = held (k_dec k)" "cur_xst k' = cur_xst k" "held_ok k' = held_ok k" "all_fresh k' = all_fresh k"
  shows "stage_ok k' = stage_ok k"
  unfolding stage_ok_def Let_def assms ..

lemma dec_inv_front:
  assumes "k_pool k' = k_pool k" "k_dec k' = k_dec k" "k_icache k' = k_icache k" "pipe_inv n k' = pipe_inv n k"
  shows "dec_inv n k' = dec_inv n k"
proof -
  have "stage_ok k' = stage_ok k" by (rule stage_ok_cong) (use assms in \<open>simp_all add: cur_xst_def held_ok_def all_fresh_def\<close>)
  then show ?thesis using assms by (simp add: dec_inv_def icache_ok_def)
qed

lemma before_decode_inv [simp]:
  "dec_inv n (before_decode k) = dec_inv n k" "calm e (before_decode k) = calm e k" "k_dec (before_decode k) = k_dec k"
proof -
  show "dec_inv n (before_decode k) = dec_inv n k" by (rule dec_inv_front) (simp_all add: before_decode_def Let_def)
qed (simp_all add: before_decode_def Let_def calm_def)

lemma decode_loop_inv:
  assumes "dec_inv n k" "fields_ok (en_bochs e)" "calm e k" "decode_loop e m (k, t) = Some (Inr (k', t'))"
  shows "dec_inv n k' \<and> calm e k'"
  using assms
proof (induction m arbitrary: k t)
  case (Suc m)
  show ?case
  proof (cases "dc_stop (k_dec k)")
    case True
    then show ?thesis using Suc.prems by simp
  next
    case False
    obtain k1 where d: "decode e (before_decode k) = Inr k1" and r: "decode_loop e m (k1, t \<or> in_kernel k) = Some (Inr (k', t'))"
      using Suc.prems(4) False by (cases "decode e (before_decode k)") (auto simp: fbind_def)
    have "progressed n e k1" using decode_inv[OF _ _ _ d, of n] Suc.prems by simp
    then show ?thesis using Suc.IH[OF _ Suc.prems(2) _ r] by (simp add: progressed_def)
  qed
qed simp

lemma decode_stage_inv:
  assumes "dec_inv n k" "fields_ok (en_bochs e)" "calm e k" "decode_stage e k = Inr (k', t)"
  shows "dec_inv n k'" "calm e k'"
proof -
  let ?f = "\<lambda>d. d\<lparr>dc_bytes := 0, dc_stop := False\<rparr>"
  let ?k = "on_dec ?f k"
  have "held (?f (k_dec k)) = held (k_dec k)" "decoder_ok (?f (k_dec k)) = decoder_ok (k_dec k)" by (simp_all add: held_def decoder_ok_def)
  note c = dec_change_inv[of ?f k, OF this]
  have "stage_ok ?k = stage_ok k" by (rule stage_ok_cong) (use c in \<open>simp_all add: cur_xst_def held_def\<close>)
  then have "dec_inv n ?k" using assms(1) c by (simp add: dec_inv_def)
  moreover have "calm e ?k" using assms(3) by (simp add: calm_def)
  moreover have "decode_loop e (bytes_left e k + 3) (?k, False) = Some (Inr (k', t))"
    using assms(4) by (auto simp: decode_stage_def or_diverges_def split: option.splits)
  ultimately show "dec_inv n k'" "calm e k'" using decode_loop_inv[OF _ assms(2)] by blast+
qed

end
