(* ===== verification/Decoder_Term.thy ===== *)
theory Decoder_Term
  imports Decoder_Inv
begin

text \<open>
  The decode stage terminates from every state: the byte automaton takes a byte from the fetch buffer in every
  round, and a call of the decoder that does not stop it for the cycle finishes an instruction. The fuel of the two
  loops is therefore enough, whatever the bytes, the tables and the emulator are.
\<close>

section \<open>What the parts of the decoder do to the fetch buffer\<close>

text \<open>The end of an instruction: the decoder is stopped or idle, and the fetch buffer is as it was.\<close>

definition ended :: "core \<Rightarrow> core \<Rightarrow> bool" where
  "ended k k' \<longleftrightarrow> fs_lane (k_front k') = fs_lane (k_front k) \<and> (dc_stop (k_dec k') \<or> \<not> dc_busy (k_dec k'))"

definition same_lane :: "core \<Rightarrow> core \<Rightarrow> bool" where
  "same_lane k k' \<longleftrightarrow> fs_lane (k_front k') = fs_lane (k_front k)"

lemma same_lane_ended: "same_lane k k1 \<Longrightarrow> ended k1 k2 \<Longrightarrow> ended k k2"
  by (simp add: same_lane_def ended_def)

lemma same_lane_trans: "same_lane k k1 \<Longrightarrow> same_lane k1 k2 \<Longrightarrow> same_lane k k2"
  by (simp add: same_lane_def)

lemma same_lane_simps [simp]:
  "same_lane k k" "same_lane k (on_dec f k)" "same_lane k (set_xst st k)" "same_lane k (upd p g k)" "same_lane k (put_cpu x k)"
  "same_lane k (set_handler h k)" "same_lane k (stop_decoding k)" "same_lane k (set_exception c k)"
  by (simp_all add: same_lane_def stop_decoding_def set_exception_def)

lemma rfold_lane:
  assumes "rfold f xs k = Inr k'" "\<And>x k k1. f x k = Inr k1 \<Longrightarrow> same_lane k k1"
  shows "same_lane k k'"
  using assms(1)
proof (induction xs arbitrary: k)
  case (Cons x xs)
  then obtain k1 where "f x k = Inr k1" "rfold f xs k1 = Inr k'" by (auto simp: rbind_Inr_iff)
  then show ?case using Cons.IH assms(2) same_lane_trans by blast
qed simp

lemma micro_lane: "run_micro junk a k = Inr k' \<Longrightarrow> same_lane k k'"
proof -
  have l: "same_lane k k1" if "link_dep d s k = Inr k1" for d s and k k1 :: core
    using that by (auto simp: link_dep_def rbind_Inr_iff same_lane_def)
  have c: "same_lane k k1" if "check_slot i r k = Inr k1" for i r k k1
    using that l by (auto simp: check_slot_def rbind_Inr_iff split: if_splits option.splits)
  have s: "same_lane k k1" if "set_slot i r k = Inr k1" for i r k k1
    using that by (auto simp: set_slot_def rbind_Inr_iff same_lane_def split: if_splits)
  have n: "same_lane k k1" if "note_access junk t i v len k = Inr k1" for t i v len k k1
    using that by (auto simp: note_access_def rbind_Inr_iff same_lane_def Let_def split: if_splits)
  assume "run_micro junk a k = Inr k'"
  then show ?thesis
    by (cases a) (auto simp: rbind_Inr_iff set_branch_result_def same_lane_def[of _ "k\<lparr>k_dec := _\<rparr>"] intro: l n rfold_lane[OF _ c] rfold_lane[OF _ s])
qed

lemma record_lane: "record_microcode e en k = Inr k' \<Longrightarrow> same_lane k k'"
proof -
  have t: "same_lane k k1" if "set_type x k = Inr k1" for x k k1
    using that by (auto simp: set_type_def rbind_Inr_iff same_lane_def split: prod.splits)
  assume "record_microcode e en k = Inr k'"
  then show ?thesis
    by (auto simp: record_microcode_def rbind_Inr_iff split: prod.splits intro!: same_lane_trans[OF rfold_lane[OF _ t] rfold_lane[OF _ micro_lane]])
qed

lemma dispatch_loop_ended: "dispatch_loop e m k = Inr k' \<Longrightarrow> ended k k'"
proof (induction m arbitrary: k)
  case (Suc m)
  obtain p k1 b where g: "get_rs (dc_dispatched (k_dec k)) k = Inr p" and d: "dispatch (en_cfg e) (en_cycle e) p k = Inr (k1, b)"
    using Suc.prems by (auto simp: rbind_Inr_iff)
  have l: "same_lane k k1" using dispatch_frame(2)[OF d] by (simp add: same_lane_def)
  show ?case
  proof (cases b)
    case True
    let ?k = "advance (upd p (\<lambda>u. u\<lparr>u_vaddr := dc_addr (k_dec k1), u_length := dc_length (k_dec k1)\<rparr>) k1)"
    have "ended ?k k'" by (rule Suc.IH) (use Suc.prems g d True in simp)
    then show ?thesis using l by (simp add: ended_def same_lane_def advance_def)
  next
    case False
    then show ?thesis using Suc.prems g d l by (auto simp: ended_def same_lane_def stop_decoding_def)
  qed
qed (auto simp: ended_def)

lemma fold_upd_front: "k_front (fold (\<lambda>p. upd p f) us k) = k_front k"
  by (induction us arbitrary: k) simp_all

lemma end_marks_front: "k_front (end_marks rip k) = k_front k"
  by (simp add: end_marks_def Let_def fold_upd_front split: prod.split)

lemma instruction_end_ended: "instruction_end e k = Inr k' \<Longrightarrow> ended k k'"
  using dispatch_loop_ended by (fastforce simp: instruction_end_def dec_dispatch_def ended_def end_marks_front split: if_splits)

lemma exception_ended: "fetch_buffer_exception e k = Inr k' \<Longrightarrow> ended k k'"
  unfolding fetch_buffer_exception_def by (rule same_lane_ended[OF _ instruction_end_ended]) simp_all

lemma after_allocate_ended:
  assumes "after_allocate_rs e k = Inr k'"
  shows "ended k k'"
proof -
  obtain en k1 k2 where "record_microcode e en k = Inr k1" "(if dc_mis (k_dec k1) then Inr k1 else execute (en_bochs e) k1) = Inr k2"
    "instruction_end e k2 = Inr k'" using assms by (auto simp: after_allocate_rs_def rbind_Inr_iff)
  moreover have "same_lane k1 k2" if "execute (en_bochs e) k1 = Inr k2" for k1 k2
    using execute_frame(1)[OF that] by (simp add: keeps_plan_def same_lane_def)
  ultimately show ?thesis
    using record_lane instruction_end_ended same_lane_ended same_lane_trans same_lane_simps(1) by (metis Inr_inject)
qed

lemma take_one_lane: "take_one k = Inr (k', b) \<Longrightarrow> same_lane k k'"
  by (auto simp: take_one_def get_inst_from_supply_def rbind_Inr_iff same_lane_def Let_def split: if_splits option.splits)

lemma alocate_loop_ended: "alocate_loop e m k = Inr k' \<Longrightarrow> ended k k'"
proof (induction m arbitrary: k)
  case 0
  let ?k = "set_handler (dc_saved (k_dec k)) k"
  have "exec_saved e ?k = Inr k'" using 0 by simp
  then have "ended ?k k'" using after_allocate_ended exception_ended by (auto simp: exec_saved_def split: handler.splits)
  then show ?case by (simp add: ended_def)
next
  case (Suc m)
  obtain k1 b where t: "take_one k = Inr (k1, b)" using Suc.prems by (auto simp: rbind_Inr_iff)
  show ?case
  proof (cases b)
    case True
    then show ?thesis using Suc.IH[of k1] Suc.prems t take_one_lane[OF t] same_lane_ended by simp
  next
    case False
    then show ?thesis using Suc.prems t take_one_lane[OF t] by (auto simp: ended_def same_lane_def stop_decoding_def)
  qed
qed

lemma alocate_inst_ended: "alocate_inst e n k = Inr k' \<Longrightarrow> ended k k'"
  unfolding alocate_inst_def alocate_more_def by (rule same_lane_ended[OF _ alocate_loop_ended]) simp_all

lemma after_get_inst_ended: "after_get_inst e k = Inr k' \<Longrightarrow> ended k k'"
  using alocate_inst_ended by (fastforce simp: after_get_inst_def Let_def rbind_Inr_iff ended_def split: if_splits)
section \<open>Bytes are used up\<close>

text \<open>What a call of the decoder guarantees: it stops the decoder, or it finishes the instruction.\<close>

definition shrinks :: "env \<Rightarrow> core \<Rightarrow> core \<Rightarrow> bool" where
  "shrinks e k k' \<longleftrightarrow> bytes_left e k' \<le> bytes_left e k \<and> (dc_stop (k_dec k') \<or> \<not> dc_busy (k_dec k'))"

lemma bytes_left_lane: "same_lane k k' \<Longrightarrow> bytes_left e k' = bytes_left e k"
  by (simp add: bytes_left_def same_lane_def)

lemma ended_shrinks: "ended k k' \<Longrightarrow> shrinks e k k'"
  by (simp add: ended_def shrinks_def bytes_left_def)

lemma get_byte_left:
  assumes "get_byte_from_buffer e k = Inr (k', r)"
  shows "case r of None \<Rightarrow> dc_stop (k_dec k') \<and> bytes_left e k' = bytes_left e k | Some b \<Rightarrow> Suc (bytes_left e k') = bytes_left e k"
proof -
  let ?n = "cf_fetch_size (en_cfg e)" and ?l = "fs_lane (k_front k)"
  show ?thesis
  proof (cases "dc_bytes (k_dec k) < cf_max_bytes (en_cfg e) \<and> has_bytes ?n 1 ?l")
    case False
    then have "r = None \<and> k' = stop_decoding k" using assms by (auto simp: get_byte_from_buffer_def Let_def)
    then show ?thesis by (simp add: stop_decoding_def bytes_left_def)
  next
    case True
    then have h: "1 \<le> unat (?n - fb_avail ?l)" by (simp add: has_bytes_def word_le_nat_alt)
    obtain l1 b where g: "get_byte ?n ?l = Inr (l1, b)" using assms True by (auto simp: get_byte_from_buffer_def Let_def rbind_Inr_iff)
    let ?k1 = "k\<lparr>k_front := (k_front k)\<lparr>fs_lane := l1\<rparr>\<rparr>"
    have a: "fb_avail l1 = fb_avail ?l + 1" using g by (auto simp: get_byte_def split: if_splits)
    have w: "?n - (fb_avail ?l + 1) = (?n - fb_avail ?l) - 1" by simp
    have "0 < unat (?n - fb_avail ?l)" using h by linarith
    then have "unat (?n - fb_avail l1) = unat (?n - fb_avail ?l) - 1" unfolding a w by (rule unat_pred)
    then have left: "Suc (bytes_left e ?k1) = bytes_left e k" using h by (simp add: bytes_left_def bytes_in_buffer_def)
    have "same_lane ?k1 k' \<and> r \<noteq> None"
    proof (cases "fe_is_exc b")
      case False
      then show ?thesis using assms True g by (auto simp: get_byte_from_buffer_def Let_def rbind_Inr_iff same_lane_def)
    next
      case e: True
      obtain k2 where "alocate_inst e 1 (set_handler H_Fetch_Exception (on_dec (\<lambda>d. d\<lparr>dc_buffer_exception := fe_exc b\<rparr>) ?k1)) = Inr k2"
        "k' = k2" "r = Some b"
        using assms True g e by (auto simp: get_byte_from_buffer_def Let_def rbind_Inr_iff)
      then show ?thesis using alocate_inst_ended by (fastforce simp: ended_def same_lane_def)
    qed
    then show ?thesis using left bytes_left_lane by (auto split: option.split)
  qed
qed

lemma get_bytes_shrinks:
  assumes "get_bytes e k = Inr k'"
  shows "shrinks e k k'"
proof -
  let ?n = "cf_fetch_size (en_cfg e)"
  have fin: "shrinks e k1 k'"
    if rr: "rbind (entry_of (cur_xst k1)) (\<lambda>(h, ts). alocate_inst e (length ts) (set_handler H_After_Allocate
                   (on_dec (\<lambda>d. d\<lparr>dc_length := xs_length (cur_xst k1)\<rparr>) k1))) = Inr k'" for k1
  proof -
    obtain ts :: "nat list" where "alocate_inst e (length ts) (set_handler H_After_Allocate (on_dec (\<lambda>d. d\<lparr>dc_length := xs_length (cur_xst k1)\<rparr>) k1)) = Inr k'"
      using rr by (auto simp: rbind_Inr_iff)
    then have "ended k1 k'" by (rule same_lane_ended[OF _ alocate_inst_ended, rotated]) (simp add: same_lane_def)
    then show ?thesis by (rule ended_shrinks)
  qed
  show ?thesis
  proof (cases "dc_got (k_dec k) < dc_to_get (k_dec k)")
    case False
    then show ?thesis using assms fin[of k] by (auto simp: get_bytes_def Let_def split: if_splits)
  next
    case True
    let ?skip = "ucast (ucast (dc_to_get (k_dec k) - dc_got (k_dec k)) :: u8) :: u32"
    let ?rest = "cf_max_bytes (en_cfg e) - dc_bytes (k_dec k)"
    let ?m = "if ?skip < ?rest then ?skip else ?rest"
    obtain l na r where s: "skip_bytes ?n ?m (fs_lane (k_front k)) = Inr (l, na, r)"
      using True assms by (auto simp: get_bytes_def Let_def rbind_Inr_iff)
    let ?k1 = "on_dec (\<lambda>d. d\<lparr>dc_next := na, dc_got := dc_got d + r\<rparr>) (k\<lparr>k_front := (k_front k)\<lparr>fs_lane := l\<rparr>\<rparr>)"
    have "fb_avail l = fb_avail (fs_lane (k_front k)) + r" and r: "r \<le> ?n - fb_avail (fs_lane (k_front k))"
      using s by (auto simp: skip_bytes_def Let_def split: if_splits)
    then have w: "?n - fb_avail l = (?n - fb_avail (fs_lane (k_front k))) - r" by (simp add: algebra_simps)
    have left: "bytes_left e ?k1 \<le> bytes_left e k"
      using word_sub_le[OF r] by (simp add: bytes_left_def bytes_in_buffer_def word_le_nat_alt w del: diff_diff_eq)
    show ?thesis
    proof (cases "r < ?skip")
      case t: True
      then have "k' = stop_decoding ?k1" using s assms True by (simp add: get_bytes_def Let_def)
      then show ?thesis using left by (simp add: shrinks_def stop_decoding_def bytes_left_def)
    next
      case False
      have "shrinks e ?k1 k'" by (rule fin) (use s assms False True in \<open>auto simp: get_bytes_def Let_def split: if_splits\<close>)
      then show ?thesis using left by (simp add: shrinks_def)
    qed
  qed
qed

lemma first_byte_lane: "first_byte b k = (k', hit) \<Longrightarrow> same_lane k k'"
  by (auto simp: first_byte_def Let_def same_lane_def split: if_splits)

lemma byte_step_lane: "byte_step e c v k = Inr (k', c') \<Longrightarrow> same_lane k k'"
  by (auto simp: byte_step_def Let_def rbind_Inr_iff same_lane_def split: if_splits)

text \<open>The byte automaton ends, and unless the decoder is stopped it has taken a byte.\<close>

definition eats :: "env \<Rightarrow> core \<Rightarrow> core res \<Rightarrow> bool" where
  "eats e k r \<longleftrightarrow> (\<forall>k'. r = Inr k' \<longrightarrow> shrinks e k k' \<and> (dc_stop (k_dec k') \<or> bytes_left e k' < bytes_left e k))"

lemma run_bytes_ends:
  "bytes_left e k < m \<Longrightarrow> \<exists>r. run_bytes e m c k = Some r \<and> eats e k r"
proof (induction m arbitrary: c k)
  case (Suc m)
  show ?case
  proof (cases "get_byte_from_buffer e k")
    case (Inl x)
    then show ?thesis by (simp add: fbind_def eats_def)
  next
    case (Inr p)
    obtain k1 r where g: "get_byte_from_buffer e k = Inr (k1, r)" using Inr by (cases p) simp
    note gl = get_byte_left[OF g]
    show ?thesis
    proof (cases r)
      case None
      then show ?thesis using g gl by (simp add: fbind_def eats_def shrinks_def)
    next
      case (Some b)
      have left: "Suc (bytes_left e k1) = bytes_left e k" using gl Some by simp
      show ?thesis
      proof (cases "add_opcode_byte (fe_data b) k1")
        case (Inl x)
        then show ?thesis using g Some by (simp add: fbind_def eats_def)
      next
        case a: (Inr k2)
        have l2: "same_lane k1 k2" using a by (auto simp: add_opcode_byte_def split: if_splits)
        obtain k3 hit where k3: "(if c = C_Decode \<and> dc_first_byte (k_dec k2) then first_byte b k2 else (k2, False)) = (k3, hit)" by force
        have "same_lane k2 k3" using k3 first_byte_lane by (auto split: if_splits)
        then have l3: "bytes_left e k3 = bytes_left e k1" using l2 bytes_left_lane by metis
        show ?thesis
        proof (cases hit)
          case True
          then have "run_bytes e (Suc m) c k = Some (get_bytes e k3)" using g Some a k3 by (simp add: fbind_def)
          then show ?thesis using get_bytes_shrinks[of e k3] left l3 by (auto simp: eats_def shrinks_def)
        next
          case False
          then have run: "run_bytes e (Suc m) c k = fbind (byte_step e c (fe_data b) k3) (\<lambda>(k4, c').
              if c' = C_Done then Some (after_get_inst e k4) else run_bytes e m c' k4)" using g Some a k3 by (simp add: fbind_def)
          show ?thesis
          proof (cases "byte_step e c (fe_data b) k3")
            case (Inl x)
            then show ?thesis using run by (simp add: fbind_def eats_def)
          next
            case s: (Inr q)
            obtain k4 c' where q: "q = (k4, c')" by force
            have l4: "bytes_left e k4 = bytes_left e k3" using byte_step_lane[OF s[unfolded q]] by (rule bytes_left_lane)
            show ?thesis
            proof (cases "c' = C_Done")
              case True
              then have "run_bytes e (Suc m) c k = Some (after_get_inst e k4)" using run s q by (simp add: fbind_def)
              moreover have "eats e k (after_get_inst e k4)" unfolding eats_def
              proof (intro allI impI)
                fix k' assume "after_get_inst e k4 = Inr k'"
                then have "shrinks e k4 k'" by (rule ended_shrinks[OF after_get_inst_ended])
                then show "shrinks e k k' \<and> (dc_stop (k_dec k') \<or> bytes_left e k' < bytes_left e k)" using left l3 l4 by (simp add: shrinks_def)
              qed
              ultimately show ?thesis by blast
            next
              case False
              then have r: "run_bytes e (Suc m) c k = run_bytes e m c' k4" using run s q by (simp add: fbind_def)
              have "bytes_left e k4 < m" using Suc.prems left l3 l4 by simp
              then obtain r where "run_bytes e m c' k4 = Some r" "eats e k4 r" using Suc.IH by blast
              then show ?thesis using r left l3 l4 by (auto simp: eats_def shrinks_def)
            qed
          qed
        qed
      qed
    qed
  qed
qed simp

lemma enter_bytes_eats: "eats e k (enter_bytes e c k)"
proof -
  obtain r where "run_bytes e (Suc (bytes_left e k)) c k = Some r" "eats e k r" using run_bytes_ends[of e k "Suc (bytes_left e k)" c] by auto
  then show ?thesis by (simp add: enter_bytes_def or_diverges_def)
qed

section \<open>The decode stage\<close>

lemma decode_shrinks:
  assumes "decode e k = Inr k'"
  shows "shrinks e k k'" "\<not> dc_busy (k_dec k) \<Longrightarrow> dc_stop (k_dec k') \<or> bytes_left e k' < bytes_left e k"
proof -
  have "shrinks e k k' \<and> (\<not> dc_busy (k_dec k) \<longrightarrow> dc_stop (k_dec k') \<or> bytes_left e k' < bytes_left e k)"
  proof (cases "dc_busy (k_dec k)")
    case False
    let ?k = "on_dec start_instruction k"
    have "eats e ?k (decode e k)" using enter_bytes_eats False by (simp add: decode_def)
    moreover have "bytes_left e ?k = bytes_left e k" by (simp add: bytes_left_def)
    ultimately show ?thesis using assms by (simp add: eats_def shrinks_def)
  next
    case True
    then have r: "exec_handler e k = Inr k'" using assms by (simp add: decode_def)
    have "shrinks e k k'"
    proof (cases "dc_handler (k_dec k)")
      case (H_Byte c)
      show ?thesis
      proof (cases "c = C_Done")
        case True
        then show ?thesis using r H_Byte after_get_inst_ended ended_shrinks by (simp add: exec_handler_def)
      next
        case False
        then have "enter_bytes e c k = Inr k'" using r H_Byte by (simp add: exec_handler_def)
        then show ?thesis using enter_bytes_eats[of e k c] by (simp add: eats_def)
      qed
    next
      case H_Get_Bytes
      then show ?thesis using r get_bytes_shrinks by (simp add: exec_handler_def)
    next
      case H_Alocate
      then show ?thesis using r alocate_loop_ended ended_shrinks by (simp add: exec_handler_def alocate_more_def)
    next
      case H_After_Allocate
      then show ?thesis using r after_allocate_ended ended_shrinks by (simp add: exec_handler_def)
    next
      case H_Fetch_Exception
      then show ?thesis using r exception_ended ended_shrinks by (simp add: exec_handler_def)
    next
      case H_Dispatch
      then show ?thesis using r dispatch_loop_ended ended_shrinks by (simp add: exec_handler_def dec_dispatch_def)
    qed
    then show ?thesis using True by blast
  qed
  then show "shrinks e k k'" "\<not> dc_busy (k_dec k) \<Longrightarrow> dc_stop (k_dec k') \<or> bytes_left e k' < bytes_left e k" by blast+
qed

lemma decode_loop_ends:
  "bytes_left e k + (if dc_stop (k_dec k) then 0 else if dc_busy (k_dec k) then 2 else 1) < m \<Longrightarrow> \<exists>r. decode_loop e m (k, t) = Some r"
proof (induction m arbitrary: k t)
  case (Suc m)
  show ?case
  proof (cases "dc_stop (k_dec k)")
    case False
    show ?thesis
    proof (cases "decode e (before_decode k)")
      case (Inl x)
      then show ?thesis using False by (simp add: fbind_def)
    next
      case (Inr k1)
      have b: "bytes_left e (before_decode k) = bytes_left e k" by (simp add: before_decode_def Let_def bytes_left_def)
      have d: "bytes_left e k1 \<le> bytes_left e k" "dc_stop (k_dec k1) \<or> \<not> dc_busy (k_dec k1)"
        "\<not> dc_busy (k_dec k) \<Longrightarrow> dc_stop (k_dec k1) \<or> bytes_left e k1 < bytes_left e k"
        using decode_shrinks[OF Inr] by (simp_all add: shrinks_def b)
      have "bytes_left e k1 + (if dc_stop (k_dec k1) then 0 else if dc_busy (k_dec k1) then 2 else 1) < m"
        using d Suc.prems False by (auto split: if_splits)
      then show ?thesis using Suc.IH False Inr by (simp add: fbind_def)
    qed
  qed simp
qed simp

end
