(* ===== verification/Devices.thy ===== *)
theory Devices
  imports Memory
begin

text \<open>
  The devices of \<open>src/src/io/\<close>: the partial transfers of the port macros in \<open>io.h\<close>, the keyboard,
  the timer, the external disk and the video card, the interrupt controller that arbitrates between
  them, the port tables and the cycle of \<open>io.cpp\<close>.

  A port access carries the bytes at the pointer \<open>data\<close>: a write passes them in, a read returns the
  bytes it stored there (the others are unchanged). The host's screen is the list of calls made to
  it, its keyboard an argument of the cycle, its files a small model of \<open>stdio\<close>.
\<close>

unbundle bit_operations_syntax

section \<open>Partial transfers\<close>

text \<open>
  \<open>IO_LIB_GET_DATA\<close> fills an object from successive writes and \<open>IO_LIB_SET_DATA\<close> empties one by
  successive reads; \<open>count\<close> is the number of bytes transferred so far. The loops stop when the bytes
  of this access or those of the object run out; in the second case \<open>count\<close> is left one too high,
  which the test after the loop does not mind. The result says whether the object is complete.
\<close>

fun get_loop :: "u8 list \<Rightarrow> nat \<Rightarrow> nat \<Rightarrow> u8 list \<Rightarrow> (u8 list \<times> nat) res" where
  "get_loop [] count n dest = Inr (dest, count)"
| "get_loop (b # bs) count n dest =
     (if count < n then
        if count < length dest then get_loop bs (count + 1) n (dest[count := b]) else Inl Out_Of_Bounds
      else Inr (dest, count + 1))"

definition lib_get :: "u8 list \<Rightarrow> nat \<Rightarrow> nat \<Rightarrow> u8 list \<Rightarrow> (u8 list \<times> nat \<times> bool) res" where
  "lib_get src count n dest =
     rbind (get_loop src count n dest) (\<lambda>(dest', c).
       Inr (if c < n then (dest', c, False) else (dest', 0, True)))"

fun set_loop :: "nat \<Rightarrow> nat \<Rightarrow> nat \<Rightarrow> u8 list \<Rightarrow> u8 list \<Rightarrow> (u8 list \<times> nat) res" where
  "set_loop 0 count n src out = Inr (out, count)"
| "set_loop (Suc k) count n src out =
     (if count < n then
        if count < length src then set_loop k (count + 1) n src (out @ [src ! count]) else Inl Out_Of_Bounds
      else Inr (out, count + 1))"

definition lib_set :: "nat \<Rightarrow> nat \<Rightarrow> nat \<Rightarrow> u8 list \<Rightarrow> (u8 list \<times> nat \<times> bool) res" where
  "lib_set sz count n src =
     rbind (set_loop sz count n src []) (\<lambda>(out, c).
       Inr (if c < n then (out, c, False) else (out, 0, True)))"

section \<open>Host files\<close>

text \<open>
  Just enough of \<open>stdio\<close>: files by name, open streams by a non-zero handle, with the name and the
  position. A stream operation on a handle that is not open is undefined in C.
\<close>

record host_fs =
  fs_files :: "u8 list \<Rightarrow> u8 list option"
  fs_streams :: "u64 \<Rightarrow> (u8 list \<times> nat) option"
  fs_next :: u64

definition fs_fopen :: "u8 list \<Rightarrow> host_fs \<Rightarrow> host_fs \<times> u64" where
  "fs_fopen name h = (case fs_files h name of
     None \<Rightarrow> (h, 0)
   | Some _ \<Rightarrow> (h\<lparr>fs_streams := (fs_streams h)(fs_next h \<mapsto> (name, 0)), fs_next := fs_next h + 1\<rparr>, fs_next h))"

definition fs_fclose :: "u64 \<Rightarrow> host_fs \<Rightarrow> host_fs res" where
  "fs_fclose f h = (case fs_streams h f of
     None \<Rightarrow> Inl Null_Deref
   | Some _ \<Rightarrow> Inr (h\<lparr>fs_streams := (fs_streams h)(f := None)\<rparr>))"

definition fs_content :: "u8 list \<Rightarrow> host_fs \<Rightarrow> u8 list" where
  "fs_content name h = (case fs_files h name of None \<Rightarrow> [] | Some bs \<Rightarrow> bs)"

definition fs_fread :: "nat \<Rightarrow> u64 \<Rightarrow> host_fs \<Rightarrow> (host_fs \<times> u8 list) res" where
  "fs_fread n f h = (case fs_streams h f of
     None \<Rightarrow> Inl Null_Deref
   | Some (name, pos) \<Rightarrow>
       let bs = take n (drop pos (fs_content name h))
       in Inr (h\<lparr>fs_streams := (fs_streams h)(f \<mapsto> (name, pos + length bs))\<rparr>, bs))"

definition fs_fwrite :: "u8 list \<Rightarrow> u64 \<Rightarrow> host_fs \<Rightarrow> (host_fs \<times> nat) res" where
  "fs_fwrite bs f h = (case fs_streams h f of
     None \<Rightarrow> Inl Null_Deref
   | Some (name, pos) \<Rightarrow>
       let old = fs_content name h;
           new = take pos old @ replicate (pos - length old) 0 @ bs @ drop (pos + length bs) old
       in Inr (h\<lparr>fs_streams := (fs_streams h)(f \<mapsto> (name, pos + length bs)),
                 fs_files := (fs_files h)(name \<mapsto> new)\<rparr>, length bs))"

definition fs_fseek :: "nat \<Rightarrow> u64 \<Rightarrow> host_fs \<Rightarrow> host_fs res" where
  "fs_fseek pos f h = (case fs_streams h f of
     None \<Rightarrow> Inl Null_Deref
   | Some (name, _) \<Rightarrow> Inr (h\<lparr>fs_streams := (fs_streams h)(f \<mapsto> (name, pos))\<rparr>))"

definition fs_size :: "u64 \<Rightarrow> host_fs \<Rightarrow> nat res" where
  "fs_size f h = (case fs_streams h f of
     None \<Rightarrow> Inl Null_Deref | Some (name, _) \<Rightarrow> Inr (length (fs_content name h)))"

definition fs_ftell :: "u64 \<Rightarrow> host_fs \<Rightarrow> nat res" where
  "fs_ftell f h = (case fs_streams h f of None \<Rightarrow> Inl Null_Deref | Some (_, pos) \<Rightarrow> Inr pos)"

section \<open>The interrupt controller\<close>

datatype device = Timer_Dev | External_Hd_Dev | Keyboard_Dev

definition code_timer :: u8 where "code_timer = 0"
definition code_external_hd :: u8 where "code_external_hd = 1"
definition code_keyboard :: u8 where "code_keyboard = 2"

definition max_int_devices :: nat where
  "max_int_devices = 3"

text \<open>What the controller sees of a processor: the pending external interrupt.\<close>

record cpu_int =
  has_int :: bool
  int_code :: u8

definition set_external_interrupt :: "u8 \<Rightarrow> cpu_int \<Rightarrow> cpu_int \<times> bool" where
  "set_external_interrupt code c =
     (if has_int c then (c, False) else (c\<lparr>has_int := True, int_code := code\<rparr>, True))"

record request =
  rq_dev :: device
  rq_proc :: "nat option"
  rq_code :: u8

definition request_int :: "device \<Rightarrow> u8 \<Rightarrow> request list \<Rightarrow> request list res" where
  "request_int d code rs =
     (if length rs < max_int_devices then Inr (rs @ [\<lparr>rq_dev = d, rq_proc = None, rq_code = code\<rparr>])
      else Inl Out_Of_Bounds)"

definition request_int_cpu :: "nat \<Rightarrow> device \<Rightarrow> u8 \<Rightarrow> nat \<Rightarrow> request list \<Rightarrow> request list res" where
  "request_int_cpu ncpus d code cpuid rs =
     (if length rs < max_int_devices then
        if cpuid < ncpus then Inr (rs @ [\<lparr>rq_dev = d, rq_proc = Some cpuid, rq_code = code\<rparr>])
        else Inl Sanity
      else Inl Out_Of_Bounds)"

text \<open>The loop over the processors: the first one without a pending interrupt takes it.\<close>

fun offer_all :: "u8 \<Rightarrow> cpu_int list \<Rightarrow> cpu_int list \<times> bool" where
  "offer_all code [] = ([], False)"
| "offer_all code (c # cs) =
     (case set_external_interrupt code c of
        (c', True) \<Rightarrow> (c' # cs, True)
      | (_, False) \<Rightarrow> (case offer_all code cs of (cs', b) \<Rightarrow> (c # cs', b)))"

fun pos_loop :: "nat \<Rightarrow> request list \<Rightarrow> cpu_int list \<Rightarrow> cpu_int list \<times> nat option" where
  "pos_loop i [] cpus = (cpus, None)"
| "pos_loop i (r # rs) cpus =
     (case rq_proc r of
        Some c \<Rightarrow>
          (case set_external_interrupt (rq_code r) (cpus ! c) of
             (c', True) \<Rightarrow> (cpus[c := c'], Some i)
           | (_, False) \<Rightarrow> pos_loop (i + 1) rs cpus)
      | None \<Rightarrow>
          (case offer_all (rq_code r) cpus of
             (cpus', True) \<Rightarrow> (cpus', Some i)
           | (_, False) \<Rightarrow> pos_loop (i + 1) rs cpus))"

section \<open>Keyboard and timer\<close>

record keyboard =
  kb_data :: u8
  kb_state :: u8
  kb_must :: bool

definition HAS_KEY :: u8 where
  "HAS_KEY = 1"

definition there_is_input :: "u16 \<Rightarrow> bool" where
  "there_is_input r \<longleftrightarrow> r AND 0x8000 \<noteq> 0"

definition keyboard_new :: keyboard where
  "keyboard_new = \<lparr>kb_data = 0, kb_state = 0, kb_must = False\<rparr>"

definition kb_read_status :: "keyboard \<Rightarrow> u8" where
  "kb_read_status k = kb_state k"

definition kb_read_data :: "keyboard \<Rightarrow> keyboard \<times> u8" where
  "kb_read_data k = (k\<lparr>kb_state := kb_state k AND NOT HAS_KEY, kb_must := False\<rparr>, kb_data k)"

definition kb_cycle :: "u16 \<Rightarrow> keyboard \<Rightarrow> request list \<Rightarrow> (keyboard \<times> request list) res" where
  "kb_cycle inp k rs =
     (if kb_must k then rbind (request_int Keyboard_Dev code_keyboard rs) (\<lambda>rs'. Inr (k, rs'))
      else if kb_state k AND HAS_KEY = 0 \<and> there_is_input inp then
        rbind (request_int Keyboard_Dev code_keyboard rs) (\<lambda>rs'.
          Inr (k\<lparr>kb_state := kb_state k OR HAS_KEY, kb_data := ucast inp\<rparr>, rs'))
      else Inr (k, rs))"

record timer =
  tm_counter :: u64
  tm_must :: bool
  tm_max :: u64
  tm_ncpus :: u32
  tm_cpu :: u32

text \<open>The constructor divides by the number of processors, which is undefined when there is none.\<close>

definition timer_new :: "u32 \<Rightarrow> u32 \<Rightarrow> timer res" where
  "timer_new max_cycles ncpus =
     (if ncpus = 0 then Inl Out_Of_Bounds
      else Inr \<lparr>tm_counter = 0, tm_must = False, tm_max = ucast (max_cycles div ncpus), tm_ncpus = ncpus, tm_cpu = 0\<rparr>)"

definition tm_cycle :: "nat \<Rightarrow> timer \<Rightarrow> request list \<Rightarrow> (timer \<times> request list) res" where
  "tm_cycle ncpus t rs =
     (let t1 = t\<lparr>tm_counter := tm_counter t + 1\<rparr>
      in if tm_counter t > tm_max t
         then rbind (request_int_cpu ncpus Timer_Dev code_timer (unat (tm_cpu t)) rs) (\<lambda>rs'.
                Inr (t1\<lparr>tm_must := True\<rparr>, rs'))
         else Inr (t1, rs))"

definition tm_interrupt_end :: "timer \<Rightarrow> timer" where
  "tm_interrupt_end t =
     t\<lparr>tm_counter := 0, tm_cpu := (tm_cpu t + 1) mod tm_ncpus t, tm_must := False\<rparr>"


section \<open>The external disk\<close>

definition SECTOR_SIZE :: nat where
  "SECTOR_SIZE = 20480"

definition FILE_NAME_SIZE :: nat where
  "FILE_NAME_SIZE = 100"

definition IDLE :: u8 where "IDLE = 0"
definition WAIT_FNAME :: u8 where "WAIT_FNAME = 1"
definition WAIT_SEEK :: u8 where "WAIT_SEEK = 2"
definition READING :: u8 where "READING = 3"
definition WRITTING :: u8 where "WRITTING = 4"
definition WAIT_READ :: u8 where "WAIT_READ = 5"
definition WAIT_WBUFFER :: u8 where "WAIT_WBUFFER = 9"

lemmas hd_states = IDLE_def WAIT_FNAME_def WAIT_SEEK_def READING_def WRITTING_def WAIT_READ_def WAIT_WBUFFER_def

text \<open>
  The file name is the C string, without its terminator. Multi-byte registers that the ports
  transfer piecewise are kept as their little-endian bytes.
\<close>

record hd =
  hd_file_name :: "u8 list"
  hd_state :: u8
  hd_must :: bool
  hd_file :: u64
  hd_fhandler :: "u8 list"
  hd_fhandler_count :: nat
  hd_buffer :: "u8 list"
  hd_buffer_count :: nat
  hd_fbytes :: "u8 list"
  hd_fbytes_count :: nat
  hd_delay :: u32
  hd_read_delay :: u32
  hd_write_delay :: u32

definition hd_get_state :: "hd \<Rightarrow> u8" where
  "hd_get_state d = hd_state d AND 0x3F"

definition hd_bytes :: "hd \<Rightarrow> u32" where
  "hd_bytes d = le_value (hd_fbytes d)"

definition hd_set_bytes :: "nat \<Rightarrow> hd \<Rightarrow> hd" where
  "hd_set_bytes n d = d\<lparr>hd_fbytes := le_bytes 4 (of_nat n :: u32)\<rparr>"

definition hd_new :: "hd \<Rightarrow> u32 \<Rightarrow> u32 \<Rightarrow> hd" where
  "hd_new junk rd wd = junk\<lparr>hd_state := IDLE, hd_read_delay := rd, hd_write_delay := wd,
     hd_buffer_count := 0, hd_fhandler_count := 0, hd_fbytes_count := 0, hd_must := False\<rparr>"

definition hd_read_status :: "hd \<Rightarrow> u8" where
  "hd_read_status d = hd_state d"

definition hd_read_fhandler :: "nat \<Rightarrow> hd \<Rightarrow> (hd \<times> u8 list) res" where
  "hd_read_fhandler sz d =
     rbind (lib_set sz (hd_fhandler_count d) 8 (hd_fhandler d)) (\<lambda>(out, c, _).
       Inr (d\<lparr>hd_fhandler_count := c\<rparr>, out))"

definition hd_read_fbytes :: "nat \<Rightarrow> hd \<Rightarrow> (hd \<times> u8 list) res" where
  "hd_read_fbytes sz d =
     rbind (lib_set sz (hd_fbytes_count d) 4 (hd_fbytes d)) (\<lambda>(out, c, _).
       Inr (d\<lparr>hd_fbytes_count := c\<rparr>, out))"

definition hd_read_data :: "nat \<Rightarrow> hd \<Rightarrow> (hd \<times> u8 list) res" where
  "hd_read_data sz d =
     (if hd_get_state d = WAIT_READ then
        rbind (lib_set sz (hd_buffer_count d) (unat (hd_bytes d)) (hd_buffer d)) (\<lambda>(out, c, done).
          Inr (if done then d\<lparr>hd_buffer_count := c, hd_state := IDLE\<rparr> else d\<lparr>hd_buffer_count := c\<rparr>, out))
      else Inr (d, []))"

definition hd_write_fhandler :: "u8 list \<Rightarrow> hd \<Rightarrow> hd res" where
  "hd_write_fhandler bs d =
     rbind (lib_get bs (hd_fhandler_count d) 8 (hd_fhandler d)) (\<lambda>(dest, c, done).
       let d' = d\<lparr>hd_fhandler := dest, hd_fhandler_count := c\<rparr>
       in Inr (if done then d'\<lparr>hd_file := le_value dest\<rparr> else d'))"

definition hd_write_fbytes :: "u8 list \<Rightarrow> hd \<Rightarrow> hd res" where
  "hd_write_fbytes bs d =
     rbind (lib_get bs (hd_fbytes_count d) 4 (hd_fbytes d)) (\<lambda>(dest, c, done).
       Inr (d\<lparr>hd_fbytes := dest, hd_fbytes_count := c\<rparr>))"

text \<open>
  \<open>strcat\<close> of one character: a zero byte appends nothing; the array has room for 99 characters and
  the terminator. The seek position is assembled in a local variable whose counter (\<open>cnt\<close> here) and
  value (\<open>junk\<close>) are never initialised.
\<close>

definition hd_write_data ::
  "nat \<Rightarrow> u8 list \<Rightarrow> u8 list \<Rightarrow> hd \<Rightarrow> host_fs \<Rightarrow> (hd \<times> host_fs) res" where
  "hd_write_data cnt junk bs d h =
     (if hd_get_state d = WAIT_FNAME then
        if bs = [] then Inl Out_Of_Bounds
        else if hd bs = 0 then Inr (d, h)
        else if length (hd_file_name d) + 1 < FILE_NAME_SIZE
        then Inr (d\<lparr>hd_file_name := hd_file_name d @ [hd bs]\<rparr>, h)
        else Inl Out_Of_Bounds
      else if hd_get_state d = WAIT_WBUFFER then
        rbind (lib_get bs (hd_buffer_count d) (unat (hd_bytes d)) (hd_buffer d)) (\<lambda>(dest, c, done).
          let d' = d\<lparr>hd_buffer := dest, hd_buffer_count := c\<rparr>
          in Inr (if done then d'\<lparr>hd_state := IDLE\<rparr> else d', h))
      else if hd_get_state d = WAIT_SEEK then
        rbind (lib_get bs cnt 4 junk) (\<lambda>(dest, c, done).
        rbind (fs_fseek (unat (le_value dest :: u32)) (hd_file d) h) (\<lambda>h'.
          Inr (d\<lparr>hd_state := IDLE\<rparr>, h')))
      else Inr (d, h))"

definition hd_write_cmd :: "u8 \<Rightarrow> hd \<Rightarrow> host_fs \<Rightarrow> (hd \<times> host_fs) res" where
  "hd_write_cmd cmd d h =
     (if hd_get_state d = IDLE then
        if cmd = 0 then Inr (d\<lparr>hd_file_name := [], hd_state := WAIT_FNAME\<rparr>, h)
        else if cmd = 2 then
          (case fs_fopen (hd_file_name d) h of (h', f) \<Rightarrow> Inr (d\<lparr>hd_file := f, hd_fhandler := le_bytes 8 f\<rparr>, h'))
        else if cmd = 3 then rbind (fs_fclose (hd_file d) h) (\<lambda>h'. Inr (d, h'))
        else if cmd = 4 then Inr (d\<lparr>hd_delay := hd_read_delay d * hd_bytes d, hd_state := READING\<rparr>, h)
        else if cmd = 5 then Inr (d\<lparr>hd_delay := hd_write_delay d * hd_bytes d, hd_state := WRITTING\<rparr>, h)
        else if cmd = 10 then Inr (d\<lparr>hd_state := WAIT_WBUFFER\<rparr>, h)
        else if cmd = 9 then
          rbind (fs_ftell (hd_file d) h) (\<lambda>pos.
          rbind (fs_size (hd_file d) h) (\<lambda>n.
          rbind (fs_fseek (unat (of_nat pos :: u32)) (hd_file d) h) (\<lambda>h'.
            Inr (hd_set_bytes n d, h'))))
        else if cmd = 13 then rbind (fs_ftell (hd_file d) h) (\<lambda>n. Inr (hd_set_bytes n d, h))
        else if cmd = 6 then Inr (d\<lparr>hd_state := WAIT_SEEK\<rparr>, h)
        else Inr (d, h)
      else if hd_get_state d = WAIT_FNAME \<and> cmd = 1 then Inr (d\<lparr>hd_state := IDLE\<rparr>, h)
      else Inr (d, h))"

text \<open>\<open>fread\<close> into the sector buffer: a count larger than the buffer runs over its end.\<close>

definition hd_cycle :: "hd \<Rightarrow> request list \<Rightarrow> host_fs \<Rightarrow> (hd \<times> request list \<times> host_fs) res" where
  "hd_cycle d rs h =
     (if hd_must d then rbind (request_int External_Hd_Dev code_external_hd rs) (\<lambda>rs'. Inr (d, rs', h))
      else if hd_get_state d = READING then
        let d1 = d\<lparr>hd_delay := hd_delay d - 1\<rparr>
        in if hd_delay d = 0 then
             rbind (fs_fread (unat (hd_bytes d)) (hd_file d) h) (\<lambda>(h', bs).
             if length bs > length (hd_buffer d) then Inl Out_Of_Bounds
             else
               let d2 = (hd_set_bytes (length bs) d1)\<lparr>hd_buffer := bs @ drop (length bs) (hd_buffer d)\<rparr>;
                   d3 = d2\<lparr>hd_state := (if length bs > 0 then WAIT_READ else IDLE), hd_must := True\<rparr>
               in rbind (request_int External_Hd_Dev code_external_hd rs) (\<lambda>rs'. Inr (d3, rs', h')))
           else Inr (d1, rs, h)
      else if hd_get_state d = WRITTING then
        let d1 = d\<lparr>hd_delay := hd_delay d - 1\<rparr>
        in if hd_delay d = 0 then
             if unat (hd_bytes d) > length (hd_buffer d) then Inl Out_Of_Bounds
             else
               rbind (fs_fwrite (take (unat (hd_bytes d)) (hd_buffer d)) (hd_file d) h) (\<lambda>(h', n).
               rbind (request_int External_Hd_Dev code_external_hd rs) (\<lambda>rs'.
                 Inr ((hd_set_bytes n d1)\<lparr>hd_state := IDLE, hd_must := True\<rparr>, rs', h')))
           else Inr (d1, rs, h)
      else Inr (d, rs, h))"

definition hd_interrupt_win :: "hd \<Rightarrow> hd" where
  "hd_interrupt_win d = d\<lparr>hd_must := False\<rparr>"

section \<open>The video card\<close>

datatype host_call = Set_Width u32 | Set_Height u32 | Refresh u32 | Start | Set_Cursor u32 u32

record video =
  vd_buffer_addr :: "u8 list"
  vd_buffer_count :: nat
  vd_width :: "u8 list"
  vd_width_count :: nat
  vd_height :: "u8 list"
  vd_height_count :: nat
  vd_cursor_x :: "u8 list"
  vd_cursor_x_count :: nat
  vd_cursor_y :: "u8 list"
  vd_cursor_y_count :: nat
  vd_calls :: "host_call list"

definition video_new :: "video \<Rightarrow> video" where
  "video_new junk = junk\<lparr>vd_buffer_addr := le_bytes 4 (0 :: u32), vd_buffer_count := 0, vd_width_count := 0,
     vd_height_count := 0, vd_cursor_x_count := 0, vd_cursor_y_count := 0\<rparr>"

definition host_call :: "host_call \<Rightarrow> video \<Rightarrow> video" where
  "host_call x v = v\<lparr>vd_calls := vd_calls v @ [x]\<rparr>"

definition vd_set_buffer_addr :: "u8 list \<Rightarrow> video \<Rightarrow> video res" where
  "vd_set_buffer_addr bs v =
     rbind (lib_get bs (vd_buffer_count v) 4 (vd_buffer_addr v)) (\<lambda>(b, c, _).
       Inr (v\<lparr>vd_buffer_addr := b, vd_buffer_count := c\<rparr>))"

definition vd_set_width :: "u8 list \<Rightarrow> video \<Rightarrow> video res" where
  "vd_set_width bs v =
     rbind (lib_get bs (vd_width_count v) 4 (vd_width v)) (\<lambda>(b, c, done).
       let v' = v\<lparr>vd_width := b, vd_width_count := c\<rparr>
       in Inr (if done then host_call (Set_Width (le_value b)) v' else v'))"

definition vd_set_height :: "u8 list \<Rightarrow> video \<Rightarrow> video res" where
  "vd_set_height bs v =
     rbind (lib_get bs (vd_height_count v) 4 (vd_height v)) (\<lambda>(b, c, done).
       let v' = v\<lparr>vd_height := b, vd_height_count := c\<rparr>
       in Inr (if done then host_call (Set_Height (le_value b)) v' else v'))"

definition vd_set_cursor_x :: "u8 list \<Rightarrow> video \<Rightarrow> video res" where
  "vd_set_cursor_x bs v =
     rbind (lib_get bs (vd_cursor_x_count v) 4 (vd_cursor_x v)) (\<lambda>(b, c, _).
       Inr (v\<lparr>vd_cursor_x := b, vd_cursor_x_count := c\<rparr>))"

definition vd_set_cursor_y :: "u8 list \<Rightarrow> video \<Rightarrow> video res" where
  "vd_set_cursor_y bs v =
     rbind (lib_get bs (vd_cursor_y_count v) 4 (vd_cursor_y v)) (\<lambda>(b, c, _).
       Inr (v\<lparr>vd_cursor_y := b, vd_cursor_y_count := c\<rparr>))"

definition vd_write_cmd :: "u8 \<Rightarrow> video \<Rightarrow> video" where
  "vd_write_cmd cmd v =
     (if cmd = 0 then host_call (Refresh (le_value (vd_buffer_addr v))) v
      else if cmd = 1 then host_call Start v
      else if cmd = 3 then host_call (Set_Cursor (le_value (vd_cursor_x v)) (le_value (vd_cursor_y v))) v
      else v)"

end
