(* ===== verification/Io_System.thy ===== *)
theory Io_System
  imports Devices
begin

text \<open>
  The port tables and the device cycle of \<open>src/src/io/io.cpp\<close>, with the end of the arbitration in
  \<open>int_controller.cpp\<close>: the devices, the requests of the cycle and the processors' pending
  interrupts in one state. The callbacks of the tables are the port operations that the device
  constructors register.
\<close>

unbundle bit_operations_syntax

record io_state =
  io_kb :: keyboard
  io_tm :: timer
  io_hd :: hd
  io_vd :: video
  io_fs :: host_fs
  io_cpus :: "cpu_int list"

section \<open>Ports\<close>

definition IO_NUMBER_OF_ADDR :: nat where
  "IO_NUMBER_OF_ADDR = 0x10000"

text \<open>An access outside the tables reads past them; a port without callback does nothing.\<close>

definition io_read :: "nat \<Rightarrow> nat \<Rightarrow> io_state \<Rightarrow> (io_state \<times> u8 list) res" where
  "io_read port sz s =
     (if port \<ge> IO_NUMBER_OF_ADDR then Inl Out_Of_Bounds
      else if port = 0x2000 then Inr (s, [hd_read_status (io_hd s)])
      else if port = 0x2001 then rbind (hd_read_data sz (io_hd s)) (\<lambda>(d, out). Inr (s\<lparr>io_hd := d\<rparr>, out))
      else if port = 0x2002 then rbind (hd_read_fbytes sz (io_hd s)) (\<lambda>(d, out). Inr (s\<lparr>io_hd := d\<rparr>, out))
      else if port = 0x2003 then rbind (hd_read_fhandler sz (io_hd s)) (\<lambda>(d, out). Inr (s\<lparr>io_hd := d\<rparr>, out))
      else if port = 0x3000 then Inr (s, [kb_read_status (io_kb s)])
      else if port = 0x3001 then (case kb_read_data (io_kb s) of (k, b) \<Rightarrow> Inr (s\<lparr>io_kb := k\<rparr>, [b]))
      else Inr (s, []))"

definition first_byte :: "u8 list \<Rightarrow> u8 res" where
  "first_byte bs = (case bs of [] \<Rightarrow> Inl Out_Of_Bounds | b # _ \<Rightarrow> Inr b)"

definition io_write :: "nat \<Rightarrow> u8 list \<Rightarrow> nat \<Rightarrow> u8 list \<Rightarrow> io_state \<Rightarrow> io_state res" where
  "io_write cnt junk port bs s =
     (if port \<ge> IO_NUMBER_OF_ADDR then Inl Out_Of_Bounds
      else if port = 0x1000 then rbind (vd_set_buffer_addr bs (io_vd s)) (\<lambda>v. Inr (s\<lparr>io_vd := v\<rparr>))
      else if port = 0x1001 then rbind (first_byte bs) (\<lambda>b. Inr (s\<lparr>io_vd := vd_write_cmd b (io_vd s)\<rparr>))
      else if port = 0x1002 then rbind (vd_set_width bs (io_vd s)) (\<lambda>v. Inr (s\<lparr>io_vd := v\<rparr>))
      else if port = 0x1003 then rbind (vd_set_height bs (io_vd s)) (\<lambda>v. Inr (s\<lparr>io_vd := v\<rparr>))
      else if port = 0x1004 then rbind (vd_set_cursor_x bs (io_vd s)) (\<lambda>v. Inr (s\<lparr>io_vd := v\<rparr>))
      else if port = 0x1005 then rbind (vd_set_cursor_y bs (io_vd s)) (\<lambda>v. Inr (s\<lparr>io_vd := v\<rparr>))
      else if port = 0x2000 then
        rbind (first_byte bs) (\<lambda>b. rbind (hd_write_cmd b (io_hd s) (io_fs s)) (\<lambda>(d, h).
          Inr (s\<lparr>io_hd := d, io_fs := h\<rparr>)))
      else if port = 0x2001 then
        rbind (hd_write_data cnt junk bs (io_hd s) (io_fs s)) (\<lambda>(d, h). Inr (s\<lparr>io_hd := d, io_fs := h\<rparr>))
      else if port = 0x2002 then rbind (hd_write_fbytes bs (io_hd s)) (\<lambda>d. Inr (s\<lparr>io_hd := d\<rparr>))
      else if port = 0x2003 then rbind (hd_write_fhandler bs (io_hd s)) (\<lambda>d. Inr (s\<lparr>io_hd := d\<rparr>))
      else Inr s)"

section \<open>One cycle\<close>

definition interrupt_win :: "device \<Rightarrow> io_state \<Rightarrow> io_state" where
  "interrupt_win d s = (case d of
     Timer_Dev \<Rightarrow> s\<lparr>io_tm := tm_interrupt_end (io_tm s)\<rparr>
   | External_Hd_Dev \<Rightarrow> s\<lparr>io_hd := hd_interrupt_win (io_hd s)\<rparr>
   | Keyboard_Dev \<Rightarrow> s\<lparr>io_kb := (io_kb s)\<lparr>kb_must := False\<rparr>\<rparr>)"

definition interrupt_lost :: "device \<Rightarrow> io_state \<Rightarrow> io_state" where
  "interrupt_lost d s = (case d of
     Timer_Dev \<Rightarrow> s\<lparr>io_tm := tm_interrupt_end (io_tm s)\<rparr>
   | External_Hd_Dev \<Rightarrow> s
   | Keyboard_Dev \<Rightarrow> s\<lparr>io_kb := (io_kb s)\<lparr>kb_must := True\<rparr>\<rparr>)"

definition lose_all :: "request list \<Rightarrow> io_state \<Rightarrow> io_state" where
  "lose_all rs s = fold (\<lambda>r. interrupt_lost (rq_dev r)) rs s"

definition pos_cycle :: "request list \<Rightarrow> io_state \<Rightarrow> io_state" where
  "pos_cycle rs s =
     (case pos_loop 0 rs (io_cpus s) of
        (cpus, Some w) \<Rightarrow>
          lose_all (drop (w + 1) rs) (lose_all (take w rs)
            (interrupt_win (rq_dev (rs ! w)) (s\<lparr>io_cpus := cpus\<rparr>)))
      | (cpus, None) \<Rightarrow> lose_all rs (s\<lparr>io_cpus := cpus\<rparr>))"

definition device_cycles :: "u16 \<Rightarrow> io_state \<Rightarrow> (io_state \<times> request list) res" where
  "device_cycles inp s =
     rbind (kb_cycle inp (io_kb s) []) (\<lambda>(k, rs1).
     rbind (hd_cycle (io_hd s) rs1 (io_fs s)) (\<lambda>(d, rs2, h).
     rbind (tm_cycle (length (io_cpus s)) (io_tm s) rs2) (\<lambda>(t, rs3).
       Inr (s\<lparr>io_kb := k, io_hd := d, io_fs := h, io_tm := t\<rparr>, rs3))))"

definition io_cycle :: "u16 \<Rightarrow> io_state \<Rightarrow> io_state res" where
  "io_cycle inp s = rbind (device_cycles inp s) (\<lambda>(s', rs). Inr (pos_cycle rs s'))"

section \<open>Transfers\<close>

lemma set_loop_value:
  assumes "c \<le> n" "n \<le> length src"
  shows "set_loop k c n src out = Inr (out @ take k (drop c (take n src)), if c + k \<le> n then c + k else n + 1)"
  using assms
proof (induction k arbitrary: c out)
  case (Suc k)
  show ?case
  proof (cases "c < n")
    case True
    then have "drop c (take n src) = src ! c # drop (Suc c) (take n src)"
      using Suc.prems(2) by (simp flip: Cons_nth_drop_Suc)
    then show ?thesis using Suc True by simp
  next
    case False
    then show ?thesis using Suc.prems by simp
  qed
qed simp

lemma lib_set_value:
  assumes "c \<le> n" "n \<le> length src"
  shows "lib_set k c n src = Inr (take k (drop c (take n src)), if c + k < n then c + k else 0, n \<le> c + k)"
  by (simp add: lib_set_def set_loop_value[OF assms])

lemma get_loop_value:
  assumes "c \<le> n" "n \<le> length dest"
  shows "get_loop bs c n dest =
     Inr (take c dest @ take (n - c) bs @ drop (c + length (take (n - c) bs)) dest,
          if c + length bs \<le> n then c + length bs else n + 1)"
  using assms
proof (induction bs arbitrary: c dest)
  case (Cons b bs)
  show ?case
  proof (cases "c < n")
    case True
    have "take (Suc c) (dest[c := b]) = take c dest @ [b]"
      using True Cons.prems(2) by (simp add: take_Suc_conv_app_nth)
    moreover have "take (n - c) (b # bs) = b # take (n - Suc c) bs"
      using True by (simp add: take_Cons')
    ultimately show ?thesis using Cons.IH[of "Suc c" "dest[c := b]"] Cons.prems(2) True by simp
  next
    case False
    then show ?thesis using Cons.prems by simp
  qed
qed simp

lemma lib_get_value:
  assumes "c \<le> n" "n \<le> length dest"
  shows "lib_get bs c n dest =
     Inr (take c dest @ take (n - c) bs @ drop (c + length (take (n - c) bs)) dest,
          if c + length bs < n then c + length bs else 0, n \<le> c + length bs)"
  by (simp add: lib_get_def get_loop_value[OF assms])

text \<open>Successive accesses to one port, of the given sizes; the bytes read are concatenated.\<close>

definition read_more :: "nat \<Rightarrow> nat \<Rightarrow> io_state \<times> u8 list \<Rightarrow> (io_state \<times> u8 list) res" where
  "read_more port sz = (\<lambda>(s, out). rbind (io_read port sz s) (\<lambda>(s', bs). Inr (s', out @ bs)))"

definition read_pieces :: "nat \<Rightarrow> nat list \<Rightarrow> io_state \<Rightarrow> (io_state \<times> u8 list) res" where
  "read_pieces port szs s = rfold (read_more port) szs (s, [])"

definition write_pieces :: "nat \<Rightarrow> u8 list list \<Rightarrow> io_state \<Rightarrow> io_state res" where
  "write_pieces port bss s = rfold (io_write 0 [] port) bss s"

lemma port_number [simp]: "port < 0x10000 \<Longrightarrow> \<not> IO_NUMBER_OF_ADDR \<le> port"
  by (simp add: IO_NUMBER_OF_ADDR_def)

lemma read_hd_idle:
  assumes "hd_get_state (io_hd s) \<noteq> WAIT_READ"
  shows "rfold (read_more 0x2001) szs (s, out) = Inr (s, out)"
  using assms by (induction szs) (simp_all add: read_more_def io_read_def hd_read_data_def)

lemma state_idle [simp]: "hd_get_state (d\<lparr>hd_state := IDLE\<rparr>) = IDLE"
  by (simp add: hd_get_state_def IDLE_def)

lemma drop_take_append: "drop c (take n xs) = take k (drop c (take n xs)) @ drop (c + k) (take n xs)"
  by (metis add.commute append_take_drop_id drop_drop)

lemma read_hd_pieces:
  assumes "hd_get_state (io_hd s) = WAIT_READ" "n = unat (hd_bytes (io_hd s))"
    "n \<le> length (hd_buffer (io_hd s))" "hd_buffer_count (io_hd s) = c" "c < n"
  shows "\<exists>s'. rfold (read_more 0x2001) szs (s, out)
             = Inr (s', out @ take (sum_list szs) (drop c (take n (hd_buffer (io_hd s)))))
          \<and> hd_get_state (io_hd s') = (if n \<le> c + sum_list szs then IDLE else WAIT_READ)
          \<and> hd_buffer_count (io_hd s') = (if n \<le> c + sum_list szs then 0 else c + sum_list szs)"
  using assms
proof (induction szs arbitrary: s c out)
  case Nil
  then show ?case by simp
next
  case (Cons k szs)
  let ?d = "io_hd s"
  let ?piece = "take k (drop c (take n (hd_buffer ?d)))"
  have rd: "hd_read_data k ?d = Inr (if n \<le> c + k then ?d\<lparr>hd_buffer_count := 0, hd_state := IDLE\<rparr>
      else ?d\<lparr>hd_buffer_count := c + k\<rparr>, ?piece)"
    using Cons.prems by (simp add: hd_read_data_def lib_set_value)
  let ?s = "s\<lparr>io_hd := if n \<le> c + k then ?d\<lparr>hd_buffer_count := 0, hd_state := IDLE\<rparr>
      else ?d\<lparr>hd_buffer_count := c + k\<rparr>\<rparr>"
  have step: "read_more 0x2001 k (s, out) = Inr (?s, out @ ?piece)"
    by (simp add: read_more_def io_read_def rd)
  show ?case
  proof (cases "n \<le> c + k")
    case True
    then have "take (k + sum_list szs) (drop c (take n (hd_buffer ?d))) = ?piece" by simp
    moreover have "IDLE \<noteq> WAIT_READ" by (simp add: IDLE_def WAIT_READ_def)
    ultimately show ?thesis using True by (simp add: step read_hd_idle)
  next
    case False
    have pre: "hd_get_state (io_hd ?s) = WAIT_READ" "n = unat (hd_bytes (io_hd ?s))"
      "n \<le> length (hd_buffer (io_hd ?s))" "hd_buffer_count (io_hd ?s) = c + k" "c + k < n"
      using Cons.prems False by (simp_all add: hd_get_state_def hd_bytes_def)
    have "take (k + sum_list szs) (drop c (take n (hd_buffer ?d)))
        = ?piece @ take (sum_list szs) (drop (c + k) (take n (hd_buffer ?d)))"
      by (simp add: take_add add.commute)
    then show ?thesis using Cons.IH[OF pre, of "out @ ?piece"] False
      by (cases "n \<le> c + (k + sum_list szs)") (simp_all add: step add.assoc)
  qed
qed

text \<open>C38: A sector that the disk has read is handed out through the data port byte for byte: however the
  reads of the port split it, they return the bytes of the sector in order, nothing after its end, and
  the disk goes back to idle exactly when the last byte is out.\<close>

theorem sector_drains:
  assumes "hd_get_state (io_hd s) = WAIT_READ" "hd_buffer_count (io_hd s) = 0"
    "0 < unat (hd_bytes (io_hd s))" "unat (hd_bytes (io_hd s)) \<le> length (hd_buffer (io_hd s))"
  shows "\<exists>s'. read_pieces 0x2001 szs s
             = Inr (s', take (sum_list szs) (take (unat (hd_bytes (io_hd s))) (hd_buffer (io_hd s))))
          \<and> (hd_get_state (io_hd s') = IDLE \<longleftrightarrow> unat (hd_bytes (io_hd s)) \<le> sum_list szs)"
proof -
  have "IDLE \<noteq> WAIT_READ" by (simp add: IDLE_def WAIT_READ_def)
  with read_hd_pieces[OF assms(1) refl assms(4,2,3), of szs "[]"] show ?thesis
    by (auto simp: read_pieces_def)
qed

lemma write_fbytes_empty:
  assumes "concat bss = []" "hd_fbytes_count (io_hd s) < 4" "length (hd_fbytes (io_hd s)) = 4"
  shows "rfold (io_write 0 [] 0x2002) bss s = Inr s"
  using assms(1)
proof (induction bss)
  case (Cons bs bss)
  with assms(2,3) have "io_write 0 [] 0x2002 bs s = Inr s"
    by (simp add: io_write_def hd_write_fbytes_def lib_get_value)
  with Cons show ?case by simp
qed simp

lemma write_fbytes_pieces:
  assumes "hd_fbytes_count (io_hd s) = c" "length (hd_fbytes (io_hd s)) = 4" "c < 4"
    "c + length (concat bss) \<le> 4"
  shows "rfold (io_write 0 [] 0x2002) bss s
    = Inr (s\<lparr>io_hd := (io_hd s)
        \<lparr>hd_fbytes := take c (hd_fbytes (io_hd s)) @ concat bss @ drop (c + length (concat bss)) (hd_fbytes (io_hd s)),
         hd_fbytes_count := if c + length (concat bss) < 4 then c + length (concat bss) else 0\<rparr>\<rparr>)"
  using assms
proof (induction bss arbitrary: s c)
  case Nil
  then show ?case by simp
next
  case (Cons bs bss)
  let ?f = "hd_fbytes (io_hd s)"
  let ?s = "s\<lparr>io_hd := (io_hd s)\<lparr>hd_fbytes := take c ?f @ bs @ drop (c + length bs) ?f,
         hd_fbytes_count := if c + length bs < 4 then c + length bs else 0\<rparr>\<rparr>"
  have step: "io_write 0 [] 0x2002 bs s = Inr ?s"
    using Cons.prems by (simp add: io_write_def hd_write_fbytes_def lib_get_value)
  show ?case
  proof (cases "c + length bs < 4")
    case True
    have tk: "take (c + length bs) (take c ?f @ bs @ drop (c + length bs) ?f) = take c ?f @ bs"
      and dr: "drop (c + length bs + m) (take c ?f @ bs @ drop (c + length bs) ?f) = drop (c + length bs + m) ?f"
      and len: "length (take c ?f @ bs @ drop (c + length bs) ?f) = 4" for m
      using True Cons.prems(2) by (simp_all add: add.commute)
    have "rfold (io_write 0 [] 0x2002) bss ?s = Inr (?s\<lparr>io_hd := (io_hd ?s)
        \<lparr>hd_fbytes := take c ?f @ bs @ concat bss @ drop (c + length bs + length (concat bss)) ?f,
         hd_fbytes_count := if c + length bs + length (concat bss) < 4 then c + length bs + length (concat bss) else 0\<rparr>\<rparr>)"
      using Cons.IH[of ?s "c + length bs"] Cons.prems(4) True len
      by (simp del: drop_append take_append length_append add: tk dr length_append[of bs "concat bss"])
    then show ?thesis by (simp add: step add.assoc)
  next
    case False
    then have "length (concat bss) = 0" using Cons.prems(4) unfolding concat.simps length_append by linarith
    then have "concat bss = []" by (simp only: length_0_conv)
    then show ?thesis using write_fbytes_empty[of bss ?s] Cons.prems False by (simp add: step)
  qed
qed

lemma read_fbytes_pieces:
  assumes "hd_fbytes_count (io_hd s) = c" "length (hd_fbytes (io_hd s)) = 4" "c < 4" "c + sum_list szs \<le> 4"
  shows "rfold (read_more 0x2002) szs (s, out)
    = Inr (s\<lparr>io_hd := (io_hd s)\<lparr>hd_fbytes_count := if c + sum_list szs < 4 then c + sum_list szs else 0\<rparr>\<rparr>,
           out @ take (sum_list szs) (drop c (hd_fbytes (io_hd s))))"
  using assms
proof (induction szs arbitrary: s c out)
  case Nil
  then show ?case by simp
next
  case (Cons k szs)
  let ?f = "hd_fbytes (io_hd s)"
  let ?s = "s\<lparr>io_hd := (io_hd s)\<lparr>hd_fbytes_count := if c + k < 4 then c + k else 0\<rparr>\<rparr>"
  have step: "read_more 0x2002 k (s, out) = Inr (?s, out @ take k (drop c ?f))"
    using Cons.prems by (simp add: read_more_def io_read_def hd_read_fbytes_def lib_set_value)
  have t: "take (k + sum_list szs) (drop c ?f) = take k (drop c ?f) @ take (sum_list szs) (drop (c + k) ?f)"
    by (simp add: take_add add.commute)
  show ?case
  proof (cases "c + k < 4")
    case True
    then show ?thesis
      using Cons.IH[of ?s "c + k" "out @ take k (drop c ?f)"] Cons.prems by (simp add: step t add.assoc)
  next
    case False
    then have "sum_list szs = 0" using Cons.prems(4) by (simp del: sum_list_eq_0_iff)
    then show ?thesis
      using Cons.IH[of ?s 0 "out @ take k (drop c ?f)"] Cons.prems False by (simp add: step)
  qed
qed

text \<open>The byte-count register of the disk can be written and read through its port in any pieces: four bytes written in any split set the register to their little-endian value, and reading
  it back in any other split returns the same bytes and leaves both counters reset.\<close>

lemma register_roundtrip:
  assumes "hd_fbytes_count (io_hd s) = 0" "length (hd_fbytes (io_hd s)) = 4"
    "length (concat bss) = 4" "sum_list szs = 4"
  shows "\<exists>s'. write_pieces 0x2002 bss s = Inr s' \<and> hd_bytes (io_hd s') = le_value (concat bss)
          \<and> hd_fbytes_count (io_hd s') = 0 \<and> read_pieces 0x2002 szs s' = Inr (s', concat bss)"
proof -
  let ?s = "s\<lparr>io_hd := (io_hd s)\<lparr>hd_fbytes := concat bss, hd_fbytes_count := 0\<rparr>\<rparr>"
  have "write_pieces 0x2002 bss s = Inr ?s"
    using write_fbytes_pieces[of s 0 bss] assms by (simp add: write_pieces_def)
  moreover have "read_pieces 0x2002 szs ?s = Inr (?s, concat bss)"
    using read_fbytes_pieces[of ?s 0 szs "[]"] assms by (simp add: read_pieces_def)
  ultimately show ?thesis by (simp add: hd_bytes_def)
qed

section \<open>Arbitration\<close>

text \<open>
  What the arbitration decides, without its loops: a request is deliverable when the processor it
  names has no pending interrupt, or, naming none, when some processor has none; the first
  deliverable request wins and all others lose.
\<close>

definition target :: "cpu_int list \<Rightarrow> request \<Rightarrow> nat option" where
  "target cpus r = (case rq_proc r of
     Some c \<Rightarrow> if has_int (cpus ! c) then None else Some c
   | None \<Rightarrow> List.find (\<lambda>i. \<not> has_int (cpus ! i)) [0..<length cpus])"

definition pending :: "u8 \<Rightarrow> nat \<Rightarrow> cpu_int list \<Rightarrow> cpu_int list" where
  "pending code i cpus = cpus[i := (cpus ! i)\<lparr>has_int := True, int_code := code\<rparr>]"

definition arbitrate :: "request list \<Rightarrow> io_state \<Rightarrow> io_state" where
  "arbitrate rs s = (case List.extract (\<lambda>r. target (io_cpus s) r \<noteq> None) rs of
     None \<Rightarrow> lose_all rs s
   | Some (as, r, bs) \<Rightarrow> lose_all bs (lose_all as (interrupt_win (rq_dev r)
       (s\<lparr>io_cpus := pending (rq_code r) (the (target (io_cpus s) r)) (io_cpus s)\<rparr>))))"

lemma offer_all_find:
  "offer_all code cs = (case List.find (\<lambda>i. \<not> has_int (cs ! i)) [0..<length cs] of
     None \<Rightarrow> (cs, False) | Some i \<Rightarrow> (pending code i cs, True))"
proof (induction cs)
  case (Cons c cs)
  have "List.find (\<lambda>i. \<not> has_int ((c # cs) ! i)) [0..<length (c # cs)]
      = (if has_int c then map_option Suc (List.find (\<lambda>i. \<not> has_int (cs ! i)) [0..<length cs]) else Some 0)"
  proof -
    have "[0..<length (c # cs)] = 0 # map Suc [0..<length cs]"
      by (simp add: map_Suc_upt upt_conv_Cons del: upt_Suc)
    moreover have "List.find P (map Suc xs) = map_option Suc (List.find (P \<circ> Suc) xs)" for P xs
      by (induction xs) simp_all
    ultimately show ?thesis by (simp add: comp_def)
  qed
  with Cons show ?case
    by (cases "has_int c")
      (simp_all add: set_external_interrupt_def pending_def split: option.split)
qed simp

lemma pos_loop_step:
  "pos_loop i (r # rs) cpus = (case target cpus r of
     None \<Rightarrow> pos_loop (i + 1) rs cpus | Some t \<Rightarrow> (pending (rq_code r) t cpus, Some i))"
  by (cases "rq_proc r")
    (simp_all add: target_def set_external_interrupt_def pending_def offer_all_find split: option.split)

lemma pos_loop_none: "\<forall>r \<in> set rs. target cpus r = None \<Longrightarrow> pos_loop i rs cpus = (cpus, None)"
  by (induction rs arbitrary: i) (simp_all add: pos_loop_step del: pos_loop.simps(2))

lemma pos_loop_some:
  assumes "\<forall>r \<in> set as. target cpus r = None" "target cpus r = Some t"
  shows "pos_loop i (as @ r # bs) cpus = (pending (rq_code r) t cpus, Some (i + length as))"
  using assms by (induction as arbitrary: i) (simp_all add: pos_loop_step del: pos_loop.simps(2))

text \<open>C34: The end-of-cycle loops of the interrupt controller deliver exactly the first deliverable request,
  to the first processor that can take it, tell its device that it won and every other device, in the
  order of the requests, that it lost; without a deliverable request all devices lose.\<close>

theorem pos_cycle_arbitrates: "pos_cycle rs s = arbitrate rs s"
proof (cases "List.extract (\<lambda>r. target (io_cpus s) r \<noteq> None) rs")
  case None
  then have "\<forall>r \<in> set rs. target (io_cpus s) r = None" by (simp add: extract_None_iff)
  then show ?thesis unfolding arbitrate_def None by (simp add: pos_cycle_def pos_loop_none)
next
  case (Some x)
  obtain as r bs where x: "x = (as, r, bs)" by (cases x)
  with Some have rs: "rs = as @ r # bs" and none: "\<forall>r \<in> set as. target (io_cpus s) r = None"
    and t: "\<exists>t. target (io_cpus s) r = Some t" by (auto simp: extract_Some_iff)
  from t obtain t where "target (io_cpus s) r = Some t" by blast
  with pos_loop_some[OF none this] show ?thesis
    unfolding arbitrate_def Some[unfolded x] by (simp add: pos_cycle_def rs)
qed

section \<open>The state after a cycle\<close>

lemma lose_all_fields:
  "io_kb (lose_all rs s) = (io_kb s)\<lparr>kb_must := kb_must (io_kb s) \<or> Keyboard_Dev \<in> rq_dev ` set rs\<rparr>"
  "io_hd (lose_all rs s) = io_hd s" "io_vd (lose_all rs s) = io_vd s"
  "io_fs (lose_all rs s) = io_fs s" "io_cpus (lose_all rs s) = io_cpus s"
  "Timer_Dev \<notin> rq_dev ` set rs \<Longrightarrow> io_tm (lose_all rs s) = io_tm s"
  "distinct (map rq_dev rs) \<Longrightarrow> Timer_Dev \<in> rq_dev ` set rs \<Longrightarrow> io_tm (lose_all rs s) = tm_interrupt_end (io_tm s)"
proof -
  have step: "lose_all (r # rs) s = lose_all rs (interrupt_lost (rq_dev r) s)" for r rs s
    by (simp add: lose_all_def)
  have nil: "lose_all [] s = s" for s by (simp add: lose_all_def)
  show "io_kb (lose_all rs s) = (io_kb s)\<lparr>kb_must := kb_must (io_kb s) \<or> Keyboard_Dev \<in> rq_dev ` set rs\<rparr>"
    by (induction rs arbitrary: s) (auto simp: nil step interrupt_lost_def split: device.split)
  show "io_hd (lose_all rs s) = io_hd s" "io_vd (lose_all rs s) = io_vd s"
    "io_fs (lose_all rs s) = io_fs s" "io_cpus (lose_all rs s) = io_cpus s"
    by (induction rs arbitrary: s) (auto simp: nil step interrupt_lost_def split: device.split)
  have none: "Timer_Dev \<notin> rq_dev ` set rs \<Longrightarrow> io_tm (lose_all rs s) = io_tm s" for rs s
    by (induction rs arbitrary: s) (auto simp: nil step interrupt_lost_def split: device.split)
  then show "Timer_Dev \<notin> rq_dev ` set rs \<Longrightarrow> io_tm (lose_all rs s) = io_tm s" by blast
  show "distinct (map rq_dev rs) \<Longrightarrow> Timer_Dev \<in> rq_dev ` set rs \<Longrightarrow> io_tm (lose_all rs s) = tm_interrupt_end (io_tm s)"
  proof (induction rs arbitrary: s)
    case (Cons r rs)
    show ?case
    proof (cases "rq_dev r = Timer_Dev")
      case True
      then have "Timer_Dev \<notin> rq_dev ` set rs" using Cons.prems(1) by auto
      then show ?thesis using True by (simp add: step none interrupt_lost_def)
    next
      case False
      then have "io_tm (interrupt_lost (rq_dev r) s) = io_tm s"
        by (simp add: interrupt_lost_def split: device.split)
      then show ?thesis using Cons False by (auto simp: step)
    qed
  qed simp
qed

definition delivered :: "request list \<Rightarrow> cpu_int list \<Rightarrow> device option" where
  "delivered rs cpus = map_option rq_dev (List.find (\<lambda>r. target cpus r \<noteq> None) rs)"

lemma delivered_cases:
  obtains (none) "delivered rs cpus = None" "\<forall>r \<in> set rs. target cpus r = None"
  | (some) as r bs t where "rs = as @ r # bs" "\<forall>r \<in> set as. target cpus r = None"
      "target cpus r = Some t" "delivered rs cpus = Some (rq_dev r)"
proof (cases "List.extract (\<lambda>r. target cpus r \<noteq> None) rs")
  case None
  then have "\<forall>r \<in> set rs. target cpus r = None" by (simp add: extract_None_iff)
  then show ?thesis by (intro none) (simp_all add: delivered_def find_None_iff)
next
  case (Some x)
  then obtain as r bs t where w: "rs = as @ r # bs" "\<forall>r \<in> set as. target cpus r = None"
      "target cpus r = Some t" by (cases x) (auto simp: extract_Some_iff)
  have "delivered (as @ r # bs) cpus = Some (rq_dev r)"
    using w(2,3) by (induction as) (simp_all add: delivered_def)
  with w show ?thesis by (intro some) simp_all
qed

lemma target_range:
  "target cpus r = Some t \<Longrightarrow> (\<And>c. rq_proc r = Some c \<Longrightarrow> c < length cpus) \<Longrightarrow> t < length cpus \<and> \<not> has_int (cpus ! t)"
  by (auto simp: target_def find_Some_iff split: option.splits if_splits)

lemma kb_must_same [simp]: "k\<lparr>kb_must := kb_must k\<rparr> = k"
  by (cases k) simp

lemma pos_cycle_fields:
  assumes "distinct (map rq_dev rs)"
  shows "io_kb (pos_cycle rs s) = (if Keyboard_Dev \<in> rq_dev ` set rs
            then (io_kb s)\<lparr>kb_must := delivered rs (io_cpus s) \<noteq> Some Keyboard_Dev\<rparr> else io_kb s)"
    and "io_hd (pos_cycle rs s) =
           (if delivered rs (io_cpus s) = Some External_Hd_Dev then hd_interrupt_win (io_hd s) else io_hd s)"
    and "io_tm (pos_cycle rs s) = (if Timer_Dev \<in> rq_dev ` set rs then tm_interrupt_end (io_tm s) else io_tm s)"
    and "io_fs (pos_cycle rs s) = io_fs s" and "io_vd (pos_cycle rs s) = io_vd s"
proof -
  consider (lost) "delivered rs (io_cpus s) = None" "pos_cycle rs s = lose_all rs s"
    | (won) as r bs cpus where "rs = as @ r # bs" "delivered rs (io_cpus s) = Some (rq_dev r)"
      "pos_cycle rs s = lose_all bs (lose_all as (interrupt_win (rq_dev r) (s\<lparr>io_cpus := cpus\<rparr>)))"
  proof (cases rule: delivered_cases[of rs "io_cpus s"])
    case none
    then show ?thesis using lost none by (simp add: pos_cycle_def pos_loop_none)
  next
    case (some as r bs t)
    with pos_loop_some[OF some(2,3), of 0 bs] show ?thesis using won by (simp add: pos_cycle_def)
  qed
  note cs = this
  have dn: "Timer_Dev \<notin> rq_dev ` set as \<or> Timer_Dev \<notin> rq_dev ` set bs"
    "rq_dev r \<notin> rq_dev ` set as \<and> rq_dev r \<notin> rq_dev ` set bs"
    "distinct (map rq_dev as) \<and> distinct (map rq_dev bs)" if "rs = as @ r # bs" for as r bs
    using assms unfolding that by (auto simp: set_eq_iff image_iff)
  show "io_fs (pos_cycle rs s) = io_fs s" "io_vd (pos_cycle rs s) = io_vd s"
    using cs by (cases; auto simp: lose_all_fields interrupt_win_def split: device.split)+
  show "io_hd (pos_cycle rs s) =
      (if delivered rs (io_cpus s) = Some External_Hd_Dev then hd_interrupt_win (io_hd s) else io_hd s)"
    using cs by cases (auto simp: lose_all_fields interrupt_win_def split: device.split)
  show "io_kb (pos_cycle rs s) = (if Keyboard_Dev \<in> rq_dev ` set rs
      then (io_kb s)\<lparr>kb_must := delivered rs (io_cpus s) \<noteq> Some Keyboard_Dev\<rparr> else io_kb s)"
    using cs
  proof cases
    case (won as r bs cpus)
    with dn(2)[OF won(1)] show ?thesis
      by (cases "rq_dev r"; cases "Keyboard_Dev \<in> rq_dev ` set as"; cases "Keyboard_Dev \<in> rq_dev ` set bs")
        (simp_all add: lose_all_fields interrupt_win_def image_Un)
  qed (simp add: lose_all_fields)
  show "io_tm (pos_cycle rs s) = (if Timer_Dev \<in> rq_dev ` set rs then tm_interrupt_end (io_tm s) else io_tm s)"
    using cs
  proof cases
    case (won as r bs cpus)
    with dn[OF won(1)] show ?thesis
      by (cases "rq_dev r"; cases "Timer_Dev \<in> rq_dev ` set as"; cases "Timer_Dev \<in> rq_dev ` set bs")
        (simp_all add: lose_all_fields interrupt_win_def image_Un)
  qed (simp add: lose_all_fields assms)
qed

text \<open>Which devices ask for an interrupt in a cycle, and what the state satisfies between cycles.\<close>

definition kb_asks :: "u16 \<Rightarrow> keyboard \<Rightarrow> bool" where
  "kb_asks inp k \<longleftrightarrow> kb_must k \<or> kb_state k AND HAS_KEY = 0 \<and> there_is_input inp"

definition hd_busy :: "hd \<Rightarrow> bool" where
  "hd_busy d \<longleftrightarrow> hd_get_state d = READING \<or> hd_get_state d = WRITTING"

definition hd_asks :: "hd \<Rightarrow> bool" where
  "hd_asks d \<longleftrightarrow> hd_must d \<or> hd_busy d \<and> hd_delay d = 0"

definition tm_asks :: "timer \<Rightarrow> bool" where
  "tm_asks t \<longleftrightarrow> tm_counter t > tm_max t"

definition asked :: "u16 \<Rightarrow> io_state \<Rightarrow> request list" where
  "asked inp s =
     (if kb_asks inp (io_kb s) then [\<lparr>rq_dev = Keyboard_Dev, rq_proc = None, rq_code = code_keyboard\<rparr>] else [])
     @ (if hd_asks (io_hd s) then [\<lparr>rq_dev = External_Hd_Dev, rq_proc = None, rq_code = code_external_hd\<rparr>] else [])
     @ (if tm_asks (io_tm s)
        then [\<lparr>rq_dev = Timer_Dev, rq_proc = Some (unat (tm_cpu (io_tm s))), rq_code = code_timer\<rparr>] else [])"

definition hd_ok :: "hd \<Rightarrow> host_fs \<Rightarrow> bool" where
  "hd_ok d h \<longleftrightarrow> length (hd_buffer d) = SECTOR_SIZE
     \<and> (hd_busy d \<longrightarrow> fs_streams h (hd_file d) \<noteq> None \<and> unat (hd_bytes d) \<le> SECTOR_SIZE)"

definition tm_ok :: "nat \<Rightarrow> timer \<Rightarrow> bool" where
  "tm_ok n t \<longleftrightarrow> unat (tm_ncpus t) = n \<and> unat (tm_cpu t) < n"

definition io_inv :: "io_state \<Rightarrow> bool" where
  "io_inv s \<longleftrightarrow> hd_ok (io_hd s) (io_fs s) \<and> tm_ok (length (io_cpus s)) (io_tm s)"

lemma asked_distinct: "distinct (map rq_dev (asked inp s))"
  by (simp add: asked_def)

lemma asked_devices:
  "Keyboard_Dev \<in> rq_dev ` set (asked inp s) \<longleftrightarrow> kb_asks inp (io_kb s)"
  "External_Hd_Dev \<in> rq_dev ` set (asked inp s) \<longleftrightarrow> hd_asks (io_hd s)"
  "Timer_Dev \<in> rq_dev ` set (asked inp s) \<longleftrightarrow> tm_asks (io_tm s)"
  by (auto simp: asked_def)

definition kb_after :: "u16 \<Rightarrow> keyboard \<Rightarrow> keyboard" where
  "kb_after inp k = (if \<not> kb_must k \<and> kb_asks inp k
     then k\<lparr>kb_state := kb_state k OR HAS_KEY, kb_data := ucast inp\<rparr> else k)"

lemma kb_cycle_value:
  "length rs < 3 \<Longrightarrow> kb_cycle inp k rs = Inr (kb_after inp k, rs @
     (if kb_asks inp k then [\<lparr>rq_dev = Keyboard_Dev, rq_proc = None, rq_code = code_keyboard\<rparr>] else []))"
  by (simp add: kb_cycle_def kb_after_def kb_asks_def request_int_def max_int_devices_def)

lemma tm_cycle_value:
  "length rs < 3 \<Longrightarrow> tm_ok n t \<Longrightarrow> tm_cycle n t rs
     = Inr (t\<lparr>tm_counter := tm_counter t + 1, tm_must := tm_must t \<or> tm_asks t\<rparr>, rs @
     (if tm_asks t then [\<lparr>rq_dev = Timer_Dev, rq_proc = Some (unat (tm_cpu t)), rq_code = code_timer\<rparr>] else []))"
  by (cases t) (simp add: tm_cycle_def Let_def tm_asks_def request_int_cpu_def max_int_devices_def tm_ok_def)

lemma hd_bytes_set [simp]: "hd_bytes (hd_set_bytes n d) = of_nat n"
proof -
  have "take_bit (8 * 4) (of_nat n :: u32) = of_nat n"
    by (rule bit_word_eqI) (simp add: bit_take_bit_iff)
  then show ?thesis by (simp add: hd_bytes_def hd_set_bytes_def le_value_bytes)
qed

lemma hd_set_bytes_fields [simp]:
  "hd_buffer (hd_set_bytes n d) = hd_buffer d" "hd_state (hd_set_bytes n d) = hd_state d"
  "hd_must (hd_set_bytes n d) = hd_must d" "hd_file (hd_set_bytes n d) = hd_file d"
  "hd_delay (hd_set_bytes n d) = hd_delay d" "hd_buffer_count (hd_set_bytes n d) = hd_buffer_count d"
  by (simp_all add: hd_set_bytes_def)

lemma hd_bytes_frame [simp]:
  "hd_bytes (d\<lparr>hd_buffer := b\<rparr>) = hd_bytes d" "hd_bytes (d\<lparr>hd_state := st\<rparr>) = hd_bytes d"
  "hd_bytes (d\<lparr>hd_must := m\<rparr>) = hd_bytes d" "hd_bytes (d\<lparr>hd_delay := k\<rparr>) = hd_bytes d"
  by (simp_all add: hd_bytes_def)

lemma hd_state_frame [simp]:
  "hd_get_state (d\<lparr>hd_buffer := b\<rparr>) = hd_get_state d" "hd_get_state (d\<lparr>hd_must := m\<rparr>) = hd_get_state d"
  "hd_get_state (d\<lparr>hd_delay := k\<rparr>) = hd_get_state d" "hd_get_state (hd_set_bytes n d) = hd_get_state d"
  by (simp_all add: hd_get_state_def)

lemma hd_state_set [simp]:
  "hd_get_state (d\<lparr>hd_state := WAIT_READ\<rparr>) = WAIT_READ" "hd_get_state (d\<lparr>hd_state := READING\<rparr>) = READING"
  "hd_get_state (d\<lparr>hd_state := WRITTING\<rparr>) = WRITTING"
  by (simp_all add: hd_get_state_def hd_states)

lemma hd_states_distinct [simp]:
  "READING \<noteq> WRITTING" "WRITTING \<noteq> READING" "WAIT_READ \<noteq> READING" "WAIT_READ \<noteq> WRITTING"
  "IDLE \<noteq> READING" "IDLE \<noteq> WRITTING" "IDLE \<noteq> WAIT_READ" "WAIT_READ \<noteq> IDLE"
  by (simp_all add: hd_states)

lemma hd_cycle_quiet:
  "\<not> hd_asks d \<Longrightarrow> hd_cycle d rs h = Inr (if hd_busy d then d\<lparr>hd_delay := hd_delay d - 1\<rparr> else d, rs, h)"
  by (auto simp: hd_cycle_def hd_asks_def hd_busy_def Let_def)

text \<open>What the disk has after the transfer that \<open>fread\<close> makes.\<close>

definition fetched :: "hd \<Rightarrow> host_fs \<Rightarrow> u8 list" where
  "fetched d h = (case fs_streams h (hd_file d) of
     None \<Rightarrow> [] | Some (name, pos) \<Rightarrow> take (unat (hd_bytes d)) (drop pos (fs_content name h)))"

lemma hd_cycle_read:
  assumes "\<not> hd_must d" "hd_get_state d = READING" "hd_delay d = 0" "hd_ok d h" "length rs < 3"
  shows "\<exists>d' h'. hd_cycle d rs h
      = Inr (d', rs @ [\<lparr>rq_dev = External_Hd_Dev, rq_proc = None, rq_code = code_external_hd\<rparr>], h')
    \<and> hd_get_state d' = (if fetched d h = [] then IDLE else WAIT_READ) \<and> hd_must d'
    \<and> unat (hd_bytes d') = length (fetched d h)
    \<and> hd_buffer d' = fetched d h @ drop (length (fetched d h)) (hd_buffer d)
    \<and> hd_buffer_count d' = hd_buffer_count d"
proof -
  obtain name pos where st: "fs_streams h (hd_file d) = Some (name, pos)"
    and b: "unat (hd_bytes d) \<le> SECTOR_SIZE" "length (hd_buffer d) = SECTOR_SIZE"
    using assms by (auto simp: hd_ok_def hd_busy_def)
  have f: "fetched d h = take (unat (hd_bytes d)) (drop pos (fs_content name h))"
    by (simp add: fetched_def st)
  have len: "length (fetched d h) \<le> SECTOR_SIZE" using b by (simp add: f)
  then have "unat (of_nat (length (fetched d h)) :: u32) = length (fetched d h)"
    by (simp add: unat_of_nat take_bit_nat_eq_self SECTOR_SIZE_def)
  then show ?thesis using assms st b len
    by (auto simp: hd_cycle_def Let_def fs_fread_def f[symmetric] request_int_def max_int_devices_def)
qed

lemma hd_cycle_ok:
  assumes "length rs < 3" "hd_ok d h"
  shows "\<exists>d' h'. hd_cycle d rs h = Inr (d', rs @
      (if hd_asks d then [\<lparr>rq_dev = External_Hd_Dev, rq_proc = None, rq_code = code_external_hd\<rparr>] else []), h')
    \<and> hd_ok d' h' \<and> (hd_asks d \<longrightarrow> hd_must d')"
proof -
  consider (quiet) "\<not> hd_asks d" | (must) "hd_must d"
    | (read) "\<not> hd_must d" "hd_get_state d = READING" "hd_delay d = 0"
    | (wr) "\<not> hd_must d" "hd_get_state d = WRITTING" "hd_delay d = 0"
    by (auto simp: hd_asks_def hd_busy_def)
  then show ?thesis
  proof cases
    case quiet
    then show ?thesis using assms(2) by (auto simp: hd_cycle_quiet hd_ok_def hd_busy_def)
  next
    case must
    then show ?thesis using assms
      by (simp add: hd_cycle_def hd_asks_def request_int_def max_int_devices_def)
  next
    case read
    then obtain d' h' where r: "hd_cycle d rs h
        = Inr (d', rs @ [\<lparr>rq_dev = External_Hd_Dev, rq_proc = None, rq_code = code_external_hd\<rparr>], h')"
      "hd_get_state d' = (if fetched d h = [] then IDLE else WAIT_READ)" "hd_must d'"
      "hd_buffer d' = fetched d h @ drop (length (fetched d h)) (hd_buffer d)"
      using hd_cycle_read assms by blast
    have "length (fetched d h) \<le> SECTOR_SIZE"
      using assms(2) read by (auto simp: fetched_def hd_ok_def hd_busy_def split: option.split)
    then show ?thesis using r read assms(2) by (auto simp: hd_ok_def hd_busy_def hd_asks_def)
  next
    case wr
    then obtain name pos where "fs_streams h (hd_file d) = Some (name, pos)"
      using assms(2) by (auto simp: hd_ok_def hd_busy_def)
    with wr assms show ?thesis
      by (simp add: hd_cycle_def Let_def fs_fwrite_def request_int_def max_int_devices_def hd_ok_def
          hd_busy_def hd_asks_def)
  qed
qed

definition tm_after :: "timer \<Rightarrow> timer" where
  "tm_after t = t\<lparr>tm_counter := tm_counter t + 1, tm_must := tm_must t \<or> tm_asks t\<rparr>"

lemma io_cycle_value:
  assumes "io_inv s"
  obtains d h rs where "length rs < 3" "hd_cycle (io_hd s) rs (io_fs s) = Inr (d, rs @
      (if hd_asks (io_hd s) then [\<lparr>rq_dev = External_Hd_Dev, rq_proc = None, rq_code = code_external_hd\<rparr>] else []), h)"
    "hd_ok d h" "hd_asks (io_hd s) \<longrightarrow> hd_must d"
    "io_cycle inp s = Inr (pos_cycle (asked inp s)
       (s\<lparr>io_kb := kb_after inp (io_kb s), io_hd := d, io_fs := h, io_tm := tm_after (io_tm s)\<rparr>))"
proof -
  let ?rs = "if kb_asks inp (io_kb s) then [\<lparr>rq_dev = Keyboard_Dev, rq_proc = None, rq_code = code_keyboard\<rparr>] else []"
  let ?hq = "if hd_asks (io_hd s) then [\<lparr>rq_dev = External_Hd_Dev, rq_proc = None, rq_code = code_external_hd\<rparr>] else []"
  have inv: "hd_ok (io_hd s) (io_fs s)" "tm_ok (length (io_cpus s)) (io_tm s)" and "length ?rs < 3"
    using assms by (simp_all add: io_inv_def)
  then obtain d h where d: "hd_cycle (io_hd s) ?rs (io_fs s) = Inr (d, ?rs @ ?hq, h)"
    "hd_ok d h" "hd_asks (io_hd s) \<longrightarrow> hd_must d"
    using hd_cycle_ok[of ?rs] by blast
  have "length (?rs @ ?hq) < 3" by simp
  from tm_cycle_value[OF this inv(2)] d(1)
  have "io_cycle inp s = Inr (pos_cycle (asked inp s)
       (s\<lparr>io_kb := kb_after inp (io_kb s), io_hd := d, io_fs := h, io_tm := tm_after (io_tm s)\<rparr>))"
    by (simp only: io_cycle_def device_cycles_def kb_cycle_value[of "[]"] list.size(3) append_Nil rbind_simps
        prod.case asked_def append_assoc tm_after_def zero_less_numeral)
  with d \<open>length ?rs < 3\<close> that show thesis by blast
qed

lemma tm_ok_after:
  "tm_ok n t \<Longrightarrow> tm_ok n (tm_after t)" "tm_ok n t \<Longrightarrow> tm_ok n (tm_interrupt_end t)"
  by (auto simp: tm_ok_def tm_after_def tm_interrupt_end_def unat_mod)

lemma pos_cycle_cpus:
  assumes "\<And>r c. r \<in> set rs \<Longrightarrow> rq_proc r = Some c \<Longrightarrow> c < length (io_cpus s)"
  shows "case delivered rs (io_cpus s) of
           None \<Rightarrow> io_cpus (pos_cycle rs s) = io_cpus s
         | Some d \<Rightarrow> \<exists>r i. r \<in> set rs \<and> rq_dev r = d \<and> i < length (io_cpus s) \<and> \<not> has_int (io_cpus s ! i)
             \<and> io_cpus (pos_cycle rs s) = pending (rq_code r) i (io_cpus s)"
proof (cases rule: delivered_cases[of rs "io_cpus s"])
  case none
  then show ?thesis by (simp add: pos_cycle_def pos_loop_none lose_all_fields)
next
  case (some as r bs t)
  have "t < length (io_cpus s) \<and> \<not> has_int (io_cpus s ! t)"
    using assms[of r] some(1) by (intro target_range[OF some(3)]) simp
  moreover have "io_cpus (pos_cycle rs s) = pending (rq_code r) t (io_cpus s)"
    using pos_loop_some[OF some(2,3), of 0 bs]
    by (simp add: pos_cycle_def some(1) lose_all_fields interrupt_win_def split: device.split)
  ultimately show ?thesis using some(1,4) by auto
qed

lemma asked_procs: "io_inv s \<Longrightarrow> r \<in> set (asked inp s) \<Longrightarrow> rq_proc r = Some c \<Longrightarrow> c < length (io_cpus s)"
  by (auto simp: asked_def io_inv_def tm_ok_def split: if_splits)

lemma io_cycle_steps:
  assumes "io_inv s"
  shows "\<exists>s'. io_cycle inp s = Inr s' \<and> io_inv s' \<and> length (asked inp s) \<le> max_int_devices \<and>
      (io_cpus s' = io_cpus s \<or> (\<exists>i code. i < length (io_cpus s) \<and> \<not> has_int (io_cpus s ! i)
          \<and> io_cpus s' = pending code i (io_cpus s)))"
proof -
  obtain d h where d: "hd_ok d h" "io_cycle inp s = Inr (pos_cycle (asked inp s)
       (s\<lparr>io_kb := kb_after inp (io_kb s), io_hd := d, io_fs := h, io_tm := tm_after (io_tm s)\<rparr>))"
    by (rule io_cycle_value[OF assms])
  define s1 where "s1 = s\<lparr>io_kb := kb_after inp (io_kb s), io_hd := d, io_fs := h, io_tm := tm_after (io_tm s)\<rparr>"
  define s2 where "s2 = pos_cycle (asked inp s) s1"
  have c: "io_cpus s2 = io_cpus s \<or> (\<exists>i code. i < length (io_cpus s) \<and> \<not> has_int (io_cpus s ! i)
          \<and> io_cpus s2 = pending code i (io_cpus s))"
    using pos_cycle_cpus[of "asked inp s" s1] asked_procs[OF assms]
    unfolding s2_def by (auto simp: s1_def split: option.splits)
  then have "length (io_cpus s2) = length (io_cpus s)" by (auto simp: pending_def)
  moreover have "hd_ok (io_hd s2) (io_fs s2)"
    using d(1) by (simp add: s2_def pos_cycle_fields[OF asked_distinct] s1_def hd_interrupt_win_def hd_ok_def hd_busy_def hd_bytes_def)
  ultimately have "io_inv s2" using assms tm_ok_after
    by (simp add: io_inv_def s2_def pos_cycle_fields[OF asked_distinct] s1_def)
  moreover have "length (asked inp s) \<le> max_int_devices" by (simp add: asked_def max_int_devices_def)
  ultimately show ?thesis using c d(2) by (auto simp: s2_def s1_def)
qed


lemma delivered_asked: "delivered (asked inp s) cpus = Some d \<Longrightarrow> d \<in> rq_dev ` set (asked inp s)"
  by (auto simp: delivered_def find_Some_iff)

lemma kb_asks_must: "\<not> kb_asks inp k \<Longrightarrow> \<not> kb_must k"
  by (simp add: kb_asks_def)

lemma request_outcome:
  assumes "io_inv s" "io_cycle inp s = Inr s'"
  shows "kb_asks inp (io_kb s) \<Longrightarrow>
           (\<exists>i < length (io_cpus s). \<not> has_int (io_cpus s ! i) \<and> io_cpus s' = pending code_keyboard i (io_cpus s))
           \<or> kb_asks inp' (io_kb s') \<and> (\<forall>i < length (io_cpus s). has_int (io_cpus s ! i))"
    and "hd_asks (io_hd s) \<Longrightarrow>
           (\<exists>i < length (io_cpus s). \<not> has_int (io_cpus s ! i) \<and> io_cpus s' = pending code_external_hd i (io_cpus s))
           \<or> hd_asks (io_hd s')"
proof -
  obtain d h where d: "hd_asks (io_hd s) \<longrightarrow> hd_must d" "io_cycle inp s = Inr (pos_cycle (asked inp s)
       (s\<lparr>io_kb := kb_after inp (io_kb s), io_hd := d, io_fs := h, io_tm := tm_after (io_tm s)\<rparr>))"
    by (rule io_cycle_value[OF assms(1)])
  define s1 where "s1 = s\<lparr>io_kb := kb_after inp (io_kb s), io_hd := d, io_fs := h, io_tm := tm_after (io_tm s)\<rparr>"
  have s': "s' = pos_cycle (asked inp s) s1" using d(2) assms(2) by (simp add: s1_def)
  have cp: "io_cpus s1 = io_cpus s" by (simp add: s1_def)
  have del: "case delivered (asked inp s) (io_cpus s) of None \<Rightarrow> io_cpus s' = io_cpus s
      | Some dv \<Rightarrow> \<exists>r i. r \<in> set (asked inp s) \<and> rq_dev r = dv \<and> i < length (io_cpus s)
          \<and> \<not> has_int (io_cpus s ! i) \<and> io_cpus s' = pending (rq_code r) i (io_cpus s)"
    unfolding s' by (rule pos_cycle_cpus[of "asked inp s" s1, unfolded cp]) (rule asked_procs[OF assms(1)])
  {
    assume k: "kb_asks inp (io_kb s)"
    have "io_kb s' = (kb_after inp (io_kb s))\<lparr>kb_must := delivered (asked inp s) (io_cpus s) \<noteq> Some Keyboard_Dev\<rparr>"
      using k by (simp add: s' pos_cycle_fields[OF asked_distinct] asked_devices cp) (simp add: s1_def)
    moreover have "delivered (asked inp s) (io_cpus s) = Some Keyboard_Dev
        \<or> (\<forall>i < length (io_cpus s). has_int (io_cpus s ! i))"
      using k by (auto simp: delivered_def asked_def target_def find_None_iff)
    moreover have "rq_code r = code_keyboard" if "r \<in> set (asked inp s)" "rq_dev r = Keyboard_Dev" for r
      using that by (auto simp: asked_def split: if_splits)
    ultimately show "(\<exists>i < length (io_cpus s). \<not> has_int (io_cpus s ! i) \<and> io_cpus s' = pending code_keyboard i (io_cpus s))
           \<or> kb_asks inp' (io_kb s') \<and> (\<forall>i < length (io_cpus s). has_int (io_cpus s ! i))"
      using del by (cases "delivered (asked inp s) (io_cpus s) = Some Keyboard_Dev") (fastforce simp: kb_asks_def)+
  next
    assume k: "hd_asks (io_hd s)"
    then have "delivered (asked inp s) (io_cpus s) \<noteq> Some External_Hd_Dev \<Longrightarrow> hd_must (io_hd s')"
      using d(1) by (simp add: s' pos_cycle_fields[OF asked_distinct] cp) (simp add: s1_def)
    moreover have "rq_code r = code_external_hd" if "r \<in> set (asked inp s)" "rq_dev r = External_Hd_Dev" for r
      using that by (auto simp: asked_def split: if_splits)
    ultimately show "(\<exists>i < length (io_cpus s). \<not> has_int (io_cpus s ! i) \<and> io_cpus s' = pending code_external_hd i (io_cpus s))
           \<or> hd_asks (io_hd s')"
      using del by (cases "delivered (asked inp s) (io_cpus s) = Some External_Hd_Dev") (fastforce simp: hd_asks_def)+
  }
qed

text \<open>C21: The keyboard and the disk never lose an interrupt: in a cycle in which one of them asks, either a
  processor without a pending interrupt receives its code, or the device asks again in the next cycle.
  The keyboard, asked first, is always served when some processor is free.\<close>

theorem requests_are_kept:
  assumes "io_inv s" "io_cycle inp s = Inr s'"
  shows "(kb_asks inp (io_kb s) \<longrightarrow>
           (\<exists>i < length (io_cpus s). \<not> has_int (io_cpus s ! i) \<and> io_cpus s' = pending code_keyboard i (io_cpus s))
           \<or> kb_asks inp' (io_kb s') \<and> (\<forall>i < length (io_cpus s). has_int (io_cpus s ! i)))
       \<and> (hd_asks (io_hd s) \<longrightarrow>
           (\<exists>i < length (io_cpus s). \<not> has_int (io_cpus s ! i) \<and> io_cpus s' = pending code_external_hd i (io_cpus s))
           \<or> hd_asks (io_hd s'))"
  using request_outcome[OF assms] by blast

section \<open>Delays and periods\<close>

definition io_run :: "u16 list \<Rightarrow> io_state \<Rightarrow> io_state res" where
  "io_run inps s = rfold io_cycle inps s"

lemma hd_wait_cycle:
  assumes "io_inv s" "\<not> hd_asks (io_hd s)" "hd_busy (io_hd s)"
  shows "\<exists>s'. io_cycle inp s = Inr s' \<and> io_inv s'
    \<and> io_hd s' = (io_hd s)\<lparr>hd_delay := hd_delay (io_hd s) - 1\<rparr> \<and> io_fs s' = io_fs s"
proof -
  obtain d h rs where d: "hd_cycle (io_hd s) rs (io_fs s) = Inr (d, rs @
      (if hd_asks (io_hd s) then [\<lparr>rq_dev = External_Hd_Dev, rq_proc = None, rq_code = code_external_hd\<rparr>] else []), h)"
    "io_cycle inp s = Inr (pos_cycle (asked inp s)
       (s\<lparr>io_kb := kb_after inp (io_kb s), io_hd := d, io_fs := h, io_tm := tm_after (io_tm s)\<rparr>))"
    by (rule io_cycle_value[OF assms(1)])
  have q: "d = (io_hd s)\<lparr>hd_delay := hd_delay (io_hd s) - 1\<rparr>" "h = io_fs s"
    using d(1) assms(2,3) by (simp_all add: hd_cycle_quiet)
  have nd: "delivered (asked inp s) cpus \<noteq> Some External_Hd_Dev" for cpus
    using delivered_asked[of inp s cpus] assms(2) asked_devices(2)[of inp s] by blast
  obtain s' where "io_cycle inp s = Inr s'" "io_inv s'" using io_cycle_steps[OF assms(1)] by blast
  then show ?thesis using d(2) by (auto simp: q pos_cycle_fields[OF asked_distinct] nd)
qed

lemma hd_waits:
  assumes "io_inv s" "\<not> hd_must (io_hd s)" "hd_busy (io_hd s)" "length inps \<le> unat (hd_delay (io_hd s))"
  shows "\<exists>s' k. io_run inps s = Inr s' \<and> io_inv s' \<and> io_hd s' = (io_hd s)\<lparr>hd_delay := k\<rparr>
    \<and> unat k = unat (hd_delay (io_hd s)) - length inps \<and> io_fs s' = io_fs s"
  using assms
proof (induction inps arbitrary: s)
  case Nil
  then show ?case by (auto simp: io_run_def intro: exI[of _ "hd_delay (io_hd s)"])
next
  case (Cons inp inps)
  have pos: "0 < unat (hd_delay (io_hd s))" using Cons.prems(4) by simp
  then have "hd_delay (io_hd s) \<noteq> 0" by auto
  then have "\<not> hd_asks (io_hd s)" using Cons.prems(2) by (simp add: hd_asks_def)
  then obtain t where t: "io_cycle inp s = Inr t" "io_inv t"
    "io_hd t = (io_hd s)\<lparr>hd_delay := hd_delay (io_hd s) - 1\<rparr>" "io_fs t = io_fs s"
    using hd_wait_cycle Cons.prems by blast
  have "length inps \<le> unat (hd_delay (io_hd t))"
    using Cons.prems(4) by (simp add: t(3) unat_pred[OF pos])
  then obtain s' k where "io_run inps t = Inr s'" "io_inv s'" "io_hd s' = (io_hd t)\<lparr>hd_delay := k\<rparr>"
    "unat k = unat (hd_delay (io_hd t)) - length inps" "io_fs s' = io_fs t"
    using Cons.IH[of t] t Cons.prems(2,3) by (auto simp: hd_busy_def)
  then show ?case using t by (auto simp: io_run_def unat_pred[OF pos])
qed

lemma hd_read_cycle:
  assumes "io_inv s" "\<not> hd_must (io_hd s)" "hd_get_state (io_hd s) = READING" "hd_delay (io_hd s) = 0"
  shows "\<exists>s'. io_cycle inp s = Inr s'
    \<and> hd_get_state (io_hd s') = (if fetched (io_hd s) (io_fs s) = [] then IDLE else WAIT_READ)
    \<and> take (unat (hd_bytes (io_hd s'))) (hd_buffer (io_hd s')) = fetched (io_hd s) (io_fs s)
    \<and> unat (hd_bytes (io_hd s')) = length (fetched (io_hd s) (io_fs s))
    \<and> hd_buffer_count (io_hd s') = hd_buffer_count (io_hd s)"
proof -
  obtain d h rs where r: "length rs < 3" "hd_cycle (io_hd s) rs (io_fs s) = Inr (d, rs @
      (if hd_asks (io_hd s) then [\<lparr>rq_dev = External_Hd_Dev, rq_proc = None, rq_code = code_external_hd\<rparr>] else []), h)"
    and c: "io_cycle inp s = Inr (pos_cycle (asked inp s)
       (s\<lparr>io_kb := kb_after inp (io_kb s), io_hd := d, io_fs := h, io_tm := tm_after (io_tm s)\<rparr>))"
    by (rule io_cycle_value[OF assms(1)])
  have "hd_ok (io_hd s) (io_fs s)" using assms(1) by (simp add: io_inv_def)
  from hd_cycle_read[OF assms(2-4) this r(1)] r(2)
  have "hd_get_state d = (if fetched (io_hd s) (io_fs s) = [] then IDLE else WAIT_READ)"
    "hd_buffer d = fetched (io_hd s) (io_fs s) @ drop (length (fetched (io_hd s) (io_fs s))) (hd_buffer (io_hd s))"
    "unat (hd_bytes d) = length (fetched (io_hd s) (io_fs s))" "hd_buffer_count d = hd_buffer_count (io_hd s)"
    by auto
  then show ?thesis
    by (simp add: c pos_cycle_fields[OF asked_distinct] hd_interrupt_win_def)
qed

text \<open>A sector read takes its configured time and fetches what the file has: after the read command the
  disk is still reading for exactly \<open>delay\<close> cycles, the product of the byte count and the delay per byte,
  whatever the other devices do, and in the next cycle the bytes at the position of the file are in its
  buffer, ready for the data port; at the end of the file it is idle again instead.\<close>

lemma read_takes_its_delay:
  assumes "io_inv s" "\<not> hd_must (io_hd s)" "hd_get_state (io_hd s) = IDLE"
    "fs_streams (io_fs s) (hd_file (io_hd s)) = Some (name, pos)" "unat (hd_bytes (io_hd s)) \<le> SECTOR_SIZE"
    "length inps = unat (hd_read_delay (io_hd s) * hd_bytes (io_hd s))"
  shows "\<exists>s1 s2 s3. io_write 0 [] 0x2000 [4] s = Inr s1 \<and> io_run inps s1 = Inr s2
      \<and> hd_get_state (io_hd s2) = READING \<and> io_cycle inp s2 = Inr s3
      \<and> take (unat (hd_bytes (io_hd s3))) (hd_buffer (io_hd s3))
          = take (unat (hd_bytes (io_hd s))) (drop pos (fs_content name (io_fs s)))
      \<and> hd_get_state (io_hd s3) = (if unat (hd_bytes (io_hd s3)) = 0 then IDLE else WAIT_READ)"
proof -
  define s1 where "s1 = s\<lparr>io_hd := (io_hd s)\<lparr>hd_delay := hd_read_delay (io_hd s) * hd_bytes (io_hd s), hd_state := READING\<rparr>\<rparr>"
  have w: "io_write 0 [] 0x2000 [4] s = Inr s1"
    using assms(3) by (simp add: io_write_def first_byte_def hd_write_cmd_def s1_def)
  have "io_inv s1" "\<not> hd_must (io_hd s1)" "hd_busy (io_hd s1)" "length inps \<le> unat (hd_delay (io_hd s1))"
    using assms by (simp_all add: s1_def io_inv_def hd_ok_def hd_busy_def)
  then obtain s2 k where s2: "io_run inps s1 = Inr s2" "io_inv s2" "io_hd s2 = (io_hd s1)\<lparr>hd_delay := k\<rparr>"
    "unat k = 0" "io_fs s2 = io_fs s1"
    using hd_waits[of s1 inps] assms(6) by (auto simp: s1_def)
  have f: "fetched (io_hd s2) (io_fs s2) = take (unat (hd_bytes (io_hd s))) (drop pos (fs_content name (io_fs s)))"
    using assms(4) by (simp add: fetched_def s2 s1_def)
  have "k = 0" using s2(4) by (simp add: unat_eq_0)
  then have "hd_get_state (io_hd s2) = READING" "hd_delay (io_hd s2) = 0" "\<not> hd_must (io_hd s2)"
    using assms(2) by (simp_all add: s2 s1_def)
  with hd_read_cycle[OF s2(2), of inp] w s2(1) show ?thesis by (auto simp: f)
qed

lemma tm_cycle_step:
  assumes "io_inv s"
  shows "\<exists>s'. io_cycle inp s = Inr s' \<and> io_inv s' \<and> length (io_cpus s') = length (io_cpus s)
    \<and> io_tm s' = (if tm_asks (io_tm s) then tm_interrupt_end (tm_after (io_tm s)) else tm_after (io_tm s))"
proof -
  obtain d h where c: "io_cycle inp s = Inr (pos_cycle (asked inp s)
       (s\<lparr>io_kb := kb_after inp (io_kb s), io_hd := d, io_fs := h, io_tm := tm_after (io_tm s)\<rparr>))"
    by (rule io_cycle_value[OF assms])
  obtain s' where "io_cycle inp s = Inr s'" "io_inv s'" "length (io_cpus s') = length (io_cpus s)"
    using io_cycle_steps[OF assms, of inp] by (auto simp: pending_def)
  then show ?thesis using c by (auto simp: pos_cycle_fields[OF asked_distinct] asked_devices)
qed

lemma tm_waits:
  assumes "io_inv s" "unat (tm_counter (io_tm s)) + length inps \<le> unat (tm_max (io_tm s)) + 1"
    "unat (tm_max (io_tm s)) + 1 < 2 ^ 64"
  shows "\<exists>s'. io_run inps s = Inr s' \<and> io_inv s' \<and> length (io_cpus s') = length (io_cpus s)
    \<and> unat (tm_counter (io_tm s')) = unat (tm_counter (io_tm s)) + length inps
    \<and> tm_max (io_tm s') = tm_max (io_tm s) \<and> tm_cpu (io_tm s') = tm_cpu (io_tm s)"
  using assms
proof (induction inps arbitrary: s)
  case Nil
  then show ?case by (simp add: io_run_def)
next
  case (Cons inp inps)
  have "\<not> tm_asks (io_tm s)" using Cons.prems(2) by (simp add: tm_asks_def word_less_nat_alt)
  then obtain t where t: "io_cycle inp s = Inr t" "io_inv t" "length (io_cpus t) = length (io_cpus s)"
    "io_tm t = tm_after (io_tm s)"
    using tm_cycle_step[OF Cons.prems(1)] by metis
  have "unat (tm_counter (io_tm s) + 1) = unat (tm_counter (io_tm s)) + 1"
    using Cons.prems(2,3) by (intro unat_plus_1) simp
  then have "unat (tm_counter (io_tm t)) = unat (tm_counter (io_tm s)) + 1" "tm_max (io_tm t) = tm_max (io_tm s)"
    "tm_cpu (io_tm t) = tm_cpu (io_tm s)" by (simp_all add: t tm_after_def)
  with Cons.IH[of t] t Cons.prems show ?case by (auto simp: io_run_def)
qed

text \<open>The timer has a fixed period, one more cycle than its comparison suggests: from a fresh count it is
  silent for \<open>max + 1\<close> cycles and in the next one requests an interrupt for the processor whose turn it
  is; won or lost, the count then restarts and the turn passes to the next processor, round robin.\<close>

lemma timer_period:
  assumes "io_inv s" "tm_counter (io_tm s) = 0" "unat (tm_max (io_tm s)) + 1 < 2 ^ 64"
    "length inps = unat (tm_max (io_tm s)) + 1"
  shows "\<exists>s1 s2. io_run inps s = Inr s1 \<and> io_cycle inp s1 = Inr s2
      \<and> (\<forall>j < length inps. \<exists>t. io_run (take j inps) s = Inr t \<and> \<not> tm_asks (io_tm t))
      \<and> last (asked inp s1) = \<lparr>rq_dev = Timer_Dev, rq_proc = Some (unat (tm_cpu (io_tm s))), rq_code = code_timer\<rparr>
      \<and> tm_counter (io_tm s2) = 0
      \<and> unat (tm_cpu (io_tm s2)) = (unat (tm_cpu (io_tm s)) + 1) mod length (io_cpus s)"
proof -
  obtain s1 where s1: "io_run inps s = Inr s1" "io_inv s1" "length (io_cpus s1) = length (io_cpus s)"
    "unat (tm_counter (io_tm s1)) = unat (tm_max (io_tm s)) + 1" "tm_max (io_tm s1) = tm_max (io_tm s)"
    "tm_cpu (io_tm s1) = tm_cpu (io_tm s)"
    using tm_waits[OF assms(1) _ assms(3), of inps] assms(2,4) by auto
  have quiet: "\<exists>t. io_run (take j inps) s = Inr t \<and> \<not> tm_asks (io_tm t)" if "j < length inps" for j
    using tm_waits[OF assms(1) _ assms(3), of "take j inps"] assms(2,4) that
    by (auto simp: tm_asks_def word_less_nat_alt)
  have asks: "tm_asks (io_tm s1)" by (simp add: tm_asks_def word_less_nat_alt s1)
  then obtain s2 where s2: "io_cycle inp s1 = Inr s2" "io_tm s2 = tm_interrupt_end (tm_after (io_tm s1))"
    using tm_cycle_step[OF s1(2)] by auto
  have n: "unat (tm_cpu (io_tm s1)) < length (io_cpus s)" "unat (tm_ncpus (io_tm s1)) = length (io_cpus s)"
    using s1(2,3) by (simp_all add: io_inv_def tm_ok_def)
  moreover have "unat (tm_ncpus (io_tm s1)) < 2 ^ LENGTH(32)" by (rule unsigned_less)
  ultimately have "unat (tm_cpu (io_tm s1)) + 1 < 2 ^ LENGTH(32)" by simp
  then have "unat (tm_cpu (io_tm s1) + 1) = unat (tm_cpu (io_tm s1)) + 1"
    by (intro unat_plus_1) simp
  then have "unat (tm_cpu (io_tm s2)) = (unat (tm_cpu (io_tm s)) + 1) mod length (io_cpus s)"
    using n by (simp add: s2(2) tm_interrupt_end_def tm_after_def unat_mod s1(6))
  then show ?thesis using s1(1,6) s2 quiet asks
    by (simp add: asked_def tm_interrupt_end_def)
qed


section \<open>Concrete instances\<close>

text \<open>
  Two processors, a file of three bytes open for the disk, two bytes to transfer at one cycle each,
  a timer of period three.
\<close>

definition demo_fs :: host_fs where
  "demo_fs = \<lparr>fs_files = [[65] \<mapsto> [1, 2, 3]], fs_streams = [7 \<mapsto> ([65], 1)], fs_next = 8\<rparr>"

definition demo_hd :: hd where
  "demo_hd = \<lparr>hd_file_name = [65], hd_state = IDLE, hd_must = False, hd_file = 7, hd_fhandler = le_bytes 8 (7 :: u64),
     hd_fhandler_count = 0, hd_buffer = [8, 9] @ replicate 20478 0, hd_buffer_count = 0,
     hd_fbytes = [2, 0, 0, 0], hd_fbytes_count = 0, hd_delay = 0, hd_read_delay = 1, hd_write_delay = 1\<rparr>"

definition demo_video :: video where
  "demo_video = \<lparr>vd_buffer_addr = [0, 0, 0, 0], vd_buffer_count = 0, vd_width = [0, 0, 0, 0], vd_width_count = 0,
     vd_height = [0, 0, 0, 0], vd_height_count = 0, vd_cursor_x = [0, 0, 0, 0], vd_cursor_x_count = 0,
     vd_cursor_y = [0, 0, 0, 0], vd_cursor_y_count = 0, vd_calls = []\<rparr>"

definition demo_io :: io_state where
  "demo_io = \<lparr>io_kb = keyboard_new, io_tm = \<lparr>tm_counter = 0, tm_must = False, tm_max = 1, tm_ncpus = 2, tm_cpu = 0\<rparr>,
     io_hd = demo_hd, io_vd = demo_video, io_fs = demo_fs,
     io_cpus = replicate 2 \<lparr>has_int = False, int_code = 0\<rparr>\<rparr>"

lemma demo_hd_bytes: "hd_bytes (demo_hd\<lparr>hd_state := st\<rparr>) = 2" "hd_bytes demo_hd = 2"
  by (simp_all add: hd_bytes_def demo_hd_def)

lemma demo_io_inv: "io_inv demo_io"
  by (simp add: io_inv_def hd_ok_def hd_busy_def demo_io_def demo_hd_def hd_get_state_def hd_states SECTOR_SIZE_def tm_ok_def)

lemma demo_hd_len: "length (hd_buffer demo_hd) = 20480"
  by (simp add: demo_hd_def)

lemma sector_drains_witness:
  "\<exists>s'. read_pieces 0x2001 [1, 5] (demo_io\<lparr>io_hd := demo_hd\<lparr>hd_state := WAIT_READ\<rparr>\<rparr>) = Inr (s', [8, 9])
     \<and> hd_get_state (io_hd s') = IDLE"
proof -
  have "take 6 (take 2 (hd_buffer demo_hd)) = [8, 9]" by (simp add: demo_hd_def)
  then show ?thesis
    using sector_drains[of "demo_io\<lparr>io_hd := demo_hd\<lparr>hd_state := WAIT_READ\<rparr>\<rparr>" "[1, 5]"]
    by (simp add: demo_hd_bytes demo_hd_len) (simp add: demo_hd_def)
qed

lemma register_roundtrip_witness:
  "\<exists>s'. write_pieces 0x2002 [[1], [2, 0, 0]] demo_io = Inr s' \<and> hd_bytes (io_hd s') = 0x201
     \<and> read_pieces 0x2002 [2, 2] s' = Inr (s', [1, 2, 0, 0])"
  using register_roundtrip[of demo_io "[[1], [2, 0, 0]]" "[2, 2]"]
  by (auto simp: demo_io_def demo_hd_def)


lemma requests_are_kept_witness:
  "\<exists>s'. io_cycle 0x8041 demo_io = Inr s'
     \<and> (\<exists>i < 2. \<not> has_int (io_cpus demo_io ! i) \<and> io_cpus s' = pending code_keyboard i (io_cpus demo_io))"
proof -
  obtain s' where s': "io_cycle 0x8041 demo_io = Inr s'" using io_cycle_steps[OF demo_io_inv] by blast
  have "kb_asks 0x8041 (io_kb demo_io)" "\<not> has_int (io_cpus demo_io ! 0)" "length (io_cpus demo_io) = 2"
    by (simp_all add: kb_asks_def demo_io_def keyboard_new_def there_is_input_def)
  then show ?thesis using requests_are_kept[OF demo_io_inv s', of 0] s' by auto
qed

lemma read_takes_its_delay_witness:
  "\<exists>s1 s2 s3. io_write 0 [] 0x2000 [4] demo_io = Inr s1 \<and> io_run [0, 0] s1 = Inr s2
     \<and> hd_get_state (io_hd s2) = READING \<and> io_cycle 0 s2 = Inr s3
     \<and> take (unat (hd_bytes (io_hd s3))) (hd_buffer (io_hd s3)) = [2, 3]"
proof -
  have "hd_bytes (io_hd demo_io) = 2" by (simp add: demo_io_def demo_hd_bytes)
  then show ?thesis
    using read_takes_its_delay[OF demo_io_inv, of "[65]" 1 "[0, 0]" 0]
    by (simp add: demo_io_def demo_hd_def hd_get_state_def hd_states demo_fs_def fs_content_def SECTOR_SIZE_def)
      blast
qed

lemma timer_period_witness:
  "\<exists>s1 s2. io_run [0, 0] demo_io = Inr s1 \<and> io_cycle 0 s1 = Inr s2
     \<and> tm_counter (io_tm s2) = 0 \<and> unat (tm_cpu (io_tm s2)) = 1"
  using timer_period[OF demo_io_inv, of "[0, 0]" 0] by (auto simp: demo_io_def)


end
