(* ===== verification/Processor_Inv.thy ===== *)
theory Processor_Inv
  imports Processor
begin

text \<open>
  Every stage of a cycle keeps the invariant of the pipeline and the decoder, so every state that the simulation
  reaches has it.
\<close>

section \<open>Flushes\<close>

lemma flush_calm:
  assumes "calm e k" "k_front k' = flushed_front (en_cfg e) (k_front k)"
  shows "calm e k'"
proof -
  let ?n = "cf_fetch_size (en_cfg e)"
  let ?l = "fst (fb_flush ?n (fs_cpu (k_front k)) (fs_lane (k_front k)))"
  have l: "lane_ok ?n (fs_lane (k_front k))" using assms(1) by (simp add: calm_def)
  have "fs_lane (k_front k') = ?l" by (simp add: assms(2) flushed_front_def split: prod.split)
  moreover have "lane_ok ?n ?l" "Fetch_Buffer.queued ?n ?l = []" using flush_queue[of ?n] lane_okD(1-3)[OF l] by blast+
  ultimately show ?thesis by (simp add: calm_def)
qed

lemma rob_flush_icache:
  assumes "rob_flush c k = Inr k'"
  shows "k_icache k' = k_icache k"
proof -
  have s: "k_icache k1 = k_icache k" if "flush_stations f k = Inr k1" for f k1
    using that by (auto simp: flush_stations_def rbind_Inr_iff)
  have "k_icache k1 = k_icache k" if "flush_pipeline_simple c k = Inr (k1, ps)" for k1 ps
    using that s by (auto simp: flush_pipeline_simple_def rbind_Inr_iff Let_def forget_branches_def flush_fetch_value)
  then show ?thesis using assms by (auto simp: rob_flush_def rbind_Inr_iff give_back_def Let_def)
qed

lemma flushed_dec_inv:
  assumes "pipe_inv n k" "icache_ok k" "calm e k"
  obtains k' where "rob_flush (en_cfg e) k = Inr k'" "dec_inv n k'" "calm e k'"
proof -
  obtain k1 where k1: "rob_flush (en_cfg e) k = Inr k1" "pipe_inv n k1" by (rule flush_pipe_inv[OF assms(1)])
  obtain k2 where k2: "rob_flush (en_cfg e) k = Inr k2" "k_dec k2 = dec_flush (k_dec k)"
    "k_front k2 = flushed_front (en_cfg e) (k_front k)"
    by (rule rob_flush_value[OF pipe_invD(1)[OF assms(1)], where c = "en_cfg e"]) blast
  have eq: "k2 = k1" using k1(1) k2(1) by simp
  have "icache_ok k1" using assms(2) rob_flush_icache[OF k1(1)] by (simp add: icache_ok_def)
  moreover have "stage_ok k1" using k2(2) dec_flush_held(1)[of "k_dec k"] by (simp add: eq stage_ok_def Let_def) (simp add: dec_flush_def)
  moreover have "calm e k1" using flush_calm[OF assms(3)] k2(3) by (simp add: eq)
  ultimately show thesis using that k1 by (simp add: dec_inv_def)
qed

lemma dec_invD: "dec_inv n k \<Longrightarrow> pipe_inv n k" "dec_inv n k \<Longrightarrow> icache_ok k" "dec_inv n k \<Longrightarrow> stage_ok k"
  by (simp_all add: dec_inv_def)

text \<open>A change that the invariant of the decoder does not see: everything but the objects that the decoder holds.\<close>

lemma dec_inv_back:
  assumes "dec_inv n k" "pipe_inv n k'" "k_dec k' = k_dec k" "k_icache k' = k_icache k"
    and "\<And>x. x \<in> set (held (k_dec k)) \<Longrightarrow> u_type (u_of k' x) = u_type (u_of k x) \<and> uninvolved (u_of k' x) = uninvolved (u_of k x)"
  shows "dec_inv n k'"
proof -
  have "stage_ok k' = stage_ok k"
    by (rule stage_ok_cong) (use assms(3-5) in \<open>simp_all add: cur_xst_def held_ok_def all_fresh_def fresh_def\<close>)
  then show ?thesis using assms by (simp add: dec_inv_def icache_ok_def)
qed

section \<open>Commit and interrupts\<close>

lemma commit_effect_front:
  assumes "commit_effect p k = Inr (k', f)"
  shows "fs_lane (k_front k') = fs_lane (k_front k)" "k_icache k' = k_icache k \<or> f \<and> k_icache k' = k_icache (flush_inst_cache k)"
  using assms
  by (auto simp: commit_effect_def Let_def rbind_Inr_iff flush_pipeline_others_def warn_branch_predictor_def put_cpu_def
      flush_inst_cache_def split: if_splits)

lemma commit_spec_front:
  "commit_spec ps k = Inr (k', rest, m) \<Longrightarrow> fs_lane (k_front k') = fs_lane (k_front k)
     \<and> (k_icache k' = k_icache k \<or> m \<and> k_icache k' = k_icache (flush_inst_cache k))"
proof (induction ps arbitrary: k)
  case (Cons p ps)
  show ?case
  proof (cases "u_status (u_of k p) = Ready")
    case False
    then show ?thesis using Cons.prems by (auto simp: arrived_to_commit_def split: option.split)
  next
    case True
    obtain k1 f where e: "commit_effect p k = Inr (k1, f)" using Cons.prems True by (auto simp: rbind_Inr_iff)
    note fr = commit_effect_front[OF e]
    show ?thesis
    proof (cases "f \<or> \<not> u_foresight (u_of k1 p)")
      case True
      then show ?thesis using Cons.prems e \<open>u_status (u_of k p) = Ready\<close> fr by auto
    next
      case go: False
      have "commit_spec ps (takes_back p k1) = Inr (k', rest, m)" using Cons.prems True e go by simp
      from Cons.IH[OF this] fr go show ?thesis by (auto simp: takes_back_def flush_inst_cache_def)
    qed
  qed
qed simp

lemma icache_flush_ok [simp]: "icache_ok k \<Longrightarrow> k_icache k' = k_icache (flush_inst_cache k) \<Longrightarrow> icache_ok k'"
  by (simp add: icache_ok_def flush_inst_cache_def)

lemma commit_dec_inv:
  assumes inv: "dec_inv n k" "calm e k" and c: "commit (en_cfg e) k = Inr k'"
  shows "dec_inv n k'" "calm e k'"
proof -
  let ?c = "en_cfg e"
  note p = dec_invD(1)[OF inv(1)]
  note i = pipe_invD(1)[OF p]
  obtain k1 rest m where sp: "commit_spec (elems (k_rob k)) k = Inr (k1, rest, m)" and hd: "\<not> head_waits k"
    using commit_value(1)[OF i, of ?c] c by (auto simp: is_ok_iff)
  obtain l where l: "elems l = rest" "core_inv n (k1\<lparr>k_rob := l\<rparr>)"
    "commit ?c k = (if m then rob_flush ?c (k1\<lparr>k_rob := l\<rparr>) else Inr (k1\<lparr>k_rob := l\<rparr>))"
    using commit_value(2)[OF i sp hd] by blast
  let ?k = "k1\<lparr>k_rob := l\<rparr>"
  have pk: "pipe_inv n ?k" by (rule retired_pipe_inv[OF p sp l(1,2)])
  note fr = commit_spec_front[OF sp]
  have cm: "calm e ?k" using inv(2) fr by (simp add: calm_def)
  have ic: "icache_ok ?k" using fr dec_invD(2)[OF inv(1)] by (auto simp: icache_ok_def flush_inst_cache_def)
  have room: "length (elems (k_supply k)) + length (elems (k_rob k)) \<le> dl_capacity (k_supply k)"
    using places_count[OF core_invD(1)[OF i]] core_invD(8)[OF i] by simp
  have b: "same_back k k1" using commit_spec_value[OF sp core_invD(6)[OF i] room] by blast
  show "dec_inv n k'" "calm e k'"
  proof -
    consider "m" | "\<not> m" by blast
    then have "dec_inv n k' \<and> calm e k'"
    proof cases
      case 1
      obtain k2 where "rob_flush ?c ?k = Inr k2" "dec_inv n k2" "calm e k2" by (rule flushed_dec_inv[OF pk ic cm])
      then show ?thesis using c l(3) 1 by simp
    next
      case 2
      then have k': "k' = ?k" using c l(3) by simp
      have "dec_inv n ?k" by (rule dec_inv_back[OF inv(1) pk]) (use b fr 2 in \<open>simp_all add: same_back_def\<close>)
      then show ?thesis using k' cm by simp
    qed
    then show "dec_inv n k'" "calm e k'" by blast+
  qed
qed

lemma others_frame:
  assumes "flush_pipeline_others k = Inr k'"
  shows "fs_lane (k_front k') = fs_lane (k_front k)" "k_icache k' = k_icache k" "pipe_inv n k' = pipe_inv n k"
proof -
  obtain p where k': "k' = k\<lparr>k_front := (k_front k)\<lparr>fs_pred := p\<rparr>\<rparr>" using assms by (auto simp: flush_pipeline_others_def rbind_Inr_iff)
  show "fs_lane (k_front k') = fs_lane (k_front k)" "k_icache k' = k_icache k" by (simp_all add: k')
  show "pipe_inv n k' = pipe_inv n k" by (rule pipe_inv_frame) (simp_all add: k')
qed

lemma interrupt_pipe_inv:
  assumes inv: "pipe_inv n k" and t: "take_interrupt c i k = Inr (i', k')"
  shows "pipe_inv n k'"
proof (cases "k' = k")
  case False
  then obtain x k1 where k1: "flush_pipeline_others (put_cpu x (flush_inst_cache k)) = Inr k1" "rob_flush c k1 = Inr k'"
    using t by (auto simp: take_interrupt_def rbind_Inr_iff split: if_splits)
  have "pipe_inv n (flush_inst_cache k) = pipe_inv n k" by (rule pipe_inv_frame) simp_all
  then have "pipe_inv n k1" using inv others_frame(3)[OF k1(1), of n] by simp
  then obtain k2 where "rob_flush c k1 = Inr k2" "pipe_inv n k2" by (rule flush_pipe_inv)
  then show ?thesis using k1(2) by simp
qed (use inv in simp)

lemma interrupt_dec_inv:
  assumes inv: "dec_inv n k" "calm e k" and t: "take_interrupt (en_cfg e) i k = Inr (i', k')"
  shows "dec_inv n k'" "calm e k'"
proof -
  have "dec_inv n k' \<and> calm e k'"
  proof (cases "k' = k")
    case False
    then obtain x k1 where k1: "flush_pipeline_others (put_cpu x (flush_inst_cache k)) = Inr k1" "rob_flush (en_cfg e) k1 = Inr k'"
      using t by (auto simp: take_interrupt_def rbind_Inr_iff split: if_splits)
    have "pipe_inv n (flush_inst_cache k) = pipe_inv n k" by (rule pipe_inv_frame) simp_all
    then have "pipe_inv n k1" using dec_invD(1)[OF inv(1)] others_frame(3)[OF k1(1), of n] by simp
    moreover have "icache_ok k1" using dec_invD(2)[OF inv(1)] others_frame(2)[OF k1(1)] by (simp add: icache_ok_def flush_inst_cache_def)
    moreover have "calm e k1" using inv(2) others_frame(1)[OF k1(1)] by (simp add: calm_def)
    ultimately obtain k2 where "rob_flush (en_cfg e) k1 = Inr k2" "dec_inv n k2" "calm e k2" by (rule flushed_dec_inv)
    then show ?thesis using k1(2) by simp
  qed (use inv in simp)
  then show "dec_inv n k'" "calm e k'" by blast+
qed
section \<open>Execution, write-back and issue\<close>

lemma account_branch_front:
  assumes "account_branch c p k = Inr k'"
  shows "fs_lane (k_front k') = fs_lane (k_front k)" "k_icache k' = k_icache k"
  using assms by (auto simp: account_branch_def Let_def warn_branch_predictor_def rbind_Inr_iff split: if_splits)

lemma write_back_one_front:
  assumes "write_back_one c p k = Inr k'"
  shows "fs_lane (k_front k') = fs_lane (k_front k)" "k_icache k' = k_icache k"
proof -
  obtain k1 where k1: "leave_station p (release p k) = Inr k1" "account_branch c p k1 = Inr k'"
    using assms by (auto simp: write_back_one_def rbind_Inr_iff)
  have r: "k_front (release p k) = k_front k" "k_icache (release p k) = k_icache k" by (simp_all add: release_def split: prod.split)
  have "k_front k1 = k_front k \<and> k_icache k1 = k_icache k"
    using k1(1) r by (auto simp: leave_station_def rbind_Inr_iff split: option.splits)
  then show "fs_lane (k_front k') = fs_lane (k_front k)" "k_icache k' = k_icache k" using account_branch_front[OF k1(2)] by simp_all
qed

lemma released_type [simp]: "u_type (released p u) = u_type u" "uninvolved (released p u) = uninvolved u"
  by (simp_all add: released_def uninvolved_def Let_def)

lemma write_back_one_inv:
  assumes inv: "dec_inv n k" and fin: "finishing k (p # ps)" and w: "write_back_one c p k = Inr k'"
  shows "dec_inv n k'" "finishing k' ps"
proof -
  note pi = dec_invD(1)[OF inv]
  note i = pipe_invD(1)[OF pi]
  have p: "in_station k p" "u_status (u_of k p) = Executing" using fin by (simp_all add: finishing_def)
  obtain k1 where k1: "leave_station p (release p k) = Inr k1"
    "\<And>d. d \<in> set (live k) \<Longrightarrow> u_of k1 d = (if d = p then finished (u_of k p) else released p (u_of k d))" "k_dec k1 = k_dec k"
    by (rule release_value[OF pi p]) blast
  have ab: "account_branch c p k1 = Inr k'" using w k1(1) by (simp add: write_back_one_def)
  note bk = account_branch_back[OF ab]
  have "p \<in> set (elems (k_rob k))" using p(1) station_rob[OF i] by blast
  then have "x \<noteq> p" if "x \<in> set (held (k_dec k))" for x using held_place(1)[OF i that] by blast
  then have h: "u_of k' x = released p (u_of k x)" if "x \<in> set (held (k_dec k))" for x
    using k1(2)[of x] that bk(1) by (simp add: live_def)
  show "dec_inv n k'"
    by (rule dec_inv_back[OF inv written_pipe_inv(1)[OF pi fin w]])
      (use bk(6) k1(3) write_back_one_front[OF w] h in simp_all)
  show "finishing k' ps" by (rule written_pipe_inv(2)[OF pi fin w])
qed

lemma write_back_dec_inv:
  assumes "dec_inv n k" "finishing k ps" "\<not> cf_detect_on_wb c" "write_back c ps k = Inr k'"
  shows "dec_inv n k'" "fs_lane (k_front k') = fs_lane (k_front k)"
proof -
  have "dec_inv n k' \<and> fs_lane (k_front k') = fs_lane (k_front k)" if "rfold (write_back_one c) ps k = Inr k'"
    using that assms(1,2)
  proof (induction ps arbitrary: k)
    case (Cons p ps)
    then obtain k1 where k1: "write_back_one c p k = Inr k1" "rfold (write_back_one c) ps k1 = Inr k'"
      by (auto simp: rbind_Inr_iff)
    from Cons.IH[OF k1(2) write_back_one_inv[OF Cons.prems(2,3) k1(1)]] show ?case using write_back_one_front[OF k1(1)] by simp
  qed simp
  moreover have "rfold (write_back_one c) ps k = Inr k'"
    using assms(3,4) by (auto simp: write_back_def rbind_Inr_iff split: option.splits)
  ultimately show "dec_inv n k'" "fs_lane (k_front k') = fs_lane (k_front k)" by blast+
qed

lemma exec_dec_inv:
  assumes "dec_inv n k" "exec_core k = (k', ps)"
  shows "dec_inv n k'" "finishing k' ps" "k_front k' = k_front k"
proof -
  obtain f where k': "k' = k\<lparr>k_units := f\<rparr>" using assms(2) by (auto simp: exec_core_def split: prod.splits)
  note e = exec_pipe_inv[OF dec_invD(1)[OF assms(1)] assms(2)]
  show "dec_inv n k'" by (rule dec_inv_back[OF assms(1) e(1)]) (simp_all add: k')
  show "finishing k' ps" by (rule e(2))
  show "k_front k' = k_front k" by (simp add: k')
qed

lemma issue_dec_inv:
  assumes "dec_inv n k"
  obtains k' where "issue_from q k = Inr k'" "dec_inv n k'" "k_front k' = k_front k"
proof -
  obtain k' where k': "issue_from q k = Inr k'" "pipe_inv n k'" "k_dec k' = k_dec k" "k_icache k' = k_icache k" "k_front k' = k_front k"
    "\<And>x. x \<in> set (held (k_dec k)) \<Longrightarrow> u_of k' x = u_of k x"
    by (rule issue_pipe_inv[OF dec_invD(1)[OF assms], where q = q]) blast
  have "dec_inv n k'" by (rule dec_inv_back[OF assms k'(2-4)]) (simp add: k'(6))
  show thesis by (rule that[OF k'(1) \<open>dec_inv n k'\<close> k'(5)])
qed

lemma execute_stage_dec_inv:
  assumes inv: "dec_inv n k" "calm e k" and c: "\<not> cf_detect_on_wb (en_cfg e)" and x: "execute_stage (en_cfg e) k = Inr k'"
  shows "dec_inv n k'" "calm e k'"
proof -
  obtain k1 ps where e: "exec_core k = (k1, ps)" by force
  note e' = exec_dec_inv[OF inv(1) e]
  obtain k2 k3 k4 where k: "write_back (en_cfg e) ps k1 = Inr k2" "issue_from Rs_Queue k2 = Inr k3" "issue_from Ls_Queue k3 = Inr k4"
    "issue_from Io_Queue k4 = Inr k'"
    using x by (auto simp: execute_stage_def e rbind_Inr_iff)
  note w = write_back_dec_inv[OF e'(1,2) c k(1)]
  have step: "dec_inv n b \<and> k_front b = k_front a" if "issue_from q a = Inr b" "dec_inv n a" for q a b
    using issue_dec_inv[OF that(2), of q] that(1) by (metis sum.inject(2))
  have "dec_inv n k' \<and> fs_lane (k_front k') = fs_lane (k_front k)"
    using step[OF k(2) w(1)] step[OF k(3)] step[OF k(4)] w(2) e'(3) by simp
  then show "dec_inv n k'" "calm e k'" using inv(2) calm_cong[of k' k e] by simp_all
qed

section \<open>Decode and fetch\<close>

lemma front_dec_inv:
  assumes "dec_inv n k"
  shows "dec_inv n (k\<lparr>k_front := f\<rparr>)"
proof -
  have "pipe_inv n (k\<lparr>k_front := f\<rparr>) = pipe_inv n k" by (rule pipe_inv_frame) simp_all
  then show ?thesis using dec_inv_back[OF assms, of "k\<lparr>k_front := f\<rparr>"] dec_invD(1)[OF assms] by simp
qed

lemma note_before_inv: "dec_inv n k \<Longrightarrow> dec_inv n (note_before k)" "calm e (note_before k) = calm e k"
  by (simp_all add: note_before_def front_dec_inv calm_def before_decoder_def lane_ok_def Fetch_Buffer.queued_def)

lemma calm_cycle [simp]: "calm (e\<lparr>en_cycle := x\<rparr>) k = calm e k"
  by (simp add: calm_def)

section \<open>The invariant of a cycle\<close>

lemma cycle_dec_inv:
  assumes inv: "dec_inv n (sy_core s)" "calm e (sy_core s)" and env: "fields_ok (en_bochs e)" "\<not> cf_detect_on_wb (en_cfg e)"
    and c: "cycle e jr inp s = Inr s'"
  shows "dec_inv n (sy_core s')"
proof -
  let ?e = "e\<lparr>en_cycle := sy_cycle s\<rparr>"
  obtain i ints where io: "io_cpus (sy_io s) = i # ints" using c by (cases "io_cpus (sy_io s)") (simp_all add: cycle_def Let_def)
  obtain i' k1 k2 k3 k4 r f where k: "take_interrupt (en_cfg ?e) i (sy_core s) = Inr (i', k1)" "commit (en_cfg ?e) k1 = Inr k2"
    "execute_stage (en_cfg ?e) k2 = Inr k3" "decode_stage ?e (note_before k3) = Inr (k4, r)" "sy_core s' = k4\<lparr>k_front := f\<rparr>"
    using c by (auto simp: cycle_def Let_def io rbind_Inr_iff fetch_stage_def)
  have "dec_inv n k1" "calm ?e k1" using interrupt_dec_inv[OF inv(1) _ k(1)] inv(2) by simp_all
  then have "dec_inv n k2" "calm ?e k2" using commit_dec_inv[OF _ _ k(2)] by blast+
  then have k3: "dec_inv n k3" "calm ?e k3" using execute_stage_dec_inv[OF _ _ _ k(3)] env(2) by simp_all
  have "dec_inv n k4" by (rule decode_stage_inv(1)[OF note_before_inv(1)[OF k3(1)] _ _ k(4)]) (use env(1) k3(2) in \<open>simp_all add: note_before_inv(2)\<close>)
  then show ?thesis by (simp add: k(5) front_dec_inv)
qed
section \<open>The initial state\<close>

text \<open>
  Stations that are not empty, lists within the range of their positions, a fetch buffer whose positions are computed
  without overflow, and the arrays at their declared lengths.
\<close>

definition sizes_ok :: "cfg \<Rightarrow> sizes \<Rightarrow> core \<Rightarrow> bool" where
  "sizes_ok c z k \<longleftrightarrow> 0 < sz_rs z \<and> 0 < sz_ls z \<and> 0 < sz_io z \<and> rob_size z \<le> LIST_END
     \<and> length (dc_buffered (k_dec k)) = MAX_ALLOCATED
     \<and> 0 < unat (cf_fetch_size c) \<and> unat (cf_fetch_size c) \<le> 2 ^ 31
     \<and> unat (cf_fetch_size c) \<le> length (fb_buf (fs_lane (k_front k)))"

lemma queue_new_value:
  assumes "0 < m" "m \<le> LIST_END"
  obtains q where "queue_new kind junk m = Inr q" "queue_inv h q" "elems (rq_list q) = []" "rq_kind q = kind" "\<not> rq_flag q 0"
proof -
  obtain l where l: "set_list_size junk m = Inr l" "dl_inv l" "entries l = []" "dl_capacity l = m"
    using set_list_size_entries[OF assms, of junk] by blast
  then show thesis
    by (intro that[of "\<lparr>rq_kind = kind, rq_list = l, rq_flag = (\<lambda>_. False)\<rparr>"]) (simp_all add: queue_new_def elems_def queue_inv_def)
qed

lemma rob_new_value:
  assumes "0 < rob_size z" "rob_size z \<le> LIST_END"
  obtains su l where "rob_new z k = Inr (k\<lparr>k_pool := (\<lambda>p. (k_pool k p)\<lparr>u_dep_out_max := rob_size z * MAX_DEP_IN\<rparr>), k_supply := su, k_rob := l\<rparr>)"
    "dl_inv su" "elems su = [0..<rob_size z]" "dl_capacity su = rob_size z" "dl_inv l" "entries l = []" "dl_capacity l = rob_size z"
proof -
  obtain l where l: "set_list_size (sz_junk z) (rob_size z) = Inr l" "dl_inv l" "entries l = []" "dl_capacity l = rob_size z"
    using set_list_size_entries[OF assms, of "sz_junk z"] by blast
  define su where "su = fold (\<lambda>p l. fst (add_end p l)) [0..<rob_size z] l"
  have e: "elems l = []" by (simp add: elems_def l(3))
  have su: "dl_inv su \<and> elems su = elems l @ [0..<rob_size z] \<and> dl_capacity su = dl_capacity l"
    unfolding su_def by (rule push_all[OF l(2)]) (simp add: e l(4))
  show thesis
  proof (rule that[OF _ _ _ _ l(2-4)])
    show "rob_new z k = Inr (k\<lparr>k_pool := (\<lambda>p. (k_pool k p)\<lparr>u_dep_out_max := rob_size z * MAX_DEP_IN\<rparr>), k_supply := su, k_rob := l\<rparr>)"
      by (simp add: rob_new_def l(1) su_def Let_def)
  qed (use su e l(4) in simp_all)
qed

lemma core_new_inv:
  assumes ok: "sizes_ok (en_cfg e) z k"
  obtains k' where "core_new (en_cfg e) z k = Inr k'" "dec_inv (rob_size z) k'" "calm e k'" "k_running k'"
proof -
  let ?n = "rob_size z" and ?h = "\<lambda>p. (k_pool k p)\<lparr>u_dep_out_max := rob_size z * MAX_DEP_IN\<rparr>"
  note o = ok[unfolded sizes_ok_def]
  have n: "0 < ?n" "sz_rs z \<le> LIST_END" "sz_ls z \<le> LIST_END" "sz_io z \<le> LIST_END" using o by (simp_all add: rob_size_def)
  obtain rs where rs: "queue_new Rs_Queue (sz_junk z) (sz_rs z) = Inr rs" "queue_inv ?h rs" "elems (rq_list rs) = []" "rq_kind rs = Rs_Queue" "\<not> rq_flag rs 0"
    using queue_new_value[of "sz_rs z"] o n by blast
  obtain ls where ls: "queue_new Ls_Queue (sz_junk z) (sz_ls z) = Inr ls" "queue_inv ?h ls" "elems (rq_list ls) = []" "rq_kind ls = Ls_Queue" "\<not> rq_flag ls 0"
    using queue_new_value[of "sz_ls z"] o n by blast
  obtain io where io: "queue_new Io_Queue (sz_junk z) (sz_io z) = Inr io" "queue_inv ?h io" "elems (rq_list io) = []" "rq_kind io = Io_Queue" "\<not> rq_flag io 0"
    using queue_new_value[of "sz_io z"] o n by blast
  let ?k0 = "k\<lparr>k_units := func_units_new (sz_units z), k_rs := rs, k_ls := ls, k_io := io\<rparr>"
  obtain su l where r: "rob_new z ?k0 = Inr (?k0\<lparr>k_pool := (\<lambda>p. (k_pool ?k0 p)\<lparr>u_dep_out_max := rob_size z * MAX_DEP_IN\<rparr>), k_supply := su, k_rob := l\<rparr>)"
    "dl_inv su" "elems su = [0..<?n]" "dl_capacity su = ?n" "dl_inv l" "entries l = []" "dl_capacity l = ?n"
    using rob_new_value[of z ?k0] n(1) o by blast
  let ?k = "forget_branches (flush_inst_cache (?k0\<lparr>k_pool := ?h, k_supply := su, k_rob := l, k_regs := (\<lambda>_. None),
     k_dec := dec_new (k_dec k), k_front := front_new (en_cfg e) z (k_front k), k_running := True\<rparr>))"
  have v: "core_new (en_cfg e) z k = Inr ?k" using r(1) by (simp add: core_new_def rs(1) ls(1) io(1))
  have f: "k_pool ?k = ?h" "k_supply ?k = su" "k_rob ?k = l" "k_regs ?k = (\<lambda>_. None)" "k_dec ?k = dec_new (k_dec k)"
    "k_units ?k = func_units_new (sz_units z)" "k_front ?k = front_new (en_cfg e) z (k_front k)" "k_io ?k = io" "k_running ?k"
    by (simp_all add: forget_branches_def flush_inst_cache_def)
  have "k_rs ?k = rs" "k_ls ?k = ls" by (simp_all add: forget_branches_def flush_inst_cache_def)
  then have q: "queue_inv ?h (k_queue q ?k) \<and> elems (rq_list (k_queue q ?k)) = [] \<and> rq_kind (k_queue q ?k) = q" for q
    using rs ls io f(8) by (cases q) simp_all
  have h: "held (dec_new (k_dec k)) = []" "decoder_ok (dec_new (k_dec k))" using o by (simp_all add: dec_new_def dec_flush_def held_def decoder_ok_def)
  have run: "running (func_units_new (sz_units z)) = []"
    by (auto simp: running_def func_units_new_def all_units_def unit_of_def)
  have rob: "elems l = []" using r(6) by (simp add: elems_def)
  have "core_inv ?n ?k" unfolding core_inv_def
  proof (intro conjI allI)
    show "lists_ok ?n ?k" unfolding lists_ok_def places_def f using r rob h by (simp add: atLeast0LessThan)
    show "station_ok ?k q" for q using q[of q] unfolding station_ok_def f(1) by simp
    show "rob_ok ?k" unfolding rob_ok_def f by (simp add: r(6) rob h)
    show "units_ok ?k" unfolding units_ok_def f run by (simp add: fu_inv_ops)
    show "decoder_ok (k_dec ?k)" unfolding f by (rule h(2))
  qed
  moreover have "edges_ok ?k" "waits_ok ?k" "regs_ok ?k"
    unfolding edges_ok_def waits_ok_def regs_ok_def live_def f by (simp_all add: rob h linked_none)
  moreover have "port_ok ?k" unfolding port_ok_def f using io(3,5) rob by simp
  ultimately have "pipe_inv ?n ?k" by (simp add: pipe_inv_def)
  moreover have "icache_ok ?k" by (simp add: icache_ok_def forget_branches_def flush_inst_cache_def)
  moreover have "stage_ok ?k" unfolding stage_ok_def f using h(1) by (simp add: dec_new_def dec_flush_def)
  ultimately have d: "dec_inv ?n ?k" by (simp add: dec_inv_def)
  have "fs_lane (k_front ?k) = lane_new (fb_buf (fs_lane (k_front k))) (cf_fetch_size (en_cfg e))"
    unfolding f by (simp add: front_new_def)
  then have "calm e ?k" unfolding calm_def using o
    by (simp add: lane_new_def lane_ok_def Fetch_Buffer.queued_def word_less_nat_alt)
  then show thesis by (intro that[OF v d]) (simp_all add: f(9))
qed

section \<open>Reached states\<close>

text \<open>
  The states that the simulation reaches from the constructors over cycles that began without a faulting byte in the
  fetch buffer.
\<close>

inductive reached :: "env \<Rightarrow> branch_response \<Rightarrow> sizes \<Rightarrow> core \<Rightarrow> sys \<Rightarrow> bool" for e jr z k0 where
  start: "core_new (en_cfg e) z k0 = Inr k \<Longrightarrow> sy_core s = k \<Longrightarrow> reached e jr z k0 s"
| step: "reached e jr z k0 s \<Longrightarrow> k_running (sy_core s) \<Longrightarrow> calm e (sy_core s) \<Longrightarrow> cycle e jr inp s = Inr s' \<Longrightarrow> reached e jr z k0 s'"

lemma reached_dec_inv:
  assumes "reached e jr z k0 s" "sizes_ok (en_cfg e) z k0" "fields_ok (en_bochs e)" "\<not> cf_detect_on_wb (en_cfg e)"
  shows "dec_inv (rob_size z) (sy_core s)"
  using assms(1)
proof (induction rule: reached.induct)
  case (start k s)
  obtain k' where k': "core_new (en_cfg e) z k0 = Inr k'" "dec_inv (rob_size z) k'" by (rule core_new_inv[OF assms(2)])
  then show ?case using start by simp
next
  case (step s inp s')
  then show ?case using cycle_dec_inv[OF _ _ assms(3,4)] by blast
qed
section \<open>What the reached states guarantee\<close>


text \<open>C2: Commit retires in program order. From a sound pipeline it removes from the reorder buffer a prefix, oldest
  first, of instructions that are finished and have nothing special about them, and gives their objects back in that
  order; the first that stays does not retire. If that one is finished (it faulted, trapped, halts, flushes, or was
  followed by a wrong path), the whole pipeline is emptied, with every object back in the supply, no register
  waiting for a result, and fetching restarted; if not, the stations, the units and the decoder are as before.\<close>

theorem commit_retires_in_order:
  assumes inv: "pipe_inv n k" and c: "commit c k = Inr k'"
  shows "\<exists>ds rest. elems (k_rob k) = ds @ rest \<and> (\<forall>p \<in> set ds. retires (u_of k p)) \<and> (rest \<noteq> [] \<longrightarrow> \<not> retires (u_of k (hd rest)))
    \<and> (if rest \<noteq> [] \<and> u_status (u_of k (hd rest)) = Ready
       then elems (k_rob k') = [] \<and> held (k_dec k') = [] \<and> \<not> dc_mis (k_dec k') \<and> (\<forall>q. elems (rq_list (k_queue q k')) = [])
         \<and> running (k_units k') = [] \<and> k_regs k' = (\<lambda>_. None)
         \<and> elems (k_supply k') = elems (k_supply k) @ ds @ rev (held (k_dec k)) @ rest
         \<and> fb_avail (fs_lane (k_front k')) = cf_fetch_size c \<and> fs_pc (k_front k') = x_rip (fs_cpu (k_front k'))
       else elems (k_rob k') = rest \<and> k_dec k' = k_dec k \<and> (\<forall>q. rq_list (k_queue q k') = rq_list (k_queue q k))
         \<and> k_units k' = k_units k \<and> k_regs k' = k_regs k \<and> elems (k_supply k') = elems (k_supply k) @ ds)"
proof -
  note i = pipe_invD(1)[OF inv]
  obtain k1 rest m where sp: "commit_spec (elems (k_rob k)) k = Inr (k1, rest, m)" and hd: "\<not> head_waits k"
    using commit_value(1)[OF i, of c] c by (auto simp: is_ok_iff)
  have room: "length (elems (k_supply k)) + length (elems (k_rob k)) \<le> dl_capacity (k_supply k)"
    using places_count[OF core_invD(1)[OF i]] core_invD(8)[OF i] by simp
  obtain ds where ds: "elems (k_rob k) = ds @ rest" "\<forall>p \<in> set ds. retires (u_of k p)" "same_back k k1"
    "elems (k_supply k1) = elems (k_supply k) @ ds" "m \<longleftrightarrow> rest \<noteq> [] \<and> u_status (u_of k (hd rest)) = Ready" "m \<longrightarrow> \<not> retires (u_of k (hd rest))"
    using commit_spec_value[OF sp core_invD(6)[OF i] room] by blast
  obtain l where l: "elems l = rest" "core_inv n (k1\<lparr>k_rob := l\<rparr>)"
    "commit c k = (if m then rob_flush c (k1\<lparr>k_rob := l\<rparr>) else Inr (k1\<lparr>k_rob := l\<rparr>))"
    using commit_value(2)[OF i sp hd] by blast
  have nr: "rest \<noteq> [] \<longrightarrow> \<not> retires (u_of k (hd rest))" using ds(5,6) by (auto simp: retires_def)
  show ?thesis
  proof (cases m)
    case True
    obtain k2 where k2: "rob_flush c (k1\<lparr>k_rob := l\<rparr>) = Inr k2" "elems (k_rob k2) = []" "held (k_dec k2) = []"
      "elems (k_supply k2) = elems (k_supply k1) @ rev (held (k_dec k1)) @ rest" "\<And>q. elems (rq_list (k_queue q k2)) = []"
      "running (k_units k2) = []" "k_regs k2 = (\<lambda>_. None)" "k_dec k2 = dec_flush (k_dec k1)" "k_front k2 = flushed_front c (k_front k1)"
      by (rule rob_flush_value[OF l(2), where c = c]) (simp add: l(1))
    have "k' = k2" using c l(3) True k2(1) by simp
    then show ?thesis using ds k2 True nr
      by (intro exI[of _ ds] exI[of _ rest]) (simp add: same_back_def dec_flush_def flushed_front_def fb_flush_def)
  next
    case False
    have "k' = k1\<lparr>k_rob := l\<rparr>" using c l(3) False by simp
    then show ?thesis using ds False nr l(1) by (intro exI[of _ ds] exI[of _ rest]) (auto simp: same_back_def)
  qed
qed
section \<open>Concrete instances\<close>

text \<open>
  A program of two additions and a halt, an emulator that knows these two instructions, and a small processor: two
  general reservation stations, one for memory and one for ports, six objects, a fetch buffer of eight bytes.
\<close>

definition demo_prog :: mem where
  "demo_prog = \<lparr>m_vector = [0x48, 0x01, 0xD8, 0x48, 0x01, 0xD8, 0xF4] @ replicate 25 0, m_size = 32\<rparr>"

definition demo_bochs :: bochs where
  "demo_bochs = \<lparr>bo_tables = \<lparr>tb_has_modrm = (\<lambda>op. op = 0x01), tb_reg = (\<lambda>_. Op_Plain 0), tb_mem = (\<lambda>_. Op_Plain 0)\<rparr>,
     bo_length = (\<lambda>bs. if hd bs = 0x48 then 3 else 1),
     bo_fields = (\<lambda>bs. \<lparr>if_nnn = 3, if_rm = 0, if_reg = 0, if_id = 0\<rparr>),
     bo_resolve = (\<lambda>bs x. 0),
     bo_execute = (\<lambda>bs x. Inr (Inr \<lparr>es_trap = None, es_halt = (hd bs = 0xF4), es_must_flush = False\<rparr>, None,
        if hd bs = 0x48 then set_gpr RAX (x_gpr x RAX + x_gpr x 3) x else x))\<rparr>"

definition demo_cfg :: cfg where
  "demo_cfg = \<lparr>cf_cycles = (\<lambda>_. 1), cf_detect_on_wb = False, cf_max_bytes = 8, cf_fetch_size = 8, cf_fetch_width = 4\<rparr>"

definition demo_env :: env where
  "demo_env = \<lparr>en_cfg = demo_cfg, en_bochs = demo_bochs, en_cycle = 0, en_junk = blank_vm\<rparr>"

definition blank_xst :: xst where
  "blank_xst = \<lparr>xs_opcode_bytes = 0, xs_first_opcode = 0, xs_second_opcode = 0, xs_addr_size = 0, xs_mem_operand = False, xs_opcode = 0,
    xs_offset = 0, xs_attr = 0, xs_rex = 0, xs_sse = 0, xs_has_modrm = False, xs_modrm = 0, xs_disp_bytes = 0, xs_has_sib = False,
    xs_sib = 0, xs_disp_got = 0, xs_im_got = 0, xs_im_bytes = 0, xs_prefixes = 0, xs_has_base = False, xs_base = 0, xs_has_index = False,
    xs_index = 0, xs_busy = False, xs_vaddr = 0, xs_length = 0, xs_inst = []\<rparr>"

definition blank_dec :: decoder where
  "blank_dec = \<lparr>dc_inst_id = 0, dc_mis = False, dc_buffered = replicate 7 0, dc_allocated = 0, dc_required = 0, dc_dispatched = 0,
    dc_busy = False, dc_bytes = 0, dc_handler = H_Dispatch, dc_saved = H_Dispatch, dc_opcodes = [], dc_addr = 0, dc_length = 0, dc_next = 0,
    dc_is_branch = False, dc_taken = False, dc_foresight = False, dc_target = 0, dc_branch_type = 0, dc_automatic = False,
    dc_exception = False, dc_exception_code = 0, dc_buffer_exception = 0, dc_is_trap = False, dc_trap_code = 0, dc_stop = False,
    dc_is_halt = False, dc_must_flush = False, dc_unexpected = False, dc_has_branch = False, dc_first_byte = False, dc_to_get = 0,
    dc_got = 0, dc_index = 0\<rparr>"

definition blank_slots :: "nat dl_el list" where
  "blank_slots = replicate 8 blank_slot"

definition demo_sizes :: sizes where
  "demo_sizes = \<lparr>sz_rs = 2, sz_ls = 1, sz_io = 1, sz_threshold = 2,
     sz_units = \<lparr>n_int_gen = 1, n_int_alu = 1, n_int_mul = 0, n_int_div = 0, n_branch = 1, n_transfer = 1, n_loadstore = 1\<rparr>,
     sz_start = 0, sz_boot = 7, sz_junk = blank_slots\<rparr>"

definition blank_core :: core where
  "blank_core = \<lparr>k_pool = (\<lambda>_. blank_uop), k_regs = (\<lambda>_. None),
     k_rs = \<lparr>rq_kind = Rs_Queue, rq_list = dl_created 0, rq_flag = (\<lambda>_. False)\<rparr>,
     k_ls = \<lparr>rq_kind = Ls_Queue, rq_list = dl_created 0, rq_flag = (\<lambda>_. False)\<rparr>,
     k_io = \<lparr>rq_kind = Io_Queue, rq_list = dl_created 0, rq_flag = (\<lambda>_. False)\<rparr>,
     k_units = func_units_new (sz_units demo_sizes), k_supply = dl_created 0, k_rob = dl_created 0, k_dec = blank_dec,
     k_icache = (\<lambda>_. blank_xst),
     k_front = \<lparr>fs_lane = lane_new (replicate 8 blank_byte) 8, fs_pc = 0, fs_cpu = page_cpu\<lparr>x_mem := demo_prog\<rparr>, fs_cache = demo_struct, fs_pred = No_Predictor\<rparr>,
     k_branches = (\<lambda>_. 0), k_flusher = None, k_running = True\<rparr>"

definition no_branch :: branch_response where "no_branch = \<lparr>rsp_is_branch = False, rsp_take = False, rsp_target = 0\<rparr>"

lemma demo_sizes_ok: "sizes_ok (en_cfg demo_env) demo_sizes blank_core"
  by (simp add: sizes_ok_def demo_env_def demo_cfg_def demo_sizes_def rob_size_def LIST_END_def blank_core_def blank_dec_def MAX_ALLOCATED_def lane_new_def)

lemma demo_fields: "fields_ok (en_bochs demo_env)"
  by (simp add: fields_ok_def demo_env_def demo_bochs_def)


text \<open>Two objects: one finished addition in the reorder buffer, the other in the supply.\<close>

definition demo_finished :: core where
  "demo_finished = blank_core\<lparr>k_pool := (\<lambda>_. blank_uop\<lparr>u_type := T_INT_ARITH, u_status := Ready, u_rb_el := Some 0\<rparr>),
     k_rs := \<lparr>rq_kind = Rs_Queue, rq_list = new_list 1, rq_flag = (\<lambda>_. False)\<rparr>,
     k_ls := \<lparr>rq_kind = Ls_Queue, rq_list = new_list 1, rq_flag = (\<lambda>_. False)\<rparr>,
     k_io := \<lparr>rq_kind = Io_Queue, rq_list = new_list 1, rq_flag = (\<lambda>_. False)\<rparr>,
     k_supply := fst (add_end 1 (new_list 2)), k_rob := fst (add_end 0 (new_list 2))\<rparr>"

lemma demo_one: "dl_inv (fst (add_end x (new_list 2 :: nat dlist)))" "entries (fst (add_end x (new_list 2 :: nat dlist))) = [(0, x)]"
  "dl_capacity (fst (add_end x (new_list 2 :: nat dlist))) = 2"
proof -
  have n: "(0 :: nat) < 2" "(2 :: nat) \<le> LIST_END" by (simp_all add: LIST_END_def)
  note l = new_list_inv[OF n, where ?'a = nat]
  obtain el where el: "add_end x (new_list 2 :: nat dlist) = (fst (add_end x (new_list 2)), Some el)"
    "dl_inv (fst (add_end x (new_list 2 :: nat dlist)))" "entries (fst (add_end x (new_list 2 :: nat dlist))) = [(el, x)]"
    "dl_capacity (fst (add_end x (new_list 2 :: nat dlist))) = 2"
    using push_end[OF l(1), of x] l(2,3) by (auto simp: elems_def)
  have "snd (add_end x (new_list 2 :: nat dlist)) = Some 0"
    by (simp add: add_end_def new_list_def LIST_END_def Let_def)
  then have "el = 0" using el(1) by (metis option.inject snd_conv)
  with el show "dl_inv (fst (add_end x (new_list 2 :: nat dlist)))" "entries (fst (add_end x (new_list 2 :: nat dlist))) = [(0, x)]"
    "dl_capacity (fst (add_end x (new_list 2 :: nat dlist))) = 2" by simp_all
qed
lemma demo_finished_fields:
  "k_dec demo_finished = blank_dec" "k_units demo_finished = func_units_new (sz_units demo_sizes)" "k_regs demo_finished = (\<lambda>_. None)"
  "u_of demo_finished p = blank_uop\<lparr>u_type := T_INT_ARITH, u_status := Ready, u_rb_el := Some 0\<rparr>"
  "entries (k_rob demo_finished) = [(0, 0)]" "elems (k_rob demo_finished) = [0]" "elems (k_supply demo_finished) = [1]"
  by (simp_all add: demo_finished_def blank_core_def demo_one elems_def)

lemma demo_finished_queues:
  "queue_inv h (k_queue q demo_finished)" "elems (rq_list (k_queue q demo_finished)) = []" "rq_kind (k_queue q demo_finished) = q"
  "\<not> rq_flag (k_queue q demo_finished) 0"
proof -
  have "dl_inv (new_list 1 :: nat dlist)" "entries (new_list 1 :: nat dlist) = []"
    using new_list_inv[of 1, where ?'a = nat] by (simp_all add: LIST_END_def)
  then show "queue_inv h (k_queue q demo_finished)" "elems (rq_list (k_queue q demo_finished)) = []" "rq_kind (k_queue q demo_finished) = q"
    "\<not> rq_flag (k_queue q demo_finished) 0"
    by (cases q; simp add: demo_finished_def queue_inv_def elems_def)+
qed

lemma demo_finished_inv: "pipe_inv 2 demo_finished"
proof -
  note f = demo_finished_fields and q = demo_finished_queues
  have h: "held blank_dec = []" "decoder_ok blank_dec" by (simp_all add: held_def decoder_ok_def blank_dec_def MAX_ALLOCATED_def)
  have run: "running (func_units_new c) = []" for c by (auto simp: running_def func_units_new_def all_units_def unit_of_def)
  have u: "u_dep_in (u_of demo_finished p) = []" "u_dep_out (u_of demo_finished p) = []" "u_status (u_of demo_finished p) = Ready"
    "u_resolved (u_of demo_finished p) = 0" for p by (simp_all add: f(4) blank_uop_def)
  have e: "\<not> in_edge (k_pool demo_finished) d i s j" "\<not> out_edge (k_pool demo_finished) s j d i" for d i s j
    by (simp_all add: in_edge_def out_edge_def u)
  have "lists_ok 2 demo_finished"
    using demo_one[of 0] demo_one[of 1] f(6,7) by (auto simp: lists_ok_def places_def f(1) h(1)) (simp_all add: demo_finished_def)
  moreover have "station_ok demo_finished r" for r using q by (simp add: station_ok_def)
  moreover have "rob_ok demo_finished" by (simp add: rob_ok_def f h blank_uop_def T_INT_ARITH_def)
  moreover have "units_ok demo_finished" by (simp add: units_ok_def f(2) run fu_inv_ops)
  ultimately have "core_inv 2 demo_finished" by (simp add: core_inv_def f(1) h)
  moreover have "edges_ok demo_finished" unfolding edges_ok_def counted_def open_deps_def
    by (intro conjI linkedI) (simp_all add: cut_edges e u)
  moreover have "waits_ok demo_finished" by (simp add: waits_ok_def u open_deps_def)
  moreover have "regs_ok demo_finished" by (simp add: regs_ok_def f)
  moreover have "port_ok demo_finished" using q(2,4)[of Io_Queue] f(6) by (simp add: port_ok_def)
  ultimately show ?thesis by (simp add: pipe_inv_def)
qed

lemma commit_retires_in_order_witness:
  "\<exists>k'. commit demo_cfg demo_finished = Inr k' \<and> elems (k_rob k') = [] \<and> elems (k_supply k') = [1, 0]"
proof -
  note f = demo_finished_fields
  have r: "retires (u_of demo_finished 0)" by (simp add: f(4) retires_def blank_uop_def)
  have "is_ok (commit_spec [0] demo_finished)"
    using r by (simp add: retires_def commit_effect_def Let_def blank_uop_def f(4) is_ok_def)
  then obtain k' where k': "commit demo_cfg demo_finished = Inr k'"
    using commit_value(1)[OF pipe_invD(1)[OF demo_finished_inv], of demo_cfg] no_dead_lock[OF demo_finished_inv] f(6)
    by (auto simp: is_ok_iff)
  obtain ds rest where d: "[0] = ds @ rest" "rest \<noteq> [] \<longrightarrow> \<not> retires (u_of demo_finished (hd rest))"
    "rest = [] \<longrightarrow> elems (k_rob k') = rest \<and> elems (k_supply k') = [1] @ ds"
    using commit_retires_in_order[OF demo_finished_inv k'] unfolding f(6,7) by (auto split: if_splits)
  then have "rest = [] \<and> ds = [0]" using r by (cases ds) auto
  then show ?thesis using d(3) k' by simp
qed

end
