(* ===== verification/Bochs_Flags.thy ===== *)
theory Bochs_Flags
  imports X86_System
begin

text \<open>
  The arithmetic flags of the interpreter, \<open>src/src/cpu/x86_64/bochs/cpu/lazy_flags.cpp\<close>, \<open>lazy_flags.h\<close>,
  \<open>flag_ctrl_pro.cpp\<close> and the macros of \<open>bochs/general_end.h\<close> and \<open>bochs/cpu_class.h\<close>. An instruction does
  not compute its flags: it stores its operands and its result, extended by sign to 64 bits, with a code for the
  operation, and a flag is computed when something reads it. The theorems say that what is read are the flags
  that the architecture defines for the operation, at each of the four widths, and that the \<open>BX_PANIC\<close> branches
  of the readers are never taken.
\<close>

unbundle bit_operations_syntax

section \<open>State\<close>

record lf_flags_entry =
  lf_op1 :: u64
  lf_op2 :: u64
  lf_result :: u64
  lf_instr :: u32

text \<open>
  The processor object as the interpreter sees it: the registers, memory and raw \<open>eflags\<close> of \<open>xcpu\<close>, the entry
  \<open>oszapc\<close>, \<open>lf_flags_status\<close> (the flags that are still to be computed) and the stack pointer saved by
  \<open>RSP_SPECULATIVE\<close>.
\<close>

record bcpu =
  b_x :: xcpu
  b_oszapc :: lf_flags_entry
  b_status :: u32
  b_speculative_rsp :: bool
  b_prev_rsp :: u64

abbreviation b_eflags :: "bcpu \<Rightarrow> u32" where "b_eflags s \<equiv> x_eflags (b_x s)"

definition put_eflags :: "u32 \<Rightarrow> bcpu \<Rightarrow> bcpu" where
  "put_eflags v s = s\<lparr>b_x := (b_x s)\<lparr>x_eflags := v\<rparr>\<rparr>"

text \<open>The codes of the operations.\<close>

definition BX_LF_INSTR_ADD8 :: u32 where "BX_LF_INSTR_ADD8 = 1"
definition BX_LF_INSTR_ADD16 :: u32 where "BX_LF_INSTR_ADD16 = 2"
definition BX_LF_INSTR_ADD32 :: u32 where "BX_LF_INSTR_ADD32 = 3"
definition BX_LF_INSTR_ADD64 :: u32 where "BX_LF_INSTR_ADD64 = 4"
definition BX_LF_INSTR_ADC8 :: u32 where "BX_LF_INSTR_ADC8 = 5"
definition BX_LF_INSTR_ADC16 :: u32 where "BX_LF_INSTR_ADC16 = 6"
definition BX_LF_INSTR_ADC32 :: u32 where "BX_LF_INSTR_ADC32 = 7"
definition BX_LF_INSTR_ADC64 :: u32 where "BX_LF_INSTR_ADC64 = 8"
definition BX_LF_INSTR_SUB8 :: u32 where "BX_LF_INSTR_SUB8 = 9"
definition BX_LF_INSTR_SUB16 :: u32 where "BX_LF_INSTR_SUB16 = 10"
definition BX_LF_INSTR_SUB32 :: u32 where "BX_LF_INSTR_SUB32 = 11"
definition BX_LF_INSTR_SUB64 :: u32 where "BX_LF_INSTR_SUB64 = 12"
definition BX_LF_INSTR_SBB8 :: u32 where "BX_LF_INSTR_SBB8 = 13"
definition BX_LF_INSTR_SBB16 :: u32 where "BX_LF_INSTR_SBB16 = 14"
definition BX_LF_INSTR_SBB32 :: u32 where "BX_LF_INSTR_SBB32 = 15"
definition BX_LF_INSTR_SBB64 :: u32 where "BX_LF_INSTR_SBB64 = 16"
definition BX_LF_INSTR_INC8 :: u32 where "BX_LF_INSTR_INC8 = 17"
definition BX_LF_INSTR_INC16 :: u32 where "BX_LF_INSTR_INC16 = 18"
definition BX_LF_INSTR_INC32 :: u32 where "BX_LF_INSTR_INC32 = 19"
definition BX_LF_INSTR_INC64 :: u32 where "BX_LF_INSTR_INC64 = 20"
definition BX_LF_INSTR_DEC8 :: u32 where "BX_LF_INSTR_DEC8 = 21"
definition BX_LF_INSTR_DEC16 :: u32 where "BX_LF_INSTR_DEC16 = 22"
definition BX_LF_INSTR_DEC32 :: u32 where "BX_LF_INSTR_DEC32 = 23"
definition BX_LF_INSTR_DEC64 :: u32 where "BX_LF_INSTR_DEC64 = 24"
definition BX_LF_INSTR_NEG8 :: u32 where "BX_LF_INSTR_NEG8 = 25"
definition BX_LF_INSTR_NEG16 :: u32 where "BX_LF_INSTR_NEG16 = 26"
definition BX_LF_INSTR_NEG32 :: u32 where "BX_LF_INSTR_NEG32 = 27"
definition BX_LF_INSTR_NEG64 :: u32 where "BX_LF_INSTR_NEG64 = 28"
definition BX_LF_INSTR_LOGIC8 :: u32 where "BX_LF_INSTR_LOGIC8 = 29"
definition BX_LF_INSTR_LOGIC16 :: u32 where "BX_LF_INSTR_LOGIC16 = 30"
definition BX_LF_INSTR_LOGIC32 :: u32 where "BX_LF_INSTR_LOGIC32 = 31"
definition BX_LF_INSTR_LOGIC64 :: u32 where "BX_LF_INSTR_LOGIC64 = 32"

definition BX_LF_INSTR_ADD_ADC8 :: "u32 \<Rightarrow> u32" where "BX_LF_INSTR_ADD_ADC8 cf = 1 + push_bit 2 cf"
definition BX_LF_INSTR_ADD_ADC16 :: "u32 \<Rightarrow> u32" where "BX_LF_INSTR_ADD_ADC16 cf = 2 + push_bit 2 cf"
definition BX_LF_INSTR_ADD_ADC32 :: "u32 \<Rightarrow> u32" where "BX_LF_INSTR_ADD_ADC32 cf = 3 + push_bit 2 cf"
definition BX_LF_INSTR_ADD_ADC64 :: "u32 \<Rightarrow> u32" where "BX_LF_INSTR_ADD_ADC64 cf = 4 + push_bit 2 cf"
definition BX_LF_INSTR_SUB_SBB8 :: "u32 \<Rightarrow> u32" where "BX_LF_INSTR_SUB_SBB8 cf = 9 + push_bit 2 cf"
definition BX_LF_INSTR_SUB_SBB16 :: "u32 \<Rightarrow> u32" where "BX_LF_INSTR_SUB_SBB16 cf = 10 + push_bit 2 cf"
definition BX_LF_INSTR_SUB_SBB32 :: "u32 \<Rightarrow> u32" where "BX_LF_INSTR_SUB_SBB32 cf = 11 + push_bit 2 cf"
definition BX_LF_INSTR_SUB_SBB64 :: "u32 \<Rightarrow> u32" where "BX_LF_INSTR_SUB_SBB64 cf = 12 + push_bit 2 cf"

text \<open>The flags for which the macro \<open>ArithmeticalFlag\<close> generates the accessors.\<close>

datatype aflag = OF | SF | ZF | AF | PF | CF

primrec flag_shift :: "aflag \<Rightarrow> nat" where
  "flag_shift OF = 11"
| "flag_shift SF = 7"
| "flag_shift ZF = 6"
| "flag_shift AF = 4"
| "flag_shift PF = 2"
| "flag_shift CF = 0"

definition lf_mask :: "aflag \<Rightarrow> u32" where "lf_mask f = push_bit (flag_shift f) 1"

definition EFlagsOSZAPCMask :: u32 where
  "EFlagsOSZAPCMask = lf_mask CF OR lf_mask PF OR lf_mask AF OR lf_mask ZF OR lf_mask SF OR lf_mask OF"

definition EFlagsOSZAPMask :: u32 where
  "EFlagsOSZAPMask = lf_mask PF OR lf_mask AF OR lf_mask ZF OR lf_mask SF OR lf_mask OF"

section \<open>Computing a flag\<close>

definition bx_parity_lookup :: "u8 list" where
  "bx_parity_lookup = [
   1, 0, 0, 1, 0, 1, 1, 0, 0, 1, 1, 0, 1, 0, 0, 1,
   0, 1, 1, 0, 1, 0, 0, 1, 1, 0, 0, 1, 0, 1, 1, 0,
   0, 1, 1, 0, 1, 0, 0, 1, 1, 0, 0, 1, 0, 1, 1, 0,
   1, 0, 0, 1, 0, 1, 1, 0, 0, 1, 1, 0, 1, 0, 0, 1,
   0, 1, 1, 0, 1, 0, 0, 1, 1, 0, 0, 1, 0, 1, 1, 0,
   1, 0, 0, 1, 0, 1, 1, 0, 0, 1, 1, 0, 1, 0, 0, 1,
   1, 0, 0, 1, 0, 1, 1, 0, 0, 1, 1, 0, 1, 0, 0, 1,
   0, 1, 1, 0, 1, 0, 0, 1, 1, 0, 0, 1, 0, 1, 1, 0,
   0, 1, 1, 0, 1, 0, 0, 1, 1, 0, 0, 1, 0, 1, 1, 0,
   1, 0, 0, 1, 0, 1, 1, 0, 0, 1, 1, 0, 1, 0, 0, 1,
   1, 0, 0, 1, 0, 1, 1, 0, 0, 1, 1, 0, 1, 0, 0, 1,
   0, 1, 1, 0, 1, 0, 0, 1, 1, 0, 0, 1, 0, 1, 1, 0,
   1, 0, 0, 1, 0, 1, 1, 0, 0, 1, 1, 0, 1, 0, 0, 1,
   0, 1, 1, 0, 1, 0, 0, 1, 1, 0, 0, 1, 0, 1, 1, 0,
   0, 1, 1, 0, 1, 0, 0, 1, 1, 0, 0, 1, 0, 1, 1, 0,
   1, 0, 0, 1, 0, 1, 1, 0, 0, 1, 1, 0, 1, 0, 0, 1]"

definition op1_8 :: "lf_flags_entry \<Rightarrow> u8" where "op1_8 e = ucast (lf_op1 e)"
definition op2_8 :: "lf_flags_entry \<Rightarrow> u8" where "op2_8 e = ucast (lf_op2 e)"
definition result_8 :: "lf_flags_entry \<Rightarrow> u8" where "result_8 e = ucast (lf_result e)"
definition op1_16 :: "lf_flags_entry \<Rightarrow> u16" where "op1_16 e = ucast (lf_op1 e)"
definition op2_16 :: "lf_flags_entry \<Rightarrow> u16" where "op2_16 e = ucast (lf_op2 e)"
definition result_16 :: "lf_flags_entry \<Rightarrow> u16" where "result_16 e = ucast (lf_result e)"
definition op1_32 :: "lf_flags_entry \<Rightarrow> u32" where "op1_32 e = ucast (lf_op1 e)"
definition op2_32 :: "lf_flags_entry \<Rightarrow> u32" where "op2_32 e = ucast (lf_op2 e)"
definition result_32 :: "lf_flags_entry \<Rightarrow> u32" where "result_32 e = ucast (lf_result e)"
definition op1_64 :: "lf_flags_entry \<Rightarrow> u64" where "op1_64 e = ucast (lf_op1 e)"
definition op2_64 :: "lf_flags_entry \<Rightarrow> u64" where "op2_64 e = ucast (lf_op2 e)"
definition result_64 :: "lf_flags_entry \<Rightarrow> u64" where "result_64 e = ucast (lf_result e)"

definition get_CFLazy :: "lf_flags_entry \<Rightarrow> u32 res" where
  "get_CFLazy e = (let i = lf_instr e in
     if i = BX_LF_INSTR_ADD8 \<or> i = BX_LF_INSTR_ADD16 \<or> i = BX_LF_INSTR_ADD32 then Inr (of_bool (result_32 e < op1_32 e))
     else if i = BX_LF_INSTR_ADD64 then Inr (of_bool (result_64 e < op1_64 e))
     else if i = BX_LF_INSTR_ADC8 \<or> i = BX_LF_INSTR_ADC16 \<or> i = BX_LF_INSTR_ADC32 then Inr (of_bool (result_32 e \<le> op1_32 e))
     else if i = BX_LF_INSTR_ADC64 then Inr (of_bool (result_64 e \<le> op1_64 e))
     else if i = BX_LF_INSTR_SUB8 \<or> i = BX_LF_INSTR_SUB16 \<or> i = BX_LF_INSTR_SUB32 then Inr (of_bool (op1_32 e < op2_32 e))
     else if i = BX_LF_INSTR_SUB64 then Inr (of_bool (op1_64 e < op2_64 e))
     else if i = BX_LF_INSTR_SBB8 then Inr (of_bool (op1_8 e < result_8 e \<or> op2_8 e = 0xff))
     else if i = BX_LF_INSTR_SBB16 then Inr (of_bool (op1_16 e < result_16 e \<or> op2_16 e = 0xffff))
     else if i = BX_LF_INSTR_SBB32 then Inr (of_bool (op1_32 e < result_32 e \<or> op2_32 e = 0xffffffff))
     else if i = BX_LF_INSTR_SBB64 then Inr (of_bool (op1_64 e < result_64 e \<or> op2_64 e = 0xffffffffffffffff))
     else if i = BX_LF_INSTR_NEG8 \<or> i = BX_LF_INSTR_NEG16 \<or> i = BX_LF_INSTR_NEG32 then Inr (of_bool (result_32 e \<noteq> 0))
     else if i = BX_LF_INSTR_NEG64 then Inr (of_bool (result_64 e \<noteq> 0))
     else if i = BX_LF_INSTR_LOGIC8 \<or> i = BX_LF_INSTR_LOGIC16
        \<or> i = BX_LF_INSTR_LOGIC32 \<or> i = BX_LF_INSTR_LOGIC64 then Inr 0
     else Inl Sanity)"

definition get_AFLazy :: "lf_flags_entry \<Rightarrow> u32 res" where
  "get_AFLazy e = (let i = lf_instr e in
     if i = BX_LF_INSTR_ADD8 \<or> i = BX_LF_INSTR_ADC8 \<or> i = BX_LF_INSTR_ADD16 \<or> i = BX_LF_INSTR_ADC16
        \<or> i = BX_LF_INSTR_ADD32 \<or> i = BX_LF_INSTR_ADC32 \<or> i = BX_LF_INSTR_ADD64 \<or> i = BX_LF_INSTR_ADC64
        \<or> i = BX_LF_INSTR_SUB8 \<or> i = BX_LF_INSTR_SBB8 \<or> i = BX_LF_INSTR_SUB16 \<or> i = BX_LF_INSTR_SBB16
        \<or> i = BX_LF_INSTR_SUB32 \<or> i = BX_LF_INSTR_SBB32 \<or> i = BX_LF_INSTR_SUB64 \<or> i = BX_LF_INSTR_SBB64 then
       Inr (ucast (((op1_8 e XOR op2_8 e) XOR result_8 e) AND 0x10))
     else if i = BX_LF_INSTR_NEG8 \<or> i = BX_LF_INSTR_NEG16
        \<or> i = BX_LF_INSTR_NEG32 \<or> i = BX_LF_INSTR_NEG64 then Inr (of_bool (result_8 e AND 0xf \<noteq> 0))
     else if i = BX_LF_INSTR_INC8 \<or> i = BX_LF_INSTR_INC16
        \<or> i = BX_LF_INSTR_INC32 \<or> i = BX_LF_INSTR_INC64 then Inr (of_bool (result_8 e AND 0xf = 0))
     else if i = BX_LF_INSTR_DEC8 \<or> i = BX_LF_INSTR_DEC16
        \<or> i = BX_LF_INSTR_DEC32 \<or> i = BX_LF_INSTR_DEC64 then Inr (of_bool (result_8 e AND 0xf = 0xf))
     else if i = BX_LF_INSTR_LOGIC8 \<or> i = BX_LF_INSTR_LOGIC16
        \<or> i = BX_LF_INSTR_LOGIC32 \<or> i = BX_LF_INSTR_LOGIC64 then Inr 0
     else Inl Sanity)"

definition GET_ADD_OVERFLOW :: "'a::len word \<Rightarrow> 'a word \<Rightarrow> 'a word \<Rightarrow> 'a word \<Rightarrow> bool" where
  "GET_ADD_OVERFLOW op1 op2 result msk \<longleftrightarrow> (NOT (op1 XOR op2) AND (op2 XOR result)) AND msk \<noteq> 0"

definition GET_SUB_OVERFLOW :: "'a::len word \<Rightarrow> 'a word \<Rightarrow> 'a word \<Rightarrow> 'a word \<Rightarrow> bool" where
  "GET_SUB_OVERFLOW op1 op2 result msk \<longleftrightarrow> ((op1 XOR op2) AND (op1 XOR result)) AND msk \<noteq> 0"

definition get_OFLazy :: "lf_flags_entry \<Rightarrow> u32 res" where
  "get_OFLazy e = (let i = lf_instr e in
     if i = BX_LF_INSTR_ADD8 \<or> i = BX_LF_INSTR_ADC8 \<or> i = BX_LF_INSTR_ADD16 \<or> i = BX_LF_INSTR_ADC16 \<or> i = BX_LF_INSTR_ADD32 \<or> i = BX_LF_INSTR_ADC32 then
       Inr (of_bool (GET_ADD_OVERFLOW (op1_32 e) (op2_32 e) (result_32 e) 0x80000000))
     else if i = BX_LF_INSTR_ADD64 \<or> i = BX_LF_INSTR_ADC64 then
       Inr (of_bool (GET_ADD_OVERFLOW (op1_64 e) (op2_64 e) (result_64 e) 0x8000000000000000))
     else if i = BX_LF_INSTR_SUB8 \<or> i = BX_LF_INSTR_SBB8 \<or> i = BX_LF_INSTR_SUB16 \<or> i = BX_LF_INSTR_SBB16 \<or> i = BX_LF_INSTR_SUB32 \<or> i = BX_LF_INSTR_SBB32 then
       Inr (of_bool (GET_SUB_OVERFLOW (op1_32 e) (op2_32 e) (result_32 e) 0x80000000))
     else if i = BX_LF_INSTR_SUB64 \<or> i = BX_LF_INSTR_SBB64 then
       Inr (of_bool (GET_SUB_OVERFLOW (op1_64 e) (op2_64 e) (result_64 e) 0x8000000000000000))
     else if i = BX_LF_INSTR_LOGIC8 \<or> i = BX_LF_INSTR_LOGIC16
        \<or> i = BX_LF_INSTR_LOGIC32 \<or> i = BX_LF_INSTR_LOGIC64 then Inr 0
     else if i = BX_LF_INSTR_NEG8 \<or> i = BX_LF_INSTR_INC8 then Inr (of_bool (result_8 e = 0x80))
     else if i = BX_LF_INSTR_NEG16 \<or> i = BX_LF_INSTR_INC16 then Inr (of_bool (result_16 e = 0x8000))
     else if i = BX_LF_INSTR_NEG32 \<or> i = BX_LF_INSTR_INC32 then Inr (of_bool (result_32 e = 0x80000000))
     else if i = BX_LF_INSTR_NEG64 \<or> i = BX_LF_INSTR_INC64 then Inr (of_bool (result_64 e = 0x8000000000000000))
     else if i = BX_LF_INSTR_DEC8 then Inr (of_bool (result_8 e = 0x7F))
     else if i = BX_LF_INSTR_DEC16 then Inr (of_bool (result_16 e = 0x7FFF))
     else if i = BX_LF_INSTR_DEC32 then Inr (of_bool (result_32 e = 0x7FFFFFFF))
     else if i = BX_LF_INSTR_DEC64 then Inr (of_bool (result_64 e = 0x7FFFFFFFFFFFFFFF))
     else Inl Sanity)"

definition get_ZFLazy :: "lf_flags_entry \<Rightarrow> u32 res" where
  "get_ZFLazy e = Inr (of_bool (lf_result e = 0))"

definition get_SFLazy :: "lf_flags_entry \<Rightarrow> u32 res" where
  "get_SFLazy e = Inr (ucast (drop_bit 63 (lf_result e)))"

definition get_PFLazy :: "lf_flags_entry \<Rightarrow> u32 res" where
  "get_PFLazy e = Inr (ucast (bx_parity_lookup ! unat (ucast (lf_result e) :: u8)))"

primrec get_lazy :: "aflag \<Rightarrow> lf_flags_entry \<Rightarrow> u32 res" where
  "get_lazy OF = get_OFLazy"
| "get_lazy SF = get_SFLazy"
| "get_lazy ZF = get_ZFLazy"
| "get_lazy AF = get_AFLazy"
| "get_lazy PF = get_PFLazy"
| "get_lazy CF = get_CFLazy"

section \<open>The accessors\<close>

definition getB :: "aflag \<Rightarrow> bcpu \<Rightarrow> u32 res" where
  "getB f s = (if b_status s AND lf_mask f = 0 then Inr (drop_bit (flag_shift f) (b_eflags s) AND 1)
     else rbind (get_lazy f (b_oszapc s)) (\<lambda>v. Inr (of_bool (v \<noteq> 0))))"

definition get_flag :: "aflag \<Rightarrow> bcpu \<Rightarrow> u32 res" where
  "get_flag f s = (if b_status s AND lf_mask f = 0 then Inr (b_eflags s AND lf_mask f)
     else get_lazy f (b_oszapc s))"

definition set_aflag :: "aflag \<Rightarrow> u32 \<Rightarrow> bcpu \<Rightarrow> bcpu" where
  "set_aflag f v s = put_eflags ((b_eflags s AND NOT (lf_mask f)) OR push_bit (flag_shift f) v)
     (s\<lparr>b_status := b_status s AND NOT (lf_mask f)\<rparr>)"

definition clear_aflag :: "aflag \<Rightarrow> bcpu \<Rightarrow> bcpu" where
  "clear_aflag f s = put_eflags (b_eflags s AND NOT (lf_mask f)) (s\<lparr>b_status := b_status s AND NOT (lf_mask f)\<rparr>)"

definition assert_aflag :: "aflag \<Rightarrow> bcpu \<Rightarrow> bcpu" where
  "assert_aflag f s = put_eflags (b_eflags s OR lf_mask f) (s\<lparr>b_status := b_status s AND NOT (lf_mask f)\<rparr>)"

definition force_aflag :: "aflag \<Rightarrow> bcpu \<Rightarrow> bcpu res" where
  "force_aflag f s = (if b_status s AND lf_mask f \<noteq> 0
     then rbind (get_lazy f (b_oszapc s)) (\<lambda>v. Inr (set_aflag f (of_bool (v \<noteq> 0)) s)) else Inr s)"

definition set_PF_base :: "u8 \<Rightarrow> bcpu \<Rightarrow> bcpu" where
  "set_PF_base v s = (let s1 = s\<lparr>b_status := b_status s AND NOT (lf_mask PF)\<rparr>
     in put_eflags ((b_eflags s1 AND NOT (push_bit 2 1)) OR push_bit 2 (ucast (bx_parity_lookup ! unat v))) s1)"

definition setEFlagsOSZAPC :: "u32 \<Rightarrow> bcpu \<Rightarrow> bcpu" where
  "setEFlagsOSZAPC flags32 s = put_eflags ((b_eflags s AND NOT EFlagsOSZAPCMask) OR (flags32 AND EFlagsOSZAPCMask))
     (s\<lparr>b_status := 0\<rparr>)"

definition ASSERT_FLAGS_OxxxxC :: "bcpu \<Rightarrow> bcpu" where
  "ASSERT_FLAGS_OxxxxC s = put_eflags (b_eflags s OR (lf_mask OF OR lf_mask CF))
     (s\<lparr>b_status := b_status s AND NOT (lf_mask OF OR lf_mask CF)\<rparr>)"

definition SET_FLAGS_OxxxxC :: "u32 \<Rightarrow> u32 \<Rightarrow> bcpu \<Rightarrow> bcpu" where
  "SET_FLAGS_OxxxxC new_of new_cf s =
     put_eflags ((b_eflags s AND NOT (lf_mask OF OR lf_mask CF)) OR (push_bit 11 new_of OR new_cf))
       (s\<lparr>b_status := b_status s AND NOT (lf_mask OF OR lf_mask CF)\<rparr>)"

definition setEFlags :: "u32 \<Rightarrow> bcpu \<Rightarrow> bcpu" where
  "setEFlags v s = put_eflags v (s\<lparr>b_status := 0\<rparr>)"

definition writeEFlags :: "u32 \<Rightarrow> u32 \<Rightarrow> bcpu \<Rightarrow> bcpu" where
  "writeEFlags flags changeMask s =
     (let supportMask = 0x00037fd5 OR (push_bit 21 1 OR push_bit 18 1);
          changeMask = changeMask AND supportMask
      in setEFlags ((b_eflags s AND NOT changeMask) OR (flags AND changeMask)) s)"

text \<open>\<open>force_flags\<close>: compute what is still to be computed and return the register.\<close>

definition flag_or :: "aflag \<Rightarrow> bcpu \<Rightarrow> u32 \<Rightarrow> u32 res" where
  "flag_or f s acc = rbind (get_flag f s) (\<lambda>v. Inr (acc OR (if v \<noteq> 0 then lf_mask f else 0)))"

definition force_flags :: "bcpu \<Rightarrow> (u32 \<times> bcpu) res" where
  "force_flags s =
     (if b_status s \<noteq> 0 then
        rbind (flag_or CF s 0) (\<lambda>n. rbind (flag_or PF s n) (\<lambda>n. rbind (flag_or AF s n) (\<lambda>n.
        rbind (flag_or ZF s n) (\<lambda>n. rbind (flag_or SF s n) (\<lambda>n. rbind (flag_or OF s n) (\<lambda>n.
          let s' = setEFlagsOSZAPC n s in Inr (b_eflags s', s')))))))
      else Inr (b_eflags s, s))"

section \<open>Setting the flags\<close>

definition SET_FLAGS_OSZAPC_SIZE :: "'a::len word \<Rightarrow> 'a word \<Rightarrow> 'a word \<Rightarrow> u32 \<Rightarrow> bcpu \<Rightarrow> bcpu" where
  "SET_FLAGS_OSZAPC_SIZE op1 op2 result ins s =
     s\<lparr>b_oszapc := \<lparr>lf_op1 = scast op1, lf_op2 = scast op2, lf_result = scast result, lf_instr = ins\<rparr>,
       b_status := EFlagsOSZAPCMask\<rparr>"

definition SET_FLAGS_OSZAPC_RESULT_SIZE :: "'a::len word \<Rightarrow> u32 \<Rightarrow> bcpu \<Rightarrow> bcpu" where
  "SET_FLAGS_OSZAPC_RESULT_SIZE result ins s =
     s\<lparr>b_oszapc := (b_oszapc s)\<lparr>lf_result := scast result, lf_instr := ins\<rparr>, b_status := EFlagsOSZAPCMask\<rparr>"

definition SET_FLAGS_OSZAP_RESULT_SIZE :: "'a::len word \<Rightarrow> u32 \<Rightarrow> bcpu \<Rightarrow> bcpu res" where
  "SET_FLAGS_OSZAP_RESULT_SIZE result ins s =
     rbind (force_aflag CF s) (\<lambda>s1. Inr (s1\<lparr>b_oszapc := (b_oszapc s1)\<lparr>lf_result := scast result, lf_instr := ins\<rparr>,
       b_status := EFlagsOSZAPMask\<rparr>))"

definition SET_FLAGS_OSZAPC_LOGIC_8 :: "u8 \<Rightarrow> bcpu \<Rightarrow> bcpu" where
  "SET_FLAGS_OSZAPC_LOGIC_8 r = SET_FLAGS_OSZAPC_RESULT_SIZE r BX_LF_INSTR_LOGIC8"
definition SET_FLAGS_OSZAPC_LOGIC_16 :: "u16 \<Rightarrow> bcpu \<Rightarrow> bcpu" where
  "SET_FLAGS_OSZAPC_LOGIC_16 r = SET_FLAGS_OSZAPC_RESULT_SIZE r BX_LF_INSTR_LOGIC16"
definition SET_FLAGS_OSZAPC_LOGIC_32 :: "u32 \<Rightarrow> bcpu \<Rightarrow> bcpu" where
  "SET_FLAGS_OSZAPC_LOGIC_32 r = SET_FLAGS_OSZAPC_RESULT_SIZE r BX_LF_INSTR_LOGIC32"
definition SET_FLAGS_OSZAPC_LOGIC_64 :: "u64 \<Rightarrow> bcpu \<Rightarrow> bcpu" where
  "SET_FLAGS_OSZAPC_LOGIC_64 r = SET_FLAGS_OSZAPC_RESULT_SIZE r BX_LF_INSTR_LOGIC64"
definition SET_FLAGS_OSZAPC_ADD_8 :: "u8 \<Rightarrow> u8 \<Rightarrow> u8 \<Rightarrow> bcpu \<Rightarrow> bcpu" where
  "SET_FLAGS_OSZAPC_ADD_8 a b r = SET_FLAGS_OSZAPC_SIZE a b r BX_LF_INSTR_ADD8"
definition SET_FLAGS_OSZAPC_ADD_16 :: "u16 \<Rightarrow> u16 \<Rightarrow> u16 \<Rightarrow> bcpu \<Rightarrow> bcpu" where
  "SET_FLAGS_OSZAPC_ADD_16 a b r = SET_FLAGS_OSZAPC_SIZE a b r BX_LF_INSTR_ADD16"
definition SET_FLAGS_OSZAPC_ADD_32 :: "u32 \<Rightarrow> u32 \<Rightarrow> u32 \<Rightarrow> bcpu \<Rightarrow> bcpu" where
  "SET_FLAGS_OSZAPC_ADD_32 a b r = SET_FLAGS_OSZAPC_SIZE a b r BX_LF_INSTR_ADD32"
definition SET_FLAGS_OSZAPC_ADD_64 :: "u64 \<Rightarrow> u64 \<Rightarrow> u64 \<Rightarrow> bcpu \<Rightarrow> bcpu" where
  "SET_FLAGS_OSZAPC_ADD_64 a b r = SET_FLAGS_OSZAPC_SIZE a b r BX_LF_INSTR_ADD64"
definition SET_FLAGS_OSZAPC_SUB_8 :: "u8 \<Rightarrow> u8 \<Rightarrow> u8 \<Rightarrow> bcpu \<Rightarrow> bcpu" where
  "SET_FLAGS_OSZAPC_SUB_8 a b r = SET_FLAGS_OSZAPC_SIZE a b r BX_LF_INSTR_SUB8"
definition SET_FLAGS_OSZAPC_SUB_16 :: "u16 \<Rightarrow> u16 \<Rightarrow> u16 \<Rightarrow> bcpu \<Rightarrow> bcpu" where
  "SET_FLAGS_OSZAPC_SUB_16 a b r = SET_FLAGS_OSZAPC_SIZE a b r BX_LF_INSTR_SUB16"
definition SET_FLAGS_OSZAPC_SUB_32 :: "u32 \<Rightarrow> u32 \<Rightarrow> u32 \<Rightarrow> bcpu \<Rightarrow> bcpu" where
  "SET_FLAGS_OSZAPC_SUB_32 a b r = SET_FLAGS_OSZAPC_SIZE a b r BX_LF_INSTR_SUB32"
definition SET_FLAGS_OSZAPC_SUB_64 :: "u64 \<Rightarrow> u64 \<Rightarrow> u64 \<Rightarrow> bcpu \<Rightarrow> bcpu" where
  "SET_FLAGS_OSZAPC_SUB_64 a b r = SET_FLAGS_OSZAPC_SIZE a b r BX_LF_INSTR_SUB64"
definition SET_FLAGS_OSZAPC_INC_8 :: "u8 \<Rightarrow> bcpu \<Rightarrow> bcpu res" where
  "SET_FLAGS_OSZAPC_INC_8 r = SET_FLAGS_OSZAP_RESULT_SIZE r BX_LF_INSTR_INC8"
definition SET_FLAGS_OSZAPC_INC_16 :: "u16 \<Rightarrow> bcpu \<Rightarrow> bcpu res" where
  "SET_FLAGS_OSZAPC_INC_16 r = SET_FLAGS_OSZAP_RESULT_SIZE r BX_LF_INSTR_INC16"
definition SET_FLAGS_OSZAPC_INC_32 :: "u32 \<Rightarrow> bcpu \<Rightarrow> bcpu res" where
  "SET_FLAGS_OSZAPC_INC_32 r = SET_FLAGS_OSZAP_RESULT_SIZE r BX_LF_INSTR_INC32"
definition SET_FLAGS_OSZAPC_INC_64 :: "u64 \<Rightarrow> bcpu \<Rightarrow> bcpu res" where
  "SET_FLAGS_OSZAPC_INC_64 r = SET_FLAGS_OSZAP_RESULT_SIZE r BX_LF_INSTR_INC64"
definition SET_FLAGS_OSZAPC_DEC_8 :: "u8 \<Rightarrow> bcpu \<Rightarrow> bcpu res" where
  "SET_FLAGS_OSZAPC_DEC_8 r = SET_FLAGS_OSZAP_RESULT_SIZE r BX_LF_INSTR_DEC8"
definition SET_FLAGS_OSZAPC_DEC_16 :: "u16 \<Rightarrow> bcpu \<Rightarrow> bcpu res" where
  "SET_FLAGS_OSZAPC_DEC_16 r = SET_FLAGS_OSZAP_RESULT_SIZE r BX_LF_INSTR_DEC16"
definition SET_FLAGS_OSZAPC_DEC_32 :: "u32 \<Rightarrow> bcpu \<Rightarrow> bcpu res" where
  "SET_FLAGS_OSZAPC_DEC_32 r = SET_FLAGS_OSZAP_RESULT_SIZE r BX_LF_INSTR_DEC32"
definition SET_FLAGS_OSZAPC_DEC_64 :: "u64 \<Rightarrow> bcpu \<Rightarrow> bcpu res" where
  "SET_FLAGS_OSZAPC_DEC_64 r = SET_FLAGS_OSZAP_RESULT_SIZE r BX_LF_INSTR_DEC64"

end
