(* ===== verification/Bochs_Flags_Spec.thy ===== *)
theory Bochs_Flags_Spec
  imports Bochs_Flags X86_Access
begin

text \<open>
  The flags that the architecture defines (\<open>add_flags\<close>, \<open>sub_flags\<close>, \<open>logic_flags\<close>) and the proof that the lazy
  representation of \<open>Bochs_Flags\<close> yields them: carries, overflow and the adjust flag of words of any width, the
  branches of the readers, the entries that each operation leaves, the accessors, and the two properties.
\<close>

section \<open>Words\<close>

lemma ucast_scast_64:
  assumes "LENGTH('a) \<le> LENGTH('b)" "LENGTH('b) \<le> 64"
  shows "(ucast (scast (x :: 'a::len word) :: u64) :: 'b::len word) = scast x"
  using assms by (intro bit_word_eqI) (auto simp: bit_simps min_def)

lemma ucast_scast_low:
  assumes "LENGTH('b) \<le> LENGTH('a)" "LENGTH('a) \<le> 64"
  shows "(ucast (scast (x :: 'a::len word) :: u64) :: 'b::len word) = ucast x"
proof (rule bit_word_eqI)
  fix n assume "n < LENGTH('b)"
  then have "LENGTH('a) - Suc 0 \<le> n \<Longrightarrow> n = LENGTH('a) - Suc 0" using assms by simp
  then show "bit (ucast (scast x :: u64) :: 'b word) n = bit (ucast x :: 'b word) n"
    using assms \<open>n < LENGTH('b)\<close> by (auto simp: bit_simps min_def)
qed

lemma half_double: "(2 :: int) ^ LENGTH('a::len) = 2 * 2 ^ (LENGTH('a) - 1)"
  by (metis One_nat_def len_gt_0 power_eq_if not_gr_zero)

lemma sint_uint_cases:
  fixes x :: "'a::len word"
  shows "sint x = (if sint x < 0 then uint x - 2 ^ LENGTH('a) else uint x)"
proof -
  have "sint x = (uint x + 2 ^ (LENGTH('a) - 1)) mod 2 ^ LENGTH('a) - 2 ^ (LENGTH('a) - 1)"
    by (simp add: sint_uint signed_take_bit_eq_take_bit_shift take_bit_eq_mod)
  moreover have "0 \<le> uint x" "uint x < 2 * 2 ^ (LENGTH('a) - 1)"
    using uint_lt2p[of x] half_double[where 'a = 'a] by simp_all
  ultimately show ?thesis unfolding half_double[where 'a = 'a] by (smt (verit) mod_pos_pos_trivial mod_add_self2 minus_mod_self2)
qed

lemma uint_scast_word:
  fixes x :: "'a::len word"
  assumes "LENGTH('a) \<le> LENGTH('b)"
  shows "uint (scast x :: 'b::len word) = (if sint x < 0 then sint x + 2 ^ LENGTH('b) else sint x)"
proof -
  have u: "uint (scast x :: 'b word) = sint x mod 2 ^ LENGTH('b)" by (simp only: scast_eq uint_word_of_int)
  have "- (2 ^ (LENGTH('a) - 1)) \<le> sint x" "sint x < 2 ^ (LENGTH('a) - 1)"
    using sint_ge[of x] sint_less[of x] by simp_all
  moreover have "(2 :: int) ^ (LENGTH('a) - 1) \<le> 2 ^ (LENGTH('b) - 1)" using assms by (simp add: diff_le_mono)
  ultimately have "- (2 ^ LENGTH('b)) \<le> sint x" "sint x < 2 ^ LENGTH('b)" unfolding half_double[where 'a = 'b] by linarith+
  then show ?thesis unfolding u by (smt (verit) mod_pos_pos_trivial mod_add_self2)
qed

lemma scast_less:
  fixes x y :: "'a::len word"
  assumes "LENGTH('a) \<le> LENGTH('b)"
  shows "(scast x :: 'b::len word) < scast y \<longleftrightarrow> x < y"
proof -
  have l: "(2 :: int) ^ LENGTH('a) \<le> 2 ^ LENGTH('b)" using assms by simp
  have s: "- (2 ^ (LENGTH('a) - 1)) \<le> sint x" "sint x < 2 ^ (LENGTH('a) - 1)"
    "- (2 ^ (LENGTH('a) - 1)) \<le> sint y" "sint y < 2 ^ (LENGTH('a) - 1)"
    using sint_ge[of x] sint_less[of x] sint_ge[of y] sint_less[of y] by simp_all
  have u: "0 \<le> uint x" "0 \<le> uint y" by simp_all
  show ?thesis
    unfolding word_less_def uint_scast_word[OF assms]
    using l s u sint_uint_cases[of x] sint_uint_cases[of y] half_double[where 'a = 'a]
    by (cases "sint x < 0"; cases "sint y < 0") (simp_all only: if_True if_False, linarith+)
qed

lemma scast_le:
  fixes x y :: "'a::len word"
  assumes "LENGTH('a) \<le> LENGTH('b)"
  shows "(scast x :: 'b::len word) \<le> scast y \<longleftrightarrow> x \<le> y"
  using scast_less[OF assms, of y x] by (simp add: not_less[symmetric])

lemma sint_neg_bit:
  fixes x :: "'a::len word"
  shows "sint x < 0 \<longleftrightarrow> bit x (LENGTH('a) - 1)"
  by (simp add: bit_last_iff)

lemma bit_scast_top:
  fixes x :: "'a::len word"
  assumes "LENGTH('a) \<le> LENGTH('b)"
  shows "bit (scast x :: 'b::len word) (LENGTH('b) - 1) \<longleftrightarrow> sint x < 0"
  using assms unfolding sint_neg_bit by (auto simp: bit_simps min_def not_less)

text \<open>Signed values wrap around at half the range.\<close>

lemma sint_wrap:
  fixes n :: int
  assumes "- (2 * 2 ^ (LENGTH('a) - 1)) \<le> n" "n < 2 * 2 ^ (LENGTH('a) - 1)"
  shows "sint (word_of_int n :: 'a::len word) =
    (if n < - (2 ^ (LENGTH('a) - 1)) then n + 2 * 2 ^ (LENGTH('a) - 1)
     else if n < 2 ^ (LENGTH('a) - 1) then n else n - 2 * 2 ^ (LENGTH('a) - 1))"
proof -
  define N :: int where "N = 2 ^ (LENGTH('a) - 1)"
  have "sint (word_of_int n :: 'a word) = signed_take_bit (LENGTH('a) - 1) n" by (simp add: sint_sbintrunc')
  also have "\<dots> = (n + N) mod (2 * N) - N"
    using half_double[where 'a = 'a] by (simp add: N_def signed_take_bit_eq_take_bit_shift take_bit_eq_mod)
  also have "\<dots> = (if n < - N then n + 2 * N else if n < N then n else n - 2 * N)"
    using assms unfolding N_def[symmetric] by (smt (verit) mod_pos_pos_trivial mod_add_self2 minus_mod_self2)
  finally show ?thesis unfolding N_def .
qed

section \<open>Carry, overflow and adjust\<close>

lemma mod_once: "(x :: nat) < 2 * n \<Longrightarrow> x mod n = (if x < n then x else x - n)"
  by (simp add: le_mod_geq)

lemma carry_add:
  fixes a b :: "'a::len word"
  shows "a + b < a \<longleftrightarrow> 2 ^ LENGTH('a) \<le> unat a + unat b"
    and "a + b + 1 \<le> a \<longleftrightarrow> 2 ^ LENGTH('a) \<le> unat a + unat b + 1"
proof -
  define N :: nat where "N = 2 ^ LENGTH('a)"
  have l: "unat a < N" "unat b < N" using unsigned_less[of a, where ?'a = nat] unsigned_less[of b, where ?'a = nat]
    by (simp_all add: N_def)
  have "unat (a + b) = (unat a + unat b) mod N" "unat (a + b + 1) = (unat a + unat b + 1) mod N"
    unfolding N_def by (simp_all add: unat_word_ariths mod_simps)
  then show "a + b < a \<longleftrightarrow> 2 ^ LENGTH('a) \<le> unat a + unat b"
    "a + b + 1 \<le> a \<longleftrightarrow> 2 ^ LENGTH('a) \<le> unat a + unat b + 1"
    using l mod_once[of "unat a + unat b" N] mod_once[of "unat a + unat b + 1" N]
    unfolding word_less_nat_alt word_le_nat_alt N_def[symmetric] by (simp_all split: if_splits)
qed

lemma borrow_sub:
  fixes a b :: "'a::len word"
  assumes "unat m = 2 ^ LENGTH('a) - 1"
  shows "a < a - (b + 1) \<or> b = m \<longleftrightarrow> unat a < unat b + 1"
proof -
  define N :: nat where "N = 2 ^ LENGTH('a)"
  have l: "unat a < N" "unat b < N" using unsigned_less[of a, where ?'a = nat] unsigned_less[of b, where ?'a = nat]
    by (simp_all add: N_def)
  have e: "b = m \<longleftrightarrow> unat b = N - 1" using assms by (simp add: word_unat_eq_iff N_def)
  show ?thesis
  proof (cases "b = m")
    case True
    then show ?thesis using e l by simp
  next
    case False
    then have "unat b + 1 < N" using e l by simp
    then have u: "unat (b + 1) = unat b + 1" unfolding N_def by (rule unat_plus_1)
    show ?thesis
    proof (cases "unat a < unat b + 1")
      case True
      then have "a < b + 1" using u by (simp add: word_less_nat_alt)
      then have "unat (a - (b + 1)) = N + unat a - unat (b + 1)" unfolding N_def
        by (simp add: unat_sub_if' word_le_nat_alt word_less_nat_alt)
      then have "a < a - (b + 1)" using u \<open>unat b + 1 < N\<close> unfolding word_less_nat_alt by linarith
      then show ?thesis using True by simp
    next
      case le: False
      then have "unat (a - (b + 1)) = unat a - (unat b + 1)" using u by (simp add: unat_sub_if' word_le_nat_alt)
      then show ?thesis using le False by (simp add: word_less_nat_alt)
    qed
  qed
qed

lemma word_of_sint_add: "(a :: 'a::len word) + b + of_bool c = word_of_int (sint a + sint b + of_bool c)"
  by (simp add: of_bool_def)

lemma word_of_sint_sub: "(a :: 'a::len word) - (b + of_bool c) = word_of_int (sint a - sint b - of_bool c)"
  by (simp add: of_bool_def)

definition signed_range :: "'a::len itself \<Rightarrow> int set" where
  "signed_range _ = {- (2 ^ (LENGTH('a) - 1)) ..< 2 ^ (LENGTH('a) - 1)}"

lemma sint_range: "sint (a :: 'a::len word) \<in> signed_range TYPE('a)"
  using sint_ge[of a] sint_less[of a] by (simp add: signed_range_def)

lemma overflow_add:
  fixes a b :: "'a::len word"
  shows "(sint a < 0) = (sint b < 0) \<and> (sint b < 0) \<noteq> (sint (a + b + of_bool c) < 0)
    \<longleftrightarrow> sint a + sint b + of_bool c \<notin> signed_range TYPE('a)"
proof -
  define N :: int where "N = 2 ^ (LENGTH('a) - 1)"
  have r: "- N \<le> sint a" "sint a < N" "- N \<le> sint b" "sint b < N" "0 < N"
    using sint_range[of a] sint_range[of b] by (simp_all add: signed_range_def N_def)
  have "sint (a + b + of_bool c) = (if sint a + sint b + of_bool c < - N then sint a + sint b + of_bool c + 2 * N
     else if sint a + sint b + of_bool c < N then sint a + sint b + of_bool c else sint a + sint b + of_bool c - 2 * N)"
    unfolding word_of_sint_add N_def by (rule sint_wrap) (use r in \<open>cases c; simp add: N_def\<close>)+
  then show ?thesis using r unfolding signed_range_def N_def[symmetric] by (cases c) auto
qed

lemma overflow_sub:
  fixes a b :: "'a::len word"
  shows "(sint a < 0) \<noteq> (sint b < 0) \<and> (sint a < 0) \<noteq> (sint (a - (b + of_bool c)) < 0)
    \<longleftrightarrow> sint a - sint b - of_bool c \<notin> signed_range TYPE('a)"
proof -
  define N :: int where "N = 2 ^ (LENGTH('a) - 1)"
  have r: "- N \<le> sint a" "sint a < N" "- N \<le> sint b" "sint b < N" "0 < N"
    using sint_range[of a] sint_range[of b] by (simp_all add: signed_range_def N_def)
  have "sint (a - (b + of_bool c)) = (if sint a - sint b - of_bool c < - N then sint a - sint b - of_bool c + 2 * N
     else if sint a - sint b - of_bool c < N then sint a - sint b - of_bool c else sint a - sint b - of_bool c - 2 * N)"
    unfolding word_of_sint_sub N_def by (rule sint_wrap) (use r in \<open>cases c; simp add: N_def\<close>)+
  then show ?thesis using r unfolding signed_range_def N_def[symmetric] by (cases c) auto
qed

lemma bit4_split:
  fixes d e p q c :: nat
  assumes "p < 16" "q < 16" "c \<le> 1"
  shows "odd ((16 * d + p + (16 * e + q) + c) div 16) \<longleftrightarrow> (odd d \<noteq> odd e) \<noteq> (16 \<le> p + q + c)"
proof -
  have "(p + q + c) div 16 = (if 16 \<le> p + q + c then 1 else 0)" using assms by (simp add: div_nat_eqI)
  moreover have "16 * d + p + (16 * e + q) + c = 16 * (d + e) + (p + q + c)" by simp
  then have "(16 * d + p + (16 * e + q) + c) div 16 = (16 * (d + e) + (p + q + c)) div 16" by (simp only:)
  then have "(16 * d + p + (16 * e + q) + c) div 16 = d + e + (p + q + c) div 16" by simp
  ultimately show ?thesis by auto
qed

lemma bit4_nat:
  fixes a b c :: nat
  assumes "c \<le> 1"
  shows "odd ((a + b + c) div 16) \<longleftrightarrow> (odd (a div 16) \<noteq> odd (b div 16)) \<noteq> (16 \<le> a mod 16 + b mod 16 + c)"
  using bit4_split[of "a mod 16" "b mod 16" c "a div 16" "b div 16"] assms by simp

lemma bit4_unat: "bit (a :: 'a::len word) 4 \<longleftrightarrow> odd (unat a div 16)"
proof -
  have "bit a 4 \<longleftrightarrow> bit (unat a) 4" by (simp add: bit_unsigned_iff)
  then show ?thesis by (simp add: bit_iff_odd)
qed

lemma adjust_add:
  fixes a b :: "'a::len word"
  assumes "8 \<le> LENGTH('a)"
  shows "(bit a 4 \<noteq> bit b 4) \<noteq> bit (a + b + of_bool c) 4 \<longleftrightarrow> 16 \<le> unat a mod 16 + unat b mod 16 + of_bool c"
    and "unat (a + b + of_bool c) mod 16 = (unat a mod 16 + unat b mod 16 + of_bool c) mod 16"
proof -
  define k where "k = LENGTH('a) - 5"
  have k: "LENGTH('a) = 5 + k" using assms by (simp add: k_def)
  define M :: nat where "M = 2 ^ k"
  have M: "(2 :: nat) ^ LENGTH('a) = 16 * (2 * M)" unfolding k M_def by (simp add: power_add)
  have u: "unat (a + b + of_bool c) = (unat a + unat b + of_bool c) mod (16 * (2 * M))"
    unfolding M[symmetric] by (cases c) (simp_all add: unat_word_ariths mod_simps)
  show "unat (a + b + of_bool c) mod 16 = (unat a mod 16 + unat b mod 16 + of_bool c) mod 16"
    unfolding u mod_mod_cancel[OF dvd_triv_left] by (metis mod_add_left_eq mod_add_eq)
  have "odd (unat (a + b + of_bool c) div 16) \<longleftrightarrow> odd ((unat a + unat b + of_bool c) div 16)"
    unfolding u by (simp only: mod_mult_div[of 16, simplified] dvd_mod_iff dvd_triv_left)
  then show "(bit a 4 \<noteq> bit b 4) \<noteq> bit (a + b + of_bool c) 4 \<longleftrightarrow> 16 \<le> unat a mod 16 + unat b mod 16 + of_bool c"
    unfolding bit4_unat using bit4_nat[of "of_bool c" "unat a" "unat b"] by (cases c) auto
qed

lemma borrow_nat:
  fixes x y c :: nat
  assumes "x < 16" "y < 16" "c \<le> 1"
  shows "16 \<le> x + y + c \<longleftrightarrow> (x + y + c) mod 16 < y + c"
proof (cases "16 \<le> x + y + c")
  case True
  then have "(x + y + c) mod 16 = x + y + c - 16" using assms by (simp add: le_mod_geq)
  then show ?thesis using True assms by simp
qed simp

lemma adjust_sub:
  fixes a b :: "'a::len word"
  assumes "8 \<le> LENGTH('a)"
  shows "(bit a 4 \<noteq> bit b 4) \<noteq> bit (a - (b + of_bool c)) 4 \<longleftrightarrow> unat a mod 16 < unat b mod 16 + of_bool c"
proof -
  define r where "r = a - (b + of_bool c)"
  have a: "a = r + b + of_bool c" unfolding r_def by simp
  have e: "(bit r 4 \<noteq> bit b 4) \<noteq> bit a 4 \<longleftrightarrow> 16 \<le> unat r mod 16 + unat b mod 16 + of_bool c"
    using adjust_add(1)[OF assms, of r b c] a by simp
  moreover have "unat a mod 16 = (unat r mod 16 + unat b mod 16 + of_bool c) mod 16"
    using adjust_add(2)[OF assms, of r b c] a by simp
  ultimately have "16 \<le> unat r mod 16 + unat b mod 16 + of_bool c \<longleftrightarrow> unat a mod 16 < unat b mod 16 + of_bool c"
    using borrow_nat[of "unat r mod 16" "unat b mod 16" "of_bool c"] by simp
  then show ?thesis using e unfolding r_def[symmetric] by blast
qed


lemmas lf_codes = BX_LF_INSTR_ADD8_def BX_LF_INSTR_ADD16_def BX_LF_INSTR_ADD32_def BX_LF_INSTR_ADD64_def BX_LF_INSTR_ADC8_def BX_LF_INSTR_ADC16_def
  BX_LF_INSTR_ADC32_def BX_LF_INSTR_ADC64_def BX_LF_INSTR_SUB8_def BX_LF_INSTR_SUB16_def BX_LF_INSTR_SUB32_def BX_LF_INSTR_SUB64_def
  BX_LF_INSTR_SBB8_def BX_LF_INSTR_SBB16_def BX_LF_INSTR_SBB32_def BX_LF_INSTR_SBB64_def BX_LF_INSTR_INC8_def BX_LF_INSTR_INC16_def
  BX_LF_INSTR_INC32_def BX_LF_INSTR_INC64_def BX_LF_INSTR_DEC8_def BX_LF_INSTR_DEC16_def BX_LF_INSTR_DEC32_def BX_LF_INSTR_DEC64_def
  BX_LF_INSTR_NEG8_def BX_LF_INSTR_NEG16_def BX_LF_INSTR_NEG32_def BX_LF_INSTR_NEG64_def BX_LF_INSTR_LOGIC8_def
  BX_LF_INSTR_LOGIC16_def BX_LF_INSTR_LOGIC32_def BX_LF_INSTR_LOGIC64_def

section \<open>The flags of the architecture\<close>

definition even_ones :: "'a::len word \<Rightarrow> bool" where
  "even_ones r \<longleftrightarrow> even (card {i. i < 8 \<and> bit r i})"

definition result_flag :: "'a::len word \<Rightarrow> aflag \<Rightarrow> bool" where
  "result_flag r f = (case f of SF \<Rightarrow> sint r < 0 | ZF \<Rightarrow> r = 0 | PF \<Rightarrow> even_ones r | _ \<Rightarrow> False)"

definition add_flags :: "'a::len word \<Rightarrow> 'a word \<Rightarrow> bool \<Rightarrow> aflag \<Rightarrow> bool" where
  "add_flags a b c f = (case f of
     OF \<Rightarrow> sint a + sint b + of_bool c \<notin> signed_range TYPE('a)
   | AF \<Rightarrow> 16 \<le> unat a mod 16 + unat b mod 16 + of_bool c
   | CF \<Rightarrow> 2 ^ LENGTH('a) \<le> unat a + unat b + of_bool c
   | _ \<Rightarrow> result_flag (a + b + of_bool c) f)"

definition sub_flags :: "'a::len word \<Rightarrow> 'a word \<Rightarrow> bool \<Rightarrow> aflag \<Rightarrow> bool" where
  "sub_flags a b c f = (case f of
     OF \<Rightarrow> sint a - sint b - of_bool c \<notin> signed_range TYPE('a)
   | AF \<Rightarrow> unat a mod 16 < unat b mod 16 + of_bool c
   | CF \<Rightarrow> unat a < unat b + of_bool c
   | _ \<Rightarrow> result_flag (a - (b + of_bool c)) f)"

text \<open>\<open>computes e fl\<close>: the readers answer with the flags \<open>fl\<close> when they compute them from the entry \<open>e\<close>.\<close>

definition computes :: "lf_flags_entry \<Rightarrow> (aflag \<Rightarrow> bool) \<Rightarrow> bool" where
  "computes e fl \<longleftrightarrow> (\<forall>f. \<exists>v. get_lazy f e = Inr v \<and> (v \<noteq> 0) = fl f)"

definition shows_flags :: "bcpu \<Rightarrow> (aflag \<Rightarrow> bool) \<Rightarrow> bool" where
  "shows_flags s fl \<longleftrightarrow> (\<forall>f. getB f s = Inr (of_bool (fl f)))"

definition ones8 :: "int \<Rightarrow> int" where
  "ones8 x = x mod 2 + x div 2 mod 2 + x div 4 mod 2 + x div 8 mod 2 + x div 16 mod 2 + x div 32 mod 2
     + x div 64 mod 2 + x div 128 mod 2"

lemma parity_table: "map (\<lambda>x. of_bool (even (ones8 x))) [0..255] = bx_parity_lookup"
  by code_simp

lemma sum_8: "(\<Sum>i\<in>{..<(8 :: nat)}. g i) = g 0 + g 1 + g 2 + g 3 + g 4 + g 5 + g 6 + (g 7 :: int)"
  by (simp add: eval_nat_numeral)

lemma pow8: "(2 :: int) ^ 0 = 1" "(2 :: int) ^ 1 = 2" "(2 :: int) ^ 2 = 4" "(2 :: int) ^ 3 = 8" "(2 :: int) ^ 4 = 16"
  "(2 :: int) ^ 5 = 32" "(2 :: int) ^ 6 = 64" "(2 :: int) ^ 7 = 128" "x div (1 :: int) = x"
  by simp_all

lemma ones8_card: "ones8 (uint (x :: u8)) = int (card {i. i < 8 \<and> bit x i})"
proof -
  have b: "of_bool (bit x i) = uint x div 2 ^ i mod 2" for i
  proof -
    have 1: "bit (uint x) i = bit x i" by (simp add: bit_unsigned_iff)
    have 2: "bit (uint x) i = odd (uint x div 2 ^ i)" by (rule bit_iff_odd)
    show ?thesis by (simp only: mod_2_eq_odd 2[symmetric] 1)
  qed
  have "int (card {i. i < 8 \<and> bit x i}) = (\<Sum>i\<in>{..<8}. of_bool (bit x i))"
  proof -
    have "{i. i < 8 \<and> bit x i} = {..<(8 :: nat)} \<inter> {i. bit x i}" by auto
    moreover have "finite {..<(8 :: nat)}" by (rule finite_lessThan)
    ultimately show ?thesis by (metis sum_of_bool_eq)
  qed
  also have "\<dots> = ones8 (uint x)"
    unfolding ones8_def sum_8 b by (simp only: pow8)
  finally show ?thesis ..
qed

lemma parity_lookup: "bx_parity_lookup ! unat (x :: u8) \<noteq> 0 \<longleftrightarrow> even_ones x"
proof -
  have "unat x < 256" using unsigned_less[of x, where ?'a = nat] by simp
  moreover have "[0..255] ! unat x = uint x" by (subst nth_upto) (use calculation uint_lt2p[of x] in simp_all)
  ultimately have "bx_parity_lookup ! unat x = of_bool (even (ones8 (uint x)))"
    unfolding parity_table[symmetric] by (simp add: nth_map)
  then show ?thesis by (simp add: ones8_card even_ones_def)
qed

lemma result_flags_computed:
  fixes r :: "'a::len word"
  assumes "8 \<le> LENGTH('a)" "LENGTH('a) \<le> 64" "lf_result e = scast r" "f \<in> {SF, ZF, PF}"
  shows "\<exists>v. get_lazy f e = Inr v \<and> (v \<noteq> 0) = result_flag r f"
proof -
  have z: "(scast r :: u64) = 0 \<longleftrightarrow> r = 0"
    using scast_le[where 'b = 64, of r 0] assms(2) by simp
  have "bit (scast r :: u64) 63 \<longleftrightarrow> sint r < 0" using bit_scast_top[where 'b = 64, of r] assms(2) by simp
  then have s: "(ucast (drop_bit 63 (scast r :: u64)) :: u32) \<noteq> 0 \<longleftrightarrow> sint r < 0"
    by (subst bit_eq_iff) (auto simp: bit_simps; metis bit_imp_le_length)
  have "even_ones (ucast r :: u8) = even_ones r"
  proof -
    have "{i. i < 8 \<and> bit (ucast r :: u8) i} = {i. i < 8 \<and> bit r i}" by (auto simp: bit_simps)
    then show ?thesis by (simp add: even_ones_def)
  qed
  then have p: "(ucast (bx_parity_lookup ! unat (ucast (scast r :: u64) :: u8)) :: u32) \<noteq> 0 \<longleftrightarrow> even_ones r"
    using parity_lookup[of "ucast r"] ucast_scast_low[where 'b = 8, of r] assms(1,2) by simp
  show ?thesis using assms(3,4) z s p
    by (auto simp: get_SFLazy_def get_ZFLazy_def get_PFLazy_def result_flag_def)
qed

section \<open>What the readers compute\<close>

lemma and_top:
  fixes x :: "'b::len word"
  shows "x AND 2 ^ (LENGTH('b) - 1) \<noteq> 0 \<longleftrightarrow> bit x (LENGTH('b) - 1)"
  by (simp add: and_exp_eq_0_iff_not_bit)

lemma add_overflow_scast:
  fixes a b :: "'a::len word"
  assumes "LENGTH('a) \<le> LENGTH('b)"
  shows "GET_ADD_OVERFLOW (scast a :: 'b::len word) (scast b) (scast (a + b + of_bool c)) (2 ^ (LENGTH('b) - 1))
    \<longleftrightarrow> sint a + sint b + of_bool c \<notin> signed_range TYPE('a)"
  unfolding GET_ADD_OVERFLOW_def and_top overflow_add[symmetric] bit_scast_top[where 'b = 'b, OF assms, symmetric]
  by (auto simp: bit_and_iff bit_xor_iff bit_not_iff)

lemma sub_overflow_scast:
  fixes a b :: "'a::len word"
  assumes "LENGTH('a) \<le> LENGTH('b)"
  shows "GET_SUB_OVERFLOW (scast a :: 'b::len word) (scast b) (scast (a - (b + of_bool c))) (2 ^ (LENGTH('b) - 1))
    \<longleftrightarrow> sint a - sint b - of_bool c \<notin> signed_range TYPE('a)"
  unfolding GET_SUB_OVERFLOW_def and_top overflow_sub[symmetric] bit_scast_top[where 'b = 'b, OF assms, symmetric]
  by (auto simp: bit_and_iff bit_xor_iff)

lemma adjust_bit:
  fixes a b r :: "'a::len word"
  assumes "8 \<le> LENGTH('a)" "LENGTH('a) \<le> 64"
  shows "(ucast ((((ucast (scast a :: u64) :: u8) XOR ucast (scast b :: u64)) XOR ucast (scast r :: u64)) AND 0x10) :: u32) \<noteq> 0
    \<longleftrightarrow> (bit a 4 \<noteq> bit b 4) \<noteq> bit r 4"
proof -
  have h: "(ucast (scast x :: u64) :: u8) = ucast x" for x :: "'a word" by (rule ucast_scast_low) (use assms in simp_all)
  have g: "(ucast (x AND 0x10) :: u32) \<noteq> 0 \<longleftrightarrow> bit x 4" for x :: u8
  proof -
    have "(ucast (x AND 0x10) :: u32) = 0 \<longleftrightarrow> x AND 2 ^ 4 = 0" by simp
    then show ?thesis by (simp only: and_exp_eq_0_iff_not_bit not_not)
  qed
  show ?thesis unfolding h g using assms by (auto simp: bit_xor_iff bit_ucast_iff)
qed

text \<open>What the flags OF, AF and CF of an entry are, and the entry shows all six.\<close>

lemma computesI:
  fixes r :: "'a::len word"
  assumes "8 \<le> LENGTH('a)" "LENGTH('a) \<le> 64" "lf_result e = scast r"
    and "\<And>f. f \<in> {SF, ZF, PF} \<Longrightarrow> fl f = result_flag r f"
    and "\<exists>v. get_OFLazy e = Inr v \<and> (v \<noteq> 0) = fl OF"
    and "\<exists>v. get_AFLazy e = Inr v \<and> (v \<noteq> 0) = fl AF"
    and "\<exists>v. get_CFLazy e = Inr v \<and> (v \<noteq> 0) = fl CF"
  shows "computes e fl"
  unfolding computes_def
proof
  fix f
  show "\<exists>v. get_lazy f e = Inr v \<and> (v \<noteq> 0) = fl f"
    using result_flags_computed[OF assms(1-3), of f] assms(4)[of f] assms(5-7) by (cases f) simp_all
qed

lemma add_flags_result: "f \<in> {SF, ZF, PF} \<Longrightarrow> add_flags a b c f = result_flag (a + b + of_bool c) f"
  by (auto simp: add_flags_def)

lemma sub_flags_result: "f \<in> {SF, ZF, PF} \<Longrightarrow> sub_flags a b c f = result_flag (a - (b + of_bool c)) f"
  by (auto simp: sub_flags_def)

lemma of_bool_nz [simp]: "(of_bool P :: 'a::zero_neq_one) \<noteq> 0 \<longleftrightarrow> P" by simp

lemmas lf_ops = op1_8_def op2_8_def result_8_def op1_16_def op2_16_def result_16_def
  op1_32_def op2_32_def result_32_def op1_64_def op2_64_def result_64_def

definition entry :: "'a::len word \<Rightarrow> 'a word \<Rightarrow> 'a word \<Rightarrow> u32 \<Rightarrow> lf_flags_entry" where
  "entry a b r ins = \<lparr>lf_op1 = scast a, lf_op2 = scast b, lf_result = scast r, lf_instr = ins\<rparr>"

lemma entry_simps [simp]:
  "lf_op1 (entry a b r ins) = scast a" "lf_op2 (entry a b r ins) = scast b"
  "lf_result (entry a b r ins) = scast r" "lf_instr (entry a b r ins) = ins"
  by (simp_all add: entry_def)

lemma AF_arith:
  assumes "lf_instr e \<in> {BX_LF_INSTR_ADD8, BX_LF_INSTR_ADD16, BX_LF_INSTR_ADD32, BX_LF_INSTR_ADD64,
    BX_LF_INSTR_ADC8, BX_LF_INSTR_ADC16, BX_LF_INSTR_ADC32, BX_LF_INSTR_ADC64,
    BX_LF_INSTR_SUB8, BX_LF_INSTR_SUB16, BX_LF_INSTR_SUB32, BX_LF_INSTR_SUB64,
    BX_LF_INSTR_SBB8, BX_LF_INSTR_SBB16, BX_LF_INSTR_SBB32, BX_LF_INSTR_SBB64}"
  shows "get_AFLazy e = Inr (ucast (((op1_8 e XOR op2_8 e) XOR result_8 e) AND 0x10))"
  using assms unfolding get_AFLazy_def Let_def by (elim insertE emptyE) (simp_all only: simp_thms if_True)

lemma AF_entry_add:
  fixes a b :: "'a::len word"
  assumes "8 \<le> LENGTH('a)" "LENGTH('a) \<le> 64"
    and "ins \<in> {BX_LF_INSTR_ADD8, BX_LF_INSTR_ADD16, BX_LF_INSTR_ADD32, BX_LF_INSTR_ADD64,
      BX_LF_INSTR_ADC8, BX_LF_INSTR_ADC16, BX_LF_INSTR_ADC32, BX_LF_INSTR_ADC64}"
  shows "\<exists>v. get_AFLazy (entry a b (a + b + of_bool c) ins) = Inr v \<and> (v \<noteq> 0) = add_flags a b c AF"
proof -
  have "get_AFLazy (entry a b (a + b + of_bool c) ins) =
      Inr (ucast ((((ucast (scast a :: u64) :: u8) XOR ucast (scast b :: u64)) XOR ucast (scast (a + b + of_bool c) :: u64)) AND 0x10))"
    by (subst AF_arith) (use assms(3) in \<open>auto simp: lf_ops\<close>)
  moreover have "add_flags a b c AF = ((bit a 4 \<noteq> bit b 4) \<noteq> bit (a + b + of_bool c) 4)"
    using adjust_add(1)[OF assms(1), of a b c] by (simp only: add_flags_def aflag.case)
  ultimately show ?thesis using adjust_bit[OF assms(1,2), of a b "a + b + of_bool c"] by blast
qed

lemma AF_entry_sub:
  fixes a b :: "'a::len word"
  assumes "8 \<le> LENGTH('a)" "LENGTH('a) \<le> 64"
    and "ins \<in> {BX_LF_INSTR_SUB8, BX_LF_INSTR_SUB16, BX_LF_INSTR_SUB32, BX_LF_INSTR_SUB64,
      BX_LF_INSTR_SBB8, BX_LF_INSTR_SBB16, BX_LF_INSTR_SBB32, BX_LF_INSTR_SBB64}"
  shows "\<exists>v. get_AFLazy (entry a b (a - (b + of_bool c)) ins) = Inr v \<and> (v \<noteq> 0) = sub_flags a b c AF"
proof -
  have "get_AFLazy (entry a b (a - (b + of_bool c)) ins) =
      Inr (ucast ((((ucast (scast a :: u64) :: u8) XOR ucast (scast b :: u64)) XOR ucast (scast (a - (b + of_bool c)) :: u64)) AND 0x10))"
    by (subst AF_arith) (use assms(3) in \<open>auto simp: lf_ops\<close>)
  moreover have "sub_flags a b c AF = ((bit a 4 \<noteq> bit b 4) \<noteq> bit (a - (b + of_bool c)) 4)"
    using adjust_sub[OF assms(1), of a b c] by (simp only: sub_flags_def aflag.case)
  ultimately show ?thesis using adjust_bit[OF assms(1,2), of a b "a - (b + of_bool c)"] by blast
qed

text \<open>The branches of the readers.\<close>

lemma CF_branches:
  "lf_instr e \<in> {BX_LF_INSTR_ADD8, BX_LF_INSTR_ADD16, BX_LF_INSTR_ADD32} \<Longrightarrow> get_CFLazy e = Inr (of_bool (result_32 e < op1_32 e))"
  "lf_instr e \<in> {BX_LF_INSTR_ADD64} \<Longrightarrow> get_CFLazy e = Inr (of_bool (result_64 e < op1_64 e))"
  "lf_instr e \<in> {BX_LF_INSTR_ADC8, BX_LF_INSTR_ADC16, BX_LF_INSTR_ADC32} \<Longrightarrow> get_CFLazy e = Inr (of_bool (result_32 e \<le> op1_32 e))"
  "lf_instr e \<in> {BX_LF_INSTR_ADC64} \<Longrightarrow> get_CFLazy e = Inr (of_bool (result_64 e \<le> op1_64 e))"
  "lf_instr e \<in> {BX_LF_INSTR_SUB8, BX_LF_INSTR_SUB16, BX_LF_INSTR_SUB32} \<Longrightarrow> get_CFLazy e = Inr (of_bool (op1_32 e < op2_32 e))"
  "lf_instr e \<in> {BX_LF_INSTR_SUB64} \<Longrightarrow> get_CFLazy e = Inr (of_bool (op1_64 e < op2_64 e))"
  "lf_instr e \<in> {BX_LF_INSTR_SBB8} \<Longrightarrow> get_CFLazy e = Inr (of_bool (op1_8 e < result_8 e \<or> op2_8 e = 0xff))"
  "lf_instr e \<in> {BX_LF_INSTR_SBB16} \<Longrightarrow> get_CFLazy e = Inr (of_bool (op1_16 e < result_16 e \<or> op2_16 e = 0xffff))"
  "lf_instr e \<in> {BX_LF_INSTR_SBB32} \<Longrightarrow> get_CFLazy e = Inr (of_bool (op1_32 e < result_32 e \<or> op2_32 e = 0xffffffff))"
  "lf_instr e \<in> {BX_LF_INSTR_SBB64} \<Longrightarrow> get_CFLazy e = Inr (of_bool (op1_64 e < result_64 e \<or> op2_64 e = 0xffffffffffffffff))"
  "lf_instr e \<in> {BX_LF_INSTR_NEG8, BX_LF_INSTR_NEG16, BX_LF_INSTR_NEG32} \<Longrightarrow> get_CFLazy e = Inr (of_bool (result_32 e \<noteq> 0))"
  "lf_instr e \<in> {BX_LF_INSTR_NEG64} \<Longrightarrow> get_CFLazy e = Inr (of_bool (result_64 e \<noteq> 0))"
  "lf_instr e \<in> {BX_LF_INSTR_LOGIC8, BX_LF_INSTR_LOGIC16, BX_LF_INSTR_LOGIC32, BX_LF_INSTR_LOGIC64} \<Longrightarrow> get_CFLazy e = Inr 0"
  by (elim insertE emptyE; simp add: get_CFLazy_def lf_codes)+

lemma OF_branches:
  "lf_instr e \<in> {BX_LF_INSTR_ADD8, BX_LF_INSTR_ADD16, BX_LF_INSTR_ADD32, BX_LF_INSTR_ADC8, BX_LF_INSTR_ADC16, BX_LF_INSTR_ADC32}
    \<Longrightarrow> get_OFLazy e = Inr (of_bool (GET_ADD_OVERFLOW (op1_32 e) (op2_32 e) (result_32 e) 0x80000000))"
  "lf_instr e \<in> {BX_LF_INSTR_ADD64, BX_LF_INSTR_ADC64}
    \<Longrightarrow> get_OFLazy e = Inr (of_bool (GET_ADD_OVERFLOW (op1_64 e) (op2_64 e) (result_64 e) 0x8000000000000000))"
  "lf_instr e \<in> {BX_LF_INSTR_SUB8, BX_LF_INSTR_SUB16, BX_LF_INSTR_SUB32, BX_LF_INSTR_SBB8, BX_LF_INSTR_SBB16, BX_LF_INSTR_SBB32}
    \<Longrightarrow> get_OFLazy e = Inr (of_bool (GET_SUB_OVERFLOW (op1_32 e) (op2_32 e) (result_32 e) 0x80000000))"
  "lf_instr e \<in> {BX_LF_INSTR_SUB64, BX_LF_INSTR_SBB64}
    \<Longrightarrow> get_OFLazy e = Inr (of_bool (GET_SUB_OVERFLOW (op1_64 e) (op2_64 e) (result_64 e) 0x8000000000000000))"
  "lf_instr e \<in> {BX_LF_INSTR_LOGIC8, BX_LF_INSTR_LOGIC16, BX_LF_INSTR_LOGIC32, BX_LF_INSTR_LOGIC64} \<Longrightarrow> get_OFLazy e = Inr 0"
  "lf_instr e \<in> {BX_LF_INSTR_NEG8, BX_LF_INSTR_INC8} \<Longrightarrow> get_OFLazy e = Inr (of_bool (result_8 e = 0x80))"
  "lf_instr e \<in> {BX_LF_INSTR_NEG16, BX_LF_INSTR_INC16} \<Longrightarrow> get_OFLazy e = Inr (of_bool (result_16 e = 0x8000))"
  "lf_instr e \<in> {BX_LF_INSTR_NEG32, BX_LF_INSTR_INC32} \<Longrightarrow> get_OFLazy e = Inr (of_bool (result_32 e = 0x80000000))"
  "lf_instr e \<in> {BX_LF_INSTR_NEG64, BX_LF_INSTR_INC64} \<Longrightarrow> get_OFLazy e = Inr (of_bool (result_64 e = 0x8000000000000000))"
  "lf_instr e \<in> {BX_LF_INSTR_DEC8} \<Longrightarrow> get_OFLazy e = Inr (of_bool (result_8 e = 0x7F))"
  "lf_instr e \<in> {BX_LF_INSTR_DEC16} \<Longrightarrow> get_OFLazy e = Inr (of_bool (result_16 e = 0x7FFF))"
  "lf_instr e \<in> {BX_LF_INSTR_DEC32} \<Longrightarrow> get_OFLazy e = Inr (of_bool (result_32 e = 0x7FFFFFFF))"
  "lf_instr e \<in> {BX_LF_INSTR_DEC64} \<Longrightarrow> get_OFLazy e = Inr (of_bool (result_64 e = 0x7FFFFFFFFFFFFFFF))"
  by (elim insertE emptyE; simp add: get_OFLazy_def lf_codes)+

lemma AF_branches:
  "lf_instr e \<in> {BX_LF_INSTR_NEG8, BX_LF_INSTR_NEG16, BX_LF_INSTR_NEG32, BX_LF_INSTR_NEG64} \<Longrightarrow> get_AFLazy e = Inr (of_bool (result_8 e AND 0xf \<noteq> 0))"
  "lf_instr e \<in> {BX_LF_INSTR_INC8, BX_LF_INSTR_INC16, BX_LF_INSTR_INC32, BX_LF_INSTR_INC64} \<Longrightarrow> get_AFLazy e = Inr (of_bool (result_8 e AND 0xf = 0))"
  "lf_instr e \<in> {BX_LF_INSTR_DEC8, BX_LF_INSTR_DEC16, BX_LF_INSTR_DEC32, BX_LF_INSTR_DEC64} \<Longrightarrow> get_AFLazy e = Inr (of_bool (result_8 e AND 0xf = 0xf))"
  "lf_instr e \<in> {BX_LF_INSTR_LOGIC8, BX_LF_INSTR_LOGIC16, BX_LF_INSTR_LOGIC32, BX_LF_INSTR_LOGIC64} \<Longrightarrow> get_AFLazy e = Inr 0"
  by (elim insertE emptyE; simp add: get_AFLazy_def lf_codes)+

lemma entry_ops_32:
  fixes a b r :: "'a::len word"
  assumes "LENGTH('a) \<le> 32"
  shows "op1_32 (entry a b r ins) = scast a" "op2_32 (entry a b r ins) = scast b" "result_32 (entry a b r ins) = scast r"
  using assms by (simp_all add: lf_ops ucast_scast_64)

lemma entry_ops_64:
  fixes a b r :: u64
  shows "op1_64 (entry a b r ins) = a" "op2_64 (entry a b r ins) = b" "result_64 (entry a b r ins) = r"
  by (simp_all add: lf_ops)

lemma computes_add_small:
  fixes a b :: "'a::len word"
  assumes "8 \<le> LENGTH('a)" "LENGTH('a) \<le> 32"
    and "ins \<in> (if c then {BX_LF_INSTR_ADC8, BX_LF_INSTR_ADC16, BX_LF_INSTR_ADC32}
      else {BX_LF_INSTR_ADD8, BX_LF_INSTR_ADD16, BX_LF_INSTR_ADD32})"
  shows "computes (entry a b (a + b + of_bool c) ins) (add_flags a b c)"
proof (rule computesI[where r = "a + b + of_bool c"])
  let ?e = "entry a b (a + b + of_bool c) ins"
  have "get_OFLazy ?e = Inr (of_bool (GET_ADD_OVERFLOW (op1_32 ?e) (op2_32 ?e) (result_32 ?e) 0x80000000))"
    by (rule OF_branches) (use assms(3) in \<open>cases c; auto\<close>)
  then show "\<exists>v. get_OFLazy ?e = Inr v \<and> (v \<noteq> 0) = add_flags a b c OF"
    using add_overflow_scast[where 'b = 32, of a b c] assms(2)
    by (simp add: entry_ops_32[OF assms(2)] add_flags_def)
  show "\<exists>v. get_AFLazy ?e = Inr v \<and> (v \<noteq> 0) = add_flags a b c AF"
    by (rule AF_entry_add) (use assms in \<open>auto split: if_splits\<close>)
  have "get_CFLazy ?e = Inr (of_bool (if c then result_32 ?e \<le> op1_32 ?e else result_32 ?e < op1_32 ?e))"
    using assms(3) CF_branches(1,3)[of ?e] by (cases c) simp_all
  then show "\<exists>v. get_CFLazy ?e = Inr v \<and> (v \<noteq> 0) = add_flags a b c CF"
    using carry_add[of a b] assms(2)
    by (cases c) (simp_all add: entry_ops_32[OF assms(2)] scast_less scast_le add_flags_def)
qed (use assms in \<open>simp_all add: add_flags_result\<close>)

lemma computes_add_64:
  fixes a b :: u64
  assumes "ins = (if c then BX_LF_INSTR_ADC64 else BX_LF_INSTR_ADD64)"
  shows "computes (entry a b (a + b + of_bool c) ins) (add_flags a b c)"
proof (rule computesI[where r = "a + b + of_bool c"])
  let ?e = "entry a b (a + b + of_bool c) ins"
  have "get_OFLazy ?e = Inr (of_bool (GET_ADD_OVERFLOW (op1_64 ?e) (op2_64 ?e) (result_64 ?e) 0x8000000000000000))"
    by (rule OF_branches) (use assms in \<open>cases c; simp\<close>)
  then show "\<exists>v. get_OFLazy ?e = Inr v \<and> (v \<noteq> 0) = add_flags a b c OF"
    using add_overflow_scast[where 'b = 64, of a b c] by (simp add: entry_ops_64 add_flags_def)
  show "\<exists>v. get_AFLazy ?e = Inr v \<and> (v \<noteq> 0) = add_flags a b c AF"
    by (rule AF_entry_add) (use assms in \<open>auto split: if_splits\<close>)
  have "get_CFLazy ?e = Inr (of_bool (if c then result_64 ?e \<le> op1_64 ?e else result_64 ?e < op1_64 ?e))"
    using assms CF_branches(2,4)[of ?e] by (cases c) simp_all
  then show "\<exists>v. get_CFLazy ?e = Inr v \<and> (v \<noteq> 0) = add_flags a b c CF"
    using carry_add[of a b] by (cases c) (simp_all add: entry_ops_64 add_flags_def)
qed (use assms in \<open>simp_all add: add_flags_result\<close>)

lemma computes_sub_small:
  fixes a b :: "'a::len word"
  assumes "8 \<le> LENGTH('a)" "LENGTH('a) \<le> 32" "ins \<in> {BX_LF_INSTR_SUB8, BX_LF_INSTR_SUB16, BX_LF_INSTR_SUB32}"
  shows "computes (entry a b (a - b) ins) (sub_flags a b False)"
proof (rule computesI[where r = "a - b"])
  let ?e = "entry a b (a - b) ins"
  have "get_OFLazy ?e = Inr (of_bool (GET_SUB_OVERFLOW (op1_32 ?e) (op2_32 ?e) (result_32 ?e) 0x80000000))"
    by (rule OF_branches) (use assms(3) in auto)
  then show "\<exists>v. get_OFLazy ?e = Inr v \<and> (v \<noteq> 0) = sub_flags a b False OF"
    using sub_overflow_scast[where 'b = 32, of a b False] assms(2)
    by (simp add: entry_ops_32[OF assms(2)] sub_flags_def)
  show "\<exists>v. get_AFLazy ?e = Inr v \<and> (v \<noteq> 0) = sub_flags a b False AF"
    using AF_entry_sub[of ins a b False] assms by auto
  show "\<exists>v. get_CFLazy ?e = Inr v \<and> (v \<noteq> 0) = sub_flags a b False CF"
    using CF_branches(5)[of ?e] assms(2,3)
    by (simp add: entry_ops_32[OF assms(2)] scast_less sub_flags_def word_less_nat_alt[of a b])
qed (use assms sub_flags_result[of _ a b False] in \<open>simp_all\<close>)

lemma computes_sub_64:
  fixes a b :: u64
  shows "computes (entry a b (a - b) BX_LF_INSTR_SUB64) (sub_flags a b False)"
proof (rule computesI[where r = "a - b"])
  let ?e = "entry a b (a - b) BX_LF_INSTR_SUB64"
  have "get_OFLazy ?e = Inr (of_bool (GET_SUB_OVERFLOW (op1_64 ?e) (op2_64 ?e) (result_64 ?e) 0x8000000000000000))"
    by (rule OF_branches) simp
  then show "\<exists>v. get_OFLazy ?e = Inr v \<and> (v \<noteq> 0) = sub_flags a b False OF"
    using sub_overflow_scast[where 'b = 64, of a b False] by (simp add: entry_ops_64 sub_flags_def)
  show "\<exists>v. get_AFLazy ?e = Inr v \<and> (v \<noteq> 0) = sub_flags a b False AF"
    using AF_entry_sub[of BX_LF_INSTR_SUB64 a b False] by auto
  show "\<exists>v. get_CFLazy ?e = Inr v \<and> (v \<noteq> 0) = sub_flags a b False CF"
    using CF_branches(6)[of ?e] by (simp add: entry_ops_64 sub_flags_def word_less_nat_alt)
qed (use sub_flags_result[of _ a b False] in \<open>simp_all\<close>)

lemma computes_sbb:
  fixes a b m :: "'a::len word"
  assumes len: "8 \<le> LENGTH('a)" "LENGTH('a) \<le> 64"
    and ins: "ins \<in> {BX_LF_INSTR_SBB8, BX_LF_INSTR_SBB16, BX_LF_INSTR_SBB32, BX_LF_INSTR_SBB64}"
    and m: "unat m = 2 ^ LENGTH('a) - 1"
    and cf: "get_CFLazy (entry a b (a - (b + 1)) ins) = Inr (of_bool (a < a - (b + 1) \<or> b = m))"
    and of: "get_OFLazy (entry a b (a - (b + 1)) ins) = Inr (of_bool (sint a - sint b - 1 \<notin> signed_range TYPE('a)))"
  shows "computes (entry a b (a - (b + 1)) ins) (sub_flags a b True)"
proof (rule computesI[where r = "a - (b + 1)"])
  show "\<exists>v. get_OFLazy (entry a b (a - (b + 1)) ins) = Inr v \<and> (v \<noteq> 0) = sub_flags a b True OF"
    using of by (simp add: sub_flags_def)
  show "\<exists>v. get_AFLazy (entry a b (a - (b + 1)) ins) = Inr v \<and> (v \<noteq> 0) = sub_flags a b True AF"
    using AF_entry_sub[of ins a b True] len ins by auto
  show "\<exists>v. get_CFLazy (entry a b (a - (b + 1)) ins) = Inr v \<and> (v \<noteq> 0) = sub_flags a b True CF"
    using cf borrow_sub[OF m, of a b] by (simp add: sub_flags_def)
qed (use len sub_flags_result[of _ a b True] in simp_all)

lemma computes_sbb_at:
  "computes (entry a8 b8 (a8 - (b8 + 1)) BX_LF_INSTR_SBB8) (sub_flags a8 (b8 :: u8) True)"
  "computes (entry a16 b16 (a16 - (b16 + 1)) BX_LF_INSTR_SBB16) (sub_flags a16 (b16 :: u16) True)"
  "computes (entry a32 b32 (a32 - (b32 + 1)) BX_LF_INSTR_SBB32) (sub_flags a32 (b32 :: u32) True)"
  "computes (entry a64 b64 (a64 - (b64 + 1)) BX_LF_INSTR_SBB64) (sub_flags a64 (b64 :: u64) True)"
proof -
  let ?e = "entry a8 b8 (a8 - (b8 + 1)) BX_LF_INSTR_SBB8"
  show "computes ?e (sub_flags a8 b8 True)"
    by (rule computes_sbb[where m = "0xff"])
      (use CF_branches(7)[of ?e] OF_branches(3)[of ?e] sub_overflow_scast[where 'b = 32, of a8 b8 True]
        in \<open>simp_all add: lf_ops ucast_scast_64\<close>)
  let ?e = "entry a16 b16 (a16 - (b16 + 1)) BX_LF_INSTR_SBB16"
  show "computes ?e (sub_flags a16 b16 True)"
    by (rule computes_sbb[where m = "0xffff"])
      (use CF_branches(8)[of ?e] OF_branches(3)[of ?e] sub_overflow_scast[where 'b = 32, of a16 b16 True]
        in \<open>simp_all add: lf_ops ucast_scast_64\<close>)
  let ?e = "entry a32 b32 (a32 - (b32 + 1)) BX_LF_INSTR_SBB32"
  show "computes ?e (sub_flags a32 b32 True)"
    by (rule computes_sbb[where m = "0xffffffff"])
      (use CF_branches(9)[of ?e] OF_branches(3)[of ?e] sub_overflow_scast[where 'b = 32, of a32 b32 True]
        in \<open>simp_all add: lf_ops ucast_scast_64\<close>)
  let ?e = "entry a64 b64 (a64 - (b64 + 1)) BX_LF_INSTR_SBB64"
  show "computes ?e (sub_flags a64 b64 True)"
    by (rule computes_sbb[where m = "0xffffffffffffffff"])
      (use CF_branches(10)[of ?e] OF_branches(4)[of ?e] sub_overflow_scast[where 'b = 64, of a64 b64 True]
        in \<open>simp_all add: lf_ops ucast_scast_64\<close>)
qed

text \<open>The operations with one operand: their entry has only a result.\<close>

lemma low4:
  fixes r :: "'a::len word"
  assumes "8 \<le> LENGTH('a)"
  shows "(ucast r :: u8) AND 0xf = 0 \<longleftrightarrow> unat r mod 16 = 0" "(ucast r :: u8) AND 0xf = 0xf \<longleftrightarrow> unat r mod 16 = 15"
proof -
  have "(ucast r :: u8) AND 0xf = take_bit 4 (ucast r)" by (simp add: take_bit_eq_mask mask_eq_exp_minus_1)
  then have "unat ((ucast r :: u8) AND 0xf) = unat (ucast r :: u8) mod 16" by (simp add: take_bit_eq_mod unat_mod)
  also have "unat (ucast r :: u8) = unat r mod 256" by (simp add: unsigned_ucast_eq take_bit_eq_mod)
  also have "unat r mod 256 mod 16 = unat r mod 16" by (simp add: mod_mod_cancel)
  finally have u: "unat ((ucast r :: u8) AND 0xf) = unat r mod 16" .
  show "(ucast r :: u8) AND 0xf = 0 \<longleftrightarrow> unat r mod 16 = 0" "(ucast r :: u8) AND 0xf = 0xf \<longleftrightarrow> unat r mod 16 = 15"
    unfolding u[symmetric] by (simp_all add: word_unat_eq_iff)
qed

lemma unat_1: "1 < LENGTH('a) \<Longrightarrow> unat (1 :: 'a::len word) = 1" by simp

lemma sint_1: "1 < LENGTH('a) \<Longrightarrow> sint (1 :: 'a::len word) = 1"
  by (simp add: sint_uint signed_take_bit_eq_take_bit_shift take_bit_eq_mod)

lemma word_eq_sint: "(x :: 'a::len word) = y \<longleftrightarrow> sint x = sint y"
  by (auto intro: signed_word_eqI)

lemma inc_flags:
  fixes a t :: "'a::len word"
  assumes "8 \<le> LENGTH('a)" "sint t = - (2 ^ (LENGTH('a) - 1))"
  shows "a + 1 = t \<longleftrightarrow> add_flags a 1 False OF"
    and "(ucast (a + 1) :: u8) AND 0xf = 0 \<longleftrightarrow> add_flags a 1 False AF"
proof -
  have s: "sint (1 :: 'a word) = 1" using assms(1) by (intro sint_1) simp
  define N :: int where "N = 2 ^ (LENGTH('a) - 1)"
  have r: "- N \<le> sint a" "sint a < N" "0 < N"
    using sint_range[of a] by (simp_all add: signed_range_def N_def)
  have "sint (a + 1) = sint (word_of_int (sint a + 1) :: 'a word)" by simp
  also have "\<dots> = (if sint a + 1 < - N then sint a + 1 + 2 * N else if sint a + 1 < N then sint a + 1 else sint a + 1 - 2 * N)"
    unfolding N_def by (rule sint_wrap) (use r in \<open>simp_all add: N_def\<close>)
  finally have "sint (a + 1) = - N \<longleftrightarrow> sint a + 1 \<notin> signed_range TYPE('a)"
    using r unfolding signed_range_def N_def[symmetric] by auto
  then show "a + 1 = t \<longleftrightarrow> add_flags a 1 False OF"
    using assms(2) s unfolding N_def by (simp add: add_flags_def word_eq_sint)
  have "unat (a + 1) mod 16 = (unat a mod 16 + 1) mod 16"
    using adjust_add(2)[OF assms(1), of a 1 False] assms(1) by (simp add: unat_1)
  moreover have "unat a mod 16 < 16" by simp
  ultimately show "(ucast (a + 1) :: u8) AND 0xf = 0 \<longleftrightarrow> add_flags a 1 False AF"
    unfolding low4[OF assms(1)] using assms(1) by (simp add: add_flags_def unat_1 mod_Suc split: if_splits)
qed

lemma dec_flags:
  fixes a t :: "'a::len word"
  assumes "8 \<le> LENGTH('a)" "sint t = 2 ^ (LENGTH('a) - 1) - 1"
  shows "a - 1 = t \<longleftrightarrow> sub_flags a 1 False OF"
    and "(ucast (a - 1) :: u8) AND 0xf = 0xf \<longleftrightarrow> sub_flags a 1 False AF"
proof -
  have s: "sint (1 :: 'a word) = 1" using assms(1) by (intro sint_1) simp
  define N :: int where "N = 2 ^ (LENGTH('a) - 1)"
  have r: "- N \<le> sint a" "sint a < N" "0 < N"
    using sint_range[of a] by (simp_all add: signed_range_def N_def)
  have "sint (a - 1) = sint (word_of_int (sint a - 1) :: 'a word)" by simp
  also have "\<dots> = (if sint a - 1 < - N then sint a - 1 + 2 * N else if sint a - 1 < N then sint a - 1 else sint a - 1 - 2 * N)"
    unfolding N_def by (rule sint_wrap) (use r in \<open>simp_all add: N_def\<close>)
  finally have "sint (a - 1) = N - 1 \<longleftrightarrow> sint a - 1 \<notin> signed_range TYPE('a)"
    using r unfolding signed_range_def N_def[symmetric] by auto
  then show "a - 1 = t \<longleftrightarrow> sub_flags a 1 False OF"
    using assms(2) s unfolding N_def by (simp add: sub_flags_def word_eq_sint)
  have "unat (a - 1 + 1) mod 16 = (unat (a - 1) mod 16 + 1) mod 16"
    using adjust_add(2)[OF assms(1), of "a - 1" 1 False] assms(1) by (simp add: unat_1)
  moreover have "unat (a - 1) mod 16 < 16" by simp
  ultimately show "(ucast (a - 1) :: u8) AND 0xf = 0xf \<longleftrightarrow> sub_flags a 1 False AF"
    unfolding low4[OF assms(1)] using assms(1) by (simp add: sub_flags_def unat_1 mod_Suc split: if_splits)
qed

lemma neg_flags:
  fixes a t :: "'a::len word"
  assumes "8 \<le> LENGTH('a)" "sint t = - (2 ^ (LENGTH('a) - 1))"
  shows "- a = t \<longleftrightarrow> sub_flags 0 a False OF"
    and "(ucast (- a) :: u8) AND 0xf \<noteq> 0 \<longleftrightarrow> sub_flags 0 a False AF"
    and "- a \<noteq> 0 \<longleftrightarrow> sub_flags 0 a False CF"
proof -
  define N :: int where "N = 2 ^ (LENGTH('a) - 1)"
  have r: "- N \<le> sint a" "sint a < N" "0 < N"
    using sint_range[of a] by (simp_all add: signed_range_def N_def)
  have "sint (- a) = sint (word_of_int (- sint a) :: 'a word)" by simp
  also have "\<dots> = (if - sint a < - N then - sint a + 2 * N else if - sint a < N then - sint a else - sint a - 2 * N)"
    unfolding N_def by (rule sint_wrap) (use r in \<open>simp_all add: N_def\<close>)
  finally have "sint (- a) = - N \<longleftrightarrow> - sint a \<notin> signed_range TYPE('a)"
    using r unfolding signed_range_def N_def[symmetric] by auto
  then show "- a = t \<longleftrightarrow> sub_flags 0 a False OF"
    using assms(2) unfolding N_def by (simp add: sub_flags_def word_eq_sint)
  have "unat (- a + a) mod 16 = (unat (- a) mod 16 + unat a mod 16) mod 16"
    using adjust_add(2)[OF assms(1), of "- a" a False] by simp
  then have "(unat (- a) mod 16 + unat a mod 16) mod 16 = 0" by simp
  moreover have "unat (- a) mod 16 < 16" "unat a mod 16 < 16" by simp_all
  ultimately show "(ucast (- a) :: u8) AND 0xf \<noteq> 0 \<longleftrightarrow> sub_flags 0 a False AF"
    unfolding low4[OF assms(1)] by (simp add: sub_flags_def mod_once split: if_splits) linarith
  show "- a \<noteq> 0 \<longleftrightarrow> sub_flags 0 a False CF"
    by (simp add: sub_flags_def unat_gt_0)
qed

section \<open>The state\<close>

definition logic_flags :: "'a::len word \<Rightarrow> aflag \<Rightarrow> bool" where "logic_flags r = result_flag r"

lemma full_mask: "EFlagsOSZAPCMask AND lf_mask f \<noteq> 0"
  by (cases f) (simp_all add: EFlagsOSZAPCMask_def lf_mask_def)

lemma oszap_mask: "EFlagsOSZAPMask AND lf_mask f = 0 \<longleftrightarrow> f = CF"
  by (cases f) (simp_all add: EFlagsOSZAPMask_def lf_mask_def)

lemma put_eflags_simps [simp]:
  "b_eflags (put_eflags v s) = v" "b_oszapc (put_eflags v s) = b_oszapc s" "b_status (put_eflags v s) = b_status s"
  "b_speculative_rsp (put_eflags v s) = b_speculative_rsp s" "b_prev_rsp (put_eflags v s) = b_prev_rsp s"
  by (simp_all add: put_eflags_def)

lemma shows_computes:
  assumes "b_status s = EFlagsOSZAPCMask" "computes (b_oszapc s) fl"
  shows "shows_flags s fl"
  unfolding shows_flags_def
proof
  fix f
  obtain v where "get_lazy f (b_oszapc s) = Inr v" "(v \<noteq> 0) = fl f" using assms(2) unfolding computes_def by blast
  then show "getB f s = Inr (of_bool (fl f))" using full_mask[of f] assms(1) by (simp add: getB_def)
qed

lemma shows_SIZE: "computes (entry a b r ins) fl \<Longrightarrow> shows_flags (SET_FLAGS_OSZAPC_SIZE a b r ins s) fl"
  by (rule shows_computes) (simp_all add: SET_FLAGS_OSZAPC_SIZE_def entry_def)

lemma set_flags_add:
  "shows_flags (SET_FLAGS_OSZAPC_ADD_8 a8 b8 (a8 + b8) s) (add_flags a8 b8 False)"
  "shows_flags (SET_FLAGS_OSZAPC_ADD_16 a16 b16 (a16 + b16) s) (add_flags a16 b16 False)"
  "shows_flags (SET_FLAGS_OSZAPC_ADD_32 a32 b32 (a32 + b32) s) (add_flags a32 b32 False)"
  "shows_flags (SET_FLAGS_OSZAPC_ADD_64 a64 b64 (a64 + b64) s) (add_flags a64 b64 False)"
  unfolding SET_FLAGS_OSZAPC_ADD_8_def SET_FLAGS_OSZAPC_ADD_16_def SET_FLAGS_OSZAPC_ADD_32_def SET_FLAGS_OSZAPC_ADD_64_def
  using computes_add_small[where c = False, of BX_LF_INSTR_ADD8 a8 b8] computes_add_small[where c = False, of BX_LF_INSTR_ADD16 a16 b16]
    computes_add_small[where c = False, of BX_LF_INSTR_ADD32 a32 b32] computes_add_64[where c = False, of BX_LF_INSTR_ADD64 a64 b64]
  by (auto intro: shows_SIZE)

lemma set_flags_sub:
  "shows_flags (SET_FLAGS_OSZAPC_SUB_8 a8 b8 (a8 - b8) s) (sub_flags a8 b8 False)"
  "shows_flags (SET_FLAGS_OSZAPC_SUB_16 a16 b16 (a16 - b16) s) (sub_flags a16 b16 False)"
  "shows_flags (SET_FLAGS_OSZAPC_SUB_32 a32 b32 (a32 - b32) s) (sub_flags a32 b32 False)"
  "shows_flags (SET_FLAGS_OSZAPC_SUB_64 a64 b64 (a64 - b64) s) (sub_flags a64 b64 False)"
  unfolding SET_FLAGS_OSZAPC_SUB_8_def SET_FLAGS_OSZAPC_SUB_16_def SET_FLAGS_OSZAPC_SUB_32_def SET_FLAGS_OSZAPC_SUB_64_def
  using computes_sub_small[of BX_LF_INSTR_SUB8 a8 b8] computes_sub_small[of BX_LF_INSTR_SUB16 a16 b16]
    computes_sub_small[of BX_LF_INSTR_SUB32 a32 b32] computes_sub_64[of a64 b64]
  by (auto intro: shows_SIZE)

lemma adc_codes [simp]:
  "BX_LF_INSTR_ADD_ADC8 (of_bool c) = (if c then BX_LF_INSTR_ADC8 else BX_LF_INSTR_ADD8)"
  "BX_LF_INSTR_ADD_ADC16 (of_bool c) = (if c then BX_LF_INSTR_ADC16 else BX_LF_INSTR_ADD16)"
  "BX_LF_INSTR_ADD_ADC32 (of_bool c) = (if c then BX_LF_INSTR_ADC32 else BX_LF_INSTR_ADD32)"
  "BX_LF_INSTR_ADD_ADC64 (of_bool c) = (if c then BX_LF_INSTR_ADC64 else BX_LF_INSTR_ADD64)"
  "BX_LF_INSTR_SUB_SBB8 (of_bool c) = (if c then BX_LF_INSTR_SBB8 else BX_LF_INSTR_SUB8)"
  "BX_LF_INSTR_SUB_SBB16 (of_bool c) = (if c then BX_LF_INSTR_SBB16 else BX_LF_INSTR_SUB16)"
  "BX_LF_INSTR_SUB_SBB32 (of_bool c) = (if c then BX_LF_INSTR_SBB32 else BX_LF_INSTR_SUB32)"
  "BX_LF_INSTR_SUB_SBB64 (of_bool c) = (if c then BX_LF_INSTR_SBB64 else BX_LF_INSTR_SUB64)"
  by (simp_all add: BX_LF_INSTR_ADD_ADC8_def BX_LF_INSTR_ADD_ADC16_def BX_LF_INSTR_ADD_ADC32_def BX_LF_INSTR_ADD_ADC64_def
    BX_LF_INSTR_SUB_SBB8_def BX_LF_INSTR_SUB_SBB16_def BX_LF_INSTR_SUB_SBB32_def BX_LF_INSTR_SUB_SBB64_def lf_codes)

lemma set_flags_adc:
  "shows_flags (SET_FLAGS_OSZAPC_SIZE a8 b8 (a8 + b8 + of_bool c) (BX_LF_INSTR_ADD_ADC8 (of_bool c)) s) (add_flags a8 (b8 :: u8) c)"
  "shows_flags (SET_FLAGS_OSZAPC_SIZE a16 b16 (a16 + b16 + of_bool c) (BX_LF_INSTR_ADD_ADC16 (of_bool c)) s) (add_flags a16 (b16 :: u16) c)"
  "shows_flags (SET_FLAGS_OSZAPC_SIZE a32 b32 (a32 + b32 + of_bool c) (BX_LF_INSTR_ADD_ADC32 (of_bool c)) s) (add_flags a32 (b32 :: u32) c)"
  "shows_flags (SET_FLAGS_OSZAPC_SIZE a64 b64 (a64 + b64 + of_bool c) (BX_LF_INSTR_ADD_ADC64 (of_bool c)) s) (add_flags a64 (b64 :: u64) c)"
  by (rule shows_SIZE; (rule computes_add_small computes_add_64; simp))+

lemma set_flags_sbb:
  "shows_flags (SET_FLAGS_OSZAPC_SIZE a8 b8 (a8 - (b8 + of_bool c)) (BX_LF_INSTR_SUB_SBB8 (of_bool c)) s) (sub_flags a8 (b8 :: u8) c)"
  "shows_flags (SET_FLAGS_OSZAPC_SIZE a16 b16 (a16 - (b16 + of_bool c)) (BX_LF_INSTR_SUB_SBB16 (of_bool c)) s) (sub_flags a16 (b16 :: u16) c)"
  "shows_flags (SET_FLAGS_OSZAPC_SIZE a32 b32 (a32 - (b32 + of_bool c)) (BX_LF_INSTR_SUB_SBB32 (of_bool c)) s) (sub_flags a32 (b32 :: u32) c)"
  "shows_flags (SET_FLAGS_OSZAPC_SIZE a64 b64 (a64 - (b64 + of_bool c)) (BX_LF_INSTR_SUB_SBB64 (of_bool c)) s) (sub_flags a64 (b64 :: u64) c)"
  unfolding adc_codes by (rule shows_SIZE; cases c; simp add: computes_sbb_at computes_sub_small computes_sub_64)+

definition with_result :: "'a::len word \<Rightarrow> u32 \<Rightarrow> lf_flags_entry \<Rightarrow> lf_flags_entry" where
  "with_result r ins e = e\<lparr>lf_result := scast r, lf_instr := ins\<rparr>"

lemma with_result_simps [simp]: "lf_result (with_result r ins e) = scast r" "lf_instr (with_result r ins e) = ins"
  by (simp_all add: with_result_def)

definition computes_oszap :: "lf_flags_entry \<Rightarrow> (aflag \<Rightarrow> bool) \<Rightarrow> bool" where
  "computes_oszap e fl \<longleftrightarrow> (\<forall>f. f \<noteq> CF \<longrightarrow> (\<exists>v. get_lazy f e = Inr v \<and> (v \<noteq> 0) = fl f))"

lemma computes_oszapI:
  fixes r :: "'a::len word"
  assumes "8 \<le> LENGTH('a)" "LENGTH('a) \<le> 64" "lf_result e = scast r"
    and "\<And>f. f \<in> {SF, ZF, PF} \<Longrightarrow> fl f = result_flag r f"
    and "get_OFLazy e = Inr (of_bool (fl OF))" and "get_AFLazy e = Inr (of_bool (fl AF))"
  shows "computes_oszap e fl"
  unfolding computes_oszap_def
proof (intro allI impI)
  fix f assume "f \<noteq> CF"
  then show "\<exists>v. get_lazy f e = Inr v \<and> (v \<noteq> 0) = fl f"
    using result_flags_computed[OF assms(1-3), of f] assms(4)[of f] assms(5,6) by (cases f) simp_all
qed

lemma computes_with_CF:
  assumes "computes_oszap e fl" "get_CFLazy e = Inr (of_bool (fl CF))"
  shows "computes e fl"
  unfolding computes_def
proof
  fix f show "\<exists>v. get_lazy f e = Inr v \<and> (v \<noteq> 0) = fl f"
    using assms unfolding computes_oszap_def by (cases "f = CF") (simp_all del: not_None_eq)
qed

lemma result_8_with:
  fixes r :: "'a::len word"
  shows "8 \<le> LENGTH('a) \<Longrightarrow> LENGTH('a) \<le> 64 \<Longrightarrow> result_8 (with_result r ins e) = ucast r"
  by (simp add: result_8_def ucast_scast_low)

lemma computes_logic:
  fixes r :: "'a::len word"
  assumes "8 \<le> LENGTH('a)" "LENGTH('a) \<le> 64"
    "ins \<in> {BX_LF_INSTR_LOGIC8, BX_LF_INSTR_LOGIC16, BX_LF_INSTR_LOGIC32, BX_LF_INSTR_LOGIC64}"
  shows "computes (with_result r ins e) (logic_flags r)"
  using assms CF_branches(13)[of "with_result r ins e"] OF_branches(5)[of "with_result r ins e"] AF_branches(4)[of "with_result r ins e"]
  by (intro computesI[where r = r]) (simp_all add: logic_flags_def result_flag_def)

lemma computes_inc:
  "computes_oszap (with_result (a8 + 1) BX_LF_INSTR_INC8 e) (add_flags (a8 :: u8) 1 False)"
  "computes_oszap (with_result (a16 + 1) BX_LF_INSTR_INC16 e) (add_flags (a16 :: u16) 1 False)"
  "computes_oszap (with_result (a32 + 1) BX_LF_INSTR_INC32 e) (add_flags (a32 :: u32) 1 False)"
  "computes_oszap (with_result (a64 + 1) BX_LF_INSTR_INC64 e) (add_flags (a64 :: u64) 1 False)"
proof -
  let ?e = "with_result (a8 + 1) BX_LF_INSTR_INC8 e"
  show "computes_oszap ?e (add_flags a8 1 False)"
    using OF_branches(6)[of ?e] AF_branches(2)[of ?e] inc_flags[of "0x80 :: u8" a8] add_flags_result[of _ a8 1 False]
    by (intro computes_oszapI[where r = "a8 + 1"]) (simp_all add: result_8_with result_8_def ucast_scast_64)
  let ?e = "with_result (a16 + 1) BX_LF_INSTR_INC16 e"
  show "computes_oszap ?e (add_flags a16 1 False)"
    using OF_branches(7)[of ?e] AF_branches(2)[of ?e] inc_flags[of "0x8000 :: u16" a16] add_flags_result[of _ a16 1 False]
    by (intro computes_oszapI[where r = "a16 + 1"]) (simp_all add: result_8_with result_16_def ucast_scast_64)
  let ?e = "with_result (a32 + 1) BX_LF_INSTR_INC32 e"
  show "computes_oszap ?e (add_flags a32 1 False)"
    using OF_branches(8)[of ?e] AF_branches(2)[of ?e] inc_flags[of "0x80000000 :: u32" a32] add_flags_result[of _ a32 1 False]
    by (intro computes_oszapI[where r = "a32 + 1"]) (simp_all add: result_8_with result_32_def ucast_scast_64)
  let ?e = "with_result (a64 + 1) BX_LF_INSTR_INC64 e"
  show "computes_oszap ?e (add_flags a64 1 False)"
    using OF_branches(9)[of ?e] AF_branches(2)[of ?e] inc_flags[of "0x8000000000000000 :: u64" a64] add_flags_result[of _ a64 1 False]
    by (intro computes_oszapI[where r = "a64 + 1"]) (simp_all add: result_8_with result_64_def ucast_scast_64)
qed

lemma computes_dec:
  "computes_oszap (with_result (a8 - 1) BX_LF_INSTR_DEC8 e) (sub_flags (a8 :: u8) 1 False)"
  "computes_oszap (with_result (a16 - 1) BX_LF_INSTR_DEC16 e) (sub_flags (a16 :: u16) 1 False)"
  "computes_oszap (with_result (a32 - 1) BX_LF_INSTR_DEC32 e) (sub_flags (a32 :: u32) 1 False)"
  "computes_oszap (with_result (a64 - 1) BX_LF_INSTR_DEC64 e) (sub_flags (a64 :: u64) 1 False)"
proof -
  let ?e = "with_result (a8 - 1) BX_LF_INSTR_DEC8 e"
  show "computes_oszap ?e (sub_flags a8 1 False)"
    using OF_branches(10)[of ?e] AF_branches(3)[of ?e] dec_flags[of "0x7F :: u8" a8] sub_flags_result[of _ a8 1 False]
    by (intro computes_oszapI[where r = "a8 - 1"]) (simp_all add: result_8_with result_8_def ucast_scast_64)
  let ?e = "with_result (a16 - 1) BX_LF_INSTR_DEC16 e"
  show "computes_oszap ?e (sub_flags a16 1 False)"
    using OF_branches(11)[of ?e] AF_branches(3)[of ?e] dec_flags[of "0x7FFF :: u16" a16] sub_flags_result[of _ a16 1 False]
    by (intro computes_oszapI[where r = "a16 - 1"]) (simp_all add: result_8_with result_16_def ucast_scast_64)
  let ?e = "with_result (a32 - 1) BX_LF_INSTR_DEC32 e"
  show "computes_oszap ?e (sub_flags a32 1 False)"
    using OF_branches(12)[of ?e] AF_branches(3)[of ?e] dec_flags[of "0x7FFFFFFF :: u32" a32] sub_flags_result[of _ a32 1 False]
    by (intro computes_oszapI[where r = "a32 - 1"]) (simp_all add: result_8_with result_32_def ucast_scast_64)
  let ?e = "with_result (a64 - 1) BX_LF_INSTR_DEC64 e"
  show "computes_oszap ?e (sub_flags a64 1 False)"
    using OF_branches(13)[of ?e] AF_branches(3)[of ?e] dec_flags[of "0x7FFFFFFFFFFFFFFF :: u64" a64] sub_flags_result[of _ a64 1 False]
    by (intro computes_oszapI[where r = "a64 - 1"]) (simp_all add: result_8_with result_64_def ucast_scast_64)
qed

lemma computes_neg:
  "computes_oszap (with_result (- a8) BX_LF_INSTR_NEG8 e) (sub_flags 0 (a8 :: u8) False)"
  "computes_oszap (with_result (- a16) BX_LF_INSTR_NEG16 e) (sub_flags 0 (a16 :: u16) False)"
  "computes_oszap (with_result (- a32) BX_LF_INSTR_NEG32 e) (sub_flags 0 (a32 :: u32) False)"
  "computes_oszap (with_result (- a64) BX_LF_INSTR_NEG64 e) (sub_flags 0 (a64 :: u64) False)"
proof -
  let ?e = "with_result (- a8) BX_LF_INSTR_NEG8 e"
  show "computes_oszap ?e (sub_flags 0 a8 False)"
    using OF_branches(6)[of ?e] AF_branches(1)[of ?e] neg_flags[of "0x80 :: u8" a8] sub_flags_result[of _ 0 a8 False]
    by (intro computes_oszapI[where r = "- a8"]) (simp_all add: result_8_with result_8_def ucast_scast_64)
  let ?e = "with_result (- a16) BX_LF_INSTR_NEG16 e"
  show "computes_oszap ?e (sub_flags 0 a16 False)"
    using OF_branches(7)[of ?e] AF_branches(1)[of ?e] neg_flags[of "0x8000 :: u16" a16] sub_flags_result[of _ 0 a16 False]
    by (intro computes_oszapI[where r = "- a16"]) (simp_all add: result_8_with result_16_def ucast_scast_64)
  let ?e = "with_result (- a32) BX_LF_INSTR_NEG32 e"
  show "computes_oszap ?e (sub_flags 0 a32 False)"
    using OF_branches(8)[of ?e] AF_branches(1)[of ?e] neg_flags[of "0x80000000 :: u32" a32] sub_flags_result[of _ 0 a32 False]
    by (intro computes_oszapI[where r = "- a32"]) (simp_all add: result_8_with result_32_def ucast_scast_64)
  let ?e = "with_result (- a64) BX_LF_INSTR_NEG64 e"
  show "computes_oszap ?e (sub_flags 0 a64 False)"
    using OF_branches(9)[of ?e] AF_branches(1)[of ?e] neg_flags[of "0x8000000000000000 :: u64" a64] sub_flags_result[of _ 0 a64 False]
    by (intro computes_oszapI[where r = "- a64"]) (simp_all add: result_8_with result_64_def ucast_scast_64)
qed

lemma scast_eq_0:
  fixes x :: "'a::len word"
  assumes "LENGTH('a) \<le> LENGTH('b)"
  shows "(scast x :: 'b::len word) = 0 \<longleftrightarrow> x = 0"
  using scast_le[OF assms, of x 0] by simp

lemma computes_neg_CF:
  "computes (with_result (- a8) BX_LF_INSTR_NEG8 e) (sub_flags 0 (a8 :: u8) False)"
  "computes (with_result (- a16) BX_LF_INSTR_NEG16 e) (sub_flags 0 (a16 :: u16) False)"
  "computes (with_result (- a32) BX_LF_INSTR_NEG32 e) (sub_flags 0 (a32 :: u32) False)"
  "computes (with_result (- a64) BX_LF_INSTR_NEG64 e) (sub_flags 0 (a64 :: u64) False)"
proof -
  show "computes (with_result (- a8) BX_LF_INSTR_NEG8 e) (sub_flags 0 a8 False)"
    by (rule computes_with_CF[OF computes_neg(1)]) (use CF_branches(11)[of "with_result (- a8) BX_LF_INSTR_NEG8 e"] neg_flags(3)[of "0x80 :: u8" a8] in \<open>simp add: result_32_def ucast_scast_64 scast_eq_0\<close>)
  show "computes (with_result (- a16) BX_LF_INSTR_NEG16 e) (sub_flags 0 a16 False)"
    by (rule computes_with_CF[OF computes_neg(2)]) (use CF_branches(11)[of "with_result (- a16) BX_LF_INSTR_NEG16 e"] neg_flags(3)[of "0x8000 :: u16" a16] in \<open>simp add: result_32_def ucast_scast_64 scast_eq_0\<close>)
  show "computes (with_result (- a32) BX_LF_INSTR_NEG32 e) (sub_flags 0 a32 False)"
    by (rule computes_with_CF[OF computes_neg(3)]) (use CF_branches(11)[of "with_result (- a32) BX_LF_INSTR_NEG32 e"] neg_flags(3)[of "0x80000000 :: u32" a32] in \<open>simp add: result_32_def ucast_scast_64 scast_eq_0\<close>)
  show "computes (with_result (- a64) BX_LF_INSTR_NEG64 e) (sub_flags 0 a64 False)"
    by (rule computes_with_CF[OF computes_neg(4)]) (use CF_branches(12)[of "with_result (- a64) BX_LF_INSTR_NEG64 e"] neg_flags(3)[of "0x8000000000000000 :: u64" a64] in \<open>simp add: result_64_def ucast_scast_64 scast_eq_0\<close>)
qed

lemma RESULT_entry:
  "SET_FLAGS_OSZAPC_RESULT_SIZE r ins s = s\<lparr>b_oszapc := with_result r ins (b_oszapc s), b_status := EFlagsOSZAPCMask\<rparr>"
  by (simp add: SET_FLAGS_OSZAPC_RESULT_SIZE_def with_result_def)

lemma shows_RESULT:
  "(\<And>e. computes (with_result r ins e) fl) \<Longrightarrow> shows_flags (SET_FLAGS_OSZAPC_RESULT_SIZE r ins s) fl"
  by (rule shows_computes) (simp_all add: RESULT_entry)

lemma set_flags_logic:
  "shows_flags (SET_FLAGS_OSZAPC_LOGIC_8 r8 s) (logic_flags r8)"
  "shows_flags (SET_FLAGS_OSZAPC_LOGIC_16 r16 s) (logic_flags r16)"
  "shows_flags (SET_FLAGS_OSZAPC_LOGIC_32 r32 s) (logic_flags r32)"
  "shows_flags (SET_FLAGS_OSZAPC_LOGIC_64 r64 s) (logic_flags r64)"
  unfolding SET_FLAGS_OSZAPC_LOGIC_8_def SET_FLAGS_OSZAPC_LOGIC_16_def SET_FLAGS_OSZAPC_LOGIC_32_def SET_FLAGS_OSZAPC_LOGIC_64_def
  by (rule shows_RESULT; rule computes_logic; simp)+

lemma set_flags_neg:
  "shows_flags (SET_FLAGS_OSZAPC_RESULT_SIZE (- a8) BX_LF_INSTR_NEG8 s) (sub_flags 0 (a8 :: u8) False)"
  "shows_flags (SET_FLAGS_OSZAPC_RESULT_SIZE (- a16) BX_LF_INSTR_NEG16 s) (sub_flags 0 (a16 :: u16) False)"
  "shows_flags (SET_FLAGS_OSZAPC_RESULT_SIZE (- a32) BX_LF_INSTR_NEG32 s) (sub_flags 0 (a32 :: u32) False)"
  "shows_flags (SET_FLAGS_OSZAPC_RESULT_SIZE (- a64) BX_LF_INSTR_NEG64 s) (sub_flags 0 (a64 :: u64) False)"
  by (rule shows_RESULT; rule computes_neg_CF)+

section \<open>Accessors\<close>

lemma lf_mask_exp: "lf_mask f = 2 ^ flag_shift f"
  by (simp add: lf_mask_def push_bit_eq_mult)

lemma flag_shift_small: "flag_shift f < 32"
  by (cases f) simp_all

lemma flag_shift_inj: "flag_shift f = flag_shift g \<longleftrightarrow> f = g"
  by (cases f; cases g; simp)

lemma bit_lf_mask [simp]: "bit (lf_mask f) n \<longleftrightarrow> n = flag_shift f"
  using flag_shift_small[of f] by (auto simp: lf_mask_exp bit_exp_iff possible_bit_word)

lemma and_lf_mask: "x AND lf_mask f = 0 \<longleftrightarrow> \<not> bit x (flag_shift f)"
  by (simp add: lf_mask_exp and_exp_eq_0_iff_not_bit)

lemma bit_field: "drop_bit n (x :: u32) AND 1 = of_bool (bit x n)"
  by (simp add: and_one_eq mod_2_eq_odd bit_iff_odd_drop_bit)

text \<open>The value of a flag, when the readers give one.\<close>

definition flags_of :: "bcpu \<Rightarrow> aflag \<Rightarrow> bool" where "flags_of s f \<longleftrightarrow> getB f s = Inr 1"

definition flags_ok :: "bcpu \<Rightarrow> bool" where "flags_ok s \<longleftrightarrow> (\<forall>f. is_ok (getB f s))"

lemma getB_bool: "getB f s = Inr v \<Longrightarrow> v = of_bool (getB f s = Inr 1)"
  by (auto simp: getB_def bit_field rbind_Inr_iff split: if_splits)

lemma shows_flags_iff: "shows_flags s fl \<longleftrightarrow> flags_ok s \<and> flags_of s = fl"
proof
  assume "shows_flags s fl"
  then show "flags_ok s \<and> flags_of s = fl"
    by (auto simp: shows_flags_def flags_ok_def flags_of_def is_ok_iff fun_eq_iff)
next
  assume *: "flags_ok s \<and> flags_of s = fl"
  show "shows_flags s fl"
    unfolding shows_flags_def
  proof
    fix f
    obtain v where "getB f s = Inr v" using * by (auto simp: flags_ok_def is_ok_iff)
    then show "getB f s = Inr (of_bool (fl f))" using getB_bool[of f s v] * by (auto simp: flags_of_def)
  qed
qed

lemma shows_self: "flags_ok s \<Longrightarrow> shows_flags s (flags_of s)"
  by (simp add: shows_flags_iff)

lemma getB_known: "b_status s AND lf_mask f = 0 \<Longrightarrow> getB f s = Inr (of_bool (bit (b_eflags s) (flag_shift f)))"
  by (simp add: getB_def bit_field)

lemma getB_cong:
  assumes "bit (b_status s) (flag_shift f) = bit (b_status t) (flag_shift f)"
    and "\<not> bit (b_status s) (flag_shift f) \<Longrightarrow> bit (b_eflags s) (flag_shift f) = bit (b_eflags t) (flag_shift f)"
    and "bit (b_status s) (flag_shift f) \<Longrightarrow> get_lazy f (b_oszapc s) = get_lazy f (b_oszapc t)"
  shows "getB f s = getB f t"
  using assms unfolding getB_def bit_field and_lf_mask by auto

lemma set_aflag_fields [simp]:
  "b_status (set_aflag g v s) = b_status s AND NOT (lf_mask g)" "b_oszapc (set_aflag g v s) = b_oszapc s"
  "b_eflags (set_aflag g v s) = (b_eflags s AND NOT (lf_mask g)) OR push_bit (flag_shift g) v"
  by (simp_all add: set_aflag_def)

lemma bit_push_bool: "bit (push_bit (flag_shift g) (of_bool b) :: u32) (flag_shift f) \<longleftrightarrow> b \<and> f = g"
  using flag_shift_inj[of f g] by (cases b) (simp_all add: lf_mask_def[symmetric] del: push_bit_of_1)

lemma bit_clear_mask: "bit (x AND NOT (lf_mask g)) (flag_shift f) \<longleftrightarrow> bit x (flag_shift f) \<and> f \<noteq> g"
  using flag_shift_small[of f] flag_shift_inj[of f g] by (auto simp: bit_and_iff bit_not_iff possible_bit_word)

lemma getB_set_aflag: "getB f (set_aflag g (of_bool b) s) = (if f = g then Inr (of_bool b) else getB f s)"
proof (cases "f = g")
  case True
  then show ?thesis by (simp add: getB_known and_lf_mask bit_clear_mask bit_or_iff bit_push_bool)
next
  case False
  then have "getB f (set_aflag g (of_bool b) s) = getB f s"
    by (intro getB_cong) (simp_all add: bit_clear_mask bit_or_iff bit_push_bool)
  then show ?thesis using False by simp
qed

lemma getB_clear_aflag: "getB f (clear_aflag g s) = (if f = g then Inr 0 else getB f s)"
  using getB_set_aflag[of f g False s] by (simp add: set_aflag_def clear_aflag_def)

lemma getB_assert_aflag: "getB f (assert_aflag g s) = (if f = g then Inr 1 else getB f s)"
proof -
  have "(b_eflags s AND NOT (lf_mask g)) OR push_bit (flag_shift g) 1 = b_eflags s OR lf_mask g"
    by (rule bit_word_eqI) (auto simp: lf_mask_def bit_simps)
  then show ?thesis using getB_set_aflag[of f g True s] by (simp add: set_aflag_def assert_aflag_def)
qed

lemma getB_oxxxxc:
  "getB f (SET_FLAGS_OxxxxC (of_bool x) (of_bool c) s) = (if f = OF then Inr (of_bool x) else if f = CF then Inr (of_bool c) else getB f s)"
proof -
  have "SET_FLAGS_OxxxxC (of_bool x) (of_bool c) s = set_aflag OF (of_bool x) (set_aflag CF (of_bool c) s)"
  proof -
    have "(b_eflags s AND NOT (lf_mask OF OR lf_mask CF)) OR (push_bit 11 (of_bool x) OR of_bool c)
      = (((b_eflags s AND NOT (lf_mask CF)) OR push_bit 0 (of_bool c)) AND NOT (lf_mask OF)) OR push_bit 11 (of_bool x)"
      by (rule bit_word_eqI) (auto simp: bit_simps)
    moreover have "b_status s AND NOT (lf_mask OF OR lf_mask CF) = (b_status s AND NOT (lf_mask CF)) AND NOT (lf_mask OF)"
      by (rule bit_word_eqI) (auto simp: bit_simps)
    ultimately show ?thesis by (simp add: SET_FLAGS_OxxxxC_def set_aflag_def put_eflags_def)
  qed
  then show ?thesis by (simp add: getB_set_aflag)
qed

lemma lazy_of_getB:
  assumes "getB f s = Inr v" "b_status s AND lf_mask f \<noteq> 0"
  obtains w where "get_lazy f (b_oszapc s) = Inr w" "v = of_bool (w \<noteq> 0)"
  using assms by (auto simp: getB_def rbind_Inr_iff split: if_splits)

lemma force_aflag_ok:
  assumes "shows_flags s fl"
  obtains t where "force_aflag g s = Inr t" "shows_flags t fl" "b_oszapc t = b_oszapc s"
    "b_status t = b_status s AND NOT (lf_mask g)" "b_x t = (b_x s)\<lparr>x_eflags := b_eflags t\<rparr>"
proof (cases "b_status s AND lf_mask g = 0")
  case True
  then have "b_status s = b_status s AND NOT (lf_mask g)"
    by (intro bit_word_eqI) (auto simp: and_lf_mask bit_and_iff bit_not_iff possible_bit_word)
  then show ?thesis using True assms by (intro that[of s]) (simp_all add: force_aflag_def)
next
  case False
  have g: "getB g s = Inr (of_bool (fl g))" using assms by (simp add: shows_flags_def)
  obtain w where w: "get_lazy g (b_oszapc s) = Inr w" "of_bool (fl g) = (of_bool (w \<noteq> 0) :: u32)"
    using lazy_of_getB[OF g False] .
  have fg: "fl g = (w \<noteq> 0)" using w(2) by (cases "fl g"; cases "w = 0") simp_all
  let ?t = "set_aflag g (of_bool (w \<noteq> 0)) s"
  have "shows_flags ?t fl"
    using assms fg unfolding shows_flags_def getB_set_aflag by simp
  moreover have "force_aflag g s = Inr ?t" using False w by (simp add: force_aflag_def)
  ultimately show ?thesis by (intro that[of ?t]) (simp_all add: set_aflag_def put_eflags_def)
qed

text \<open>\<open>INC\<close> and \<open>DEC\<close> keep the carry.\<close>

lemma OSZAP_shows:
  assumes "shows_flags s fl0" "\<And>e. computes_oszap (with_result r ins e) fl"
  obtains t where "SET_FLAGS_OSZAP_RESULT_SIZE r ins s = Inr t" "shows_flags t (fl(CF := fl0 CF))"
    "b_x t = (b_x s)\<lparr>x_eflags := b_eflags t\<rparr>"
proof -
  obtain u where u: "force_aflag CF s = Inr u" "shows_flags u fl0" "b_status u = b_status s AND NOT (lf_mask CF)"
    "b_x u = (b_x s)\<lparr>x_eflags := b_eflags u\<rparr>"
    using force_aflag_ok[OF assms(1)] by blast
  let ?t = "u\<lparr>b_oszapc := with_result r ins (b_oszapc u), b_status := EFlagsOSZAPMask\<rparr>"
  have "shows_flags ?t (fl(CF := fl0 CF))"
    unfolding shows_flags_def
  proof
    fix f
    show "getB f ?t = Inr (of_bool ((fl(CF := fl0 CF)) f))"
    proof (cases "f = CF")
      case True
      have "b_status u AND lf_mask CF = 0" using u(3) by (simp only: and_lf_mask bit_clear_mask) blast
      then have "getB CF ?t = getB CF u" using oszap_mask[of CF] by (simp add: getB_def)
      then show ?thesis using True u(2) by (simp add: shows_flags_def)
    next
      case False
      then obtain v where "get_lazy f (with_result r ins (b_oszapc u)) = Inr v" "(v \<noteq> 0) = fl f"
        using assms(2)[of "b_oszapc u"] unfolding computes_oszap_def by blast
      then show ?thesis using False oszap_mask[of f] by (simp add: getB_def)
    qed
  qed
  moreover have "SET_FLAGS_OSZAP_RESULT_SIZE r ins s = Inr ?t"
    using u(1) by (simp add: SET_FLAGS_OSZAP_RESULT_SIZE_def with_result_def)
  ultimately show ?thesis using u(4) by (intro that[of ?t]) simp_all
qed

lemma set_flags_inc:
  assumes "shows_flags s fl"
  shows "\<exists>t. SET_FLAGS_OSZAPC_INC_8 (a8 + 1) s = Inr t \<and> shows_flags t ((add_flags a8 1 False)(CF := fl CF)) \<and> b_x t = (b_x s)\<lparr>x_eflags := b_eflags t\<rparr>"
    and "\<exists>t. SET_FLAGS_OSZAPC_INC_16 (a16 + 1) s = Inr t \<and> shows_flags t ((add_flags a16 1 False)(CF := fl CF)) \<and> b_x t = (b_x s)\<lparr>x_eflags := b_eflags t\<rparr>"
    and "\<exists>t. SET_FLAGS_OSZAPC_INC_32 (a32 + 1) s = Inr t \<and> shows_flags t ((add_flags a32 1 False)(CF := fl CF)) \<and> b_x t = (b_x s)\<lparr>x_eflags := b_eflags t\<rparr>"
    and "\<exists>t. SET_FLAGS_OSZAPC_INC_64 (a64 + 1) s = Inr t \<and> shows_flags t ((add_flags a64 1 False)(CF := fl CF)) \<and> b_x t = (b_x s)\<lparr>x_eflags := b_eflags t\<rparr>"
  unfolding SET_FLAGS_OSZAPC_INC_8_def SET_FLAGS_OSZAPC_INC_16_def SET_FLAGS_OSZAPC_INC_32_def SET_FLAGS_OSZAPC_INC_64_def
  subgoal by (rule OSZAP_shows[OF assms computes_inc(1)]) blast
  subgoal by (rule OSZAP_shows[OF assms computes_inc(2)]) blast
  subgoal by (rule OSZAP_shows[OF assms computes_inc(3)]) blast
  subgoal by (rule OSZAP_shows[OF assms computes_inc(4)]) blast
  done

lemma set_flags_dec:
  assumes "shows_flags s fl"
  shows "\<exists>t. SET_FLAGS_OSZAPC_DEC_8 (a8 - 1) s = Inr t \<and> shows_flags t ((sub_flags a8 1 False)(CF := fl CF)) \<and> b_x t = (b_x s)\<lparr>x_eflags := b_eflags t\<rparr>"
    and "\<exists>t. SET_FLAGS_OSZAPC_DEC_16 (a16 - 1) s = Inr t \<and> shows_flags t ((sub_flags a16 1 False)(CF := fl CF)) \<and> b_x t = (b_x s)\<lparr>x_eflags := b_eflags t\<rparr>"
    and "\<exists>t. SET_FLAGS_OSZAPC_DEC_32 (a32 - 1) s = Inr t \<and> shows_flags t ((sub_flags a32 1 False)(CF := fl CF)) \<and> b_x t = (b_x s)\<lparr>x_eflags := b_eflags t\<rparr>"
    and "\<exists>t. SET_FLAGS_OSZAPC_DEC_64 (a64 - 1) s = Inr t \<and> shows_flags t ((sub_flags a64 1 False)(CF := fl CF)) \<and> b_x t = (b_x s)\<lparr>x_eflags := b_eflags t\<rparr>"
  unfolding SET_FLAGS_OSZAPC_DEC_8_def SET_FLAGS_OSZAPC_DEC_16_def SET_FLAGS_OSZAPC_DEC_32_def SET_FLAGS_OSZAPC_DEC_64_def
  subgoal by (rule OSZAP_shows[OF assms computes_dec(1)]) blast
  subgoal by (rule OSZAP_shows[OF assms computes_dec(2)]) blast
  subgoal by (rule OSZAP_shows[OF assms computes_dec(3)]) blast
  subgoal by (rule OSZAP_shows[OF assms computes_dec(4)]) blast
  done

section \<open>Reading the whole register\<close>

lemma of_bool_u32: "(of_bool p :: u32) = of_bool q \<longleftrightarrow> p = q"
  by (cases p; cases q) simp_all

lemma flag_or_shows:
  assumes "shows_flags s fl"
  shows "flag_or f s acc = Inr (acc OR (if fl f then lf_mask f else 0))"
proof -
  have g: "getB f s = Inr (of_bool (fl f))" using assms by (simp add: shows_flags_def)
  have "\<exists>v. get_flag f s = Inr v \<and> (v \<noteq> 0) = fl f"
  proof (cases "b_status s AND lf_mask f = 0")
    case True
    then show ?thesis using g by (cases "fl f"; cases "bit (b_eflags s) (flag_shift f)") (simp_all add: getB_known get_flag_def and_lf_mask)
  next
    case False
    then obtain w where "get_lazy f (b_oszapc s) = Inr w" "(of_bool (fl f) :: u32) = of_bool (w \<noteq> 0)"
      using lazy_of_getB[OF g] by blast
    then show ?thesis using False by (cases "fl f"; cases "w = 0") (simp_all add: get_flag_def)
  qed
  then show ?thesis by (auto simp: flag_or_def)
qed

definition flag_bits :: "(aflag \<Rightarrow> bool) \<Rightarrow> u32" where
  "flag_bits fl = (((((0 OR (if fl CF then lf_mask CF else 0)) OR (if fl PF then lf_mask PF else 0)) OR (if fl AF then lf_mask AF else 0))
     OR (if fl ZF then lf_mask ZF else 0)) OR (if fl SF then lf_mask SF else 0)) OR (if fl OF then lf_mask OF else 0)"

lemma bit_if_mask: "bit (if b then lf_mask f else 0) n \<longleftrightarrow> b \<and> n = flag_shift f"
  by simp

lemma bit_flag_bits: "bit (flag_bits fl) (flag_shift f) \<longleftrightarrow> fl f"
  unfolding flag_bits_def bit_or_iff bit_if_mask flag_shift_inj bit_0_eq by (cases f) simp_all

lemma bit_OSZAPC: "bit EFlagsOSZAPCMask (flag_shift f)"
  unfolding EFlagsOSZAPCMask_def bit_or_iff bit_lf_mask flag_shift_inj by (cases f) simp_all

lemma force_flags_shows:
  assumes "shows_flags s fl"
  obtains t where "force_flags s = Inr (b_eflags t, t)" "b_status t = 0" "shows_flags t fl"
    "\<And>f. bit (b_eflags t) (flag_shift f) = fl f"
    "b_eflags t AND NOT EFlagsOSZAPCMask = b_eflags s AND NOT EFlagsOSZAPCMask"
    "b_x t = (b_x s)\<lparr>x_eflags := b_eflags t\<rparr>"
proof (cases "b_status s = 0")
  case True
  have "bit (b_eflags s) (flag_shift f) = fl f" for f
  proof -
    have "Inr (of_bool (fl f)) = (Inr (of_bool (bit (b_eflags s) (flag_shift f))) :: u32 res)"
      using assms getB_known[of s f] True by (simp add: shows_flags_def)
    then show ?thesis by (simp only: sum.inject of_bool_u32)
  qed
  then show ?thesis using True assms by (intro that[of s]) (simp_all add: force_flags_def)
next
  case False
  let ?t = "setEFlagsOSZAPC (flag_bits fl) s"
  have e: "b_eflags ?t = (b_eflags s AND NOT EFlagsOSZAPCMask) OR (flag_bits fl AND EFlagsOSZAPCMask)" "b_status ?t = 0"
    by (simp_all add: setEFlagsOSZAPC_def)
  have b: "bit (b_eflags ?t) (flag_shift f) = fl f" for f
    unfolding e using flag_shift_small[of f] bit_OSZAPC[of f] bit_flag_bits[of fl f] by (simp add: bit_simps)
  have "force_flags s = Inr (b_eflags ?t, ?t)"
    using False by (simp add: force_flags_def flag_or_shows[OF assms] flag_bits_def Let_def)
  moreover have "shows_flags ?t fl" using b e(2) getB_known[of ?t] by (simp add: shows_flags_def)
  moreover have "b_eflags ?t AND NOT EFlagsOSZAPCMask = b_eflags s AND NOT EFlagsOSZAPCMask"
    unfolding e by (rule bit_word_eqI) (auto simp: bit_simps)
  ultimately show ?thesis using e b by (intro that[of ?t]) (simp_all add: setEFlagsOSZAPC_def put_eflags_def)
qed

section \<open>Properties\<close>

text \<open>C6: The lazily computed flags are the architectural ones. For each of the four operand widths, after the macro that an
  addition (with or without carry), a subtraction (with or without borrow), a negation, a logical operation, an increment or a
  decrement runs, reading any of the six flags gives what the architecture defines for the operands: carry and borrow out of the
  unsigned sum or difference, overflow of the signed one, carry out of the low four bits, zero, sign and parity of the result;
  increments and decrements keep the carry. No read ends in a \<open>BX_PANIC\<close>.\<close>

theorem lazy_flags_exact:
  fixes a8 b8 :: u8 and a16 b16 :: u16 and a32 b32 :: u32 and a64 b64 :: u64
  assumes "flags_ok s"
  shows "shows_flags (SET_FLAGS_OSZAPC_SIZE a8 b8 (a8 + b8 + of_bool c) (BX_LF_INSTR_ADD_ADC8 (of_bool c)) s) (add_flags a8 b8 c)
    \<and> shows_flags (SET_FLAGS_OSZAPC_SIZE a16 b16 (a16 + b16 + of_bool c) (BX_LF_INSTR_ADD_ADC16 (of_bool c)) s) (add_flags a16 b16 c)
    \<and> shows_flags (SET_FLAGS_OSZAPC_SIZE a32 b32 (a32 + b32 + of_bool c) (BX_LF_INSTR_ADD_ADC32 (of_bool c)) s) (add_flags a32 b32 c)
    \<and> shows_flags (SET_FLAGS_OSZAPC_SIZE a64 b64 (a64 + b64 + of_bool c) (BX_LF_INSTR_ADD_ADC64 (of_bool c)) s) (add_flags a64 b64 c)
    \<and> shows_flags (SET_FLAGS_OSZAPC_SIZE a8 b8 (a8 - (b8 + of_bool c)) (BX_LF_INSTR_SUB_SBB8 (of_bool c)) s) (sub_flags a8 b8 c)
    \<and> shows_flags (SET_FLAGS_OSZAPC_SIZE a16 b16 (a16 - (b16 + of_bool c)) (BX_LF_INSTR_SUB_SBB16 (of_bool c)) s) (sub_flags a16 b16 c)
    \<and> shows_flags (SET_FLAGS_OSZAPC_SIZE a32 b32 (a32 - (b32 + of_bool c)) (BX_LF_INSTR_SUB_SBB32 (of_bool c)) s) (sub_flags a32 b32 c)
    \<and> shows_flags (SET_FLAGS_OSZAPC_SIZE a64 b64 (a64 - (b64 + of_bool c)) (BX_LF_INSTR_SUB_SBB64 (of_bool c)) s) (sub_flags a64 b64 c)
    \<and> shows_flags (SET_FLAGS_OSZAPC_RESULT_SIZE (- a8) BX_LF_INSTR_NEG8 s) (sub_flags 0 a8 False)
    \<and> shows_flags (SET_FLAGS_OSZAPC_RESULT_SIZE (- a16) BX_LF_INSTR_NEG16 s) (sub_flags 0 a16 False)
    \<and> shows_flags (SET_FLAGS_OSZAPC_RESULT_SIZE (- a32) BX_LF_INSTR_NEG32 s) (sub_flags 0 a32 False)
    \<and> shows_flags (SET_FLAGS_OSZAPC_RESULT_SIZE (- a64) BX_LF_INSTR_NEG64 s) (sub_flags 0 a64 False)
    \<and> shows_flags (SET_FLAGS_OSZAPC_LOGIC_8 a8 s) (logic_flags a8)
    \<and> shows_flags (SET_FLAGS_OSZAPC_LOGIC_16 a16 s) (logic_flags a16)
    \<and> shows_flags (SET_FLAGS_OSZAPC_LOGIC_32 a32 s) (logic_flags a32)
    \<and> shows_flags (SET_FLAGS_OSZAPC_LOGIC_64 a64 s) (logic_flags a64)
    \<and> (\<exists>t. SET_FLAGS_OSZAPC_INC_8 (a8 + 1) s = Inr t \<and> shows_flags t ((add_flags a8 1 False)(CF := flags_of s CF)))
    \<and> (\<exists>t. SET_FLAGS_OSZAPC_INC_16 (a16 + 1) s = Inr t \<and> shows_flags t ((add_flags a16 1 False)(CF := flags_of s CF)))
    \<and> (\<exists>t. SET_FLAGS_OSZAPC_INC_32 (a32 + 1) s = Inr t \<and> shows_flags t ((add_flags a32 1 False)(CF := flags_of s CF)))
    \<and> (\<exists>t. SET_FLAGS_OSZAPC_INC_64 (a64 + 1) s = Inr t \<and> shows_flags t ((add_flags a64 1 False)(CF := flags_of s CF)))
    \<and> (\<exists>t. SET_FLAGS_OSZAPC_DEC_8 (a8 - 1) s = Inr t \<and> shows_flags t ((sub_flags a8 1 False)(CF := flags_of s CF)))
    \<and> (\<exists>t. SET_FLAGS_OSZAPC_DEC_16 (a16 - 1) s = Inr t \<and> shows_flags t ((sub_flags a16 1 False)(CF := flags_of s CF)))
    \<and> (\<exists>t. SET_FLAGS_OSZAPC_DEC_32 (a32 - 1) s = Inr t \<and> shows_flags t ((sub_flags a32 1 False)(CF := flags_of s CF)))
    \<and> (\<exists>t. SET_FLAGS_OSZAPC_DEC_64 (a64 - 1) s = Inr t \<and> shows_flags t ((sub_flags a64 1 False)(CF := flags_of s CF)))"
  by (intro conjI set_flags_adc set_flags_sbb set_flags_neg set_flags_logic)
    (use set_flags_inc[OF shows_self[OF assms]] set_flags_dec[OF shows_self[OF assms]] in blast)+

text \<open>C7: Reading the whole register is transparent. When the flags can be read, \<open>force_flags\<close> returns a register whose six
  flag bits are the values that the readers gave before and whose other bits are unchanged; afterwards nothing is left to be
  computed and every flag still reads the same.\<close>

theorem force_flags_exact:
  assumes "flags_ok s"
  shows "\<exists>t. force_flags s = Inr (b_eflags t, t) \<and> b_status t = 0 \<and> flags_ok t \<and> flags_of t = flags_of s
    \<and> (\<forall>f. bit (b_eflags t) (flag_shift f) = flags_of s f)
    \<and> b_eflags t AND NOT EFlagsOSZAPCMask = b_eflags s AND NOT EFlagsOSZAPCMask"
proof -
  obtain t where "force_flags s = Inr (b_eflags t, t)" "b_status t = 0" "shows_flags t (flags_of s)"
    "\<And>f. bit (b_eflags t) (flag_shift f) = flags_of s f"
    "b_eflags t AND NOT EFlagsOSZAPCMask = b_eflags s AND NOT EFlagsOSZAPCMask"
    using force_flags_shows[OF shows_self[OF assms]] by blast
  then show ?thesis by (intro exI[of _ t]) (simp add: shows_flags_iff)
qed

section \<open>Witnesses\<close>

definition demo_bcpu :: bcpu where
  "demo_bcpu = \<lparr>b_x = demo_cpu, b_oszapc = \<lparr>lf_op1 = 0, lf_op2 = 0, lf_result = 0, lf_instr = 0\<rparr>, b_status = 0,
     b_speculative_rsp = False, b_prev_rsp = 0\<rparr>"

lemma demo_flags_ok: "flags_ok demo_bcpu"
  by (simp add: flags_ok_def getB_def demo_bcpu_def)

lemma lazy_flags_exact_witness:
  "getB OF (SET_FLAGS_OSZAPC_SIZE (0x7F :: u8) 1 (0x7F + 1 + of_bool False) (BX_LF_INSTR_ADD_ADC8 (of_bool False)) demo_bcpu) = Inr 1"
proof -
  have "add_flags (0x7F :: u8) 1 False OF" by (simp add: add_flags_def signed_range_def)
  then show ?thesis
    using lazy_flags_exact[OF demo_flags_ok, of "0x7F" 1 False] unfolding shows_flags_def by simp
qed

lemma force_flags_exact_witness: "\<exists>t. force_flags demo_bcpu = Inr (b_eflags t, t) \<and> b_status t = 0"
  using force_flags_exact[OF demo_flags_ok] by blast

end
