(* ===== verification/Bochs_Inst.thy ===== *)
theory Bochs_Inst
  imports Bochs_Flags
begin

text \<open>
  What the instructions of the interpreter are made of: the decoded instruction \<open>bxInstruction_c\<close>
  (\<open>bochs/cpu/instr.h\<close>), the parts of the general registers (\<open>bx_gen_reg_t\<close> and its macros in
  \<open>bochs/general_start.h\<close>), the address resolvers (\<open>resolver.cpp\<close>), the memory accesses (\<open>bochs/general_end.h\<close>,
  on top of \<open>X86_Mmu\<close>), the stack (\<open>stack.h\<close>), and the loading of a memory operand into the temporary
  register before the register form of an instruction runs (\<open>load32.cpp\<close>).

  An instruction is a value of \<open>'a exec\<close>: from a state it ends with the exception it raised (\<open>Inl\<close>, the \<open>longjmp\<close>)
  or with a result, in the state reached by then, unless the simulator itself fails (\<open>res\<close>).
\<close>

section \<open>Instructions as state transformers\<close>

type_synonym 'a exec = "bcpu \<Rightarrow> ((u64 + 'a) \<times> bcpu) res"

definition ret :: "'a \<Rightarrow> 'a exec" where "ret x s = Inr (Inr x, s)"

definition raise :: "u64 \<Rightarrow> 'a exec" where "raise e s = Inr (Inl e, s)"

definition bbind :: "'a exec \<Rightarrow> ('a \<Rightarrow> 'b exec) \<Rightarrow> 'b exec" where
  "bbind m f s = rbind (m s) (\<lambda>(r, t). case r of Inl e \<Rightarrow> Inr (Inl e, t) | Inr x \<Rightarrow> f x t)"

definition bseq :: "unit exec \<Rightarrow> 'b exec \<Rightarrow> 'b exec" where "bseq m k = bbind m (\<lambda>_. k)"

definition gets :: "(bcpu \<Rightarrow> 'a) \<Rightarrow> 'a exec" where "gets f s = Inr (Inr (f s), s)"

definition upd :: "(bcpu \<Rightarrow> bcpu) \<Rightarrow> unit exec" where "upd f s = Inr (Inr (), f s)"

text \<open>A step of the flags, which may panic, and a value that a flag reader computes.\<close>

definition flag_step :: "(bcpu \<Rightarrow> bcpu res) \<Rightarrow> unit exec" where "flag_step g s = rbind (g s) (\<lambda>t. Inr (Inr (), t))"

definition flag_value :: "aflag \<Rightarrow> u32 exec" where "flag_value f s = rbind (getB f s) (\<lambda>v. Inr (Inr v, s))"

text \<open>An access of the virtual memory, and the second half of a read-modify-write access.\<close>

definition on_x :: "(xcpu \<Rightarrow> ((u64 + 'a) \<times> xcpu) res) \<Rightarrow> 'a exec" where
  "on_x f s = rbind (f (b_x s)) (\<lambda>(r, x). Inr (r, s\<lparr>b_x := x\<rparr>))"

definition rmw :: "(xcpu \<Rightarrow> xcpu res) \<Rightarrow> unit exec" where
  "rmw f s = rbind (f (b_x s)) (\<lambda>x. Inr (Inr (), s\<lparr>b_x := x\<rparr>))"

lemma bbind_simps [simp]:
  "bbind (ret x) f = f x"
  "bbind (gets g) f s = f (g s) s"
  "bbind (upd h) k s = k () (h s)"
  "bseq (upd h) m s = m (h s)"
  "ret x s = Inr (Inr x, s)" "raise e s = Inr (Inl e, s)" "upd h s = Inr (Inr (), h s)"
  by (simp_all add: bbind_def ret_def raise_def gets_def upd_def bseq_def fun_eq_iff)

lemma bbind_raise [simp]: "bbind (raise e) f = raise e" "bseq (raise e) m = raise e"
  by (simp_all add: bbind_def raise_def bseq_def fun_eq_iff)

lemma bbind_value: "m s = Inr (Inr x, t) \<Longrightarrow> bbind m f s = f x t"
  by (simp add: bbind_def)

lemma bseq_value: "m s = Inr (Inr (), t) \<Longrightarrow> bseq m k s = k t"
  by (simp add: bseq_def bbind_def)

lemma bbind_exc: "m s = Inr (Inl e, t) \<Longrightarrow> bbind m f s = Inr (Inl e, t)"
  by (simp add: bbind_def)

section \<open>Exceptions\<close>

definition BX_DE_EXCEPTION :: u64 where "BX_DE_EXCEPTION = 0"
definition BX_UD_EXCEPTION :: u64 where "BX_UD_EXCEPTION = 6"
definition BX_GP_EXCEPTION :: u64 where "BX_GP_EXCEPTION = 13"

section \<open>The decoded instruction\<close>

text \<open>
  \<open>i_data\<close> is the union of the immediate and the displacement: \<open>Id\<close>, \<open>Iw\<close> and \<open>Ib\<close> are its low bytes, the
  displacement (or the second immediate) its high half, \<open>Iq\<close> the whole. The function pointers \<open>execute\<close> and
  \<open>execute2\<close> are arguments of what calls them.
\<close>

datatype resolver = BxResolve32Base | BxResolve32BaseIndex | BxResolve64Base | BxResolve64BaseIndex

record inst =
  i_resolve :: resolver
  i_b1 :: u8
  i_ilen :: u8
  i_info1 :: u8
  i_seg :: nat
  i_nnn :: nat
  i_rm :: nat
  i_base :: nat
  i_index :: nat
  i_scale :: nat
  i_modrm :: nat
  i_data :: u64

definition i_Id :: "inst \<Rightarrow> u32" where "i_Id i = ucast (i_data i)"
definition i_Iw :: "inst \<Rightarrow> u16" where "i_Iw i = ucast (i_data i)"
definition i_Ib :: "inst \<Rightarrow> u8" where "i_Ib i = ucast (i_data i)"
definition i_Ib2 :: "inst \<Rightarrow> u8" where "i_Ib2 i = ucast (drop_bit 32 (i_data i))"
definition i_Iq :: "inst \<Rightarrow> u64" where "i_Iq i = i_data i"
definition i_displ32s :: "inst \<Rightarrow> u32" where "i_displ32s i = ucast (drop_bit 32 (i_data i))"
definition extend8bitL :: "inst \<Rightarrow> bool" where "extend8bitL i \<longleftrightarrow> bit (i_info1 i) 7"
definition as64L :: "inst \<Rightarrow> bool" where "as64L i \<longleftrightarrow> bit (i_info1 i) 6"
definition os64L :: "inst \<Rightarrow> bool" where "os64L i \<longleftrightarrow> bit (i_info1 i) 5"
definition as32L :: "inst \<Rightarrow> bool" where "as32L i \<longleftrightarrow> bit (i_info1 i) 4"
definition os32L :: "inst \<Rightarrow> bool" where "os32L i \<longleftrightarrow> bit (i_info1 i) 3"
definition repUsedL :: "inst \<Rightarrow> u8" where "repUsedL i = i_info1 i AND 3"

section \<open>General registers\<close>

text \<open>\<open>gen_reg\<close> holds the 16 registers, the instruction pointer (16), the null register (17) and the temporary (18).\<close>

definition BX_64BIT_REG_RIP :: nat where "BX_64BIT_REG_RIP = 16"
definition BX_NIL_REGISTER :: nat where "BX_NIL_REGISTER = 17"
definition BX_TMP_REGISTER :: nat where "BX_TMP_REGISTER = 18"

definition gen_reg :: "nat \<Rightarrow> bcpu \<Rightarrow> u64" where
  "gen_reg r s = (if r = BX_64BIT_REG_RIP then x_rip (b_x s) else x_gpr (b_x s) r)"

definition put_gen_reg :: "nat \<Rightarrow> u64 \<Rightarrow> bcpu \<Rightarrow> bcpu" where
  "put_gen_reg r v s = s\<lparr>b_x := (if r = BX_64BIT_REG_RIP then (b_x s)\<lparr>x_rip := v\<rparr> else set_gpr r v (b_x s))\<rparr>"

definition READ_64BIT_REG :: "nat \<Rightarrow> bcpu \<Rightarrow> u64" where "READ_64BIT_REG r s = gen_reg r s"
definition READ_32BIT_REG :: "nat \<Rightarrow> bcpu \<Rightarrow> u32" where "READ_32BIT_REG r s = ucast (gen_reg r s)"
definition READ_16BIT_REG :: "nat \<Rightarrow> bcpu \<Rightarrow> u16" where "READ_16BIT_REG r s = ucast (gen_reg r s)"
definition READ_8BIT_REGL :: "nat \<Rightarrow> bcpu \<Rightarrow> u8" where "READ_8BIT_REGL r s = ucast (gen_reg r s)"
definition READ_8BIT_REGH :: "nat \<Rightarrow> bcpu \<Rightarrow> u8" where "READ_8BIT_REGH r s = ucast (drop_bit 8 (gen_reg r s))"

definition READ_8BIT_REGx :: "nat \<Rightarrow> bool \<Rightarrow> bcpu \<Rightarrow> u8" where
  "READ_8BIT_REGx r extended s = (if r AND 4 = 0 \<or> extended then READ_8BIT_REGL r s else READ_8BIT_REGH (r - 4) s)"

definition WRITE_64BIT_REG :: "nat \<Rightarrow> u64 \<Rightarrow> bcpu \<Rightarrow> bcpu" where "WRITE_64BIT_REG r v = put_gen_reg r v"

definition WRITE_32BIT_REGZ :: "nat \<Rightarrow> u32 \<Rightarrow> bcpu \<Rightarrow> bcpu" where "WRITE_32BIT_REGZ r v = put_gen_reg r (ucast v)"

definition WRITE_32BIT_LOW :: "nat \<Rightarrow> u32 \<Rightarrow> bcpu \<Rightarrow> bcpu" where
  "WRITE_32BIT_LOW r v s = put_gen_reg r (gen_reg r s AND NOT 0xFFFFFFFF OR ucast v) s"

definition WRITE_16BIT_REG :: "nat \<Rightarrow> u16 \<Rightarrow> bcpu \<Rightarrow> bcpu" where
  "WRITE_16BIT_REG r v s = put_gen_reg r (gen_reg r s AND NOT 0xFFFF OR ucast v) s"

definition WRITE_8BIT_REGL :: "nat \<Rightarrow> u8 \<Rightarrow> bcpu \<Rightarrow> bcpu" where
  "WRITE_8BIT_REGL r v s = put_gen_reg r (gen_reg r s AND NOT 0xFF OR ucast v) s"

definition WRITE_8BIT_REGH :: "nat \<Rightarrow> u8 \<Rightarrow> bcpu \<Rightarrow> bcpu" where
  "WRITE_8BIT_REGH r v s = put_gen_reg r (gen_reg r s AND NOT 0xFF00 OR push_bit 8 (ucast v)) s"

definition WRITE_8BIT_REGx :: "nat \<Rightarrow> bool \<Rightarrow> u8 \<Rightarrow> bcpu \<Rightarrow> bcpu" where
  "WRITE_8BIT_REGx r extended v = (if r AND 4 = 0 \<or> extended then WRITE_8BIT_REGL r v else WRITE_8BIT_REGH (r - 4) v)"

definition CLEAR_64BIT_HIGH :: "nat \<Rightarrow> bcpu \<Rightarrow> bcpu" where
  "CLEAR_64BIT_HIGH r s = put_gen_reg r (gen_reg r s AND 0xFFFFFFFF) s"

text \<open>The shortcuts \<open>AL\<close>, \<open>AX\<close>, \<open>EAX\<close>, \<open>RAX\<close> and so on name these parts by the number of the register.\<close>

definition RDX :: nat where "RDX = 2"
definition RBX :: nat where "RBX = 3"
definition RBP :: nat where "RBP = 5"

section \<open>Addresses and memory\<close>

primrec resolve_with :: "resolver \<Rightarrow> inst \<Rightarrow> bcpu \<Rightarrow> u64" where
  "resolve_with BxResolve32Base i s = ucast (READ_32BIT_REG (i_base i) s + i_displ32s i)"
| "resolve_with BxResolve32BaseIndex i s =
     ucast (READ_32BIT_REG (i_base i) s + push_bit (i_scale i) (READ_32BIT_REG (i_index i) s) + i_displ32s i)"
| "resolve_with BxResolve64Base i s = READ_64BIT_REG (i_base i) s + scast (i_displ32s i)"
| "resolve_with BxResolve64BaseIndex i s =
     READ_64BIT_REG (i_base i) s + push_bit (i_scale i) (READ_64BIT_REG (i_index i) s) + scast (i_displ32s i)"

definition ResolveModrm :: "inst \<Rightarrow> u64 exec" where "ResolveModrm i = gets (resolve_with (i_resolve i) i)"

definition read_virtual_byte :: "u64 \<Rightarrow> u8 exec" where "read_virtual_byte a = on_x (mem_read_1 a)"
definition read_virtual_word :: "u64 \<Rightarrow> u16 exec" where "read_virtual_word a = on_x (mem_read_2 a)"
definition read_virtual_dword :: "u64 \<Rightarrow> u32 exec" where "read_virtual_dword a = on_x (mem_read_4 a)"
definition read_virtual_qword :: "u64 \<Rightarrow> u64 exec" where "read_virtual_qword a = on_x (mem_read_8 a)"
definition write_virtual_byte :: "u64 \<Rightarrow> u8 \<Rightarrow> unit exec" where "write_virtual_byte a v = on_x (mem_write_1 a v)"
definition write_virtual_word :: "u64 \<Rightarrow> u16 \<Rightarrow> unit exec" where "write_virtual_word a v = on_x (mem_write_2 a v)"
definition write_virtual_dword :: "u64 \<Rightarrow> u32 \<Rightarrow> unit exec" where "write_virtual_dword a v = on_x (mem_write_4 a v)"
definition write_virtual_qword :: "u64 \<Rightarrow> u64 \<Rightarrow> unit exec" where "write_virtual_qword a v = on_x (mem_write_8 a v)"
definition read_RMW_virtual_byte :: "u64 \<Rightarrow> u8 exec" where "read_RMW_virtual_byte a = on_x (mem_rmw_read_1 a)"
definition read_RMW_virtual_word :: "u64 \<Rightarrow> u16 exec" where "read_RMW_virtual_word a = on_x (mem_rmw_read_2 a)"
definition read_RMW_virtual_dword :: "u64 \<Rightarrow> u32 exec" where "read_RMW_virtual_dword a = on_x (mem_rmw_read_4 a)"
definition read_RMW_virtual_qword :: "u64 \<Rightarrow> u64 exec" where "read_RMW_virtual_qword a = on_x (mem_rmw_read_8 a)"
definition write_RMW_virtual_byte :: "u8 \<Rightarrow> unit exec" where "write_RMW_virtual_byte v = rmw (mem_rmw_write_1 v)"
definition write_RMW_virtual_word :: "u16 \<Rightarrow> unit exec" where "write_RMW_virtual_word v = rmw (mem_rmw_write_2 v)"
definition write_RMW_virtual_dword :: "u32 \<Rightarrow> unit exec" where "write_RMW_virtual_dword v = rmw (mem_rmw_write_4 v)"
definition write_RMW_virtual_qword :: "u64 \<Rightarrow> unit exec" where "write_RMW_virtual_qword v = rmw (mem_rmw_write_8 v)"

section \<open>Memory operands of the register forms\<close>

text \<open>The instruction that runs afterwards (\<open>execute2\<close>) has the temporary register as its operand \<open>rm\<close>.\<close>

definition LOAD_Eb :: "(inst \<Rightarrow> unit exec) \<Rightarrow> inst \<Rightarrow> unit exec" where
  "LOAD_Eb execute2 i = bbind (ResolveModrm i) (\<lambda>eaddr. bbind (read_virtual_byte eaddr) (\<lambda>v.
     bseq (upd (WRITE_8BIT_REGL BX_TMP_REGISTER v)) (execute2 i)))"

definition LOAD_Ew :: "(inst \<Rightarrow> unit exec) \<Rightarrow> inst \<Rightarrow> unit exec" where
  "LOAD_Ew execute2 i = bbind (ResolveModrm i) (\<lambda>eaddr. bbind (read_virtual_word eaddr) (\<lambda>v.
     bseq (upd (WRITE_16BIT_REG BX_TMP_REGISTER v)) (execute2 i)))"

definition LOAD_Ed :: "(inst \<Rightarrow> unit exec) \<Rightarrow> inst \<Rightarrow> unit exec" where
  "LOAD_Ed execute2 i = bbind (ResolveModrm i) (\<lambda>eaddr. bbind (read_virtual_dword eaddr) (\<lambda>v.
     bseq (upd (WRITE_32BIT_LOW BX_TMP_REGISTER v)) (execute2 i)))"

definition LOAD_Eq :: "(inst \<Rightarrow> unit exec) \<Rightarrow> inst \<Rightarrow> unit exec" where
  "LOAD_Eq execute2 i = bbind (ResolveModrm i) (\<lambda>eaddr. bbind (read_virtual_qword eaddr) (\<lambda>v.
     bseq (upd (WRITE_64BIT_REG BX_TMP_REGISTER v)) (execute2 i)))"

section \<open>Stack\<close>

definition push_16 :: "u16 \<Rightarrow> unit exec" where
  "push_16 v = bbind (gets (READ_64BIT_REG RSP)) (\<lambda>rsp. bseq (write_virtual_word (rsp - 2) v)
     (upd (\<lambda>s. WRITE_64BIT_REG RSP (READ_64BIT_REG RSP s - 2) s)))"

definition push_32 :: "u32 \<Rightarrow> unit exec" where
  "push_32 v = bbind (gets (READ_64BIT_REG RSP)) (\<lambda>rsp. bseq (write_virtual_dword (rsp - 4) v)
     (upd (\<lambda>s. WRITE_64BIT_REG RSP (READ_64BIT_REG RSP s - 4) s)))"

definition push_64 :: "u64 \<Rightarrow> unit exec" where
  "push_64 v = bbind (gets (READ_64BIT_REG RSP)) (\<lambda>rsp. bseq (write_virtual_qword (rsp - 8) v)
     (upd (\<lambda>s. WRITE_64BIT_REG RSP (READ_64BIT_REG RSP s - 8) s)))"

definition pop_16 :: "u16 exec" where
  "pop_16 = bbind (gets (READ_64BIT_REG RSP)) (\<lambda>rsp. bbind (read_virtual_word rsp) (\<lambda>v.
     bseq (upd (\<lambda>s. WRITE_64BIT_REG RSP (READ_64BIT_REG RSP s + 2) s)) (ret v)))"

definition pop_32 :: "u32 exec" where
  "pop_32 = bbind (gets (READ_64BIT_REG RSP)) (\<lambda>rsp. bbind (read_virtual_dword rsp) (\<lambda>v.
     bseq (upd (\<lambda>s. WRITE_64BIT_REG RSP (READ_64BIT_REG RSP s + 4) s)) (ret v)))"

definition pop_64 :: "u64 exec" where
  "pop_64 = bbind (gets (READ_64BIT_REG RSP)) (\<lambda>rsp. bbind (read_virtual_qword rsp) (\<lambda>v.
     bseq (upd (\<lambda>s. WRITE_64BIT_REG RSP (READ_64BIT_REG RSP s + 8) s)) (ret v)))"

definition RSP_SPECULATIVE :: "bcpu \<Rightarrow> bcpu" where
  "RSP_SPECULATIVE s = s\<lparr>b_speculative_rsp := True, b_prev_rsp := READ_64BIT_REG RSP s\<rparr>"

definition RSP_COMMIT :: "bcpu \<Rightarrow> bcpu" where "RSP_COMMIT s = s\<lparr>b_speculative_rsp := False\<rparr>"

text \<open>
  \<open>bochs_exec\<close> of \<open>x86_64.cpp\<close>: the instruction runs with the instruction pointer behind it; an exception takes
  the pointer back, and the stack pointer if the instruction had saved it.
\<close>

definition bochs_exec_inst :: "(inst \<Rightarrow> unit exec) \<Rightarrow> inst \<Rightarrow> unit exec" where
  "bochs_exec_inst execute i s =
     (let s0 = s\<lparr>b_speculative_rsp := False\<rparr>; prev_rip = gen_reg BX_64BIT_REG_RIP s0
      in rbind (execute i (put_gen_reg BX_64BIT_REG_RIP (prev_rip + ucast (i_ilen i)) s0)) (\<lambda>(r, t). case r of
           Inr () \<Rightarrow> Inr (Inr (), t)
         | Inl e \<Rightarrow> let t1 = put_gen_reg BX_64BIT_REG_RIP prev_rip t
                    in Inr (Inl e, if b_speculative_rsp t1 then WRITE_64BIT_REG RSP (b_prev_rsp t1) t1 else t1)))"

section \<open>Reading back what was written\<close>

lemma gen_reg_put [simp]: "gen_reg r (put_gen_reg q v s) = (if r = q then v else gen_reg r s)"
  by (simp add: gen_reg_def put_gen_reg_def set_gpr_def)

lemma put_gen_reg_fields [simp]:
  "b_oszapc (put_gen_reg r v s) = b_oszapc s" "b_status (put_gen_reg r v s) = b_status s" "b_eflags (put_gen_reg r v s) = b_eflags s"
  "b_speculative_rsp (put_gen_reg r v s) = b_speculative_rsp s" "b_prev_rsp (put_gen_reg r v s) = b_prev_rsp s"
  "x_mem (b_x (put_gen_reg r v s)) = x_mem (b_x s)"
  by (simp_all add: put_gen_reg_def set_gpr_def)

lemma read_after_write_64: "READ_64BIT_REG r (WRITE_64BIT_REG q v s) = (if r = q then v else READ_64BIT_REG r s)"
  by (simp add: READ_64BIT_REG_def WRITE_64BIT_REG_def)

lemma masks: "(0xFFFFFFFF :: u64) = mask 32" "(0xFFFF :: u64) = mask 16" "(0xFF :: u64) = mask 8" "(0xFF00 :: u64) = push_bit 8 (mask 8)"
  by (simp_all add: mask_eq_exp_minus_1)

lemma low_bits:
  "(ucast (x AND NOT 0xFFFFFFFF OR ucast (a :: u32) :: u64) :: u32) = a"
  "(ucast (x AND NOT 0xFFFF OR ucast (b :: u16) :: u64) :: u16) = b"
  "(ucast (x AND NOT 0xFF OR ucast (c :: u8) :: u64) :: u8) = c"
  "(ucast (drop_bit 8 (x AND NOT 0xFF00 OR push_bit 8 (ucast (c :: u8)) :: u64)) :: u8) = c"
  unfolding masks by (rule bit_word_eqI; auto simp: bit_simps)+

lemma ucast_back_32: "(ucast (ucast (v :: u32) :: u64) :: u32) = v"
  by (rule bit_word_eqI) (auto simp: bit_simps)

lemma read_after_write_32: "READ_32BIT_REG r (WRITE_32BIT_REGZ q v s) = (if r = q then v else READ_32BIT_REG r s)"
  unfolding READ_32BIT_REG_def WRITE_32BIT_REGZ_def by (simp add: ucast_back_32)

lemma read_after_write_low32: "READ_32BIT_REG r (WRITE_32BIT_LOW q v s) = (if r = q then v else READ_32BIT_REG r s)"
  unfolding READ_32BIT_REG_def WRITE_32BIT_LOW_def gen_reg_put by (cases "r = q") (simp_all only: if_True if_False low_bits simp_thms)

lemma read_after_write_16: "READ_16BIT_REG r (WRITE_16BIT_REG q v s) = (if r = q then v else READ_16BIT_REG r s)"
  unfolding READ_16BIT_REG_def WRITE_16BIT_REG_def gen_reg_put by (cases "r = q") (simp_all only: if_True if_False low_bits simp_thms)

lemma read_after_write_8x: "READ_8BIT_REGx r e (WRITE_8BIT_REGx r e v s) = v"
  unfolding READ_8BIT_REGx_def WRITE_8BIT_REGx_def READ_8BIT_REGL_def READ_8BIT_REGH_def WRITE_8BIT_REGL_def WRITE_8BIT_REGH_def
  by (cases "r AND 4 = 0 \<or> e") (simp_all only: if_True if_False gen_reg_put low_bits simp_thms)

end
