(* ===== verification/Bochs_Arith.thy ===== *)
theory Bochs_Arith
  imports Bochs_Inst
begin

text \<open>
  The arithmetic instructions with byte and word operands, \<open>src/src/cpu/x86_64/bochs/cpu/arith8.cpp\<close> and
  \<open>arith16.cpp\<close>, one definition per instruction, in the order of the files. A name ends in \<open>R\<close> for the form with
  register operands and in \<open>M\<close> for the one that reads and writes memory.
\<close>

unbundle bit_operations_syntax

section \<open>Byte operands\<close>

definition ADD_EbGbM :: "inst \<Rightarrow> unit exec" where
  "ADD_EbGbM i =
     bbind (ResolveModrm i) (\<lambda>eaddr.
     bbind (read_RMW_virtual_byte eaddr) (\<lambda>op1.
     bbind (gets (READ_8BIT_REGx (i_nnn i) (extend8bitL i))) (\<lambda>op2.
     let sum = op1 + op2 in
     bseq (write_RMW_virtual_byte sum) (
     upd (SET_FLAGS_OSZAPC_ADD_8 op1 op2 sum)))))"

definition ADD_GbEbR :: "inst \<Rightarrow> unit exec" where
  "ADD_GbEbR i =
     bbind (gets (READ_8BIT_REGx (i_nnn i) (extend8bitL i))) (\<lambda>op1.
     bbind (gets (READ_8BIT_REGx (i_rm i) (extend8bitL i))) (\<lambda>op2.
     let sum = op1 + op2 in
     bseq (upd (WRITE_8BIT_REGx (i_nnn i) (extend8bitL i) sum)) (
     upd (SET_FLAGS_OSZAPC_ADD_8 op1 op2 sum))))"

definition ADD_ALIb :: "inst \<Rightarrow> unit exec" where
  "ADD_ALIb i =
     bbind (gets (READ_8BIT_REGL RAX)) (\<lambda>op1.
     let op2 = i_Ib i in
     let sum = op1 + op2 in
     bseq (upd (WRITE_8BIT_REGL RAX sum)) (
     upd (SET_FLAGS_OSZAPC_ADD_8 op1 op2 sum)))"

definition ADC_EbGbM :: "inst \<Rightarrow> unit exec" where
  "ADC_EbGbM i =
     bbind (flag_value CF) (\<lambda>temp_CF.
     bbind (ResolveModrm i) (\<lambda>eaddr.
     bbind (read_RMW_virtual_byte eaddr) (\<lambda>op1.
     bbind (gets (READ_8BIT_REGx (i_nnn i) (extend8bitL i))) (\<lambda>op2.
     let sum = op1 + op2 + ucast temp_CF in
     bseq (write_RMW_virtual_byte sum) (
     upd (SET_FLAGS_OSZAPC_SIZE op1 op2 sum (BX_LF_INSTR_ADD_ADC8 temp_CF)))))))"

definition ADC_GbEbR :: "inst \<Rightarrow> unit exec" where
  "ADC_GbEbR i =
     bbind (flag_value CF) (\<lambda>temp_CF.
     bbind (gets (READ_8BIT_REGx (i_nnn i) (extend8bitL i))) (\<lambda>op1.
     bbind (gets (READ_8BIT_REGx (i_rm i) (extend8bitL i))) (\<lambda>op2.
     let sum = op1 + op2 + ucast temp_CF in
     bseq (upd (WRITE_8BIT_REGx (i_nnn i) (extend8bitL i) sum)) (
     upd (SET_FLAGS_OSZAPC_SIZE op1 op2 sum (BX_LF_INSTR_ADD_ADC8 temp_CF))))))"

definition ADC_ALIb :: "inst \<Rightarrow> unit exec" where
  "ADC_ALIb i =
     bbind (flag_value CF) (\<lambda>temp_CF.
     bbind (gets (READ_8BIT_REGL RAX)) (\<lambda>op1.
     let op2 = i_Ib i in
     let sum = op1 + op2 + ucast temp_CF in
     bseq (upd (WRITE_8BIT_REGL RAX sum)) (
     upd (SET_FLAGS_OSZAPC_SIZE op1 op2 sum (BX_LF_INSTR_ADD_ADC8 temp_CF)))))"

definition SBB_EbGbM :: "inst \<Rightarrow> unit exec" where
  "SBB_EbGbM i =
     bbind (flag_value CF) (\<lambda>temp_CF.
     bbind (ResolveModrm i) (\<lambda>eaddr.
     bbind (read_RMW_virtual_byte eaddr) (\<lambda>op1_8.
     bbind (gets (READ_8BIT_REGx (i_nnn i) (extend8bitL i))) (\<lambda>op2_8.
     let diff_8 = op1_8 - (op2_8 + ucast temp_CF) in
     bseq (write_RMW_virtual_byte diff_8) (
     upd (SET_FLAGS_OSZAPC_SIZE op1_8 op2_8 diff_8 (BX_LF_INSTR_SUB_SBB8 temp_CF)))))))"

definition SBB_GbEbR :: "inst \<Rightarrow> unit exec" where
  "SBB_GbEbR i =
     bbind (flag_value CF) (\<lambda>temp_CF.
     bbind (gets (READ_8BIT_REGx (i_nnn i) (extend8bitL i))) (\<lambda>op1_8.
     bbind (gets (READ_8BIT_REGx (i_rm i) (extend8bitL i))) (\<lambda>op2_8.
     let diff_8 = op1_8 - (op2_8 + ucast temp_CF) in
     bseq (upd (WRITE_8BIT_REGx (i_nnn i) (extend8bitL i) diff_8)) (
     upd (SET_FLAGS_OSZAPC_SIZE op1_8 op2_8 diff_8 (BX_LF_INSTR_SUB_SBB8 temp_CF))))))"

definition SBB_ALIb :: "inst \<Rightarrow> unit exec" where
  "SBB_ALIb i =
     bbind (flag_value CF) (\<lambda>temp_CF.
     bbind (gets (READ_8BIT_REGL RAX)) (\<lambda>op1_8.
     let op2_8 = i_Ib i in
     let diff_8 = op1_8 - (op2_8 + ucast temp_CF) in
     bseq (upd (WRITE_8BIT_REGL RAX diff_8)) (
     upd (SET_FLAGS_OSZAPC_SIZE op1_8 op2_8 diff_8 (BX_LF_INSTR_SUB_SBB8 temp_CF)))))"

definition SBB_EbIbM :: "inst \<Rightarrow> unit exec" where
  "SBB_EbIbM i =
    (let op2_8 = i_Ib i in
     bbind (flag_value CF) (\<lambda>temp_CF.
     bbind (ResolveModrm i) (\<lambda>eaddr.
     bbind (read_RMW_virtual_byte eaddr) (\<lambda>op1_8.
     let diff_8 = op1_8 - (op2_8 + ucast temp_CF) in
     bseq (write_RMW_virtual_byte diff_8) (
     upd (SET_FLAGS_OSZAPC_SIZE op1_8 op2_8 diff_8 (BX_LF_INSTR_SUB_SBB8 temp_CF)))))))"

definition SBB_EbIbR :: "inst \<Rightarrow> unit exec" where
  "SBB_EbIbR i =
    (let op2_8 = i_Ib i in
     bbind (flag_value CF) (\<lambda>temp_CF.
     bbind (gets (READ_8BIT_REGx (i_rm i) (extend8bitL i))) (\<lambda>op1_8.
     let diff_8 = op1_8 - (op2_8 + ucast temp_CF) in
     bseq (upd (WRITE_8BIT_REGx (i_rm i) (extend8bitL i) diff_8)) (
     upd (SET_FLAGS_OSZAPC_SIZE op1_8 op2_8 diff_8 (BX_LF_INSTR_SUB_SBB8 temp_CF))))))"

definition SUB_EbGbM :: "inst \<Rightarrow> unit exec" where
  "SUB_EbGbM i =
     bbind (ResolveModrm i) (\<lambda>eaddr.
     bbind (read_RMW_virtual_byte eaddr) (\<lambda>op1_8.
     bbind (gets (READ_8BIT_REGx (i_nnn i) (extend8bitL i))) (\<lambda>op2_8.
     let diff_8 = op1_8 - op2_8 in
     bseq (write_RMW_virtual_byte diff_8) (
     upd (SET_FLAGS_OSZAPC_SUB_8 op1_8 op2_8 diff_8)))))"

definition SUB_GbEbR :: "inst \<Rightarrow> unit exec" where
  "SUB_GbEbR i =
     bbind (gets (READ_8BIT_REGx (i_nnn i) (extend8bitL i))) (\<lambda>op1_8.
     bbind (gets (READ_8BIT_REGx (i_rm i) (extend8bitL i))) (\<lambda>op2_8.
     let diff_8 = op1_8 - op2_8 in
     bseq (upd (WRITE_8BIT_REGx (i_nnn i) (extend8bitL i) diff_8)) (
     upd (SET_FLAGS_OSZAPC_SUB_8 op1_8 op2_8 diff_8))))"

definition SUB_ALIb :: "inst \<Rightarrow> unit exec" where
  "SUB_ALIb i =
     bbind (gets (READ_8BIT_REGL RAX)) (\<lambda>op1_8.
     let op2_8 = i_Ib i in
     let diff_8 = op1_8 - op2_8 in
     bseq (upd (WRITE_8BIT_REGL RAX diff_8)) (
     upd (SET_FLAGS_OSZAPC_SUB_8 op1_8 op2_8 diff_8)))"

definition CMP_EbGbM :: "inst \<Rightarrow> unit exec" where
  "CMP_EbGbM i =
     bbind (ResolveModrm i) (\<lambda>eaddr.
     bbind (read_virtual_byte eaddr) (\<lambda>op1_8.
     bbind (gets (READ_8BIT_REGx (i_nnn i) (extend8bitL i))) (\<lambda>op2_8.
     let diff_8 = op1_8 - op2_8 in
     upd (SET_FLAGS_OSZAPC_SUB_8 op1_8 op2_8 diff_8))))"

definition CMP_GbEbR :: "inst \<Rightarrow> unit exec" where
  "CMP_GbEbR i =
     bbind (gets (READ_8BIT_REGx (i_nnn i) (extend8bitL i))) (\<lambda>op1_8.
     bbind (gets (READ_8BIT_REGx (i_rm i) (extend8bitL i))) (\<lambda>op2_8.
     let diff_8 = op1_8 - op2_8 in
     upd (SET_FLAGS_OSZAPC_SUB_8 op1_8 op2_8 diff_8)))"

definition CMP_ALIb :: "inst \<Rightarrow> unit exec" where
  "CMP_ALIb i =
     bbind (gets (READ_8BIT_REGL RAX)) (\<lambda>op1_8.
     let op2_8 = i_Ib i in
     let diff_8 = op1_8 - op2_8 in
     upd (SET_FLAGS_OSZAPC_SUB_8 op1_8 op2_8 diff_8))"

definition XADD_EbGbM :: "inst \<Rightarrow> unit exec" where
  "XADD_EbGbM i =
     bbind (ResolveModrm i) (\<lambda>eaddr.
     bbind (read_RMW_virtual_byte eaddr) (\<lambda>op1.
     bbind (gets (READ_8BIT_REGx (i_nnn i) (extend8bitL i))) (\<lambda>op2.
     let sum = op1 + op2 in
     bseq (write_RMW_virtual_byte sum) (
     bseq (upd (WRITE_8BIT_REGx (i_nnn i) (extend8bitL i) op1)) (
     upd (SET_FLAGS_OSZAPC_ADD_8 op1 op2 sum))))))"

definition XADD_EbGbR :: "inst \<Rightarrow> unit exec" where
  "XADD_EbGbR i =
     bbind (gets (READ_8BIT_REGx (i_rm i) (extend8bitL i))) (\<lambda>op1.
     bbind (gets (READ_8BIT_REGx (i_nnn i) (extend8bitL i))) (\<lambda>op2.
     let sum = op1 + op2 in
     bseq (upd (WRITE_8BIT_REGx (i_nnn i) (extend8bitL i) op1)) (
     bseq (upd (WRITE_8BIT_REGx (i_rm i) (extend8bitL i) sum)) (
     upd (SET_FLAGS_OSZAPC_ADD_8 op1 op2 sum)))))"

definition ADD_EbIbM :: "inst \<Rightarrow> unit exec" where
  "ADD_EbIbM i =
    (let op2 = i_Ib i in
     bbind (ResolveModrm i) (\<lambda>eaddr.
     bbind (read_RMW_virtual_byte eaddr) (\<lambda>op1.
     let sum = op1 + op2 in
     bseq (write_RMW_virtual_byte sum) (
     upd (SET_FLAGS_OSZAPC_ADD_8 op1 op2 sum)))))"

definition ADD_EbIbR :: "inst \<Rightarrow> unit exec" where
  "ADD_EbIbR i =
    (let op2 = i_Ib i in
     bbind (gets (READ_8BIT_REGx (i_rm i) (extend8bitL i))) (\<lambda>op1.
     let sum = op1 + op2 in
     bseq (upd (WRITE_8BIT_REGx (i_rm i) (extend8bitL i) sum)) (
     upd (SET_FLAGS_OSZAPC_ADD_8 op1 op2 sum))))"

definition ADC_EbIbM :: "inst \<Rightarrow> unit exec" where
  "ADC_EbIbM i =
    (let op2 = i_Ib i in
     bbind (flag_value CF) (\<lambda>temp_CF.
     bbind (ResolveModrm i) (\<lambda>eaddr.
     bbind (read_RMW_virtual_byte eaddr) (\<lambda>op1.
     let sum = op1 + op2 + ucast temp_CF in
     bseq (write_RMW_virtual_byte sum) (
     upd (SET_FLAGS_OSZAPC_SIZE op1 op2 sum (BX_LF_INSTR_ADD_ADC8 temp_CF)))))))"

definition ADC_EbIbR :: "inst \<Rightarrow> unit exec" where
  "ADC_EbIbR i =
    (let op2 = i_Ib i in
     bbind (flag_value CF) (\<lambda>temp_CF.
     bbind (gets (READ_8BIT_REGx (i_rm i) (extend8bitL i))) (\<lambda>op1.
     let sum = op1 + op2 + ucast temp_CF in
     bseq (upd (WRITE_8BIT_REGx (i_rm i) (extend8bitL i) sum)) (
     upd (SET_FLAGS_OSZAPC_SIZE op1 op2 sum (BX_LF_INSTR_ADD_ADC8 temp_CF))))))"

definition SUB_EbIbM :: "inst \<Rightarrow> unit exec" where
  "SUB_EbIbM i =
    (let op2_8 = i_Ib i in
     bbind (ResolveModrm i) (\<lambda>eaddr.
     bbind (read_RMW_virtual_byte eaddr) (\<lambda>op1_8.
     let diff_8 = op1_8 - op2_8 in
     bseq (write_RMW_virtual_byte diff_8) (
     upd (SET_FLAGS_OSZAPC_SUB_8 op1_8 op2_8 diff_8)))))"

definition SUB_EbIbR :: "inst \<Rightarrow> unit exec" where
  "SUB_EbIbR i =
    (let op2_8 = i_Ib i in
     bbind (gets (READ_8BIT_REGx (i_rm i) (extend8bitL i))) (\<lambda>op1_8.
     let diff_8 = op1_8 - op2_8 in
     bseq (upd (WRITE_8BIT_REGx (i_rm i) (extend8bitL i) diff_8)) (
     upd (SET_FLAGS_OSZAPC_SUB_8 op1_8 op2_8 diff_8))))"

definition CMP_EbIbM :: "inst \<Rightarrow> unit exec" where
  "CMP_EbIbM i =
    (let op2_8 = i_Ib i in
     bbind (ResolveModrm i) (\<lambda>eaddr.
     bbind (read_virtual_byte eaddr) (\<lambda>op1_8.
     let diff_8 = op1_8 - op2_8 in
     upd (SET_FLAGS_OSZAPC_SUB_8 op1_8 op2_8 diff_8))))"

definition CMP_EbIbR :: "inst \<Rightarrow> unit exec" where
  "CMP_EbIbR i =
    (let op2_8 = i_Ib i in
     bbind (gets (READ_8BIT_REGx (i_rm i) (extend8bitL i))) (\<lambda>op1_8.
     let diff_8 = op1_8 - op2_8 in
     upd (SET_FLAGS_OSZAPC_SUB_8 op1_8 op2_8 diff_8)))"

definition NEG_EbM :: "inst \<Rightarrow> unit exec" where
  "NEG_EbM i =
     bbind (ResolveModrm i) (\<lambda>eaddr.
     bbind (read_RMW_virtual_byte eaddr) (\<lambda>op1_8.
     let op1_8 = - op1_8 in
     bseq (write_RMW_virtual_byte op1_8) (
     upd (SET_FLAGS_OSZAPC_RESULT_SIZE op1_8 BX_LF_INSTR_NEG8))))"

definition NEG_EbR :: "inst \<Rightarrow> unit exec" where
  "NEG_EbR i =
     bbind (gets (READ_8BIT_REGx (i_rm i) (extend8bitL i))) (\<lambda>op1_8.
     let op1_8 = - op1_8 in
     bseq (upd (WRITE_8BIT_REGx (i_rm i) (extend8bitL i) op1_8)) (
     upd (SET_FLAGS_OSZAPC_RESULT_SIZE op1_8 BX_LF_INSTR_NEG8)))"

definition INC_EbM :: "inst \<Rightarrow> unit exec" where
  "INC_EbM i =
     bbind (ResolveModrm i) (\<lambda>eaddr.
     bbind (read_RMW_virtual_byte eaddr) (\<lambda>op1_8.
     let op1_8 = op1_8 + 1 in
     bseq (write_RMW_virtual_byte op1_8) (
     flag_step (SET_FLAGS_OSZAPC_INC_8 op1_8))))"

definition INC_EbR :: "inst \<Rightarrow> unit exec" where
  "INC_EbR i =
     bbind (gets (READ_8BIT_REGx (i_rm i) (extend8bitL i))) (\<lambda>op1_8.
     let op1_8 = op1_8 + 1 in
     bseq (upd (WRITE_8BIT_REGx (i_rm i) (extend8bitL i) op1_8)) (
     flag_step (SET_FLAGS_OSZAPC_INC_8 op1_8)))"

definition DEC_EbM :: "inst \<Rightarrow> unit exec" where
  "DEC_EbM i =
     bbind (ResolveModrm i) (\<lambda>eaddr.
     bbind (read_RMW_virtual_byte eaddr) (\<lambda>op1_8.
     let op1_8 = op1_8 - 1 in
     bseq (write_RMW_virtual_byte op1_8) (
     flag_step (SET_FLAGS_OSZAPC_DEC_8 op1_8))))"

definition DEC_EbR :: "inst \<Rightarrow> unit exec" where
  "DEC_EbR i =
     bbind (gets (READ_8BIT_REGx (i_rm i) (extend8bitL i))) (\<lambda>op1_8.
     let op1_8 = op1_8 - 1 in
     bseq (upd (WRITE_8BIT_REGx (i_rm i) (extend8bitL i) op1_8)) (
     flag_step (SET_FLAGS_OSZAPC_DEC_8 op1_8)))"

definition CMPXCHG_EbGbM :: "inst \<Rightarrow> unit exec" where
  "CMPXCHG_EbGbM i =
     bbind (ResolveModrm i) (\<lambda>eaddr.
     bbind (read_RMW_virtual_byte eaddr) (\<lambda>op1_8.
     bbind (gets (READ_8BIT_REGL RAX)) (\<lambda>al.
     let diff_8 = al - op1_8 in
     bseq (upd (SET_FLAGS_OSZAPC_SUB_8 al op1_8 diff_8)) (
     if diff_8 = 0 then
       bbind (gets (READ_8BIT_REGx (i_nnn i) (extend8bitL i))) (\<lambda>op2_8.
       write_RMW_virtual_byte op2_8)
     else
       upd (WRITE_8BIT_REGL RAX op1_8)))))"

definition CMPXCHG_EbGbR :: "inst \<Rightarrow> unit exec" where
  "CMPXCHG_EbGbR i =
     bbind (gets (READ_8BIT_REGx (i_rm i) (extend8bitL i))) (\<lambda>op1_8.
     bbind (gets (READ_8BIT_REGL RAX)) (\<lambda>al.
     let diff_8 = al - op1_8 in
     bseq (upd (SET_FLAGS_OSZAPC_SUB_8 al op1_8 diff_8)) (
     if diff_8 = 0 then
       bbind (gets (READ_8BIT_REGx (i_nnn i) (extend8bitL i))) (\<lambda>op2_8.
       upd (WRITE_8BIT_REGx (i_rm i) (extend8bitL i) op2_8))
     else
       upd (WRITE_8BIT_REGL RAX op1_8))))"

section \<open>Word operands\<close>

definition INC_RX :: "inst \<Rightarrow> unit exec" where
  "INC_RX i =
     bbind (gets (READ_16BIT_REG (i_rm i))) (\<lambda>rx0.
     let rx = rx0 + 1 in
     bseq (upd (WRITE_16BIT_REG (i_rm i) rx)) (
     flag_step (SET_FLAGS_OSZAPC_INC_16 rx)))"

definition DEC_RX :: "inst \<Rightarrow> unit exec" where
  "DEC_RX i =
     bbind (gets (READ_16BIT_REG (i_rm i))) (\<lambda>rx0.
     let rx = rx0 - 1 in
     bseq (upd (WRITE_16BIT_REG (i_rm i) rx)) (
     flag_step (SET_FLAGS_OSZAPC_DEC_16 rx)))"

definition ADD_EwGwM :: "inst \<Rightarrow> unit exec" where
  "ADD_EwGwM i =
     bbind (ResolveModrm i) (\<lambda>eaddr.
     bbind (read_RMW_virtual_word eaddr) (\<lambda>op1_16.
     bbind (gets (READ_16BIT_REG (i_nnn i))) (\<lambda>op2_16.
     let sum_16 = op1_16 + op2_16 in
     bseq (write_RMW_virtual_word sum_16) (
     upd (SET_FLAGS_OSZAPC_ADD_16 op1_16 op2_16 sum_16)))))"

definition ADD_GwEwR :: "inst \<Rightarrow> unit exec" where
  "ADD_GwEwR i =
     bbind (gets (READ_16BIT_REG (i_nnn i))) (\<lambda>op1_16.
     bbind (gets (READ_16BIT_REG (i_rm i))) (\<lambda>op2_16.
     let sum_16 = op1_16 + op2_16 in
     bseq (upd (WRITE_16BIT_REG (i_nnn i) sum_16)) (
     upd (SET_FLAGS_OSZAPC_ADD_16 op1_16 op2_16 sum_16))))"

definition ADD_AXIw :: "inst \<Rightarrow> unit exec" where
  "ADD_AXIw i =
     bbind (gets (READ_16BIT_REG RAX)) (\<lambda>op1_16.
     let op2_16 = i_Iw i in
     let sum_16 = op1_16 + op2_16 in
     bseq (upd (WRITE_16BIT_REG RAX sum_16)) (
     upd (SET_FLAGS_OSZAPC_ADD_16 op1_16 op2_16 sum_16)))"

definition ADC_EwGwM :: "inst \<Rightarrow> unit exec" where
  "ADC_EwGwM i =
     bbind (flag_value CF) (\<lambda>temp_CF.
     bbind (ResolveModrm i) (\<lambda>eaddr.
     bbind (read_RMW_virtual_word eaddr) (\<lambda>op1_16.
     bbind (gets (READ_16BIT_REG (i_nnn i))) (\<lambda>op2_16.
     let sum_16 = op1_16 + op2_16 + ucast temp_CF in
     bseq (write_RMW_virtual_word sum_16) (
     upd (SET_FLAGS_OSZAPC_SIZE op1_16 op2_16 sum_16 (BX_LF_INSTR_ADD_ADC16 temp_CF)))))))"

definition ADC_GwEwR :: "inst \<Rightarrow> unit exec" where
  "ADC_GwEwR i =
     bbind (flag_value CF) (\<lambda>temp_CF.
     bbind (gets (READ_16BIT_REG (i_nnn i))) (\<lambda>op1_16.
     bbind (gets (READ_16BIT_REG (i_rm i))) (\<lambda>op2_16.
     let sum_16 = op1_16 + op2_16 + ucast temp_CF in
     bseq (upd (WRITE_16BIT_REG (i_nnn i) sum_16)) (
     upd (SET_FLAGS_OSZAPC_SIZE op1_16 op2_16 sum_16 (BX_LF_INSTR_ADD_ADC16 temp_CF))))))"

definition ADC_AXIw :: "inst \<Rightarrow> unit exec" where
  "ADC_AXIw i =
     bbind (flag_value CF) (\<lambda>temp_CF.
     bbind (gets (READ_16BIT_REG RAX)) (\<lambda>op1_16.
     let op2_16 = i_Iw i in
     let sum_16 = op1_16 + op2_16 + ucast temp_CF in
     bseq (upd (WRITE_16BIT_REG RAX sum_16)) (
     upd (SET_FLAGS_OSZAPC_SIZE op1_16 op2_16 sum_16 (BX_LF_INSTR_ADD_ADC16 temp_CF)))))"

definition SBB_EwGwM :: "inst \<Rightarrow> unit exec" where
  "SBB_EwGwM i =
     bbind (flag_value CF) (\<lambda>temp_CF.
     bbind (ResolveModrm i) (\<lambda>eaddr.
     bbind (read_RMW_virtual_word eaddr) (\<lambda>op1_16.
     bbind (gets (READ_16BIT_REG (i_nnn i))) (\<lambda>op2_16.
     let diff_16 = op1_16 - (op2_16 + ucast temp_CF) in
     bseq (write_RMW_virtual_word diff_16) (
     upd (SET_FLAGS_OSZAPC_SIZE op1_16 op2_16 diff_16 (BX_LF_INSTR_SUB_SBB16 temp_CF)))))))"

definition SBB_GwEwR :: "inst \<Rightarrow> unit exec" where
  "SBB_GwEwR i =
     bbind (flag_value CF) (\<lambda>temp_CF.
     bbind (gets (READ_16BIT_REG (i_nnn i))) (\<lambda>op1_16.
     bbind (gets (READ_16BIT_REG (i_rm i))) (\<lambda>op2_16.
     let diff_16 = op1_16 - (op2_16 + ucast temp_CF) in
     bseq (upd (WRITE_16BIT_REG (i_nnn i) diff_16)) (
     upd (SET_FLAGS_OSZAPC_SIZE op1_16 op2_16 diff_16 (BX_LF_INSTR_SUB_SBB16 temp_CF))))))"

definition SBB_AXIw :: "inst \<Rightarrow> unit exec" where
  "SBB_AXIw i =
     bbind (flag_value CF) (\<lambda>temp_CF.
     bbind (gets (READ_16BIT_REG RAX)) (\<lambda>op1_16.
     let op2_16 = i_Iw i in
     let diff_16 = op1_16 - (op2_16 + ucast temp_CF) in
     bseq (upd (WRITE_16BIT_REG RAX diff_16)) (
     upd (SET_FLAGS_OSZAPC_SIZE op1_16 op2_16 diff_16 (BX_LF_INSTR_SUB_SBB16 temp_CF)))))"

definition SBB_EwIwM :: "inst \<Rightarrow> unit exec" where
  "SBB_EwIwM i =
     bbind (flag_value CF) (\<lambda>temp_CF.
     let op2_16 = i_Iw i in
     bbind (ResolveModrm i) (\<lambda>eaddr.
     bbind (read_RMW_virtual_word eaddr) (\<lambda>op1_16.
     let diff_16 = op1_16 - (op2_16 + ucast temp_CF) in
     bseq (write_RMW_virtual_word diff_16) (
     upd (SET_FLAGS_OSZAPC_SIZE op1_16 op2_16 diff_16 (BX_LF_INSTR_SUB_SBB16 temp_CF))))))"

definition SBB_EwIwR :: "inst \<Rightarrow> unit exec" where
  "SBB_EwIwR i =
     bbind (flag_value CF) (\<lambda>temp_CF.
     let op2_16 = i_Iw i in
     bbind (gets (READ_16BIT_REG (i_rm i))) (\<lambda>op1_16.
     let diff_16 = op1_16 - (op2_16 + ucast temp_CF) in
     bseq (upd (WRITE_16BIT_REG (i_rm i) diff_16)) (
     upd (SET_FLAGS_OSZAPC_SIZE op1_16 op2_16 diff_16 (BX_LF_INSTR_SUB_SBB16 temp_CF)))))"

definition SUB_EwGwM :: "inst \<Rightarrow> unit exec" where
  "SUB_EwGwM i =
     bbind (ResolveModrm i) (\<lambda>eaddr.
     bbind (read_RMW_virtual_word eaddr) (\<lambda>op1_16.
     bbind (gets (READ_16BIT_REG (i_nnn i))) (\<lambda>op2_16.
     let diff_16 = op1_16 - op2_16 in
     bseq (write_RMW_virtual_word diff_16) (
     upd (SET_FLAGS_OSZAPC_SUB_16 op1_16 op2_16 diff_16)))))"

definition SUB_GwEwR :: "inst \<Rightarrow> unit exec" where
  "SUB_GwEwR i =
     bbind (gets (READ_16BIT_REG (i_nnn i))) (\<lambda>op1_16.
     bbind (gets (READ_16BIT_REG (i_rm i))) (\<lambda>op2_16.
     let diff_16 = op1_16 - op2_16 in
     bseq (upd (WRITE_16BIT_REG (i_nnn i) diff_16)) (
     upd (SET_FLAGS_OSZAPC_SUB_16 op1_16 op2_16 diff_16))))"

definition SUB_AXIw :: "inst \<Rightarrow> unit exec" where
  "SUB_AXIw i =
     bbind (gets (READ_16BIT_REG RAX)) (\<lambda>op1_16.
     let op2_16 = i_Iw i in
     let diff_16 = op1_16 - op2_16 in
     bseq (upd (WRITE_16BIT_REG RAX diff_16)) (
     upd (SET_FLAGS_OSZAPC_SUB_16 op1_16 op2_16 diff_16)))"

definition CMP_EwGwM :: "inst \<Rightarrow> unit exec" where
  "CMP_EwGwM i =
     bbind (ResolveModrm i) (\<lambda>eaddr.
     bbind (read_virtual_word eaddr) (\<lambda>op1_16.
     bbind (gets (READ_16BIT_REG (i_nnn i))) (\<lambda>op2_16.
     let diff_16 = op1_16 - op2_16 in
     upd (SET_FLAGS_OSZAPC_SUB_16 op1_16 op2_16 diff_16))))"

definition CMP_GwEwR :: "inst \<Rightarrow> unit exec" where
  "CMP_GwEwR i =
     bbind (gets (READ_16BIT_REG (i_nnn i))) (\<lambda>op1_16.
     bbind (gets (READ_16BIT_REG (i_rm i))) (\<lambda>op2_16.
     let diff_16 = op1_16 - op2_16 in
     upd (SET_FLAGS_OSZAPC_SUB_16 op1_16 op2_16 diff_16)))"

definition CMP_AXIw :: "inst \<Rightarrow> unit exec" where
  "CMP_AXIw i =
     bbind (gets (READ_16BIT_REG RAX)) (\<lambda>op1_16.
     let op2_16 = i_Iw i in
     let diff_16 = op1_16 - op2_16 in
     upd (SET_FLAGS_OSZAPC_SUB_16 op1_16 op2_16 diff_16))"

definition CBW :: "inst \<Rightarrow> unit exec" where
  "CBW i =
     bbind (gets (READ_8BIT_REGL RAX)) (\<lambda>al.
     upd (WRITE_16BIT_REG RAX (scast al)))"

definition CWD :: "inst \<Rightarrow> unit exec" where
  "CWD i =
     bbind (gets (READ_16BIT_REG RAX)) (\<lambda>ax.
     if ax AND 0x8000 \<noteq> 0 then
       upd (WRITE_16BIT_REG RDX 0xFFFF)
     else
       upd (WRITE_16BIT_REG RDX 0x0000))"

definition XADD_EwGwM :: "inst \<Rightarrow> unit exec" where
  "XADD_EwGwM i =
     bbind (ResolveModrm i) (\<lambda>eaddr.
     bbind (read_RMW_virtual_word eaddr) (\<lambda>op1_16.
     bbind (gets (READ_16BIT_REG (i_nnn i))) (\<lambda>op2_16.
     let sum_16 = op1_16 + op2_16 in
     bseq (write_RMW_virtual_word sum_16) (
     bseq (upd (WRITE_16BIT_REG (i_nnn i) op1_16)) (
     upd (SET_FLAGS_OSZAPC_ADD_16 op1_16 op2_16 sum_16))))))"

definition XADD_EwGwR :: "inst \<Rightarrow> unit exec" where
  "XADD_EwGwR i =
     bbind (gets (READ_16BIT_REG (i_rm i))) (\<lambda>op1_16.
     bbind (gets (READ_16BIT_REG (i_nnn i))) (\<lambda>op2_16.
     let sum_16 = op1_16 + op2_16 in
     bseq (upd (WRITE_16BIT_REG (i_nnn i) op1_16)) (
     bseq (upd (WRITE_16BIT_REG (i_rm i) sum_16)) (
     upd (SET_FLAGS_OSZAPC_ADD_16 op1_16 op2_16 sum_16)))))"

definition ADD_EwIwM :: "inst \<Rightarrow> unit exec" where
  "ADD_EwIwM i =
    (let op2_16 = i_Iw i in
     bbind (ResolveModrm i) (\<lambda>eaddr.
     bbind (read_RMW_virtual_word eaddr) (\<lambda>op1_16.
     let sum_16 = op1_16 + op2_16 in
     bseq (write_RMW_virtual_word sum_16) (
     upd (SET_FLAGS_OSZAPC_ADD_16 op1_16 op2_16 sum_16)))))"

definition ADD_EwIwR :: "inst \<Rightarrow> unit exec" where
  "ADD_EwIwR i =
    (let op2_16 = i_Iw i in
     bbind (gets (READ_16BIT_REG (i_rm i))) (\<lambda>op1_16.
     let sum_16 = op1_16 + op2_16 in
     bseq (upd (WRITE_16BIT_REG (i_rm i) sum_16)) (
     upd (SET_FLAGS_OSZAPC_ADD_16 op1_16 op2_16 sum_16))))"

definition ADC_EwIwM :: "inst \<Rightarrow> unit exec" where
  "ADC_EwIwM i =
     bbind (flag_value CF) (\<lambda>temp_CF.
     let op2_16 = i_Iw i in
     bbind (ResolveModrm i) (\<lambda>eaddr.
     bbind (read_RMW_virtual_word eaddr) (\<lambda>op1_16.
     let sum_16 = op1_16 + op2_16 + ucast temp_CF in
     bseq (write_RMW_virtual_word sum_16) (
     upd (SET_FLAGS_OSZAPC_SIZE op1_16 op2_16 sum_16 (BX_LF_INSTR_ADD_ADC16 temp_CF))))))"

definition ADC_EwIwR :: "inst \<Rightarrow> unit exec" where
  "ADC_EwIwR i =
     bbind (flag_value CF) (\<lambda>temp_CF.
     let op2_16 = i_Iw i in
     bbind (gets (READ_16BIT_REG (i_rm i))) (\<lambda>op1_16.
     let sum_16 = op1_16 + op2_16 + ucast temp_CF in
     bseq (upd (WRITE_16BIT_REG (i_rm i) sum_16)) (
     upd (SET_FLAGS_OSZAPC_SIZE op1_16 op2_16 sum_16 (BX_LF_INSTR_ADD_ADC16 temp_CF)))))"

definition SUB_EwIwM :: "inst \<Rightarrow> unit exec" where
  "SUB_EwIwM i =
    (let op2_16 = i_Iw i in
     bbind (ResolveModrm i) (\<lambda>eaddr.
     bbind (read_RMW_virtual_word eaddr) (\<lambda>op1_16.
     let diff_16 = op1_16 - op2_16 in
     bseq (write_RMW_virtual_word diff_16) (
     upd (SET_FLAGS_OSZAPC_SUB_16 op1_16 op2_16 diff_16)))))"

definition SUB_EwIwR :: "inst \<Rightarrow> unit exec" where
  "SUB_EwIwR i =
    (let op2_16 = i_Iw i in
     bbind (gets (READ_16BIT_REG (i_rm i))) (\<lambda>op1_16.
     let diff_16 = op1_16 - op2_16 in
     bseq (upd (WRITE_16BIT_REG (i_rm i) diff_16)) (
     upd (SET_FLAGS_OSZAPC_SUB_16 op1_16 op2_16 diff_16))))"

definition CMP_EwIwM :: "inst \<Rightarrow> unit exec" where
  "CMP_EwIwM i =
    (let op2_16 = i_Iw i in
     bbind (ResolveModrm i) (\<lambda>eaddr.
     bbind (read_virtual_word eaddr) (\<lambda>op1_16.
     let diff_16 = op1_16 - op2_16 in
     upd (SET_FLAGS_OSZAPC_SUB_16 op1_16 op2_16 diff_16))))"

definition CMP_EwIwR :: "inst \<Rightarrow> unit exec" where
  "CMP_EwIwR i =
    (let op2_16 = i_Iw i in
     bbind (gets (READ_16BIT_REG (i_rm i))) (\<lambda>op1_16.
     let diff_16 = op1_16 - op2_16 in
     upd (SET_FLAGS_OSZAPC_SUB_16 op1_16 op2_16 diff_16)))"

definition NEG_EwM :: "inst \<Rightarrow> unit exec" where
  "NEG_EwM i =
     bbind (ResolveModrm i) (\<lambda>eaddr.
     bbind (read_RMW_virtual_word eaddr) (\<lambda>op1_16.
     let op1_16 = - op1_16 in
     bseq (write_RMW_virtual_word op1_16) (
     upd (SET_FLAGS_OSZAPC_RESULT_SIZE op1_16 BX_LF_INSTR_NEG16))))"

definition NEG_EwR :: "inst \<Rightarrow> unit exec" where
  "NEG_EwR i =
     bbind (gets (READ_16BIT_REG (i_rm i))) (\<lambda>op1_16.
     let op1_16 = - op1_16 in
     bseq (upd (WRITE_16BIT_REG (i_rm i) op1_16)) (
     upd (SET_FLAGS_OSZAPC_RESULT_SIZE op1_16 BX_LF_INSTR_NEG16)))"

definition INC_EwM :: "inst \<Rightarrow> unit exec" where
  "INC_EwM i =
     bbind (ResolveModrm i) (\<lambda>eaddr.
     bbind (read_RMW_virtual_word eaddr) (\<lambda>op1_16.
     let op1_16 = op1_16 + 1 in
     bseq (write_RMW_virtual_word op1_16) (
     flag_step (SET_FLAGS_OSZAPC_INC_16 op1_16))))"

definition DEC_EwM :: "inst \<Rightarrow> unit exec" where
  "DEC_EwM i =
     bbind (ResolveModrm i) (\<lambda>eaddr.
     bbind (read_RMW_virtual_word eaddr) (\<lambda>op1_16.
     let op1_16 = op1_16 - 1 in
     bseq (write_RMW_virtual_word op1_16) (
     flag_step (SET_FLAGS_OSZAPC_DEC_16 op1_16))))"

definition CMPXCHG_EwGwM :: "inst \<Rightarrow> unit exec" where
  "CMPXCHG_EwGwM i =
     bbind (ResolveModrm i) (\<lambda>eaddr.
     bbind (read_RMW_virtual_word eaddr) (\<lambda>op1_16.
     bbind (gets (READ_16BIT_REG RAX)) (\<lambda>ax.
     let diff_16 = ax - op1_16 in
     bseq (upd (SET_FLAGS_OSZAPC_SUB_16 ax op1_16 diff_16)) (
     if diff_16 = 0 then
       bbind (gets (READ_16BIT_REG (i_nnn i))) (\<lambda>op2_16.
       write_RMW_virtual_word op2_16)
     else
       upd (WRITE_16BIT_REG RAX op1_16)))))"

definition CMPXCHG_EwGwR :: "inst \<Rightarrow> unit exec" where
  "CMPXCHG_EwGwR i =
     bbind (gets (READ_16BIT_REG (i_rm i))) (\<lambda>op1_16.
     bbind (gets (READ_16BIT_REG RAX)) (\<lambda>ax.
     let diff_16 = ax - op1_16 in
     bseq (upd (SET_FLAGS_OSZAPC_SUB_16 ax op1_16 diff_16)) (
     if diff_16 = 0 then
       bbind (gets (READ_16BIT_REG (i_nnn i))) (\<lambda>op2_16.
       upd (WRITE_16BIT_REG (i_rm i) op2_16))
     else
       upd (WRITE_16BIT_REG RAX op1_16))))"

end
