(* ===== verification/Bochs_Arith_Wide.thy ===== *)
theory Bochs_Arith_Wide
  imports Bochs_Inst
begin

text \<open>
  The arithmetic instructions with operands of 32 and 64 bits, \<open>src/src/cpu/x86_64/bochs/cpu/arith32.cpp\<close> and
  \<open>arith64.cpp\<close>. A write of a 32-bit register clears its high half.
\<close>

unbundle bit_operations_syntax

section \<open>Doubleword operands\<close>

definition INC_ERX :: "inst \<Rightarrow> unit exec" where
  "INC_ERX i =
     bbind (gets (READ_32BIT_REG (i_rm i))) (\<lambda>erx0.
     let erx = erx0 + 1 in
     bseq (upd (WRITE_32BIT_LOW (i_rm i) erx)) (
     bseq (flag_step (SET_FLAGS_OSZAPC_INC_32 erx)) (
     upd (CLEAR_64BIT_HIGH (i_rm i)))))"

definition DEC_ERX :: "inst \<Rightarrow> unit exec" where
  "DEC_ERX i =
     bbind (gets (READ_32BIT_REG (i_rm i))) (\<lambda>erx0.
     let erx = erx0 - 1 in
     bseq (upd (WRITE_32BIT_LOW (i_rm i) erx)) (
     bseq (flag_step (SET_FLAGS_OSZAPC_DEC_32 erx)) (
     upd (CLEAR_64BIT_HIGH (i_rm i)))))"

definition ADD_EdGdM :: "inst \<Rightarrow> unit exec" where
  "ADD_EdGdM i =
     bbind (ResolveModrm i) (\<lambda>eaddr.
     bbind (read_RMW_virtual_dword eaddr) (\<lambda>op1_32.
     bbind (gets (READ_32BIT_REG (i_nnn i))) (\<lambda>op2_32.
     let sum_32 = op1_32 + op2_32 in
     bseq (write_RMW_virtual_dword sum_32) (
     upd (SET_FLAGS_OSZAPC_ADD_32 op1_32 op2_32 sum_32)))))"

definition ADD_GdEdR :: "inst \<Rightarrow> unit exec" where
  "ADD_GdEdR i =
     bbind (gets (READ_32BIT_REG (i_nnn i))) (\<lambda>op1_32.
     bbind (gets (READ_32BIT_REG (i_rm i))) (\<lambda>op2_32.
     let sum_32 = op1_32 + op2_32 in
     bseq (upd (WRITE_32BIT_REGZ (i_nnn i) sum_32)) (
     upd (SET_FLAGS_OSZAPC_ADD_32 op1_32 op2_32 sum_32))))"

definition ADD_EAXId :: "inst \<Rightarrow> unit exec" where
  "ADD_EAXId i =
    (let op2_32 = i_Id i in
     bbind (gets (READ_32BIT_REG RAX)) (\<lambda>op1_32.
     let sum_32 = op1_32 + op2_32 in
     bseq (upd (WRITE_64BIT_REG RAX (ucast sum_32))) (
     upd (SET_FLAGS_OSZAPC_ADD_32 op1_32 op2_32 sum_32))))"

definition ADC_EdGdM :: "inst \<Rightarrow> unit exec" where
  "ADC_EdGdM i =
     bbind (flag_value CF) (\<lambda>temp_CF.
     bbind (ResolveModrm i) (\<lambda>eaddr.
     bbind (read_RMW_virtual_dword eaddr) (\<lambda>op1_32.
     bbind (gets (READ_32BIT_REG (i_nnn i))) (\<lambda>op2_32.
     let sum_32 = op1_32 + op2_32 + temp_CF in
     bseq (write_RMW_virtual_dword sum_32) (
     upd (SET_FLAGS_OSZAPC_SIZE op1_32 op2_32 sum_32 (BX_LF_INSTR_ADD_ADC32 temp_CF)))))))"

definition ADC_GdEdR :: "inst \<Rightarrow> unit exec" where
  "ADC_GdEdR i =
     bbind (flag_value CF) (\<lambda>temp_CF.
     bbind (gets (READ_32BIT_REG (i_nnn i))) (\<lambda>op1_32.
     bbind (gets (READ_32BIT_REG (i_rm i))) (\<lambda>op2_32.
     let sum_32 = op1_32 + op2_32 + temp_CF in
     bseq (upd (WRITE_32BIT_REGZ (i_nnn i) sum_32)) (
     upd (SET_FLAGS_OSZAPC_SIZE op1_32 op2_32 sum_32 (BX_LF_INSTR_ADD_ADC32 temp_CF))))))"

definition ADC_EAXId :: "inst \<Rightarrow> unit exec" where
  "ADC_EAXId i =
     bbind (flag_value CF) (\<lambda>temp_CF.
     let op2_32 = i_Id i in
     bbind (gets (READ_32BIT_REG RAX)) (\<lambda>op1_32.
     let sum_32 = op1_32 + op2_32 + temp_CF in
     bseq (upd (WRITE_64BIT_REG RAX (ucast sum_32))) (
     upd (SET_FLAGS_OSZAPC_SIZE op1_32 op2_32 sum_32 (BX_LF_INSTR_ADD_ADC32 temp_CF)))))"

definition SBB_EdGdM :: "inst \<Rightarrow> unit exec" where
  "SBB_EdGdM i =
     bbind (flag_value CF) (\<lambda>temp_CF.
     bbind (ResolveModrm i) (\<lambda>eaddr.
     bbind (read_RMW_virtual_dword eaddr) (\<lambda>op1_32.
     bbind (gets (READ_32BIT_REG (i_nnn i))) (\<lambda>op2_32.
     let diff_32 = op1_32 - (op2_32 + temp_CF) in
     bseq (write_RMW_virtual_dword diff_32) (
     upd (SET_FLAGS_OSZAPC_SIZE op1_32 op2_32 diff_32 (BX_LF_INSTR_SUB_SBB32 temp_CF)))))))"

definition SBB_GdEdR :: "inst \<Rightarrow> unit exec" where
  "SBB_GdEdR i =
     bbind (flag_value CF) (\<lambda>temp_CF.
     bbind (gets (READ_32BIT_REG (i_nnn i))) (\<lambda>op1_32.
     bbind (gets (READ_32BIT_REG (i_rm i))) (\<lambda>op2_32.
     let diff_32 = op1_32 - (op2_32 + temp_CF) in
     bseq (upd (WRITE_32BIT_REGZ (i_nnn i) diff_32)) (
     upd (SET_FLAGS_OSZAPC_SIZE op1_32 op2_32 diff_32 (BX_LF_INSTR_SUB_SBB32 temp_CF))))))"

definition SBB_EAXId :: "inst \<Rightarrow> unit exec" where
  "SBB_EAXId i =
     bbind (flag_value CF) (\<lambda>temp_CF.
     bbind (gets (READ_32BIT_REG RAX)) (\<lambda>op1_32.
     let op2_32 = i_Id i in
     let diff_32 = op1_32 - (op2_32 + temp_CF) in
     bseq (upd (WRITE_64BIT_REG RAX (ucast diff_32))) (
     upd (SET_FLAGS_OSZAPC_SIZE op1_32 op2_32 diff_32 (BX_LF_INSTR_SUB_SBB32 temp_CF)))))"

definition SBB_EdIdM :: "inst \<Rightarrow> unit exec" where
  "SBB_EdIdM i =
     bbind (flag_value CF) (\<lambda>temp_CF.
     let op2_32 = i_Id i in
     bbind (ResolveModrm i) (\<lambda>eaddr.
     bbind (read_RMW_virtual_dword eaddr) (\<lambda>op1_32.
     let diff_32 = op1_32 - (op2_32 + temp_CF) in
     bseq (write_RMW_virtual_dword diff_32) (
     upd (SET_FLAGS_OSZAPC_SIZE op1_32 op2_32 diff_32 (BX_LF_INSTR_SUB_SBB32 temp_CF))))))"

definition SBB_EdIdR :: "inst \<Rightarrow> unit exec" where
  "SBB_EdIdR i =
     bbind (flag_value CF) (\<lambda>temp_CF.
     let op2_32 = i_Id i in
     bbind (gets (READ_32BIT_REG (i_rm i))) (\<lambda>op1_32.
     let diff_32 = op1_32 - (op2_32 + temp_CF) in
     bseq (upd (WRITE_32BIT_REGZ (i_rm i) diff_32)) (
     upd (SET_FLAGS_OSZAPC_SIZE op1_32 op2_32 diff_32 (BX_LF_INSTR_SUB_SBB32 temp_CF)))))"

definition SUB_EdGdM :: "inst \<Rightarrow> unit exec" where
  "SUB_EdGdM i =
     bbind (ResolveModrm i) (\<lambda>eaddr.
     bbind (read_RMW_virtual_dword eaddr) (\<lambda>op1_32.
     bbind (gets (READ_32BIT_REG (i_nnn i))) (\<lambda>op2_32.
     let diff_32 = op1_32 - op2_32 in
     bseq (write_RMW_virtual_dword diff_32) (
     upd (SET_FLAGS_OSZAPC_SUB_32 op1_32 op2_32 diff_32)))))"

definition SUB_GdEdR :: "inst \<Rightarrow> unit exec" where
  "SUB_GdEdR i =
     bbind (gets (READ_32BIT_REG (i_nnn i))) (\<lambda>op1_32.
     bbind (gets (READ_32BIT_REG (i_rm i))) (\<lambda>op2_32.
     let diff_32 = op1_32 - op2_32 in
     bseq (upd (WRITE_32BIT_REGZ (i_nnn i) diff_32)) (
     upd (SET_FLAGS_OSZAPC_SUB_32 op1_32 op2_32 diff_32))))"

definition SUB_EAXId :: "inst \<Rightarrow> unit exec" where
  "SUB_EAXId i =
     bbind (gets (READ_32BIT_REG RAX)) (\<lambda>op1_32.
     let op2_32 = i_Id i in
     let diff_32 = op1_32 - op2_32 in
     bseq (upd (WRITE_64BIT_REG RAX (ucast diff_32))) (
     upd (SET_FLAGS_OSZAPC_SUB_32 op1_32 op2_32 diff_32)))"

definition CMP_EdGdM :: "inst \<Rightarrow> unit exec" where
  "CMP_EdGdM i =
     bbind (ResolveModrm i) (\<lambda>eaddr.
     bbind (read_virtual_dword eaddr) (\<lambda>op1_32.
     bbind (gets (READ_32BIT_REG (i_nnn i))) (\<lambda>op2_32.
     let diff_32 = op1_32 - op2_32 in
     upd (SET_FLAGS_OSZAPC_SUB_32 op1_32 op2_32 diff_32))))"

definition CMP_GdEdR :: "inst \<Rightarrow> unit exec" where
  "CMP_GdEdR i =
     bbind (gets (READ_32BIT_REG (i_nnn i))) (\<lambda>op1_32.
     bbind (gets (READ_32BIT_REG (i_rm i))) (\<lambda>op2_32.
     let diff_32 = op1_32 - op2_32 in
     upd (SET_FLAGS_OSZAPC_SUB_32 op1_32 op2_32 diff_32)))"

definition CMP_EAXId :: "inst \<Rightarrow> unit exec" where
  "CMP_EAXId i =
     bbind (gets (READ_32BIT_REG RAX)) (\<lambda>op1_32.
     let op2_32 = i_Id i in
     let diff_32 = op1_32 - op2_32 in
     upd (SET_FLAGS_OSZAPC_SUB_32 op1_32 op2_32 diff_32))"

definition CWDE :: "inst \<Rightarrow> unit exec" where
  "CWDE i =
     bbind (gets (READ_16BIT_REG RAX)) (\<lambda>ax.
     let tmp = (scast ax :: u32) in
     upd (WRITE_64BIT_REG RAX (ucast tmp)))"

definition CDQ :: "inst \<Rightarrow> unit exec" where
  "CDQ i =
     bbind (gets (READ_32BIT_REG RAX)) (\<lambda>eax.
     if eax AND 0x80000000 \<noteq> 0 then
       upd (WRITE_64BIT_REG RDX 0xFFFFFFFF)
     else
       upd (WRITE_64BIT_REG RDX 0x00000000))"

definition CMPXCHG_XBTS :: "inst \<Rightarrow> unit exec" where
  "CMPXCHG_XBTS i =
     raise BX_UD_EXCEPTION"

definition CMPXCHG_IBTS :: "inst \<Rightarrow> unit exec" where
  "CMPXCHG_IBTS i =
     raise BX_UD_EXCEPTION"

definition XADD_EdGdM :: "inst \<Rightarrow> unit exec" where
  "XADD_EdGdM i =
     bbind (ResolveModrm i) (\<lambda>eaddr.
     bbind (read_RMW_virtual_dword eaddr) (\<lambda>op1_32.
     bbind (gets (READ_32BIT_REG (i_nnn i))) (\<lambda>op2_32.
     let sum_32 = op1_32 + op2_32 in
     bseq (write_RMW_virtual_dword sum_32) (
     bseq (upd (WRITE_32BIT_REGZ (i_nnn i) op1_32)) (
     upd (SET_FLAGS_OSZAPC_ADD_32 op1_32 op2_32 sum_32))))))"

definition XADD_EdGdR :: "inst \<Rightarrow> unit exec" where
  "XADD_EdGdR i =
     bbind (gets (READ_32BIT_REG (i_rm i))) (\<lambda>op1_32.
     bbind (gets (READ_32BIT_REG (i_nnn i))) (\<lambda>op2_32.
     let sum_32 = op1_32 + op2_32 in
     bseq (upd (WRITE_32BIT_REGZ (i_nnn i) op1_32)) (
     bseq (upd (WRITE_32BIT_REGZ (i_rm i) sum_32)) (
     upd (SET_FLAGS_OSZAPC_ADD_32 op1_32 op2_32 sum_32)))))"

definition ADD_EdIdM :: "inst \<Rightarrow> unit exec" where
  "ADD_EdIdM i =
     bbind (ResolveModrm i) (\<lambda>eaddr.
     bbind (read_RMW_virtual_dword eaddr) (\<lambda>op1_32.
     let op2_32 = i_Id i in
     let sum_32 = op1_32 + op2_32 in
     bseq (write_RMW_virtual_dword sum_32) (
     upd (SET_FLAGS_OSZAPC_ADD_32 op1_32 op2_32 sum_32))))"

definition ADD_EdIdR :: "inst \<Rightarrow> unit exec" where
  "ADD_EdIdR i =
     bbind (gets (READ_32BIT_REG (i_rm i))) (\<lambda>op1_32.
     let op2_32 = i_Id i in
     let sum_32 = op1_32 + op2_32 in
     bseq (upd (WRITE_32BIT_REGZ (i_rm i) sum_32)) (
     upd (SET_FLAGS_OSZAPC_ADD_32 op1_32 op2_32 sum_32)))"

definition ADC_EdIdM :: "inst \<Rightarrow> unit exec" where
  "ADC_EdIdM i =
     bbind (flag_value CF) (\<lambda>temp_CF.
     let op2_32 = i_Id i in
     bbind (ResolveModrm i) (\<lambda>eaddr.
     bbind (read_RMW_virtual_dword eaddr) (\<lambda>op1_32.
     let sum_32 = op1_32 + op2_32 + temp_CF in
     bseq (write_RMW_virtual_dword sum_32) (
     upd (SET_FLAGS_OSZAPC_SIZE op1_32 op2_32 sum_32 (BX_LF_INSTR_ADD_ADC32 temp_CF))))))"

definition ADC_EdIdR :: "inst \<Rightarrow> unit exec" where
  "ADC_EdIdR i =
     bbind (flag_value CF) (\<lambda>temp_CF.
     let op2_32 = i_Id i in
     bbind (gets (READ_32BIT_REG (i_rm i))) (\<lambda>op1_32.
     let sum_32 = op1_32 + op2_32 + temp_CF in
     bseq (upd (WRITE_32BIT_REGZ (i_rm i) sum_32)) (
     upd (SET_FLAGS_OSZAPC_SIZE op1_32 op2_32 sum_32 (BX_LF_INSTR_ADD_ADC32 temp_CF)))))"

definition SUB_EdIdM :: "inst \<Rightarrow> unit exec" where
  "SUB_EdIdM i =
    (let op2_32 = i_Id i in
     bbind (ResolveModrm i) (\<lambda>eaddr.
     bbind (read_RMW_virtual_dword eaddr) (\<lambda>op1_32.
     let diff_32 = op1_32 - op2_32 in
     bseq (write_RMW_virtual_dword diff_32) (
     upd (SET_FLAGS_OSZAPC_SUB_32 op1_32 op2_32 diff_32)))))"

definition SUB_EdIdR :: "inst \<Rightarrow> unit exec" where
  "SUB_EdIdR i =
    (let op2_32 = i_Id i in
     bbind (gets (READ_32BIT_REG (i_rm i))) (\<lambda>op1_32.
     let diff_32 = op1_32 - op2_32 in
     bseq (upd (WRITE_32BIT_REGZ (i_rm i) diff_32)) (
     upd (SET_FLAGS_OSZAPC_SUB_32 op1_32 op2_32 diff_32))))"

definition CMP_EdIdM :: "inst \<Rightarrow> unit exec" where
  "CMP_EdIdM i =
     bbind (ResolveModrm i) (\<lambda>eaddr.
     bbind (read_virtual_dword eaddr) (\<lambda>op1_32.
     let op2_32 = i_Id i in
     let diff_32 = op1_32 - op2_32 in
     upd (SET_FLAGS_OSZAPC_SUB_32 op1_32 op2_32 diff_32)))"

definition CMP_EdIdR :: "inst \<Rightarrow> unit exec" where
  "CMP_EdIdR i =
     bbind (gets (READ_32BIT_REG (i_rm i))) (\<lambda>op1_32.
     let op2_32 = i_Id i in
     let diff_32 = op1_32 - op2_32 in
     upd (SET_FLAGS_OSZAPC_SUB_32 op1_32 op2_32 diff_32))"

definition NEG_EdM :: "inst \<Rightarrow> unit exec" where
  "NEG_EdM i =
     bbind (ResolveModrm i) (\<lambda>eaddr.
     bbind (read_RMW_virtual_dword eaddr) (\<lambda>op1_32.
     let op1_32 = - op1_32 in
     bseq (write_RMW_virtual_dword op1_32) (
     upd (SET_FLAGS_OSZAPC_RESULT_SIZE op1_32 BX_LF_INSTR_NEG32))))"

definition NEG_EdR :: "inst \<Rightarrow> unit exec" where
  "NEG_EdR i =
     bbind (gets (READ_32BIT_REG (i_rm i))) (\<lambda>op1_32.
     let op1_32 = - op1_32 in
     bseq (upd (WRITE_32BIT_REGZ (i_rm i) op1_32)) (
     upd (SET_FLAGS_OSZAPC_RESULT_SIZE op1_32 BX_LF_INSTR_NEG32)))"

definition INC_EdM :: "inst \<Rightarrow> unit exec" where
  "INC_EdM i =
     bbind (ResolveModrm i) (\<lambda>eaddr.
     bbind (read_RMW_virtual_dword eaddr) (\<lambda>op1_32.
     let op1_32 = op1_32 + 1 in
     bseq (write_RMW_virtual_dword op1_32) (
     flag_step (SET_FLAGS_OSZAPC_INC_32 op1_32))))"

definition DEC_EdM :: "inst \<Rightarrow> unit exec" where
  "DEC_EdM i =
     bbind (ResolveModrm i) (\<lambda>eaddr.
     bbind (read_RMW_virtual_dword eaddr) (\<lambda>op1_32.
     let op1_32 = op1_32 - 1 in
     bseq (write_RMW_virtual_dword op1_32) (
     flag_step (SET_FLAGS_OSZAPC_DEC_32 op1_32))))"

definition CMPXCHG_EdGdM :: "inst \<Rightarrow> unit exec" where
  "CMPXCHG_EdGdM i =
     bbind (ResolveModrm i) (\<lambda>eaddr.
     bbind (read_RMW_virtual_dword eaddr) (\<lambda>op1_32.
     bbind (gets (READ_32BIT_REG RAX)) (\<lambda>eax.
     let diff_32 = eax - op1_32 in
     bseq (upd (SET_FLAGS_OSZAPC_SUB_32 eax op1_32 diff_32)) (
     if diff_32 = 0 then
       bbind (gets (READ_32BIT_REG (i_nnn i))) (\<lambda>op2_32.
       write_RMW_virtual_dword op2_32)
     else
       upd (WRITE_64BIT_REG RAX (ucast op1_32))))))"

definition CMPXCHG_EdGdR :: "inst \<Rightarrow> unit exec" where
  "CMPXCHG_EdGdR i =
     bbind (gets (READ_32BIT_REG (i_rm i))) (\<lambda>op1_32.
     bbind (gets (READ_32BIT_REG RAX)) (\<lambda>eax.
     let diff_32 = eax - op1_32 in
     bseq (upd (SET_FLAGS_OSZAPC_SUB_32 eax op1_32 diff_32)) (
     if diff_32 = 0 then
       bbind (gets (READ_32BIT_REG (i_nnn i))) (\<lambda>op2_32.
       upd (WRITE_32BIT_REGZ (i_rm i) op2_32))
     else
       upd (WRITE_64BIT_REG RAX (ucast op1_32)))))"

definition CMPXCHG8B :: "inst \<Rightarrow> unit exec" where
  "CMPXCHG8B i =
     bbind (ResolveModrm i) (\<lambda>eaddr.
     bbind (read_RMW_virtual_qword eaddr) (\<lambda>op1_64.
     bbind (gets (READ_32BIT_REG RDX)) (\<lambda>edx.
     bbind (gets (READ_32BIT_REG RAX)) (\<lambda>eax.
     let op2_64 = (push_bit 32 (ucast edx)) OR ucast eax in
     if op1_64 = op2_64 then
       bbind (gets (READ_32BIT_REG RCX)) (\<lambda>ecx.
       bbind (gets (READ_32BIT_REG RBX)) (\<lambda>ebx.
       let op2_64 = (push_bit 32 (ucast ecx)) OR ucast ebx in
       bseq (write_RMW_virtual_qword op2_64) (
       upd (assert_aflag ZF))))
     else
       bseq (upd (WRITE_64BIT_REG RAX (ucast (ucast op1_64 :: u32)))) (
       bseq (upd (WRITE_64BIT_REG RDX (ucast (ucast (drop_bit 32 op1_64) :: u32)))) (
       upd (clear_aflag ZF)))))))"

section \<open>Quadword operands\<close>

definition ADD_EqGqM :: "inst \<Rightarrow> unit exec" where
  "ADD_EqGqM i =
     bbind (ResolveModrm i) (\<lambda>eaddr.
     bbind (read_RMW_virtual_qword eaddr) (\<lambda>op1_64.
     bbind (gets (READ_64BIT_REG (i_nnn i))) (\<lambda>op2_64.
     let sum_64 = op1_64 + op2_64 in
     bseq (write_RMW_virtual_qword sum_64) (
     upd (SET_FLAGS_OSZAPC_ADD_64 op1_64 op2_64 sum_64)))))"

definition ADD_GqEqR :: "inst \<Rightarrow> unit exec" where
  "ADD_GqEqR i =
     bbind (gets (READ_64BIT_REG (i_nnn i))) (\<lambda>op1_64.
     bbind (gets (READ_64BIT_REG (i_rm i))) (\<lambda>op2_64.
     let sum_64 = op1_64 + op2_64 in
     bseq (upd (WRITE_64BIT_REG (i_nnn i) sum_64)) (
     upd (SET_FLAGS_OSZAPC_ADD_64 op1_64 op2_64 sum_64))))"

definition ADD_RAXId :: "inst \<Rightarrow> unit exec" where
  "ADD_RAXId i =
     bbind (gets (READ_64BIT_REG RAX)) (\<lambda>op1_64.
     let op2_64 = (scast (i_Id i) :: u64) in
     let sum_64 = op1_64 + op2_64 in
     bseq (upd (WRITE_64BIT_REG RAX sum_64)) (
     upd (SET_FLAGS_OSZAPC_ADD_64 op1_64 op2_64 sum_64)))"

definition ADC_EqGqM :: "inst \<Rightarrow> unit exec" where
  "ADC_EqGqM i =
     bbind (flag_value CF) (\<lambda>temp_CF.
     bbind (ResolveModrm i) (\<lambda>eaddr.
     bbind (read_RMW_virtual_qword eaddr) (\<lambda>op1_64.
     bbind (gets (READ_64BIT_REG (i_nnn i))) (\<lambda>op2_64.
     let sum_64 = op1_64 + op2_64 + ucast temp_CF in
     bseq (write_RMW_virtual_qword sum_64) (
     upd (SET_FLAGS_OSZAPC_SIZE op1_64 op2_64 sum_64 (BX_LF_INSTR_ADD_ADC64 temp_CF)))))))"

definition ADC_GqEqR :: "inst \<Rightarrow> unit exec" where
  "ADC_GqEqR i =
     bbind (flag_value CF) (\<lambda>temp_CF.
     bbind (gets (READ_64BIT_REG (i_nnn i))) (\<lambda>op1_64.
     bbind (gets (READ_64BIT_REG (i_rm i))) (\<lambda>op2_64.
     let sum_64 = op1_64 + op2_64 + ucast temp_CF in
     bseq (upd (WRITE_64BIT_REG (i_nnn i) sum_64)) (
     upd (SET_FLAGS_OSZAPC_SIZE op1_64 op2_64 sum_64 (BX_LF_INSTR_ADD_ADC64 temp_CF))))))"

definition ADC_RAXId :: "inst \<Rightarrow> unit exec" where
  "ADC_RAXId i =
     bbind (flag_value CF) (\<lambda>temp_CF.
     bbind (gets (READ_64BIT_REG RAX)) (\<lambda>op1_64.
     let op2_64 = (scast (i_Id i) :: u64) in
     let sum_64 = op1_64 + op2_64 + ucast temp_CF in
     bseq (upd (WRITE_64BIT_REG RAX sum_64)) (
     upd (SET_FLAGS_OSZAPC_SIZE op1_64 op2_64 sum_64 (BX_LF_INSTR_ADD_ADC64 temp_CF)))))"

definition SBB_EqGqM :: "inst \<Rightarrow> unit exec" where
  "SBB_EqGqM i =
     bbind (flag_value CF) (\<lambda>temp_CF.
     bbind (ResolveModrm i) (\<lambda>eaddr.
     bbind (read_RMW_virtual_qword eaddr) (\<lambda>op1_64.
     bbind (gets (READ_64BIT_REG (i_nnn i))) (\<lambda>op2_64.
     let diff_64 = op1_64 - (op2_64 + ucast temp_CF) in
     bseq (write_RMW_virtual_qword diff_64) (
     upd (SET_FLAGS_OSZAPC_SIZE op1_64 op2_64 diff_64 (BX_LF_INSTR_SUB_SBB64 temp_CF)))))))"

definition SBB_GqEqR :: "inst \<Rightarrow> unit exec" where
  "SBB_GqEqR i =
     bbind (flag_value CF) (\<lambda>temp_CF.
     bbind (gets (READ_64BIT_REG (i_nnn i))) (\<lambda>op1_64.
     bbind (gets (READ_64BIT_REG (i_rm i))) (\<lambda>op2_64.
     let diff_64 = op1_64 - (op2_64 + ucast temp_CF) in
     bseq (upd (WRITE_64BIT_REG (i_nnn i) diff_64)) (
     upd (SET_FLAGS_OSZAPC_SIZE op1_64 op2_64 diff_64 (BX_LF_INSTR_SUB_SBB64 temp_CF))))))"

definition SBB_RAXId :: "inst \<Rightarrow> unit exec" where
  "SBB_RAXId i =
     bbind (flag_value CF) (\<lambda>temp_CF.
     bbind (gets (READ_64BIT_REG RAX)) (\<lambda>op1_64.
     let op2_64 = (scast (i_Id i) :: u64) in
     let diff_64 = op1_64 - (op2_64 + ucast temp_CF) in
     bseq (upd (WRITE_64BIT_REG RAX diff_64)) (
     upd (SET_FLAGS_OSZAPC_SIZE op1_64 op2_64 diff_64 (BX_LF_INSTR_SUB_SBB64 temp_CF)))))"

definition SBB_EqIdM :: "inst \<Rightarrow> unit exec" where
  "SBB_EqIdM i =
     bbind (flag_value CF) (\<lambda>temp_CF.
     bbind (ResolveModrm i) (\<lambda>eaddr.
     bbind (read_RMW_virtual_qword eaddr) (\<lambda>op1_64.
     let op2_64 = (scast (i_Id i) :: u64) in
     let diff_64 = op1_64 - (op2_64 + ucast temp_CF) in
     bseq (write_RMW_virtual_qword diff_64) (
     upd (SET_FLAGS_OSZAPC_SIZE op1_64 op2_64 diff_64 (BX_LF_INSTR_SUB_SBB64 temp_CF))))))"

definition SBB_EqIdR :: "inst \<Rightarrow> unit exec" where
  "SBB_EqIdR i =
     bbind (flag_value CF) (\<lambda>temp_CF.
     bbind (gets (READ_64BIT_REG (i_rm i))) (\<lambda>op1_64.
     let op2_64 = (scast (i_Id i) :: u64) in
     let diff_64 = op1_64 - (op2_64 + ucast temp_CF) in
     bseq (upd (WRITE_64BIT_REG (i_rm i) diff_64)) (
     upd (SET_FLAGS_OSZAPC_SIZE op1_64 op2_64 diff_64 (BX_LF_INSTR_SUB_SBB64 temp_CF)))))"

definition SUB_EqGqM :: "inst \<Rightarrow> unit exec" where
  "SUB_EqGqM i =
     bbind (ResolveModrm i) (\<lambda>eaddr.
     bbind (read_RMW_virtual_qword eaddr) (\<lambda>op1_64.
     bbind (gets (READ_64BIT_REG (i_nnn i))) (\<lambda>op2_64.
     let diff_64 = op1_64 - op2_64 in
     bseq (write_RMW_virtual_qword diff_64) (
     upd (SET_FLAGS_OSZAPC_SUB_64 op1_64 op2_64 diff_64)))))"

definition SUB_GqEqR :: "inst \<Rightarrow> unit exec" where
  "SUB_GqEqR i =
     bbind (gets (READ_64BIT_REG (i_nnn i))) (\<lambda>op1_64.
     bbind (gets (READ_64BIT_REG (i_rm i))) (\<lambda>op2_64.
     let diff_64 = op1_64 - op2_64 in
     bseq (upd (WRITE_64BIT_REG (i_nnn i) diff_64)) (
     upd (SET_FLAGS_OSZAPC_SUB_64 op1_64 op2_64 diff_64))))"

definition SUB_RAXId :: "inst \<Rightarrow> unit exec" where
  "SUB_RAXId i =
     bbind (gets (READ_64BIT_REG RAX)) (\<lambda>op1_64.
     let op2_64 = (scast (i_Id i) :: u64) in
     let diff_64 = op1_64 - op2_64 in
     bseq (upd (WRITE_64BIT_REG RAX diff_64)) (
     upd (SET_FLAGS_OSZAPC_SUB_64 op1_64 op2_64 diff_64)))"

definition CMP_EqGqM :: "inst \<Rightarrow> unit exec" where
  "CMP_EqGqM i =
     bbind (ResolveModrm i) (\<lambda>eaddr.
     bbind (read_virtual_qword eaddr) (\<lambda>op1_64.
     bbind (gets (READ_64BIT_REG (i_nnn i))) (\<lambda>op2_64.
     let diff_64 = op1_64 - op2_64 in
     upd (SET_FLAGS_OSZAPC_SUB_64 op1_64 op2_64 diff_64))))"

definition CMP_GqEqR :: "inst \<Rightarrow> unit exec" where
  "CMP_GqEqR i =
     bbind (gets (READ_64BIT_REG (i_nnn i))) (\<lambda>op1_64.
     bbind (gets (READ_64BIT_REG (i_rm i))) (\<lambda>op2_64.
     let diff_64 = op1_64 - op2_64 in
     upd (SET_FLAGS_OSZAPC_SUB_64 op1_64 op2_64 diff_64)))"

definition CMP_RAXId :: "inst \<Rightarrow> unit exec" where
  "CMP_RAXId i =
     bbind (gets (READ_64BIT_REG RAX)) (\<lambda>op1_64.
     let op2_64 = (scast (i_Id i) :: u64) in
     let diff_64 = op1_64 - op2_64 in
     upd (SET_FLAGS_OSZAPC_SUB_64 op1_64 op2_64 diff_64))"

definition CDQE :: "inst \<Rightarrow> unit exec" where
  "CDQE i =
     bbind (gets (READ_32BIT_REG RAX)) (\<lambda>eax.
     upd (WRITE_64BIT_REG RAX (scast eax)))"

definition CQO :: "inst \<Rightarrow> unit exec" where
  "CQO i =
     bbind (gets (READ_64BIT_REG RAX)) (\<lambda>rax.
     if rax AND 0x8000000000000000 \<noteq> 0 then
       upd (WRITE_64BIT_REG RDX 0xffffffffffffffff)
     else
       upd (WRITE_64BIT_REG RDX 0))"

definition XADD_EqGqM :: "inst \<Rightarrow> unit exec" where
  "XADD_EqGqM i =
     bbind (ResolveModrm i) (\<lambda>eaddr.
     bbind (read_RMW_virtual_qword eaddr) (\<lambda>op1_64.
     bbind (gets (READ_64BIT_REG (i_nnn i))) (\<lambda>op2_64.
     let sum_64 = op1_64 + op2_64 in
     bseq (write_RMW_virtual_qword sum_64) (
     bseq (upd (WRITE_64BIT_REG (i_nnn i) op1_64)) (
     upd (SET_FLAGS_OSZAPC_ADD_64 op1_64 op2_64 sum_64))))))"

definition XADD_EqGqR :: "inst \<Rightarrow> unit exec" where
  "XADD_EqGqR i =
     bbind (gets (READ_64BIT_REG (i_rm i))) (\<lambda>op1_64.
     bbind (gets (READ_64BIT_REG (i_nnn i))) (\<lambda>op2_64.
     let sum_64 = op1_64 + op2_64 in
     bseq (upd (WRITE_64BIT_REG (i_nnn i) op1_64)) (
     bseq (upd (WRITE_64BIT_REG (i_rm i) sum_64)) (
     upd (SET_FLAGS_OSZAPC_ADD_64 op1_64 op2_64 sum_64)))))"

definition ADD_EqIdM :: "inst \<Rightarrow> unit exec" where
  "ADD_EqIdM i =
     bbind (ResolveModrm i) (\<lambda>eaddr.
     bbind (read_RMW_virtual_qword eaddr) (\<lambda>op1_64.
     let op2_64 = (scast (i_Id i) :: u64) in
     let sum_64 = op1_64 + op2_64 in
     bseq (write_RMW_virtual_qword sum_64) (
     upd (SET_FLAGS_OSZAPC_ADD_64 op1_64 op2_64 sum_64))))"

definition ADD_EqIdR :: "inst \<Rightarrow> unit exec" where
  "ADD_EqIdR i =
     bbind (gets (READ_64BIT_REG (i_rm i))) (\<lambda>op1_64.
     let op2_64 = (scast (i_Id i) :: u64) in
     let sum_64 = op1_64 + op2_64 in
     bseq (upd (WRITE_64BIT_REG (i_rm i) sum_64)) (
     upd (SET_FLAGS_OSZAPC_ADD_64 op1_64 op2_64 sum_64)))"

definition ADC_EqIdM :: "inst \<Rightarrow> unit exec" where
  "ADC_EqIdM i =
     bbind (flag_value CF) (\<lambda>temp_CF.
     bbind (ResolveModrm i) (\<lambda>eaddr.
     bbind (read_RMW_virtual_qword eaddr) (\<lambda>op1_64.
     let op2_64 = (scast (i_Id i) :: u64) in
     let sum_64 = op1_64 + op2_64 + ucast temp_CF in
     bseq (write_RMW_virtual_qword sum_64) (
     upd (SET_FLAGS_OSZAPC_SIZE op1_64 op2_64 sum_64 (BX_LF_INSTR_ADD_ADC64 temp_CF))))))"

definition ADC_EqIdR :: "inst \<Rightarrow> unit exec" where
  "ADC_EqIdR i =
     bbind (flag_value CF) (\<lambda>temp_CF.
     bbind (gets (READ_64BIT_REG (i_rm i))) (\<lambda>op1_64.
     let op2_64 = (scast (i_Id i) :: u64) in
     let sum_64 = op1_64 + op2_64 + ucast temp_CF in
     bseq (upd (WRITE_64BIT_REG (i_rm i) sum_64)) (
     upd (SET_FLAGS_OSZAPC_SIZE op1_64 op2_64 sum_64 (BX_LF_INSTR_ADD_ADC64 temp_CF)))))"

definition SUB_EqIdM :: "inst \<Rightarrow> unit exec" where
  "SUB_EqIdM i =
     bbind (ResolveModrm i) (\<lambda>eaddr.
     bbind (read_RMW_virtual_qword eaddr) (\<lambda>op1_64.
     let op2_64 = (scast (i_Id i) :: u64) in
     let diff_64 = op1_64 - op2_64 in
     bseq (write_RMW_virtual_qword diff_64) (
     upd (SET_FLAGS_OSZAPC_SUB_64 op1_64 op2_64 diff_64))))"

definition SUB_EqIdR :: "inst \<Rightarrow> unit exec" where
  "SUB_EqIdR i =
     bbind (gets (READ_64BIT_REG (i_rm i))) (\<lambda>op1_64.
     let op2_64 = (scast (i_Id i) :: u64) in
     let diff_64 = op1_64 - op2_64 in
     bseq (upd (WRITE_64BIT_REG (i_rm i) diff_64)) (
     upd (SET_FLAGS_OSZAPC_SUB_64 op1_64 op2_64 diff_64)))"

definition CMP_EqIdM :: "inst \<Rightarrow> unit exec" where
  "CMP_EqIdM i =
     bbind (ResolveModrm i) (\<lambda>eaddr.
     bbind (read_virtual_qword eaddr) (\<lambda>op1_64.
     let op2_64 = (scast (i_Id i) :: u64) in
     let diff_64 = op1_64 - op2_64 in
     upd (SET_FLAGS_OSZAPC_SUB_64 op1_64 op2_64 diff_64)))"

definition CMP_EqIdR :: "inst \<Rightarrow> unit exec" where
  "CMP_EqIdR i =
     bbind (gets (READ_64BIT_REG (i_rm i))) (\<lambda>op1_64.
     let op2_64 = (scast (i_Id i) :: u64) in
     let diff_64 = op1_64 - op2_64 in
     upd (SET_FLAGS_OSZAPC_SUB_64 op1_64 op2_64 diff_64))"

definition NEG_EqM :: "inst \<Rightarrow> unit exec" where
  "NEG_EqM i =
     bbind (ResolveModrm i) (\<lambda>eaddr.
     bbind (read_RMW_virtual_qword eaddr) (\<lambda>op1_64.
     let op1_64 = - op1_64 in
     bseq (write_RMW_virtual_qword op1_64) (
     upd (SET_FLAGS_OSZAPC_RESULT_SIZE op1_64 BX_LF_INSTR_NEG64))))"

definition NEG_EqR :: "inst \<Rightarrow> unit exec" where
  "NEG_EqR i =
     bbind (gets (READ_64BIT_REG (i_rm i))) (\<lambda>op1_64.
     let op1_64 = - op1_64 in
     bseq (upd (WRITE_64BIT_REG (i_rm i) op1_64)) (
     upd (SET_FLAGS_OSZAPC_RESULT_SIZE op1_64 BX_LF_INSTR_NEG64)))"

definition INC_EqM :: "inst \<Rightarrow> unit exec" where
  "INC_EqM i =
     bbind (ResolveModrm i) (\<lambda>eaddr.
     bbind (read_RMW_virtual_qword eaddr) (\<lambda>op1_64.
     let op1_64 = op1_64 + 1 in
     bseq (write_RMW_virtual_qword op1_64) (
     flag_step (SET_FLAGS_OSZAPC_INC_64 op1_64))))"

definition INC_EqR :: "inst \<Rightarrow> unit exec" where
  "INC_EqR i =
     bbind (gets (READ_64BIT_REG (i_rm i))) (\<lambda>rrx0.
     let rrx = rrx0 + 1 in
     bseq (upd (WRITE_64BIT_REG (i_rm i) rrx)) (
     flag_step (SET_FLAGS_OSZAPC_INC_64 rrx)))"

definition DEC_EqM :: "inst \<Rightarrow> unit exec" where
  "DEC_EqM i =
     bbind (ResolveModrm i) (\<lambda>eaddr.
     bbind (read_RMW_virtual_qword eaddr) (\<lambda>op1_64.
     let op1_64 = op1_64 - 1 in
     bseq (write_RMW_virtual_qword op1_64) (
     flag_step (SET_FLAGS_OSZAPC_DEC_64 op1_64))))"

definition DEC_EqR :: "inst \<Rightarrow> unit exec" where
  "DEC_EqR i =
     bbind (gets (READ_64BIT_REG (i_rm i))) (\<lambda>rrx0.
     let rrx = rrx0 - 1 in
     bseq (upd (WRITE_64BIT_REG (i_rm i) rrx)) (
     flag_step (SET_FLAGS_OSZAPC_INC_64 rrx)))"

definition CMPXCHG_EqGqM :: "inst \<Rightarrow> unit exec" where
  "CMPXCHG_EqGqM i =
     bbind (ResolveModrm i) (\<lambda>eaddr.
     bbind (read_RMW_virtual_qword eaddr) (\<lambda>op1_64.
     bbind (gets (READ_64BIT_REG RAX)) (\<lambda>rax.
     let diff_64 = rax - op1_64 in
     bseq (upd (SET_FLAGS_OSZAPC_SUB_64 rax op1_64 diff_64)) (
     if diff_64 = 0 then
       bbind (gets (READ_64BIT_REG (i_nnn i))) (\<lambda>op2_64.
       write_RMW_virtual_qword op2_64)
     else
       upd (WRITE_64BIT_REG RAX op1_64)))))"

definition CMPXCHG_EqGqR :: "inst \<Rightarrow> unit exec" where
  "CMPXCHG_EqGqR i =
     bbind (gets (READ_64BIT_REG (i_rm i))) (\<lambda>op1_64.
     bbind (gets (READ_64BIT_REG RAX)) (\<lambda>rax.
     let diff_64 = rax - op1_64 in
     bseq (upd (SET_FLAGS_OSZAPC_SUB_64 rax op1_64 diff_64)) (
     if diff_64 = 0 then
       bbind (gets (READ_64BIT_REG (i_nnn i))) (\<lambda>op2_64.
       upd (WRITE_64BIT_REG (i_rm i) op2_64))
     else
       upd (WRITE_64BIT_REG RAX op1_64))))"

definition CMPXCHG16B :: "inst \<Rightarrow> unit exec" where
  "CMPXCHG16B i =
     bbind (ResolveModrm i) (\<lambda>eaddr.
     let laddr = eaddr in
     if laddr AND 0xf \<noteq> 0 then
       raise BX_GP_EXCEPTION
     else
       bbind (read_RMW_virtual_qword eaddr) (\<lambda>op1_64_lo.
       bbind (read_RMW_virtual_qword (eaddr + 8)) (\<lambda>op1_64_hi.
       bbind (gets (READ_64BIT_REG RAX)) (\<lambda>rax.
       let diff = rax - op1_64_lo in
       bbind (gets (READ_64BIT_REG RDX)) (\<lambda>rdx.
       let diff = diff OR (rdx - op1_64_hi) in
       if diff = 0 then
         bbind (gets (READ_64BIT_REG RCX)) (\<lambda>rcx.
         bseq (write_RMW_virtual_qword rcx) (
         bbind (gets (READ_64BIT_REG RBX)) (\<lambda>rbx.
         bseq (write_virtual_qword eaddr rbx) (
         upd (assert_aflag ZF)))))
       else
         bseq (upd (clear_aflag ZF)) (
         bseq (upd (WRITE_64BIT_REG RAX op1_64_lo)) (
         upd (WRITE_64BIT_REG RDX op1_64_hi))))))))"

end
