(* ===== verification/Bochs_Logic.thy ===== *)
theory Bochs_Logic
  imports Bochs_Inst
begin

text \<open>
  The logical instructions, \<open>src/src/cpu/x86_64/bochs/cpu/logical8.cpp\<close> to \<open>logical64.cpp\<close>.
\<close>

unbundle bit_operations_syntax

section \<open>Byte operands\<close>

definition XOR_EbGbM :: "inst \<Rightarrow> unit exec" where
  "XOR_EbGbM i =
     bbind (ResolveModrm i) (\<lambda>eaddr.
     bbind (read_RMW_virtual_byte eaddr) (\<lambda>op1.
     bbind (gets (READ_8BIT_REGx (i_nnn i) (extend8bitL i))) (\<lambda>op2.
     let op1 = op1 XOR op2 in
     bseq (write_RMW_virtual_byte op1) (
     upd (SET_FLAGS_OSZAPC_LOGIC_8 op1)))))"

definition XOR_GbEbR :: "inst \<Rightarrow> unit exec" where
  "XOR_GbEbR i =
     bbind (gets (READ_8BIT_REGx (i_nnn i) (extend8bitL i))) (\<lambda>op1.
     bbind (gets (READ_8BIT_REGx (i_rm i) (extend8bitL i))) (\<lambda>op2.
     let op1 = op1 XOR op2 in
     bseq (upd (WRITE_8BIT_REGx (i_nnn i) (extend8bitL i) op1)) (
     upd (SET_FLAGS_OSZAPC_LOGIC_8 op1))))"

definition XOR_ALIb :: "inst \<Rightarrow> unit exec" where
  "XOR_ALIb i =
     bbind (gets (READ_8BIT_REGL RAX)) (\<lambda>op1.
     let op1 = op1 XOR i_Ib i in
     bseq (upd (WRITE_8BIT_REGL RAX op1)) (
     upd (SET_FLAGS_OSZAPC_LOGIC_8 op1)))"

definition XOR_EbIbM :: "inst \<Rightarrow> unit exec" where
  "XOR_EbIbM i =
    (let op2 = i_Ib i in
     bbind (ResolveModrm i) (\<lambda>eaddr.
     bbind (read_RMW_virtual_byte eaddr) (\<lambda>op1.
     let op1 = op1 XOR op2 in
     bseq (write_RMW_virtual_byte op1) (
     upd (SET_FLAGS_OSZAPC_LOGIC_8 op1)))))"

definition XOR_EbIbR :: "inst \<Rightarrow> unit exec" where
  "XOR_EbIbR i =
    (let op2 = i_Ib i in
     bbind (gets (READ_8BIT_REGx (i_rm i) (extend8bitL i))) (\<lambda>op1.
     let op1 = op1 XOR op2 in
     bseq (upd (WRITE_8BIT_REGx (i_rm i) (extend8bitL i) op1)) (
     upd (SET_FLAGS_OSZAPC_LOGIC_8 op1))))"

definition OR_EbIbM :: "inst \<Rightarrow> unit exec" where
  "OR_EbIbM i =
    (let op2 = i_Ib i in
     bbind (ResolveModrm i) (\<lambda>eaddr.
     bbind (read_RMW_virtual_byte eaddr) (\<lambda>op1.
     let op1 = op1 OR op2 in
     bseq (write_RMW_virtual_byte op1) (
     upd (SET_FLAGS_OSZAPC_LOGIC_8 op1)))))"

definition OR_EbIbR :: "inst \<Rightarrow> unit exec" where
  "OR_EbIbR i =
    (let op2 = i_Ib i in
     bbind (gets (READ_8BIT_REGx (i_rm i) (extend8bitL i))) (\<lambda>op1.
     let op1 = op1 OR op2 in
     bseq (upd (WRITE_8BIT_REGx (i_rm i) (extend8bitL i) op1)) (
     upd (SET_FLAGS_OSZAPC_LOGIC_8 op1))))"

definition NOT_EbM :: "inst \<Rightarrow> unit exec" where
  "NOT_EbM i =
     bbind (ResolveModrm i) (\<lambda>eaddr.
     bbind (read_RMW_virtual_byte eaddr) (\<lambda>op1_8.
     let op1_8 = NOT op1_8 in
     write_RMW_virtual_byte op1_8))"

definition NOT_EbR :: "inst \<Rightarrow> unit exec" where
  "NOT_EbR i =
     bbind (gets (READ_8BIT_REGx (i_rm i) (extend8bitL i))) (\<lambda>op1_8.
     let op1_8 = NOT op1_8 in
     upd (WRITE_8BIT_REGx (i_rm i) (extend8bitL i) op1_8))"

definition OR_EbGbM :: "inst \<Rightarrow> unit exec" where
  "OR_EbGbM i =
     bbind (ResolveModrm i) (\<lambda>eaddr.
     bbind (read_RMW_virtual_byte eaddr) (\<lambda>op1.
     bbind (gets (READ_8BIT_REGx (i_nnn i) (extend8bitL i))) (\<lambda>op2.
     let op1 = op1 OR op2 in
     bseq (write_RMW_virtual_byte op1) (
     upd (SET_FLAGS_OSZAPC_LOGIC_8 op1)))))"

definition OR_GbEbR :: "inst \<Rightarrow> unit exec" where
  "OR_GbEbR i =
     bbind (gets (READ_8BIT_REGx (i_nnn i) (extend8bitL i))) (\<lambda>op1.
     bbind (gets (READ_8BIT_REGx (i_rm i) (extend8bitL i))) (\<lambda>op2.
     let op1 = op1 OR op2 in
     bseq (upd (WRITE_8BIT_REGx (i_nnn i) (extend8bitL i) op1)) (
     upd (SET_FLAGS_OSZAPC_LOGIC_8 op1))))"

definition OR_ALIb :: "inst \<Rightarrow> unit exec" where
  "OR_ALIb i =
     bbind (gets (READ_8BIT_REGL RAX)) (\<lambda>op1.
     let op2 = i_Ib i in
     let op1 = op1 OR op2 in
     bseq (upd (WRITE_8BIT_REGL RAX op1)) (
     upd (SET_FLAGS_OSZAPC_LOGIC_8 op1)))"

definition AND_EbGbM :: "inst \<Rightarrow> unit exec" where
  "AND_EbGbM i =
     bbind (ResolveModrm i) (\<lambda>eaddr.
     bbind (read_RMW_virtual_byte eaddr) (\<lambda>op1.
     bbind (gets (READ_8BIT_REGx (i_nnn i) (extend8bitL i))) (\<lambda>op2.
     let op1 = op1 AND op2 in
     bseq (write_RMW_virtual_byte op1) (
     upd (SET_FLAGS_OSZAPC_LOGIC_8 op1)))))"

definition AND_GbEbR :: "inst \<Rightarrow> unit exec" where
  "AND_GbEbR i =
     bbind (gets (READ_8BIT_REGx (i_nnn i) (extend8bitL i))) (\<lambda>op1.
     bbind (gets (READ_8BIT_REGx (i_rm i) (extend8bitL i))) (\<lambda>op2.
     let op1 = op1 AND op2 in
     bseq (upd (WRITE_8BIT_REGx (i_nnn i) (extend8bitL i) op1)) (
     upd (SET_FLAGS_OSZAPC_LOGIC_8 op1))))"

definition AND_ALIb :: "inst \<Rightarrow> unit exec" where
  "AND_ALIb i =
     bbind (gets (READ_8BIT_REGL RAX)) (\<lambda>op1.
     let op2 = i_Ib i in
     let op1 = op1 AND op2 in
     bseq (upd (WRITE_8BIT_REGL RAX op1)) (
     upd (SET_FLAGS_OSZAPC_LOGIC_8 op1)))"

definition AND_EbIbM :: "inst \<Rightarrow> unit exec" where
  "AND_EbIbM i =
    (let op2 = i_Ib i in
     bbind (ResolveModrm i) (\<lambda>eaddr.
     bbind (read_RMW_virtual_byte eaddr) (\<lambda>op1.
     let op1 = op1 AND op2 in
     bseq (write_RMW_virtual_byte op1) (
     upd (SET_FLAGS_OSZAPC_LOGIC_8 op1)))))"

definition AND_EbIbR :: "inst \<Rightarrow> unit exec" where
  "AND_EbIbR i =
    (let op2 = i_Ib i in
     bbind (gets (READ_8BIT_REGx (i_rm i) (extend8bitL i))) (\<lambda>op1.
     let op1 = op1 AND op2 in
     bseq (upd (WRITE_8BIT_REGx (i_rm i) (extend8bitL i) op1)) (
     upd (SET_FLAGS_OSZAPC_LOGIC_8 op1))))"

definition TEST_EbGbR :: "inst \<Rightarrow> unit exec" where
  "TEST_EbGbR i =
     bbind (gets (READ_8BIT_REGx (i_rm i) (extend8bitL i))) (\<lambda>op1.
     bbind (gets (READ_8BIT_REGx (i_nnn i) (extend8bitL i))) (\<lambda>op2.
     let op1 = op1 AND op2 in
     upd (SET_FLAGS_OSZAPC_LOGIC_8 op1)))"

definition TEST_ALIb :: "inst \<Rightarrow> unit exec" where
  "TEST_ALIb i =
     bbind (gets (READ_8BIT_REGL RAX)) (\<lambda>op1.
     let op2 = i_Ib i in
     let op1 = op1 AND op2 in
     upd (SET_FLAGS_OSZAPC_LOGIC_8 op1))"

definition TEST_EbIbR :: "inst \<Rightarrow> unit exec" where
  "TEST_EbIbR i =
     bbind (gets (READ_8BIT_REGx (i_rm i) (extend8bitL i))) (\<lambda>op1.
     let op1 = op1 AND i_Ib i in
     upd (SET_FLAGS_OSZAPC_LOGIC_8 op1))"

section \<open>Word operands\<close>

definition XOR_EwGwM :: "inst \<Rightarrow> unit exec" where
  "XOR_EwGwM i =
     bbind (ResolveModrm i) (\<lambda>eaddr.
     bbind (read_RMW_virtual_word eaddr) (\<lambda>op1_16.
     bbind (gets (READ_16BIT_REG (i_nnn i))) (\<lambda>op2_16.
     let op1_16 = op1_16 XOR op2_16 in
     bseq (write_RMW_virtual_word op1_16) (
     upd (SET_FLAGS_OSZAPC_LOGIC_16 op1_16)))))"

definition XOR_GwEwR :: "inst \<Rightarrow> unit exec" where
  "XOR_GwEwR i =
     bbind (gets (READ_16BIT_REG (i_nnn i))) (\<lambda>op1_16.
     bbind (gets (READ_16BIT_REG (i_rm i))) (\<lambda>op2_16.
     let op1_16 = op1_16 XOR op2_16 in
     bseq (upd (WRITE_16BIT_REG (i_nnn i) op1_16)) (
     upd (SET_FLAGS_OSZAPC_LOGIC_16 op1_16))))"

definition XOR_AXIw :: "inst \<Rightarrow> unit exec" where
  "XOR_AXIw i =
     bbind (gets (READ_16BIT_REG RAX)) (\<lambda>op1_16.
     let op1_16 = op1_16 XOR i_Iw i in
     bseq (upd (WRITE_16BIT_REG RAX op1_16)) (
     upd (SET_FLAGS_OSZAPC_LOGIC_16 op1_16)))"

definition XOR_EwIwM :: "inst \<Rightarrow> unit exec" where
  "XOR_EwIwM i =
     bbind (ResolveModrm i) (\<lambda>eaddr.
     bbind (read_RMW_virtual_word eaddr) (\<lambda>op1_16.
     let op1_16 = op1_16 XOR i_Iw i in
     bseq (write_RMW_virtual_word op1_16) (
     upd (SET_FLAGS_OSZAPC_LOGIC_16 op1_16))))"

definition XOR_EwIwR :: "inst \<Rightarrow> unit exec" where
  "XOR_EwIwR i =
     bbind (gets (READ_16BIT_REG (i_rm i))) (\<lambda>op1_16.
     let op1_16 = op1_16 XOR i_Iw i in
     bseq (upd (WRITE_16BIT_REG (i_rm i) op1_16)) (
     upd (SET_FLAGS_OSZAPC_LOGIC_16 op1_16)))"

definition OR_EwIwM :: "inst \<Rightarrow> unit exec" where
  "OR_EwIwM i =
     bbind (ResolveModrm i) (\<lambda>eaddr.
     bbind (read_RMW_virtual_word eaddr) (\<lambda>op1_16.
     let op1_16 = op1_16 OR i_Iw i in
     bseq (write_RMW_virtual_word op1_16) (
     upd (SET_FLAGS_OSZAPC_LOGIC_16 op1_16))))"

definition OR_EwIwR :: "inst \<Rightarrow> unit exec" where
  "OR_EwIwR i =
     bbind (gets (READ_16BIT_REG (i_rm i))) (\<lambda>op1_16.
     let op1_16 = op1_16 OR i_Iw i in
     bseq (upd (WRITE_16BIT_REG (i_rm i) op1_16)) (
     upd (SET_FLAGS_OSZAPC_LOGIC_16 op1_16)))"

definition NOT_EwM :: "inst \<Rightarrow> unit exec" where
  "NOT_EwM i =
     bbind (ResolveModrm i) (\<lambda>eaddr.
     bbind (read_RMW_virtual_word eaddr) (\<lambda>op1_16.
     let op1_16 = NOT op1_16 in
     write_RMW_virtual_word op1_16))"

definition NOT_EwR :: "inst \<Rightarrow> unit exec" where
  "NOT_EwR i =
     bbind (gets (READ_16BIT_REG (i_rm i))) (\<lambda>op1_16.
     let op1_16 = NOT op1_16 in
     upd (WRITE_16BIT_REG (i_rm i) op1_16))"

definition OR_EwGwM :: "inst \<Rightarrow> unit exec" where
  "OR_EwGwM i =
     bbind (ResolveModrm i) (\<lambda>eaddr.
     bbind (read_RMW_virtual_word eaddr) (\<lambda>op1_16.
     bbind (gets (READ_16BIT_REG (i_nnn i))) (\<lambda>op2_16.
     let op1_16 = op1_16 OR op2_16 in
     bseq (write_RMW_virtual_word op1_16) (
     upd (SET_FLAGS_OSZAPC_LOGIC_16 op1_16)))))"

definition OR_GwEwR :: "inst \<Rightarrow> unit exec" where
  "OR_GwEwR i =
     bbind (gets (READ_16BIT_REG (i_nnn i))) (\<lambda>op1_16.
     bbind (gets (READ_16BIT_REG (i_rm i))) (\<lambda>op2_16.
     let op1_16 = op1_16 OR op2_16 in
     bseq (upd (WRITE_16BIT_REG (i_nnn i) op1_16)) (
     upd (SET_FLAGS_OSZAPC_LOGIC_16 op1_16))))"

definition OR_AXIw :: "inst \<Rightarrow> unit exec" where
  "OR_AXIw i =
     bbind (gets (READ_16BIT_REG RAX)) (\<lambda>op1_16.
     let op2_16 = i_Iw i in
     let op1_16 = op1_16 OR op2_16 in
     bseq (upd (WRITE_16BIT_REG RAX op1_16)) (
     upd (SET_FLAGS_OSZAPC_LOGIC_16 op1_16)))"

definition AND_EwGwM :: "inst \<Rightarrow> unit exec" where
  "AND_EwGwM i =
     bbind (ResolveModrm i) (\<lambda>eaddr.
     bbind (read_RMW_virtual_word eaddr) (\<lambda>op1_16.
     bbind (gets (READ_16BIT_REG (i_nnn i))) (\<lambda>op2_16.
     let op1_16 = op1_16 AND op2_16 in
     bseq (write_RMW_virtual_word op1_16) (
     upd (SET_FLAGS_OSZAPC_LOGIC_16 op1_16)))))"

definition AND_GwEwR :: "inst \<Rightarrow> unit exec" where
  "AND_GwEwR i =
     bbind (gets (READ_16BIT_REG (i_nnn i))) (\<lambda>op1_16.
     bbind (gets (READ_16BIT_REG (i_rm i))) (\<lambda>op2_16.
     let op1_16 = op1_16 AND op2_16 in
     bseq (upd (WRITE_16BIT_REG (i_nnn i) op1_16)) (
     upd (SET_FLAGS_OSZAPC_LOGIC_16 op1_16))))"

definition AND_AXIw :: "inst \<Rightarrow> unit exec" where
  "AND_AXIw i =
     bbind (gets (READ_16BIT_REG RAX)) (\<lambda>op1_16.
     let op2_16 = i_Iw i in
     let op1_16 = op1_16 AND op2_16 in
     bseq (upd (WRITE_16BIT_REG RAX op1_16)) (
     upd (SET_FLAGS_OSZAPC_LOGIC_16 op1_16)))"

definition AND_EwIwM :: "inst \<Rightarrow> unit exec" where
  "AND_EwIwM i =
     bbind (ResolveModrm i) (\<lambda>eaddr.
     bbind (read_RMW_virtual_word eaddr) (\<lambda>op1_16.
     let op1_16 = op1_16 AND i_Iw i in
     bseq (write_RMW_virtual_word op1_16) (
     upd (SET_FLAGS_OSZAPC_LOGIC_16 op1_16))))"

definition AND_EwIwR :: "inst \<Rightarrow> unit exec" where
  "AND_EwIwR i =
     bbind (gets (READ_16BIT_REG (i_rm i))) (\<lambda>op1_16.
     let op1_16 = op1_16 AND i_Iw i in
     bseq (upd (WRITE_16BIT_REG (i_rm i) op1_16)) (
     upd (SET_FLAGS_OSZAPC_LOGIC_16 op1_16)))"

definition TEST_EwGwR :: "inst \<Rightarrow> unit exec" where
  "TEST_EwGwR i =
     bbind (gets (READ_16BIT_REG (i_rm i))) (\<lambda>op1_16.
     bbind (gets (READ_16BIT_REG (i_nnn i))) (\<lambda>op2_16.
     let op1_16 = op1_16 AND op2_16 in
     upd (SET_FLAGS_OSZAPC_LOGIC_16 op1_16)))"

definition TEST_AXIw :: "inst \<Rightarrow> unit exec" where
  "TEST_AXIw i =
     bbind (gets (READ_16BIT_REG RAX)) (\<lambda>op1_16.
     let op2_16 = i_Iw i in
     let op1_16 = op1_16 AND op2_16 in
     upd (SET_FLAGS_OSZAPC_LOGIC_16 op1_16))"

definition TEST_EwIwR :: "inst \<Rightarrow> unit exec" where
  "TEST_EwIwR i =
     bbind (gets (READ_16BIT_REG (i_rm i))) (\<lambda>op1_16.
     let op1_16 = op1_16 AND i_Iw i in
     upd (SET_FLAGS_OSZAPC_LOGIC_16 op1_16))"

section \<open>Doubleword operands\<close>

definition XOR_EdGdM :: "inst \<Rightarrow> unit exec" where
  "XOR_EdGdM i =
     bbind (ResolveModrm i) (\<lambda>eaddr.
     bbind (read_RMW_virtual_dword eaddr) (\<lambda>op1_32.
     bbind (gets (READ_32BIT_REG (i_nnn i))) (\<lambda>op2_32.
     let op1_32 = op1_32 XOR op2_32 in
     bseq (write_RMW_virtual_dword op1_32) (
     upd (SET_FLAGS_OSZAPC_LOGIC_32 op1_32)))))"

definition XOR_GdEdR :: "inst \<Rightarrow> unit exec" where
  "XOR_GdEdR i =
     bbind (gets (READ_32BIT_REG (i_nnn i))) (\<lambda>op1_32.
     bbind (gets (READ_32BIT_REG (i_rm i))) (\<lambda>op2_32.
     let op1_32 = op1_32 XOR op2_32 in
     bseq (upd (WRITE_32BIT_REGZ (i_nnn i) op1_32)) (
     upd (SET_FLAGS_OSZAPC_LOGIC_32 op1_32))))"

definition XOR_EAXId :: "inst \<Rightarrow> unit exec" where
  "XOR_EAXId i =
     bbind (gets (READ_32BIT_REG RAX)) (\<lambda>op1_32.
     let op1_32 = op1_32 XOR i_Id i in
     bseq (upd (WRITE_64BIT_REG RAX (ucast op1_32))) (
     upd (SET_FLAGS_OSZAPC_LOGIC_32 op1_32)))"

definition XOR_EdIdM :: "inst \<Rightarrow> unit exec" where
  "XOR_EdIdM i =
     bbind (ResolveModrm i) (\<lambda>eaddr.
     bbind (read_RMW_virtual_dword eaddr) (\<lambda>op1_32.
     let op1_32 = op1_32 XOR i_Id i in
     bseq (write_RMW_virtual_dword op1_32) (
     upd (SET_FLAGS_OSZAPC_LOGIC_32 op1_32))))"

definition XOR_EdIdR :: "inst \<Rightarrow> unit exec" where
  "XOR_EdIdR i =
     bbind (gets (READ_32BIT_REG (i_rm i))) (\<lambda>op1_32.
     let op1_32 = op1_32 XOR i_Id i in
     bseq (upd (WRITE_32BIT_REGZ (i_rm i) op1_32)) (
     upd (SET_FLAGS_OSZAPC_LOGIC_32 op1_32)))"

definition OR_EdIdM :: "inst \<Rightarrow> unit exec" where
  "OR_EdIdM i =
     bbind (ResolveModrm i) (\<lambda>eaddr.
     bbind (read_RMW_virtual_dword eaddr) (\<lambda>op1_32.
     let op1_32 = op1_32 OR i_Id i in
     bseq (write_RMW_virtual_dword op1_32) (
     upd (SET_FLAGS_OSZAPC_LOGIC_32 op1_32))))"

definition OR_EdIdR :: "inst \<Rightarrow> unit exec" where
  "OR_EdIdR i =
     bbind (gets (READ_32BIT_REG (i_rm i))) (\<lambda>op1_32.
     let op1_32 = op1_32 OR i_Id i in
     bseq (upd (WRITE_32BIT_REGZ (i_rm i) op1_32)) (
     upd (SET_FLAGS_OSZAPC_LOGIC_32 op1_32)))"

definition NOT_EdM :: "inst \<Rightarrow> unit exec" where
  "NOT_EdM i =
     bbind (ResolveModrm i) (\<lambda>eaddr.
     bbind (read_RMW_virtual_dword eaddr) (\<lambda>op1_32.
     let op1_32 = NOT op1_32 in
     write_RMW_virtual_dword op1_32))"

definition NOT_EdR :: "inst \<Rightarrow> unit exec" where
  "NOT_EdR i =
     bbind (gets (READ_32BIT_REG (i_rm i))) (\<lambda>op1_32.
     let op1_32 = NOT op1_32 in
     upd (WRITE_32BIT_REGZ (i_rm i) op1_32))"

definition OR_EdGdM :: "inst \<Rightarrow> unit exec" where
  "OR_EdGdM i =
     bbind (ResolveModrm i) (\<lambda>eaddr.
     bbind (read_RMW_virtual_dword eaddr) (\<lambda>op1_32.
     bbind (gets (READ_32BIT_REG (i_nnn i))) (\<lambda>op2_32.
     let op1_32 = op1_32 OR op2_32 in
     bseq (write_RMW_virtual_dword op1_32) (
     upd (SET_FLAGS_OSZAPC_LOGIC_32 op1_32)))))"

definition OR_GdEdR :: "inst \<Rightarrow> unit exec" where
  "OR_GdEdR i =
     bbind (gets (READ_32BIT_REG (i_nnn i))) (\<lambda>op1_32.
     bbind (gets (READ_32BIT_REG (i_rm i))) (\<lambda>op2_32.
     let op1_32 = op1_32 OR op2_32 in
     bseq (upd (WRITE_32BIT_REGZ (i_nnn i) op1_32)) (
     upd (SET_FLAGS_OSZAPC_LOGIC_32 op1_32))))"

definition OR_EAXId :: "inst \<Rightarrow> unit exec" where
  "OR_EAXId i =
     bbind (gets (READ_32BIT_REG RAX)) (\<lambda>op1_32.
     let op2_32 = i_Id i in
     let op1_32 = op1_32 OR op2_32 in
     bseq (upd (WRITE_64BIT_REG RAX (ucast op1_32))) (
     upd (SET_FLAGS_OSZAPC_LOGIC_32 op1_32)))"

definition AND_EdGdM :: "inst \<Rightarrow> unit exec" where
  "AND_EdGdM i =
     bbind (ResolveModrm i) (\<lambda>eaddr.
     bbind (read_RMW_virtual_dword eaddr) (\<lambda>op1_32.
     bbind (gets (READ_32BIT_REG (i_nnn i))) (\<lambda>op2_32.
     let op1_32 = op1_32 AND op2_32 in
     bseq (write_RMW_virtual_dword op1_32) (
     upd (SET_FLAGS_OSZAPC_LOGIC_32 op1_32)))))"

definition AND_GdEdR :: "inst \<Rightarrow> unit exec" where
  "AND_GdEdR i =
     bbind (gets (READ_32BIT_REG (i_nnn i))) (\<lambda>op1_32.
     bbind (gets (READ_32BIT_REG (i_rm i))) (\<lambda>op2_32.
     let op1_32 = op1_32 AND op2_32 in
     bseq (upd (WRITE_32BIT_REGZ (i_nnn i) op1_32)) (
     upd (SET_FLAGS_OSZAPC_LOGIC_32 op1_32))))"

definition AND_EAXId :: "inst \<Rightarrow> unit exec" where
  "AND_EAXId i =
     bbind (gets (READ_32BIT_REG RAX)) (\<lambda>op1_32.
     let op2_32 = i_Id i in
     let op1_32 = op1_32 AND op2_32 in
     bseq (upd (WRITE_64BIT_REG RAX (ucast op1_32))) (
     upd (SET_FLAGS_OSZAPC_LOGIC_32 op1_32)))"

definition AND_EdIdM :: "inst \<Rightarrow> unit exec" where
  "AND_EdIdM i =
     bbind (ResolveModrm i) (\<lambda>eaddr.
     bbind (read_RMW_virtual_dword eaddr) (\<lambda>op1_32.
     let op1_32 = op1_32 AND i_Id i in
     bseq (write_RMW_virtual_dword op1_32) (
     upd (SET_FLAGS_OSZAPC_LOGIC_32 op1_32))))"

definition AND_EdIdR :: "inst \<Rightarrow> unit exec" where
  "AND_EdIdR i =
     bbind (gets (READ_32BIT_REG (i_rm i))) (\<lambda>op1_32.
     let op1_32 = op1_32 AND i_Id i in
     bseq (upd (WRITE_32BIT_REGZ (i_rm i) op1_32)) (
     upd (SET_FLAGS_OSZAPC_LOGIC_32 op1_32)))"

definition TEST_EdGdR :: "inst \<Rightarrow> unit exec" where
  "TEST_EdGdR i =
     bbind (gets (READ_32BIT_REG (i_rm i))) (\<lambda>op1_32.
     bbind (gets (READ_32BIT_REG (i_nnn i))) (\<lambda>op2_32.
     let op1_32 = op1_32 AND op2_32 in
     upd (SET_FLAGS_OSZAPC_LOGIC_32 op1_32)))"

definition TEST_EAXId :: "inst \<Rightarrow> unit exec" where
  "TEST_EAXId i =
     bbind (gets (READ_32BIT_REG RAX)) (\<lambda>op1_32.
     let op2_32 = i_Id i in
     let op1_32 = op1_32 AND op2_32 in
     upd (SET_FLAGS_OSZAPC_LOGIC_32 op1_32))"

definition TEST_EdIdR :: "inst \<Rightarrow> unit exec" where
  "TEST_EdIdR i =
     bbind (gets (READ_32BIT_REG (i_rm i))) (\<lambda>op1_32.
     let op1_32 = op1_32 AND i_Id i in
     upd (SET_FLAGS_OSZAPC_LOGIC_32 op1_32))"

section \<open>Quadword operands\<close>

definition XOR_EqGqM :: "inst \<Rightarrow> unit exec" where
  "XOR_EqGqM i =
     bbind (ResolveModrm i) (\<lambda>eaddr.
     bbind (read_RMW_virtual_qword eaddr) (\<lambda>op1_64.
     bbind (gets (READ_64BIT_REG (i_nnn i))) (\<lambda>op2_64.
     let op1_64 = op1_64 XOR op2_64 in
     bseq (write_RMW_virtual_qword op1_64) (
     upd (SET_FLAGS_OSZAPC_LOGIC_64 op1_64)))))"

definition XOR_GqEqR :: "inst \<Rightarrow> unit exec" where
  "XOR_GqEqR i =
     bbind (gets (READ_64BIT_REG (i_nnn i))) (\<lambda>op1_64.
     bbind (gets (READ_64BIT_REG (i_rm i))) (\<lambda>op2_64.
     let op1_64 = op1_64 XOR op2_64 in
     bseq (upd (WRITE_64BIT_REG (i_nnn i) op1_64)) (
     upd (SET_FLAGS_OSZAPC_LOGIC_64 op1_64))))"

definition XOR_RAXId :: "inst \<Rightarrow> unit exec" where
  "XOR_RAXId i =
     bbind (gets (READ_64BIT_REG RAX)) (\<lambda>op1_64.
     let op2_64 = (scast (i_Id i) :: u64) in
     let op1_64 = op1_64 XOR op2_64 in
     bseq (upd (WRITE_64BIT_REG RAX op1_64)) (
     upd (SET_FLAGS_OSZAPC_LOGIC_64 op1_64)))"

definition XOR_EqIdM :: "inst \<Rightarrow> unit exec" where
  "XOR_EqIdM i =
    (let op2_64 = (scast (i_Id i) :: u64) in
     bbind (ResolveModrm i) (\<lambda>eaddr.
     bbind (read_RMW_virtual_qword eaddr) (\<lambda>op1_64.
     let op1_64 = op1_64 XOR op2_64 in
     bseq (write_RMW_virtual_qword op1_64) (
     upd (SET_FLAGS_OSZAPC_LOGIC_64 op1_64)))))"

definition XOR_EqIdR :: "inst \<Rightarrow> unit exec" where
  "XOR_EqIdR i =
    (let op2_64 = (scast (i_Id i) :: u64) in
     bbind (gets (READ_64BIT_REG (i_rm i))) (\<lambda>op1_64.
     let op1_64 = op1_64 XOR op2_64 in
     bseq (upd (WRITE_64BIT_REG (i_rm i) op1_64)) (
     upd (SET_FLAGS_OSZAPC_LOGIC_64 op1_64))))"

definition OR_EqIdM :: "inst \<Rightarrow> unit exec" where
  "OR_EqIdM i =
    (let op2_64 = (scast (i_Id i) :: u64) in
     bbind (ResolveModrm i) (\<lambda>eaddr.
     bbind (read_RMW_virtual_qword eaddr) (\<lambda>op1_64.
     let op1_64 = op1_64 OR op2_64 in
     bseq (write_RMW_virtual_qword op1_64) (
     upd (SET_FLAGS_OSZAPC_LOGIC_64 op1_64)))))"

definition OR_EqIdR :: "inst \<Rightarrow> unit exec" where
  "OR_EqIdR i =
    (let op2_64 = (scast (i_Id i) :: u64) in
     bbind (gets (READ_64BIT_REG (i_rm i))) (\<lambda>op1_64.
     let op1_64 = op1_64 OR op2_64 in
     bseq (upd (WRITE_64BIT_REG (i_rm i) op1_64)) (
     upd (SET_FLAGS_OSZAPC_LOGIC_64 op1_64))))"

definition NOT_EqM :: "inst \<Rightarrow> unit exec" where
  "NOT_EqM i =
     bbind (ResolveModrm i) (\<lambda>eaddr.
     bbind (read_RMW_virtual_qword eaddr) (\<lambda>op1_64.
     let op1_64 = NOT op1_64 in
     write_RMW_virtual_qword op1_64))"

definition NOT_EqR :: "inst \<Rightarrow> unit exec" where
  "NOT_EqR i =
     bbind (gets (READ_64BIT_REG (i_rm i))) (\<lambda>op1_64.
     let op1_64 = NOT op1_64 in
     upd (WRITE_64BIT_REG (i_rm i) op1_64))"

definition OR_EqGqM :: "inst \<Rightarrow> unit exec" where
  "OR_EqGqM i =
     bbind (ResolveModrm i) (\<lambda>eaddr.
     bbind (read_RMW_virtual_qword eaddr) (\<lambda>op1_64.
     bbind (gets (READ_64BIT_REG (i_nnn i))) (\<lambda>op2_64.
     let op1_64 = op1_64 OR op2_64 in
     bseq (write_RMW_virtual_qword op1_64) (
     upd (SET_FLAGS_OSZAPC_LOGIC_64 op1_64)))))"

definition OR_GqEqR :: "inst \<Rightarrow> unit exec" where
  "OR_GqEqR i =
     bbind (gets (READ_64BIT_REG (i_nnn i))) (\<lambda>op1_64.
     bbind (gets (READ_64BIT_REG (i_rm i))) (\<lambda>op2_64.
     let op1_64 = op1_64 OR op2_64 in
     bseq (upd (WRITE_64BIT_REG (i_nnn i) op1_64)) (
     upd (SET_FLAGS_OSZAPC_LOGIC_64 op1_64))))"

definition OR_RAXId :: "inst \<Rightarrow> unit exec" where
  "OR_RAXId i =
     bbind (gets (READ_64BIT_REG RAX)) (\<lambda>op1_64.
     let op2_64 = (scast (i_Id i) :: u64) in
     let op1_64 = op1_64 OR op2_64 in
     bseq (upd (WRITE_64BIT_REG RAX op1_64)) (
     upd (SET_FLAGS_OSZAPC_LOGIC_64 op1_64)))"

definition AND_EqGqM :: "inst \<Rightarrow> unit exec" where
  "AND_EqGqM i =
     bbind (ResolveModrm i) (\<lambda>eaddr.
     bbind (read_RMW_virtual_qword eaddr) (\<lambda>op1_64.
     bbind (gets (READ_64BIT_REG (i_nnn i))) (\<lambda>op2_64.
     let op1_64 = op1_64 AND op2_64 in
     bseq (write_RMW_virtual_qword op1_64) (
     upd (SET_FLAGS_OSZAPC_LOGIC_64 op1_64)))))"

definition AND_GqEqR :: "inst \<Rightarrow> unit exec" where
  "AND_GqEqR i =
     bbind (gets (READ_64BIT_REG (i_nnn i))) (\<lambda>op1_64.
     bbind (gets (READ_64BIT_REG (i_rm i))) (\<lambda>op2_64.
     let op1_64 = op1_64 AND op2_64 in
     bseq (upd (WRITE_64BIT_REG (i_nnn i) op1_64)) (
     upd (SET_FLAGS_OSZAPC_LOGIC_64 op1_64))))"

definition AND_RAXId :: "inst \<Rightarrow> unit exec" where
  "AND_RAXId i =
     bbind (gets (READ_64BIT_REG RAX)) (\<lambda>op1_64.
     let op2_64 = (scast (i_Id i) :: u64) in
     let op1_64 = op1_64 AND op2_64 in
     bseq (upd (WRITE_64BIT_REG RAX op1_64)) (
     upd (SET_FLAGS_OSZAPC_LOGIC_64 op1_64)))"

definition AND_EqIdM :: "inst \<Rightarrow> unit exec" where
  "AND_EqIdM i =
    (let op2_64 = (scast (i_Id i) :: u64) in
     bbind (ResolveModrm i) (\<lambda>eaddr.
     bbind (read_RMW_virtual_qword eaddr) (\<lambda>op1_64.
     let op1_64 = op1_64 AND op2_64 in
     bseq (write_RMW_virtual_qword op1_64) (
     upd (SET_FLAGS_OSZAPC_LOGIC_64 op1_64)))))"

definition AND_EqIdR :: "inst \<Rightarrow> unit exec" where
  "AND_EqIdR i =
    (let op2_64 = (scast (i_Id i) :: u64) in
     bbind (gets (READ_64BIT_REG (i_rm i))) (\<lambda>op1_64.
     let op1_64 = op1_64 AND op2_64 in
     bseq (upd (WRITE_64BIT_REG (i_rm i) op1_64)) (
     upd (SET_FLAGS_OSZAPC_LOGIC_64 op1_64))))"

definition TEST_EqGqR :: "inst \<Rightarrow> unit exec" where
  "TEST_EqGqR i =
     bbind (gets (READ_64BIT_REG (i_rm i))) (\<lambda>op1_64.
     bbind (gets (READ_64BIT_REG (i_nnn i))) (\<lambda>op2_64.
     let op1_64 = op1_64 AND op2_64 in
     upd (SET_FLAGS_OSZAPC_LOGIC_64 op1_64)))"

definition TEST_RAXId :: "inst \<Rightarrow> unit exec" where
  "TEST_RAXId i =
     bbind (gets (READ_64BIT_REG RAX)) (\<lambda>op1_64.
     let op2_64 = (scast (i_Id i) :: u64) in
     let op1_64 = op1_64 AND op2_64 in
     upd (SET_FLAGS_OSZAPC_LOGIC_64 op1_64))"

definition TEST_EqIdR :: "inst \<Rightarrow> unit exec" where
  "TEST_EqIdR i =
     bbind (gets (READ_64BIT_REG (i_rm i))) (\<lambda>op1_64.
     let op2_64 = (scast (i_Id i) :: u64) in
     let op1_64 = op1_64 AND op2_64 in
     upd (SET_FLAGS_OSZAPC_LOGIC_64 op1_64))"

end
