(* ===== verification/Bochs_Precise.thy ===== *)
theory Bochs_Precise
  imports Bochs_Flags_Spec Bochs_Arith Bochs_Arith_Wide Bochs_Logic
begin

text \<open>
  Exceptions of the interpreter are precise. An instruction leaves by a \<open>longjmp\<close> in the middle of its work; that the
  kernel can fix the cause and start it again needs that nothing the program sees has changed by then. The proof composes:
  parts that change nothing visible (\<open>quiet\<close>), parts that never raise (\<open>sure\<close>), and the rule that an instruction is
  precise if it consults first and changes the state afterwards.
\<close>

section \<open>What a program sees\<close>

text \<open>Everything but the translation caches, the record of the last translation and the temporary register.\<close>

definition same_arch :: "bcpu \<Rightarrow> bcpu \<Rightarrow> bool" where
  "same_arch s t \<longleftrightarrow> x_mem (b_x s) = x_mem (b_x t) \<and> x_msr (b_x s) = x_msr (b_x t)
     \<and> (\<forall>r. r \<noteq> BX_TMP_REGISTER \<longrightarrow> gen_reg r s = gen_reg r t)
     \<and> x_cpl (b_x s) = x_cpl (b_x t) \<and> x_int_enabled (b_x s) = x_int_enabled (b_x t)
     \<and> b_eflags s = b_eflags t \<and> b_oszapc s = b_oszapc t \<and> b_status s = b_status t
     \<and> b_speculative_rsp s = b_speculative_rsp t"

lemma same_arch_refl [simp]: "same_arch s s" by (simp add: same_arch_def)

lemma same_arch_trans: "same_arch s t \<Longrightarrow> same_arch t u \<Longrightarrow> same_arch s u" by (simp add: same_arch_def)

lemma same_arch_flags: "same_arch s t \<Longrightarrow> getB f s = getB f t"
  by (rule getB_cong) (simp_all add: same_arch_def)

lemma same_arch_flags_ok: "same_arch s t \<Longrightarrow> flags_ok s = flags_ok t" and
  same_arch_flags_of: "same_arch s t \<Longrightarrow> flags_of s = flags_of t"
  by (simp_all add: flags_ok_def flags_of_def fun_eq_iff same_arch_flags[of s t])

section \<open>Parts of instructions\<close>

definition quiet :: "'a exec \<Rightarrow> bool" where "quiet m \<longleftrightarrow> (\<forall>s r t. m s = Inr (r, t) \<longrightarrow> same_arch s t)"

definition sure :: "'a exec \<Rightarrow> bool" where "sure m \<longleftrightarrow> (\<forall>s e t. m s \<noteq> Inr (Inl e, t))"

definition precise :: "'a exec \<Rightarrow> bool" where "precise m \<longleftrightarrow> (\<forall>s e t. m s = Inr (Inl e, t) \<longrightarrow> same_arch s t)"

named_theorems part_rules

lemma bbind_outcome:
  "bbind m f s = Inr (r, t) \<longleftrightarrow>
     (\<exists>e. m s = Inr (Inl e, t) \<and> r = Inl e) \<or> (\<exists>x u. m s = Inr (Inr x, u) \<and> f x u = Inr (r, t))"
proof (cases "m s")
  case (Inr p)
  then show ?thesis by (cases "fst p"; cases p) (auto simp: bbind_def)
qed (simp add: bbind_def)

lemma quiet_bbind: "quiet m \<Longrightarrow> (\<And>x. quiet (f x)) \<Longrightarrow> quiet (bbind m f)"
  unfolding quiet_def bbind_outcome by (blast intro: same_arch_trans)

lemma sure_bbind: "sure m \<Longrightarrow> (\<And>x. sure (f x)) \<Longrightarrow> sure (bbind m f)"
  unfolding sure_def bbind_outcome by blast

lemma precise_quiet_first: "quiet m \<Longrightarrow> (\<And>x. precise (f x)) \<Longrightarrow> precise (bbind m f)"
  unfolding quiet_def precise_def bbind_outcome by (blast intro: same_arch_trans)

lemma precise_then_sure: "precise m \<Longrightarrow> (\<And>x. sure (f x)) \<Longrightarrow> precise (bbind m f)"
  unfolding sure_def precise_def bbind_outcome by blast

lemmas bbind_rules [part_rules] = sure_bbind precise_quiet_first precise_then_sure

lemma sure_precise: "sure m \<Longrightarrow> precise m" by (simp add: sure_def precise_def)

lemma quiet_precise: "quiet m \<Longrightarrow> precise m" by (simp add: quiet_def precise_def)

lemma parts_bseq [part_rules]:
  "sure m \<Longrightarrow> sure k \<Longrightarrow> sure (bseq m k)" "quiet m \<Longrightarrow> precise k \<Longrightarrow> precise (bseq m k)"
  "precise m \<Longrightarrow> sure k \<Longrightarrow> precise (bseq m k)" "quiet m \<Longrightarrow> quiet k \<Longrightarrow> quiet (bseq m k)"
  by (simp_all add: bseq_def sure_bbind precise_quiet_first precise_then_sure quiet_bbind)

lemma sure_parts [part_rules]: "sure (ret x)" "sure (gets g)" "sure (upd h)" "sure (flag_step st)" "sure (flag_value f)" "sure (rmw w)"
  by (simp_all add: sure_def ret_def gets_def upd_def flag_step_def flag_value_def rmw_def rbind_Inr_iff)

lemma quiet_parts [part_rules]: "quiet (ret x)" "quiet (gets g)" "quiet (raise e)" "quiet (flag_value f)"
  by (auto simp: quiet_def ret_def gets_def raise_def flag_value_def rbind_Inr_iff)

lemma if_parts [part_rules]:
  "sure m \<Longrightarrow> sure k \<Longrightarrow> sure (if b then m else k)" "precise m \<Longrightarrow> precise k \<Longrightarrow> precise (if b then m else k)"
  by simp_all

section \<open>Accesses\<close>

text \<open>A check of the rights changes the translation caches and the record of the translation only.\<close>

definition translation_only :: "xcpu \<Rightarrow> xcpu \<Rightarrow> bool" where
  "translation_only x y \<longleftrightarrow> y = x\<lparr>x_tlb := x_tlb y, x_translate := x_translate y\<rparr>"

lemma translation_only_refl [simp]: "translation_only x x" by (simp add: translation_only_def)

lemma translation_only_trans: "translation_only x y \<Longrightarrow> translation_only y z \<Longrightarrow> translation_only x z"
  by (cases x; cases y; cases z) (auto simp: translation_only_def)

lemma translation_only_upd [simp]:
  "translation_only x (y\<lparr>x_translate := t\<rparr>) = translation_only x y" "translation_only x (set_tlb w i e y) = translation_only x y"
  by (cases x; cases y; auto simp: translation_only_def set_tlb_def)+

lemma get_physical_translation_only: "get_physical w r x = Inr (r', y) \<Longrightarrow> translation_only x y"
  by (auto simp: get_physical_def Let_def rbind_Inr_iff split: if_splits)

lemma check_pages_translation_only: "check_pages c v n x = Inr y \<Longrightarrow> translation_only x y"
  by (auto simp: check_pages_def Let_def rbind_Inr_iff split: if_splits dest!: get_physical_translation_only intro: translation_only_trans)

lemma check_only:
  "mem_check_exc_read v n x = Inr (r, y) \<Longrightarrow> translation_only x y"
  "mem_check_exc_write v n x = Inr (r, y) \<Longrightarrow> translation_only x y"
  "mem_check_exc_read_write v n x = Inr (r, y) \<Longrightarrow> translation_only x y"
  by (auto simp: mem_check_exc_read_def mem_check_exc_write_def mem_check_exc_read_write_def Let_def rbind_Inr_iff
    split: if_splits option.splits dest!: check_pages_translation_only)

lemma translation_same_arch: "translation_only (b_x s) y \<Longrightarrow> same_arch s (s\<lparr>b_x := y\<rparr>)"
  unfolding translation_only_def by (erule ssubst) (simp add: same_arch_def gen_reg_def)

lemma quiet_load:
  "(\<And>x r y. chk x = Inr (r, y) \<Longrightarrow> translation_only x y) \<Longrightarrow> quiet (on_x (checked_load chk ld))"
  by (auto simp: quiet_def on_x_def checked_load_def rbind_Inr_iff intro: translation_same_arch split: option.splits)

lemma precise_store:
  "(\<And>x r y. chk x = Inr (r, y) \<Longrightarrow> translation_only x y) \<Longrightarrow> precise (on_x (checked_store chk st))"
  by (auto simp: precise_def on_x_def checked_store_def rbind_Inr_iff intro: translation_same_arch split: option.splits)

lemma quiet_reads [part_rules]:
  "quiet (read_virtual_byte a)" "quiet (read_virtual_word a)" "quiet (read_virtual_dword a)" "quiet (read_virtual_qword a)"
  "quiet (read_RMW_virtual_byte a)" "quiet (read_RMW_virtual_word a)" "quiet (read_RMW_virtual_dword a)" "quiet (read_RMW_virtual_qword a)"
  unfolding read_virtual_byte_def read_virtual_word_def read_virtual_dword_def read_virtual_qword_def read_RMW_virtual_byte_def
    read_RMW_virtual_word_def read_RMW_virtual_dword_def read_RMW_virtual_qword_def mem_read_1_def mem_read_2_def mem_read_4_def
    mem_read_8_def mem_rmw_read_1_def mem_rmw_read_2_def mem_rmw_read_4_def mem_rmw_read_8_def
  by (rule quiet_load; rule check_only; assumption)+

lemma precise_writes [part_rules]:
  "precise (write_virtual_byte a u8)" "precise (write_virtual_word a u16)" "precise (write_virtual_dword a u32)" "precise (write_virtual_qword a u64)"
  unfolding write_virtual_byte_def write_virtual_word_def write_virtual_dword_def write_virtual_qword_def
    mem_write_1_def mem_write_2_def mem_write_4_def mem_write_8_def
  by (rule precise_store; rule check_only; assumption)+

lemma sure_RMW_writes [part_rules]:
  "sure (write_RMW_virtual_byte u8)" "sure (write_RMW_virtual_word u16)" "sure (write_RMW_virtual_dword u32)" "sure (write_RMW_virtual_qword u64)"
  by (simp_all add: write_RMW_virtual_byte_def write_RMW_virtual_word_def write_RMW_virtual_dword_def write_RMW_virtual_qword_def sure_parts)

lemma resolve_parts [part_rules]: "quiet (ResolveModrm i)" "sure (ResolveModrm i)"
  by (simp_all add: ResolveModrm_def sure_parts quiet_parts)

lemma last_parts [part_rules]:
  "precise (upd h)" "precise (flag_step st)" "precise (raise e)" "precise (ret x)"
  by (simp_all add: sure_precise quiet_precise sure_parts quiet_parts)

lemma precise_RMW_last [part_rules]:
  "precise (write_RMW_virtual_byte u8)" "precise (write_RMW_virtual_word u16)" "precise (write_RMW_virtual_dword u32)" "precise (write_RMW_virtual_qword u64)"
  by (simp_all add: sure_precise sure_RMW_writes)

section \<open>The instructions\<close>

definition arith8_instructions :: "(inst \<Rightarrow> unit exec) list" where
  "arith8_instructions =
    [ADD_EbGbM, ADD_GbEbR, ADD_ALIb, ADC_EbGbM, ADC_GbEbR, ADC_ALIb, SBB_EbGbM, SBB_GbEbR, SBB_ALIb, SBB_EbIbM, SBB_EbIbR,
     SUB_EbGbM, SUB_GbEbR, SUB_ALIb, CMP_EbGbM, CMP_GbEbR, CMP_ALIb, XADD_EbGbM, XADD_EbGbR, ADD_EbIbM, ADD_EbIbR,
     ADC_EbIbM, ADC_EbIbR, SUB_EbIbM, SUB_EbIbR, CMP_EbIbM, CMP_EbIbR, NEG_EbM, NEG_EbR, INC_EbM, INC_EbR, DEC_EbM, DEC_EbR,
     CMPXCHG_EbGbM, CMPXCHG_EbGbR]"

definition arith16_instructions :: "(inst \<Rightarrow> unit exec) list" where
  "arith16_instructions =
    [INC_RX, DEC_RX, ADD_EwGwM, ADD_GwEwR, ADD_AXIw, ADC_EwGwM, ADC_GwEwR, ADC_AXIw, SBB_EwGwM, SBB_GwEwR, SBB_AXIw,
     SBB_EwIwM, SBB_EwIwR, SUB_EwGwM, SUB_GwEwR, SUB_AXIw, CMP_EwGwM, CMP_GwEwR, CMP_AXIw, CBW, CWD, XADD_EwGwM, XADD_EwGwR,
     ADD_EwIwM, ADD_EwIwR, ADC_EwIwM, ADC_EwIwR, SUB_EwIwM, SUB_EwIwR, CMP_EwIwM, CMP_EwIwR, NEG_EwM, NEG_EwR, INC_EwM,
     DEC_EwM, CMPXCHG_EwGwM, CMPXCHG_EwGwR]"

definition arith32_instructions :: "(inst \<Rightarrow> unit exec) list" where
  "arith32_instructions =
    [INC_ERX, DEC_ERX, ADD_EdGdM, ADD_GdEdR, ADD_EAXId, ADC_EdGdM, ADC_GdEdR, ADC_EAXId, SBB_EdGdM, SBB_GdEdR, SBB_EAXId,
     SBB_EdIdM, SBB_EdIdR, SUB_EdGdM, SUB_GdEdR, SUB_EAXId, CMP_EdGdM, CMP_GdEdR, CMP_EAXId, CWDE, CDQ, CMPXCHG_XBTS,
     CMPXCHG_IBTS, XADD_EdGdM, XADD_EdGdR, ADD_EdIdM, ADD_EdIdR, ADC_EdIdM, ADC_EdIdR, SUB_EdIdM, SUB_EdIdR, CMP_EdIdM,
     CMP_EdIdR, NEG_EdM, NEG_EdR, INC_EdM, DEC_EdM, CMPXCHG_EdGdM, CMPXCHG_EdGdR, CMPXCHG8B]"

definition arith64_instructions :: "(inst \<Rightarrow> unit exec) list" where
  "arith64_instructions =
    [ADD_EqGqM, ADD_GqEqR, ADD_RAXId, ADC_EqGqM, ADC_GqEqR, ADC_RAXId, SBB_EqGqM, SBB_GqEqR, SBB_RAXId, SBB_EqIdM, SBB_EqIdR,
     SUB_EqGqM, SUB_GqEqR, SUB_RAXId, CMP_EqGqM, CMP_GqEqR, CMP_RAXId, CDQE, CQO, XADD_EqGqM, XADD_EqGqR, ADD_EqIdM,
     ADD_EqIdR, ADC_EqIdM, ADC_EqIdR, SUB_EqIdM, SUB_EqIdR, CMP_EqIdM, CMP_EqIdR, NEG_EqM, NEG_EqR, INC_EqM, INC_EqR,
     DEC_EqM, DEC_EqR, CMPXCHG_EqGqM, CMPXCHG_EqGqR]"

definition logical8_instructions :: "(inst \<Rightarrow> unit exec) list" where
  "logical8_instructions =
    [XOR_EbGbM, XOR_GbEbR, XOR_ALIb, XOR_EbIbM, XOR_EbIbR, OR_EbIbM, OR_EbIbR, NOT_EbM, NOT_EbR, OR_EbGbM, OR_GbEbR, OR_ALIb,
     AND_EbGbM, AND_GbEbR, AND_ALIb, AND_EbIbM, AND_EbIbR, TEST_EbGbR, TEST_ALIb, TEST_EbIbR]"

definition logical16_instructions :: "(inst \<Rightarrow> unit exec) list" where
  "logical16_instructions =
    [XOR_EwGwM, XOR_GwEwR, XOR_AXIw, XOR_EwIwM, XOR_EwIwR, OR_EwIwM, OR_EwIwR, NOT_EwM, NOT_EwR, OR_EwGwM, OR_GwEwR, OR_AXIw,
     AND_EwGwM, AND_GwEwR, AND_AXIw, AND_EwIwM, AND_EwIwR, TEST_EwGwR, TEST_AXIw, TEST_EwIwR]"

definition logical32_instructions :: "(inst \<Rightarrow> unit exec) list" where
  "logical32_instructions =
    [XOR_EdGdM, XOR_GdEdR, XOR_EAXId, XOR_EdIdM, XOR_EdIdR, OR_EdIdM, OR_EdIdR, NOT_EdM, NOT_EdR, OR_EdGdM, OR_GdEdR,
     OR_EAXId, AND_EdGdM, AND_GdEdR, AND_EAXId, AND_EdIdM, AND_EdIdR, TEST_EdGdR, TEST_EAXId, TEST_EdIdR]"

definition logical64_instructions :: "(inst \<Rightarrow> unit exec) list" where
  "logical64_instructions =
    [XOR_EqGqM, XOR_GqEqR, XOR_RAXId, XOR_EqIdM, XOR_EqIdR, OR_EqIdM, OR_EqIdR, NOT_EqM, NOT_EqR, OR_EqGqM, OR_GqEqR,
     OR_RAXId, AND_EqGqM, AND_GqEqR, AND_RAXId, AND_EqIdM, AND_EqIdR, TEST_EqGqR, TEST_RAXId, TEST_EqIdR]"

lemma precise_arith8: "list_all (\<lambda>f. precise (f i)) arith8_instructions"
  by (simp add: arith8_instructions_def part_rules Let_def ADD_EbGbM_def ADD_GbEbR_def ADD_ALIb_def ADC_EbGbM_def ADC_GbEbR_def ADC_ALIb_def SBB_EbGbM_def SBB_GbEbR_def SBB_ALIb_def SBB_EbIbM_def SBB_EbIbR_def SUB_EbGbM_def SUB_GbEbR_def SUB_ALIb_def CMP_EbGbM_def CMP_GbEbR_def CMP_ALIb_def XADD_EbGbM_def XADD_EbGbR_def ADD_EbIbM_def ADD_EbIbR_def ADC_EbIbM_def ADC_EbIbR_def SUB_EbIbM_def SUB_EbIbR_def CMP_EbIbM_def CMP_EbIbR_def NEG_EbM_def NEG_EbR_def INC_EbM_def INC_EbR_def DEC_EbM_def DEC_EbR_def CMPXCHG_EbGbM_def CMPXCHG_EbGbR_def)

lemma precise_arith16: "list_all (\<lambda>f. precise (f i)) arith16_instructions"
  by (simp add: arith16_instructions_def part_rules Let_def INC_RX_def DEC_RX_def ADD_EwGwM_def ADD_GwEwR_def ADD_AXIw_def ADC_EwGwM_def ADC_GwEwR_def ADC_AXIw_def SBB_EwGwM_def SBB_GwEwR_def SBB_AXIw_def SBB_EwIwM_def SBB_EwIwR_def SUB_EwGwM_def SUB_GwEwR_def SUB_AXIw_def CMP_EwGwM_def CMP_GwEwR_def CMP_AXIw_def CBW_def CWD_def XADD_EwGwM_def XADD_EwGwR_def ADD_EwIwM_def ADD_EwIwR_def ADC_EwIwM_def ADC_EwIwR_def SUB_EwIwM_def SUB_EwIwR_def CMP_EwIwM_def CMP_EwIwR_def NEG_EwM_def NEG_EwR_def INC_EwM_def DEC_EwM_def CMPXCHG_EwGwM_def CMPXCHG_EwGwR_def)

lemma precise_arith32: "list_all (\<lambda>f. precise (f i)) arith32_instructions"
  by (simp add: arith32_instructions_def part_rules Let_def INC_ERX_def DEC_ERX_def ADD_EdGdM_def ADD_GdEdR_def ADD_EAXId_def ADC_EdGdM_def ADC_GdEdR_def ADC_EAXId_def SBB_EdGdM_def SBB_GdEdR_def SBB_EAXId_def SBB_EdIdM_def SBB_EdIdR_def SUB_EdGdM_def SUB_GdEdR_def SUB_EAXId_def CMP_EdGdM_def CMP_GdEdR_def CMP_EAXId_def CWDE_def CDQ_def CMPXCHG_XBTS_def CMPXCHG_IBTS_def XADD_EdGdM_def XADD_EdGdR_def ADD_EdIdM_def ADD_EdIdR_def ADC_EdIdM_def ADC_EdIdR_def SUB_EdIdM_def SUB_EdIdR_def CMP_EdIdM_def CMP_EdIdR_def NEG_EdM_def NEG_EdR_def INC_EdM_def DEC_EdM_def CMPXCHG_EdGdM_def CMPXCHG_EdGdR_def CMPXCHG8B_def)

lemma precise_arith64: "list_all (\<lambda>f. precise (f i)) arith64_instructions"
  by (simp add: arith64_instructions_def part_rules Let_def ADD_EqGqM_def ADD_GqEqR_def ADD_RAXId_def ADC_EqGqM_def ADC_GqEqR_def ADC_RAXId_def SBB_EqGqM_def SBB_GqEqR_def SBB_RAXId_def SBB_EqIdM_def SBB_EqIdR_def SUB_EqGqM_def SUB_GqEqR_def SUB_RAXId_def CMP_EqGqM_def CMP_GqEqR_def CMP_RAXId_def CDQE_def CQO_def XADD_EqGqM_def XADD_EqGqR_def ADD_EqIdM_def ADD_EqIdR_def ADC_EqIdM_def ADC_EqIdR_def SUB_EqIdM_def SUB_EqIdR_def CMP_EqIdM_def CMP_EqIdR_def NEG_EqM_def NEG_EqR_def INC_EqM_def INC_EqR_def DEC_EqM_def DEC_EqR_def CMPXCHG_EqGqM_def CMPXCHG_EqGqR_def)

lemma precise_logical8: "list_all (\<lambda>f. precise (f i)) logical8_instructions"
  by (simp add: logical8_instructions_def part_rules Let_def XOR_EbGbM_def XOR_GbEbR_def XOR_ALIb_def XOR_EbIbM_def XOR_EbIbR_def OR_EbIbM_def OR_EbIbR_def NOT_EbM_def NOT_EbR_def OR_EbGbM_def OR_GbEbR_def OR_ALIb_def AND_EbGbM_def AND_GbEbR_def AND_ALIb_def AND_EbIbM_def AND_EbIbR_def TEST_EbGbR_def TEST_ALIb_def TEST_EbIbR_def)

lemma precise_logical16: "list_all (\<lambda>f. precise (f i)) logical16_instructions"
  by (simp add: logical16_instructions_def part_rules Let_def XOR_EwGwM_def XOR_GwEwR_def XOR_AXIw_def XOR_EwIwM_def XOR_EwIwR_def OR_EwIwM_def OR_EwIwR_def NOT_EwM_def NOT_EwR_def OR_EwGwM_def OR_GwEwR_def OR_AXIw_def AND_EwGwM_def AND_GwEwR_def AND_AXIw_def AND_EwIwM_def AND_EwIwR_def TEST_EwGwR_def TEST_AXIw_def TEST_EwIwR_def)

lemma precise_logical32: "list_all (\<lambda>f. precise (f i)) logical32_instructions"
  by (simp add: logical32_instructions_def part_rules Let_def XOR_EdGdM_def XOR_GdEdR_def XOR_EAXId_def XOR_EdIdM_def XOR_EdIdR_def OR_EdIdM_def OR_EdIdR_def NOT_EdM_def NOT_EdR_def OR_EdGdM_def OR_GdEdR_def OR_EAXId_def AND_EdGdM_def AND_GdEdR_def AND_EAXId_def AND_EdIdM_def AND_EdIdR_def TEST_EdGdR_def TEST_EAXId_def TEST_EdIdR_def)

lemma precise_logical64: "list_all (\<lambda>f. precise (f i)) logical64_instructions"
  by (simp add: logical64_instructions_def part_rules Let_def XOR_EqGqM_def XOR_GqEqR_def XOR_RAXId_def XOR_EqIdM_def XOR_EqIdR_def OR_EqIdM_def OR_EqIdR_def NOT_EqM_def NOT_EqR_def OR_EqGqM_def OR_GqEqR_def OR_RAXId_def AND_EqGqM_def AND_GqEqR_def AND_RAXId_def AND_EqIdM_def AND_EqIdR_def TEST_EqGqR_def TEST_RAXId_def TEST_EqIdR_def)

definition interpreter_instructions :: "(inst \<Rightarrow> unit exec) list" where
  "interpreter_instructions = arith8_instructions @ arith16_instructions @ arith32_instructions @ arith64_instructions
     @ logical8_instructions @ logical16_instructions @ logical32_instructions @ logical64_instructions"

lemma precise_instructions: "f \<in> set interpreter_instructions \<Longrightarrow> precise (f i)"
  using precise_arith8[of i] precise_arith16[of i] precise_arith32[of i] precise_arith64[of i]
    precise_logical8[of i] precise_logical16[of i] precise_logical32[of i] precise_logical64[of i]
  unfolding interpreter_instructions_def set_append list_all_iff by blast

text \<open>The forms that take their memory operand from a \<open>LOAD\<close>.\<close>

definition with_loads :: "(inst \<Rightarrow> unit exec) \<Rightarrow> (inst \<Rightarrow> unit exec) list" where
  "with_loads f = [f, LOAD_Eb f, LOAD_Ew f, LOAD_Ed f, LOAD_Eq f]"

lemma quiet_tmp: "(\<And>s. same_arch s (h s)) \<Longrightarrow> quiet (upd h)"
  by (auto simp: quiet_def upd_def)

lemma put_tmp_same: "same_arch s (put_gen_reg BX_TMP_REGISTER v s)"
  by (simp add: same_arch_def) (simp add: put_gen_reg_def BX_TMP_REGISTER_def BX_64BIT_REG_RIP_def set_gpr_def)

lemma quiet_tmp_writes [part_rules]:
  "quiet (upd (WRITE_8BIT_REGL BX_TMP_REGISTER b))" "quiet (upd (WRITE_16BIT_REG BX_TMP_REGISTER w))"
  "quiet (upd (WRITE_32BIT_LOW BX_TMP_REGISTER d))" "quiet (upd (WRITE_64BIT_REG BX_TMP_REGISTER q))"
  by (rule quiet_tmp;
    simp add: WRITE_8BIT_REGL_def WRITE_16BIT_REG_def WRITE_32BIT_LOW_def WRITE_64BIT_REG_def put_tmp_same)+

lemma precise_load:
  assumes "precise (f i)"
  shows "precise (LOAD_Eb f i)" "precise (LOAD_Ew f i)" "precise (LOAD_Ed f i)" "precise (LOAD_Eq f i)"
  unfolding LOAD_Eb_def LOAD_Ew_def LOAD_Ed_def LOAD_Eq_def
  by (intro precise_quiet_first parts_bseq(2) resolve_parts quiet_reads quiet_tmp_writes assms)+

lemma precise_loads: "(\<And>i. precise (f i)) \<Longrightarrow> g \<in> set (with_loads f) \<Longrightarrow> precise (g i)"
  using precise_load[of f i] unfolding with_loads_def by auto

lemma put_gen_reg_more [simp]:
  "x_msr (b_x (put_gen_reg r v s)) = x_msr (b_x s)" "x_cpl (b_x (put_gen_reg r v s)) = x_cpl (b_x s)"
  "x_int_enabled (b_x (put_gen_reg r v s)) = x_int_enabled (b_x s)"
  by (simp_all add: put_gen_reg_def set_gpr_def)

lemma exec_raises:
  assumes "bochs_exec_inst g i s = Inr (Inl e, t)" "precise (g i)"
  shows "same_arch (s\<lparr>b_speculative_rsp := False\<rparr>) t"
proof -
  let ?s0 = "s\<lparr>b_speculative_rsp := False\<rparr>"
  let ?s1 = "put_gen_reg BX_64BIT_REG_RIP (gen_reg BX_64BIT_REG_RIP ?s0 + ucast (i_ilen i)) ?s0"
  let ?undo = "\<lambda>u. put_gen_reg BX_64BIT_REG_RIP (gen_reg BX_64BIT_REG_RIP ?s0) u"
  obtain u where u: "g i ?s1 = Inr (Inl e, u)"
      "t = (if b_speculative_rsp (?undo u) then WRITE_64BIT_REG RSP (b_prev_rsp (?undo u)) (?undo u) else ?undo u)"
  proof (cases "g i ?s1")
    case (Inl x)
    then show ?thesis using assms(1) by (simp add: bochs_exec_inst_def)
  next
    case (Inr p)
    obtain r u where p: "p = (r, u)" by (cases p)
    show ?thesis
      using assms(1) Inr that[of u] unfolding bochs_exec_inst_def Let_def p by (cases r) (simp_all split: unit.splits)
  qed
  have same: "same_arch ?s1 u" using assms(2) u(1) by (simp add: precise_def)
  then have "\<not> b_speculative_rsp u" by (simp add: same_arch_def)
  then have t: "t = ?undo u" using u(2) by simp
  show ?thesis
    using same unfolding t same_arch_def gen_reg_put put_gen_reg_fields put_gen_reg_more by (simp split: if_splits) metis
qed

section \<open>The flags stay readable\<close>

definition keeps :: "'a exec \<Rightarrow> bool" where "keeps m \<longleftrightarrow> (\<forall>s r t. flags_ok s \<longrightarrow> m s = Inr (r, t) \<longrightarrow> flags_ok t)"

named_theorems keeps_rules

lemma keeps_bbind [keeps_rules]: "keeps m \<Longrightarrow> (\<And>x. keeps (f x)) \<Longrightarrow> keeps (bbind m f)"
  unfolding keeps_def bbind_outcome by blast

lemma keeps_bseq [keeps_rules]: "keeps m \<Longrightarrow> keeps k \<Longrightarrow> keeps (bseq m k)"
  by (simp add: bseq_def keeps_bbind)

lemma quiet_keeps: "quiet m \<Longrightarrow> keeps m"
  unfolding quiet_def keeps_def by (blast dest: same_arch_flags_ok)

lemma keeps_quiet_parts [keeps_rules]:
  "keeps (ret x)" "keeps (gets g)" "keeps (raise e)" "keeps (flag_value f)" "keeps (ResolveModrm i)"
  "keeps (read_virtual_byte a)" "keeps (read_virtual_word a)" "keeps (read_virtual_dword a)" "keeps (read_virtual_qword a)"
  "keeps (read_RMW_virtual_byte a)" "keeps (read_RMW_virtual_word a)" "keeps (read_RMW_virtual_dword a)" "keeps (read_RMW_virtual_qword a)"
  by (simp_all add: quiet_keeps quiet_parts resolve_parts quiet_reads)

lemma keeps_if [keeps_rules]: "keeps m \<Longrightarrow> keeps k \<Longrightarrow> keeps (if b then m else k)" by simp

lemma flags_ok_cong: "b_oszapc s = b_oszapc t \<Longrightarrow> b_status s = b_status t \<Longrightarrow> b_eflags s = b_eflags t \<Longrightarrow> flags_ok s = flags_ok t"
  unfolding flags_ok_def by (intro all_cong1 arg_cong[where f = is_ok] getB_cong) simp_all

lemma keeps_rmw [keeps_rules]:
  "keeps (write_RMW_virtual_byte u8)" "keeps (write_RMW_virtual_word u16)" "keeps (write_RMW_virtual_dword u32)" "keeps (write_RMW_virtual_qword u64)"
  unfolding write_RMW_virtual_byte_def write_RMW_virtual_word_def write_RMW_virtual_dword_def write_RMW_virtual_qword_def keeps_def rmw_def
    mem_rmw_write_1_def mem_rmw_write_2_def mem_rmw_write_4_def mem_rmw_write_8_def rmw_store_def
  by (auto simp: rbind_Inr_iff intro: flags_ok_cong[THEN iffD1, rotated 3])

lemma on_x_store:
  assumes "on_x (checked_store chk st) s = Inr (r, t)" "\<And>x r y. chk x = Inr (r, y) \<Longrightarrow> translation_only x y"
  shows "\<exists>y m. translation_only (b_x s) y \<and> t = s\<lparr>b_x := y\<lparr>x_mem := m\<rparr>\<rparr>"
proof -
  obtain e y where c: "chk (b_x s) = Inr (e, y)" and t: "t = s\<lparr>b_x := y\<rparr> \<or> (\<exists>m. t = s\<lparr>b_x := y\<lparr>x_mem := m\<rparr>\<rparr>)"
    using assms(1) by (auto simp: on_x_def checked_store_def rbind_Inr_iff split: option.splits)
  have "y = y\<lparr>x_mem := x_mem y\<rparr>" by simp
  then show ?thesis using assms(2)[OF c] t by metis
qed

lemma keeps_store: "(\<And>x r y. chk x = Inr (r, y) \<Longrightarrow> translation_only x y) \<Longrightarrow> keeps (on_x (checked_store chk st))"
  unfolding keeps_def
proof (intro allI impI)
  fix s r t assume a: "\<And>x r y. chk x = Inr (r, y) \<Longrightarrow> translation_only x y" "flags_ok s" "on_x (checked_store chk st) s = Inr (r, t)"
  obtain y m where t: "translation_only (b_x s) y" "t = s\<lparr>b_x := y\<lparr>x_mem := m\<rparr>\<rparr>" using on_x_store[OF a(3)] a(1) by blast
  have "flags_ok t = flags_ok s"
    unfolding t(2) by (rule flags_ok_cong) (use t(1) in \<open>simp_all add: translation_only_def\<close>, metis xcpu.select_convs(5) xcpu.surjective xcpu.update_convs(8,9))
  then show "flags_ok t" using a(2) by simp
qed

lemma keeps_writes [keeps_rules]:
  "keeps (write_virtual_byte a u8)" "keeps (write_virtual_word a u16)" "keeps (write_virtual_dword a u32)" "keeps (write_virtual_qword a u64)"
  unfolding write_virtual_byte_def write_virtual_word_def write_virtual_dword_def write_virtual_qword_def
    mem_write_1_def mem_write_2_def mem_write_4_def mem_write_8_def
  by (rule keeps_store; rule check_only; assumption)+

lemma keeps_flag_value [keeps_rules]:
  assumes "\<And>b. keeps (f (of_bool b))"
  shows "keeps (bbind (flag_value g) f)"
  unfolding keeps_def
proof (intro allI impI)
  fix s r t assume *: "flags_ok s" "bbind (flag_value g) f s = Inr (r, t)"
  obtain v where v: "getB g s = Inr v" using *(1) by (auto simp: flags_ok_def is_ok_iff)
  then have "f v s = Inr (r, t)" using *(2) by (simp add: bbind_def flag_value_def)
  moreover have "v = of_bool (getB g s = Inr 1)" using getB_bool[OF v] .
  ultimately show "flags_ok t" using assms[of "getB g s = Inr 1"] *(1) unfolding keeps_def by metis
qed

lemma ucast_of_bool [keeps_rules]: "(ucast (of_bool b :: u32) :: 'a::len word) = of_bool b"
  by (cases b) simp_all

lemma keeps_upd: "(\<And>s. flags_ok s \<Longrightarrow> flags_ok (h s)) \<Longrightarrow> keeps (upd h)"
  by (simp add: keeps_def upd_def)

lemma flags_ok_put [simp]: "flags_ok (put_gen_reg r v s) = flags_ok s"
  by (rule flags_ok_cong) simp_all

lemma keeps_registers [keeps_rules]:
  "keeps (upd (WRITE_8BIT_REGx r x b))" "keeps (upd (WRITE_8BIT_REGL r b))" "keeps (upd (WRITE_16BIT_REG r w))"
  "keeps (upd (WRITE_32BIT_REGZ r d))" "keeps (upd (WRITE_32BIT_LOW r d))" "keeps (upd (WRITE_64BIT_REG r q))" "keeps (upd (CLEAR_64BIT_HIGH r))"
  by (rule keeps_upd; simp add: WRITE_8BIT_REGx_def WRITE_8BIT_REGL_def WRITE_8BIT_REGH_def WRITE_16BIT_REG_def
    WRITE_32BIT_REGZ_def WRITE_32BIT_LOW_def WRITE_64BIT_REG_def CLEAR_64BIT_HIGH_def split: if_splits)+

lemma shows_ok: "shows_flags s fl \<Longrightarrow> flags_ok s" by (simp add: shows_flags_iff)

lemmas setters_ok = set_flags_add[THEN shows_ok] set_flags_sub[THEN shows_ok] set_flags_adc[THEN shows_ok] set_flags_sbb[THEN shows_ok]
  set_flags_logic[THEN shows_ok] set_flags_neg[THEN shows_ok]

lemma keeps_setters [keeps_rules]:
  "keeps (upd (SET_FLAGS_OSZAPC_ADD_8 b b' (b + b')))" "keeps (upd (SET_FLAGS_OSZAPC_ADD_16 w w' (w + w')))"
  "keeps (upd (SET_FLAGS_OSZAPC_ADD_32 d d' (d + d')))" "keeps (upd (SET_FLAGS_OSZAPC_ADD_64 q q' (q + q')))"
  "keeps (upd (SET_FLAGS_OSZAPC_SUB_8 b b' (b - b')))" "keeps (upd (SET_FLAGS_OSZAPC_SUB_16 w w' (w - w')))"
  "keeps (upd (SET_FLAGS_OSZAPC_SUB_32 d d' (d - d')))" "keeps (upd (SET_FLAGS_OSZAPC_SUB_64 q q' (q - q')))"
  "keeps (upd (SET_FLAGS_OSZAPC_SIZE b b' (b + b' + of_bool c) (BX_LF_INSTR_ADD_ADC8 (of_bool c))))"
  "keeps (upd (SET_FLAGS_OSZAPC_SIZE w w' (w + w' + of_bool c) (BX_LF_INSTR_ADD_ADC16 (of_bool c))))"
  "keeps (upd (SET_FLAGS_OSZAPC_SIZE d d' (d + d' + of_bool c) (BX_LF_INSTR_ADD_ADC32 (of_bool c))))"
  "keeps (upd (SET_FLAGS_OSZAPC_SIZE q q' (q + q' + of_bool c) (BX_LF_INSTR_ADD_ADC64 (of_bool c))))"
  "keeps (upd (SET_FLAGS_OSZAPC_SIZE b b' (b - (b' + of_bool c)) (BX_LF_INSTR_SUB_SBB8 (of_bool c))))"
  "keeps (upd (SET_FLAGS_OSZAPC_SIZE w w' (w - (w' + of_bool c)) (BX_LF_INSTR_SUB_SBB16 (of_bool c))))"
  "keeps (upd (SET_FLAGS_OSZAPC_SIZE d d' (d - (d' + of_bool c)) (BX_LF_INSTR_SUB_SBB32 (of_bool c))))"
  "keeps (upd (SET_FLAGS_OSZAPC_SIZE q q' (q - (q' + of_bool c)) (BX_LF_INSTR_SUB_SBB64 (of_bool c))))"
  "keeps (upd (SET_FLAGS_OSZAPC_LOGIC_8 b))" "keeps (upd (SET_FLAGS_OSZAPC_LOGIC_16 w))"
  "keeps (upd (SET_FLAGS_OSZAPC_LOGIC_32 d))" "keeps (upd (SET_FLAGS_OSZAPC_LOGIC_64 q))"
  "keeps (upd (SET_FLAGS_OSZAPC_RESULT_SIZE (- b) BX_LF_INSTR_NEG8))" "keeps (upd (SET_FLAGS_OSZAPC_RESULT_SIZE (- w) BX_LF_INSTR_NEG16))"
  "keeps (upd (SET_FLAGS_OSZAPC_RESULT_SIZE (- d) BX_LF_INSTR_NEG32))" "keeps (upd (SET_FLAGS_OSZAPC_RESULT_SIZE (- q) BX_LF_INSTR_NEG64))"
  by (rule keeps_upd; rule setters_ok)+

lemma keeps_one_flag [keeps_rules]: "keeps (upd (assert_aflag f))" "keeps (upd (clear_aflag f))"
  by (rule keeps_upd; simp add: flags_ok_def getB_assert_aflag getB_clear_aflag)+

lemma keeps_flag_step: "(\<And>s. flags_ok s \<Longrightarrow> \<exists>t. st s = Inr t \<and> flags_ok t) \<Longrightarrow> keeps (flag_step st)"
  unfolding keeps_def flag_step_def by (fastforce simp: rbind_Inr_iff)

lemma keeps_inc_dec [keeps_rules]:
  "keeps (flag_step (SET_FLAGS_OSZAPC_INC_8 (b + 1)))" "keeps (flag_step (SET_FLAGS_OSZAPC_INC_16 (w + 1)))"
  "keeps (flag_step (SET_FLAGS_OSZAPC_INC_32 (d + 1)))" "keeps (flag_step (SET_FLAGS_OSZAPC_INC_64 q))"
  "keeps (flag_step (SET_FLAGS_OSZAPC_DEC_8 (b - 1)))" "keeps (flag_step (SET_FLAGS_OSZAPC_DEC_16 (w - 1)))"
  "keeps (flag_step (SET_FLAGS_OSZAPC_DEC_32 (d - 1)))" "keeps (flag_step (SET_FLAGS_OSZAPC_DEC_64 (q - 1)))"
  by (rule keeps_flag_step; drule shows_self;
    metis set_flags_inc set_flags_dec shows_ok diff_add_cancel)+

lemma keeps_arith8: "list_all (\<lambda>f. keeps (f i)) arith8_instructions"
  by (simp add: arith8_instructions_def keeps_rules Let_def ADD_EbGbM_def ADD_GbEbR_def ADD_ALIb_def ADC_EbGbM_def ADC_GbEbR_def ADC_ALIb_def SBB_EbGbM_def SBB_GbEbR_def SBB_ALIb_def SBB_EbIbM_def SBB_EbIbR_def SUB_EbGbM_def SUB_GbEbR_def SUB_ALIb_def CMP_EbGbM_def CMP_GbEbR_def CMP_ALIb_def XADD_EbGbM_def XADD_EbGbR_def ADD_EbIbM_def ADD_EbIbR_def ADC_EbIbM_def ADC_EbIbR_def SUB_EbIbM_def SUB_EbIbR_def CMP_EbIbM_def CMP_EbIbR_def NEG_EbM_def NEG_EbR_def INC_EbM_def INC_EbR_def DEC_EbM_def DEC_EbR_def CMPXCHG_EbGbM_def CMPXCHG_EbGbR_def del: adc_codes)

lemma keeps_arith16: "list_all (\<lambda>f. keeps (f i)) arith16_instructions"
  by (simp add: arith16_instructions_def keeps_rules Let_def INC_RX_def DEC_RX_def ADD_EwGwM_def ADD_GwEwR_def ADD_AXIw_def ADC_EwGwM_def ADC_GwEwR_def ADC_AXIw_def SBB_EwGwM_def SBB_GwEwR_def SBB_AXIw_def SBB_EwIwM_def SBB_EwIwR_def SUB_EwGwM_def SUB_GwEwR_def SUB_AXIw_def CMP_EwGwM_def CMP_GwEwR_def CMP_AXIw_def CBW_def CWD_def XADD_EwGwM_def XADD_EwGwR_def ADD_EwIwM_def ADD_EwIwR_def ADC_EwIwM_def ADC_EwIwR_def SUB_EwIwM_def SUB_EwIwR_def CMP_EwIwM_def CMP_EwIwR_def NEG_EwM_def NEG_EwR_def INC_EwM_def DEC_EwM_def CMPXCHG_EwGwM_def CMPXCHG_EwGwR_def del: adc_codes)

lemma keeps_arith32: "list_all (\<lambda>f. keeps (f i)) arith32_instructions"
  by (simp add: arith32_instructions_def keeps_rules Let_def INC_ERX_def DEC_ERX_def ADD_EdGdM_def ADD_GdEdR_def ADD_EAXId_def ADC_EdGdM_def ADC_GdEdR_def ADC_EAXId_def SBB_EdGdM_def SBB_GdEdR_def SBB_EAXId_def SBB_EdIdM_def SBB_EdIdR_def SUB_EdGdM_def SUB_GdEdR_def SUB_EAXId_def CMP_EdGdM_def CMP_GdEdR_def CMP_EAXId_def CWDE_def CDQ_def CMPXCHG_XBTS_def CMPXCHG_IBTS_def XADD_EdGdM_def XADD_EdGdR_def ADD_EdIdM_def ADD_EdIdR_def ADC_EdIdM_def ADC_EdIdR_def SUB_EdIdM_def SUB_EdIdR_def CMP_EdIdM_def CMP_EdIdR_def NEG_EdM_def NEG_EdR_def INC_EdM_def DEC_EdM_def CMPXCHG_EdGdM_def CMPXCHG_EdGdR_def CMPXCHG8B_def del: adc_codes)

lemma keeps_arith64: "list_all (\<lambda>f. keeps (f i)) arith64_instructions"
  by (simp add: arith64_instructions_def keeps_rules Let_def ADD_EqGqM_def ADD_GqEqR_def ADD_RAXId_def ADC_EqGqM_def ADC_GqEqR_def ADC_RAXId_def SBB_EqGqM_def SBB_GqEqR_def SBB_RAXId_def SBB_EqIdM_def SBB_EqIdR_def SUB_EqGqM_def SUB_GqEqR_def SUB_RAXId_def CMP_EqGqM_def CMP_GqEqR_def CMP_RAXId_def CDQE_def CQO_def XADD_EqGqM_def XADD_EqGqR_def ADD_EqIdM_def ADD_EqIdR_def ADC_EqIdM_def ADC_EqIdR_def SUB_EqIdM_def SUB_EqIdR_def CMP_EqIdM_def CMP_EqIdR_def NEG_EqM_def NEG_EqR_def INC_EqM_def INC_EqR_def DEC_EqM_def DEC_EqR_def CMPXCHG_EqGqM_def CMPXCHG_EqGqR_def del: adc_codes)

lemma keeps_logical8: "list_all (\<lambda>f. keeps (f i)) logical8_instructions"
  by (simp add: logical8_instructions_def keeps_rules Let_def XOR_EbGbM_def XOR_GbEbR_def XOR_ALIb_def XOR_EbIbM_def XOR_EbIbR_def OR_EbIbM_def OR_EbIbR_def NOT_EbM_def NOT_EbR_def OR_EbGbM_def OR_GbEbR_def OR_ALIb_def AND_EbGbM_def AND_GbEbR_def AND_ALIb_def AND_EbIbM_def AND_EbIbR_def TEST_EbGbR_def TEST_ALIb_def TEST_EbIbR_def del: adc_codes)

lemma keeps_logical16: "list_all (\<lambda>f. keeps (f i)) logical16_instructions"
  by (simp add: logical16_instructions_def keeps_rules Let_def XOR_EwGwM_def XOR_GwEwR_def XOR_AXIw_def XOR_EwIwM_def XOR_EwIwR_def OR_EwIwM_def OR_EwIwR_def NOT_EwM_def NOT_EwR_def OR_EwGwM_def OR_GwEwR_def OR_AXIw_def AND_EwGwM_def AND_GwEwR_def AND_AXIw_def AND_EwIwM_def AND_EwIwR_def TEST_EwGwR_def TEST_AXIw_def TEST_EwIwR_def del: adc_codes)

lemma keeps_logical32: "list_all (\<lambda>f. keeps (f i)) logical32_instructions"
  by (simp add: logical32_instructions_def keeps_rules Let_def XOR_EdGdM_def XOR_GdEdR_def XOR_EAXId_def XOR_EdIdM_def XOR_EdIdR_def OR_EdIdM_def OR_EdIdR_def NOT_EdM_def NOT_EdR_def OR_EdGdM_def OR_GdEdR_def OR_EAXId_def AND_EdGdM_def AND_GdEdR_def AND_EAXId_def AND_EdIdM_def AND_EdIdR_def TEST_EdGdR_def TEST_EAXId_def TEST_EdIdR_def del: adc_codes)

lemma keeps_logical64: "list_all (\<lambda>f. keeps (f i)) logical64_instructions"
  by (simp add: logical64_instructions_def keeps_rules Let_def XOR_EqGqM_def XOR_GqEqR_def XOR_RAXId_def XOR_EqIdM_def XOR_EqIdR_def OR_EqIdM_def OR_EqIdR_def NOT_EqM_def NOT_EqR_def OR_EqGqM_def OR_GqEqR_def OR_RAXId_def AND_EqGqM_def AND_GqEqR_def AND_RAXId_def AND_EqIdM_def AND_EqIdR_def TEST_EqGqR_def TEST_RAXId_def TEST_EqIdR_def del: adc_codes)

lemma keeps_instructions: "f \<in> set interpreter_instructions \<Longrightarrow> keeps (f i)"
  using keeps_arith8[of i] keeps_arith16[of i] keeps_arith32[of i] keeps_arith64[of i]
    keeps_logical8[of i] keeps_logical16[of i] keeps_logical32[of i] keeps_logical64[of i]
  unfolding interpreter_instructions_def set_append list_all_iff by blast

lemma keeps_loads:
  assumes "keeps (f i)" "g \<in> set (with_loads f)"
  shows "keeps (g i)"
proof -
  have "keeps (LOAD_Eb f i)" "keeps (LOAD_Ew f i)" "keeps (LOAD_Ed f i)" "keeps (LOAD_Eq f i)"
    using assms(1) by (simp_all add: LOAD_Eb_def LOAD_Ew_def LOAD_Ed_def LOAD_Eq_def keeps_rules)
  then show ?thesis using assms unfolding with_loads_def by auto
qed

lemma exec_keeps:
  assumes "bochs_exec_inst g i s = Inr (r, t)" "keeps (g i)" "flags_ok s"
  shows "flags_ok t"
proof -
  let ?s0 = "s\<lparr>b_speculative_rsp := False\<rparr>"
  let ?s1 = "put_gen_reg BX_64BIT_REG_RIP (gen_reg BX_64BIT_REG_RIP ?s0 + ucast (i_ilen i)) ?s0"
  have "flags_ok ?s0 = flags_ok s" by (rule flags_ok_cong) simp_all
  then have ok: "flags_ok ?s1" using assms(3) by simp
  show ?thesis
  proof (cases "g i ?s1")
    case (Inl x)
    then show ?thesis using assms(1) by (simp add: bochs_exec_inst_def)
  next
    case (Inr p)
    obtain q u where p: "p = (q, u)" by (cases p)
    have u: "flags_ok u" using assms(2) ok Inr unfolding keeps_def p by blast
    show ?thesis
      using assms(1) Inr u unfolding bochs_exec_inst_def Let_def p
      by (cases q) (auto simp: WRITE_64BIT_REG_def split: if_splits unit.splits)
  qed
qed

definition run_all :: "((inst \<Rightarrow> unit exec) \<times> inst) list \<Rightarrow> bcpu \<Rightarrow> bcpu res" where
  "run_all = rfold (\<lambda>(g, i) s. rbind (bochs_exec_inst g i s) (\<lambda>(_, t). Inr t))"

lemma run_all_keeps:
  "list_all (\<lambda>(g, i). keeps (g i)) prog \<Longrightarrow> flags_ok s \<Longrightarrow> run_all prog s = Inr t \<Longrightarrow> flags_ok t"
proof (induction prog arbitrary: s)
  case (Cons p prog)
  obtain g i where p: "p = (g, i)" by (cases p)
  then obtain r u where "bochs_exec_inst g i s = Inr (r, u)" "run_all prog u = Inr t"
    using Cons.prems(3) by (auto simp: run_all_def rbind_Inr_iff)
  then show ?case using Cons.IH[of u] Cons.prems(1,2) exec_keeps p by auto
qed (simp add: run_all_def)

section \<open>The properties\<close>



section \<open>Examples\<close>

definition demo_inst :: inst where
  "demo_inst = \<lparr>i_resolve = BxResolve64Base, i_b1 = 0, i_ilen = 2, i_info1 = 0, i_seg = 0, i_nnn = 0, i_rm = 1, i_base = 2, i_index = 0,
     i_scale = 0, i_modrm = 0, i_data = 0\<rparr>"

lemma demo_raises:
  "case bochs_exec_inst ADD_EdGdM (demo_inst\<lparr>i_data := 0x4000000000000000\<rparr>) demo_bcpu of
     Inr (Inl e, t) \<Rightarrow> e = 0x4000000E | _ \<Rightarrow> False"
  by code_simp


lemma demo_runs: "is_ok (run_all [(ADC_EbGbM, demo_inst), (CMPXCHG8B, demo_inst), (LOAD_Eb SBB_GbEbR, demo_inst)] demo_bcpu)"
  by code_simp


end
