(* ===== verification/Bochs_Alu_Spec.thy ===== *)
theory Bochs_Alu_Spec
  imports Bochs_Precise
begin

text \<open>
  What the arithmetic and logical instructions compute: one specification for every operation, operand form and width. The
  tables name, for each instruction, the operation, the place of the first operand and the second operand; the theorems say
  that the instruction writes the result there, leaves all six flags of the operation behind, and changes nothing else.
\<close>

unbundle bit_operations_syntax

section \<open>Operations\<close>

datatype alu = Add | Adc | Sub | Sbb | And | Or | Xor | Cmp | Test | Inc | Dec | Neg | Not

definition alu_result :: "alu \<Rightarrow> bool \<Rightarrow> 'a::len word \<Rightarrow> 'a word \<Rightarrow> 'a word" where
  "alu_result op c a b = (case op of Add \<Rightarrow> a + b | Adc \<Rightarrow> a + b + of_bool c | Sub \<Rightarrow> a - b | Sbb \<Rightarrow> a - (b + of_bool c)
     | And \<Rightarrow> a AND b | Or \<Rightarrow> a OR b | Xor \<Rightarrow> a XOR b | Cmp \<Rightarrow> a - b | Test \<Rightarrow> a AND b
     | Inc \<Rightarrow> a + 1 | Dec \<Rightarrow> a - 1 | Neg \<Rightarrow> - a | Not \<Rightarrow> NOT a)"

text \<open>\<open>INC\<close> and \<open>DEC\<close> keep the carry, \<open>NOT\<close> keeps every flag; \<open>fl\<close> are the flags before.\<close>

definition alu_flags :: "alu \<Rightarrow> (aflag \<Rightarrow> bool) \<Rightarrow> 'a::len word \<Rightarrow> 'a word \<Rightarrow> aflag \<Rightarrow> bool" where
  "alu_flags op fl a b = (case op of Add \<Rightarrow> add_flags a b False | Adc \<Rightarrow> add_flags a b (fl CF) | Sub \<Rightarrow> sub_flags a b False
     | Sbb \<Rightarrow> sub_flags a b (fl CF) | Cmp \<Rightarrow> sub_flags a b False
     | Inc \<Rightarrow> (add_flags a 1 False)(CF := fl CF) | Dec \<Rightarrow> (sub_flags a 1 False)(CF := fl CF)
     | Neg \<Rightarrow> sub_flags 0 a False | Not \<Rightarrow> fl
     | _ \<Rightarrow> logic_flags (alu_result op (fl CF) a b))"

definition alu_writes :: "alu \<Rightarrow> bool" where "alu_writes op \<longleftrightarrow> op \<noteq> Cmp \<and> op \<noteq> Test"

lemma alu_writes_simps [simp]:
  "alu_writes Add" "alu_writes Adc" "alu_writes Sub" "alu_writes Sbb" "alu_writes And" "alu_writes Or" "alu_writes Xor"
  "\<not> alu_writes Cmp" "\<not> alu_writes Test" "alu_writes Inc" "alu_writes Dec" "alu_writes Neg" "alu_writes Not"
  by (simp_all add: alu_writes_def)

definition same_but_flags :: "bcpu \<Rightarrow> bcpu \<Rightarrow> bool" where
  "same_but_flags s t \<longleftrightarrow> (b_x s)\<lparr>x_eflags := 0\<rparr> = (b_x t)\<lparr>x_eflags := 0\<rparr> \<and> b_speculative_rsp s = b_speculative_rsp t
     \<and> b_prev_rsp s = b_prev_rsp t \<and> b_eflags s AND NOT EFlagsOSZAPCMask = b_eflags t AND NOT EFlagsOSZAPCMask"

lemma same_but_flags_refl [simp]: "same_but_flags s s" by (simp add: same_but_flags_def)

type_synonym 'a place = "(bcpu \<Rightarrow> 'a word) \<times> ('a word \<Rightarrow> bcpu \<Rightarrow> bcpu)"

text \<open>An instruction on a register: it always ends, without exception.\<close>

definition performs :: "alu \<Rightarrow> 'a::len place \<Rightarrow> (bcpu \<Rightarrow> 'a word) \<Rightarrow> unit exec \<Rightarrow> bool" where
  "performs op p src m \<longleftrightarrow> (\<forall>s. flags_ok s \<longrightarrow>
     (\<exists>t. m s = Inr (Inr (), t) \<and> shows_flags t (alu_flags op (flags_of s) (fst p s) (src s))
        \<and> same_but_flags t (if alu_writes op then snd p (alu_result op (flags_of s CF) (fst p s) (src s)) s else s)))"

text \<open>
  An instruction on memory: what the access gives is the first operand, and its exception the instruction's; the result
  goes through the second half of the access. The comparison reads without the right to write.
\<close>

definition performs_mem ::
  "alu \<Rightarrow> (u64 \<Rightarrow> 'a::len word exec) \<Rightarrow> (u64 \<Rightarrow> 'a word exec) \<Rightarrow> ('a word \<Rightarrow> unit exec) \<Rightarrow> (bcpu \<Rightarrow> u64) \<Rightarrow> (bcpu \<Rightarrow> 'a word) \<Rightarrow> unit exec \<Rightarrow> bool" where
  "performs_mem op rdw rd wr addr src m \<longleftrightarrow> (\<forall>s. flags_ok s \<longrightarrow>
     (case (if alu_writes op then rdw else rd) (addr s) s of
        Inl x \<Rightarrow> m s = Inl x
      | Inr (Inl e, s1) \<Rightarrow> m s = Inr (Inl e, s1)
      | Inr (Inr a, s1) \<Rightarrow>
          (case (if alu_writes op then wr (alu_result op (flags_of s CF) a (src s)) else ret ()) s1 of
             Inl x \<Rightarrow> m s = Inl x
           | Inr (_, s2) \<Rightarrow> \<exists>t. m s = Inr (Inr (), t) \<and> shows_flags t (alu_flags op (flags_of s) a (src s)) \<and> same_but_flags t s2)))"

section \<open>Setting the flags\<close>

lemma flag_value_ok: "flags_ok s \<Longrightarrow> flag_value f s = Inr (Inr (of_bool (flags_of s f)), s)"
  using shows_self[of s] by (simp add: flag_value_def shows_flags_def)

lemma same_SIZE: "same_but_flags (SET_FLAGS_OSZAPC_SIZE a b r ins s) s" "same_but_flags (SET_FLAGS_OSZAPC_RESULT_SIZE r ins s) s"
  by (simp_all add: same_but_flags_def SET_FLAGS_OSZAPC_SIZE_def SET_FLAGS_OSZAPC_RESULT_SIZE_def)

lemma same_setters:
  "same_but_flags (SET_FLAGS_OSZAPC_ADD_8 b b' b'' s) s" "same_but_flags (SET_FLAGS_OSZAPC_ADD_16 w w' w'' s) s"
  "same_but_flags (SET_FLAGS_OSZAPC_ADD_32 d d' d'' s) s" "same_but_flags (SET_FLAGS_OSZAPC_ADD_64 q q' q'' s) s"
  "same_but_flags (SET_FLAGS_OSZAPC_SUB_8 b b' b'' s) s" "same_but_flags (SET_FLAGS_OSZAPC_SUB_16 w w' w'' s) s"
  "same_but_flags (SET_FLAGS_OSZAPC_SUB_32 d d' d'' s) s" "same_but_flags (SET_FLAGS_OSZAPC_SUB_64 q q' q'' s) s"
  "same_but_flags (SET_FLAGS_OSZAPC_LOGIC_8 b s) s" "same_but_flags (SET_FLAGS_OSZAPC_LOGIC_16 w s) s"
  "same_but_flags (SET_FLAGS_OSZAPC_LOGIC_32 d s) s" "same_but_flags (SET_FLAGS_OSZAPC_LOGIC_64 q s) s"
  by (simp_all add: same_SIZE SET_FLAGS_OSZAPC_ADD_8_def SET_FLAGS_OSZAPC_ADD_16_def SET_FLAGS_OSZAPC_ADD_32_def SET_FLAGS_OSZAPC_ADD_64_def
    SET_FLAGS_OSZAPC_SUB_8_def SET_FLAGS_OSZAPC_SUB_16_def SET_FLAGS_OSZAPC_SUB_32_def SET_FLAGS_OSZAPC_SUB_64_def
    SET_FLAGS_OSZAPC_LOGIC_8_def SET_FLAGS_OSZAPC_LOGIC_16_def SET_FLAGS_OSZAPC_LOGIC_32_def SET_FLAGS_OSZAPC_LOGIC_64_def)

lemma carry_outside: "(x AND NOT 1 OR of_bool b) AND NOT EFlagsOSZAPCMask = x AND NOT EFlagsOSZAPCMask" for x :: u32
proof (rule bit_word_eqI)
  fix n assume "n < LENGTH(32)"
  then show "bit ((x AND NOT 1 OR of_bool b) AND NOT EFlagsOSZAPCMask) n = bit (x AND NOT EFlagsOSZAPCMask) n"
    by (cases n) (simp_all add: EFlagsOSZAPCMask_def bit_simps)
qed

lemma same_OSZAP:
  assumes "SET_FLAGS_OSZAP_RESULT_SIZE r ins s = Inr t"
  shows "same_but_flags t s"
proof -
  obtain u where u: "force_aflag CF s = Inr u" and t: "t = u\<lparr>b_oszapc := (b_oszapc u)\<lparr>lf_result := scast r, lf_instr := ins\<rparr>, b_status := EFlagsOSZAPMask\<rparr>"
    using assms by (auto simp: SET_FLAGS_OSZAP_RESULT_SIZE_def rbind_Inr_iff)
  have "same_but_flags u s"
    using u by (auto simp: force_aflag_def same_but_flags_def set_aflag_def put_eflags_def rbind_Inr_iff lf_mask_def
      carry_outside[where b = True, simplified] carry_outside[where b = False, simplified] split: if_splits)
  then show ?thesis by (simp add: same_but_flags_def t)
qed

text \<open>The state after a step of the flags that cannot fail.\<close>

definition stepped :: "(bcpu \<Rightarrow> bcpu res) \<Rightarrow> bcpu \<Rightarrow> bcpu" where "stepped st s = (case st s of Inr t \<Rightarrow> t | Inl _ \<Rightarrow> s)"

lemma stepped_inc_dec:
  assumes "flags_ok s"
  shows "flag_step (SET_FLAGS_OSZAPC_INC_8 (b + 1)) s = Inr (Inr (), stepped (SET_FLAGS_OSZAPC_INC_8 (b + 1)) s)"
    "flag_step (SET_FLAGS_OSZAPC_INC_16 (w + 1)) s = Inr (Inr (), stepped (SET_FLAGS_OSZAPC_INC_16 (w + 1)) s)"
    "flag_step (SET_FLAGS_OSZAPC_INC_32 (d + 1)) s = Inr (Inr (), stepped (SET_FLAGS_OSZAPC_INC_32 (d + 1)) s)"
    "flag_step (SET_FLAGS_OSZAPC_INC_64 (q + 1)) s = Inr (Inr (), stepped (SET_FLAGS_OSZAPC_INC_64 (q + 1)) s)"
    "flag_step (SET_FLAGS_OSZAPC_DEC_8 (b - 1)) s = Inr (Inr (), stepped (SET_FLAGS_OSZAPC_DEC_8 (b - 1)) s)"
    "flag_step (SET_FLAGS_OSZAPC_DEC_16 (w - 1)) s = Inr (Inr (), stepped (SET_FLAGS_OSZAPC_DEC_16 (w - 1)) s)"
    "flag_step (SET_FLAGS_OSZAPC_DEC_32 (d - 1)) s = Inr (Inr (), stepped (SET_FLAGS_OSZAPC_DEC_32 (d - 1)) s)"
    "flag_step (SET_FLAGS_OSZAPC_DEC_64 (q - 1)) s = Inr (Inr (), stepped (SET_FLAGS_OSZAPC_DEC_64 (q - 1)) s)"
    "c = flags_of s CF \<Longrightarrow> shows_flags (stepped (SET_FLAGS_OSZAPC_INC_8 (b + 1)) s) ((add_flags b 1 False)(CF := c))"
    "c = flags_of s CF \<Longrightarrow> shows_flags (stepped (SET_FLAGS_OSZAPC_INC_16 (w + 1)) s) ((add_flags w 1 False)(CF := c))"
    "c = flags_of s CF \<Longrightarrow> shows_flags (stepped (SET_FLAGS_OSZAPC_INC_32 (d + 1)) s) ((add_flags d 1 False)(CF := c))"
    "c = flags_of s CF \<Longrightarrow> shows_flags (stepped (SET_FLAGS_OSZAPC_INC_64 (q + 1)) s) ((add_flags q 1 False)(CF := c))"
    "c = flags_of s CF \<Longrightarrow> shows_flags (stepped (SET_FLAGS_OSZAPC_DEC_8 (b - 1)) s) ((sub_flags b 1 False)(CF := c))"
    "c = flags_of s CF \<Longrightarrow> shows_flags (stepped (SET_FLAGS_OSZAPC_DEC_16 (w - 1)) s) ((sub_flags w 1 False)(CF := c))"
    "c = flags_of s CF \<Longrightarrow> shows_flags (stepped (SET_FLAGS_OSZAPC_DEC_32 (d - 1)) s) ((sub_flags d 1 False)(CF := c))"
    "c = flags_of s CF \<Longrightarrow> shows_flags (stepped (SET_FLAGS_OSZAPC_DEC_64 (q - 1)) s) ((sub_flags q 1 False)(CF := c))"
  using set_flags_inc(1)[OF shows_self[OF assms], of b]
    set_flags_inc(2)[OF shows_self[OF assms], of w]
    set_flags_inc(3)[OF shows_self[OF assms], of d]
    set_flags_inc(4)[OF shows_self[OF assms], of q]
    set_flags_dec(1)[OF shows_self[OF assms], of b]
    set_flags_dec(2)[OF shows_self[OF assms], of w]
    set_flags_dec(3)[OF shows_self[OF assms], of d]
    set_flags_dec(4)[OF shows_self[OF assms], of q]
  by (auto simp: stepped_def flag_step_def)

lemma same_stepped: "(\<And>t. st s = Inr t \<Longrightarrow> same_but_flags t s) \<Longrightarrow> same_but_flags (stepped st s) s"
  by (simp add: stepped_def split: sum.splits)

lemma same_inc_dec:
  "same_but_flags (stepped (SET_FLAGS_OSZAPC_INC_8 b) s) s" "same_but_flags (stepped (SET_FLAGS_OSZAPC_INC_16 w) s) s"
  "same_but_flags (stepped (SET_FLAGS_OSZAPC_INC_32 d) s) s" "same_but_flags (stepped (SET_FLAGS_OSZAPC_INC_64 q) s) s"
  "same_but_flags (stepped (SET_FLAGS_OSZAPC_DEC_8 b) s) s" "same_but_flags (stepped (SET_FLAGS_OSZAPC_DEC_16 w) s) s"
  "same_but_flags (stepped (SET_FLAGS_OSZAPC_DEC_32 d) s) s" "same_but_flags (stepped (SET_FLAGS_OSZAPC_DEC_64 q) s) s"
  by (rule same_stepped; simp add: SET_FLAGS_OSZAPC_INC_8_def SET_FLAGS_OSZAPC_INC_16_def SET_FLAGS_OSZAPC_INC_32_def SET_FLAGS_OSZAPC_INC_64_def
    SET_FLAGS_OSZAPC_DEC_8_def SET_FLAGS_OSZAPC_DEC_16_def SET_FLAGS_OSZAPC_DEC_32_def SET_FLAGS_OSZAPC_DEC_64_def same_OSZAP)+

section \<open>Registers\<close>

definition part8 :: "nat \<Rightarrow> inst \<Rightarrow> 8 place" where "part8 r i = (READ_8BIT_REGx r (extend8bitL i), WRITE_8BIT_REGx r (extend8bitL i))"
definition part16 :: "nat \<Rightarrow> inst \<Rightarrow> 16 place" where "part16 r i = (READ_16BIT_REG r, WRITE_16BIT_REG r)"
definition part32 :: "nat \<Rightarrow> inst \<Rightarrow> 32 place" where "part32 r i = (READ_32BIT_REG r, WRITE_32BIT_REGZ r)"
definition part64 :: "nat \<Rightarrow> inst \<Rightarrow> 64 place" where "part64 r i = (READ_64BIT_REG r, WRITE_64BIT_REG r)"

lemma getB_put: "getB f (put_gen_reg r v s) = getB f s" by (rule getB_cong) simp_all

lemma flags_of_put [simp]: "flags_of (put_gen_reg r v s) = flags_of s"
  by (simp add: flags_of_def fun_eq_iff getB_put)

lemmas writes_def = WRITE_8BIT_REGx_def WRITE_8BIT_REGL_def WRITE_8BIT_REGH_def WRITE_16BIT_REG_def WRITE_32BIT_REGZ_def
  WRITE_32BIT_LOW_def WRITE_64BIT_REG_def CLEAR_64BIT_HIGH_def

lemma flags_written:
  "flags_of (WRITE_8BIT_REGx r x b s) = flags_of s" "flags_of (WRITE_16BIT_REG r w s) = flags_of s"
  "flags_of (WRITE_32BIT_REGZ r d s) = flags_of s" "flags_of (WRITE_32BIT_LOW r d s) = flags_of s" "flags_of (WRITE_64BIT_REG r q s) = flags_of s"
  "flags_ok (WRITE_8BIT_REGx r x b s) = flags_ok s" "flags_ok (WRITE_16BIT_REG r w s) = flags_ok s"
  "flags_ok (WRITE_32BIT_REGZ r d s) = flags_ok s" "flags_ok (WRITE_32BIT_LOW r d s) = flags_ok s" "flags_ok (WRITE_64BIT_REG r q s) = flags_ok s"
  by (simp_all add: writes_def)

lemma shows_written:
  assumes "flags_ok s"
  shows "shows_flags (WRITE_8BIT_REGx r x b s) (flags_of s)" "shows_flags (WRITE_16BIT_REG r w s) (flags_of s)"
    "shows_flags (WRITE_32BIT_REGZ r d s) (flags_of s)" "shows_flags (WRITE_64BIT_REG r q s) (flags_of s)"
  using assms by (simp_all add: shows_flags_iff flags_written)

text \<open>A 32-bit increment of the old encoding writes the low half and clears the high one behind the flags.\<close>

definition clear_high :: "nat \<Rightarrow> xcpu \<Rightarrow> xcpu" where
  "clear_high r x = (if r = BX_64BIT_REG_RIP then x\<lparr>x_rip := x_rip x AND 0xFFFFFFFF\<rparr> else set_gpr r (x_gpr x r AND 0xFFFFFFFF) x)"

lemma clear_high_eflags: "(clear_high r x)\<lparr>x_eflags := v\<rparr> = clear_high r (x\<lparr>x_eflags := v\<rparr>)"
  by (simp add: clear_high_def set_gpr_def)

lemma x_eflags_clear_high: "x_eflags (clear_high r x) = x_eflags x"
  by (simp add: clear_high_def set_gpr_def)

lemma CLEAR_clear_high: "CLEAR_64BIT_HIGH r s = s\<lparr>b_x := clear_high r (b_x s)\<rparr>"
  by (simp add: CLEAR_64BIT_HIGH_def put_gen_reg_def gen_reg_def clear_high_def)

lemma clear_low: "CLEAR_64BIT_HIGH r (WRITE_32BIT_LOW r v s) = WRITE_32BIT_REGZ r v s"
proof -
  have "(g AND NOT 0xFFFFFFFF OR ucast v) AND 0xFFFFFFFF = (ucast v :: u64)" for g :: u64
    unfolding masks by (rule bit_word_eqI) (auto simp: bit_simps dest: bit_imp_le_length)
  then have "gen_reg r (WRITE_32BIT_LOW r v s) AND 0xFFFFFFFF = ucast v" unfolding WRITE_32BIT_LOW_def gen_reg_put by simp
  then show ?thesis
    by (simp add: CLEAR_64BIT_HIGH_def WRITE_32BIT_REGZ_def) (simp add: WRITE_32BIT_LOW_def put_gen_reg_def set_gpr_def)
qed

lemma clear_high_same:
  assumes "same_but_flags t (WRITE_32BIT_LOW r v s)"
  shows "same_but_flags (CLEAR_64BIT_HIGH r t) (WRITE_32BIT_REGZ r v s)"
  using assms unfolding clear_low[symmetric] same_but_flags_def
  by (simp add: CLEAR_clear_high clear_high_eflags x_eflags_clear_high)

lemma shows_cleared: "shows_flags (CLEAR_64BIT_HIGH r t) fl = shows_flags t fl"
  by (simp add: shows_flags_iff CLEAR_64BIT_HIGH_def)

lemma same_SIZE_32: "WRITE_64BIT_REG r (ucast (d :: u32)) = WRITE_32BIT_REGZ r d"
  by (simp add: WRITE_64BIT_REG_def WRITE_32BIT_REGZ_def)

lemmas register_simps = performs_def bbind_def bseq_def gets_def upd_def flag_value_ok alu_result_def alu_flags_def
  part8_def part16_def part32_def part64_def set_flags_add set_flags_sub set_flags_adc set_flags_sbb set_flags_logic set_flags_neg
  same_SIZE same_setters stepped_inc_dec same_inc_dec Let_def same_SIZE_32 ucast_of_bool flags_written shows_written shows_self

lemma inc_ERX: "performs Inc (part32 (i_rm i) i) (\<lambda>_. 0) (INC_ERX i)"
  by (simp add: INC_ERX_def register_simps shows_cleared clear_high_same)

lemma dec_ERX: "performs Dec (part32 (i_rm i) i) (\<lambda>_. 0) (DEC_ERX i)"
  by (simp add: DEC_ERX_def register_simps shows_cleared clear_high_same)

section \<open>Memory\<close>

definition calm :: "bcpu \<Rightarrow> bcpu \<Rightarrow> bool" where "calm s t \<longleftrightarrow> (\<exists>y. translation_only (b_x s) y \<and> t = s\<lparr>b_x := y\<rparr>)"

definition calming :: "'a exec \<Rightarrow> bool" where "calming m \<longleftrightarrow> (\<forall>s r t. m s = Inr (r, t) \<longrightarrow> calm s t)"

definition only_writes :: "unit exec \<Rightarrow> bool" where
  "only_writes m \<longleftrightarrow> (\<forall>s r t. m s = Inr (r, t) \<longrightarrow> r = Inr () \<and> (\<exists>mem. t = s\<lparr>b_x := (b_x s)\<lparr>x_mem := mem\<rparr>\<rparr>))"

lemma translation_only_fields:
  "translation_only x y \<Longrightarrow> x_gpr y = x_gpr x \<and> x_rip y = x_rip x \<and> x_eflags y = x_eflags x"
  by (cases x; cases y) (simp add: translation_only_def)

lemma calm_gen_reg: "calm s t \<Longrightarrow> gen_reg r t = gen_reg r s"
  by (auto simp: calm_def gen_reg_def dest: translation_only_fields)

lemma calm_reads:
  "calm s t \<Longrightarrow> READ_8BIT_REGx r x t = READ_8BIT_REGx r x s" "calm s t \<Longrightarrow> READ_16BIT_REG r t = READ_16BIT_REG r s"
  "calm s t \<Longrightarrow> READ_32BIT_REG r t = READ_32BIT_REG r s" "calm s t \<Longrightarrow> READ_64BIT_REG r t = READ_64BIT_REG r s"
  by (simp_all add: READ_8BIT_REGx_def READ_8BIT_REGL_def READ_8BIT_REGH_def READ_16BIT_REG_def READ_32BIT_REG_def READ_64BIT_REG_def calm_gen_reg)

lemma flags_cong:
  assumes "b_oszapc s = b_oszapc t" "b_status s = b_status t" "b_eflags s = b_eflags t"
  shows "flags_ok s = flags_ok t" "flags_of s = flags_of t"
proof -
  have "getB f s = getB f t" for f by (rule getB_cong) (simp_all add: assms)
  then show "flags_ok s = flags_ok t" "flags_of s = flags_of t" by (simp_all add: flags_ok_def flags_of_def fun_eq_iff)
qed

lemma calm_flags:
  assumes "calm s t"
  shows "flags_ok t = flags_ok s" "flags_of t = flags_of s"
proof -
  obtain y where "translation_only (b_x s) y" "t = s\<lparr>b_x := y\<rparr>" using assms by (auto simp: calm_def)
  then have "b_oszapc t = b_oszapc s" "b_status t = b_status s" "b_eflags t = b_eflags s" using translation_only_fields by auto
  then show "flags_ok t = flags_ok s" "flags_of t = flags_of s" by (rule flags_cong)+
qed

lemma calmI: "translation_only (b_x s) y \<Longrightarrow> calm s (s\<lparr>b_x := y\<rparr>)" by (auto simp: calm_def)

lemma calming_load:
  "(\<And>x r y. chk x = Inr (r, y) \<Longrightarrow> translation_only x y) \<Longrightarrow> calming (on_x (checked_load chk ld))"
  by (auto simp: calming_def on_x_def checked_load_def rbind_Inr_iff intro: calmI split: option.splits)

lemma calming_reads [simp]:
  "calming (read_virtual_byte a)" "calming (read_virtual_word a)" "calming (read_virtual_dword a)" "calming (read_virtual_qword a)"
  "calming (read_RMW_virtual_byte a)" "calming (read_RMW_virtual_word a)" "calming (read_RMW_virtual_dword a)" "calming (read_RMW_virtual_qword a)"
  unfolding read_virtual_byte_def read_virtual_word_def read_virtual_dword_def read_virtual_qword_def read_RMW_virtual_byte_def
    read_RMW_virtual_word_def read_RMW_virtual_dword_def read_RMW_virtual_qword_def mem_read_1_def mem_read_2_def mem_read_4_def
    mem_read_8_def mem_rmw_read_1_def mem_rmw_read_2_def mem_rmw_read_4_def mem_rmw_read_8_def
  by (rule calming_load; rule check_only; assumption)+

lemma only_writes_RMW [simp]:
  "only_writes (write_RMW_virtual_byte u8)" "only_writes (write_RMW_virtual_word u16)" "only_writes (write_RMW_virtual_dword u32)" "only_writes (write_RMW_virtual_qword u64)"
  by (auto simp: only_writes_def write_RMW_virtual_byte_def write_RMW_virtual_word_def write_RMW_virtual_dword_def write_RMW_virtual_qword_def
    rmw_def mem_rmw_write_1_def mem_rmw_write_2_def mem_rmw_write_4_def mem_rmw_write_8_def rmw_store_def rbind_Inr_iff)

lemma only_writesD:
  assumes "only_writes m" "m s = Inr (r, t)"
  shows "r = Inr ()" "flags_ok t = flags_ok s" "flags_of t = flags_of s"
proof -
  obtain mem where t: "r = Inr ()" "t = s\<lparr>b_x := (b_x s)\<lparr>x_mem := mem\<rparr>\<rparr>" using assms unfolding only_writes_def by blast
  then have "b_oszapc t = b_oszapc s" "b_status t = b_status s" "b_eflags t = b_eflags s" by simp_all
  then show "flags_ok t = flags_ok s" "flags_of t = flags_of s" by (rule flags_cong)+
  show "r = Inr ()" by (rule t(1))
qed

lemma performs_memI:
  assumes calming: "\<And>a. calming (rdw a)" "\<And>a. calming (rd a)" and writing: "\<And>v. only_writes (wr v)"
    and src: "\<And>s t. calm s t \<Longrightarrow> src t = src s"
    and fault: "\<And>s x. flags_ok s \<Longrightarrow> (if alu_writes op then rdw else rd) (addr s) s = Inl x \<Longrightarrow> m s = Inl x"
    and raises: "\<And>s e t. flags_ok s \<Longrightarrow> (if alu_writes op then rdw else rd) (addr s) s = Inr (Inl e, t) \<Longrightarrow> m s = Inr (Inl e, t)"
    and no_room: "\<And>s a s1 x. flags_ok s \<Longrightarrow> (if alu_writes op then rdw else rd) (addr s) s = Inr (Inr a, s1) \<Longrightarrow> flags_ok s1 \<Longrightarrow>
      flags_of s1 = flags_of s \<Longrightarrow> src s1 = src s \<Longrightarrow> alu_writes op \<Longrightarrow>
      wr (alu_result op (flags_of s CF) a (src s)) s1 = Inl x \<Longrightarrow> m s = Inl x"
    and runs: "\<And>s a s1 s2. flags_ok s \<Longrightarrow> (if alu_writes op then rdw else rd) (addr s) s = Inr (Inr a, s1) \<Longrightarrow> flags_ok s1 \<Longrightarrow>
      flags_of s1 = flags_of s \<Longrightarrow> src s1 = src s \<Longrightarrow>
      (if alu_writes op then wr (alu_result op (flags_of s CF) a (src s)) s1 = Inr (Inr (), s2) else s2 = s1) \<Longrightarrow>
      flags_ok s2 \<Longrightarrow> flags_of s2 = flags_of s \<Longrightarrow>
      \<exists>t. m s = Inr (Inr (), t) \<and> shows_flags t (alu_flags op (flags_of s) a (src s)) \<and> same_but_flags t s2"
  shows "performs_mem op rdw rd wr addr src m"
  unfolding performs_mem_def
proof (intro allI impI)
  fix s assume ok: "flags_ok s"
  let ?rd = "(if alu_writes op then rdw else rd) (addr s)"
  let ?wr = "\<lambda>a. (if alu_writes op then wr (alu_result op (flags_of s CF) a (src s)) else ret ())"
  have cm: "calming ?rd" using calming by simp
  show "case ?rd s of Inl x \<Rightarrow> m s = Inl x | Inr (Inl e, s1) \<Rightarrow> m s = Inr (Inl e, s1)
    | Inr (Inr a, s1) \<Rightarrow> (case ?wr a s1 of Inl x \<Rightarrow> m s = Inl x
       | Inr (_, s2) \<Rightarrow> \<exists>t. m s = Inr (Inr (), t) \<and> shows_flags t (alu_flags op (flags_of s) a (src s)) \<and> same_but_flags t s2)"
  proof (cases "?rd s")
    case (Inl x)
    then show ?thesis using fault[OF ok Inl] by simp
  next
    case (Inr p)
    obtain q s1 where p: "p = (q, s1)" by (cases p)
    show ?thesis
    proof (cases q)
      case (Inl e)
      then show ?thesis using raises[OF ok, of e s1] Inr p by simp
    next
      case (Inr a)
      have r: "?rd s = Inr (Inr a, s1)" using \<open>?rd s = Inr p\<close> p Inr by simp
      then have c: "calm s s1" using cm unfolding calming_def by blast
      note s1 = calm_flags[OF c] src[OF c]
      show ?thesis
      proof (cases "?wr a s1")
        case (Inl x)
        then have w: "alu_writes op" by (simp split: if_splits)
        then show ?thesis using no_room[OF ok r _ _ _ w, of x] s1 ok r Inl by simp
      next
        case (Inr p2)
        obtain q2 s2 where p2: "p2 = (q2, s2)" by (cases p2)
        have s2: "(if alu_writes op then wr (alu_result op (flags_of s CF) a (src s)) s1 = Inr (Inr (), s2) else s2 = s1)"
          "flags_ok s2 = flags_ok s1" "flags_of s2 = flags_of s1"
          using Inr p2 only_writesD[OF writing, of _ s1 q2 s2] by (auto split: if_splits)
        then show ?thesis using runs[OF ok r _ _ _ s2(1)] s1 s2 ok r Inr p2 by simp
      qed
    qed
  qed
qed

lemma shows_same: "flags_ok s \<Longrightarrow> flags_of s = fl \<Longrightarrow> shows_flags s fl" by (simp add: shows_flags_iff)

lemmas memory_simps = register_simps calm_reads ResolveModrm_def shows_same

section \<open>The instructions\<close>

definition alu_regs8 :: "inst \<Rightarrow> (alu \<times> 8 place \<times> (bcpu \<Rightarrow> u8) \<times> unit exec) list" where
  "alu_regs8 i = [
    (Add, (part8 (i_nnn i) i), (fst (part8 (i_rm i) i)), ADD_GbEbR i),
    (Add, (READ_8BIT_REGL RAX, WRITE_8BIT_REGL RAX), (\<lambda>_. i_Ib i), ADD_ALIb i),
    (Adc, (part8 (i_nnn i) i), (fst (part8 (i_rm i) i)), ADC_GbEbR i),
    (Adc, (READ_8BIT_REGL RAX, WRITE_8BIT_REGL RAX), (\<lambda>_. i_Ib i), ADC_ALIb i),
    (Sbb, (part8 (i_nnn i) i), (fst (part8 (i_rm i) i)), SBB_GbEbR i),
    (Sbb, (READ_8BIT_REGL RAX, WRITE_8BIT_REGL RAX), (\<lambda>_. i_Ib i), SBB_ALIb i),
    (Sbb, (part8 (i_rm i) i), (\<lambda>_. i_Ib i), SBB_EbIbR i),
    (Sub, (part8 (i_nnn i) i), (fst (part8 (i_rm i) i)), SUB_GbEbR i),
    (Sub, (READ_8BIT_REGL RAX, WRITE_8BIT_REGL RAX), (\<lambda>_. i_Ib i), SUB_ALIb i),
    (Cmp, (part8 (i_nnn i) i), (fst (part8 (i_rm i) i)), CMP_GbEbR i),
    (Cmp, (READ_8BIT_REGL RAX, WRITE_8BIT_REGL RAX), (\<lambda>_. i_Ib i), CMP_ALIb i),
    (Add, (part8 (i_rm i) i), (\<lambda>_. i_Ib i), ADD_EbIbR i),
    (Adc, (part8 (i_rm i) i), (\<lambda>_. i_Ib i), ADC_EbIbR i),
    (Sub, (part8 (i_rm i) i), (\<lambda>_. i_Ib i), SUB_EbIbR i),
    (Cmp, (part8 (i_rm i) i), (\<lambda>_. i_Ib i), CMP_EbIbR i),
    (Neg, (part8 (i_rm i) i), (\<lambda>_. 0), NEG_EbR i),
    (Inc, (part8 (i_rm i) i), (\<lambda>_. 0), INC_EbR i),
    (Dec, (part8 (i_rm i) i), (\<lambda>_. 0), DEC_EbR i),
    (Xor, (part8 (i_nnn i) i), (fst (part8 (i_rm i) i)), XOR_GbEbR i),
    (Xor, (READ_8BIT_REGL RAX, WRITE_8BIT_REGL RAX), (\<lambda>_. i_Ib i), XOR_ALIb i),
    (Xor, (part8 (i_rm i) i), (\<lambda>_. i_Ib i), XOR_EbIbR i),
    (Or, (part8 (i_rm i) i), (\<lambda>_. i_Ib i), OR_EbIbR i),
    (Not, (part8 (i_rm i) i), (\<lambda>_. 0), NOT_EbR i),
    (Or, (part8 (i_nnn i) i), (fst (part8 (i_rm i) i)), OR_GbEbR i),
    (Or, (READ_8BIT_REGL RAX, WRITE_8BIT_REGL RAX), (\<lambda>_. i_Ib i), OR_ALIb i),
    (And, (part8 (i_nnn i) i), (fst (part8 (i_rm i) i)), AND_GbEbR i),
    (And, (READ_8BIT_REGL RAX, WRITE_8BIT_REGL RAX), (\<lambda>_. i_Ib i), AND_ALIb i),
    (And, (part8 (i_rm i) i), (\<lambda>_. i_Ib i), AND_EbIbR i),
    (Test, (part8 (i_rm i) i), (fst (part8 (i_nnn i) i)), TEST_EbGbR i),
    (Test, (READ_8BIT_REGL RAX, WRITE_8BIT_REGL RAX), (\<lambda>_. i_Ib i), TEST_ALIb i),
    (Test, (part8 (i_rm i) i), (\<lambda>_. i_Ib i), TEST_EbIbR i)]"

definition alu_regs16 :: "inst \<Rightarrow> (alu \<times> 16 place \<times> (bcpu \<Rightarrow> u16) \<times> unit exec) list" where
  "alu_regs16 i = [
    (Inc, (part16 (i_rm i) i), (\<lambda>_. 0), INC_RX i),
    (Dec, (part16 (i_rm i) i), (\<lambda>_. 0), DEC_RX i),
    (Add, (part16 (i_nnn i) i), (fst (part16 (i_rm i) i)), ADD_GwEwR i),
    (Add, (part16 RAX i), (\<lambda>_. i_Iw i), ADD_AXIw i),
    (Adc, (part16 (i_nnn i) i), (fst (part16 (i_rm i) i)), ADC_GwEwR i),
    (Adc, (part16 RAX i), (\<lambda>_. i_Iw i), ADC_AXIw i),
    (Sbb, (part16 (i_nnn i) i), (fst (part16 (i_rm i) i)), SBB_GwEwR i),
    (Sbb, (part16 RAX i), (\<lambda>_. i_Iw i), SBB_AXIw i),
    (Sbb, (part16 (i_rm i) i), (\<lambda>_. i_Iw i), SBB_EwIwR i),
    (Sub, (part16 (i_nnn i) i), (fst (part16 (i_rm i) i)), SUB_GwEwR i),
    (Sub, (part16 RAX i), (\<lambda>_. i_Iw i), SUB_AXIw i),
    (Cmp, (part16 (i_nnn i) i), (fst (part16 (i_rm i) i)), CMP_GwEwR i),
    (Cmp, (part16 RAX i), (\<lambda>_. i_Iw i), CMP_AXIw i),
    (Add, (part16 (i_rm i) i), (\<lambda>_. i_Iw i), ADD_EwIwR i),
    (Adc, (part16 (i_rm i) i), (\<lambda>_. i_Iw i), ADC_EwIwR i),
    (Sub, (part16 (i_rm i) i), (\<lambda>_. i_Iw i), SUB_EwIwR i),
    (Cmp, (part16 (i_rm i) i), (\<lambda>_. i_Iw i), CMP_EwIwR i),
    (Neg, (part16 (i_rm i) i), (\<lambda>_. 0), NEG_EwR i),
    (Xor, (part16 (i_nnn i) i), (fst (part16 (i_rm i) i)), XOR_GwEwR i),
    (Xor, (part16 RAX i), (\<lambda>_. i_Iw i), XOR_AXIw i),
    (Xor, (part16 (i_rm i) i), (\<lambda>_. i_Iw i), XOR_EwIwR i),
    (Or, (part16 (i_rm i) i), (\<lambda>_. i_Iw i), OR_EwIwR i),
    (Not, (part16 (i_rm i) i), (\<lambda>_. 0), NOT_EwR i),
    (Or, (part16 (i_nnn i) i), (fst (part16 (i_rm i) i)), OR_GwEwR i),
    (Or, (part16 RAX i), (\<lambda>_. i_Iw i), OR_AXIw i),
    (And, (part16 (i_nnn i) i), (fst (part16 (i_rm i) i)), AND_GwEwR i),
    (And, (part16 RAX i), (\<lambda>_. i_Iw i), AND_AXIw i),
    (And, (part16 (i_rm i) i), (\<lambda>_. i_Iw i), AND_EwIwR i),
    (Test, (part16 (i_rm i) i), (fst (part16 (i_nnn i) i)), TEST_EwGwR i),
    (Test, (part16 RAX i), (\<lambda>_. i_Iw i), TEST_AXIw i),
    (Test, (part16 (i_rm i) i), (\<lambda>_. i_Iw i), TEST_EwIwR i)]"

definition alu_regs32 :: "inst \<Rightarrow> (alu \<times> 32 place \<times> (bcpu \<Rightarrow> u32) \<times> unit exec) list" where
  "alu_regs32 i = [
    (Inc, (part32 (i_rm i) i), (\<lambda>_. 0), INC_ERX i),
    (Dec, (part32 (i_rm i) i), (\<lambda>_. 0), DEC_ERX i),
    (Add, (part32 (i_nnn i) i), (fst (part32 (i_rm i) i)), ADD_GdEdR i),
    (Add, (part32 RAX i), (\<lambda>_. i_Id i), ADD_EAXId i),
    (Adc, (part32 (i_nnn i) i), (fst (part32 (i_rm i) i)), ADC_GdEdR i),
    (Adc, (part32 RAX i), (\<lambda>_. i_Id i), ADC_EAXId i),
    (Sbb, (part32 (i_nnn i) i), (fst (part32 (i_rm i) i)), SBB_GdEdR i),
    (Sbb, (part32 RAX i), (\<lambda>_. i_Id i), SBB_EAXId i),
    (Sbb, (part32 (i_rm i) i), (\<lambda>_. i_Id i), SBB_EdIdR i),
    (Sub, (part32 (i_nnn i) i), (fst (part32 (i_rm i) i)), SUB_GdEdR i),
    (Sub, (part32 RAX i), (\<lambda>_. i_Id i), SUB_EAXId i),
    (Cmp, (part32 (i_nnn i) i), (fst (part32 (i_rm i) i)), CMP_GdEdR i),
    (Cmp, (part32 RAX i), (\<lambda>_. i_Id i), CMP_EAXId i),
    (Add, (part32 (i_rm i) i), (\<lambda>_. i_Id i), ADD_EdIdR i),
    (Adc, (part32 (i_rm i) i), (\<lambda>_. i_Id i), ADC_EdIdR i),
    (Sub, (part32 (i_rm i) i), (\<lambda>_. i_Id i), SUB_EdIdR i),
    (Cmp, (part32 (i_rm i) i), (\<lambda>_. i_Id i), CMP_EdIdR i),
    (Neg, (part32 (i_rm i) i), (\<lambda>_. 0), NEG_EdR i),
    (Xor, (part32 (i_nnn i) i), (fst (part32 (i_rm i) i)), XOR_GdEdR i),
    (Xor, (part32 RAX i), (\<lambda>_. i_Id i), XOR_EAXId i),
    (Xor, (part32 (i_rm i) i), (\<lambda>_. i_Id i), XOR_EdIdR i),
    (Or, (part32 (i_rm i) i), (\<lambda>_. i_Id i), OR_EdIdR i),
    (Not, (part32 (i_rm i) i), (\<lambda>_. 0), NOT_EdR i),
    (Or, (part32 (i_nnn i) i), (fst (part32 (i_rm i) i)), OR_GdEdR i),
    (Or, (part32 RAX i), (\<lambda>_. i_Id i), OR_EAXId i),
    (And, (part32 (i_nnn i) i), (fst (part32 (i_rm i) i)), AND_GdEdR i),
    (And, (part32 RAX i), (\<lambda>_. i_Id i), AND_EAXId i),
    (And, (part32 (i_rm i) i), (\<lambda>_. i_Id i), AND_EdIdR i),
    (Test, (part32 (i_rm i) i), (fst (part32 (i_nnn i) i)), TEST_EdGdR i),
    (Test, (part32 RAX i), (\<lambda>_. i_Id i), TEST_EAXId i),
    (Test, (part32 (i_rm i) i), (\<lambda>_. i_Id i), TEST_EdIdR i)]"

definition alu_regs64 :: "inst \<Rightarrow> (alu \<times> 64 place \<times> (bcpu \<Rightarrow> u64) \<times> unit exec) list" where
  "alu_regs64 i = [
    (Add, (part64 (i_nnn i) i), (fst (part64 (i_rm i) i)), ADD_GqEqR i),
    (Add, (part64 RAX i), (\<lambda>_. scast (i_Id i)), ADD_RAXId i),
    (Adc, (part64 (i_nnn i) i), (fst (part64 (i_rm i) i)), ADC_GqEqR i),
    (Adc, (part64 RAX i), (\<lambda>_. scast (i_Id i)), ADC_RAXId i),
    (Sbb, (part64 (i_nnn i) i), (fst (part64 (i_rm i) i)), SBB_GqEqR i),
    (Sbb, (part64 RAX i), (\<lambda>_. scast (i_Id i)), SBB_RAXId i),
    (Sbb, (part64 (i_rm i) i), (\<lambda>_. scast (i_Id i)), SBB_EqIdR i),
    (Sub, (part64 (i_nnn i) i), (fst (part64 (i_rm i) i)), SUB_GqEqR i),
    (Sub, (part64 RAX i), (\<lambda>_. scast (i_Id i)), SUB_RAXId i),
    (Cmp, (part64 (i_nnn i) i), (fst (part64 (i_rm i) i)), CMP_GqEqR i),
    (Cmp, (part64 RAX i), (\<lambda>_. scast (i_Id i)), CMP_RAXId i),
    (Add, (part64 (i_rm i) i), (\<lambda>_. scast (i_Id i)), ADD_EqIdR i),
    (Adc, (part64 (i_rm i) i), (\<lambda>_. scast (i_Id i)), ADC_EqIdR i),
    (Sub, (part64 (i_rm i) i), (\<lambda>_. scast (i_Id i)), SUB_EqIdR i),
    (Cmp, (part64 (i_rm i) i), (\<lambda>_. scast (i_Id i)), CMP_EqIdR i),
    (Neg, (part64 (i_rm i) i), (\<lambda>_. 0), NEG_EqR i),
    (Inc, (part64 (i_rm i) i), (\<lambda>_. 0), INC_EqR i),
    (Xor, (part64 (i_nnn i) i), (fst (part64 (i_rm i) i)), XOR_GqEqR i),
    (Xor, (part64 RAX i), (\<lambda>_. scast (i_Id i)), XOR_RAXId i),
    (Xor, (part64 (i_rm i) i), (\<lambda>_. scast (i_Id i)), XOR_EqIdR i),
    (Or, (part64 (i_rm i) i), (\<lambda>_. scast (i_Id i)), OR_EqIdR i),
    (Not, (part64 (i_rm i) i), (\<lambda>_. 0), NOT_EqR i),
    (Or, (part64 (i_nnn i) i), (fst (part64 (i_rm i) i)), OR_GqEqR i),
    (Or, (part64 RAX i), (\<lambda>_. scast (i_Id i)), OR_RAXId i),
    (And, (part64 (i_nnn i) i), (fst (part64 (i_rm i) i)), AND_GqEqR i),
    (And, (part64 RAX i), (\<lambda>_. scast (i_Id i)), AND_RAXId i),
    (And, (part64 (i_rm i) i), (\<lambda>_. scast (i_Id i)), AND_EqIdR i),
    (Test, (part64 (i_rm i) i), (fst (part64 (i_nnn i) i)), TEST_EqGqR i),
    (Test, (part64 RAX i), (\<lambda>_. scast (i_Id i)), TEST_RAXId i),
    (Test, (part64 (i_rm i) i), (\<lambda>_. scast (i_Id i)), TEST_EqIdR i)]"

definition alu_mems8 :: "inst \<Rightarrow> (alu \<times> (bcpu \<Rightarrow> u8) \<times> unit exec) list" where
  "alu_mems8 i = [
    (Add, (fst (part8 (i_nnn i) i)), ADD_EbGbM i),
    (Adc, (fst (part8 (i_nnn i) i)), ADC_EbGbM i),
    (Sbb, (fst (part8 (i_nnn i) i)), SBB_EbGbM i),
    (Sbb, (\<lambda>_. i_Ib i), SBB_EbIbM i),
    (Sub, (fst (part8 (i_nnn i) i)), SUB_EbGbM i),
    (Cmp, (fst (part8 (i_nnn i) i)), CMP_EbGbM i),
    (Add, (\<lambda>_. i_Ib i), ADD_EbIbM i),
    (Adc, (\<lambda>_. i_Ib i), ADC_EbIbM i),
    (Sub, (\<lambda>_. i_Ib i), SUB_EbIbM i),
    (Cmp, (\<lambda>_. i_Ib i), CMP_EbIbM i),
    (Neg, (\<lambda>_. 0), NEG_EbM i),
    (Inc, (\<lambda>_. 0), INC_EbM i),
    (Dec, (\<lambda>_. 0), DEC_EbM i),
    (Xor, (fst (part8 (i_nnn i) i)), XOR_EbGbM i),
    (Xor, (\<lambda>_. i_Ib i), XOR_EbIbM i),
    (Or, (\<lambda>_. i_Ib i), OR_EbIbM i),
    (Not, (\<lambda>_. 0), NOT_EbM i),
    (Or, (fst (part8 (i_nnn i) i)), OR_EbGbM i),
    (And, (fst (part8 (i_nnn i) i)), AND_EbGbM i),
    (And, (\<lambda>_. i_Ib i), AND_EbIbM i)]"

definition alu_mems16 :: "inst \<Rightarrow> (alu \<times> (bcpu \<Rightarrow> u16) \<times> unit exec) list" where
  "alu_mems16 i = [
    (Add, (fst (part16 (i_nnn i) i)), ADD_EwGwM i),
    (Adc, (fst (part16 (i_nnn i) i)), ADC_EwGwM i),
    (Sbb, (fst (part16 (i_nnn i) i)), SBB_EwGwM i),
    (Sbb, (\<lambda>_. i_Iw i), SBB_EwIwM i),
    (Sub, (fst (part16 (i_nnn i) i)), SUB_EwGwM i),
    (Cmp, (fst (part16 (i_nnn i) i)), CMP_EwGwM i),
    (Add, (\<lambda>_. i_Iw i), ADD_EwIwM i),
    (Adc, (\<lambda>_. i_Iw i), ADC_EwIwM i),
    (Sub, (\<lambda>_. i_Iw i), SUB_EwIwM i),
    (Cmp, (\<lambda>_. i_Iw i), CMP_EwIwM i),
    (Neg, (\<lambda>_. 0), NEG_EwM i),
    (Inc, (\<lambda>_. 0), INC_EwM i),
    (Dec, (\<lambda>_. 0), DEC_EwM i),
    (Xor, (fst (part16 (i_nnn i) i)), XOR_EwGwM i),
    (Xor, (\<lambda>_. i_Iw i), XOR_EwIwM i),
    (Or, (\<lambda>_. i_Iw i), OR_EwIwM i),
    (Not, (\<lambda>_. 0), NOT_EwM i),
    (Or, (fst (part16 (i_nnn i) i)), OR_EwGwM i),
    (And, (fst (part16 (i_nnn i) i)), AND_EwGwM i),
    (And, (\<lambda>_. i_Iw i), AND_EwIwM i)]"

definition alu_mems32 :: "inst \<Rightarrow> (alu \<times> (bcpu \<Rightarrow> u32) \<times> unit exec) list" where
  "alu_mems32 i = [
    (Add, (fst (part32 (i_nnn i) i)), ADD_EdGdM i),
    (Adc, (fst (part32 (i_nnn i) i)), ADC_EdGdM i),
    (Sbb, (fst (part32 (i_nnn i) i)), SBB_EdGdM i),
    (Sbb, (\<lambda>_. i_Id i), SBB_EdIdM i),
    (Sub, (fst (part32 (i_nnn i) i)), SUB_EdGdM i),
    (Cmp, (fst (part32 (i_nnn i) i)), CMP_EdGdM i),
    (Add, (\<lambda>_. i_Id i), ADD_EdIdM i),
    (Adc, (\<lambda>_. i_Id i), ADC_EdIdM i),
    (Sub, (\<lambda>_. i_Id i), SUB_EdIdM i),
    (Cmp, (\<lambda>_. i_Id i), CMP_EdIdM i),
    (Neg, (\<lambda>_. 0), NEG_EdM i),
    (Inc, (\<lambda>_. 0), INC_EdM i),
    (Dec, (\<lambda>_. 0), DEC_EdM i),
    (Xor, (fst (part32 (i_nnn i) i)), XOR_EdGdM i),
    (Xor, (\<lambda>_. i_Id i), XOR_EdIdM i),
    (Or, (\<lambda>_. i_Id i), OR_EdIdM i),
    (Not, (\<lambda>_. 0), NOT_EdM i),
    (Or, (fst (part32 (i_nnn i) i)), OR_EdGdM i),
    (And, (fst (part32 (i_nnn i) i)), AND_EdGdM i),
    (And, (\<lambda>_. i_Id i), AND_EdIdM i)]"

definition alu_mems64 :: "inst \<Rightarrow> (alu \<times> (bcpu \<Rightarrow> u64) \<times> unit exec) list" where
  "alu_mems64 i = [
    (Add, (fst (part64 (i_nnn i) i)), ADD_EqGqM i),
    (Adc, (fst (part64 (i_nnn i) i)), ADC_EqGqM i),
    (Sbb, (fst (part64 (i_nnn i) i)), SBB_EqGqM i),
    (Sbb, (\<lambda>_. scast (i_Id i)), SBB_EqIdM i),
    (Sub, (fst (part64 (i_nnn i) i)), SUB_EqGqM i),
    (Cmp, (fst (part64 (i_nnn i) i)), CMP_EqGqM i),
    (Add, (\<lambda>_. scast (i_Id i)), ADD_EqIdM i),
    (Adc, (\<lambda>_. scast (i_Id i)), ADC_EqIdM i),
    (Sub, (\<lambda>_. scast (i_Id i)), SUB_EqIdM i),
    (Cmp, (\<lambda>_. scast (i_Id i)), CMP_EqIdM i),
    (Neg, (\<lambda>_. 0), NEG_EqM i),
    (Inc, (\<lambda>_. 0), INC_EqM i),
    (Dec, (\<lambda>_. 0), DEC_EqM i),
    (Xor, (fst (part64 (i_nnn i) i)), XOR_EqGqM i),
    (Xor, (\<lambda>_. scast (i_Id i)), XOR_EqIdM i),
    (Or, (\<lambda>_. scast (i_Id i)), OR_EqIdM i),
    (Not, (\<lambda>_. 0), NOT_EqM i),
    (Or, (fst (part64 (i_nnn i) i)), OR_EqGqM i),
    (And, (fst (part64 (i_nnn i) i)), AND_EqGqM i),
    (And, (\<lambda>_. scast (i_Id i)), AND_EqIdM i)]"

lemma registers_8: "list_all (\<lambda>(op, p, src, m). performs op p src m) (alu_regs8 i)"
  unfolding alu_regs8_def list.pred_inject prod.case
  by (intro conjI list.pred_inject(1); simp add: register_simps ADD_GbEbR_def ADD_ALIb_def ADC_GbEbR_def ADC_ALIb_def SBB_GbEbR_def SBB_ALIb_def SBB_EbIbR_def SUB_GbEbR_def SUB_ALIb_def CMP_GbEbR_def CMP_ALIb_def ADD_EbIbR_def ADC_EbIbR_def SUB_EbIbR_def CMP_EbIbR_def NEG_EbR_def INC_EbR_def DEC_EbR_def XOR_GbEbR_def XOR_ALIb_def XOR_EbIbR_def OR_EbIbR_def NOT_EbR_def OR_GbEbR_def OR_ALIb_def AND_GbEbR_def AND_ALIb_def AND_EbIbR_def TEST_EbGbR_def TEST_ALIb_def TEST_EbIbR_def del: adc_codes)

lemma registers_16: "list_all (\<lambda>(op, p, src, m). performs op p src m) (alu_regs16 i)"
  unfolding alu_regs16_def list.pred_inject prod.case
  by (intro conjI list.pred_inject(1); simp add: register_simps INC_RX_def DEC_RX_def ADD_GwEwR_def ADD_AXIw_def ADC_GwEwR_def ADC_AXIw_def SBB_GwEwR_def SBB_AXIw_def SBB_EwIwR_def SUB_GwEwR_def SUB_AXIw_def CMP_GwEwR_def CMP_AXIw_def ADD_EwIwR_def ADC_EwIwR_def SUB_EwIwR_def CMP_EwIwR_def NEG_EwR_def XOR_GwEwR_def XOR_AXIw_def XOR_EwIwR_def OR_EwIwR_def NOT_EwR_def OR_GwEwR_def OR_AXIw_def AND_GwEwR_def AND_AXIw_def AND_EwIwR_def TEST_EwGwR_def TEST_AXIw_def TEST_EwIwR_def del: adc_codes)

lemma registers_32: "list_all (\<lambda>(op, p, src, m). performs op p src m) (alu_regs32 i)"
  unfolding alu_regs32_def list.pred_inject prod.case
  by (intro conjI list.pred_inject(1) inc_ERX dec_ERX; simp add: register_simps ADD_GdEdR_def ADD_EAXId_def ADC_GdEdR_def ADC_EAXId_def SBB_GdEdR_def SBB_EAXId_def SBB_EdIdR_def SUB_GdEdR_def SUB_EAXId_def CMP_GdEdR_def CMP_EAXId_def ADD_EdIdR_def ADC_EdIdR_def SUB_EdIdR_def CMP_EdIdR_def NEG_EdR_def XOR_GdEdR_def XOR_EAXId_def XOR_EdIdR_def OR_EdIdR_def NOT_EdR_def OR_GdEdR_def OR_EAXId_def AND_GdEdR_def AND_EAXId_def AND_EdIdR_def TEST_EdGdR_def TEST_EAXId_def TEST_EdIdR_def del: adc_codes)

lemma registers_64: "list_all (\<lambda>(op, p, src, m). performs op p src m) (alu_regs64 i)"
  unfolding alu_regs64_def list.pred_inject prod.case
  by (intro conjI list.pred_inject(1); simp add: register_simps ADD_GqEqR_def ADD_RAXId_def ADC_GqEqR_def ADC_RAXId_def SBB_GqEqR_def SBB_RAXId_def SBB_EqIdR_def SUB_GqEqR_def SUB_RAXId_def CMP_GqEqR_def CMP_RAXId_def ADD_EqIdR_def ADC_EqIdR_def SUB_EqIdR_def CMP_EqIdR_def NEG_EqR_def INC_EqR_def XOR_GqEqR_def XOR_RAXId_def XOR_EqIdR_def OR_EqIdR_def NOT_EqR_def OR_GqEqR_def OR_RAXId_def AND_GqEqR_def AND_RAXId_def AND_EqIdR_def TEST_EqGqR_def TEST_RAXId_def TEST_EqIdR_def del: adc_codes)

lemma memory_8: "list_all (\<lambda>(op, src, m). performs_mem op read_RMW_virtual_byte read_virtual_byte write_RMW_virtual_byte (resolve_with (i_resolve i) i) src m) (alu_mems8 i)"
  unfolding alu_mems8_def list.pred_inject prod.case
  by (intro conjI list.pred_inject(1); rule performs_memI; simp add: memory_simps ADD_EbGbM_def ADC_EbGbM_def SBB_EbGbM_def SBB_EbIbM_def SUB_EbGbM_def CMP_EbGbM_def ADD_EbIbM_def ADC_EbIbM_def SUB_EbIbM_def CMP_EbIbM_def NEG_EbM_def INC_EbM_def DEC_EbM_def XOR_EbGbM_def XOR_EbIbM_def OR_EbIbM_def NOT_EbM_def OR_EbGbM_def AND_EbGbM_def AND_EbIbM_def del: adc_codes)

lemma memory_16: "list_all (\<lambda>(op, src, m). performs_mem op read_RMW_virtual_word read_virtual_word write_RMW_virtual_word (resolve_with (i_resolve i) i) src m) (alu_mems16 i)"
  unfolding alu_mems16_def list.pred_inject prod.case
  by (intro conjI list.pred_inject(1); rule performs_memI; simp add: memory_simps ADD_EwGwM_def ADC_EwGwM_def SBB_EwGwM_def SBB_EwIwM_def SUB_EwGwM_def CMP_EwGwM_def ADD_EwIwM_def ADC_EwIwM_def SUB_EwIwM_def CMP_EwIwM_def NEG_EwM_def INC_EwM_def DEC_EwM_def XOR_EwGwM_def XOR_EwIwM_def OR_EwIwM_def NOT_EwM_def OR_EwGwM_def AND_EwGwM_def AND_EwIwM_def del: adc_codes)

lemma memory_32: "list_all (\<lambda>(op, src, m). performs_mem op read_RMW_virtual_dword read_virtual_dword write_RMW_virtual_dword (resolve_with (i_resolve i) i) src m) (alu_mems32 i)"
  unfolding alu_mems32_def list.pred_inject prod.case
  by (intro conjI list.pred_inject(1); rule performs_memI; simp add: memory_simps ADD_EdGdM_def ADC_EdGdM_def SBB_EdGdM_def SBB_EdIdM_def SUB_EdGdM_def CMP_EdGdM_def ADD_EdIdM_def ADC_EdIdM_def SUB_EdIdM_def CMP_EdIdM_def NEG_EdM_def INC_EdM_def DEC_EdM_def XOR_EdGdM_def XOR_EdIdM_def OR_EdIdM_def NOT_EdM_def OR_EdGdM_def AND_EdGdM_def AND_EdIdM_def del: adc_codes)

lemma memory_64: "list_all (\<lambda>(op, src, m). performs_mem op read_RMW_virtual_qword read_virtual_qword write_RMW_virtual_qword (resolve_with (i_resolve i) i) src m) (alu_mems64 i)"
  unfolding alu_mems64_def list.pred_inject prod.case
  by (intro conjI list.pred_inject(1); rule performs_memI; simp add: memory_simps ADD_EqGqM_def ADC_EqGqM_def SBB_EqGqM_def SBB_EqIdM_def SUB_EqGqM_def CMP_EqGqM_def ADD_EqIdM_def ADC_EqIdM_def SUB_EqIdM_def CMP_EqIdM_def NEG_EqM_def INC_EqM_def DEC_EqM_def XOR_EqGqM_def XOR_EqIdM_def OR_EqIdM_def NOT_EqM_def OR_EqGqM_def AND_EqGqM_def AND_EqIdM_def del: adc_codes)

section \<open>The properties\<close>



text \<open>\<open>DEC_EqR\<close> sets the flags by the macro of the increment: decrementing the smallest integer overflows, and no flag says so.\<close>

lemma dec_EqR_flags:
  assumes "flags_ok s" and "READ_64BIT_REG (i_rm i) s = 0x8000000000000000"
  shows "\<exists>t. DEC_EqR i s = Inr (Inr (), t) \<and> flags_of t OF = False \<and> alu_flags Dec (flags_of s) (READ_64BIT_REG (i_rm i) s) 0 OF"
proof -
  let ?u = "WRITE_64BIT_REG (i_rm i) 0x7FFFFFFFFFFFFFFF s"
  have ok: "flags_ok ?u" using assms(1) by (simp add: flags_written)
  have "flag_step (SET_FLAGS_OSZAPC_INC_64 (0x7FFFFFFFFFFFFFFE + 1)) ?u
      = Inr (Inr (), stepped (SET_FLAGS_OSZAPC_INC_64 (0x7FFFFFFFFFFFFFFE + 1)) ?u)"
    and sf: "shows_flags (stepped (SET_FLAGS_OSZAPC_INC_64 (0x7FFFFFFFFFFFFFFE + 1)) ?u)
      ((add_flags (0x7FFFFFFFFFFFFFFE :: u64) 1 False)(CF := flags_of ?u CF))"
    using stepped_inc_dec(4,12)[OF ok] by blast+
  then have "DEC_EqR i s = Inr (Inr (), stepped (SET_FLAGS_OSZAPC_INC_64 0x7FFFFFFFFFFFFFFF) ?u)"
    using assms(2) by (simp add: DEC_EqR_def bbind_def gets_def bseq_def upd_def Let_def)
  moreover have "\<not> flags_of (stepped (SET_FLAGS_OSZAPC_INC_64 0x7FFFFFFFFFFFFFFF) ?u) OF"
    using sf by (simp add: shows_flags_iff add_flags_def signed_range_def)
  moreover have "sub_flags (0x8000000000000000 :: u64) 1 False OF" by (simp add: sub_flags_def signed_range_def)
  ultimately show ?thesis using assms(2) by (simp add: alu_flags_def)
qed

end
